(* ===== verification/Zos_Prelude.thy ===== *)
theory Zos_Prelude
  imports Main "HOL-Library.Word"
begin

text \<open>
  Shared vocabulary of the development: the machine integer types of the kernel
  (\<open>include/stdint.h\<close>), the alignment macros of \<open>include/kernel/kernel.h\<close>, the two loop
  shapes that almost every table of the kernel is scanned with (first matching slot, page by
  page), and the generic lemmas about them. Everything here is used by at least two components.
\<close>

unbundle bit_operations_syntax

section \<open>Machine integers\<close>

type_synonym u8 = "8 word"
type_synonym u16 = "16 word"
type_synonym u32 = "32 word"
type_synonym u64 = "64 word"

named_theorems zos_defs \<open>definitions that the component proofs unfold together\<close>
named_theorems zos_inv \<open>preservation lemmas of component invariants\<close>

abbreviation PAGE_SIZE :: u32 where "PAGE_SIZE \<equiv> 4096"
abbreviation KERNEL_VMA :: u32 where "KERNEL_VMA \<equiv> 0xC0000000"

text \<open>\<open>ALIGN_UP(x, align)\<close>: the addition wraps at 32 bits, as in C.\<close>

definition ALIGN_UP :: "u32 \<Rightarrow> u32 \<Rightarrow> u32" where
  "ALIGN_UP x align = (x + (align - 1)) AND NOT (align - 1)"

lemma and_not_mask_push_drop: "x AND NOT (mask n) = push_bit n (drop_bit n (x::'a::len word))"
  by (rule bit_word_eqI) (auto simp: bit_simps)

lemma unat_push_drop: "unat (push_bit n (drop_bit n (x::'a::len word))) = unat x div 2 ^ n * 2 ^ n"
proof -
  have "unat (push_bit n (drop_bit n x)) = take_bit LENGTH('a) (push_bit n (drop_bit n (unat x)))"
    by (simp only: unsigned_push_bit_eq unat_drop_bit_eq)
  also have "push_bit n (drop_bit n (unat x)) = unat x div 2 ^ n * 2 ^ n"
    by (simp add: push_bit_eq_mult drop_bit_eq_div)
  also have "take_bit LENGTH('a) (unat x div 2 ^ n * 2 ^ n) = unat x div 2 ^ n * 2 ^ n"
    by (meson div_times_less_eq_dividend le_less_trans take_bit_nat_eq_self unsigned_less)
  finally show ?thesis .
qed

lemma unat_and_not_mask: "unat ((x::'a::len word) AND NOT (mask n)) = unat x - unat x mod 2 ^ n"
  by (simp add: and_not_mask_push_drop unat_push_drop minus_mod_eq_div_mult)

lemma mask_numerals:
  "(0xF :: 'a::len word) = mask 4" "(0xFFF :: 'a::len word) = mask 12" "(0x3FF :: 'a::len word) = mask 10"
  by (simp_all add: mask_eq_exp_minus_1)

lemma unat_ALIGN_UP_16:
  assumes "unat x + 15 < 2 ^ 32"
  shows "unat (ALIGN_UP x 16) = (unat x + 15) div 16 * 16"
proof -
  have "unat (x + 15) = unat x + 15" using assms by (simp add: unat_word_ariths)
  then show ?thesis
    using unat_and_not_mask [of "x + 15" 4]
    by (simp add: ALIGN_UP_def mask_numerals minus_mod_eq_div_mult)
qed

lemma unat_ALIGN_UP_page:
  assumes "unat x + 4095 < 2 ^ 32"
  shows "unat (ALIGN_UP x PAGE_SIZE) = (unat x + 4095) div 4096 * 4096"
proof -
  have "unat (x + 4095) = unat x + 4095" using assms by (simp add: unat_word_ariths)
  then show ?thesis
    using unat_and_not_mask [of "x + 4095" 12]
    by (simp add: ALIGN_UP_def mask_numerals minus_mod_eq_div_mult)
qed

lemma unat_page_base: "unat (x AND NOT 0xFFF :: u32) = unat x - unat x mod 4096"
  using unat_and_not_mask [of x 12] by (simp add: mask_numerals)

lemma page_base_alt: "(x :: u32) AND 0xFFFFF000 = x AND NOT 0xFFF"
proof -
  have "(0xFFFFF000 :: u32) = NOT 0xFFF" by (simp add: not_eq_complement)
  then show ?thesis by metis
qed

lemma and_pow2_bit: "(x::'a::len word) AND push_bit n 1 \<noteq> 0 \<longleftrightarrow> bit x n"
  using and_exp_eq_0_iff_not_bit [of x n] by (simp add: push_bit_eq_mult)

lemma unat_lt_u32: "unat (x :: u32) < 4294967296"
proof -
  have "unat x < 2 ^ LENGTH(32)" by (rule unsigned_less)
  then show ?thesis by simp
qed

lemma unat_lt_u16: "unat (x :: u16) < 65536"
proof -
  have "unat x < 2 ^ LENGTH(16)" by (rule unsigned_less)
  then show ?thesis by simp
qed

lemma unat_lt_u8: "unat (x :: u8) < 256"
proof -
  have "unat x < 2 ^ LENGTH(8)" by (rule unsigned_less)
  then show ?thesis by simp
qed

lemma sint_small:
  assumes "(x :: u32) < 0x80000000"
  shows "sint x = uint x"
proof -
  have "uint x < 2 ^ 31" using assms by (simp add: word_less_def)
  moreover have "- (2 ^ 31) \<le> uint x" by (rule order_trans [OF _ uint_ge_0]) simp
  ultimately show ?thesis
    using signed_take_bit_int_eq_self [of 31 "uint x"] by (simp add: sint_uint)
qed

lemma word_less_plus_1:
  assumes "(x :: u32) \<noteq> 0xFFFFFFFF"
  shows "x < x + 1"
proof -
  have "unat x \<noteq> unat (0xFFFFFFFF :: u32)" using assms by (metis word_unat_eq_iff)
  moreover have "unat (0xFFFFFFFF :: u32) = 4294967295" by simp
  ultimately have "unat x < 4294967295" using unat_lt_u32 [of x] by linarith
  then show ?thesis by (simp add: word_less_nat_alt unat_word_ariths)
qed

section \<open>Multi-byte fields\<close>

text \<open>
  A field of a packet or of a disk sector, in the byte order of the little-endian machine. \<open>store16\<close>
  and \<open>store32\<close> overwrite a field.
\<close>

definition le16 :: "u16 \<Rightarrow> u8 list" where "le16 w = [ucast w, ucast (drop_bit 8 w)]"

definition le32 :: "u32 \<Rightarrow> u8 list" where
  "le32 w = [ucast w, ucast (drop_bit 8 w), ucast (drop_bit 16 w), ucast (drop_bit 24 w)]"

definition rd16 :: "u8 list \<Rightarrow> nat \<Rightarrow> u16" where
  "rd16 bs i = ucast (bs ! i) OR push_bit 8 (ucast (bs ! (i + 1)))"

definition rd32 :: "u8 list \<Rightarrow> nat \<Rightarrow> u32" where
  "rd32 bs i = ucast (bs ! i) OR push_bit 8 (ucast (bs ! (i + 1))) OR push_bit 16 (ucast (bs ! (i + 2)))
     OR push_bit 24 (ucast (bs ! (i + 3)))"

definition store16 :: "nat \<Rightarrow> u16 \<Rightarrow> u8 list \<Rightarrow> u8 list" where
  "store16 i w bs = take i bs @ le16 w @ drop (i + 2) bs"

definition store32 :: "nat \<Rightarrow> u32 \<Rightarrow> u8 list \<Rightarrow> u8 list" where
  "store32 i w bs = take i bs @ le32 w @ drop (i + 4) bs"

lemma rd16_bits: "(ucast (ucast w :: u8) :: u16) OR push_bit 8 (ucast (ucast (drop_bit 8 w) :: u8)) = w"
  by (rule bit_word_eqI) (auto simp: bit_simps)

lemma rd32_bits: "(ucast (ucast w :: u8) :: u32) OR push_bit 8 (ucast (ucast (drop_bit 8 w) :: u8))
    OR push_bit 16 (ucast (ucast (drop_bit 16 w) :: u8)) OR push_bit 24 (ucast (ucast (drop_bit 24 w) :: u8)) = w"
proof (rule bit_word_eqI)
  fix n assume "n < LENGTH(32)"
  then show "bit ((ucast (ucast w :: u8) :: u32) OR push_bit 8 (ucast (ucast (drop_bit 8 w) :: u8))
    OR push_bit 16 (ucast (ucast (drop_bit 16 w) :: u8)) OR push_bit 24 (ucast (ucast (drop_bit 24 w) :: u8))) n = bit w n"
    by (cases "n < 8"; cases "n < 16"; cases "n < 24") (auto simp: bit_simps)
qed

lemma unat_up: "unat (ucast (a :: u8) :: u16) = unat a" "unat (ucast (a :: u8) :: u32) = unat a"
  "unat (ucast (b :: u16) :: u32) = unat b"
  using unat_lt_u8 [of a] unat_lt_u16 [of b] by (simp_all add: unsigned_ucast_eq take_bit_nat_eq_self)

lemma unat_down: "unat (ucast (x :: u32) :: u16) = unat x mod 65536"
  by (simp add: unsigned_ucast_eq take_bit_eq_mod)

lemma length_le [simp]: "length (le16 w) = 2" "length (le32 v) = 4"
  by (simp_all add: le16_def le32_def)

lemma rd16_at: "i = length xs \<Longrightarrow> rd16 (xs @ le16 w @ ys) i = w"
  using rd16_bits [of w] by (simp add: rd16_def le16_def nth_append)

lemma rd32_at: "i = length xs \<Longrightarrow> rd32 (xs @ le32 w @ ys) i = w"
  using rd32_bits [of w] by (simp add: rd32_def le32_def nth_append numeral_2_eq_2 numeral_3_eq_3)

lemma length_store16 [simp]: "i + 2 \<le> length bs \<Longrightarrow> length (store16 i w bs) = length bs"
  by (simp add: store16_def)

lemma rd16_store16: "i + 2 \<le> length bs \<Longrightarrow> rd16 (store16 i w bs) i = w"
  unfolding store16_def by (rule rd16_at) simp

lemma length_store32 [simp]: "i + 4 \<le> length bs \<Longrightarrow> length (store32 i w bs) = length bs"
  by (simp add: store32_def)

lemma rd32_store32: "i + 4 \<le> length bs \<Longrightarrow> rd32 (store32 i w bs) i = w"
  unfolding store32_def by (rule rd32_at) simp

lemma nth_store32: "i + 4 \<le> length bs \<Longrightarrow> k < i \<or> i + 4 \<le> k \<Longrightarrow> k < length bs \<Longrightarrow> store32 i w bs ! k = bs ! k"
  by (auto simp: store32_def nth_append nth_append_right le32_def)

lemma rd32_store32_other:
  assumes "i + 4 \<le> length bs" and "j + 4 \<le> length bs" and "j + 4 \<le> i \<or> i + 4 \<le> j"
  shows "rd32 (store32 i w bs) j = rd32 bs j"
proof -
  have "store32 i w bs ! (j + k) = bs ! (j + k)" if "k < 4" for k using assms that by (intro nth_store32) auto
  from this [of 0] this [of 1] this [of 2] this [of 3] show ?thesis by (simp add: rd32_def)
qed

text \<open>\<open>memcpy(d + off, b, length b)\<close> within the buffer \<open>d\<close>.\<close>

definition overlay :: "nat \<Rightarrow> u8 list \<Rightarrow> u8 list \<Rightarrow> u8 list" where
  "overlay off b d = take off d @ b @ drop (off + length b) d"

lemma length_overlay: "off + length b \<le> length d \<Longrightarrow> length (overlay off b d) = length d"
  by (simp add: overlay_def)

lemma nth_overlay:
  "off + length b \<le> length d \<Longrightarrow> i < length d \<Longrightarrow>
     overlay off b d ! i = (if off \<le> i \<and> i < off + length b then b ! (i - off) else d ! i)"
  by (auto simp: overlay_def nth_append)

section \<open>The first matching slot of a table\<close>

text \<open>
  The kernel looks a slot up with \<open>for (i = 0; i < MAX; i++) if (P(t[i])) return i;\<close>.
\<close>

fun find_idx :: "('a \<Rightarrow> bool) \<Rightarrow> 'a list \<Rightarrow> nat option" where
  "find_idx P [] = None"
| "find_idx P (x # xs) = (if P x then Some 0 else map_option Suc (find_idx P xs))"

lemma find_idx_None [simp]: "find_idx P xs = None \<longleftrightarrow> (\<forall>x \<in> set xs. \<not> P x)"
  by (induction xs) auto

lemma find_idx_None_nth: "find_idx P xs = None \<longleftrightarrow> (\<forall>i < length xs. \<not> P (xs ! i))"
  by (simp add: all_set_conv_all_nth)

lemma find_idx_Some:
  "find_idx P xs = Some i \<longleftrightarrow> i < length xs \<and> P (xs ! i) \<and> (\<forall>j < i. \<not> P (xs ! j))"
proof (induction xs arbitrary: i)
  case Nil
  then show ?case by simp
next
  case (Cons x xs)
  then show ?case
    by (cases i) (auto simp: nth_Cons split: nat.splits)
qed

lemma find_idx_SomeD: "find_idx P xs = Some i \<Longrightarrow> i < length xs \<and> P (xs ! i)"
  by (simp add: find_idx_Some)

lemma find_idx_unique:
  "i < length xs \<Longrightarrow> P (xs ! i) \<Longrightarrow> (\<And>j. j < length xs \<Longrightarrow> P (xs ! j) \<Longrightarrow> j = i) \<Longrightarrow> find_idx P xs = Some i"
proof -
  assume i: "i < length xs" "P (xs ! i)" and u: "\<And>j. j < length xs \<Longrightarrow> P (xs ! j) \<Longrightarrow> j = i"
  have "\<not> P (xs ! j)" if "j < i" for j
    using u [of j] that i(1) by auto
  with i show "find_idx P xs = Some i" by (simp add: find_idx_Some)
qed

lemma find_idx_snoc:
  "find_idx P (xs @ [y]) = (case find_idx P xs of Some i \<Rightarrow> Some i | None \<Rightarrow> if P y then Some (length xs) else None)"
proof (induction xs)
  case (Cons x xs)
  then show ?case by (cases "find_idx P xs") (simp_all del: find_idx_None)
qed simp

lemma find_idx_replicate [simp]: "find_idx P (replicate n x) = (if 0 < n \<and> P x then Some 0 else None)"
  by (induction n) auto

lemma find_idx_update_miss:
  "\<not> P (xs ! i) \<Longrightarrow> \<not> P x \<Longrightarrow> find_idx P (xs[i := x]) = find_idx P xs"
proof (induction xs arbitrary: i)
  case (Cons y ys)
  then show ?case by (cases i) auto
qed simp

lemma find_idx_hit: "\<forall>x \<in> set xs. \<not> P x \<Longrightarrow> i < length xs \<Longrightarrow> P y \<Longrightarrow> find_idx P (xs[i := y]) = Some i"
  by (intro find_idx_unique) (auto simp: nth_list_update split: if_splits dest: nth_mem)

section \<open>Page ranges\<close>

text \<open>
  The addresses visited by \<open>for (p = a; p < b; p += PAGE_SIZE)\<close>. Every such loop of the kernel
  runs over a bound \<open>b\<close> that lies a whole number of pages from \<open>a\<close>, or far enough below
  \<open>2 ^ 32\<close>, so the increment never wraps before the loop stops; \<open>page_range_unfold\<close> is the loop's
  unfolding in that case.
\<close>

definition page_range :: "u32 \<Rightarrow> u32 \<Rightarrow> u32 list" where
  "page_range a b = map (\<lambda>k. a + of_nat k * PAGE_SIZE) [0 ..< (unat b - unat a + 4095) div 4096]"

lemma page_range_empty: "\<not> a < b \<Longrightarrow> page_range a b = []"
  by (simp add: page_range_def word_less_nat_alt)

lemma page_count_Suc:
  assumes "(a::nat) < b"
  shows "(b - a + 4095) div 4096 = Suc ((b - (a + 4096) + 4095) div 4096)"
proof (cases "b \<le> a + 4096")
  case True
  define d where "d = b - a - 1"
  have "d < 4096" "b - a + 4095 = 4096 + d" "b - (a + 4096) = 0"
    using True assms by (auto simp: d_def)
  then show ?thesis by simp
next
  case False
  define d where "d = b - (a + 4096)"
  have "b - a + 4095 = 4096 + (d + 4095)" using False by (simp add: d_def)
  moreover have "b - (a + 4096) + 4095 = d + 4095" by (simp add: d_def)
  ultimately show ?thesis by simp
qed

lemma page_range_unfold:
  assumes "a < b" and "unat a + 4096 < 2 ^ 32"
  shows "page_range a b = a # page_range (a + PAGE_SIZE) b"
proof -
  have u: "unat (a + PAGE_SIZE) = unat a + 4096" using assms(2) by (simp add: unat_word_ariths)
  have c: "(unat b - unat a + 4095) div 4096 = Suc ((unat b - unat (a + PAGE_SIZE) + 4095) div 4096)"
    using page_count_Suc [of "unat a" "unat b"] assms(1) by (simp add: u word_less_nat_alt)
  show ?thesis
    unfolding page_range_def c upt_conv_Cons [OF zero_less_Suc] map_Suc_upt [symmetric]
    by (simp only: list.map map_map o_def of_nat_Suc distrib_right mult_1_left add.assoc) simp
qed

lemma set_page_range: "p \<in> set (page_range a b) \<longleftrightarrow>
    (\<exists>k < (unat b - unat a + 4095) div 4096. p = a + of_nat k * PAGE_SIZE)"
  by (simp only: page_range_def set_map set_upt atLeast0LessThan image_iff lessThan_iff Bex_def)

section \<open>Lists updated at one index\<close>

lemma update_same_nth [simp]: "i < length xs \<Longrightarrow> xs[i := xs ! i] = xs"
  by simp

lemma card_insert_bounded:
  "finite A \<Longrightarrow> x \<notin> A \<Longrightarrow> card (insert x A) = Suc (card A)"
  by simp

section \<open>Closing a gap in an array\<close>

text \<open>The loop \<open>for (j = i; j < n; j++) a[j] = a[j + 1];\<close> by which tables of the kernel remove an entry.\<close>

definition shift_down :: "nat \<Rightarrow> nat \<Rightarrow> 'a list \<Rightarrow> 'a list" where
  "shift_down i n xs = fold (\<lambda>j xs. xs[j := xs ! Suc j]) [i ..< n] xs"

lemma shift_down_nth:
  "i \<le> n \<Longrightarrow> n < length xs \<Longrightarrow> length (shift_down i n xs) = length xs \<and>
     (\<forall>k < length xs. shift_down i n xs ! k = (if i \<le> k \<and> k < n then xs ! Suc k else xs ! k))"
proof (induction n)
  case (Suc n)
  show ?case
  proof (cases "i = Suc n")
    case False
    then have i: "i \<le> n" using Suc.prems by simp
    then have "shift_down i (Suc n) xs = (shift_down i n xs)[n := shift_down i n xs ! Suc n]"
      by (simp add: shift_down_def)
    then show ?thesis using Suc i by (auto simp: nth_list_update less_Suc_eq)
  qed (auto simp: shift_down_def)
qed (simp add: shift_down_def)

lemma length_shift_down [simp]: "i \<le> n \<Longrightarrow> n < length xs \<Longrightarrow> length (shift_down i n xs) = length xs"
  by (simp add: shift_down_nth)

lemma take_shift_down:
  assumes "i < n" and "n \<le> length xs"
  shows "take (n - 1) (shift_down i (n - 1) xs) = take i xs @ drop (Suc i) (take n xs)"
  using shift_down_nth [of i "n - 1" xs] assms
  by (intro nth_equalityI) (auto simp: nth_append)

end
