(* ===== verification/Interfaces.thy ===== *)
theory Interfaces
  imports Zos_Prelude
begin

text \<open>
  The interfaces between the components. Each locale names the operations a client calls and the
  laws the provider promises; the client's lemmas are proved here once, from the laws alone. The
  providers' theories interpret the locales on the model's own definitions:
  \<open>Pmm\<close> provides \<open>frame_source\<close> (clients: page tables, heap, mmap, shared memory);
  \<open>Ipc_Props\<close> (pipes), \<open>Net_Props\<close> (the loopback device) and \<open>Kbd\<close> (key events) provide \<open>bounded_fifo\<close>;
  \<open>Ata\<close> provides \<open>sector_device\<close>, on which \<open>Fat_Props\<close> rests.
\<close>

section \<open>A source of physical page frames\<close>

text \<open>
  \<open>alloc\<close> returns the address of a frame, or 0; \<open>used\<close> is the set of frames that are handed out
  or reserved. The laws are what a client may rely on: a frame handed out was not in use before,
  is in use afterwards, nothing else changes, and a failed call takes nothing away.
\<close>

locale frame_source =
  fixes alloc :: "'s \<Rightarrow> u32 \<times> 's"
    and free :: "u32 \<Rightarrow> 's \<Rightarrow> 's"
    and used :: "'s \<Rightarrow> u32 set"
    and ok :: "'s \<Rightarrow> bool"
  assumes alloc_ok: "ok s \<Longrightarrow> alloc s = (a, s') \<Longrightarrow> ok s'"
    and alloc_fresh: "ok s \<Longrightarrow> alloc s = (a, s') \<Longrightarrow> a \<noteq> 0 \<Longrightarrow> a \<notin> used s \<and> a AND 0xFFF = 0"
    and alloc_used: "ok s \<Longrightarrow> alloc s = (a, s') \<Longrightarrow> a \<noteq> 0 \<Longrightarrow> used s' = insert a (used s)"
    and alloc_fail: "ok s \<Longrightarrow> alloc s = (0, s') \<Longrightarrow> used s \<subseteq> used s'"
    and free_ok: "ok s \<Longrightarrow> ok (free a s)"
    and free_used: "ok s \<Longrightarrow> a AND 0xFFF = 0 \<Longrightarrow> used (free a s) = used s - {a}"
begin

lemma alloc_mono: "ok s \<Longrightarrow> alloc s = (a, s') \<Longrightarrow> used s \<subseteq> used s'"
  by (cases "a = 0") (auto dest: alloc_fail alloc_used)

text \<open>Freeing a frame that was just handed out restores the set of frames in use.\<close>

lemma alloc_free_used:
  assumes "ok s" and "alloc s = (a, s')" and "a \<noteq> 0"
  shows "used (free a s') = used s"
  using alloc_fresh [OF assms] alloc_used [OF assms] free_used [OF alloc_ok [OF assms(1,2)], of a]
  by auto

text \<open>Two frames handed out in a row, with no call of \<open>free\<close> between them, are distinct.\<close>

lemma alloc_alloc_distinct:
  assumes "ok s" and "alloc s = (a, s')" and "a \<noteq> 0" and "alloc s' = (b, s'')" and "b \<noteq> 0"
  shows "a \<noteq> b"
  using alloc_used [OF assms(1-3)] alloc_fresh [OF alloc_ok [OF assms(1,2)] assms(4,5)] by auto

end

section \<open>A bounded first-in first-out buffer\<close>

text \<open>
  \<open>push\<close> adds at the end, \<open>pop\<close> removes the oldest element; both are called only with room or with
  something to remove, the way the kernel's ring buffers guard them with their counter.
\<close>

fun pop_n :: "('s \<Rightarrow> 'a \<times> 's) \<Rightarrow> nat \<Rightarrow> 's \<Rightarrow> 'a list \<times> 's" where
  "pop_n pop 0 s = ([], s)"
| "pop_n pop (Suc n) s = (case pop s of (x, s1) \<Rightarrow> case pop_n pop n s1 of (xs, s2) \<Rightarrow> (x # xs, s2))"

locale bounded_fifo =
  fixes push :: "'a \<Rightarrow> 's \<Rightarrow> 's"
    and pop :: "'s \<Rightarrow> 'a \<times> 's"
    and content :: "'s \<Rightarrow> 'a list"
    and cap :: nat
    and ok :: "'s \<Rightarrow> bool"
  assumes push_ok: "ok s \<Longrightarrow> length (content s) < cap \<Longrightarrow> ok (push x s)"
    and push_content: "ok s \<Longrightarrow> length (content s) < cap \<Longrightarrow> content (push x s) = content s @ [x]"
    and pop_ok: "ok s \<Longrightarrow> content s \<noteq> [] \<Longrightarrow> ok (snd (pop s))"
    and pop_content: "ok s \<Longrightarrow> content s \<noteq> [] \<Longrightarrow> content s = fst (pop s) # content (snd (pop s))"
begin

lemma push_all:
  "ok s \<Longrightarrow> length (content s) + length xs \<le> cap \<Longrightarrow>
     ok (fold push xs s) \<and> content (fold push xs s) = content s @ xs"
proof (induction xs arbitrary: s)
  case (Cons x xs)
  then have "length (content s) < cap" by simp
  then show ?case using Cons push_ok [of s x] push_content [of s x] by simp
qed simp

lemma pop_all:
  "ok s \<Longrightarrow> n \<le> length (content s) \<Longrightarrow>
     fst (pop_n pop n s) = take n (content s) \<and> content (snd (pop_n pop n s)) = drop n (content s) \<and>
     ok (snd (pop_n pop n s))"
proof (induction n arbitrary: s)
  case (Suc n)
  obtain x t where p: "pop s = (x, t)" by fastforce
  have "content s \<noteq> []" using Suc.prems(2) by auto
  then have t: "ok t" "content s = x # content t"
    using pop_ok [OF Suc.prems(1)] pop_content [OF Suc.prems(1)] p by simp_all
  then show ?case using Suc.IH [of t] Suc.prems(2) p by (simp add: case_prod_beta)
qed simp

text \<open>What is pushed comes out again, in order, behind what was there before.\<close>

lemma push_pop_all:
  assumes "ok s" and "length (content s) + length xs \<le> cap"
  shows "fst (pop_n pop (length (content s) + length xs) (fold push xs s)) = content s @ xs"
  using pop_all [of "fold push xs s"] push_all [OF assms] by simp

end

section \<open>Ring buffers\<close>

text \<open>The elements of a ring from position \<open>rd\<close> on, and the two updates of the kernel's rings.\<close>

definition ring_content :: "'a list \<Rightarrow> nat \<Rightarrow> nat \<Rightarrow> 'a list" where
  "ring_content buf rd n = map (\<lambda>i. buf ! ((rd + i) mod length buf)) [0 ..< n]"

lemma length_ring_content [simp]: "length (ring_content buf rd n) = n"
  by (simp add: ring_content_def)

lemma ring_content_0 [simp]: "ring_content buf rd 0 = []"
  by (simp add: ring_content_def)

lemma ring_content_nth: "i < n \<Longrightarrow> ring_content buf rd n ! i = buf ! ((rd + i) mod length buf)"
  by (simp add: ring_content_def)

lemma ring_slots_distinct:
  assumes "i < j" and "j < (N :: nat)"
  shows "(rd + i) mod N \<noteq> (rd + j) mod N"
proof
  assume "(rd + i) mod N = (rd + j) mod N"
  then have "N dvd (rd + j) - (rd + i)" using mod_eq_dvd_iff_nat [of "rd + i" "rd + j" N] assms by simp
  then show False using assms by (auto dest: dvd_imp_le)
qed

lemma ring_push:
  assumes "n < length buf"
  shows "ring_content (buf[(rd + n) mod length buf := x]) rd (Suc n) = ring_content buf rd n @ [x]"
proof -
  have "(rd + n) mod length buf \<noteq> (rd + i) mod length buf" if "i < n" for i
    using ring_slots_distinct [of i n "length buf" rd] that assms by simp
  moreover have "(rd + k) mod length buf < length buf" for k using assms by (intro mod_less_divisor) linarith
  ultimately show ?thesis by (auto simp: ring_content_def nth_list_update)
qed

lemma ring_pop:
  assumes "rd < length buf" and "0 < n"
  shows "ring_content buf rd n = buf ! rd # ring_content buf ((rd + 1) mod length buf) (n - 1)"
proof -
  obtain m where m: "n = Suc m" using assms(2) gr0_conv_Suc by blast
  have "((rd + 1) mod N + i) mod N = (rd + Suc i) mod N" for i N :: nat by (simp add: mod_simps)
  then show ?thesis
    using assms(1) by (simp add: m ring_content_def upt_conv_Cons del: upt_Suc flip: map_Suc_upt)
qed


section \<open>A device of 512-byte sectors\<close>

text \<open>
  \<open>rd\<close> gives the bytes of a sector, \<open>None\<close> when the device reports an error; \<open>wr\<close> says whether the device
  took the bytes. \<open>place\<close> is where an address lies on the medium: a device may have fewer address lines
  than the address has bits. The runs are the loops of the clients over consecutive sectors.
\<close>

fun read_run :: "(u32 \<Rightarrow> 's \<Rightarrow> u8 list option) \<Rightarrow> u32 \<Rightarrow> nat \<Rightarrow> 's \<Rightarrow> u8 list option" where
  "read_run rd a 0 s = Some []"
| "read_run rd a (Suc n) s =
     (case rd a s of None \<Rightarrow> None
      | Some bs \<Rightarrow> map_option ((@) bs) (read_run rd (a + 1) n s))"

fun write_run :: "(u32 \<Rightarrow> u8 list \<Rightarrow> 's \<Rightarrow> bool \<times> 's) \<Rightarrow> u32 \<Rightarrow> nat \<Rightarrow> u8 list \<Rightarrow> 's \<Rightarrow> bool \<times> 's" where
  "write_run wr a 0 bs s = (True, s)"
| "write_run wr a (Suc n) bs s =
     (case wr a (take 512 bs) s of (ok, s') \<Rightarrow> if ok then write_run wr (a + 1) n (drop 512 bs) s' else (False, s'))"

locale sector_device =
  fixes rd :: "u32 \<Rightarrow> 's \<Rightarrow> u8 list option"
    and wr :: "u32 \<Rightarrow> u8 list \<Rightarrow> 's \<Rightarrow> bool \<times> 's"
    and place :: "u32 \<Rightarrow> u32"
    and ok :: "'s \<Rightarrow> bool"
  assumes rd_length: "ok s \<Longrightarrow> rd a s = Some bs \<Longrightarrow> length bs = 512"
    and wr_ok: "ok s \<Longrightarrow> length bs = 512 \<Longrightarrow> ok (snd (wr a bs s))"
    and rd_wr_same: "ok s \<Longrightarrow> length bs = 512 \<Longrightarrow> fst (wr a bs s) \<Longrightarrow> rd b s \<noteq> None \<Longrightarrow> place a = place b \<Longrightarrow>
      rd b (snd (wr a bs s)) = Some bs"
    and rd_wr_other: "ok s \<Longrightarrow> length bs = 512 \<Longrightarrow> place a \<noteq> place b \<Longrightarrow> rd b (snd (wr a bs s)) = rd b s"
    and wr_again: "ok s \<Longrightarrow> length bs = 512 \<Longrightarrow> length bs' = 512 \<Longrightarrow> fst (wr b bs' (snd (wr a bs s))) = fst (wr b bs' s)"
    and rd_again: "ok s \<Longrightarrow> length bs = 512 \<Longrightarrow> (rd b (snd (wr a bs s)) = None) = (rd b s = None)"
begin

lemma read_run_length: "ok s \<Longrightarrow> read_run rd a n s = Some bs \<Longrightarrow> length bs = 512 * n"
proof (induction n arbitrary: a bs)
  case (Suc n)
  then show ?case by (auto simp: rd_length split: option.splits)
qed simp

lemma write_run_ok: "ok s \<Longrightarrow> length bs = 512 * n \<Longrightarrow> ok (snd (write_run wr a n bs s))"
proof (induction n arbitrary: a bs s)
  case (Suc n)
  then have "ok (snd (wr a (take 512 bs) s))" by (intro wr_ok) auto
  then show ?case using Suc by (auto split: prod.split)
qed simp

lemma write_run_other:
  "ok s \<Longrightarrow> length bs = 512 * n \<Longrightarrow> (\<And>k. k < n \<Longrightarrow> place (a + of_nat k) \<noteq> place b) \<Longrightarrow> rd b (snd (write_run wr a n bs s)) = rd b s"
proof (induction n arbitrary: a bs s)
  case (Suc n)
  have len: "length (take 512 bs) = 512" using Suc.prems(2) by simp
  have "place a \<noteq> place b" using Suc.prems(3) [of 0] by simp
  moreover have "place (a + 1 + of_nat k) \<noteq> place b" if "k < n" for k
    using Suc.prems(3) [of "Suc k"] that by (simp add: algebra_simps)
  ultimately show ?case
    using Suc.IH [of "snd (wr a (take 512 bs) s)" "drop 512 bs" "a + 1"] rd_wr_other [OF Suc.prems(1) len, of a b]
      wr_ok [OF Suc.prems(1) len, of a] Suc.prems(2)
    by (auto split: prod.split)
qed simp

lemma write_run_run:
  "ok s \<Longrightarrow> length bs = 512 * n \<Longrightarrow> (\<And>i k. i < n \<Longrightarrow> k < m \<Longrightarrow> place (a + of_nat i) \<noteq> place (b + of_nat k)) \<Longrightarrow>
     read_run rd b m (snd (write_run wr a n bs s)) = read_run rd b m s"
proof (induction m arbitrary: b)
  case (Suc m)
  have "rd b (snd (write_run wr a n bs s)) = rd b s"
    using Suc.prems(3) [of _ 0] by (intro write_run_other Suc.prems(1,2)) simp
  have "place (a + of_nat i) \<noteq> place (b + 1 + of_nat k)" if "i < n" "k < m" for i k
    using Suc.prems(3) [OF that(1), of "Suc k"] that(2) by (simp add: algebra_simps)
  then have "read_run rd (b + 1) m (snd (write_run wr a n bs s)) = read_run rd (b + 1) m s" by (intro Suc.IH Suc.prems(1,2))
  with \<open>rd b (snd (write_run wr a n bs s)) = rd b s\<close> show ?case by (simp split: option.split)
qed simp

lemma write_run_one:
  assumes "ok s" and "length bs = 512" and "\<And>k. k < m \<Longrightarrow> place a \<noteq> place (b + of_nat k)"
  shows "read_run rd b m (snd (wr a bs s)) = read_run rd b m s"
proof -
  have "snd (write_run wr a 1 bs s) = snd (wr a bs s)" using assms(2) by (simp split: prod.split)
  then show ?thesis using write_run_run [OF assms(1), of bs 1 m a b] assms(2,3) by simp
qed

lemma write_read_run:
  "ok s \<Longrightarrow> length bs = 512 * n \<Longrightarrow> fst (write_run wr a n bs s) \<Longrightarrow> read_run rd a n s \<noteq> None \<Longrightarrow>
     (\<And>i k. i < k \<Longrightarrow> k < n \<Longrightarrow> place (a + of_nat i) \<noteq> place (a + of_nat k)) \<Longrightarrow>
     read_run rd a n (snd (write_run wr a n bs s)) = Some bs"
proof (induction n arbitrary: a bs s)
  case (Suc n)
  let ?s = "snd (wr a (take 512 bs) s)"
  have len: "length (take 512 bs) = 512" using Suc.prems(2) by simp
  have w: "fst (wr a (take 512 bs) s)" "fst (write_run wr (a + 1) n (drop 512 bs) ?s)"
    using Suc.prems(3) by (auto split: prod.splits if_splits)
  then have r: "write_run wr a (Suc n) bs s = write_run wr (a + 1) n (drop 512 bs) ?s"
    by (auto split: prod.splits)
  have d: "place (a + 1 + of_nat i) \<noteq> place (a + 1 + of_nat k)" if "i < k" "k < n" for i k
    using Suc.prems(5) [of "Suc i" "Suc k"] that by (simp add: algebra_simps)
  have d0: "place a \<noteq> place (a + 1 + of_nat k)" if "k < n" for k
    using Suc.prems(5) [of 0 "Suc k"] that by (simp add: algebra_simps)
  have "rd a s \<noteq> None" using Suc.prems(4) by (auto split: option.splits)
  then have "rd a ?s = Some (take 512 bs)" by (intro rd_wr_same Suc.prems(1) len w) simp_all
  then have h: "rd a (snd (write_run wr (a + 1) n (drop 512 bs) ?s)) = Some (take 512 bs)"
    using write_run_other [OF wr_ok [OF Suc.prems(1) len] _ not_sym [OF d0], of "drop 512 bs" n] Suc.prems(2) by simp
  have "read_run rd (a + 1) n s \<noteq> None" using Suc.prems(4) by (auto split: option.splits)
  moreover have "read_run rd (a + 1) n ?s = read_run rd (a + 1) n s"
    using write_run_run [OF Suc.prems(1), of "take 512 bs" 1 n a "a + 1"] len d0 by (auto split: prod.splits if_splits)
  ultimately have "read_run rd (a + 1) n ?s \<noteq> None" by simp
  then have "read_run rd (a + 1) n (snd (write_run wr (a + 1) n (drop 512 bs) ?s)) = Some (drop 512 bs)"
    using Suc.IH [of ?s "drop 512 bs" "a + 1"] wr_ok [OF Suc.prems(1) len] Suc.prems(2) w(2) d by simp
  then show ?case unfolding r using h by simp
qed simp

lemma read_run_again:
  assumes "ok s" and "length bs = 512"
  shows "(read_run rd b m (snd (wr a bs s)) = None) = (read_run rd b m s = None)"
proof (induction m arbitrary: b)
  case (Suc m)
  then show ?case using rd_again [OF assms, of b a] by (auto split: option.split)
qed simp

end

end
