(* ===== verification/Pmm.thy ===== *)
theory Pmm
  imports Interfaces
begin

text \<open>
  The physical memory manager, \<open>kernel/mm/pmm.c\<close>: a bitmap with one bit per 4 KiB frame (set =
  in use) and a counter of used frames. The file's static variables are the fields of \<open>pmm\<close>. The
  multiboot structure contributes its \<open>flags\<close> and \<open>mem_upper\<close>, the linker symbol
  \<open>_kernel_end_phys\<close> is an argument of \<open>pmm_init\<close>.

  Main results: \<open>pmm_alloc_frame\<close> returns the lowest free frame and marks exactly that frame, and
  returns 0 only when no frame but frame 0 is free; the used counter always equals the number of
  set bits; the operations implement the \<open>frame_source\<close> interface.
\<close>

section \<open>State\<close>

record pmm =
  pmm_bitmap :: "u32 list"
  pmm_bitmap_size :: u32
  pmm_total_frames :: u32
  pmm_used_frames :: u32
  pmm_total_memory :: u32

record multiboot_info =
  mb_flags :: u32
  mb_mem_upper :: u32

text \<open>\<open>MULTIBOOT_INFO_MEMORY\<close> of \<open>include/kernel/multiboot.h\<close>.\<close>

abbreviation MULTIBOOT_INFO_MEMORY :: u32 where "MULTIBOOT_INFO_MEMORY \<equiv> 1"

section \<open>Operations\<close>

definition BITMAP_TEST :: "pmm \<Rightarrow> u32 \<Rightarrow> bool" where
  "BITMAP_TEST p frame =
     (pmm_bitmap p ! unat (frame div 32) AND push_bit (unat (frame mod 32)) 1 \<noteq> 0)"

definition BITMAP_SET :: "u32 \<Rightarrow> pmm \<Rightarrow> pmm" where
  "BITMAP_SET frame p = p\<lparr>pmm_bitmap := (pmm_bitmap p)[unat (frame div 32) :=
     pmm_bitmap p ! unat (frame div 32) OR push_bit (unat (frame mod 32)) 1]\<rparr>"

definition BITMAP_CLEAR :: "u32 \<Rightarrow> pmm \<Rightarrow> pmm" where
  "BITMAP_CLEAR frame p = p\<lparr>pmm_bitmap := (pmm_bitmap p)[unat (frame div 32) :=
     pmm_bitmap p ! unat (frame div 32) AND NOT (push_bit (unat (frame mod 32)) 1)]\<rparr>"

definition pmm_mark_used :: "u32 \<Rightarrow> pmm \<Rightarrow> pmm" where
  "pmm_mark_used addr p =
     (let frame = addr div PAGE_SIZE in
      if frame \<ge> pmm_total_frames p then p
      else if \<not> BITMAP_TEST p frame
      then (BITMAP_SET frame p)\<lparr>pmm_used_frames := pmm_used_frames p + 1\<rparr>
      else p)"

definition pmm_free_frame :: "u32 \<Rightarrow> pmm \<Rightarrow> pmm" where
  "pmm_free_frame addr p =
     (let frame = addr div PAGE_SIZE in
      if frame \<ge> pmm_total_frames p then p
      else if BITMAP_TEST p frame
      then (BITMAP_CLEAR frame p)\<lparr>pmm_used_frames := pmm_used_frames p - 1\<rparr>
      else p)"

text \<open>
  The allocation loop. The inner loop over the bits of word \<open>i\<close> returns from the function as soon
  as it passes the last frame or finds a clear bit (\<open>Some\<close>), or falls through to the next word
  (\<open>None\<close>).
\<close>

fun pmm_scan_word :: "pmm \<Rightarrow> nat \<Rightarrow> nat list \<Rightarrow> (u32 \<times> pmm) option" where
  "pmm_scan_word p i [] = None"
| "pmm_scan_word p i (j # js) =
     (let frame = of_nat i * 32 + of_nat j in
      if frame \<ge> pmm_total_frames p then Some (0, p)
      else if \<not> BITMAP_TEST p frame
      then Some (frame * PAGE_SIZE,
                 (BITMAP_SET frame p)\<lparr>pmm_used_frames := pmm_used_frames p + 1\<rparr>)
      else pmm_scan_word p i js)"

fun pmm_scan :: "pmm \<Rightarrow> nat list \<Rightarrow> u32 \<times> pmm" where
  "pmm_scan p [] = (0, p)"
| "pmm_scan p (i # is) =
     (if pmm_bitmap p ! i \<noteq> 0xFFFFFFFF
      then (case pmm_scan_word p i [0 ..< 32] of Some r \<Rightarrow> r | None \<Rightarrow> pmm_scan p is)
      else pmm_scan p is)"

definition pmm_alloc_frame :: "pmm \<Rightarrow> u32 \<times> pmm" where
  "pmm_alloc_frame p =
     (if pmm_used_frames p \<ge> pmm_total_frames p then (0, p)
      else pmm_scan p [0 ..< unat (pmm_bitmap_size p)])"

definition pmm_get_used_memory :: "pmm \<Rightarrow> u32" where
  "pmm_get_used_memory p = pmm_used_frames p * PAGE_SIZE"

definition pmm_get_free_memory :: "pmm \<Rightarrow> u32" where
  "pmm_get_free_memory p = (pmm_total_frames p - pmm_used_frames p) * PAGE_SIZE"

definition pmm_init :: "multiboot_info \<Rightarrow> u32 \<Rightarrow> pmm" where
  "pmm_init mboot kernel_end_phys =
     (let mem0 = (if mb_flags mboot AND MULTIBOOT_INFO_MEMORY \<noteq> 0
                  then (mb_mem_upper mboot + 1024) * 1024 else 256 * 1024 * 1024);
          mem = (if mem0 = 0 then 256 * 1024 * 1024 else mem0);
          total = mem div PAGE_SIZE;
          size = (total + 31) div 32;
          p0 = \<lparr>pmm_bitmap = replicate (unat size) 0xFFFFFFFF, pmm_bitmap_size = size,
                pmm_total_frames = total, pmm_used_frames = total, pmm_total_memory = mem\<rparr>;
          p1 = fold (\<lambda>frame p. (BITMAP_CLEAR (of_nat frame) p)
                       \<lparr>pmm_used_frames := pmm_used_frames p - 1\<rparr>) [256 ..< unat total] p0;
          kernel_end = ALIGN_UP (kernel_end_phys + size * 4) PAGE_SIZE
      in fold pmm_mark_used (page_range 0x100000 kernel_end) p1)"

section \<open>The bitmap read as a set of frames\<close>

text \<open>Bit \<open>f\<close> of the bitmap, frame numbers as naturals.\<close>

definition frame_used :: "pmm \<Rightarrow> nat \<Rightarrow> bool" where
  "frame_used p f = bit (pmm_bitmap p ! (f div 32)) (f mod 32)"

definition used_frames :: "pmm \<Rightarrow> nat set" where
  "used_frames p = {f. f < unat (pmm_total_frames p) \<and> frame_used p f}"

definition pmm_wf :: "pmm \<Rightarrow> bool" where
  "pmm_wf p \<longleftrightarrow>
     unat (pmm_total_frames p) < 2 ^ 20 \<and>
     unat (pmm_bitmap_size p) = (unat (pmm_total_frames p) + 31) div 32 \<and>
     length (pmm_bitmap p) = unat (pmm_bitmap_size p) \<and>
     unat (pmm_used_frames p) = card (used_frames p)"

lemma pmm_wfD:
  assumes "pmm_wf p"
  shows "unat (pmm_total_frames p) < 2 ^ 20"
    and "length (pmm_bitmap p) = (unat (pmm_total_frames p) + 31) div 32"
    and "unat (pmm_bitmap_size p) = length (pmm_bitmap p)"
    and "unat (pmm_used_frames p) = card (used_frames p)"
  using assms by (auto simp: pmm_wf_def)

lemma used_frames_finite [simp]: "finite (used_frames p)"
  by (simp add: used_frames_def)

lemma frame_index_in_range:
  assumes "pmm_wf p" and "f < unat (pmm_total_frames p)"
  shows "f div 32 < length (pmm_bitmap p)"
  using assms by (auto simp: pmm_wf_def)

lemma BITMAP_TEST_frame_used: "BITMAP_TEST p frame = frame_used p (unat frame)"
  by (simp only: BITMAP_TEST_def frame_used_def and_pow2_bit) (simp add: unat_div unat_mod)

lemma div_mod_32_eq: "(a::nat) div 32 = b div 32 \<Longrightarrow> a mod 32 = b mod 32 \<Longrightarrow> a = b"
  by (metis mult_div_mod_eq)

lemma frame_used_set:
  assumes "unat frame div 32 < length (pmm_bitmap p)"
  shows "frame_used (BITMAP_SET frame p) g \<longleftrightarrow> g = unat frame \<or> frame_used p g"
  using assms
  by (auto simp: frame_used_def BITMAP_SET_def unat_div unat_mod bit_simps nth_list_update
      intro: div_mod_32_eq)

lemma frame_used_clear:
  assumes "unat frame div 32 < length (pmm_bitmap p)"
  shows "frame_used (BITMAP_CLEAR frame p) g \<longleftrightarrow> g \<noteq> unat frame \<and> frame_used p g"
  using assms div_mod_32_eq [of g "unat frame"]
  by (auto simp: frame_used_def BITMAP_CLEAR_def unat_div unat_mod bit_simps nth_list_update)

lemma bitmap_frame [simp]:
  "pmm_total_frames (BITMAP_SET f p) = pmm_total_frames p"
  "pmm_total_frames (BITMAP_CLEAR f p) = pmm_total_frames p"
  "pmm_used_frames (BITMAP_SET f p) = pmm_used_frames p"
  "pmm_used_frames (BITMAP_CLEAR f p) = pmm_used_frames p"
  "pmm_bitmap_size (BITMAP_SET f p) = pmm_bitmap_size p"
  "pmm_bitmap_size (BITMAP_CLEAR f p) = pmm_bitmap_size p"
  "length (pmm_bitmap (BITMAP_SET f p)) = length (pmm_bitmap p)"
  "length (pmm_bitmap (BITMAP_CLEAR f p)) = length (pmm_bitmap p)"
  by (simp_all add: BITMAP_SET_def BITMAP_CLEAR_def)

lemma frame_used_counter [simp]:
  "frame_used (p\<lparr>pmm_used_frames := n\<rparr>) f = frame_used p f"
  by (simp add: frame_used_def)

lemma used_frames_le:
  assumes "pmm_wf p"
  shows "card (used_frames p) \<le> unat (pmm_total_frames p)"
proof -
  have "used_frames p \<subseteq> {..< unat (pmm_total_frames p)}" by (auto simp: used_frames_def)
  then show ?thesis using card_mono [of "{..< unat (pmm_total_frames p)}"] by fastforce
qed

section \<open>Taking and returning one frame\<close>

definition take_frame :: "u32 \<Rightarrow> pmm \<Rightarrow> pmm" where
  "take_frame frame p = (BITMAP_SET frame p)\<lparr>pmm_used_frames := pmm_used_frames p + 1\<rparr>"

definition give_frame :: "u32 \<Rightarrow> pmm \<Rightarrow> pmm" where
  "give_frame frame p = (BITMAP_CLEAR frame p)\<lparr>pmm_used_frames := pmm_used_frames p - 1\<rparr>"

lemma take_frame_total [simp]: "pmm_total_frames (take_frame f p) = pmm_total_frames p"
  by (simp add: take_frame_def)

lemma give_frame_total [simp]: "pmm_total_frames (give_frame f p) = pmm_total_frames p"
  by (simp add: give_frame_def)

lemma take_frame_used_frames:
  assumes "pmm_wf p" and "frame < pmm_total_frames p"
  shows "used_frames (take_frame frame p) = insert (unat frame) (used_frames p)"
  using assms frame_index_in_range [of p "unat frame"]
  by (auto simp: used_frames_def take_frame_def frame_used_set word_less_nat_alt)

lemma give_frame_used_frames:
  assumes "pmm_wf p" and "frame < pmm_total_frames p"
  shows "used_frames (give_frame frame p) = used_frames p - {unat frame}"
  using assms frame_index_in_range [of p "unat frame"]
  by (auto simp: used_frames_def give_frame_def frame_used_clear word_less_nat_alt)

lemma take_frame_wf [zos_inv]:
  assumes "pmm_wf p" and "frame < pmm_total_frames p" and "\<not> frame_used p (unat frame)"
  shows "pmm_wf (take_frame frame p)"
proof -
  have "unat frame \<notin> used_frames p" using assms(3) by (simp add: used_frames_def)
  moreover have "unat (pmm_used_frames p + 1) = Suc (unat (pmm_used_frames p))"
    using used_frames_le [OF assms(1)] pmm_wfD(1,4) [OF assms(1)]
    by (simp add: unat_word_ariths)
  ultimately show ?thesis
    using assms take_frame_used_frames [OF assms(1,2)]
    by (simp add: pmm_wf_def) (simp add: take_frame_def)
qed

lemma give_frame_wf [zos_inv]:
  assumes "pmm_wf p" and "frame < pmm_total_frames p" and "frame_used p (unat frame)"
  shows "pmm_wf (give_frame frame p)"
proof -
  have m: "unat frame \<in> used_frames p"
    using assms(2,3) by (simp add: used_frames_def word_less_nat_alt)
  then have "0 < card (used_frames p)" by (auto simp: card_gt_0_iff)
  then have "unat (pmm_used_frames p - 1) = unat (pmm_used_frames p) - 1"
    using pmm_wfD(4) [OF assms(1)] by (simp add: unat_sub_if')
  then show ?thesis
    using assms m give_frame_used_frames [OF assms(1,2)]
    by (simp add: pmm_wf_def) (simp add: give_frame_def)
qed

text \<open>The operations are these two moves behind their guards.\<close>

lemma pmm_mark_used_alt:
  "pmm_mark_used a p =
     (if a div PAGE_SIZE < pmm_total_frames p \<and> \<not> frame_used p (unat (a div PAGE_SIZE))
      then take_frame (a div PAGE_SIZE) p else p)"
  by (auto simp: pmm_mark_used_def Let_def take_frame_def BITMAP_TEST_frame_used)

lemma pmm_free_frame_alt:
  "pmm_free_frame a p =
     (if a div PAGE_SIZE < pmm_total_frames p \<and> frame_used p (unat (a div PAGE_SIZE))
      then give_frame (a div PAGE_SIZE) p else p)"
  by (auto simp: pmm_free_frame_def Let_def give_frame_def BITMAP_TEST_frame_used)

lemma pmm_mark_used_wf [zos_inv]: "pmm_wf p \<Longrightarrow> pmm_wf (pmm_mark_used a p)"
  by (simp add: pmm_mark_used_alt take_frame_wf)

lemma pmm_free_frame_wf [zos_inv]: "pmm_wf p \<Longrightarrow> pmm_wf (pmm_free_frame a p)"
  by (simp add: pmm_free_frame_alt give_frame_wf)

lemma pmm_mark_used_frames:
  "pmm_wf p \<Longrightarrow> used_frames (pmm_mark_used a p) =
     (if a div PAGE_SIZE < pmm_total_frames p then insert (unat (a div PAGE_SIZE)) (used_frames p)
      else used_frames p)"
  by (auto simp: pmm_mark_used_alt take_frame_used_frames)
     (auto simp: used_frames_def word_less_nat_alt)

lemma pmm_free_used_frames:
  "pmm_wf p \<Longrightarrow> used_frames (pmm_free_frame a p) = used_frames p - {unat (a div PAGE_SIZE)}"
  by (auto simp: pmm_free_frame_alt give_frame_used_frames)
     (auto simp: used_frames_def word_less_nat_alt)

section \<open>Allocation returns the lowest free frame\<close>

definition lowest_free :: "pmm \<Rightarrow> nat option" where
  "lowest_free p = find_idx (\<lambda>f. \<not> frame_used p f) [0 ..< unat (pmm_total_frames p)]"

lemma lowest_free_Some:
  "lowest_free p = Some f \<longleftrightarrow>
     f < unat (pmm_total_frames p) \<and> \<not> frame_used p f \<and> (\<forall>g < f. frame_used p g)"
  by (auto simp: lowest_free_def find_idx_Some)

lemma lowest_free_None:
  "lowest_free p = None \<longleftrightarrow> used_frames p = {..< unat (pmm_total_frames p)}"
  unfolding lowest_free_def find_idx_None used_frames_def set_upt set_eq_iff mem_Collect_eq
    lessThan_iff atLeastLessThan_iff Ball_def
  by blast

definition alloc_result :: "pmm \<Rightarrow> u32 \<times> pmm" where
  "alloc_result p = (case lowest_free p of
     None \<Rightarrow> (0, p) | Some f \<Rightarrow> (of_nat f * PAGE_SIZE, take_frame (of_nat f) p))"

lemma frame_word:
  assumes "i * 32 + j < 2 ^ 32"
  shows "unat (of_nat i * 32 + of_nat j :: u32) = i * 32 + j"
proof -
  have "(of_nat i * 32 + of_nat j :: u32) = of_nat (i * 32 + j)" by simp
  also have "unat \<dots> = i * 32 + j" using assms by (simp only: unat_of_nat) simp
  finally show ?thesis .
qed

lemma pmm_scan_word_spec:
  assumes wf: "pmm_wf p" and i: "i < length (pmm_bitmap p)" and j: "j \<le> 32"
    and before: "\<And>f. f < i * 32 + j \<Longrightarrow> f < unat (pmm_total_frames p) \<and> frame_used p f"
  shows "pmm_scan_word p i [j ..< 32] =
    (if \<forall>f < (i + 1) * 32. f < unat (pmm_total_frames p) \<and> frame_used p f then None
     else Some (alloc_result p))"
  using j before
proof (induction "32 - j" arbitrary: j)
  case 0
  then show ?case by (auto simp: algebra_simps)
next
  case (Suc n)
  have ij: "i * 32 + j < 2 ^ 32"
    using i pmm_wfD(1,2) [OF wf] Suc.hyps(2) by simp
  let ?w = "of_nat i * 32 + of_nat j :: u32"
  have upt: "[j ..< 32] = j # [Suc j ..< 32]"
    using Suc.hyps(2) by (simp add: upt_conv_Cons)
  have w: "?w = of_nat (i * 32 + j)" "unat ?w = i * 32 + j"
    using frame_word [OF ij] by simp_all
  have outer: "i * 32 + j < (i + 1) * 32" using Suc.hyps(2) by simp
  consider (past) "unat (pmm_total_frames p) \<le> i * 32 + j"
    | (free) "i * 32 + j < unat (pmm_total_frames p)" "\<not> frame_used p (i * 32 + j)"
    | (used) "i * 32 + j < unat (pmm_total_frames p)" "frame_used p (i * 32 + j)"
    by linarith
  then show ?case
  proof cases
    case past
    have "lowest_free p = None"
      using Suc.prems(2) past by (auto simp: lowest_free_def)
    moreover have "\<not> (\<forall>f < (i + 1) * 32. f < unat (pmm_total_frames p) \<and> frame_used p f)"
      using past outer leD by blast
    ultimately show ?thesis
      using past w(2) unfolding upt
      by (simp add: Let_def word_le_nat_alt alloc_result_def)
  next
    case free
    have "lowest_free p = Some (i * 32 + j)"
      using Suc.prems(2) free by (auto simp: lowest_free_Some)
    moreover have "\<not> (\<forall>f < (i + 1) * 32. f < unat (pmm_total_frames p) \<and> frame_used p f)"
      using free outer by blast
    ultimately show ?thesis
      using free w unfolding upt
      by (simp add: Let_def word_le_nat_alt alloc_result_def take_frame_def BITMAP_TEST_frame_used)
  next
    case used
    have "\<And>f. f < i * 32 + Suc j \<Longrightarrow> f < unat (pmm_total_frames p) \<and> frame_used p f"
      using Suc.prems(2) used by (metis add_Suc_right less_Suc_eq)
    moreover have "n = 32 - Suc j" "Suc j \<le> 32" using Suc.hyps(2) by simp_all
    ultimately have "pmm_scan_word p i [Suc j ..< 32] =
      (if \<forall>f < (i + 1) * 32. f < unat (pmm_total_frames p) \<and> frame_used p f then None
       else Some (alloc_result p))"
      by (rule Suc.hyps(1) [rotated 2])
    then show ?thesis
      using used w unfolding upt
      by (simp add: Let_def word_le_nat_alt BITMAP_TEST_frame_used)
  qed
qed


lemma full_word_used:
  assumes "pmm_bitmap p ! i = 0xFFFFFFFF" and "i * 32 \<le> f" and "f < (i + 1) * 32"
  shows "frame_used p f"
proof -
  have "f div 32 = i" "f mod 32 < 32" using assms(2,3) by auto
  moreover have "(0xFFFFFFFF :: u32) = - 1" by simp
  ultimately show ?thesis
    unfolding frame_used_def using assms(1) by (simp only: bit_minus_1_iff) simp
qed

lemma pmm_scan_spec:
  assumes wf: "pmm_wf p" and i: "i \<le> length (pmm_bitmap p)"
    and before: "\<And>f. f < i * 32 \<Longrightarrow> f < unat (pmm_total_frames p) \<longrightarrow> frame_used p f"
  shows "pmm_scan p [i ..< length (pmm_bitmap p)] = alloc_result p"
  using i before
proof (induction "length (pmm_bitmap p) - i" arbitrary: i)
  case 0
  then have "i = length (pmm_bitmap p)" by simp
  moreover have "unat (pmm_total_frames p) \<le> length (pmm_bitmap p) * 32"
    using pmm_wfD(2) [OF wf] by simp
  ultimately have "lowest_free p = None"
    using 0(3) by (auto simp: lowest_free_def)
  then show ?case using \<open>i = length (pmm_bitmap p)\<close> by (simp add: alloc_result_def)
next
  case (Suc n)
  let ?N = "length (pmm_bitmap p)"
  have il: "i < ?N" using Suc.hyps(2) by simp
  have upt: "[i ..< ?N] = i # [Suc i ..< ?N]" using il by (simp add: upt_conv_Cons)
  have lt: "i * 32 < unat (pmm_total_frames p)"
    using il pmm_wfD(2) [OF wf] by simp
  have step: "pmm_scan p [Suc i ..< ?N] = alloc_result p"
    if "\<And>f. f < (i + 1) * 32 \<Longrightarrow> f < unat (pmm_total_frames p) \<longrightarrow> frame_used p f"
    using Suc.hyps il that by (intro Suc.hyps(1)) auto
  show ?case
  proof (cases "pmm_bitmap p ! i = 0xFFFFFFFF")
    case True
    have "pmm_scan p [Suc i ..< ?N] = alloc_result p"
      using Suc.prems(2) full_word_used [OF True] by (intro step) (meson not_le)
    then show ?thesis using True unfolding upt by simp
  next
    case False
    have "pmm_scan_word p i [0 ..< 32] =
      (if \<forall>f < (i + 1) * 32. f < unat (pmm_total_frames p) \<and> frame_used p f then None
       else Some (alloc_result p))"
      using Suc.prems(2) lt by (intro pmm_scan_word_spec [OF wf il]) auto
    then show ?thesis using False step unfolding upt by (auto simp del: upt_Suc)
  qed
qed

lemma pmm_alloc_frame_eq:
  assumes "pmm_wf p"
  shows "pmm_alloc_frame p = alloc_result p"
proof (cases "pmm_used_frames p \<ge> pmm_total_frames p")
  case True
  have sub: "used_frames p \<subseteq> {..< unat (pmm_total_frames p)}" by (auto simp: used_frames_def)
  have "card {..< unat (pmm_total_frames p)} \<le> card (used_frames p)"
    using True pmm_wfD(4) [OF assms] by (simp add: word_le_nat_alt)
  then have "used_frames p = {..< unat (pmm_total_frames p)}"
    using sub by (intro card_seteq) auto
  then have "lowest_free p = None" by (simp add: lowest_free_None)
  then show ?thesis using True by (simp add: pmm_alloc_frame_def alloc_result_def)
next
  case False
  then show ?thesis
    using pmm_scan_spec [OF assms, of 0] pmm_wfD(3) [OF assms] by (simp add: pmm_alloc_frame_def)
qed


section \<open>The frame interface\<close>

definition frame_addr :: "nat \<Rightarrow> u32" where
  "frame_addr f = of_nat f * PAGE_SIZE"

definition frames_in_use :: "pmm \<Rightarrow> u32 set" where
  "frames_in_use p = frame_addr ` used_frames p"

lemma unat_frame_addr: "f < 2 ^ 20 \<Longrightarrow> unat (frame_addr f) = f * 4096"
  by (simp add: frame_addr_def unat_word_ariths unat_of_nat)

lemma frame_addr_div:
  assumes "f < 2 ^ 20"
  shows "unat (frame_addr f div PAGE_SIZE) = f"
  using assms by (simp add: unat_div unat_frame_addr)

lemma unat_low12: "unat (a AND 0xFFF :: u32) = unat a mod 4096"
proof -
  have "a AND 0xFFF = take_bit 12 a" by (simp add: mask_numerals take_bit_eq_mask)
  then show ?thesis by (simp only: unsigned_take_bit_eq) (simp add: take_bit_eq_mod)
qed

lemma page_aligned_unat: "(a :: u32) AND 0xFFF = 0 \<longleftrightarrow> unat a mod 4096 = 0"
  by (metis unat_low12 unat_eq_zero)

lemma page_aligned_frame_addr:
  assumes "a AND 0xFFF = 0"
  shows "a = frame_addr (unat (a div PAGE_SIZE))"
proof (rule word_unat_eq_iff [THEN iffD2])
  have "unat a = unat a div 4096 * 4096"
    using assms by (simp add: page_aligned_unat mod_eq_0_iff_dvd dvd_div_mult_self)
  moreover have "unat a div 4096 < 2 ^ 20" using unat_lt_u32 [of a] by simp
  ultimately show "unat a = unat (frame_addr (unat (a div PAGE_SIZE)))"
    by (simp add: unat_frame_addr unat_div)
qed

lemma used_frames_bound: "pmm_wf p \<Longrightarrow> f \<in> used_frames p \<Longrightarrow> f < 2 ^ 20"
  by (auto simp: used_frames_def dest!: pmm_wfD(1))

lemma frame_addr_aligned: "frame_addr f AND 0xFFF = 0"
  by (simp add: page_aligned_unat frame_addr_def unat_word_ariths mod_mult_mult2 mod_mod_cancel)

lemma frames_in_use_iff:
  assumes "pmm_wf p"
  shows "a \<in> frames_in_use p \<longleftrightarrow> a AND 0xFFF = 0 \<and> unat (a div PAGE_SIZE) \<in> used_frames p"
proof
  assume "a \<in> frames_in_use p"
  then obtain f where f: "f \<in> used_frames p" "a = frame_addr f"
    by (auto simp: frames_in_use_def)
  then show "a AND 0xFFF = 0 \<and> unat (a div PAGE_SIZE) \<in> used_frames p"
    using frame_addr_div [OF used_frames_bound [OF assms f(1)]] frame_addr_aligned by simp
next
  assume "a AND 0xFFF = 0 \<and> unat (a div PAGE_SIZE) \<in> used_frames p"
  then show "a \<in> frames_in_use p"
    using page_aligned_frame_addr [of a] by (auto simp: frames_in_use_def)
qed

text \<open>What a call of \<open>pmm_alloc_frame\<close> does, in terms of the set of used frames.\<close>

lemma pmm_alloc_cases:
  assumes "pmm_wf p" and "pmm_alloc_frame p = (a, p')"
  obtains (none) "a = 0" "p' = p" "used_frames p = {..< unat (pmm_total_frames p)}"
  | (some) f where "f < unat (pmm_total_frames p)" "\<not> frame_used p f" "\<forall>g < f. frame_used p g"
      "a = frame_addr f" "p' = take_frame (of_nat f) p" "unat (of_nat f :: u32) = f"
proof (cases "lowest_free p")
  case None
  then have "used_frames p = {..< unat (pmm_total_frames p)}" by (simp only: lowest_free_None)
  with None show ?thesis
    using none assms by (simp add: pmm_alloc_frame_eq alloc_result_def)
next
  case (Some f)
  then have f: "f < unat (pmm_total_frames p)" "\<not> frame_used p f" "\<forall>g < f. frame_used p g"
    by (simp_all add: lowest_free_Some)
  then have "f < 2 ^ 32" using unat_lt_u32 [of "pmm_total_frames p"] by simp
  then have "unat (of_nat f :: u32) = f" by (simp add: unat_of_nat)
  with f Some show ?thesis
    using some assms by (simp add: pmm_alloc_frame_eq alloc_result_def frame_addr_def)
qed

text \<open>An allocation that fails changes nothing, as frame 0 is never free.\<close>

lemma alloc_none:
  assumes "pmm_wf p" and "0 \<in> frames_in_use p" and "pmm_alloc_frame p = (0, p')"
  shows "p' = p"
  using assms(1,3)
proof (cases rule: pmm_alloc_cases)
  case (some f)
  have lt: "f < 2 ^ 20" using some(1) pmm_wfD(1) [OF assms(1)] by simp
  then have "f = 0" using some(4) unat_frame_addr [OF lt] by simp
  moreover obtain g where g: "g \<in> used_frames p" "frame_addr g = 0" using assms(2) by (auto simp: frames_in_use_def)
  moreover have "g = 0" using unat_frame_addr [OF used_frames_bound [OF assms(1) g(1)]] g(2) by simp
  ultimately show ?thesis using some(2) by (simp add: used_frames_def)
qed

lemma pmm_alloc_frame_wf [zos_inv]:
  assumes "pmm_wf p" and "pmm_alloc_frame p = (a, p')"
  shows "pmm_wf p'"
  using assms
proof (cases rule: pmm_alloc_cases)
  case none
  then show ?thesis using assms(1) by simp
next
  case (some f)
  then show ?thesis using take_frame_wf [OF assms(1), of "of_nat f"] by (simp add: word_less_nat_alt)
qed

lemma pmm_alloc_used_frames:
  assumes "pmm_wf p" and "pmm_alloc_frame p = (a, p')" and "a \<noteq> 0"
  shows "unat (a div PAGE_SIZE) \<notin> used_frames p" and "a AND 0xFFF = 0"
    and "used_frames p' = insert (unat (a div PAGE_SIZE)) (used_frames p)"
proof -
  from assms(1,2) obtain f where f: "f < unat (pmm_total_frames p)" "\<not> frame_used p f"
      "a = frame_addr f" "p' = take_frame (of_nat f) p" "unat (of_nat f :: u32) = f"
    using assms(3) by (cases rule: pmm_alloc_cases) auto
  then have "unat (a div PAGE_SIZE) = f"
    using pmm_wfD(1) [OF assms(1)] by (simp add: frame_addr_div)
  then show "unat (a div PAGE_SIZE) \<notin> used_frames p" "a AND 0xFFF = 0"
    "used_frames p' = insert (unat (a div PAGE_SIZE)) (used_frames p)"
    using f take_frame_used_frames [OF assms(1), of "of_nat f"]
    by (simp_all add: used_frames_def [of p] frame_addr_aligned word_less_nat_alt)
qed

interpretation pmm_src: frame_source pmm_alloc_frame pmm_free_frame frames_in_use pmm_wf
proof
  fix p p' :: pmm and a :: u32
  assume wf: "pmm_wf p"
  { assume al: "pmm_alloc_frame p = (a, p')"
    show "pmm_wf p'" by (rule pmm_alloc_frame_wf [OF wf al])
    assume nz: "a \<noteq> 0"
    note u = pmm_alloc_used_frames [OF wf al nz]
    show "a \<notin> frames_in_use p \<and> a AND 0xFFF = 0"
      using u by (simp add: frames_in_use_iff [OF wf])
    show "frames_in_use p' = insert a (frames_in_use p)"
      using u page_aligned_frame_addr [OF u(2)] by (simp add: frames_in_use_def)
  }
  show "frames_in_use p \<subseteq> frames_in_use p'" if "pmm_alloc_frame p = (0, p')"
    using wf that
  proof (cases rule: pmm_alloc_cases)
    case none
    then show ?thesis by simp
  next
    case (some f)
    then have "used_frames p \<subseteq> used_frames p'"
      using take_frame_used_frames [OF wf, of "of_nat f"] by (simp add: word_less_nat_alt subset_insertI)
    then show ?thesis by (auto simp: frames_in_use_def)
  qed
  show "pmm_wf (pmm_free_frame a p)" by (rule pmm_free_frame_wf [OF wf])
  show "frames_in_use (pmm_free_frame a p) = frames_in_use p - {a}" if "a AND 0xFFF = 0"
    using that page_aligned_frame_addr [of a] page_aligned_frame_addr
    by (auto simp: set_eq_iff frames_in_use_iff wf pmm_free_frame_wf pmm_free_used_frames)
       metis
qed


section \<open>Initialisation\<close>

lemma fold_give_frame:
  assumes "pmm_wf p" and "distinct fs"
    and "\<And>f. f \<in> set fs \<Longrightarrow> f < unat (pmm_total_frames p) \<and> frame_used p f"
  shows "pmm_wf (fold (\<lambda>f. give_frame (of_nat f)) fs p) \<and>
    used_frames (fold (\<lambda>f. give_frame (of_nat f)) fs p) = used_frames p - set fs"
  using assms
proof (induction fs arbitrary: p)
  case Nil
  then show ?case by simp
next
  case (Cons f fs)
  let ?p = "give_frame (of_nat f) p"
  have f: "f < unat (pmm_total_frames p)" "frame_used p f" "f \<notin> set fs"
    using Cons.prems by auto
  then have uf: "unat (of_nat f :: u32) = f"
    using unat_lt_u32 [of "pmm_total_frames p"] by (simp add: unat_of_nat)
  then have lt: "of_nat f < pmm_total_frames p" using f(1) by (simp add: word_less_nat_alt)
  have wf: "pmm_wf ?p" and us: "used_frames ?p = used_frames p - {f}"
    using give_frame_wf [OF Cons.prems(1) lt] give_frame_used_frames [OF Cons.prems(1) lt] f uf
    by simp_all
  have "g < unat (pmm_total_frames ?p) \<and> frame_used ?p g" if "g \<in> set fs" for g
  proof -
    have "g \<in> used_frames ?p"
      using Cons.prems(3) [of g] that f(3) us by (auto simp: used_frames_def [of p])
    then show ?thesis by (simp add: used_frames_def)
  qed
  then have "pmm_wf (fold (\<lambda>f. give_frame (of_nat f)) fs ?p) \<and>
    used_frames (fold (\<lambda>f. give_frame (of_nat f)) fs ?p) = used_frames ?p - set fs"
    using wf Cons.prems(2) by (intro Cons.IH) auto
  then show ?case using us by auto
qed

lemma fold_mark_used:
  "pmm_wf p \<Longrightarrow> pmm_wf (fold pmm_mark_used as p) \<and>
     used_frames (fold pmm_mark_used as p) =
       used_frames p \<union> {unat (a div PAGE_SIZE) | a. a \<in> set as \<and> a div PAGE_SIZE < pmm_total_frames p}"
proof (induction as arbitrary: p)
  case Nil
  then show ?case by simp
next
  case (Cons a as)
  have t: "pmm_total_frames (pmm_mark_used a p) = pmm_total_frames p"
    by (simp add: pmm_mark_used_alt)
  show ?case
    using Cons.IH [OF pmm_mark_used_wf [OF Cons.prems]] pmm_mark_used_frames [OF Cons.prems, of a]
    by (auto simp: t)
qed

definition pmm_mem :: "multiboot_info \<Rightarrow> u32" where
  "pmm_mem mboot =
     (let mem0 = (if mb_flags mboot AND MULTIBOOT_INFO_MEMORY \<noteq> 0
                  then (mb_mem_upper mboot + 1024) * 1024 else 256 * 1024 * 1024)
      in if mem0 = 0 then 256 * 1024 * 1024 else mem0)"

lemma pmm_init_state:
  fixes mboot kend
  defines "tot \<equiv> pmm_mem mboot div PAGE_SIZE"
  shows "pmm_wf (pmm_init mboot kend)"
    and "used_frames (pmm_init mboot kend) =
      {f. f < unat tot \<and> f < 256} \<union>
      {unat (a div PAGE_SIZE) | a. a div PAGE_SIZE < tot \<and>
         a \<in> set (page_range 0x100000 (ALIGN_UP (kend + (tot + 31) div 32 * 4) PAGE_SIZE))}"
proof -
  define nwords where "nwords = (tot + 31) div 32"
  define p0 where "p0 = \<lparr>pmm_bitmap = replicate (unat nwords) 0xFFFFFFFF, pmm_bitmap_size = nwords,
      pmm_total_frames = tot, pmm_used_frames = tot, pmm_total_memory = pmm_mem mboot\<rparr>"
  have tl: "unat tot < 2 ^ 20"
    using unat_lt_u32 [of "pmm_mem mboot"] by (simp add: tot_def unat_div)
  have sz: "unat nwords = (unat tot + 31) div 32"
    using tl by (simp add: nwords_def unat_div unat_word_ariths)
  have fu: "frame_used p0 f" if "f < unat tot" for f
    using that sz by (intro full_word_used [of _ "f div 32"]) (simp_all add: p0_def)
  then have us: "used_frames p0 = {..< unat tot}" by (auto simp: used_frames_def p0_def)
  then have wf0: "pmm_wf p0" using tl sz by (simp add: pmm_wf_def) (simp add: p0_def)
  define p1 where "p1 = fold (\<lambda>f. give_frame (of_nat f)) [256 ..< unat tot] p0"
  have p1: "pmm_wf p1" "used_frames p1 = {..< unat tot} - {256 ..< unat tot}"
    using fold_give_frame [OF wf0, of "[256 ..< unat tot]"] fu us
    by (simp_all add: p1_def) (simp_all add: p0_def)
  have t1: "pmm_total_frames p1 = tot"
  proof -
    have "pmm_total_frames (fold (\<lambda>f. give_frame (of_nat f)) fs p) = pmm_total_frames p" for fs p
      by (induction fs arbitrary: p) simp_all
    then show ?thesis by (simp add: p1_def p0_def)
  qed
  have init: "pmm_init mboot kend =
    fold pmm_mark_used (page_range 0x100000 (ALIGN_UP (kend + nwords * 4) PAGE_SIZE)) p1"
    by (simp add: pmm_init_def p1_def p0_def nwords_def tot_def pmm_mem_def Let_def
        give_frame_def [abs_def])
  show "pmm_wf (pmm_init mboot kend)"
    unfolding init using fold_mark_used [OF p1(1)] by blast
  have low: "{..< unat tot} - {256 ..< unat tot} = {f. f < unat tot \<and> f < 256}"
    by auto
  show "used_frames (pmm_init mboot kend) =
      {f. f < unat tot \<and> f < 256} \<union>
      {unat (a div PAGE_SIZE) | a. a div PAGE_SIZE < tot \<and>
         a \<in> set (page_range 0x100000 (ALIGN_UP (kend + (tot + 31) div 32 * 4) PAGE_SIZE))}"
    unfolding init nwords_def [symmetric]
    using fold_mark_used [OF p1(1), of "page_range 0x100000 (ALIGN_UP (kend + nwords * 4) PAGE_SIZE)"]
    unfolding p1(2) t1 low by (auto simp: conj_commute)
qed

section \<open>Properties\<close>

text \<open>
  C1. In a well-formed manager with a free frame, \<open>pmm_alloc_frame\<close> hands out the lowest free
  frame: it returns that frame's address, the frame becomes used and no other frame changes, and
  the manager stays well formed; with no free frame it returns 0 and changes nothing.
\<close>

theorem pmm_alloc_lowest_free:
  assumes "pmm_wf p"
  shows "case lowest_free p of
      None \<Rightarrow> pmm_alloc_frame p = (0, p)
    | Some f \<Rightarrow> fst (pmm_alloc_frame p) = of_nat f * PAGE_SIZE \<and>
        used_frames (snd (pmm_alloc_frame p)) = insert f (used_frames p) \<and>
        f \<notin> used_frames p \<and> {..< f} \<subseteq> used_frames p \<and>
        pmm_wf (snd (pmm_alloc_frame p))"
proof (cases "lowest_free p")
  case None
  then show ?thesis using assms by (simp add: pmm_alloc_frame_eq alloc_result_def)
next
  case (Some f)
  then have f: "f < unat (pmm_total_frames p)" "\<not> frame_used p f" "\<forall>g < f. frame_used p g"
    by (simp_all add: lowest_free_Some)
  then have uf: "unat (of_nat f :: u32) = f"
    using unat_lt_u32 [of "pmm_total_frames p"] by (simp add: unat_of_nat)
  then have lt: "of_nat f < pmm_total_frames p" using f(1) by (simp add: word_less_nat_alt)
  show ?thesis
    using Some f uf assms take_frame_wf [OF assms lt] take_frame_used_frames [OF assms lt]
    by (auto simp: pmm_alloc_frame_eq alloc_result_def used_frames_def [of p])
qed

definition pmm_demo :: pmm where
  "pmm_demo = \<lparr>pmm_bitmap = [0xFFFFFFFF, 0xFFFFFFFB], pmm_bitmap_size = 2,
     pmm_total_frames = 40, pmm_used_frames = 39, pmm_total_memory = 163840\<rparr>"

lemma pmm_demo_used: "used_frames pmm_demo = {..< 40} - {34}"
proof -
  have "frame_used pmm_demo f \<longleftrightarrow> f \<noteq> 34" if "f < 40" for f
  proof -
    have "\<forall>f \<in> set [0 ..< 40]. frame_used pmm_demo f \<longleftrightarrow> f \<noteq> 34"
      unfolding frame_used_def pmm_demo_def by code_simp
    with that show ?thesis by simp
  qed
  then show ?thesis by (auto simp: used_frames_def pmm_demo_def)
qed

lemma pmm_demo_wf: "pmm_wf pmm_demo"
  unfolding pmm_wf_def pmm_demo_used by (simp add: pmm_demo_def)

lemma pmm_demo_lowest: "lowest_free pmm_demo = Some 34"
  unfolding lowest_free_def frame_used_def pmm_demo_def by code_simp

lemma pmm_demo_alloc: "fst (pmm_alloc_frame pmm_demo) = 0x22000"
  by (simp add: pmm_alloc_frame_eq [OF pmm_demo_wf] alloc_result_def pmm_demo_lowest)

theorem pmm_alloc_lowest_free_witness:
  "pmm_wf pmm_demo \<and> lowest_free pmm_demo = Some 34 \<and>
   fst (pmm_alloc_frame pmm_demo) = 34 * PAGE_SIZE"
  using pmm_alloc_lowest_free [OF pmm_demo_wf] pmm_demo_lowest pmm_demo_wf by simp


text \<open>Every client-visible sequence of calls, from the state the boot code sets up.\<close>

datatype pmm_op = PmmAlloc | PmmFree u32 | PmmMark u32

fun pmm_step :: "pmm \<Rightarrow> pmm_op \<Rightarrow> pmm" where
  "pmm_step p PmmAlloc = snd (pmm_alloc_frame p)"
| "pmm_step p (PmmFree a) = pmm_free_frame a p"
| "pmm_step p (PmmMark a) = pmm_mark_used a p"

lemma pmm_step_wf [zos_inv]: "pmm_wf p \<Longrightarrow> pmm_wf (pmm_step p oper)"
  by (cases oper) (auto intro: zos_inv simp: pmm_alloc_frame_wf [OF _ prod.collapse [symmetric]])

lemma pmm_run_wf: "pmm_wf p \<Longrightarrow> pmm_wf (foldl pmm_step p ops)"
  by (induction ops arbitrary: p) (simp_all add: pmm_step_wf)

text \<open>
  C2. Whatever frames are allocated, freed and reserved after boot, in any order and with any
  addresses, the accounting is exact: the reported used memory is 4096 bytes for each frame
  marked in the bitmap, the reported free memory is 4096 bytes for each clear one, and the
  counter never wraps.
\<close>

theorem pmm_accounting_exact:
  fixes mboot kend ops
  defines "p \<equiv> foldl pmm_step (pmm_init mboot kend) ops"
  shows "unat (pmm_get_used_memory p) = 4096 * card (used_frames p) \<and>
     unat (pmm_get_free_memory p) =
       4096 * card ({..< unat (pmm_total_frames p)} - used_frames p)"
proof -
  have wf: "pmm_wf p" unfolding p_def by (rule pmm_run_wf [OF pmm_init_state(1)])
  note le = used_frames_le [OF wf] and d = pmm_wfD(1,4) [OF wf]
  have "card ({..< unat (pmm_total_frames p)} - used_frames p) =
      unat (pmm_total_frames p) - card (used_frames p)"
    by (subst card_Diff_subset) (auto simp: used_frames_def)
  then show ?thesis
    using le d
    by (simp add: pmm_get_used_memory_def pmm_get_free_memory_def unat_word_ariths unat_sub_if')
qed

text \<open>
  Boot reserves exactly the first megabyte (256 frames) and the frames of the kernel image
  with the bitmap behind it; every other frame of the machine is free.
\<close>

theorem pmm_init_exact:
  "f \<in> used_frames (pmm_init mboot kend) \<longleftrightarrow>
     f < unat (pmm_mem mboot div PAGE_SIZE) \<and>
     (f < 256 \<or> frame_addr f \<in> set (page_range 0x100000
        (ALIGN_UP (kend + (pmm_mem mboot div PAGE_SIZE + 31) div 32 * 4) PAGE_SIZE)))"
proof -
  define tot where "tot = pmm_mem mboot div PAGE_SIZE"
  define K where "K = page_range 0x100000 (ALIGN_UP (kend + (tot + 31) div 32 * 4) PAGE_SIZE)"
  have al: "a AND 0xFFF = 0" if "a \<in> set K" for a
    using that by (auto simp: K_def set_page_range page_aligned_unat unat_word_ariths mod_simps
        mod_mod_cancel)
  have bnd: "unat tot < 2 ^ 20"
    using unat_lt_u32 [of "pmm_mem mboot"] by (simp add: tot_def unat_div)
  have "(\<exists>a. f = unat (a div PAGE_SIZE) \<and> a div PAGE_SIZE < tot \<and> a \<in> set K) \<longleftrightarrow>
      f < unat tot \<and> frame_addr f \<in> set K" (is "?L \<longleftrightarrow> ?R")
  proof
    assume ?L
    then obtain a where a: "f = unat (a div PAGE_SIZE)" "a div PAGE_SIZE < tot" "a \<in> set K"
      by blast
    then show ?R using page_aligned_frame_addr [OF al [OF a(3)]] by (simp add: word_less_nat_alt)
  next
    assume ?R
    then have "unat (frame_addr f div PAGE_SIZE) = f" "frame_addr f div PAGE_SIZE < tot"
      using bnd by (simp_all add: frame_addr_div word_less_nat_alt)
    with \<open>?R\<close> show ?L by metis
  qed
  then show ?thesis
    using pmm_init_state(2) [of mboot kend] unfolding tot_def K_def by auto
qed

text \<open>
  Frame 0 is handed to \<open>pmm_free_frame\<close> like any other address, and the next allocation then
  returns its address, 0, which every caller takes for an out-of-memory failure.
\<close>

lemma pmm_free_zero_spoils_alloc:
  assumes "pmm_wf p" and "0 < pmm_total_frames p"
  shows "fst (pmm_alloc_frame (pmm_free_frame 0 p)) = 0"
proof -
  let ?q = "pmm_free_frame 0 p"
  have wf: "pmm_wf ?q" by (rule pmm_free_frame_wf [OF assms(1)])
  have "0 \<notin> used_frames ?q" using pmm_free_used_frames [OF assms(1), of 0] by simp
  moreover have "0 < unat (pmm_total_frames ?q)"
    using assms(2) by (simp add: pmm_free_frame_alt word_less_nat_alt)
  ultimately have "lowest_free ?q = Some 0"
    by (simp add: lowest_free_Some used_frames_def)
  then show ?thesis by (simp add: pmm_alloc_frame_eq [OF wf] alloc_result_def)
qed

end
