(* ===== verification/Vmm.thy ===== *)
theory Vmm
  imports Pmm
begin

text \<open>
  The virtual memory manager, \<open>kernel/mm/vmm.c\<close>: two-level x86 page tables edited through the
  recursive mapping (page directory entry 1023 points at the directory itself). The state is the
  register CR3 and the contents of the page-table frames; every access of the code to \<open>GET_PD()\<close>
  or \<open>GET_PT(i)\<close> is an access to a virtual address, translated here by the same two-level walk
  the MMU makes. The TLB is not modelled (\<open>invlpg\<close> keeps it coherent), nor are accessed and dirty
  bits.

  Main results: the recursive window reaches exactly the entry that the code means; mapping a page
  translates it to the given frame and leaves every other page alone; unmapping removes just that
  page; page tables never share a frame and all of them are accounted for in the frame bitmap.
\<close>

section \<open>The page-table memory and the MMU walk\<close>

record vmm =
  cr3 :: u32
  ptmem :: "u32 \<Rightarrow> nat \<Rightarrow> u32"

abbreviation PAGE_PRESENT :: u32 where "PAGE_PRESENT \<equiv> 1"
abbreviation PAGE_WRITE :: u32 where "PAGE_WRITE \<equiv> 2"
abbreviation PAGE_USER :: u32 where "PAGE_USER \<equiv> 4"
abbreviation PAGE_KERNEL :: u32 where "PAGE_KERNEL \<equiv> 3"

definition pd_idx :: "u32 \<Rightarrow> u32" where "pd_idx virt = drop_bit 22 virt AND 0x3FF"
definition pt_idx :: "u32 \<Rightarrow> u32" where "pt_idx virt = drop_bit 12 virt AND 0x3FF"

definition pg_off :: "u32 \<Rightarrow> u32" where "pg_off virt = drop_bit 2 (virt AND 0xFFF)"

text \<open>The frame the MMU reaches for a virtual address, and a 32-bit access through it.\<close>

definition mmu_frame :: "vmm \<Rightarrow> u32 \<Rightarrow> u32" where
  "mmu_frame v virt =
     ptmem v (ptmem v (cr3 v) (unat (pd_idx virt)) AND 0xFFFFF000) (unat (pt_idx virt)) AND 0xFFFFF000"

definition va_read :: "vmm \<Rightarrow> u32 \<Rightarrow> u32" where
  "va_read v virt = ptmem v (mmu_frame v virt) (unat (pg_off virt))"

definition va_write :: "u32 \<Rightarrow> u32 \<Rightarrow> vmm \<Rightarrow> vmm" where
  "va_write virt x v = v\<lparr>ptmem := (ptmem v)(mmu_frame v virt :=
     (ptmem v (mmu_frame v virt))(unat (pg_off virt) := x))\<rparr>"

text \<open>\<open>&GET_PD()[i]\<close> and \<open>&GET_PT(i)[j]\<close>.\<close>

definition PD_ENT :: "u32 \<Rightarrow> u32" where "PD_ENT i = 0xFFFFF000 + i * 4"
definition PT_ENT :: "u32 \<Rightarrow> u32 \<Rightarrow> u32" where "PT_ENT i j = 0xFFC00000 + i * PAGE_SIZE + j * 4"

section \<open>Operations\<close>

definition vmm_init :: "u32 \<Rightarrow> vmm \<Rightarrow> vmm" where
  "vmm_init boot_page_directory v = v\<lparr>ptmem := (ptmem v)(boot_page_directory :=
     (ptmem v boot_page_directory)(1023 := boot_page_directory OR PAGE_PRESENT OR PAGE_WRITE))\<rparr>"

definition vmm_map_page :: "u32 \<Rightarrow> u32 \<Rightarrow> u32 \<Rightarrow> pmm \<times> vmm \<Rightarrow> pmm \<times> vmm" where
  "vmm_map_page virt phys flags s =
     (let (p, v) = s; pd_index = pd_idx virt; pt_index = pt_idx virt;
          set_pte = va_write (PT_ENT pd_index pt_index)
            ((phys AND 0xFFFFF000) OR (flags AND 0xFFF) OR PAGE_PRESENT)
      in if va_read v (PD_ENT pd_index) AND PAGE_PRESENT = 0 then
           (let (pt_phys, p') = pmm_alloc_frame p in
            if pt_phys = 0 then (p', v)
            else let v1 = va_write (PD_ENT pd_index)
                       (pt_phys OR PAGE_PRESENT OR PAGE_WRITE OR (flags AND PAGE_USER)) v;
                     v2 = fold (\<lambda>i. va_write (PT_ENT pd_index (of_nat i)) 0) [0 ..< 1024] v1
                 in (p', set_pte v2))
         else if flags AND PAGE_USER \<noteq> 0 then
           (p, set_pte (va_write (PD_ENT pd_index) (va_read v (PD_ENT pd_index) OR PAGE_USER) v))
         else (p, set_pte v))"

definition vmm_unmap_page :: "u32 \<Rightarrow> vmm \<Rightarrow> vmm" where
  "vmm_unmap_page virt v =
     (if va_read v (PD_ENT (pd_idx virt)) AND PAGE_PRESENT = 0 then v
      else va_write (PT_ENT (pd_idx virt) (pt_idx virt)) 0 v)"

definition vmm_get_physical :: "vmm \<Rightarrow> u32 \<Rightarrow> u32" where
  "vmm_get_physical v virt =
     (if va_read v (PD_ENT (pd_idx virt)) AND PAGE_PRESENT = 0 then 0
      else let e = va_read v (PT_ENT (pd_idx virt) (pt_idx virt)) in
        if e AND PAGE_PRESENT = 0 then 0 else (e AND 0xFFFFF000) OR (virt AND 0xFFF))"

definition vmm_is_mapped :: "vmm \<Rightarrow> u32 \<Rightarrow> bool" where
  "vmm_is_mapped v virt =
     (if va_read v (PD_ENT (pd_idx virt)) AND PAGE_PRESENT = 0 then False
      else va_read v (PT_ENT (pd_idx virt) (pt_idx virt)) AND PAGE_PRESENT \<noteq> 0)"

section \<open>The recursive window\<close>

text \<open>Directory entry \<open>i\<close>, the frame of page table \<open>i\<close> and entry \<open>j\<close> of that table.\<close>

definition pde :: "vmm \<Rightarrow> nat \<Rightarrow> u32" where "pde v i = ptmem v (cr3 v) i"
definition tbl :: "vmm \<Rightarrow> nat \<Rightarrow> u32" where "tbl v i = pde v i AND 0xFFFFF000"
definition pte :: "vmm \<Rightarrow> nat \<Rightarrow> nat \<Rightarrow> u32" where "pte v i j = ptmem v (tbl v i) j"

definition self_map :: "vmm \<Rightarrow> bool" where "self_map v \<longleftrightarrow> tbl v 1023 = cr3 v"

lemma unat_low10: "unat (x AND 0x3FF :: u32) = unat x mod 1024"
proof -
  have "x AND 0x3FF = take_bit 10 x" by (simp add: mask_numerals take_bit_eq_mask)
  then show ?thesis by (simp only: unsigned_take_bit_eq) (simp add: take_bit_eq_mod)
qed

lemma unat_pd_idx: "unat (pd_idx va) = unat va div 4194304"
proof -
  have "unat va div 4194304 < 1024" using unat_lt_u32 [of va] by simp
  then show ?thesis
    unfolding pd_idx_def unat_low10 unat_drop_bit_eq drop_bit_eq_div by (simp add: unat_div unat_low12)
qed

lemma unat_pt_idx: "unat (pt_idx va) = unat va div 4096 mod 1024"
  unfolding pt_idx_def unat_low10 unat_drop_bit_eq drop_bit_eq_div by (simp add: unat_div unat_low12)

lemma unat_pg_off: "unat (pg_off va) = unat va mod 4096 div 4"
  unfolding pg_off_def unat_low12 unat_drop_bit_eq drop_bit_eq_div by (simp add: unat_div unat_low12)

lemma idx_lt [simp]: "unat (pd_idx va) < 1024" "unat (pt_idx va) < 1024"
  using unat_lt_u32 [of va] by (simp_all add: unat_pd_idx unat_pt_idx)

lemma unat_PD_ENT: "unat i < 1024 \<Longrightarrow> unat (PD_ENT i) = unat i * 4 + 1048575 * 4096"
  by (simp add: PD_ENT_def unat_word_ariths)

lemma unat_PT_ENT:
  "unat i < 1024 \<Longrightarrow> unat j < 1024 \<Longrightarrow> unat (PT_ENT i j) = unat j * 4 + (1047552 + unat i) * 4096"
  by (simp add: PT_ENT_def unat_word_ariths)

lemma page_split: "(b::nat) < 4096 \<Longrightarrow> (b + n * 4096) mod 4096 = b \<and> (b + n * 4096) div 4096 = n"
  by simp

lemma offset_PD_ENT: "unat i < 1024 \<Longrightarrow> unat (pg_off (PD_ENT i)) = unat i"
  using page_split [of "unat i * 4" 1048575] by (simp add: unat_pg_off unat_PD_ENT)

lemma offset_PT_ENT: "unat i < 1024 \<Longrightarrow> unat j < 1024 \<Longrightarrow> unat (pg_off (PT_ENT i j)) = unat j"
  using page_split [of "unat j * 4" "1047552 + unat i"]
  by (simp add: unat_pg_off unat_PT_ENT)

lemma pd_div: "unat va div 4194304 = unat va div 4096 div 1024"
  by (simp only: div_mult2_eq [symmetric]) simp

lemma idx_PD_ENT:
  assumes "unat i < 1024"
  shows "unat (pd_idx (PD_ENT i)) = 1023" and "unat (pt_idx (PD_ENT i)) = 1023"
  using page_split [of "unat i * 4" 1048575] assms
  by (simp_all add: unat_pd_idx pd_div unat_pt_idx unat_PD_ENT)

lemma idx_PT_ENT:
  assumes "unat i < 1024" and "unat j < 1024"
  shows "unat (pd_idx (PT_ENT i j)) = 1023" and "unat (pt_idx (PT_ENT i j)) = unat i"
proof -
  have "unat (PT_ENT i j) div 4096 = unat i + 1023 * 1024"
    using page_split [of "unat j * 4" "1047552 + unat i"] assms by (simp add: unat_PT_ENT)
  moreover have "(unat i + 1047552) mod 1024 = unat i"
    using assms(1) mod_mult_self1 [of "unat i" 1023 1024] by simp
  ultimately show "unat (pd_idx (PT_ENT i j)) = 1023" "unat (pt_idx (PT_ENT i j)) = unat i"
    using assms(1) by (simp_all add: unat_pd_idx pd_div unat_pt_idx)
qed

lemma mmu_frame_PD:
  assumes "self_map v" and "unat i < 1024"
  shows "mmu_frame v (PD_ENT i) = cr3 v"
  using assms idx_PD_ENT [OF assms(2)] by (simp add: mmu_frame_def self_map_def tbl_def pde_def)

lemma mmu_frame_PT:
  assumes "self_map v" and "unat i < 1024" and "unat j < 1024"
  shows "mmu_frame v (PT_ENT i j) = tbl v (unat i)"
  using assms idx_PT_ENT [OF assms(2,3)] by (simp add: mmu_frame_def self_map_def tbl_def pde_def)

lemma va_read_PD: "self_map v \<Longrightarrow> unat i < 1024 \<Longrightarrow> va_read v (PD_ENT i) = pde v (unat i)"
  by (simp add: va_read_def mmu_frame_PD offset_PD_ENT pde_def)

lemma va_read_PT:
  "self_map v \<Longrightarrow> unat i < 1024 \<Longrightarrow> unat j < 1024 \<Longrightarrow> va_read v (PT_ENT i j) = pte v (unat i) (unat j)"
  by (simp add: va_read_def mmu_frame_PT offset_PT_ENT pte_def)

lemma va_write_PD: "self_map v \<Longrightarrow> unat i < 1024 \<Longrightarrow>
    va_write (PD_ENT i) x v = v\<lparr>ptmem := (ptmem v)(cr3 v := (ptmem v (cr3 v))(unat i := x))\<rparr>"
  by (simp add: va_write_def mmu_frame_PD offset_PD_ENT)

lemma va_write_PT: "self_map v \<Longrightarrow> unat i < 1024 \<Longrightarrow> unat j < 1024 \<Longrightarrow>
    va_write (PT_ENT i j) x v =
      v\<lparr>ptmem := (ptmem v)(tbl v (unat i) := (ptmem v (tbl v (unat i)))(unat j := x))\<rparr>"
  by (simp add: va_write_def mmu_frame_PT offset_PT_ENT)


section \<open>Well-formed page tables\<close>

text \<open>
  Directory and tables lie in frames that the bitmap has marked, no two of them in the same one,
  and the last directory entry points back at the directory.
\<close>

definition present :: "u32 \<Rightarrow> bool" where "present e \<longleftrightarrow> e AND PAGE_PRESENT \<noteq> 0"

definition vmm_wf :: "pmm \<times> vmm \<Rightarrow> bool" where
  "vmm_wf s \<longleftrightarrow> (let (p, v) = s in
     pmm_wf p \<and> self_map v \<and> present (pde v 1023) \<and> cr3 v \<in> frames_in_use p \<and>
     (\<forall>i < 1023. present (pde v i) \<longrightarrow> tbl v i \<in> frames_in_use p \<and> tbl v i \<noteq> cr3 v) \<and>
     (\<forall>i < 1023. \<forall>j < 1023. present (pde v i) \<longrightarrow> present (pde v j) \<longrightarrow> tbl v i = tbl v j \<longrightarrow> i = j))"

lemma vmm_wfD:
  assumes "vmm_wf (p, v)"
  shows "pmm_wf p" and "self_map v" and "cr3 v \<in> frames_in_use p"
    and "i < 1023 \<Longrightarrow> present (pde v i) \<Longrightarrow> tbl v i \<in> frames_in_use p \<and> tbl v i \<noteq> cr3 v"
    and "i < 1023 \<Longrightarrow> j < 1023 \<Longrightarrow> present (pde v i) \<Longrightarrow> present (pde v j) \<Longrightarrow>
      tbl v i = tbl v j \<Longrightarrow> i = j"
  using assms by (auto simp: vmm_wf_def)

text \<open>Entry arithmetic: the flag bits and the frame address of an entry do not interfere.\<close>

lemma page_or_flags:
  fixes a b :: u32
  assumes "a AND 0xFFF = 0" and "b AND 0xFFFFF000 = 0"
  shows "(a OR b) AND 0xFFFFF000 = a"
proof -
  have "unat (a AND NOT 0xFFF) = unat a"
    using unat_page_base [of a] assms(1) unfolding page_aligned_unat by linarith
  then have "a AND 0xFFFFF000 = a" by (simp only: page_base_alt word_unat_eq_iff)
  then show ?thesis using assms(2) by (simp only: bit.conj_disj_distrib2 bit.disj_zero_right)
qed

lemma flag_bits_zero [simp]:
  "(f AND 4 :: u32) AND 0xFFFFF000 = 0" "(f AND 0xFFF :: u32) AND 0xFFFFF000 = 0"
  by (simp_all add: and.assoc)

lemma present_or [simp]: "present (a OR PAGE_PRESENT)"
  by (simp add: present_def word_ao_dist)


section \<open>Editing one entry\<close>

definition set_pde :: "nat \<Rightarrow> u32 \<Rightarrow> vmm \<Rightarrow> vmm" where
  "set_pde i x v = v\<lparr>ptmem := (ptmem v)(cr3 v := (ptmem v (cr3 v))(i := x))\<rparr>"

definition set_pte :: "nat \<Rightarrow> nat \<Rightarrow> u32 \<Rightarrow> vmm \<Rightarrow> vmm" where
  "set_pte i j x v = v\<lparr>ptmem := (ptmem v)(tbl v i := (ptmem v (tbl v i))(j := x))\<rparr>"

lemma cr3_set [simp]: "cr3 (set_pde i x v) = cr3 v" "cr3 (set_pte i j x v) = cr3 v"
  by (simp_all add: set_pde_def set_pte_def)

lemma pde_set_pde [simp]: "pde (set_pde i x v) k = (if k = i then x else pde v k)"
  by (simp add: set_pde_def pde_def)

lemma tbl_set_pde [simp]: "tbl (set_pde i x v) k = (if k = i then x AND 0xFFFFF000 else tbl v k)"
  by (simp add: tbl_def)

lemma pte_set_pde:
  assumes "vmm_wf (p, v)" and "k < 1023" and "present (pde v k)" and "x AND 0xFFFFF000 = tbl v i"
  shows "pte (set_pde i x v) k l = pte v k l"
  using vmm_wfD(4) [OF assms(1-3)] assms(4) by (auto simp: pte_def) (auto simp: set_pde_def)

lemma pde_set_pte [simp]:
  assumes "vmm_wf (p, v)" and "i < 1023" and "present (pde v i)"
  shows "pde (set_pte i j x v) k = pde v k"
  using vmm_wfD(4) [OF assms] by (auto simp: set_pte_def pde_def)

lemma tbl_set_pte:
  assumes "vmm_wf (p, v)" and "i < 1023" and "present (pde v i)"
  shows "tbl (set_pte i j x v) k = tbl v k"
  using pde_set_pte [OF assms] by (simp add: tbl_def)

lemma pte_set_pte:
  assumes "vmm_wf (p, v)" and "i < 1023" and "present (pde v i)" and "k < 1023" and "present (pde v k)"
  shows "pte (set_pte i j x v) k l = (if k = i \<and> l = j then x else pte v k l)"
  using vmm_wfD(5) [OF assms(1,2,4,3,5)] assms
  by (auto simp: pte_def tbl_set_pte) (auto simp: set_pte_def)

lemma set_pte_wf [zos_inv]:
  assumes "vmm_wf (p, v)" and "i < 1023" and "present (pde v i)"
  shows "vmm_wf (p, set_pte i j x v)"
  using assms pde_set_pte [OF assms] tbl_set_pte [OF assms]
  by (simp add: vmm_wf_def self_map_def)

lemma set_pde_flags_wf [zos_inv]:
  assumes "vmm_wf (p, v)" and "i < 1023" and "present (pde v i)"
    and "x AND 0xFFFFF000 = tbl v i"
  shows "vmm_wf (p, set_pde i x v)"
  using assms vmm_wfD(4) [OF assms(1-3)] vmm_wfD(5) [OF assms(1)] unfolding vmm_wf_def self_map_def
  by (auto simp: Let_def)

text \<open>A fresh frame from the frame source becomes the page table of an empty directory entry.\<close>

lemma set_pde_new_wf:
  assumes wf: "vmm_wf (p, v)" and i: "i < 1023" and np: "\<not> present (pde v i)"
    and al: "pmm_alloc_frame p = (a, p')" and nz: "a \<noteq> 0"
    and x: "x AND 0xFFFFF000 = a" "present x"
  shows "vmm_wf (p', set_pde i x v)"
proof -
  note pw = vmm_wfD(1) [OF wf]
  note fresh = pmm_src.alloc_fresh [OF pw al nz] and us = pmm_src.alloc_used [OF pw al nz]
  have nc: "a \<noteq> cr3 v" using fresh vmm_wfD(3) [OF wf] by auto
  have nt: "a \<noteq> tbl v k" if "k < 1023" "present (pde v k)" for k
    using fresh vmm_wfD(4) [OF wf that] by auto
  have inj: "k = l" if "k < 1023" "l < 1023" "k \<noteq> i" "l \<noteq> i" "present (pde v k)" "present (pde v l)"
    "tbl v k = tbl v l" for k l
    using vmm_wfD(5) [OF wf] that by blast
  show ?thesis
    using wf i x us nc nt inj nt [symmetric] pmm_src.alloc_ok [OF pw al]
    unfolding vmm_wf_def self_map_def by (auto simp: Let_def dest: nt)
qed


section \<open>The operations in terms of directory and tables\<close>

text \<open>The entry that translates \<open>virt\<close>: 0 if there is no page table.\<close>

definition pt_entry :: "vmm \<Rightarrow> u32 \<Rightarrow> u32" where
  "pt_entry v virt = (if present (pde v (unat (pd_idx virt)))
     then pte v (unat (pd_idx virt)) (unat (pt_idx virt)) else 0)"

lemma not_present_0 [simp]: "\<not> present 0"
  by (simp add: present_def)

lemma vmm_get_physical_alt:
  "self_map v \<Longrightarrow> vmm_get_physical v virt =
     (if present (pt_entry v virt) then (pt_entry v virt AND 0xFFFFF000) OR (virt AND 0xFFF) else 0)"
  by (auto simp: vmm_get_physical_def va_read_PD va_read_PT pt_entry_def present_def Let_def)

lemma vmm_is_mapped_alt: "self_map v \<Longrightarrow> vmm_is_mapped v virt = present (pt_entry v virt)"
  by (auto simp: vmm_is_mapped_def va_read_PD va_read_PT pt_entry_def present_def)

lemma va_write_PD_set: "self_map v \<Longrightarrow> va_write (PD_ENT (pd_idx a)) x v = set_pde (unat (pd_idx a)) x v"
  by (simp add: va_write_PD set_pde_def)

lemma va_write_PT_set: "self_map v \<Longrightarrow> unat i < 1024 \<Longrightarrow> unat j < 1024 \<Longrightarrow>
    va_write (PT_ENT i j) x v = set_pte (unat i) (unat j) x v"
  by (simp add: va_write_PT set_pte_def)

text \<open>Two addresses select the same entry exactly if they lie in the same page.\<close>

lemma same_page:
  "a AND 0xFFFFF000 = b AND 0xFFFFF000 \<longleftrightarrow> unat (pd_idx a) = unat (pd_idx b) \<and> unat (pt_idx a) = unat (pt_idx b)"
proof -
  have "a AND 0xFFFFF000 = b AND 0xFFFFF000 \<longleftrightarrow> unat a div 4096 = unat b div 4096"
    unfolding page_base_alt word_unat_eq_iff unat_page_base minus_mod_eq_div_mult by simp
  also have "\<dots> \<longleftrightarrow> unat a div 4096 div 1024 = unat b div 4096 div 1024 \<and>
      unat a div 4096 mod 1024 = unat b div 4096 mod 1024"
    by (metis mult_div_mod_eq)
  finally show ?thesis by (simp only: unat_pd_idx pd_div unat_pt_idx)
qed

text \<open>The loop that clears a new page table.\<close>

lemma clear_table:
  assumes "vmm_wf (p, v)" and "unat i < 1023" and "present (pde v (unat i))" and "n \<le> 1024"
  defines "v' \<equiv> fold (\<lambda>k. va_write (PT_ENT i (of_nat k)) 0) [0 ..< n] v"
  shows "vmm_wf (p, v') \<and> (\<forall>k. pde v' k = pde v k) \<and>
    (\<forall>k l. k < 1023 \<longrightarrow> present (pde v k) \<longrightarrow>
       pte v' k l = (if k = unat i \<and> l < n then 0 else pte v k l))"
  using assms(4) unfolding v'_def
proof (induction n)
  case 0
  then show ?case using assms(1) by simp
next
  case (Suc n)
  let ?w = "fold (\<lambda>k. va_write (PT_ENT i (of_nat k)) 0) [0 ..< n] v"
  have IH: "vmm_wf (p, ?w)" "\<And>k. pde ?w k = pde v k"
    "\<And>k l. k < 1023 \<Longrightarrow> present (pde v k) \<Longrightarrow> pte ?w k l = (if k = unat i \<and> l < n then 0 else pte v k l)"
    using Suc by auto
  have n: "unat (of_nat n :: u32) = n" "n < 1024" using Suc.prems by (simp_all add: unat_of_nat)
  have step: "fold (\<lambda>k. va_write (PT_ENT i (of_nat k)) 0) [0 ..< Suc n] v = set_pte (unat i) n 0 ?w"
    using vmm_wfD(2) [OF IH(1)] assms(2) n by (simp add: va_write_PT_set)
  have pr: "present (pde ?w (unat i))" using assms(3) IH(2) by simp
  show ?case
    unfolding step
    using set_pte_wf [OF IH(1) assms(2) pr] pde_set_pte [OF IH(1) assms(2) pr]
      pte_set_pte [OF IH(1) assms(2) pr] IH(2,3)
    by (auto simp: less_Suc_eq)
qed

lemma cr3_fold: "cr3 (fold (\<lambda>k. va_write (f k) x) ks v) = cr3 v"
  by (induction ks arbitrary: v) (simp_all add: va_write_def)

text \<open>What mapping does to the entries, when the page table exists or a frame for it is found.\<close>

lemma map_page_final:
  fixes x :: u32
  assumes "vmm_wf (p, v)" and "unat (pd_idx virt) < 1023" and "present (pde v (unat (pd_idx virt)))"
  defines "w \<equiv> va_write (PT_ENT (pd_idx virt) (pt_idx virt)) x v"
  shows "vmm_wf (p, w)" and "unat (pd_idx va) < 1023 \<Longrightarrow>
    pt_entry w va = (if va AND 0xFFFFF000 = virt AND 0xFFFFF000 then x else pt_entry v va)"
    and "pde w k = pde v k" and "cr3 w = cr3 v"
proof -
  have w: "w = set_pte (unat (pd_idx virt)) (unat (pt_idx virt)) x v"
    using vmm_wfD(2) [OF assms(1)] by (simp add: w_def va_write_PT_set)
  show "vmm_wf (p, w)" unfolding w by (rule set_pte_wf [OF assms(1-3)])
  show "pde w k = pde v k" "cr3 w = cr3 v" unfolding w by (simp_all add: pde_set_pte [OF assms(1-3)])
  show "pt_entry w va = (if va AND 0xFFFFF000 = virt AND 0xFFFFF000 then x else pt_entry v va)"
    if "unat (pd_idx va) < 1023"
    using that pte_set_pte [OF assms(1-3) that] assms(3)
    by (auto simp: w pt_entry_def pde_set_pte [OF assms(1-3)] same_page)
qed


lemma vmm_map_page_cases:
  fixes phys flags :: u32
  assumes wf: "vmm_wf (p, v)" and i: "unat (pd_idx virt) < 1023"
    and room: "present (pde v (unat (pd_idx virt))) \<or> fst (pmm_alloc_frame p) \<noteq> 0"
  defines "s' \<equiv> vmm_map_page virt phys flags (p, v)"
  obtains q u where "vmm_wf (q, u)" "present (pde u (unat (pd_idx virt)))"
    "s' = (q, va_write (PT_ENT (pd_idx virt) (pt_idx virt))
       ((phys AND 0xFFFFF000) OR (flags AND 0xFFF) OR PAGE_PRESENT) u)"
    "\<And>va. unat (pd_idx va) < 1023 \<Longrightarrow> pt_entry u va = pt_entry v va"
    "frames_in_use p \<subseteq> frames_in_use q" "cr3 u = cr3 v"
    "\<And>k. k < 1023 \<Longrightarrow> present (pde v k) \<Longrightarrow> present (pde u k) \<and> tbl u k = tbl v k"
    "\<And>k. k < 1023 \<Longrightarrow> present (pde u k) \<Longrightarrow> present (pde v k) \<or> tbl u k \<notin> frames_in_use p"
    "\<And>f. f \<in> frames_in_use q \<Longrightarrow> f \<in> frames_in_use p \<or> (\<exists>k < 1023. present (pde u k) \<and> tbl u k = f)"
proof -
  let ?i = "unat (pd_idx virt)"
  note sm = vmm_wfD(2) [OF wf] and pw = vmm_wfD(1) [OF wf]
  have rd: "va_read v (PD_ENT (pd_idx virt)) = pde v ?i" by (simp add: va_read_PD [OF sm])
  show thesis
  proof (cases "present (pde v ?i)")
    case True
    let ?x = "pde v ?i OR PAGE_USER"
    have xt: "?x AND 0xFFFFF000 = tbl v ?i"
      by (simp add: tbl_def word_ao_dist)
    have xp: "present ?x" using True by (auto simp: present_def word_ao_dist)
    have wfu: "vmm_wf (p, set_pde ?i ?x v)" by (rule set_pde_flags_wf [OF wf i True xt])
    have same: "pt_entry (set_pde ?i ?x v) va = pt_entry v va" if "unat (pd_idx va) < 1023" for va
      using pte_set_pde [OF wf that _ xt] xp True by (auto simp: pt_entry_def)
    show thesis
    proof (cases "flags AND PAGE_USER = 0")
      case True
      show thesis
        by (rule that [of p v])
           (use wf \<open>present (pde v ?i)\<close> True rd in \<open>simp_all add: s'_def vmm_map_page_def Let_def present_def\<close>)
    next
      case False
      have eq: "s' = (p, va_write (PT_ENT (pd_idx virt) (pt_idx virt))
        ((phys AND 0xFFFFF000) OR (flags AND 0xFFF) OR PAGE_PRESENT) (set_pde ?i ?x v))"
        using \<open>present (pde v ?i)\<close> False rd
        by (simp add: s'_def vmm_map_page_def Let_def present_def va_write_PD_set [OF sm])
      have keep: "present (pde (set_pde ?i ?x v) k) = present (pde v k)" "tbl (set_pde ?i ?x v) k = tbl v k" for k
        using xp xt True by auto
      show thesis
        by (rule that [OF wfu _ eq same]) (use xp keep in simp_all)
    qed
  next
    case False
    obtain a p' where al: "pmm_alloc_frame p = (a, p')" by (cases "pmm_alloc_frame p")
    then have nz: "a \<noteq> 0" using room False by simp
    let ?x = "a OR PAGE_PRESENT OR PAGE_WRITE OR (flags AND PAGE_USER)"
    have flags0: "(PAGE_PRESENT OR PAGE_WRITE OR (flags AND PAGE_USER)) AND 0xFFFFF000 = 0"
      by (simp add: word_ao_dist)
    have xt: "?x AND 0xFFFFF000 = a"
      using page_or_flags [OF conjunct2 [OF pmm_src.alloc_fresh [OF pw al nz]] flags0]
      by (simp add: or.assoc)
    have xp: "present ?x" by (simp add: present_def word_ao_dist)
    define v1 where "v1 = set_pde ?i ?x v"
    define v2 where "v2 = fold (\<lambda>k. va_write (PT_ENT (pd_idx virt) (of_nat k)) 0) [0 ..< 1024] v1"
    have wf1: "vmm_wf (p', v1)"
      unfolding v1_def by (rule set_pde_new_wf [OF wf i False al nz xt xp])
    have pr1: "present (pde v1 ?i)" using xp by (simp add: v1_def)
    note clr = clear_table [OF wf1 i pr1, of 1024, folded v2_def, simplified]
    have same: "pt_entry v2 va = pt_entry v va" if va: "unat (pd_idx va) < 1023" for va
    proof (cases "unat (pd_idx va) = ?i")
      case True
      then have "pt_entry v2 va = 0" using clr i pr1 by (simp add: pt_entry_def)
      then show ?thesis using True False by (simp add: pt_entry_def)
    next
      case ne: False
      show ?thesis
      proof (cases "present (pde v (unat (pd_idx va)))")
        case True
        then have "present (pde v1 (unat (pd_idx va)))" using ne by (simp add: v1_def)
        then have "pte v2 (unat (pd_idx va)) (unat (pt_idx va)) = pte v1 (unat (pd_idx va)) (unat (pt_idx va))"
          using clr va ne by simp
        also have "\<dots> = pte v (unat (pd_idx va)) (unat (pt_idx va))"
          using ne vmm_wfD(4) [OF wf va True] 
          by (simp add: v1_def pte_def) (simp add: set_pde_def)
        finally show ?thesis using True ne clr by (simp add: pt_entry_def v1_def)
      next
        case False
        then show ?thesis using clr ne by (simp add: pt_entry_def v1_def)
      qed
    qed
    have eq: "s' = (p', va_write (PT_ENT (pd_idx virt) (pt_idx virt))
       ((phys AND 0xFFFFF000) OR (flags AND 0xFFF) OR PAGE_PRESENT) v2)"
      using False rd al nz
      by (simp add: s'_def vmm_map_page_def Let_def present_def v2_def v1_def va_write_PD_set [OF sm]
          del: fold_simps)
    show thesis
    proof (rule that [OF _ _ eq same pmm_src.alloc_mono [OF pw al]])
      have tb: "tbl v2 k = (if k = ?i then a else tbl v k)" for k using clr xt by (simp add: tbl_def v1_def)
      note us = pmm_src.alloc_used [OF pw al nz] and fr = conjunct1 [OF pmm_src.alloc_fresh [OF pw al nz]]
      show "cr3 v2 = cr3 v" unfolding v2_def v1_def cr3_fold by simp
      show "present (pde v2 k) \<and> tbl v2 k = tbl v k" if "present (pde v k)" for k
        using that False clr tb by (auto simp: v1_def)
      show "present (pde v k) \<or> tbl v2 k \<notin> frames_in_use p" if "present (pde v2 k)" for k
        using that clr tb fr by (auto simp: v1_def split: if_splits)
      show "f \<in> frames_in_use p \<or> (\<exists>k < 1023. present (pde v2 k) \<and> tbl v2 k = f)" if "f \<in> frames_in_use p'" for f
        using that us tb pr1 clr i by auto
    qed (use clr pr1 in simp_all)
  qed
qed

section \<open>Properties\<close>

text \<open>
  C3. Mapping a page below the recursive window, when its page table exists or a frame for it can
  be allocated: afterwards every address in that page translates to the given frame with its own
  offset, every other address below the window translates exactly as before, the page tables stay
  well formed, and no frame in use is given up.
\<close>

theorem vmm_map_page_correct:
  assumes "vmm_wf (p, v)" and "unat (pd_idx virt) < 1023"
    and "present (pde v (unat (pd_idx virt))) \<or> fst (pmm_alloc_frame p) \<noteq> 0"
    and "vmm_map_page virt phys flags (p, v) = (p', v')"
  shows "vmm_wf (p', v') \<and> frames_in_use p \<subseteq> frames_in_use p' \<and>
    (\<forall>va. unat (pd_idx va) < 1023 \<longrightarrow>
      vmm_get_physical v' va =
        (if va AND 0xFFFFF000 = virt AND 0xFFFFF000
         then (phys AND 0xFFFFF000) OR (va AND 0xFFF) else vmm_get_physical v va) \<and>
      (vmm_is_mapped v' va \<longleftrightarrow>
         va AND 0xFFFFF000 = virt AND 0xFFFFF000 \<or> vmm_is_mapped v va))"
proof -
  let ?e = "(phys AND 0xFFFFF000) OR (flags AND 0xFFF) OR PAGE_PRESENT"
  obtain u where u: "vmm_wf (p', u)" "present (pde u (unat (pd_idx virt)))"
    "v' = va_write (PT_ENT (pd_idx virt) (pt_idx virt)) ?e u"
    "\<And>va. unat (pd_idx va) < 1023 \<Longrightarrow> pt_entry u va = pt_entry v va"
    "frames_in_use p \<subseteq> frames_in_use p'"
    by (rule vmm_map_page_cases [OF assms(1-3), of phys flags]) (use assms(4) in auto)
  note fin = map_page_final [OF u(1) assms(2) u(2), where x = ?e, folded u(3)]
  have sm: "self_map v" "self_map v'" using vmm_wfD(2) [OF assms(1)] vmm_wfD(2) [OF fin(1)] .
  have "((flags AND 0xFFF) OR PAGE_PRESENT) AND 0xFFFFF000 = 0"
    by (simp add: word_ao_dist)
  then have e: "?e AND 0xFFFFF000 = phys AND 0xFFFFF000"
    by (simp add: word_ao_dist)
  show ?thesis
    using fin u(4,5) e
    by (simp add: vmm_get_physical_alt [OF sm(1)] vmm_get_physical_alt [OF sm(2)]
        vmm_is_mapped_alt [OF sm(1)] vmm_is_mapped_alt [OF sm(2)] or.assoc [symmetric])
qed

text \<open>
  Unmapping a page below the recursive window makes exactly the addresses of that page
  untranslated, and keeps the page tables well formed (the page table itself is not released).
\<close>

theorem vmm_unmap_page_correct:
  assumes "vmm_wf (p, v)" and "unat (pd_idx virt) < 1023"
  shows "vmm_wf (p, vmm_unmap_page virt v) \<and>
    (\<forall>va. unat (pd_idx va) < 1023 \<longrightarrow>
      vmm_get_physical (vmm_unmap_page virt v) va =
        (if va AND 0xFFFFF000 = virt AND 0xFFFFF000 then 0 else vmm_get_physical v va))"
proof (cases "present (pde v (unat (pd_idx virt)))")
  case True
  note sm = vmm_wfD(2) [OF assms(1)]
  have eq: "vmm_unmap_page virt v = va_write (PT_ENT (pd_idx virt) (pt_idx virt)) 0 v"
    using True by (simp add: vmm_unmap_page_def va_read_PD [OF sm] present_def)
  note fin = map_page_final [OF assms True, where x = 0, folded eq]
  show ?thesis
    using fin
    by (simp add: vmm_get_physical_alt [OF sm] vmm_get_physical_alt [OF vmm_wfD(2) [OF fin(1)]])
next
  case False
  note sm = vmm_wfD(2) [OF assms(1)]
  have eq: "vmm_unmap_page virt v = v"
    using False by (simp add: vmm_unmap_page_def va_read_PD [OF sm] present_def)
  have "pt_entry v va = 0" if "va AND 0xFFFFF000 = virt AND 0xFFFFF000" for va
    using that False by (simp add: same_page pt_entry_def)
  then show ?thesis unfolding eq using assms(1) by (auto simp: vmm_get_physical_alt [OF sm])
qed


text \<open>
  \<open>vmm_map_page\<close> has no result: when the directory entry is empty and no frame is left for a page
  table it returns without mapping anything, and its caller cannot tell.
\<close>

lemma vmm_map_page_silent_failure:
  assumes "vmm_wf (p, v)" and "\<not> present (pde v (unat (pd_idx virt)))"
    and "pmm_alloc_frame p = (0, p')"
  shows "vmm_map_page virt phys flags (p, v) = (p', v)"
  using assms
  by (simp add: vmm_map_page_def va_read_PD [OF vmm_wfD(2) [OF assms(1)]] present_def Let_def)

text \<open>A small machine: the directory in frame 1, no page tables yet.\<close>

definition vmm_demo :: vmm where
  "vmm_demo = vmm_init 0x1000 \<lparr>cr3 = 0x1000, ptmem = (\<lambda>_ _. 0)\<rparr>"

lemma vmm_demo_pde: "pde vmm_demo i = (if i = 1023 then 0x1003 else 0)"
  by (simp add: vmm_demo_def vmm_init_def pde_def)

lemma vmm_demo_wf: "vmm_wf (pmm_demo, vmm_demo)"
proof -
  have "(0x1000 :: u32) = frame_addr 1" by (simp add: frame_addr_def)
  then have "(0x1000 :: u32) \<in> frames_in_use pmm_demo"
    by (simp only: frames_in_use_def) (simp add: pmm_demo_used)
  then show ?thesis
    using pmm_demo_wf
    by (simp add: vmm_wf_def self_map_def tbl_def vmm_demo_pde present_def)
       (simp add: vmm_demo_def vmm_init_def)
qed

theorem vmm_map_page_correct_witness:
  "vmm_wf (pmm_demo, vmm_demo) \<and>
   vmm_get_physical (snd (vmm_map_page 0x40000000 0x5000 7 (pmm_demo, vmm_demo))) 0x40000123 = 0x5123"
proof -
  have i: "unat (pd_idx 0x40000000) < 1023" "unat (pd_idx 0x40000123) < 1023"
    by (simp_all add: unat_pd_idx)
  have room: "present (pde vmm_demo (unat (pd_idx 0x40000000))) \<or> fst (pmm_alloc_frame pmm_demo) \<noteq> 0"
    using pmm_demo_alloc by simp
  show ?thesis
    using vmm_map_page_correct [OF vmm_demo_wf i(1) room prod.collapse [symmetric], of "0x5000" "7"]
      vmm_demo_wf i(2)
    by simp
qed

theorem vmm_unmap_page_correct_witness:
  "vmm_wf (pmm_demo, vmm_demo) \<and> vmm_get_physical (vmm_unmap_page 0x40000000 vmm_demo) 0x40000123 = 0"
proof -
  have "unat (pd_idx 0x40000000) < 1023" "unat (pd_idx 0x40000123) < 1023"
    by (simp_all add: unat_pd_idx)
  then show ?thesis
    using vmm_unmap_page_correct [OF vmm_demo_wf, of "0x40000000"] vmm_demo_wf by simp
qed

end
