(* ===== verification/Heap_Proofs.thy ===== *)
theory Heap_Proofs
  imports Heap "HOL-Library.Multiset"
begin

text \<open>
  Correctness of the kernel heap. The linked headers in memory are related to a list of abstract
  blocks in address order (\<open>heap_rel\<close>); the list operations that \<open>kmalloc\<close> and \<open>kfree\<close> implement are
  stated on that list, and the layout (\<open>heap_lay\<close>: headers and payloads in order, without overlap)
  and the statistics are invariants of it.
\<close>

section \<open>Abstract blocks and the linked list that represents them\<close>

record ablock =
  ad :: u32
  bsz :: u32
  bus :: u32
  bfree :: bool

definition hdr :: "u32 \<Rightarrow> ablock \<Rightarrow> u32 \<Rightarrow> heap_block" where
  "hdr q a r = \<lparr>blk_size = bsz a, blk_user_size = bus a, blk_magic = HEAP_MAGIC, blk_next = r,
     blk_prev = q, blk_free = (if bfree a then 1 else 0)\<rparr>"

fun hd_ad :: "u32 \<Rightarrow> ablock list \<Rightarrow> u32" where
  "hd_ad r [] = r"
| "hd_ad r (a # as) = ad a"

fun last_ad :: "u32 \<Rightarrow> ablock list \<Rightarrow> u32" where
  "last_ad q [] = q"
| "last_ad q (a # as) = last_ad (ad a) as"

fun dll :: "(u32 \<Rightarrow> heap_block) \<Rightarrow> u32 \<Rightarrow> ablock list \<Rightarrow> u32 \<Rightarrow> bool" where
  "dll blk q [] r = True"
| "dll blk q (a # as) r =
     (ad a \<noteq> 0 \<and> blk (ad a) = hdr q a (hd_ad r as) \<and> dll blk (ad a) as r)"

definition heap_rel :: "heap \<Rightarrow> ablock list \<Rightarrow> bool" where
  "heap_rel h as \<longleftrightarrow> h_free_list h = hd_ad 0 as \<and> dll (h_blk h) 0 as 0"

lemma hd_ad_append [simp]: "hd_ad r (xs @ ys) = hd_ad (hd_ad r ys) xs"
  by (cases xs) auto

lemma last_ad_append [simp]: "last_ad q (xs @ ys) = last_ad (last_ad q xs) ys"
  by (induction xs arbitrary: q) auto

lemma last_ad_mem: "as \<noteq> [] \<Longrightarrow> last_ad q as \<in> ad ` set as"
proof (induction as arbitrary: q)
  case (Cons a as)
  then show ?case by (cases as) auto
qed simp

lemma dll_append [simp]:
  "dll blk q (xs @ ys) r \<longleftrightarrow> dll blk q xs (hd_ad r ys) \<and> dll blk (last_ad q xs) ys r"
  by (induction xs arbitrary: q) auto

lemma dll_cong:
  "(\<And>a. a \<in> set as \<Longrightarrow> blk' (ad a) = blk (ad a)) \<Longrightarrow> dll blk' q as r = dll blk q as r"
  by (induction as arbitrary: q) auto

lemma dll_upd [simp]: "x \<notin> ad ` set as \<Longrightarrow> dll (blk(x := b)) q as r = dll blk q as r"
  by (rule dll_cong) auto

lemma dll_nonzero: "dll blk q as r \<Longrightarrow> a \<in> set as \<Longrightarrow> ad a \<noteq> 0"
  by (induction as arbitrary: q) auto

text \<open>A change of the terminal pointer or of the first back pointer is a change of one header.\<close>

lemma dll_set_next:
  "dll blk q (xs @ [a]) r \<Longrightarrow> distinct (map ad (xs @ [a])) \<Longrightarrow>
     dll (blk(ad a := (blk (ad a))\<lparr>blk_next := r'\<rparr>)) q (xs @ [a]) r'"
  by (auto simp: hdr_def)

lemma dll_set_prev:
  "dll blk q (a # as) r \<Longrightarrow> ad a \<notin> ad ` set as \<Longrightarrow>
     dll (blk(ad a := (blk (ad a))\<lparr>blk_prev := q'\<rparr>)) q' (a # as) r"
  by (auto simp: hdr_def)

section \<open>The walks return\<close>

text \<open>
  The walks and \<open>kmalloc\<close> on memory where nothing faults. What \<open>kmalloc\<close> returns, this returns, and where it stores, the
  pages are mapped (\<open>kmalloc_plain\<close>), so most of the correctness can be proved of it.
\<close>

partial_function (option) plain_find :: "heap \<Rightarrow> u32 \<Rightarrow> u32 \<Rightarrow> u32 option" where
  "plain_find h sz block =
     (if block = 0 then Some 0
      else if blk_free (h_blk h block) \<noteq> 0 \<and> blk_size (h_blk h block) \<ge> sz then Some block
      else plain_find h sz (blk_next (h_blk h block)))"

partial_function (option) plain_last :: "heap \<Rightarrow> u32 \<Rightarrow> u32 option" where
  "plain_last h block =
     (if blk_next (h_blk h block) = 0 then Some block else plain_last h (blk_next (h_blk h block)))"

definition plain_kmalloc :: "u32 \<Rightarrow> heap \<times> mm \<Rightarrow> (u32 \<times> heap \<times> mm) option" where
  "plain_kmalloc sz s =
     (if sz = 0 then Some (0, s)
      else let (h, m) = s; user_size = sz;
               sz1 = ALIGN_UP (sz + GUARD_SIZE) 16;
               sz2 = (if sz1 < HEAP_MIN_SIZE then HEAP_MIN_SIZE else sz1)
      in Option.bind (plain_find h sz2 (h_free_list h)) (\<lambda>block.
         if block \<noteq> 0 then (case take_block block sz2 user_size h of (ptr, h') \<Rightarrow> Some (ptr, h', m))
         else let needed = HEADER_SIZE + sz2; old_end = h_end h in
           case heap_expand needed (h, m) of
             (False, h1, m1) \<Rightarrow> Some (0, h1, m1)
           | (True, h1, m1) \<Rightarrow>
               let block = old_end;
                   h2 = upd_blk block (\<lambda>b. b\<lparr>blk_size := sz2, blk_user_size := user_size,
                          blk_magic := HEAP_MAGIC, blk_free := 0, blk_next := 0, blk_prev := 0\<rparr>) h1;
                   ptr = block + HEADER_SIZE;
                   fin = (\<lambda>h. Some (ptr, count_alloc user_size (set_guard ptr user_size h), m1))
               in if h_free_list h2 = 0 then fin (h2\<lparr>h_free_list := block\<rparr>)
                  else Option.bind (plain_last h2 (h_free_list h2)) (\<lambda>last.
                    fin (upd_blk block (\<lambda>b. b\<lparr>blk_prev := last\<rparr>)
                          (upd_blk last (\<lambda>b. b\<lparr>blk_next := block\<rparr>) h2)))))"

lemma heap_find_plain:
  assumes "heap_find v h sz b = Some c"
  shows "plain_find h sz b = Some c"
  by (rule heap_find.raw_induct [OF _ assms, where P = "\<lambda>v h sz b c. plain_find h sz b = Some c"])
    (subst plain_find.simps, auto split: if_splits)

lemma heap_last_plain:
  assumes "heap_last v h b = Some c"
  shows "plain_last h b = Some c"
  by (rule heap_last.raw_induct [OF _ assms, where P = "\<lambda>v h b c. plain_last h b = Some c"])
    (subst plain_last.simps, auto split: if_splits)

lemma kmalloc_plain:
  assumes "kmalloc sz (h, m) = Some x"
  shows "plain_kmalloc sz (h, m) = Some x"
proof (cases "sz = 0")
  case False
  define s where "s = (let sz1 = ALIGN_UP (sz + GUARD_SIZE) 16 in if sz1 < HEAP_MIN_SIZE then HEAP_MIN_SIZE else sz1)"
  note un = s_def [unfolded Let_def, symmetric]
  obtain block where b: "heap_find (snd m) h s (h_free_list h) = Some block"
    using assms False by (auto simp: kmalloc_def Let_def un bind_eq_Some_conv)
  note pb = heap_find_plain [OF b]
  show ?thesis
  proof (cases "block = 0")
    case False
    then show ?thesis using assms \<open>sz \<noteq> 0\<close> b pb by (simp add: kmalloc_def plain_kmalloc_def Let_def un split: if_splits)
  next
    case True
    obtain okf h1 m1 where ex: "heap_expand (HEADER_SIZE + s) (h, m) = (okf, h1, m1)" by (metis prod_cases3)
    show ?thesis
    proof (cases okf)
      case False
      then show ?thesis
        using assms \<open>sz \<noteq> 0\<close> b pb True ex by (simp add: kmalloc_def plain_kmalloc_def Let_def un)
    next
      case okf: True
      then show ?thesis
        using assms \<open>sz \<noteq> 0\<close> b pb True ex heap_last_plain unfolding kmalloc_def plain_kmalloc_def Let_def un
        by (simp split: if_splits) (fastforce simp: bind_eq_Some_conv split: if_splits)
    qed
  qed
qed (use assms in \<open>simp add: kmalloc_def plain_kmalloc_def\<close>)

lemma plain_find_dll:
  "dll (h_blk h) q as 0 \<Longrightarrow> plain_find h s (hd_ad 0 as) =
     Some (case List.find (\<lambda>a. bfree a \<and> s \<le> bsz a) as of None \<Rightarrow> 0 | Some a \<Rightarrow> ad a)"
proof (induction as arbitrary: q)
  case Nil
  then show ?case by (simp add: plain_find.simps)
next
  case (Cons a as)
  then show ?case
    by (subst plain_find.simps) (auto simp: hdr_def)
qed

lemma plain_last_dll:
  "dll (h_blk h) q (a # as) 0 \<Longrightarrow> plain_last h (ad a) = Some (last_ad q (a # as))"
proof (induction as arbitrary: q a)
  case Nil
  then show ?case by (subst plain_last.simps) (simp add: hdr_def)
next
  case (Cons b bs)
  then show ?case by (subst plain_last.simps) (simp add: hdr_def)
qed

section \<open>Layout\<close>

text \<open>
  Blocks lie in address order between \<open>lo\<close> and \<open>hi\<close>, each with its 24-byte header and its payload,
  and do not overlap.
\<close>

fun heap_lay :: "nat \<Rightarrow> ablock list \<Rightarrow> nat \<Rightarrow> bool" where
  "heap_lay lo [] hi \<longleftrightarrow> lo \<le> hi"
| "heap_lay lo (a # as) hi \<longleftrightarrow> lo \<le> unat (ad a) \<and> heap_lay (unat (ad a) + 24 + unat (bsz a)) as hi"

lemma heap_lay_le: "heap_lay lo as hi \<Longrightarrow> lo \<le> hi"
  by (induction as arbitrary: lo) force+

lemma heap_lay_mono: "heap_lay lo as hi \<Longrightarrow> lo' \<le> lo \<Longrightarrow> hi \<le> hi' \<Longrightarrow> heap_lay lo' as hi'"
  by (induction as arbitrary: lo lo') auto

lemma heap_lay_append:
  "heap_lay lo (xs @ a # ys) hi \<longleftrightarrow>
     heap_lay lo xs (unat (ad a)) \<and> heap_lay (unat (ad a) + 24 + unat (bsz a)) ys hi"
  by (induction xs arbitrary: lo) auto

lemma heap_lay_mem:
  "heap_lay lo as hi \<Longrightarrow> a \<in> set as \<Longrightarrow> lo \<le> unat (ad a) \<and> unat (ad a) + 24 + unat (bsz a) \<le> hi"
proof (induction as arbitrary: lo)
  case (Cons b as)
  then show ?case using heap_lay_le [of "unat (ad b) + 24 + unat (bsz b)" as hi] by fastforce
qed simp

lemma heap_lay_ordered:
  "heap_lay lo as hi \<Longrightarrow> i < j \<Longrightarrow> j < length as \<Longrightarrow>
     unat (ad (as ! i)) + 24 + unat (bsz (as ! i)) \<le> unat (ad (as ! j))"
proof (induction as arbitrary: lo i j)
  case (Cons b as)
  show ?case
  proof (cases i)
    case 0
    then have "as ! (j - 1) \<in> set as" using Cons.prems by (intro nth_mem) auto
    then show ?thesis
      using heap_lay_mem [of "unat (ad b) + 24 + unat (bsz b)" as hi "as ! (j - 1)"] Cons.prems 0
      by (auto simp: nth_Cons')
  next
    case (Suc k)
    then show ?thesis using Cons.IH [of "unat (ad b) + 24 + unat (bsz b)" k "j - 1"] Cons.prems
      by (auto simp: nth_Cons')
  qed
qed simp

lemma heap_lay_distinct:
  assumes "heap_lay lo as hi"
  shows "distinct (map ad as)"
proof -
  have "ad (as ! i) \<noteq> ad (as ! j)" if "i < j" "j < length as" for i j
    using heap_lay_ordered [OF assms that] by auto
  then show ?thesis
    by (auto simp: distinct_conv_nth) (metis nat_neq_iff)
qed

text \<open>The bytes taken up by a list of blocks.\<close>

definition footprint :: "ablock list \<Rightarrow> nat" where
  "footprint as = (\<Sum>a \<leftarrow> as. 24 + unat (bsz a))"

lemma heap_lay_footprint: "heap_lay lo as hi \<Longrightarrow> lo + footprint as \<le> hi"
  by (induction as arbitrary: lo) (force simp: footprint_def)+


section \<open>The invariant\<close>

definition ablk_ok :: "ablock \<Rightarrow> bool" where
  "ablk_ok a \<longleftrightarrow> unat (ad a) mod 8 = 0 \<and> unat (bsz a) mod 8 = 0 \<and> 16 \<le> unat (bsz a) \<and>
     (\<not> bfree a \<longrightarrow> unat (bus a) + 4 \<le> unat (bsz a))"

text \<open>The live blocks: address and requested size of every block that is not free.\<close>

definition live :: "ablock list \<Rightarrow> (u32 \<times> u32) list" where
  "live as = map (\<lambda>a. (ad a, bus a)) (filter (\<lambda>a. \<not> bfree a) as)"

definition live_bytes :: "ablock list \<Rightarrow> nat" where
  "live_bytes as = (\<Sum>x \<leftarrow> live as. unat (snd x))"

lemma live_simps [simp]:
  "live [] = []" "live (xs @ ys) = live xs @ live ys"
  "live (a # as) = (if bfree a then live as else (ad a, bus a) # live as)"
  by (simp_all add: live_def)

lemma live_bytes_simps [simp]:
  "live_bytes [] = 0" "live_bytes (xs @ ys) = live_bytes xs + live_bytes ys"
  "live_bytes (a # as) = (if bfree a then live_bytes as else unat (bus a) + live_bytes as)"
  by (simp_all add: live_bytes_def)

definition stats_ok :: "heap \<Rightarrow> ablock list \<Rightarrow> bool" where
  "stats_ok h as \<longleftrightarrow> unat (current_allocations h) = length (live as) \<and>
     unat (bytes_allocated h) = live_bytes as \<and>
     total_allocations h = total_frees h + current_allocations h"

definition heap_ok :: "heap \<Rightarrow> ablock list \<Rightarrow> bool" where
  "heap_ok h as \<longleftrightarrow> heap_rel h as \<and> heap_lay (unat (h_start h)) as (unat (h_end h)) \<and>
     16 \<le> unat (h_start h) \<and> h_end h \<le> h_max h \<and> unat (h_end h) mod 16 = 0 \<and>
     (\<forall>a \<in> set as. ablk_ok a) \<and> stats_ok h as"

lemma heap_okD:
  assumes "heap_ok h as"
  shows "heap_rel h as" and "heap_lay (unat (h_start h)) as (unat (h_end h))"
    and "distinct (map ad as)" and "a \<in> set as \<Longrightarrow> ablk_ok a" and "stats_ok h as"
  using assms heap_lay_distinct by (auto simp: heap_ok_def)

lemma live_footprint:
  "\<forall>a \<in> set as. ablk_ok a \<Longrightarrow> live_bytes as + 28 * length (live as) \<le> footprint as"
  by (induction as) (auto simp: footprint_def ablk_ok_def)

text \<open>The live blocks always fit below \<open>2 ^ 32\<close>, so the counters cannot wrap.\<close>

lemma live_bound:
  assumes "heap_lay lo as hi" and "hi < 2 ^ 32" and "\<forall>a \<in> set as. ablk_ok a"
  shows "live_bytes as < 2 ^ 32" and "length (live as) < 2 ^ 32"
  using live_footprint [OF assms(3)] heap_lay_footprint [OF assms(1)] assms(2) by simp_all

section \<open>Allocation from a free block\<close>

definition split_off :: "heap \<Rightarrow> ablock \<Rightarrow> u32 \<Rightarrow> ablock" where
  "split_off h a s = \<lparr>ad = ad a + HEADER_SIZE + s, bsz = bsz a - s - HEADER_SIZE,
     bus = blk_user_size (h_blk h (ad a + HEADER_SIZE + s)), bfree = True\<rparr>"

lemma split_block_rel:
  assumes "heap_rel h (xs @ a # ys)" and "distinct (map ad (xs @ a # ys))" and "bfree a"
    and "ad (split_off h a s) \<notin> ad ` set (xs @ a # ys)" and "ad (split_off h a s) \<noteq> 0"
  shows "heap_rel (split_block (ad a) s h) (xs @ a\<lparr>bsz := s\<rparr> # split_off h a s # ys)"
proof -
  let ?n = "split_off h a s"
  have n: "ad a + HEADER_SIZE + s = ad ?n" by (simp add: split_off_def)
  show ?thesis
  proof (cases ys)
    case Nil
    have d: "dll (h_blk h) 0 xs (ad a)" "h_blk h (ad a) = hdr (last_ad 0 xs) a 0"
      "ad a \<noteq> 0" "h_free_list h = hd_ad (ad a) xs"
      using assms(1) by (simp_all add: heap_rel_def Nil)
    have ne: "ad ?n \<noteq> ad a" "ad a \<notin> ad ` set xs" "ad ?n \<notin> ad ` set xs"
      using assms(2,4) by (auto simp: Nil)
    have blk: "h_blk (split_block (ad a) s h) = (h_blk h)(ad ?n := hdr (ad a) ?n 0,
        ad a := hdr (last_ad 0 xs) (a\<lparr>bsz := s\<rparr>) (ad ?n))"
      using ne(1) d(2) unfolding split_block_def upd_blk_def Let_def n
      by simp (simp add: hdr_def split_off_def fun_eq_iff)
    have fl: "h_free_list (split_block (ad a) s h) = h_free_list h"
      by (simp add: split_block_def upd_blk_def Let_def)
    show ?thesis
      unfolding heap_rel_def blk fl Nil using d ne assms(5) by simp
  next
    case (Cons y zs)
    have d: "dll (h_blk h) 0 xs (ad a)" "h_blk h (ad a) = hdr (last_ad 0 xs) a (ad y)"
      "h_blk h (ad y) = hdr (ad a) y (hd_ad 0 zs)" "dll (h_blk h) (ad y) zs 0"
      "ad a \<noteq> 0" "ad y \<noteq> 0" "h_free_list h = hd_ad (ad a) xs"
      using assms(1) by (simp_all add: heap_rel_def Cons)
    have ne: "ad a \<noteq> ad y" "ad ?n \<noteq> ad a" "ad ?n \<noteq> ad y" "ad a \<notin> ad ` set xs" "ad y \<notin> ad ` set xs"
      "ad a \<notin> ad ` set zs" "ad y \<notin> ad ` set zs" "ad ?n \<notin> ad ` set xs" "ad ?n \<notin> ad ` set zs"
      using assms(2,4) by (auto simp: Cons)
    have blk: "h_blk (split_block (ad a) s h) = (h_blk h)(ad ?n := hdr (ad a) ?n (ad y),
        ad y := hdr (ad ?n) y (hd_ad 0 zs), ad a := hdr (last_ad 0 xs) (a\<lparr>bsz := s\<rparr>) (ad ?n))"
      using ne(1-3) d(2,3,6) unfolding split_block_def upd_blk_def Let_def n
      by (simp add: fun_upd_twist [of "ad a" "ad y"])
         (simp add: hdr_def split_off_def fun_eq_iff)
    have fl: "h_free_list (split_block (ad a) s h) = h_free_list h"
      by (simp add: split_block_def upd_blk_def Let_def)
    show ?thesis
      unfolding heap_rel_def blk fl Cons using d ne assms(5) by simp
  qed
qed


lemma mark_block_rel:
  assumes "heap_rel h (xs @ a # ys)" and "distinct (map ad (xs @ a # ys))"
  shows "heap_rel (upd_blk (ad a) (\<lambda>b. b\<lparr>blk_free := (if f then 1 else 0), blk_user_size := u\<rparr>) h)
     (xs @ a\<lparr>bfree := f, bus := u\<rparr> # ys)"
  using assms by (auto simp: heap_rel_def upd_blk_def hdr_def)

lemma upd_blk_fields [simp]:
  "h_start (upd_blk b f h) = h_start h" "h_end (upd_blk b f h) = h_end h"
  "h_max (upd_blk b f h) = h_max h" "h_free_list (upd_blk b f h) = h_free_list h"
  "h_word (upd_blk b f h) = h_word h"
  "total_allocations (upd_blk b f h) = total_allocations h"
  "total_frees (upd_blk b f h) = total_frees h"
  "current_allocations (upd_blk b f h) = current_allocations h"
  "bytes_allocated (upd_blk b f h) = bytes_allocated h"
  by (simp_all add: upd_blk_def)

lemma split_block_fields [simp]:
  "h_start (split_block b s h) = h_start h" "h_end (split_block b s h) = h_end h"
  "h_max (split_block b s h) = h_max h" "h_word (split_block b s h) = h_word h"
  "total_allocations (split_block b s h) = total_allocations h"
  "total_frees (split_block b s h) = total_frees h"
  "current_allocations (split_block b s h) = current_allocations h"
  "bytes_allocated (split_block b s h) = bytes_allocated h"
  by (simp_all add: split_block_def Let_def)

lemma count_alloc_fields [simp]:
  "h_start (count_alloc u h) = h_start h" "h_end (count_alloc u h) = h_end h"
  "h_max (count_alloc u h) = h_max h" "h_free_list (count_alloc u h) = h_free_list h"
  "h_blk (count_alloc u h) = h_blk h" "h_word (count_alloc u h) = h_word h"
  "total_allocations (count_alloc u h) = total_allocations h + 1"
  "total_frees (count_alloc u h) = total_frees h"
  "current_allocations (count_alloc u h) = current_allocations h + 1"
  "bytes_allocated (count_alloc u h) = bytes_allocated h + u"
  by (simp_all add: count_alloc_def Let_def)

lemma set_guard_fields [simp]:
  "h_start (set_guard p u h) = h_start h" "h_end (set_guard p u h) = h_end h"
  "h_max (set_guard p u h) = h_max h" "h_free_list (set_guard p u h) = h_free_list h"
  "h_blk (set_guard p u h) = h_blk h" "h_word (set_guard p u h) = (h_word h)(p + u := HEAP_GUARD)"
  "total_allocations (set_guard p u h) = total_allocations h"
  "total_frees (set_guard p u h) = total_frees h"
  "current_allocations (set_guard p u h) = current_allocations h"
  "bytes_allocated (set_guard p u h) = bytes_allocated h"
  by (simp_all add: set_guard_def)

text \<open>Counting one more live block.\<close>

lemma stats_ok_alloc:
  assumes "stats_ok h as" and "length (live as') = Suc (length (live as))"
    and "live_bytes as' = live_bytes as + unat u"
    and "length (live as') < 2 ^ 32" and "live_bytes as' < 2 ^ 32"
    and "total_allocations h' = total_allocations h + 1" "total_frees h' = total_frees h"
      "current_allocations h' = current_allocations h + 1"
      "bytes_allocated h' = bytes_allocated h + u"
  shows "stats_ok h' as'"
  using assms by (simp add: stats_ok_def unat_word_ariths)

lemma heap_ok_room:
  assumes "heap_ok h as" and "a \<in> set as"
  shows "16 \<le> unat (ad a)" and "unat (ad a) + 24 + unat (bsz a) \<le> 2 ^ 32 - 16"
proof -
  have "unat (h_end h) \<le> 2 ^ 32 - 16"
  proof -
    have "unat (h_end h) mod 16 = 0" using assms(1) by (simp add: heap_ok_def)
    then obtain q where q: "unat (h_end h) = 16 * q" by (auto simp: mod_eq_0_iff_dvd elim: dvdE)
    then have "q < 268435456" using unat_lt_u32 [of "h_end h"] by simp
    then show ?thesis using q by simp
  qed
  then show "16 \<le> unat (ad a)" "unat (ad a) + 24 + unat (bsz a) \<le> 2 ^ 32 - 16"
    using heap_lay_mem [OF heap_okD(2) [OF assms(1)] assms(2)] assms(1)
    by (auto simp: heap_ok_def)
qed

definition placed :: "heap \<Rightarrow> ablock list \<Rightarrow> ablock \<Rightarrow> ablock list \<Rightarrow> u32 \<Rightarrow> u32 \<Rightarrow> ablock list" where
  "placed h xs a ys s u =
     (if unat s + 40 \<le> unat (bsz a)
      then xs @ a\<lparr>bsz := s, bfree := False, bus := u\<rparr> # split_off h a s # ys
      else xs @ a\<lparr>bfree := False, bus := u\<rparr> # ys)"

lemma live_placed: "bfree a \<Longrightarrow>
    live (placed h xs a ys s u) = live xs @ (ad a, u) # live ys \<and>
    live_bytes (placed h xs a ys s u) = live_bytes (xs @ a # ys) + unat u"
  by (simp add: placed_def split_off_def)

lemma placed_ok:
  assumes ok: "heap_ok h (xs @ a # ys)" and "bfree a" and "unat s \<le> unat (bsz a)"
    and "unat s mod 8 = 0" and "16 \<le> unat s" and "unat u + 4 \<le> unat s"
  shows "heap_lay (unat (h_start h)) (placed h xs a ys s u) (unat (h_end h))"
    and "\<forall>b \<in> set (placed h xs a ys s u). ablk_ok b"
proof -
  let ?n = "split_off h a s"
  have lay: "heap_lay (unat (h_start h)) xs (unat (ad a))"
    "heap_lay (unat (ad a) + 24 + unat (bsz a)) ys (unat (h_end h))"
    using heap_okD(2) [OF ok] by (simp_all add: heap_lay_append)
  note room = heap_ok_room [OF ok, of a, simplified]
  have ak: "ablk_ok a" "\<forall>b \<in> set xs \<union> set ys. ablk_ok b" using heap_okD(4) [OF ok] by auto
  have n: "unat (ad ?n) = unat (ad a) + 24 + unat s"
    "unat (bsz ?n) = unat (bsz a) - unat s - 24" if "unat s + 40 \<le> unat (bsz a)"
    using that room by (simp_all add: split_off_def unat_word_ariths unat_sub_if')
  have mod8: "(unat (bsz a) - unat s - 24) mod 8 = 0"
  proof -
    have "8 dvd unat (bsz a)" "8 dvd unat s + 24" using ak(1) assms(4) by (auto simp: ablk_ok_def)
    then have "8 dvd unat (bsz a) - (unat s + 24)" by (rule dvd_diff_nat)
    then show ?thesis by simp
  qed
  show "heap_lay (unat (h_start h)) (placed h xs a ys s u) (unat (h_end h))"
    using lay n by (auto simp: placed_def heap_lay_append add.commute add.left_commute)
  have "8 dvd unat (ad a) + 24 + unat s"
    using ak(1) assms(4) by (auto simp: ablk_ok_def intro!: dvd_add)
  then have "(unat (ad a) + 24 + unat s) mod 8 = 0" by simp
  then have "ablk_ok ?n" if "unat s + 40 \<le> unat (bsz a)"
    using that n [OF that] mod8 by (simp add: ablk_ok_def) (simp add: split_off_def)
  then show "\<forall>b \<in> set (placed h xs a ys s u). ablk_ok b"
    using ak assms by (auto simp: placed_def ablk_ok_def)
qed


lemma placed_rel:
  assumes ok: "heap_ok h (xs @ a # ys)" and "bfree a" and "unat s \<le> unat (bsz a)"
    and "unat s mod 8 = 0" and "16 \<le> unat s" and "unat u + 4 \<le> unat s"
  shows "heap_rel (snd (take_block (ad a) s u h)) (placed h xs a ys s u)"
proof -
  note room = heap_ok_room [OF ok, of a, simplified] and rel = heap_okD(1,3) [OF ok]
  have blk: "blk_size (h_blk h (ad a)) = bsz a" using rel by (simp add: heap_rel_def hdr_def)
  have s40: "unat (s + HEADER_SIZE + HEAP_MIN_SIZE) = unat s + 40"
    using room assms(3) by (simp add: unat_word_ariths)
  have drop: "heap_rel (count_alloc w (set_guard q w' k)) bs = heap_rel k bs" for w q w' k bs
    by (simp add: heap_rel_def)
  have mark: "upd_blk b (\<lambda>x. x\<lparr>blk_free := 0, blk_user_size := u\<rparr>) k =
      upd_blk b (\<lambda>x. x\<lparr>blk_free := (if False then 1 else 0), blk_user_size := u\<rparr>) k" for b k
    by simp
  show ?thesis
  proof (cases "unat s + 40 \<le> unat (bsz a)")
    case True
    let ?n = "split_off h a s"
    have pd: "distinct (map ad (placed h xs a ys s u))"
      using placed_ok(1) [OF assms] by (rule heap_lay_distinct)
    then have nn: "ad ?n \<notin> ad ` set (xs @ a # ys)" and d: "distinct (map ad (xs @ a\<lparr>bsz := s\<rparr> # ?n # ys))"
      using True by (auto simp: placed_def)
    have "unat (ad ?n) = unat (ad a) + 24 + unat s"
      using True room by (simp add: split_off_def unat_word_ariths)
    then have "ad ?n \<noteq> 0" by auto
    then have "heap_rel (split_block (ad a) s h) (xs @ a\<lparr>bsz := s\<rparr> # ?n # ys)"
      using split_block_rel [OF rel assms(2) nn] by simp
    from mark_block_rel [OF this d, where f = False and u = u] show ?thesis
      using True s40 by (simp add: take_block_def Let_def drop placed_def blk word_le_nat_alt)
  next
    case False
    from mark_block_rel [OF rel, where f = False and u = u] show ?thesis
      using False s40 by (simp add: take_block_def Let_def drop placed_def blk word_le_nat_alt)
  qed
qed

lemma take_block_ok [zos_inv]:
  assumes ok: "heap_ok h (xs @ a # ys)" and "bfree a" and "unat s \<le> unat (bsz a)"
    and "unat s mod 8 = 0" and "16 \<le> unat s" and "unat u + 4 \<le> unat s"
  shows "heap_ok (snd (take_block (ad a) s u h)) (placed h xs a ys s u)"
proof -
  let ?as = "placed h xs a ys s u" and ?h = "snd (take_block (ad a) s u h)"
  note po = placed_ok [OF assms]
  have f: "h_start ?h = h_start h" "h_end ?h = h_end h" "h_max ?h = h_max h"
    by (simp_all add: take_block_def Let_def)
  have "stats_ok ?h ?as"
  proof (rule stats_ok_alloc [OF heap_okD(5) [OF ok]])
    show "length (live ?as) = Suc (length (live (xs @ a # ys)))"
      "live_bytes ?as = live_bytes (xs @ a # ys) + unat u"
      using live_placed [OF assms(2)] assms(2) by auto
    show "length (live ?as) < 2 ^ 32" "live_bytes ?as < 2 ^ 32"
      using live_bound [OF po(1) _ po(2)] unat_lt_u32 [of "h_end h"] by simp_all
  qed (simp_all add: take_block_def Let_def)
  then show ?thesis
    using ok po placed_rel [OF assms] by (simp add: heap_ok_def f)
qed


section \<open>Allocation at the end of the heap\<close>

definition new_ablock :: "heap \<Rightarrow> u32 \<Rightarrow> u32 \<Rightarrow> ablock" where
  "new_ablock h s u = \<lparr>ad = h_end h, bsz = s, bus = u, bfree = False\<rparr>"

lemma heap_expand_result:
  assumes "heap_expand needed (h, m) = (True, h1, m1)"
    and "unat (h_end h) + unat needed + 4095 < 2 ^ 32"
  shows "h1 = h\<lparr>h_end := h_end h1\<rparr>" and "unat (h_end h) + unat needed \<le> unat (h_end h1)"
    and "unat (h_end h1) mod 16 = 0" and "h_end h1 \<le> h_max h"
proof -
  let ?e = "ALIGN_UP (h_end h + needed) PAGE_SIZE"
  have h1: "h1 = h\<lparr>h_end := ?e\<rparr>" "?e \<le> h_max h"
    using assms(1) by (auto simp: heap_expand_def Let_def split: if_splits prod.splits)
  have u: "unat (h_end h + needed) = unat (h_end h) + unat needed"
    using assms(2) by (simp add: unat_word_ariths)
  then have e: "unat ?e = (unat (h_end h) + unat needed + 4095) div 4096 * 4096"
    using unat_ALIGN_UP_page [of "h_end h + needed"] assms(2) by simp
  show "h1 = h\<lparr>h_end := h_end h1\<rparr>" using h1(1) by simp
  show "h_end h1 \<le> h_max h" using h1 by simp
  define n where "n = unat (h_end h) + unat needed"
  have "n \<le> (n + 4095) div 4096 * 4096" by linarith
  then show "unat (h_end h) + unat needed \<le> unat (h_end h1)" using e h1(1) by (simp add: n_def)
  show "unat (h_end h1) mod 16 = 0"
    using e h1(1) dvd_mult [of 16 4096 "(n + 4095) div 4096"] by (simp add: n_def)
qed

lemma heap_expand_fail: "heap_expand needed (h, m) = (False, h1, m1) \<Longrightarrow> h1 = h"
  by (auto simp: heap_expand_def Let_def split: if_splits prod.splits)

text \<open>The block linked in behind the last one, or as the first.\<close>

lemma append_block_rel:
  assumes "heap_rel h as" and "distinct (map ad (as @ [n]))" and "ad n \<noteq> 0"
  defines "h2 \<equiv> upd_blk (ad n) (\<lambda>b. hdr 0 n 0) h"
  shows "as = [] \<Longrightarrow> h_free_list h2 = 0 \<and> heap_rel (h2\<lparr>h_free_list := ad n\<rparr>) [n]"
    and "as \<noteq> [] \<Longrightarrow> h_free_list h2 \<noteq> 0 \<and> plain_last h2 (h_free_list h2) = Some (last_ad 0 as) \<and>
      heap_rel (upd_blk (ad n) (\<lambda>b. b\<lparr>blk_prev := last_ad 0 as\<rparr>)
        (upd_blk (last_ad 0 as) (\<lambda>b. b\<lparr>blk_next := ad n\<rparr>) h2)) (as @ [n])"
proof -
  have d2: "dll (h_blk h2) 0 as 0"
    using assms(1,2) by (auto simp: h2_def upd_blk_def heap_rel_def)
  show "h_free_list h2 = 0 \<and> heap_rel (h2\<lparr>h_free_list := ad n\<rparr>) [n]" if "as = []"
    using assms(1,3) that by (simp add: h2_def heap_rel_def upd_blk_def)
  assume "as \<noteq> []"
  then obtain zs z where as: "as = zs @ [z]" by (metis rev_exhaust)
  then obtain b bs where bb: "as = b # bs" by (metis append_is_Nil_conv neq_Nil_conv not_Cons_self2)
  have fl: "h_free_list h2 = ad b" "ad b \<noteq> 0"
    using assms(1) by (simp_all add: h2_def heap_rel_def bb)
  have last: "plain_last h2 (h_free_list h2) = Some (last_ad 0 as)"
    using plain_last_dll [of h2 0 b bs] d2 fl(1) by (simp add: bb)
  have "heap_rel (upd_blk (ad n) (\<lambda>b. b\<lparr>blk_prev := last_ad 0 as\<rparr>)
        (upd_blk (last_ad 0 as) (\<lambda>b. b\<lparr>blk_next := ad n\<rparr>) h2)) (as @ [n])"
    using assms(1-3) by (auto simp: heap_rel_def upd_blk_def h2_def hdr_def as)
  then show "h_free_list h2 \<noteq> 0 \<and> plain_last h2 (h_free_list h2) = Some (last_ad 0 as) \<and>
      heap_rel (upd_blk (ad n) (\<lambda>b. b\<lparr>blk_prev := last_ad 0 as\<rparr>)
        (upd_blk (last_ad 0 as) (\<lambda>b. b\<lparr>blk_next := ad n\<rparr>) h2)) (as @ [n])"
    using fl last by simp
qed

text \<open>The block of \<open>kmalloc\<close>'s second path, and the heap it leaves.\<close>

definition grown :: "heap \<Rightarrow> u32 \<Rightarrow> u32 \<Rightarrow> ablock list \<Rightarrow> heap \<Rightarrow> bool" where
  "grown h s u as h' \<longleftrightarrow> heap_ok h' (as @ [new_ablock h s u]) \<and>
     h_word h' = (h_word h)(h_end h + HEADER_SIZE + u := HEAP_GUARD) \<and>
     (\<forall>x. h_blk h' x \<noteq> h_blk h x \<longrightarrow> x \<in> ad ` set (as @ [new_ablock h s u]))"

lemma grown_ok:
  assumes ok: "heap_ok h as" and "unat s mod 8 = 0" and "16 \<le> unat s" and "unat u + 4 \<le> unat s"
    and ex: "h1 = h\<lparr>h_end := h_end h1\<rparr>" "unat (h_end h) + 24 + unat s \<le> unat (h_end h1)"
      "unat (h_end h1) mod 16 = 0" "h_end h1 \<le> h_max h"
    and rel: "heap_rel h3 (as @ [new_ablock h s u])"
    and f: "h_start h3 = h_start h" "h_end h3 = h_end h1" "h_max h3 = h_max h" "h_word h3 = h_word h"
      "total_allocations h3 = total_allocations h" "total_frees h3 = total_frees h"
      "current_allocations h3 = current_allocations h" "bytes_allocated h3 = bytes_allocated h"
      "\<forall>x. h_blk h3 x \<noteq> h_blk h x \<longrightarrow> x \<in> ad ` set (as @ [new_ablock h s u])"
  shows "grown h s u as (count_alloc u (set_guard (h_end h + HEADER_SIZE) u h3))"
proof -
  let ?n = "new_ablock h s u" and ?h = "count_alloc u (set_guard (h_end h + HEADER_SIZE) u h3)"
  have lay: "heap_lay (unat (h_start h)) (as @ [?n]) (unat (h_end h1))"
    using heap_okD(2) [OF ok] ex(2) by (simp add: heap_lay_append new_ablock_def)
  have "16 dvd unat (h_end h)" using ok by (auto simp: heap_ok_def)
  moreover have "(8 :: nat) dvd 16" by simp
  ultimately have "8 dvd unat (h_end h)" by (metis dvd_trans)
  then have blk: "\<forall>a \<in> set (as @ [?n]). ablk_ok a"
    using heap_okD(4) [OF ok] assms(2-4) by (auto simp: new_ablock_def ablk_ok_def)
  have lv: "live (as @ [?n]) = live as @ [(h_end h, u)]" "live_bytes (as @ [?n]) = live_bytes as + unat u"
    by (simp_all add: new_ablock_def)
  have "stats_ok ?h (as @ [?n])"
  proof (rule stats_ok_alloc [OF heap_okD(5) [OF ok]])
    show "length (live (as @ [?n])) < 2 ^ 32" "live_bytes (as @ [?n]) < 2 ^ 32"
      using live_bound [OF lay _ blk] unat_lt_u32 [of "h_end h1"] by simp_all
  qed (simp_all add: f new_ablock_def)
  moreover have "heap_rel ?h (as @ [?n])" using rel by (simp add: heap_rel_def)
  ultimately show ?thesis
    using lay blk ex ok f(9) by (simp add: grown_def heap_ok_def f)
qed


section \<open>kmalloc\<close>

text \<open>The payload size that a request is rounded up to.\<close>

definition kmalloc_size :: "u32 \<Rightarrow> u32" where
  "kmalloc_size sz = (let sz1 = ALIGN_UP (sz + GUARD_SIZE) 16 in
     if sz1 < HEAP_MIN_SIZE then HEAP_MIN_SIZE else sz1)"

lemma kmalloc_size_props:
  assumes "sz \<noteq> 0" and "unat sz + 19 < 2 ^ 32"
  shows "unat (kmalloc_size sz) mod 8 = 0" and "16 \<le> unat (kmalloc_size sz)"
    and "unat sz + 4 \<le> unat (kmalloc_size sz)" and "unat (kmalloc_size sz) \<le> unat sz + 19"
proof -
  have u: "unat (sz + 4) = unat sz + 4" using assms(2) by (simp add: unat_word_ariths)
  have "unat sz \<noteq> 0" using assms(1) by (simp add: unat_eq_0)
  define n where "n = unat sz + 4"
  have e: "unat (ALIGN_UP (sz + 4) 16) = (n + 15) div 16 * 16"
    using unat_ALIGN_UP_16 [of "sz + 4"] u assms(2) by (simp add: n_def)
  have n: "16 \<le> (n + 15) div 16 * 16" "n \<le> (n + 15) div 16 * 16" "(n + 15) div 16 * 16 \<le> n + 15"
    using \<open>unat sz \<noteq> 0\<close> by (simp_all add: n_def)
  then have k: "unat (kmalloc_size sz) = (n + 15) div 16 * 16"
    using e by (simp add: kmalloc_size_def Let_def word_less_nat_alt)
  have "8 dvd (n + 15) div 16 * 16" by (intro dvd_mult) simp
  then show "unat (kmalloc_size sz) mod 8 = 0" using k by simp
  show "16 \<le> unat (kmalloc_size sz)" "unat sz + 4 \<le> unat (kmalloc_size sz)"
    "unat (kmalloc_size sz) \<le> unat sz + 19"
    using n k by (simp_all add: n_def)
qed

lemma kmalloc_found:
  assumes ok: "heap_ok h (xs @ a # ys)" and "sz \<noteq> 0"
    and "bfree a" "kmalloc_size sz \<le> bsz a"
    and "\<forall>b \<in> set xs. \<not> (bfree b \<and> kmalloc_size sz \<le> bsz b)"
  shows "plain_kmalloc sz (h, m) =
    Some (ad a + HEADER_SIZE, snd (take_block (ad a) (kmalloc_size sz) sz h), m)"
proof -
  have rel: "heap_rel h (xs @ a # ys)" by (rule heap_okD(1) [OF ok])
  have "List.find (\<lambda>a. bfree a \<and> kmalloc_size sz \<le> bsz a) (xs @ a # ys) = Some a"
    using assms(3-5) by (induction xs) auto
  then have "plain_find h (kmalloc_size sz) (h_free_list h) = Some (ad a)"
    using plain_find_dll [of h 0 "xs @ a # ys" "kmalloc_size sz"] rel
    by (simp add: heap_rel_def)
  moreover have "ad a \<noteq> 0" using rel by (simp add: heap_rel_def)
  ultimately show ?thesis
    using assms(2) unfolding plain_kmalloc_def kmalloc_size_def [symmetric] Let_def
    by (simp add: kmalloc_size_def [unfolded Let_def, symmetric] take_block_def Let_def)
qed

lemma kmalloc_grow:
  assumes ok: "heap_ok h as" and "sz \<noteq> 0" and room: "unat (h_end h) + unat sz + 4138 < 2 ^ 32"
    and none: "\<forall>b \<in> set as. \<not> (bfree b \<and> kmalloc_size sz \<le> bsz b)"
  shows "(\<exists>m'. plain_kmalloc sz (h, m) = Some (0, h, m')) \<or>
    (\<exists>h' m'. plain_kmalloc sz (h, m) = Some (h_end h + HEADER_SIZE, h', m') \<and> grown h (kmalloc_size sz) sz as h')"
proof -
  let ?s = "kmalloc_size sz" and ?n = "new_ablock h (kmalloc_size sz) sz"
  note rel = heap_okD(1) [OF ok]
  have "List.find (\<lambda>a. bfree a \<and> ?s \<le> bsz a) as = None"
    using none by (auto simp: find_None_iff)
  then have find: "plain_find h ?s (h_free_list h) = Some 0"
    using plain_find_dll [of h 0 as ?s] rel by (simp add: heap_rel_def)
  note sp = kmalloc_size_props [OF assms(2)]
  have sz19: "unat sz + 19 < 2 ^ 32" using room by simp
  have needed: "unat (HEADER_SIZE + ?s) = 24 + unat ?s"
    using sp(4) [OF sz19] room by (simp add: unat_word_ariths)
  obtain okf h1 m1 where ex: "heap_expand (HEADER_SIZE + ?s) (h, m) = (okf, h1, m1)"
    by (metis prod_cases3)
  show ?thesis
  proof (cases okf)
    case False
    then show ?thesis
      using ex heap_expand_fail [of "HEADER_SIZE + ?s" h m h1 m1] find assms(2)
      unfolding plain_kmalloc_def
      by (simp add: kmalloc_size_def [unfolded Let_def, symmetric] Let_def)
  next
    case True
    have r: "h1 = h\<lparr>h_end := h_end h1\<rparr>" "unat (h_end h) + 24 + unat ?s \<le> unat (h_end h1)"
      "unat (h_end h1) mod 16 = 0" "h_end h1 \<le> h_max h"
      using heap_expand_result [of "HEADER_SIZE + ?s" h m h1 m1] ex True needed sp(4) [OF sz19] room
      by simp_all
    have lay: "heap_lay (unat (h_start h)) (as @ [?n]) (unat (h_end h1))"
      using heap_okD(2) [OF ok] r(2) by (simp add: heap_lay_append new_ablock_def)
    have ne: "ad ?n \<noteq> 0" using heap_lay_le [OF heap_okD(2) [OF ok]] ok
      by (auto simp: new_ablock_def heap_ok_def)
    have rel1: "heap_rel h1 as" using rel by (subst r(1)) (simp add: heap_rel_def)
    let ?h2 = "upd_blk (ad ?n) (\<lambda>b. hdr 0 ?n 0) h1"
    note ap = append_block_rel [OF rel1 heap_lay_distinct [OF lay] ne]
    have h2: "upd_blk (h_end h) (\<lambda>b. b\<lparr>blk_size := ?s, blk_user_size := sz, blk_magic := HEAP_MAGIC,
        blk_free := 0, blk_next := 0, blk_prev := 0\<rparr>) h1 = ?h2"
      by (simp add: upd_blk_def hdr_def new_ablock_def fun_eq_iff)
    have f1: "h_start h1 = h_start h" "h_max h1 = h_max h" "h_word h1 = h_word h" "total_allocations h1 = total_allocations h"
      "total_frees h1 = total_frees h" "current_allocations h1 = current_allocations h"
      "bytes_allocated h1 = bytes_allocated h" "h_blk h1 = h_blk h"
      by (subst r(1), simp)+
    have main: "grown h ?s sz as (count_alloc sz (set_guard (h_end h + HEADER_SIZE) sz h3))"
      if "heap_rel h3 (as @ [?n])" "h_start h3 = h_start h1" "h_end h3 = h_end h1" "h_max h3 = h_max h1" "h_word h3 = h_word h1"
        "total_allocations h3 = total_allocations h1" "total_frees h3 = total_frees h1"
        "current_allocations h3 = current_allocations h1" "bytes_allocated h3 = bytes_allocated h1"
        "\<forall>x. h_blk h3 x \<noteq> h_blk h1 x \<longrightarrow> x \<in> ad ` set (as @ [?n])" for h3
      using grown_ok [OF ok sp(1-3) [OF sz19] r that(1)] that(2-) f1 by simp
    show ?thesis
    proof (cases "as = []")
      case True
      have "grown h ?s sz as (count_alloc sz (set_guard (h_end h + HEADER_SIZE) sz (?h2\<lparr>h_free_list := ad ?n\<rparr>)))"
        using ap(1) [OF True] True by (intro main) (simp_all add: upd_blk_def)
      moreover have "plain_kmalloc sz (h, m) = Some (h_end h + HEADER_SIZE,
          count_alloc sz (set_guard (h_end h + HEADER_SIZE) sz (?h2\<lparr>h_free_list := ad ?n\<rparr>)), m1)"
        using ap(1) [OF True] find assms(2) ex \<open>okf\<close> unfolding plain_kmalloc_def
        by (simp add: kmalloc_size_def [unfolded Let_def, symmetric] Let_def h2)
           (simp add: new_ablock_def)
      ultimately show ?thesis by blast
    next
      case False
      let ?h3 = "upd_blk (ad ?n) (\<lambda>b. b\<lparr>blk_prev := last_ad 0 as\<rparr>)
          (upd_blk (last_ad 0 as) (\<lambda>b. b\<lparr>blk_next := ad ?n\<rparr>) ?h2)"
      have "grown h ?s sz as (count_alloc sz (set_guard (h_end h + HEADER_SIZE) sz ?h3))"
        using ap(2) [OF False] last_ad_mem [OF False, of 0] by (intro main) (simp_all, auto simp: upd_blk_def)
      moreover have "plain_kmalloc sz (h, m) = Some (h_end h + HEADER_SIZE,
          count_alloc sz (set_guard (h_end h + HEADER_SIZE) sz ?h3), m1)"
        using ap(2) [OF False] find assms(2) ex \<open>okf\<close> unfolding plain_kmalloc_def
        by (simp add: kmalloc_size_def [unfolded Let_def, symmetric] Let_def h2)
           (simp add: new_ablock_def)
      ultimately show ?thesis by blast
    qed
  qed
qed


section \<open>kfree\<close>

definition merged :: "ablock \<Rightarrow> ablock \<Rightarrow> ablock" where
  "merged a b = a\<lparr>bsz := bsz a + (HEADER_SIZE + bsz b)\<rparr>"

lemma merged_simps [simp]: "ad (merged a b) = ad a" "bfree (merged a b) = bfree a" "bus (merged a b) = bus a"
  by (simp_all add: merged_def)

lemma merge_next_rel:
  assumes "heap_rel h (xs @ a # b # ys)" and "distinct (map ad (xs @ a # b # ys))" and "bfree b"
  shows "heap_rel (merge_next (ad a) h) (xs @ merged a b # ys)"
proof (cases ys)
  case Nil
  then show ?thesis
    using assms by (auto simp: heap_rel_def merge_next_def upd_blk_def Let_def hdr_def merged_def)
next
  case (Cons y zs)
  then show ?thesis
    using assms by (auto simp: heap_rel_def merge_next_def upd_blk_def Let_def hdr_def merged_def)
qed

lemma merge_next_none:
  assumes "heap_rel h (xs @ a # ys)" and "ys = [] \<or> \<not> bfree (hd ys)"
  shows "merge_next (ad a) h = h"
  using assms by (cases ys) (auto simp: heap_rel_def merge_next_def Let_def hdr_def)

lemma merge_prev_rel:
  assumes "heap_rel h (ws @ w # a # ys)" and "distinct (map ad (ws @ w # a # ys))" and "bfree w"
  shows "heap_rel (merge_prev (ad a) h) (ws @ merged w a # ys)"
proof (cases ys)
  case Nil
  then show ?thesis
    using assms by (auto simp: heap_rel_def merge_prev_def upd_blk_def Let_def hdr_def merged_def)
next
  case (Cons y zs)
  then show ?thesis
    using assms by (auto simp: heap_rel_def merge_prev_def upd_blk_def Let_def hdr_def merged_def)
qed

lemma merge_prev_none:
  assumes "heap_rel h (xs @ a # ys)" and "xs = [] \<or> \<not> bfree (last xs)"
  shows "merge_prev (ad a) h = h"
  using assms by (cases xs rule: rev_cases) (auto simp: heap_rel_def merge_prev_def Let_def hdr_def)

lemma merge_fields [simp]:
  "h_start (merge_next b h) = h_start h" "h_end (merge_next b h) = h_end h"
  "h_max (merge_next b h) = h_max h" "h_start (merge_prev b h) = h_start h"
  "h_end (merge_prev b h) = h_end h" "h_max (merge_prev b h) = h_max h"
  "total_allocations (merge_next b h) = total_allocations h"
  "total_allocations (merge_prev b h) = total_allocations h"
  "total_frees (merge_next b h) = total_frees h" "total_frees (merge_prev b h) = total_frees h"
  "current_allocations (merge_next b h) = current_allocations h"
  "current_allocations (merge_prev b h) = current_allocations h"
  "bytes_allocated (merge_next b h) = bytes_allocated h"
  "bytes_allocated (merge_prev b h) = bytes_allocated h"
  by (simp_all add: merge_next_def merge_prev_def Let_def)

text \<open>The layout part of the invariant, which merging two neighbours keeps.\<close>

definition lay_ok :: "heap \<Rightarrow> ablock list \<Rightarrow> bool" where
  "lay_ok h as \<longleftrightarrow> heap_rel h as \<and> heap_lay (unat (h_start h)) as (unat (h_end h)) \<and>
     (\<forall>a \<in> set as. ablk_ok a)"

lemma merged_lay:
  assumes "heap_lay lo (xs @ a # b # ys) hi" and "hi < 2 ^ 32"
    and "ablk_ok a" and "ablk_ok b" and "bfree a"
  shows "heap_lay lo (xs @ merged a b # ys) hi" and "ablk_ok (merged a b)"
proof -
  have l: "heap_lay lo xs (unat (ad a))" "unat (ad a) + 24 + unat (bsz a) \<le> unat (ad b)"
    "heap_lay (unat (ad b) + 24 + unat (bsz b)) ys hi"
    using assms(1) by (simp_all add: heap_lay_append)
  have hi: "unat (ad b) + 24 + unat (bsz b) \<le> hi" by (rule heap_lay_le [OF l(3)])
  have m: "unat (bsz (merged a b)) = unat (bsz a) + 24 + unat (bsz b)"
    using l(2) hi assms(2) by (simp add: merged_def unat_word_ariths)
  show "heap_lay lo (xs @ merged a b # ys) hi"
    using l m heap_lay_mono [OF l(3)] by (auto simp: heap_lay_append)
  have "8 dvd unat (bsz a) + 24 + unat (bsz b)"
    using assms(3,4) by (auto simp: ablk_ok_def intro!: dvd_add)
  then show "ablk_ok (merged a b)"
    using assms(3,5) m by (simp add: ablk_ok_def)
qed

lemma merge_next_ok:
  assumes "lay_ok h (xs @ a # ys)" and "bfree a"
  shows "\<exists>a' ys'. ad a' = ad a \<and> bfree a' \<and> lay_ok (merge_next (ad a) h) (xs @ a' # ys') \<and>
    live ys' = live ys \<and> live_bytes ys' = live_bytes ys"
proof (cases "ys = [] \<or> \<not> bfree (hd ys)")
  case True
  then have "merge_next (ad a) h = h"
    using assms(1) by (intro merge_next_none) (auto simp: lay_ok_def)
  then show ?thesis using assms by (intro exI [of _ a] exI [of _ ys]) simp
next
  case False
  then obtain b zs where ys: "ys = b # zs" "bfree b" by (cases ys) auto
  have lay: "heap_lay (unat (h_start h)) (xs @ a # b # zs) (unat (h_end h))"
    and ak: "ablk_ok a" "ablk_ok b" "\<forall>c \<in> set xs \<union> set zs. ablk_ok c"
    using assms(1) by (auto simp: lay_ok_def ys)
  have rel: "heap_rel (merge_next (ad a) h) (xs @ merged a b # zs)"
    using assms(1) ys by (intro merge_next_rel heap_lay_distinct [OF lay]) (auto simp: lay_ok_def)
  have "lay_ok (merge_next (ad a) h) (xs @ merged a b # zs)"
    using rel merged_lay [OF lay _ ak(1,2) assms(2)] ak(3) unat_lt_u32 [of "h_end h"]
    by (auto simp: lay_ok_def)
  then show ?thesis
    using assms(2) ys by (intro exI [of _ "merged a b"] exI [of _ zs]) simp
qed

lemma merge_prev_ok:
  assumes "lay_ok h (xs @ a # ys)" and "bfree a"
  shows "\<exists>as'. lay_ok (merge_prev (ad a) h) as' \<and> live as' = live xs @ live ys \<and>
    live_bytes as' = live_bytes xs + live_bytes ys"
proof (cases "xs = [] \<or> \<not> bfree (last xs)")
  case True
  then have "merge_prev (ad a) h = h"
    using assms(1) by (intro merge_prev_none) (auto simp: lay_ok_def)
  then show ?thesis using assms by (intro exI [of _ "xs @ a # ys"]) simp
next
  case False
  then obtain ws w where xs: "xs = ws @ [w]" "bfree w" by (cases xs rule: rev_cases) auto
  have lay: "heap_lay (unat (h_start h)) (ws @ w # a # ys) (unat (h_end h))"
    and ak: "ablk_ok w" "ablk_ok a" "\<forall>c \<in> set ws \<union> set ys. ablk_ok c"
    using assms(1) by (auto simp: lay_ok_def xs)
  have rel: "heap_rel (merge_prev (ad a) h) (ws @ merged w a # ys)"
    using assms(1) xs by (intro merge_prev_rel heap_lay_distinct [OF lay]) (auto simp: lay_ok_def)
  have "lay_ok (merge_prev (ad a) h) (ws @ merged w a # ys)"
    using rel merged_lay [OF lay _ ak(1,2) xs(2)] ak(3) unat_lt_u32 [of "h_end h"]
    by (auto simp: lay_ok_def)
  then show ?thesis
    using assms(2) xs by (intro exI [of _ "ws @ merged w a # ys"]) simp
qed

lemma kfree_ok [zos_inv]:
  assumes ok: "heap_ok h (xs @ a # ys)" and "\<not> bfree a"
  shows "\<exists>as'. heap_ok (kfree (ad a + HEADER_SIZE) h) as' \<and> live as' = live xs @ live ys"
proof -
  note rel = heap_okD(1) [OF ok] and lay = heap_okD(2) [OF ok]
  have blk: "h_blk h (ad a) = hdr (last_ad 0 xs) a (hd_ad 0 ys)" using rel by (simp add: heap_rel_def)
  have nz: "ad a + HEADER_SIZE \<noteq> 0"
    using heap_ok_room [OF ok, of a] by (auto simp: unat_word_ariths simp flip: unat_eq_0)
  define h1 where "h1 = h\<lparr>total_frees := total_frees h + 1,
      current_allocations := current_allocations h - 1, bytes_allocated := bytes_allocated h - bus a\<rparr>"
  define h2 where "h2 = upd_blk (ad a) (\<lambda>b. b\<lparr>blk_free := 1\<rparr>) h1"
  let ?a = "a\<lparr>bfree := True\<rparr>"
  have kf: "kfree (ad a + HEADER_SIZE) h = merge_prev (ad a) (merge_next (ad a) h2)"
    using nz blk by (simp add: kfree_def Let_def h1_def h2_def hdr_def)
  have "heap_rel h2 (xs @ ?a # ys)"
    using rel heap_lay_distinct [OF lay]
    by (auto simp: heap_rel_def h2_def h1_def upd_blk_def hdr_def)
  moreover have "h_start h2 = h_start h" "h_end h2 = h_end h" "h_max h2 = h_max h"
    by (simp_all add: h2_def h1_def)
  ultimately have "lay_ok h2 (xs @ ?a # ys)"
    using lay heap_okD(4) [OF ok] by (auto simp: lay_ok_def heap_lay_append ablk_ok_def)
  then obtain a' ys' where m1: "ad a' = ad a" "bfree a'" "lay_ok (merge_next (ad a) h2) (xs @ a' # ys')"
      "live ys' = live ys" "live_bytes ys' = live_bytes ys"
    using merge_next_ok [of h2 xs ?a ys] by auto
  then obtain as' where m2: "lay_ok (merge_prev (ad a) (merge_next (ad a) h2)) as'"
      "live as' = live xs @ live ys" "live_bytes as' = live_bytes xs + live_bytes ys"
    using merge_prev_ok [of "merge_next (ad a) h2" xs a' ys'] by auto
  have "stats_ok (merge_prev (ad a) (merge_next (ad a) h2)) as'"
    using heap_okD(5) [OF ok] assms(2) m2(2,3)
    by (simp add: stats_ok_def h2_def h1_def unat_sub_if' word_le_nat_alt)
  then have "heap_ok (kfree (ad a + HEADER_SIZE) h) as'"
    using m2(1) ok by (simp add: heap_ok_def lay_ok_def kf h2_def h1_def)
  then show ?thesis using m2(2) by blast
qed

section \<open>Pages\<close>

lemma is_mapped_page: "a AND 0xFFFFF000 = b AND 0xFFFFF000 \<Longrightarrow> vmm_is_mapped v a = vmm_is_mapped v b"
  by (simp only: same_page) (simp add: vmm_is_mapped_def word_unat_eq_iff [symmetric])

text \<open>One page: it is mapped afterwards or no frame is left, and what was mapped stays so.\<close>

lemma map_page_keeps:
  assumes wf: "vmm_wf (p, v)" and z: "0 \<in> frames_in_use p" and i: "unat (pd_idx virt) < 1023"
    and r: "vmm_map_page virt phys flags (p, v) = (q, w)"
  shows "vmm_wf (q, w)" and "0 \<in> frames_in_use q" and "unat (pd_idx a) < 1023 \<Longrightarrow> vmm_is_mapped v a \<Longrightarrow> vmm_is_mapped w a"
    and "vmm_is_mapped w virt \<or> fst (pmm_alloc_frame q) = 0"
proof -
  note sm = vmm_wfD(2) [OF wf] and pw = vmm_wfD(1) [OF wf]
  have "vmm_wf (q, w) \<and> 0 \<in> frames_in_use q \<and> (unat (pd_idx a) < 1023 \<longrightarrow> vmm_is_mapped v a \<longrightarrow> vmm_is_mapped w a) \<and>
      (vmm_is_mapped w virt \<or> fst (pmm_alloc_frame q) = 0)" for a
  proof (cases "present (pde v (unat (pd_idx virt))) \<or> fst (pmm_alloc_frame p) \<noteq> 0")
    case True
    obtain u where u: "vmm_wf (q, u)" "present (pde u (unat (pd_idx virt)))"
      "w = va_write (PT_ENT (pd_idx virt) (pt_idx virt)) ((phys AND 0xFFFFF000) OR (flags AND 0xFFF) OR PAGE_PRESENT) u"
      "\<And>va. unat (pd_idx va) < 1023 \<Longrightarrow> pt_entry u va = pt_entry v va" "frames_in_use p \<subseteq> frames_in_use q"
      by (rule vmm_map_page_cases [OF wf i True, of phys flags]) (use r in auto)
    note fin = map_page_final [OF u(1) i u(2), where x = "(phys AND 0xFFFFF000) OR (flags AND 0xFFF) OR PAGE_PRESENT", folded u(3)]
    have "present ((phys AND 0xFFFFF000) OR (flags AND 0xFFF) OR PAGE_PRESENT)" by (simp add: or.assoc [symmetric])
    then show ?thesis
      using fin(1,2) i u(4,5) z by (auto simp: vmm_is_mapped_alt [OF sm] vmm_is_mapped_alt [OF vmm_wfD(2) [OF fin(1)]])
  next
    case False
    obtain p' where p': "pmm_alloc_frame p = (0, p')" using False by (cases "pmm_alloc_frame p") simp
    have e: "q = p'" "w = v" using r False p' sm by (auto simp: vmm_map_page_def va_read_PD present_def Let_def)
    show ?thesis using e alloc_none [OF pw z p'] wf z p' by simp
  qed
  then show "vmm_wf (q, w)" "0 \<in> frames_in_use q" "unat (pd_idx a) < 1023 \<Longrightarrow> vmm_is_mapped v a \<Longrightarrow> vmm_is_mapped w a"
    "vmm_is_mapped w virt \<or> fst (pmm_alloc_frame q) = 0" by blast+
qed

lemma heap_map_pages_keeps:
  assumes "heap_map_pages as (p, v) = (ok, q, w)" and "vmm_wf (p, v)" and "0 \<in> frames_in_use p"
    and "\<forall>a \<in> set as. unat (pd_idx a) < 1023"
  shows "vmm_wf (q, w) \<and> 0 \<in> frames_in_use q \<and> (\<forall>a. unat (pd_idx a) < 1023 \<longrightarrow> vmm_is_mapped v a \<longrightarrow> vmm_is_mapped w a) \<and>
    (ok \<longrightarrow> (\<forall>a \<in> set (butlast as). vmm_is_mapped w a) \<and> (as \<noteq> [] \<longrightarrow> vmm_is_mapped w (last as) \<or> fst (pmm_alloc_frame q) = 0))"
  using assms
proof (induction as arbitrary: p v)
  case (Cons a as)
  obtain phys p1 where al: "pmm_alloc_frame p = (phys, p1)" by fastforce
  note pw = vmm_wfD(1) [OF Cons.prems(2)]
  have wf1: "vmm_wf (p1, v)" "0 \<in> frames_in_use p1"
    using Cons.prems(2) pmm_src.alloc_ok [OF pw al] pmm_src.alloc_mono [OF pw al] Cons.prems(3) by (auto simp: vmm_wf_def)
  show ?case
  proof (cases "phys = 0")
    case True
    then show ?thesis using Cons.prems(1) al wf1 by auto
  next
    case False
    obtain p2 v2 where m: "vmm_map_page a phys PAGE_KERNEL (p1, v) = (p2, v2)" by fastforce
    have ia: "unat (pd_idx a) < 1023" using Cons.prems(4) by simp
    note k = map_page_keeps [OF wf1 ia m]
    have r: "heap_map_pages as (p2, v2) = (ok, q, w)" using Cons.prems(1) al False m by simp
    have IH: "vmm_wf (q, w)" "0 \<in> frames_in_use q" "\<And>b. unat (pd_idx b) < 1023 \<Longrightarrow> vmm_is_mapped v2 b \<Longrightarrow> vmm_is_mapped w b"
      "ok \<Longrightarrow> (\<forall>b \<in> set (butlast as). vmm_is_mapped w b) \<and> (as \<noteq> [] \<longrightarrow> vmm_is_mapped w (last as) \<or> fst (pmm_alloc_frame q) = 0)"
      using Cons.IH [OF r k(1,2)] Cons.prems(4) by auto
    have "as \<noteq> [] \<Longrightarrow> ok \<Longrightarrow> fst (pmm_alloc_frame p2) \<noteq> 0"
      using r by (cases as) (auto split: prod.splits if_splits)
    then have "vmm_is_mapped w a" if "as \<noteq> []" ok using that k(4) IH(3) [OF ia] by blast
    then show ?thesis using IH k(3,4) r by auto
  qed
qed auto

text \<open>All pages of the heap are mapped.\<close>

definition heap_mapped :: "heap \<Rightarrow> vmm \<Rightarrow> bool" where
  "heap_mapped h v \<longleftrightarrow> (\<forall>a. unat (h_start h) \<le> unat a \<and> unat a < unat (h_end h) \<longrightarrow> vmm_is_mapped v a)"

lemma backed_range:
  assumes "\<And>a. unat x \<le> unat a \<Longrightarrow> unat a < unat x + n \<Longrightarrow> vmm_is_mapped v a" and "unat x + n \<le> 2 ^ 32"
  shows "backed v x n"
  unfolding backed_def list_all_iff
proof
  fix i assume "i \<in> set [0 ..< n]"
  then have i: "i < n" by simp
  then have "unat (x + of_nat i) = unat x + i" using assms(2) by (simp add: unat_word_ariths unat_of_nat)
  then show "vmm_is_mapped v (x + of_nat i)" using i by (intro assms(1)) simp_all
qed

lemma backed_inside:
  "heap_mapped h v \<Longrightarrow> unat (h_start h) \<le> unat x \<Longrightarrow> unat x + n \<le> unat (h_end h) \<Longrightarrow> backed v x n"
  using unat_lt_u32 [of "h_end h"] by (intro backed_range) (auto simp: heap_mapped_def)

lemma backedD:
  assumes "backed v x n" and "unat x \<le> unat a" and "unat a < unat x + n"
  shows "vmm_is_mapped v a"
proof -
  have "x + of_nat (unat a - unat x) = a" using assms(2) by (simp add: of_nat_diff)
  moreover have "unat a - unat x \<in> set [0 ..< n]" using assms(2,3) by auto
  ultimately show ?thesis using assms(1) unfolding backed_def list_all_iff by metis
qed

lemma same_page_div: "a AND 0xFFFFF000 = b AND 0xFFFFF000 \<longleftrightarrow> unat a div 4096 = unat (b :: u32) div 4096"
  unfolding page_base_alt word_unat_eq_iff unat_page_base minus_mod_eq_div_mult by simp

lemma page_range_cover:
  assumes "unat e < unat E" and "unat E mod 4096 = 0"
  defines "n \<equiv> unat E div 4096 - unat e div 4096"
  shows "page_range e E = map (\<lambda>k. e + of_nat k * PAGE_SIZE) [0 ..< n]"
    and "k < n \<Longrightarrow> unat (e + of_nat k * PAGE_SIZE) = unat e + k * 4096 \<and> unat e + k * 4096 < unat E"
    and "unat e \<le> unat x \<Longrightarrow> unat x < unat E \<Longrightarrow> \<exists>k < n. x AND 0xFFFFF000 = (e + of_nat k * PAGE_SIZE) AND 0xFFFFF000 \<and>
      (unat x < unat E - 4096 \<longrightarrow> k < n - 1)"
proof -
  define c q r where cqr: "c = unat E div 4096" "q = unat e div 4096" "r = unat e mod 4096"
  have E: "unat E = c * 4096" and e: "unat e = q * 4096 + r" and r: "r < 4096"
    using assms(2) by (simp_all add: cqr mod_eq_0_iff_dvd dvd_div_mult_self)
  have qc: "q < c" using assms(1) r unfolding E e by linarith
  have n: "n = c - q" by (simp add: n_def cqr)
  have "unat E - unat e + 4095 = (4095 - r) + (c - q) * 4096"
    using qc r unfolding E e by (simp add: diff_mult_distrib)
  also have "\<dots> div 4096 = (c - q)" by simp
  finally show "page_range e E = map (\<lambda>k. e + of_nat k * PAGE_SIZE) [0 ..< n]" by (simp only: page_range_def n)
  have step: "unat (e + of_nat k * PAGE_SIZE) = unat e + k * 4096 \<and> unat e + k * 4096 < unat E" if "k < n" for k
  proof -
    have "k + 1 + q \<le> c" using that n by simp
    then have "(k + 1 + q) * 4096 \<le> c * 4096" by (rule mult_le_mono1)
    then have lt: "unat e + k * 4096 < unat E" using r unfolding E e by (simp add: algebra_simps)
    then have "unat e + k * 4096 < 2 ^ 32" using unat_lt_u32 [of E] by simp
    then show ?thesis using lt by (simp add: unat_word_ariths unat_of_nat)
  qed
  then show "k < n \<Longrightarrow> unat (e + of_nat k * PAGE_SIZE) = unat e + k * 4096 \<and> unat e + k * 4096 < unat E" .
  assume x: "unat e \<le> unat x" "unat x < unat E"
  define k where "k = unat x div 4096 - q"
  have xq: "q \<le> unat x div 4096" unfolding cqr by (rule div_le_mono [OF x(1)])
  have xc: "unat x div 4096 < c" using x(2) unfolding E by (simp add: div_less_iff_less_mult)
  have k: "k < n" using xq xc by (simp add: k_def n)
  have "(unat e + k * 4096) div 4096 = q + k" unfolding e using r by simp
  then have "x AND 0xFFFFF000 = (e + of_nat k * PAGE_SIZE) AND 0xFFFFF000"
    using xq step [OF k] by (simp add: same_page_div k_def)
  moreover have "k < n - 1" if "unat x < unat E - 4096"
  proof -
    have "unat x < (c - 1) * 4096" using that unfolding E by (simp add: diff_mult_distrib)
    then have "unat x div 4096 < c - 1" by (simp add: div_less_iff_less_mult)
    then show ?thesis using xq by (simp add: k_def n)
  qed
  ultimately show "\<exists>k < n. x AND 0xFFFFF000 = (e + of_nat k * PAGE_SIZE) AND 0xFFFFF000 \<and> (unat x < unat E - 4096 \<longrightarrow> k < n - 1)"
    using k by blast
qed

text \<open>
  Growing the heap keeps its pages mapped; when it succeeds, all new pages are mapped but possibly the last, and
  that only when no frame is left.
\<close>

lemma heap_expand_maps:
  assumes ex: "heap_expand needed (h, p, v) = (ok, h1, q, w)" and wf: "vmm_wf (p, v)" and z: "0 \<in> frames_in_use p"
    and top: "unat (h_max h) \<le> 0xFFC00000" "unat (h_end h) \<le> unat (h_max h)"
    and room: "0 < unat needed" "unat (h_end h) + unat needed + 4095 < 2 ^ 32" and mp: "heap_mapped h v"
  shows "vmm_wf (q, w)" and "0 \<in> frames_in_use q" and "heap_mapped h w"
    and "ok \<Longrightarrow> unat (h_start h) \<le> unat a \<Longrightarrow> unat a < unat (h_end h1) - 4096 \<Longrightarrow> vmm_is_mapped w a"
    and "ok \<Longrightarrow> heap_mapped h1 w \<or> fst (pmm_alloc_frame q) = 0"
proof -
  let ?E = "ALIGN_UP (h_end h + needed) PAGE_SIZE"
  let ?as = "page_range (h_end h) ?E"
  define n where "n = unat ?E div 4096 - unat (h_end h) div 4096"
  have u: "unat (h_end h + needed) = unat (h_end h) + unat needed" using room(2) by (simp add: unat_word_ariths)
  then have E: "unat ?E = (unat (h_end h) + unat needed + 4095) div 4096 * 4096"
    using unat_ALIGN_UP_page [of "h_end h + needed"] room(2) by simp
  have le: "unat (h_end h) < unat ?E" "unat ?E mod 4096 = 0"
    unfolding E using room(1) by (linarith, simp)
  note pr = page_range_cover [OF le, folded n_def]
  have all: "vmm_wf (q, w) \<and> 0 \<in> frames_in_use q \<and> heap_mapped h w \<and>
     (ok \<longrightarrow> (\<forall>a. unat (h_start h) \<le> unat a \<longrightarrow> unat a < unat (h_end h1) - 4096 \<longrightarrow> vmm_is_mapped w a) \<and>
       (heap_mapped h1 w \<or> fst (pmm_alloc_frame q) = 0))"
  proof (cases "?E > h_max h")
    case True
    then show ?thesis using ex wf z mp by (simp add: heap_expand_def Let_def)
  next
    case False
    have max: "unat ?E \<le> 0xFFC00000" using False top(1) by (simp add: word_less_nat_alt not_less)
    have hp: "heap_map_pages ?as (p, v) = (ok, q, w)" and h1: "ok \<Longrightarrow> h1 = h\<lparr>h_end := ?E\<rparr>"
      using ex False by (auto simp: heap_expand_def Let_def split: prod.splits if_splits)
    have pd: "unat (pd_idx a) < 1023" if "unat a < unat ?E" for a
      using that max by (simp add: unat_pd_idx div_less_iff_less_mult)
    have "\<forall>a \<in> set ?as. unat (pd_idx a) < 1023" unfolding pr(1) using pr(2) by (auto intro!: pd)
    note k = heap_map_pages_keeps [OF hp wf z this]
    have old: "vmm_is_mapped w a" if "vmm_is_mapped v a" "unat a < unat ?E" for a using k pd that by blast
    have mw: "heap_mapped h w" using mp old le(1) by (auto simp: heap_mapped_def)
    have new: "vmm_is_mapped w x \<longleftrightarrow> vmm_is_mapped w (?as ! j)" "j < n"
      if "x AND 0xFFFFF000 = (h_end h + of_nat j * PAGE_SIZE) AND 0xFFFFF000" "j < n" for x j
      using that is_mapped_page [OF that(1)] by (simp_all add: pr(1))
    have len: "length ?as = n" by (simp add: pr(1))
    have butl: "?as ! j \<in> set (butlast ?as)" if "j < n - 1" for j
      using that len nth_butlast [of j ?as] nth_mem [of j "butlast ?as"] by simp
    have inner: "vmm_is_mapped w a" if okt: ok and lo: "unat (h_start h) \<le> unat a" and hi: "unat a < unat ?E - 4096" for a
    proof (cases "unat a < unat (h_end h)")
      case True
      then show ?thesis using mw lo by (simp add: heap_mapped_def)
    next
      case False
      moreover have "unat a < unat ?E" using hi by linarith
      ultimately obtain j where j: "j < n" "a AND 0xFFFFF000 = (h_end h + of_nat j * PAGE_SIZE) AND 0xFFFFF000" "j < n - 1"
        using pr(3) [of a] hi by auto
      have "?as ! j \<in> set (butlast ?as)" by (rule butl [OF j(3)])
      then show ?thesis using k okt new(1) [OF j(2,1)] by blast
    qed
    have "heap_mapped (h\<lparr>h_end := ?E\<rparr>) w \<or> fst (pmm_alloc_frame q) = 0" if ok
    proof (cases "fst (pmm_alloc_frame q) = 0")
      case False
      have "n \<noteq> 0" using pr(3) [of "h_end h"] le(1) by auto
      then have last: "vmm_is_mapped w (?as ! (n - 1))"
        using k \<open>ok\<close> False len by (metis last_conv_nth length_0_conv)
      have "vmm_is_mapped w a" if a: "unat (h_start h) \<le> unat a" "unat a < unat ?E" for a
      proof (cases "unat a < unat (h_end h)")
        case True
        then show ?thesis using mw a(1) by (simp add: heap_mapped_def)
      next
        case False
        then obtain j where j: "j < n" "a AND 0xFFFFF000 = (h_end h + of_nat j * PAGE_SIZE) AND 0xFFFFF000"
          using pr(3) [of a] a(2) by auto
        show ?thesis
        proof (cases "j = n - 1")
          case True
          then show ?thesis using last new(1) [OF j(2,1)] by simp
        next
          case ne: False
          then have "?as ! j \<in> set (butlast ?as)" using j(1) by (intro butl) simp
          then show ?thesis using k \<open>ok\<close> new(1) [OF j(2,1)] by blast
        qed
      qed
      then show ?thesis by (simp add: heap_mapped_def)
    qed simp
    then show ?thesis using k mw inner h1 by auto
  qed
  show "vmm_wf (q, w)" "0 \<in> frames_in_use q" "heap_mapped h w"
    "ok \<Longrightarrow> unat (h_start h) \<le> unat a \<Longrightarrow> unat a < unat (h_end h1) - 4096 \<Longrightarrow> vmm_is_mapped w a"
    "ok \<Longrightarrow> heap_mapped h1 w \<or> fst (pmm_alloc_frame q) = 0"
    using all by blast+
qed

section \<open>Where kmalloc faults\<close>

lemma heap_find_mapped:
  "dll (h_blk h) q as 0 \<Longrightarrow> \<forall>a \<in> set as. backed v (ad a) 24 \<Longrightarrow> heap_find v h s (hd_ad 0 as) =
     Some (case List.find (\<lambda>a. bfree a \<and> s \<le> bsz a) as of None \<Rightarrow> 0 | Some a \<Rightarrow> ad a)"
proof (induction as arbitrary: q)
  case Nil
  then show ?case by (simp add: heap_find.simps)
next
  case (Cons a as)
  then show ?case by (subst heap_find.simps) (auto simp: hdr_def)
qed

lemma heap_last_mapped:
  "dll (h_blk h) q (a # as) 0 \<Longrightarrow> \<forall>b \<in> set (a # as). backed v (ad b) 24 \<Longrightarrow>
     heap_last v h (ad a) = Some (last_ad q (a # as))"
proof (induction as arbitrary: q a)
  case Nil
  then show ?case by (subst heap_last.simps) (simp add: hdr_def)
next
  case (Cons b bs)
  then show ?case by (subst heap_last.simps) (simp add: hdr_def)
qed

lemma headers_backed: "heap_ok h as \<Longrightarrow> heap_mapped h v \<Longrightarrow> a \<in> set as \<Longrightarrow> backed v (ad a) 24"
  using heap_lay_mem [OF heap_okD(2), of h as a] by (intro backed_inside [of h]) auto

lemma kmalloc_found_backed:
  assumes ok: "heap_ok h (xs @ a # ys)" and mp: "heap_mapped h v" and sz: "sz \<noteq> 0" and g: "backed v (ad a + HEADER_SIZE + sz) 4"
    and a: "bfree a" "kmalloc_size sz \<le> bsz a" and none: "\<forall>b \<in> set xs. \<not> (bfree b \<and> kmalloc_size sz \<le> bsz b)"
  shows "kmalloc sz (h, p, v) = Some (ad a + HEADER_SIZE, snd (take_block (ad a) (kmalloc_size sz) sz h), p, v)"
proof -
  note un = kmalloc_size_def [unfolded Let_def, symmetric]
  have rel: "heap_rel h (xs @ a # ys)" by (rule heap_okD(1) [OF ok])
  have "List.find (\<lambda>a. bfree a \<and> kmalloc_size sz \<le> bsz a) (xs @ a # ys) = Some a"
    using a none by (induction xs) auto
  then have f: "heap_find v h (kmalloc_size sz) (h_free_list h) = Some (ad a)"
    using heap_find_mapped [of h 0 "xs @ a # ys" v "kmalloc_size sz"] headers_backed [OF ok mp] rel by (simp add: heap_rel_def)
  have nz: "ad a \<noteq> 0" and h: "h_blk h (ad a) = hdr (last_ad 0 xs) a (hd_ad 0 ys)" using rel by (simp_all add: heap_rel_def)
  note lay = heap_lay_mem [OF heap_okD(2) [OF ok], of a, simplified]
  note room = heap_ok_room [OF ok, of a, simplified]
  have sa: "unat (kmalloc_size sz) \<le> unat (bsz a)" using a(2) by (simp add: word_le_nat_alt)
  have "backed v (ad a + HEADER_SIZE + kmalloc_size sz) 24" if "kmalloc_size sz + HEADER_SIZE + HEAP_MIN_SIZE \<le> bsz a"
  proof -
    have "unat (kmalloc_size sz + HEADER_SIZE + HEAP_MIN_SIZE) = unat (kmalloc_size sz) + 40"
      using room sa by (simp add: unat_word_ariths)
    then have "unat (kmalloc_size sz) + 40 \<le> unat (bsz a)" using that by (simp add: word_le_nat_alt)
    moreover have "unat (ad a + HEADER_SIZE + kmalloc_size sz) = unat (ad a) + 24 + unat (kmalloc_size sz)"
      using room sa by (simp add: unat_word_ariths)
    ultimately show ?thesis using lay by (intro backed_inside [OF mp]) simp_all
  qed
  moreover have "backed v (hd_ad 0 ys) 24" if "hd_ad 0 ys \<noteq> 0"
    using that headers_backed [OF ok mp] by (cases ys) simp_all
  ultimately have "take_backed v (ad a) (kmalloc_size sz) sz h" using h g by (simp add: take_backed_def hdr_def)
  then show ?thesis using f nz sz unfolding kmalloc_def un by (simp add: Let_def un take_block_def)
qed

lemma kmalloc_found_mapped:
  assumes ok: "heap_ok h (xs @ a # ys)" and mp: "heap_mapped h v" and sz: "sz \<noteq> 0" "unat sz + 19 < 2 ^ 32"
    and a: "bfree a" "kmalloc_size sz \<le> bsz a" and none: "\<forall>b \<in> set xs. \<not> (bfree b \<and> kmalloc_size sz \<le> bsz b)"
  shows "kmalloc sz (h, p, v) = Some (ad a + HEADER_SIZE, snd (take_block (ad a) (kmalloc_size sz) sz h), p, v)"
    and "backed v (ad a) (28 + unat sz)"
proof -
  note lay = heap_lay_mem [OF heap_okD(2) [OF ok], of a, simplified] and room = heap_ok_room [OF ok, of a, simplified]
  note sp = kmalloc_size_props [OF sz]
  have sa: "unat (kmalloc_size sz) \<le> unat (bsz a)" using a(2) by (simp add: word_le_nat_alt)
  show "backed v (ad a) (28 + unat sz)" using lay sp(3) sa by (intro backed_inside [OF mp]) simp_all
  have "unat (ad a + HEADER_SIZE + sz) = unat (ad a) + 24 + unat sz" using room sa sp(3) by (simp add: unat_word_ariths)
  then have "backed v (ad a + HEADER_SIZE + sz) 4" using lay sp(3) sa by (intro backed_inside [OF mp]) simp_all
  then show "kmalloc sz (h, p, v) = Some (ad a + HEADER_SIZE, snd (take_block (ad a) (kmalloc_size sz) sz h), p, v)"
    by (rule kmalloc_found_backed [OF ok mp sz(1) _ a none])
qed

text \<open>On the path that grows the heap, the two stores into the new block decide.\<close>

lemma kmalloc_grow_mapped:
  assumes ok: "heap_ok h as" and mp: "heap_mapped h v" and sz: "sz \<noteq> 0"
    and none: "\<forall>b \<in> set as. \<not> (bfree b \<and> kmalloc_size sz \<le> bsz b)"
    and ex: "heap_expand (HEADER_SIZE + kmalloc_size sz) (h, p, v) = (okf, h1, q, w)" and mw: "heap_mapped h w"
  shows "kmalloc sz (h, p, v) =
    (if okf \<longrightarrow> backed w (h_end h) 24 \<and> backed w (h_end h + HEADER_SIZE + sz) 4 then plain_kmalloc sz (h, p, v) else None)"
proof -
  note un = kmalloc_size_def [unfolded Let_def, symmetric]
  have rel: "heap_rel h as" by (rule heap_okD(1) [OF ok])
  have "List.find (\<lambda>a. bfree a \<and> kmalloc_size sz \<le> bsz a) as = None" using none by (auto simp: find_None_iff)
  then have f: "heap_find v h (kmalloc_size sz) (h_free_list h) = Some 0" "plain_find h (kmalloc_size sz) (h_free_list h) = Some 0"
    using heap_find_mapped [of h 0 as v "kmalloc_size sz"] plain_find_dll [of h 0 as "kmalloc_size sz"]
      headers_backed [OF ok mp] rel by (simp_all add: heap_rel_def)
  show ?thesis
  proof (cases okf)
    case False
    then show ?thesis using f sz ex unfolding kmalloc_def plain_kmalloc_def by (simp add: Let_def un)
  next
    case okf: True
    have h1: "h_blk h1 = h_blk h" "h_free_list h1 = h_free_list h"
      using ex by (auto simp: heap_expand_def Let_def split: prod.splits if_splits)
    let ?f = "\<lambda>b. b\<lparr>blk_size := kmalloc_size sz, blk_user_size := sz, blk_magic := HEAP_MAGIC, blk_free := 0, blk_next := 0,
      blk_prev := 0\<rparr>"
    let ?h2 = "upd_blk (h_end h) ?f h1"
    have "h_end h \<notin> ad ` set as" using heap_lay_mem [OF heap_okD(2) [OF ok]] by force
    then have "dll (h_blk ?h2) 0 as 0" using rel h1 by (simp add: upd_blk_def heap_rel_def)
    then have last: "as \<noteq> [] \<Longrightarrow> heap_last w ?h2 (h_free_list ?h2) = Some (last_ad 0 as) \<and>
        plain_last ?h2 (h_free_list ?h2) = Some (last_ad 0 as)"
      using heap_last_mapped [of ?h2 0 "hd as" "tl as" w] plain_last_dll [of ?h2 0 "hd as" "tl as"] headers_backed [OF ok mw] rel h1
      by (cases as) (simp_all add: heap_rel_def)
    have fl: "h_free_list h1 = 0 \<longleftrightarrow> as = []" using rel h1 by (cases as) (simp_all add: heap_rel_def)
    show ?thesis
      using f sz ex okf last fl unfolding kmalloc_def plain_kmalloc_def by (cases "as = []") (simp_all add: Let_def un)
  qed
qed

lemma plain_grow_ends:
  assumes "heap_ok h as" and "sz \<noteq> 0" and "\<forall>b \<in> set as. \<not> (bfree b \<and> kmalloc_size sz \<le> bsz b)"
    and "heap_expand (HEADER_SIZE + kmalloc_size sz) (h, m) = (okf, h1, m1)" and "plain_kmalloc sz (h, m) = Some (r, h', m')"
  shows "m' = m1" and "okf \<Longrightarrow> h_end h' = h_end h1" and "okf \<Longrightarrow> h_start h' = h_start h" and "okf \<Longrightarrow> r = h_end h + HEADER_SIZE"
    and "\<not> okf \<Longrightarrow> r = 0 \<and> h' = h" and "h_max h' = h_max h"
proof -
  note un = kmalloc_size_def [unfolded Let_def, symmetric]
  have "List.find (\<lambda>a. bfree a \<and> kmalloc_size sz \<le> bsz a) as = None" using assms(3) by (auto simp: find_None_iff)
  then have f: "plain_find h (kmalloc_size sz) (h_free_list h) = Some 0"
    using plain_find_dll [of h 0 as "kmalloc_size sz"] heap_okD(1) [OF assms(1)] by (simp add: heap_rel_def)
  have "h1 = h" if "\<not> okf" using assms(4) that heap_expand_fail [of _ h m h1 m1] by simp
  moreover have "h_start h1 = h_start h" if okf using assms(4) that by (auto simp: heap_expand_def Let_def split: prod.splits if_splits)
  moreover have "h_max h1 = h_max h" using assms(4) by (auto simp: heap_expand_def Let_def split: prod.splits if_splits)
  ultimately show "m' = m1" "okf \<Longrightarrow> h_end h' = h_end h1" "okf \<Longrightarrow> h_start h' = h_start h" "okf \<Longrightarrow> r = h_end h + HEADER_SIZE"
    "\<not> okf \<Longrightarrow> r = 0 \<and> h' = h" "h_max h' = h_max h"
    using assms(2,4,5) f unfolding plain_kmalloc_def
    by (cases okf; auto simp: Let_def un bind_eq_Some_conv split: if_splits)+
qed

text \<open>Growing by one page.\<close>

lemma heap_expand_page:
  assumes "unat (h_end h) mod 4096 = 0" and "0 < unat needed" and "unat needed \<le> 4096" and "unat (h_end h) + 4096 \<le> unat (h_max h)"
    and "unat (h_end h) + 8192 < 2 ^ 32" and "pmm_alloc_frame p = (phys, p')" and "phys \<noteq> 0"
  shows "heap_expand needed (h, p, v) = (True, h\<lparr>h_end := h_end h + 4096\<rparr>, vmm_map_page (h_end h) phys PAGE_KERNEL (p', v))"
proof -
  obtain c where c: "unat (h_end h) = c * 4096" using assms(1) by (auto simp: mod_eq_0_iff_dvd elim: dvdE)
  have u: "unat (h_end h + needed) = unat (h_end h) + unat needed" using assms(3,5) by (simp add: unat_word_ariths)
  have "(c * 4096 + (unat needed + 4095)) div 4096 = c + 1"
    using assms(2,3) by (intro div_nat_eqI) simp_all
  then have "unat (ALIGN_UP (h_end h + needed) PAGE_SIZE) = unat (h_end h) + 4096"
    using unat_ALIGN_UP_page [of "h_end h + needed"] u assms(3,5) c by (simp add: add.assoc)
  moreover have n: "unat (h_end h + 4096) = unat (h_end h) + 4096" using assms(5) by (simp add: unat_word_ariths)
  ultimately have e: "ALIGN_UP (h_end h + needed) PAGE_SIZE = h_end h + 4096" by (simp add: word_unat_eq_iff)
  have "page_range (h_end h) (h_end h + 4096) = [h_end h]" by (simp add: page_range_def n)
  then show ?thesis using assms(4,6,7) n e by (simp add: heap_expand_def Let_def word_less_nat_alt)
qed

end
