(* ===== verification/Heap_Props.thy ===== *)
theory Heap_Props
  imports Heap_Proofs
begin

text \<open>
  What the kernel heap promises its callers: the properties of \<open>kmalloc\<close> and \<open>kfree\<close> on any
  well-formed heap, on every heap reachable from \<open>heap_init\<close>, and the request sizes for which the
  32-bit arithmetic of \<open>kmalloc\<close> breaks them.
\<close>

section \<open>Live blocks and their bytes\<close>

lemma live_mem: "(b, u) \<in> set (live as) \<longleftrightarrow> (\<exists>a \<in> set as. \<not> bfree a \<and> ad a = b \<and> bus a = u)"
  by (auto simp: live_def)

lemma live_block_bounds:
  assumes "heap_ok h as" and "a \<in> set as" and "\<not> bfree a"
  shows "unat (ad a + HEADER_SIZE + bus a) = unat (ad a) + 24 + unat (bus a)"
    and "unat (bus a) + 4 \<le> unat (bsz a)" and "unat (ad a + HEADER_SIZE) = unat (ad a) + 24"
    and "ad a + HEADER_SIZE \<noteq> 0"
proof -
  note room = heap_ok_room [OF assms(1,2)]
  show b: "unat (bus a) + 4 \<le> unat (bsz a)"
    using heap_okD(4) [OF assms(1,2)] assms(3) by (simp add: ablk_ok_def)
  show "unat (ad a + HEADER_SIZE + bus a) = unat (ad a) + 24 + unat (bus a)"
    "unat (ad a + HEADER_SIZE) = unat (ad a) + 24"
    using room b by (simp_all add: unat_word_ariths)
  then show "ad a + HEADER_SIZE \<noteq> 0" by auto
qed

lemma blocks_apart:
  assumes "heap_ok h as" and "a \<in> set as" and "b \<in> set as" and "a \<noteq> b"
  shows "unat (ad a) + 24 + unat (bsz a) \<le> unat (ad b) \<or> unat (ad b) + 24 + unat (bsz b) \<le> unat (ad a)"
proof -
  obtain i j where "i < length as" "as ! i = a" "j < length as" "as ! j = b" "i \<noteq> j"
    using assms(2-4) by (metis in_set_conv_nth)
  then show ?thesis
    using heap_lay_ordered [OF heap_okD(2) [OF assms(1)], of i j]
      heap_lay_ordered [OF heap_okD(2) [OF assms(1)], of j i] by (metis nat_neq_iff)
qed

lemma same_block:
  assumes "heap_ok h as" and "a \<in> set as" and "b \<in> set as" and "ad a = ad b"
  shows "a = b"
  using heap_okD(3) [OF assms(1)] assms(2-4) by (auto simp: distinct_map dest: inj_onD)

lemma heap_rel_mem:
  assumes "heap_rel h as" and "a \<in> set as"
  shows "blk_magic (h_blk h (ad a)) = HEAP_MAGIC \<and> blk_user_size (h_blk h (ad a)) = bus a"
proof -
  obtain xs ys where "as = xs @ a # ys" using assms(2) by (metis in_set_conv_decomp)
  then show ?thesis using assms(1) by (simp add: heap_rel_def hdr_def)
qed

lemma live_check:
  assumes "heap_ok h as" and "(b, u) \<in> set (live as)"
  shows "heap_check_overflow (b + HEADER_SIZE) h \<longleftrightarrow> h_word h (b + HEADER_SIZE + u) = HEAP_GUARD"
proof -
  obtain a where a: "a \<in> set as" "\<not> bfree a" "ad a = b" "bus a = u" using assms(2) by (auto simp: live_mem)
  show ?thesis
    using heap_rel_mem [OF heap_okD(1) [OF assms(1)] a(1)] live_block_bounds(4) [OF assms(1) a(1,2)] a
    by (simp add: heap_check_overflow_def Let_def check_guard_def)
qed

section \<open>kmalloc\<close>

text \<open>The guard word a new block gets is nobody else's.\<close>

lemma guard_elsewhere:
  assumes "heap_ok h' as'" and "(b, u) \<in> set (live as')" and "(b', u') \<in> set (live as')" and "b \<noteq> b'"
  shows "b + HEADER_SIZE + u \<noteq> b' + HEADER_SIZE + u'"
proof -
  obtain a a' where a: "a \<in> set as'" "\<not> bfree a" "ad a = b" "bus a = u"
      "a' \<in> set as'" "\<not> bfree a'" "ad a' = b'" "bus a' = u'"
    using assms(2,3) by (auto simp: live_mem)
  have "a \<noteq> a'" using a assms(4) by auto
  then have "unat (ad a + HEADER_SIZE + bus a) \<noteq> unat (ad a' + HEADER_SIZE + bus a')"
    using blocks_apart [OF assms(1) a(1,5)] live_block_bounds(1,2) [OF assms(1) a(1,2)]
      live_block_bounds(1,2) [OF assms(1) a(5,6)] by linarith
  then have "ad a + HEADER_SIZE + bus a \<noteq> ad a' + HEADER_SIZE + bus a'" by metis
  then show ?thesis unfolding a .
qed

definition heap_same_guards :: "heap \<Rightarrow> heap \<Rightarrow> ablock list \<Rightarrow> bool" where
  "heap_same_guards h h' as \<longleftrightarrow> (\<forall>(b, u) \<in> set (live as).
     heap_check_overflow (b + HEADER_SIZE) h' = heap_check_overflow (b + HEADER_SIZE) h)"

lemma new_block_guards:
  assumes "heap_ok h as" and "heap_ok h' as'" and "mset (live as') = add_mset (b, u) (mset (live as))"
    and "b \<notin> fst ` set (live as)"
    and "h_word h' = (h_word h)(b + HEADER_SIZE + u := HEAP_GUARD)"
  shows "heap_check_overflow (b + HEADER_SIZE) h'" and "heap_same_guards h h' as"
proof -
  have st: "set (live as') = insert (b, u) (set (live as))"
    using arg_cong [OF assms(3), of set_mset] by simp
  show "heap_check_overflow (b + HEADER_SIZE) h'"
    using live_check [OF assms(2), of b u] st assms(5) by simp
  have "heap_check_overflow (c + HEADER_SIZE) h' = heap_check_overflow (c + HEADER_SIZE) h"
    if m: "(c, w) \<in> set (live as)" for c w
  proof -
    have "c \<noteq> b" using m assms(4) by force
    then have "c + HEADER_SIZE + w \<noteq> b + HEADER_SIZE + u"
      using guard_elsewhere [OF assms(2), of c w b u] m st by auto
    then show ?thesis
      using live_check [OF assms(1) m] live_check [OF assms(2), of c w] m st assms(5) by auto
  qed
  then show "heap_same_guards h h' as" by (auto simp: heap_same_guards_def)
qed

lemma take_block_word:
  "h_word (snd (take_block b s u h)) = (h_word h)(b + HEADER_SIZE + u := HEAP_GUARD)"
  by (auto simp: take_block_def Let_def set_guard_def split_block_def upd_blk_def count_alloc_def)

text \<open>The headers that change are those of blocks of the new list.\<close>

lemma take_block_headers:
  assumes ok: "heap_ok h (xs @ a # ys)" and "s \<le> bsz a"
  shows "\<forall>x. h_blk (snd (take_block (ad a) s u h)) x \<noteq> h_blk h x \<longrightarrow> x \<in> ad ` set (placed h xs a ys s u)"
proof -
  have h: "h_blk h (ad a) = hdr (last_ad 0 xs) a (hd_ad 0 ys)" using heap_okD(1) [OF ok] by (simp add: heap_rel_def)
  have hd: "hd_ad 0 ys = 0 \<or> hd_ad 0 ys \<in> ad ` set ys" by (cases ys) auto
  have "unat (s + HEADER_SIZE + HEAP_MIN_SIZE) = unat s + 40"
    using heap_ok_room [OF ok, of a] assms(2) by (simp add: unat_word_ariths word_le_nat_alt)
  then have c: "s + HEADER_SIZE + HEAP_MIN_SIZE \<le> bsz a \<longleftrightarrow> unat s + 40 \<le> unat (bsz a)" by (simp only: word_le_nat_alt)
  have up: "\<forall>x. h_blk (upd_blk (ad a) f k) x \<noteq> h_blk h x \<longrightarrow> x \<in> ad ` set (placed h xs a ys s u)"
    if "\<forall>x. h_blk k x \<noteq> h_blk h x \<longrightarrow> x \<in> ad ` set (placed h xs a ys s u)" for f k
    using that by (auto simp: upd_blk_def placed_def)
  have sp: "\<forall>x. h_blk (split_block (ad a) s h) x \<noteq> h_blk h x \<longrightarrow> x \<in> ad ` set (placed h xs a ys s u)"
    if "unat s + 40 \<le> unat (bsz a)"
    using that h hd by (auto simp: split_block_def Let_def upd_blk_def placed_def split_off_def hdr_def split: if_splits)
  have "\<forall>x. h_blk (upd_blk (ad a) (\<lambda>b. b\<lparr>blk_free := 0, blk_user_size := u\<rparr>)
      (if unat s + 40 \<le> unat (bsz a) then split_block (ad a) s h else h)) x \<noteq> h_blk h x \<longrightarrow> x \<in> ad ` set (placed h xs a ys s u)"
    by (rule up) (use sp in simp)
  then show ?thesis using h c [unfolded word_le_nat_alt [symmetric]] by (simp add: take_block_def Let_def hdr_def add.commute)
qed

text \<open>A block that \<open>kmalloc\<close> hands out, on either path.\<close>

definition handed_out :: "u32 \<Rightarrow> u32 \<Rightarrow> heap \<Rightarrow> ablock list \<Rightarrow> heap \<Rightarrow> ablock list \<Rightarrow> bool" where
  "handed_out b sz h as h' as' \<longleftrightarrow> heap_ok h' as' \<and>
     mset (live as') = add_mset (b, sz) (mset (live as)) \<and> unat (b + HEADER_SIZE) mod 8 = 0 \<and>
     b + HEADER_SIZE \<noteq> 0 \<and> heap_check_overflow (b + HEADER_SIZE) h' \<and> heap_same_guards h h' as \<and>
     h_word h' = (h_word h)(b + HEADER_SIZE + sz := HEAP_GUARD) \<and> (\<forall>x. h_blk h' x \<noteq> h_blk h x \<longrightarrow> x \<in> ad ` set as')"

lemma handed_outI:
  assumes "heap_ok h as" and "heap_ok h' as'" and "mset (live as') = add_mset (b, sz) (mset (live as))"
    and "b \<notin> fst ` set (live as)" and "h_word h' = (h_word h)(b + HEADER_SIZE + sz := HEAP_GUARD)"
    and "\<forall>x. h_blk h' x \<noteq> h_blk h x \<longrightarrow> x \<in> ad ` set as'"
  shows "handed_out b sz h as h' as'"
proof -
  have "(b, sz) \<in> set (live as')"
    using arg_cong [OF assms(3), of set_mset] by simp
  then obtain a where a: "a \<in> set as'" "\<not> bfree a" "ad a = b" by (auto simp: live_mem)
  have "8 dvd unat (ad a)" using heap_okD(4) [OF assms(2) a(1)] by (auto simp: ablk_ok_def)
  then have "8 dvd unat (ad a + HEADER_SIZE)"
    using live_block_bounds(3) [OF assms(2) a(1,2)] by (simp add: dvd_add)
  then show ?thesis
    using assms(2,3,5,6) new_block_guards [OF assms(1-5)] a(3) live_block_bounds(4) [OF assms(2) a(1,2)]
    by (simp add: handed_out_def)
qed

lemma take_block_handed_out:
  assumes ok: "heap_ok h (xs @ a # ys)" and "bfree a" and "kmalloc_size sz \<le> bsz a"
    and "sz \<noteq> 0" and "unat sz + 19 < 2 ^ 32"
  shows "\<exists>as'. handed_out (ad a) sz h (xs @ a # ys) (snd (take_block (ad a) (kmalloc_size sz) sz h)) as'"
proof -
  let ?as = "placed h xs a ys (kmalloc_size sz) sz"
  note sp = kmalloc_size_props [OF assms(4,5)]
  have "heap_ok (snd (take_block (ad a) (kmalloc_size sz) sz h)) ?as"
    using take_block_ok [OF ok assms(2) _ sp(1-3)] assms(3) by (simp add: word_le_nat_alt)
  moreover have "mset (live ?as) = add_mset (ad a, sz) (mset (live (xs @ a # ys)))"
    using live_placed [OF assms(2), of h xs ys "kmalloc_size sz" sz] assms(2) by simp
  moreover have "ad a \<notin> fst ` set (live (xs @ a # ys))"
    using same_block [OF ok, of a] assms(2) by (force simp: live_def)
  moreover have "\<forall>x. h_blk (snd (take_block (ad a) (kmalloc_size sz) sz h)) x \<noteq> h_blk h x \<longrightarrow> x \<in> ad ` set ?as"
    by (rule take_block_headers [OF ok assms(3)])
  ultimately show ?thesis using handed_outI [OF ok] take_block_word by blast
qed

lemma grown_handed_out:
  assumes ok: "heap_ok h as" and "grown h s sz as h'"
    and "h_word h' = (h_word h)(h_end h + HEADER_SIZE + sz := HEAP_GUARD)"
  shows "handed_out (h_end h) sz h as h' (as @ [new_ablock h s sz])"
proof -
  have "h_end h \<notin> fst ` set (live as)"
    using heap_lay_mem [OF heap_okD(2) [OF ok]] by (force simp: live_def)
  then show ?thesis
    using assms(2,3) by (intro handed_outI [OF ok]) (simp_all add: grown_def, auto simp: new_ablock_def)
qed

lemma plain_outcome:
  assumes ok: "heap_ok h as" and room: "unat (h_end h) + unat sz + 4138 < 2 ^ 32"
  shows "\<exists>r h' m'. plain_kmalloc sz (h, m) = Some (r, h', m') \<and>
    (r = 0 \<and> h' = h \<or> sz \<noteq> 0 \<and> (\<exists>as'. handed_out (r - HEADER_SIZE) sz h as h' as'))"
proof (cases "sz = 0")
  case True
  then show ?thesis by (simp add: plain_kmalloc_def)
next
  case nz: False
  show ?thesis
  proof (cases "\<exists>a \<in> set as. bfree a \<and> kmalloc_size sz \<le> bsz a")
    case True
    then obtain xs a ys where a: "as = xs @ a # ys" "bfree a" "kmalloc_size sz \<le> bsz a"
        "\<forall>b \<in> set xs. \<not> (bfree b \<and> kmalloc_size sz \<le> bsz b)"
      using split_list_first_prop [of as "\<lambda>a. bfree a \<and> kmalloc_size sz \<le> bsz a"] by blast
    have "unat sz + 19 < 2 ^ 32" using room by simp
    then have "\<exists>as'. handed_out (ad a) sz h as (snd (take_block (ad a) (kmalloc_size sz) sz h)) as'"
      using take_block_handed_out [OF ok [unfolded a(1)] a(2,3) nz] a(1) by simp
    then show ?thesis
      unfolding kmalloc_found [OF ok [unfolded a(1)] nz a(2-4)] using nz by simp
  next
    case False
    then consider m' where "plain_kmalloc sz (h, m) = Some (0, h, m')"
      | h' m' where "plain_kmalloc sz (h, m) = Some (h_end h + HEADER_SIZE, h', m')"
          "grown h (kmalloc_size sz) sz as h'"
      using kmalloc_grow [OF ok nz room] by blast
    then show ?thesis
    proof cases
      case 2
      then have "handed_out (h_end h) sz h as h' (as @ [new_ablock h (kmalloc_size sz) sz])"
        using grown_handed_out [OF ok] by (auto simp: grown_def)
      then show ?thesis using 2(1) nz by auto
    qed auto
  qed
qed

lemma kmalloc_outcome:
  assumes "heap_ok h as" and "unat (h_end h) + unat sz + 4138 < 2 ^ 32" and "kmalloc sz (h, m) = Some (r, h', m')"
  shows "r = 0 \<and> h' = h \<or> sz \<noteq> 0 \<and> (\<exists>as'. handed_out (r - HEADER_SIZE) sz h as h' as')"
  using plain_outcome [OF assms(1,2), of m] kmalloc_plain [OF assms(3)] by simp

text \<open>When all pages of the heap are mapped: what is returned, and when there is a fault.\<close>

lemma kmalloc_mapped:
  assumes ok: "heap_ok h as" and mp: "heap_mapped h v" and wf: "vmm_wf (p, v)" and z: "0 \<in> frames_in_use p"
    and top: "unat (h_max h) \<le> 0xFFC00000" and room: "unat (h_end h) + unat sz + 4138 < 2 ^ 32"
  shows "case kmalloc sz (h, p, v) of
      None \<Rightarrow> (\<exists>h1 q w. heap_expand (HEADER_SIZE + kmalloc_size sz) (h, p, v) = (True, h1, q, w) \<and>
        fst (pmm_alloc_frame q) = 0 \<and> \<not> vmm_is_mapped w (h_end h1 - 1))
    | Some (r, h', q, w) \<Rightarrow> vmm_wf (q, w) \<and> 0 \<in> frames_in_use q \<and> (heap_mapped h' w \<or> fst (pmm_alloc_frame q) = 0) \<and>
        (r \<noteq> 0 \<longrightarrow> backed w (r - HEADER_SIZE) (28 + unat sz))"
proof (cases "sz = 0")
  case True
  then show ?thesis using mp wf z by (simp add: kmalloc_def)
next
  case nz: False
  have sz19: "unat sz + 19 < 2 ^ 32" using room by simp
  note sp = kmalloc_size_props [OF nz sz19]
  show ?thesis
  proof (cases "\<exists>a \<in> set as. bfree a \<and> kmalloc_size sz \<le> bsz a")
    case True
    then obtain xs a ys where a: "as = xs @ a # ys" "bfree a" "kmalloc_size sz \<le> bsz a"
        "\<forall>b \<in> set xs. \<not> (bfree b \<and> kmalloc_size sz \<le> bsz b)"
      using split_list_first_prop [of as "\<lambda>a. bfree a \<and> kmalloc_size sz \<le> bsz a"] by blast
    note k = kmalloc_found_mapped [OF ok [unfolded a(1)] mp nz sz19 a(2-4)]
    show ?thesis using k mp wf z by (simp add: heap_mapped_def take_block_def Let_def split: if_splits)
  next
    case none: False
    obtain okf h1 q w where ex: "heap_expand (HEADER_SIZE + kmalloc_size sz) (h, p, v) = (okf, h1, q, w)" by (metis prod_cases4)
    have need: "unat (HEADER_SIZE + kmalloc_size sz) = 24 + unat (kmalloc_size sz)"
      using sp(4) room by (simp add: unat_word_ariths)
    have hm: "unat (h_end h) \<le> unat (h_max h)" using ok by (simp add: heap_ok_def word_le_nat_alt)
    have pos: "0 < unat (HEADER_SIZE + kmalloc_size sz)" "unat (h_end h) + unat (HEADER_SIZE + kmalloc_size sz) + 4095 < 2 ^ 32"
      using need sp(4) room by simp_all
    note m = heap_expand_maps [OF ex wf z top hm pos mp]
    have n': "\<forall>b \<in> set as. \<not> (bfree b \<and> kmalloc_size sz \<le> bsz b)" using none by blast
    note g = kmalloc_grow_mapped [OF ok mp nz n' ex m(3)]
    obtain r h' m' where pl: "plain_kmalloc sz (h, p, v) = Some (r, h', m')" using plain_outcome [OF ok room] by blast
    note e = plain_grow_ends [OF ok nz n' ex pl]
    show ?thesis
    proof (cases okf)
      case False
      then show ?thesis using g pl e m by simp
    next
      case okf: True
      let ?e = "h_end h"
      have r: "unat ?e + 24 + unat (kmalloc_size sz) \<le> unat (h_end h1)"
        using heap_expand_result(2) [OF ex [unfolded eqTrueI [OF okf]] pos(2)] need by simp
      have lo: "unat (h_start h) \<le> unat ?e" by (rule heap_lay_le [OF heap_okD(2) [OF ok]])
      have h1s: "h_start h1 = h_start h" using ex okf by (auto simp: heap_expand_def Let_def split: prod.splits if_splits)
      have h1p: "unat (h_end h1) mod 4096 = 0"
      proof -
        have "h_end h1 = ALIGN_UP (?e + (HEADER_SIZE + kmalloc_size sz)) PAGE_SIZE"
          using ex okf by (auto simp: heap_expand_def Let_def split: prod.splits if_splits)
        moreover have "unat (?e + (HEADER_SIZE + kmalloc_size sz)) = unat ?e + unat (HEADER_SIZE + kmalloc_size sz)"
          using pos(2) by (simp add: unat_word_ariths)
        ultimately show ?thesis using unat_ALIGN_UP_page [of "?e + (HEADER_SIZE + kmalloc_size sz)"] pos(2) by simp
      qed
      have gd: "unat (?e + HEADER_SIZE + sz) = unat ?e + 24 + unat sz" using room by (simp add: unat_word_ariths)
      define E where "E = unat (h_end h1)"
      have tail: "vmm_is_mapped w a = vmm_is_mapped w b" if "E - 4096 \<le> unat a" "unat a < E" "E - 4096 \<le> unat b" "unat b < E" for a b
      proof -
        obtain c where c: "E = c * 4096" using h1p by (auto simp: E_def mod_eq_0_iff_dvd elim: dvdE)
        have "unat x div 4096 = c - 1" if "E - 4096 \<le> unat x" "unat x < E" for x :: u32
        proof (rule div_nat_eqI)
          show "4096 * (c - 1) \<le> unat x" "unat x < 4096 * Suc (c - 1)" using that unfolding c by (simp_all add: diff_mult_distrib)
        qed
        then show ?thesis using that by (intro is_mapped_page) (simp add: same_page_div)
      qed
      have inner: "vmm_is_mapped w a" if "unat ?e \<le> unat a" "unat a < E - 4096" for a
        using m(4) [OF okf, of a] that lo by (simp add: E_def)
      have last: "unat (h_end h1 - 1) = E - 1" "0 < E" using r sp(2) by (simp_all add: E_def unat_sub word_le_nat_alt)
      show ?thesis
      proof (cases "backed w ?e 24 \<and> backed w (?e + HEADER_SIZE + sz) 4")
        case True
        have "backed w ?e (28 + unat sz)"
        proof (rule backed_range)
          show "unat ?e + (28 + unat sz) \<le> 2 ^ 32" using room by simp
          fix a :: u32 assume a: "unat ?e \<le> unat a" "unat a < unat ?e + (28 + unat sz)"
          let ?g = "?e + HEADER_SIZE + sz + 3"
          have ug: "unat ?g = unat ?e + 27 + unat sz" using gd room by (simp add: unat_word_ariths)
          have mg: "vmm_is_mapped w ?g" using backedD [OF conjunct2 [OF True], of ?g] ug gd by simp
          show "vmm_is_mapped w a"
          proof (cases "unat a < E - 4096")
            case False
            have "unat ?g < E" using ug r sp(3) by (simp add: E_def)
            moreover have "unat a \<le> unat ?g" using a(2) ug by simp
            ultimately show ?thesis using tail [of a ?g] False mg by simp
          qed (rule inner [OF a(1)])
        qed
        moreover have "heap_mapped h' w \<or> fst (pmm_alloc_frame q) = 0"
          using m(5) [OF okf] e(2,3) [OF okf] h1s by (simp add: heap_mapped_def)
        ultimately show ?thesis using True g pl e(1,4) okf m(1,2) by simp
      next
        case False
        then obtain b n where b: "\<not> backed w b n" "unat ?e \<le> unat b" "unat b + n \<le> E"
          using gd r sp(3) unfolding E_def by fastforce
        then have "unat b + n \<le> 2 ^ 32" using unat_lt_u32 [of "h_end h1"] by (simp add: E_def)
        then obtain a where a: "unat b \<le> unat a" "unat a < unat b + n" "\<not> vmm_is_mapped w a" using b(1) backed_range by blast
        then have "E - 4096 \<le> unat a" using inner [of a] b(2) by (meson le_trans not_le)
        then have "\<not> vmm_is_mapped w (h_end h1 - 1)" using a tail [of a "h_end h1 - 1"] last b(3) by simp
        moreover have "unat (h_start h1) \<le> unat a \<and> unat a < unat (h_end h1)" using a(1,2) lo b(2,3) h1s by (simp add: E_def)
        then have "\<not> heap_mapped h1 w" using a(3) unfolding heap_mapped_def by blast
        ultimately show ?thesis using m(5) [OF okf] ex okf False g by auto
      qed
    qed
  qed
qed

lemma kfree_outcome:
  assumes ok: "heap_ok h as" and "(b, u) \<in> set (live as)"
  shows "\<exists>as'. heap_ok (kfree (b + HEADER_SIZE) h) as' \<and>
    mset (live as) = add_mset (b, u) (mset (live as')) \<and>
    h_word (kfree (b + HEADER_SIZE) h) = h_word h"
proof -
  obtain a where a: "a \<in> set as" "\<not> bfree a" "ad a = b" "bus a = u"
    using assms(2) by (auto simp: live_mem)
  then obtain xs ys where as: "as = xs @ a # ys" by (meson split_list)
  have "h_word (kfree p h) = h_word h" for p
    by (simp add: kfree_def merge_prev_def merge_next_def Let_def)
  then show ?thesis
    using kfree_ok [OF ok [unfolded as] a(2)] a as by auto
qed


text \<open>
  C5. On a well-formed heap whose pages are all mapped, and for a request that does not wrap (\<open>kmalloc_guard_in_header\<close>
  shows what a wrapping one does), \<open>kmalloc\<close> returns \<open>NULL\<close> and leaves the heap alone, or it returns an 8-aligned pointer to
  a new live block of the requested size on mapped pages: the well-formedness is kept, the live blocks are the old ones and the new
  one, its guard word is in place and no other block's guard check changes. All pages of the heap are
  mapped afterwards unless no frame is left. It faults only when the last page it added is not mapped, because the last frame
  went to that page and none was left for a page table.
\<close>

theorem kmalloc_correct:
  assumes "heap_ok h as" and "heap_mapped h v" and "vmm_wf (p, v)" and "0 \<in> frames_in_use p"
    and "unat (h_max h) \<le> 0xFFC00000" and "unat (h_end h) + unat sz + 4138 < 2 ^ 32"
  shows "case kmalloc sz (h, p, v) of
      None \<Rightarrow> (\<exists>h1 q w. heap_expand (HEADER_SIZE + kmalloc_size sz) (h, p, v) = (True, h1, q, w) \<and>
        fst (pmm_alloc_frame q) = 0 \<and> \<not> vmm_is_mapped w (h_end h1 - 1))
    | Some (r, h', q, w) \<Rightarrow> vmm_wf (q, w) \<and> (heap_mapped h' w \<or> fst (pmm_alloc_frame q) = 0) \<and>
        (r = 0 \<and> h' = h \<or>
         sz \<noteq> 0 \<and> r \<noteq> 0 \<and> backed w (r - HEADER_SIZE) (28 + unat sz) \<and> (\<exists>as'. handed_out (r - HEADER_SIZE) sz h as h' as'))"
proof (cases "kmalloc sz (h, p, v)")
  case None
  then show ?thesis using kmalloc_mapped [OF assms] by simp
next
  case (Some x)
  obtain r h' q w where x: "x = (r, h', q, w)" by (metis prod_cases4)
  have "r = 0 \<and> h' = h \<or> sz \<noteq> 0 \<and> (\<exists>as'. handed_out (r - HEADER_SIZE) sz h as h' as')"
    using kmalloc_outcome [OF assms(1,6)] Some x by blast
  moreover have "r \<noteq> 0" if "handed_out (r - HEADER_SIZE) sz h as h' as'" for as' using that by (auto simp: handed_out_def)
  ultimately show ?thesis using kmalloc_mapped [OF assms] Some x by auto
qed

text \<open>
  C6. Freeing a live block makes it free: the heap stays well-formed, that block and no other leaves
  the live blocks, and the payload words of the heap (hence every other block's guard) are unchanged.
\<close>

theorem kfree_correct:
  assumes "heap_ok h as" and "(b, u) \<in> set (live as)"
  shows "\<exists>as'. heap_ok (kfree (b + HEADER_SIZE) h) as' \<and>
    mset (live as) = add_mset (b, u) (mset (live as')) \<and>
    h_word (kfree (b + HEADER_SIZE) h) = h_word h"
  by (rule kfree_outcome [OF assms])

lemma find_split:
  "List.find P as = Some a \<Longrightarrow> \<exists>xs ys. as = xs @ a # ys \<and> P a \<and> (\<forall>b \<in> set xs. \<not> P b)"
proof (induction as)
  case (Cons c as)
  show ?case
  proof (cases "P c")
    case True
    then have "c # as = [] @ a # as" "P a" using Cons.prems by auto
    then show ?thesis by fastforce
  next
    case False
    then obtain xs ys where "c # as = (c # xs) @ a # ys" "P a" "\<forall>b \<in> set (c # xs). \<not> P b"
      using Cons by auto
    then show ?thesis by blast
  qed
qed simp

text \<open>
  First fit: when some free block is large enough, \<open>kmalloc\<close> returns the payload of the lowest
  such block, and takes neither a frame nor a page.
\<close>

theorem kmalloc_first_fit:
  assumes "heap_ok h as" and "heap_mapped h v" and "sz \<noteq> 0" and "unat sz + 19 < 2 ^ 32"
    and "List.find (\<lambda>a. bfree a \<and> kmalloc_size sz \<le> bsz a) as = Some a"
  shows "\<exists>h'. kmalloc sz (h, p, v) = Some (ad a + HEADER_SIZE, h', p, v) \<and> h_end h' = h_end h"
proof -
  obtain xs ys where a: "as = xs @ a # ys" "bfree a" "kmalloc_size sz \<le> bsz a"
      "\<forall>b \<in> set xs. \<not> (bfree b \<and> kmalloc_size sz \<le> bsz b)"
    using find_split [OF assms(5)] by blast
  show ?thesis
    unfolding kmalloc_found_mapped(1) [OF assms(1) [unfolded a(1)] assms(2-4) a(2-4)]
    by (simp add: take_block_def Let_def)
qed

section \<open>Aligned allocation\<close>

lemma unat_pow2: "k < 32 \<Longrightarrow> unat (2 ^ k :: u32) = 2 ^ k"
proof -
  assume "k < 32"
  then have "(2 ^ k :: nat) < 2 ^ 32" using power_strict_increasing [of k 32 "2 :: nat"] by simp
  then show ?thesis using unat_of_nat [of "2 ^ k", where 'a = 32] by simp
qed

lemma unat_ALIGN_UP_pow2:
  assumes "k < 32" and "unat x + 2 ^ k - 1 < 2 ^ 32"
  shows "unat (ALIGN_UP x (2 ^ k)) = (unat x + (2 ^ k - 1)) div 2 ^ k * 2 ^ k"
proof -
  have m: "unat (2 ^ k - 1 :: u32) = 2 ^ k - 1"
    using unat_pow2 [OF assms(1)] by (simp add: unat_sub_if')
  then have "unat (x + (2 ^ k - 1)) = unat x + (2 ^ k - 1)"
    using assms(2) by (simp add: unat_word_ariths)
  then show ?thesis
    using unat_and_not_mask [of "x + (2 ^ k - 1)" k]
    by (simp add: ALIGN_UP_def mask_eq_exp_minus_1 minus_mod_eq_div_mult)
qed

text \<open>
  C7. An aligned allocation that succeeds returns a pointer \<open>p\<close> aligned to \<open>2 ^ k\<close>, with the \<open>sz\<close>
  requested bytes and the saved pointer below it inside one new live block; freeing \<open>p\<close> again with
  \<open>kfree_aligned\<close> gives back exactly that block.
\<close>

theorem kmalloc_aligned_roundtrip:
  assumes ok: "heap_ok h as" and k: "k < 32"
    and room: "unat (h_end h) + unat sz + 2 ^ k + 4142 < 2 ^ 32"
    and res: "kmalloc_aligned sz (2 ^ k) (h, m) = Some (p, h', m')" and "p \<noteq> 0"
  shows "unat p mod 2 ^ k = 0 \<and>
    (\<exists>b as1 as2. heap_ok h' as1 \<and> mset (live as1) = add_mset (b, sz + 2 ^ k + 4) (mset (live as)) \<and>
      unat b + 24 \<le> unat p - 4 \<and> unat p + unat sz \<le> unat b + 24 + unat (sz + 2 ^ k + 4) \<and>
      heap_ok (kfree_aligned p h') as2 \<and> mset (live as2) = mset (live as))"
proof -
  let ?t = "sz + 2 ^ k + 4"
  have t: "unat ?t = unat sz + 2 ^ k + 4"
    using room unat_pow2 [OF k] by (simp add: unat_word_ariths)
  then have rt: "unat (h_end h) + unat ?t + 4138 < 2 ^ 32" using room by simp
  obtain r h1 m1 where r1: "kmalloc ?t (h, m) = Some (r, h1, m1)"
    using res by (auto simp: kmalloc_aligned_def bind_eq_Some_conv)
  then have r: "kmalloc ?t (h, m) = Some (r, h1, m1)"
      "r = 0 \<and> h1 = h \<or> (\<exists>as'. handed_out (r - HEADER_SIZE) ?t h as h1 as')"
    using kmalloc_outcome [OF ok rt r1] by blast+
  have "r \<noteq> 0" using res r(1) \<open>p \<noteq> 0\<close> by (auto simp: kmalloc_aligned_def)
  then obtain as1 where ho: "handed_out (r - HEADER_SIZE) ?t h as h1 as1" using r(2) by auto
  define b where "b = r - HEADER_SIZE"
  have ok1: "heap_ok h1 as1" and ms: "mset (live as1) = add_mset (b, ?t) (mset (live as))"
    using ho by (simp_all add: handed_out_def b_def)
  have p: "p = ALIGN_UP (r + 4) (2 ^ k)" and h': "h' = h1\<lparr>h_word := (h_word h1)(p - 4 := r)\<rparr>"
    using res r(1) \<open>r \<noteq> 0\<close> by (auto simp: kmalloc_aligned_def Let_def split: if_splits)
  have bt: "(b, ?t) \<in> set (live as1)" using arg_cong [OF ms, of set_mset] by simp
  then obtain a where a: "a \<in> set as1" "\<not> bfree a" "ad a = b" "bus a = ?t" by (auto simp: live_mem)
  note bd = live_block_bounds [OF ok1 a(1,2), unfolded a(3,4)]
  have rb: "r = b + HEADER_SIZE" by (simp add: b_def)
  have ur: "unat r = unat b + 24" using bd(3) rb by simp
  have "unat b + 24 + unat ?t < 2 ^ 32" using bd(1) unat_lt_u32 [of "b + HEADER_SIZE + ?t"] by simp
  then have fit: "unat r + 4 + 2 ^ k + unat sz < 2 ^ 32" using t ur by simp
  then have u4: "unat (r + 4) = unat r + 4" by (simp add: unat_word_ariths)
  have up: "unat p = (unat r + 4 + (2 ^ k - 1)) div 2 ^ k * 2 ^ k"
    using unat_ALIGN_UP_pow2 [OF k, of "r + 4"] u4 fit p by simp
  let ?q = "(2 ^ k :: nat)"
  have "0 < ?q" by simp
  then have lo: "unat r + 4 \<le> unat p" and hi: "unat p \<le> unat r + 4 + (?q - 1)"
    unfolding up using div_mult_mod_eq [of "unat r + 4 + (?q - 1)" ?q]
      mod_less_divisor [of ?q "unat r + 4 + (?q - 1)"] by linarith+
  have ok': "heap_ok h' as1"
    using ok1 by (simp add: h' heap_ok_def heap_rel_def stats_ok_def)
  have w: "h_word h' (p - 4) = r" by (simp add: h')
  obtain as2 where as2: "heap_ok (kfree (b + HEADER_SIZE) h') as2"
      "mset (live as1) = add_mset (b, ?t) (mset (live as2))"
    using kfree_outcome [OF ok' bt] by blast
  then have "heap_ok (kfree_aligned p h') as2" "mset (live as2) = mset (live as)"
    using \<open>p \<noteq> 0\<close> w rb ms by (simp_all add: kfree_aligned_def)
  moreover have "unat p mod ?q = 0" by (simp add: up)
  moreover have "unat b + 24 \<le> unat p - 4" "unat p + unat sz \<le> unat b + 24 + unat ?t"
    using lo hi ur t \<open>0 < ?q\<close> by linarith+
  ultimately show ?thesis using ok' ms by blast
qed

section \<open>Every reachable heap\<close>

text \<open>
  The heaps the kernel can reach from \<open>heap_init\<close> at boot, with the multiset of allocations its
  callers hold: they free only what they hold, once, and no request wraps the 32-bit arithmetic.
\<close>

definition heap_boot :: "heap \<Rightarrow> bool" where
  "heap_boot h \<longleftrightarrow> total_allocations h = 0 \<and> total_frees h = 0 \<and> current_allocations h = 0 \<and>
     bytes_allocated h = 0"

inductive heap_reach :: "heap \<Rightarrow> (u32 \<times> u32) multiset \<Rightarrow> bool" where
  init: "heap_boot h \<Longrightarrow> 16 \<le> unat start \<Longrightarrow> unat start + unat sz + 15 < 2 ^ 32 \<Longrightarrow>
     heap_reach (heap_init start sz h) {#}"
| malloc: "heap_reach h L \<Longrightarrow> unat (h_end h) + unat sz + 4138 < 2 ^ 32 \<Longrightarrow>
     kmalloc sz (h, m) = Some (r, h', m') \<Longrightarrow>
     heap_reach h' (if r = 0 then L else add_mset (r - HEADER_SIZE, sz) L)"
| free: "heap_reach h L \<Longrightarrow> (b, u) \<in># L \<Longrightarrow> heap_reach (kfree (b + HEADER_SIZE) h) (L - {#(b, u)#})"

inductive_cases heap_reachE: "heap_reach h L"

lemma heap_init_ok:
  assumes "heap_boot h" and "16 \<le> unat start" and "unat start + unat sz + 15 < 2 ^ 32"
  shows "heap_ok (heap_init start sz h) []"
proof -
  have st: "unat (ALIGN_UP start 16) = (unat start + 15) div 16 * 16"
    using unat_ALIGN_UP_16 [of start] assms(3) by simp
  define n where "n = unat start"
  have n: "n \<le> (n + 15) div 16 * 16" "(n + 15) div 16 * 16 \<le> n + 15" by simp_all
  have "unat (ALIGN_UP start 16 + sz) = (n + 15) div 16 * 16 + unat sz"
    using n assms(3) st by (simp add: unat_word_ariths n_def)
  then show ?thesis
    using assms n st
    by (simp add: heap_ok_def heap_init_def Let_def heap_rel_def stats_ok_def heap_boot_def
        word_le_nat_alt live_bytes_def live_def n_def)
qed

lemma heap_reach_ok: "heap_reach h L \<Longrightarrow> \<exists>as. heap_ok h as \<and> mset (live as) = L"
proof (induction rule: heap_reach.induct)
  case (init h start sz)
  then show ?case using heap_init_ok [of h start sz] by (intro exI [of _ "[]"]) simp
next
  case (malloc h L sz m r h' m')
  then obtain as where as: "heap_ok h as" "mset (live as) = L" by blast
  have "r = 0 \<and> h' = h \<or> (\<exists>as'. handed_out (r - HEADER_SIZE) sz h as h' as')"
    using kmalloc_outcome [OF as(1) malloc.hyps(2,3)] by blast
  then show ?case
    using as by (auto simp: handed_out_def)
next
  case (free h L b u)
  then obtain as where as: "heap_ok h as" "mset (live as) = L" by blast
  then have "(b, u) \<in> set (live as)" using free.hyps(2) by auto
  then show ?case using kfree_outcome [OF as(1)] as(2) by (metis add_mset_remove_trivial)
qed


lemma live_once:
  assumes "heap_ok h as" and "mset (live as) = add_mset (c, s) L"
  shows "c \<notin> fst ` set_mset L"
proof -
  have "map fst (live as) = map ad (filter (\<lambda>a. \<not> bfree a) as)" by (simp add: live_def)
  then have "distinct (map fst (live as))" using heap_okD(3) [OF assms(1)] by (simp add: distinct_map_filter)
  then have "count (mset (map fst (live as))) c \<le> 1" by (simp add: distinct_count_atmost_1)
  moreover have "mset (map fst (live as)) = add_mset c (image_mset fst L)" using assms(2) by (simp add: mset_map)
  ultimately have "count (image_mset fst L) c = 0" by simp
  then show ?thesis by (simp add: count_eq_zero_iff)
qed

text \<open>
  C4. What \<open>kmalloc\<close> hands out belongs to nobody else: on every heap the kernel can reach, the header, the requested bytes and
  the guard word of the new block lie inside the heap and overlap no block that a caller holds; every header and word
  that the allocation writes lies outside the bytes of the blocks held.
\<close>

theorem kmalloc_disjoint:
  assumes "heap_reach h L" and "unat (h_end h) + unat sz + 4138 < 2 ^ 32" and "kmalloc sz (h, m) = Some (r, h', m')" and "r \<noteq> 0"
  shows "{unat r - 24 ..< unat r + unat sz + 4} \<subseteq> {unat (h_start h') ..< unat (h_end h')} \<and>
    (\<forall>(b, u) \<in># L. {unat r - 24 ..< unat r + unat sz + 4} \<inter> {unat b ..< unat b + 24 + unat u + 4} = {} \<and>
      (\<forall>x. h_blk h' x \<noteq> h_blk h x \<longrightarrow> {unat x ..< unat x + 24} \<inter> {unat b + 24 ..< unat b + 24 + unat u + 4} = {}) \<and>
      (\<forall>x. h_word h' x \<noteq> h_word h x \<longrightarrow> {unat x ..< unat x + 4} \<inter> {unat b ..< unat b + 24 + unat u + 4} = {}))"
proof -
  obtain as where as: "heap_ok h as" "mset (live as) = L" using heap_reach_ok [OF assms(1)] by blast
  obtain as' where ho: "handed_out (r - HEADER_SIZE) sz h as h' as'"
    using kmalloc_outcome [OF as(1) assms(2,3)] assms(4) by auto
  define c where "c = r - HEADER_SIZE"
  have ok: "heap_ok h' as'" and ms: "mset (live as') = add_mset (c, sz) L"
    and w: "h_word h' = (h_word h)(c + HEADER_SIZE + sz := HEAP_GUARD)" and hb: "\<And>x. h_blk h' x \<noteq> h_blk h x \<Longrightarrow> x \<in> ad ` set as'"
    using ho as(2) by (simp_all add: handed_out_def c_def)
  have lv: "set (live as') = insert (c, sz) (set_mset L)" using arg_cong [OF ms, of set_mset] by simp
  obtain a where a: "a \<in> set as'" "\<not> bfree a" "ad a = c" "bus a = sz" using lv by (metis insertI1 live_mem)
  note bd = live_block_bounds [OF ok a(1,2), unfolded a(3,4)]
  have r: "unat r = unat c + 24" using bd(3) by (simp add: c_def)
  have new: "c \<notin> fst ` set_mset L" by (rule live_once [OF ok ms])
  show ?thesis
  proof (intro conjI ballI, goal_cases)
    case 1
    show ?case using heap_lay_mem [OF heap_okD(2) [OF ok] a(1)] a(3) bd(2) r by auto
  next
    case (2 bu)
    obtain b u where bu: "bu = (b, u)" by fastforce
    then have "(b, u) \<in> set (live as')" using 2 lv by simp
    then obtain d where d: "d \<in> set as'" "\<not> bfree d" "ad d = b" "bus d = u" by (auto simp: live_mem)
    have "c \<noteq> b" using new 2 bu by force
    then have ne: "a \<noteq> d" using a(3) d(3) by auto
    note db = live_block_bounds [OF ok d(1,2), unfolded d(3,4)]
    have apart: "unat c + 24 + unat (bsz a) \<le> unat b \<or> unat b + 24 + unat (bsz d) \<le> unat c"
      using blocks_apart [OF ok a(1) d(1) ne] a(3) d(3) by simp
    have "{unat x ..< unat x + 24} \<inter> {unat b + 24 ..< unat b + 24 + unat u + 4} = {}" if x: "x \<in> ad ` set as'" for x
    proof -
      obtain f where f: "f \<in> set as'" "ad f = x" using x by auto
      show ?thesis using blocks_apart [OF ok f(1) d(1)] f(2) d(3) db(2) by (cases "f = d") auto
    qed
    moreover have "x = c + HEADER_SIZE + sz" if "h_word h' x \<noteq> h_word h x" for x using that w by (auto split: if_splits)
    ultimately show ?case using apart bd(1,2) db(2) r hb unfolding bu by auto
  qed
qed

lemma live_leaks: "heap_ok h as \<Longrightarrow> unat (heap_check_leaks h) = length (live as)"
  using heap_okD(5) [of h as] by (auto simp: heap_check_leaks_def stats_ok_def)

text \<open>
  C8. In every heap reachable from \<open>heap_init\<close>, the blocks the callers hold are exactly the live
  blocks of a well-formed heap, \<open>heap_check_leaks\<close> reports their number and the byte statistics is
  the sum of their sizes.
\<close>

theorem heap_reach_sound:
  assumes "heap_reach h L"
  shows "\<exists>as. heap_ok h as \<and> mset (live as) = L \<and> unat (heap_check_leaks h) = size L \<and>
    unat (bytes_allocated h) = (\<Sum>x \<in># L. unat (snd x))"
proof -
  obtain as where as: "heap_ok h as" "mset (live as) = L" using heap_reach_ok [OF assms] by blast
  have "unat (bytes_allocated h) = (\<Sum>x \<in># mset (live as). unat (snd x))"
    using heap_okD(5) [OF as(1)] by (simp add: stats_ok_def live_bytes_def sum_mset_sum_list flip: mset_map)
  then show ?thesis
    using as live_leaks [OF as(1)] by auto
qed

section \<open>Requests that wrap\<close>

text \<open>
  Why \<open>kmalloc_correct\<close> bounds the request: for a size of \<open>2 ^ 32 - 4\<close> the addition of the guard word
  wraps to 0, a 16-byte block is handed out, and its guard word is written at offset 20 of the
  block's own header, where the field \<open>free\<close> lies.
\<close>

lemma kmalloc_size_wraps: "kmalloc_size 0xFFFFFFFC = 16"
  by (simp add: kmalloc_size_def ALIGN_UP_def)

lemma kmalloc_guard_in_header:
  assumes "heap_ok h (a # as)" and "heap_mapped h v" and "bfree a"
  shows "\<exists>h'. kmalloc 0xFFFFFFFC (h, p, v) = Some (ad a + HEADER_SIZE, h', p, v) \<and>
    h_word h' (ad a + 20) = HEAP_GUARD"
proof -
  have "16 \<le> unat (bsz a)" using heap_okD(4) [OF assms(1), of a] by (simp add: ablk_ok_def)
  then have "kmalloc_size 0xFFFFFFFC \<le> bsz a" by (simp add: kmalloc_size_wraps word_le_nat_alt)
  moreover have "backed v (ad a + 20) 4"
  proof -
    note lay = heap_lay_mem [OF heap_okD(2) [OF assms(1)], of a, simplified]
    have "unat (ad a + 20) = unat (ad a) + 20"
      using heap_ok_room [OF assms(1), of a] by (simp add: unat_word_ariths)
    then show ?thesis using lay by (intro backed_inside [OF assms(2)]) simp_all
  qed
  moreover have "ad a + HEADER_SIZE + 0xFFFFFFFC = ad a + 20" by (simp add: add.assoc)
  ultimately have "kmalloc 0xFFFFFFFC (h, p, v) = Some (ad a + HEADER_SIZE,
      snd (take_block (ad a) (kmalloc_size 0xFFFFFFFC) 0xFFFFFFFC h), p, v)"
    using assms by (intro kmalloc_found_backed [of h "[]" a as v "0xFFFFFFFC" p]) (simp_all only: append_Nil, simp_all)
  then show ?thesis by (simp add: take_block_word)
qed

section \<open>A concrete heap\<close>

definition heap_demo_blocks :: "ablock list" where
  "heap_demo_blocks = [\<lparr>ad = 0x1000, bsz = 32, bus = 20, bfree = False\<rparr>,
     \<lparr>ad = 0x1038, bsz = 64, bus = 0, bfree = True\<rparr>, \<lparr>ad = 0x1090, bsz = 16, bus = 8, bfree = False\<rparr>]"

definition heap_demo :: heap where
  "heap_demo = \<lparr>h_start = 0x1000, h_end = 0x2000, h_max = 0x8000, h_free_list = 0x1000,
     h_blk = (\<lambda>a. if a = 0x1000 then hdr 0 (heap_demo_blocks ! 0) 0x1038
                  else if a = 0x1038 then hdr 0x1000 (heap_demo_blocks ! 1) 0x1090
                  else hdr 0x1038 (heap_demo_blocks ! 2) 0),
     h_word = (\<lambda>_. HEAP_GUARD), total_allocations = 3, total_frees = 1, current_allocations = 2,
     bytes_allocated = 28, peak_allocations = 2, peak_bytes = 28\<rparr>"

lemma heap_demo_ok: "heap_ok heap_demo heap_demo_blocks"
  by (simp add: heap_ok_def heap_rel_def heap_demo_def heap_demo_blocks_def ablk_ok_def stats_ok_def
      live_bytes_def live_def)

lemma heap_demo_live: "set (live heap_demo_blocks) = {(0x1000, 20), (0x1090, 8)}"
  by (auto simp: heap_demo_blocks_def)


lemma heap_demo_first_fit:
  "List.find (\<lambda>a. bfree a \<and> kmalloc_size 36 \<le> bsz a) heap_demo_blocks = Some (heap_demo_blocks ! 1)"
  by (simp add: heap_demo_blocks_def kmalloc_size_def ALIGN_UP_def)

text \<open>Page tables that map the demo heap's page at \<open>0x1000\<close> and the first 4 MB of the kernel heap.\<close>

definition heap_vmm :: vmm where
  "heap_vmm = \<lparr>cr3 = 0x1000, ptmem = (\<lambda>f i. if f = 0x1000 then (if i = 0 then 0x2003 else if i = 832 then 0x4003
     else if i = 1023 then 0x1003 else 0) else if f = 0x2000 \<and> i = 1 \<or> f = 0x4000 then 0x3003 else 0)\<rparr>"

lemma heap_vmm_pde: "pde heap_vmm i = (if i = 0 then 0x2003 else if i = 832 then 0x4003 else if i = 1023 then 0x1003 else 0)"
  by (simp add: heap_vmm_def pde_def)

lemma demo_frames: "{0, 0x1000, 0x2000, 0x4000} \<subseteq> frames_in_use pmm_demo"
proof -
  have "frame_addr 0 \<in> frames_in_use pmm_demo" "frame_addr 1 \<in> frames_in_use pmm_demo" "frame_addr 2 \<in> frames_in_use pmm_demo"
    "frame_addr 4 \<in> frames_in_use pmm_demo"
    unfolding frames_in_use_def pmm_demo_used by (rule imageI, simp)+
  then show ?thesis by (simp add: frame_addr_def)
qed

lemma heap_vmm_wf: "vmm_wf (pmm_demo, heap_vmm)" "0 \<in> frames_in_use pmm_demo"
proof -
  have c: "cr3 heap_vmm = 0x1000" by (simp add: heap_vmm_def)
  show "vmm_wf (pmm_demo, heap_vmm)"
    using demo_frames pmm_demo_wf
    by (auto simp: vmm_wf_def self_map_def tbl_def heap_vmm_pde present_def c split: if_splits)
  show "0 \<in> frames_in_use pmm_demo" using demo_frames by simp
qed

lemma heap_demo_mapped: "heap_mapped heap_demo heap_vmm"
proof -
  have "vmm_is_mapped heap_vmm a" if a: "0x1000 \<le> unat a" "unat a < 0x2000" for a
  proof -
    have "unat a div 4096 = 1" using a by (intro div_nat_eqI) simp_all
    then have "a AND 0xFFFFF000 = (0x1000 :: u32) AND 0xFFFFF000" unfolding same_page_div by simp
    from is_mapped_page [OF this] show ?thesis unfolding heap_vmm_def by simp code_simp
  qed
  then show ?thesis by (simp add: heap_mapped_def heap_demo_def)
qed

lemma heap_demo_aligned: "\<exists>h'. kmalloc_aligned 16 16 (heap_demo, pmm_demo, heap_vmm) = Some (0x1060, h', pmm_demo, heap_vmm)"
proof -
  have "kmalloc 36 (heap_demo, pmm_demo, heap_vmm) = Some (ad (heap_demo_blocks ! 1) + HEADER_SIZE,
      snd (take_block (ad (heap_demo_blocks ! 1)) (kmalloc_size 36) 36 heap_demo), pmm_demo, heap_vmm)"
    using heap_demo_ok
    by (intro kmalloc_found_mapped(1) [of _ "[heap_demo_blocks ! 0]" _ "[heap_demo_blocks ! 2]", OF _ heap_demo_mapped])
      (simp_all add: heap_demo_blocks_def kmalloc_size_def ALIGN_UP_def)
  moreover have "backed heap_vmm (0x1060 - 4) 4"
    by (intro backed_inside [OF heap_demo_mapped]) (simp_all add: heap_demo_def)
  ultimately show ?thesis
    by (simp add: kmalloc_aligned_def heap_demo_blocks_def ALIGN_UP_def Let_def)
qed

text \<open>The kernel's own heap at boot, \<open>KERNEL_HEAP_START\<close> and \<open>KERNEL_HEAP_SIZE\<close>, and two allocations.\<close>

definition heap_boot_demo :: heap where
  "heap_boot_demo = heap_init 0xD0000000 0x800000 (heap_demo\<lparr>total_allocations := 0, total_frees := 0,
     current_allocations := 0, bytes_allocated := 0\<rparr>)"

lemma heap_boot_demo_reach: "heap_reach heap_boot_demo {#}"
  unfolding heap_boot_demo_def by (rule heap_reach.init) (simp_all add: heap_boot_def)

definition two_frames :: pmm where
  "two_frames = pmm_demo\<lparr>pmm_bitmap := [0xFFFFFFFF, 0xFFFFFFF3], pmm_used_frames := 38\<rparr>"

lemma two_frames_free: "fst (pmm_alloc_frame two_frames) = 0x22000" "vmm_wf (two_frames, heap_vmm)" "0 \<in> frames_in_use two_frames"
proof -
  show "fst (pmm_alloc_frame two_frames) = 0x22000" unfolding pmm_alloc_frame_def two_frames_def pmm_demo_def by code_simp
  have "frame_used two_frames f \<longleftrightarrow> f \<noteq> 34 \<and> f \<noteq> 35" if "f < 40" for f
  proof -
    have "\<forall>f \<in> set [0 ..< 40]. frame_used two_frames f \<longleftrightarrow> f \<noteq> 34 \<and> f \<noteq> 35"
      unfolding frame_used_def two_frames_def pmm_demo_def by code_simp
    then show ?thesis using that by simp
  qed
  then have u: "used_frames two_frames = {..< 40} - {34, 35}" by (auto simp: used_frames_def two_frames_def pmm_demo_def)
  have w: "pmm_wf two_frames" unfolding pmm_wf_def u by (simp add: two_frames_def pmm_demo_def)
  have "frame_addr 0 \<in> frames_in_use two_frames" "frame_addr 1 \<in> frames_in_use two_frames" "frame_addr 2 \<in> frames_in_use two_frames"
    "frame_addr 4 \<in> frames_in_use two_frames"
    unfolding frames_in_use_def u by (rule imageI, simp)+
  then have f: "{0, 0x1000, 0x2000, 0x4000} \<subseteq> frames_in_use two_frames" by (simp add: frame_addr_def)
  then show "0 \<in> frames_in_use two_frames" by simp
  have c: "cr3 heap_vmm = 0x1000" by (simp add: heap_vmm_def)
  show "vmm_wf (two_frames, heap_vmm)"
    using f w by (auto simp: vmm_wf_def self_map_def tbl_def heap_vmm_pde present_def c split: if_splits)
qed

lemma kernel_heap_mapped: "0xD0000000 \<le> unat a \<Longrightarrow> unat a < 0xD0400000 \<Longrightarrow> vmm_is_mapped heap_vmm a"
proof -
  assume a: "0xD0000000 \<le> unat a" "unat a < 0xD0400000"
  have "unat a div 4194304 = 832" using a by (intro div_nat_eqI) simp_all
  then have i: "unat (pd_idx a) = 832" by (simp add: unat_pd_idx)
  have t: "tbl heap_vmm 832 = 0x4000" by (simp add: tbl_def heap_vmm_pde)
  have sm: "self_map heap_vmm" by (rule vmm_wfD(2) [OF heap_vmm_wf(1)])
  have "pte heap_vmm 832 j = 0x3003" for j unfolding pte_def t by (simp add: heap_vmm_def)
  then show ?thesis unfolding vmm_is_mapped_alt [OF sm] pt_entry_def i by (simp add: heap_vmm_pde present_def)
qed

lemma kernel_heap_grows:
  assumes ok: "heap_ok h as" and st: "h_start h = 0xD0000000" "h_max h = 0xD0800000" and e: "unat (h_end h) mod 4096 = 0" "unat (h_end h) < 0xD0300000"
    and sz: "0 < unat sz" "unat sz < 4000" and used: "\<forall>b \<in> set as. \<not> bfree b"
  obtains h' m' where "kmalloc sz (h, two_frames, heap_vmm) = Some (h_end h + HEADER_SIZE, h', m')"
    and "heap_ok h' (as @ [new_ablock h (kmalloc_size sz) sz])" and "h_start h' = 0xD0000000" and "h_max h' = 0xD0800000"
    and "h_end h' = h_end h + 4096"
proof -
  obtain p' where al: "pmm_alloc_frame two_frames = (0x22000, p')" using two_frames_free(1) by (metis prod.collapse)
  have nz: "sz \<noteq> 0" using sz(1) by auto
  have room: "unat (h_end h) + unat sz + 4138 < 2 ^ 32" using e(2) sz(2) by simp
  have "unat sz + 19 < 2 ^ 32" using room by simp
  note sp = kmalloc_size_props [OF nz this]
  have need: "unat (HEADER_SIZE + kmalloc_size sz) = 24 + unat (kmalloc_size sz)" using sp(4) sz(2) by (simp add: unat_word_ariths)
  obtain q w where mp: "vmm_map_page (h_end h) 0x22000 PAGE_KERNEL (p', heap_vmm) = (q, w)" by fastforce
  have ex: "heap_expand (HEADER_SIZE + kmalloc_size sz) (h, two_frames, heap_vmm) = (True, h\<lparr>h_end := h_end h + 4096\<rparr>, q, w)"
    unfolding mp [symmetric] using e need sp(2,4) sz(2) st(2) by (intro heap_expand_page [OF e(1) _ _ _ _ al]) simp_all
  have lo: "0xD0000000 \<le> unat (h_end h)" using heap_lay_le [OF heap_okD(2) [OF ok]] st(1) by simp
  have hm: "heap_mapped h heap_vmm" using kernel_heap_mapped e(2) st(1) by (auto simp: heap_mapped_def)
  have none: "\<forall>b \<in> set as. \<not> (bfree b \<and> kmalloc_size sz \<le> bsz b)" using used by blast
  have "unat (h_end h) \<le> unat (h_max h)" "unat (h_max h) \<le> 0xFFC00000" using e(2) st(2) by simp_all
  note mw = heap_expand_maps(3) [OF ex two_frames_free(2,3) this(2,1) _ _ hm]
  have kept: "vmm_is_mapped w a" if "unat (h_end h) \<le> unat a" "unat a < unat (h_end h) + 4096" for a
  proof -
    have "vmm_is_mapped heap_vmm a" using that lo e(2) by (intro kernel_heap_mapped) simp_all
    moreover have "unat (pd_idx x) < 1023" if "unat x < 0xD0301000" for x :: u32
      using that by (simp add: unat_pd_idx div_less_iff_less_mult)
    moreover have "vmm_wf (p', heap_vmm)" "0 \<in> frames_in_use p'"
      using two_frames_free(2,3) pmm_src.alloc_ok [OF vmm_wfD(1) [OF two_frames_free(2)] al]
        pmm_src.alloc_mono [OF vmm_wfD(1) [OF two_frames_free(2)] al] by (auto simp: vmm_wf_def)
    ultimately show ?thesis using map_page_keeps(3) [OF _ _ _ mp, of a] that e(2) by simp
  qed
  have gd: "unat (h_end h + HEADER_SIZE + sz) = unat (h_end h) + 24 + unat sz" using room by (simp add: unat_word_ariths)
  have "backed w (h_end h) 24" "backed w (h_end h + HEADER_SIZE + sz) 4"
    using gd sz(2) e(2) by (auto intro!: backed_range kept)
  moreover have "heap_mapped h w" using mw need sp(4) room sz(2) e(2) by simp
  ultimately have "kmalloc sz (h, two_frames, heap_vmm) = plain_kmalloc sz (h, two_frames, heap_vmm)"
    using kmalloc_grow_mapped [OF ok hm nz none ex] by simp
  moreover obtain r h' m' where pl: "plain_kmalloc sz (h, two_frames, heap_vmm) = Some (r, h', m')" using plain_outcome [OF ok room] by blast
  note g = plain_grow_ends [OF ok nz none ex pl]
  have "r \<noteq> 0" using g(4) lo e(2) by (auto simp: word_unat_eq_iff unat_word_ariths)
  then have "grown h (kmalloc_size sz) sz as h'" using kmalloc_grow [OF ok nz room none, of "(two_frames, heap_vmm)"] pl by auto
  ultimately show thesis using that pl g st by (simp add: grown_def)
qed

lemma heap_boot_twice:
  obtains h m k n where "kmalloc 100 (heap_boot_demo, two_frames, heap_vmm) = Some (0xD0000018, h, m)"
    and "heap_reach h {# (0xD0000000, 100) #}" and "unat (h_end h) + unat (50 :: u32) + 4138 < 2 ^ 32"
    and "kmalloc 50 (h, two_frames, heap_vmm) = Some (0xD0001018, k, n)"
proof -
  have b: "heap_ok heap_boot_demo []" unfolding heap_boot_demo_def by (rule heap_init_ok) (simp_all add: heap_boot_def)
  have f: "h_start heap_boot_demo = 0xD0000000" "h_end heap_boot_demo = 0xD0000000" "h_max heap_boot_demo = 0xD0800000"
    by (simp_all add: heap_boot_demo_def heap_init_def Let_def ALIGN_UP_def)
  obtain h m where k: "kmalloc 100 (heap_boot_demo, two_frames, heap_vmm) = Some (0xD0000018, h, m)"
    "heap_ok h [new_ablock heap_boot_demo (kmalloc_size 100) 100]" "h_start h = 0xD0000000" "h_max h = 0xD0800000" "h_end h = 0xD0001000"
    using kernel_heap_grows [OF b f(1,3), of 100] f(2) by auto
  have "unat (h_end heap_boot_demo) + unat (100 :: u32) + 4138 < 2 ^ 32" by (simp add: f)
  from heap_reach.malloc [OF heap_boot_demo_reach this k(1)] have r: "heap_reach h {# (0xD0000000, 100) #}" by simp
  have "\<exists>k' n. kmalloc 50 (h, two_frames, heap_vmm) = Some (0xD0001018, k', n)"
    by (rule kernel_heap_grows [OF k(2-4), of 50]) (auto simp: k(5) new_ablock_def)
  then obtain k' n where n: "kmalloc 50 (h, two_frames, heap_vmm) = Some (0xD0001018, k', n)" by blast
  have "unat (h_end h) + unat (50 :: u32) + 4138 < 2 ^ 32" by (simp add: k(5))
  from that [OF k(1) r this n] show thesis .
qed

theorem kmalloc_disjoint_witness:
  "{0xD0001000 ..< 0xD0001000 + 24 + 50 + 4} \<inter> {0xD0000000 ..< 0xD0000000 + 24 + 100 + (4 :: nat)} = {}"
proof (rule heap_boot_twice)
  fix h m k n
  assume "heap_reach h {# (0xD0000000, 100) #}" "unat (h_end h) + unat (50 :: u32) + 4138 < 2 ^ 32"
    "kmalloc 50 (h, two_frames, heap_vmm) = Some (0xD0001018, k, n)"
  from kmalloc_disjoint [OF this] show ?thesis by simp
qed

theorem kmalloc_correct_witness:
  "case kmalloc 36 (heap_demo, pmm_demo, heap_vmm) of None \<Rightarrow> False
   | Some (r, h', q, w) \<Rightarrow> r = 0x1050 \<and> backed w 0x1038 64 \<and> (\<exists>as'. handed_out 0x1038 36 heap_demo heap_demo_blocks h' as')"
proof -
  obtain h' where k: "kmalloc 36 (heap_demo, pmm_demo, heap_vmm) = Some (0x1050, h', pmm_demo, heap_vmm)"
    using kmalloc_found_mapped(1) [of heap_demo "[heap_demo_blocks ! 0]" "heap_demo_blocks ! 1" "[heap_demo_blocks ! 2]" heap_vmm 36 pmm_demo]
      heap_demo_ok heap_demo_mapped by (simp add: heap_demo_blocks_def kmalloc_size_def ALIGN_UP_def)
  have "unat (h_max heap_demo) \<le> 0xFFC00000" "unat (h_end heap_demo) + unat (36 :: u32) + 4138 < 2 ^ 32"
    by (simp_all add: heap_demo_def)
  from kmalloc_correct [OF heap_demo_ok heap_demo_mapped heap_vmm_wf this] k show ?thesis by simp
qed

theorem kfree_correct_witness:
  "\<exists>as'. heap_ok (kfree 0x1018 heap_demo) as' \<and> mset (live as') = {# (0x1090, 8) #}"
  using kfree_correct [OF heap_demo_ok, of "0x1000" 20] by (auto simp: heap_demo_blocks_def)

theorem kmalloc_first_fit_witness: "\<exists>h'. kmalloc 36 (heap_demo, pmm_demo, heap_vmm) = Some (0x1050, h', pmm_demo, heap_vmm)"
  using kmalloc_first_fit [OF heap_demo_ok heap_demo_mapped _ _ heap_demo_first_fit, of pmm_demo]
  by (auto simp: heap_demo_blocks_def)

theorem kmalloc_aligned_roundtrip_witness:
  "\<exists>h' as2. kmalloc_aligned 16 16 (heap_demo, pmm_demo, heap_vmm) = Some (0x1060, h', pmm_demo, heap_vmm) \<and>
     heap_ok (kfree_aligned 0x1060 h') as2 \<and> mset (live as2) = mset (live heap_demo_blocks)"
proof -
  obtain h' where h: "kmalloc_aligned 16 16 (heap_demo, pmm_demo, heap_vmm) = Some (0x1060, h', pmm_demo, heap_vmm)"
    using heap_demo_aligned by blast
  have "\<exists>as2. heap_ok (kfree_aligned 0x1060 h') as2 \<and> mset (live as2) = mset (live heap_demo_blocks)"
    using kmalloc_aligned_roundtrip [OF heap_demo_ok, of 4 16 "(pmm_demo, heap_vmm)" "0x1060" h' "(pmm_demo, heap_vmm)"] h
    by (auto simp: heap_demo_def)
  then show ?thesis using h by blast
qed

theorem heap_reach_sound_witness:
  "\<exists>h m. kmalloc 100 (heap_boot_demo, two_frames, heap_vmm) = Some (0xD0000018, h, m) \<and> unat (heap_check_leaks h) = 1 \<and>
    unat (bytes_allocated h) = 100"
proof (rule heap_boot_twice)
  fix h m k n
  assume k: "kmalloc 100 (heap_boot_demo, two_frames, heap_vmm) = Some (0xD0000018, h, m)" and r: "heap_reach h {# (0xD0000000, 100) #}"
  from heap_reach_sound [OF r] show ?thesis using k by auto
qed

section \<open>Out of page tables\<close>

text \<open>
  With one frame left and no page table for the heap, the frame goes to the page and none is left for the table:
  \<open>heap_expand\<close> reports success and the first store into the new block faults.
\<close>

lemma kmalloc_faults: "kmalloc 100 (heap_boot_demo, pmm_demo, vmm_demo) = None"
proof -
  have ok: "heap_ok heap_boot_demo []" unfolding heap_boot_demo_def by (rule heap_init_ok) (simp_all add: heap_boot_def)
  have f: "h_start heap_boot_demo = 0xD0000000" "h_end heap_boot_demo = 0xD0000000" "h_max heap_boot_demo = 0xD0800000"
    by (simp_all add: heap_boot_demo_def heap_init_def Let_def ALIGN_UP_def)
  obtain p' where al: "pmm_alloc_frame pmm_demo = (0x22000, p')" "fst (pmm_alloc_frame p') = 0"
  proof -
    have "fst (pmm_alloc_frame pmm_demo) = 0x22000 \<and> fst (pmm_alloc_frame (snd (pmm_alloc_frame pmm_demo))) = 0"
      unfolding pmm_alloc_frame_def pmm_demo_def by code_simp
    then show thesis using that by (metis prod.collapse)
  qed
  have sm: "self_map vmm_demo" by (rule vmm_wfD(2) [OF vmm_demo_wf])
  have none: "va_read vmm_demo (PD_ENT (pd_idx 0xD0000000)) AND PAGE_PRESENT = 0"
    by (simp add: va_read_PD [OF sm] vmm_demo_pde pd_idx_def)
  obtain q where q: "pmm_alloc_frame p' = (0, q)" using al(2) by (metis prod.collapse)
  have mp: "vmm_map_page 0xD0000000 0x22000 PAGE_KERNEL (p', vmm_demo) = (q, vmm_demo)"
    by (simp add: vmm_map_page_def none q Let_def)
  have ex: "heap_expand (HEADER_SIZE + kmalloc_size 100) (heap_boot_demo, pmm_demo, vmm_demo) =
      (True, heap_boot_demo\<lparr>h_end := h_end heap_boot_demo + 4096\<rparr>, q, vmm_demo)"
    unfolding mp [symmetric, folded f(2)] using f by (intro heap_expand_page [OF _ _ _ _ _ al(1)]) (simp_all add: kmalloc_size_def ALIGN_UP_def)
  have hm: "heap_mapped heap_boot_demo vmm_demo" by (auto simp: heap_mapped_def f)
  have "\<not> backed vmm_demo 0xD0000000 24"
    using none backedD [of vmm_demo "0xD0000000" 24 "0xD0000000"] by (auto simp: vmm_is_mapped_def)
  then show ?thesis using kmalloc_grow_mapped [OF ok hm _ _ ex hm] f by simp
qed

end
