(* ===== verification/Process.thy ===== *)
theory Process
  imports Zos_Prelude
begin

text \<open>
  Processes and signals: \<open>kernel/process/process.c\<close> and \<open>kernel/signal/signal.c\<close>. The file's statics
  are the fields of \<open>procs\<close>; a \<open>process_t *\<close> is an index into the table. Signal handlers are the
  code addresses the program registered (0 is \<open>SIG_DFL\<close>, 1 is \<open>SIG_IGN\<close>); what such code does when
  it is called is not in the source, so it is the parameter \<open>run\<close> of the delivery loops. A file's
  name is its characters up to the terminating NUL.
\<close>

section \<open>State\<close>

datatype proc_state = PROC_UNUSED | PROC_RUNNING | PROC_READY | PROC_BLOCKED | PROC_ZOMBIE | PROC_STOPPED

record fd_entry =
  fd_node :: u32
  fd_offset :: u32
  fd_flags :: u32
  fd_in_use :: bool
  fd_pipe_id :: int

record process =
  pid :: u32
  ppid :: u32
  pgid :: u32
  pstate :: proc_state
  pname :: string
  start_time :: u32
  cpu_time :: u32
  priority :: u32
  kernel_stack :: u32
  elf_proc :: u32
  exit_code :: int
  pending_signals :: u32
  blocked_signals :: u32
  signal_handlers :: "u32 list"
  waiting_for_pid :: u32
  fd_table :: "fd_entry list"

record procs =
  process_table :: "process list"
  next_pid :: u32
  current_pid :: u32

abbreviation MAX_PROCESSES :: nat where "MAX_PROCESSES \<equiv> 64"
abbreviation MAX_FDS_PER_PROC :: nat where "MAX_FDS_PER_PROC \<equiv> 32"
abbreviation NSIG :: nat where "NSIG \<equiv> 32"
abbreviation PROC_NAME_LEN :: nat where "PROC_NAME_LEN \<equiv> 32"
abbreviation SIGKILL :: nat where "SIGKILL \<equiv> 9"
abbreviation SIGPIPE :: nat where "SIGPIPE \<equiv> 13"
abbreviation SIGCHLD :: nat where "SIGCHLD \<equiv> 17"
abbreviation SIGCONT :: nat where "SIGCONT \<equiv> 18"
abbreviation SIGSTOP :: nat where "SIGSTOP \<equiv> 19"
abbreviation SIG_DFL :: u32 where "SIG_DFL \<equiv> 0"
abbreviation SIG_IGN :: u32 where "SIG_IGN \<equiv> 1"

abbreviation proc_at :: "procs \<Rightarrow> nat \<Rightarrow> process" where "proc_at t i \<equiv> process_table t ! i"

text \<open>\<open>proc->field = \<dots>\<close> on the process in slot \<open>i\<close>, and \<open>1 << (sig - 1)\<close>.\<close>

definition upd_proc :: "nat \<Rightarrow> (process \<Rightarrow> process) \<Rightarrow> procs \<Rightarrow> procs" where
  "upd_proc i f t = t\<lparr>process_table := (process_table t)[i := f (process_table t ! i)]\<rparr>"

definition sig_bit :: "nat \<Rightarrow> u32" where "sig_bit sig = push_bit (sig - 1) 1"

section \<open>Process table\<close>

definition zero_fd :: fd_entry where
  "zero_fd = \<lparr>fd_node = 0, fd_offset = 0, fd_flags = 0, fd_in_use = False, fd_pipe_id = 0\<rparr>"

definition zero_process :: process where
  "zero_process = \<lparr>pid = 0, ppid = 0, pgid = 0, pstate = PROC_UNUSED, pname = '''', start_time = 0,
     cpu_time = 0, priority = 0, kernel_stack = 0, elf_proc = 0, exit_code = 0, pending_signals = 0,
     blocked_signals = 0, signal_handlers = replicate NSIG 0, waiting_for_pid = 0,
     fd_table = replicate MAX_FDS_PER_PROC zero_fd\<rparr>"

definition init_process_fd_table :: "process \<Rightarrow> process" where
  "init_process_fd_table p = p\<lparr>fd_table := map (\<lambda>i. \<lparr>fd_node = 0, fd_offset = 0, fd_flags = 0,
     fd_in_use = i < 3, fd_pipe_id = -1\<rparr>) [0 ..< MAX_FDS_PER_PROC]\<rparr>"

definition init_process_signals :: "process \<Rightarrow> process" where
  "init_process_signals p = p\<lparr>pending_signals := 0, blocked_signals := 0,
     signal_handlers := replicate NSIG SIG_DFL\<rparr>"

definition process_init :: procs where
  "process_init = \<lparr>process_table = (replicate MAX_PROCESSES zero_process)
     [0 := init_process_signals (init_process_fd_table (zero_process\<lparr>pid := 0, ppid := 0, pgid := 0,
        pstate := PROC_RUNNING, pname := ''kernel'', start_time := 0, cpu_time := 0, priority := 0\<rparr>)),
      1 := init_process_signals (init_process_fd_table (zero_process\<lparr>pid := 1, ppid := 0, pgid := 1,
        pstate := PROC_RUNNING, pname := ''shell'', start_time := 0, cpu_time := 0, priority := 1\<rparr>))],
     next_pid = 2, current_pid = 1\<rparr>"

definition process_get :: "u32 \<Rightarrow> procs \<Rightarrow> nat option" where
  "process_get p t = find_idx (\<lambda>q. pstate q \<noteq> PROC_UNUSED \<and> pid q = p) (process_table t)"

definition process_count :: "procs \<Rightarrow> nat" where
  "process_count t = length (filter (\<lambda>q. pstate q \<noteq> PROC_UNUSED) (process_table t))"

text \<open>The process found, if any, and the new value of \<open>*index\<close>.\<close>

definition process_iterate :: "nat \<Rightarrow> procs \<Rightarrow> nat option \<times> nat" where
  "process_iterate index t =
     (case find_idx (\<lambda>q. pstate q \<noteq> PROC_UNUSED) (drop index (process_table t)) of
        Some k \<Rightarrow> (Some (index + k), index + k + 1)
      | None \<Rightarrow> (None, max index MAX_PROCESSES))"

definition process_create :: "string \<Rightarrow> u32 \<Rightarrow> u32 \<Rightarrow> procs \<Rightarrow> u32 \<times> procs" where
  "process_create name parent ticks t =
     (case find_idx (\<lambda>q. pstate q = PROC_UNUSED) (process_table t) of
        None \<Rightarrow> (0, t)
      | Some slot \<Rightarrow>
          let t1 = upd_proc slot (\<lambda>p. init_process_signals (init_process_fd_table (p\<lparr>pid := next_pid t,
                 ppid := parent, pgid := next_pid t, pstate := PROC_READY,
                 pname := take (PROC_NAME_LEN - 1) name, start_time := ticks, cpu_time := 0,
                 priority := 10, exit_code := 0, waiting_for_pid := 0\<rparr>)))
                 (t\<lparr>next_pid := next_pid t + 1\<rparr>)
          in (pid (proc_at t1 slot), t1))"

definition process_kill :: "u32 \<Rightarrow> procs \<Rightarrow> int \<times> procs" where
  "process_kill p t =
     (if p = 0 then (-1, t)
      else if p = 1 then (-2, t)
      else case process_get p t of
             None \<Rightarrow> (-3, t)
           | Some i \<Rightarrow> (0, upd_proc i (\<lambda>q. q\<lparr>pstate := PROC_UNUSED\<rparr>)
                           (upd_proc i (\<lambda>q. q\<lparr>pstate := PROC_ZOMBIE\<rparr>) t)))"

definition process_current :: "procs \<Rightarrow> nat option" where
  "process_current t = process_get (current_pid t) t"

definition process_set_current :: "u32 \<Rightarrow> procs \<Rightarrow> procs" where
  "process_set_current p t = t\<lparr>current_pid := p\<rparr>"

definition state_names :: "string list" where
  "state_names = [''unused'', ''running'', ''ready'', ''blocked'', ''zombie'', ''stopped'']"

definition process_state_name :: "u8 \<Rightarrow> string" where
  "process_state_name s = (if unat s < length state_names then state_names ! unat s else ''unknown'')"

section \<open>Fork, exec, wait, exit\<close>

definition process_fork :: "u32 \<Rightarrow> procs \<Rightarrow> int \<times> procs" where
  "process_fork ticks t =
     (case process_current t of
        None \<Rightarrow> (-1, t)
      | Some parent \<Rightarrow>
          (case process_create (pname (proc_at t parent)) (pid (proc_at t parent)) ticks t of
             (child_pid, t1) \<Rightarrow>
               if child_pid = 0 then (-11, t1)
               else case process_get child_pid t1 of
                      None \<Rightarrow> (-1, t1)
                    | Some child \<Rightarrow>
                        (sint child_pid, upd_proc child (\<lambda>c. c\<lparr>pgid := pgid (proc_at t1 parent),
                           fd_table := fd_table (proc_at t1 parent),
                           blocked_signals := blocked_signals (proc_at t1 parent),
                           signal_handlers := signal_handlers (proc_at t1 parent)\<rparr>) t1)))"

text \<open>The part of a path behind its last slash.\<close>

fun base_name :: "string \<Rightarrow> string \<Rightarrow> string" where
  "base_name name [] = name"
| "base_name name (c # cs) = base_name (if c = CHR ''/'' then cs else name) cs"

text \<open>
  \<open>process_exec\<close> up to the jump into the program; \<open>loaded\<close> is the address \<open>elf_load_from_file\<close>
  returned. The release of the old image and stack is outside the process table.
\<close>

definition process_exec :: "string \<Rightarrow> u32 \<Rightarrow> procs \<Rightarrow> int \<times> procs" where
  "process_exec path loaded t =
     (case process_current t of
        None \<Rightarrow> (-1, t)
      | Some i \<Rightarrow>
          if loaded = 0 then (-2, t)
          else (0, upd_proc i (\<lambda>p. p\<lparr>pname := take (PROC_NAME_LEN - 1) (base_name path path),
                 pending_signals := 0, signal_handlers := replicate NSIG SIG_DFL,
                 fd_table := map (\<lambda>k. let f = fd_table p ! k in
                    if 3 \<le> k \<and> fd_in_use f \<and> fd_flags f AND 0x80000000 \<noteq> 0
                    then f\<lparr>fd_in_use := False, fd_node := 0\<rparr> else f) [0 ..< MAX_FDS_PER_PROC]\<rparr>) t))"

text \<open>The result, the value stored through \<open>status\<close> if one is, and the table.\<close>

definition process_waitpid :: "int \<Rightarrow> procs \<Rightarrow> (int \<times> int option) \<times> procs" where
  "process_waitpid p t =
     (case process_current t of
        None \<Rightarrow> ((-1, None), t)
      | Some parent \<Rightarrow>
          (case find_idx (\<lambda>c. pstate c \<noteq> PROC_UNUSED \<and> ppid c = pid (proc_at t parent) \<and>
                  \<not> (0 < p \<and> pid c \<noteq> of_int p) \<and> pstate c = PROC_ZOMBIE) (process_table t) of
             None \<Rightarrow> ((-10, None), t)
           | Some i \<Rightarrow> ((sint (pid (proc_at t i)), Some (exit_code (proc_at t i))),
                        upd_proc i (\<lambda>c. c\<lparr>pstate := PROC_UNUSED\<rparr>) t)))"

definition process_reparent_children :: "u32 \<Rightarrow> procs \<Rightarrow> procs" where
  "process_reparent_children parent_pid t = t\<lparr>process_table := map (\<lambda>q.
     if pstate q \<noteq> PROC_UNUSED \<and> ppid q = parent_pid then q\<lparr>ppid := 1\<rparr> else q) (process_table t)\<rparr>"

definition process_signal :: "u32 \<Rightarrow> int \<Rightarrow> procs \<Rightarrow> int \<times> procs" where
  "process_signal p sig t =
     (if sig < 0 \<or> int NSIG \<le> sig then (-22, t)
      else if sig = 0 then (if process_get p t \<noteq> None then 0 else -3, t)
      else case process_get p t of
             None \<Rightarrow> (-3, t)
           | Some i \<Rightarrow> (0, upd_proc i (\<lambda>q. let q1 = q\<lparr>pending_signals := pending_signals q OR sig_bit (nat sig)\<rparr>
               in if sig = int SIGCONT \<and> pstate q1 = PROC_STOPPED then q1\<lparr>pstate := PROC_READY\<rparr> else q1) t))"

definition process_exit :: "int \<Rightarrow> procs \<Rightarrow> procs" where
  "process_exit status t =
     (case process_current t of
        None \<Rightarrow> t
      | Some i \<Rightarrow>
          if pid (proc_at t i) \<le> 1 then t
          else let t1 = upd_proc i (\<lambda>p. p\<lparr>exit_code := status\<rparr>) t;
                   t2 = process_reparent_children (pid (proc_at t1 i)) t1;
                   t3 = snd (process_signal (ppid (proc_at t2 i)) (int SIGCHLD) t2)
               in upd_proc i (\<lambda>p. p\<lparr>pstate := PROC_ZOMBIE\<rparr>) t3)"

definition pid_or_current :: "u32 \<Rightarrow> procs \<Rightarrow> nat option" where
  "pid_or_current p t = (if p = 0 then process_current t else process_get p t)"

definition process_setpgid :: "u32 \<Rightarrow> u32 \<Rightarrow> procs \<Rightarrow> int \<times> procs" where
  "process_setpgid p pg t =
     (case pid_or_current p t of
        None \<Rightarrow> (-3, t)
      | Some i \<Rightarrow> (0, upd_proc i (\<lambda>q. q\<lparr>pgid := (if pg = 0 then pid q else pg)\<rparr>) t))"

definition process_getpgid :: "u32 \<Rightarrow> procs \<Rightarrow> int" where
  "process_getpgid p t = (case pid_or_current p t of None \<Rightarrow> -3 | Some i \<Rightarrow> sint (pgid (proc_at t i)))"

section \<open>Delivery of signals\<close>

text \<open>The loop of \<open>process_check_signals\<close> over the signal numbers, for the process in slot \<open>i\<close>.\<close>

fun check_signals_loop ::
  "(u32 \<Rightarrow> nat \<Rightarrow> procs \<Rightarrow> procs) \<Rightarrow> nat \<Rightarrow> u32 \<Rightarrow> nat list \<Rightarrow> procs \<Rightarrow> procs" where
  "check_signals_loop run i pending [] t = t"
| "check_signals_loop run i pending (sig # sigs) t =
     (if pending AND sig_bit sig = 0 then check_signals_loop run i pending sigs t
      else let t1 = upd_proc i (\<lambda>p. p\<lparr>pending_signals := pending_signals p AND NOT (sig_bit sig)\<rparr>) t;
               handler = signal_handlers (proc_at t1 i) ! sig
      in if sig = SIGKILL then process_exit (- int SIGKILL) t1
         else if sig = SIGSTOP then upd_proc i (\<lambda>p. p\<lparr>pstate := PROC_STOPPED\<rparr>) t1
         else if handler = SIG_DFL then
           if sig \<noteq> SIGCHLD \<and> sig \<noteq> 23 \<and> sig \<noteq> 28 then
             if sig = SIGCONT then
               check_signals_loop run i pending sigs
                 (if pstate (proc_at t1 i) = PROC_STOPPED
                  then upd_proc i (\<lambda>p. p\<lparr>pstate := PROC_READY\<rparr>) t1 else t1)
             else if sig = 20 \<or> sig = 21 \<or> sig = 22 then
               check_signals_loop run i pending sigs (upd_proc i (\<lambda>p. p\<lparr>pstate := PROC_STOPPED\<rparr>) t1)
             else process_exit (- int sig) t1
           else check_signals_loop run i pending sigs t1
         else if handler \<noteq> SIG_IGN then check_signals_loop run i pending sigs (run handler sig t1)
         else check_signals_loop run i pending sigs t1)"

definition process_check_signals :: "(u32 \<Rightarrow> nat \<Rightarrow> procs \<Rightarrow> procs) \<Rightarrow> procs \<Rightarrow> procs" where
  "process_check_signals run t =
     (case process_current t of
        None \<Rightarrow> t
      | Some i \<Rightarrow> let pending = pending_signals (proc_at t i) AND NOT (blocked_signals (proc_at t i))
                  in if pending = 0 then t else check_signals_loop run i pending [1 ..< NSIG] t)"

datatype sig_action = ACTION_TERM | ACTION_IGN | ACTION_CORE | ACTION_STOP | ACTION_CONT

definition default_actions :: "sig_action list" where
  "default_actions =
     [ACTION_IGN, ACTION_TERM, ACTION_TERM, ACTION_CORE, ACTION_CORE, ACTION_CORE, ACTION_CORE,
      ACTION_CORE, ACTION_CORE, ACTION_TERM, ACTION_TERM, ACTION_CORE, ACTION_TERM, ACTION_TERM,
      ACTION_TERM, ACTION_TERM, ACTION_TERM, ACTION_IGN, ACTION_CONT, ACTION_STOP, ACTION_STOP,
      ACTION_STOP, ACTION_STOP, ACTION_IGN, ACTION_CORE, ACTION_CORE, ACTION_TERM, ACTION_TERM,
      ACTION_IGN, ACTION_TERM, ACTION_TERM, ACTION_CORE]"

definition signal_init_process :: "nat \<Rightarrow> procs \<Rightarrow> procs" where
  "signal_init_process i = upd_proc i (\<lambda>p. p\<lparr>pending_signals := 0, blocked_signals := 0,
     signal_handlers := replicate NSIG SIG_DFL\<rparr>)"

definition signal_send :: "u32 \<Rightarrow> int \<Rightarrow> procs \<Rightarrow> int \<times> procs" where
  "signal_send p sig t =
     (if sig < 0 \<or> int NSIG \<le> sig then (-22, t)
      else if sig = 0 then (if process_get p t \<noteq> None then 0 else -3, t)
      else case process_get p t of
             None \<Rightarrow> (-3, t)
           | Some i \<Rightarrow>
               let t1 = upd_proc i (\<lambda>q. q\<lparr>pending_signals := pending_signals q OR sig_bit (nat sig)\<rparr>) t
               in (0, if sig = int SIGCONT \<and> pstate (proc_at t1 i) = PROC_STOPPED
                      then upd_proc i (\<lambda>q. q\<lparr>pstate := PROC_READY\<rparr>) t1 else t1))"

definition signal_pending :: "nat \<Rightarrow> procs \<Rightarrow> u32" where
  "signal_pending i t = pending_signals (proc_at t i) AND NOT (blocked_signals (proc_at t i))"

fun handle_pending_loop ::
  "(u32 \<Rightarrow> nat \<Rightarrow> procs \<Rightarrow> procs) \<Rightarrow> nat \<Rightarrow> u32 \<Rightarrow> nat list \<Rightarrow> procs \<Rightarrow> procs" where
  "handle_pending_loop run i pending [] t = t"
| "handle_pending_loop run i pending (sig # sigs) t =
     (if pending AND sig_bit sig = 0 then handle_pending_loop run i pending sigs t
      else let t1 = upd_proc i (\<lambda>p. p\<lparr>pending_signals := pending_signals p AND NOT (sig_bit sig)\<rparr>) t;
               handler = signal_handlers (proc_at t1 i) ! sig
      in if sig = SIGKILL then process_exit (- int sig) t1
         else if sig = SIGSTOP then upd_proc i (\<lambda>p. p\<lparr>pstate := PROC_STOPPED\<rparr>) t1
         else if handler = SIG_IGN then handle_pending_loop run i pending sigs t1
         else if handler = SIG_DFL then
           (case default_actions ! sig of
              ACTION_TERM \<Rightarrow> process_exit (- int sig) t1
            | ACTION_CORE \<Rightarrow> process_exit (- int sig) t1
            | ACTION_STOP \<Rightarrow> upd_proc i (\<lambda>p. p\<lparr>pstate := PROC_STOPPED\<rparr>) t1
            | ACTION_CONT \<Rightarrow> handle_pending_loop run i pending sigs
                 (if pstate (proc_at t1 i) = PROC_STOPPED
                  then upd_proc i (\<lambda>p. p\<lparr>pstate := PROC_READY\<rparr>) t1 else t1)
            | ACTION_IGN \<Rightarrow> handle_pending_loop run i pending sigs t1)
         else handle_pending_loop run i pending sigs (run handler sig t1))"

definition signal_handle_pending :: "(u32 \<Rightarrow> nat \<Rightarrow> procs \<Rightarrow> procs) \<Rightarrow> nat \<Rightarrow> procs \<Rightarrow> procs" where
  "signal_handle_pending run i t =
     (let pending = pending_signals (proc_at t i) AND NOT (blocked_signals (proc_at t i))
      in if pending = 0 then t else handle_pending_loop run i pending [1 ..< NSIG] t)"

section \<open>Handlers and masks\<close>

text \<open>The result, the old handler if it is asked for and there is one, and the table.\<close>

definition signal_set_handler :: "int \<Rightarrow> u32 \<Rightarrow> procs \<Rightarrow> (int \<times> u32 option) \<times> procs" where
  "signal_set_handler sig handler t =
     (if sig < 1 \<or> int NSIG \<le> sig then ((-22, None), t)
      else if sig = int SIGKILL \<or> sig = int SIGSTOP then ((-22, None), t)
      else case process_current t of
             None \<Rightarrow> ((-1, None), t)
           | Some i \<Rightarrow> ((0, Some (signal_handlers (proc_at t i) ! nat sig)),
               upd_proc i (\<lambda>p. p\<lparr>signal_handlers := (signal_handlers p)[nat sig := handler]\<rparr>) t))"

definition unblockable :: u32 where "unblockable = sig_bit SIGKILL OR sig_bit SIGSTOP"

text \<open>The three mask operations share their frame: old mask out, new mask from the set, if any.\<close>

definition signal_mask_op :: "(u32 \<Rightarrow> u32 \<Rightarrow> u32) \<Rightarrow> u32 option \<Rightarrow> procs \<Rightarrow> (int \<times> u32 option) \<times> procs" where
  "signal_mask_op f s t =
     (case process_current t of
        None \<Rightarrow> ((-1, None), t)
      | Some i \<Rightarrow> ((0, Some (blocked_signals (proc_at t i))),
          (case s of None \<Rightarrow> t
           | Some m \<Rightarrow> upd_proc i (\<lambda>p. p\<lparr>blocked_signals := f (blocked_signals p) m\<rparr>) t)))"

definition signal_block :: "u32 option \<Rightarrow> procs \<Rightarrow> (int \<times> u32 option) \<times> procs" where
  "signal_block = signal_mask_op (\<lambda>old m. old OR (m AND NOT unblockable))"

definition signal_unblock :: "u32 option \<Rightarrow> procs \<Rightarrow> (int \<times> u32 option) \<times> procs" where
  "signal_unblock = signal_mask_op (\<lambda>old m. old AND NOT m)"

definition signal_setmask :: "u32 option \<Rightarrow> procs \<Rightarrow> (int \<times> u32 option) \<times> procs" where
  "signal_setmask = signal_mask_op (\<lambda>old m. m AND NOT unblockable)"

end
