(* ===== verification/Process_Props.thy ===== *)
theory Process_Props
  imports Process
begin

text \<open>
  Correctness of the process table and of signal delivery: the table invariant (unique pids, kernel
  and shell always alive, \<open>SIGKILL\<close> and \<open>SIGSTOP\<close> never blocked or handled) under every operation,
  fork, the exit/wait protocol, delivery of \<open>SIGKILL\<close>, and the agreement of the two delivery loops.
\<close>

section \<open>Invariant\<close>

abbreviation used_at :: "procs \<Rightarrow> nat \<Rightarrow> bool" where
  "used_at t i \<equiv> pstate (proc_at t i) \<noteq> PROC_UNUSED"

definition proc_ok :: "process \<Rightarrow> bool" where
  "proc_ok p \<longleftrightarrow> length (signal_handlers p) = NSIG \<and> length (fd_table p) = MAX_FDS_PER_PROC \<and>
     blocked_signals p AND unblockable = 0 \<and> signal_handlers p ! SIGKILL = SIG_DFL \<and>
     signal_handlers p ! SIGSTOP = SIG_DFL"

definition procs_wf :: "procs \<Rightarrow> bool" where
  "procs_wf t \<longleftrightarrow> length (process_table t) = MAX_PROCESSES \<and> 2 \<le> next_pid t \<and>
     (\<forall>i < MAX_PROCESSES. proc_ok (proc_at t i) \<and> (used_at t i \<longrightarrow> pid (proc_at t i) < next_pid t)) \<and>
     (\<forall>i < MAX_PROCESSES. \<forall>j < MAX_PROCESSES.
        used_at t i \<longrightarrow> used_at t j \<longrightarrow> pid (proc_at t i) = pid (proc_at t j) \<longrightarrow> i = j) \<and>
     (\<forall>i < 2. pid (proc_at t i) = of_nat i \<and> used_at t i \<and> pstate (proc_at t i) \<noteq> PROC_ZOMBIE)"

lemma procs_wf_len [simp]: "procs_wf t \<Longrightarrow> length (process_table t) = MAX_PROCESSES"
  by (simp add: procs_wf_def)

lemma procs_wf_ok: "procs_wf t \<Longrightarrow> i < MAX_PROCESSES \<Longrightarrow> proc_ok (proc_at t i)"
  by (simp add: procs_wf_def)

lemma procs_wf_unique:
  assumes "procs_wf t" and "i < MAX_PROCESSES" and "j < MAX_PROCESSES" and "used_at t i" and "used_at t j"
    and "pid (proc_at t i) = pid (proc_at t j)"
  shows "i = j"
  using assms unfolding procs_wf_def by blast

lemma procs_wfI:
  assumes "length (process_table t) = MAX_PROCESSES" and "2 \<le> next_pid t"
    and "\<And>i. i < MAX_PROCESSES \<Longrightarrow> proc_ok (proc_at t i)"
    and "\<And>i. i < MAX_PROCESSES \<Longrightarrow> used_at t i \<Longrightarrow> pid (proc_at t i) < next_pid t"
    and "\<And>i j. i < MAX_PROCESSES \<Longrightarrow> j < MAX_PROCESSES \<Longrightarrow> used_at t i \<Longrightarrow> used_at t j \<Longrightarrow>
      pid (proc_at t i) = pid (proc_at t j) \<Longrightarrow> i = j"
    and "\<And>i. i < 2 \<Longrightarrow> pid (proc_at t i) = of_nat i \<and> used_at t i \<and> pstate (proc_at t i) \<noteq> PROC_ZOMBIE"
  shows "procs_wf t"
  using assms unfolding procs_wf_def by blast

lemma proc_at_upd [simp]:
  "i < length (process_table t) \<Longrightarrow> proc_at (upd_proc i f t) j = (if j = i then f (proc_at t i) else proc_at t j)"
  by (simp add: upd_proc_def nth_list_update)

lemma upd_proc_fields [simp]:
  "next_pid (upd_proc i f t) = next_pid t" "current_pid (upd_proc i f t) = current_pid t"
  "length (process_table (upd_proc i f t)) = length (process_table t)"
  by (simp_all add: upd_proc_def)

text \<open>Changes to one process that keep the invariant.\<close>

definition keeps :: "nat \<Rightarrow> (process \<Rightarrow> process) \<Rightarrow> procs \<Rightarrow> bool" where
  "keeps i f t \<longleftrightarrow> (let p = proc_at t i; q = f p in
     pid q = pid p \<and> (proc_ok p \<longrightarrow> proc_ok q) \<and> (pstate p = PROC_UNUSED \<longrightarrow> pstate q = PROC_UNUSED) \<and>
     (i < 2 \<longrightarrow> pstate p \<notin> {PROC_UNUSED, PROC_ZOMBIE} \<longrightarrow> pstate q \<notin> {PROC_UNUSED, PROC_ZOMBIE}))"

lemma upd_proc_wf [zos_inv]:
  assumes "procs_wf t" and "i < MAX_PROCESSES" and "keeps i f t"
  shows "procs_wf (upd_proc i f t)"
  using assms unfolding procs_wf_def keeps_def Let_def by (simp add: nth_list_update) (metis insertCI)

lemma process_get_Some:
  assumes "procs_wf t"
  shows "process_get p t = Some i \<longleftrightarrow> i < MAX_PROCESSES \<and> used_at t i \<and> pid (proc_at t i) = p"
proof
  assume "process_get p t = Some i"
  then show "i < MAX_PROCESSES \<and> used_at t i \<and> pid (proc_at t i) = p"
    using assms by (auto simp: process_get_def dest!: find_idx_SomeD)
next
  assume i: "i < MAX_PROCESSES \<and> used_at t i \<and> pid (proc_at t i) = p"
  then show "process_get p t = Some i"
    unfolding process_get_def
    using assms by (intro find_idx_unique) (auto simp: procs_wf_def)
qed

lemma process_get_None:
  "procs_wf t \<Longrightarrow> process_get p t = None \<longleftrightarrow> (\<forall>i < MAX_PROCESSES. used_at t i \<longrightarrow> pid (proc_at t i) \<noteq> p)"
  using process_get_Some [of t p] by (metis not_None_eq)

lemmas proc_defs = process_current_def pid_or_current_def Let_def

text \<open>Slots 0 and 1 are the processes 0 and 1.\<close>

lemma word_le_1: "(p :: u32) \<le> 1 \<longleftrightarrow> p = 0 \<or> p = 1"
  unfolding word_le_nat_alt word_unat_eq_iff by (simp add: le_Suc_eq)

lemma slot_pid:
  assumes "procs_wf t" and "i < MAX_PROCESSES" and "used_at t i"
  shows "i < 2 \<longleftrightarrow> pid (proc_at t i) \<le> 1"
proof
  assume "i < 2"
  then consider "i = 0" | "i = 1" by linarith
  then show "pid (proc_at t i) \<le> 1" using assms(1) by cases (simp_all add: procs_wf_def)
next
  assume "pid (proc_at t i) \<le> 1"
  then have "unat (pid (proc_at t i)) \<le> 1" by (simp add: word_le_nat_alt)
  define j where "j = unat (pid (proc_at t i))"
  then have j: "j < 2" "pid (proc_at t i) = of_nat j"
    using \<open>unat (pid (proc_at t i)) \<le> 1\<close> by simp_all
  then have "used_at t j" "pid (proc_at t j) = pid (proc_at t i)" using assms(1) by (simp_all add: procs_wf_def)
  then have "i = j" using procs_wf_unique [OF assms(1,2), of j] assms(3) j(1) by simp
  then show "i < 2" using j(1) by simp
qed

section \<open>Every operation keeps the invariant\<close>

lemma mask_keeps:
  fixes old m u :: u32
  shows "old AND u = 0 \<Longrightarrow> (old OR (m AND NOT u)) AND u = 0"
    and "old AND u = 0 \<Longrightarrow> (old AND NOT m) AND u = 0" and "(m AND NOT u) AND u = 0"
  by (auto simp: bit_eq_iff bit_simps)

lemma init_proc_ok: "proc_ok (init_process_signals (init_process_fd_table p))"
  by (simp add: proc_ok_def init_process_signals_def init_process_fd_table_def)

lemma zero_proc_ok: "proc_ok zero_process"
  by (simp add: proc_ok_def zero_process_def)

lemma init_proc_fields [simp]:
  "pid (init_process_signals (init_process_fd_table p)) = pid p"
  "ppid (init_process_signals (init_process_fd_table p)) = ppid p"
  "pstate (init_process_signals (init_process_fd_table p)) = pstate p"
  by (simp_all add: init_process_signals_def init_process_fd_table_def)

lemma process_init_wf [zos_inv]: "procs_wf process_init"
proof -
  have "proc_ok (proc_at process_init i)" if "i < MAX_PROCESSES" for i
    using that init_proc_ok zero_proc_ok by (simp add: process_init_def nth_list_update)
  moreover have "used_at process_init i \<longleftrightarrow> i < 2" if "i < MAX_PROCESSES" for i
    using that by (auto simp: process_init_def nth_list_update zero_process_def)
  moreover have "pid (proc_at process_init i) = of_nat i \<and> pstate (proc_at process_init i) = PROC_RUNNING"
    if "i < 2" for i
    using that by (auto simp: process_init_def nth_list_update less_2_cases_iff)
  ultimately show ?thesis
    by (auto simp: procs_wf_def less_2_cases_iff) (simp_all add: process_init_def)
qed


lemma process_create_wf [zos_inv]:
  assumes wf: "procs_wf t" and n: "next_pid t \<noteq> 0xFFFFFFFF"
  shows "procs_wf (snd (process_create name parent ticks t))"
proof (cases "find_idx (\<lambda>q. pstate q = PROC_UNUSED) (process_table t)")
  case None
  then show ?thesis unfolding process_create_def None using wf by simp
next
  case (Some s)
  then have s: "s < MAX_PROCESSES" "\<not> used_at t s"
    using find_idx_SomeD [OF Some] wf by simp_all
  have "\<not> s < 2" using wf s(2) unfolding procs_wf_def by blast
  have up: "next_pid t < next_pid t + 1" by (rule word_less_plus_1 [OF n])
  have lt: "pid (proc_at t i) < next_pid t + 1" if "i < MAX_PROCESSES" "used_at t i" for i
    using wf that up unfolding procs_wf_def by (meson less_trans)
  let ?f = "\<lambda>p. init_process_signals (init_process_fd_table (p\<lparr>pid := next_pid t, ppid := parent,
     pgid := next_pid t, pstate := PROC_READY, pname := take (PROC_NAME_LEN - 1) name,
     start_time := ticks, cpu_time := 0, priority := 10, exit_code := 0, waiting_for_pid := 0\<rparr>))"
  define u where "u = upd_proc s ?f (t\<lparr>next_pid := next_pid t + 1\<rparr>)"
  have at: "proc_at u i = (if i = s then ?f (proc_at t s) else proc_at t i)" if "i < MAX_PROCESSES" for i
    using that s(1) wf by (simp add: u_def upd_proc_def nth_list_update)
  have new: "proc_ok (proc_at u s)" "pid (proc_at u s) = next_pid t"
    using at [OF s(1)] init_proc_ok by simp_all
  have old: "proc_at u i = proc_at t i" if "i < MAX_PROCESSES" "i \<noteq> s" for i
    using at [OF that(1)] that(2) by simp
  have np: "next_pid u = next_pid t + 1" by (simp add: u_def)
  have fresh: "pid (proc_at t k) \<noteq> next_pid t" if "k < MAX_PROCESSES" "used_at t k" for k
    using wf that unfolding procs_wf_def by (metis less_irrefl)
  have "procs_wf u"
  proof (rule procs_wfI)
    show "length (process_table u) = MAX_PROCESSES" using wf by (simp add: u_def)
    show "2 \<le> next_pid u" using wf up np unfolding procs_wf_def by (metis le_less_trans less_imp_le)
  next
    fix i :: nat assume i: "i < MAX_PROCESSES"
    show "proc_ok (proc_at u i)" using new(1) old [OF i] procs_wf_ok [OF wf i] by metis
    show "pid (proc_at u i) < next_pid u" if "used_at u i"
      using new(2) old [OF i] lt [OF i] up np that by metis
    show "i = j" if "j < MAX_PROCESSES" "used_at u i" "used_at u j" "pid (proc_at u i) = pid (proc_at u j)" for j
      using that i new(2) old fresh procs_wf_unique [OF wf i that(1)] by metis
  next
    fix i :: nat assume "i < 2"
    moreover have "pid (proc_at t i) = of_nat i \<and> used_at t i \<and> pstate (proc_at t i) \<noteq> PROC_ZOMBIE"
      using wf \<open>i < 2\<close> unfolding procs_wf_def by blast
    ultimately show "pid (proc_at u i) = of_nat i \<and> used_at u i \<and> pstate (proc_at u i) \<noteq> PROC_ZOMBIE"
      using old [of i] \<open>\<not> s < 2\<close> by auto
  qed
  then show ?thesis unfolding u_def by (simp add: process_create_def Some Let_def)
qed

lemma get_bounds:
  assumes "procs_wf t" and "process_get p t = Some i"
  shows "i < MAX_PROCESSES" and "used_at t i" and "pid (proc_at t i) = p"
  using assms process_get_Some by blast+

lemma process_kill_wf [zos_inv]: "procs_wf t \<Longrightarrow> procs_wf (snd (process_kill p t))"
proof (cases "p = 0 \<or> p = 1 \<or> process_get p t = None")
  case True
  moreover assume "procs_wf t"
  ultimately show ?thesis by (auto simp: process_kill_def)
next
  case False
  assume wf: "procs_wf t"
  obtain i where i: "process_get p t = Some i" using False by blast
  note g = get_bounds [OF wf i]
  have "\<not> p \<le> 1" using False by (simp add: word_le_1)
  then have "\<not> i < 2" using slot_pid [OF wf g(1,2)] g(3) by simp
  then have z: "procs_wf (upd_proc i (\<lambda>q. q\<lparr>pstate := PROC_ZOMBIE\<rparr>) t)"
    using g by (intro upd_proc_wf [OF wf]) (simp_all add: keeps_def proc_ok_def)
  then have "procs_wf (upd_proc i (\<lambda>q. q\<lparr>pstate := PROC_UNUSED\<rparr>) (upd_proc i (\<lambda>q. q\<lparr>pstate := PROC_ZOMBIE\<rparr>) t))"
    using \<open>\<not> i < 2\<close> g by (intro upd_proc_wf [OF z]) (simp_all add: keeps_def proc_ok_def)
  then show ?thesis using False i by (simp add: process_kill_def)
qed

lemma reparent_at [simp]:
  "i < length (process_table t) \<Longrightarrow> proc_at (process_reparent_children q t) i =
     (if used_at t i \<and> ppid (proc_at t i) = q then (proc_at t i)\<lparr>ppid := 1\<rparr> else proc_at t i)"
  by (simp add: process_reparent_children_def)

lemma reparent_fields [simp]:
  "length (process_table (process_reparent_children q t)) = length (process_table t)"
  "next_pid (process_reparent_children q t) = next_pid t"
  "current_pid (process_reparent_children q t) = current_pid t"
  by (simp_all add: process_reparent_children_def)

lemma process_reparent_wf [zos_inv]: "procs_wf t \<Longrightarrow> procs_wf (process_reparent_children q t)"
proof -
  assume wf: "procs_wf t"
  have "proc_ok (proc_at (process_reparent_children q t) i) = proc_ok (proc_at t i) \<and>
      pid (proc_at (process_reparent_children q t) i) = pid (proc_at t i) \<and>
      pstate (proc_at (process_reparent_children q t) i) = pstate (proc_at t i)" if "i < MAX_PROCESSES" for i
    using that wf by (simp add: proc_ok_def)
  then show ?thesis using wf unfolding procs_wf_def by simp
qed

lemma upd_current_wf:
  assumes "procs_wf t" and "process_get p t = Some i" and "keeps i f t"
  shows "procs_wf (upd_proc i f t)"
  using upd_proc_wf [OF assms(1) _ assms(3)] get_bounds [OF assms(1,2)] by blast

lemma post_signal_keeps:
  "keeps i (\<lambda>q. let q1 = q\<lparr>pending_signals := pending_signals q OR b\<rparr>
     in if c \<and> pstate q1 = PROC_STOPPED then q1\<lparr>pstate := PROC_READY\<rparr> else q1) t"
  by (simp add: keeps_def proc_ok_def Let_def)

lemma process_signal_wf [zos_inv]: "procs_wf t \<Longrightarrow> procs_wf (snd (process_signal p sig t))"
  unfolding process_signal_def
  using upd_current_wf [OF _ _ post_signal_keeps] by (auto split: option.splits)


lemma current_bounds:
  assumes "procs_wf t" and "process_current t = Some i"
  shows "i < MAX_PROCESSES" and "used_at t i" and "pid (proc_at t i) = current_pid t"
  using get_bounds [OF assms(1)] assms(2) by (auto simp: process_current_def)

text \<open>Updates of one slot that touch neither identity nor liveness.\<close>

lemma upd_mild_wf:
  assumes "procs_wf t" and "i < MAX_PROCESSES" and "pid (f (proc_at t i)) = pid (proc_at t i)"
    and "pstate (f (proc_at t i)) = pstate (proc_at t i)" and "proc_ok (f (proc_at t i))"
  shows "procs_wf (upd_proc i f t)"
  using assms by (intro upd_proc_wf) (simp_all add: keeps_def Let_def)

text \<open>What posting a signal leaves alone in every process, and what it does to its target.\<close>

lemma process_signal_frame:
  assumes "i < length (process_table t)"
  shows "pid (proc_at (snd (process_signal q sig t)) i) = pid (proc_at t i)"
    and "ppid (proc_at (snd (process_signal q sig t)) i) = ppid (proc_at t i)"
    and "exit_code (proc_at (snd (process_signal q sig t)) i) = exit_code (proc_at t i)"
    and "used_at (snd (process_signal q sig t)) i = used_at t i"
    and "(pstate (proc_at (snd (process_signal q sig t)) i) = PROC_ZOMBIE) = (pstate (proc_at t i) = PROC_ZOMBIE)"
proof -
  have "k < length (process_table t)" if "process_get q t = Some k" for k
    using that find_idx_SomeD unfolding process_get_def by fastforce
  then show "pid (proc_at (snd (process_signal q sig t)) i) = pid (proc_at t i)"
    "ppid (proc_at (snd (process_signal q sig t)) i) = ppid (proc_at t i)"
    "exit_code (proc_at (snd (process_signal q sig t)) i) = exit_code (proc_at t i)"
    "used_at (snd (process_signal q sig t)) i = used_at t i"
    "(pstate (proc_at (snd (process_signal q sig t)) i) = PROC_ZOMBIE) = (pstate (proc_at t i) = PROC_ZOMBIE)"
    by (simp_all add: process_signal_def Let_def split: option.split)
qed

lemma process_signal_length [simp]:
  "length (process_table (snd (process_signal q sig t))) = length (process_table t)"
  "current_pid (snd (process_signal q sig t)) = current_pid t"
  "next_pid (snd (process_signal q sig t)) = next_pid t"
  by (simp_all add: process_signal_def Let_def split: option.split)

lemma process_fork_wf [zos_inv]:
  assumes wf: "procs_wf t" and n: "next_pid t \<noteq> 0xFFFFFFFF"
  shows "procs_wf (snd (process_fork ticks t))"
proof (cases "process_current t")
  case None
  then show ?thesis using wf by (simp add: process_fork_def)
next
  case (Some p)
  obtain c t1 where c: "process_create (pname (proc_at t p)) (pid (proc_at t p)) ticks t = (c, t1)" by fastforce
  have wf1: "procs_wf t1" using process_create_wf [OF wf n] c by (metis snd_conv)
  have p: "p < MAX_PROCESSES" by (rule current_bounds(1) [OF wf Some])
  have po: "proc_ok (proc_at t1 p)" by (rule procs_wf_ok [OF wf1 p])
  have "procs_wf (upd_proc k (\<lambda>c. c\<lparr>pgid := pgid (proc_at t1 p), fd_table := fd_table (proc_at t1 p),
      blocked_signals := blocked_signals (proc_at t1 p), signal_handlers := signal_handlers (proc_at t1 p)\<rparr>) t1)"
    if "process_get c t1 = Some k" for k
    using get_bounds(1) [OF wf1 that] po by (intro upd_mild_wf [OF wf1]) (simp_all add: proc_ok_def)
  then show ?thesis using Some c wf1 by (auto simp: process_fork_def split: option.splits)
qed

lemma process_exec_wf [zos_inv]: "procs_wf t \<Longrightarrow> procs_wf (snd (process_exec path loaded t))"
proof -
  assume wf: "procs_wf t"
  show ?thesis
  proof (cases "process_current t")
    case (Some i)
    note i = current_bounds(1) [OF wf Some]
    show ?thesis
      unfolding process_exec_def Some using wf i procs_wf_ok [OF wf i]
      by (auto intro!: upd_mild_wf simp: proc_ok_def)
  qed (use wf in \<open>simp add: process_exec_def\<close>)
qed

lemma process_waitpid_wf [zos_inv]: "procs_wf t \<Longrightarrow> procs_wf (snd (process_waitpid p t))"
proof -
  assume wf: "procs_wf t"
  have "procs_wf (upd_proc i (\<lambda>c. c\<lparr>pstate := PROC_UNUSED\<rparr>) t)"
    if "i < MAX_PROCESSES" "pstate (proc_at t i) = PROC_ZOMBIE" for i
    using that by (intro upd_proc_wf [OF wf]) (simp_all add: keeps_def proc_ok_def)
  then show ?thesis
    using wf by (auto simp: process_waitpid_def split: option.splits dest!: find_idx_SomeD)
qed

lemma process_exit_wf [zos_inv]: "procs_wf t \<Longrightarrow> procs_wf (process_exit status t)"
proof -
  assume wf: "procs_wf t"
  show ?thesis
  proof (cases "process_current t")
    case (Some i)
    note b = current_bounds [OF wf Some]
    show ?thesis
    proof (cases "pid (proc_at t i) \<le> 1")
      case False
      then have "\<not> i < 2" using slot_pid [OF wf b(1,2)] by simp
      let ?t1 = "upd_proc i (\<lambda>p. p\<lparr>exit_code := status\<rparr>) t"
      have "procs_wf ?t1" using b(1) procs_wf_ok [OF wf b(1)] by (intro upd_mild_wf [OF wf]) (simp_all add: proc_ok_def)
      then have "procs_wf (snd (process_signal q (int SIGCHLD) (process_reparent_children r ?t1)))" for q r
        by (intro process_signal_wf process_reparent_wf)
      then have "procs_wf (upd_proc i (\<lambda>p. p\<lparr>pstate := PROC_ZOMBIE\<rparr>)
          (snd (process_signal q (int SIGCHLD) (process_reparent_children r ?t1))))"
        if "used_at (snd (process_signal q (int SIGCHLD) (process_reparent_children r ?t1))) i" for q r
        using b(1) \<open>\<not> i < 2\<close> that by (intro upd_proc_wf) (simp_all add: keeps_def proc_ok_def)
      moreover have "used_at (snd (process_signal q (int SIGCHLD) (process_reparent_children r ?t1))) i" for q r
        using b wf by (simp add: process_signal_frame(4))
      ultimately show ?thesis unfolding process_exit_def Some Let_def using False wf by simp
    qed (use wf Some in \<open>simp add: process_exit_def\<close>)
  qed (use wf in \<open>simp add: process_exit_def\<close>)
qed


lemma process_setpgid_wf [zos_inv]: "procs_wf t \<Longrightarrow> procs_wf (snd (process_setpgid p g t))"
proof -
  assume wf: "procs_wf t"
  have "procs_wf (upd_proc i (\<lambda>q. q\<lparr>pgid := (if g = 0 then pid q else g)\<rparr>) t)" if "pid_or_current p t = Some i" for i
    using that get_bounds(1) [OF wf] current_bounds(1) [OF wf] procs_wf_ok [OF wf]
    by (intro upd_mild_wf [OF wf]) (auto simp: pid_or_current_def proc_ok_def split: if_splits)
  then show ?thesis using wf by (simp add: process_setpgid_def split: option.split)
qed

lemma stop_wf: "procs_wf t \<Longrightarrow> i < MAX_PROCESSES \<Longrightarrow> used_at t i \<Longrightarrow> s \<in> {PROC_STOPPED, PROC_READY} \<Longrightarrow>
    procs_wf (upd_proc i (\<lambda>p. p\<lparr>pstate := s\<rparr>) t)"
  by (intro upd_proc_wf) (auto simp: keeps_def proc_ok_def)

lemma clear_pending_wf: "procs_wf t \<Longrightarrow> i < MAX_PROCESSES \<Longrightarrow>
    procs_wf (upd_proc i (\<lambda>p. p\<lparr>pending_signals := pending_signals p AND m\<rparr>) t)"
  using procs_wf_ok [of t i] by (intro upd_mild_wf) (simp_all add: proc_ok_def)

text \<open>
  A handler is program code, called in the middle of the delivery. What it can do to the table are the system calls
  that return to it; which ones it makes may depend on the signal and on the table it finds.
\<close>

datatype handler_call = Call_fork u32 | Call_wait int | Call_setpgid u32 u32 | Call_signal u32 int | Call_action int u32
  | Call_block "u32 option" | Call_unblock "u32 option" | Call_setmask "u32 option"

fun call_step :: "handler_call \<Rightarrow> procs \<Rightarrow> procs" where
  "call_step (Call_fork k) t = snd (process_fork k t)"
| "call_step (Call_wait p) t = snd (process_waitpid p t)"
| "call_step (Call_setpgid p g) t = snd (process_setpgid p g t)"
| "call_step (Call_signal p s) t = snd (process_signal p s t)"
| "call_step (Call_action s h) t = snd (signal_set_handler s h t)"
| "call_step (Call_block m) t = snd (signal_block m t)"
| "call_step (Call_unblock m) t = snd (signal_unblock m t)"
| "call_step (Call_setmask m) t = snd (signal_setmask m t)"

type_synonym handler_code = "u32 \<Rightarrow> nat \<Rightarrow> procs \<Rightarrow> handler_call list"

definition run_calls :: "handler_code \<Rightarrow> u32 \<Rightarrow> nat \<Rightarrow> procs \<Rightarrow> procs" where
  "run_calls prog h sig t = fold call_step (prog h sig t) t"

lemma signal_send_eq: "i < length (process_table t) \<Longrightarrow> signal_send p sig t = process_signal p sig t"
proof -
  have "k < length (process_table t)" if "process_get p t = Some k" for k
    using that find_idx_SomeD unfolding process_get_def by fastforce
  then show ?thesis
    by (auto simp: signal_send_def process_signal_def Let_def upd_proc_def split: option.split)
qed

lemma signal_set_handler_wf [zos_inv]: "procs_wf t \<Longrightarrow> procs_wf (snd (signal_set_handler sig h t))"
proof -
  assume wf: "procs_wf t"
  have "procs_wf (upd_proc i (\<lambda>p. p\<lparr>signal_handlers := (signal_handlers p)[nat sig := h]\<rparr>) t)"
    if "process_current t = Some i" "sig \<noteq> int SIGKILL" "sig \<noteq> int SIGSTOP" "0 < sig" for i
    using that current_bounds(1) [OF wf that(1)] procs_wf_ok [OF wf]
    by (intro upd_mild_wf [OF wf]) (auto simp: proc_ok_def)
  then show ?thesis using wf by (auto simp: signal_set_handler_def split: option.split)
qed

lemma signal_mask_op_wf:
  assumes wf: "procs_wf t" and f: "\<And>old m. old AND unblockable = 0 \<Longrightarrow> f old m AND unblockable = 0"
  shows "procs_wf (snd (signal_mask_op f s t))"
proof -
  have "procs_wf (upd_proc i (\<lambda>p. p\<lparr>blocked_signals := f (blocked_signals p) m\<rparr>) t)"
    if "process_current t = Some i" for i m
    using that current_bounds(1) [OF wf that(1)] procs_wf_ok [OF wf] f
    by (intro upd_mild_wf [OF wf]) (auto simp: proc_ok_def)
  then show ?thesis using wf by (auto simp: signal_mask_op_def split: option.split)
qed

lemmas signal_masks_wf [zos_inv] =
  signal_mask_op_wf [where f = "\<lambda>old m. old OR (m AND NOT unblockable)", folded signal_block_def]
  signal_mask_op_wf [where f = "\<lambda>old m. old AND NOT m", folded signal_unblock_def]
  signal_mask_op_wf [where f = "\<lambda>old m. m AND NOT unblockable", folded signal_setmask_def]

section \<open>Handlers\<close>

text \<open>A process that has not exited stays so, and the pid counter moves by one at most.\<close>

definition alive_at :: "procs \<Rightarrow> nat \<Rightarrow> bool" where
  "alive_at t i \<longleftrightarrow> used_at t i \<and> pstate (proc_at t i) \<noteq> PROC_ZOMBIE"

definition gentle :: "procs \<Rightarrow> procs \<Rightarrow> bool" where
  "gentle t t' \<longleftrightarrow> (\<forall>i < MAX_PROCESSES. alive_at t i \<longrightarrow> alive_at t' i) \<and> unat (next_pid t') \<le> unat (next_pid t) + 1"

lemma gentle_upd:
  assumes "length (process_table t) = MAX_PROCESSES" and "i < MAX_PROCESSES"
    and "\<not> alive_at t i \<or> pstate (f (proc_at t i)) \<notin> {PROC_UNUSED, PROC_ZOMBIE}"
  shows "gentle t (upd_proc i f t)"
  using assms by (auto simp: gentle_def alive_at_def)

lemma gentle_refl [simp]: "gentle t t"
  by (simp add: gentle_def)

lemma fork_gentle:
  assumes wf: "procs_wf t"
  shows "gentle t (snd (process_fork k t))"
proof (cases "process_current t")
  case None
  then show ?thesis by (simp add: process_fork_def)
next
  case (Some p)
  obtain c t1 where c: "process_create (pname (proc_at t p)) (pid (proc_at t p)) k t = (c, t1)" by fastforce
  have up: "unat (next_pid t + 1) \<le> unat (next_pid t) + 1" by (simp add: unat_word_ariths)
  have len: "length (process_table t) = MAX_PROCESSES" using wf by simp
  have g: "gentle t t1 \<and> length (process_table t1) = MAX_PROCESSES"
  proof (cases "find_idx (\<lambda>q. pstate q = PROC_UNUSED) (process_table t)")
    case None
    show ?thesis using c [unfolded process_create_def None] len by simp
  next
    case (Some s)
    then have "s < MAX_PROCESSES" "\<not> used_at t s" using find_idx_SomeD [OF Some] len by simp_all
    then show ?thesis
      using c Some len up by (auto simp: process_create_def Let_def gentle_def alive_at_def upd_proc_def nth_list_update
        split: if_splits)
  qed
  have "gentle t (upd_proc m (\<lambda>c. c\<lparr>pgid := a, fd_table := b, blocked_signals := d, signal_handlers := e\<rparr>) t1)"
    if "process_get c t1 = Some m" for m a b d e
  proof -
    have "m < MAX_PROCESSES" using find_idx_SomeD(1) [OF that [unfolded process_get_def]] g by simp
    then show ?thesis using g by (auto simp: gentle_def alive_at_def)
  qed
  then show ?thesis using Some c g by (auto simp: process_fork_def split: option.splits)
qed

lemma signal_gentle: "procs_wf t \<Longrightarrow> gentle t (snd (process_signal p s t))"
  using process_signal_frame(4,5) [of _ t p s] by (simp add: gentle_def alive_at_def)

lemma current_gentle:
  "procs_wf t \<Longrightarrow> process_current t = Some i \<Longrightarrow> pstate (f (proc_at t i)) = pstate (proc_at t i) \<Longrightarrow> gentle t (upd_proc i f t)"
  using current_bounds(1) [of t i] by (intro gentle_upd) (auto simp: alive_at_def)

lemma call_step_gentle:
  assumes wf: "procs_wf t"
  shows "gentle t (call_step c t)"
proof (cases c)
  case (Call_wait p)
  have "gentle t (upd_proc i (\<lambda>c. c\<lparr>pstate := PROC_UNUSED\<rparr>) t)" if "i < MAX_PROCESSES" "pstate (proc_at t i) = PROC_ZOMBIE" for i
    using that wf by (intro gentle_upd) (simp_all add: alive_at_def)
  then show ?thesis
    using Call_wait wf by (auto simp: process_waitpid_def split: option.splits dest!: find_idx_SomeD)
next
  case (Call_setpgid p g)
  have "gentle t (upd_proc i (\<lambda>q. q\<lparr>pgid := (if g = 0 then pid q else g)\<rparr>) t)" if "pid_or_current p t = Some i" for i
    using that get_bounds(1) [OF wf] current_bounds(1) [OF wf] wf
    by (intro gentle_upd) (auto simp: pid_or_current_def alive_at_def split: if_splits)
  then show ?thesis using Call_setpgid by (simp add: process_setpgid_def split: option.split)
qed (use fork_gentle [OF wf] signal_gentle [OF wf] current_gentle [OF wf] in
  \<open>auto simp: signal_set_handler_def signal_block_def signal_unblock_def signal_setmask_def signal_mask_op_def split: option.split\<close>)

lemma call_step_wf: "procs_wf t \<Longrightarrow> next_pid t \<noteq> 0xFFFFFFFF \<Longrightarrow> procs_wf (call_step c t)"
  by (cases c) (simp_all add: zos_inv mask_keeps)

lemma calls_wf:
  "procs_wf t \<Longrightarrow> unat (next_pid t) + length cs < 2 ^ 32 \<Longrightarrow>
    procs_wf (fold call_step cs t) \<and> unat (next_pid (fold call_step cs t)) \<le> unat (next_pid t) + length cs \<and>
    (\<forall>i < MAX_PROCESSES. alive_at t i \<longrightarrow> alive_at (fold call_step cs t) i)"
proof (induction cs arbitrary: t)
  case (Cons c cs)
  have "next_pid t \<noteq> 0xFFFFFFFF" using Cons.prems(2) by auto
  then have wf: "procs_wf (call_step c t)" by (rule call_step_wf [OF Cons.prems(1)])
  have g: "gentle t (call_step c t)" by (rule call_step_gentle [OF Cons.prems(1)])
  then have "unat (next_pid (call_step c t)) + length cs < 2 ^ 32" using Cons.prems(2) by (simp add: gentle_def)
  from Cons.IH [OF wf this] show ?case using g by (auto simp: gentle_def)
qed simp

text \<open>One signal of a delivery: the cases that go on keep the table consistent and the process alive.\<close>

definition delivers :: "nat \<Rightarrow> nat \<Rightarrow> procs \<Rightarrow> bool" where
  "delivers i n t \<longleftrightarrow> procs_wf t \<and> i < MAX_PROCESSES \<and> alive_at t i \<and> unat (next_pid t) + n < 2 ^ 32"

lemma delivery_cases:
  fixes m :: u32 and i :: nat and t :: procs
  assumes len: "\<And>h s t. length (prog h s t) \<le> n" and d: "delivers i (n + k) t"
  defines "t1 \<equiv> upd_proc i (\<lambda>p. p\<lparr>pending_signals := pending_signals p AND m\<rparr>) t"
  shows "delivers i k t1" and "procs_wf (process_exit e t1)" and "delivers i k (run_calls prog h sig t1)"
    and "s \<in> {PROC_STOPPED, PROC_READY} \<Longrightarrow> delivers i k (upd_proc i (\<lambda>p. p\<lparr>pstate := s\<rparr>) t1)"
proof -
  have wf: "procs_wf t" and i: "i < MAX_PROCESSES" and u: "alive_at t i" and b: "unat (next_pid t) + n + k < 2 ^ 32"
    using d by (simp_all add: delivers_def)
  have wf1: "procs_wf t1" unfolding t1_def by (rule clear_pending_wf [OF wf i])
  have u1: "alive_at t1 i" using u wf i by (simp add: t1_def alive_at_def)
  have n1: "next_pid t1 = next_pid t" by (simp add: t1_def)
  show "delivers i k t1" using wf1 u1 n1 i b by (simp add: delivers_def)
  show "procs_wf (process_exit e t1)" by (rule process_exit_wf [OF wf1])
  show "delivers i k (run_calls prog h sig t1)"
    using calls_wf [OF wf1, of "prog h sig t1"] len [of h sig t1] b n1 i u1 by (auto simp: delivers_def run_calls_def)
  show "s \<in> {PROC_STOPPED, PROC_READY} \<Longrightarrow> delivers i k (upd_proc i (\<lambda>p. p\<lparr>pstate := s\<rparr>) t1)"
    using stop_wf [OF wf1 i] u1 wf1 i b n1 by (auto simp: delivers_def alive_at_def)
qed

lemma delivers_less: "delivers i (n + k) t \<Longrightarrow> delivers i k t"
  by (simp add: delivers_def)

lemma delivers_wf: "delivers i n t \<Longrightarrow> procs_wf t"
  by (simp add: delivers_def)

lemma check_signals_loop_wf:
  assumes len: "\<And>h s t. length (prog h s t) \<le> n"
  shows "delivers i (n * length sigs) t \<Longrightarrow> procs_wf (check_signals_loop (run_calls prog) i pending sigs t)"
proof (induction sigs arbitrary: t)
  case (Cons sig sigs)
  have now: "delivers i (n + n * length sigs) t" using Cons.prems by simp
  note d = delivery_cases [where prog = prog and m = "NOT (sig_bit sig)", OF len now] delivers_less [OF now]
  note w = d(1) [THEN delivers_wf] d(3) [THEN delivers_wf] d(4) [where s = PROC_STOPPED, simplified, THEN delivers_wf]
    d(4) [where s = PROC_READY, simplified, THEN delivers_wf]
  show ?case
    unfolding check_signals_loop.simps Let_def
    using d w Cons.IH by (simp split del: if_split) (auto split: if_split)
qed (rule delivers_wf, simp)

lemma handle_pending_loop_wf:
  assumes len: "\<And>h s t. length (prog h s t) \<le> n"
  shows "delivers i (n * length sigs) t \<Longrightarrow> procs_wf (handle_pending_loop (run_calls prog) i pending sigs t)"
proof (induction sigs arbitrary: t)
  case (Cons sig sigs)
  have now: "delivers i (n + n * length sigs) t" using Cons.prems by simp
  note d = delivery_cases [where prog = prog and m = "NOT (sig_bit sig)", OF len now] delivers_less [OF now]
  note w = d(1) [THEN delivers_wf] d(3) [THEN delivers_wf] d(4) [where s = PROC_STOPPED, simplified, THEN delivers_wf]
    d(4) [where s = PROC_READY, simplified, THEN delivers_wf]
  show ?case
    unfolding handle_pending_loop.simps Let_def
    using d w Cons.IH by (auto split: if_split sig_action.split)
qed (rule delivers_wf, simp)

lemma process_check_signals_wf:
  assumes "\<And>h s t. length (prog h s t) \<le> n" and wf: "procs_wf t" and "unat (next_pid t) + 31 * n < 2 ^ 32"
    and "\<forall>i. process_current t = Some i \<longrightarrow> pstate (proc_at t i) \<noteq> PROC_ZOMBIE"
  shows "procs_wf (process_check_signals (run_calls prog) t)"
proof (cases "process_current t")
  case (Some i)
  have "delivers i (n * length [1 ..< NSIG]) t"
    using Some assms(2-4) current_bounds [OF wf Some] by (simp add: delivers_def alive_at_def mult.commute del: upt_rec_numeral)
  from check_signals_loop_wf [where prog = prog, OF assms(1) this] show ?thesis
    using Some wf by (simp add: process_check_signals_def Let_def del: upt_rec_numeral)
qed (use wf in \<open>simp add: process_check_signals_def\<close>)

lemma signal_handle_pending_wf:
  assumes "\<And>h s t. length (prog h s t) \<le> n" and wf: "procs_wf t" and "unat (next_pid t) + 31 * n < 2 ^ 32"
    and "i < MAX_PROCESSES" and "alive_at t i"
  shows "procs_wf (signal_handle_pending (run_calls prog) i t)"
proof -
  have "delivers i (n * length [1 ..< NSIG]) t" using assms(2-5) by (simp add: delivers_def mult.commute del: upt_rec_numeral)
  from handle_pending_loop_wf [where prog = prog, OF assms(1) this] show ?thesis
    using wf by (simp add: signal_handle_pending_def Let_def del: upt_rec_numeral)
qed

section \<open>Reachable tables\<close>

datatype proc_op = Create string u32 u32 | Kill u32 | SetCurrent u32 | Fork u32 | Exec string u32
  | Wait int | Exit int | Setpgid u32 u32 | Post u32 int | Deliver | InitSignals nat
  | DeliverTo nat | SetHandler int u32 | Block "u32 option" | Unblock "u32 option" | SetMask "u32 option"

fun proc_step :: "(u32 \<Rightarrow> nat \<Rightarrow> procs \<Rightarrow> procs) \<Rightarrow> proc_op \<Rightarrow> procs \<Rightarrow> procs" where
  "proc_step run (Create n p k) t = snd (process_create n p k t)"
| "proc_step run (Kill p) t = snd (process_kill p t)"
| "proc_step run (SetCurrent p) t = process_set_current p t"
| "proc_step run (Fork k) t = snd (process_fork k t)"
| "proc_step run (Exec n a) t = snd (process_exec n a t)"
| "proc_step run (Wait p) t = snd (process_waitpid p t)"
| "proc_step run (Exit e) t = process_exit e t"
| "proc_step run (Setpgid p g) t = snd (process_setpgid p g t)"
| "proc_step run (Post p s) t = snd (process_signal p s t)"
| "proc_step run Deliver t = process_check_signals run t"
| "proc_step run (InitSignals i) t = signal_init_process i t"
| "proc_step run (DeliverTo i) t = signal_handle_pending run i t"
| "proc_step run (SetHandler s h) t = snd (signal_set_handler s h t)"
| "proc_step run (Block m) t = snd (signal_block m t)"
| "proc_step run (Unblock m) t = snd (signal_unblock m t)"
| "proc_step run (SetMask m) t = snd (signal_setmask m t)"

text \<open>
  The operations with a process pointer are called with one of a process in use, and signals are delivered to
  a process that has not exited.
\<close>

fun op_enabled :: "proc_op \<Rightarrow> procs \<Rightarrow> bool" where
  "op_enabled (InitSignals i) t = (i < MAX_PROCESSES)"
| "op_enabled (DeliverTo i) t = (i < MAX_PROCESSES \<and> alive_at t i)"
| "op_enabled Deliver t = (\<forall>i. process_current t = Some i \<longrightarrow> pstate (proc_at t i) \<noteq> PROC_ZOMBIE)"
| "op_enabled _ t = True"

text \<open>
  Reachable before the 32-bit pid counter wraps, which takes \<open>2 ^ 32 - 2\<close> process creations: a delivery runs at most 31
  handlers, and \<open>n\<close> bounds the calls of one handler.
\<close>

inductive procs_reach :: "handler_code \<Rightarrow> nat \<Rightarrow> procs \<Rightarrow> bool" for prog n where
  init: "procs_reach prog n process_init"
| step: "procs_reach prog n t \<Longrightarrow> unat (next_pid t) + 31 * n + 1 < 2 ^ 32 \<Longrightarrow> op_enabled op t \<Longrightarrow>
    procs_reach prog n (proc_step (run_calls prog) op t)"

lemma process_set_current_wf [zos_inv]: "procs_wf t \<Longrightarrow> procs_wf (process_set_current p t)"
  by (simp add: procs_wf_def process_set_current_def)

lemma signal_init_wf [zos_inv]: "procs_wf t \<Longrightarrow> i < MAX_PROCESSES \<Longrightarrow> procs_wf (signal_init_process i t)"
  unfolding signal_init_process_def
  using procs_wf_ok [of t i] by (intro upd_mild_wf) (simp_all add: proc_ok_def)

text \<open>
  C9. Over every sequence of process and signal operations from boot, signals delivered to handlers that make any
  system calls included, and as long as the pid counter has not wrapped: pids are unique, the kernel and the shell are alive
  in slots 0 and 1, and no process blocks or handles \<open>SIGKILL\<close> or \<open>SIGSTOP\<close>.
\<close>

theorem procs_reach_wf:
  assumes "\<And>h s t. length (prog h s t) \<le> n" and "procs_reach prog n t"
  shows "procs_wf t"
  using assms(2)
proof (induction rule: procs_reach.induct)
  case (step t op)
  have "next_pid t \<noteq> 0xFFFFFFFF" using step.hyps(2) by auto
  then show ?case
    using step process_check_signals_wf [where prog = prog, OF assms(1)] signal_handle_pending_wf [where prog = prog, OF assms(1)]
    by (cases op) (simp_all add: zos_inv mask_keeps)
qed (rule process_init_wf)

text \<open>The shell installs a handler that forks and waits, signals itself and the handler runs.\<close>

definition demo_code :: handler_code where
  "demo_code h sig t = [Call_fork 5, Call_wait (-1), Call_signal 1 10]"

definition demo_handled :: procs where
  "demo_handled = proc_step (run_calls demo_code) (Post 1 10) (proc_step (run_calls demo_code) (SetHandler 10 0x5000) process_init)"

theorem procs_reach_wf_witness: "procs_wf (process_check_signals (run_calls demo_code) demo_handled)"
proof -
  have len: "\<And>h s t. length (demo_code h s t) \<le> 3" by (simp add: demo_code_def)
  have n: "next_pid demo_handled = 2" "next_pid (proc_step (run_calls demo_code) (SetHandler 10 0x5000) process_init) = 2"
    by (simp_all add: demo_handled_def signal_set_handler_def process_init_def split: option.split)
  have r: "procs_reach demo_code 3 demo_handled" unfolding demo_handled_def
    by (intro procs_reach.step procs_reach.init) (use n(2) in \<open>simp_all add: process_init_def\<close>)
  have wf: "procs_wf demo_handled"
    by (simp add: demo_handled_def signal_set_handler_wf process_signal_wf process_init_wf)
  have c: "current_pid demo_handled = 1"
    by (simp add: demo_handled_def signal_set_handler_def process_init_def split: option.split)
  have "pstate (proc_at demo_handled i) \<noteq> PROC_ZOMBIE" if "process_current demo_handled = Some i" for i
  proof -
    note b = current_bounds [OF wf that]
    then have "i < 2" using slot_pid [OF wf b(1,2)] c by simp
    then show ?thesis using wf unfolding procs_wf_def by blast
  qed
  then have "procs_reach demo_code 3 (proc_step (run_calls demo_code) Deliver demo_handled)"
    by (intro procs_reach.step [OF r]) (simp_all add: n)
  from procs_reach_wf [OF len this] show ?thesis by simp
qed

section \<open>Fork\<close>

text \<open>
  A fork with a free slot returns the next pid; the child is a new ready process with the
  parent's name, group, descriptors, mask and handlers and no pending signal, and no other process
  changes.
\<close>

theorem process_fork_correct:
  assumes wf: "procs_wf t" and p: "process_current t = Some p" and free: "\<exists>k < MAX_PROCESSES. \<not> used_at t k"
    and n: "next_pid t < 0x80000000"
  shows "\<exists>c < MAX_PROCESSES. \<not> used_at t c \<and>
    (case process_fork ticks t of (r, t') \<Rightarrow> r = uint (next_pid t) \<and>
      (\<forall>k < MAX_PROCESSES. k \<noteq> c \<longrightarrow> proc_at t' k = proc_at t k) \<and>
      (let child = proc_at t' c; parent = proc_at t p in
        pid child = next_pid t \<and> ppid child = pid parent \<and> pgid child = pgid parent \<and>
        pstate child = PROC_READY \<and> pname child = take 31 (pname parent) \<and>
        fd_table child = fd_table parent \<and> blocked_signals child = blocked_signals parent \<and>
        signal_handlers child = signal_handlers parent \<and> pending_signals child = 0))"
proof -
  obtain c where c: "find_idx (\<lambda>q. pstate q = PROC_UNUSED) (process_table t) = Some c"
    using free wf find_idx_None_nth [of "\<lambda>q. pstate q = PROC_UNUSED" "process_table t"] by fastforce
  have cb: "c < MAX_PROCESSES" "\<not> used_at t c" using find_idx_SomeD [OF c] wf by simp_all
  note pb = current_bounds [OF wf p]
  have "p \<noteq> c" using pb cb by auto
  define t1 where "t1 = snd (process_create (pname (proc_at t p)) (pid (proc_at t p)) ticks t)"
  have "2 \<le> next_pid t" using wf unfolding procs_wf_def by blast
  then have n0: "next_pid t \<noteq> 0" "next_pid t \<noteq> 0xFFFFFFFF" using n by auto
  have wf1: "procs_wf t1" unfolding t1_def by (rule process_create_wf [OF wf n0(2)])
  have cr: "process_create (pname (proc_at t p)) (pid (proc_at t p)) ticks t = (next_pid t, t1)"
    using cb(1) wf unfolding t1_def process_create_def c by (simp add: Let_def upd_proc_def)
  have at: "proc_at t1 k = proc_at t k" if "k \<noteq> c" for k
    using that cb(1) wf unfolding t1_def process_create_def c by (simp add: Let_def upd_proc_def)
  have atc: "pid (proc_at t1 c) = next_pid t \<and> ppid (proc_at t1 c) = pid (proc_at t p) \<and>
      pstate (proc_at t1 c) = PROC_READY \<and> pname (proc_at t1 c) = take 31 (pname (proc_at t p)) \<and>
      pending_signals (proc_at t1 c) = 0"
    using cb(1) wf unfolding t1_def process_create_def c
    by (simp add: Let_def upd_proc_def init_process_signals_def init_process_fd_table_def)
  have g: "process_get (next_pid t) t1 = Some c" using process_get_Some [OF wf1] atc cb(1) by simp
  have s: "sint (next_pid t) = uint (next_pid t)" by (rule sint_small [OF n])
  show ?thesis
    using cb \<open>p \<noteq> c\<close> at atc n0(1) s wf1 unfolding process_fork_def
    by (intro exI [of _ c]) (simp add: p cr g Let_def)
qed

lemma init_current: "process_current process_init = Some 1"
proof -
  have c: "current_pid process_init = 1" by (simp add: process_init_def)
  have "pid (proc_at process_init 1) = 1 \<and> used_at process_init 1"
    by (simp add: process_init_def init_process_signals_def init_process_fd_table_def)
  then show ?thesis using process_init_wf by (simp add: process_current_def process_get_Some c)
qed

theorem process_fork_correct_witness: "fst (process_fork 5 process_init) = 2"
proof -
  have n: "next_pid process_init = 2" by (simp add: process_init_def)
  have b: "\<exists>k < MAX_PROCESSES. \<not> used_at process_init k"
    by (intro exI [of _ 2]) (simp add: process_init_def zero_process_def)
  show ?thesis
    using process_fork_correct [OF process_init_wf init_current b, of 5] n by (auto simp: case_prod_beta)
qed

section \<open>Exit and wait\<close>

lemma process_exit_at:
  assumes wf: "procs_wf t" and c: "process_current t = Some i" and p: "\<not> pid (proc_at t i) \<le> 1" and k: "k < MAX_PROCESSES"
  shows "pid (proc_at (process_exit e t) k) = pid (proc_at t k)"
    and "pstate (proc_at (process_exit e t) i) = PROC_ZOMBIE" and "exit_code (proc_at (process_exit e t) i) = e"
    and "used_at (process_exit e t) k = used_at t k"
    and "ppid (proc_at (process_exit e t) k) =
      (if used_at t k \<and> ppid (proc_at t k) = pid (proc_at t i) then 1 else ppid (proc_at t k))"
proof -
  note b = current_bounds [OF wf c]
  let ?t1 = "upd_proc i (\<lambda>p. p\<lparr>exit_code := e\<rparr>) t"
  let ?t2 = "process_reparent_children (pid (proc_at ?t1 i)) ?t1"
  let ?t3 = "snd (process_signal (ppid (proc_at ?t2 i)) (int SIGCHLD) ?t2)"
  have e: "process_exit e t = upd_proc i (\<lambda>p. p\<lparr>pstate := PROC_ZOMBIE\<rparr>) ?t3"
    using c p by (simp add: process_exit_def Let_def)
  have l: "length (process_table ?t3) = MAX_PROCESSES" using wf by simp
  note f = process_signal_frame [of _ ?t2 "ppid (proc_at ?t2 i)" "int SIGCHLD"]
  show "pid (proc_at (process_exit e t) k) = pid (proc_at t k)"
    "pstate (proc_at (process_exit e t) i) = PROC_ZOMBIE" "exit_code (proc_at (process_exit e t) i) = e"
    "used_at (process_exit e t) k = used_at t k"
    "ppid (proc_at (process_exit e t) k) =
      (if used_at t k \<and> ppid (proc_at t k) = pid (proc_at t i) then 1 else ppid (proc_at t k))"
    unfolding e using l b k wf f(1-4) [of i] f(1-4) [of k] by (simp_all split: if_splits)
qed

lemma process_exit_current [simp]: "current_pid (process_exit e t) = current_pid t"
  by (simp add: process_exit_def Let_def split: option.split)

lemma process_exit_sigchld:
  assumes wf: "procs_wf t" and c: "process_current t = Some i" and p: "\<not> pid (proc_at t i) \<le> 1"
    and par: "process_get (ppid (proc_at t i)) t = Some j" "j \<noteq> i"
  shows "pending_signals (proc_at (process_exit e t) j) AND sig_bit SIGCHLD = sig_bit SIGCHLD"
proof -
  note b = current_bounds [OF wf c] and g = get_bounds [OF wf par(1)]
  have ne: "ppid (proc_at t i) \<noteq> pid (proc_at t i)"
    using procs_wf_unique [OF wf g(1) b(1)] g b par(2) by metis
  let ?t1 = "upd_proc i (\<lambda>p. p\<lparr>exit_code := e\<rparr>) t"
  let ?t2 = "process_reparent_children (pid (proc_at ?t1 i)) ?t1"
  have wf2: "procs_wf ?t2"
    using b(1) procs_wf_ok [OF wf b(1)]
    by (intro process_reparent_wf upd_mild_wf [OF wf]) (simp_all add: proc_ok_def)
  have q: "ppid (proc_at ?t2 i) = ppid (proc_at t i)" using b(1) wf ne by simp
  have "process_get (ppid (proc_at t i)) ?t2 = Some j"
    unfolding process_get_Some [OF wf2] using g b(1) wf par(2) by simp
  then have "pending_signals (proc_at (snd (process_signal (ppid (proc_at t i)) (int SIGCHLD) ?t2)) j) =
      pending_signals (proc_at ?t2 j) OR sig_bit SIGCHLD"
    using g(1) wf by (simp add: process_signal_def Let_def)
  moreover have "(x OR y) AND y = y" for x y :: u32 by (auto simp: bit_eq_iff bit_simps)
  ultimately show ?thesis
    using c p q par(2) b(1) wf by (simp add: process_exit_def Let_def)
qed

text \<open>
  C10. When a process with a living parent exits, it becomes a zombie with its exit code, its children get
  the shell (pid 1) as their parent, every other process keeps its parent, and the parent has \<open>SIGCHLD\<close> pending. The parent's next
  \<open>process_waitpid\<close> for it returns its pid and exit code and frees its slot and no other.
\<close>

theorem exit_wait_roundtrip:
  fixes e :: int
  assumes wf: "procs_wf t" and c: "process_current t = Some i"
    and p: "1 < pid (proc_at t i)" "pid (proc_at t i) < 0x80000000"
    and par: "process_get (ppid (proc_at t i)) t = Some j" "j \<noteq> i"
  defines "t1 \<equiv> process_exit e t"
  defines "r \<equiv> process_waitpid (uint (pid (proc_at t i))) (process_set_current (ppid (proc_at t i)) t1)"
  shows "pstate (proc_at t1 i) = PROC_ZOMBIE \<and>
    (\<forall>k < MAX_PROCESSES. used_at t1 k = used_at t k \<and> (used_at t k \<longrightarrow>
       ppid (proc_at t1 k) = (if ppid (proc_at t k) = pid (proc_at t i) then 1 else ppid (proc_at t k)))) \<and>
    pending_signals (proc_at t1 j) AND sig_bit SIGCHLD = sig_bit SIGCHLD \<and>
    fst r = (uint (pid (proc_at t i)), Some e) \<and> \<not> used_at (snd r) i \<and>
    (\<forall>k < MAX_PROCESSES. k \<noteq> i \<longrightarrow> proc_at (snd r) k = proc_at t1 k)"
proof -
  note b = current_bounds [OF wf c] and g = get_bounds [OF wf par(1)]
  have np: "\<not> pid (proc_at t i) \<le> 1" using p(1) by simp
  note at = process_exit_at [OF wf c np, of _ e, folded t1_def]
  have ne: "ppid (proc_at t i) \<noteq> pid (proc_at t i)"
    using procs_wf_unique [OF wf g(1) b(1)] g b par(2) by metis
  have orphan: "used_at t1 k = used_at t k \<and> (used_at t k \<longrightarrow>
      ppid (proc_at t1 k) = (if ppid (proc_at t k) = pid (proc_at t i) then 1 else ppid (proc_at t k)))" if "k < MAX_PROCESSES" for k
    using at(4,5) [OF that] that by auto
  have wf1: "procs_wf t1" unfolding t1_def by (rule process_exit_wf [OF wf])
  let ?t2 = "process_set_current (ppid (proc_at t i)) t1"
  have wf2: "procs_wf ?t2" by (rule process_set_current_wf [OF wf1])
  have same: "process_table ?t2 = process_table t1" by (simp add: process_set_current_def)
  have par2: "process_current ?t2 = Some j"
    using at(1,4) [OF g(1)] g wf2 unfolding process_current_def process_get_Some [OF wf2] same
    by (simp add: process_set_current_def)
  have pj: "pid (proc_at t1 j) = ppid (proc_at t i)" using at(1) [OF g(1)] g(3) by simp
  have pi: "ppid (proc_at t1 i) = ppid (proc_at t i)" using at(5) [OF b(1)] ne by simp
  have oi: "of_int (uint (pid (proc_at t i))) = pid (proc_at t i)" by simp
  have f: "find_idx (\<lambda>c. pstate c \<noteq> PROC_UNUSED \<and> ppid c = pid (proc_at ?t2 j) \<and>
      \<not> (0 < uint (pid (proc_at t i)) \<and> pid c \<noteq> of_int (uint (pid (proc_at t i)))) \<and> pstate c = PROC_ZOMBIE)
      (process_table ?t2) = Some i"
  proof (rule find_idx_unique)
    have "0 < uint (pid (proc_at t i))" using p(1) by (simp add: word_less_def)
    then show "k = i" if "k < length (process_table ?t2)" "pstate (process_table ?t2 ! k) \<noteq> PROC_UNUSED \<and>
        ppid (process_table ?t2 ! k) = pid (proc_at ?t2 j) \<and> \<not> (0 < uint (pid (proc_at t i)) \<and>
        pid (process_table ?t2 ! k) \<noteq> of_int (uint (pid (proc_at t i)))) \<and> pstate (process_table ?t2 ! k) = PROC_ZOMBIE" for k
      using that wf1 b at(1,2) [OF b(1)] procs_wf_unique [OF wf1, of k i] unfolding same oi by simp
  qed (use wf1 b(1) at(2) at(1) [OF b(1)] pj pi in \<open>simp_all add: same\<close>)
  have "r = ((sint (pid (proc_at t1 i)), Some (exit_code (proc_at t1 i))),
      upd_proc i (\<lambda>c. c\<lparr>pstate := PROC_UNUSED\<rparr>) ?t2)"
    unfolding r_def process_waitpid_def par2 option.case by (subst f) (simp add: same)
  then show ?thesis
    using at(1,2,3) [OF b(1)] orphan process_exit_sigchld [OF wf c np par, of e, folded t1_def] sint_small [OF p(2)] wf1 b(1)
      proc_at_upd [of i ?t2] same by simp
qed


section \<open>Delivery\<close>

lemma process_exit_zombie:
  assumes "procs_wf t" and "process_current t = Some i" and "1 < pid (proc_at t i)"
  shows "pstate (proc_at (process_exit e t) i) = PROC_ZOMBIE"
  using process_exit_at(2) [OF assms(1,2) _ current_bounds(1) [OF assms(1,2)]] assms(3) by simp

lemma clear_pending_current:
  assumes "procs_wf t" and "process_current t = Some i"
  shows "process_current (upd_proc i (\<lambda>p. p\<lparr>pending_signals := pending_signals p AND m\<rparr>) t) = Some i"
  using process_get_Some [OF clear_pending_wf [OF assms(1) current_bounds(1) [OF assms]], where p = "current_pid t" and i = i]
    current_bounds [OF assms] assms(1) by (simp add: process_current_def)

lemma check_signals_loop_zombie:
  assumes "procs_wf t" and "process_current t = Some i" and "1 < pid (proc_at t i)"
    and "\<forall>s \<in> set sigs. s < SIGKILL \<and> signal_handlers (proc_at t i) ! s \<in> {SIG_DFL, SIG_IGN}"
    and "pending AND sig_bit SIGKILL \<noteq> 0"
  shows "pstate (proc_at (check_signals_loop run i pending (sigs @ SIGKILL # rest) t) i) = PROC_ZOMBIE"
  using assms(1-4)
proof (induction sigs arbitrary: t)
  case Nil
  have b: "i < MAX_PROCESSES" by (rule current_bounds(1) [OF Nil(1,2)])
  show ?case
    using assms(5) Nil process_exit_zombie clear_pending_wf [OF Nil(1) b] clear_pending_current [OF Nil(1,2)] b
    by (simp add: Let_def)
next
  case (Cons s sigs)
  have b: "i < MAX_PROCESSES" by (rule current_bounds(1) [OF Cons.prems(1,2)])
  let ?t1 = "upd_proc i (\<lambda>p. p\<lparr>pending_signals := pending_signals p AND NOT (sig_bit s)\<rparr>) t"
  have t1: "procs_wf ?t1" "process_current ?t1 = Some i" "1 < pid (proc_at ?t1 i)"
    "signal_handlers (proc_at ?t1 i) = signal_handlers (proc_at t i)"
    using clear_pending_wf [OF Cons.prems(1) b] clear_pending_current [OF Cons.prems(1,2)] Cons.prems(1,3) b
    by simp_all
  have s: "s < SIGKILL" "signal_handlers (proc_at t i) ! s \<in> {SIG_DFL, SIG_IGN}" using Cons.prems(4) by auto
  have "pstate (proc_at (check_signals_loop run i pending (sigs @ SIGKILL # rest) ?t1) i) = PROC_ZOMBIE"
    using Cons.prems(4) t1 by (intro Cons.IH) auto
  moreover have "pstate (proc_at (check_signals_loop run i pending (sigs @ SIGKILL # rest) t) i) = PROC_ZOMBIE"
    using Cons.prems by (intro Cons.IH) auto
  ultimately show ?case
    using s t1(4) process_exit_zombie [OF t1(1-3)] by (auto simp: Let_def)
qed

text \<open>
  \<open>SIGKILL\<close> cannot be dodged: when it is pending for the current process (not the kernel or the
  shell), \<open>process_check_signals\<close> leaves the process a zombie, whatever it has blocked and whatever
  else is pending, unless a lower-numbered pending signal has a handler that runs first.
\<close>

theorem sigkill_terminates:
  assumes "procs_wf t" and "process_current t = Some i" and "1 < pid (proc_at t i)"
    and "pending_signals (proc_at t i) AND sig_bit SIGKILL \<noteq> 0"
    and "\<forall>s \<in> {1 ..< SIGKILL}. signal_handlers (proc_at t i) ! s \<in> {SIG_DFL, SIG_IGN}"
  shows "pstate (proc_at (process_check_signals run t) i) = PROC_ZOMBIE"
proof -
  let ?p = "proc_at t i"
  let ?pend = "pending_signals ?p AND NOT (blocked_signals ?p)"
  have "blocked_signals ?p AND unblockable = 0"
    using procs_wf_ok [OF assms(1) current_bounds(1) [OF assms(1,2)]] by (simp add: proc_ok_def)
  moreover have "x AND (a OR b) = 0 \<Longrightarrow> x AND a = 0" for x a b :: u32
    by (auto simp: bit_eq_iff bit_simps)
  ultimately have "blocked_signals ?p AND sig_bit SIGKILL = 0" unfolding unblockable_def by blast
  moreover have "y AND b \<noteq> 0 \<Longrightarrow> x AND b = 0 \<Longrightarrow> (y AND NOT x) AND b \<noteq> 0" for x y b :: u32
    by (auto simp: bit_eq_iff bit_simps)
  ultimately have k: "?pend AND sig_bit SIGKILL \<noteq> 0" using assms(4) by blast
  then have "?pend \<noteq> 0" by auto
  moreover have "[1 ..< NSIG] = [1 ..< SIGKILL] @ SIGKILL # [SIGKILL + 1 ..< NSIG]" by (simp add: upt_rec)
  ultimately show ?thesis
    using check_signals_loop_zombie [OF assms(1-3) _ k, of "[1 ..< SIGKILL]" run "[SIGKILL + 1 ..< NSIG]"] assms(2,5)
    by (simp add: process_check_signals_def Let_def)
qed

lemma sig_cases: "(sig :: nat) \<in> {1 ..< NSIG} \<Longrightarrow> sig \<notin> {SIGKILL, SIGSTOP, 20, 21, 22} \<Longrightarrow>
    default_actions ! sig = (if sig = SIGCHLD \<or> sig = 23 \<or> sig = 28 then ACTION_IGN
      else if sig = SIGCONT then ACTION_CONT else if sig \<in> {3, 4, 5, 6, 7, 8, 11, 24, 25, 31} then ACTION_CORE
      else ACTION_TERM)"
proof -
  have "\<forall>sig \<in> set [1 ..< NSIG]. sig \<notin> {SIGKILL, SIGSTOP, 20, 21, 22} \<longrightarrow>
    default_actions ! sig = (if sig = SIGCHLD \<or> sig = 23 \<or> sig = 28 then ACTION_IGN
      else if sig = SIGCONT then ACTION_CONT else if sig \<in> {3, 4, 5, 6, 7, 8, 11, 24, 25, 31} then ACTION_CORE
      else ACTION_TERM)"
    by code_simp
  then show "sig \<in> {1 ..< NSIG} \<Longrightarrow> sig \<notin> {SIGKILL, SIGSTOP, 20, 21, 22} \<Longrightarrow> ?thesis" by simp
qed

lemma loops_agree:
  assumes "\<forall>s \<in> {20, 21, 22}. pending AND sig_bit s = 0"
  shows "set sigs \<subseteq> {1 ..< NSIG} \<Longrightarrow> check_signals_loop run i pending sigs t = handle_pending_loop run i pending sigs t"
proof (induction sigs arbitrary: t)
  case (Cons sig sigs)
  have IH: "check_signals_loop run i pending sigs u = handle_pending_loop run i pending sigs u" for u
    using Cons by simp
  show ?case
  proof (cases "pending AND sig_bit sig = 0 \<or> sig = SIGKILL \<or> sig = SIGSTOP")
    case True
    then show ?thesis using IH by (auto simp: Let_def)
  next
    case False
    then have "sig \<notin> {SIGKILL, SIGSTOP, 20, 21, 22}" using assms by auto
    then show ?thesis
      using False IH sig_cases [of sig] Cons.prems by (auto simp: Let_def)
  qed
qed simp

text \<open>
  The two delivery routines agree: for the current process, with none of the stop signals
  \<open>SIGTSTP\<close>, \<open>SIGTTIN\<close>, \<open>SIGTTOU\<close> deliverable, \<open>process_check_signals\<close> and \<open>signal_handle_pending\<close> do
  the same (the table of default actions encodes the first one's conditions).
\<close>

theorem delivery_agree:
  assumes "process_current t = Some i" and "\<forall>s \<in> {20, 21, 22}. signal_pending i t AND sig_bit s = 0"
  shows "process_check_signals run t = signal_handle_pending run i t"
  using assms loops_agree [of "signal_pending i t" "[1 ..< NSIG]" run i t]
  by (simp add: process_check_signals_def signal_handle_pending_def signal_pending_def Let_def)

text \<open>
  With such a signal they differ: after a \<open>SIGTSTP\<close>, \<open>process_check_signals\<close> goes on to the later
  signals and \<open>signal_handle_pending\<close> returns.
\<close>

section \<open>A concrete table\<close>

text \<open>A shell (pid 1) with a child (pid 2) that is running and has \<open>SIGKILL\<close> and \<open>SIGUSR1\<close> pending.\<close>

definition demo_procs :: procs where
  "demo_procs = snd (process_signal 2 10 (snd (process_signal 2 9
     (process_set_current 2 (snd (process_create ''sh'' 1 0 process_init))))))"

lemma demo_procs_reach: "procs_wf demo_procs"
  unfolding demo_procs_def
  by (intro process_signal_wf process_set_current_wf process_create_wf process_init_wf)
    (simp add: process_init_def)

lemma demo_free_slot: "find_idx (\<lambda>q. pstate q = PROC_UNUSED) (process_table process_init) = Some 2"
proof -
  have "process_table process_init = process_table process_init ! 0 # process_table process_init ! 1 # replicate 62 zero_process"
    by (simp add: process_init_def numeral_eq_Suc)
  then show ?thesis
    by (subst \<open>process_table process_init = _\<close>) (simp add: process_init_def zero_process_def numeral_eq_Suc)
qed

lemma demo_created: "pid (proc_at (snd (process_create ''sh'' 1 0 process_init)) 2) = 2 \<and>
    ppid (proc_at (snd (process_create ''sh'' 1 0 process_init)) 2) = 1 \<and>
    pstate (proc_at (snd (process_create ''sh'' 1 0 process_init)) 2) = PROC_READY \<and>
    pending_signals (proc_at (snd (process_create ''sh'' 1 0 process_init)) 2) = 0 \<and>
    signal_handlers (proc_at (snd (process_create ''sh'' 1 0 process_init)) 2) = replicate NSIG SIG_DFL \<and>
    proc_at (snd (process_create ''sh'' 1 0 process_init)) 1 = proc_at process_init 1"
  unfolding process_create_def demo_free_slot
  by (simp add: Let_def upd_proc_def process_init_def init_process_signals_def init_process_fd_table_def)

lemma process_signal_some:
  assumes "process_get q t = Some j" and "0 < sig" and "sig < int NSIG" and "sig \<noteq> int SIGCONT"
  shows "snd (process_signal q sig t) =
    upd_proc j (\<lambda>p. p\<lparr>pending_signals := pending_signals p OR sig_bit (nat sig)\<rparr>) t"
  using assms by (simp add: process_signal_def)

lemma demo_procs_facts:
  "current_pid demo_procs = 2" "process_current demo_procs = Some 2" "pid (proc_at demo_procs 2) = 2"
  "ppid (proc_at demo_procs 2) = 1" "signal_handlers (proc_at demo_procs 2) = replicate NSIG SIG_DFL"
  "pending_signals (proc_at demo_procs 2) = sig_bit SIGKILL OR sig_bit 10"
  "process_get 1 demo_procs = Some 1"
proof -
  let ?c = "snd (process_create ''sh'' 1 0 process_init)"
  let ?s = "process_set_current 2 ?c"
  let ?k = "snd (process_signal 2 9 ?s)"
  have wf0: "procs_wf ?c" by (intro process_create_wf process_init_wf) (simp add: process_init_def)
  then have wf: "procs_wf ?s" by (rule process_set_current_wf)
  have tbl: "process_table ?s = process_table ?c" by (simp add: process_set_current_def)
  have g: "process_get 2 ?s = Some 2" using demo_created wf by (simp add: process_get_Some tbl)
  have k: "?k = upd_proc 2 (\<lambda>p. p\<lparr>pending_signals := pending_signals p OR sig_bit 9\<rparr>) ?s"
    using process_signal_some [OF g, of 9] by simp
  have wfk: "procs_wf ?k" by (rule process_signal_wf [OF wf])
  have at: "proc_at ?k 2 = (proc_at ?c 2)\<lparr>pending_signals := sig_bit 9\<rparr>"
    using demo_created wf0 by (simp add: k tbl)
  have gk: "process_get 2 ?k = Some 2" using demo_created wfk at by (simp add: process_get_Some)
  have d: "demo_procs = upd_proc 2 (\<lambda>p. p\<lparr>pending_signals := pending_signals p OR sig_bit 10\<rparr>) ?k"
    using process_signal_some [OF gk, of 10] by (simp add: demo_procs_def)
  have d2: "proc_at demo_procs 2 = (proc_at ?c 2)\<lparr>pending_signals := sig_bit 9 OR sig_bit 10\<rparr>"
    using at wf0 by (simp add: d tbl)
  then show "pid (proc_at demo_procs 2) = 2" "ppid (proc_at demo_procs 2) = 1"
    "signal_handlers (proc_at demo_procs 2) = replicate NSIG SIG_DFL"
    "pending_signals (proc_at demo_procs 2) = sig_bit SIGKILL OR sig_bit 10"
    using demo_created by simp_all
  show c: "current_pid demo_procs = 2" by (simp add: d k process_set_current_def)
  show "process_current demo_procs = Some 2"
    unfolding process_current_def c process_get_Some [OF demo_procs_reach] using d2 demo_created by simp
  have "proc_at demo_procs 1 = proc_at process_init 1"
    using demo_created wf0 wfk by (simp add: d k tbl)
  then show "process_get 1 demo_procs = Some 1"
    unfolding process_get_Some [OF demo_procs_reach] using process_init_wf unfolding procs_wf_def by simp
qed

theorem exit_wait_roundtrip_witness:
  "fst (process_waitpid 2 (process_set_current 1 (process_exit 7 demo_procs))) = (2, Some 7)"
proof -
  have "fst (process_waitpid (uint (pid (proc_at demo_procs 2)))
      (process_set_current (ppid (proc_at demo_procs 2)) (process_exit 7 demo_procs))) =
      (uint (pid (proc_at demo_procs 2)), Some 7)"
    using exit_wait_roundtrip [OF demo_procs_reach demo_procs_facts(2), of 1 7] demo_procs_facts(3,4,7) by simp
  then show ?thesis by (simp add: demo_procs_facts)
qed

theorem sigkill_terminates_witness:
  "pstate (proc_at (process_check_signals (\<lambda>_ _ t. t) demo_procs) 2) = PROC_ZOMBIE"
proof -
  have "pending_signals (proc_at demo_procs 2) AND sig_bit SIGKILL \<noteq> 0"
    by (simp add: demo_procs_facts sig_bit_def)
  then show ?thesis
    using sigkill_terminates [OF demo_procs_reach demo_procs_facts(2)] demo_procs_facts(3,5)
    by simp
qed

theorem delivery_agree_witness:
  "process_check_signals (\<lambda>_ _ t. t) demo_procs = signal_handle_pending (\<lambda>_ _ t. t) 2 demo_procs"
proof -
  have "(x AND NOT b) AND c = 0" if "x AND c = 0" for x b c :: u32
    using that by (auto simp: bit_eq_iff bit_simps)
  then have "signal_pending 2 demo_procs AND sig_bit s = 0" if "s \<in> {20, 21, 22}" for s
    using that by (auto simp: signal_pending_def demo_procs_facts sig_bit_def)
  then show ?thesis
    using delivery_agree [OF demo_procs_facts(2)] by blast
qed

end
