(* ===== verification/Ipc.thy ===== *)
theory Ipc
  imports Process Vmm
begin

text \<open>
  Inter-process communication, \<open>kernel/ipc/ipc.c\<close>: pipes (ring buffers behind file descriptors),
  shared memory regions (physical frames mapped on request) and message queues (rings of typed
  messages). The three static arrays are the fields of \<open>ipc\<close>; the operations that look at the
  current process take the process table as well, those that touch memory the frame bitmap and the
  page tables. User buffers are byte lists.
\<close>

section \<open>State\<close>

record pipe =
  pbuffer :: "u8 list"
  read_pos :: u32
  write_pos :: u32
  pcount :: u32
  readers :: u32
  writers :: u32
  read_fd :: int
  write_fd :: int
  pipe_in_use :: bool

record shm_region =
  shm_key :: u32
  shm_size :: u32
  phys_addr :: u32
  ref_count :: u32
  shm_in_use :: bool

record msg =
  mtype :: int
  mtext :: "u8 list"
  msize :: u32

record msg_queue =
  mq_key :: u32
  messages :: "msg list"
  mq_head :: u32
  mq_tail :: u32
  mq_count :: u32
  mq_in_use :: bool

record ipc =
  pipes :: "pipe list"
  shm_regions :: "shm_region list"
  msg_queues :: "msg_queue list"

abbreviation PIPE_BUF_SIZE :: nat where "PIPE_BUF_SIZE \<equiv> 4096"
abbreviation MAX_PIPES :: nat where "MAX_PIPES \<equiv> 32"
abbreviation MAX_SHM_REGIONS :: nat where "MAX_SHM_REGIONS \<equiv> 16"
abbreviation SHM_MAX_SIZE :: u32 where "SHM_MAX_SIZE \<equiv> 0x100000"
abbreviation MAX_MSG_QUEUES :: nat where "MAX_MSG_QUEUES \<equiv> 16"
abbreviation MAX_MSG_SIZE :: nat where "MAX_MSG_SIZE \<equiv> 256"
abbreviation MAX_MSGS_PER_QUEUE :: nat where "MAX_MSGS_PER_QUEUE \<equiv> 32"

text \<open>What \<open>memset(\<dots>, 0, \<dots>)\<close> makes of each structure.\<close>

definition zero_pipe :: pipe where
  "zero_pipe = \<lparr>pbuffer = replicate PIPE_BUF_SIZE 0, read_pos = 0, write_pos = 0, pcount = 0,
     readers = 0, writers = 0, read_fd = 0, write_fd = 0, pipe_in_use = False\<rparr>"

definition zero_shm :: shm_region where
  "zero_shm = \<lparr>shm_key = 0, shm_size = 0, phys_addr = 0, ref_count = 0, shm_in_use = False\<rparr>"

definition zero_msg :: msg where
  "zero_msg = \<lparr>mtype = 0, mtext = replicate MAX_MSG_SIZE 0, msize = 0\<rparr>"

definition zero_mq :: msg_queue where
  "zero_mq = \<lparr>mq_key = 0, messages = replicate MAX_MSGS_PER_QUEUE zero_msg, mq_head = 0, mq_tail = 0,
     mq_count = 0, mq_in_use = False\<rparr>"

definition ipc_init :: ipc where
  "ipc_init = \<lparr>pipes = replicate MAX_PIPES zero_pipe, shm_regions = replicate MAX_SHM_REGIONS zero_shm,
     msg_queues = replicate MAX_MSG_QUEUES zero_mq\<rparr>"

section \<open>Pipes\<close>

text \<open>One turn of the copy loops of \<open>pipe_write\<close> and \<open>pipe_read\<close>.\<close>

definition pipe_push :: "u8 \<Rightarrow> pipe \<Rightarrow> pipe" where
  "pipe_push b p = p\<lparr>pbuffer := (pbuffer p)[unat (write_pos p) := b],
     write_pos := (write_pos p + 1) mod 4096, pcount := pcount p + 1\<rparr>"

definition pipe_pop :: "pipe \<Rightarrow> u8 \<times> pipe" where
  "pipe_pop p = (pbuffer p ! unat (read_pos p),
     p\<lparr>read_pos := (read_pos p + 1) mod 4096, pcount := pcount p - 1\<rparr>)"

text \<open>The loops: the bytes read, and the number of bytes written, with the pipe afterwards.\<close>

fun pipe_get :: "nat \<Rightarrow> pipe \<Rightarrow> u8 list \<times> pipe" where
  "pipe_get 0 p = ([], p)"
| "pipe_get (Suc n) p =
     (if pcount p > 0 then (case pipe_pop p of (b, p1) \<Rightarrow> case pipe_get n p1 of (bs, p2) \<Rightarrow> (b # bs, p2))
      else ([], p))"

fun pipe_put :: "u8 list \<Rightarrow> pipe \<Rightarrow> nat \<times> pipe" where
  "pipe_put [] p = (0, p)"
| "pipe_put (b # bs) p =
     (if pcount p < 4096 then (case pipe_put bs (pipe_push b p) of (n, p') \<Rightarrow> (Suc n, p'))
      else (0, p))"

text \<open>
  The checks the operations share: the descriptor is in range and in use in the current process, and
  names a pipe slot. The result is the process's slot, the descriptor's index and the pipe id.
\<close>

definition fd_lookup :: "int \<Rightarrow> procs \<Rightarrow> (nat \<times> nat) option" where
  "fd_lookup fd t =
     (case process_current t of
        None \<Rightarrow> None
      | Some i \<Rightarrow>
          if fd < 0 \<or> int MAX_FDS_PER_PROC \<le> fd then None
          else if \<not> fd_in_use (fd_table (proc_at t i) ! nat fd) then None else Some (i, nat fd))"

definition upd_fd :: "nat \<Rightarrow> nat \<Rightarrow> (fd_entry \<Rightarrow> fd_entry) \<Rightarrow> procs \<Rightarrow> procs" where
  "upd_fd i k f = upd_proc i (\<lambda>p. p\<lparr>fd_table := (fd_table p)[k := f (fd_table p ! k)]\<rparr>)"

definition fd_pipe :: "int \<Rightarrow> procs \<Rightarrow> ipc \<Rightarrow> (nat \<times> nat \<times> nat) option" where
  "fd_pipe fd t s =
     (case fd_lookup fd t of
        None \<Rightarrow> None
      | Some (i, k) \<Rightarrow>
          let pipe_id = fd_pipe_id (fd_table (proc_at t i) ! k) in
          if pipe_id < 0 \<or> int MAX_PIPES \<le> pipe_id then None
          else if \<not> pipe_in_use (pipes s ! nat pipe_id) then None else Some (i, k, nat pipe_id))"

text \<open>
  The descriptor search of \<open>pipe_create\<close>: the first two free descriptors from 3 on, -1 for one that
  is not found.
\<close>

fun two_fds :: "fd_entry list \<Rightarrow> nat list \<Rightarrow> int \<Rightarrow> int \<Rightarrow> int \<times> int" where
  "two_fds ft [] rfd wfd = (rfd, wfd)"
| "two_fds ft (i # is) rfd wfd =
     (if rfd < 0 \<or> wfd < 0 then
        if \<not> fd_in_use (ft ! i)
        then if rfd < 0 then two_fds ft is (int i) wfd else two_fds ft is rfd (int i)
        else two_fds ft is rfd wfd
      else (rfd, wfd))"

text \<open>The result and, on success, the two descriptors stored in \<open>pipefd\<close>.\<close>

definition pipe_create :: "procs \<times> ipc \<Rightarrow> (int \<times> (int \<times> int) option) \<times> procs \<times> ipc" where
  "pipe_create st =
     (let (t, s) = st in
      case find_idx (\<lambda>p. \<not> pipe_in_use p) (pipes s) of
        None \<Rightarrow> ((-24, None), t, s)
      | Some pipe_id \<Rightarrow>
          (case process_current t of
             None \<Rightarrow> ((-1, None), t, s)
           | Some i \<Rightarrow>
               (case two_fds (fd_table (proc_at t i)) [3 ..< MAX_FDS_PER_PROC] (-1) (-1) of
                  (rfd, wfd) \<Rightarrow>
                    if rfd < 0 \<or> wfd < 0 then ((-24, None), t, s)
                    else let s1 = s\<lparr>pipes := (pipes s)[pipe_id := zero_pipe\<lparr>pipe_in_use := True,
                               readers := 1, writers := 1, read_fd := rfd, write_fd := wfd\<rparr>]\<rparr>;
                             t1 = upd_fd i (nat rfd) (\<lambda>f. f\<lparr>fd_in_use := True, fd_pipe_id := int pipe_id,
                               fd_flags := 0, fd_node := 0\<rparr>) t;
                             t2 = upd_fd i (nat wfd) (\<lambda>f. f\<lparr>fd_in_use := True, fd_pipe_id := int pipe_id,
                               fd_flags := 1, fd_node := 0\<rparr>) t1
                         in ((0, Some (rfd, wfd)), t2, s1))))"

definition pipe_read :: "int \<Rightarrow> u32 \<Rightarrow> procs \<times> ipc \<Rightarrow> (int \<times> u8 list) \<times> procs \<times> ipc" where
  "pipe_read fd count st =
     (let (t, s) = st in
      case fd_pipe fd t s of
        None \<Rightarrow> ((-9, []), t, s)
      | Some (i, k, p) \<Rightarrow>
          if fd_flags (fd_table (proc_at t i) ! k) \<noteq> 0 then ((-9, []), t, s)
          else (case pipe_get (unat count) (pipes s ! p) of
                  (bs, p') \<Rightarrow> ((int (length bs), bs), t, s\<lparr>pipes := (pipes s)[p := p']\<rparr>)))"

definition pipe_write :: "int \<Rightarrow> u8 list \<Rightarrow> procs \<times> ipc \<Rightarrow> int \<times> procs \<times> ipc" where
  "pipe_write fd buf st =
     (let (t, s) = st in
      case fd_pipe fd t s of
        None \<Rightarrow> (-9, t, s)
      | Some (i, k, p) \<Rightarrow>
          if fd_flags (fd_table (proc_at t i) ! k) \<noteq> 1 then (-9, t, s)
          else if readers (pipes s ! p) = 0
          then (-32, snd (process_signal (pid (proc_at t i)) (int SIGPIPE) t), s)
          else (case pipe_put buf (pipes s ! p) of
                  (n, p') \<Rightarrow> (int n, t, s\<lparr>pipes := (pipes s)[p := p']\<rparr>)))"

definition pipe_drop_end :: "u32 \<Rightarrow> pipe \<Rightarrow> pipe" where
  "pipe_drop_end flags p =
     (let p1 = (if flags = 0
                then (if readers p > 0 then p\<lparr>readers := readers p - 1\<rparr> else p)
                else (if writers p > 0 then p\<lparr>writers := writers p - 1\<rparr> else p))
      in if readers p1 = 0 \<and> writers p1 = 0 then p1\<lparr>pipe_in_use := False\<rparr> else p1)"

definition pipe_close :: "int \<Rightarrow> procs \<times> ipc \<Rightarrow> int \<times> procs \<times> ipc" where
  "pipe_close fd st =
     (let (t, s) = st in
      case fd_lookup fd t of
        None \<Rightarrow> (-9, t, s)
      | Some (i, k) \<Rightarrow>
          (case fd_pipe fd t s of
             None \<Rightarrow> (0, t, s)
           | Some (_, _, p) \<Rightarrow>
               (0, upd_fd i k (\<lambda>f. f\<lparr>fd_in_use := False, fd_pipe_id := -1\<rparr>) t,
                s\<lparr>pipes := (pipes s)[p := pipe_drop_end (fd_flags (fd_table (proc_at t i) ! k)) (pipes s ! p)]\<rparr>)))"

definition pipe_is_pipe :: "int \<Rightarrow> procs \<Rightarrow> ipc \<Rightarrow> bool" where
  "pipe_is_pipe fd t s \<longleftrightarrow> fd_pipe fd t s \<noteq> None"

section \<open>Shared memory\<close>

definition shm_pages :: "u32 \<Rightarrow> u32" where "shm_pages sz = (sz + 0xFFF) div 0x1000"

text \<open>
  The frames after the first: they are taken one by one, but only the address of the first is kept;
  \<open>Some i\<close> is the index at which the bitmap ran out.
\<close>

fun shm_more_frames :: "nat list \<Rightarrow> pmm \<Rightarrow> nat option \<times> pmm" where
  "shm_more_frames [] p = (None, p)"
| "shm_more_frames (i # is) p =
     (case pmm_alloc_frame p of (nx, p1) \<Rightarrow> if nx = 0 then (Some i, p1) else shm_more_frames is p1)"

definition free_run :: "u32 \<Rightarrow> nat \<Rightarrow> pmm \<Rightarrow> pmm" where
  "free_run phys n p = fold (\<lambda>j. pmm_free_frame (phys + of_nat j * 0x1000)) [0 ..< n] p"

definition shm_create :: "u32 \<Rightarrow> u32 \<Rightarrow> pmm \<times> ipc \<Rightarrow> int \<times> pmm \<times> ipc" where
  "shm_create key sz st =
     (let (p, s) = st in
      if sz = 0 \<or> sz > SHM_MAX_SIZE then (-22, p, s)
      else case find_idx (\<lambda>r. shm_in_use r \<and> shm_key r = key) (shm_regions s) of
             Some i \<Rightarrow> (int i, p, s)
           | None \<Rightarrow>
               (case find_idx (\<lambda>r. \<not> shm_in_use r) (shm_regions s) of
                  None \<Rightarrow> (-28, p, s)
                | Some shmid \<Rightarrow>
                    (case pmm_alloc_frame p of (phys, p1) \<Rightarrow>
                       if phys = 0 then (-12, p1, s)
                       else case shm_more_frames [1 ..< unat (shm_pages sz)] p1 of
                              (Some i, p2) \<Rightarrow> (-12, free_run phys i p2, s)
                            | (None, p2) \<Rightarrow> (int shmid, p2, s\<lparr>shm_regions := (shm_regions s)[shmid :=
                                \<lparr>shm_key = key, shm_size = sz, phys_addr = phys, ref_count = 0,
                                 shm_in_use = True\<rparr>]\<rparr>))))"

definition shm_attach :: "int \<Rightarrow> u32 \<Rightarrow> (pmm \<times> vmm) \<times> ipc \<Rightarrow> u32 \<times> (pmm \<times> vmm) \<times> ipc" where
  "shm_attach shmid vaddr st =
     (let (m, s) = st in
      if shmid < 0 \<or> int MAX_SHM_REGIONS \<le> shmid then (-1, m, s)
      else let r = shm_regions s ! nat shmid in
        if \<not> shm_in_use r then (-1, m, s)
        else (vaddr,
              fold (\<lambda>i. vmm_map_page (vaddr + of_nat i * 0x1000) (phys_addr r + of_nat i * 0x1000)
                      (PAGE_PRESENT OR PAGE_WRITE OR PAGE_USER)) [0 ..< unat (shm_pages (shm_size r))] m,
              s\<lparr>shm_regions := (shm_regions s)[nat shmid := r\<lparr>ref_count := ref_count r + 1\<rparr>]\<rparr>))"

definition shm_detach :: "u32 \<Rightarrow> vmm \<times> ipc \<Rightarrow> int \<times> vmm \<times> ipc" where
  "shm_detach vaddr st =
     (let (v, s) = st in
      case find_idx shm_in_use (shm_regions s) of
        None \<Rightarrow> (-22, v, s)
      | Some i \<Rightarrow>
          let r = shm_regions s ! i in
          (0, fold (\<lambda>j. vmm_unmap_page (vaddr + of_nat j * 0x1000)) [0 ..< unat (shm_pages (shm_size r))] v,
           s\<lparr>shm_regions := (shm_regions s)[i :=
             (if ref_count r > 0 then r\<lparr>ref_count := ref_count r - 1\<rparr> else r)]\<rparr>))"

definition shm_destroy :: "int \<Rightarrow> pmm \<times> ipc \<Rightarrow> int \<times> pmm \<times> ipc" where
  "shm_destroy shmid st =
     (let (p, s) = st in
      if shmid < 0 \<or> int MAX_SHM_REGIONS \<le> shmid then (-22, p, s)
      else let r = shm_regions s ! nat shmid in
        if \<not> shm_in_use r then (-22, p, s)
        else if ref_count r > 0 then (-16, p, s)
        else (0, free_run (phys_addr r) (unat (shm_pages (shm_size r))) p,
              s\<lparr>shm_regions := (shm_regions s)[nat shmid := r\<lparr>shm_in_use := False\<rparr>]\<rparr>))"

section \<open>Message queues\<close>

definition msgq_create :: "u32 \<Rightarrow> ipc \<Rightarrow> int \<times> ipc" where
  "msgq_create key s =
     (case find_idx (\<lambda>q. mq_in_use q \<and> mq_key q = key) (msg_queues s) of
        Some i \<Rightarrow> (int i, s)
      | None \<Rightarrow>
          (case find_idx (\<lambda>q. \<not> mq_in_use q) (msg_queues s) of
             None \<Rightarrow> (-28, s)
           | Some i \<Rightarrow> (int i, s\<lparr>msg_queues := (msg_queues s)[i := zero_mq\<lparr>mq_key := key, mq_in_use := True\<rparr>]\<rparr>)))"

definition mq_lookup :: "int \<Rightarrow> ipc \<Rightarrow> nat option" where
  "mq_lookup msqid s =
     (if msqid < 0 \<or> int MAX_MSG_QUEUES \<le> msqid then None
      else if \<not> mq_in_use (msg_queues s ! nat msqid) then None else Some (nat msqid))"

text \<open>\<open>memcpy(msg->mtext, msgp, msgsz)\<close> leaves the bytes behind the message as they were.\<close>

definition mq_put :: "u8 list \<Rightarrow> int \<Rightarrow> msg_queue \<Rightarrow> msg_queue" where
  "mq_put bs ty q = (let m = messages q ! unat (mq_tail q) in
     q\<lparr>messages := (messages q)[unat (mq_tail q) := \<lparr>mtype = ty,
         mtext = bs @ drop (length bs) (mtext m), msize = of_nat (length bs)\<rparr>],
       mq_tail := (mq_tail q + 1) mod 32, mq_count := mq_count q + 1\<rparr>)"

definition msgq_send :: "int \<Rightarrow> u8 list \<Rightarrow> int \<Rightarrow> ipc \<Rightarrow> int \<times> ipc" where
  "msgq_send msqid bs ty s =
     (if msqid < 0 \<or> int MAX_MSG_QUEUES \<le> msqid then (-22, s)
      else if length bs > MAX_MSG_SIZE then (-22, s)
      else let q = msg_queues s ! nat msqid in
        if \<not> mq_in_use q then (-22, s)
        else if mq_count q \<ge> 32 then (-11, s)
        else (0, s\<lparr>msg_queues := (msg_queues s)[nat msqid := mq_put bs ty q]\<rparr>))"

text \<open>The slot of the \<open>i\<close>-th message, and the loop that closes the gap left by message \<open>i\<close>.\<close>

definition mq_slot :: "msg_queue \<Rightarrow> nat \<Rightarrow> nat" where
  "mq_slot q i = (unat (mq_head q) + i) mod MAX_MSGS_PER_QUEUE"

definition mq_close_gap :: "nat \<Rightarrow> msg_queue \<Rightarrow> msg_queue" where
  "mq_close_gap i q = fold (\<lambda>j q. q\<lparr>messages := (messages q)[mq_slot q j := messages q ! mq_slot q (j + 1)]\<rparr>)
     [i ..< unat (mq_count q - 1)] q"

definition msgq_receive :: "int \<Rightarrow> u32 \<Rightarrow> int \<Rightarrow> ipc \<Rightarrow> (int \<times> u8 list) \<times> ipc" where
  "msgq_receive msqid msgsz ty s =
     (case mq_lookup msqid s of
        None \<Rightarrow> ((-22, []), s)
      | Some k \<Rightarrow>
          let q = msg_queues s ! k in
          if mq_count q = 0 then ((-11, []), s)
          else case find_idx (\<lambda>i. ty = 0 \<or> mtype (messages q ! mq_slot q i) = ty) [0 ..< unat (mq_count q)] of
                 None \<Rightarrow> ((-42, []), s)
               | Some i \<Rightarrow>
                   let m = messages q ! mq_slot q i;
                       copy_size = (if msize m < msgsz then msize m else msgsz);
                       q1 = mq_close_gap i q;
                       q2 = q1\<lparr>mq_count := mq_count q1 - 1,
                              mq_tail := (if mq_tail q1 > 0 then mq_tail q1 - 1 else 31)\<rparr>
                   in ((sint copy_size, take (unat copy_size) (mtext m)),
                       s\<lparr>msg_queues := (msg_queues s)[k := q2]\<rparr>))"

definition msgq_destroy :: "int \<Rightarrow> ipc \<Rightarrow> int \<times> ipc" where
  "msgq_destroy msqid s =
     (case mq_lookup msqid s of
        None \<Rightarrow> (-22, s)
      | Some k \<Rightarrow> (0, s\<lparr>msg_queues := (msg_queues s)[k := (msg_queues s ! k)\<lparr>mq_in_use := False\<rparr>]\<rparr>))"

text \<open>Named pipes are not implemented: both operations only report \<open>-ENOSYS\<close>.\<close>

definition fifo_create :: "string \<Rightarrow> int" where "fifo_create path = -38"
definition fifo_open :: "string \<Rightarrow> int \<Rightarrow> int" where "fifo_open path flags = -38"

end
