(* ===== verification/Ipc_Props.thy ===== *)
theory Ipc_Props
  imports Ipc Process_Props
begin

text \<open>
  Correctness of inter-process communication: a pipe is a bounded byte queue (an instance of
  \<open>bounded_fifo\<close>), a message queue is a bounded list of typed messages from which the oldest message
  of the requested type is taken, and what shared memory does when the frame bitmap does not hand
  out consecutive frames.
\<close>

section \<open>Pipes are bounded byte queues\<close>

definition pipe_content :: "pipe \<Rightarrow> u8 list" where
  "pipe_content p = ring_content (pbuffer p) (unat (read_pos p)) (unat (pcount p))"

definition pipe_ok :: "pipe \<Rightarrow> bool" where
  "pipe_ok p \<longleftrightarrow> length (pbuffer p) = PIPE_BUF_SIZE \<and> unat (read_pos p) < PIPE_BUF_SIZE \<and>
     unat (pcount p) \<le> PIPE_BUF_SIZE \<and>
     unat (write_pos p) = (unat (read_pos p) + unat (pcount p)) mod PIPE_BUF_SIZE"

lemma unat_ring_next:
  "unat (x :: u32) < 4096 \<Longrightarrow> unat ((x + 1) mod 4096) = (unat x + 1) mod 4096"
  "unat (x :: u32) < 32 \<Longrightarrow> unat ((x + 1) mod 32) = (unat x + 1) mod 32"
  unfolding unat_mod by (simp_all add: unat_word_ariths)

lemma unat_inc: "unat (x :: u32) < 4096 \<Longrightarrow> unat (x + 1) = unat x + 1"
  by (simp add: unat_word_ariths)

lemma unat_dec: "0 < (x :: u32) \<Longrightarrow> unat (x - 1) = unat x - 1"
  by (simp add: unat_sub_if' word_le_nat_alt word_less_nat_alt)

interpretation pipe_fifo: bounded_fifo pipe_push pipe_pop pipe_content PIPE_BUF_SIZE pipe_ok
proof (unfold_locales)
  fix p :: pipe and b :: u8
  assume ok: "pipe_ok p" and room: "length (pipe_content p) < PIPE_BUF_SIZE"
  have w: "unat (write_pos p) = (unat (read_pos p) + unat (pcount p)) mod PIPE_BUF_SIZE"
    using ok by (simp add: pipe_ok_def)
  then have w1: "unat (write_pos p) < 4096" by simp
  have n: "unat (pcount p + 1) = unat (pcount p) + 1" using room by (intro unat_inc) (simp add: pipe_content_def)
  show "pipe_ok (pipe_push b p)"
    using ok room n unat_ring_next(1) [OF w1] by (simp add: pipe_ok_def pipe_push_def pipe_content_def w mod_simps)
  show "pipe_content (pipe_push b p) = pipe_content p @ [b]"
    using ok room n ring_push [of "unat (pcount p)" "pbuffer p" "unat (read_pos p)" b] w
    by (simp add: pipe_content_def pipe_push_def pipe_ok_def)
next
  fix p :: pipe
  assume ok: "pipe_ok p" and ne: "pipe_content p \<noteq> []"
  then have "0 < length (pipe_content p)" by blast
  then have "0 < unat (pcount p)" by (simp add: pipe_content_def)
  then have c: "0 < pcount p" by (simp add: word_less_nat_alt)
  obtain m where m: "unat (pcount p) = Suc m" using \<open>0 < unat (pcount p)\<close> gr0_conv_Suc by blast
  have r: "unat (read_pos p) < 4096" using ok by (simp add: pipe_ok_def)
  show "pipe_ok (snd (pipe_pop p))"
    using ok c unat_dec [OF c] unat_ring_next(1) [OF r] m
    by (simp add: pipe_ok_def pipe_pop_def mod_simps)
  show "pipe_content p = fst (pipe_pop p) # pipe_content (snd (pipe_pop p))"
    using ok r \<open>0 < unat (pcount p)\<close> unat_dec [OF c] unat_ring_next(1) [OF r]
      ring_pop [of "unat (read_pos p)" "pbuffer p" "unat (pcount p)"]
    by (simp add: pipe_content_def pipe_pop_def pipe_ok_def)
qed

lemma length_pipe_content: "length (pipe_content p) = unat (pcount p)"
  by (simp add: pipe_content_def)

text \<open>The copy loops push and pop as many bytes as fit, or as there are.\<close>

lemma pipe_put_eq:
  "pipe_ok p \<Longrightarrow> pipe_put bs p =
     (min (length bs) (4096 - length (pipe_content p)), fold pipe_push (take (4096 - length (pipe_content p)) bs) p)"
proof (induction bs arbitrary: p)
  case (Cons b bs)
  show ?case
  proof (cases "pcount p < 4096")
    case True
    then have l: "length (pipe_content p) < PIPE_BUF_SIZE" by (simp add: length_pipe_content word_less_nat_alt)
    have "length (pipe_content (pipe_push b p)) = Suc (length (pipe_content p))"
      using pipe_fifo.push_content [OF Cons.prems l] by simp
    then show ?thesis
      using True l Cons.IH [OF pipe_fifo.push_ok [OF Cons.prems l]]
      by (simp add: take_Cons' min_def) linarith
  next
    case False
    then have "PIPE_BUF_SIZE \<le> length (pipe_content p)" by (simp add: length_pipe_content word_less_nat_alt)
    then show ?thesis using False by simp
  qed
qed simp

lemma pipe_get_eq:
  "pipe_ok p \<Longrightarrow> pipe_get n p = pop_n pipe_pop (min n (length (pipe_content p))) p"
proof (induction n arbitrary: p)
  case (Suc n)
  show ?case
  proof (cases "0 < pcount p")
    case True
    then have "pipe_content p \<noteq> []" using length_pipe_content [of p] by (auto simp: word_less_nat_alt)
    then show ?thesis
      using True pipe_fifo.pop_content [OF Suc.prems] Suc.IH [OF pipe_fifo.pop_ok [OF Suc.prems]]
      by (cases "pipe_pop p") (auto simp: min_Suc_Suc length_Cons simp del: pop_n.simps(1) split: prod.split
          dest: arg_cong [of _ _ length])
  next
    case False
    then show ?thesis using length_pipe_content [of p] by (simp add: word_less_nat_alt)
  qed
qed simp


lemma pipe_put_keeps: "readers (snd (pipe_put bs p)) = readers p" "pipe_in_use (snd (pipe_put bs p)) = pipe_in_use p"
  by (induction bs p rule: pipe_put.induct) (auto simp: pipe_push_def split: prod.splits)

lemma fd_pipe_upd:
  assumes "fd_pipe fd t s = Some (i, k, q)" and "pipe_in_use p'"
  shows "fd_pipe fd t (s\<lparr>pipes := (pipes s)[p := p']\<rparr>) = Some (i, k, q)"
  using assms unfolding fd_pipe_def Let_def
  by (cases "p < length (pipes s)") (auto simp: nth_list_update not_less list_update_beyond split: option.splits if_splits)

lemma fd_pipe_Some: "fd_pipe fd t s = Some (i, k, p) \<Longrightarrow> p < MAX_PIPES \<and> pipe_in_use (pipes s ! p)"
  by (auto simp: fd_pipe_def Let_def split: option.splits if_splits)

text \<open>
  C11. A pipe is a first-in first-out byte queue of 4096 bytes: a write through the write end takes
  as many bytes as fit and reports their number, and a read through the read end then returns the
  oldest bytes, at most as many as asked for, and removes exactly those. Neither touches the process
  table or another pipe.
\<close>

theorem pipe_write_read:
  fixes bs :: "u8 list" and cnt :: u32
  assumes w: "fd_pipe wfd t s = Some (i, kw, p)" "fd_flags (fd_table (proc_at t i) ! kw) = 1"
    and r: "fd_pipe rfd t s = Some (j, kr, p)" "fd_flags (fd_table (proc_at t j) ! kr) = 0"
    and ok: "pipe_ok (pipes s ! p)" "readers (pipes s ! p) \<noteq> 0" "length (pipes s) = MAX_PIPES"
  defines "n \<equiv> min (length bs) (4096 - length (pipe_content (pipes s ! p)))"
  defines "q \<equiv> pipe_content (pipes s ! p) @ take n bs"
  shows "\<exists>s1 s2. pipe_write wfd bs (t, s) = (int n, t, s1) \<and> pipe_content (pipes s1 ! p) = q \<and>
    pipe_read rfd cnt (t, s1) = ((int (min (unat cnt) (length q)), take (unat cnt) q), t, s2) \<and>
    pipe_content (pipes s2 ! p) = drop (unat cnt) q \<and> pipe_ok (pipes s2 ! p) \<and>
    (\<forall>l < MAX_PIPES. l \<noteq> p \<longrightarrow> pipes s2 ! l = pipes s ! l)"
proof -
  let ?p = "pipes s ! p" and ?k = "4096 - length (pipe_content (pipes s ! p))"
  note P = fd_pipe_Some [OF w(1)]
  define p1 where "p1 = fold pipe_push (take ?k bs) ?p"
  have put: "pipe_put bs ?p = (n, p1)" using pipe_put_eq [OF ok(1)] by (simp add: n_def p1_def)
  have tk: "take ?k bs = take n bs" by (simp add: n_def min_def)
  have "length (pipe_content ?p) \<le> PIPE_BUF_SIZE" using ok(1) by (simp add: pipe_ok_def length_pipe_content)
  then have p1: "pipe_ok p1" "pipe_content p1 = q"
    using pipe_fifo.push_all [OF ok(1), of "take n bs"] by (simp_all add: p1_def tk q_def n_def)
  have u1: "pipe_in_use p1" using pipe_put_keeps(2) [of bs ?p] put P by simp
  define s1 where "s1 = s\<lparr>pipes := (pipes s)[p := p1]\<rparr>"
  have at1: "pipes s1 ! p = p1" using P ok(3) by (simp add: s1_def)
  have wr: "pipe_write wfd bs (t, s) = (int n, t, s1)"
    using w ok(2) put by (simp add: pipe_write_def s1_def)
  define p2 where "p2 = snd (pipe_get (unat cnt) p1)"
  define m where "m = min (unat cnt) (length q)"
  have "pipe_get (unat cnt) p1 = pop_n pipe_pop m p1" using pipe_get_eq [OF p1(1)] p1(2) by (simp add: m_def)
  then have p2: "fst (pipe_get (unat cnt) p1) = take m q" "pipe_content p2 = drop m q" "pipe_ok p2"
    using pipe_fifo.pop_all [OF p1(1), of m] p1(2) by (simp_all add: p2_def m_def)
  have mt: "take m q = take (unat cnt) q" "drop m q = drop (unat cnt) q" "length (take (unat cnt) q) = m"
    by (simp_all add: m_def min_def)
  define s2 where "s2 = s1\<lparr>pipes := (pipes s1)[p := p2]\<rparr>"
  have r1: "fd_pipe rfd t s1 = Some (j, kr, p)" unfolding s1_def by (rule fd_pipe_upd [OF r(1) u1])
  have rd: "pipe_read rfd cnt (t, s1) = ((int m, take (unat cnt) q), t, s2)"
    using r1 r(2) p2(1) mt at1 by (simp add: pipe_read_def s2_def p2_def case_prod_beta)
  show ?thesis
    using wr rd at1 p1(2) p2(2,3) mt P ok(3)
    by (intro exI [of _ s1] exI [of _ s2]) (auto simp: s2_def s1_def m_def)
qed

section \<open>Message queues\<close>

definition mq_ok :: "msg_queue \<Rightarrow> bool" where
  "mq_ok q \<longleftrightarrow> length (messages q) = MAX_MSGS_PER_QUEUE \<and> unat (mq_head q) < MAX_MSGS_PER_QUEUE \<and>
     unat (mq_count q) \<le> MAX_MSGS_PER_QUEUE \<and>
     unat (mq_tail q) = (unat (mq_head q) + unat (mq_count q)) mod MAX_MSGS_PER_QUEUE \<and>
     (\<forall>m \<in> set (messages q). length (mtext m) = MAX_MSG_SIZE \<and> unat (msize m) \<le> MAX_MSG_SIZE)"

text \<open>What a queue holds: types and texts, oldest first.\<close>

definition msg_val :: "msg \<Rightarrow> int \<times> u8 list" where
  "msg_val m = (mtype m, take (unat (msize m)) (mtext m))"

definition mq_content :: "msg_queue \<Rightarrow> (int \<times> u8 list) list" where
  "mq_content q = map msg_val (ring_content (messages q) (unat (mq_head q)) (unat (mq_count q)))"

lemma length_mq_content [simp]: "length (mq_content q) = unat (mq_count q)"
  by (simp add: mq_content_def)

lemma mq_content_nth:
  "mq_ok q \<Longrightarrow> i < unat (mq_count q) \<Longrightarrow> mq_content q ! i = msg_val (messages q ! mq_slot q i)"
  by (simp add: mq_content_def ring_content_nth mq_slot_def mq_ok_def)

lemma set_list_updateE: "y \<in> set (xs[i := x]) \<Longrightarrow> y = x \<or> y \<in> set xs"
  using set_update_subset_insert [of xs i x] by blast

lemma mq_put_ok [zos_inv]:
  assumes ok: "mq_ok q" and c: "mq_count q < 32" and l: "length bs \<le> MAX_MSG_SIZE"
  shows "mq_ok (mq_put bs ty q)" and "mq_content (mq_put bs ty q) = mq_content q @ [(ty, bs)]"
proof -
  have cn: "unat (mq_count q) < 32" using c by (simp add: word_less_nat_alt)
  then have n: "unat (mq_count q + 1) = unat (mq_count q) + 1" by (intro unat_inc) simp
  have t: "unat (mq_tail q) = (unat (mq_head q) + unat (mq_count q)) mod 32" using ok by (simp add: mq_ok_def)
  then have t1: "unat (mq_tail q) < 32" by simp
  have lb: "unat (of_nat (length bs) :: u32) = length bs" using l by (simp add: unat_of_nat)
  have "messages q ! unat (mq_tail q) \<in> set (messages q)" using ok t1 by (simp add: mq_ok_def)
  then have tl: "length (mtext (messages q ! unat (mq_tail q))) = MAX_MSG_SIZE" using ok by (simp add: mq_ok_def)
  show "mq_ok (mq_put bs ty q)"
    using ok cn n l lb tl unat_ring_next(2) [OF t1]
    by (auto simp: mq_ok_def mq_put_def Let_def t mod_simps dest!: set_list_updateE)
  show "mq_content (mq_put bs ty q) = mq_content q @ [(ty, bs)]"
    using ok cn n t lb ring_push [of "unat (mq_count q)" "messages q" "unat (mq_head q)"]
    by (simp add: mq_content_def mq_put_def Let_def mq_ok_def msg_val_def)
qed

lemma mq_slot_neq: "i < j \<Longrightarrow> j < MAX_MSGS_PER_QUEUE \<Longrightarrow> mq_slot q i \<noteq> mq_slot q j"
  unfolding mq_slot_def by (rule ring_slots_distinct)

text \<open>Closing the gap moves every later message one place forward.\<close>

lemma mq_close_gap_loop:
  assumes ok: "mq_ok q" and "i \<le> k" and "k < MAX_MSGS_PER_QUEUE"
  defines "f \<equiv> \<lambda>j q. q\<lparr>messages := (messages q)[mq_slot q j := messages q ! mq_slot q (j + 1)]\<rparr>"
  shows "mq_head (fold f [i ..< k] q) = mq_head q \<and> mq_count (fold f [i ..< k] q) = mq_count q \<and>
    mq_tail (fold f [i ..< k] q) = mq_tail q \<and> mq_ok (fold f [i ..< k] q) \<and>
    (\<forall>l < MAX_MSGS_PER_QUEUE. messages (fold f [i ..< k] q) ! mq_slot q l =
      (if i \<le> l \<and> l < k then messages q ! mq_slot q (l + 1) else messages q ! mq_slot q l))"
  using assms(2,3)
proof (induction k)
  case 0
  then show ?case using ok by simp
next
  case (Suc k)
  show ?case
  proof (cases "i \<le> k")
    case False
    then have "i = Suc k" using Suc.prems by simp
    then show ?thesis using ok by auto
  next
    case True
    let ?q = "fold f [i ..< k] q"
    have IH: "mq_head ?q = mq_head q" "mq_count ?q = mq_count q" "mq_tail ?q = mq_tail q" "mq_ok ?q"
      "\<And>l. l < MAX_MSGS_PER_QUEUE \<Longrightarrow> messages ?q ! mq_slot q l =
        (if i \<le> l \<and> l < k then messages q ! mq_slot q (l + 1) else messages q ! mq_slot q l)"
      using Suc True by simp_all
    have sl: "mq_slot ?q j = mq_slot q j" for j by (simp add: mq_slot_def IH(1))
    have step: "fold f [i ..< Suc k] q =
        ?q\<lparr>messages := (messages ?q)[mq_slot q k := messages ?q ! mq_slot q (k + 1)]\<rparr>"
    proof -
      have "fold f [i ..< Suc k] q = f k ?q" using True by simp
      moreover have "f k x = x\<lparr>messages := (messages x)[mq_slot x k := messages x ! mq_slot x (k + 1)]\<rparr>" for x
        by (simp add: f_def)
      ultimately show ?thesis by (simp only: sl)
    qed
    have len: "length (messages ?q) = MAX_MSGS_PER_QUEUE" using IH(4) by (simp add: mq_ok_def)
    have lt: "mq_slot q j < MAX_MSGS_PER_QUEUE" for j by (simp add: mq_slot_def)
    have src: "messages ?q ! mq_slot q (k + 1) = messages q ! mq_slot q (k + 1)"
      using IH(5) [of "k + 1"] Suc.prems by simp
    have "messages (fold f [i ..< Suc k] q) ! mq_slot q l =
        (if i \<le> l \<and> l < Suc k then messages q ! mq_slot q (l + 1) else messages q ! mq_slot q l)"
      if l: "l < MAX_MSGS_PER_QUEUE" for l
    proof (cases "l = k")
      case True
      then show ?thesis unfolding step using \<open>i \<le> k\<close> len lt src by simp
    next
      case False
      then have "mq_slot q k \<noteq> mq_slot q l"
        using mq_slot_neq [of l k q] mq_slot_neq [of k l q] l Suc.prems by (metis Suc_lessD nat_neq_iff)
      then show ?thesis unfolding step using IH(5) [OF l] False by auto
    qed
    moreover have "mq_ok (fold f [i ..< Suc k] q)"
    proof -
      have "messages ?q ! mq_slot q (k + 1) \<in> set (messages ?q)" using len lt by simp
      then show ?thesis using IH(4) unfolding step mq_ok_def by (auto dest!: set_list_updateE)
    qed
    moreover have "mq_head (fold f [i ..< Suc k] q) = mq_head q" "mq_count (fold f [i ..< Suc k] q) = mq_count q"
      "mq_tail (fold f [i ..< Suc k] q) = mq_tail q"
      unfolding step using IH(1-3) by simp_all
    ultimately show ?thesis by blast
  qed
qed

lemma mq_close_gap_content:
  assumes ok: "mq_ok q" and i: "i < unat (mq_count q)"
  shows "mq_head (mq_close_gap i q) = mq_head q" and "mq_count (mq_close_gap i q) = mq_count q"
    and "mq_tail (mq_close_gap i q) = mq_tail q" and "mq_ok (mq_close_gap i q)"
    and "map (\<lambda>l. msg_val (messages (mq_close_gap i q) ! mq_slot q l)) [0 ..< unat (mq_count q) - 1] =
      take i (mq_content q) @ drop (Suc i) (mq_content q)"
proof -
  have c: "0 < mq_count q" using i by (simp add: word_less_nat_alt)
  define n where "n = unat (mq_count q) - 1"
  have n: "unat (mq_count q - 1) = n" using unat_dec [OF c] by (simp add: n_def)
  have le: "i \<le> n" "n < MAX_MSGS_PER_QUEUE" "Suc n = unat (mq_count q)"
    using i ok by (auto simp: n_def mq_ok_def)
  note L = mq_close_gap_loop [OF ok le(1,2), folded n, folded mq_close_gap_def, unfolded n]
  show "mq_head (mq_close_gap i q) = mq_head q" "mq_count (mq_close_gap i q) = mq_count q"
    "mq_tail (mq_close_gap i q) = mq_tail q" "mq_ok (mq_close_gap i q)"
    using L by simp_all
  have "messages (mq_close_gap i q) ! mq_slot q l = messages q ! mq_slot q (if i \<le> l then Suc l else l)"
    if "l < n" for l
    using L that le(2) by auto
  then have "msg_val (messages (mq_close_gap i q) ! mq_slot q l) = mq_content q ! (if i \<le> l then Suc l else l)"
    if "l < n" for l
    using that le(3) by (simp add: mq_content_nth [OF ok])
  then show "map (\<lambda>l. msg_val (messages (mq_close_gap i q) ! mq_slot q l)) [0 ..< unat (mq_count q) - 1] =
      take i (mq_content q) @ drop (Suc i) (mq_content q)"
    using le unfolding n_def [symmetric]
    by (intro nth_equalityI) (auto simp: nth_append min_def)
qed

text \<open>The abstract queue: the oldest message of the type asked for (0: any) is taken.\<close>

definition take_msg :: "int \<Rightarrow> (int \<times> u8 list) list \<Rightarrow> ((int \<times> u8 list) \<times> (int \<times> u8 list) list) option" where
  "take_msg ty xs = (case find_idx (\<lambda>m. ty = 0 \<or> fst m = ty) xs of
     None \<Rightarrow> None | Some i \<Rightarrow> Some (xs ! i, take i xs @ drop (Suc i) xs))"

lemma find_idx_map: "find_idx P (map f xs) = find_idx (P \<circ> f) xs"
  by (induction xs) auto

lemma find_idx_cong: "(\<And>x. x \<in> set xs \<Longrightarrow> P x = Q x) \<Longrightarrow> find_idx P xs = find_idx Q xs"
  by (induction xs) auto

lemma mq_search:
  assumes ok: "mq_ok q"
  shows "find_idx (\<lambda>i. ty = 0 \<or> mtype (messages q ! mq_slot q i) = ty) [0 ..< unat (mq_count q)] =
    find_idx (\<lambda>m. ty = 0 \<or> fst m = ty) (mq_content q)"
proof -
  have "mq_content q = map (\<lambda>i. msg_val (messages q ! mq_slot q i)) [0 ..< unat (mq_count q)]"
    using ok by (simp add: mq_content_def ring_content_def mq_slot_def mq_ok_def)
  then show ?thesis by (simp add: find_idx_map comp_def msg_val_def)
qed

text \<open>The queue after the message in place \<open>i\<close> has been taken out.\<close>

definition mq_taken :: "nat \<Rightarrow> msg_queue \<Rightarrow> msg_queue" where
  "mq_taken i q = (let q1 = mq_close_gap i q in q1\<lparr>mq_count := mq_count q1 - 1,
     mq_tail := (if mq_tail q1 > 0 then mq_tail q1 - 1 else 31)\<rparr>)"

lemma mq_taken_ok:
  assumes ok: "mq_ok q" and i: "i < unat (mq_count q)"
  shows "mq_ok (mq_taken i q)" and "mq_content (mq_taken i q) = take i (mq_content q) @ drop (Suc i) (mq_content q)"
proof -
  note g = mq_close_gap_content [OF ok i]
  have c: "0 < mq_count q" using i by (simp add: word_less_nat_alt)
  obtain n where n: "unat (mq_count q) = Suc n" using i gr0_conv_Suc by (metis not_less_zero not0_implies_Suc)
  have n1: "unat (mq_count q - 1) = n" using unat_dec [OF c] n by simp
  have t: "unat (mq_tail q) = (unat (mq_head q) + Suc n) mod 32" using ok n by (simp add: mq_ok_def)
  have "unat (if mq_tail q > 0 then mq_tail q - 1 else 31) = (unat (mq_head q) + n) mod 32"
  proof (cases "mq_tail q > 0")
    case True
    then have "(unat (mq_head q) + Suc n) mod 32 \<noteq> 0" using t by (simp add: word_less_nat_alt)
    then show ?thesis using True unat_dec [OF True] t by (simp add: mod_Suc split: if_splits)
  next
    case False
    then have "unat (mq_tail q) = 0" by (simp add: word_less_nat_alt)
    then have "Suc (unat (mq_head q) + n) mod 32 = 0" using t by simp
    then have "(unat (mq_head q) + n) mod 32 = 31" by (simp add: mod_Suc split: if_splits)
    then show ?thesis using False by simp
  qed
  moreover define tl where "tl = (if mq_tail q > 0 then mq_tail q - 1 else 31)"
  ultimately have "unat tl = (unat (mq_head q) + n) mod 32" by simp
  then show "mq_ok (mq_taken i q)"
    using g(1-4) n1 n unfolding mq_taken_def Let_def mq_ok_def g(3) tl_def [symmetric] by simp
  have s: "mq_slot (mq_taken i q) l = mq_slot q l" for l by (simp add: mq_slot_def mq_taken_def Let_def g(1))
  have "mq_content (mq_taken i q) = map (\<lambda>l. msg_val (messages (mq_close_gap i q) ! mq_slot q l)) [0 ..< n]"
    using g(1,2,4) n1 by (simp add: mq_content_def ring_content_def mq_taken_def Let_def mq_slot_def mq_ok_def)
  then show "mq_content (mq_taken i q) = take i (mq_content q) @ drop (Suc i) (mq_content q)"
    using g(5) n by simp
qed

lemma mq_content_text:
  assumes ok: "mq_ok q" and i: "i < unat (mq_count q)"
  shows "length (snd (mq_content q ! i)) = unat (msize (messages q ! mq_slot q i))"
    and "unat (msize (messages q ! mq_slot q i)) \<le> MAX_MSG_SIZE"
proof -
  have "messages q ! mq_slot q i \<in> set (messages q)" using ok by (simp add: mq_ok_def mq_slot_def)
  then show "unat (msize (messages q ! mq_slot q i)) \<le> MAX_MSG_SIZE"
    "length (snd (mq_content q ! i)) = unat (msize (messages q ! mq_slot q i))"
    using ok by (auto simp: mq_content_nth [OF ok i] msg_val_def mq_ok_def)
qed

lemma msgq_send_ok:
  assumes k: "mq_lookup msqid s = Some k" and ok: "mq_ok (msg_queues s ! k)"
  defines "c \<equiv> mq_content (msg_queues s ! k)"
  shows "length bs \<le> MAX_MSG_SIZE \<longrightarrow>
      (if length c = MAX_MSGS_PER_QUEUE then msgq_send msqid bs ty s = (-11, s)
       else \<exists>q. mq_ok q \<and> mq_content q = c @ [(ty, bs)] \<and>
         msgq_send msqid bs ty s = (0, s\<lparr>msg_queues := (msg_queues s)[k := q]\<rparr>))"
proof -
  let ?q = "msg_queues s ! k"
  have id: "msqid \<ge> 0" "msqid < int MAX_MSG_QUEUES" "k = nat msqid" "mq_in_use ?q"
    using k by (auto simp: mq_lookup_def split: if_splits)
  have cn: "length c = unat (mq_count ?q)" by (simp add: c_def)
  have le: "unat (mq_count ?q) \<le> MAX_MSGS_PER_QUEUE" using ok by (simp add: mq_ok_def)
  have full: "mq_count ?q \<ge> 32 \<longleftrightarrow> length c = MAX_MSGS_PER_QUEUE" using le cn by (auto simp: word_le_nat_alt)
  show ?thesis
    using id full mq_put_ok [OF ok, of bs ty] by (auto simp: msgq_send_def Let_def c_def not_le)
qed

lemma msgq_receive_ok:
  fixes n :: u32 and ty :: int
  assumes k: "mq_lookup msqid s = Some k" and ok: "mq_ok (msg_queues s ! k)"
  defines "c \<equiv> mq_content (msg_queues s ! k)"
  shows "case take_msg ty c of
       None \<Rightarrow> msgq_receive msqid n ty s = ((if c = [] then -11 else -42, []), s)
     | Some (m, rest) \<Rightarrow> \<exists>q. mq_ok q \<and> mq_content q = rest \<and>
         msgq_receive msqid n ty s = ((int (min (length (snd m)) (unat n)), take (unat n) (snd m)),
           s\<lparr>msg_queues := (msg_queues s)[k := q]\<rparr>)"
proof -
  let ?q = "msg_queues s ! k"
  have id: "msqid \<ge> 0" "msqid < int MAX_MSG_QUEUES" "k = nat msqid" "mq_in_use ?q"
    using k by (auto simp: mq_lookup_def split: if_splits)
  have cn: "length c = unat (mq_count ?q)" by (simp add: c_def)
  have le: "unat (mq_count ?q) \<le> MAX_MSGS_PER_QUEUE" using ok by (simp add: mq_ok_def)
  have full: "mq_count ?q \<ge> 32 \<longleftrightarrow> length c = MAX_MSGS_PER_QUEUE" using le cn by (auto simp: word_le_nat_alt)
  show ?thesis
  proof (cases "find_idx (\<lambda>m. ty = 0 \<or> fst m = ty) c")
    case None
    have "c = [] \<longleftrightarrow> mq_count ?q = 0" using cn by (metis length_0_conv unat_eq_0)
    then show ?thesis
      unfolding take_msg_def None using None mq_search [OF ok, of ty]
      by (simp add: msgq_receive_def k Let_def c_def del: find_idx_None)
  next
    case (Some i)
    then have i: "i < unat (mq_count ?q)" using find_idx_SomeD cn by metis
    then have nz: "mq_count ?q \<noteq> 0" by auto
    let ?m = "messages ?q ! mq_slot ?q i"
    note tx = mq_content_text [OF ok i]
    let ?cs = "if msize ?m < n then msize ?m else n"
    have uc: "unat ?cs = min (unat (msize ?m)) (unat n)" by (simp add: word_less_nat_alt min_def)
    then have "unat ?cs < 2147483648" using tx(2) by linarith
    then have "?cs < 0x80000000" unfolding word_less_nat_alt by simp
    then have "sint ?cs = uint ?cs" by (rule sint_small)
    also have "\<dots> = int (unat ?cs)" by simp
    also have "\<dots> = int (min (length (snd (c ! i))) (unat n))" unfolding uc c_def tx(1) ..
    finally have "sint ?cs = int (min (length (snd (c ! i))) (unat n))" .
    moreover have "take (unat ?cs) (mtext ?m) = take (unat n) (snd (c ! i))"
      by (auto simp: c_def mq_content_nth [OF ok i] msg_val_def word_less_nat_alt min_def)
    moreover have f: "find_idx (\<lambda>i. ty = 0 \<or> mtype (messages ?q ! mq_slot ?q i) = ty) [0 ..< unat (mq_count ?q)] = Some i"
      using Some mq_search [OF ok, of ty] by (simp add: c_def)
    moreover have "msgq_receive msqid n ty s = ((sint ?cs, take (unat ?cs) (mtext ?m)),
        s\<lparr>msg_queues := (msg_queues s)[k := mq_taken i ?q]\<rparr>)"
      unfolding msgq_receive_def k option.case Let_def f mq_taken_def using nz by simp
    ultimately have "msgq_receive msqid n ty s = ((int (min (length (snd (c ! i))) (unat n)), take (unat n) (snd (c ! i))),
        s\<lparr>msg_queues := (msg_queues s)[k := mq_taken i ?q]\<rparr>)"
      by simp
    then show ?thesis
      unfolding take_msg_def Some using mq_taken_ok [OF ok i] by (auto simp: c_def)
  qed
qed

text \<open>
  C12. A message queue implements a bounded list of typed messages: \<open>msgq_send\<close> appends, or reports
  a full queue; \<open>msgq_receive\<close> takes the oldest message of the requested type (0 for any), returns
  its text cut to the caller's buffer, keeps the order of the others, and reports an empty queue and
  a missing type by their error codes.
\<close>

theorem msgq_refines:
  assumes "mq_lookup msqid s = Some k" and "mq_ok (msg_queues s ! k)"
  defines "c \<equiv> mq_content (msg_queues s ! k)"
  shows "(length bs \<le> MAX_MSG_SIZE \<longrightarrow>
      (if length c = MAX_MSGS_PER_QUEUE then msgq_send msqid bs ty s = (-11, s)
       else \<exists>q. mq_ok q \<and> mq_content q = c @ [(ty, bs)] \<and>
         msgq_send msqid bs ty s = (0, s\<lparr>msg_queues := (msg_queues s)[k := q]\<rparr>))) \<and>
    (case take_msg ty c of
       None \<Rightarrow> msgq_receive msqid n ty s = ((if c = [] then -11 else -42, []), s)
     | Some (m, rest) \<Rightarrow> \<exists>q. mq_ok q \<and> mq_content q = rest \<and>
         msgq_receive msqid n ty s = ((int (min (length (snd m)) (unat n)), take (unat n) (snd m)),
           s\<lparr>msg_queues := (msg_queues s)[k := q]\<rparr>))"
  unfolding c_def using msgq_send_ok [OF assms(1,2)] msgq_receive_ok [OF assms(1,2)] by blast

section \<open>Creating a pipe\<close>

lemma two_fds_full: "two_fds ft is (int a) (int b) = (int a, int b)"
  by (induction "is") auto

lemma two_fds_one: "two_fds ft is (int a) (-1) =
    (int a, case filter (\<lambda>i. \<not> fd_in_use (ft ! i)) is of [] \<Rightarrow> -1 | y # _ \<Rightarrow> int y)"
  by (induction "is") (auto simp: two_fds_full)

lemma two_fds_eq: "two_fds ft is (-1) (-1) = (case filter (\<lambda>i. \<not> fd_in_use (ft ! i)) is of
    [] \<Rightarrow> (-1, -1) | [x] \<Rightarrow> (int x, -1) | x # y # _ \<Rightarrow> (int x, int y))"
  by (induction "is") (auto simp: two_fds_one split: list.split)

lemma upd_fd_wf:
  assumes wf: "procs_wf t" and c: "process_current t = Some i"
  shows "procs_wf (upd_fd i k f t)" and "process_current (upd_fd i k f t) = Some i"
proof -
  note b = current_bounds [OF wf c]
  show wf1: "procs_wf (upd_fd i k f t)"
    using b(1) procs_wf_ok [OF wf b(1)] unfolding upd_fd_def
    by (intro upd_mild_wf [OF wf]) (simp_all add: proc_ok_def)
  show "process_current (upd_fd i k f t) = Some i"
    unfolding process_current_def process_get_Some [OF wf1] using b wf by (simp add: upd_fd_def)
qed

lemma upd_fd_at:
  assumes "i < length (process_table t)"
  shows "fd_table (proc_at (upd_fd i k f t) i) = (fd_table (proc_at t i))[k := f (fd_table (proc_at t i) ! k)]"
  using assms by (simp add: upd_fd_def)

lemma pipe_create_outcome:
  assumes wf: "procs_wf t" and c: "process_current t = Some i" and ln: "length (pipes s) = MAX_PIPES"
    and p: "find_idx (\<lambda>p. \<not> pipe_in_use p) (pipes s) = Some p"
    and fds: "filter (\<lambda>k. \<not> fd_in_use (fd_table (proc_at t i) ! k)) [3 ..< MAX_FDS_PER_PROC] = a # b # rest"
  shows "\<exists>t' s'. pipe_create (t, s) = ((0, Some (int a, int b)), t', s') \<and> procs_wf t' \<and>
    fd_pipe (int a) t' s' = Some (i, a, p) \<and> fd_flags (fd_table (proc_at t' i) ! a) = 0 \<and>
    fd_pipe (int b) t' s' = Some (i, b, p) \<and> fd_flags (fd_table (proc_at t' i) ! b) = 1 \<and>
    pipe_ok (pipes s' ! p) \<and> pipe_content (pipes s' ! p) = [] \<and> readers (pipes s' ! p) = 1 \<and>
    writers (pipes s' ! p) = 1 \<and> length (pipes s') = MAX_PIPES \<and> (\<forall>l. l \<noteq> p \<longrightarrow> pipes s' ! l = pipes s ! l)"
proof -
  note bd = current_bounds [OF wf c]
  have ab: "a \<in> {3 ..< MAX_FDS_PER_PROC}" "b \<in> {3 ..< MAX_FDS_PER_PROC}" "a \<noteq> b"
  proof -
    have "set (a # b # rest) \<subseteq> {3 ..< MAX_FDS_PER_PROC}" unfolding fds [symmetric]
      using filter_is_subset [of _ "[3 ..< MAX_FDS_PER_PROC]"] by (simp only: set_upt)
    then show "a \<in> {3 ..< MAX_FDS_PER_PROC}" "b \<in> {3 ..< MAX_FDS_PER_PROC}" by simp_all
    have "distinct (a # b # rest)" unfolding fds [symmetric] by (intro distinct_filter distinct_upt)
    then show "a \<noteq> b" by simp
  qed
  have pl: "p < MAX_PIPES" using find_idx_SomeD [OF p] ln by simp
  define fa :: "fd_entry \<Rightarrow> fd_entry" where "fa = (\<lambda>f. f\<lparr>fd_in_use := True, fd_pipe_id := int p, fd_flags := 0, fd_node := 0\<rparr>)"
  define fb :: "fd_entry \<Rightarrow> fd_entry" where "fb = (\<lambda>f. f\<lparr>fd_in_use := True, fd_pipe_id := int p, fd_flags := 1, fd_node := 0\<rparr>)"
  define t1 where "t1 = upd_fd i a fa t"
  define t2 where "t2 = upd_fd i b fb t1"
  define np where "np = zero_pipe\<lparr>pipe_in_use := True, readers := 1, writers := 1, read_fd := int a, write_fd := int b\<rparr>"
  define s1 where "s1 = s\<lparr>pipes := (pipes s)[p := np]\<rparr>"
  have cr: "pipe_create (t, s) = ((0, Some (int a, int b)), t2, s1)"
  proof -
    have tf: "two_fds (fd_table (proc_at t i)) [3 ..< MAX_FDS_PER_PROC] (-1) (-1) = (int a, int b)"
      unfolding two_fds_eq fds by simp
    show ?thesis
      unfolding pipe_create_def Let_def prod.case p option.case c tf t2_def t1_def s1_def np_def fa_def fb_def
      by simp
  qed
  have w1: "procs_wf t1" "process_current t1 = Some i" unfolding t1_def using upd_fd_wf [OF wf c] by blast+
  have w2: "procs_wf t2" "process_current t2 = Some i" unfolding t2_def using upd_fd_wf [OF w1] by blast+
  have len: "length (fd_table (proc_at t i)) = MAX_FDS_PER_PROC"
    using procs_wf_ok [OF wf bd(1)] by (simp add: proc_ok_def)
  have tab: "fd_table (proc_at t2 i) = (fd_table (proc_at t i))[a := fa (fd_table (proc_at t i) ! a),
      b := fb (fd_table (proc_at t i) ! b)]"
    using bd(1) w1(1) wf ab(3) unfolding t2_def t1_def by (simp add: upd_fd_at)
  have at: "fd_table (proc_at t2 i) ! a = fa (fd_table (proc_at t i) ! a)"
    "fd_table (proc_at t2 i) ! b = fb (fd_table (proc_at t i) ! b)"
    using ab len by (simp_all add: tab)
  have np: "pipes s1 ! p = np" using pl ln by (simp add: s1_def)
  have lk: "fd_lookup (int k) t2 = Some (i, k)" if "k \<in> {a, b}" for k
    using that ab at w2(2) by (auto simp: fd_lookup_def fa_def fb_def)
  have "fd_pipe (int a) t2 s1 = Some (i, a, p)" "fd_pipe (int b) t2 s1 = Some (i, b, p)"
    using lk at np pl by (simp_all add: fd_pipe_def Let_def fa_def fb_def np_def)
  moreover have "fd_flags (fd_table (proc_at t2 i) ! a) = 0" "fd_flags (fd_table (proc_at t2 i) ! b) = 1"
    unfolding at by (simp_all add: fa_def fb_def)
  moreover have "pipe_ok (pipes s1 ! p)" "pipe_content (pipes s1 ! p) = []"
    "readers (pipes s1 ! p) = 1" "writers (pipes s1 ! p) = 1"
    unfolding np by (simp_all add: np_def zero_pipe_def pipe_ok_def pipe_content_def)
  moreover have "length (pipes s1) = MAX_PIPES" "\<forall>l. l \<noteq> p \<longrightarrow> pipes s1 ! l = pipes s ! l"
    using ln by (simp_all add: s1_def)
  ultimately show ?thesis using cr w2(1) by blast
qed

text \<open>
  With a free pipe slot and two free descriptors, \<open>pipe_create\<close> returns the two lowest free
  descriptors (from 3 on) of the current process; the first is the read end and the second the write
  end of a new empty pipe with one reader and one writer, and no other pipe changes.
\<close>

theorem pipe_create_correct:
  assumes wf: "procs_wf t" and c: "process_current t = Some i" and ln: "length (pipes s) = MAX_PIPES"
    and p: "find_idx (\<lambda>p. \<not> pipe_in_use p) (pipes s) = Some p"
    and fds: "filter (\<lambda>k. \<not> fd_in_use (fd_table (proc_at t i) ! k)) [3 ..< MAX_FDS_PER_PROC] = a # b # rest"
  shows "\<exists>t' s'. pipe_create (t, s) = ((0, Some (int a, int b)), t', s') \<and> procs_wf t' \<and>
    fd_pipe (int a) t' s' = Some (i, a, p) \<and> fd_flags (fd_table (proc_at t' i) ! a) = 0 \<and>
    fd_pipe (int b) t' s' = Some (i, b, p) \<and> fd_flags (fd_table (proc_at t' i) ! b) = 1 \<and>
    pipe_ok (pipes s' ! p) \<and> pipe_content (pipes s' ! p) = [] \<and> readers (pipes s' ! p) = 1 \<and>
    writers (pipes s' ! p) = 1 \<and> length (pipes s') = MAX_PIPES \<and> (\<forall>l. l \<noteq> p \<longrightarrow> pipes s' ! l = pipes s ! l)"
  by (rule pipe_create_outcome [OF assms])

text \<open>The first pipe of the shell: descriptors 3 and 4.\<close>

lemma init_fds: "filter (\<lambda>k. \<not> fd_in_use (fd_table (proc_at process_init 1) ! k)) [3 ..< MAX_FDS_PER_PROC] = [3 ..< MAX_FDS_PER_PROC]"
proof -
  have u: "\<not> fd_in_use (fd_table (proc_at process_init 1) ! k)" if "3 \<le> k" "k < MAX_FDS_PER_PROC" for k
    using that by (simp add: process_init_def init_process_signals_def init_process_fd_table_def)
  show ?thesis
  proof (rule filter_True, rule ballI)
    fix k assume "k \<in> set [3 ..< MAX_FDS_PER_PROC]"
    then have "3 \<le> k \<and> k < MAX_FDS_PER_PROC" unfolding set_upt atLeastLessThan_iff .
    then show "\<not> fd_in_use (fd_table (proc_at process_init 1) ! k)" using u by blast
  qed
qed

lemma init_pipe_slot: "find_idx (\<lambda>p. \<not> pipe_in_use p) (pipes ipc_init) = Some 0"
  by (simp add: ipc_init_def zero_pipe_def numeral_eq_Suc)

lemma demo_pipe:
  "\<exists>t s. pipe_create (process_init, ipc_init) = ((0, Some (3, 4)), t, s) \<and>
    fd_pipe 3 t s = Some (1, 3, 0) \<and> fd_flags (fd_table (proc_at t 1) ! 3) = 0 \<and>
    fd_pipe 4 t s = Some (1, 4, 0) \<and> fd_flags (fd_table (proc_at t 1) ! 4) = 1 \<and>
    pipe_ok (pipes s ! 0) \<and> pipe_content (pipes s ! 0) = [] \<and> readers (pipes s ! 0) = 1 \<and>
    length (pipes s) = MAX_PIPES"
proof -
  have "[3 ..< MAX_FDS_PER_PROC] = 3 # 4 # [5 ..< MAX_FDS_PER_PROC]" by (simp add: upt_rec)
  then show ?thesis
    using pipe_create_outcome [OF process_init_wf init_current _ init_pipe_slot, of 3 4] init_fds
    by (fastforce simp: ipc_init_def)
qed

theorem pipe_create_correct_witness: "fst (pipe_create (process_init, ipc_init)) = (0, Some (3, 4))"
proof -
  have "[3 ..< MAX_FDS_PER_PROC] = 3 # 4 # [5 ..< MAX_FDS_PER_PROC]" by (simp add: upt_rec)
  then show ?thesis
    using pipe_create_correct [OF process_init_wf init_current _ init_pipe_slot, of 3 4] init_fds
    by (auto simp: ipc_init_def)
qed

theorem pipe_write_read_witness:
  "\<exists>t s s1 s2. pipe_create (process_init, ipc_init) = ((0, Some (3, 4)), t, s) \<and>
    pipe_write 4 [72, 105] (t, s) = (2, t, s1) \<and> pipe_read 3 1 (t, s1) = ((1, [72]), t, s2)"
proof -
  obtain t s where d: "pipe_create (process_init, ipc_init) = ((0, Some (3, 4)), t, s)"
    "fd_pipe 4 t s = Some (1, 4, 0)" "fd_flags (fd_table (proc_at t 1) ! 4) = 1"
    "fd_pipe 3 t s = Some (1, 3, 0)" "fd_flags (fd_table (proc_at t 1) ! 3) = 0"
    "pipe_ok (pipes s ! 0)" "pipe_content (pipes s ! 0) = []" "readers (pipes s ! 0) = 1"
    "length (pipes s) = MAX_PIPES"
    using demo_pipe by blast
  have "\<exists>s1 s2. pipe_write 4 [72, 105] (t, s) = (2, t, s1) \<and> pipe_read 3 1 (t, s1) = ((1, [72]), t, s2)"
    using pipe_write_read [OF d(2-6) _ d(9), of "[72, 105]" 1] d(7,8) by auto
  then show ?thesis using d(1) by blast
qed

definition demo_mq :: ipc where
  "demo_mq = snd (msgq_send 0 [9] 5 (snd (msgq_create 77 ipc_init)))"

lemma demo_mq_eq: "demo_mq = ipc_init\<lparr>msg_queues := (msg_queues ipc_init)
    [0 := mq_put [9] 5 (zero_mq\<lparr>mq_key := 77, mq_in_use := True\<rparr>)]\<rparr>"
proof -
  let ?q = "zero_mq\<lparr>mq_key := 77, mq_in_use := True\<rparr>"
  have r: "msg_queues ipc_init = replicate MAX_MSG_QUEUES zero_mq" by (simp add: ipc_init_def)
  have f1: "find_idx (\<lambda>q. mq_in_use q \<and> mq_key q = 77) (msg_queues ipc_init) = None"
    by (simp add: r zero_mq_def)
  have f2: "find_idx (\<lambda>q. \<not> mq_in_use q) (msg_queues ipc_init) = Some 0"
    by (simp add: r zero_mq_def numeral_eq_Suc)
  have c: "snd (msgq_create 77 ipc_init) = ipc_init\<lparr>msg_queues := (msg_queues ipc_init)[0 := ?q]\<rparr>"
    unfolding msgq_create_def f1 f2 by simp
  have q: "mq_in_use ?q" "mq_count ?q = 0" by (simp_all add: zero_mq_def)
  show ?thesis
    unfolding demo_mq_def c msgq_send_def Let_def using q by (simp add: r)
qed

theorem msgq_refines_witness:
  "\<exists>s'. msgq_receive 0 100 5 demo_mq = ((1, [9]), s') \<and> fst (msgq_receive 0 100 6 demo_mq) = (-42, [])"
proof -
  let ?q = "zero_mq\<lparr>mq_key := 77, mq_in_use := True\<rparr>"
  have q0: "mq_ok ?q" "mq_content ?q = []" by (simp_all add: mq_ok_def zero_mq_def zero_msg_def mq_content_def)
  have at: "msg_queues demo_mq ! 0 = mq_put [9] 5 ?q" by (simp add: demo_mq_eq ipc_init_def)
  have q: "mq_ok (msg_queues demo_mq ! 0)" "mq_content (msg_queues demo_mq ! 0) = [(5, [9])]"
    using mq_put_ok [OF q0(1), of "[9]" 5] q0(2) by (simp_all add: at) (simp_all add: zero_mq_def)
  have l: "mq_lookup 0 demo_mq = Some 0"
    using at by (simp add: mq_lookup_def mq_put_def Let_def)
  show ?thesis
    using msgq_refines [OF l q(1), of "[]" 5 100] msgq_refines [OF l q(1), of "[]" 6 100] q(2)
    by (auto simp: take_msg_def)
qed

section \<open>Shared memory without contiguous frames\<close>

text \<open>
  \<open>shm_create\<close> keeps the address of the first frame only and treats the region as contiguous, but the
  bitmap may hand out frames with gaps. Here frames 34 and 36 are free and frame 35 is in use: a
  region of two pages gets frames 34 and 36, and its destruction releases frame 35, which somebody
  else is using, and leaks frame 36.
\<close>

definition pmm_gap :: "u32 \<Rightarrow> u32 \<Rightarrow> pmm" where
  "pmm_gap w n = \<lparr>pmm_bitmap = [0xFFFFFFFF, w], pmm_bitmap_size = 2, pmm_total_frames = 64,
     pmm_used_frames = n, pmm_total_memory = 0x40000\<rparr>"

lemma pmm_gap_runs:
  "pmm_alloc_frame (pmm_gap 0xFFFFFFEB 62) = (0x22000, pmm_gap 0xFFFFFFEF 63)"
  "shm_more_frames [1 ..< unat (shm_pages 0x2000)] (pmm_gap 0xFFFFFFEF 63) = (None, pmm_gap 0xFFFFFFFF 64)"
  "free_run 0x22000 (unat (shm_pages 0x2000)) (pmm_gap 0xFFFFFFFF 64) = pmm_gap 0xFFFFFFF3 62"
  "BITMAP_TEST (pmm_gap 0xFFFFFFEB 62) 35"
  "\<not> BITMAP_TEST (pmm_gap 0xFFFFFFF3 62) 35" "BITMAP_TEST (pmm_gap 0xFFFFFFF3 62) 36"
  unfolding pmm_gap_def by code_simp+

text \<open>
  Frames 34 and 36 free, 35 in use: creating and destroying a region of two pages leaves frame
  35 marked free although the region never owned it, and frame 36 marked used although nobody does.
\<close>

theorem shm_frees_foreign_frame:
  "\<exists>s s'. shm_create 1 0x2000 (pmm_gap 0xFFFFFFEB 62, ipc_init) = (0, pmm_gap 0xFFFFFFFF 64, s) \<and>
     shm_destroy 0 (pmm_gap 0xFFFFFFFF 64, s) = (0, pmm_gap 0xFFFFFFF3 62, s') \<and>
     BITMAP_TEST (pmm_gap 0xFFFFFFEB 62) 35 \<and> \<not> BITMAP_TEST (pmm_gap 0xFFFFFFF3 62) 35 \<and>
     BITMAP_TEST (pmm_gap 0xFFFFFFF3 62) 36"
proof -
  have r: "shm_regions ipc_init = replicate MAX_SHM_REGIONS zero_shm" by (simp add: ipc_init_def)
  have f1: "find_idx (\<lambda>r. shm_in_use r \<and> shm_key r = 1) (shm_regions ipc_init) = None"
    by (simp add: r zero_shm_def)
  have f2: "find_idx (\<lambda>r. \<not> shm_in_use r) (shm_regions ipc_init) = Some 0"
    by (simp add: r zero_shm_def numeral_eq_Suc)
  let ?r = "\<lparr>shm_key = 1, shm_size = 0x2000, phys_addr = 0x22000, ref_count = 0, shm_in_use = True\<rparr>"
  let ?s = "ipc_init\<lparr>shm_regions := (shm_regions ipc_init)[0 := ?r]\<rparr>"
  have "shm_create 1 0x2000 (pmm_gap 0xFFFFFFEB 62, ipc_init) = (0, pmm_gap 0xFFFFFFFF 64, ?s)"
    unfolding shm_create_def Let_def prod.case f1 f2 option.case pmm_gap_runs(1,2) by simp
  moreover have "shm_regions ?s ! 0 = ?r" by (simp add: r)
  then have "shm_destroy 0 (pmm_gap 0xFFFFFFFF 64, ?s) = (0, pmm_gap 0xFFFFFFF3 62,
      ?s\<lparr>shm_regions := (shm_regions ?s)[0 := ?r\<lparr>shm_in_use := False\<rparr>]\<rparr>)"
    using pmm_gap_runs(3) by (simp add: shm_destroy_def Let_def)
  ultimately show ?thesis using pmm_gap_runs(4-6) by blast
qed

end
