(* ===== verification/Sched.thy ===== *)
theory Sched
  imports Interfaces
begin

text \<open>
  The scheduler, \<open>kernel/sched/scheduler.c\<close>: a static array of 64 tasks, the current task, and a
  ready queue linked through the tasks' \<open>next\<close> pointers. A \<open>task_t *\<close> is an index into the array
  (\<open>None\<close> is \<open>NULL\<close>). \<open>context_switch\<close> (assembly) makes the machine continue in the task that
  \<open>current_task\<close> names; the model's state after \<open>schedule_force\<close> is the one that task sees. The stack
  that \<open>kmalloc\<close> returned to \<open>task_create\<close> is an argument (0: out of memory), as is the clock.
\<close>

section \<open>State\<close>

datatype task_state = TASK_UNUSED | TASK_RUNNING | TASK_READY | TASK_BLOCKED | TASK_SLEEPING | TASK_ZOMBIE

record task =
  t_tid :: u32
  t_pid :: u32
  t_name :: string
  t_state :: task_state
  t_priority :: u8
  t_base_priority :: u8
  t_inherited_priority :: u8
  t_block_reason :: u8
  t_waiting_on :: u32
  t_kernel_stack :: u32
  t_kernel_stack_size :: u32
  t_esp :: u32
  t_page_directory :: u32
  t_cpu_time :: u64
  t_wake_time :: u64
  t_next :: "nat option"

record sched =
  tasks :: "task list"
  next_tid :: u32
  current_task :: "nat option"
  idle_task :: "nat option"
  rq_head :: "nat option"
  rq_tail :: "nat option"
  scheduler_lock :: bool
  scheduler_enabled :: bool
  tss_esp0 :: u32
  stack_mem :: "u32 \<Rightarrow> u32"

abbreviation MAX_TASKS :: nat where "MAX_TASKS \<equiv> 64"
abbreviation DEFAULT_STACK_SIZE :: u32 where "DEFAULT_STACK_SIZE \<equiv> 4096"

abbreviation task_at :: "sched \<Rightarrow> nat \<Rightarrow> task" where "task_at s i \<equiv> tasks s ! i"

definition upd_task :: "nat \<Rightarrow> (task \<Rightarrow> task) \<Rightarrow> sched \<Rightarrow> sched" where
  "upd_task i f s = s\<lparr>tasks := (tasks s)[i := f (tasks s ! i)]\<rparr>"

definition zero_task :: task where
  "zero_task = \<lparr>t_tid = 0, t_pid = 0, t_name = '''', t_state = TASK_UNUSED, t_priority = 0,
     t_base_priority = 0, t_inherited_priority = 0, t_block_reason = 0, t_waiting_on = 0,
     t_kernel_stack = 0, t_kernel_stack_size = 0, t_esp = 0, t_page_directory = 0, t_cpu_time = 0,
     t_wake_time = 0, t_next = None\<rparr>"

section \<open>The ready queue\<close>

definition ready_queue_add :: "nat \<Rightarrow> sched \<Rightarrow> sched" where
  "ready_queue_add i s =
     (let s1 = upd_task i (\<lambda>t. t\<lparr>t_next := None, t_state := TASK_READY\<rparr>) s in
      case rq_tail s1 of
        Some tail \<Rightarrow> (upd_task tail (\<lambda>t. t\<lparr>t_next := Some i\<rparr>) s1)\<lparr>rq_tail := Some i\<rparr>
      | None \<Rightarrow> s1\<lparr>rq_head := Some i, rq_tail := Some i\<rparr>)"

definition ready_queue_pop :: "sched \<Rightarrow> nat option \<times> sched" where
  "ready_queue_pop s =
     (case rq_head s of
        None \<Rightarrow> (None, s)
      | Some i \<Rightarrow>
          let s1 = s\<lparr>rq_head := t_next (task_at s i)\<rparr>;
              s2 = (if rq_head s1 = None then s1\<lparr>rq_tail := None\<rparr> else s1)
          in (Some i, upd_task i (\<lambda>t. t\<lparr>t_next := None\<rparr>) s2))"

definition alloc_task_slot :: "sched \<Rightarrow> nat option" where
  "alloc_task_slot s = find_idx (\<lambda>t. t_state t = TASK_UNUSED) (tasks s)"

section \<open>Creating tasks\<close>

text \<open>The six words a new stack starts with, from its top down.\<close>

definition push_words :: "u32 list \<Rightarrow> u32 \<Rightarrow> (u32 \<Rightarrow> u32) \<Rightarrow> u32 \<times> (u32 \<Rightarrow> u32)" where
  "push_words ws sp m = fold (\<lambda>w (sp, m). (sp - 4, m(sp - 4 := w))) ws (sp, m)"

definition task_create ::
  "string \<Rightarrow> u32 \<Rightarrow> u32 \<Rightarrow> u32 \<Rightarrow> u32 \<Rightarrow> sched \<Rightarrow> nat option \<times> sched" where
  "task_create name entry task_exit_addr sz stack s =
     (case alloc_task_slot s of
        None \<Rightarrow> (None, s)
      | Some i \<Rightarrow>
          let stack_size = (if sz = 0 then DEFAULT_STACK_SIZE else sz) in
          if stack = 0 then (None, s)
          else case push_words [task_exit_addr, entry, 0, 0, 0, 0] (stack + stack_size) (stack_mem s) of
                 (sp, m) \<Rightarrow>
                   let s1 = upd_task i (\<lambda>t. t\<lparr>t_tid := next_tid s,
                          t_pid := (case current_task s of Some c \<Rightarrow> t_pid (task_at s c) | None \<Rightarrow> 0),
                          t_name := take 31 name, t_state := TASK_READY, t_priority := 10,
                          t_base_priority := 10, t_inherited_priority := 0, t_waiting_on := 0,
                          t_kernel_stack := stack, t_kernel_stack_size := stack_size,
                          t_page_directory := 0, t_cpu_time := 0, t_wake_time := 0, t_next := None,
                          t_esp := sp\<rparr>) (s\<lparr>next_tid := next_tid s + 1, stack_mem := m\<rparr>)
                   in (Some i, ready_queue_add i s1))"

text \<open>
  \<open>scheduler_init\<close>; \<open>idle_stack\<close> is the address \<open>kmalloc\<close> returned for the idle task's stack and \<open>s0\<close>
  the static state before the call.
\<close>

definition scheduler_init :: "u32 \<Rightarrow> u32 \<Rightarrow> u32 \<Rightarrow> sched \<Rightarrow> sched" where
  "scheduler_init idle_entry task_exit_addr idle_stack s0 =
     (let s1 = s0\<lparr>tasks := (replicate MAX_TASKS zero_task)[0 := zero_task\<lparr>t_name := ''kernel'',
                 t_state := TASK_RUNNING\<rparr>], current_task := Some 0\<rparr>
      in case task_create ''idle'' idle_entry task_exit_addr DEFAULT_STACK_SIZE idle_stack s1 of
           (None, s2) \<Rightarrow> s2\<lparr>idle_task := None\<rparr>
         | (Some i, s2) \<Rightarrow>
             let s3 = s2\<lparr>idle_task := Some i\<rparr>;
                 s4 = (if rq_head s3 = Some i then snd (ready_queue_pop s3) else s3)
             in upd_task i (\<lambda>t. t\<lparr>t_state := TASK_READY, t_priority := 255\<rparr>) s4)"

section \<open>Switching\<close>

definition schedule_force :: "sched \<Rightarrow> sched" where
  "schedule_force s =
     (if scheduler_lock s then s
      else case ready_queue_pop s of
             (None, s1) \<Rightarrow> s1
           | (Some nx, s1) \<Rightarrow>
               if current_task s1 = Some nx then s1
               else let s2 = (case current_task s1 of
                          Some pv \<Rightarrow> if t_state (task_at s1 pv) = TASK_RUNNING \<and> idle_task s1 \<noteq> Some pv
                                     then ready_queue_add pv s1 else s1
                        | None \<Rightarrow> s1);
                        s3 = upd_task nx (\<lambda>t. t\<lparr>t_state := TASK_RUNNING\<rparr>) (s2\<lparr>current_task := Some nx\<rparr>)
                    in if t_kernel_stack (task_at s3 nx) \<noteq> 0
                       then s3\<lparr>tss_esp0 := t_kernel_stack (task_at s3 nx) + t_kernel_stack_size (task_at s3 nx)\<rparr>
                       else s3)"

definition schedule :: "sched \<Rightarrow> sched" where
  "schedule s = (if \<not> scheduler_enabled s \<or> scheduler_lock s then s else schedule_force s)"

text \<open>\<open>now\<close> is the uptime of the timer in use.\<close>

definition scheduler_tick :: "u64 \<Rightarrow> sched \<Rightarrow> sched" where
  "scheduler_tick now s =
     (case current_task s of
        None \<Rightarrow> s
      | Some c \<Rightarrow>
          if \<not> scheduler_enabled s then s
          else let s1 = upd_task c (\<lambda>t. t\<lparr>t_cpu_time := t_cpu_time t + 1\<rparr>) s;
                   s2 = fold (\<lambda>i s. if t_state (task_at s i) = TASK_SLEEPING \<and> now \<ge> t_wake_time (task_at s i)
                                    then ready_queue_add i s else s) [0 ..< MAX_TASKS] s1
               in if rq_head s2 \<noteq> None \<and> t_tid (task_at s2 c) \<noteq> 0 then schedule s2 else s2)"

definition task_block :: "u8 \<Rightarrow> sched \<Rightarrow> sched" where
  "task_block reason s =
     (case current_task s of
        None \<Rightarrow> s
      | Some c \<Rightarrow> schedule_force (upd_task c (\<lambda>t. t\<lparr>t_state := TASK_BLOCKED, t_block_reason := reason\<rparr>) s))"

definition task_unblock :: "nat option \<Rightarrow> sched \<Rightarrow> sched" where
  "task_unblock task s =
     (case task of
        None \<Rightarrow> s
      | Some i \<Rightarrow> if t_state (task_at s i) \<noteq> TASK_BLOCKED then s
                  else ready_queue_add i (upd_task i (\<lambda>t. t\<lparr>t_block_reason := 0\<rparr>) s))"

definition task_sleep :: "u32 \<Rightarrow> u64 \<Rightarrow> sched \<Rightarrow> sched" where
  "task_sleep ms now s =
     (case current_task s of
        None \<Rightarrow> s
      | Some c \<Rightarrow> schedule (upd_task c (\<lambda>t. t\<lparr>t_wake_time := now + ucast ms, t_state := TASK_SLEEPING\<rparr>) s))"

definition scheduler_enable :: "sched \<Rightarrow> sched" where "scheduler_enable s = s\<lparr>scheduler_enabled := True\<rparr>"
definition scheduler_disable :: "sched \<Rightarrow> sched" where "scheduler_disable s = s\<lparr>scheduler_enabled := False\<rparr>"

text \<open>\<open>task_exit\<close> up to its final halt loop; the release of the stack is the heap's.\<close>

definition task_exit :: "sched \<Rightarrow> sched" where
  "task_exit s =
     (case current_task s of
        None \<Rightarrow> s
      | Some c \<Rightarrow> schedule_force (upd_task c (\<lambda>t. t\<lparr>t_state := TASK_ZOMBIE\<rparr>) s))"

section \<open>Priorities\<close>

definition task_set_priority :: "u8 \<Rightarrow> task \<Rightarrow> task" where
  "task_set_priority p t = t\<lparr>t_base_priority := p,
     t_priority := (if t_inherited_priority t > 0 \<and> t_inherited_priority t < p
                    then t_inherited_priority t else p)\<rparr>"

definition task_get_effective_priority :: "task option \<Rightarrow> u8" where
  "task_get_effective_priority t = (case t of None \<Rightarrow> 255 | Some t \<Rightarrow> t_priority t)"

definition task_boost_priority :: "u8 \<Rightarrow> task \<Rightarrow> task" where
  "task_boost_priority p t =
     (let t1 = (if t_inherited_priority t = 0 \<or> p < t_inherited_priority t
                then t\<lparr>t_inherited_priority := p\<rparr> else t)
      in if p < t_priority t1 then t1\<lparr>t_priority := p\<rparr> else t1)"

definition task_restore_priority :: "task \<Rightarrow> task" where
  "task_restore_priority t = t\<lparr>t_inherited_priority := 0, t_priority := t_base_priority t\<rparr>"

definition scheduler_get_task_count :: "sched \<Rightarrow> nat" where
  "scheduler_get_task_count s = length (filter (\<lambda>t. t_state t \<noteq> TASK_UNUSED \<and> t_tid t \<noteq> 0) (tasks s))"

end
