(* ===== verification/Sched_Props.thy ===== *)
theory Sched_Props
  imports Sched
begin

text \<open>
  Correctness of the scheduler: the ready queue linked through the tasks is a first-in first-out
  queue, every task that is ready is in it exactly once, scheduling is round robin and so every
  ready task runs, and the way a task is lost when it blocks while no other task is ready.
\<close>

section \<open>The linked ready queue\<close>

fun chain :: "(nat \<Rightarrow> nat option) \<Rightarrow> nat option \<Rightarrow> nat list \<Rightarrow> bool" where
  "chain nx h [] \<longleftrightarrow> h = None"
| "chain nx h (x # xs) \<longleftrightarrow> h = Some x \<and> chain nx (nx x) xs"

definition rq_rel :: "sched \<Rightarrow> nat list \<Rightarrow> bool" where
  "rq_rel s xs \<longleftrightarrow> length (tasks s) = MAX_TASKS \<and> chain (\<lambda>i. t_next (task_at s i)) (rq_head s) xs \<and>
     rq_tail s = (if xs = [] then None else Some (last xs)) \<and> distinct xs \<and> set xs \<subseteq> {..< MAX_TASKS}"

lemma chain_cong: "(\<And>x. x \<in> set xs \<Longrightarrow> nx x = nx' x) \<Longrightarrow> chain nx h xs = chain nx' h xs"
  by (induction xs arbitrary: h) auto

lemma chain_append1:
  "distinct (xs @ [i]) \<Longrightarrow> xs \<noteq> [] \<Longrightarrow> chain nx h xs \<Longrightarrow>
     chain (nx(i := None, last xs := Some i)) h (xs @ [i])"
proof (induction xs arbitrary: h)
  case (Cons x xs)
  show ?case
  proof (cases "xs = []")
    case False
    then have "x \<noteq> last xs" "x \<noteq> i" using Cons.prems(1) by auto
    then show ?thesis using Cons False by simp
  qed (use Cons in auto)
qed simp

lemma task_at_upd [simp]:
  "i < length (tasks s) \<Longrightarrow> task_at (upd_task i f s) j = (if j = i then f (task_at s i) else task_at s j)"
  by (simp add: upd_task_def nth_list_update)

lemma upd_task_fields [simp]:
  "length (tasks (upd_task i f s)) = length (tasks s)" "next_tid (upd_task i f s) = next_tid s"
  "current_task (upd_task i f s) = current_task s" "idle_task (upd_task i f s) = idle_task s"
  "rq_head (upd_task i f s) = rq_head s" "rq_tail (upd_task i f s) = rq_tail s"
  "scheduler_lock (upd_task i f s) = scheduler_lock s"
  "scheduler_enabled (upd_task i f s) = scheduler_enabled s"
  by (simp_all add: upd_task_def)

lemma rq_rel_len: "rq_rel s xs \<Longrightarrow> length (tasks s) = MAX_TASKS"
  by (simp add: rq_rel_def)

lemma rq_rel_bound: "rq_rel s xs \<Longrightarrow> x \<in> set xs \<Longrightarrow> x < MAX_TASKS"
  by (auto simp: rq_rel_def)

lemma ready_queue_add_rel:
  assumes r: "rq_rel s xs" and i: "i < MAX_TASKS" "i \<notin> set xs"
  shows "rq_rel (ready_queue_add i s) (xs @ [i])"
proof -
  let ?s1 = "upd_task i (\<lambda>t. t\<lparr>t_next := None, t_state := TASK_READY\<rparr>) s"
  have len: "length (tasks s) = MAX_TASKS" by (rule rq_rel_len [OF r])
  show ?thesis
  proof (cases "xs = []")
    case True
    then show ?thesis using r i len by (simp add: rq_rel_def ready_queue_add_def Let_def)
  next
    case False
    let ?l = "last xs"
    have l: "?l \<in> set xs" "?l < MAX_TASKS" "?l \<noteq> i" using False i rq_rel_bound [OF r] by auto
    let ?s2 = "(upd_task ?l (\<lambda>t. t\<lparr>t_next := Some i\<rparr>) ?s1)\<lparr>rq_tail := Some i\<rparr>"
    have a: "ready_queue_add i s = ?s2"
      using r False by (simp add: ready_queue_add_def Let_def rq_rel_def)
    have nx: "(\<lambda>j. t_next (task_at ?s2 j)) = (\<lambda>j. t_next (task_at s j))(i := None, ?l := Some i)"
      using len i l by (auto simp: fun_eq_iff)
    have "chain (\<lambda>j. t_next (task_at ?s2 j)) (rq_head ?s2) (xs @ [i])"
      unfolding nx using chain_append1 [of xs i "\<lambda>j. t_next (task_at s j)" "rq_head s"] r False i
      by (simp add: rq_rel_def)
    then show ?thesis unfolding a using r i len by (simp add: rq_rel_def)
  qed
qed

text \<open>What adding to the queue leaves alone.\<close>

lemma ready_queue_add_fields [simp]:
  "current_task (ready_queue_add i s) = current_task s" "idle_task (ready_queue_add i s) = idle_task s"
  "scheduler_lock (ready_queue_add i s) = scheduler_lock s"
  "scheduler_enabled (ready_queue_add i s) = scheduler_enabled s"
  "length (tasks (ready_queue_add i s)) = length (tasks s)" "next_tid (ready_queue_add i s) = next_tid s"
  by (simp_all add: ready_queue_add_def Let_def split: option.split)

lemma ready_queue_add_state:
  assumes "rq_rel s xs" and "i < MAX_TASKS"
  shows "t_state (task_at (ready_queue_add i s) j) = (if j = i then TASK_READY else t_state (task_at s j))"
    and "t_tid (task_at (ready_queue_add i s) j) = t_tid (task_at s j)"
proof -
  have len: "length (tasks s) = MAX_TASKS" by (rule rq_rel_len [OF assms(1)])
  have "k < MAX_TASKS" if "rq_tail s = Some k" for k
  proof -
    have "xs \<noteq> []" "k = last xs" using that assms(1) by (auto simp: rq_rel_def split: if_splits)
    then show ?thesis using rq_rel_bound [OF assms(1), of k] by simp
  qed
  then show "t_state (task_at (ready_queue_add i s) j) = (if j = i then TASK_READY else t_state (task_at s j))"
    "t_tid (task_at (ready_queue_add i s) j) = t_tid (task_at s j)"
    using len assms(2) by (auto simp: ready_queue_add_def Let_def split: option.split)
qed

lemma ready_queue_pop_Nil: "rq_rel s [] \<Longrightarrow> ready_queue_pop s = (None, s)"
  by (simp add: rq_rel_def ready_queue_pop_def)

lemma ready_queue_pop_Cons:
  assumes r: "rq_rel s (y # ys)"
  shows "fst (ready_queue_pop s) = Some y" and "rq_rel (snd (ready_queue_pop s)) ys"
    and "t_state (task_at (snd (ready_queue_pop s)) j) = t_state (task_at s j)"
    and "t_tid (task_at (snd (ready_queue_pop s)) j) = t_tid (task_at s j)"
    and "current_task (snd (ready_queue_pop s)) = current_task s"
    and "idle_task (snd (ready_queue_pop s)) = idle_task s"
    and "scheduler_lock (snd (ready_queue_pop s)) = scheduler_lock s"
    and "scheduler_enabled (snd (ready_queue_pop s)) = scheduler_enabled s"
proof -
  have y: "y < length (tasks s)" "rq_head s = Some y" using r by (simp_all add: rq_rel_def)
  let ?h = "t_next (task_at s y)"
  let ?s2 = "if ?h = None then s\<lparr>rq_head := ?h, rq_tail := None\<rparr> else s\<lparr>rq_head := ?h\<rparr>"
  have p: "ready_queue_pop s = (Some y, upd_task y (\<lambda>t. t\<lparr>t_next := None\<rparr>) ?s2)"
    using y by (simp add: ready_queue_pop_def Let_def)
  have ch: "chain (\<lambda>i. t_next (task_at s i)) ?h ys" "y \<notin> set ys" "distinct ys" using r by (simp_all add: rq_rel_def)
  have e: "?h = None \<longleftrightarrow> ys = []" using ch(1) by (cases ys) auto
  have chn: "chain (\<lambda>i. t_next (task_at (upd_task y (\<lambda>t. t\<lparr>t_next := None\<rparr>) ?s2) i)) ?h ys"
  proof -
    have "t_next (task_at (upd_task y (\<lambda>t. t\<lparr>t_next := None\<rparr>) ?s2) x) = t_next (task_at s x)" if "x \<in> set ys" for x
      using that ch(2) y by auto
    then show ?thesis by (subst chain_cong) (assumption, rule ch(1))
  qed
  define s3 where "s3 = upd_task y (\<lambda>t. t\<lparr>t_next := None\<rparr>) ?s2"
  have "length (tasks s3) = MAX_TASKS" "rq_head s3 = ?h"
    "rq_tail s3 = (if ys = [] then None else Some (last ys))"
    using r e by (simp_all add: s3_def rq_rel_def)
  then have "rq_rel s3 ys" using chn ch r by (simp add: rq_rel_def flip: s3_def)
  then show "rq_rel (snd (ready_queue_pop s)) ys" by (simp add: p s3_def)
  show "fst (ready_queue_pop s) = Some y"
    "t_state (task_at (snd (ready_queue_pop s)) j) = t_state (task_at s j)"
    "t_tid (task_at (snd (ready_queue_pop s)) j) = t_tid (task_at s j)"
    "current_task (snd (ready_queue_pop s)) = current_task s"
    "idle_task (snd (ready_queue_pop s)) = idle_task s"
    "scheduler_lock (snd (ready_queue_pop s)) = scheduler_lock s"
    "scheduler_enabled (snd (ready_queue_pop s)) = scheduler_enabled s"
    unfolding p using y by simp_all
qed

section \<open>The scheduler's invariant\<close>

text \<open>
  \<open>sched_pre s xs\<close>: the ready queue is \<open>xs\<close>, it holds exactly the ready tasks (the idle task apart,
  which is ready and never queued), and the current task is not in it. \<open>sched_ok\<close>: the current task
  is also marked running.
\<close>

definition sched_pre :: "sched \<Rightarrow> nat list \<Rightarrow> bool" where
  "sched_pre s xs \<longleftrightarrow> rq_rel s xs \<and>
     (\<exists>c < MAX_TASKS. current_task s = Some c \<and> c \<notin> set xs \<and> t_state (task_at s c) \<notin> {TASK_READY, TASK_UNUSED} \<and>
        idle_task s \<noteq> Some c \<and> (\<forall>i < MAX_TASKS. t_state (task_at s i) = TASK_RUNNING \<longrightarrow> i = c)) \<and>
     (\<forall>i \<in> set xs. idle_task s \<noteq> Some i) \<and>
     (\<forall>i < MAX_TASKS. idle_task s = Some i \<longrightarrow> t_state (task_at s i) = TASK_READY) \<and>
     (\<forall>i < MAX_TASKS. idle_task s \<noteq> Some i \<longrightarrow> (i \<in> set xs \<longleftrightarrow> t_state (task_at s i) = TASK_READY))"

definition sched_ok :: "sched \<Rightarrow> nat list \<Rightarrow> bool" where
  "sched_ok s xs \<longleftrightarrow> sched_pre s xs \<and>
     (\<forall>c. current_task s = Some c \<longrightarrow> t_state (task_at s c) = TASK_RUNNING)"

lemma sched_preI:
  assumes "rq_rel s xs" and "c < MAX_TASKS" "current_task s = Some c" "c \<notin> set xs"
    "t_state (task_at s c) \<notin> {TASK_READY, TASK_UNUSED}" "idle_task s \<noteq> Some c"
    and "\<And>i. i < MAX_TASKS \<Longrightarrow> t_state (task_at s i) = TASK_RUNNING \<Longrightarrow> i = c"
    and "\<And>i. i \<in> set xs \<Longrightarrow> idle_task s \<noteq> Some i"
    and "\<And>i. i < MAX_TASKS \<Longrightarrow> idle_task s = Some i \<Longrightarrow> t_state (task_at s i) = TASK_READY"
    and "\<And>i. i < MAX_TASKS \<Longrightarrow> idle_task s \<noteq> Some i \<Longrightarrow> (i \<in> set xs \<longleftrightarrow> t_state (task_at s i) = TASK_READY)"
  shows "sched_pre s xs"
  using assms unfolding sched_pre_def by blast

lemma sched_preE:
  assumes "sched_pre s xs"
  obtains c where "rq_rel s xs" "c < MAX_TASKS" "current_task s = Some c" "c \<notin> set xs"
    "t_state (task_at s c) \<notin> {TASK_READY, TASK_UNUSED}" "idle_task s \<noteq> Some c"
    "\<And>i. i < MAX_TASKS \<Longrightarrow> t_state (task_at s i) = TASK_RUNNING \<Longrightarrow> i = c"
    "\<And>i. i \<in> set xs \<Longrightarrow> idle_task s \<noteq> Some i"
    "\<And>i. i < MAX_TASKS \<Longrightarrow> idle_task s = Some i \<Longrightarrow> t_state (task_at s i) = TASK_READY"
    "\<And>i. i < MAX_TASKS \<Longrightarrow> idle_task s \<noteq> Some i \<Longrightarrow> (i \<in> set xs \<longleftrightarrow> t_state (task_at s i) = TASK_READY)"
  using assms unfolding sched_pre_def by blast

text \<open>A switch: the head of the queue runs, and the task it replaces goes to the end if it still ran.\<close>

lemma schedule_force_ok:
  assumes pre: "sched_pre s (y # ys)" and lk: "\<not> scheduler_lock s" and c: "current_task s = Some c"
  shows "current_task (schedule_force s) = Some y"
    and "sched_ok (schedule_force s) (ys @ (if t_state (task_at s c) = TASK_RUNNING then [c] else []))"
    and "scheduler_lock (schedule_force s) = scheduler_lock s"
    and "scheduler_enabled (schedule_force s) = scheduler_enabled s"
    and "\<And>i. t_state (task_at (schedule_force s) i) = (if i = y then TASK_RUNNING
       else if i = c \<and> t_state (task_at s c) = TASK_RUNNING then TASK_READY else t_state (task_at s i))"
    and "\<And>i. t_tid (task_at (schedule_force s) i) = t_tid (task_at s i)"
    and "idle_task (schedule_force s) = idle_task s"
proof -
  from pre obtain c' where h: "rq_rel s (y # ys)" "c' < MAX_TASKS" "current_task s = Some c'" "c' \<notin> set (y # ys)"
    "t_state (task_at s c') \<notin> {TASK_READY, TASK_UNUSED}" "idle_task s \<noteq> Some c'"
    and run: "\<And>i. i < MAX_TASKS \<Longrightarrow> t_state (task_at s i) = TASK_RUNNING \<Longrightarrow> i = c'"
    and idle: "\<And>i. i \<in> set (y # ys) \<Longrightarrow> idle_task s \<noteq> Some i"
      "\<And>i. i < MAX_TASKS \<Longrightarrow> idle_task s = Some i \<Longrightarrow> t_state (task_at s i) = TASK_READY"
    and rdy: "\<And>i. i < MAX_TASKS \<Longrightarrow> idle_task s \<noteq> Some i \<Longrightarrow> (i \<in> set (y # ys) \<longleftrightarrow> t_state (task_at s i) = TASK_READY)"
    by (rule sched_preE) blast
  have [simp]: "c' = c" using h(3) c by simp
  note pop = ready_queue_pop_Cons [OF h(1)]
  define s1 where "s1 = snd (ready_queue_pop s)"
  have p: "ready_queue_pop s = (Some y, s1)" using pop(1) by (simp add: s1_def prod_eq_iff)
  note p1 = pop(2-) [folded s1_def]
  have y: "y < MAX_TASKS" "y \<noteq> c" "y \<notin> set ys" using h rq_rel_bound [OF h(1)] by (auto simp: rq_rel_def)
  let ?run = "t_state (task_at s c) = TASK_RUNNING"
  define s2 where "s2 = (if ?run then ready_queue_add c s1 else s1)"
  have s2: "rq_rel s2 (ys @ (if ?run then [c] else []))"
    using ready_queue_add_rel [OF p1(1), of c] p1(1) h by (simp add: s2_def)
  have st2: "t_state (task_at s2 i) = (if i = c \<and> ?run then TASK_READY else t_state (task_at s i))"
    "t_tid (task_at s2 i) = t_tid (task_at s i)" for i
    using ready_queue_add_state [OF p1(1), of c i] h(2) p1(2,3) by (auto simp: s2_def)
  have f2: "idle_task s2 = idle_task s" "scheduler_lock s2 = scheduler_lock s" "scheduler_enabled s2 = scheduler_enabled s"
    using p1 by (simp_all add: s2_def)
  define s3 where "s3 = upd_task y (\<lambda>t. t\<lparr>t_state := TASK_RUNNING\<rparr>) (s2\<lparr>current_task := Some y\<rparr>)"
  define s4 where "s4 = (if t_kernel_stack (task_at s3 y) \<noteq> 0
      then s3\<lparr>tss_esp0 := t_kernel_stack (task_at s3 y) + t_kernel_stack_size (task_at s3 y)\<rparr> else s3)"
  have sf: "schedule_force s = s4"
    using lk p p1(2,4,5) c y(2) h(6) unfolding schedule_force_def s4_def s3_def s2_def
    by (simp add: Let_def)
  have len: "length (tasks s2) = MAX_TASKS" by (rule rq_rel_len [OF s2])
  have at4: "task_at s4 i = (if i = y then (task_at s2 y)\<lparr>t_state := TASK_RUNNING\<rparr> else task_at s2 i)" for i
    using y(1) len by (simp add: s4_def s3_def)
  have f4: "current_task s4 = Some y" "idle_task s4 = idle_task s" "scheduler_lock s4 = scheduler_lock s"
    "scheduler_enabled s4 = scheduler_enabled s" "rq_head s4 = rq_head s2" "rq_tail s4 = rq_tail s2"
    "length (tasks s4) = MAX_TASKS"
    using f2 len by (simp_all add: s4_def s3_def)
  have st4: "t_state (task_at s4 i) = (if i = y then TASK_RUNNING
       else if i = c \<and> ?run then TASK_READY else t_state (task_at s i))"
    "t_tid (task_at s4 i) = t_tid (task_at s i)" for i
    using st2 by (simp_all add: at4)
  have "t_next (task_at s4 i) = t_next (task_at s2 i)" for i by (simp add: at4)
  then have r4: "rq_rel s4 (ys @ (if ?run then [c] else []))" using s2 f4 by (simp add: rq_rel_def)
  have "sched_pre s4 (ys @ (if ?run then [c] else []))"
  proof (rule sched_preI [OF r4 y(1) f4(1)])
    show "y \<notin> set (ys @ (if ?run then [c] else []))" using y by simp
    show "t_state (task_at s4 y) \<notin> {TASK_READY, TASK_UNUSED}" by (simp add: st4)
    show "idle_task s4 \<noteq> Some y" using idle(1) f4(2) by simp
    show "i = y" if "i < MAX_TASKS" "t_state (task_at s4 i) = TASK_RUNNING" for i
      using that run [OF that(1)] by (auto simp: st4 split: if_splits)
    show "idle_task s4 \<noteq> Some i" if "i \<in> set (ys @ (if ?run then [c] else []))" for i
      using that idle(1) h(6) f4(2) by (auto split: if_splits)
    show "t_state (task_at s4 i) = TASK_READY" if "i < MAX_TASKS" "idle_task s4 = Some i" for i
      using that idle h(6) f4(2) by (auto simp: st4)
    show "i \<in> set (ys @ (if ?run then [c] else [])) \<longleftrightarrow> t_state (task_at s4 i) = TASK_READY"
      if "i < MAX_TASKS" "idle_task s4 \<noteq> Some i" for i
      using rdy [OF that(1)] that(2) f4(2) h(5) y by (auto simp: st4)
  qed
  then show "sched_ok (schedule_force s) (ys @ (if ?run then [c] else []))"
    using f4(1) st4 by (simp add: sf sched_ok_def)
  show "current_task (schedule_force s) = Some y" "scheduler_lock (schedule_force s) = scheduler_lock s"
    "scheduler_enabled (schedule_force s) = scheduler_enabled s" "idle_task (schedule_force s) = idle_task s"
    using f4 by (simp_all add: sf)
  show "\<And>i. t_state (task_at (schedule_force s) i) = (if i = y then TASK_RUNNING
       else if i = c \<and> ?run then TASK_READY else t_state (task_at s i))"
    "\<And>i. t_tid (task_at (schedule_force s) i) = t_tid (task_at s i)"
    using st4 by (simp_all add: sf)
qed

section \<open>Every operation keeps the invariant\<close>

lemma sched_ok_current:
  assumes "sched_ok s xs"
  obtains c where "current_task s = Some c" "c < MAX_TASKS" "c \<notin> set xs" "t_state (task_at s c) = TASK_RUNNING"
  using assms unfolding sched_ok_def sched_pre_def by blast

lemma sched_ok_rel: "sched_ok s xs \<Longrightarrow> rq_rel s xs"
  by (simp add: sched_ok_def sched_pre_def)

lemma sched_ok_len: "sched_ok s xs \<Longrightarrow> length (tasks s) = MAX_TASKS"
  using rq_rel_len sched_ok_rel by blast

text \<open>Changes of a task that touch neither its state nor its link.\<close>

lemma rq_rel_upd:
  assumes "rq_rel s xs" and "i < MAX_TASKS" and "i \<notin> set xs \<or> t_next (f (task_at s i)) = t_next (task_at s i)"
  shows "rq_rel (upd_task i f s) xs"
proof -
  have "chain (\<lambda>j. t_next (task_at (upd_task i f s) j)) (rq_head s) xs = chain (\<lambda>j. t_next (task_at s j)) (rq_head s) xs"
    using assms rq_rel_len [OF assms(1)] by (intro chain_cong) auto
  then show ?thesis using assms(1) by (simp add: rq_rel_def)
qed

lemma sched_ok_mild:
  assumes ok: "sched_ok s xs" and i: "i < MAX_TASKS" and f: "t_state (f (task_at s i)) = t_state (task_at s i)"
    "t_next (f (task_at s i)) = t_next (task_at s i)"
  shows "sched_ok (upd_task i f s) xs"
proof -
  have st: "t_state (task_at (upd_task i f s) j) = t_state (task_at s j)" for j
    using i f sched_ok_len [OF ok] by simp
  have r: "rq_rel (upd_task i f s) xs" using rq_rel_upd [OF sched_ok_rel [OF ok] i, of f] f(2) by simp
  have "sched_ok (upd_task i f s) xs \<longleftrightarrow> rq_rel (upd_task i f s) xs \<and> sched_ok s xs"
    using r sched_ok_rel [OF ok] unfolding sched_ok_def sched_pre_def st upd_task_fields by simp
  then show ?thesis using ok r by simp
qed

text \<open>The current task gives up the processor.\<close>

lemma sched_pre_leave:
  assumes ok: "sched_ok s xs" and c: "current_task s = Some c"
    and f: "t_state (f (task_at s c)) \<in> {TASK_BLOCKED, TASK_SLEEPING, TASK_ZOMBIE}" "t_next (f (task_at s c)) = t_next (task_at s c)"
  shows "sched_pre (upd_task c f s) xs"
proof -
  have pre: "sched_pre s xs" using ok by (simp add: sched_ok_def)
  from pre obtain c' where h: "rq_rel s xs" "c' < MAX_TASKS" "current_task s = Some c'" "c' \<notin> set xs"
    "t_state (task_at s c') \<notin> {TASK_READY, TASK_UNUSED}" "idle_task s \<noteq> Some c'"
    and run: "\<And>i. i < MAX_TASKS \<Longrightarrow> t_state (task_at s i) = TASK_RUNNING \<Longrightarrow> i = c'"
    and idle: "\<And>i. i \<in> set xs \<Longrightarrow> idle_task s \<noteq> Some i"
      "\<And>i. i < MAX_TASKS \<Longrightarrow> idle_task s = Some i \<Longrightarrow> t_state (task_at s i) = TASK_READY"
    and rdy: "\<And>i. i < MAX_TASKS \<Longrightarrow> idle_task s \<noteq> Some i \<Longrightarrow> (i \<in> set xs \<longleftrightarrow> t_state (task_at s i) = TASK_READY)"
    by (rule sched_preE) blast
  have [simp]: "c' = c" using h(3) c by simp
  have st: "t_state (task_at (upd_task c f s) i) = (if i = c then t_state (f (task_at s c)) else t_state (task_at s i))" for i
    using h(2) rq_rel_len [OF h(1)] by simp
  show ?thesis
  proof (rule sched_preI [of _ _ c])
    show "rq_rel (upd_task c f s) xs" using rq_rel_upd [OF h(1), of c f] h(2) f(2) by simp
    show "c < MAX_TASKS" "current_task (upd_task c f s) = Some c" "c \<notin> set xs" "idle_task (upd_task c f s) \<noteq> Some c"
      using h c by simp_all
    show "t_state (task_at (upd_task c f s) c) \<notin> {TASK_READY, TASK_UNUSED}" using f(1) by (auto simp: st)
    show "i = c" if "i < MAX_TASKS" "t_state (task_at (upd_task c f s) i) = TASK_RUNNING" for i
      using that run [OF that(1)] by (auto simp: st split: if_splits)
    show "idle_task (upd_task c f s) \<noteq> Some i" if "i \<in> set xs" for i using idle(1) [OF that] by simp
    show "t_state (task_at (upd_task c f s) i) = TASK_READY"
      if "i < MAX_TASKS" "idle_task (upd_task c f s) = Some i" for i
      using that idle(2) h(6) by (auto simp: st)
    show "i \<in> set xs \<longleftrightarrow> t_state (task_at (upd_task c f s) i) = TASK_READY"
      if "i < MAX_TASKS" "idle_task (upd_task c f s) \<noteq> Some i" for i
      using that rdy [OF that(1)] h(4) f(1) by (auto simp: st)
  qed
qed

text \<open>A task that is neither running nor ready is made ready.\<close>

lemma add_task_ok:
  assumes ok: "sched_ok s xs" and i: "i < MAX_TASKS" and st: "t_state (task_at s i) \<notin> {TASK_RUNNING, TASK_READY}"
  shows "sched_ok (ready_queue_add i (upd_task i f s)) (xs @ [i])"
proof -
  have pre: "sched_pre s xs" using ok by (simp add: sched_ok_def)
  from pre obtain c where h: "rq_rel s xs" "c < MAX_TASKS" "current_task s = Some c" "c \<notin> set xs"
    "t_state (task_at s c) \<notin> {TASK_READY, TASK_UNUSED}" "idle_task s \<noteq> Some c"
    and run: "\<And>i. i < MAX_TASKS \<Longrightarrow> t_state (task_at s i) = TASK_RUNNING \<Longrightarrow> i = c"
    and idle: "\<And>i. i \<in> set xs \<Longrightarrow> idle_task s \<noteq> Some i"
      "\<And>i. i < MAX_TASKS \<Longrightarrow> idle_task s = Some i \<Longrightarrow> t_state (task_at s i) = TASK_READY"
    and rdy: "\<And>i. i < MAX_TASKS \<Longrightarrow> idle_task s \<noteq> Some i \<Longrightarrow> (i \<in> set xs \<longleftrightarrow> t_state (task_at s i) = TASK_READY)"
    by (rule sched_preE) blast
  have cr: "t_state (task_at s c) = TASK_RUNNING" using ok h(3) by (simp add: sched_ok_def)
  have ni: "idle_task s \<noteq> Some i" using idle(2) [OF i] st by auto
  have nx: "i \<notin> set xs" using rdy [OF i ni] st by simp
  have ic: "i \<noteq> c" using st cr by auto
  have r1: "rq_rel (upd_task i f s) xs" using rq_rel_upd [OF h(1) i] nx by simp
  let ?s = "ready_queue_add i (upd_task i f s)"
  have sts: "t_state (task_at ?s j) = (if j = i then TASK_READY else t_state (task_at s j))" for j
    using ready_queue_add_state [OF r1 i, of j] i rq_rel_len [OF h(1)] by simp
  have "sched_pre ?s (xs @ [i])"
  proof (rule sched_preI [of _ _ c])
    show "rq_rel ?s (xs @ [i])" by (rule ready_queue_add_rel [OF r1 i nx])
    show "c < MAX_TASKS" "current_task ?s = Some c" "c \<notin> set (xs @ [i])" "idle_task ?s \<noteq> Some c"
      using h ic by simp_all
    show "t_state (task_at ?s c) \<notin> {TASK_READY, TASK_UNUSED}" using cr ic by (simp add: sts)
    show "j = c" if "j < MAX_TASKS" "t_state (task_at ?s j) = TASK_RUNNING" for j
      using that run [OF that(1)] by (auto simp: sts split: if_splits)
    show "idle_task ?s \<noteq> Some j" if "j \<in> set (xs @ [i])" for j using that idle(1) ni by auto
    show "t_state (task_at ?s j) = TASK_READY" if "j < MAX_TASKS" "idle_task ?s = Some j" for j
      using that idle(2) by (simp add: sts)
    show "j \<in> set (xs @ [i]) \<longleftrightarrow> t_state (task_at ?s j) = TASK_READY"
      if "j < MAX_TASKS" "idle_task ?s \<noteq> Some j" for j
      using that rdy [OF that(1)] by (auto simp: sts)
  qed
  then show ?thesis using h(3) cr ic by (simp add: sched_ok_def sts)
qed

lemma upd_task_id: "upd_task i (\<lambda>t. t) s = s"
  by (simp add: upd_task_def)

lemma sched_ok_cong:
  "sched_ok (s\<lparr>next_tid := n, stack_mem := m\<rparr>) xs = sched_ok s xs"
  "sched_ok (s\<lparr>scheduler_enabled := e\<rparr>) xs = sched_ok s xs"
  by (simp_all add: sched_ok_def sched_pre_def rq_rel_def)

lemma task_create_ok [zos_inv]:
  assumes ok: "sched_ok s xs"
  shows "\<exists>ys. sched_ok (snd (task_create name entry ex sz stack s)) ys"
proof (cases "alloc_task_slot s")
  case (Some i)
  then have i: "i < MAX_TASKS" "t_state (task_at s i) = TASK_UNUSED"
    using sched_ok_len [OF ok] by (auto simp: alloc_task_slot_def dest: find_idx_SomeD)
  have "sched_ok (ready_queue_add i (upd_task i f (s\<lparr>next_tid := n, stack_mem := m\<rparr>))) (xs @ [i])" for f n m
    using add_task_ok [of "s\<lparr>next_tid := n, stack_mem := m\<rparr>" xs i f] ok i by (simp add: sched_ok_cong)
  then show ?thesis using ok Some by (auto simp: task_create_def Let_def case_prod_beta)
qed (use ok in \<open>auto simp: task_create_def\<close>)

lemma schedule_force_keeps [zos_inv]: "sched_ok s xs \<Longrightarrow> \<exists>ys. sched_ok (schedule_force s) ys"
proof (cases "scheduler_lock s")
  case False
  assume ok: "sched_ok s xs"
  show ?thesis
  proof (cases xs)
    case Nil
    then show ?thesis
      using ok ready_queue_pop_Nil sched_ok_rel [OF ok] by (auto simp: schedule_force_def)
  next
    case (Cons y ys)
    obtain c where c: "current_task s = Some c" using ok by (rule sched_ok_current)
    have "sched_pre s (y # ys)" using ok Cons by (simp add: sched_ok_def)
    from schedule_force_ok(2) [OF this False c] show ?thesis by blast
  qed
qed (auto simp: schedule_force_def)

lemma schedule_keeps [zos_inv]: "sched_ok s xs \<Longrightarrow> \<exists>ys. sched_ok (schedule s) ys"
  using schedule_force_keeps by (auto simp: schedule_def)

lemma task_unblock_ok [zos_inv]:
  "sched_ok s xs \<Longrightarrow> (\<And>i. t = Some i \<Longrightarrow> i < MAX_TASKS) \<Longrightarrow> \<exists>ys. sched_ok (task_unblock t s) ys"
proof -
  assume ok: "sched_ok s xs" and t: "\<And>i. t = Some i \<Longrightarrow> i < MAX_TASKS"
  show ?thesis
  proof (cases "\<exists>i. t = Some i \<and> t_state (task_at s i) = TASK_BLOCKED")
    case True
    then obtain i where i: "t = Some i" "t_state (task_at s i) = TASK_BLOCKED" by blast
    have "sched_ok (ready_queue_add i (upd_task i (\<lambda>t. t\<lparr>t_block_reason := 0\<rparr>) s)) (xs @ [i])"
      using add_task_ok [OF ok t [OF i(1)]] i(2) by simp
    then show ?thesis using i by (auto simp: task_unblock_def)
  next
    case False
    then have "task_unblock t s = s" by (auto simp: task_unblock_def split: option.split)
    then show ?thesis using ok by auto
  qed
qed

lemma tick_wake_ok:
  "sched_ok s xs \<Longrightarrow> set is \<subseteq> {..< MAX_TASKS} \<Longrightarrow> \<exists>ys. sched_ok (fold (\<lambda>i s.
     if t_state (task_at s i) = TASK_SLEEPING \<and> now \<ge> t_wake_time (task_at s i) then ready_queue_add i s else s) is s) ys"
proof (induction "is" arbitrary: s xs)
  case (Cons i "is")
  show ?case
  proof (cases "t_state (task_at s i) = TASK_SLEEPING \<and> now \<ge> t_wake_time (task_at s i)")
    case True
    then show ?thesis
      using Cons.IH add_task_ok [OF Cons.prems(1), of i "\<lambda>t. t"] Cons.prems(2) by (simp add: upd_task_id)
  next
    case False
    then show ?thesis using Cons by auto
  qed
qed auto

lemma scheduler_tick_ok [zos_inv]:
  assumes ok: "sched_ok s xs"
  shows "\<exists>ys. sched_ok (scheduler_tick now s) ys"
proof -
  obtain c where c: "current_task s = Some c" "c < MAX_TASKS" using ok by (rule sched_ok_current)
  have "sched_ok (upd_task c (\<lambda>t. t\<lparr>t_cpu_time := t_cpu_time t + 1\<rparr>) s) xs"
    using c by (intro sched_ok_mild [OF ok]) simp_all
  from tick_wake_ok [OF this, of "[0 ..< MAX_TASKS]" now] obtain ys where
    "sched_ok (fold (\<lambda>i s. if t_state (task_at s i) = TASK_SLEEPING \<and> now \<ge> t_wake_time (task_at s i)
       then ready_queue_add i s else s) [0 ..< MAX_TASKS] (upd_task c (\<lambda>t. t\<lparr>t_cpu_time := t_cpu_time t + 1\<rparr>) s)) ys"
    unfolding set_upt by fastforce
  then show ?thesis using schedule_keeps ok c(1) unfolding scheduler_tick_def Let_def by auto
qed

text \<open>Leaving the processor works when another task is ready to take over.\<close>

lemma leave_ok:
  assumes ok: "sched_ok s xs" and c: "current_task s = Some c" and hd: "rq_head s \<noteq> None" and lk: "\<not> scheduler_lock s"
    and f: "t_state (f (task_at s c)) \<in> {TASK_BLOCKED, TASK_SLEEPING, TASK_ZOMBIE}" "t_next (f (task_at s c)) = t_next (task_at s c)"
  shows "\<exists>ys. sched_ok (schedule_force (upd_task c f s)) ys"
proof -
  have pre: "sched_pre (upd_task c f s) xs" by (rule sched_pre_leave [where f = f, OF ok c f])
  obtain y ys where "xs = y # ys"
    using hd sched_ok_rel [OF ok] by (cases xs) (auto simp: rq_rel_def)
  then have "sched_pre (upd_task c f s) (y # ys)" using pre by simp
  from schedule_force_ok(2) [OF this, of c] lk c show ?thesis unfolding upd_task_fields by blast
qed

lemma task_block_ok [zos_inv]:
  assumes "sched_ok s xs" and "rq_head s \<noteq> None" and "\<not> scheduler_lock s"
  shows "\<exists>ys. sched_ok (task_block r s) ys"
proof -
  obtain c where c: "current_task s = Some c" using assms(1) by (rule sched_ok_current)
  show ?thesis unfolding task_block_def c option.case by (rule leave_ok [OF assms(1) c assms(2,3)]) simp_all
qed

lemma task_sleep_ok [zos_inv]:
  assumes "sched_ok s xs" and "rq_head s \<noteq> None" and "\<not> scheduler_lock s" and "scheduler_enabled s"
  shows "\<exists>ys. sched_ok (task_sleep ms now s) ys"
proof -
  obtain c where c: "current_task s = Some c" using assms(1) by (rule sched_ok_current)
  have "task_sleep ms now s =
      schedule_force (upd_task c (\<lambda>t. t\<lparr>t_wake_time := now + ucast ms, t_state := TASK_SLEEPING\<rparr>) s)"
    using assms(3,4) c by (simp add: task_sleep_def schedule_def)
  then show ?thesis using leave_ok [OF assms(1) c assms(2,3)] by simp
qed

lemma task_exit_ok [zos_inv]:
  assumes "sched_ok s xs" and "rq_head s \<noteq> None" and "\<not> scheduler_lock s"
  shows "\<exists>ys. sched_ok (task_exit s) ys"
proof -
  obtain c where c: "current_task s = Some c" using assms(1) by (rule sched_ok_current)
  show ?thesis unfolding task_exit_def c option.case by (rule leave_ok [OF assms(1) c assms(2,3)]) simp_all
qed

section \<open>Reachable schedulers\<close>

text \<open>
  The operations, as long as a task that blocks, sleeps or exits has a ready task to hand the
  processor to (and, to sleep, preemption is enabled). \<open>task_lost\<close> below is what happens otherwise.
\<close>

datatype sched_op = Create_task string u32 u32 u32 u32 | Tick u64 | Yield | Force | Enable | Disable
  | Unblock_task "nat option" | Block_task u8 | Sleep u32 u64 | Exit_task
  | Set_priority nat u8 | Boost nat u8 | Restore nat

fun sched_step :: "sched_op \<Rightarrow> sched \<Rightarrow> sched" where
  "sched_step (Create_task n e x z k) s = snd (task_create n e x z k s)"
| "sched_step (Tick now) s = scheduler_tick now s"
| "sched_step Yield s = schedule s"
| "sched_step Force s = schedule_force s"
| "sched_step Enable s = scheduler_enable s"
| "sched_step Disable s = scheduler_disable s"
| "sched_step (Unblock_task t) s = task_unblock t s"
| "sched_step (Block_task r) s = task_block r s"
| "sched_step (Sleep ms now) s = task_sleep ms now s"
| "sched_step Exit_task s = task_exit s"
| "sched_step (Set_priority i p) s = upd_task i (task_set_priority p) s"
| "sched_step (Boost i p) s = upd_task i (task_boost_priority p) s"
| "sched_step (Restore i) s = upd_task i task_restore_priority s"

text \<open>
  The operations that give the processor away are allowed when the switch happens: another task is ready and the
  scheduler is not locked or disabled. Without it the current task goes on in its new state, and the ready queue
  is no longer exact; \<open>task_lost\<close> shows what that leads to.
\<close>

fun sched_enabled :: "sched_op \<Rightarrow> sched \<Rightarrow> bool" where
  "sched_enabled (Block_task r) s \<longleftrightarrow> rq_head s \<noteq> None \<and> \<not> scheduler_lock s"
| "sched_enabled (Sleep ms now) s \<longleftrightarrow> rq_head s \<noteq> None \<and> \<not> scheduler_lock s \<and> scheduler_enabled s"
| "sched_enabled Exit_task s \<longleftrightarrow> rq_head s \<noteq> None \<and> \<not> scheduler_lock s"
| "sched_enabled (Unblock_task (Some i)) s \<longleftrightarrow> i < MAX_TASKS"
| "sched_enabled (Set_priority i p) s \<longleftrightarrow> i < MAX_TASKS"
| "sched_enabled (Boost i p) s \<longleftrightarrow> i < MAX_TASKS"
| "sched_enabled (Restore i) s \<longleftrightarrow> i < MAX_TASKS"
| "sched_enabled _ s \<longleftrightarrow> True"

lemma priority_fields [simp]:
  "t_state (task_set_priority p t) = t_state t" "t_next (task_set_priority p t) = t_next t"
  "t_state (task_boost_priority p t) = t_state t" "t_next (task_boost_priority p t) = t_next t"
  "t_state (task_restore_priority t) = t_state t" "t_next (task_restore_priority t) = t_next t"
  by (simp_all add: task_set_priority_def task_boost_priority_def task_restore_priority_def Let_def)

lemma sched_step_ok:
  assumes "sched_ok s xs" and "sched_enabled op s"
  shows "\<exists>ys. sched_ok (sched_step op s) ys"
proof (cases op)
  case (Unblock_task t)
  then have "\<And>i. t = Some i \<Longrightarrow> i < MAX_TASKS" using assms(2) by simp
  then show ?thesis using Unblock_task task_unblock_ok [OF assms(1)] by simp
next
  case (Set_priority i p)
  then show ?thesis using assms sched_ok_mild [of s xs i "task_set_priority p"] by auto
next
  case (Boost i p)
  then show ?thesis
    using assms sched_ok_mild [of s xs i "task_boost_priority p"] by auto
next
  case (Restore i)
  then show ?thesis using assms sched_ok_mild [of s xs i task_restore_priority] by auto
next
  case Enable
  then show ?thesis using assms by (auto simp: scheduler_enable_def sched_ok_cong)
next
  case Disable
  then show ?thesis using assms by (auto simp: scheduler_disable_def sched_ok_cong)
qed (use assms zos_inv in auto)

text \<open>The statics before \<open>scheduler_init\<close>.\<close>

definition sched_boot :: sched where
  "sched_boot = \<lparr>tasks = replicate MAX_TASKS zero_task, next_tid = 1, current_task = None, idle_task = None,
     rq_head = None, rq_tail = None, scheduler_lock = False, scheduler_enabled = False, tss_esp0 = 0,
     stack_mem = \<lambda>_. 0\<rparr>"

inductive sched_reach :: "sched \<Rightarrow> bool" where
  init: "sched_reach (scheduler_init idle_entry exit_addr idle_stack sched_boot)"
| step: "sched_reach s \<Longrightarrow> sched_enabled op s \<Longrightarrow> sched_reach (sched_step op s)"

definition sched_kernel :: sched where
  "sched_kernel = sched_boot\<lparr>tasks := (replicate MAX_TASKS zero_task)[0 := zero_task\<lparr>t_name := ''kernel'',
     t_state := TASK_RUNNING\<rparr>], current_task := Some 0\<rparr>"

lemma sched_boot_ok: "sched_ok sched_kernel []" (is "sched_ok ?s []")
proof -
  have st: "t_state (task_at ?s i) = (if i = 0 then TASK_RUNNING else TASK_UNUSED)" if "i < MAX_TASKS" for i
    using that by (simp add: sched_kernel_def nth_list_update zero_task_def)
  have r: "rq_rel ?s []" by (simp add: rq_rel_def sched_kernel_def sched_boot_def)
  have "sched_pre ?s []"
    by (rule sched_preI [OF r, of 0]) (use st in \<open>auto simp: sched_kernel_def sched_boot_def split: if_splits\<close>)
  moreover have "current_task ?s = Some 0" by (simp add: sched_kernel_def)
  ultimately show ?thesis using st [of 0] by (simp add: sched_ok_def)
qed

lemma scheduler_init_ok [zos_inv]: "\<exists>xs. sched_ok (scheduler_init idle_entry exit_addr idle_stack sched_boot) xs"
proof -
  define s1 where "s1 = sched_kernel"
  have ok1: "sched_ok s1 []" unfolding s1_def by (rule sched_boot_ok)
  obtain r s2 where c: "task_create ''idle'' idle_entry exit_addr DEFAULT_STACK_SIZE idle_stack s1 = (r, s2)" by fastforce
  have init: "scheduler_init idle_entry exit_addr idle_stack sched_boot = (case (r, s2) of
      (None, s2) \<Rightarrow> s2\<lparr>idle_task := None\<rparr>
    | (Some i, s2) \<Rightarrow> let s3 = s2\<lparr>idle_task := Some i\<rparr>;
          s4 = (if rq_head s3 = Some i then snd (ready_queue_pop s3) else s3)
        in upd_task i (\<lambda>t. t\<lparr>t_state := TASK_READY, t_priority := 255\<rparr>) s4)"
    unfolding scheduler_init_def Let_def sched_kernel_def [symmetric] s1_def [symmetric] c ..
  show ?thesis
  proof (cases r)
    case None
    then have "s2 = s1" using c by (auto simp: task_create_def Let_def split: option.splits if_splits prod.splits)
    moreover have "s1\<lparr>idle_task := None\<rparr> = s1" by (simp add: s1_def sched_kernel_def sched_boot_def)
    ultimately show ?thesis using ok1 None by (auto simp: init)
  next
    case (Some i)
    obtain f n m where s2: "s2 = ready_queue_add i (upd_task i f (s1\<lparr>next_tid := n, stack_mem := m\<rparr>))"
      and sl: "alloc_task_slot s1 = Some i"
      using c Some by (auto simp: task_create_def Let_def split: option.splits if_splits prod.splits)
    have i: "i < MAX_TASKS" "t_state (task_at s1 i) = TASK_UNUSED"
      using sl sched_ok_len [OF ok1] by (auto simp: alloc_task_slot_def dest: find_idx_SomeD)
    have "sched_ok (s1\<lparr>next_tid := n, stack_mem := m\<rparr>) []" using ok1 by (simp add: sched_ok_cong)
    from add_task_ok [OF this i(1), of f] i(2) have ok2: "sched_ok s2 [i]" by (simp add: s2)
    define s3 where "s3 = s2\<lparr>idle_task := Some i\<rparr>"
    have r3: "rq_rel s3 [i]" using sched_ok_rel [OF ok2] by (simp add: rq_rel_def s3_def)
    note pop = ready_queue_pop_Cons [OF r3]
    define s4 where "s4 = snd (ready_queue_pop s3)"
    have hd: "rq_head s3 = Some i" using r3 by (simp add: rq_rel_def)
    let ?s = "upd_task i (\<lambda>t. t\<lparr>t_state := TASK_READY, t_priority := 255\<rparr>) s4"
    have e: "scheduler_init idle_entry exit_addr idle_stack sched_boot = ?s"
      unfolding init Some prod.case option.case Let_def s3_def [symmetric] s4_def using hd by simp
    have r4: "rq_rel ?s []" using rq_rel_upd [of s4 "[]" i] pop(2) i(1) by (simp add: s4_def)
    have st: "t_state (task_at ?s j) = (if j = i then TASK_READY else t_state (task_at s2 j))" for j
      using pop(3) rq_rel_len [OF pop(2)] i(1) by (simp add: s4_def) (simp add: s3_def)
    have f: "current_task ?s = current_task s2" "idle_task ?s = Some i"
      using pop(5,6) by (simp_all add: s4_def) (simp_all add: s3_def)
    have p2: "sched_pre s2 [i]" using ok2 by (simp add: sched_ok_def)
    obtain k where k: "current_task s2 = Some k" "k < MAX_TASKS" "k \<notin> set [i]" "t_state (task_at s2 k) = TASK_RUNNING"
      using ok2 by (rule sched_ok_current)
    have run: "j = k" if "j < MAX_TASKS" "t_state (task_at s2 j) = TASK_RUNNING" for j
      using p2 that k(1) unfolding sched_pre_def by (metis option.inject)
    have idle2: "idle_task s2 = None" by (simp add: s2 s1_def sched_kernel_def sched_boot_def)
    have rdy: "j = i" if "j < MAX_TASKS" "t_state (task_at s2 j) = TASK_READY" for j
      using p2 that idle2 unfolding sched_pre_def by auto
    have "sched_pre ?s []"
    proof (rule sched_preI [OF r4 k(2)])
      show "current_task ?s = Some k" "k \<notin> set []" "idle_task ?s \<noteq> Some k" using k f by auto
      show "t_state (task_at ?s k) \<notin> {TASK_READY, TASK_UNUSED}" using k by (auto simp: st)
      show "j = k" if "j < MAX_TASKS" "t_state (task_at ?s j) = TASK_RUNNING" for j
        using that run [OF that(1)] by (auto simp: st split: if_splits)
      show "t_state (task_at ?s j) = TASK_READY" if "j < MAX_TASKS" "idle_task ?s = Some j" for j
        using that f by (simp add: st)
      show "j \<in> set [] \<longleftrightarrow> t_state (task_at ?s j) = TASK_READY" if "j < MAX_TASKS" "idle_task ?s \<noteq> Some j" for j
        using that f rdy [OF that(1)] by (auto simp: st)
    qed simp
    then have "sched_ok ?s []" using k f by (auto simp: sched_ok_def st)
    then show ?thesis unfolding e by blast
  qed
qed

text \<open>
  C13. As long as a task blocks, sleeps or exits only while another one is ready and the scheduler is not locked (nor,
  for sleep, disabled): exactly one task runs, it is the current task and it is not in the ready queue, and the ready
  queue holds every ready task but the idle task exactly once. The condition is needed: \<open>task_lost\<close> below.
\<close>

theorem sched_reach_ok:
  assumes "sched_reach s"
  shows "\<exists>xs. sched_ok s xs"
  using assms
proof (induction rule: sched_reach.induct)
  case (init e x k)
  show ?case by (rule scheduler_init_ok)
next
  case (step s op)
  then show ?case using sched_step_ok by blast
qed

section \<open>Round robin\<close>

lemma round_robin_aux:
  assumes ok: "sched_ok s xs" and lk: "\<not> scheduler_lock s" and c: "current_task s = Some c"
  shows "k < length xs \<Longrightarrow> sched_ok ((schedule_force ^^ Suc k) s) (drop (Suc k) xs @ c # take k xs) \<and>
    current_task ((schedule_force ^^ Suc k) s) = Some (xs ! k) \<and> \<not> scheduler_lock ((schedule_force ^^ Suc k) s)"
proof (induction k)
  case 0
  then obtain y ys where xs: "xs = y # ys" by (cases xs) auto
  have pre: "sched_pre s (y # ys)" using ok xs by (simp add: sched_ok_def)
  have "t_state (task_at s c) = TASK_RUNNING" using ok c by (simp add: sched_ok_def)
  then show ?case using schedule_force_ok(1-3) [OF pre lk c] lk xs by simp
next
  case (Suc k)
  let ?s = "(schedule_force ^^ Suc k) s"
  have IH: "sched_ok ?s (drop (Suc k) xs @ c # take k xs)" "current_task ?s = Some (xs ! k)" "\<not> scheduler_lock ?s"
    using Suc by simp_all
  have d: "drop (Suc k) xs = xs ! Suc k # drop (Suc (Suc k)) xs" using Suc.prems by (simp add: Cons_nth_drop_Suc)
  have pre: "sched_pre ?s (xs ! Suc k # (drop (Suc (Suc k)) xs @ c # take k xs))"
    using IH(1) d by (simp add: sched_ok_def)
  have "t_state (task_at ?s (xs ! k)) = TASK_RUNNING" using IH(1,2) by (simp add: sched_ok_def)
  moreover have "take k xs @ [xs ! k] = take (Suc k) xs" using Suc.prems by (simp add: take_Suc_conv_app_nth)
  ultimately show ?case using schedule_force_ok(1-3) [OF pre IH(3,2)] IH(3) by simp
qed

text \<open>
  C14. Scheduling is fair: when the task at place \<open>k\<close> of the ready queue waits, \<open>k + 1\<close> switches
  later it runs, the tasks before it have had their turn and queue behind the task that ran first.
\<close>

theorem round_robin:
  assumes "sched_ok s xs" and "\<not> scheduler_lock s" and "current_task s = Some c" and "k < length xs"
  shows "current_task ((schedule_force ^^ Suc k) s) = Some (xs ! k) \<and>
    sched_ok ((schedule_force ^^ Suc k) s) (drop (Suc k) xs @ c # take k xs)"
  using round_robin_aux [OF assms(1-3)] assms(4) by blast

section \<open>A task that blocks alone is lost\<close>

lemma pop_single:
  assumes "rq_rel s []" and i: "i < MAX_TASKS"
  shows "fst (ready_queue_pop (ready_queue_add i s)) = Some i"
    and "rq_rel (snd (ready_queue_pop (ready_queue_add i s))) []"
    and "t_state (task_at (snd (ready_queue_pop (ready_queue_add i s))) j) =
      (if j = i then TASK_READY else t_state (task_at s j))"
    and "current_task (snd (ready_queue_pop (ready_queue_add i s))) = current_task s"
    and "scheduler_lock (snd (ready_queue_pop (ready_queue_add i s))) = scheduler_lock s"
    and "idle_task (snd (ready_queue_pop (ready_queue_add i s))) = idle_task s"
proof -
  have r: "rq_rel (ready_queue_add i s) [i]" using ready_queue_add_rel [OF assms] by simp
  show "fst (ready_queue_pop (ready_queue_add i s)) = Some i"
    "rq_rel (snd (ready_queue_pop (ready_queue_add i s))) []"
    "t_state (task_at (snd (ready_queue_pop (ready_queue_add i s))) j) =
      (if j = i then TASK_READY else t_state (task_at s j))"
    "current_task (snd (ready_queue_pop (ready_queue_add i s))) = current_task s"
    "scheduler_lock (snd (ready_queue_pop (ready_queue_add i s))) = scheduler_lock s"
    "idle_task (snd (ready_queue_pop (ready_queue_add i s))) = idle_task s"
    using ready_queue_pop_Cons [OF r] ready_queue_add_state [OF assms] by simp_all
qed

text \<open>
  When the current task blocks while the ready queue is empty, \<open>schedule_force\<close> returns at once
  and the task goes on, marked blocked. Waking it queues it, the next switch pops it, finds that it
  is the current task and returns without marking it running; at the first switch to another task
  it is then ready, in no queue and not current: nothing will ever run it again.
\<close>

theorem task_lost:
  assumes ok: "sched_ok s []" and lk: "\<not> scheduler_lock s" and c: "current_task s = Some c"
    and d: "d < MAX_TASKS" "t_state (task_at s d) = TASK_BLOCKED"
  defines "s1 \<equiv> schedule_force (task_unblock (Some c) (task_block 0 s))"
  defines "s2 \<equiv> schedule_force (task_unblock (Some d) s1)"
  shows "current_task s2 = Some d \<and> rq_rel s2 [] \<and> t_state (task_at s2 c) = TASK_READY \<and> c \<noteq> d"
proof -
  obtain c' where "current_task s = Some c'" "c' < MAX_TASKS" "t_state (task_at s c') = TASK_RUNNING"
    using ok by (rule sched_ok_current)
  then have cb: "c < MAX_TASKS" "t_state (task_at s c) = TASK_RUNNING" using c by simp_all
  have cd: "c \<noteq> d" using cb d by auto
  have r: "rq_rel s []" by (rule sched_ok_rel [OF ok])
  note len = rq_rel_len [OF r]
  let ?b = "upd_task c (\<lambda>t. t\<lparr>t_state := TASK_BLOCKED, t_block_reason := 0\<rparr>) s"
  have rb: "rq_rel ?b []" using rq_rel_upd [OF r cb(1)] by simp
  have b: "task_block 0 s = ?b"
    using ready_queue_pop_Nil [OF rb] lk by (simp add: task_block_def c schedule_force_def)
  let ?u = "upd_task c (\<lambda>t. t\<lparr>t_block_reason := 0\<rparr>) ?b"
  have ru: "rq_rel ?u []" using rq_rel_upd [OF rb cb(1)] by simp
  have u: "task_unblock (Some c) ?b = ready_queue_add c ?u" using len cb(1) by (simp add: task_unblock_def)
  note p1 = pop_single [OF ru cb(1)]
  define q1 where "q1 = snd (ready_queue_pop (ready_queue_add c ?u))"
  have q1: "ready_queue_pop (ready_queue_add c ?u) = (Some c, q1)" using p1(1) by (simp add: q1_def prod_eq_iff)
  have "current_task q1 = Some c" using p1(4) c by (simp add: q1_def)
  then have s1: "s1 = q1" unfolding s1_def b u using q1 lk by (simp add: schedule_force_def)
  have r1: "rq_rel s1 []" and st1: "\<And>j. t_state (task_at s1 j) = (if j = c then TASK_READY else t_state (task_at s j))"
    and f1: "current_task s1 = Some c" "\<not> scheduler_lock s1"
    unfolding s1 q1_def using p1 len cb(1) lk c by simp_all
  let ?v = "upd_task d (\<lambda>t. t\<lparr>t_block_reason := 0\<rparr>) s1"
  have rv: "rq_rel ?v []" using rq_rel_upd [OF r1 d(1)] by simp
  have v: "task_unblock (Some d) s1 = ready_queue_add d ?v" using st1 cd d by (simp add: task_unblock_def)
  note p2 = pop_single [OF rv d(1)]
  define q2 where "q2 = snd (ready_queue_pop (ready_queue_add d ?v))"
  have q2: "ready_queue_pop (ready_queue_add d ?v) = (Some d, q2)" using p2(1) by (simp add: q2_def prod_eq_iff)
  have st2: "t_state (task_at q2 j) = (if j = d then TASK_READY else if j = c then TASK_READY else t_state (task_at s j))"
    and g: "current_task q2 = Some c" "rq_rel q2 []" for j
    using p2 st1 f1 d(1) rq_rel_len [OF r1] by (simp_all add: q2_def)
  define q3 where "q3 = upd_task d (\<lambda>t. t\<lparr>t_state := TASK_RUNNING\<rparr>) (q2\<lparr>current_task := Some d\<rparr>)"
  have "s2 = (if t_kernel_stack (task_at q3 d) \<noteq> 0
      then q3\<lparr>tss_esp0 := t_kernel_stack (task_at q3 d) + t_kernel_stack_size (task_at q3 d)\<rparr> else q3)"
    unfolding s2_def v using q2 g(1) cd st2 [of c] f1(2) by (simp add: schedule_force_def q3_def Let_def)
  moreover have "rq_rel q3 []" "current_task q3 = Some d" "t_state (task_at q3 c) = TASK_READY"
    using g(2) st2 [of c] cd d(1) rq_rel_len [OF g(2)] by (simp_all add: q3_def rq_rel_def)
  ultimately show ?thesis using cd by (auto simp: rq_rel_def)
qed

section \<open>A concrete scheduler\<close>

text \<open>The kernel task running with tasks 1 and 2 ready, and with task 1 blocked and nobody ready.\<close>

definition sched_demo1 :: sched where "sched_demo1 = ready_queue_add 1 sched_kernel"
definition sched_demo :: sched where "sched_demo = ready_queue_add 2 sched_demo1"
definition sched_demo_blocked :: sched where
  "sched_demo_blocked = task_block 0 (schedule_force sched_demo1)"

lemma sched_kernel_facts: "current_task sched_kernel = Some 0" "\<not> scheduler_lock sched_kernel"
  "t_state (task_at sched_kernel 1) = TASK_UNUSED" "t_state (task_at sched_kernel 2) = TASK_UNUSED"
  by (simp_all add: sched_kernel_def sched_boot_def zero_task_def)

lemma sched_demo1_ok: "sched_ok sched_demo1 [1]"
  using add_task_ok [OF sched_boot_ok, of 1 "\<lambda>t. t"] sched_kernel_facts by (simp add: sched_demo1_def upd_task_id)

lemma sched_demo_ok: "sched_ok sched_demo [1, 2]"
proof -
  have "t_state (task_at sched_demo1 2) = TASK_UNUSED"
    using ready_queue_add_state(1) [OF sched_ok_rel [OF sched_boot_ok], of 1 2] sched_kernel_facts
    by (simp add: sched_demo1_def)
  then show ?thesis
    using add_task_ok [OF sched_demo1_ok, of 2 "\<lambda>t. t"] by (simp add: sched_demo_def upd_task_id)
qed

lemma sched_demo_blocked_ok:
  "sched_ok sched_demo_blocked []" "\<not> scheduler_lock sched_demo_blocked"
  "current_task sched_demo_blocked = Some 0" "t_state (task_at sched_demo_blocked 1) = TASK_BLOCKED"
proof -
  let ?s = "schedule_force sched_demo1"
  have c: "current_task sched_demo1 = Some 0" "\<not> scheduler_lock sched_demo1"
    using sched_kernel_facts by (simp_all add: sched_demo1_def)
  have pre: "sched_pre sched_demo1 [1]" using sched_demo1_ok by (simp add: sched_ok_def)
  have run: "t_state (task_at sched_demo1 0) = TASK_RUNNING" using sched_demo1_ok c by (simp add: sched_ok_def)
  note f = schedule_force_ok [OF pre c(2,1)]
  have ok: "sched_ok ?s [0]" "current_task ?s = Some 1" "\<not> scheduler_lock ?s" using f(1-3) run c by simp_all
  let ?f = "\<lambda>t. t\<lparr>t_state := TASK_BLOCKED, t_block_reason := 0\<rparr>"
  have pre2: "sched_pre (upd_task 1 ?f ?s) [0]"
    by (rule sched_pre_leave [where f = ?f, OF ok(1,2)]) simp_all
  have at: "t_state (task_at (upd_task 1 ?f ?s) 1) = TASK_BLOCKED" using sched_ok_len [OF ok(1)] by simp
  have e: "sched_demo_blocked = schedule_force (upd_task 1 ?f ?s)"
    using ok(2) by (simp add: sched_demo_blocked_def task_block_def)
  note g = schedule_force_ok [OF pre2, of 1]
  show "sched_ok sched_demo_blocked []" "\<not> scheduler_lock sched_demo_blocked"
    "current_task sched_demo_blocked = Some 0" "t_state (task_at sched_demo_blocked 1) = TASK_BLOCKED"
    using g ok at by (simp_all add: e)
qed

theorem sched_reach_ok_witness:
  "\<exists>xs. sched_ok (schedule_force (scheduler_init 0x100000 0x100100 0xD0000018 sched_boot)) xs"
  using sched_reach_ok [OF sched_reach.step [OF sched_reach.init, of Force]] by simp

theorem round_robin_witness: "current_task ((schedule_force ^^ 2) sched_demo) = Some 2"
proof -
  have "current_task sched_demo = Some 0" "\<not> scheduler_lock sched_demo"
    using sched_kernel_facts by (simp_all add: sched_demo_def sched_demo1_def)
  then show ?thesis using round_robin [OF sched_demo_ok, of 0 1] by (simp add: numeral_2_eq_2)
qed

theorem task_lost_witness:
  "\<exists>s. current_task s = Some 1 \<and> rq_rel s [] \<and> t_state (task_at s 0) = TASK_READY \<and>
     s = schedule_force (task_unblock (Some 1) (schedule_force (task_unblock (Some 0) (task_block 0 sched_demo_blocked))))"
  using task_lost [OF sched_demo_blocked_ok(1-3) _ sched_demo_blocked_ok(4)] by auto

end
