(* ===== verification/Sync.thy ===== *)
theory Sync
  imports Sched_Props
begin

text \<open>
  Blocking synchronisation, \<open>kernel/sync/*.c\<close> and \<open>include/sync/*.h\<close>. The first part has the code's
  operations as functions on the structures and the scheduler: wait queues are linked lists of
  entries that \<open>kmalloc\<close> provides (an entry's address is an argument, \<open>None\<close> when the allocation
  fails). Interrupts are off and the spinlock is held between \<open>spinlock_irq_save\<close> and
  \<open>spinlock_irq_restore\<close>, so each such section is one atomic function; a lock operation that has to
  wait is a pass that reports so, followed by \<open>waitqueue_wait\<close>.

  The second part interleaves those sections: step relations for any number of threads, where a
  thread may be preempted between any two sections.
\<close>

section \<open>Atomics and spinlocks\<close>

text \<open>Each operation of \<open>atomic.h\<close> returns its result and the new value; \<open>int32_t\<close> wraps.\<close>

definition atomic_add :: "u32 \<Rightarrow> u32 \<Rightarrow> u32 \<times> u32" where "atomic_add v n = (v + n, v + n)"
definition atomic_sub :: "u32 \<Rightarrow> u32 \<Rightarrow> u32 \<times> u32" where "atomic_sub v n = (v - n, v - n)"
definition atomic_inc :: "u32 \<Rightarrow> u32" where "atomic_inc v = v + 1"
definition atomic_dec :: "u32 \<Rightarrow> u32" where "atomic_dec v = v - 1"
definition atomic_inc_and_test :: "u32 \<Rightarrow> bool \<times> u32" where "atomic_inc_and_test v = (v + 1 = 0, v + 1)"
definition atomic_dec_and_test :: "u32 \<Rightarrow> bool \<times> u32" where "atomic_dec_and_test v = (v - 1 = 0, v - 1)"
definition atomic_cmpxchg :: "u32 \<Rightarrow> u32 \<Rightarrow> u32 \<Rightarrow> u32 \<times> u32" where
  "atomic_cmpxchg v old new = (v, if v = old then new else v)"
definition atomic_xchg :: "u32 \<Rightarrow> u32 \<Rightarrow> u32 \<times> u32" where "atomic_xchg v new = (v, new)"

definition spinlock_init :: u32 where "spinlock_init = 0"
definition spinlock_try_acquire :: "u32 \<Rightarrow> bool \<times> u32" where
  "spinlock_try_acquire lk = (case atomic_xchg lk 1 of (old, lk') \<Rightarrow> (old = 0, lk'))"
definition spinlock_release :: "u32 \<Rightarrow> u32" where "spinlock_release lk = 0"

section \<open>Wait queues\<close>

record wq_entry =
  we_task :: "nat option"
  we_next :: "nat option"

record wait_queue =
  wq_head :: "nat option"
  wq_tail :: "nat option"
  wq_entries :: "nat \<Rightarrow> wq_entry"

definition waitqueue_init :: "wait_queue \<Rightarrow> wait_queue" where
  "waitqueue_init q = q\<lparr>wq_head := None, wq_tail := None\<rparr>"

text \<open>The section of \<open>waitqueue_wait\<close> (and of \<open>condvar_wait\<close>) that links entry \<open>a\<close> for task \<open>t\<close>.\<close>

definition wq_link :: "nat \<Rightarrow> nat \<Rightarrow> wait_queue \<Rightarrow> wait_queue" where
  "wq_link a t q =
     (let q1 = q\<lparr>wq_entries := (wq_entries q)(a := \<lparr>we_task = Some t, we_next = None\<rparr>)\<rparr> in
      case wq_tail q1 of
        Some b \<Rightarrow> q1\<lparr>wq_entries := (wq_entries q1)(b := (wq_entries q1 b)\<lparr>we_next := Some a\<rparr>), wq_tail := Some a\<rparr>
      | None \<Rightarrow> q1\<lparr>wq_head := Some a, wq_tail := Some a\<rparr>)"

text \<open>The section of \<open>waitqueue_wake_one\<close>: the task of the first entry, if there is an entry.\<close>

definition wq_unlink :: "wait_queue \<Rightarrow> nat option option \<times> wait_queue" where
  "wq_unlink q =
     (case wq_head q of
        None \<Rightarrow> (None, q)
      | Some a \<Rightarrow>
          let q1 = q\<lparr>wq_head := we_next (wq_entries q a)\<rparr>;
              q2 = (if wq_head q1 = None then q1\<lparr>wq_tail := None\<rparr> else q1)
          in (Some (we_task (wq_entries q a)), q2))"

definition waitqueue_wait :: "nat option \<Rightarrow> wait_queue \<times> sched \<Rightarrow> wait_queue \<times> sched" where
  "waitqueue_wait entry qs =
     (let (q, s) = qs in
      case current_task s of
        None \<Rightarrow> (q, s)
      | Some c \<Rightarrow> (case entry of None \<Rightarrow> (q, s) | Some a \<Rightarrow> (wq_link a c q, task_block 0 s)))"

definition waitqueue_wake_one :: "wait_queue \<times> sched \<Rightarrow> wait_queue \<times> sched" where
  "waitqueue_wake_one qs =
     (let (q, s) = qs in
      case wq_unlink q of
        (None, q1) \<Rightarrow> (q1, s)
      | (Some t, q1) \<Rightarrow> (q1, task_unblock t s))"

partial_function (option) wake_all_loop :: "wait_queue \<Rightarrow> sched \<Rightarrow> (wait_queue \<times> sched) option" where
  "wake_all_loop q s =
     (case wq_head q of
        None \<Rightarrow> Some (q, s)
      | Some a \<Rightarrow> wake_all_loop (q\<lparr>wq_head := we_next (wq_entries q a)\<rparr>)
                    (task_unblock (we_task (wq_entries q a)) s))"

definition waitqueue_wake_all :: "wait_queue \<times> sched \<Rightarrow> (wait_queue \<times> sched) option" where
  "waitqueue_wake_all qs = (let (q, s) = qs in
     map_option (\<lambda>(q, s). (q\<lparr>wq_tail := None\<rparr>, s)) (wake_all_loop q s))"

definition waitqueue_empty :: "wait_queue \<Rightarrow> bool" where "waitqueue_empty q \<longleftrightarrow> wq_head q = None"

section \<open>Mutexes\<close>

record mutex =
  m_locked :: bool
  m_owner :: u32
  m_owner_task :: "nat option"

definition mutex_init :: mutex where
  "mutex_init = \<lparr>m_locked = False, m_owner = 0, m_owner_task = None\<rparr>"

text \<open>The locked section that takes a free mutex.\<close>

definition mutex_take :: "u32 \<Rightarrow> nat option \<Rightarrow> mutex \<Rightarrow> mutex option" where
  "mutex_take tid cur m =
     (if \<not> m_locked m then Some (m\<lparr>m_locked := True, m_owner := tid, m_owner_task := cur\<rparr>) else None)"

definition cur_tid :: "sched \<Rightarrow> u32" where
  "cur_tid s = (case current_task s of Some c \<Rightarrow> t_tid (task_at s c) | None \<Rightarrow> 0)"

text \<open>
  One pass of the loop of \<open>mutex_lock\<close>, for a mutex at address \<open>addr\<close>: \<open>True\<close> when the mutex is taken,
  \<open>False\<close> when the caller goes on to \<open>waitqueue_wait\<close>, having lent its priority to the owner.
\<close>

definition mutex_lock_pass :: "u32 \<Rightarrow> mutex \<times> sched \<Rightarrow> bool \<times> mutex \<times> sched" where
  "mutex_lock_pass addr ms =
     (let (m, s) = ms in
      case mutex_take (cur_tid s) (current_task s) m of
        Some m' \<Rightarrow>
          (True, m', case current_task s of Some c \<Rightarrow> upd_task c (\<lambda>t. t\<lparr>t_waiting_on := 0\<rparr>) s | None \<Rightarrow> s)
      | None \<Rightarrow>
          (case (current_task s, m_owner_task m) of
             (Some c, Some w) \<Rightarrow>
               let cp = task_get_effective_priority (Some (task_at s c));
                   wp = task_get_effective_priority (Some (task_at s w));
                   s1 = (if cp < wp then upd_task w (task_boost_priority cp) s else s)
               in (False, m, upd_task c (\<lambda>t. t\<lparr>t_waiting_on := addr\<rparr>) s1)
           | _ \<Rightarrow> (False, m, s)))"

text \<open>The locked section of \<open>mutex_unlock\<close>; \<open>waitqueue_wake_one\<close> follows it.\<close>

definition mutex_unlock_section :: "mutex \<times> sched \<Rightarrow> mutex \<times> sched" where
  "mutex_unlock_section ms =
     (let (m, s) = ms in
      (m\<lparr>m_owner := 0, m_owner_task := None, m_locked := False\<rparr>,
       case m_owner_task m of Some w \<Rightarrow> upd_task w task_restore_priority s | None \<Rightarrow> s))"

definition mutex_unlock :: "mutex \<times> wait_queue \<times> sched \<Rightarrow> mutex \<times> wait_queue \<times> sched" where
  "mutex_unlock mqs =
     (let (m, q, s) = mqs; (m1, s1) = mutex_unlock_section (m, s); (q1, s2) = waitqueue_wake_one (q, s1)
      in (m1, q1, s2))"

definition mutex_trylock :: "mutex \<times> sched \<Rightarrow> bool \<times> mutex" where
  "mutex_trylock ms =
     (let (m, s) = ms in
      case mutex_take (cur_tid s) (current_task s) m of Some m' \<Rightarrow> (True, m') | None \<Rightarrow> (False, m))"

definition mutex_is_locked :: "mutex \<Rightarrow> bool" where "mutex_is_locked m \<longleftrightarrow> m_locked m"

section \<open>Semaphores\<close>

text \<open>\<open>count\<close> is an \<open>int32_t\<close>.\<close>

definition semaphore_init :: "int \<Rightarrow> int" where "semaphore_init count = count"

definition semaphore_trywait :: "int \<Rightarrow> bool \<times> int" where
  "semaphore_trywait count = (if count > 0 then (True, count - 1) else (False, count))"

definition semaphore_signal_section :: "int \<Rightarrow> int" where
  "semaphore_signal_section count = (count + 1 + 2 ^ 31) mod 2 ^ 32 - 2 ^ 31"

definition semaphore_signal :: "int \<times> wait_queue \<times> sched \<Rightarrow> int \<times> wait_queue \<times> sched" where
  "semaphore_signal cqs = (let (c, qs) = cqs in (semaphore_signal_section c, waitqueue_wake_one qs))"

definition semaphore_get_count :: "int \<Rightarrow> int" where "semaphore_get_count count = count"

section \<open>Read-write locks\<close>

text \<open>\<open>readers\<close> is an \<open>int32_t\<close>: a word, which wraps.\<close>

record rwlock =
  rw_readers :: u32
  rw_writer :: bool
  rw_writer_waiting :: bool

definition rwlock_init :: rwlock where
  "rwlock_init = \<lparr>rw_readers = 0, rw_writer = False, rw_writer_waiting = False\<rparr>"

text \<open>The locked section of \<open>rwlock_read_lock\<close> and \<open>rwlock_try_read_lock\<close>.\<close>

definition rwlock_try_read_lock :: "rwlock \<Rightarrow> bool \<times> rwlock" where
  "rwlock_try_read_lock rw =
     (if \<not> rw_writer rw \<and> \<not> rw_writer_waiting rw then (True, rw\<lparr>rw_readers := rw_readers rw + 1\<rparr>)
      else (False, rw))"

text \<open>The section of \<open>rwlock_read_unlock\<close>; the flag says whether a writer is woken next.\<close>

definition rwlock_read_unlock_section :: "rwlock \<Rightarrow> bool \<times> rwlock" where
  "rwlock_read_unlock_section rw =
     (let rw1 = rw\<lparr>rw_readers := rw_readers rw - 1\<rparr>
      in (rw_readers rw1 = 0 \<and> rw_writer_waiting rw1, rw1))"

definition rwlock_write_lock_pass :: "rwlock \<Rightarrow> bool \<times> rwlock" where
  "rwlock_write_lock_pass rw =
     (if \<not> rw_writer rw \<and> rw_readers rw = 0 then (True, rw\<lparr>rw_writer := True, rw_writer_waiting := False\<rparr>)
      else (False, rw\<lparr>rw_writer_waiting := True\<rparr>))"

definition rwlock_try_write_lock :: "rwlock \<Rightarrow> bool \<times> rwlock" where
  "rwlock_try_write_lock rw =
     (if \<not> rw_writer rw \<and> rw_readers rw = 0 then (True, rw\<lparr>rw_writer := True\<rparr>) else (False, rw))"

text \<open>
  What \<open>rwlock_write_unlock\<close> does after its section, given which of the two wait queues had waiters.
\<close>

datatype wake = Wake_nobody | Wake_readers | Wake_writer

definition rwlock_write_unlock_section :: "bool \<Rightarrow> bool \<Rightarrow> rwlock \<Rightarrow> wake \<times> rwlock" where
  "rwlock_write_unlock_section has_write_waiters has_read_waiters rw =
     (if has_read_waiters then Wake_readers
      else if has_write_waiters \<and> \<not> has_read_waiters then Wake_writer else Wake_nobody,
      rw\<lparr>rw_writer := False\<rparr>)"

definition rwlock_read_unlock :: "rwlock \<times> wait_queue \<times> sched \<Rightarrow> rwlock \<times> wait_queue \<times> sched" where
  "rwlock_read_unlock rqs =
     (let (rw, qs) = rqs in
      case rwlock_read_unlock_section rw of
        (wk, rw1) \<Rightarrow> (rw1, if wk then waitqueue_wake_one qs else qs))"

text \<open>The two queues are the readers' and the writers'.\<close>

definition rwlock_write_unlock ::
  "rwlock \<times> wait_queue \<times> wait_queue \<times> sched \<Rightarrow> (rwlock \<times> wait_queue \<times> wait_queue \<times> sched) option" where
  "rwlock_write_unlock rqs =
     (let (rw, rq, wq, s) = rqs in
      case rwlock_write_unlock_section (\<not> waitqueue_empty wq) (\<not> waitqueue_empty rq) rw of
        (Wake_readers, rw1) \<Rightarrow> map_option (\<lambda>(rq1, s1). (rw1, rq1, wq, s1)) (waitqueue_wake_all (rq, s))
      | (Wake_writer, rw1) \<Rightarrow> (case waitqueue_wake_one (wq, s) of (wq1, s1) \<Rightarrow> Some (rw1, rq, wq1, s1))
      | (Wake_nobody, rw1) \<Rightarrow> Some (rw1, rq, wq, s))"

section \<open>Condition variables\<close>

definition condvar_init :: "wait_queue \<Rightarrow> wait_queue" where "condvar_init = waitqueue_init"

text \<open>
  \<open>condvar_wait\<close> up to the block: entry linked, mutex released and a waiter of the mutex woken; the
  caller takes the mutex again with \<open>mutex_lock\<close> when it is woken. \<open>cv\<close> is the condition's queue.
\<close>

definition condvar_wait :: "nat option \<Rightarrow> wait_queue \<times> mutex \<times> wait_queue \<times> sched \<Rightarrow>
    wait_queue \<times> mutex \<times> wait_queue \<times> sched" where
  "condvar_wait entry st =
     (let (cv, m, q, s) = st in
      case current_task s of
        None \<Rightarrow> (cv, m, q, s)
      | Some c \<Rightarrow>
          (case entry of
             None \<Rightarrow> (cv, m, q, s)
           | Some a \<Rightarrow> (case mutex_unlock (m, q, s) of (m1, q1, s1) \<Rightarrow> (wq_link a c cv, m1, q1, task_block 0 s1))))"

definition condvar_signal :: "wait_queue \<times> sched \<Rightarrow> wait_queue \<times> sched" where
  "condvar_signal = waitqueue_wake_one"

definition condvar_broadcast :: "wait_queue \<times> sched \<Rightarrow> (wait_queue \<times> sched) option" where
  "condvar_broadcast = waitqueue_wake_all"

section \<open>Interleavings\<close>

text \<open>
  Threads are numbers; \<open>asleep\<close> are the threads whose task is blocked. A queue is the list of its
  waiters, oldest first (\<open>Sync_Props\<close> shows that the linked queue implements it). Waking takes the
  first waiter from the queue and unblocks it, which does nothing to a thread that is not blocked.
\<close>

definition wake_one :: "nat list \<times> nat set \<Rightarrow> nat list \<times> nat set" where
  "wake_one qb = (case qb of ([], b) \<Rightarrow> ([], b) | (x # q, b) \<Rightarrow> (q, b - {x}))"

definition wake_all :: "nat list \<times> nat set \<Rightarrow> nat list \<times> nat set" where
  "wake_all qb = (case qb of (q, b) \<Rightarrow> ([], b - set q))"

text \<open>Where a thread of a mutex or semaphore stands between two sections.\<close>

datatype pc = Idle | Try | Enqueue | Sleep_next | Hold | Wake_next

record mworld =
  mw_mutex :: mutex
  mw_queue :: "nat list"
  mw_asleep :: "nat set"
  mw_pc :: "nat \<Rightarrow> pc"

definition mworld_init :: mworld where
  "mworld_init = \<lparr>mw_mutex = mutex_init, mw_queue = [], mw_asleep = {}, mw_pc = \<lambda>_. Idle\<rparr>"

definition mgoto :: "nat \<Rightarrow> pc \<Rightarrow> mworld \<Rightarrow> mworld" where
  "mgoto t p w = w\<lparr>mw_pc := (mw_pc w)(t := p)\<rparr>"

text \<open>The section that thread \<open>t\<close> executes next; \<open>nomem\<close> says whether \<open>kmalloc\<close> fails in \<open>waitqueue_wait\<close>.\<close>

definition mutex_step :: "bool \<Rightarrow> nat \<Rightarrow> mworld \<Rightarrow> mworld" where
  "mutex_step nomem t w =
     (case mw_pc w t of
        Idle \<Rightarrow> mgoto t Try w
      | Try \<Rightarrow> (case mutex_take (of_nat t) (Some t) (mw_mutex w) of
                 Some m \<Rightarrow> mgoto t Hold (w\<lparr>mw_mutex := m\<rparr>)
               | None \<Rightarrow> mgoto t Enqueue w)
      | Enqueue \<Rightarrow> if nomem then mgoto t Try w
                   else mgoto t Sleep_next (w\<lparr>mw_queue := mw_queue w @ [t]\<rparr>)
      | Sleep_next \<Rightarrow> mgoto t Try (w\<lparr>mw_asleep := insert t (mw_asleep w)\<rparr>)
      | Hold \<Rightarrow> mgoto t Wake_next (w\<lparr>mw_mutex := mw_mutex w\<lparr>m_owner := 0, m_owner_task := None, m_locked := False\<rparr>\<rparr>)
      | Wake_next \<Rightarrow> (case wake_one (mw_queue w, mw_asleep w) of
                       (q, b) \<Rightarrow> mgoto t Idle (w\<lparr>mw_queue := q, mw_asleep := b\<rparr>)))"

inductive mutex_reach :: "mworld \<Rightarrow> bool" where
  init: "mutex_reach mworld_init"
| step: "mutex_reach w \<Longrightarrow> t \<notin> mw_asleep w \<Longrightarrow> mutex_reach (mutex_step nomem t w)"

text \<open>Read-write locks: the same points for readers and for writers.\<close>

datatype rwpc = R_idle | R_try | R_enqueue | R_sleep | R_hold | R_wake
  | W_try | W_enqueue | W_sleep | W_hold | W_wake wake

record rwworld =
  rww_lock :: rwlock
  rww_readq :: "nat list"
  rww_writeq :: "nat list"
  rww_asleep :: "nat set"
  rww_pc :: "nat \<Rightarrow> rwpc"

definition rwworld_init :: rwworld where
  "rwworld_init = \<lparr>rww_lock = rwlock_init, rww_readq = [], rww_writeq = [], rww_asleep = {}, rww_pc = \<lambda>_. R_idle\<rparr>"

definition rwgoto :: "nat \<Rightarrow> rwpc \<Rightarrow> rwworld \<Rightarrow> rwworld" where
  "rwgoto t p w = w\<lparr>rww_pc := (rww_pc w)(t := p)\<rparr>"

text \<open>
  What an idle thread calls next: one of the four ways to lock. \<open>nomem\<close> says whether \<open>kmalloc\<close> fails in
  \<open>waitqueue_wait\<close>, which then returns at once. Threads are slots of the task table, and a thread that holds the
  lock releases it before it locks again.
\<close>

datatype rwop = Read_lock | Write_lock | Try_read_lock | Try_write_lock

definition rw_begin :: "rwop \<Rightarrow> nat \<Rightarrow> rwworld \<Rightarrow> rwworld" where
  "rw_begin op t w =
     (case op of
        Read_lock \<Rightarrow> rwgoto t R_try w
      | Write_lock \<Rightarrow> rwgoto t W_try w
      | Try_read_lock \<Rightarrow> (case rwlock_try_read_lock (rww_lock w) of
                   (ok, l) \<Rightarrow> rwgoto t (if ok then R_hold else R_idle) (w\<lparr>rww_lock := l\<rparr>))
      | Try_write_lock \<Rightarrow> (case rwlock_try_write_lock (rww_lock w) of
                   (ok, l) \<Rightarrow> rwgoto t (if ok then W_hold else R_idle) (w\<lparr>rww_lock := l\<rparr>)))"

definition rw_step :: "rwop \<Rightarrow> bool \<Rightarrow> nat \<Rightarrow> rwworld \<Rightarrow> rwworld" where
  "rw_step op nomem t w =
     (case rww_pc w t of
        R_idle \<Rightarrow> rw_begin op t w
      | R_try \<Rightarrow> (case rwlock_try_read_lock (rww_lock w) of
                   (True, l) \<Rightarrow> rwgoto t R_hold (w\<lparr>rww_lock := l\<rparr>) | (False, l) \<Rightarrow> rwgoto t R_enqueue w)
      | R_enqueue \<Rightarrow> if nomem then rwgoto t R_try w else rwgoto t R_sleep (w\<lparr>rww_readq := rww_readq w @ [t]\<rparr>)
      | R_sleep \<Rightarrow> rwgoto t R_try (w\<lparr>rww_asleep := insert t (rww_asleep w)\<rparr>)
      | R_hold \<Rightarrow> (case rwlock_read_unlock_section (rww_lock w) of
                    (wk, l) \<Rightarrow> rwgoto t (if wk then R_wake else R_idle) (w\<lparr>rww_lock := l\<rparr>))
      | R_wake \<Rightarrow> (case wake_one (rww_writeq w, rww_asleep w) of
                    (q, b) \<Rightarrow> rwgoto t R_idle (w\<lparr>rww_writeq := q, rww_asleep := b\<rparr>))
      | W_try \<Rightarrow> (case rwlock_write_lock_pass (rww_lock w) of
                   (True, l) \<Rightarrow> rwgoto t W_hold (w\<lparr>rww_lock := l\<rparr>)
                 | (False, l) \<Rightarrow> rwgoto t W_enqueue (w\<lparr>rww_lock := l\<rparr>))
      | W_enqueue \<Rightarrow> if nomem then rwgoto t W_try w else rwgoto t W_sleep (w\<lparr>rww_writeq := rww_writeq w @ [t]\<rparr>)
      | W_sleep \<Rightarrow> rwgoto t W_try (w\<lparr>rww_asleep := insert t (rww_asleep w)\<rparr>)
      | W_hold \<Rightarrow> (case rwlock_write_unlock_section (rww_writeq w \<noteq> []) (rww_readq w \<noteq> []) (rww_lock w) of
                    (wk, l) \<Rightarrow> rwgoto t (W_wake wk) (w\<lparr>rww_lock := l\<rparr>))
      | W_wake Wake_nobody \<Rightarrow> rwgoto t R_idle w
      | W_wake Wake_readers \<Rightarrow> (case wake_all (rww_readq w, rww_asleep w) of
                    (q, b) \<Rightarrow> rwgoto t R_idle (w\<lparr>rww_readq := q, rww_asleep := b\<rparr>))
      | W_wake Wake_writer \<Rightarrow> (case wake_one (rww_writeq w, rww_asleep w) of
                    (q, b) \<Rightarrow> rwgoto t R_idle (w\<lparr>rww_writeq := q, rww_asleep := b\<rparr>)))"

inductive rw_reach :: "rwworld \<Rightarrow> bool" where
  init: "rw_reach rwworld_init"
| step: "rw_reach w \<Longrightarrow> t < MAX_TASKS \<Longrightarrow> t \<notin> rww_asleep w \<Longrightarrow> rw_reach (rw_step op nomem t w)"

end
