(* ===== verification/Sync_Props.thy ===== *)
theory Sync_Props
  imports Sync
begin

text \<open>
  Correctness of the blocking primitives: the linked wait queue is a first-in first-out queue,
  mutual exclusion of mutexes and read-write locks under every interleaving, priority inheritance,
  and the two ways in which a thread can sleep forever although the lock it waits for is free.
\<close>

section \<open>The linked wait queue\<close>

definition wq_rel :: "wait_queue \<Rightarrow> nat list \<Rightarrow> bool" where
  "wq_rel q xs \<longleftrightarrow> chain (\<lambda>a. we_next (wq_entries q a)) (wq_head q) xs \<and>
     wq_tail q = (if xs = [] then None else Some (last xs)) \<and> distinct xs"

definition wq_tasks :: "wait_queue \<Rightarrow> nat list \<Rightarrow> nat option list" where
  "wq_tasks q xs = map (\<lambda>a. we_task (wq_entries q a)) xs"

lemma wq_link_rel:
  assumes r: "wq_rel q xs" and a: "a \<notin> set xs"
  shows "wq_rel (wq_link a t q) (xs @ [a]) \<and> wq_tasks (wq_link a t q) (xs @ [a]) = wq_tasks q xs @ [Some t]"
proof (cases "xs = []")
  case True
  then show ?thesis using r by (simp add: wq_rel_def wq_link_def wq_tasks_def Let_def)
next
  case False
  let ?l = "last xs"
  have l: "?l \<in> set xs" "?l \<noteq> a" using False a by auto
  let ?q = "wq_link a t q"
  have q: "?q = q\<lparr>wq_entries := (wq_entries q)(a := \<lparr>we_task = Some t, we_next = None\<rparr>,
      ?l := (wq_entries q ?l)\<lparr>we_next := Some a\<rparr>), wq_tail := Some a\<rparr>"
    using r False l by (simp add: wq_link_def Let_def wq_rel_def)
  have nx: "(\<lambda>b. we_next (wq_entries ?q b)) = (\<lambda>b. we_next (wq_entries q b))(a := None, ?l := Some a)"
    by (auto simp: q fun_eq_iff)
  have "chain (\<lambda>b. we_next (wq_entries ?q b)) (wq_head ?q) (xs @ [a])"
    unfolding nx using chain_append1 [of xs a "\<lambda>b. we_next (wq_entries q b)" "wq_head q"] r False a
    by (simp add: q wq_rel_def)
  moreover have "we_task (wq_entries ?q b) = we_task (wq_entries q b)" if "b \<in> set xs" for b
    using that a by (auto simp: q)
  moreover have "we_task (wq_entries ?q a) = Some t" using l by (auto simp: q)
  ultimately show ?thesis using r a by (simp add: wq_rel_def wq_tasks_def q)
qed

lemma wq_unlink_rel:
  assumes r: "wq_rel q xs"
  shows "case xs of [] \<Rightarrow> wq_unlink q = (None, q)
     | a # ys \<Rightarrow> fst (wq_unlink q) = Some (we_task (wq_entries q a)) \<and> wq_rel (snd (wq_unlink q)) ys \<and>
         wq_entries (snd (wq_unlink q)) = wq_entries q"
proof (cases xs)
  case Nil
  then show ?thesis using r by (simp add: wq_rel_def wq_unlink_def)
next
  case (Cons a ys)
  have ch: "chain (\<lambda>b. we_next (wq_entries q b)) (we_next (wq_entries q a)) ys" "wq_head q = Some a"
    using r Cons by (simp_all add: wq_rel_def)
  then have e: "we_next (wq_entries q a) = None \<longleftrightarrow> ys = []" by (cases ys) auto
  show ?thesis
    using r Cons ch e by (cases ys) (simp_all add: wq_rel_def wq_unlink_def Let_def)
qed

lemma wake_all_loop_chain:
  "chain (\<lambda>b. we_next (wq_entries q b)) (wq_head q) xs \<Longrightarrow>
     wake_all_loop q s = Some (q\<lparr>wq_head := None\<rparr>, fold task_unblock (wq_tasks q xs) s)"
proof (induction xs arbitrary: q s)
  case Nil
  then have "q\<lparr>wq_head := None\<rparr> = q" by simp
  then show ?case using Nil by (subst wake_all_loop.simps) (simp add: wq_tasks_def)
next
  case (Cons a xs)
  let ?q = "q\<lparr>wq_head := we_next (wq_entries q a)\<rparr>"
  have "chain (\<lambda>b. we_next (wq_entries ?q b)) (wq_head ?q) xs" using Cons.prems by simp
  note IH = Cons.IH [OF this, of "task_unblock (we_task (wq_entries q a)) s"]
  have "wake_all_loop q s = wake_all_loop ?q (task_unblock (we_task (wq_entries q a)) s)"
    using Cons.prems by (subst wake_all_loop.simps) simp
  then show ?case using IH by (simp add: wq_tasks_def)
qed

text \<open>
  A wait queue is a first-in first-out queue of tasks: waiting links the task in at the end,
  waking one unlinks and unblocks the task that has waited longest, and waking all ends and unblocks
  every waiter, in the order in which they came.
\<close>

theorem waitqueue_fifo:
  assumes "wq_rel q xs" and "a \<notin> set xs"
  shows "wq_rel (wq_link a t q) (xs @ [a]) \<and> wq_tasks (wq_link a t q) (xs @ [a]) = wq_tasks q xs @ [Some t] \<and>
    (case xs of [] \<Rightarrow> waitqueue_wake_one (q, s) = (q, s)
     | b # ys \<Rightarrow> \<exists>q'. waitqueue_wake_one (q, s) = (q', task_unblock (we_task (wq_entries q b)) s) \<and>
         wq_rel q' ys \<and> wq_tasks q' ys = wq_tasks q ys) \<and>
    (\<exists>q'. waitqueue_wake_all (q, s) = Some (q', fold task_unblock (wq_tasks q xs) s) \<and> wq_rel q' [])"
proof -
  have "\<exists>q'. waitqueue_wake_all (q, s) = Some (q', fold task_unblock (wq_tasks q xs) s) \<and> wq_rel q' []"
    using wake_all_loop_chain [of q xs s] assms(1) by (simp add: waitqueue_wake_all_def wq_rel_def)
  moreover have "case xs of [] \<Rightarrow> waitqueue_wake_one (q, s) = (q, s)
     | b # ys \<Rightarrow> \<exists>q'. waitqueue_wake_one (q, s) = (q', task_unblock (we_task (wq_entries q b)) s) \<and>
         wq_rel q' ys \<and> wq_tasks q' ys = wq_tasks q ys"
  proof (cases xs)
    case Nil
    then show ?thesis using wq_unlink_rel [OF assms(1)] by (simp add: waitqueue_wake_one_def)
  next
    case (Cons b ys)
    obtain o1 q1 where u: "wq_unlink q = (o1, q1)" by fastforce
    then have "o1 = Some (we_task (wq_entries q b))" "wq_rel q1 ys" "wq_entries q1 = wq_entries q"
      using wq_unlink_rel [OF assms(1)] Cons by simp_all
    then show ?thesis using u Cons by (simp add: waitqueue_wake_one_def wq_tasks_def)
  qed
  ultimately show ?thesis using wq_link_rel [OF assms] by blast
qed

section \<open>Mutexes\<close>

lemma mgoto_sel [simp]:
  "mw_mutex (mgoto t p w) = mw_mutex w" "mw_queue (mgoto t p w) = mw_queue w" "mw_asleep (mgoto t p w) = mw_asleep w"
  "mw_pc (mgoto t p w) = (mw_pc w)(t := p)"
  by (simp_all add: mgoto_def)

definition mutex_inv :: "mworld \<Rightarrow> bool" where
  "mutex_inv w \<longleftrightarrow> (case m_owner_task (mw_mutex w) of
       Some o1 \<Rightarrow> m_locked (mw_mutex w) \<and> (\<forall>t. mw_pc w t = Hold \<longleftrightarrow> t = o1)
     | None \<Rightarrow> \<not> m_locked (mw_mutex w) \<and> (\<forall>t. mw_pc w t \<noteq> Hold))"

lemma mutex_step_inv [zos_inv]: "mutex_inv w \<Longrightarrow> mutex_inv (mutex_step nomem t w)"
  by (auto simp: mutex_inv_def mutex_step_def mutex_take_def split: pc.split option.splits prod.splits if_splits)
    (metis pc.distinct)+

text \<open>
  Mutual exclusion: however the threads interleave, at most one of them holds the mutex, it is
  the recorded owner, and the mutex is marked locked exactly while somebody holds it.
\<close>

theorem mutex_exclusion:
  assumes "mutex_reach w"
  shows "(\<forall>t u. mw_pc w t = Hold \<longrightarrow> mw_pc w u = Hold \<longrightarrow> t = u) \<and>
    (m_locked (mw_mutex w) \<longleftrightarrow> (\<exists>t. mw_pc w t = Hold)) \<and>
    (\<forall>t. mw_pc w t = Hold \<longrightarrow> m_owner_task (mw_mutex w) = Some t)"
proof -
  have "mutex_inv w"
    using assms
  proof (induction rule: mutex_reach.induct)
    case init
    show ?case by (simp add: mutex_inv_def mworld_init_def mutex_init_def)
  qed (rule mutex_step_inv)
  then show ?thesis by (auto simp: mutex_inv_def split: option.splits)
qed

text \<open>
  Priority inheritance: after a failed attempt of a waiter, the owner's effective priority is at
  least as urgent as the waiter's (numerically at most) and no less urgent than before; releasing
  the mutex gives the owner its own priority back.
\<close>

theorem priority_inheritance:
  assumes "current_task s = Some c" and "m_locked m" and "m_owner_task m = Some w" and "c \<noteq> w"
    and "c < length (tasks s)" and "w < length (tasks s)"
  shows "(case mutex_lock_pass addr (m, s) of (got, m', s') \<Rightarrow> \<not> got \<and> m' = m \<and>
      t_priority (task_at s' w) = min (t_priority (task_at s w)) (t_priority (task_at s c)) \<and>
      t_waiting_on (task_at s' c) = addr \<and> t_priority (task_at s' c) = t_priority (task_at s c) \<and>
      t_base_priority (task_at s' w) = t_base_priority (task_at s w)) \<and>
    (case mutex_unlock_section (m, s) of (m', s') \<Rightarrow> \<not> m_locked m' \<and>
      t_priority (task_at s' w) = t_base_priority (task_at s w))"
  using assms by (auto simp: mutex_lock_pass_def mutex_take_def mutex_unlock_section_def Let_def min_def
      task_get_effective_priority_def task_boost_priority_def task_restore_priority_def)

theorem priority_inheritance_witness:
  "\<exists>s'. mutex_lock_pass 0x1000 (\<lparr>m_locked = True, m_owner = 1, m_owner_task = Some 1\<rparr>, sched_demo) =
    (False, \<lparr>m_locked = True, m_owner = 1, m_owner_task = Some 1\<rparr>, s')"
proof -
  have "current_task sched_demo = Some 0" "length (tasks sched_demo) = 64"
    using sched_ok_len [OF sched_demo_ok] sched_kernel_facts by (simp_all add: sched_demo_def sched_demo1_def)
  then show ?thesis
    using priority_inheritance [of sched_demo 0 "\<lparr>m_locked = True, m_owner = 1, m_owner_task = Some 1\<rparr>" 1 "0x1000"]
    by (auto split: prod.splits)
qed

text \<open>Running a schedule: a list of threads with the outcome of \<open>kmalloc\<close> for each.\<close>

definition mutex_run :: "nat list \<Rightarrow> mworld" where
  "mutex_run ts = fold (mutex_step False) ts mworld_init"

fun mutex_runs :: "nat list \<Rightarrow> mworld \<Rightarrow> bool" where
  "mutex_runs [] w = True"
| "mutex_runs (t # ts) w = (t \<notin> mw_asleep w \<and> mutex_runs ts (mutex_step False t w))"

lemma mutex_runs_reach: "mutex_reach w \<Longrightarrow> mutex_runs ts w \<Longrightarrow> mutex_reach (fold (mutex_step False) ts w)"
  by (induction ts arbitrary: w) (auto intro: mutex_reach.step)

text \<open>A thread that sleeps and that no queue or wake-up knows stays asleep.\<close>

lemma sleeper_stays:
  assumes "x \<in> mw_asleep w" and "x \<notin> set (mw_queue w)" and "t \<notin> mw_asleep w"
  shows "x \<in> mw_asleep (mutex_step nomem t w) \<and> x \<notin> set (mw_queue (mutex_step nomem t w))"
  using assms by (auto simp: mutex_step_def wake_one_def split: pc.split option.split list.splits)

inductive mutex_steps :: "mworld \<Rightarrow> mworld \<Rightarrow> bool" where
  refl: "mutex_steps w w"
| step: "mutex_steps w w' \<Longrightarrow> t \<notin> mw_asleep w' \<Longrightarrow> mutex_steps w (mutex_step nomem t w')"

lemma sleeper_forever:
  "mutex_steps w w' \<Longrightarrow> x \<in> mw_asleep w \<Longrightarrow> x \<notin> set (mw_queue w) \<Longrightarrow>
     x \<in> mw_asleep w' \<and> x \<notin> set (mw_queue w')"
  by (induction rule: mutex_steps.induct) (auto simp: sleeper_stays)

definition lost_wakeup :: "nat list" where
  "lost_wakeup = [0, 0, 1, 1, 1, 0, 0, 1]"

text \<open>
  A wake-up can be lost: thread 0 takes the mutex, thread 1 finds it taken and queues itself,
  thread 0 releases the mutex and wakes thread 1 before thread 1 has blocked, and then thread 1
  blocks. The mutex is free, nobody is queued, and thread 1 sleeps in every later state.
\<close>

theorem mutex_lost_wakeup:
  "\<exists>w. mutex_reach w \<and> \<not> m_locked (mw_mutex w) \<and> mw_queue w = [] \<and> mw_pc w 0 = Idle \<and> mw_asleep w = {1} \<and>
     (\<forall>w'. mutex_steps w w' \<longrightarrow> 1 \<in> mw_asleep w')"
proof -
  let ?w = "fold (mutex_step False) lost_wakeup mworld_init"
  have "mutex_runs lost_wakeup mworld_init"
    by (simp add: lost_wakeup_def mutex_step_def mworld_init_def mutex_take_def mutex_init_def mgoto_def wake_one_def)
  then have r: "mutex_reach ?w" by (rule mutex_runs_reach [OF mutex_reach.init])
  have s: "\<not> m_locked (mw_mutex ?w)" "mw_queue ?w = []" "mw_pc ?w 0 = Idle" "mw_asleep ?w = {1}"
    by (simp_all add: lost_wakeup_def mutex_step_def mworld_init_def mutex_take_def mutex_init_def mgoto_def wake_one_def)
  then have "\<forall>w'. mutex_steps ?w w' \<longrightarrow> 1 \<in> mw_asleep w'" using sleeper_forever [of ?w _ 1] by simp
  then show ?thesis using r s by blast
qed

section \<open>Read-write locks\<close>

lemma rwgoto_sel [simp]:
  "rww_lock (rwgoto t p w) = rww_lock w" "rww_readq (rwgoto t p w) = rww_readq w"
  "rww_writeq (rwgoto t p w) = rww_writeq w" "rww_asleep (rwgoto t p w) = rww_asleep w"
  "rww_pc (rwgoto t p w) = (rww_pc w)(t := p)"
  by (simp_all add: rwgoto_def)

definition reading :: "rwworld \<Rightarrow> nat set" where "reading w = {t. rww_pc w t = R_hold}"

definition rw_inv :: "rwworld \<Rightarrow> bool" where
  "rw_inv w \<longleftrightarrow> reading w \<subseteq> {..< MAX_TASKS} \<and> unat (rw_readers (rww_lock w)) = card (reading w) \<and>
     (rw_writer (rww_lock w) \<longrightarrow> reading w = {}) \<and>
     (rw_writer (rww_lock w) \<longleftrightarrow> (\<exists>t. rww_pc w t = W_hold)) \<and>
     (\<forall>t u. rww_pc w t = W_hold \<longrightarrow> rww_pc w u = W_hold \<longrightarrow> t = u)"

lemma reading_goto [simp]:
  "reading (rwgoto t p w) = (if p = R_hold then insert t (reading w) else reading w - {t})"
  by (auto simp: reading_def)

lemma reading_upd [simp]:
  "reading (w\<lparr>rww_lock := l\<rparr>) = reading w" "reading (w\<lparr>rww_readq := q\<rparr>) = reading w"
  "reading (w\<lparr>rww_writeq := q\<rparr>) = reading w" "reading (w\<lparr>rww_asleep := b\<rparr>) = reading w"
  by (simp_all add: reading_def)

lemma reading_iff: "t \<in> reading w \<longleftrightarrow> rww_pc w t = R_hold"
  by (simp add: reading_def)

text \<open>The count of readers does not wrap: there are at most as many as slots of the task table.\<close>

lemma reading_bound:
  assumes "rw_inv w"
  shows "finite (reading w)" and "card (reading w) \<le> MAX_TASKS" and "unat (rw_readers (rww_lock w)) = card (reading w)"
proof -
  have r: "reading w \<subseteq> {..< MAX_TASKS}" "unat (rw_readers (rww_lock w)) = card (reading w)" using assms by (simp_all add: rw_inv_def)
  then show "finite (reading w)" "unat (rw_readers (rww_lock w)) = card (reading w)" by (auto intro: finite_subset)
  show "card (reading w) \<le> MAX_TASKS" using card_mono [OF _ r(1)] by simp
qed

lemma no_readers:
  assumes "rw_inv w" and "rw_readers (rww_lock w) = 0"
  shows "reading w = {}"
proof -
  have "card (reading w) = 0" using reading_bound(3) [OF assms(1)] assms(2) by simp
  then show ?thesis using reading_bound(1) [OF assms(1)] by simp
qed

text \<open>Getting the lock and giving it back.\<close>

lemma rw_inv_read:
  assumes inv: "rw_inv w" and t: "t < MAX_TASKS" "rww_pc w t \<notin> {R_hold, W_hold}" and "\<not> rw_writer (rww_lock w)"
    and v: "v = w\<lparr>rww_lock := (rww_lock w)\<lparr>rw_readers := rw_readers (rww_lock w) + 1\<rparr>\<rparr>"
  shows "rw_inv (rwgoto t R_hold v)"
proof -
  note b = reading_bound [OF inv]
  have n: "t \<notin> reading w" using t(2) by (simp add: reading_iff)
  have r: "reading (rwgoto t R_hold v) = insert t (reading w)" by (simp add: v)
  have c: "unat (rw_readers (rww_lock w) + 1) = card (insert t (reading w))"
    using b n by (simp add: unat_word_ariths)
  show ?thesis using inv t(1) assms(4) c unfolding rw_inv_def r by (simp add: v)
qed

lemma rw_inv_write:
  assumes inv: "rw_inv w" and "rww_pc w t \<notin> {R_hold, W_hold}" and "\<not> rw_writer (rww_lock w)" "rw_readers (rww_lock w) = 0"
    and "rw_writer l" "rw_readers l = 0" and v: "v = w\<lparr>rww_lock := l\<rparr>"
  shows "rw_inv (rwgoto t W_hold v)"
  using assms no_readers [OF inv] unfolding v by (auto simp: rw_inv_def)

text \<open>A step of a thread that neither holds nor gets the lock, and the four that change hands.\<close>

lemma rw_inv_pass:
  assumes inv: "rw_inv w" and "rww_pc w t \<notin> {R_hold, W_hold}" and "p \<notin> {R_hold, W_hold}"
    and "rw_readers l = rw_readers (rww_lock w)" and "rw_writer l = rw_writer (rww_lock w)"
    and "rww_lock v = l" and "rww_pc v = rww_pc w"
  shows "rw_inv (rwgoto t p v)"
proof -
  have r: "reading v = reading w" "t \<notin> reading w" using assms by (auto simp: reading_def)
  have "\<forall>u. (rww_pc (rwgoto t p v) u = W_hold) = (rww_pc w u = W_hold)" using assms by auto
  then show ?thesis using inv r assms(3-6) unfolding rw_inv_def by simp
qed

lemma rw_begin_inv:
  assumes inv: "rw_inv w" and t: "t < MAX_TASKS" "rww_pc w t = R_idle"
  shows "rw_inv (rw_begin op t w)"
proof (cases op)
  case Try_read_lock
  then show ?thesis
    using t rw_inv_read [OF inv t(1)] rw_inv_pass [OF inv, of t R_idle "rww_lock w" w]
    by (auto simp: rw_begin_def rwlock_try_read_lock_def)
next
  case Try_write_lock
  then show ?thesis
    using t rw_inv_write [OF inv, of t] rw_inv_pass [OF inv, of t R_idle "rww_lock w" w]
    by (auto simp: rw_begin_def rwlock_try_write_lock_def)
qed (use t rw_inv_pass [OF inv, of t] in \<open>simp_all add: rw_begin_def\<close>)

lemma rw_step_inv [zos_inv]:
  assumes inv: "rw_inv w" and t: "t < MAX_TASKS"
  shows "rw_inv (rw_step op nomem t w)"
proof (cases "rww_pc w t")
  case R_idle
  then show ?thesis using rw_begin_inv [OF inv t] by (simp add: rw_step_def)
next
  case R_try
  then show ?thesis
    using rw_inv_read [OF inv t] rw_inv_pass [OF inv, of t R_enqueue _ w] by (auto simp: rw_step_def rwlock_try_read_lock_def)
next
  case R_hold
  note b = reading_bound [OF inv]
  have r: "t \<in> reading w" using R_hold by (simp add: reading_iff)
  then have "0 < card (reading w)" using b(1) by (auto simp: card_gt_0_iff)
  then have "unat (rw_readers (rww_lock w) - 1) = card (reading w - {t})"
    using b(2,3) r inv by (simp add: rw_inv_def unat_sub_if' word_le_nat_alt)
  then show ?thesis
    using inv R_hold r by (auto simp: rw_step_def rwlock_read_unlock_section_def Let_def rw_inv_def)
next
  case W_try
  then show ?thesis
    using rw_inv_write [OF inv, of t] rw_inv_pass [OF inv, of t W_enqueue "(rww_lock w)\<lparr>rw_writer_waiting := True\<rparr>"]
    by (auto simp: rw_step_def rwlock_write_lock_pass_def)
next
  case W_hold
  then have "rw_writer (rww_lock w)" "reading w = {}" using inv by (auto simp: rw_inv_def)
  then show ?thesis
    using inv W_hold by (auto simp: rw_step_def rwlock_write_unlock_section_def rw_inv_def)
next
  case (W_wake k)
  then show ?thesis
    using rw_inv_pass [OF inv, of t R_idle] by (cases k) (auto simp: rw_step_def split: prod.split)
qed (use rw_inv_pass [OF inv, of t] in \<open>auto simp: rw_step_def split: prod.split\<close>)

text \<open>
  C15. However the tasks interleave their calls of the two locks, the two unlocks and the two try locks, with or
  without memory for the entries of the wait queues: the reader count is the number of tasks reading, a
  writer excludes every reader, and there is at most one writer.
\<close>

theorem rwlock_exclusion:
  assumes "rw_reach w"
  shows "sint (rw_readers (rww_lock w)) = int (card {t. rww_pc w t = R_hold}) \<and>
    (\<forall>t u. rww_pc w t = W_hold \<longrightarrow> rww_pc w u \<noteq> R_hold \<and> (rww_pc w u = W_hold \<longrightarrow> u = t))"
proof -
  have inv: "rw_inv w"
    using assms
  proof (induction rule: rw_reach.induct)
    case init
    show ?case by (simp add: rw_inv_def rwworld_init_def rwlock_init_def reading_def)
  qed (rule rw_step_inv)
  have "unat (rw_readers (rww_lock w)) < 0x80000000" using inv reading_bound(2) [OF inv] by (simp add: rw_inv_def)
  then have "sint (rw_readers (rww_lock w)) = int (card (reading w))"
    using sint_small [of "rw_readers (rww_lock w)"] reading_bound(3) [OF inv] by (simp add: word_less_nat_alt uint_nat)
  then show ?thesis using inv unfolding rw_inv_def reading_def by blast
qed

fun rw_runs :: "(rwop \<times> nat) list \<Rightarrow> rwworld \<Rightarrow> bool" where
  "rw_runs [] w = True"
| "rw_runs ((b, t) # ts) w = (t < MAX_TASKS \<and> t \<notin> rww_asleep w \<and> rw_runs ts (rw_step b False t w))"

definition rw_run :: "(rwop \<times> nat) list \<Rightarrow> rwworld \<Rightarrow> rwworld" where
  "rw_run ts w = fold (\<lambda>(b, t). rw_step b False t) ts w"

lemma rw_run_simps [simp]: "rw_run [] w = w" "rw_run ((b, t) # ts) w = rw_run ts (rw_step b False t w)"
  by (simp_all add: rw_run_def)

lemma rw_runs_reach: "rw_reach w \<Longrightarrow> rw_runs ts w \<Longrightarrow> rw_reach (rw_run ts w)"
  by (induction ts w rule: rw_runs.induct) (auto intro: rw_reach.step)

text \<open>Thread 0 writes, thread 1 wants to read, thread 2 wants to write; thread 0 releases the lock.\<close>

definition rw_deadlock_run :: "(rwop \<times> nat) list" where
  "rw_deadlock_run = map (Pair Write_lock) [0, 0] @ map (Pair Read_lock) [1, 1, 1, 1] @ map (Pair Write_lock) [2, 2, 2, 2] @
     map (Pair Write_lock) [0, 0] @ map (Pair Read_lock) [1, 1, 1]"

text \<open>
  A released read-write lock can be left unused: when readers and a writer wait,
  \<open>rwlock_write_unlock\<close> wakes the readers only, they see \<open>writer_waiting\<close> and sleep again, and nobody
  wakes the writer. The lock is then free, every thread that is not idle sleeps, and a reader that
  comes now is refused as well; only another writer can end this.
\<close>

theorem rwlock_deadlock:
  "\<exists>w. rw_reach w \<and> \<not> rw_writer (rww_lock w) \<and> rw_readers (rww_lock w) = 0 \<and>
     rww_asleep w = {1, 2} \<and> rww_readq w = [1] \<and> rww_writeq w = [2] \<and>
     (\<forall>t. t \<notin> {1, 2} \<longrightarrow> rww_pc w t = R_idle) \<and> \<not> fst (rwlock_try_read_lock (rww_lock w))"
proof -
  note defs = rw_deadlock_run_def rwworld_init_def rwlock_init_def rw_step_def rw_begin_def rwgoto_def rwlock_try_read_lock_def
    rwlock_write_lock_pass_def rwlock_write_unlock_section_def wake_all_def
  have "rw_runs rw_deadlock_run rwworld_init" by (simp add: defs)
  then have "rw_reach (rw_run rw_deadlock_run rwworld_init)" by (rule rw_runs_reach [OF rw_reach.init])
  moreover have "\<not> rw_writer (rww_lock (rw_run rw_deadlock_run rwworld_init)) \<and>
      rw_readers (rww_lock (rw_run rw_deadlock_run rwworld_init)) = 0 \<and>
      rww_asleep (rw_run rw_deadlock_run rwworld_init) = {1, 2} \<and>
      rww_readq (rw_run rw_deadlock_run rwworld_init) = [1] \<and> rww_writeq (rw_run rw_deadlock_run rwworld_init) = [2] \<and>
      (\<forall>t. t \<notin> {1, 2} \<longrightarrow> rww_pc (rw_run rw_deadlock_run rwworld_init) t = R_idle) \<and>
      \<not> fst (rwlock_try_read_lock (rww_lock (rw_run rw_deadlock_run rwworld_init)))"
    by (auto simp: defs)
  ultimately show ?thesis by blast
qed

section \<open>Witnesses\<close>

theorem waitqueue_fifo_witness:
  "\<exists>q'. waitqueue_wake_all (wq_link 7 3 (wq_link 5 2 \<lparr>wq_head = None, wq_tail = None, wq_entries = \<lambda>_. \<lparr>we_task = None, we_next = None\<rparr>\<rparr>), sched_demo) =
     Some (q', task_unblock (Some 3) (task_unblock (Some 2) sched_demo)) \<and> wq_rel q' []"
proof -
  let ?q = "\<lparr>wq_head = None, wq_tail = None, wq_entries = \<lambda>_. \<lparr>we_task = None, we_next = None\<rparr>\<rparr>"
  have r0: "wq_rel ?q []" "wq_tasks ?q [] = []" by (simp_all add: wq_rel_def wq_tasks_def)
  have r1: "wq_rel (wq_link 5 2 ?q) [5]" "wq_tasks (wq_link 5 2 ?q) [5] = [Some 2]"
    using wq_link_rel [OF r0(1), of 5 2] r0(2) by simp_all
  have r2: "wq_rel (wq_link 7 3 (wq_link 5 2 ?q)) [5, 7]" "wq_tasks (wq_link 7 3 (wq_link 5 2 ?q)) [5, 7] = [Some 2, Some 3]"
    using wq_link_rel [OF r1(1), of 7 3] r1(2) by simp_all
  show ?thesis using waitqueue_fifo [OF r2(1), of 9 0 sched_demo] r2(2) by auto
qed

theorem mutex_exclusion_witness:
  "m_owner_task (mw_mutex (mutex_step False 0 (mutex_step False 0 mworld_init))) = Some 0"
proof -
  let ?w = "mutex_step False 0 (mutex_step False 0 mworld_init)"
  have "mutex_reach ?w"
    by (intro mutex_reach.intros) (simp_all add: mworld_init_def mutex_step_def mgoto_def)
  moreover have "mw_pc ?w 0 = Hold"
    by (simp add: mworld_init_def mutex_step_def mgoto_def mutex_take_def mutex_init_def)
  ultimately show ?thesis using mutex_exclusion by blast
qed

theorem rwlock_exclusion_witness:
  "sint (rw_readers (rww_lock (rw_step Try_read_lock True 3 (rw_run [(Read_lock, 0), (Read_lock, 0)] rwworld_init)))) = 2"
proof -
  let ?w = "rw_step Try_read_lock True 3 (rw_run [(Read_lock, 0), (Read_lock, 0)] rwworld_init)"
  have "rw_runs [(Read_lock, 0), (Read_lock, 0)] rwworld_init"
    by (simp add: rwworld_init_def rw_step_def rw_begin_def rwgoto_def)
  then have r: "rw_reach ?w"
    by (intro rw_reach.step rw_runs_reach rw_reach.init)
      (simp_all add: rwworld_init_def rw_step_def rw_begin_def rwgoto_def rwlock_try_read_lock_def rwlock_init_def)
  have "{t. rww_pc ?w t = R_hold} = {0, 3}"
    by (auto simp: rwworld_init_def rw_step_def rw_begin_def rwgoto_def rwlock_try_read_lock_def rwlock_init_def split: if_splits)
  then show ?thesis using rwlock_exclusion [OF r] by simp
qed

theorem mutex_lost_wakeup_witness:
  "\<exists>w. mutex_reach w \<and> \<not> m_locked (mw_mutex w) \<and> 1 \<in> mw_asleep (mutex_step False 0 (mutex_step False 0 w))"
proof -
  obtain w where w: "mutex_reach w" "\<not> m_locked (mw_mutex w)" "mw_pc w 0 = Idle" "mw_asleep w = {1}"
    and ever: "\<forall>w'. mutex_steps w w' \<longrightarrow> 1 \<in> mw_asleep w'"
    using mutex_lost_wakeup by blast
  have "mutex_steps w (mutex_step False 0 w)" using mutex_steps.step [OF mutex_steps.refl] w(4) by simp
  moreover have "0 \<notin> mw_asleep (mutex_step False 0 w)" using w(3,4) by (simp add: mutex_step_def)
  ultimately have "mutex_steps w (mutex_step False 0 (mutex_step False 0 w))" by (rule mutex_steps.step)
  then show ?thesis using ever w(1,2) by blast
qed

theorem rwlock_deadlock_witness:
  "\<exists>w. rw_reach w \<and> rww_pc w 0 = R_idle \<and> 1 \<in> rww_asleep w \<and> \<not> rw_writer (rww_lock w)"
proof -
  obtain w where "rw_reach w" "\<not> rw_writer (rww_lock w)" "rww_asleep w = {1, 2}"
    and idle: "\<forall>t. t \<notin> {1, 2} \<longrightarrow> rww_pc w t = R_idle"
    using rwlock_deadlock by (elim exE conjE) (rule that)
  moreover have "rww_pc w 0 = R_idle" using idle [THEN spec, of 0] by simp
  ultimately show ?thesis by (intro exI [of _ w]) simp
qed

end
