(* ===== verification/Mmap.thy ===== *)
theory Mmap
  imports Vmm
begin

text \<open>
  Memory mappings, \<open>kernel/mm/mmap.c\<close>: the table of virtual memory areas of each process, \<open>mmap\<close>,
  \<open>munmap\<close> and \<open>mprotect\<close> over the frames and the page tables, and the page fault handlers. All
  processes share one page directory and one next address. \<open>cur\<close> is the pid of the current process,
  if there is one. The contents of memory are a map from physical addresses to bytes; an access of the
  kernel to a page that is not mapped is a page fault that nothing handles, the result \<open>None\<close>.
\<close>

section \<open>State\<close>

record vma =
  vm_start :: u32
  vm_end :: u32
  vm_prot :: u32
  vm_flags :: u32
  vm_in_use :: bool
  vm_cow :: bool
  vm_lazy :: bool

record mm =
  pv :: "pmm \<times> vmm"
  mem :: "u32 \<Rightarrow> u8"
  vmas :: "vma list list"
  next_mmap :: u32

abbreviation USER_MMAP_START :: u32 where "USER_MMAP_START \<equiv> 0x40000000"
abbreviation USER_MMAP_END :: u32 where "USER_MMAP_END \<equiv> 0x80000000"
abbreviation USER_STACK_TOP :: u32 where "USER_STACK_TOP \<equiv> 0xBFFFF000"
abbreviation USER_STACK_BOTTOM :: u32 where "USER_STACK_BOTTOM \<equiv> 0xBF800000"
abbreviation MAP_SHARED :: u32 where "MAP_SHARED \<equiv> 0x01"
abbreviation MAP_FIXED :: u32 where "MAP_FIXED \<equiv> 0x10"
abbreviation MAP_ANONYMOUS :: u32 where "MAP_ANONYMOUS \<equiv> 0x20"
abbreviation MAP_FAILED :: u32 where "MAP_FAILED \<equiv> 0xFFFFFFFF"
abbreviation PROT_WRITE :: u32 where "PROT_WRITE \<equiv> 2"

definition no_vma :: vma where
  "no_vma = \<lparr>vm_start = 0, vm_end = 0, vm_prot = 0, vm_flags = 0, vm_in_use = False, vm_cow = False, vm_lazy = False\<rparr>"

definition mmap_init :: "mm \<Rightarrow> mm" where
  "mmap_init m = m\<lparr>vmas := replicate 64 (replicate 32 no_vma), next_mmap := USER_MMAP_START\<rparr>"

definition vma_init_process :: "u32 \<Rightarrow> mm \<Rightarrow> mm" where
  "vma_init_process pid m = (if pid \<ge> 64 then m else m\<lparr>vmas := (vmas m)[unat pid := replicate 32 no_vma]\<rparr>)"

section \<open>Areas\<close>

definition get_vma_table :: "u32 option \<Rightarrow> nat option" where
  "get_vma_table cur = (case cur of None \<Rightarrow> None | Some pid \<Rightarrow> if pid \<ge> 64 then None else Some (unat pid))"

text \<open>An area is addressed by its table and its slot.\<close>

definition vma_at :: "nat \<times> nat \<Rightarrow> mm \<Rightarrow> vma" where "vma_at a m = vmas m ! fst a ! snd a"

definition upd_vma :: "nat \<times> nat \<Rightarrow> (vma \<Rightarrow> vma) \<Rightarrow> mm \<Rightarrow> mm" where
  "upd_vma a f m = m\<lparr>vmas := (vmas m)[fst a := (vmas m ! fst a)[snd a := f (vma_at a m)]]\<rparr>"

definition vma_find :: "u32 option \<Rightarrow> u32 \<Rightarrow> mm \<Rightarrow> (nat \<times> nat) option" where
  "vma_find cur addr m =
     (case get_vma_table cur of
        None \<Rightarrow> None
      | Some t \<Rightarrow> map_option (Pair t) (find_idx (\<lambda>v. vm_in_use v \<and> addr \<ge> vm_start v \<and> addr < vm_end v) (vmas m ! t)))"

definition vma_create :: "u32 option \<Rightarrow> u32 \<Rightarrow> u32 \<Rightarrow> u32 \<Rightarrow> u32 \<Rightarrow> mm \<Rightarrow> (nat \<times> nat) option \<times> mm" where
  "vma_create cur start end_addr prot flags m =
     (case get_vma_table cur of
        None \<Rightarrow> (None, m)
      | Some t \<Rightarrow>
          (case find_idx (\<lambda>v. \<not> vm_in_use v) (vmas m ! t) of
             None \<Rightarrow> (None, m)
           | Some i \<Rightarrow>
               (Some (t, i), upd_vma (t, i) (\<lambda>_. \<lparr>vm_start = start, vm_end = end_addr, vm_prot = prot, vm_flags = flags,
                  vm_in_use = True, vm_cow = False, vm_lazy = flags AND MAP_ANONYMOUS \<noteq> 0\<rparr>) m)))"

definition vma_destroy :: "(nat \<times> nat) option \<Rightarrow> mm \<Rightarrow> int \<times> mm" where
  "vma_destroy a m = (case a of None \<Rightarrow> (-1, m) | Some a \<Rightarrow> (0, upd_vma a (\<lambda>v. v\<lparr>vm_in_use := False\<rparr>) m))"

section \<open>Kernel accesses through the page tables\<close>

abbreviation phys_of :: "mm \<Rightarrow> u32 \<Rightarrow> u32" where "phys_of m \<equiv> vmm_get_physical (snd (pv m))"
abbreviation mapped :: "mm \<Rightarrow> u32 \<Rightarrow> bool" where "mapped m \<equiv> vmm_is_mapped (snd (pv m))"

definition clear_page :: "u32 \<Rightarrow> mm \<Rightarrow> mm option" where
  "clear_page page m =
     (if list_all (\<lambda>i. mapped m (page + of_nat i)) [0 ..< 4096]
      then Some (m\<lparr>mem := fold (\<lambda>i f. f(phys_of m (page + of_nat i) := 0)) [0 ..< 4096] (mem m)\<rparr>)
      else None)"

definition copy_page :: "u32 \<Rightarrow> u32 \<Rightarrow> mm \<Rightarrow> mm option" where
  "copy_page dst src m =
     (if list_all (\<lambda>i. mapped m (dst + of_nat i) \<and> mapped m (src + of_nat i)) [0 ..< 4096]
      then Some (m\<lparr>mem := fold (\<lambda>i f. f(phys_of m (dst + of_nat i) := f (phys_of m (src + of_nat i)))) [0 ..< 4096] (mem m)\<rparr>)
      else None)"

definition map_page :: "u32 \<Rightarrow> u32 \<Rightarrow> u32 \<Rightarrow> mm \<Rightarrow> mm" where
  "map_page page phys flags m = m\<lparr>pv := vmm_map_page page phys flags (pv m)\<rparr>"

definition unmap_page :: "u32 \<Rightarrow> mm \<Rightarrow> mm" where
  "unmap_page page m = m\<lparr>pv := (fst (pv m), vmm_unmap_page page (snd (pv m)))\<rparr>"

definition alloc_frame :: "mm \<Rightarrow> u32 \<times> mm" where
  "alloc_frame m = (let (phys, p) = pmm_alloc_frame (fst (pv m)) in (phys, m\<lparr>pv := (p, snd (pv m))\<rparr>))"

definition free_frame :: "u32 \<Rightarrow> mm \<Rightarrow> mm" where
  "free_frame phys m = m\<lparr>pv := (pmm_free_frame phys (fst (pv m)), snd (pv m))\<rparr>"

section \<open>mmap\<close>

text \<open>One iteration of the loop that gives the pages mapped so far back.\<close>

definition unmap_free :: "u32 \<Rightarrow> mm \<Rightarrow> mm" where
  "unmap_free page m = free_frame (phys_of m page) (unmap_page page m)"

text \<open>The loop over the pages; \<open>done\<close> are the pages before, \<open>False\<close> says that the frames ran out.\<close>

fun mmap_pages :: "u32 list \<Rightarrow> u32 list \<Rightarrow> mm \<Rightarrow> (bool \<times> mm) option" where
  "mmap_pages done_pages [] m = Some (True, m)"
| "mmap_pages done_pages (page # ps) m =
     (let (phys, m1) = alloc_frame m in
      if phys = 0 then Some (False, fold unmap_free done_pages m1)
      else case clear_page page (map_page page phys (PAGE_USER OR PAGE_PRESENT OR PAGE_WRITE) m1) of
             None \<Rightarrow> None
           | Some m2 \<Rightarrow> mmap_pages (done_pages @ [page]) ps m2)"

definition page_round :: "u32 \<Rightarrow> u32" where "page_round len = (len + 0xFFF) AND NOT 0xFFF"

definition sys_mmap :: "u32 option \<Rightarrow> u32 \<Rightarrow> u32 \<Rightarrow> u32 \<Rightarrow> u32 \<Rightarrow> mm \<Rightarrow> (u32 \<times> mm) option" where
  "sys_mmap cur addr len prot flags m =
     (let sz = page_round len; fixed = flags AND MAP_FIXED \<noteq> 0;
          vaddr = (if fixed then addr else next_mmap m)
      in if len = 0 then Some (MAP_FAILED, m)
         else if fixed \<and> vaddr < USER_MMAP_START \<or> vaddr + sz > USER_MMAP_END then Some (MAP_FAILED, m)
         else
           let m1 = (if fixed then m else m\<lparr>next_mmap := next_mmap m + sz\<rparr>) in
           case vma_create cur vaddr (vaddr + sz) prot flags m1 of
             (None, m2) \<Rightarrow> Some (MAP_FAILED, m2)
           | (Some a, m2) \<Rightarrow>
               if flags AND MAP_ANONYMOUS \<noteq> 0 then
                 (case mmap_pages [] (page_range vaddr (vaddr + sz)) m2 of
                    None \<Rightarrow> None
                  | Some (ok, m3) \<Rightarrow>
                      if ok then Some (vaddr, m3) else Some (MAP_FAILED, snd (vma_destroy (Some a) m3)))
               else Some (MAP_FAILED, snd (vma_destroy (Some a) m2)))"

section \<open>munmap and mprotect\<close>

definition munmap_page :: "bool \<Rightarrow> u32 \<Rightarrow> mm \<Rightarrow> mm" where
  "munmap_page shared page m =
     (if \<not> mapped m page then m
      else if shared then unmap_page page m else unmap_free page m)"

definition sys_munmap :: "u32 option \<Rightarrow> u32 \<Rightarrow> u32 \<Rightarrow> mm \<Rightarrow> int \<times> mm" where
  "sys_munmap cur addr len m =
     (if addr AND 0xFFF \<noteq> 0 then (-22, m)
      else if len = 0 then (-22, m)
      else
        let sz = page_round len in
        case vma_find cur addr m of
          None \<Rightarrow> (-22, m)
        | Some a \<Rightarrow>
            let v = vma_at a m;
                m1 = fold (munmap_page (vm_flags v AND MAP_SHARED \<noteq> 0)) (page_range addr (addr + sz)) m
            in (0, if addr = vm_start v \<and> addr + sz = vm_end v then snd (vma_destroy (Some a) m1)
                   else if addr = vm_start v then upd_vma a (\<lambda>v. v\<lparr>vm_start := addr + sz\<rparr>) m1
                   else if addr + sz = vm_end v then upd_vma a (\<lambda>v. v\<lparr>vm_end := addr\<rparr>) m1
                   else m1))"

definition mprotect_page :: "u32 \<Rightarrow> u32 \<Rightarrow> mm \<Rightarrow> mm" where
  "mprotect_page flags page m =
     (if mapped m page then map_page page (phys_of m page) flags (unmap_page page m) else m)"

definition sys_mprotect :: "u32 option \<Rightarrow> u32 \<Rightarrow> u32 \<Rightarrow> u32 \<Rightarrow> mm \<Rightarrow> int \<times> mm" where
  "sys_mprotect cur addr len prot m =
     (if addr AND 0xFFF \<noteq> 0 then (-22, m)
      else if len = 0 then (-22, m)
      else
        let sz = page_round len in
        case vma_find cur addr m of
          None \<Rightarrow> (-22, m)
        | Some a \<Rightarrow>
            let flags = (if prot AND PROT_WRITE \<noteq> 0 then PAGE_USER OR PAGE_PRESENT OR PAGE_WRITE else PAGE_USER OR PAGE_PRESENT)
            in (0, fold (mprotect_page flags) (page_range addr (addr + sz)) (upd_vma a (\<lambda>v. v\<lparr>vm_prot := prot\<rparr>) m)))"

section \<open>Page faults\<close>

definition cow_mark_page :: "u32 \<Rightarrow> mm \<Rightarrow> int \<times> mm" where
  "cow_mark_page virt m =
     (if \<not> mapped m virt then (-1, m)
      else (0, map_page virt (phys_of m virt) (PAGE_USER OR PAGE_PRESENT) (unmap_page virt m)))"

definition cow_handle_fault :: "u32 option \<Rightarrow> u32 \<Rightarrow> mm \<Rightarrow> (int \<times> mm) option" where
  "cow_handle_fault cur fault_addr m =
     (let page_addr = fault_addr AND NOT 0xFFF in
      case vma_find cur fault_addr m of
        None \<Rightarrow> Some (-1, m)
      | Some a \<Rightarrow>
          if \<not> vm_cow (vma_at a m) then Some (-1, m)
          else if vm_prot (vma_at a m) AND PROT_WRITE = 0 then Some (-1, m)
          else if phys_of m page_addr = 0 then Some (-1, m)
          else
            let (phys, m1) = alloc_frame m in
            if phys = 0 then Some (-12, m1)
            else case copy_page 0xFFFFE000 page_addr (map_page 0xFFFFE000 phys PAGE_KERNEL m1) of
                   None \<Rightarrow> None
                 | Some m2 \<Rightarrow>
                     Some (0, map_page page_addr phys (PAGE_USER OR PAGE_PRESENT OR PAGE_WRITE)
                                (unmap_page page_addr (unmap_page 0xFFFFE000 m2))))"

definition demand_page_alloc :: "u32 \<Rightarrow> nat \<times> nat \<Rightarrow> mm \<Rightarrow> (int \<times> mm) option" where
  "demand_page_alloc virt a m =
     (let page_addr = virt AND NOT 0xFFF in
      if mapped m page_addr then Some (-1, m)
      else
        let (phys, m1) = alloc_frame m in
        if phys = 0 then Some (-12, m1)
        else
          let flags = (if vm_prot (vma_at a m1) AND PROT_WRITE \<noteq> 0 then PAGE_USER OR PAGE_PRESENT OR PAGE_WRITE
                       else PAGE_USER OR PAGE_PRESENT);
              m2 = map_page page_addr phys flags m1
          in if vm_flags (vma_at a m2) AND MAP_ANONYMOUS \<noteq> 0
             then map_option (Pair 0) (clear_page page_addr m2) else Some (0, m2))"

definition stack_grow :: "u32 \<Rightarrow> mm \<Rightarrow> (int \<times> mm) option" where
  "stack_grow fault_addr m =
     (let page_addr = fault_addr AND NOT 0xFFF in
      if mapped m page_addr then Some (-1, m)
      else
        let (phys, m1) = alloc_frame m in
        if phys = 0 then Some (-12, m1)
        else map_option (Pair 0)
               (clear_page page_addr (map_page page_addr phys (PAGE_USER OR PAGE_PRESENT OR PAGE_WRITE) m1)))"

text \<open>The handlers in their order: each is tried only if the ones before have not returned 0.\<close>

definition handle_page_fault :: "u32 option \<Rightarrow> u32 \<Rightarrow> u32 \<Rightarrow> mm \<Rightarrow> (int \<times> mm) option" where
  "handle_page_fault cur fault_addr error_code m =
     (case (if error_code AND 1 \<noteq> 0 \<and> error_code AND 2 \<noteq> 0 then cow_handle_fault cur fault_addr m else Some (-1, m)) of
        None \<Rightarrow> None
      | Some (r, m1) \<Rightarrow>
          if r = 0 then Some (0, m1)
          else
            (case (case vma_find cur fault_addr m1 of
                     None \<Rightarrow> Some (-1, m1)
                   | Some a \<Rightarrow> if vm_lazy (vma_at a m1) then demand_page_alloc fault_addr a m1 else Some (-1, m1)) of
               None \<Rightarrow> None
             | Some (r, m2) \<Rightarrow>
                 if r = 0 then Some (0, m2)
                 else if fault_addr \<ge> USER_STACK_BOTTOM \<and> fault_addr < USER_STACK_TOP then
                   (case stack_grow fault_addr m2 of
                      None \<Rightarrow> None
                    | Some (r, m3) \<Rightarrow> Some (if r = 0 then 0 else -1, m3))
                 else Some (-1, m2)))"

end
