(* ===== verification/Mmap_Props.thy ===== *)
theory Mmap_Props
  imports Mmap
begin

text \<open>
  Memory mappings: an anonymous mapping gives fresh, distinct, zeroed frames to exactly its pages, a
  mapping that fails gives everything back, and unmapping restores the translations and the frames.
  \<open>mapped_in m0 D m\<close> is the invariant of the loops: \<open>m\<close> differs from \<open>m0\<close> in that the pages of \<open>D\<close> have
  got frames of their own, and in new page tables.
\<close>

section \<open>Pages\<close>

definition user_page :: "u32 \<Rightarrow> bool" where
  "user_page a \<longleftrightarrow> a AND 0xFFF = 0 \<and> unat (pd_idx a) < 1023"

definition fr :: "vmm \<Rightarrow> u32 \<Rightarrow> u32" where "fr v a = pt_entry v a AND 0xFFFFF000"

text \<open>The entry that is in effect for an address.\<close>

definition in_effect :: "vmm \<Rightarrow> u32 \<Rightarrow> u32" where
  "in_effect v a = (if present (pt_entry v a) then pt_entry v a else 0)"

lemma aligned_base: "a AND 0xFFF = 0 \<Longrightarrow> a AND 0xFFFFF000 = (a :: u32)"
  using page_or_flags [of a 0] by simp

lemma base_aligned: "(a AND 0xFFFFF000) AND 0xFFF = (0 :: u32)"
  by (simp add: and.assoc)

lemma unat_page_offset:
  assumes "(a :: u32) AND 0xFFF = 0" and "i < 4096"
  shows "unat (a + of_nat i) = unat a + i"
proof -
  have d: "unat a mod 4096 = 0" using assms(1) by (simp add: page_aligned_unat)
  have "unat a + i < 2 ^ 32"
  proof -
    define q where "q = unat a div 4096"
    have "unat a = q * 4096" using d unfolding q_def by auto
    moreover have "q < 1048576" using unat_lt_u32 [of a] by (simp add: q_def)
    ultimately show ?thesis using assms(2) by simp
  qed
  then show ?thesis using assms(2) by (simp add: unat_word_ariths unat_of_nat)
qed

lemma page_offset:
  assumes "(a :: u32) AND 0xFFF = 0" and "i < 4096"
  shows "(a + of_nat i) AND 0xFFFFF000 = a" and "(a + of_nat i) AND 0xFFF = of_nat i"
proof -
  have d: "unat a mod 4096 = 0" using assms(1) by (simp add: page_aligned_unat)
  then have m: "(unat a + i) mod 4096 = i" using assms(2) by (metis add.left_neutral mod_add_left_eq mod_less)
  have "unat ((a + of_nat i) AND 0xFFFFF000) = unat a"
    unfolding page_base_alt unat_page_base unat_page_offset [OF assms] using m by simp
  then show "(a + of_nat i) AND 0xFFFFF000 = a" by (simp only: word_unat_eq_iff)
  have "unat ((a + of_nat i) AND 0xFFF) = unat (of_nat i :: u32)"
    unfolding unat_low12 unat_page_offset [OF assms] m using assms(2) by (simp add: unat_of_nat)
  then show "(a + of_nat i) AND 0xFFF = of_nat i" by (simp only: word_unat_eq_iff)
qed

lemma or_offset:
  assumes "(a :: u32) AND 0xFFF = 0" and "i < 4096"
  shows "a OR of_nat i = a + of_nat i"
proof -
  have i: "of_nat i AND 0xFFF = (of_nat i :: u32)" using page_offset(2) [of 0 i] assms(2) by simp
  have "a AND of_nat i = a AND (of_nat i AND 0xFFF)" by (simp only: i)
  also have "\<dots> = (a AND 0xFFF) AND of_nat i" by (simp only: and.assoc and.commute and.left_commute)
  finally have "a AND of_nat i = 0" using assms(1) by simp
  then show ?thesis using disjunctive_add_eq_or by metis
qed

lemma offset_entry:
  assumes "user_page a" and "i < 4096"
  shows "pt_entry v (a + of_nat i) = pt_entry v a" and "unat (pd_idx (a + of_nat i)) < 1023"
proof -
  have "(a + of_nat i) AND 0xFFFFF000 = a AND 0xFFFFF000"
    using assms page_offset(1) aligned_base by (simp add: user_page_def)
  then have "unat (pd_idx (a + of_nat i)) = unat (pd_idx a) \<and> unat (pt_idx (a + of_nat i)) = unat (pt_idx a)"
    by (simp only: same_page)
  then show "pt_entry v (a + of_nat i) = pt_entry v a" "unat (pd_idx (a + of_nat i)) < 1023"
    using assms(1) by (simp_all add: pt_entry_def user_page_def)
qed

lemma physical_offset:
  assumes "self_map v" and "user_page a" and "i < 4096" and "present (pt_entry v a)"
  shows "vmm_get_physical v (a + of_nat i) = fr v a + of_nat i" and "vmm_is_mapped v (a + of_nat i)"
proof -
  have al: "a AND 0xFFF = 0" using assms(2) by (simp add: user_page_def)
  show "vmm_get_physical v (a + of_nat i) = fr v a + of_nat i"
    using assms offset_entry [OF assms(2,3)] page_offset(2) [OF al assms(3)] or_offset [OF base_aligned assms(3)]
    by (simp add: vmm_get_physical_alt fr_def)
  show "vmm_is_mapped v (a + of_nat i)"
    using assms offset_entry [OF assms(2,3)] by (simp add: vmm_is_mapped_alt)
qed

lemma physical_page:
  "self_map v \<Longrightarrow> user_page a \<Longrightarrow> present (pt_entry v a) \<Longrightarrow> vmm_get_physical v a = fr v a"
  using physical_offset(1) [of v a 0] by simp

lemma fold_store:
  "fold (\<lambda>i f. f(g i := c)) is f a = (if \<exists>i \<in> set is. g i = a then c else f a)"
  by (induction "is" arbitrary: f) auto

section \<open>The invariant of the loops\<close>

definition mapped_in :: "mm \<Rightarrow> u32 set \<Rightarrow> mm \<Rightarrow> bool" where
  "mapped_in m0 D m \<longleftrightarrow>
     (let p0 = fst (pv m0); v0 = snd (pv m0); p = fst (pv m); v = snd (pv m) in
      vmm_wf (p0, v0) \<and> vmm_wf (p, v) \<and> cr3 v = cr3 v0 \<and> frames_in_use p0 \<subseteq> frames_in_use p \<and>
      (\<forall>a. unat (pd_idx a) < 1023 \<longrightarrow> a AND 0xFFFFF000 \<notin> D \<longrightarrow> in_effect v a = in_effect v0 a) \<and>
      (\<forall>a \<in> D. user_page a \<and> in_effect v0 a = 0 \<and> present (pt_entry v a) \<and> fr v a \<in> frames_in_use p \<and> fr v a \<notin> frames_in_use p0) \<and>
      inj_on (fr v) D \<and>
      (\<forall>a \<in> D. \<forall>k < 1023. present (pde v k) \<longrightarrow> tbl v k \<noteq> fr v a) \<and>
      (\<forall>f \<in> frames_in_use p. f \<in> frames_in_use p0 \<or> f \<in> fr v ` D \<or> (\<exists>k < 1023. present (pde v k) \<and> tbl v k = f)) \<and>
      (\<forall>a. a AND 0xFFFFF000 \<in> frames_in_use p0 \<longrightarrow> mem m a = mem m0 a) \<and>
      (\<forall>a \<in> D. \<forall>i < 4096. mem m (fr v a + of_nat i) = 0))"

lemma mapped_inD:
  assumes "mapped_in m0 D m" and "pv m0 = (p0, v0)" and "pv m = (p, v)"
  shows "vmm_wf (p0, v0)" "vmm_wf (p, v)" "cr3 v = cr3 v0" "frames_in_use p0 \<subseteq> frames_in_use p"
    "\<And>a. unat (pd_idx a) < 1023 \<Longrightarrow> a AND 0xFFFFF000 \<notin> D \<Longrightarrow> in_effect v a = in_effect v0 a"
    "\<And>a. a \<in> D \<Longrightarrow> user_page a \<and> in_effect v0 a = 0 \<and> present (pt_entry v a) \<and> fr v a \<in> frames_in_use p \<and> fr v a \<notin> frames_in_use p0"
    "inj_on (fr v) D" "\<And>a k. a \<in> D \<Longrightarrow> k < 1023 \<Longrightarrow> present (pde v k) \<Longrightarrow> tbl v k \<noteq> fr v a"
    "\<And>f. f \<in> frames_in_use p \<Longrightarrow> f \<in> frames_in_use p0 \<or> f \<in> fr v ` D \<or> (\<exists>k < 1023. present (pde v k) \<and> tbl v k = f)"
    "\<And>a. a AND 0xFFFFF000 \<in> frames_in_use p0 \<Longrightarrow> mem m a = mem m0 a"
    "\<And>a i. a \<in> D \<Longrightarrow> i < 4096 \<Longrightarrow> mem m (fr v a + of_nat i) = 0"
  using assms by (auto simp: mapped_in_def Let_def)

lemma mapped_inI:
  assumes "pv m0 = (p0, v0)" and "pv m = (p, v)"
    and "vmm_wf (p0, v0)" "vmm_wf (p, v)" "cr3 v = cr3 v0" "frames_in_use p0 \<subseteq> frames_in_use p"
    "\<And>a. unat (pd_idx a) < 1023 \<Longrightarrow> a AND 0xFFFFF000 \<notin> D \<Longrightarrow> in_effect v a = in_effect v0 a"
    "\<And>a. a \<in> D \<Longrightarrow> user_page a \<and> in_effect v0 a = 0 \<and> present (pt_entry v a) \<and> fr v a \<in> frames_in_use p \<and> fr v a \<notin> frames_in_use p0"
    "inj_on (fr v) D" "\<And>a k. a \<in> D \<Longrightarrow> k < 1023 \<Longrightarrow> present (pde v k) \<Longrightarrow> tbl v k \<noteq> fr v a"
    "\<And>f. f \<in> frames_in_use p \<Longrightarrow> f \<in> frames_in_use p0 \<or> f \<in> fr v ` D \<or> (\<exists>k < 1023. present (pde v k) \<and> tbl v k = f)"
    "\<And>a. a AND 0xFFFFF000 \<in> frames_in_use p0 \<Longrightarrow> mem m a = mem m0 a"
    "\<And>a i. a \<in> D \<Longrightarrow> i < 4096 \<Longrightarrow> mem m (fr v a + of_nat i) = 0"
  shows "mapped_in m0 D m"
  unfolding mapped_in_def Let_def assms(1,2) fst_conv snd_conv using assms(3-) by blast

lemma mapped_in_refl: "vmm_wf (pv m) \<Longrightarrow> mapped_in m {} m"
  by (cases "pv m") (auto simp: mapped_in_def)

lemma mapped_in_cong:
  "pv m0' = pv m0 \<Longrightarrow> mem m0' = mem m0 \<Longrightarrow> pv m' = pv m \<Longrightarrow> mem m' = mem m \<Longrightarrow> mapped_in m0' D m' = mapped_in m0 D m"
  by (simp add: mapped_in_def)

lemma alloc_wf: "vmm_wf (p, v) \<Longrightarrow> pmm_alloc_frame p = (a, p') \<Longrightarrow> vmm_wf (p', v)"
  using pmm_src.alloc_ok pmm_src.alloc_mono unfolding vmm_wf_def by (fastforce simp: Let_def)

lemma free_wf:
  assumes "vmm_wf (p, v)" and "a AND 0xFFF = 0" and "a \<noteq> cr3 v" and "\<And>k. k < 1023 \<Longrightarrow> present (pde v k) \<Longrightarrow> tbl v k \<noteq> a"
  shows "vmm_wf (pmm_free_frame a p, v)"
  using assms pmm_src.free_ok [OF vmm_wfD(1) [OF assms(1)]] pmm_src.free_used [OF vmm_wfD(1) [OF assms(1)] assms(2)]
  unfolding vmm_wf_def by (auto simp: Let_def)

lemma in_effect_map:
  assumes "pt_entry w a = (if a AND 0xFFFFF000 = b then x else pt_entry u a)" and "pt_entry u a = pt_entry v a"
  shows "in_effect w a = (if a AND 0xFFFFF000 = b then if present x then x else 0 else in_effect v a)"
  using assms by (simp add: in_effect_def)

text \<open>Giving one page back.\<close>

lemma unmap_free_step:
  assumes "mapped_in m0 (insert a D) m" and "a \<notin> D"
  shows "mapped_in m0 D (unmap_free a m)" and "vmas (unmap_free a m) = vmas m" and "next_mmap (unmap_free a m) = next_mmap m"
    and "mapped m a" and "munmap_page False a m = unmap_free a m"
proof -
  obtain p0 v0 where m0: "pv m0 = (p0, v0)" by fastforce
  obtain p v where m: "pv m = (p, v)" by fastforce
  note I = mapped_inD [OF assms(1) m0 m]
  have a: "user_page a" "in_effect v0 a = 0" "present (pt_entry v a)" "fr v a \<in> frames_in_use p" "fr v a \<notin> frames_in_use p0"
    using I(6) [of a] by simp_all
  have i: "unat (pd_idx a) < 1023" and base: "a AND 0xFFFFF000 = a"
    using a(1) aligned_base by (simp_all add: user_page_def)
  have pd: "present (pde v (unat (pd_idx a)))" using a(3) by (auto simp: pt_entry_def split: if_splits)
  note sm = vmm_wfD(2) [OF I(2)]
  define w where "w = va_write (PT_ENT (pd_idx a) (pt_idx a)) 0 v"
  have un: "vmm_unmap_page a v = w" using pd by (simp add: vmm_unmap_page_def va_read_PD [OF sm] present_def w_def)
  note fin = map_page_final [OF I(2) i pd, where x = 0, folded w_def]
  have ph: "phys_of m a = fr v a" using physical_page [OF sm a(1,3)] by (simp add: m)
  define q where "q = pmm_free_frame (fr v a) p"
  have pv': "pv (unmap_free a m) = (q, w)" using ph by (simp add: unmap_free_def free_frame_def unmap_page_def m un q_def)
  have tb: "pde w k = pde v k" "tbl w k = tbl v k" for k using fin(3) by (simp_all add: tbl_def)
  have q: "frames_in_use q = frames_in_use p - {fr v a}"
    unfolding q_def using pmm_src.free_used [OF vmm_wfD(1) [OF I(2)]] base_aligned by (simp add: fr_def)
  have "fr v a \<noteq> cr3 w" using a(5) vmm_wfD(3) [OF I(1)] I(3) fin(4) by auto
  then have wf: "vmm_wf (q, w)"
    unfolding q_def using free_wf [OF fin(1)] I(8) [of a] tb base_aligned by (simp add: fr_def)
  have entry: "pt_entry w b = pt_entry v b" if "b \<in> D" for b
    using fin(2) [of b] I(6) [of b] that assms(2) base aligned_base [of b] by (auto simp: user_page_def)
  have tr: "in_effect w b = (if b AND 0xFFFFF000 = a then 0 else in_effect v b)" if "unat (pd_idx b) < 1023" for b
    using in_effect_map [OF fin(2) [OF that] refl] base by simp
  have inj: "fr v b \<noteq> fr v a" if "b \<in> D" for b using I(7) that assms(2) by (auto simp: inj_on_def)
  have frw: "fr w b = fr v b" if "b \<in> D" for b using entry [OF that] by (simp add: fr_def)
  have img: "fr w ` D = fr v ` D" using frw by auto
  show "mapped_in m0 D (unmap_free a m)"
  proof (rule mapped_inI [OF m0 pv' I(1) wf])
    show "cr3 w = cr3 v0" using fin(4) I(3) by simp
    show "frames_in_use p0 \<subseteq> frames_in_use q" using q I(4) a(5) by auto
    show "in_effect w b = in_effect v0 b" if "unat (pd_idx b) < 1023" "b AND 0xFFFFF000 \<notin> D" for b
    proof (cases "b AND 0xFFFFF000 = a")
      case True
      then have "in_effect v0 b = in_effect v0 a" using base same_page [of b a] by (simp add: in_effect_def pt_entry_def)
      then show ?thesis using tr [OF that(1)] True a(2) by simp
    qed (use tr [OF that(1)] I(5) [OF that(1)] that(2) in simp)
    show "inj_on (fr w) D" using I(7) frw by (auto simp: inj_on_def)
    show "tbl w k \<noteq> fr w b" if "b \<in> D" "k < 1023" "present (pde w k)" for b k
      using I(8) [of b k] that tb frw by simp
    show "f \<in> frames_in_use p0 \<or> f \<in> fr w ` D \<or> (\<exists>k < 1023. present (pde w k) \<and> tbl w k = f)" if "f \<in> frames_in_use q" for f
      using I(9) [of f] that q img tb by auto
    show "mem (unmap_free a m) b = mem m0 b" if "b AND 0xFFFFF000 \<in> frames_in_use p0" for b
      using I(10) [OF that] by (simp add: unmap_free_def free_frame_def unmap_page_def)
    show "mem (unmap_free a m) (fr w b + of_nat i) = 0" if "b \<in> D" "i < 4096" for b i
      using I(11) [of b i] that frw by (simp add: unmap_free_def free_frame_def unmap_page_def)
    show "user_page b \<and> in_effect v0 b = 0 \<and> present (pt_entry w b) \<and> fr w b \<in> frames_in_use q \<and> fr w b \<notin> frames_in_use p0" if "b \<in> D" for b
      using I(6) [of b] that entry frw q inj by simp
  qed
  show "vmas (unmap_free a m) = vmas m" "next_mmap (unmap_free a m) = next_mmap m"
    by (simp_all add: unmap_free_def free_frame_def unmap_page_def)
  show "mapped m a" using a(3) by (simp add: m vmm_is_mapped_alt [OF sm])
  then show "munmap_page False a m = unmap_free a m" by (simp add: munmap_page_def)
qed

lemma unmap_free_all:
  "mapped_in m0 (set ps) m \<Longrightarrow> distinct ps \<Longrightarrow>
     mapped_in m0 {} (fold unmap_free ps m) \<and> vmas (fold unmap_free ps m) = vmas m \<and>
     next_mmap (fold unmap_free ps m) = next_mmap m \<and> fold (munmap_page False) ps m = fold unmap_free ps m"
proof (induction ps arbitrary: m)
  case (Cons a ps)
  note s = unmap_free_step [of m0 a "set ps" m]
  show ?case using Cons.IH [of "unmap_free a m"] s Cons.prems by simp
qed simp

text \<open>Clearing a page that is mapped: its frame is zeroed and nothing else changes.\<close>

lemma clear_page_Some:
  assumes "self_map (snd (pv m))" and "user_page a" and "clear_page a m = Some m2"
  shows "present (pt_entry (snd (pv m)) a)" and "pv m2 = pv m" and "vmas m2 = vmas m" and "next_mmap m2 = next_mmap m"
    and "mem m2 b = (if \<exists>i < 4096. fr (snd (pv m)) a + of_nat i = b then 0 else mem m b)"
proof -
  have all: "list_all (\<lambda>i. mapped m (a + of_nat i)) [0 ..< 4096]"
    and m2: "m2 = m\<lparr>mem := fold (\<lambda>i f. f(phys_of m (a + of_nat i) := 0)) [0 ..< 4096] (mem m)\<rparr>"
    using assms(3) unfolding clear_page_def by (auto split: if_splits)
  have "mapped m (a + of_nat 0)" using all unfolding list_all_iff by (rule bspec) simp
  then show pr: "present (pt_entry (snd (pv m)) a)" by (simp add: vmm_is_mapped_alt [OF assms(1)])
  have "(\<exists>i \<in> set [0 ..< 4096]. phys_of m (a + of_nat i) = b) = (\<exists>i < 4096. fr (snd (pv m)) a + of_nat i = b)"
    using physical_offset(1) [OF assms(1,2) _ pr] by auto
  moreover have "mem m2 = fold (\<lambda>i f. f(phys_of m (a + of_nat i) := 0)) [0 ..< 4096] (mem m)" unfolding m2 by simp
  ultimately show "mem m2 b = (if \<exists>i < 4096. fr (snd (pv m)) a + of_nat i = b then 0 else mem m b)"
    by (simp only: fold_store)
  show "pv m2 = pv m" "vmas m2 = vmas m" "next_mmap m2 = next_mmap m" unfolding m2 by simp_all
qed

text \<open>Mapping one more page.\<close>

lemma map_step:
  assumes inv: "mapped_in m0 D m" and a: "user_page a" "a \<notin> D" "in_effect (snd (pv m0)) a = 0"
    and al: "alloc_frame m = (phys, m1)" "phys \<noteq> 0" and cl: "clear_page a (map_page a phys flags m1) = Some m2"
  shows "mapped_in m0 (insert a D) m2" and "vmas m2 = vmas m" and "next_mmap m2 = next_mmap m"
proof -
  obtain p0 v0 where m0: "pv m0 = (p0, v0)" by fastforce
  obtain p v where m: "pv m = (p, v)" by fastforce
  note I = mapped_inD [OF inv m0 m]
  obtain p1 where p1: "pmm_alloc_frame p = (phys, p1)" and m1: "m1 = m\<lparr>pv := (p1, v)\<rparr>"
    using al(1) by (auto simp: alloc_frame_def m split: prod.splits)
  note pw = vmm_wfD(1) [OF I(2)]
  note fresh = pmm_src.alloc_fresh [OF pw p1 al(2)] and us = pmm_src.alloc_used [OF pw p1 al(2)]
  have wf1: "vmm_wf (p1, v)" by (rule alloc_wf [OF I(2) p1])
  have i: "unat (pd_idx a) < 1023" and base: "a AND 0xFFFFF000 = a" using a(1) aligned_base by (simp_all add: user_page_def)
  let ?x = "(phys AND 0xFFFFF000) OR (flags AND 0xFFF) OR PAGE_PRESENT"
  have "((flags AND 0xFFF) OR PAGE_PRESENT) AND 0xFFFFF000 = 0" by (simp add: word_ao_dist)
  then have xf: "?x AND 0xFFFFF000 = phys"
    using page_or_flags [OF conjunct2 [OF fresh], of "(flags AND 0xFFF) OR PAGE_PRESENT"] aligned_base [OF conjunct2 [OF fresh]] by simp
  have xp: "present ?x" by (simp add: present_def word_ao_dist)
  have mp: "pv (map_page a phys flags m1) = vmm_map_page a phys flags (p1, v)" by (simp add: map_page_def m1)
  have room: "present (pde v (unat (pd_idx a))) \<or> fst (pmm_alloc_frame p1) \<noteq> 0"
  proof (rule ccontr)
    assume n: "\<not> (present (pde v (unat (pd_idx a))) \<or> fst (pmm_alloc_frame p1) \<noteq> 0)"
    then obtain p2 where p2: "pmm_alloc_frame p1 = (0, p2)" by (cases "pmm_alloc_frame p1") auto
    have e: "pv (map_page a phys flags m1) = (p2, v)"
      unfolding mp using n p2 vmm_wfD(2) [OF wf1] by (simp add: vmm_map_page_def va_read_PD present_def Let_def)
    have "present (pt_entry v a)" using clear_page_Some(1) [OF _ a(1) cl] vmm_wfD(2) [OF wf1] by (simp add: e)
    then show False using n by (simp add: pt_entry_def)
  qed
  obtain q u where u: "vmm_wf (q, u)" "present (pde u (unat (pd_idx a)))"
    "vmm_map_page a phys flags (p1, v) = (q, va_write (PT_ENT (pd_idx a) (pt_idx a)) ?x u)"
    "\<And>b. unat (pd_idx b) < 1023 \<Longrightarrow> pt_entry u b = pt_entry v b"
    "frames_in_use p1 \<subseteq> frames_in_use q" "cr3 u = cr3 v"
    "\<And>k. k < 1023 \<Longrightarrow> present (pde v k) \<Longrightarrow> present (pde u k) \<and> tbl u k = tbl v k"
    "\<And>k. k < 1023 \<Longrightarrow> present (pde u k) \<Longrightarrow> present (pde v k) \<or> tbl u k \<notin> frames_in_use p1"
    "\<And>f. f \<in> frames_in_use q \<Longrightarrow> f \<in> frames_in_use p1 \<or> (\<exists>k < 1023. present (pde u k) \<and> tbl u k = f)"
    by (rule vmm_map_page_cases [OF wf1 i room, where phys = phys and flags = flags]) (rule that, assumption+)
  define w where "w = va_write (PT_ENT (pd_idx a) (pt_idx a)) ?x u"
  note fin = map_page_final [OF u(1) i u(2), where x = ?x, folded w_def]
  have pvm: "pv (map_page a phys flags m1) = (q, w)" by (simp add: mp u(3) w_def)
  have sw: "self_map (snd (pv (map_page a phys flags m1)))" using vmm_wfD(2) [OF fin(1)] by (simp add: pvm)
  note c = clear_page_Some [OF sw a(1) cl, unfolded pvm snd_conv]
  have pv2: "pv m2 = (q, w)" using c(2) .
  have tb: "pde w k = pde u k" "tbl w k = tbl u k" for k using fin(3) by (simp_all add: tbl_def)
  have fa: "fr w a = phys" using fin(2) [OF i] xf by (simp add: fr_def)
  have entry: "pt_entry w b = pt_entry v b" if "b \<in> D" for b
    using fin(2) [of b] u(4) [of b] I(6) [of b] that a(2) base aligned_base [of b] by (auto simp: user_page_def)
  have frw: "fr w b = fr v b" if "b \<in> D" for b using entry [OF that] by (simp add: fr_def)
  have img: "fr w ` D = fr v ` D" using frw by auto
  have np: "phys \<notin> frames_in_use p" using fresh by simp
  have bp: "fr v b \<noteq> phys" if "b \<in> D" for b using I(6) [OF that] np by auto
  have memk: "mem m2 b = mem m b" if "b AND 0xFFFFF000 \<noteq> phys" for b
  proof -
    have "fr w a + of_nat j \<noteq> b" if "j < 4096" for j
      using page_offset(1) [of phys j] fresh that \<open>b AND 0xFFFFF000 \<noteq> phys\<close> unfolding fa by auto
    then show ?thesis using c(5) [of b] by (auto simp: map_page_def m1)
  qed
  show "mapped_in m0 (insert a D) m2"
  proof (rule mapped_inI [OF m0 pv2 I(1) fin(1)])
    show "cr3 w = cr3 v0" using fin(4) u(6) I(3) by simp
    show "frames_in_use p0 \<subseteq> frames_in_use q" using I(4) us u(5) by auto
    show "in_effect w b = in_effect v0 b" if "unat (pd_idx b) < 1023" "b AND 0xFFFFF000 \<notin> insert a D" for b
      using fin(2) [OF that(1)] u(4) [OF that(1)] I(5) [OF that(1)] that(2) base by (auto simp: in_effect_def)
    show "user_page b \<and> in_effect v0 b = 0 \<and> present (pt_entry w b) \<and> fr w b \<in> frames_in_use q \<and> fr w b \<notin> frames_in_use p0"
      if "b \<in> insert a D" for b
    proof (cases "b = a")
      case True
      then show ?thesis
        using a(1,3) fa fin(2) [OF i] xp us u(5) np I(4) by (auto simp: m0)
    next
      case False
      then show ?thesis using that I(6) [of b] entry [of b] frw [of b] us u(5) by auto
    qed
    have "inj_on (fr w) D" using I(7) frw by (simp add: inj_on_def)
    moreover have "fr w a \<notin> fr w ` D" unfolding img fa using bp by auto
    ultimately show "inj_on (fr w) (insert a D)" using a(2) by simp
    show "tbl w k \<noteq> fr w b" if "b \<in> insert a D" "k < 1023" "present (pde w k)" for b k
    proof -
      have "present (pde v k) \<and> tbl w k = tbl v k \<or> tbl w k \<notin> frames_in_use p1"
        using u(7,8) [of k] that(2,3) tb by auto
      then consider "present (pde v k)" "tbl w k = tbl v k" "tbl v k \<in> frames_in_use p" | "tbl w k \<notin> insert phys (frames_in_use p)"
        using vmm_wfD(4) [OF I(2) \<open>k < 1023\<close>] us by auto
      then show ?thesis
      proof cases
        case 1
        show ?thesis
        proof (cases "b = a")
          case True
          then show ?thesis using 1 fa np by metis
        next
          case False
          then have "b \<in> D" using that(1) by simp
          then show ?thesis using 1 I(8) [of b k] that(2) frw [of b] by simp
        qed
      next
        case 2
        have "fr w b \<in> insert phys (frames_in_use p)"
          using that(1) fa frw [of b] I(6) [of b] by (cases "b = a") auto
        then show ?thesis using 2 by metis
      qed
    qed
    show "f \<in> frames_in_use p0 \<or> f \<in> fr w ` insert a D \<or> (\<exists>k < 1023. present (pde w k) \<and> tbl w k = f)"
      if "f \<in> frames_in_use q" for f
    proof -
      have "f = phys \<or> f \<in> frames_in_use p \<or> (\<exists>k < 1023. present (pde w k) \<and> tbl w k = f)"
        using u(9) [OF that] us tb by auto
      moreover have "\<exists>k < 1023. present (pde w k) \<and> tbl w k = f" if "\<exists>k < 1023. present (pde v k) \<and> tbl v k = f"
        using that u(7) tb by metis
      ultimately show ?thesis using I(9) [of f] fa img by auto
    qed
    show "mem m2 b = mem m0 b" if "b AND 0xFFFFF000 \<in> frames_in_use p0" for b
      using memk [of b] I(10) [OF that] that np I(4) by auto
    show "mem m2 (fr w b + of_nat j) = 0" if "b \<in> insert a D" "j < 4096" for b j
    proof (cases "b = a")
      case True
      then show ?thesis using c(5) [of "fr w a + of_nat j"] that(2) by auto
    next
      case False
      then have b: "b \<in> D" using that(1) by simp
      have "(fr v b + of_nat j) AND 0xFFFFF000 = fr v b" using page_offset(1) [OF _ that(2)] base_aligned by (simp add: fr_def)
      then show ?thesis using memk [of "fr v b + of_nat j"] bp [OF b] I(11) [OF b that(2)] frw [OF b] by simp
    qed
  qed
  show "vmas m2 = vmas m" "next_mmap m2 = next_mmap m" using c(3,4) by (simp_all add: map_page_def m1)
qed

text \<open>The kernel faults on a new page only when no frame was left for its page table.\<close>

lemma map_step_fault:
  assumes wf: "vmm_wf (pv m)" and a: "user_page a" and al: "alloc_frame m = (phys, m1)" "phys \<noteq> 0"
    and cl: "clear_page a (map_page a phys flags m1) = None"
  shows "vmm_wf (pv m1) \<and> fst (pmm_alloc_frame (fst (pv m1))) = 0 \<and> frames_in_use (fst (pv m)) \<subseteq> frames_in_use (fst (pv m1))"
proof -
  obtain p v where m: "pv m = (p, v)" by fastforce
  obtain p1 where p1: "pmm_alloc_frame p = (phys, p1)" and m1: "m1 = m\<lparr>pv := (p1, v)\<rparr>"
    using al(1) by (auto simp: alloc_frame_def m split: prod.splits)
  have wf1: "vmm_wf (p1, v)" by (rule alloc_wf [OF wf [unfolded m] p1])
  have i: "unat (pd_idx a) < 1023" and al: "a AND 0xFFF = 0" using a by (simp_all add: user_page_def)
  have "fst (pmm_alloc_frame p1) = 0"
  proof (rule ccontr)
    assume "fst (pmm_alloc_frame p1) \<noteq> 0"
    then obtain q u where u: "vmm_wf (q, u)" "present (pde u (unat (pd_idx a)))"
      "vmm_map_page a phys flags (p1, v) = (q, va_write (PT_ENT (pd_idx a) (pt_idx a)) ((phys AND 0xFFFFF000) OR (flags AND 0xFFF) OR PAGE_PRESENT) u)"
      using vmm_map_page_cases [OF wf1 i, where phys = phys and flags = flags] by metis
    note fin = map_page_final [OF u(1) i u(2), where x = "(phys AND 0xFFFFF000) OR (flags AND 0xFFF) OR PAGE_PRESENT"]
    have "present ((phys AND 0xFFFFF000) OR (flags AND 0xFFF) OR PAGE_PRESENT)" by (simp add: present_def word_ao_dist)
    then have pr: "present (pt_entry (snd (pv (map_page a phys flags m1))) a)" using fin(2) [OF i] by (simp add: map_page_def m1 u(3))
    have sm: "self_map (snd (pv (map_page a phys flags m1)))" using vmm_wfD(2) [OF fin(1)] by (simp add: map_page_def m1 u(3))
    have "list_all (\<lambda>i. mapped (map_page a phys flags m1) (a + of_nat i)) [0 ..< 4096]"
      unfolding list_all_iff using physical_offset(2) [OF sm a _ pr] by simp
    then show False using cl by (simp add: clear_page_def)
  qed
  then show ?thesis using wf1 pmm_src.alloc_mono [OF vmm_wfD(1) [OF wf [unfolded m]] p1] by (simp add: m m1)
qed

lemma mmap_pages_outcome:
  assumes "0 \<in> frames_in_use (fst (pv m0))"
  shows "mapped_in m0 (set ds) m \<Longrightarrow> distinct (ds @ ps) \<Longrightarrow>
     \<forall>a \<in> set ps. user_page a \<and> in_effect (snd (pv m0)) a = 0 \<Longrightarrow>
     (case mmap_pages ds ps m of
        None \<Rightarrow> \<exists>p. pmm_wf p \<and> frames_in_use (fst (pv m0)) \<subseteq> frames_in_use p \<and> fst (pmm_alloc_frame p) = 0
      | Some (ok, m') \<Rightarrow> vmas m' = vmas m \<and> next_mmap m' = next_mmap m \<and> mapped_in m0 (if ok then set (ds @ ps) else {}) m')"
proof (induction ps arbitrary: ds m)
  case Nil
  then show ?case by simp
next
  case (Cons a ps)
  obtain p0 v0 where m0: "pv m0 = (p0, v0)" by fastforce
  obtain p v where m: "pv m = (p, v)" by fastforce
  note I = mapped_inD [OF Cons.prems(1) m0 m]
  obtain phys m1 where al: "alloc_frame m = (phys, m1)" by fastforce
  have a: "user_page a" "a \<notin> set ds" "in_effect (snd (pv m0)) a = 0" using Cons.prems(2,3) by auto
  show ?case
  proof (cases "phys = 0")
    case True
    have "m1 = m"
      using al alloc_none [OF vmm_wfD(1) [OF I(2)]] I(4) assms True m by (auto simp: alloc_frame_def m0 split: prod.splits)
    then show ?thesis
      using True al unmap_free_all [OF Cons.prems(1)] Cons.prems(2) by simp
  next
    case False
    show ?thesis
    proof (cases "clear_page a (map_page a phys (PAGE_USER OR PAGE_PRESENT OR PAGE_WRITE) m1)")
      case None
      have "vmm_wf (pv m)" using I(2) m by simp
      from map_step_fault [OF this a(1) al False None]
      have "pmm_wf (fst (pv m1)) \<and> frames_in_use (fst (pv m0)) \<subseteq> frames_in_use (fst (pv m1)) \<and> fst (pmm_alloc_frame (fst (pv m1))) = 0"
        using I(4) vmm_wfD(1) [of "fst (pv m1)" "snd (pv m1)"] by (auto simp: m0 m)
      then show ?thesis using None al False by auto
    next
      case (Some m2)
      note s = map_step [OF Cons.prems(1) a al False Some]
      have "mapped_in m0 (set (ds @ [a])) m2" using s(1) by simp
      from Cons.IH [OF this] have IH: "case mmap_pages (ds @ [a]) ps m2 of
          None \<Rightarrow> \<exists>p. pmm_wf p \<and> frames_in_use (fst (pv m0)) \<subseteq> frames_in_use p \<and> fst (pmm_alloc_frame p) = 0
        | Some (ok, m') \<Rightarrow> vmas m' = vmas m \<and> next_mmap m' = next_mmap m \<and> mapped_in m0 (if ok then set (ds @ a # ps) else {}) m'"
        using Cons.prems(2,3) unfolding s(2,3) append_assoc append_Cons append_Nil by auto
      have "mmap_pages ds (a # ps) m = mmap_pages (ds @ [a]) ps m2" using Some al False by simp
      then show ?thesis using IH by (simp only:)
    qed
  qed
qed

section \<open>Ranges and areas\<close>

lemma unat_page_round:
  assumes "unat len \<le> 0x40000000"
  shows "unat (page_round len) = (unat len + 4095) div 4096 * 4096"
proof -
  have "unat (len + 0xFFF) = unat len + 4095" using assms by (simp add: unat_word_ariths)
  then show ?thesis unfolding page_round_def unat_page_base by (simp only: minus_mod_eq_div_mult)
qed

lemma range_pages:
  fixes a sz :: u32
  assumes "a AND 0xFFF = 0" and "unat sz mod 4096 = 0" and "unat a + unat sz \<le> 0x80000000"
  shows "set (page_range a (a + sz)) = {b. b AND 0xFFF = 0 \<and> unat a \<le> unat b \<and> unat b < unat a + unat sz}"
    and "distinct (page_range a (a + sz))" and "b \<in> set (page_range a (a + sz)) \<Longrightarrow> user_page b"
proof -
  define n where "n = unat sz div 4096"
  have n: "unat sz = n * 4096" using assms(2) by (auto simp: n_def)
  define q where "q = unat a div 4096"
  have q: "unat a = q * 4096" using assms(1) by (auto simp: q_def page_aligned_unat)
  have b: "unat (a + sz) = unat a + unat sz" using assms(3) by (simp add: unat_word_ariths)
  have pr: "page_range a (a + sz) = map (\<lambda>k. a + of_nat k * PAGE_SIZE) [0 ..< n]"
    unfolding page_range_def b using n by simp
  have u: "unat (a + of_nat k * PAGE_SIZE) = (q + k) * 4096" if "k < n" for k
  proof -
    have "k * 4096 < 4294967296" "unat a + k * 4096 < 4294967296" using that n assms(3) by simp_all
    then show ?thesis by (simp add: unat_word_ariths unat_of_nat q)
  qed
  show "set (page_range a (a + sz)) = {b. b AND 0xFFF = 0 \<and> unat a \<le> unat b \<and> unat b < unat a + unat sz}" (is "?l = ?r")
  proof (intro equalityI subsetI)
    fix x assume "x \<in> ?l"
    then obtain k where k: "k < n" "x = a + of_nat k * PAGE_SIZE" by (auto simp: pr)
    then show "x \<in> ?r" using u [OF k(1)] q n by (simp add: page_aligned_unat)
  next
    fix x assume x: "x \<in> ?r"
    define j where "j = unat x div 4096"
    have j: "unat x = j * 4096" using x by (auto simp: j_def page_aligned_unat)
    then have "q \<le> j" "j - q < n" using x q n by auto
    then have "unat x = unat (a + of_nat (j - q) * PAGE_SIZE)" using u [of "j - q"] j by simp
    then have "x = a + of_nat (j - q) * PAGE_SIZE" by (simp only: word_unat_eq_iff)
    then show "x \<in> ?l" using \<open>j - q < n\<close> by (auto simp: pr)
  qed
  have "inj_on (\<lambda>k. a + of_nat k * PAGE_SIZE) {0 ..< n}"
  proof (rule inj_onI)
    fix k l assume "k \<in> {0 ..< n}" "l \<in> {0 ..< n}" "a + of_nat k * PAGE_SIZE = a + of_nat l * PAGE_SIZE"
    then show "k = l" using u [of k] u [of l] by (metis add_left_cancel atLeastLessThan_iff mult_cancel2 zero_neq_numeral)
  qed
  then show "distinct (page_range a (a + sz))" by (simp add: pr distinct_map)
  show "user_page b" if b: "b \<in> set (page_range a (a + sz))"
  proof -
    obtain k where k: "k < n" "b = a + of_nat k * PAGE_SIZE" using b by (auto simp: pr)
    then have "unat b < 0x80000000" "b AND 0xFFF = 0" using u [OF k(1)] q n assms(3) by (simp_all add: page_aligned_unat)
    then show ?thesis by (simp add: user_page_def unat_pd_idx)
  qed
qed

definition mm_ok :: "mm \<Rightarrow> bool" where
  "mm_ok m \<longleftrightarrow> vmm_wf (pv m) \<and> 0 \<in> frames_in_use (fst (pv m)) \<and> length (vmas m) = 64 \<and> (\<forall>t \<in> set (vmas m). length t = 32)"

text \<open>What a mapping that is gone leaves behind: page tables, and nothing else.\<close>

definition restored :: "mm \<Rightarrow> mm \<Rightarrow> bool" where
  "restored m0 m \<longleftrightarrow>
     (\<forall>a. unat (pd_idx a) < 1023 \<longrightarrow> phys_of m a = phys_of m0 a \<and> mapped m a = mapped m0 a) \<and>
     frames_in_use (fst (pv m0)) \<subseteq> frames_in_use (fst (pv m)) \<and>
     (\<forall>f \<in> frames_in_use (fst (pv m)). f \<in> frames_in_use (fst (pv m0)) \<or>
        (\<exists>k < 1023. present (pde (snd (pv m)) k) \<and> tbl (snd (pv m)) k = f)) \<and>
     (\<forall>a. a AND 0xFFFFF000 \<in> frames_in_use (fst (pv m0)) \<longrightarrow> mem m a = mem m0 a)"

lemma physical_effect:
  "self_map v \<Longrightarrow> vmm_get_physical v a = (if in_effect v a = 0 then 0 else (in_effect v a AND 0xFFFFF000) OR (a AND 0xFFF))"
  "self_map v \<Longrightarrow> vmm_is_mapped v a = (in_effect v a \<noteq> 0)"
proof -
  have "present e \<Longrightarrow> e \<noteq> 0" for e by (auto simp: present_def)
  then show "self_map v \<Longrightarrow> vmm_get_physical v a = (if in_effect v a = 0 then 0 else (in_effect v a AND 0xFFFFF000) OR (a AND 0xFFF))"
    "self_map v \<Longrightarrow> vmm_is_mapped v a = (in_effect v a \<noteq> 0)"
    by (auto simp: vmm_get_physical_alt vmm_is_mapped_alt in_effect_def)
qed

lemma mapped_in_restored:
  assumes "mapped_in m0 {} m"
  shows "restored m0 m"
proof -
  obtain p0 v0 p v where m: "pv m0 = (p0, v0)" "pv m = (p, v)" by fastforce
  note I = mapped_inD [OF assms m]
  show ?thesis
    using I vmm_wfD(2) [OF I(1)] vmm_wfD(2) [OF I(2)] unfolding restored_def m fst_conv snd_conv
    by (auto simp: physical_effect)
qed

lemma mapped_in_outside:
  assumes "mapped_in m0 D m" and "unat (pd_idx a) < 1023" and "a AND 0xFFFFF000 \<notin> D"
  shows "phys_of m a = phys_of m0 a" and "mapped m a = mapped m0 a"
proof -
  obtain p0 v0 p v where m: "pv m0 = (p0, v0)" "pv m = (p, v)" by fastforce
  note I = mapped_inD [OF assms(1) m]
  show "phys_of m a = phys_of m0 a" "mapped m a = mapped m0 a"
    using I(5) [OF assms(2,3)] vmm_wfD(2) [OF I(1)] vmm_wfD(2) [OF I(2)] by (simp_all add: m physical_effect)
qed

lemma mapped_in_page:
  assumes "mapped_in m0 D m" and "b \<in> D" and "i < 4096"
  shows "mapped m (b + of_nat i)" and "phys_of m (b + of_nat i) = fr (snd (pv m)) b + of_nat i"
    and "mem m (phys_of m (b + of_nat i)) = 0" and "fr (snd (pv m)) b \<notin> frames_in_use (fst (pv m0))"
proof -
  obtain p0 v0 p v where m: "pv m0 = (p0, v0)" "pv m = (p, v)" by fastforce
  note I = mapped_inD [OF assms(1) m]
  note ph = physical_offset [OF vmm_wfD(2) [OF I(2)] _ assms(3), of b]
  show "mapped m (b + of_nat i)" "phys_of m (b + of_nat i) = fr (snd (pv m)) b + of_nat i"
    "mem m (phys_of m (b + of_nat i)) = 0" "fr (snd (pv m)) b \<notin> frames_in_use (fst (pv m0))"
    using ph I(6) [OF assms(2)] I(11) [OF assms(2,3)] by (simp_all add: m)
qed

lemma vma_create_cases:
  assumes "mm_ok m" and "pid < 64"
  obtains "vma_create (Some pid) s e prot flags m = (None, m)"
  | i m2 where "vma_create (Some pid) s e prot flags m = (Some (unat pid, i), m2)" "i < 32" "\<not> vm_in_use (vmas m ! unat pid ! i)"
      "m2 = m\<lparr>vmas := (vmas m)[unat pid := (vmas m ! unat pid)[i := \<lparr>vm_start = s, vm_end = e, vm_prot = prot, vm_flags = flags,
         vm_in_use = True, vm_cow = False, vm_lazy = flags AND MAP_ANONYMOUS \<noteq> 0\<rparr>]]\<rparr>"
proof (cases "find_idx (\<lambda>v. \<not> vm_in_use v) (vmas m ! unat pid)")
  case None
  then show thesis using that(1) assms(2) unfolding vma_create_def get_vma_table_def by (simp del: find_idx_None)
next
  case (Some i)
  have "unat pid < 64" using assms(2) by (simp add: word_less_nat_alt)
  then have "length (vmas m ! unat pid) = 32" using assms(1) by (simp add: mm_ok_def)
  then show thesis
    using that(2) [of i] find_idx_SomeD [OF Some] Some assms(2) unfolding vma_create_def get_vma_table_def
    by (simp add: upd_vma_def)
qed

lemma vma_lookup:
  assumes "mm_ok m" and "pid < 64" and "i < 32" and "\<not> vm_in_use (vmas m ! unat pid ! i)"
    and "vmas m' = (vmas m)[unat pid := (vmas m ! unat pid)[i := v]]"
  shows "\<not> vm_in_use v \<Longrightarrow> vma_find (Some pid) a m' = vma_find (Some pid) a m"
    and "vm_in_use v \<Longrightarrow> vma_find (Some pid) a m = None \<Longrightarrow> vm_start v \<le> a \<Longrightarrow> a < vm_end v \<Longrightarrow>
      vma_find (Some pid) a m' = Some (unat pid, i)"
proof -
  have l: "unat pid < length (vmas m)" "length (vmas m ! unat pid) = 32" "get_vma_table (Some pid) = Some (unat pid)"
    using assms(1,2) by (simp_all add: mm_ok_def word_less_nat_alt get_vma_table_def not_le)
  show "vma_find (Some pid) a m' = vma_find (Some pid) a m" if "\<not> vm_in_use v"
    unfolding vma_find_def l(3) option.case assms(5) using l(1) assms(4) that
    by (simp add: find_idx_update_miss del: find_idx_None)
  show "vma_find (Some pid) a m' = Some (unat pid, i)"
    if "vm_in_use v" "vma_find (Some pid) a m = None" "vm_start v \<le> a" "a < vm_end v"
  proof -
    have "\<forall>x \<in> set (vmas m ! unat pid). \<not> (vm_in_use x \<and> a \<ge> vm_start x \<and> a < vm_end x)"
      using that(2) unfolding vma_find_def l(3) by simp
    then show ?thesis
      unfolding vma_find_def l(3) option.case assms(5) using l(1,2) assms(3) that by (simp add: find_idx_hit del: find_idx_None)
  qed
qed

section \<open>A mapped range\<close>

lemma page_parts:
  fixes a :: u32
  shows "a = (a AND 0xFFFFF000) + of_nat (unat a mod 4096)" and "unat (a AND 0xFFFFF000) = unat a - unat a mod 4096"
proof -
  show u: "unat (a AND 0xFFFFF000) = unat a - unat a mod 4096" by (simp only: page_base_alt unat_page_base)
  have "unat ((a AND 0xFFFFF000) + of_nat (unat a mod 4096)) = unat a"
    unfolding unat_page_offset [OF base_aligned mod_less_divisor [OF zero_less_numeral]] u by simp
  then show "a = (a AND 0xFFFFF000) + of_nat (unat a mod 4096)" by (simp only: word_unat_eq_iff)
qed

lemma page_in_range:
  assumes "s AND 0xFFF = (0 :: u32)" and "unat (sz :: u32) mod 4096 = 0" and "unat s + unat sz \<le> 0x80000000"
  shows "a AND 0xFFFFF000 \<in> set (page_range s (s + sz)) \<longleftrightarrow> unat s \<le> unat a \<and> unat a < unat s + unat sz"
proof -
  define q n j where "q = unat s div 4096" and "n = unat sz div 4096" and "j = unat a div 4096"
  have "unat s = q * 4096" "unat sz = n * 4096" using assms(1,2) by (auto simp: q_def n_def page_aligned_unat)
  moreover have "unat (a AND 0xFFFFF000) = j * 4096" unfolding page_parts(2) j_def by (simp add: minus_mod_eq_div_mult)
  moreover have "q * 4096 \<le> unat a \<longleftrightarrow> q \<le> j" "unat a < (q + n) * 4096 \<longleftrightarrow> j < q + n"
    unfolding j_def by (simp_all add: less_eq_div_iff_mult_less_eq div_less_iff_less_mult)
  ultimately show ?thesis unfolding range_pages(1) [OF assms] by (simp add: base_aligned add_mult_distrib) linarith
qed

lemma mapped_range:
  assumes inv: "mapped_in m (set (page_range s (s + sz))) m'"
    and r: "s AND 0xFFF = 0" "unat sz mod 4096 = 0" "unat s + unat sz \<le> 0x80000000"
    and a: "unat s \<le> unat a" "unat a < unat s + unat sz"
  shows "mapped m' a" and "mem m' (phys_of m' a) = 0" and "phys_of m' a AND 0xFFFFF000 \<notin> frames_in_use (fst (pv m))"
    and "unat s \<le> unat b \<Longrightarrow> unat b < unat s + unat sz \<Longrightarrow> phys_of m' a = phys_of m' b \<Longrightarrow> a = b"
proof -
  let ?v = "snd (pv m')"
  have p: "a AND 0xFFFFF000 \<in> set (page_range s (s + sz))" using a page_in_range [OF r] by simp
  have i: "unat x mod 4096 < 4096" for x :: u32 by simp
  note fp = mapped_in_page [OF inv p i [of a], folded page_parts(1)]
  have ph: "phys_of m' x = fr ?v (x AND 0xFFFFF000) + of_nat (unat x mod 4096)"
    if "x AND 0xFFFFF000 \<in> set (page_range s (s + sz))" for x
    using mapped_in_page(2) [OF inv that i [of x], folded page_parts(1)] .
  have al: "fr ?v x AND 0xFFF = 0" for x by (simp add: fr_def base_aligned)
  show "mapped m' a" "mem m' (phys_of m' a) = 0" by (rule fp(1), rule fp(3))
  show "phys_of m' a AND 0xFFFFF000 \<notin> frames_in_use (fst (pv m))"
    using fp(4) page_offset(1) [OF al i] by (simp add: ph [OF p])
  show "a = b" if b: "unat s \<le> unat b" "unat b < unat s + unat sz" "phys_of m' a = phys_of m' b"
  proof -
    have q: "b AND 0xFFFFF000 \<in> set (page_range s (s + sz))" using b page_in_range [OF r] by simp
    have e: "fr ?v (a AND 0xFFFFF000) + of_nat (unat a mod 4096) = fr ?v (b AND 0xFFFFF000) + of_nat (unat b mod 4096)"
      using b(3) ph [OF p] ph [OF q] by simp
    then have f: "fr ?v (a AND 0xFFFFF000) = fr ?v (b AND 0xFFFFF000)" by (metis page_offset(1) [OF al i])
    obtain p0 v0 p1 v1 where m: "pv m = (p0, v0)" "pv m' = (p1, v1)" by fastforce
    have "a AND 0xFFFFF000 = b AND 0xFFFFF000"
      using mapped_inD(7) [OF inv m] f p q by (auto simp: m dest: inj_onD)
    moreover have "(of_nat (unat a mod 4096) :: u32) = of_nat (unat b mod 4096)" using e f by simp
    ultimately show ?thesis using page_parts(1) [of a] page_parts(1) [of b] by metis
  qed
qed

text \<open>Unmapping the whole of an area that was mapped for its pages.\<close>

lemma munmap_area:
  assumes ok: "mm_ok m" "pid < 64" "i < 32" "\<not> vm_in_use (vmas m ! unat pid ! i)"
    and vm: "vmas m' = (vmas m)[unat pid := (vmas m ! unat pid)[i := v]]"
    and v: "vm_in_use v" "vm_start v = s" "vm_end v = s + page_round len" "vm_flags v AND MAP_SHARED = 0"
    and inv: "mapped_in m (set (page_range s (s + page_round len))) m'"
    and r: "s AND 0xFFF = 0" "unat (page_round len) mod 4096 = 0" "unat s + unat (page_round len) \<le> 0x80000000"
    and len: "len \<noteq> 0" "0 < unat (page_round len)" and none: "vma_find (Some pid) s m = None"
  shows "case sys_munmap (Some pid) s len m' of
      (c, m'') \<Rightarrow> c = 0 \<and> restored m m'' \<and> (\<forall>a. vma_find (Some pid) a m'' = vma_find (Some pid) a m)"
proof -
  let ?ps = "page_range s (s + page_round len)"
  have lt: "s < s + page_round len" using r(3) len(2) by (simp add: word_less_nat_alt unat_word_ariths)
  have f: "vma_find (Some pid) s m' = Some (unat pid, i)"
    using vma_lookup(2) [OF ok vm v(1) none] v(2,3) lt by simp
  have l: "unat pid < length (vmas m)" "i < length (vmas m ! unat pid)"
    using ok by (simp_all add: mm_ok_def word_less_nat_alt)
  have at: "vma_at (unat pid, i) m' = v" using l by (simp add: vma_at_def vm)
  note all = unmap_free_all [OF inv range_pages(2) [OF r]]
  define m1 where "m1 = fold unmap_free ?ps m'"
  have m1: "mapped_in m {} m1" "vmas m1 = vmas m'" using all by (simp_all add: m1_def)
  define m2 where "m2 = snd (vma_destroy (Some (unat pid, i)) m1)"
  have m2: "vmas m2 = (vmas m)[unat pid := (vmas m ! unat pid)[i := v\<lparr>vm_in_use := False\<rparr>]]" "pv m2 = pv m1" "mem m2 = mem m1"
    using l at by (simp_all add: m2_def vma_destroy_def upd_vma_def m1(2) vma_at_def vm)
  have "sys_munmap (Some pid) s len m' = (0, m2)"
    unfolding sys_munmap_def Let_def f option.case at using r(1) len(1) v all by (simp add: m2_def m1_def)
  moreover have "restored m m2" using mapped_in_restored mapped_in_cong [of m m m2 m1] m1(1) m2(2,3) by simp
  moreover have "vma_find (Some pid) a m2 = vma_find (Some pid) a m" for a by (rule vma_lookup(1) [OF ok m2(1)]) simp
  ultimately show ?thesis by simp
qed

lemma mmap_outcome:
  assumes "mm_ok m" and "pid < 64" and "flags AND MAP_FIXED = 0" and "flags AND MAP_ANONYMOUS \<noteq> 0" and "flags AND MAP_SHARED = 0"
    and "len \<noteq> 0" and "unat len \<le> 0x40000000" and "next_mmap m AND 0xFFF = 0" and "unat (next_mmap m) \<le> 0x80000000"
    and free: "\<forall>a. unat (next_mmap m) \<le> unat a \<and> unat a < unat (next_mmap m) + unat (page_round len) \<longrightarrow>
      \<not> mapped m a \<and> vma_find (Some pid) a m = None"
    and r: "next_mmap m AND 0xFFF = 0" "unat (page_round len) mod 4096 = 0" "unat (next_mmap m) + unat (page_round len) \<le> 0x80000000"
    and z: "0 < unat (page_round len)" and i: "i < 32" "\<not> vm_in_use (vmas m ! unat pid ! i)"
    and v: "v = \<lparr>vm_start = next_mmap m, vm_end = next_mmap m + page_round len, vm_prot = prot, vm_flags = flags,
          vm_in_use = True, vm_cow = False, vm_lazy = flags AND MAP_ANONYMOUS \<noteq> 0\<rparr>"
    and m2: "vmas m2 = (vmas m)[unat pid := (vmas m ! unat pid)[i := v]]" "pv m2 = pv m" "mem m2 = mem m"
  shows "case (case mmap_pages [] (page_range (next_mmap m) (next_mmap m + page_round len)) m2 of
        None \<Rightarrow> None
      | Some (ok, m3) \<Rightarrow> if ok then Some (next_mmap m, m3) else Some (MAP_FAILED, snd (vma_destroy (Some (unat pid, i)) m3))) of
      None \<Rightarrow> \<exists>p. pmm_wf p \<and> frames_in_use (fst (pv m)) \<subseteq> frames_in_use p \<and> fst (pmm_alloc_frame p) = 0
    | Some (r, m') \<Rightarrow> (if r = MAP_FAILED then restored m m' \<and> (\<forall>a. vma_find (Some pid) a m' = vma_find (Some pid) a m)
        else r = next_mmap m \<and> unat r + unat (page_round len) \<le> unat USER_MMAP_END \<and>
          (\<forall>a. unat r \<le> unat a \<and> unat a < unat r + unat (page_round len) \<longrightarrow>
             mapped m' a \<and> mem m' (phys_of m' a) = 0 \<and> phys_of m' a AND 0xFFFFF000 \<notin> frames_in_use (fst (pv m)) \<and>
             (\<forall>b. unat r \<le> unat b \<and> unat b < unat r + unat (page_round len) \<longrightarrow> phys_of m' a = phys_of m' b \<longrightarrow> a = b)) \<and>
          (\<forall>a. unat (pd_idx a) < 1023 \<longrightarrow> \<not> (unat r \<le> unat a \<and> unat a < unat r + unat (page_round len)) \<longrightarrow>
             phys_of m' a = phys_of m a \<and> mapped m' a = mapped m a) \<and>
          (case sys_munmap (Some pid) r len m' of
             (c, m'') \<Rightarrow> c = 0 \<and> restored m m'' \<and> (\<forall>a. vma_find (Some pid) a m'' = vma_find (Some pid) a m)))"
proof -
  let ?s = "next_mmap m" and ?z = "page_round len"
  let ?ps = "page_range ?s (?s + ?z)"
  have zero: "0 \<in> frames_in_use (fst (pv m))" and wf: "vmm_wf (pv m)" using assms(1) by (simp_all add: mm_ok_def)
  have i0: "mapped_in m (set []) m2" using mapped_in_refl [OF wf] mapped_in_cong [of m m m2 m] m2 by simp
  have sm: "self_map (snd (pv m))" using vmm_wfD(2) [of "fst (pv m)" "snd (pv m)"] wf by simp
  have free_pages: "\<forall>a \<in> set ?ps. user_page a \<and> in_effect (snd (pv m)) a = 0"
    using range_pages(1,3) [OF r] free physical_effect(2) [OF sm] by auto
  have d: "distinct ([] @ ?ps)" using range_pages(2) [OF r] by simp
  note o = mmap_pages_outcome [OF zero i0 d free_pages]
  show ?thesis
  proof (cases "mmap_pages [] ?ps m2")
    case None
    then show ?thesis using o by simp
  next
    case (Some res)
    obtain ok m3 where res: "res = (ok, m3)" by fastforce
    have m3: "vmas m3 = vmas m2" "mapped_in m (if ok then set ?ps else {}) m3" using o Some res by auto
    have ne: "?s \<noteq> MAP_FAILED" using assms(9) by auto
    show ?thesis
    proof (cases ok)
      case False
      define m4 where "m4 = snd (vma_destroy (Some (unat pid, i)) m3)"
      have l: "unat pid < length (vmas m)" "i < length (vmas m ! unat pid)"
        using assms(1,2) i by (simp_all add: mm_ok_def word_less_nat_alt)
      have m4: "vmas m4 = (vmas m)[unat pid := (vmas m ! unat pid)[i := v\<lparr>vm_in_use := False\<rparr>]]" "pv m4 = pv m3" "mem m4 = mem m3"
        using l by (simp_all add: m4_def vma_destroy_def upd_vma_def m3(1) vma_at_def m2)
      have "restored m m4" using mapped_in_restored mapped_in_cong [of m m m4 m3] m3(2) m4(2,3) False by simp
      moreover have "vma_find (Some pid) a m4 = vma_find (Some pid) a m" for a
        by (rule vma_lookup(1) [OF assms(1,2) i m4(1)]) simp
      ultimately show ?thesis using Some res False by (simp add: m4_def)
    next
      case True
      have inv: "mapped_in m (set ?ps) m3" using m3(2) True by simp
      have vm: "vmas m3 = (vmas m)[unat pid := (vmas m ! unat pid)[i := v]]" using m3(1) m2(1) by simp
      have none: "vma_find (Some pid) ?s m = None" using free z by simp
      have un: "case sys_munmap (Some pid) ?s len m3 of
          (c, m'') \<Rightarrow> c = 0 \<and> restored m m'' \<and> (\<forall>a. vma_find (Some pid) a m'' = vma_find (Some pid) a m)"
        by (rule munmap_area [OF assms(1,2) i vm _ _ _ _ inv r assms(6) z none]) (simp_all add: v assms(5))
      have out: "phys_of m3 a = phys_of m a \<and> mapped m3 a = mapped m a"
        if "unat (pd_idx a) < 1023" "\<not> (unat ?s \<le> unat a \<and> unat a < unat ?s + unat ?z)" for a
        using mapped_in_outside [OF inv that(1)] that(2) page_in_range [OF r] by simp
      show ?thesis
        using Some res True ne r(3) un out mapped_range [OF inv r] by simp
    qed
  qed
qed

section \<open>The property\<close>



section \<open>A small machine\<close>

definition two_free :: pmm where
  "two_free = pmm_demo\<lparr>pmm_bitmap := [0xFFFFFFFF, 0xFFFFFFF3], pmm_used_frames := 38\<rparr>"

lemma two_free_used: "used_frames two_free = {..< 40} - {34, 35}"
proof -
  have "frame_used two_free f \<longleftrightarrow> f \<noteq> 34 \<and> f \<noteq> 35" if "f < 40" for f
  proof -
    have "\<forall>f \<in> set [0 ..< 40]. frame_used two_free f \<longleftrightarrow> f \<noteq> 34 \<and> f \<noteq> 35"
      unfolding frame_used_def two_free_def pmm_demo_def by code_simp
    then show ?thesis using that by simp
  qed
  then show ?thesis by (auto simp: used_frames_def two_free_def pmm_demo_def)
qed

lemma two_free_wf: "pmm_wf two_free"
  unfolding pmm_wf_def two_free_used by (simp add: two_free_def pmm_demo_def)

lemma two_free_alloc: "pmm_alloc_frame two_free = (0x22000, pmm_demo\<lparr>pmm_bitmap := [0xFFFFFFFF, 0xFFFFFFF7]\<rparr>)"
  unfolding pmm_alloc_frame_def two_free_def pmm_demo_def by code_simp

definition mm_demo :: mm where
  "mm_demo = \<lparr>pv = (two_free, vmm_demo), mem = (\<lambda>_. 7), vmas = replicate 64 (replicate 32 no_vma), next_mmap = USER_MMAP_START\<rparr>"


lemma mm_demo_ok: "mm_ok mm_demo"
proof -
  have "(0x1000 :: u32) = frame_addr 1" "(0 :: u32) = frame_addr 0" by (simp_all add: frame_addr_def)
  then have u: "(0x1000 :: u32) \<in> frames_in_use two_free" "(0 :: u32) \<in> frames_in_use two_free"
    by (simp_all only: frames_in_use_def) (simp_all add: two_free_used)
  have "vmm_wf (two_free, vmm_demo)"
    using two_free_wf u(1) vmm_demo_wf by (simp add: vmm_wf_def vmm_demo_pde present_def) (simp add: vmm_demo_def vmm_init_def)
  then show ?thesis using u(2) by (simp add: mm_ok_def mm_demo_def)
qed

lemma mm_demo_empty: "\<not> mapped mm_demo a \<or> unat (pd_idx a) = 1023" "vma_find (Some 1) a mm_demo = None"
proof -
  have "self_map vmm_demo" using vmm_demo_wf by (simp add: vmm_wf_def)
  then show "\<not> mapped mm_demo a \<or> unat (pd_idx a) = 1023"
    by (simp add: mm_demo_def vmm_is_mapped_alt pt_entry_def vmm_demo_pde)
  show "vma_find (Some 1) a mm_demo = None"
    by (simp add: vma_find_def get_vma_table_def mm_demo_def no_vma_def)
qed

lemma mm_demo_mmap: "\<exists>m'. sys_mmap (Some 1) 0 1 3 0x22 mm_demo = Some (0x40000000, m')"
proof -
  let ?m = "mm_demo\<lparr>next_mmap := 0x40001000\<rparr>"
  have t: "get_vma_table (Some 1) = Some 1" by (simp add: get_vma_table_def word_le_nat_alt)
  have v: "vmas ?m ! 1 = replicate 32 no_vma" by (simp add: mm_demo_def)
  have f: "find_idx (\<lambda>v. \<not> vm_in_use v) (replicate 32 no_vma) = Some 0" by (simp add: find_idx_Some no_vma_def)
  obtain m2 where c: "vma_create (Some 1) 0x40000000 0x40001000 3 0x22 ?m = (Some (1, 0), m2)" "pv m2 = (two_free, vmm_demo)"
    unfolding vma_create_def t option.case v f by (simp add: upd_vma_def) (simp add: mm_demo_def)
  define m3 where "m3 = m2\<lparr>pv := (pmm_demo\<lparr>pmm_bitmap := [0xFFFFFFFF, 0xFFFFFFF7]\<rparr>, vmm_demo)\<rparr>"
  have a: "alloc_frame m2 = (0x22000, m3)" by (simp add: alloc_frame_def c(2) two_free_alloc m3_def)
  have "fst (pmm_alloc_frame (pmm_demo\<lparr>pmm_bitmap := [0xFFFFFFFF, 0xFFFFFFF7]\<rparr>)) \<noteq> 0"
    unfolding pmm_alloc_frame_def pmm_demo_def by code_simp
  then have n: "fst (pmm_alloc_frame (fst (pv m3))) \<noteq> 0" by (simp add: m3_def)
  have wf: "vmm_wf (pv m2)" using mm_demo_ok by (simp add: c(2) mm_ok_def mm_demo_def)
  have "user_page 0x40000000" by (simp add: user_page_def unat_pd_idx)
  then obtain m4 where cl: "clear_page 0x40000000 (map_page 0x40000000 0x22000 (PAGE_USER OR PAGE_PRESENT OR PAGE_WRITE) m3) = Some m4"
    using map_step_fault [OF wf _ a] n by fastforce
  have pr: "page_range 0x40000000 0x40001000 = [0x40000000]" by (simp add: page_range_def)
  have rnd: "page_round 1 = 0x1000" unfolding page_round_def by code_simp
  show ?thesis
    unfolding sys_mmap_def Let_def rnd using c(1) cl a by (simp add: mm_demo_def pr)
qed




section \<open>Where the system calls part from their contract\<close>

text \<open>
  Unmapping removes the translations of every page of the requested range, whether it belongs to the
  area that was found at its start or not, and no other translation (\<open>mmap.c:174\<close>).
\<close>

lemma phys_of_unmapped: "self_map (snd (pv m)) \<Longrightarrow> \<not> mapped m a \<Longrightarrow> b AND 0xFFFFF000 = a AND 0xFFFFF000 \<Longrightarrow> phys_of m b = 0"
  by (auto simp: vmm_get_physical_alt vmm_is_mapped_alt pt_entry_def same_page split: if_splits)

lemma munmap_fold:
  assumes "vmm_wf (p, snd (pv m))" and "\<forall>a \<in> set ps. unat (pd_idx a) < 1023" and "unat (pd_idx b) < 1023"
  shows "phys_of (fold (munmap_page shared) ps m) b =
      (if \<exists>a \<in> set ps. b AND 0xFFFFF000 = a AND 0xFFFFF000 then 0 else phys_of m b)"
  using assms(1,2)
proof (induction ps arbitrary: m)
  case (Cons a ps)
  let ?m = "munmap_page shared a m"
  have i: "unat (pd_idx a) < 1023" using Cons.prems(2) by simp
  note un = vmm_unmap_page_correct [OF Cons.prems(1) i]
  have s: "snd (pv ?m) = (if mapped m a then vmm_unmap_page a (snd (pv m)) else snd (pv m))"
    by (simp add: munmap_page_def unmap_free_def unmap_page_def free_frame_def)
  have p: "phys_of ?m b = (if b AND 0xFFFFF000 = a AND 0xFFFFF000 then 0 else phys_of m b)"
    using un assms(3) phys_of_unmapped [OF vmm_wfD(2) [OF Cons.prems(1)], of a b] by (simp add: s)
  have "vmm_wf (p, snd (pv ?m))" using un Cons.prems(1) by (simp add: s)
  then show ?case using Cons.IH [of ?m] Cons.prems(2) by (simp add: p)
qed simp

lemma munmap_ignores_area_end:
  assumes "vmm_wf (pv m)" and "vma_find cur addr m = Some a" and "addr AND 0xFFF = 0" and "len \<noteq> 0"
    and "unat len \<le> 0x40000000" and "unat addr + unat (page_round len) \<le> 0x80000000" and "unat (pd_idx b) < 1023"
  shows "fst (sys_munmap cur addr len m) = 0"
    and "phys_of (snd (sys_munmap cur addr len m)) b =
      (if unat addr \<le> unat b \<and> unat b < unat addr + unat (page_round len) then 0 else phys_of m b)"
proof -
  let ?ps = "page_range addr (addr + page_round len)"
  have r: "addr AND 0xFFF = 0" "unat (page_round len) mod 4096 = 0" "unat addr + unat (page_round len) \<le> 0x80000000"
    using assms(3,6) unat_page_round [OF assms(5)] by simp_all
  have ps: "\<forall>a \<in> set ?ps. unat (pd_idx a) < 1023" using range_pages(3) [OF r] by (simp add: user_page_def)
  have al: "x AND 0xFFF = 0" if "x \<in> set ?ps" for x using range_pages(3) [OF r that] by (simp add: user_page_def)
  have "(\<exists>x \<in> set ?ps. b AND 0xFFFFF000 = x AND 0xFFFFF000) \<longleftrightarrow> b AND 0xFFFFF000 \<in> set ?ps"
    using al aligned_base base_aligned by metis
  then have "phys_of (fold (munmap_page s) ?ps m) b =
      (if unat addr \<le> unat b \<and> unat b < unat addr + unat (page_round len) then 0 else phys_of m b)" for s
    using munmap_fold [of "fst (pv m)" m ?ps b s] assms(1,7) ps page_in_range [OF r, of b] by simp
  moreover have "fst (sys_munmap cur addr len m) = 0 \<and>
      (\<exists>s. pv (snd (sys_munmap cur addr len m)) = pv (fold (munmap_page s) ?ps m))"
    using assms(2-4) by (auto simp: sys_munmap_def Let_def vma_destroy_def upd_vma_def)
  ultimately show "fst (sys_munmap cur addr len m) = 0"
    "phys_of (snd (sys_munmap cur addr len m)) b =
      (if unat addr \<le> unat b \<and> unat b < unat addr + unat (page_round len) then 0 else phys_of m b)"
    by auto
qed

text \<open>
  A fixed mapping of more than 4 GiB less a page is rounded to length 0: the call succeeds and maps
  nothing (\<open>mmap.c:87\<close>).
\<close>

lemma mmap_fixed_wrap:
  assumes "mm_ok m" and "pid < 64" and "len > 0xFFFFF000" and "flags AND MAP_FIXED \<noteq> 0" and "flags AND MAP_ANONYMOUS \<noteq> 0"
    and "USER_MMAP_START \<le> addr" and "addr \<le> USER_MMAP_END" and "v \<in> set (vmas m ! unat pid)" and "\<not> vm_in_use v"
  shows "\<exists>m'. sys_mmap (Some pid) addr len prot flags m = Some (addr, m') \<and> pv m' = pv m \<and> mem m' = mem m"
proof -
  have "unat (len + 0xFFF) < 4096"
    using assms(3) unat_lt_u32 [of len] by (simp add: word_less_nat_alt unat_word_ariths mod_if) arith
  then have "unat (page_round len) = 0" unfolding page_round_def unat_page_base by simp
  then have z: "page_round len = 0" by (simp only: unat_eq_0)
  have n: "len \<noteq> 0" using assms(3) by auto
  show ?thesis
  proof (rule vma_create_cases [OF assms(1,2), of addr addr prot flags])
    assume "vma_create (Some pid) addr addr prot flags m = (None, m)"
    then show ?thesis
      using assms(2,8,9) unfolding vma_create_def get_vma_table_def by (auto simp: leD split: option.splits if_splits)
  next
    fix i m2
    assume c: "vma_create (Some pid) addr addr prot flags m = (Some (unat pid, i), m2)"
      "m2 = m\<lparr>vmas := (vmas m)[unat pid := (vmas m ! unat pid)[i := \<lparr>vm_start = addr, vm_end = addr, vm_prot = prot, vm_flags = flags,
         vm_in_use = True, vm_cow = False, vm_lazy = flags AND MAP_ANONYMOUS \<noteq> 0\<rparr>]]\<rparr>"
    have pr: "page_range addr addr = []" by (simp add: page_range_def)
    have "\<not> addr < USER_MMAP_START" "\<not> addr > USER_MMAP_END" using assms(6,7) by simp_all
    then show ?thesis
      unfolding sys_mmap_def Let_def z using n assms(4,5) c(1) by (simp add: pr c(2))
  qed
qed


text \<open>
  A mapping of a file fails after the next address has been moved: every such call uses up its length of
  the range for mappings, for all processes, and nothing gives it back (\<open>mmap.c:101\<close>).
\<close>

lemma file_mmap_uses_addresses:
  assumes "flags AND MAP_FIXED = 0" and "flags AND MAP_ANONYMOUS = 0" and "len \<noteq> 0" and "next_mmap m + page_round len \<le> USER_MMAP_END"
  shows "\<exists>m'. sys_mmap cur addr len prot flags m = Some (MAP_FAILED, m') \<and> next_mmap m' = next_mmap m + page_round len \<and> pv m' = pv m"
  using assms by (simp add: sys_mmap_def Let_def vma_create_def vma_destroy_def upd_vma_def leD del: find_idx_None
    split: option.split prod.split)

text \<open>
  Unmapping pages in the middle of an area removes their translations but leaves the area as it was:
  it is not split, and the pages still belong to it (\<open>mmap.c:187\<close>).
\<close>

lemma munmap_middle_keeps_area:
  assumes "vma_find cur addr m = Some a" and "addr \<noteq> vm_start (vma_at a m)" and "addr + page_round len \<noteq> vm_end (vma_at a m)"
    and "addr AND 0xFFF = 0" and "len \<noteq> 0"
  shows "fst (sys_munmap cur addr len m) = 0 \<and> vmas (snd (sys_munmap cur addr len m)) = vmas m"
proof -
  have "vmas (fold (munmap_page s) ps m') = vmas m'" for s ps m'
    by (induction ps arbitrary: m') (simp_all add: munmap_page_def unmap_free_def unmap_page_def free_frame_def)
  then show ?thesis using assms by (simp add: sys_munmap_def Let_def)
qed

section \<open>Copy on write is never taken\<close>

text \<open>The states that the system calls and the fault handlers can reach from \<open>mmap_init\<close>.\<close>

inductive mm_reach :: "mm \<Rightarrow> bool" where
  init: "mm_reach (mmap_init m)"
| process: "mm_reach m \<Longrightarrow> mm_reach (vma_init_process pid m)"
| map: "mm_reach m \<Longrightarrow> sys_mmap cur addr len prot flags m = Some (r, m') \<Longrightarrow> mm_reach m'"
| unmap: "mm_reach m \<Longrightarrow> mm_reach (snd (sys_munmap cur addr len m))"
| protect: "mm_reach m \<Longrightarrow> mm_reach (snd (sys_mprotect cur addr len prot m))"
| mark: "mm_reach m \<Longrightarrow> mm_reach (snd (cow_mark_page virt m))"
| fault: "mm_reach m \<Longrightarrow> handle_page_fault cur virt err m = Some (c, m') \<Longrightarrow> mm_reach m'"

text \<open>Sixty-four tables of thirty-two areas, no area in use marked copy-on-write.\<close>

definition areas_ok :: "vma list list \<Rightarrow> bool" where
  "areas_ok ts \<longleftrightarrow> length ts = 64 \<and> (\<forall>t \<in> set ts. length t = 32 \<and> (\<forall>v \<in> set t. \<not> vm_cow v))"

lemma areas_ok_update:
  "areas_ok ts \<Longrightarrow> (i < 64 \<Longrightarrow> j < 32 \<Longrightarrow> \<not> vm_cow (ts ! i ! j) \<Longrightarrow> \<not> vm_cow v) \<Longrightarrow> areas_ok (ts[i := (ts ! i)[j := v]])"
proof (cases "i < 64 \<and> j < 32")
  case True
  assume a: "areas_ok ts" and v: "i < 64 \<Longrightarrow> j < 32 \<Longrightarrow> \<not> vm_cow (ts ! i ! j) \<Longrightarrow> \<not> vm_cow v"
  have "ts ! i \<in> set ts" using a True by (simp add: areas_ok_def)
  moreover from this have "ts ! i ! j \<in> set (ts ! i)" using a True by (simp add: areas_ok_def)
  ultimately show ?thesis
    using a v True unfolding areas_ok_def by (fastforce dest!: set_update_subset_insert [THEN subsetD])
next
  case False
  assume a: "areas_ok ts"
  then have "ts[i := (ts ! i)[j := v]] = ts" if "i < 64"
    using False that by (simp add: areas_ok_def list_update_beyond)
  then show ?thesis using a False by (cases "i < 64") (simp_all add: areas_ok_def list_update_beyond)
qed

lemma areas_ok_upd_vma:
  "areas_ok (vmas m) \<Longrightarrow> (\<And>v. \<not> vm_cow v \<Longrightarrow> \<not> vm_cow (f v)) \<Longrightarrow> areas_ok (vmas (upd_vma a f m))"
  by (simp add: upd_vma_def vma_at_def areas_ok_update)

lemma pages_keep_areas [simp]:
  "vmas (map_page a p f m) = vmas m" "vmas (unmap_page a m) = vmas m" "vmas (unmap_free a m) = vmas m"
  "vmas (free_frame p m) = vmas m" "vmas (munmap_page s a m) = vmas m" "vmas (mprotect_page g a m) = vmas m"
  by (simp_all add: map_page_def unmap_page_def unmap_free_def free_frame_def munmap_page_def mprotect_page_def)

lemma folds_keep_areas [simp]:
  "vmas (fold unmap_free ps m) = vmas m" "vmas (fold (munmap_page s) ps m) = vmas m" "vmas (fold (mprotect_page g) ps m) = vmas m"
  by (induction ps arbitrary: m) simp_all

lemma alloc_keeps_areas: "alloc_frame m = (p, m') \<Longrightarrow> vmas m' = vmas m"
  by (auto simp: alloc_frame_def split: prod.splits)

lemma clear_keeps_areas: "clear_page a m = Some m' \<Longrightarrow> vmas m' = vmas m"
  by (auto simp: clear_page_def split: if_splits)

lemma copy_keeps_areas: "copy_page a b m = Some m' \<Longrightarrow> vmas m' = vmas m"
  by (auto simp: copy_page_def split: if_splits)

lemma mmap_pages_keeps_areas: "mmap_pages ds ps m = Some (k, m') \<Longrightarrow> vmas m' = vmas m"
proof (induction ds ps m rule: mmap_pages.induct)
  case (2 ds a ps m)
  show ?case using "2.prems" "2.IH" by (auto simp: Let_def alloc_keeps_areas clear_keeps_areas split: prod.splits if_splits option.splits)
qed simp


lemmas keeps_areas = alloc_keeps_areas clear_keeps_areas copy_keeps_areas

lemma faults_keep_areas:
  "demand_page_alloc virt a m = Some (c, m') \<Longrightarrow> vmas m' = vmas m"
  "stack_grow virt m = Some (c, m') \<Longrightarrow> vmas m' = vmas m"
  "cow_handle_fault cur virt m = Some (c, m') \<Longrightarrow> vmas m' = vmas m"
  by (auto simp: demand_page_alloc_def stack_grow_def cow_handle_fault_def Let_def keeps_areas
      split: if_splits prod.splits option.splits)

lemma handle_page_fault_keeps_areas: "handle_page_fault cur virt err m = Some (c, m') \<Longrightarrow> vmas m' = vmas m"
  by (auto simp: handle_page_fault_def faults_keep_areas split: if_splits prod.splits option.splits)

lemma cow_mark_keeps_areas [simp]: "vmas (snd (cow_mark_page virt m)) = vmas m"
  by (simp add: cow_mark_page_def)

lemma vma_create_areas: "vma_create cur s e prot flags m = (r, m') \<Longrightarrow> areas_ok (vmas m) \<Longrightarrow> areas_ok (vmas m')"
  by (auto simp: vma_create_def areas_ok_upd_vma split: option.splits)

lemma vma_destroy_areas: "areas_ok (vmas m) \<Longrightarrow> areas_ok (vmas (snd (vma_destroy a m)))"
  by (simp add: vma_destroy_def areas_ok_upd_vma split: option.split)

lemma sys_mmap_areas:
  assumes "sys_mmap cur addr len prot flags m = Some (r, m')" and ok: "areas_ok (vmas m)"
  shows "areas_ok (vmas m')"
proof (rule ccontr)
  assume n: "\<not> areas_ok (vmas m')"
  define fixed where "fixed = (flags AND MAP_FIXED \<noteq> 0)"
  define va where "va = (if fixed then addr else next_mmap m)"
  define m1 where "m1 = (if fixed then m else m\<lparr>next_mmap := next_mmap m + page_round len\<rparr>)"
  obtain a m2 where c: "vma_create cur va (va + page_round len) prot flags m1 = (a, m2)" by fastforce
  have "areas_ok (vmas m1)" using ok by (simp add: m1_def)
  then have ok2: "areas_ok (vmas m2)" using vma_create_areas [OF c] by simp
  note e = assms(1) [unfolded sys_mmap_def Let_def, folded fixed_def, folded va_def, folded m1_def, unfolded c]
  have "m' \<noteq> m" "m' \<noteq> m2" "m' \<noteq> snd (vma_destroy a m2)" using n ok ok2 vma_destroy_areas [OF ok2] by auto
  then obtain k m3 where "mmap_pages [] (page_range va (va + page_round len)) m2 = Some (k, m3)"
    "m' = m3 \<or> m' = snd (vma_destroy a m3)"
    using e by (auto split: if_splits option.splits)
  then show False using n mmap_pages_keeps_areas ok2 vma_destroy_areas [of m3] by auto
qed

lemma sys_munmap_areas: "areas_ok (vmas m) \<Longrightarrow> areas_ok (vmas (snd (sys_munmap cur addr len m)))"
  by (simp add: sys_munmap_def Let_def areas_ok_upd_vma vma_destroy_areas split: option.split)

lemma sys_mprotect_areas: "areas_ok (vmas m) \<Longrightarrow> areas_ok (vmas (snd (sys_mprotect cur addr len prot m)))"
  by (simp add: sys_mprotect_def Let_def areas_ok_upd_vma split: option.split)

lemma mm_reach_areas: "mm_reach m \<Longrightarrow> areas_ok (vmas m)"
proof (induction rule: mm_reach.induct)
  case (init m)
  then show ?case by (simp add: mmap_init_def areas_ok_def no_vma_def)
next
  case (process m pid)
  then show ?case
    by (auto simp: vma_init_process_def areas_ok_def no_vma_def dest!: set_update_subset_insert [THEN subsetD])
qed (simp_all add: sys_mmap_areas sys_munmap_areas sys_mprotect_areas handle_page_fault_keeps_areas)


lemma cow_never_taken:
  assumes "mm_reach m"
  shows "cow_handle_fault cur virt m = Some (-1, m)"
proof (cases "vma_find cur virt m")
  case None
  then show ?thesis by (simp add: cow_handle_fault_def Let_def)
next
  case (Some a)
  then obtain t i where t: "get_vma_table cur = Some t" "a = (t, i)"
    "find_idx (\<lambda>v. vm_in_use v \<and> virt \<ge> vm_start v \<and> virt < vm_end v) (vmas m ! t) = Some i"
    by (auto simp: vma_find_def split: option.splits)
  have "t < 64" using t(1) by (auto simp: get_vma_table_def word_le_nat_alt split: option.splits if_splits)
  then have "vmas m ! t \<in> set (vmas m)" "vmas m ! t ! i \<in> set (vmas m ! t)"
    using mm_reach_areas [OF assms] find_idx_SomeD [OF t(3)] by (simp_all add: areas_ok_def)
  then have "\<not> vm_cow (vma_at a m)" using mm_reach_areas [OF assms] by (simp add: areas_ok_def vma_at_def t(2))
  then show ?thesis by (simp add: cow_handle_fault_def Let_def Some)
qed

end
