(* ===== verification/Security.thy ===== *)
theory Security
  imports Zos_Prelude
begin

text \<open>
  Access control, \<open>kernel/security/capabilities.c\<close>, \<open>seccomp.c\<close> and \<open>security.c\<close>: the capability
  sets of the processes, their system call filters, the user and group database, and the address
  randomisation. The CPU feature bits, the control registers and the stack canary are hardware and
  not modelled; what \<open>rdtsc\<close> returns is an argument of \<open>aslr_init\<close>. Log output has no counterpart.
\<close>

section \<open>Capabilities\<close>

record process_caps =
  effective :: u64
  permitted :: u64
  inheritable :: u64

abbreviation MAX_PROCESSES :: nat where "MAX_PROCESSES \<equiv> 256"
abbreviation CAP_ALL :: u64 where "CAP_ALL \<equiv> 0xFFFFFFFFFFFFFFFF"

type_synonym cap_table = "process_caps list"

definition no_caps :: process_caps where
  "no_caps = \<lparr>effective = 0, permitted = 0, inheritable = 0\<rparr>"

definition all_caps :: process_caps where
  "all_caps = \<lparr>effective = CAP_ALL, permitted = CAP_ALL, inheritable = CAP_ALL\<rparr>"

definition capabilities_init :: cap_table where
  "capabilities_init = (replicate MAX_PROCESSES no_caps)[0 := all_caps, 1 := all_caps]"

definition capability_get :: "u32 \<Rightarrow> cap_table \<Rightarrow> u64" where
  "capability_get pid t = (if pid \<ge> 256 then 0 else effective (t ! unat pid))"

definition capability_set :: "u32 \<Rightarrow> u64 \<Rightarrow> cap_table \<Rightarrow> int \<times> cap_table" where
  "capability_set pid caps t =
     (if pid \<ge> 256 then (-1, t)
      else (0, t[unat pid := (t ! unat pid)\<lparr>effective := caps AND permitted (t ! unat pid)\<rparr>]))"

definition capability_has :: "u32 \<Rightarrow> u64 \<Rightarrow> cap_table \<Rightarrow> bool" where
  "capability_has pid cap t = (if pid \<ge> 256 then False else effective (t ! unat pid) AND cap = cap)"

definition capability_drop :: "u32 \<Rightarrow> u64 \<Rightarrow> cap_table \<Rightarrow> int \<times> cap_table" where
  "capability_drop pid cap t =
     (if pid \<ge> 256 then (-1, t)
      else let p = t ! unat pid in
        (0, t[unat pid := p\<lparr>effective := effective p AND NOT cap, permitted := permitted p AND NOT cap\<rparr>]))"

definition capability_grant :: "u32 \<Rightarrow> u64 \<Rightarrow> cap_table \<Rightarrow> int \<times> cap_table" where
  "capability_grant pid cap t =
     (if pid \<ge> 256 then (-1, t)
      else let p = t ! unat pid in
        (0, t[unat pid := p\<lparr>permitted := permitted p OR cap, effective := effective p OR cap\<rparr>]))"

definition capability_inherit :: "u32 \<Rightarrow> u32 \<Rightarrow> cap_table \<Rightarrow> cap_table" where
  "capability_inherit parent_pid child_pid t =
     (if parent_pid \<ge> 256 \<or> child_pid \<ge> 256 then t
      else let i = inheritable (t ! unat parent_pid) in
        t[unat child_pid := \<lparr>effective = i, permitted = i, inheritable = i\<rparr>])"

definition capability_clear :: "u32 \<Rightarrow> cap_table \<Rightarrow> cap_table" where
  "capability_clear pid t = (if pid \<ge> 256 then t else t[unat pid := no_caps])"

definition capability_check :: "u32 \<Rightarrow> u64 \<Rightarrow> cap_table \<Rightarrow> int" where
  "capability_check pid required_cap t = (if capability_has pid required_cap t then 0 else -1)"

text \<open>The operations that change the table, for sequences of calls.\<close>

datatype cap_op = Cap_set u32 u64 | Cap_drop u32 u64 | Cap_grant u32 u64 | Cap_inherit u32 u32 | Cap_clear u32

fun cap_step :: "cap_op \<Rightarrow> cap_table \<Rightarrow> cap_table" where
  "cap_step (Cap_set p c) t = snd (capability_set p c t)"
| "cap_step (Cap_drop p c) t = snd (capability_drop p c t)"
| "cap_step (Cap_grant p c) t = snd (capability_grant p c t)"
| "cap_step (Cap_inherit p q) t = capability_inherit p q t"
| "cap_step (Cap_clear p) t = capability_clear p t"

section \<open>System call filters\<close>

record seccomp_rule =
  syscall_nr :: u32
  rule_action :: int

record seccomp_filter =
  sf_mode :: int
  sf_rules :: "seccomp_rule list"
  rule_count :: nat

abbreviation MAX_SECCOMP_RULES :: nat where "MAX_SECCOMP_RULES \<equiv> 64"
abbreviation SECCOMP_MODE_DISABLED :: int where "SECCOMP_MODE_DISABLED \<equiv> 0"
abbreviation SECCOMP_MODE_STRICT :: int where "SECCOMP_MODE_STRICT \<equiv> 1"
abbreviation SECCOMP_MODE_FILTER :: int where "SECCOMP_MODE_FILTER \<equiv> 2"
abbreviation SECCOMP_RET_KILL :: int where "SECCOMP_RET_KILL \<equiv> 0"
abbreviation SECCOMP_RET_ALLOW :: int where "SECCOMP_RET_ALLOW \<equiv> 0x7FFF0000"

type_synonym seccomp = "seccomp_filter list"

definition no_filter :: seccomp_filter where
  "no_filter = \<lparr>sf_mode = 0, sf_rules = replicate MAX_SECCOMP_RULES \<lparr>syscall_nr = 0, rule_action = 0\<rparr>, rule_count = 0\<rparr>"

definition seccomp_init :: seccomp where
  "seccomp_init = replicate MAX_PROCESSES no_filter"

definition put_rule :: "u32 \<Rightarrow> int \<Rightarrow> seccomp_filter \<Rightarrow> seccomp_filter" where
  "put_rule nr act f =
     f\<lparr>sf_rules := (sf_rules f)[rule_count f := \<lparr>syscall_nr = nr, rule_action = act\<rparr>], rule_count := rule_count f + 1\<rparr>"

text \<open>The system calls 1, 2, 0 and 119 are \<open>SYS_READ\<close>, \<open>SYS_WRITE\<close>, \<open>SYS_EXIT\<close> and \<open>SYS_SIGRETURN\<close>.\<close>

definition seccomp_set_mode :: "u32 \<Rightarrow> int \<Rightarrow> seccomp \<Rightarrow> int \<times> seccomp" where
  "seccomp_set_mode pid mode t =
     (if pid \<ge> 256 then (-1, t)
      else let f = t ! unat pid in
        if mode = SECCOMP_MODE_STRICT then
          (0, t[unat pid := put_rule 119 SECCOMP_RET_ALLOW (put_rule 0 SECCOMP_RET_ALLOW
                 (put_rule 2 SECCOMP_RET_ALLOW (put_rule 1 SECCOMP_RET_ALLOW
                   (f\<lparr>sf_mode := SECCOMP_MODE_STRICT, rule_count := 0\<rparr>))))])
        else if mode = SECCOMP_MODE_FILTER then (0, t[unat pid := f\<lparr>sf_mode := SECCOMP_MODE_FILTER\<rparr>])
        else if mode = SECCOMP_MODE_DISABLED then
          (0, t[unat pid := f\<lparr>sf_mode := SECCOMP_MODE_DISABLED, rule_count := 0\<rparr>])
        else (-1, t))"

definition seccomp_add_rule :: "u32 \<Rightarrow> u32 \<Rightarrow> int \<Rightarrow> seccomp \<Rightarrow> int \<times> seccomp" where
  "seccomp_add_rule pid nr act t =
     (if pid \<ge> 256 then (-1, t)
      else let f = t ! unat pid in
        if sf_mode f \<noteq> SECCOMP_MODE_FILTER then (-1, t)
        else if rule_count f \<ge> MAX_SECCOMP_RULES then (-2, t)
        else (0, t[unat pid := put_rule nr act f]))"

definition seccomp_check :: "u32 \<Rightarrow> u32 \<Rightarrow> seccomp \<Rightarrow> int" where
  "seccomp_check pid nr t =
     (if pid \<ge> 256 then SECCOMP_RET_ALLOW
      else let f = t ! unat pid in
        if sf_mode f = SECCOMP_MODE_DISABLED then SECCOMP_RET_ALLOW
        else case find_idx (\<lambda>i. syscall_nr (sf_rules f ! i) = nr) [0 ..< rule_count f] of
               Some i \<Rightarrow> rule_action (sf_rules f ! i)
             | None \<Rightarrow> if sf_mode f = SECCOMP_MODE_STRICT then SECCOMP_RET_KILL else SECCOMP_RET_ALLOW)"

definition seccomp_get_mode :: "u32 \<Rightarrow> seccomp \<Rightarrow> int" where
  "seccomp_get_mode pid t = (if pid \<ge> 256 then SECCOMP_MODE_DISABLED else sf_mode (t ! unat pid))"

datatype sec_op = Sec_mode u32 int | Sec_rule u32 u32 int

fun sec_step :: "sec_op \<Rightarrow> seccomp \<Rightarrow> seccomp" where
  "sec_step (Sec_mode p m) t = snd (seccomp_set_mode p m t)"
| "sec_step (Sec_rule p n a) t = snd (seccomp_add_rule p n a t)"

section \<open>Users\<close>

text \<open>
  C strings are HOL strings without the terminating zero; \<open>char\<close> is signed. The hash is 32 bits wide
  and printed as eight lower-case hexadecimal digits.
\<close>

definition signed_char :: "char \<Rightarrow> u32" where
  "signed_char c = signed_take_bit 7 (of_char c)"

definition hash_word :: "string \<Rightarrow> u32" where
  "hash_word input = foldl (\<lambda>hash c. (push_bit 5 hash + hash) + signed_char c) 5381 input"

definition hex_digit :: "nat \<Rightarrow> char" where
  "hex_digit nibble = (if nibble < 10 then char_of (48 + nibble) else char_of (97 + nibble - 10))"

definition simple_hash :: "string \<Rightarrow> string" where
  "simple_hash input = map (\<lambda>i. hex_digit (unat (drop_bit (28 - i * 4) (hash_word input) AND 0xF))) [0 ..< 8]"

record user =
  u_uid :: u32
  u_gid :: u32
  username :: string
  password_hash :: string
  home_dir :: string
  u_shell :: string
  u_active :: bool

definition zero_user :: user where
  "zero_user = \<lparr>u_uid = 0, u_gid = 0, username = [], password_hash = [], home_dir = [], u_shell = [], u_active = False\<rparr>"

type_synonym users = "user list"

abbreviation MAX_USERS :: nat where "MAX_USERS \<equiv> 64"

definition user_by_uid :: "u32 \<Rightarrow> users \<Rightarrow> nat option" where
  "user_by_uid uid us = find_idx (\<lambda>u. u_active u \<and> u_uid u = uid) us"

text \<open>
  \<open>None\<close> is the write past \<open>home_dir[64]\<close> by \<open>strcpy\<close> and \<open>strcat\<close>, which do not check: the string and its
  terminating zero need \<open>6 + strlen(username) + 1\<close> bytes.
\<close>

definition user_add :: "string \<Rightarrow> string \<Rightarrow> u32 \<Rightarrow> u32 \<Rightarrow> users \<Rightarrow> (int \<times> users) option" where
  "user_add name password uid gid us =
     (case user_by_uid uid us of
        Some _ \<Rightarrow> Some (-1, us)
      | None \<Rightarrow>
          (case find_idx (\<lambda>u. \<not> u_active u) us of
             None \<Rightarrow> Some (-2, us)
           | Some i \<Rightarrow>
               if length (''/home/'' @ name) < 64 then
                 Some (0, us[i := \<lparr>u_uid = uid, u_gid = gid, username = take 31 name,
                                   password_hash = simple_hash password, home_dir = ''/home/'' @ name,
                                   u_shell = ''/bin/sh'', u_active = True\<rparr>])
               else None))"

definition user_remove :: "u32 \<Rightarrow> users \<Rightarrow> int \<times> users" where
  "user_remove uid us =
     (if uid = 0 then (-1, us)
      else case user_by_uid uid us of None \<Rightarrow> (-1, us) | Some i \<Rightarrow> (0, us[i := zero_user]))"

definition user_get_by_uid :: "u32 \<Rightarrow> users \<Rightarrow> user option" where
  "user_get_by_uid uid us = map_option (nth us) (user_by_uid uid us)"

definition user_get_by_name :: "string \<Rightarrow> users \<Rightarrow> user option" where
  "user_get_by_name name us = map_option (nth us) (find_idx (\<lambda>u. u_active u \<and> username u = name) us)"

definition user_authenticate :: "string \<Rightarrow> string \<Rightarrow> users \<Rightarrow> int" where
  "user_authenticate name password us =
     (case user_get_by_name name us of
        None \<Rightarrow> -1
      | Some u \<Rightarrow> if password_hash u = simple_hash password then sint (u_uid u) else -1)"

definition user_set_password :: "u32 \<Rightarrow> string \<Rightarrow> users \<Rightarrow> int \<times> users" where
  "user_set_password uid password us =
     (case user_by_uid uid us of
        None \<Rightarrow> (-1, us)
      | Some i \<Rightarrow> (0, us[i := (us ! i)\<lparr>password_hash := simple_hash password\<rparr>]))"

section \<open>Groups\<close>

record group =
  g_gid :: u32
  groupname :: string
  members :: "u32 list"
  member_count :: nat
  g_active :: bool

definition zero_group :: group where
  "zero_group = \<lparr>g_gid = 0, groupname = [], members = replicate MAX_USERS 0, member_count = 0, g_active = False\<rparr>"

type_synonym groups = "group list"

definition group_by_gid :: "u32 \<Rightarrow> groups \<Rightarrow> nat option" where
  "group_by_gid gid gs = find_idx (\<lambda>g. g_active g \<and> g_gid g = gid) gs"

definition group_add :: "string \<Rightarrow> u32 \<Rightarrow> groups \<Rightarrow> int \<times> groups" where
  "group_add name gid gs =
     (case group_by_gid gid gs of
        Some _ \<Rightarrow> (-1, gs)
      | None \<Rightarrow>
          (case find_idx (\<lambda>g. \<not> g_active g) gs of
             None \<Rightarrow> (-2, gs)
           | Some i \<Rightarrow> (0, gs[i := (gs ! i)\<lparr>g_gid := gid, groupname := take 31 name, member_count := 0, g_active := True\<rparr>])))"

definition group_remove :: "u32 \<Rightarrow> groups \<Rightarrow> int \<times> groups" where
  "group_remove gid gs =
     (if gid = 0 then (-1, gs)
      else case group_by_gid gid gs of None \<Rightarrow> (-1, gs) | Some i \<Rightarrow> (0, gs[i := zero_group]))"

definition group_get_by_gid :: "u32 \<Rightarrow> groups \<Rightarrow> group option" where
  "group_get_by_gid gid gs = map_option (nth gs) (group_by_gid gid gs)"

definition group_get_by_name :: "string \<Rightarrow> groups \<Rightarrow> group option" where
  "group_get_by_name name gs = map_option (nth gs) (find_idx (\<lambda>g. g_active g \<and> groupname g = name) gs)"

definition member_idx :: "u32 \<Rightarrow> group \<Rightarrow> nat option" where
  "member_idx uid g = find_idx (\<lambda>m. m = uid) (take (member_count g) (members g))"

definition group_add_member :: "u32 \<Rightarrow> u32 \<Rightarrow> groups \<Rightarrow> int \<times> groups" where
  "group_add_member gid uid gs =
     (case group_by_gid gid gs of
        None \<Rightarrow> (-1, gs)
      | Some k \<Rightarrow>
          let g = gs ! k in
          if member_idx uid g \<noteq> None then (0, gs)
          else if member_count g \<ge> MAX_USERS then (-2, gs)
          else (0, gs[k := g\<lparr>members := (members g)[member_count g := uid], member_count := member_count g + 1\<rparr>]))"

definition group_remove_member :: "u32 \<Rightarrow> u32 \<Rightarrow> groups \<Rightarrow> int \<times> groups" where
  "group_remove_member gid uid gs =
     (case group_by_gid gid gs of
        None \<Rightarrow> (-1, gs)
      | Some k \<Rightarrow>
          let g = gs ! k in
          (case member_idx uid g of
             None \<Rightarrow> (-1, gs)
           | Some i \<Rightarrow> (0, gs[k := g\<lparr>members := shift_down i (member_count g - 1) (members g),
                                    member_count := member_count g - 1\<rparr>])))"

definition group_is_member :: "u32 \<Rightarrow> u32 \<Rightarrow> groups \<Rightarrow> bool" where
  "group_is_member gid uid gs =
     (case group_by_gid gid gs of None \<Rightarrow> False | Some k \<Rightarrow> member_idx uid (gs ! k) \<noteq> None)"

section \<open>Address randomisation\<close>

record aslr =
  as_enabled :: bool
  stack_entropy_bits :: nat
  mmap_entropy_bits :: nat
  heap_entropy_bits :: nat
  aslr_seed :: u32

definition aslr_start :: aslr where
  "aslr_start = \<lparr>as_enabled = True, stack_entropy_bits = 8, mmap_entropy_bits = 8, heap_entropy_bits = 5,
                 aslr_seed = 0x12345678\<rparr>"

definition aslr_random :: "aslr \<Rightarrow> u32 \<times> aslr" where
  "aslr_random a = (let s = aslr_seed a * 1103515245 + 12345 in (s, a\<lparr>aslr_seed := s\<rparr>))"

definition aslr_init :: "u32 \<Rightarrow> u32 \<Rightarrow> aslr \<Rightarrow> aslr" where "aslr_init lo hi a = a\<lparr>aslr_seed := lo XOR hi\<rparr>"
definition aslr_enable :: "aslr \<Rightarrow> int \<times> aslr" where "aslr_enable a = (0, a\<lparr>as_enabled := True\<rparr>)"
definition aslr_disable :: "aslr \<Rightarrow> int \<times> aslr" where "aslr_disable a = (0, a\<lparr>as_enabled := False\<rparr>)"

definition aslr_offset :: "nat \<Rightarrow> aslr \<Rightarrow> u32 \<times> aslr" where
  "aslr_offset bits a = (case aslr_random a of (r, a') \<Rightarrow> (push_bit 12 (r AND (push_bit bits 1 - 1)), a'))"

definition aslr_randomize_stack :: "u32 \<Rightarrow> aslr \<Rightarrow> u32 \<times> aslr" where
  "aslr_randomize_stack base a =
     (if \<not> as_enabled a then (base, a)
      else case aslr_offset (stack_entropy_bits a) a of (off, a') \<Rightarrow> (base - off, a'))"

definition aslr_randomize_mmap :: "u32 \<Rightarrow> aslr \<Rightarrow> u32 \<times> aslr" where
  "aslr_randomize_mmap base a =
     (if \<not> as_enabled a then (base, a)
      else case aslr_offset (mmap_entropy_bits a) a of (off, a') \<Rightarrow> (base + off, a'))"

definition aslr_randomize_heap :: "u32 \<Rightarrow> aslr \<Rightarrow> u32 \<times> aslr" where
  "aslr_randomize_heap base a =
     (if \<not> as_enabled a then (base, a)
      else case aslr_offset (heap_entropy_bits a) a of (off, a') \<Rightarrow> (base + off, a'))"

section \<open>Boot\<close>

text \<open>The tables \<open>security_init\<close> leaves behind.\<close>

definition security_init :: "(users \<times> groups) option" where
  "security_init =
     (let us0 = replicate MAX_USERS zero_user;
          gs0 = replicate MAX_USERS zero_group;
          gs1 = snd (group_add ''root'' 0 gs0)
      in case user_add ''root'' ''root'' 0 0 us0 of
           None \<Rightarrow> None
         | Some (_, us1) \<Rightarrow>
             Some (us1, snd (group_add ''users'' 100 (snd (group_add ''wheel'' 10 (snd (group_add_member 0 0 gs1)))))))"

end
