(* ===== verification/Security_Props.thy ===== *)
theory Security_Props
  imports Security
begin

text \<open>
  What the access control of the kernel guarantees: capabilities never grow without a grant or an
  inheritance, the filter tables implement an ordered rule list with a default, the user database
  keeps user ids unique and authenticates who was added, and randomised addresses stay in their window.
\<close>

section \<open>Capabilities\<close>

definition capsub :: "u64 \<Rightarrow> u64 \<Rightarrow> bool" where "capsub a b \<longleftrightarrow> a AND b = a"

lemma capsub_bit: "capsub a b \<longleftrightarrow> (\<forall>i. bit a i \<longrightarrow> bit b i)"
proof
  show "\<forall>i. bit a i \<longrightarrow> bit b i" if "capsub a b"
    using that unfolding capsub_def by (metis bit_and_iff)
  show "capsub a b" if "\<forall>i. bit a i \<longrightarrow> bit b i"
    unfolding capsub_def using that by (intro bit_word_eqI) (auto simp: bit_and_iff)
qed

lemma capsub_refl [simp]: "capsub a a" and capsub_0 [simp]: "capsub 0 a"
  by (simp_all add: capsub_def)

lemma capsub_trans: "capsub a b \<Longrightarrow> capsub b c \<Longrightarrow> capsub a c"
  by (simp add: capsub_bit)

lemma capsub_and [simp]: "capsub (a AND b) b" "capsub (a AND b) a" "capsub b (a OR b)"
  "capsub a c \<Longrightarrow> capsub (a OR b) (c OR b)" "capsub a c \<Longrightarrow> capsub (a AND b) (c AND b)"
  by (simp_all add: capsub_bit bit_simps)

definition caps_ok :: "cap_table \<Rightarrow> bool" where
  "caps_ok t \<longleftrightarrow> length t = MAX_PROCESSES \<and>
     (\<forall>p \<in> set t. capsub (effective p) (permitted p) \<and> inheritable p \<in> {0, CAP_ALL})"

lemma caps_ok_nth: "caps_ok t \<Longrightarrow> i < MAX_PROCESSES \<Longrightarrow>
    capsub (effective (t ! i)) (permitted (t ! i)) \<and> inheritable (t ! i) \<in> {0, CAP_ALL}"
  by (simp add: caps_ok_def)

lemma caps_ok_update:
  "caps_ok t \<Longrightarrow> capsub (effective p) (permitted p) \<Longrightarrow> inheritable p \<in> {0, CAP_ALL} \<Longrightarrow> caps_ok (t[i := p])"
  unfolding caps_ok_def using set_update_subset_insert [of t i p] by (auto simp del: singleton_conv2)

lemma caps_ok_init: "caps_ok capabilities_init"
  unfolding capabilities_init_def
  by (intro caps_ok_update) (simp_all add: caps_ok_def no_caps_def all_caps_def)

lemma pid_index: "\<not> (256 :: u32) \<le> pid \<Longrightarrow> unat pid < 256"
  by (simp add: word_le_nat_alt)

lemma caps_ok_step: "caps_ok t \<Longrightarrow> caps_ok (cap_step q t)"
proof -
  assume ok: "caps_ok t"
  note n = caps_ok_nth [OF ok pid_index]
  show "caps_ok (cap_step q t)"
  proof (cases q)
    case (Cap_set p c)
    then show ?thesis using ok n [of p] by (auto simp: capability_set_def intro: caps_ok_update)
  next
    case (Cap_drop p c)
    then show ?thesis using ok n [of p] by (auto simp: capability_drop_def Let_def intro: caps_ok_update)
  next
    case (Cap_grant p c)
    then show ?thesis using ok n [of p] by (auto simp: capability_grant_def Let_def intro: caps_ok_update)
  next
    case (Cap_inherit a p)
    then show ?thesis using ok n [of a] by (auto simp: capability_inherit_def Let_def intro: caps_ok_update)
  next
    case (Cap_clear p)
    then show ?thesis using ok by (auto simp: capability_clear_def no_caps_def intro: caps_ok_update)
  qed
qed

lemma caps_ok_fold: "caps_ok t \<Longrightarrow> caps_ok (fold cap_step ops t)"
  by (induction ops arbitrary: t) (simp_all add: caps_ok_step)

text \<open>The two operations that can add to what process \<open>pid\<close> may use.\<close>

fun raises :: "u32 \<Rightarrow> cap_op \<Rightarrow> bool" where
  "raises pid (Cap_grant p c) = (p = pid)"
| "raises pid (Cap_inherit a p) = (p = pid)"
| "raises pid q = False"

lemma permitted_step:
  assumes "caps_ok t" and "\<not> 256 \<le> pid" and "\<not> raises pid q"
  shows "capsub (permitted (cap_step q t ! unat pid)) (permitted (t ! unat pid))"
proof -
  have l: "unat p < length t" if "\<not> 256 \<le> p" for p :: u32
    using assms(1) pid_index [OF that] by (simp add: caps_ok_def)
  have "unat p = unat pid \<longleftrightarrow> p = pid" for p by (metis word_unat_eq_iff)
  then show ?thesis
    using assms
    by (cases q) (auto simp: l capability_set_def capability_drop_def capability_grant_def capability_inherit_def
        capability_clear_def no_caps_def Let_def nth_list_update split: if_splits)
qed

lemma permitted_fold:
  "caps_ok t \<Longrightarrow> \<not> 256 \<le> pid \<Longrightarrow> \<forall>q \<in> set ops. \<not> raises pid q \<Longrightarrow>
     capsub (permitted (fold cap_step ops t ! unat pid)) (permitted (t ! unat pid))"
proof (induction ops arbitrary: t)
  case (Cons q ops)
  then have "capsub (permitted (fold cap_step ops (cap_step q t) ! unat pid)) (permitted (cap_step q t ! unat pid))"
    by (simp add: caps_ok_step)
  then show ?case using permitted_step [of t pid q] Cons.prems by (auto intro: capsub_trans)
qed simp

lemma has_permitted:
  assumes "caps_ok t" and "capability_has pid c t"
  shows "capsub c (permitted (t ! unat pid))"
proof -
  have p: "\<not> 256 \<le> pid" and e: "effective (t ! unat pid) AND c = c"
    using assms(2) by (auto simp: capability_has_def split: if_splits)
  have "capsub c (effective (t ! unat pid))" using e by (simp add: capsub_def and.commute)
  then show ?thesis using caps_ok_nth [OF assms(1) pid_index [OF p]] by (blast intro: capsub_trans)
qed

text \<open>
  C16. Confinement: let \<open>t\<close> be any table reached from boot and \<open>ops\<close> any further operations that
  neither grant to process \<open>pid\<close> nor let it inherit. Then every capability \<open>pid\<close> has at the end was
  permitted to it in \<open>t\<close>; and if \<open>pid\<close> first drops \<open>c\<close>, it has no capability overlapping \<open>c\<close> at the end.
\<close>

theorem cap_confinement:
  assumes "t = fold cap_step before capabilities_init" and "pid < 256"
    and "\<forall>q \<in> set ops. \<not> raises pid q"
  shows "(\<forall>d. capability_has pid d (fold cap_step ops t) \<longrightarrow> d AND permitted (t ! unat pid) = d) \<and>
    (\<forall>d. d AND c \<noteq> 0 \<longrightarrow> \<not> capability_has pid d (fold cap_step ops (snd (capability_drop pid c t))))"
proof (intro conjI allI impI notI)
  have ok: "caps_ok t" using assms(1) caps_ok_fold [OF caps_ok_init] by simp
  have p: "\<not> 256 \<le> pid" using assms(2) by simp
  fix d
  show "d AND permitted (t ! unat pid) = d" if "capability_has pid d (fold cap_step ops t)"
    using capsub_trans [OF has_permitted [OF caps_ok_fold [OF ok] that] permitted_fold [OF ok p assms(3)]]
    by (simp add: capsub_def)
  assume dc: "d AND c \<noteq> 0"
    and h: "capability_has pid d (fold cap_step ops (snd (capability_drop pid c t)))"
  let ?u = "cap_step (Cap_drop pid c) t"
  have u: "caps_ok ?u" using ok by (rule caps_ok_step)
  have "capsub d (permitted (?u ! unat pid))"
    using capsub_trans [OF has_permitted [OF caps_ok_fold [OF u]] permitted_fold [OF u p assms(3)]] h by simp
  moreover have "permitted (?u ! unat pid) = permitted (t ! unat pid) AND NOT c"
    using p ok pid_index [OF p] by (simp add: capability_drop_def Let_def caps_ok_def)
  ultimately have "\<not> (bit d i \<and> bit c i)" for i by (auto simp: capsub_bit bit_simps)
  then have "d AND c = 0" by (auto simp: bit_eq_iff bit_simps)
  then show False using dc by simp
qed

text \<open>
  A drop leaves the inheritable set alone: process 1 drops everything, and the child that inherits
  from it holds every capability.
\<close>

lemma dropped_caps_inherited:
  "capability_has 2 CAP_ALL (capability_inherit 1 2 (snd (capability_drop 1 CAP_ALL capabilities_init)))"
proof -
  have "\<not> (256 :: u32) \<le> 1" "\<not> (256 :: u32) \<le> 2" by (simp_all add: word_le_nat_alt)
  then show ?thesis
    by (simp add: capability_has_def capability_inherit_def capability_drop_def capabilities_init_def all_caps_def Let_def)
qed

section \<open>System call filters\<close>

text \<open>The abstract filter: a mode and a list of rules; the first rule for a call decides.\<close>

type_synonym sec_policy = "int \<times> (u32 \<times> int) list"

definition rules_of :: "seccomp_filter \<Rightarrow> (u32 \<times> int) list" where
  "rules_of f = map (\<lambda>r. (syscall_nr r, rule_action r)) (take (rule_count f) (sf_rules f))"

definition sec_view :: "u32 \<Rightarrow> seccomp \<Rightarrow> sec_policy" where
  "sec_view pid t = (let f = t ! unat pid in
     (sf_mode f, rules_of f))"

definition decide :: "sec_policy \<Rightarrow> u32 \<Rightarrow> int" where
  "decide p nr = (if fst p = SECCOMP_MODE_DISABLED then SECCOMP_RET_ALLOW
     else case map_of (snd p) nr of
       Some a \<Rightarrow> a | None \<Rightarrow> if fst p = SECCOMP_MODE_STRICT then SECCOMP_RET_KILL else SECCOMP_RET_ALLOW)"

definition filter_ok :: "seccomp_filter \<Rightarrow> bool" where
  "filter_ok f \<longleftrightarrow> length (sf_rules f) = MAX_SECCOMP_RULES \<and> rule_count f \<le> MAX_SECCOMP_RULES"

definition sec_ok :: "seccomp \<Rightarrow> bool" where
  "sec_ok t \<longleftrightarrow> length t = MAX_PROCESSES \<and> (\<forall>f \<in> set t. filter_ok f)"

lemma sec_ok_nth: "sec_ok t \<Longrightarrow> \<not> (256 :: u32) \<le> pid \<Longrightarrow> filter_ok (t ! unat pid) \<and> unat pid < length t"
  using pid_index [of pid] by (simp add: sec_ok_def)

lemma sec_ok_update: "sec_ok t \<Longrightarrow> filter_ok f \<Longrightarrow> sec_ok (t[i := f])"
  unfolding sec_ok_def using set_update_subset_insert [of t i f] by auto

lemma filter_ok_put: "filter_ok f \<Longrightarrow> rule_count f < MAX_SECCOMP_RULES \<Longrightarrow> filter_ok (put_rule nr a f)"
  by (simp add: filter_ok_def put_rule_def)

lemma put_rule_rules:
  "filter_ok f \<Longrightarrow> rule_count f < MAX_SECCOMP_RULES \<Longrightarrow> rules_of (put_rule nr a f) = rules_of f @ [(nr, a)]"
  by (simp add: put_rule_def filter_ok_def rules_of_def take_Suc_conv_app_nth)

lemma put_rule_sel [simp]: "rule_count (put_rule nr a f) = Suc (rule_count f)" "sf_mode (put_rule nr a f) = sf_mode f"
  by (simp_all add: put_rule_def)

lemma length_rules_of: "filter_ok f \<Longrightarrow> length (rules_of f) = rule_count f"
  by (simp add: rules_of_def filter_ok_def)

lemma rules_of_reset [simp]: "rules_of (f\<lparr>sf_mode := m, rule_count := 0\<rparr>) = []"
  "rules_of (f\<lparr>sf_mode := m\<rparr>) = rules_of f"
  by (simp_all add: rules_of_def)

lemma find_idx_map_of:
  "(case find_idx (\<lambda>i. g (xs ! i) = k) [0 ..< n] of Some i \<Rightarrow> Some (h (xs ! i)) | None \<Rightarrow> None) =
     map_of (map (\<lambda>r. (g r, h r)) (take n xs)) k" if "n \<le> length xs"
  using that
proof (induction n)
  case (Suc n)
  have "map_of (map (\<lambda>r. (g r, h r)) (take (Suc n) xs)) k =
      (case map_of (map (\<lambda>r. (g r, h r)) (take n xs)) k of
         Some a \<Rightarrow> Some a | None \<Rightarrow> if g (xs ! n) = k then Some (h (xs ! n)) else None)"
    using Suc.prems by (auto simp: take_Suc_conv_app_nth map_add_def split: option.splits)
  then show ?case
    using Suc by (cases "find_idx (\<lambda>i. g (xs ! i) = k) [0 ..< n]") (auto simp add: find_idx_snoc simp del: find_idx_None split: option.split)
qed simp

lemma check_decide:
  assumes "sec_ok t" and "\<not> 256 \<le> pid"
  shows "seccomp_check pid nr t = decide (sec_view pid t) nr"
proof -
  let ?f = "t ! unat pid"
  have "rule_count ?f \<le> length (sf_rules ?f)" using sec_ok_nth [OF assms] by (simp add: filter_ok_def)
  note m = find_idx_map_of [OF this, where g = syscall_nr and k = nr and h = rule_action, folded rules_of_def]
  show ?thesis
  proof (cases "find_idx (\<lambda>i. syscall_nr (sf_rules ?f ! i) = nr) [0 ..< rule_count ?f]")
    case None
    with m have "map_of (rules_of ?f) nr = None" by (simp only: option.case)
    with None show ?thesis
      using assms(2) unfolding seccomp_check_def decide_def sec_view_def Let_def by (simp del: find_idx_None)
  next
    case (Some i)
    with m have "map_of (rules_of ?f) nr = Some (rule_action (sf_rules ?f ! i))" by (simp only: option.case)
    with Some show ?thesis
      using assms(2) unfolding seccomp_check_def decide_def sec_view_def Let_def by (simp del: find_idx_None)
  qed
qed

lemma strict_rules:
  assumes "filter_ok f"
  shows "rules_of (put_rule 119 SECCOMP_RET_ALLOW (put_rule 0 SECCOMP_RET_ALLOW (put_rule 2 SECCOMP_RET_ALLOW
    (put_rule 1 SECCOMP_RET_ALLOW (f\<lparr>sf_mode := SECCOMP_MODE_STRICT, rule_count := 0\<rparr>))))) =
      [(1, SECCOMP_RET_ALLOW), (2, SECCOMP_RET_ALLOW), (0, SECCOMP_RET_ALLOW), (119, SECCOMP_RET_ALLOW)]"
proof -
  have "filter_ok (f\<lparr>sf_mode := SECCOMP_MODE_STRICT, rule_count := 0\<rparr>)" using assms by (simp add: filter_ok_def)
  then show ?thesis by (simp add: filter_ok_put put_rule_rules)
qed

lemma seccomp_outcome:
  assumes ok: "sec_ok t" and pid: "pid < 256"
  shows "seccomp_check pid nr t = decide (sec_view pid t) nr"
    and "sec_view pid (snd (seccomp_set_mode pid SECCOMP_MODE_STRICT t)) =
      (SECCOMP_MODE_STRICT, map (\<lambda>c. (c, SECCOMP_RET_ALLOW)) [1, 2, 0, 119])"
    and "sec_view pid (snd (seccomp_set_mode pid SECCOMP_MODE_FILTER t)) = (SECCOMP_MODE_FILTER, snd (sec_view pid t))"
    and "sec_view pid (snd (seccomp_set_mode pid SECCOMP_MODE_DISABLED t)) = (SECCOMP_MODE_DISABLED, [])"
proof -
  have p: "\<not> 256 \<le> pid" using pid by simp
  note f = sec_ok_nth [OF ok p]
  show "seccomp_check pid nr t = decide (sec_view pid t) nr" using ok p by (rule check_decide)
  show "sec_view pid (snd (seccomp_set_mode pid SECCOMP_MODE_STRICT t)) =
      (SECCOMP_MODE_STRICT, map (\<lambda>c. (c, SECCOMP_RET_ALLOW)) [1, 2, 0, 119])"
    using p f strict_rules [of "t ! unat pid"]
    by (simp add: seccomp_set_mode_def sec_view_def Let_def)
  show "sec_view pid (snd (seccomp_set_mode pid SECCOMP_MODE_FILTER t)) = (SECCOMP_MODE_FILTER, snd (sec_view pid t))"
    "sec_view pid (snd (seccomp_set_mode pid SECCOMP_MODE_DISABLED t)) = (SECCOMP_MODE_DISABLED, [])"
    using p f by (simp_all add: seccomp_set_mode_def sec_view_def Let_def)
qed

lemma seccomp_add_outcome:
  assumes ok: "sec_ok t" and pid: "pid < 256"
  shows "if fst (sec_view pid t) \<noteq> SECCOMP_MODE_FILTER then seccomp_add_rule pid c a t = (-1, t)
     else if length (snd (sec_view pid t)) = MAX_SECCOMP_RULES then seccomp_add_rule pid c a t = (-2, t)
     else fst (seccomp_add_rule pid c a t) = 0 \<and>
       sec_view pid (snd (seccomp_add_rule pid c a t)) = (SECCOMP_MODE_FILTER, snd (sec_view pid t) @ [(c, a)])"
proof -
  have p: "\<not> 256 \<le> pid" using pid by simp
  note f = sec_ok_nth [OF ok p]
  then have "rule_count (t ! unat pid) \<le> MAX_SECCOMP_RULES" by (simp add: filter_ok_def)
  then show ?thesis
    using p f by (simp add: seccomp_add_rule_def sec_view_def Let_def length_rules_of put_rule_rules)
qed

lemma seccomp_frame:
  assumes ok: "sec_ok t" and q: "q \<noteq> pid"
  shows "sec_view q (snd (seccomp_set_mode pid m t)) = sec_view q t"
    and "sec_view q (snd (seccomp_add_rule pid c a t)) = sec_view q t"
proof -
  have "unat pid \<noteq> unat q" using q by (metis word_unat_eq_iff)
  then show "sec_view q (snd (seccomp_set_mode pid m t)) = sec_view q t"
    "sec_view q (snd (seccomp_add_rule pid c a t)) = sec_view q t"
    by (simp_all add: sec_view_def seccomp_set_mode_def seccomp_add_rule_def Let_def)
qed

lemma seccomp_ok:
  assumes ok: "sec_ok t"
  shows "sec_ok (snd (seccomp_set_mode pid m t))" and "sec_ok (snd (seccomp_add_rule pid c a t))"
proof -
  have f: "filter_ok (t ! unat pid)" if "\<not> 256 \<le> pid" using sec_ok_nth [OF ok that] by simp
  have z: "filter_ok ((t ! unat pid)\<lparr>sf_mode := k, rule_count := 0\<rparr>)" "filter_ok ((t ! unat pid)\<lparr>sf_mode := k\<rparr>)"
    if "\<not> 256 \<le> pid" for k using f [OF that] by (simp_all add: filter_ok_def)
  show "sec_ok (snd (seccomp_set_mode pid m t))"
    using ok z by (auto simp: seccomp_set_mode_def Let_def intro!: sec_ok_update filter_ok_put)
  show "sec_ok (snd (seccomp_add_rule pid c a t))"
    using ok f by (auto simp: seccomp_add_rule_def Let_def intro!: sec_ok_update filter_ok_put)
qed

text \<open>
  The filters implement ordered rule lists: a check gives the action of the first rule for the
  call, else kill in strict mode and allow otherwise; strict mode is exactly the four calls read,
  write, exit and sigreturn; a rule is appended in filter mode while there is room and refused with
  the code's errors otherwise; a change of one process's filter leaves all others alone.
\<close>

theorem seccomp_refines:
  assumes "sec_ok t" and "pid < 256"
  shows "seccomp_check pid nr t = decide (sec_view pid t) nr \<and>
    sec_view pid (snd (seccomp_set_mode pid SECCOMP_MODE_STRICT t)) =
      (SECCOMP_MODE_STRICT, map (\<lambda>c. (c, SECCOMP_RET_ALLOW)) [1, 2, 0, 119]) \<and>
    sec_view pid (snd (seccomp_set_mode pid SECCOMP_MODE_FILTER t)) = (SECCOMP_MODE_FILTER, snd (sec_view pid t)) \<and>
    sec_view pid (snd (seccomp_set_mode pid SECCOMP_MODE_DISABLED t)) = (SECCOMP_MODE_DISABLED, []) \<and>
    (if fst (sec_view pid t) \<noteq> SECCOMP_MODE_FILTER then seccomp_add_rule pid c a t = (-1, t)
     else if length (snd (sec_view pid t)) = MAX_SECCOMP_RULES then seccomp_add_rule pid c a t = (-2, t)
     else fst (seccomp_add_rule pid c a t) = 0 \<and>
       sec_view pid (snd (seccomp_add_rule pid c a t)) = (SECCOMP_MODE_FILTER, snd (sec_view pid t) @ [(c, a)])) \<and>
    (\<forall>q. q \<noteq> pid \<longrightarrow> q < 256 \<longrightarrow>
       (\<forall>m. sec_view q (snd (seccomp_set_mode pid m t)) = sec_view q t) \<and>
       sec_view q (snd (seccomp_add_rule pid c a t)) = sec_view q t) \<and>
    sec_ok (snd (seccomp_add_rule pid c a t)) \<and> (\<forall>m. sec_ok (snd (seccomp_set_mode pid m t)))"
  using seccomp_outcome [OF assms] seccomp_add_outcome [OF assms, where c = c and a = a]
    seccomp_frame [OF assms(1), where pid = pid]
    seccomp_ok [OF assms(1)]
  by (intro conjI) blast+

text \<open>Strict mode is no lock: the process may switch to filter mode, in which everything is allowed by default.\<close>

lemma strict_mode_left:
  "seccomp_check 5 60 (snd (seccomp_set_mode 5 SECCOMP_MODE_FILTER (snd (seccomp_set_mode 5 SECCOMP_MODE_STRICT seccomp_init)))) =
     SECCOMP_RET_ALLOW"
  by (simp add: seccomp_check_def seccomp_set_mode_def put_rule_def seccomp_init_def no_filter_def Let_def word_le_nat_alt upt_rec)

section \<open>Users\<close>

definition users_ok :: "users \<Rightarrow> bool" where
  "users_ok us \<longleftrightarrow> (\<forall>i < length us. \<forall>j < length us.
     u_active (us ! i) \<longrightarrow> u_active (us ! j) \<longrightarrow> u_uid (us ! i) = u_uid (us ! j) \<longrightarrow> i = j)"

definition name_free :: "string \<Rightarrow> users \<Rightarrow> bool" where
  "name_free name us \<longleftrightarrow> (\<forall>u \<in> set us. u_active u \<longrightarrow> username u \<noteq> name)"

lemma by_name_hit:
  assumes "name_free name us" and "i < length us" and "u_active u" and "username u = name"
  shows "user_get_by_name name (us[i := u]) = Some u"
proof -
  have "find_idx (\<lambda>u. u_active u \<and> username u = name) (us[i := u]) = Some i"
    using assms by (intro find_idx_unique) (auto simp: name_free_def nth_list_update split: if_splits)
  then show ?thesis using assms(2) by (simp add: user_get_by_name_def)
qed

lemma by_name_miss:
  assumes "\<not> (u_active (us ! i) \<and> username (us ! i) = n)" and "\<not> (u_active u \<and> username u = n)" and "i < length us"
  shows "user_get_by_name n (us[i := u]) = user_get_by_name n us"
proof -
  note m = find_idx_update_miss [where P = "\<lambda>u. u_active u \<and> username u = n", OF assms(1,2)]
  have "us[i := u] ! k = us ! k" if "find_idx (\<lambda>u. u_active u \<and> username u = n) us = Some k" for k
    using find_idx_SomeD [OF that] assms(1,3) by (auto simp: nth_list_update)
  then show ?thesis
    unfolding user_get_by_name_def m
    by (cases "find_idx (\<lambda>u. u_active u \<and> username u = n) us") (simp_all del: find_idx_None)
qed

lemma user_addD:
  assumes "user_add name pw uid gid us = Some (0, us')"
  obtains i u where "i < length us" and "\<not> u_active (us ! i)" and "us' = us[i := u]" and "u_active u"
    and "u_uid u = uid" and "username u = take 31 name" and "password_hash u = simple_hash pw"
    and "\<forall>v \<in> set us. u_active v \<longrightarrow> u_uid v \<noteq> uid"
proof -
  have n: "user_by_uid uid us = None"
    using assms by (auto simp: user_add_def split: option.splits)
  then obtain i where i: "find_idx (\<lambda>u. \<not> u_active u) us = Some i"
    using assms unfolding user_add_def by (cases "find_idx (\<lambda>u. \<not> u_active u) us") (auto simp del: find_idx_None)
  show ?thesis
    using assms n i find_idx_SomeD [OF i] unfolding user_add_def user_by_uid_def
    by (intro that [of i "us' ! i"]) (auto split: if_splits)
qed

lemma by_name_free: "name_free name us \<Longrightarrow> user_get_by_name name us = None"
proof -
  assume "name_free name us"
  then have "find_idx (\<lambda>u. u_active u \<and> username u = name) us = None" by (simp add: name_free_def)
  then show ?thesis unfolding user_get_by_name_def by (simp only: option.map)
qed

text \<open>
  Adding a user with a new name (at most 31 characters) and then authenticating returns the
  user's id for the password and -1 for every password with another hash; the user ids stay unique,
  nobody else's authentication changes, and after removing the user no password is accepted.
\<close>

theorem user_roundtrip:
  assumes "users_ok us" and "user_add name pw uid gid us = Some (0, us')"
    and "length name \<le> 31" and "name_free name us" and "uid < 0x80000000"
  shows "users_ok us' \<and> user_authenticate name pw us' = uint uid \<and>
    (\<forall>pw'. simple_hash pw' \<noteq> simple_hash pw \<longrightarrow> user_authenticate name pw' us' = -1) \<and>
    (\<forall>n p. n \<noteq> name \<longrightarrow> user_authenticate n p us' = user_authenticate n p us) \<and>
    (uid \<noteq> 0 \<longrightarrow> fst (user_remove uid us') = 0 \<and> (\<forall>p. user_authenticate name p (snd (user_remove uid us')) = -1))"
proof -
  obtain i u where i: "i < length us" "\<not> u_active (us ! i)" and us': "us' = us[i := u]"
    and u: "u_active u" "u_uid u = uid" "username u = name" "password_hash u = simple_hash pw"
    and new: "\<forall>v \<in> set us. u_active v \<longrightarrow> u_uid v \<noteq> uid"
    using user_addD [OF assms(2)] assms(3) by (metis take_all)
  have ok: "users_ok us'"
    using assms(1) i(1) u new by (auto simp: users_ok_def us' nth_list_update)
  have hit: "user_get_by_name name us' = Some u"
    unfolding us' using assms(4) i(1) u(1,3) by (rule by_name_hit)
  have miss: "user_get_by_name n us' = user_get_by_name n us" if "n \<noteq> name" for n
    unfolding us' using i u that by (intro by_name_miss) auto
  have idx: "user_by_uid uid us' = Some i"
    unfolding user_by_uid_def us' using i u new
    by (intro find_idx_unique) (auto simp: nth_list_update split: if_splits)
  have "name_free name (us[i := zero_user])"
    using assms(4) set_update_subset_insert [of us i zero_user] by (auto simp: name_free_def zero_user_def)
  then have gone: "user_get_by_name name (us'[i := zero_user]) = None"
    unfolding us' list_update_overwrite by (rule by_name_free)
  show ?thesis
    using ok hit miss gone u sint_small [OF assms(5)] by (simp add: user_authenticate_def user_remove_def idx)
qed

text \<open>The hash has 32 bits: two different passwords of two characters already collide.\<close>

lemma hash_collision: "simple_hash ''bA'' = simple_hash ''ab''"
  by (simp add: simple_hash_def hash_word_def signed_char_def)

text \<open>A name of 58 characters makes \<open>user_add\<close> write past \<open>home_dir\<close>.\<close>

lemma user_add_overflow:
  "user_add (replicate 58 CHR ''a'') pw 1 1 (replicate 64 zero_user) = None"
  by (simp add: user_add_def user_by_uid_def zero_user_def)

section \<open>Groups\<close>

text \<open>Membership after adding and removing.\<close>

lemma group_add_remove_member:
  assumes "group_by_gid gid gs = Some k" and "k < length gs"
    and "member_idx uid (gs ! k) = None" and "member_count (gs ! k) < MAX_USERS"
    and "length (members (gs ! k)) = MAX_USERS"
  shows "group_is_member gid uid (snd (group_add_member gid uid gs))"
proof -
  let ?g = "gs ! k" and ?g' = "(gs ! k)\<lparr>members := (members (gs ! k))[member_count (gs ! k) := uid], member_count := member_count (gs ! k) + 1\<rparr>"
  have P: "g_active ?g \<and> g_gid ?g = gid" "\<forall>j < k. \<not> (g_active (gs ! j) \<and> g_gid (gs ! j) = gid)"
    using assms(1) unfolding group_by_gid_def by (simp_all add: find_idx_Some)
  have "group_by_gid gid (gs[k := ?g']) = Some k"
    using P assms(2) unfolding group_by_gid_def by (auto simp: find_idx_Some)
  moreover have "uid \<in> set (take (member_count ?g') (members ?g'))"
    using assms(4,5) by (simp add: take_Suc_conv_app_nth)
  ultimately show ?thesis
    using assms by (auto simp: group_is_member_def group_add_member_def member_idx_def Let_def simp del: One_nat_def)
qed

section \<open>Address randomisation\<close>

text \<open>A randomised stack lies at most 255 pages below its base, on the same page offset.\<close>

lemma aslr_offset_bound:
  assumes "aslr_offset bits a = (off, a')" and "bits \<le> 8"
  shows "unat off \<le> (2 ^ bits - 1) * 4096" and "4096 dvd unat off"
proof -
  let ?r = "aslr_seed a * 1103515245 + 12345 :: u32"
  have m: "(push_bit bits 1 - 1 :: u32) = mask bits" by (simp add: mask_eq_exp_minus_1 push_bit_eq_mult)
  have off: "off = push_bit 12 (take_bit bits ?r)"
    using assms(1) unfolding aslr_offset_def aslr_random_def Let_def case_prod_conv m take_bit_eq_mask by simp
  have lt: "unat (take_bit bits ?r) < 2 ^ bits" by (simp add: unsigned_take_bit_eq)
  have "(2::nat) ^ bits \<le> 2 ^ 8" using assms(2) by (intro power_increasing) auto
  then have "unat (take_bit bits ?r) * 4096 < 2 ^ 32" using lt by simp
  then have "unat off = unat (take_bit bits ?r) * 4096"
    unfolding off push_bit_eq_mult by (simp add: unat_word_ariths)
  then show "unat off \<le> (2 ^ bits - 1) * 4096" "4096 dvd unat off" using lt by auto
qed

section \<open>Witnesses\<close>

theorem cap_confinement_witness:
  "\<not> capability_has 7 (4 AND 12) (fold cap_step [Cap_grant 8 12, Cap_set 7 15]
      (snd (capability_drop 7 4 (fold cap_step [Cap_inherit 1 7] capabilities_init))))"
proof -
  have "\<forall>q \<in> set [Cap_grant 8 12, Cap_set 7 15]. \<not> raises 7 q" by simp
  from cap_confinement [OF refl _ this, of "[Cap_inherit 1 7]" 4] show ?thesis by simp
qed

theorem seccomp_refines_witness:
  "seccomp_check 5 1 seccomp_init = decide (sec_view 5 seccomp_init) 1 \<and> sec_ok seccomp_init"
proof -
  have ok: "sec_ok seccomp_init" by (simp add: sec_ok_def seccomp_init_def no_filter_def filter_ok_def)
  show ?thesis using seccomp_refines [OF ok, of 5 1] ok by simp
qed

theorem user_roundtrip_witness:
  "\<exists>us'. user_add ''ann'' ''pw'' 7 7 (replicate 64 zero_user) = Some (0, us') \<and> user_authenticate ''ann'' ''pw'' us' = 7"
proof -
  have ok: "users_ok (replicate 64 zero_user)" "name_free ''ann'' (replicate 64 zero_user)"
    by (simp_all add: users_ok_def name_free_def zero_user_def)
  obtain us' where a: "user_add ''ann'' ''pw'' 7 7 (replicate 64 zero_user) = Some (0, us')"
    by (simp add: user_add_def user_by_uid_def zero_user_def)
  show ?thesis using user_roundtrip [OF ok(1) a _ ok(2)] a by auto
qed

end
