(* ===== verification/Fs.thy ===== *)
theory Fs
  imports Zos_Prelude
begin

text \<open>
  The file systems in memory: \<open>kernel/fs/ramfs.c\<close> (nodes, files, directories), \<open>kernel/fs/vfs.c\<close> (the
  dispatch layer, path lookup, mounts) and \<open>kernel/fs/devfs.c\<close> (the device table).

  Nodes are addressed by numbers; \<open>nodes\<close> is the heap of nodes, \<open>None\<close> for an address that holds no
  node. The operation pointers of a node are either those of the RAM file system or null. What
  \<open>kmalloc\<close> returns and the clock (\<open>pit_get_ticks() / 100\<close>) are arguments. An operation that would
  read or write outside an allocated buffer, or follow a null array, has the result \<open>None\<close>.
\<close>

section \<open>Nodes\<close>

datatype fs_ops = Ramfs_ops | No_ops

record vnode =
  n_name :: string
  n_flags :: u32
  n_length :: u32
  n_inode :: u32
  n_ctime :: u32
  n_mtime :: u32
  n_atime :: u32
  n_ops :: fs_ops
  n_parent :: "nat option"
  n_ptr :: "nat option"
  rn_data :: "u8 list option"
  rn_children :: "nat list option"
  rn_child_capacity :: nat

text \<open>
  \<open>rn_data\<close> is the whole buffer, so its length is \<open>capacity\<close>; \<open>rn_children\<close> is the used part of the
  array of children, so its length is \<open>child_count\<close>.
\<close>

abbreviation VFS_FILE :: u32 where "VFS_FILE \<equiv> 1"
abbreviation VFS_DIRECTORY :: u32 where "VFS_DIRECTORY \<equiv> 2"
abbreviation VFS_MOUNTPOINT :: u32 where "VFS_MOUNTPOINT \<equiv> 8"

definition is_dir :: "vnode \<Rightarrow> bool" where "is_dir n \<longleftrightarrow> n_flags n AND VFS_DIRECTORY \<noteq> 0"

definition zero_node :: vnode where
  "zero_node = \<lparr>n_name = [], n_flags = 0, n_length = 0, n_inode = 0, n_ctime = 0, n_mtime = 0, n_atime = 0,
     n_ops = No_ops, n_parent = None, n_ptr = None, rn_data = None, rn_children = None, rn_child_capacity = 0\<rparr>"

definition kids :: "vnode \<Rightarrow> nat list" where
  "kids n = (case rn_children n of None \<Rightarrow> [] | Some cs \<Rightarrow> cs)"

definition capacity :: "vnode \<Rightarrow> nat" where
  "capacity n = (case rn_data n of None \<Rightarrow> 0 | Some d \<Rightarrow> length d)"

record mount_entry =
  me_path :: string
  me_point :: nat
  me_root :: nat

record fs =
  nodes :: "nat \<Rightarrow> vnode option"
  next_inode :: u32
  vfs_root :: "nat option"
  mount_table :: "mount_entry list"
  mount_count :: nat

definition node_at :: "fs \<Rightarrow> nat \<Rightarrow> vnode" where
  "node_at s a = (case nodes s a of None \<Rightarrow> zero_node | Some n \<Rightarrow> n)"

definition upd_node :: "nat \<Rightarrow> (vnode \<Rightarrow> vnode) \<Rightarrow> fs \<Rightarrow> fs" where
  "upd_node a f s = s\<lparr>nodes := (nodes s)(a := Some (f (node_at s a)))\<rparr>"

section \<open>The RAM file system\<close>

text \<open>\<open>addr\<close> is what \<open>kmalloc\<close> returns for the node, \<open>arr\<close> whether it has memory for the children.\<close>

definition ramfs_alloc_node :: "nat option \<Rightarrow> bool \<Rightarrow> u32 \<Rightarrow> string \<Rightarrow> u32 \<Rightarrow> fs \<Rightarrow> nat option \<times> fs" where
  "ramfs_alloc_node addr arr now name ty s =
     (case addr of
        None \<Rightarrow> (None, s)
      | Some a \<Rightarrow>
          (Some a, s\<lparr>next_inode := next_inode s + 1,
             nodes := (nodes s)(a := Some (zero_node\<lparr>n_name := take 63 name, n_flags := ty, n_inode := next_inode s,
               n_ctime := now, n_mtime := now, n_atime := now, n_ops := Ramfs_ops,
               rn_children := (if ty = VFS_DIRECTORY \<and> arr then Some [] else None),
               rn_child_capacity := (if ty = VFS_DIRECTORY then 8 else 0)\<rparr>))\<rparr>))"

text \<open>\<open>grow\<close> says whether \<open>kmalloc\<close> has memory for the larger array.\<close>

definition ramfs_add_child :: "bool \<Rightarrow> nat \<Rightarrow> nat \<Rightarrow> fs \<Rightarrow> (int \<times> fs) option" where
  "ramfs_add_child grow parent child s =
     (let p = node_at s parent; cs = kids p in
      if \<not> is_dir p then Some (-1, s)
      else if length cs \<ge> rn_child_capacity p then
        if \<not> grow then Some (-1, s)
        else if length cs \<ge> rn_child_capacity p * 2 then None
        else Some (0, upd_node child (\<lambda>c. c\<lparr>n_parent := Some parent\<rparr>)
               (upd_node parent (\<lambda>p. p\<lparr>rn_children := Some (cs @ [child]), rn_child_capacity := rn_child_capacity p * 2\<rparr>) s))
      else if rn_children p = None then None
      else Some (0, upd_node child (\<lambda>c. c\<lparr>n_parent := Some parent\<rparr>)
             (upd_node parent (\<lambda>p. p\<lparr>rn_children := Some (cs @ [child])\<rparr>) s)))"

definition ramfs_remove_child :: "nat \<Rightarrow> nat \<Rightarrow> fs \<Rightarrow> int \<times> fs" where
  "ramfs_remove_child parent child s =
     (let cs = kids (node_at s parent) in
      case find_idx (\<lambda>c. c = child) cs of
        None \<Rightarrow> (-1, s)
      | Some i \<Rightarrow>
          (0, upd_node parent (\<lambda>p. p\<lparr>rn_children := Some (take (length cs - 1) (shift_down i (length cs - 1) cs))\<rparr>) s))"

text \<open>The result of a read is the return value and the bytes stored to the caller's buffer.\<close>

definition ramfs_read :: "u32 \<Rightarrow> nat \<Rightarrow> u32 \<Rightarrow> u32 \<Rightarrow> fs \<Rightarrow> ((int \<times> u8 list) \<times> fs) option" where
  "ramfs_read now node offset sz s =
     (let n = node_at s node in
      if is_dir n then Some ((-1, []), s)
      else if offset \<ge> n_length n then Some ((0, []), s)
      else
        let bytes_to_read = (if offset + sz > n_length n then n_length n - offset else sz);
            s' = upd_node node (\<lambda>n. n\<lparr>n_atime := now\<rparr>) s
        in case rn_data n of
             None \<Rightarrow> Some ((sint bytes_to_read, []), s')
           | Some d \<Rightarrow>
               if unat offset + unat bytes_to_read \<le> length d
               then Some ((sint bytes_to_read, take (unat bytes_to_read) (drop (unat offset) d)), s')
               else None)"

abbreviation RAMFS_MAX_FILE_SIZE :: u32 where "RAMFS_MAX_FILE_SIZE \<equiv> 65536"

text \<open>The buffer after making room for \<open>end_pos\<close> bytes; \<open>ok\<close>: \<open>kmalloc\<close> succeeds.\<close>

definition ramfs_grow :: "bool \<Rightarrow> u32 \<Rightarrow> vnode \<Rightarrow> vnode option" where
  "ramfs_grow ok end_pos n =
     (if unat end_pos > capacity n then
        let new_capacity = (if end_pos + 1024 > RAMFS_MAX_FILE_SIZE then RAMFS_MAX_FILE_SIZE else end_pos + 1024) in
        if \<not> ok then None
        else Some (n\<lparr>rn_data := Some (case rn_data n of
                 None \<Rightarrow> replicate (unat new_capacity) 0
               | Some d \<Rightarrow> overlay 0 d (replicate (unat new_capacity) 0))\<rparr>)
      else Some n)"

definition ramfs_write :: "bool \<Rightarrow> u32 \<Rightarrow> nat \<Rightarrow> u32 \<Rightarrow> u32 \<Rightarrow> u8 list \<Rightarrow> fs \<Rightarrow> (int \<times> fs) option" where
  "ramfs_write ok now node offset sz buffer s =
     (let n = node_at s node; end_pos = offset + sz in
      if is_dir n then Some (-1, s)
      else if end_pos > RAMFS_MAX_FILE_SIZE then Some (-1, s)
      else case ramfs_grow ok end_pos n of
             None \<Rightarrow> Some (-1, s)
           | Some n1 \<Rightarrow>
               if unat offset + unat sz > capacity n1 then None
               else Some (sint sz, upd_node node (\<lambda>_. n1\<lparr>
                      rn_data := map_option (overlay (unat offset) (take (unat sz) buffer)) (rn_data n1),
                      n_length := (if end_pos > n_length n1 then end_pos else n_length n1),
                      n_mtime := now\<rparr>) s))"

definition ramfs_readdir :: "nat \<Rightarrow> u32 \<Rightarrow> fs \<Rightarrow> (string \<times> u32) option" where
  "ramfs_readdir node index s =
     (let n = node_at s node in
      if \<not> is_dir n then None
      else if unat index \<ge> length (kids n) then None
      else let c = node_at s (kids n ! unat index) in Some (take 63 (n_name c), n_inode c))"

definition child_idx :: "string \<Rightarrow> nat \<Rightarrow> fs \<Rightarrow> nat option" where
  "child_idx name node s = find_idx (\<lambda>c. n_name (node_at s c) = name) (kids (node_at s node))"

definition ramfs_finddir :: "nat \<Rightarrow> string \<Rightarrow> fs \<Rightarrow> nat option" where
  "ramfs_finddir node name s =
     (if \<not> is_dir (node_at s node) then None
      else map_option (nth (kids (node_at s node))) (child_idx name node s))"

text \<open>What \<open>kmalloc\<close> does in one creation: the node, its array, the parent's larger array.\<close>

record fs_mem =
  fm_node :: "nat option"
  fm_array :: bool
  fm_grow :: bool

definition ramfs_create :: "fs_mem \<Rightarrow> u32 \<Rightarrow> nat \<Rightarrow> string \<Rightarrow> u32 \<Rightarrow> fs \<Rightarrow> (int \<times> fs) option" where
  "ramfs_create m now node name ty s =
     (if \<not> is_dir (node_at s node) then Some (-1, s)
      else if ramfs_finddir node name s \<noteq> None then Some (-1, s)
      else case ramfs_alloc_node (fm_node m) (fm_array m) now name ty s of
             (None, s1) \<Rightarrow> Some (-1, s1)
           | (Some child, s1) \<Rightarrow> ramfs_add_child (fm_grow m) node child s1)"

definition ramfs_unlink :: "nat \<Rightarrow> string \<Rightarrow> fs \<Rightarrow> int \<times> fs" where
  "ramfs_unlink node name s =
     (if \<not> is_dir (node_at s node) then (-1, s)
      else case child_idx name node s of
             None \<Rightarrow> (-1, s)
           | Some i \<Rightarrow>
               let child = kids (node_at s node) ! i; c = node_at s child in
               if is_dir c \<and> kids c \<noteq> [] then (-1, s)
               else let s1 = snd (ramfs_remove_child node child s) in (0, s1\<lparr>nodes := (nodes s1)(child := None)\<rparr>))"

definition ramfs_init :: "fs_mem \<Rightarrow> u32 \<Rightarrow> fs \<Rightarrow> nat option \<times> fs" where
  "ramfs_init m now s = ramfs_alloc_node (fm_node m) (fm_array m) now ''/'' VFS_DIRECTORY s"

definition ramfs_write_file :: "bool \<Rightarrow> u32 \<Rightarrow> nat \<Rightarrow> u8 list \<Rightarrow> u32 \<Rightarrow> fs \<Rightarrow> (int \<times> fs) option" where
  "ramfs_write_file ok now node data sz s = ramfs_write ok now node 0 sz data s"

section \<open>The dispatch layer\<close>

definition vfs_init :: "fs \<Rightarrow> fs" where
  "vfs_init s = s\<lparr>vfs_root := None, mount_count := 0,
     mount_table := replicate 8 \<lparr>me_path = [], me_point = 0, me_root = 0\<rparr>\<rparr>"

definition vfs_read :: "u32 \<Rightarrow> nat option \<Rightarrow> u32 \<Rightarrow> u32 \<Rightarrow> fs \<Rightarrow> ((int \<times> u8 list) \<times> fs) option" where
  "vfs_read now node offset sz s =
     (case node of
        None \<Rightarrow> Some ((-1, []), s)
      | Some a \<Rightarrow> (case n_ops (node_at s a) of
                    No_ops \<Rightarrow> Some ((-1, []), s) | Ramfs_ops \<Rightarrow> ramfs_read now a offset sz s))"

definition vfs_write :: "bool \<Rightarrow> u32 \<Rightarrow> nat option \<Rightarrow> u32 \<Rightarrow> u32 \<Rightarrow> u8 list \<Rightarrow> fs \<Rightarrow> (int \<times> fs) option" where
  "vfs_write ok now node offset sz buffer s =
     (case node of
        None \<Rightarrow> Some (-1, s)
      | Some a \<Rightarrow> (case n_ops (node_at s a) of
                    No_ops \<Rightarrow> Some (-1, s) | Ramfs_ops \<Rightarrow> ramfs_write ok now a offset sz buffer s))"

definition vfs_append :: "bool \<Rightarrow> u32 \<Rightarrow> nat option \<Rightarrow> u32 \<Rightarrow> u8 list \<Rightarrow> fs \<Rightarrow> (int \<times> fs) option" where
  "vfs_append ok now node sz buffer s =
     (case node of
        None \<Rightarrow> Some (-1, s)
      | Some a \<Rightarrow> (case n_ops (node_at s a) of
                    No_ops \<Rightarrow> Some (-1, s)
                  | Ramfs_ops \<Rightarrow> ramfs_write ok now a (n_length (node_at s a)) sz buffer s))"

definition vfs_truncate :: "nat option \<Rightarrow> fs \<Rightarrow> int \<times> fs" where
  "vfs_truncate node s =
     (case node of None \<Rightarrow> (-1, s) | Some a \<Rightarrow> (0, upd_node a (\<lambda>n. n\<lparr>n_length := 0\<rparr>) s))"

text \<open>No RAM file system node has an \<open>open\<close> or \<open>close\<close> operation, so both succeed on every node.\<close>

definition vfs_open :: "nat option \<Rightarrow> u32 \<Rightarrow> int" where
  "vfs_open node flags = (case node of None \<Rightarrow> -1 | Some a \<Rightarrow> 0)"

definition vfs_close :: "nat option \<Rightarrow> int" where
  "vfs_close node = (case node of None \<Rightarrow> -1 | Some a \<Rightarrow> 0)"

definition dir_ops :: "nat option \<Rightarrow> fs \<Rightarrow> nat option" where
  "dir_ops node s =
     (case node of
        None \<Rightarrow> None
      | Some a \<Rightarrow> if is_dir (node_at s a) \<and> n_ops (node_at s a) = Ramfs_ops then Some a else None)"

definition vfs_readdir :: "nat option \<Rightarrow> u32 \<Rightarrow> fs \<Rightarrow> (string \<times> u32) option" where
  "vfs_readdir node index s = (case dir_ops node s of None \<Rightarrow> None | Some a \<Rightarrow> ramfs_readdir a index s)"

text \<open>The step from a mount point to what is mounted on it.\<close>

definition cross_mount :: "nat \<Rightarrow> fs \<Rightarrow> nat" where
  "cross_mount a s =
     (if n_flags (node_at s a) AND VFS_MOUNTPOINT \<noteq> 0 then case n_ptr (node_at s a) of None \<Rightarrow> a | Some b \<Rightarrow> b else a)"

definition vfs_finddir :: "nat option \<Rightarrow> string \<Rightarrow> fs \<Rightarrow> nat option" where
  "vfs_finddir node name s =
     (case dir_ops node s of
        None \<Rightarrow> None
      | Some a \<Rightarrow> map_option (\<lambda>r. cross_mount r s) (ramfs_finddir a name s))"

definition vfs_create :: "fs_mem \<Rightarrow> u32 \<Rightarrow> nat option \<Rightarrow> string \<Rightarrow> u32 \<Rightarrow> fs \<Rightarrow> (int \<times> fs) option" where
  "vfs_create m now dir name ty s =
     (case dir_ops dir s of None \<Rightarrow> Some (-1, s) | Some a \<Rightarrow> ramfs_create m now a name ty s)"

definition vfs_unlink :: "nat option \<Rightarrow> string \<Rightarrow> fs \<Rightarrow> int \<times> fs" where
  "vfs_unlink dir name s = (case dir_ops dir s of None \<Rightarrow> (-1, s) | Some a \<Rightarrow> ramfs_unlink a name s)"

definition vfs_is_directory :: "nat option \<Rightarrow> fs \<Rightarrow> bool" where
  "vfs_is_directory node s = (case node of None \<Rightarrow> False | Some a \<Rightarrow> is_dir (node_at s a))"

definition ramfs_create_file :: "fs_mem \<Rightarrow> u32 \<Rightarrow> nat \<Rightarrow> string \<Rightarrow> fs \<Rightarrow> (nat option \<times> fs) option" where
  "ramfs_create_file m now parent name s =
     (case ramfs_create m now parent name VFS_FILE s of
        None \<Rightarrow> None
      | Some (r, s1) \<Rightarrow> Some (if r \<noteq> 0 then None else vfs_finddir (Some parent) name s1, s1))"

definition ramfs_create_dir :: "fs_mem \<Rightarrow> u32 \<Rightarrow> nat \<Rightarrow> string \<Rightarrow> fs \<Rightarrow> (nat option \<times> fs) option" where
  "ramfs_create_dir m now parent name s =
     (case ramfs_create m now parent name VFS_DIRECTORY s of
        None \<Rightarrow> None
      | Some (r, s1) \<Rightarrow> Some (if r \<noteq> 0 then None else vfs_finddir (Some parent) name s1, s1))"

section \<open>Paths\<close>

text \<open>One component: at most 63 characters up to the next slash; and the path behind it and its slashes.\<close>

definition component :: "string \<Rightarrow> string" where
  "component path = take 63 (takeWhile (\<lambda>c. c \<noteq> CHR ''/'') path)"

definition after_component :: "string \<Rightarrow> string" where
  "after_component path = dropWhile (\<lambda>c. c = CHR ''/'') (drop (length (component path)) path)"

lemma after_component_shorter: "path \<noteq> [] \<Longrightarrow> length (after_component path) < length path"
proof -
  assume p: "path \<noteq> []"
  have le: "length (after_component path) \<le> length path - length (component path)"
    unfolding after_component_def by (metis length_drop length_dropWhile_le)
  show ?thesis
  proof (cases "component path = []")
    case True
    then obtain rest where "path = CHR ''/'' # rest"
      using p by (cases path) (auto simp: component_def split: if_splits)
    then show ?thesis using True length_dropWhile_le [of "\<lambda>c. c = CHR ''/''" rest]
      by (simp add: after_component_def le_imp_less_Suc)
  next
    case False
    then show ?thesis using le p by (metis diff_less length_greater_0_conv order_le_less_trans)
  qed
qed

definition lookup_step :: "fs \<Rightarrow> nat \<Rightarrow> string \<Rightarrow> nat option" where
  "lookup_step s current c =
     (if c = ''.'' then Some current
      else if c = ''..'' then Some (case n_parent (node_at s current) of None \<Rightarrow> current | Some p \<Rightarrow> p)
      else if \<not> is_dir (node_at s current) then None
      else map_option (\<lambda>r. cross_mount r s) (vfs_finddir (Some current) c s))"

function lookup_loop :: "fs \<Rightarrow> string \<Rightarrow> nat \<Rightarrow> nat option" where
  "lookup_loop s path current =
     (if path = [] then Some current
      else case lookup_step s current (component path) of
             None \<Rightarrow> None
           | Some next \<Rightarrow> lookup_loop s (after_component path) next)"
  by pat_completeness auto
termination by (relation "measure (\<lambda>(s, path, c). length path)") (auto simp: after_component_shorter)

declare lookup_loop.simps [simp del]

definition vfs_lookup :: "string \<Rightarrow> fs \<Rightarrow> nat option" where
  "vfs_lookup path s =
     (case vfs_root s of
        None \<Rightarrow> None
      | Some root \<Rightarrow>
          if path = ''/'' then Some root
          else lookup_loop s (if path \<noteq> [] \<and> hd path = CHR ''/'' then tl path else path) root)"

definition last_slash :: "string \<Rightarrow> nat option" where
  "last_slash p = map_option (\<lambda>i. length p - 1 - i) (find_idx (\<lambda>c. c = CHR ''/'') (rev p))"

definition vfs_mkdir :: "fs_mem \<Rightarrow> u32 \<Rightarrow> string \<Rightarrow> fs \<Rightarrow> (int \<times> fs) option" where
  "vfs_mkdir m now path s =
     (case vfs_root s of
        None \<Rightarrow> Some (-1, s)
      | Some root \<Rightarrow>
          let parent_path = take 255 path;
              (name, parent) =
                (case last_slash parent_path of
                   Some i \<Rightarrow> (take 63 (drop (i + 1) parent_path),
                              if i = 0 then Some root else vfs_lookup (take i parent_path) s)
                 | None \<Rightarrow> (take 63 path, Some root))
          in if \<not> vfs_is_directory parent s then Some (-1, s)
             else vfs_create m now parent name VFS_DIRECTORY s)"

section \<open>Mounts\<close>

definition mount_idx :: "string \<Rightarrow> fs \<Rightarrow> nat option" where
  "mount_idx path s = find_idx (\<lambda>e. me_path e = path) (take (mount_count s) (mount_table s))"

definition vfs_mount :: "string \<Rightarrow> nat \<Rightarrow> fs \<Rightarrow> int \<times> fs" where
  "vfs_mount path root s =
     (if mount_count s \<ge> 8 then (-1, s)
      else case vfs_lookup path s of
             None \<Rightarrow> (-2, s)
           | Some mp \<Rightarrow>
               if \<not> is_dir (node_at s mp) then (-3, s)
               else if mount_idx path s \<noteq> None then (-4, s)
               else
                 let s1 = s\<lparr>mount_table := (mount_table s)[mount_count s := \<lparr>me_path = take 255 path, me_point = mp, me_root = root\<rparr>]\<rparr>;
                     s2 = upd_node mp (\<lambda>n. n\<lparr>n_flags := n_flags n OR VFS_MOUNTPOINT, n_ptr := Some root\<rparr>) s1;
                     s3 = upd_node root (\<lambda>n. n\<lparr>n_parent := n_parent (node_at s2 mp)\<rparr>) s2;
                     s4 = upd_node root (\<lambda>n. n\<lparr>n_name := take 63 (n_name (node_at s3 mp))\<rparr>) s3
                 in (0, s4\<lparr>mount_count := mount_count s4 + 1\<rparr>))"

definition vfs_unmount :: "string \<Rightarrow> fs \<Rightarrow> int \<times> fs" where
  "vfs_unmount path s =
     (case mount_idx path s of
        None \<Rightarrow> (-1, s)
      | Some i \<Rightarrow>
          let s1 = upd_node (me_point (mount_table s ! i)) (\<lambda>n. n\<lparr>n_flags := n_flags n AND NOT VFS_MOUNTPOINT, n_ptr := None\<rparr>) s
          in (0, s1\<lparr>mount_table := shift_down i (mount_count s1 - 1) (mount_table s1), mount_count := mount_count s1 - 1\<rparr>))"

end
