(* ===== verification/Devfs.thy ===== *)
theory Devfs
  imports Fs
begin

text \<open>
  The device file system, \<open>kernel/fs/devfs.c\<close>: the table of character and block devices, the read and
  write functions of the standard devices, and the directory \<open>/dev\<close> with a RAM file for each of them.
  The function pointers of a device are constructors; what the console prints is a list of bytes.
\<close>

datatype read_fn = Null_read | Zero_read | Random_read
datatype write_fn = Null_write | Zero_write | Console_write

record device_node =
  dn_name :: string
  dn_type :: int
  dn_major :: int
  dn_minor :: int
  dn_read :: "read_fn option"
  dn_write :: "write_fn option"

abbreviation DEV_TYPE_CHAR :: int where "DEV_TYPE_CHAR \<equiv> 1"
abbreviation DEV_TYPE_BLOCK :: int where "DEV_TYPE_BLOCK \<equiv> 2"

text \<open>\<open>devices\<close> is the used part of the table, so its length is \<open>device_count\<close>.\<close>

record devfs =
  devices :: "device_node list"
  devfs_root :: "nat option"
  random_seed :: u32
  console_out :: "u8 list"

definition devfs_start :: devfs where
  "devfs_start = \<lparr>devices = [], devfs_root = None, random_seed = 0x12345678, console_out = []\<rparr>"

fun random_bytes :: "nat \<Rightarrow> u32 \<Rightarrow> u8 list \<times> u32" where
  "random_bytes 0 seed = ([], seed)"
| "random_bytes (Suc n) seed =
     (let seed1 = seed * 1103515245 + 12345; (bs, seed2) = random_bytes n seed1
      in (ucast (drop_bit 16 seed1 AND 0xFF) # bs, seed2))"

text \<open>A read gives the return value and the bytes stored.\<close>

fun dev_read :: "read_fn \<Rightarrow> u32 \<Rightarrow> devfs \<Rightarrow> (u32 \<times> u8 list) \<times> devfs" where
  "dev_read Null_read sz d = ((0, []), d)"
| "dev_read Zero_read sz d = ((sz, replicate (unat sz) 0), d)"
| "dev_read Random_read sz d =
     (case random_bytes (unat sz) (random_seed d) of (bs, seed) \<Rightarrow> ((sz, bs), d\<lparr>random_seed := seed\<rparr>))"

fun dev_write :: "write_fn \<Rightarrow> u8 list \<Rightarrow> u32 \<Rightarrow> devfs \<Rightarrow> u32 \<times> devfs" where
  "dev_write Null_write buf sz d = (sz, d)"
| "dev_write Zero_write buf sz d = (sz, d)"
| "dev_write Console_write buf sz d = (sz, d\<lparr>console_out := console_out d @ take (unat sz) buf\<rparr>)"

text \<open>\<open>m\<close> is the memory for the device's file; a failed creation of the file is ignored, as in the code.\<close>

definition devfs_register :: "fs_mem \<Rightarrow> u32 \<Rightarrow> device_node \<Rightarrow> devfs \<times> fs \<Rightarrow> (int \<times> devfs \<times> fs) option" where
  "devfs_register m now dev ds =
     (let (d, s) = ds in
      if length (devices d) \<ge> 64 then Some (-1, d, s)
      else
        let d1 = d\<lparr>devices := devices d @ [dev\<lparr>dn_name := take 31 (dn_name dev)\<rparr>]\<rparr> in
        case devfs_root d1 of
          None \<Rightarrow> Some (0, d1, s)
        | Some root \<Rightarrow>
            (case ramfs_create_file m now root (dn_name dev) s of
               None \<Rightarrow> None
             | Some (_, s1) \<Rightarrow> Some (0, d1, s1)))"

definition devfs_get_device :: "string \<Rightarrow> devfs \<Rightarrow> device_node option" where
  "devfs_get_device name d = map_option (nth (devices d)) (find_idx (\<lambda>x. dn_name x = name) (devices d))"

definition dev :: "string \<Rightarrow> int \<Rightarrow> int \<Rightarrow> int \<Rightarrow> read_fn option \<Rightarrow> write_fn option \<Rightarrow> device_node" where
  "dev n t ma mi r w = \<lparr>dn_name = n, dn_type = t, dn_major = ma, dn_minor = mi, dn_read = r, dn_write = w\<rparr>"

definition standard_devices :: "device_node list" where
  "standard_devices =
     [dev ''null'' DEV_TYPE_CHAR 1 3 (Some Null_read) (Some Null_write),
      dev ''zero'' DEV_TYPE_CHAR 1 5 (Some Zero_read) (Some Zero_write),
      dev ''full'' DEV_TYPE_CHAR 1 7 (Some Zero_read) (Some Null_write),
      dev ''random'' DEV_TYPE_CHAR 1 8 (Some Random_read) (Some Null_write),
      dev ''urandom'' DEV_TYPE_CHAR 1 9 (Some Random_read) (Some Null_write),
      dev ''console'' DEV_TYPE_CHAR 5 1 None (Some Console_write),
      dev ''tty'' DEV_TYPE_CHAR 5 0 None (Some Console_write),
      dev ''tty0'' DEV_TYPE_CHAR 4 0 None (Some Console_write),
      dev ''tty1'' DEV_TYPE_CHAR 4 1 None (Some Console_write),
      dev ''ttyS0'' DEV_TYPE_CHAR 4 64 None (Some Console_write),
      dev ''hda'' DEV_TYPE_BLOCK 3 0 None None,
      dev ''hda1'' DEV_TYPE_BLOCK 3 1 None None,
      dev ''hdb'' DEV_TYPE_BLOCK 3 64 None None,
      dev ''sda'' DEV_TYPE_BLOCK 8 0 None None,
      dev ''sda1'' DEV_TYPE_BLOCK 8 1 None None,
      dev ''mem'' DEV_TYPE_CHAR 1 1 None None,
      dev ''kmem'' DEV_TYPE_CHAR 1 2 None None,
      dev ''fd0'' DEV_TYPE_BLOCK 2 0 None None]"

fun register_all :: "(fs_mem \<times> device_node) list \<Rightarrow> u32 \<Rightarrow> devfs \<times> fs \<Rightarrow> (devfs \<times> fs) option" where
  "register_all [] now ds = Some ds"
| "register_all ((m, x) # xs) now ds =
     (case devfs_register m now x ds of None \<Rightarrow> None | Some (_, ds1) \<Rightarrow> register_all xs now ds1)"

text \<open>\<open>ms\<close> has the memory of the 18 registrations, \<open>m0\<close> and \<open>m1\<close> that of \<open>/dev\<close> and \<open>/dev/pts\<close>; \<open>tsc\<close> is \<open>rdtsc\<close>.\<close>

definition devfs_init :: "fs_mem \<Rightarrow> fs_mem list \<Rightarrow> fs_mem \<Rightarrow> u32 \<Rightarrow> u32 \<times> u32 \<Rightarrow> nat \<Rightarrow> devfs \<times> fs \<Rightarrow>
    (nat option \<times> devfs \<times> fs) option" where
  "devfs_init m0 ms m1 now tsc parent ds =
     (let (d, s) = ds in
      case ramfs_create_dir m0 now parent ''dev'' s of
        None \<Rightarrow> None
      | Some (None, s1) \<Rightarrow> Some (None, d\<lparr>devfs_root := None\<rparr>, s1)
      | Some (Some root, s1) \<Rightarrow>
          (case register_all (zip ms standard_devices) now
                  (d\<lparr>devfs_root := Some root, random_seed := fst tsc XOR snd tsc\<rparr>, s1) of
             None \<Rightarrow> None
           | Some (d2, s2) \<Rightarrow>
               (case ramfs_create_dir m1 now root ''pts'' s2 of
                  None \<Rightarrow> None
                | Some (_, s3) \<Rightarrow> Some (Some root, d2, s3))))"

definition devfs_get_count :: "devfs \<Rightarrow> nat" where
  "devfs_get_count d = length (devices d)"

end
