(* ===== verification/Fs_Props.thy ===== *)
theory Fs_Props
  imports Devfs
begin

text \<open>
  What the file systems in memory guarantee. Files: a file is a byte string, writes overlay it and
  reads return it, within the buffer as long as \<open>offset + size\<close> does not wrap. Directories: creation,
  lookup and removal by name. Paths: the character loop of \<open>vfs_lookup\<close> is a walk along the components.
\<close>

section \<open>Node heap\<close>

lemma node_at_upd [simp]: "node_at (upd_node a f s) b = (if b = a then f (node_at s a) else node_at s b)"
  by (simp add: node_at_def upd_node_def)

lemma upd_node_sel [simp]:
  "next_inode (upd_node a f s) = next_inode s" "vfs_root (upd_node a f s) = vfs_root s"
  "mount_table (upd_node a f s) = mount_table s" "mount_count (upd_node a f s) = mount_count s"
  by (simp_all add: upd_node_def)

lemma node_at_mounts [simp]: "node_at (s\<lparr>mount_table := t\<rparr>) a = node_at s a" "node_at (s\<lparr>mount_count := n\<rparr>) a = node_at s a"
  by (simp_all add: node_at_def)

section \<open>Files\<close>

text \<open>The content of a file, and its invariant: the buffer holds it, and is zero behind it.\<close>

definition content :: "vnode \<Rightarrow> u8 list" where
  "content n = take (unat (n_length n)) (case rn_data n of None \<Rightarrow> [] | Some d \<Rightarrow> d)"

definition file_ok :: "vnode \<Rightarrow> bool" where
  "file_ok n \<longleftrightarrow> \<not> is_dir n \<and> unat (n_length n) \<le> capacity n \<and> capacity n \<le> 65536 \<and>
     (\<forall>d i. rn_data n = Some d \<longrightarrow> unat (n_length n) \<le> i \<longrightarrow> i < length d \<longrightarrow> d ! i = 0)"

lemma length_content: "file_ok n \<Longrightarrow> length (content n) = unat (n_length n)"
  by (auto simp: content_def file_ok_def capacity_def split: option.splits)

text \<open>The write of a byte string into a byte string, zeros filling a hole.\<close>

definition pad :: "nat \<Rightarrow> u8 list \<Rightarrow> u8 list" where
  "pad n xs = xs @ replicate (n - length xs) 0"

lemma length_pad [simp]: "length (pad n xs) = max n (length xs)"
  by (simp add: pad_def)

definition write_at :: "nat \<Rightarrow> u8 list \<Rightarrow> u8 list \<Rightarrow> u8 list" where
  "write_at off b xs = overlay off b (pad (off + length b) xs)"

lemma file_ok_data:
  assumes "file_ok n" and "i < capacity n" and "rn_data n = Some d"
  shows "d ! i = (if i < length (content n) then content n ! i else 0)"
proof -
  have l: "unat (n_length n) \<le> length d" using assms by (simp add: file_ok_def capacity_def)
  then have c: "content n = take (unat (n_length n)) d" by (simp add: content_def assms(3))
  show ?thesis
  proof (cases "i < unat (n_length n)")
    case True
    then show ?thesis using c l by simp
  next
    case False
    then have "d ! i = 0" using assms by (simp add: file_ok_def capacity_def)
    then show ?thesis using c l False by simp
  qed
qed

text \<open>After making room, the buffer has the same content, is large enough and zero behind the content.\<close>

lemma ramfs_grow_ok:
  assumes ok: "file_ok n" and g: "ramfs_grow mem e n = Some n1" and e: "e \<le> 65536"
  shows "file_ok n1 \<and> unat e \<le> capacity n1 \<and> content n1 = content n \<and> n_length n1 = n_length n \<and>
    n_flags n1 = n_flags n \<and> n_ops n1 = n_ops n \<and> n_name n1 = n_name n"
proof (cases "unat e > capacity n")
  case False
  then show ?thesis using g ok by (simp add: ramfs_grow_def)
next
  case True
  define nc where "nc = (if e + 1024 > RAMFS_MAX_FILE_SIZE then RAMFS_MAX_FILE_SIZE else e + 1024)"
  have ue: "unat e \<le> 65536" using e by (simp add: word_le_nat_alt)
  then have "unat (e + 1024) = unat e + 1024" by (simp add: unat_word_ariths)
  then have nc: "unat e \<le> unat nc" "unat nc \<le> 65536"
    using ue by (auto simp: nc_def word_less_nat_alt)
  define d where "d = (case rn_data n of None \<Rightarrow> replicate (unat nc) 0 | Some d \<Rightarrow> overlay 0 d (replicate (unat nc) (0::u8)))"
  have n1: "n1 = n\<lparr>rn_data := Some d\<rparr>"
    using g True unfolding ramfs_grow_def d_def nc_def Let_def by (auto split: if_splits)
  have cap: "capacity n \<le> unat nc" using True nc by simp
  have ld: "length d = unat nc"
    using cap by (auto simp: d_def capacity_def length_overlay split: option.splits)
  have nth: "d ! i = (case rn_data n of None \<Rightarrow> 0 | Some d0 \<Rightarrow> if i < length d0 then d0 ! i else 0)" if "i < unat nc" for i
    using that cap by (auto simp: d_def capacity_def nth_overlay split: option.splits)
  have len: "unat (n_length n) \<le> capacity n" using ok by (simp add: file_ok_def)
  have tk: "take (unat (n_length n)) d = take (unat (n_length n)) (case rn_data n of None \<Rightarrow> [] | Some d \<Rightarrow> d)"
    using len cap ld nth by (intro nth_equalityI) (auto simp: capacity_def split: option.splits)
  have z: "d ! i = 0" if "unat (n_length n) \<le> i" "i < length d" for i
    using that nth [of i] ld ok by (auto simp: file_ok_def split: option.splits)
  show ?thesis
    using ok nc ld len cap z tk unfolding n1
    by (auto simp: file_ok_def capacity_def [of "n\<lparr>rn_data := Some d\<rparr>"] content_def is_dir_def)
qed

lemma content_overlay:
  fixes now :: u32
  assumes ok: "file_ok n" and off: "off + length b \<le> capacity n" and d: "rn_data n = Some d"
    and len: "unat l = max (unat (n_length n)) (off + length b)"
  defines "n' \<equiv> n\<lparr>rn_data := Some (overlay off b d), n_length := l, n_mtime := now\<rparr>"
  shows "file_ok n' \<and> content n' = write_at off b (content n)"
proof -
  have ld: "length d = capacity n" using d by (simp add: capacity_def)
  have lc: "length (content n) = unat (n_length n)" using ok by (rule length_content)
  have lo: "length (overlay off b d) = capacity n" using off ld by (simp add: length_overlay)
  have le: "unat l \<le> capacity n" using len off ok by (simp add: file_ok_def)
  have c: "content n' = write_at off b (content n)"
  proof (rule nth_equalityI)
    show "length (content n') = length (write_at off b (content n))"
      using len le lo lc by (simp add: content_def n'_def write_at_def length_overlay max.commute)
    fix i assume "i < length (content n')"
    then have i: "i < unat l" "i < capacity n" using le lo by (auto simp: content_def n'_def)
    have "content n' ! i = overlay off b d ! i" using i by (simp add: content_def n'_def)
    also have "\<dots> = (if off \<le> i \<and> i < off + length b then b ! (i - off) else d ! i)"
      using i off ld by (simp add: nth_overlay)
    also have "\<dots> = write_at off b (content n) ! i"
      using i len lc file_ok_data [OF ok i(2) d]
      by (auto simp: write_at_def nth_overlay pad_def nth_append)
    finally show "content n' ! i = write_at off b (content n) ! i" .
  qed
  have "d ! i = 0" if "unat (n_length n) \<le> i" "i < length d" for i
    using ok d that by (simp add: file_ok_def)
  then have "overlay off b d ! i = 0" if "unat l \<le> i" "i < capacity n" for i
    using that off ld len by (simp add: nth_overlay)
  then have "file_ok n'" using ok le lo by (simp add: file_ok_def n'_def capacity_def is_dir_def)
  then show ?thesis using c by blast
qed

text \<open>A write that does not wrap, with memory for the buffer.\<close>

lemma ramfs_write_outcome:
  assumes ok: "file_ok (node_at s a)" and sz: "unat sz = length b" and fits: "unat off + length b \<le> 65536"
  obtains s' where "ramfs_write True now a off sz b s = Some (sint sz, s')"
    and "file_ok (node_at s' a)" and "content (node_at s' a) = write_at (unat off) b (content (node_at s a))"
    and "\<forall>c. c \<noteq> a \<longrightarrow> node_at s' c = node_at s c" and "n_mtime (node_at s' a) = now"
    and "n_name (node_at s' a) = n_name (node_at s a)" and "n_ops (node_at s' a) = n_ops (node_at s a)"
proof -
  let ?n = "node_at s a"
  have e: "unat (off + sz) = unat off + length b" using fits sz by (simp add: unat_word_ariths)
  then have e': "off + sz \<le> 65536" using fits by (simp add: word_le_nat_alt)
  have "ramfs_grow True (off + sz) ?n \<noteq> None" by (simp add: ramfs_grow_def Let_def)
  then obtain n1 where g: "ramfs_grow True (off + sz) ?n = Some n1" by blast
  note n1 = ramfs_grow_ok [OF ok g e']
  define l where "l = (if off + sz > n_length n1 then off + sz else n_length n1)"
  have l: "unat l = max (unat (n_length n1)) (unat off + length b)"
    using e by (auto simp: l_def word_less_nat_alt)
  define n' where "n' = n1\<lparr>rn_data := map_option (overlay (unat off) b) (rn_data n1), n_length := l, n_mtime := now\<rparr>"
  have cap: "unat off + length b \<le> capacity n1" using n1 e by simp
  have P: "file_ok n' \<and> content n' = write_at (unat off) b (content n1)"
  proof (cases "rn_data n1")
    case None
    then have z: "unat off = 0" "b = []" "n_length n1 = 0" using cap n1 by (auto simp: capacity_def file_ok_def unat_eq_0)
    then have "l = n_length n1" using l by (simp add: word_unat_eq_iff)
    then show ?thesis using None z n1
      by (auto simp: n'_def content_def write_at_def overlay_def pad_def file_ok_def capacity_def is_dir_def)
  next
    case (Some d)
    then show ?thesis using content_overlay [of n1 "unat off" b d l now] n1 cap l by (simp add: n'_def)
  qed
  have "ramfs_write True now a off sz b s = Some (sint sz, upd_node a (\<lambda>_. n') s)"
    using ok g leD [OF e'] leD [OF cap] sz by (simp add: ramfs_write_def Let_def file_ok_def n'_def l_def)
  then show ?thesis using that [of "upd_node a (\<lambda>_. n') s"] P n1 by (simp add: n'_def)
qed

text \<open>A read whose end does not wrap gives the bytes of the content, and changes nothing but the access time.\<close>

lemma ramfs_read_outcome:
  assumes ok: "file_ok (node_at s a)" and nw: "unat off + unat sz < 2 ^ 32"
  obtains s' where "ramfs_read now a off sz s =
      Some ((int (length (take (unat sz) (drop (unat off) (content (node_at s a))))),
             take (unat sz) (drop (unat off) (content (node_at s a)))), s')"
    and "\<forall>c. content (node_at s' c) = content (node_at s c)" and "file_ok (node_at s' a)"
proof -
  let ?n = "node_at s a" and ?xs = "take (unat sz) (drop (unat off) (content (node_at s a)))"
  have lc: "length (content ?n) = unat (n_length ?n)" using ok by (rule length_content)
  show ?thesis
  proof (cases "off \<ge> n_length ?n")
    case True
    then have xs: "?xs = []" using lc by (simp add: word_le_nat_alt)
    have "ramfs_read now a off sz s = Some ((0, []), s)"
      using True ok by (simp add: ramfs_read_def Let_def file_ok_def)
    then show ?thesis using that [of s] ok unfolding xs by simp
  next
    case False
    define k where "k = (if off + sz > n_length ?n then n_length ?n - off else sz)"
    have lt: "unat off < unat (n_length ?n)" using False by (simp add: word_le_nat_alt)
    have u: "unat (off + sz) = unat off + unat sz" using nw by (simp add: unat_word_ariths)
    have s: "unat (n_length ?n - off) = unat (n_length ?n) - unat off"
      using False by (intro unat_sub) simp
    have uk: "unat k = min (unat sz) (unat (n_length ?n) - unat off)"
      using u lt s by (auto simp: k_def word_less_nat_alt)
    obtain d where d: "rn_data ?n = Some d"
      using ok lt by (cases "rn_data ?n") (auto simp: file_ok_def capacity_def)
    have ld: "unat (n_length ?n) \<le> length d" "length d \<le> 65536" using ok d by (simp_all add: file_ok_def capacity_def)
    have xs: "take (unat k) (drop (unat off) d) = ?xs"
      using ld by (simp add: uk content_def d drop_take min.commute)
    have len: "length ?xs = unat k" using lc uk by (simp add: min.commute)
    have "unat k \<le> 65536" using uk ld by simp
    then have "k < 0x80000000" by (simp add: word_less_nat_alt)
    then have sk: "sint k = int (unat k)" by (simp add: sint_small)
    have "unat off + unat k \<le> length d" using uk lt ld by simp
    then have r: "ramfs_read now a off sz s = Some ((int (length ?xs), ?xs), upd_node a (\<lambda>n. n\<lparr>n_atime := now\<rparr>) s)"
      using False ok d xs len sk by (simp add: ramfs_read_def Let_def file_ok_def k_def)
    show ?thesis
      by (rule that [OF r]) (use ok in \<open>auto simp: content_def file_ok_def capacity_def is_dir_def\<close>)
  qed
qed

text \<open>
  C17. Files whose buffer is zero behind the length (\<open>file_ok\<close>: new files and those only written; truncation can leave old
  data there, \<open>truncate_exposes_old_data\<close>) are byte strings: a write inside the 64 KiB limit, with memory for the buffer, returns
  its size, overlays exactly those bytes (zeros fill a hole), and leaves every other node alone; a
  read afterwards of any range returns exactly the bytes of the new content in the range. A write
  past the limit, and one for which there is no memory, returns -1 and changes nothing. Ranges end below \<open>2 ^ 32\<close>: those
  that wrap are accessed out of bounds (\<open>ramfs_wrap_out_of_bounds\<close>).
\<close>

theorem ramfs_write_read:
  assumes "file_ok (node_at s a)" and "unat sz = length b"
  shows "(unat off + length b \<le> 65536 \<longrightarrow> (\<exists>s'. ramfs_write True now a off sz b s = Some (sint sz, s') \<and>
      file_ok (node_at s' a) \<and> (\<forall>c. c \<noteq> a \<longrightarrow> node_at s' c = node_at s c) \<and>
      content (node_at s' a) = write_at (unat off) b (content (node_at s a)) \<and>
      (\<forall>o' z'. unat o' + unat z' < 2 ^ 32 \<longrightarrow> (\<exists>s''.
         ramfs_read now a o' z' s' = Some ((int (length (take (unat z') (drop (unat o') (content (node_at s' a))))),
           take (unat z') (drop (unat o') (content (node_at s' a)))), s'')))) ) \<and>
    (unat off + length b > 65536 \<longrightarrow> unat off + length b < 2 ^ 32 \<longrightarrow>
      (\<forall>m. ramfs_write m now a off sz b s = Some (-1, s))) \<and>
    (unat off + length b > capacity (node_at s a) \<longrightarrow> unat off + length b \<le> 65536 \<longrightarrow>
      ramfs_write False now a off sz b s = Some (-1, s))"
proof (intro conjI impI allI)
  have u: "unat (off + sz) = unat off + length b" if "unat off + length b < 2 ^ 32"
    using that assms(2) by (simp add: unat_word_ariths)
  show "\<exists>s'. ramfs_write True now a off sz b s = Some (sint sz, s') \<and> file_ok (node_at s' a) \<and>
      (\<forall>c. c \<noteq> a \<longrightarrow> node_at s' c = node_at s c) \<and>
      content (node_at s' a) = write_at (unat off) b (content (node_at s a)) \<and>
      (\<forall>o' z'. unat o' + unat z' < 2 ^ 32 \<longrightarrow> (\<exists>s''.
         ramfs_read now a o' z' s' = Some ((int (length (take (unat z') (drop (unat o') (content (node_at s' a))))),
           take (unat z') (drop (unat o') (content (node_at s' a)))), s'')))"
    if "unat off + length b \<le> 65536"
  proof (rule ramfs_write_outcome [OF assms that, of now])
    fix s' assume w: "ramfs_write True now a off sz b s = Some (sint sz, s')" "file_ok (node_at s' a)"
      "content (node_at s' a) = write_at (unat off) b (content (node_at s a))" "\<forall>c. c \<noteq> a \<longrightarrow> node_at s' c = node_at s c"
    have "\<exists>s''. ramfs_read now a o' z' s' = Some ((int (length (take (unat z') (drop (unat o') (content (node_at s' a))))),
        take (unat z') (drop (unat o') (content (node_at s' a)))), s'')" if "unat o' + unat z' < 2 ^ 32" for o' z'
      using ramfs_read_outcome [OF w(2) that, of now] by metis
    then show ?thesis using w by blast
  qed
  show "ramfs_write m now a off sz b s = Some (-1, s)"
    if "unat off + length b > 65536" "unat off + length b < 2 ^ 32" for m
    using that assms u by (simp add: ramfs_write_def Let_def file_ok_def word_less_nat_alt)
  show "ramfs_write False now a off sz b s = Some (-1, s)"
    if "unat off + length b > capacity (node_at s a)" "unat off + length b \<le> 65536"
    using that assms u by (simp add: ramfs_write_def ramfs_grow_def Let_def file_ok_def word_less_nat_alt)
qed

text \<open>The length checks add in 32 bits: a read and a write that wrap leave the buffer.\<close>

definition one_file :: fs where
  "one_file = \<lparr>nodes = (\<lambda>_. None)(7 \<mapsto> zero_node\<lparr>n_flags := VFS_FILE, n_length := 4, n_ops := Ramfs_ops,
     rn_data := Some [1, 2, 3, 4]\<rparr>), next_inode = 2, vfs_root = None, mount_table = [], mount_count = 0\<rparr>"

lemma ramfs_wrap_out_of_bounds:
  "ramfs_read 0 7 2 0xFFFFFFFF one_file = None"
  "ramfs_write True 0 7 0xFFFFFFFF 3 [0, 0, 0] one_file = None"
  by (simp_all add: one_file_def ramfs_read_def ramfs_write_def ramfs_grow_def node_at_def is_dir_def
      zero_node_def capacity_def Let_def)

text \<open>
  Truncation only resets the length: a later write behind the old data makes it readable again,
  where a new file has zeros.
\<close>

lemma truncate_exposes_old_data:
  "\<exists>s. ramfs_write True 0 7 3 1 [9] (snd (vfs_truncate (Some 7) one_file)) = Some (1, s) \<and>
     content (node_at s 7) = [1, 2, 3, 9]"
  by (simp add: one_file_def vfs_truncate_def ramfs_write_def ramfs_grow_def upd_node_def node_at_def is_dir_def
      zero_node_def capacity_def Let_def content_def overlay_def)

section \<open>Directories\<close>

text \<open>The tree of nodes: children are live, distinct, of different names, and know their parent.\<close>

definition node_ok :: "vnode \<Rightarrow> bool" where
  "node_ok n \<longleftrightarrow> length (n_name n) \<le> 63 \<and>
     (if is_dir n then rn_children n \<noteq> None \<and> length (kids n) \<le> rn_child_capacity n \<and> 0 < rn_child_capacity n
      else kids n = [])"

definition fs_ok :: "fs \<Rightarrow> bool" where
  "fs_ok s \<longleftrightarrow> (\<forall>a. nodes s a \<noteq> None \<longrightarrow> node_ok (node_at s a)) \<and>
     (\<forall>a. distinct (kids (node_at s a)) \<and> inj_on (\<lambda>c. n_name (node_at s c)) (set (kids (node_at s a)))) \<and>
     (\<forall>a c. c \<in> set (kids (node_at s a)) \<longrightarrow> nodes s c \<noteq> None \<and> c \<noteq> a \<and> n_parent (node_at s c) = Some a)"

lemma fs_okD:
  assumes "fs_ok s"
  shows "nodes s a \<noteq> None \<Longrightarrow> node_ok (node_at s a)" and "distinct (kids (node_at s a))"
    and "inj_on (\<lambda>c. n_name (node_at s c)) (set (kids (node_at s a)))"
    and "c \<in> set (kids (node_at s a)) \<Longrightarrow> nodes s c \<noteq> None \<and> c \<noteq> a \<and> n_parent (node_at s c) = Some a"
  using assms unfolding fs_ok_def by blast+

lemma fs_okI:
  assumes "\<And>a. nodes s a \<noteq> None \<Longrightarrow> node_ok (node_at s a)" and "\<And>a. distinct (kids (node_at s a))"
    and "\<And>a. inj_on (\<lambda>c. n_name (node_at s c)) (set (kids (node_at s a)))"
    and "\<And>a c. c \<in> set (kids (node_at s a)) \<Longrightarrow> nodes s c \<noteq> None \<and> c \<noteq> a \<and> n_parent (node_at s c) = Some a"
  shows "fs_ok s"
  using assms unfolding fs_ok_def by blast

lemma finddir_iff:
  assumes "fs_ok s"
  shows "ramfs_finddir a name s = Some c \<longleftrightarrow>
    is_dir (node_at s a) \<and> c \<in> set (kids (node_at s a)) \<and> n_name (node_at s c) = name"
proof (cases "child_idx name a s")
  case None
  then have "\<forall>x \<in> set (kids (node_at s a)). n_name (node_at s x) \<noteq> name"
    unfolding child_idx_def find_idx_None .
  then show ?thesis using None by (auto simp: ramfs_finddir_def)
next
  case (Some i)
  then have i: "i < length (kids (node_at s a))" "n_name (node_at s (kids (node_at s a) ! i)) = name"
    using find_idx_SomeD unfolding child_idx_def by fast+
  have "c = kids (node_at s a) ! i" if "c \<in> set (kids (node_at s a))" "n_name (node_at s c) = name"
    using inj_onD [OF fs_okD(3) [OF assms], of c "kids (node_at s a) ! i"] that i by simp
  then show ?thesis using Some i by (auto simp: ramfs_finddir_def)
qed

lemma finddir_None_iff:
  assumes "fs_ok s" and "is_dir (node_at s a)"
  shows "ramfs_finddir a name s = None \<longleftrightarrow> (\<forall>c \<in> set (kids (node_at s a)). n_name (node_at s c) \<noteq> name)"
  using finddir_iff [OF assms(1), of a name] assms(2) by (cases "ramfs_finddir a name s") auto

lemma option_eqI: "(\<And>c. x = Some c \<longleftrightarrow> y = Some c) \<Longrightarrow> x = y"
  by (metis not_None_eq)

lemma finddir_cong:
  assumes "fs_ok s" and "fs_ok s'" and "is_dir (node_at s' d) \<longleftrightarrow> is_dir (node_at s d)"
    and "\<And>c. c \<in> set (kids (node_at s' d)) \<and> n_name (node_at s' c) = n \<longleftrightarrow>
             c \<in> set (kids (node_at s d)) \<and> n_name (node_at s c) = n"
  shows "ramfs_finddir d n s' = ramfs_finddir d n s"
  by (rule option_eqI) (unfold finddir_iff [OF assms(1)] finddir_iff [OF assms(2)] assms(3) assms(4), rule refl)

text \<open>A creation with memory, of a name that is not there, in the terms of the node heap.\<close>

definition new_node :: "u32 \<Rightarrow> string \<Rightarrow> u32 \<Rightarrow> u32 \<Rightarrow> nat \<Rightarrow> vnode" where
  "new_node now name ty ino parent = zero_node\<lparr>n_name := take 63 name, n_flags := ty, n_inode := ino,
     n_ctime := now, n_mtime := now, n_atime := now, n_ops := Ramfs_ops, n_parent := Some parent,
     rn_children := (if ty = VFS_DIRECTORY then Some [] else None),
     rn_child_capacity := (if ty = VFS_DIRECTORY then 8 else 0)\<rparr>"

lemma dir_live: "is_dir (node_at s a) \<Longrightarrow> nodes s a \<noteq> None"
  by (cases "nodes s a") (simp_all add: node_at_def is_dir_def zero_node_def)

lemma ramfs_create_outcome:
  assumes ok: "fs_ok s" and d: "is_dir (node_at s a)" and fresh: "nodes s c = None"
    and new: "ramfs_finddir a name s = None" and m: "fm_node m = Some c" "fm_array m" "fm_grow m"
  obtains s' k where "ramfs_create m now a name ty s = Some (0, s')"
    and "\<And>x. node_at s' x = (if x = c then new_node now name ty (next_inode s) a
           else if x = a then (node_at s a)\<lparr>rn_children := Some (kids (node_at s a) @ [c]), rn_child_capacity := k\<rparr>
           else node_at s x)"
    and "\<And>x. nodes s' x \<noteq> None \<longleftrightarrow> x = c \<or> nodes s x \<noteq> None"
    and "length (kids (node_at s a)) < k" and "a \<noteq> c"
proof -
  let ?p = "node_at s a"
  have live: "nodes s a \<noteq> None" using d by (rule dir_live)
  then have ac: "a \<noteq> c" using fresh by auto
  have p: "rn_children ?p \<noteq> None" "length (kids ?p) \<le> rn_child_capacity ?p" "0 < rn_child_capacity ?p"
    using fs_okD(1) [OF ok live] d by (simp_all add: node_ok_def)
  define k where "k = (if length (kids ?p) \<ge> rn_child_capacity ?p then rn_child_capacity ?p * 2 else rn_child_capacity ?p)"
  have k: "length (kids ?p) < k" using p by (auto simp: k_def)
  obtain s1 where s1: "ramfs_alloc_node (fm_node m) (fm_array m) now name ty s = (Some c, s1)"
    and n1: "\<And>x. node_at s1 x = (if x = c then (new_node now name ty (next_inode s) a)\<lparr>n_parent := None\<rparr> else node_at s x)"
    and l1: "\<And>x. nodes s1 x \<noteq> None \<longleftrightarrow> x = c \<or> nodes s x \<noteq> None"
    using m by (simp add: ramfs_alloc_node_def new_node_def node_at_def zero_node_def)
  have pa: "node_at s1 a = ?p" using n1 ac by simp
  define s2 where "s2 = upd_node c (\<lambda>x. x\<lparr>n_parent := Some a\<rparr>)
    (upd_node a (\<lambda>p. p\<lparr>rn_children := Some (kids ?p @ [c]), rn_child_capacity := k\<rparr>) s1)"
  have add: "ramfs_add_child (fm_grow m) a c s1 = Some (0, s2)"
  proof (cases "length (kids ?p) \<ge> rn_child_capacity ?p")
    case True
    then have "\<not> length (kids ?p) \<ge> rn_child_capacity ?p * 2" using p by linarith
    then show ?thesis using True d m(3) pa by (simp add: ramfs_add_child_def Let_def s2_def k_def upd_node_def)
  next
    case False
    then have k': "k = rn_child_capacity ?p" by (simp add: k_def)
    have "upd_node a (\<lambda>p. p\<lparr>rn_children := Some (kids ?p @ [c])\<rparr>) s1 =
        upd_node a (\<lambda>p. p\<lparr>rn_children := Some (kids ?p @ [c]), rn_child_capacity := k\<rparr>) s1"
      by (simp add: upd_node_def pa k')
    then show ?thesis using False d p(1) pa by (simp add: ramfs_add_child_def Let_def s2_def)
  qed
  have "ramfs_create m now a name ty s = Some (0, s2)"
    using d new s1 add by (simp add: ramfs_create_def)
  moreover have "node_at s2 x = (if x = c then new_node now name ty (next_inode s) a
      else if x = a then ?p\<lparr>rn_children := Some (kids ?p @ [c]), rn_child_capacity := k\<rparr> else node_at s x)" for x
    using ac by (simp add: s2_def n1 new_node_def)
  moreover have "nodes s2 x \<noteq> None \<longleftrightarrow> x = c \<or> nodes s x \<noteq> None" for x
    using l1 [of x] live by (auto simp: s2_def upd_node_def)
  ultimately show ?thesis using that k ac by blast
qed

lemma kids_new [simp]: "kids (new_node now name ty i a) = []"
  by (simp add: kids_def new_node_def zero_node_def)

lemma kids_upd [simp]: "kids (n\<lparr>rn_children := Some cs, rn_child_capacity := k\<rparr>) = cs" "kids (n\<lparr>rn_children := Some cs\<rparr>) = cs"
  by (simp_all add: kids_def)

lemma name_new: "n_name (new_node now name ty i a) = take 63 name"
  by (simp add: new_node_def)

lemma fs_ok_create:
  assumes ok: "fs_ok s" and fresh: "nodes s c = None" and ty: "ty \<in> {VFS_FILE, VFS_DIRECTORY}"
    and nm: "\<forall>x \<in> set (kids (node_at s a)). n_name (node_at s x) \<noteq> take 63 name"
    and n: "\<And>x. node_at s' x = (if x = c then new_node now name ty i a
           else if x = a then (node_at s a)\<lparr>rn_children := Some (kids (node_at s a) @ [c]), rn_child_capacity := k\<rparr>
           else node_at s x)"
    and l: "\<And>x. nodes s' x \<noteq> None \<longleftrightarrow> x = c \<or> nodes s x \<noteq> None"
    and k: "length (kids (node_at s a)) < k" and ac: "a \<noteq> c" and d: "is_dir (node_at s a)"
  shows "fs_ok s'"
proof (rule fs_okI)
  have kc: "c \<notin> set (kids (node_at s x))" for x using fs_okD(4) [OF ok, of c x] fresh by blast
  have ks: "kids (node_at s' x) = (if x = c then [] else if x = a then kids (node_at s a) @ [c] else kids (node_at s x))" for x
    by (simp add: n)
  have nn: "n_name (node_at s' x) = (if x = c then take 63 name else n_name (node_at s x))" for x
    by (simp add: n name_new)
  have pp: "n_parent (node_at s' x) = (if x = c then Some a else n_parent (node_at s x))" for x
    by (simp add: n new_node_def)
  fix x
  show "node_ok (node_at s' x)" if "nodes s' x \<noteq> None"
  proof -
    have "node_ok (new_node now name ty i a)"
      using ty by (auto simp: node_ok_def new_node_def is_dir_def kids_def zero_node_def)
    moreover have "node_ok ((node_at s a)\<lparr>rn_children := Some (kids (node_at s a) @ [c]), rn_child_capacity := k\<rparr>)"
      using fs_okD(1) [OF ok, of a] d k by (auto simp: node_ok_def is_dir_def node_at_def zero_node_def split: option.splits)
    ultimately show ?thesis using n [of x] l [of x] that fs_okD(1) [OF ok, of x] by auto
  qed
  show "distinct (kids (node_at s' x))" using fs_okD(2) [OF ok] kc by (simp add: ks)
  show "inj_on (\<lambda>y. n_name (node_at s' y)) (set (kids (node_at s' x)))"
    using fs_okD(3) [OF ok, of x] fs_okD(3) [OF ok, of a] nm kc
    by (auto simp: ks nn inj_on_def)
  show "nodes s' y \<noteq> None \<and> y \<noteq> x \<and> n_parent (node_at s' y) = Some x" if "y \<in> set (kids (node_at s' x))" for y
    using that fs_okD(4) [OF ok, of y] kc ac by (auto simp: ks pp l simp del: not_None_eq split: if_splits)
qed

lemma filter_one: "xs = us @ c # vs \<Longrightarrow> distinct xs \<Longrightarrow> us @ vs = filter (\<lambda>y. y \<noteq> c) xs"
proof -
  assume "xs = us @ c # vs" and "distinct xs"
  moreover from this have "filter (\<lambda>y. y \<noteq> c) us = us" "filter (\<lambda>y. y \<noteq> c) vs = vs"
    by (auto intro!: filter_True)
  ultimately show ?thesis by simp
qed

lemma ramfs_unlink_outcome:
  assumes ok: "fs_ok s" and f: "ramfs_finddir a name s = Some c" and e: "\<not> (is_dir (node_at s c) \<and> kids (node_at s c) \<noteq> [])"
  obtains s' where "ramfs_unlink a name s = (0, s')"
    and "\<And>x. node_at s' x = (if x = c then zero_node
           else if x = a then (node_at s a)\<lparr>rn_children := Some (filter (\<lambda>y. y \<noteq> c) (kids (node_at s a)))\<rparr> else node_at s x)"
    and "\<And>x. nodes s' x \<noteq> None \<longleftrightarrow> x \<noteq> c \<and> nodes s x \<noteq> None"
proof -
  let ?p = "node_at s a"
  have c: "is_dir ?p" "c \<in> set (kids ?p)" "n_name (node_at s c) = name" using f finddir_iff [OF ok] by blast+
  have ac: "c \<noteq> a" using fs_okD(4) [OF ok c(2)] by blast
  have live: "nodes s a \<noteq> None" using c(1) by (rule dir_live)
  obtain i where i: "child_idx name a s = Some i" "kids ?p ! i = c"
    using f by (auto simp: ramfs_finddir_def split: if_splits)
  then have il: "i < length (kids ?p)" using find_idx_SomeD unfolding child_idx_def by fast
  have dist: "distinct (kids ?p)" using fs_okD(2) [OF ok] .
  have "find_idx (\<lambda>x. x = c) (kids ?p) = Some i"
    using il i(2) dist by (intro find_idx_unique) (auto simp: nth_eq_iff_index_eq)
  then have rm: "ramfs_remove_child a c s =
      (0, upd_node a (\<lambda>p. p\<lparr>rn_children := Some (take i (kids ?p) @ drop (Suc i) (kids ?p))\<rparr>) s)"
    using il take_shift_down [of i "length (kids ?p)" "kids ?p"] by (simp add: ramfs_remove_child_def Let_def)
  have sp: "kids ?p = take i (kids ?p) @ c # drop (Suc i) (kids ?p)" using il i(2) id_take_nth_drop by metis
  have fl: "take i (kids ?p) @ drop (Suc i) (kids ?p) = filter (\<lambda>y. y \<noteq> c) (kids ?p)"
    by (rule filter_one [OF sp dist])
  let ?s1 = "upd_node a (\<lambda>p. p\<lparr>rn_children := Some (filter (\<lambda>y. y \<noteq> c) (kids ?p))\<rparr>) s"
  have "ramfs_unlink a name s = (0, ?s1\<lparr>nodes := (nodes ?s1)(c := None)\<rparr>)"
    using c(1) i e rm by (simp add: ramfs_unlink_def Let_def fl)
  moreover have "node_at (?s1\<lparr>nodes := (nodes ?s1)(c := None)\<rparr>) x = (if x = c then zero_node
      else if x = a then ?p\<lparr>rn_children := Some (filter (\<lambda>y. y \<noteq> c) (kids ?p))\<rparr> else node_at s x)" for x
    by (simp add: node_at_def upd_node_def)
  moreover have "nodes (?s1\<lparr>nodes := (nodes ?s1)(c := None)\<rparr>) x \<noteq> None \<longleftrightarrow> x \<noteq> c \<and> nodes s x \<noteq> None" for x
    using live by (simp add: upd_node_def)
  ultimately show ?thesis using that by blast
qed

lemma kids_zero [simp]: "kids zero_node = []" by (simp add: kids_def zero_node_def)

lemma fs_ok_unlink:
  assumes ok: "fs_ok s" and c: "c \<in> set (kids (node_at s a))" and e: "kids (node_at s c) = []" and d: "is_dir (node_at s a)"
    and n: "\<And>x. node_at s' x = (if x = c then zero_node
           else if x = a then (node_at s a)\<lparr>rn_children := Some (filter (\<lambda>y. y \<noteq> c) (kids (node_at s a)))\<rparr> else node_at s x)"
    and l: "\<And>x. nodes s' x \<noteq> None \<longleftrightarrow> x \<noteq> c \<and> nodes s x \<noteq> None"
  shows "fs_ok s'"
proof (rule fs_okI)
  have only: "c \<notin> set (kids (node_at s x))" if "x \<noteq> a" for x
    using fs_okD(4) [OF ok, of c x] fs_okD(4) [OF ok c] that by auto
  have ks: "kids (node_at s' x) = (if x = c then [] else if x = a then filter (\<lambda>y. y \<noteq> c) (kids (node_at s a)) else kids (node_at s x))" for x
    by (simp add: n)
  have eq: "n_name (node_at s' x) = n_name (node_at s x)" "n_parent (node_at s' x) = n_parent (node_at s x)" if "x \<noteq> c" for x
    using that by (simp_all add: n)
  have nc: "c \<notin> set (kids (node_at s' x))" for x using only [of x] by (auto simp: ks)
  have sub: "set (kids (node_at s' x)) \<subseteq> set (kids (node_at s x))" for x by (auto simp: ks)
  fix x
  show "node_ok (node_at s' x)" if "nodes s' x \<noteq> None"
  proof -
    have x: "nodes s x \<noteq> None" "x \<noteq> c" using l that by blast+
    show ?thesis
    proof (cases "x = a")
      case True
      have "length (filter (\<lambda>y. y \<noteq> c) (kids (node_at s a))) \<le> length (kids (node_at s a))" by (rule length_filter_le)
      then show ?thesis
        using True x(2) fs_okD(1) [OF ok x(1)] d
        unfolding node_ok_def by (auto simp: n is_dir_def intro: order_trans [OF length_filter_le])
    next
      case False
      then show ?thesis using x fs_okD(1) [OF ok x(1)] by (simp add: n)
    qed
  qed
  show "distinct (kids (node_at s' x))" using fs_okD(2) [OF ok] by (simp add: ks)
  show "inj_on (\<lambda>y. n_name (node_at s' y)) (set (kids (node_at s' x)))"
  proof -
    have nm: "n_name (node_at s' y) = n_name (node_at s y)" if "y \<in> set (kids (node_at s' x))" for y
      using that nc [of x] eq(1) [of y] by blast
    show ?thesis by (rule iffD2 [OF inj_on_cong [OF nm] inj_on_subset [OF fs_okD(3) [OF ok] sub]])
  qed
  show "nodes s' y \<noteq> None \<and> y \<noteq> x \<and> n_parent (node_at s' y) = Some x" if "y \<in> set (kids (node_at s' x))" for y
  proof -
    have "y \<in> set (kids (node_at s x))" "y \<noteq> c" using that sub [of x] nc [of x] by auto
    then show ?thesis using fs_okD(4) [OF ok, of y x] eq(2) [of y] l [of y] by simp
  qed
qed

text \<open>
  C18. Directories are name maps. In a well-formed tree, creating a file or directory with a new name
  (at most 63 characters) and memory for it makes the name lead to a new empty node, keeps the tree
  well formed and every other entry of every directory; creating a name that exists returns -1 and
  changes nothing; unlinking the new name afterwards restores all lookups.
\<close>

theorem ramfs_create_unlink:
  assumes "fs_ok s" and "is_dir (node_at s a)" and "nodes s c = None" and "ty \<in> {VFS_FILE, VFS_DIRECTORY}"
    and "length name \<le> 63" and "fm_node m = Some c" "fm_array m" "fm_grow m"
  shows "(ramfs_finddir a name s \<noteq> None \<longrightarrow> ramfs_create m now a name ty s = Some (-1, s)) \<and>
    (ramfs_finddir a name s = None \<longrightarrow> (\<exists>s'. ramfs_create m now a name ty s = Some (0, s') \<and> fs_ok s' \<and>
      ramfs_finddir a name s' = Some c \<and> content (node_at s' c) = [] \<and> kids (node_at s' c) = [] \<and>
      (\<forall>d n. d \<noteq> c \<longrightarrow> (d, n) \<noteq> (a, name) \<longrightarrow> ramfs_finddir d n s' = ramfs_finddir d n s) \<and>
      (\<exists>s''. ramfs_unlink a name s' = (0, s'') \<and> fs_ok s'' \<and>
         (\<forall>d n. d \<noteq> c \<longrightarrow> ramfs_finddir d n s'' = ramfs_finddir d n s))))"
proof (intro conjI impI)
  show "ramfs_create m now a name ty s = Some (-1, s)" if "ramfs_finddir a name s \<noteq> None"
    using that assms(2) by (simp add: ramfs_create_def)
  assume new: "ramfs_finddir a name s = None"
  have names: "\<forall>x \<in> set (kids (node_at s a)). n_name (node_at s x) \<noteq> take 63 name"
    using new finddir_None_iff [OF assms(1,2)] assms(5) by simp
  have kc: "c \<notin> set (kids (node_at s x))" for x using fs_okD(4) [OF assms(1), of c x] assms(3) by blast
  obtain s' k where cr: "ramfs_create m now a name ty s = Some (0, s')"
    and n: "\<And>x. node_at s' x = (if x = c then new_node now name ty (next_inode s) a
           else if x = a then (node_at s a)\<lparr>rn_children := Some (kids (node_at s a) @ [c]), rn_child_capacity := k\<rparr>
           else node_at s x)"
    and l: "\<And>x. nodes s' x \<noteq> None \<longleftrightarrow> x = c \<or> nodes s x \<noteq> None" and k: "length (kids (node_at s a)) < k" and ac: "a \<noteq> c"
    by (rule ramfs_create_outcome [OF assms(1-3) new assms(6-8)]) blast
  have ok': "fs_ok s'" using fs_ok_create [OF assms(1,3,4) names n l k ac assms(2)] .
  have nm: "n_name (node_at s' c) = name" using assms(5) by (simp add: n name_new)
  have da: "is_dir (node_at s' a)" using assms(2) ac by (simp add: n is_dir_def)
  have ka: "kids (node_at s' a) = kids (node_at s a) @ [c]" using ac by (simp add: n)
  have hit: "ramfs_finddir a name s' = Some c" unfolding finddir_iff [OF ok'] using da ka nm by simp
  have other: "ramfs_finddir d n0 s' = ramfs_finddir d n0 s" if "d \<noteq> c" "(d, n0) \<noteq> (a, name)" for d n0
    by (rule finddir_cong [OF assms(1) ok'])
      (use that kc [of d] nm in \<open>auto simp: n is_dir_def name_new\<close>)
  have ec: "\<not> (is_dir (node_at s' c) \<and> kids (node_at s' c) \<noteq> [])" by (simp add: n)
  obtain s'' where un: "ramfs_unlink a name s' = (0, s'')"
    and n2: "\<And>x. node_at s'' x = (if x = c then zero_node
           else if x = a then (node_at s' a)\<lparr>rn_children := Some (filter (\<lambda>y. y \<noteq> c) (kids (node_at s' a)))\<rparr> else node_at s' x)"
    and l2: "\<And>x. nodes s'' x \<noteq> None \<longleftrightarrow> x \<noteq> c \<and> nodes s' x \<noteq> None"
    by (rule ramfs_unlink_outcome [OF ok' hit ec]) blast
  have ok'': "fs_ok s''"
    by (rule fs_ok_unlink [OF ok' _ _ da n2 l2]) (simp_all add: ka n ac)
  have "kids (node_at s'' a) = kids (node_at s a)" using ac kc [of a] by (auto simp: n2 ka intro!: filter_True)
  then have "ramfs_finddir d n0 s'' = ramfs_finddir d n0 s" if "d \<noteq> c" for d n0
    by (intro finddir_cong [OF assms(1) ok'']) (use that ac kc [of d] in \<open>auto simp: n n2 is_dir_def\<close>)
  moreover have "content (node_at s' c) = []" by (simp add: n content_def new_node_def zero_node_def)
  ultimately show "\<exists>s'. ramfs_create m now a name ty s = Some (0, s') \<and> fs_ok s' \<and>
      ramfs_finddir a name s' = Some c \<and> content (node_at s' c) = [] \<and> kids (node_at s' c) = [] \<and>
      (\<forall>d n. d \<noteq> c \<longrightarrow> (d, n) \<noteq> (a, name) \<longrightarrow> ramfs_finddir d n s' = ramfs_finddir d n s) \<and>
      (\<exists>s''. ramfs_unlink a name s' = (0, s'') \<and> fs_ok s'' \<and>
         (\<forall>d n. d \<noteq> c \<longrightarrow> ramfs_finddir d n s'' = ramfs_finddir d n s))"
    using cr ok' hit other un ok'' by (intro exI [of _ s'] conjI exI [of _ s'']) (auto simp: n)
qed

text \<open>Names are cut to 63 characters but compared in full: a longer name can be created twice.\<close>

lemma long_name_not_found:
  assumes "fs_ok s" and "63 < length name"
  shows "ramfs_finddir a name s = None"
proof -
  have "n_name (node_at s c) \<noteq> name" if "c \<in> set (kids (node_at s a))" for c
    using fs_okD(1,4) [OF assms(1)] that assms(2) unfolding node_ok_def by (metis linorder_not_le)
  then show ?thesis using finddir_iff [OF assms(1), of a name] by (cases "ramfs_finddir a name s") auto
qed

section \<open>Paths\<close>

text \<open>The specification of a lookup: the walk along a list of components.\<close>

fun walk :: "fs \<Rightarrow> string list \<Rightarrow> nat \<Rightarrow> nat option" where
  "walk s [] a = Some a"
| "walk s (c # cs) a = (case lookup_step s a c of None \<Rightarrow> None | Some b \<Rightarrow> walk s cs b)"

text \<open>The text of a path: each component with the number of slashes behind it, at least one except at the end.\<close>

fun path_text :: "(string \<times> nat) list \<Rightarrow> string" where
  "path_text [] = []"
| "path_text ((c, k) # cs) = c @ replicate (if cs = [] then k else Suc k) CHR ''/'' @ path_text cs"

definition name_ok :: "string \<Rightarrow> bool" where
  "name_ok c \<longleftrightarrow> c \<noteq> [] \<and> length c \<le> 63 \<and> CHR ''/'' \<notin> set c"

lemma takeWhile_name:
  "CHR ''/'' \<notin> set c \<Longrightarrow> (rest = [] \<or> hd rest = CHR ''/'') \<Longrightarrow> takeWhile (\<lambda>x. x \<noteq> CHR ''/'') (c @ rest) = c"
  by (induction c) (cases rest, auto)

lemma dropWhile_slashes: "dropWhile (\<lambda>x. x = CHR ''/'') (replicate n CHR ''/'' @ rest) = dropWhile (\<lambda>x. x = CHR ''/'') rest"
  by (induction n) auto

lemma path_text_head: "\<forall>(c, k) \<in> set cs. name_ok c \<Longrightarrow> dropWhile (\<lambda>x. x = CHR ''/'') (path_text cs) = path_text cs"
proof (cases cs)
  case (Cons p ps)
  obtain c k where p: "p = (c, k)" by fastforce
  assume "\<forall>(c, k) \<in> set cs. name_ok c"
  then have "name_ok c" using Cons p by auto
  then obtain x xs where "c = x # xs" "x \<noteq> CHR ''/''" by (cases c) (auto simp: name_ok_def)
  then show ?thesis using Cons p by simp
qed simp

lemma component_step:
  assumes "\<forall>(c, k) \<in> set ((c, k) # cs). name_ok c"
  shows "component (path_text ((c, k) # cs)) = c" and "after_component (path_text ((c, k) # cs)) = path_text cs"
    and "path_text ((c, k) # cs) \<noteq> []"
proof -
  have c: "name_ok c" using assms by simp
  define rest where "rest = replicate (if cs = [] then k else Suc k) CHR ''/'' @ path_text cs"
  have t: "path_text ((c, k) # cs) = c @ rest" by (simp add: rest_def)
  have "rest = [] \<or> hd rest = CHR ''/''" by (cases "cs = []"; cases k) (simp_all add: rest_def)
  then have "takeWhile (\<lambda>x. x \<noteq> CHR ''/'') (c @ rest) = c" using c by (intro takeWhile_name) (simp add: name_ok_def)
  then show comp: "component (path_text ((c, k) # cs)) = c" using c unfolding t by (simp add: component_def name_ok_def)
  have "dropWhile (\<lambda>x. x = CHR ''/'') rest = path_text cs"
    using path_text_head [of cs] assms unfolding rest_def by (simp only: dropWhile_slashes) simp
  then show "after_component (path_text ((c, k) # cs)) = path_text cs"
    unfolding after_component_def t comp [unfolded t] by simp
  show "path_text ((c, k) # cs) \<noteq> []" using c unfolding t by (simp add: name_ok_def)
qed

lemma lookup_loop_walk:
  "\<forall>(c, k) \<in> set cs. name_ok c \<Longrightarrow> lookup_loop s (path_text cs) a = walk s (map fst cs) a"
proof (induction cs arbitrary: a)
  case Nil
  then show ?case by (simp add: lookup_loop.simps)
next
  case (Cons p cs)
  obtain c k where p: "p = (c, k)" by fastforce
  note st = component_step [OF Cons.prems [unfolded p]]
  have "lookup_loop s (path_text ((c, k) # cs)) a =
      (case lookup_step s a c of None \<Rightarrow> None | Some b \<Rightarrow> lookup_loop s (path_text cs) b)"
    using st(3) by (subst lookup_loop.simps) (simp only: st(1,2) if_False)
  then show ?case using Cons.IH Cons.prems p by (simp split: option.splits)
qed

text \<open>
  What a path means. The mount table says what is mounted on a directory; it agrees with the marks in the nodes when each
  mount point has one entry. A name leads to the directory entry of that name, or to the root of the file system mounted on
  it, or, where a second one is mounted on that root, to the root of the second.
\<close>

definition mounted :: "fs \<Rightarrow> nat \<Rightarrow> nat" where
  "mounted s e = (case filter (\<lambda>m. me_point m = e) (take (mount_count s) (mount_table s)) of [] \<Rightarrow> e | m # _ \<Rightarrow> me_root m)"

definition mounts_ok :: "fs \<Rightarrow> bool" where
  "mounts_ok s \<longleftrightarrow> (\<forall>e r. n_flags (node_at s e) AND VFS_MOUNTPOINT \<noteq> 0 \<and> n_ptr (node_at s e) = Some r \<longleftrightarrow>
     (\<exists>m \<in> set (take (mount_count s) (mount_table s)). me_point m = e \<and> me_root m = r))"

definition dir_entry :: "fs \<Rightarrow> nat \<Rightarrow> string \<Rightarrow> nat \<Rightarrow> bool" where
  "dir_entry s a c e \<longleftrightarrow> is_dir (node_at s a) \<and> n_ops (node_at s a) = Ramfs_ops \<and> e \<in> set (kids (node_at s a)) \<and>
     n_name (node_at s e) = c"

inductive path_leads :: "fs \<Rightarrow> nat \<Rightarrow> string list \<Rightarrow> nat \<Rightarrow> bool" for s where
  here: "path_leads s a [] a"
| stay: "path_leads s a cs b \<Longrightarrow> path_leads s a (''.'' # cs) b"
| up: "n_parent (node_at s a) = Some p \<Longrightarrow> path_leads s p cs b \<Longrightarrow> path_leads s a (''..'' # cs) b"
| top: "n_parent (node_at s a) = None \<Longrightarrow> path_leads s a cs b \<Longrightarrow> path_leads s a (''..'' # cs) b"
| down: "c \<noteq> ''.'' \<Longrightarrow> c \<noteq> ''..'' \<Longrightarrow> dir_entry s a c e \<Longrightarrow> path_leads s (mounted s (mounted s e)) cs b \<Longrightarrow>
    path_leads s a (c # cs) b"

inductive_simps path_leads_Nil: "path_leads s a [] b"
inductive_simps path_leads_Cons: "path_leads s a (c # cs) b"

lemma cross_mounted:
  assumes "mounts_ok s"
  shows "cross_mount e s = mounted s e"
proof (cases "filter (\<lambda>m. me_point m = e) (take (mount_count s) (mount_table s))")
  case Nil
  then have "\<not> (\<exists>m \<in> set (take (mount_count s) (mount_table s)). me_point m = e \<and> me_root m = r)" for r
    by (auto simp: filter_empty_conv)
  then have "\<not> (n_flags (node_at s e) AND VFS_MOUNTPOINT \<noteq> 0 \<and> n_ptr (node_at s e) = Some r)" for r
    using assms unfolding mounts_ok_def by blast
  then show ?thesis using Nil by (auto simp: cross_mount_def mounted_def split: option.split)
next
  case (Cons m ms)
  then have "m \<in> set (filter (\<lambda>m. me_point m = e) (take (mount_count s) (mount_table s)))" by simp
  then have "n_flags (node_at s e) AND VFS_MOUNTPOINT \<noteq> 0 \<and> n_ptr (node_at s e) = Some (me_root m)"
    using assms unfolding mounts_ok_def by fastforce
  then show ?thesis using Cons by (simp add: cross_mount_def mounted_def)
qed

lemma lookup_step_name:
  assumes "fs_ok s" and "mounts_ok s" and "c \<noteq> ''.''" and "c \<noteq> ''..''"
  shows "lookup_step s a c = Some b \<longleftrightarrow> (\<exists>e. dir_entry s a c e \<and> b = mounted s (mounted s e))"
  using assms(3,4)
  by (auto simp: lookup_step_def vfs_finddir_def dir_ops_def finddir_iff [OF assms(1)] cross_mounted [OF assms(2)] dir_entry_def)

lemma walk_leads:
  assumes "fs_ok s" and "mounts_ok s"
  shows "walk s cs a = Some b \<longleftrightarrow> path_leads s a cs b"
proof (induction cs arbitrary: a)
  case (Cons c cs)
  consider "c = ''.''" | "c = ''..''" | "c \<noteq> ''.''" "c \<noteq> ''..''" by blast
  then show ?case
  proof cases
    case 1
    then show ?thesis using Cons.IH by (simp add: lookup_step_def path_leads_Cons)
  next
    case 2
    then show ?thesis using Cons.IH by (cases "n_parent (node_at s a)") (simp_all add: lookup_step_def path_leads_Cons)
  next
    case 3
    have "walk s (c # cs) a = Some b \<longleftrightarrow> (\<exists>d. lookup_step s a c = Some d \<and> walk s cs d = Some b)"
      by (auto split: option.split)
    then show ?thesis using 3 Cons.IH by (auto simp: lookup_step_name [OF assms 3] path_leads_Cons)
  qed
qed (auto simp: path_leads_Nil)

text \<open>
  C19. Path lookup is a walk through the tree of directories and what is mounted on it: for components of 1 to 63 characters,
  separated by any number of slashes and with or without slashes at the end, absolute or relative, \<open>vfs_lookup\<close> finds a node
  exactly when the components lead to it from the root. \<open>.\<close> stays, \<open>..\<close> goes to the parent (a node without one stays), and
  any other name leads to the directory entry of that name or to the root of what is mounted on it; no entry, no node.
\<close>

theorem vfs_lookup_walk:
  assumes "fs_ok s" and "mounts_ok s" and "vfs_root s = Some root" and "\<forall>(c, k) \<in> set cs. name_ok c"
  shows "(vfs_lookup (CHR ''/'' # path_text cs) s = Some b \<longleftrightarrow> path_leads s root (map fst cs) b) \<and>
    (vfs_lookup (path_text cs) s = Some b \<longleftrightarrow> path_leads s root (map fst cs) b)"
proof -
  have head: "path_text cs = [] \<or> hd (path_text cs) \<noteq> CHR ''/''"
    using path_text_head [OF assms(4)] by (metis dropWhile_eq_self_iff)
  have abs: "vfs_lookup (CHR ''/'' # path_text cs) s = walk s (map fst cs) root"
  proof (cases cs)
    case Nil
    then show ?thesis using assms(3) by (simp add: vfs_lookup_def)
  next
    case (Cons p ps)
    obtain c k where p: "p = (c, k)" by fastforce
    have "path_text cs \<noteq> []" using component_step(3) [of c k ps] assms(4) unfolding Cons p by blast
    then show ?thesis using assms(3,4) by (simp add: vfs_lookup_def lookup_loop_walk)
  qed
  have "path_text cs \<noteq> ''/''" using head by auto
  then have "vfs_lookup (path_text cs) s = walk s (map fst cs) root"
    using head assms(3,4) by (auto simp: vfs_lookup_def lookup_loop_walk)
  then show ?thesis unfolding abs by (simp add: walk_leads [OF assms(1,2)])
qed

text \<open>
  A component of 64 characters is cut in two: its last character is looked up in the node that the
  first 63 lead to; and a path with two leading slashes looks for an entry with the empty name.
\<close>

lemma lookup_splits_long_name:
  assumes "length c = 63" and "CHR ''/'' \<notin> set c" and "x \<noteq> CHR ''/''"
  shows "lookup_loop s (c @ [x]) a = walk s [c, [x]] a"
proof -
  have "takeWhile (\<lambda>y. y \<noteq> CHR ''/'') (c @ [x]) = c @ [x]" using assms(2,3) by (auto simp: takeWhile_eq_all_conv)
  then have 1: "component (c @ [x]) = c" "after_component (c @ [x]) = [x]"
    using assms(1,3) by (simp_all add: component_def after_component_def)
  have 2: "component [x] = [x]" "after_component [x] = []" using assms(3) by (simp_all add: component_def after_component_def)
  have "lookup_loop s [x] b = walk s [[x]] b" for b
    by (subst lookup_loop.simps) (simp add: 2 lookup_loop.simps [of s "[]"] split: option.split)
  then show ?thesis by (subst lookup_loop.simps) (simp add: 1 split: option.split)
qed

lemma lookup_double_slash:
  assumes "vfs_root s = Some root"
  shows "vfs_lookup ''//etc'' s = walk s [[], ''etc''] root"
proof -
  have 1: "component ''/etc'' = []" "after_component ''/etc'' = ''etc''" "component ''etc'' = ''etc''" "after_component ''etc'' = []"
    by (simp_all add: component_def after_component_def)
  have "lookup_loop s ''etc'' b = walk s [''etc''] b" for b
    by (subst lookup_loop.simps) (simp add: 1 lookup_loop.simps [of s "[]"] split: option.split)
  then have "lookup_loop s ''/etc'' root = walk s [[], ''etc''] root"
    by (subst lookup_loop.simps) (simp add: 1 split: option.split)
  then show ?thesis using assms by (simp add: vfs_lookup_def)
qed

section \<open>Mounts\<close>

text \<open>Mounting a file system on a directory makes every step to the directory lead to its root.\<close>

lemma vfs_mount_cross:
  assumes "vfs_lookup path s = Some mp" and "is_dir (node_at s mp)" and "mount_idx path s = None"
    and "mount_count s < 8" and "mp \<noteq> root"
  obtains s' where "vfs_mount path root s = (0, s')" and "cross_mount mp s' = root"
    and "n_parent (node_at s' root) = n_parent (node_at s mp)"
proof -
  have "(x OR 8) AND 8 = (8 :: u32)" for x by (rule bit_word_eqI) (auto simp: bit_simps)
  then show ?thesis
    using assms that by (simp add: vfs_mount_def Let_def cross_mount_def)
qed

text \<open>Mounting on a directory that is not yet a mount point keeps table and marks in agreement.\<close>

lemma vfs_mount_mounts_ok:
  assumes ok: "mounts_ok s" and len: "length (mount_table s) = 8" and l: "vfs_lookup path s = Some mp"
    and free: "n_flags (node_at s mp) AND VFS_MOUNTPOINT = 0"
  shows "mounts_ok (snd (vfs_mount path root s))"
proof -
  have set8: "(x OR 8) AND 8 \<noteq> (0 :: u32)" for x
  proof -
    have "(x OR 8) AND 8 = (8 :: u32)" by (rule bit_word_eqI) (auto simp: bit_simps)
    then show ?thesis by simp
  qed
  have none: "\<not> (\<exists>m \<in> set (take (mount_count s) (mount_table s)). me_point m = mp \<and> me_root m = r)" for r
    using ok free unfolding mounts_ok_def by metis
  have t: "take (Suc (mount_count s)) ((mount_table s)[mount_count s := x]) = take (mount_count s) (mount_table s) @ [x]"
    if "mount_count s < 8" for x using that len by (simp add: take_Suc_conv_app_nth)
  have iff: "(n_flags (node_at s e) AND VFS_MOUNTPOINT \<noteq> 0 \<and> n_ptr (node_at s e) = Some r) =
      (\<exists>m \<in> set (take (mount_count s) (mount_table s)). me_point m = e \<and> me_root m = r)" for e r
    using ok unfolding mounts_ok_def by blast
  have "(n_flags (node_at (snd (vfs_mount path root s)) e) AND VFS_MOUNTPOINT \<noteq> 0 \<and>
      n_ptr (node_at (snd (vfs_mount path root s)) e) = Some r) =
      (\<exists>m \<in> set (take (mount_count (snd (vfs_mount path root s))) (mount_table (snd (vfs_mount path root s)))).
        me_point m = e \<and> me_root m = r)" for e r
    using iff [of e r] none [of r] set8 unfolding vfs_mount_def l
    by (cases "mount_count s < 8"; cases "e = mp"; cases "e = root") (auto simp: Let_def t)
  then show ?thesis unfolding mounts_ok_def by blast
qed

section \<open>Devices\<close>

text \<open>The bytes of \<open>/dev/random\<close>, and the registration of a device with a name that fits.\<close>

lemma length_random_bytes: "length (fst (random_bytes n seed)) = n"
  by (induction n arbitrary: seed) (simp_all add: Let_def case_prod_beta)

lemma dev_read_length:
  assumes "dev_read f sz d = ((r, bs), d')"
  shows "length bs = unat r" and "f \<noteq> Null_read \<longrightarrow> r = sz"
  using assms length_random_bytes [of "unat sz" "random_seed d"]
  by (cases f; auto split: prod.splits)+

lemma devfs_register_get:
  assumes "devfs_register m now x (d, s) = Some (0, d', s')" and "length (dn_name x) \<le> 31"
    and "devfs_get_device (dn_name x) d = None"
  shows "devfs_get_device (dn_name x) d' = Some x"
proof -
  have d': "devices d' = devices d @ [x]"
    using assms(1,2) unfolding devfs_register_def Let_def
    by (auto split: if_splits option.splits prod.splits)
  have "find_idx (\<lambda>y. dn_name y = dn_name x) (devices d) = None"
    using assms(3) unfolding devfs_get_device_def by (simp only: map_option_is_None)
  then show ?thesis unfolding devfs_get_device_def d' find_idx_snoc by (simp del: find_idx_None)
qed

section \<open>Witnesses\<close>

definition demo_fs :: fs where
  "demo_fs = \<lparr>nodes = (\<lambda>_. None)(1 \<mapsto> zero_node\<lparr>n_name := ''/'', n_flags := VFS_DIRECTORY, n_inode := 1, n_ops := Ramfs_ops,
     rn_children := Some [], rn_child_capacity := 8\<rparr>), next_inode = 2, vfs_root = Some 1, mount_table = [], mount_count = 0\<rparr>"

lemma demo_node: "node_at demo_fs a = (if a = 1 then zero_node\<lparr>n_name := ''/'', n_flags := VFS_DIRECTORY, n_inode := 1, n_ops := Ramfs_ops,
     rn_children := Some [], rn_child_capacity := 8\<rparr> else zero_node)"
  by (simp add: node_at_def demo_fs_def)

lemma demo_kids: "kids (node_at demo_fs a) = []"
  by (simp add: demo_node kids_def zero_node_def)

lemma demo_fs_ok: "fs_ok demo_fs"
proof (rule fs_okI)
  show "node_ok (node_at demo_fs a)" if "nodes demo_fs a \<noteq> None" for a
    using that by (simp add: node_ok_def demo_kids) (simp add: demo_node zero_node_def is_dir_def)
qed (simp_all add: demo_kids)

theorem ramfs_write_read_witness:
  "\<exists>s'. ramfs_write True 0 7 6 2 [8, 9] one_file = Some (2, s') \<and> content (node_at s' 7) = [1, 2, 3, 4, 0, 0, 8, 9] \<and>
     ramfs_write True 0 7 65536 1 [0] one_file = Some (-1, one_file)"
proof -
  have n: "node_at one_file 7 = zero_node\<lparr>n_flags := VFS_FILE, n_length := 4, n_ops := Ramfs_ops, rn_data := Some [1, 2, 3, 4]\<rparr>"
    by (simp add: node_at_def one_file_def)
  have ok: "file_ok (node_at one_file 7)" unfolding n
    by (simp add: file_ok_def is_dir_def zero_node_def capacity_def)
  have c: "content (node_at one_file 7) = [1, 2, 3, 4]" unfolding n by (simp add: content_def zero_node_def)
  have "write_at 6 [8, 9] [1, 2, 3, 4] = [1, 2, 3, 4, 0, 0, 8, 9]"
    by (simp add: write_at_def overlay_def pad_def numeral_eq_Suc)
  moreover from ramfs_write_read [OF ok, of 2 "[8, 9]" 6 0]
  obtain s' where "ramfs_write True 0 7 6 2 [8, 9] one_file = Some (2, s')"
    "content (node_at s' 7) = write_at 6 [8, 9] [1, 2, 3, 4]" unfolding c by auto
  moreover from ramfs_write_read [OF ok, of 1 "[0]" 65536 0]
  have "ramfs_write True 0 7 65536 1 [0] one_file = Some (-1, one_file)" by simp
  ultimately show ?thesis by auto
qed

theorem ramfs_create_unlink_witness:
  "\<exists>s'. ramfs_create \<lparr>fm_node = Some 5, fm_array = True, fm_grow = True\<rparr> 0 1 ''etc'' VFS_DIRECTORY demo_fs = Some (0, s') \<and>
     ramfs_finddir 1 ''etc'' s' = Some 5"
proof -
  have d: "is_dir (node_at demo_fs 1)" by (simp add: demo_node is_dir_def)
  have f: "nodes demo_fs 5 = None" by (simp add: demo_fs_def)
  have n: "ramfs_finddir 1 ''etc'' demo_fs = None"
    by (simp add: ramfs_finddir_def child_idx_def demo_node kids_def)
  show ?thesis
    using ramfs_create_unlink [OF demo_fs_ok d f, of VFS_DIRECTORY "''etc''" "\<lparr>fm_node = Some 5, fm_array = True, fm_grow = True\<rparr>" 0] n
    by auto
qed

text \<open>A directory \<open>mnt\<close> on which a file system with the file \<open>f\<close> is mounted.\<close>

definition demo_dir :: "string \<Rightarrow> nat list \<Rightarrow> nat option \<Rightarrow> vnode" where
  "demo_dir n cs p = zero_node\<lparr>n_name := n, n_flags := VFS_DIRECTORY, n_ops := Ramfs_ops, n_parent := p,
     rn_children := Some cs, rn_child_capacity := 8\<rparr>"

definition demo_mount :: fs where
  "demo_mount = \<lparr>nodes = (\<lambda>_. None)(1 \<mapsto> demo_dir ''/'' [2] None,
       2 \<mapsto> (demo_dir ''mnt'' [] (Some 1))\<lparr>n_flags := 10, n_ptr := Some 3\<rparr>, 3 \<mapsto> demo_dir ''mnt'' [4] (Some 1),
       4 \<mapsto> zero_node\<lparr>n_name := ''f'', n_flags := VFS_FILE, n_ops := Ramfs_ops, n_parent := Some 3\<rparr>),
     next_inode = 5, vfs_root = Some 1, mount_table = [\<lparr>me_path = ''/mnt'', me_point = 2, me_root = 3\<rparr>], mount_count = 1\<rparr>"

lemma demo_mount_node:
  "node_at demo_mount a = (if a = 1 then demo_dir ''/'' [2] None
     else if a = 2 then (demo_dir ''mnt'' [] (Some 1))\<lparr>n_flags := 10, n_ptr := Some 3\<rparr>
     else if a = 3 then demo_dir ''mnt'' [4] (Some 1)
     else if a = 4 then zero_node\<lparr>n_name := ''f'', n_flags := VFS_FILE, n_ops := Ramfs_ops, n_parent := Some 3\<rparr> else zero_node)"
  by (simp add: node_at_def demo_mount_def)

lemma demo_mount_kids: "kids (node_at demo_mount a) = (if a = 1 then [2] else if a = 3 then [4] else [])"
  by (simp add: demo_mount_node kids_def demo_dir_def zero_node_def)

lemma demo_mount_ok: "fs_ok demo_mount" "mounts_ok demo_mount"
proof -
  show "fs_ok demo_mount"
  proof (rule fs_okI)
    show "node_ok (node_at demo_mount a)" if "nodes demo_mount a \<noteq> None" for a
    proof -
      have "a \<in> {1, 2, 3, 4}" using that by (auto simp: demo_mount_def split: if_splits)
      then show ?thesis
        unfolding node_ok_def demo_mount_kids by (auto simp: demo_mount_node demo_dir_def zero_node_def is_dir_def)
    qed
    show "nodes demo_mount c \<noteq> None \<and> c \<noteq> a \<and> n_parent (node_at demo_mount c) = Some a"
      if "c \<in> set (kids (node_at demo_mount a))" for a c
    proof -
      have "c = 2 \<and> a = 1 \<or> c = 4 \<and> a = 3" using that unfolding demo_mount_kids by (auto split: if_splits)
      moreover have "nodes demo_mount 2 \<noteq> None" "nodes demo_mount 4 \<noteq> None" by (simp_all add: demo_mount_def)
      ultimately show ?thesis by (auto simp: demo_mount_node demo_dir_def zero_node_def)
    qed
  qed (simp_all add: demo_mount_kids inj_on_def)
  show "mounts_ok demo_mount"
    unfolding mounts_ok_def demo_mount_node by (auto simp: demo_mount_def demo_dir_def zero_node_def)
qed

theorem vfs_lookup_walk_witness: "vfs_lookup ''/mnt/./f'' demo_mount = Some 4"
proof -
  have n: "\<forall>(c, k) \<in> set [(''mnt'', 0), (''.'', 0), (''f'', 0 :: nat)]. name_ok c" by (simp add: name_ok_def)
  have e: "dir_entry demo_mount 1 ''mnt'' 2" "dir_entry demo_mount 3 ''f'' 4"
    unfolding dir_entry_def demo_mount_kids by (simp_all add: demo_mount_node demo_dir_def zero_node_def is_dir_def)
  have m: "mounted demo_mount 2 = 3" "mounted demo_mount 3 = 3" "mounted demo_mount 4 = 4"
    by (simp_all add: mounted_def demo_mount_def)
  have f: "path_leads demo_mount 3 [''.'', ''f''] 4"
    by (rule path_leads.stay, rule path_leads.down [OF _ _ e(2)]) (simp_all add: m path_leads.here)
  have "path_leads demo_mount 1 (map fst [(''mnt'', 0), (''.'', 0), (''f'', 0 :: nat)]) 4"
    unfolding list.map fst_conv by (rule path_leads.down [OF _ _ e(1)]) (simp_all add: m f)
  then show ?thesis using vfs_lookup_walk [OF demo_mount_ok _ n, of 1 4] by (simp add: demo_mount_def)
qed

end
