(* ===== verification/Net_Base.thy ===== *)
theory Net_Base
  imports Interfaces
begin

text \<open>
  The lower half of the network stack: byte order (\<open>include/net/net.h\<close>), the internet checksum and
  \<open>ip_send\<close> (\<open>services/net/ip.c\<close>), Ethernet frames (\<open>ethernet.c\<close>), the ARP cache (\<open>arp.c\<close>), the routing
  table (\<open>route.c\<close>) and the loopback device (\<open>loopback.c\<close>).

  Packets are byte lists; a structure that is sent is the list of its bytes, multi-byte fields in the
  order in which the little-endian machine stores them. The network card is two lists: the frames
  that will arrive and the frames handed to it. Operations that can leave a buffer have the result
  \<open>None\<close> when they do.
\<close>

section \<open>Bytes\<close>

definition htons :: "u16 \<Rightarrow> u16" where "htons x = push_bit 8 x OR drop_bit 8 x"

definition htonl :: "u32 \<Rightarrow> u32" where
  "htonl x = push_bit 24 x OR push_bit 8 (x AND 0xFF00) OR (drop_bit 8 x AND 0xFF00) OR drop_bit 24 x"

section \<open>The checksum\<close>

fun sum_words :: "u32 \<Rightarrow> u8 list \<Rightarrow> u32" where
  "sum_words acc (a # b # rest) = sum_words (acc + ucast (ucast a OR push_bit 8 (ucast b) :: u16)) rest"
| "sum_words acc [a] = acc + ucast a"
| "sum_words acc [] = acc"

lemma fold_carry_less:
  assumes "drop_bit 16 acc \<noteq> (0 :: u32)"
  shows "unat ((acc AND 0xFFFF) + drop_bit 16 acc) < unat acc"
proof -
  have m: "(0xFFFF :: u32) = mask 16" by (simp add: mask_eq_exp_minus_1)
  have a: "unat (acc AND 0xFFFF) = unat acc mod 65536"
    unfolding m take_bit_eq_mask [symmetric] unsigned_take_bit_eq by (simp only: take_bit_eq_mod) simp
  have d: "unat (drop_bit 16 acc) = unat acc div 65536" unfolding unat_drop_bit_eq by (simp only: drop_bit_eq_div) simp
  have pos: "0 < unat acc div 65536" using assms d by (metis unat_gt_0)
  have eq: "unat acc = unat acc div 65536 * 65536 + unat acc mod 65536" by (metis mult.commute mult_div_mod_eq)
  have "unat acc mod 65536 + unat acc div 65536 < unat acc" using pos eq by linarith
  moreover from this have "unat ((acc AND 0xFFFF) + drop_bit 16 acc) = unat acc mod 65536 + unat acc div 65536"
    using unat_lt_u32 [of acc] by (simp add: unat_word_ariths a d)
  ultimately show ?thesis by simp
qed

function fold_carry :: "u32 \<Rightarrow> u32" where
  "fold_carry acc = (if drop_bit 16 acc \<noteq> 0 then fold_carry ((acc AND 0xFFFF) + drop_bit 16 acc) else acc)"
  by pat_completeness auto
termination by (relation "measure unat") (simp_all add: fold_carry_less)

declare fold_carry.simps [simp del]

text \<open>\<open>data\<close> has the \<open>len\<close> bytes the code is given.\<close>

definition ip_checksum :: "u8 list \<Rightarrow> u16" where
  "ip_checksum data = NOT (ucast (fold_carry (sum_words 0 data)))"

section \<open>State\<close>

record netif =
  nif_mac :: "u8 list"
  nif_ip :: u32
  nif_netmask :: u32
  nif_gateway :: u32

record arp_entry =
  ae_ip :: u32
  ae_mac :: "u8 list"
  ae_valid :: bool

datatype tcp_state = TCP_CLOSED | TCP_LISTEN | TCP_SYN_SENT | TCP_SYN_RECEIVED | TCP_ESTABLISHED
  | TCP_FIN_WAIT_1 | TCP_FIN_WAIT_2 | TCP_CLOSE_WAIT | TCP_CLOSING | TCP_LAST_ACK | TCP_TIME_WAIT

record tcp_conn =
  tc_local_ip :: u32
  tc_remote_ip :: u32
  tc_local_port :: u16
  tc_remote_port :: u16
  tc_seq :: u32
  tc_ack :: u32
  tc_state :: tcp_state
  tc_recv_buf :: "u8 list option"
  tc_recv_len :: u16
  tc_in_use :: bool

datatype dhcp_state = DHCP_STATE_INIT | DHCP_STATE_SELECTING | DHCP_STATE_REQUESTING | DHCP_STATE_BOUND
  | DHCP_STATE_RENEWING | DHCP_STATE_REBINDING

record dhcp_lease =
  le_ip :: u32
  le_netmask :: u32
  le_gateway :: u32
  le_dns :: u32
  le_server :: u32
  le_lease_time :: u32

record dns_entry =
  de_name :: string
  de_ip :: u32
  de_ttl :: u32
  de_valid :: bool

record net =
  nif :: netif
  arp_cache :: "arp_entry list"
  ip_id :: u16
  rx :: "u8 list list"
  rx_buffer :: "u8 list"
  tx :: "u8 list list"
  conns :: "tcp_conn list"
  dhcp_st :: dhcp_state
  dhcp_ls :: dhcp_lease
  dhcp_xid :: u32
  dns_server :: u32
  dns_cache :: "dns_entry list"
  dns_id :: u16
  dns_result_ip :: u32
  dns_result_ready :: bool
  ping_reply :: "(u16 \<times> u32 \<times> u8) option"

definition net_set_ip :: "u32 \<Rightarrow> u32 \<Rightarrow> u32 \<Rightarrow> net \<Rightarrow> net" where
  "net_set_ip ip msk gw s = s\<lparr>nif := (nif s)\<lparr>nif_ip := ip, nif_netmask := msk, nif_gateway := gw\<rparr>\<rparr>"

section \<open>Ethernet\<close>

definition eth_send :: "u8 list \<Rightarrow> u16 \<Rightarrow> u8 list \<Rightarrow> net \<Rightarrow> net" where
  "eth_send dest ty data s = s\<lparr>tx := tx s @ [dest @ nif_mac (nif s) @ le16 (htons ty) @ take 1500 data]\<rparr>"

section \<open>ARP\<close>

abbreviation ARP_CACHE_SIZE :: nat where "ARP_CACHE_SIZE \<equiv> 32"

definition arp_init :: "net \<Rightarrow> net" where
  "arp_init s = s\<lparr>arp_cache := replicate ARP_CACHE_SIZE \<lparr>ae_ip = 0, ae_mac = replicate 6 0, ae_valid = False\<rparr>\<rparr>"

definition arp_slot :: "u32 \<Rightarrow> arp_entry list \<Rightarrow> nat" where
  "arp_slot ip c =
     (case find_idx (\<lambda>e. ae_valid e \<and> ae_ip e = ip) c of
        Some i \<Rightarrow> i
      | None \<Rightarrow> (case find_idx (\<lambda>e. \<not> ae_valid e) c of Some i \<Rightarrow> i | None \<Rightarrow> 0))"

definition arp_add_entry :: "u32 \<Rightarrow> u8 list \<Rightarrow> net \<Rightarrow> net" where
  "arp_add_entry ip mac s =
     s\<lparr>arp_cache := (arp_cache s)[arp_slot ip (arp_cache s) := \<lparr>ae_ip = ip, ae_mac = mac, ae_valid = True\<rparr>]\<rparr>"

definition arp_lookup :: "u32 \<Rightarrow> net \<Rightarrow> u8 list option" where
  "arp_lookup ip s = map_option (\<lambda>i. ae_mac (arp_cache s ! i)) (find_idx (\<lambda>e. ae_valid e \<and> ae_ip e = ip) (arp_cache s))"

definition arp_get_entry :: "int \<Rightarrow> net \<Rightarrow> (u32 \<times> u8 list) option" where
  "arp_get_entry index s =
     (if index < 0 \<or> index \<ge> int ARP_CACHE_SIZE then None
      else let e = arp_cache s ! nat index in if \<not> ae_valid e then None else Some (ae_ip e, ae_mac e))"

definition arp_packet :: "u16 \<Rightarrow> u8 list \<Rightarrow> u32 \<Rightarrow> u8 list \<Rightarrow> u32 \<Rightarrow> u8 list" where
  "arp_packet oper sha spa tha tpa =
     le16 (htons 1) @ le16 (htons 0x0800) @ [6, 4] @ le16 (htons oper) @ sha @ le32 spa @ tha @ le32 tpa"

definition broadcast_mac :: "u8 list" where "broadcast_mac = replicate 6 0xFF"

definition arp_request :: "u32 \<Rightarrow> net \<Rightarrow> net" where
  "arp_request ip s =
     eth_send broadcast_mac 0x0806
       (arp_packet 1 (nif_mac (nif s)) (htonl (nif_ip (nif s))) (replicate 6 0) (htonl ip)) s"

text \<open>\<open>packet\<close> is what lies in memory from the ARP header on, \<open>len\<close> the length that was received.\<close>

definition arp_receive :: "u8 list \<Rightarrow> u16 \<Rightarrow> net \<Rightarrow> net" where
  "arp_receive packet len s =
     (if len < 28 then s
      else
        let oper = htons (rd16 packet 6);
            sha = take 6 (drop 8 packet);
            spa = htonl (rd32 packet 14);
            tpa = htonl (rd32 packet 24);
            s1 = arp_add_entry spa sha s
        in if oper = 1 \<and> tpa = nif_ip (nif s1)
           then eth_send sha 0x0806
                  (arp_packet 2 (nif_mac (nif s1)) (htonl (nif_ip (nif s1))) sha (rd32 packet 14)) s1
           else s1)"

section \<open>Sending IP packets\<close>

abbreviation IP_MTU :: nat where "IP_MTU \<equiv> 1480"

text \<open>The header before its checksum is stored; \<open>len\<close> is the length of the data.\<close>

definition ip_header :: "u16 \<Rightarrow> u8 \<Rightarrow> u32 \<Rightarrow> u32 \<Rightarrow> u16 \<Rightarrow> u8 list" where
  "ip_header pkt_id protocol src dest len =
     [0x45, 0] @ le16 (htons (20 + len)) @ le16 (htons pkt_id) @ [0, 0] @ [64, protocol] @ [0, 0]
     @ le32 (htonl src) @ le32 (htonl dest)"

text \<open>The polling loop that waits for an ARP reply; \<open>poll\<close> is \<open>net_poll\<close>.\<close>

fun arp_wait :: "nat \<Rightarrow> (net \<Rightarrow> net option) \<Rightarrow> u32 \<Rightarrow> net \<Rightarrow> net option" where
  "arp_wait 0 poll ip s = Some s"
| "arp_wait (Suc n) poll ip s =
     (case poll s of
        None \<Rightarrow> None
      | Some s1 \<Rightarrow> if arp_lookup ip s1 \<noteq> None then Some s1 else arp_wait n poll ip s1)"

definition ip_next_hop :: "u32 \<Rightarrow> net \<Rightarrow> u32" where
  "ip_next_hop dest s =
     (let n = nif s in if dest AND nif_netmask n \<noteq> nif_ip n AND nif_netmask n then nif_gateway n else dest)"

definition ip_send :: "(net \<Rightarrow> net option) \<Rightarrow> u32 \<Rightarrow> u8 \<Rightarrow> u8 list \<Rightarrow> net \<Rightarrow> net option" where
  "ip_send poll dest protocol data s =
     (if nif_ip (nif s) = 0 then Some s
      else
        let h = ip_header (ip_id s) protocol (nif_ip (nif s)) dest (of_nat (length data));
            packet = store16 10 (ip_checksum h) h @ take IP_MTU data;
            s1 = s\<lparr>ip_id := ip_id s + 1\<rparr>;
            next_hop = ip_next_hop dest s1
        in case arp_lookup next_hop s1 of
             Some mac \<Rightarrow> Some (eth_send mac 0x0800 packet s1)
           | None \<Rightarrow>
               (case arp_wait 100000 poll next_hop (arp_request next_hop s1) of
                  None \<Rightarrow> None
                | Some s2 \<Rightarrow>
                    (case arp_lookup next_hop s2 of
                       None \<Rightarrow> Some s2
                     | Some mac \<Rightarrow> Some (eth_send mac 0x0800 packet s2))))"

section \<open>The routing table\<close>

record route_entry =
  rt_dest :: u32
  rt_netmask :: u32
  rt_gateway :: u32
  rt_metric :: u32
  rt_flags :: u8
  rt_in_use :: bool
  rt_iface :: string

abbreviation MAX_ROUTES :: nat where "MAX_ROUTES \<equiv> 16"

definition no_route :: route_entry where
  "no_route = \<lparr>rt_dest = 0, rt_netmask = 0, rt_gateway = 0, rt_metric = 0, rt_flags = 0, rt_in_use = False, rt_iface = []\<rparr>"

definition route_init :: "route_entry list" where "route_init = replicate MAX_ROUTES no_route"

definition route_add :: "u32 \<Rightarrow> u32 \<Rightarrow> u32 \<Rightarrow> u32 \<Rightarrow> string option \<Rightarrow> route_entry list \<Rightarrow> int \<times> route_entry list" where
  "route_add dest msk gw metric iface t =
     (case find_idx (\<lambda>r. \<not> rt_in_use r) t of
        None \<Rightarrow> (-1, t)
      | Some i \<Rightarrow>
          (0, t[i := \<lparr>rt_dest = dest, rt_netmask = msk, rt_gateway = gw, rt_metric = metric,
                     rt_flags = 1 OR (if gw \<noteq> 0 then 2 else 0) OR (if dest = 0 \<and> msk = 0 then 8 else 0),
                     rt_in_use = True, rt_iface = (case iface of None \<Rightarrow> ''eth0'' | Some n \<Rightarrow> take 7 n)\<rparr>]))"

definition route_del :: "u32 \<Rightarrow> u32 \<Rightarrow> route_entry list \<Rightarrow> int \<times> route_entry list" where
  "route_del dest msk t =
     (case find_idx (\<lambda>r. rt_in_use r \<and> rt_dest r = dest \<and> rt_netmask r = msk) t of
        None \<Rightarrow> (-1, t)
      | Some i \<Rightarrow> (0, t[i := (t ! i)\<lparr>rt_in_use := False\<rparr>]))"

definition route_match :: "u32 \<Rightarrow> route_entry \<Rightarrow> bool" where
  "route_match dest r \<longleftrightarrow> rt_in_use r \<and> rt_flags r AND 1 \<noteq> 0 \<and> dest AND rt_netmask r = rt_dest r AND rt_netmask r"

text \<open>One iteration of the search; the state is the best gateway, mask and metric so far.\<close>

definition route_pick :: "u32 \<Rightarrow> route_entry \<Rightarrow> u32 \<times> u32 \<times> u32 \<Rightarrow> u32 \<times> u32 \<times> u32" where
  "route_pick dest r best =
     (case best of (gw, msk, metric) \<Rightarrow>
        if route_match dest r \<and> rt_netmask r \<ge> msk \<and> (rt_netmask r > msk \<or> rt_metric r < metric)
        then (rt_gateway r, rt_netmask r, rt_metric r) else best)"

definition route_lookup :: "u32 \<Rightarrow> route_entry list \<Rightarrow> u32" where
  "route_lookup dest t = fst (fold (route_pick dest) t (0, 0, 0xFFFFFFFF))"

definition route_get_count :: "route_entry list \<Rightarrow> nat" where
  "route_get_count t = length (filter rt_in_use t)"

fun route_nth :: "int \<Rightarrow> int \<Rightarrow> route_entry list \<Rightarrow> route_entry option" where
  "route_nth count index [] = None"
| "route_nth count index (r # rs) =
     (if rt_in_use r then if count = index then Some r else route_nth (count + 1) index rs
      else route_nth count index rs)"

definition route_get_entry :: "int \<Rightarrow> route_entry list \<Rightarrow> route_entry option" where
  "route_get_entry index t = route_nth 0 index t"

section \<open>Loopback\<close>

record loopback =
  lo_buffer :: "u8 list"
  lo_head :: u16
  lo_tail :: u16
  lo_count :: u16

abbreviation LOOPBACK_BUFFER_SIZE :: u16 where "LOOPBACK_BUFFER_SIZE \<equiv> 4096"

definition loopback_init :: "loopback \<Rightarrow> loopback" where
  "loopback_init l = l\<lparr>lo_head := 0, lo_tail := 0, lo_count := 0\<rparr>"

text \<open>The two loop bodies, with the change of the counter that the code makes after the loop.\<close>

definition lo_push :: "u8 \<Rightarrow> loopback \<Rightarrow> loopback" where
  "lo_push b l = l\<lparr>lo_buffer := (lo_buffer l)[unat (lo_head l) := b],
     lo_head := (lo_head l + 1) mod LOOPBACK_BUFFER_SIZE, lo_count := lo_count l + 1\<rparr>"

definition lo_pop :: "loopback \<Rightarrow> u8 \<times> loopback" where
  "lo_pop l = (lo_buffer l ! unat (lo_tail l),
     l\<lparr>lo_tail := (lo_tail l + 1) mod LOOPBACK_BUFFER_SIZE, lo_count := lo_count l - 1\<rparr>)"

definition loopback_send :: "u8 list \<Rightarrow> u16 \<Rightarrow> loopback \<Rightarrow> int \<times> loopback" where
  "loopback_send data len l =
     (if len > LOOPBACK_BUFFER_SIZE - lo_count l then (-1, l)
      else (uint len, fold lo_push (take (unat len) data) l))"

definition loopback_receive :: "u16 \<Rightarrow> loopback \<Rightarrow> (int \<times> u8 list) \<times> loopback" where
  "loopback_receive max_len l =
     (if lo_count l = 0 then ((0, []), l)
      else
        let to_read = (if lo_count l > max_len then max_len else lo_count l);
            (bs, l') = pop_n lo_pop (unat to_read) l
        in ((uint to_read, bs), l'))"

definition is_loopback_address :: "u32 \<Rightarrow> bool" where
  "is_loopback_address ip \<longleftrightarrow> ip AND 0xFF000000 = 0x7F000000"

end
