(* ===== verification/Net_Proto.thy ===== *)
theory Net_Proto
  imports Net_Base
begin

text \<open>
  The protocols above IP: \<open>services/net/icmp.c\<close>, \<open>udp.c\<close>, \<open>tcp.c\<close>, \<open>dhcp.c\<close> and \<open>dns.c\<close>. Every operation
  that sends takes \<open>poll\<close>, the function \<open>net_poll\<close> that \<open>ip_send\<close> calls while it waits for an ARP reply;
  \<open>Net_Stack\<close> closes this recursion. A packet argument is what lies in memory from the header on (the
  receive buffer is longer than the packet), and \<open>len\<close> the length the code was told.
\<close>

section \<open>ICMP\<close>

text \<open>The second copy of the checksum.\<close>

definition icmp_checksum :: "u8 list \<Rightarrow> u16" where
  "icmp_checksum data = NOT (ucast (fold_carry (sum_words 0 data)))"

text \<open>\<open>packet[64]\<close> holds 56 bytes of data; \<open>data\<close> has at least \<open>len\<close> bytes.\<close>

definition icmp_packet :: "u8 \<Rightarrow> u16 \<Rightarrow> u16 \<Rightarrow> u8 list \<Rightarrow> u16 \<Rightarrow> u8 list" where
  "icmp_packet ty ident seqn data len =
     (let len1 = (if len > 56 then 56 else len);
          p = [ty, 0, 0, 0] @ le16 (htons ident) @ le16 (htons seqn) @ take (unat len1) data
      in store16 2 (icmp_checksum p) p)"

definition icmp_send_echo_request ::
  "(net \<Rightarrow> net option) \<Rightarrow> u32 \<Rightarrow> u16 \<Rightarrow> u16 \<Rightarrow> u8 list \<Rightarrow> u16 \<Rightarrow> net \<Rightarrow> net option" where
  "icmp_send_echo_request poll dest ident seqn data len s =
     ip_send poll dest 1 (icmp_packet 8 ident seqn data len) s"

definition icmp_send_echo_reply ::
  "(net \<Rightarrow> net option) \<Rightarrow> u32 \<Rightarrow> u16 \<Rightarrow> u16 \<Rightarrow> u8 list \<Rightarrow> u16 \<Rightarrow> net \<Rightarrow> net option" where
  "icmp_send_echo_reply poll dest ident seqn data len s =
     ip_send poll dest 1 (icmp_packet 0 ident seqn data len) s"

definition icmp_receive :: "(net \<Rightarrow> net option) \<Rightarrow> u32 \<Rightarrow> u8 list \<Rightarrow> u16 \<Rightarrow> net \<Rightarrow> net option" where
  "icmp_receive poll src packet len s =
     (if len < 8 then Some s
      else if packet ! 0 = 8 then
        icmp_send_echo_reply poll src (htons (rd16 packet 4)) (htons (rd16 packet 6)) (drop 8 packet) (len - 8) s
      else if packet ! 0 = 0 then Some (s\<lparr>ping_reply := Some (len, 0, 64)\<rparr>)
      else Some s)"

section \<open>UDP\<close>

definition udp_send :: "(net \<Rightarrow> net option) \<Rightarrow> u32 \<Rightarrow> u16 \<Rightarrow> u16 \<Rightarrow> u8 list \<Rightarrow> net \<Rightarrow> (int \<times> net) option" where
  "udp_send poll dest src_port dest_port data s =
     (let len = of_nat (length data) :: u16;
          hdr = le16 (htons src_port) @ le16 (htons dest_port) @ le16 (htons (8 + len)) @ [0, 0]
      in map_option (Pair (uint (if len > 1492 then 1492 else len)))
           (ip_send poll dest 17 (hdr @ take 1492 data) s))"

section \<open>DHCP\<close>

definition dhcp_init :: "net \<Rightarrow> net" where
  "dhcp_init s = s\<lparr>dhcp_ls := \<lparr>le_ip = 0, le_netmask = 0, le_gateway = 0, le_dns = 0, le_server = 0, le_lease_time = 0\<rparr>,
     dhcp_st := DHCP_STATE_INIT\<rparr>"

definition dhcp_option :: "u8 \<Rightarrow> u8 list \<Rightarrow> u8 list" where
  "dhcp_option ty data = [ty, of_nat (length data)] @ data"

text \<open>The 548 bytes of \<open>dhcp_header_t\<close> with the fields the client sets; \<open>opts\<close> are the used options.\<close>

definition dhcp_packet :: "u32 \<Rightarrow> u8 list \<Rightarrow> u8 list \<Rightarrow> u8 list" where
  "dhcp_packet xid mac opts =
     [1, 1, 6, 0] @ le32 (htonl xid) @ [0, 0] @ le16 (htons 0x8000) @ replicate 16 0 @ mac @ replicate 10 0
     @ replicate 64 0 @ replicate 128 0 @ le32 (htonl 0x63825363) @ opts @ replicate (308 - length opts) 0"

definition dhcp_discover :: "(net \<Rightarrow> net option) \<Rightarrow> net \<Rightarrow> (int \<times> net) option" where
  "dhcp_discover poll s =
     (let xid = dhcp_xid s;
          opts = dhcp_option 53 [1] @ dhcp_option 55 [1, 3, 6] @ [255]
      in case udp_send poll 0xFFFFFFFF 68 67 (dhcp_packet xid (nif_mac (nif s)) opts) (s\<lparr>dhcp_xid := xid + 1\<rparr>) of
           None \<Rightarrow> None
         | Some (_, s1) \<Rightarrow> Some (0, s1\<lparr>dhcp_st := DHCP_STATE_SELECTING\<rparr>))"

definition dhcp_request :: "(net \<Rightarrow> net option) \<Rightarrow> u32 \<Rightarrow> u32 \<Rightarrow> net \<Rightarrow> (int \<times> net) option" where
  "dhcp_request poll requested_ip server_ip s =
     (let xid = dhcp_xid s;
          opts = dhcp_option 53 [3] @ dhcp_option 50 (le32 (htonl requested_ip)) @ dhcp_option 54 (le32 (htonl server_ip)) @ [255]
      in case udp_send poll 0xFFFFFFFF 68 67 (dhcp_packet xid (nif_mac (nif s)) opts) (s\<lparr>dhcp_xid := xid + 1\<rparr>) of
           None \<Rightarrow> None
         | Some (_, s1) \<Rightarrow> Some (0, s1\<lparr>dhcp_st := DHCP_STATE_REQUESTING\<rparr>))"

record dhcp_opts =
  do_msg_type :: u8
  do_server_id :: u32
  do_subnet :: u32
  do_router :: u32
  do_dns :: u32
  do_lease_time :: u32

text \<open>
  One option with its value at offset \<open>i\<close>, and the loop from offset \<open>i\<close> on; the options start at 240
  and the loop stops at 255 or at 548. It reads at most 260 bytes past 548, inside the receive buffer.
\<close>

definition dhcp_take_option :: "u8 \<Rightarrow> u8 list \<Rightarrow> nat \<Rightarrow> dhcp_opts \<Rightarrow> dhcp_opts" where
  "dhcp_take_option ty p i v =
     (if ty = 53 then v\<lparr>do_msg_type := p ! i\<rparr>
      else if ty = 54 then v\<lparr>do_server_id := htonl (rd32 p i)\<rparr>
      else if ty = 1 then v\<lparr>do_subnet := htonl (rd32 p i)\<rparr>
      else if ty = 3 then v\<lparr>do_router := htonl (rd32 p i)\<rparr>
      else if ty = 6 then v\<lparr>do_dns := htonl (rd32 p i)\<rparr>
      else if ty = 51 then v\<lparr>do_lease_time := htonl (rd32 p i)\<rparr>
      else v)"

function dhcp_options :: "u8 list \<Rightarrow> nat \<Rightarrow> dhcp_opts \<Rightarrow> dhcp_opts" where
  "dhcp_options p i v =
     (if p ! i \<noteq> 255 \<and> i < 548 then
        if p ! i = 0 then dhcp_options p (i + 1) v
        else dhcp_options p (i + 2 + unat (p ! (i + 1))) (dhcp_take_option (p ! i) p (i + 2) v)
      else v)"
  by pat_completeness auto
termination by (relation "measure (\<lambda>(p, i, v). 548 - i)") auto

declare dhcp_options.simps [simp del]

definition dhcp_receive :: "(net \<Rightarrow> net option) \<Rightarrow> u8 list \<Rightarrow> u16 \<Rightarrow> net \<Rightarrow> net option" where
  "dhcp_receive poll p len s =
     (if len < 240 then Some s
      else if p ! 0 \<noteq> 2 then Some s
      else if htonl (rd32 p 236) \<noteq> 0x63825363 then Some s
      else
        let v = dhcp_options p 240 \<lparr>do_msg_type = 0, do_server_id = 0, do_subnet = 0, do_router = 0, do_dns = 0, do_lease_time = 0\<rparr>;
            offered_ip = htonl (rd32 p 16)
        in if do_msg_type v = 2 \<and> dhcp_st s = DHCP_STATE_SELECTING then
             map_option snd (dhcp_request poll offered_ip (do_server_id v)
               (s\<lparr>dhcp_ls := (dhcp_ls s)\<lparr>le_ip := offered_ip, le_server := do_server_id v\<rparr>\<rparr>))
           else if do_msg_type v = 5 \<and> dhcp_st s = DHCP_STATE_REQUESTING then
             Some ((net_set_ip offered_ip (do_subnet v) (do_router v)
               (s\<lparr>dhcp_ls := (dhcp_ls s)\<lparr>le_ip := offered_ip, le_netmask := do_subnet v, le_gateway := do_router v,
                    le_dns := do_dns v, le_lease_time := do_lease_time v\<rparr>\<rparr>))\<lparr>dhcp_st := DHCP_STATE_BOUND\<rparr>)
           else if do_msg_type v = 6 then Some (s\<lparr>dhcp_st := DHCP_STATE_INIT\<rparr>)
           else Some s)"

section \<open>DNS\<close>

abbreviation DNS_CACHE_SIZE :: nat where "DNS_CACHE_SIZE \<equiv> 16"

definition dns_init :: "net \<Rightarrow> net" where
  "dns_init s = s\<lparr>dns_cache := replicate DNS_CACHE_SIZE \<lparr>de_name = [], de_ip = 0, de_ttl = 0, de_valid = False\<rparr>,
     dns_server := 0x08080808\<rparr>"

definition dns_set_server :: "u32 \<Rightarrow> net \<Rightarrow> net" where "dns_set_server ip s = s\<lparr>dns_server := ip\<rparr>"

definition dns_cache_lookup :: "string \<Rightarrow> net \<Rightarrow> u32 option" where
  "dns_cache_lookup name s =
     map_option (\<lambda>i. de_ip (dns_cache s ! i)) (find_idx (\<lambda>e. de_valid e \<and> de_name e = name) (dns_cache s))"

definition dns_cache_add :: "string \<Rightarrow> u32 \<Rightarrow> u32 \<Rightarrow> net \<Rightarrow> net" where
  "dns_cache_add name ip ttl s =
     (let slot = (case find_idx (\<lambda>e. \<not> de_valid e) (dns_cache s) of None \<Rightarrow> 0 | Some i \<Rightarrow> i)
      in s\<lparr>dns_cache := (dns_cache s)[slot := \<lparr>de_name = take 255 name, de_ip = ip, de_ttl = ttl, de_valid = True\<rparr>]\<rparr>)"

text \<open>The encoding of a name: each label behind its length (as one byte), and a zero byte.\<close>

function dns_labels :: "string \<Rightarrow> u8 list" where
  "dns_labels p =
     (if p = [] then []
      else
        let l = takeWhile (\<lambda>c. c \<noteq> CHR ''.'') p
        in of_nat (length l) # map of_char l @ dns_labels (drop (length l + 1) p))"
  by pat_completeness auto
termination by (relation "measure length") auto

declare dns_labels.simps [simp del]

definition dns_encode_name :: "string \<Rightarrow> u8 list" where "dns_encode_name name = dns_labels name @ [0]"

definition dns_query :: "u16 \<Rightarrow> string \<Rightarrow> u8 list" where
  "dns_query ident name =
     le16 (htons ident) @ le16 (htons 0x0100) @ le16 (htons 1) @ replicate 6 0 @ dns_encode_name name @ [0, 1, 0, 1]"

text \<open>The waiting loop of \<open>dns_resolve\<close>.\<close>

fun dns_wait :: "nat \<Rightarrow> (net \<Rightarrow> net option) \<Rightarrow> net \<Rightarrow> net option" where
  "dns_wait 0 poll s = Some s"
| "dns_wait (Suc n) poll s =
     (if dns_result_ready s then Some s else case poll s of None \<Rightarrow> None | Some s1 \<Rightarrow> dns_wait n poll s1)"

text \<open>The query is built in \<open>packet[512]\<close>; a longer one is written past it.\<close>

definition dns_resolve :: "(net \<Rightarrow> net option) \<Rightarrow> string \<Rightarrow> net \<Rightarrow> ((int \<times> u32 option) \<times> net) option" where
  "dns_resolve poll name s =
     (case dns_cache_lookup name s of
        Some ip \<Rightarrow> Some ((0, Some ip), s)
      | None \<Rightarrow>
          if dns_server s = 0 then Some ((-1, None), s)
          else if length (dns_query (dns_id s) name) > 512 then None
          else
            let s1 = s\<lparr>dns_id := dns_id s + 1, dns_result_ready := False, dns_result_ip := 0\<rparr>
            in case udp_send poll (dns_server s1) 53535 53 (dns_query (dns_id s) name) s1 of
                 None \<Rightarrow> None
               | Some (_, s2) \<Rightarrow>
                   (case dns_wait 2000000 poll s2 of
                      None \<Rightarrow> None
                    | Some s3 \<Rightarrow>
                        if dns_result_ready s3 \<and> dns_result_ip s3 \<noteq> 0
                        then Some ((0, Some (dns_result_ip s3)), dns_cache_add name (dns_result_ip s3) 300 s3)
                        else Some ((-1, None), s3)))"

text \<open>A byte of the receive buffer; \<open>None\<close> past its end.\<close>

definition byte_at :: "u8 list \<Rightarrow> nat \<Rightarrow> u8 option" where
  "byte_at d i = (if i < length d then Some (d ! i) else None)"

text \<open>The loop over the labels of the question; \<open>e\<close> is the end of the message as the code was told.\<close>

function dns_skip_question :: "u8 list \<Rightarrow> nat \<Rightarrow> nat \<Rightarrow> nat option" where
  "dns_skip_question d e i =
     (if i < e then
        case byte_at d i of
          None \<Rightarrow> None
        | Some b \<Rightarrow>
            if b = 0 then Some i
            else if b AND 0xC0 = 0xC0 then Some (i + 2)
            else dns_skip_question d e (i + unat b + 1)
      else Some i)"
  by pat_completeness auto
termination by (relation "measure (\<lambda>(d, e, i). e - i)") auto

function dns_skip_name :: "u8 list \<Rightarrow> nat \<Rightarrow> nat \<Rightarrow> nat option" where
  "dns_skip_name d e i =
     (if i < e then
        case byte_at d i of
          None \<Rightarrow> None
        | Some b \<Rightarrow> if b = 0 then Some i else dns_skip_name d e (i + unat b + 1)
      else Some i)"
  by pat_completeness auto
termination by (relation "measure (\<lambda>(d, e, i). e - i)") auto

declare dns_skip_question.simps [simp del] dns_skip_name.simps [simp del]

text \<open>The answers: \<open>n\<close> are left, the next starts at \<open>i\<close>; the result is the address, if there is one.\<close>

fun dns_answers :: "u8 list \<Rightarrow> nat \<Rightarrow> nat \<Rightarrow> nat \<Rightarrow> u32 option option" where
  "dns_answers d e 0 i = Some None"
| "dns_answers d e (Suc n) i =
     (if \<not> i < e then Some None
      else case byte_at d i of
        None \<Rightarrow> None
      | Some b \<Rightarrow>
          (case (if b AND 0xC0 = 0xC0 then Some (i + 2)
                 else map_option (\<lambda>j. if j < e then j + 1 else j) (dns_skip_name d e i)) of
             None \<Rightarrow> None
           | Some j \<Rightarrow>
               if j + 10 > e then Some None
               else if j + 10 > length d then None
               else
                 let ty = htons (rd16 d j); rdlen = htons (rd16 d (j + 8)); k = j + 10
                 in if ty = 1 \<and> rdlen = 4 \<and> k + 4 \<le> e
                    then if k + 4 \<le> length d then Some (Some (htonl (rd32 d k))) else None
                    else dns_answers d e n (k + unat rdlen)))"

definition dns_receive :: "u8 list \<Rightarrow> u16 \<Rightarrow> net \<Rightarrow> net option" where
  "dns_receive d len s =
     (let flags = htons (rd16 d 2); ancount = htons (rd16 d 6); e = unat len in
      if len < 12 then Some s
      else if flags AND 0x8000 = 0 then Some s
      else if flags AND 0x000F \<noteq> 0 then Some (s\<lparr>dns_result_ready := True\<rparr>)
      else if ancount = 0 then Some (s\<lparr>dns_result_ready := True\<rparr>)
      else
        case dns_skip_question d e 12 of
          None \<Rightarrow> None
        | Some i \<Rightarrow>
            (case byte_at d i of
               None \<Rightarrow> None
             | Some b \<Rightarrow>
                 (case dns_answers d e (unat ancount) ((if b = 0 then i + 1 else i) + 4) of
                    None \<Rightarrow> None
                  | Some None \<Rightarrow> Some (s\<lparr>dns_result_ready := True\<rparr>)
                  | Some (Some ip) \<Rightarrow> Some (s\<lparr>dns_result_ip := ip, dns_result_ready := True\<rparr>))))"

section \<open>Receiving UDP\<close>

definition udp_receive :: "(net \<Rightarrow> net option) \<Rightarrow> u8 list \<Rightarrow> u16 \<Rightarrow> net \<Rightarrow> net option" where
  "udp_receive poll packet len s =
     (if len < 8 then Some s
      else
        let src_port = htons (rd16 packet 0); dest_port = htons (rd16 packet 2);
            data_len = htons (rd16 packet 4) - 8; data = drop 8 packet
        in if src_port = 53 then dns_receive data data_len s
           else if src_port = 67 \<or> dest_port = 68 then dhcp_receive poll data data_len s
           else Some s)"

section \<open>TCP\<close>

abbreviation TCP_FIN :: u8 where "TCP_FIN \<equiv> 0x01"
abbreviation TCP_SYN :: u8 where "TCP_SYN \<equiv> 0x02"
abbreviation TCP_PSH :: u8 where "TCP_PSH \<equiv> 0x08"
abbreviation TCP_ACK :: u8 where "TCP_ACK \<equiv> 0x10"
abbreviation MAX_TCP_CONNECTIONS :: nat where "MAX_TCP_CONNECTIONS \<equiv> 16"

definition zero_conn :: tcp_conn where
  "zero_conn = \<lparr>tc_local_ip = 0, tc_remote_ip = 0, tc_local_port = 0, tc_remote_port = 0, tc_seq = 0, tc_ack = 0,
     tc_state = TCP_CLOSED, tc_recv_buf = None, tc_recv_len = 0, tc_in_use = False\<rparr>"

definition upd_conn :: "nat \<Rightarrow> (tcp_conn \<Rightarrow> tcp_conn) \<Rightarrow> net \<Rightarrow> net" where
  "upd_conn k f s = s\<lparr>conns := (conns s)[k := f (conns s ! k)]\<rparr>"

definition tcp_init :: "net \<Rightarrow> net" where "tcp_init s = s\<lparr>conns := replicate MAX_TCP_CONNECTIONS zero_conn\<rparr>"

definition tcp_alloc_conn :: "net \<Rightarrow> nat option \<times> net" where
  "tcp_alloc_conn s =
     (case find_idx (\<lambda>c. \<not> tc_in_use c) (conns s) of
        None \<Rightarrow> (None, s)
      | Some k \<Rightarrow> (Some k, upd_conn k (\<lambda>_. zero_conn\<lparr>tc_in_use := True\<rparr>) s))"

definition tcp_find_conn :: "u32 \<Rightarrow> u16 \<Rightarrow> u16 \<Rightarrow> net \<Rightarrow> nat option" where
  "tcp_find_conn remote_ip remote_port local_port s =
     find_idx (\<lambda>c. tc_in_use c \<and> tc_remote_ip c = remote_ip \<and> tc_remote_port c = remote_port \<and> tc_local_port c = local_port) (conns s)"

definition tcp_checksum :: "u32 \<Rightarrow> u32 \<Rightarrow> u8 list \<Rightarrow> u16 \<Rightarrow> u16" where
  "tcp_checksum src dest data len =
     NOT (ucast (fold_carry (sum_words
       ((drop_bit 16 src AND 0xFFFF) + (src AND 0xFFFF) + (drop_bit 16 dest AND 0xFFFF) + (dest AND 0xFFFF)
        + ucast (htons 6) + ucast (htons len)) data)))"

definition tcp_header :: "tcp_conn \<Rightarrow> u8 \<Rightarrow> u8 list" where
  "tcp_header c flags =
     le16 (htons (tc_local_port c)) @ le16 (htons (tc_remote_port c)) @ le32 (htonl (tc_seq c)) @ le32 (htonl (tc_ack c))
     @ [0x50, flags] @ le16 (htons 8192) @ [0, 0] @ [0, 0]"

text \<open>The segment is built in \<open>packet[1500]\<close>; more data than 1480 bytes is written past it.\<close>

definition tcp_send_packet :: "(net \<Rightarrow> net option) \<Rightarrow> nat \<Rightarrow> u8 \<Rightarrow> u8 list \<Rightarrow> net \<Rightarrow> net option" where
  "tcp_send_packet poll k flags data s =
     (if length data > 1480 then None
      else
        let c = conns s ! k; p = tcp_header c flags @ data
        in ip_send poll (tc_remote_ip c) 6
             (store16 16 (tcp_checksum (nif_ip (nif s)) (tc_remote_ip c) p (of_nat (length p))) p) s)"

definition tcp_connect :: "(net \<Rightarrow> net option) \<Rightarrow> u32 \<Rightarrow> u16 \<Rightarrow> net \<Rightarrow> (nat option \<times> net) option" where
  "tcp_connect poll dest_ip dest_port s =
     (case tcp_alloc_conn s of
        (None, s1) \<Rightarrow> Some (None, s1)
      | (Some k, s1) \<Rightarrow>
          let s2 = upd_conn k (\<lambda>c. c\<lparr>tc_local_ip := nif_ip (nif s1), tc_remote_ip := dest_ip,
                     tc_local_port := 49152 + dest_port mod 16384, tc_remote_port := dest_port,
                     tc_seq := 1000, tc_ack := 0, tc_state := TCP_SYN_SENT\<rparr>) s1
          in case tcp_send_packet poll k TCP_SYN [] s2 of
               None \<Rightarrow> None
             | Some s3 \<Rightarrow> Some (Some k, upd_conn k (\<lambda>c. c\<lparr>tc_seq := tc_seq c + 1\<rparr>) s3))"

definition tcp_listen :: "u16 \<Rightarrow> net \<Rightarrow> nat option \<times> net" where
  "tcp_listen port s =
     (case tcp_alloc_conn s of
        (None, s1) \<Rightarrow> (None, s1)
      | (Some k, s1) \<Rightarrow>
          (Some k, upd_conn k (\<lambda>c. c\<lparr>tc_local_ip := nif_ip (nif s1), tc_local_port := port, tc_state := TCP_LISTEN\<rparr>) s1))"

definition tcp_accept :: "nat \<Rightarrow> nat option" where "tcp_accept listener = None"

definition tcp_send :: "(net \<Rightarrow> net option) \<Rightarrow> nat option \<Rightarrow> u8 list \<Rightarrow> net \<Rightarrow> (int \<times> net) option" where
  "tcp_send poll conn data s =
     (case conn of
        None \<Rightarrow> Some (-1, s)
      | Some k \<Rightarrow>
          if tc_state (conns s ! k) \<noteq> TCP_ESTABLISHED then Some (-1, s)
          else case tcp_send_packet poll k (TCP_ACK OR TCP_PSH) data s of
                 None \<Rightarrow> None
               | Some s1 \<Rightarrow> Some (int (length data), upd_conn k (\<lambda>c. c\<lparr>tc_seq := tc_seq c + of_nat (length data)\<rparr>) s1))"

definition tcp_recv :: "nat option \<Rightarrow> u16 \<Rightarrow> net \<Rightarrow> (int \<times> u8 list) \<times> net" where
  "tcp_recv conn max_len s =
     (case conn of
        None \<Rightarrow> ((0, []), s)
      | Some k \<Rightarrow>
          (case tc_recv_buf (conns s ! k) of
             None \<Rightarrow> ((0, []), s)
           | Some b \<Rightarrow>
               if tc_recv_len (conns s ! k) = 0 then ((0, []), s)
               else
                 let len = (if tc_recv_len (conns s ! k) < max_len then tc_recv_len (conns s ! k) else max_len)
                 in ((uint len, take (unat len) b), upd_conn k (\<lambda>c. c\<lparr>tc_recv_len := 0\<rparr>) s)))"

definition tcp_close :: "(net \<Rightarrow> net option) \<Rightarrow> nat option \<Rightarrow> net \<Rightarrow> net option" where
  "tcp_close poll conn s =
     (case conn of
        None \<Rightarrow> Some s
      | Some k \<Rightarrow>
          map_option (upd_conn k (\<lambda>c. c\<lparr>tc_in_use := False\<rparr>))
            (if tc_state (conns s ! k) = TCP_ESTABLISHED then
               map_option (upd_conn k (\<lambda>c. c\<lparr>tc_state := TCP_FIN_WAIT_1\<rparr>)) (tcp_send_packet poll k (TCP_FIN OR TCP_ACK) [] s)
             else Some s))"

definition tcp_target :: "u32 \<Rightarrow> u16 \<Rightarrow> u16 \<Rightarrow> net \<Rightarrow> nat option" where
  "tcp_target src_ip src_port dest_port s =
     (case tcp_find_conn src_ip src_port dest_port s of
        Some k \<Rightarrow> Some k
      | None \<Rightarrow> find_idx (\<lambda>c. tc_in_use c \<and> tc_state c = TCP_LISTEN \<and> tc_local_port c = dest_port) (conns s))"

definition tcp_receive :: "(net \<Rightarrow> net option) \<Rightarrow> u32 \<Rightarrow> u8 list \<Rightarrow> u16 \<Rightarrow> net \<Rightarrow> net option" where
  "tcp_receive poll src_ip packet len s =
     (if len < 20 then Some s
      else
        let src_port = htons (rd16 packet 0); dest_port = htons (rd16 packet 2);
            seqn = htonl (rd32 packet 4); flags = packet ! 13
        in case tcp_target src_ip src_port dest_port s of
             None \<Rightarrow> Some s
           | Some k \<Rightarrow>
               (case tc_state (conns s ! k) of
                  TCP_LISTEN \<Rightarrow>
                    if flags AND TCP_SYN \<noteq> 0 then
                      map_option (upd_conn k (\<lambda>c. c\<lparr>tc_seq := tc_seq c + 1\<rparr>))
                        (tcp_send_packet poll k (TCP_SYN OR TCP_ACK) []
                          (upd_conn k (\<lambda>c. c\<lparr>tc_remote_ip := src_ip, tc_remote_port := src_port, tc_ack := seqn + 1,
                             tc_seq := 2000, tc_state := TCP_SYN_RECEIVED\<rparr>) s))
                    else Some s
                | TCP_SYN_SENT \<Rightarrow>
                    if flags AND TCP_SYN \<noteq> 0 \<and> flags AND TCP_ACK \<noteq> 0 then
                      tcp_send_packet poll k TCP_ACK [] (upd_conn k (\<lambda>c. c\<lparr>tc_ack := seqn + 1, tc_state := TCP_ESTABLISHED\<rparr>) s)
                    else Some s
                | TCP_SYN_RECEIVED \<Rightarrow>
                    if flags AND TCP_ACK \<noteq> 0 then Some (upd_conn k (\<lambda>c. c\<lparr>tc_state := TCP_ESTABLISHED\<rparr>) s) else Some s
                | TCP_ESTABLISHED \<Rightarrow>
                    if flags AND TCP_FIN \<noteq> 0 then
                      map_option (upd_conn k (\<lambda>c. c\<lparr>tc_state := TCP_CLOSE_WAIT\<rparr>))
                        (tcp_send_packet poll k TCP_ACK [] (upd_conn k (\<lambda>c. c\<lparr>tc_ack := seqn + 1\<rparr>) s))
                    else if flags AND TCP_ACK \<noteq> 0 then
                      let data_len = len - ucast (drop_bit 4 (packet ! 12) AND 0xF) * 4
                      in if data_len > 0 then
                           tcp_send_packet poll k TCP_ACK [] (upd_conn k (\<lambda>c. c\<lparr>tc_ack := seqn + ucast data_len\<rparr>) s)
                         else Some s
                    else Some s
                | _ \<Rightarrow> Some s))"

end
