(* ===== verification/Net_Stack.thy ===== *)
theory Net_Stack
  imports Net_Proto
begin

text \<open>
  The receive path: \<open>ip_receive\<close> (\<open>services/net/ip.c\<close>), \<open>eth_receive\<close> (\<open>ethernet.c\<close>) and \<open>net_poll\<close>
  (\<open>net.c\<close>). A handler may send, sending may wait for ARP, and waiting polls again, so the code is
  mutually recursive; every poll that calls itself has taken a frame from the card, and \<open>net_poll_n n\<close>
  is the poll with at most \<open>n\<close> nested polls. \<open>net_poll\<close> allows one for every frame that is waiting,
  which is enough (\<open>Net_Flow.net_poll_enough\<close>).
\<close>

definition ip_receive :: "(net \<Rightarrow> net option) \<Rightarrow> u8 list \<Rightarrow> u16 \<Rightarrow> net \<Rightarrow> net option" where
  "ip_receive poll packet len s =
     (if len < 20 then Some s
      else if drop_bit 4 (packet ! 0) \<noteq> 4 then Some s
      else
        let hdr_len = ucast (packet ! 0 AND 0x0F) * 4 :: u16;
            dest_ip = htonl (rd32 packet 16); src_ip = htonl (rd32 packet 12)
        in if nif_ip (nif s) \<noteq> 0 \<and> dest_ip \<noteq> nif_ip (nif s) \<and> dest_ip \<noteq> 0xFFFFFFFF then Some s
           else
             let data = drop (unat hdr_len) packet; data_len = htons (rd16 packet 2) - hdr_len
             in if packet ! 9 = 1 then icmp_receive poll src_ip data data_len s
                else if packet ! 9 = 17 then udp_receive poll data data_len s
                else if packet ! 9 = 6 then tcp_receive poll src_ip data data_len s
                else Some s)"

definition eth_receive :: "(net \<Rightarrow> net option) \<Rightarrow> u8 list \<Rightarrow> u16 \<Rightarrow> net \<Rightarrow> net option" where
  "eth_receive poll frame len s =
     (if len < 14 then Some s
      else
        let data = drop 14 frame; data_len = len - 14; ty = htons (rd16 frame 12)
        in if ty = 0x0806 then Some (arp_receive data data_len s)
           else if ty = 0x0800 then ip_receive poll data data_len s
           else Some s)"

text \<open>\<open>netif->receive\<close>: the next frame, at most \<open>sizeof(rx_buffer)\<close> bytes of it, is copied into the buffer.\<close>

definition net_take :: "net \<Rightarrow> (u16 \<times> net) option" where
  "net_take s =
     (case rx s of
        [] \<Rightarrow> None
      | f # fs \<Rightarrow>
          let g = take 2048 f
          in Some (of_nat (length g), s\<lparr>rx := fs, rx_buffer := g @ drop (length g) (rx_buffer s)\<rparr>))"

text \<open>The loop of \<open>net_poll\<close>: \<open>left\<close> frames may still be handled; the frame after them is taken and lost.\<close>

fun poll_loop :: "(net \<Rightarrow> net option) \<Rightarrow> nat \<Rightarrow> net \<Rightarrow> net option" where
  "poll_loop poll left s =
     (case net_take s of
        None \<Rightarrow> Some s
      | Some (len, s1) \<Rightarrow>
          if len = 0 then Some s1
          else (case left of
                  0 \<Rightarrow> Some s1
                | Suc m \<Rightarrow> (case eth_receive poll (rx_buffer s1) len s1 of
                              None \<Rightarrow> None | Some s2 \<Rightarrow> poll_loop poll m s2)))"

fun net_poll_n :: "nat \<Rightarrow> net \<Rightarrow> net option" where
  "net_poll_n 0 s = Some s"
| "net_poll_n (Suc n) s = poll_loop (net_poll_n n) 16 s"

definition net_poll :: "net \<Rightarrow> net option" where "net_poll s = net_poll_n (length (rx s)) s"

end
