(* ===== verification/Net_Props.thy ===== *)
theory Net_Props
  imports Net_Stack
begin

text \<open>
  The lower half of the network stack and the echo service: byte order round trips, the internet
  checksum as arithmetic modulo 65535, the routing decision, the loopback device as a bounded queue,
  the nesting of polls, and what a frame that arrives does.
\<close>

section \<open>Bytes\<close>

lemma htons_htons [simp]: "htons (htons x) = x"
  unfolding htons_def by (rule bit_word_eqI) (auto simp: bit_simps)

lemma bit_htonl:
  assumes "n < 32"
  shows "bit (htonl x) n \<longleftrightarrow> (if n < 8 then bit x (n + 24) else if n < 16 then bit x (n + 8)
     else if n < 24 then bit x (n - 8) else bit x (n - 24))"
proof -
  have e: "(0xFF00 :: u32) = push_bit 8 (mask 8)" by (simp add: mask_eq_exp_minus_1)
  consider "n < 8" | "8 \<le> n" "n < 16" | "16 \<le> n" "n < 24" | "24 \<le> n" by linarith
  then show ?thesis
    unfolding htonl_def e using assms by cases (auto simp: bit_simps add.commute dest: bit_imp_le_length)
qed

lemma htonl_htonl [simp]: "htonl (htonl x) = x"
proof (rule bit_word_eqI)
  fix n assume "n < LENGTH(32)"
  then have n: "n < 32" by simp
  consider "n < 8" | "8 \<le> n" "n < 16" | "16 \<le> n" "n < 24" | "24 \<le> n" by linarith
  then show "bit (htonl (htonl x)) n = bit x n"
  proof cases
    case 3
    then have "\<not> n - 8 < 8" "n - 8 < 16" by linarith+
    then show ?thesis using 3 n by (simp add: bit_htonl)
  next
    case 4
    then have "n - 24 < 8" using n by linarith
    then show ?thesis using 4 n by (simp add: bit_htonl)
  qed (use n in \<open>simp_all add: bit_htonl\<close>)
qed

lemma htonl_inj: "htonl x = htonl y \<longleftrightarrow> x = y"
  by (metis htonl_htonl)

section \<open>The checksum\<close>

text \<open>The sum of the little-endian words of a byte list.\<close>

fun wsum :: "u8 list \<Rightarrow> nat" where
  "wsum (a # b # r) = unat a + 256 * unat b + wsum r"
| "wsum [a] = unat a"
| "wsum [] = 0"

lemma unat_word16: "unat ((ucast (a :: u8) :: u16) OR push_bit 8 (ucast (b :: u8))) = unat a + 256 * unat b"
proof -
  have d: "(ucast a :: u16) AND push_bit 8 (ucast b) = 0"
    by (rule bit_word_eqI) (auto simp: bit_simps dest: bit_imp_le_length)
  have "(ucast a :: u16) OR push_bit 8 (ucast b) = ucast a + push_bit 8 (ucast b)"
    using disjunctive_add_eq_or [OF d] by simp
  then show ?thesis
    using unat_lt_u8 [of a] unat_lt_u8 [of b]
    by (simp add: push_bit_eq_mult unat_word_ariths unat_up)
qed

lemma wsum_bound: "wsum bs \<le> 65535 * ((length bs + 1) div 2)"
proof (induction bs rule: wsum.induct)
  case (1 a b r)
  then show ?case using unat_lt_u8 [of a] unat_lt_u8 [of b] by simp
next
  case (2 a)
  then show ?case using unat_lt_u8 [of a] by simp
qed simp

lemma sum_words_wsum:
  "unat acc + wsum bs < 2 ^ 32 \<Longrightarrow> unat (sum_words acc bs) = unat acc + wsum bs"
proof (induction acc bs rule: sum_words.induct)
  case (1 acc a b rest)
  have u: "unat (ucast (ucast a OR push_bit 8 (ucast b) :: u16) :: u32) = unat a + 256 * unat b"
    by (simp add: unat_up unat_word16)
  then have "unat (acc + ucast (ucast a OR push_bit 8 (ucast b) :: u16)) = unat acc + (unat a + 256 * unat b)"
    using "1.prems" by (simp add: unat_word_ariths)
  then show ?case using 1 by simp
next
  case (2 acc a)
  then show ?case by (simp add: unat_word_ariths unat_up)
qed simp

text \<open>One's complement reduction: the representative of \<open>n\<close> modulo 65535, 0 only for 0.\<close>

definition oc :: "nat \<Rightarrow> nat" where
  "oc n = (if n = 0 then 0 else if n mod 65535 = 0 then 65535 else n mod 65535)"

lemma oc_small: "n < 65536 \<Longrightarrow> oc n = n"
  by (cases "n = 65535") (auto simp: oc_def)

lemma oc_step: "oc (n mod 65536 + n div 65536) = oc n"
proof -
  have "n = n div 65536 * 65536 + n mod 65536" by simp
  then have n: "n = n div 65536 * 65535 + (n mod 65536 + n div 65536)" by linarith
  then have "n mod 65535 = (n mod 65536 + n div 65536) mod 65535" by (metis add.commute mod_mult_self1)
  moreover have "n = 0 \<longleftrightarrow> n mod 65536 + n div 65536 = 0" by auto
  ultimately show ?thesis by (simp add: oc_def)
qed

lemma unat_fold_carry: "unat (fold_carry x) = oc (unat x)"
proof (induction x rule: fold_carry.induct)
  case (1 x)
  have d: "unat (drop_bit 16 x) = unat x div 65536" unfolding unat_drop_bit_eq by (simp only: drop_bit_eq_div) simp
  have m: "(0xFFFF :: u32) = mask 16" by (simp add: mask_eq_exp_minus_1)
  have a: "unat (x AND 0xFFFF) = unat x mod 65536"
    unfolding m take_bit_eq_mask [symmetric] unsigned_take_bit_eq by (simp only: take_bit_eq_mod) simp
  show ?case
  proof (cases "drop_bit 16 x \<noteq> 0")
    case True
    have "unat ((x AND 0xFFFF) + drop_bit 16 x) = unat x mod 65536 + unat x div 65536"
      using fold_carry_less [OF True] unat_lt_u32 [of x]
      by (simp add: unat_word_ariths a d)
    then show ?thesis using 1 [OF True] True oc_step [of "unat x"] by (subst fold_carry.simps) simp
  next
    case False
    then have "unat x div 65536 = 0" using d by simp
    then have "unat x < 65536" by (simp add: div_eq_0_iff)
    then show ?thesis using False by (subst fold_carry.simps) (simp add: oc_small)
  qed
qed

lemma oc_le: "oc n \<le> 65535"
  by (simp add: oc_def less_imp_le_nat)

lemma unat_not16: "unat (NOT (x :: u16)) = 65535 - unat x"
proof -
  have n: "NOT x = 65535 - x" by (simp add: not_eq_complement)
  have "x \<le> 65535" using unat_lt_u16 [of x] by (simp add: word_le_nat_alt)
  then show ?thesis unfolding n by (simp add: unat_sub)
qed

lemma unat_ip_checksum:
  assumes "length bs \<le> 65535"
  shows "unat (ip_checksum bs) = 65535 - oc (wsum bs)"
proof -
  have "(length bs + 1) div 2 \<le> 32768" using assms by simp
  then have w: "wsum bs \<le> 65535 * 32768" using wsum_bound [of bs] by (meson le_trans mult_le_mono2)
  then have s: "unat (sum_words 0 bs) = wsum bs" using sum_words_wsum [of 0 bs] by simp
  have "unat (ucast (fold_carry (sum_words 0 bs)) :: u16) = oc (wsum bs)"
    using oc_le [of "wsum bs"] by (simp add: unat_down unat_fold_carry s)
  then show ?thesis unfolding ip_checksum_def by (simp add: unat_not16)
qed

lemma wsum_append: "even (length xs) \<Longrightarrow> wsum (xs @ ys) = wsum xs + wsum ys"
  by (induction xs rule: wsum.induct) auto

lemma wsum_le16: "wsum (le16 w) = unat w"
proof -
  have "unat (ucast w :: u8) = unat w mod 256" by (simp add: unsigned_ucast_eq take_bit_eq_mod)
  moreover have "unat (drop_bit 8 w) = unat w div 256" unfolding unat_drop_bit_eq by (simp only: drop_bit_eq_div) simp
  then have "unat (ucast (drop_bit 8 w) :: u8) = unat w div 256"
    using unat_lt_u16 [of w] by (simp add: unsigned_ucast_eq take_bit_eq_mod)
  ultimately show ?thesis by (simp add: le16_def)
qed

lemma wsum_store16:
  assumes "even i" and "i + 2 \<le> length bs"
  shows "wsum (store16 i w bs) + unat (rd16 bs i) = wsum bs + unat w"
proof -
  have "bs = take i bs @ [bs ! i, bs ! (i + 1)] @ drop (i + 2) bs"
    using Cons_nth_drop_Suc [of i bs] Cons_nth_drop_Suc [of "Suc i" bs] append_take_drop_id [of i bs] assms(2) by simp
  then have "wsum bs = wsum (take i bs) + (wsum [bs ! i, bs ! (i + 1)] + wsum (drop (i + 2) bs))"
    using assms wsum_append [of "take i bs" "[bs ! i, bs ! (i + 1)] @ drop (i + 2) bs"]
      wsum_append [of "[bs ! i, bs ! (i + 1)]" "drop (i + 2) bs"] by simp
  moreover have "wsum (store16 i w bs) = wsum (take i bs) + (unat w + wsum (drop (i + 2) bs))"
    using assms wsum_append [of "take i bs" "le16 w @ drop (i + 2) bs"] wsum_append [of "le16 w" "drop (i + 2) bs"]
    by (simp add: store16_def wsum_le16)
  ultimately show ?thesis by (simp add: rd16_def unat_word16)
qed

lemma checksum_zero_iff:
  assumes "length bs \<le> 65535"
  shows "ip_checksum bs = 0 \<longleftrightarrow> 0 < wsum bs \<and> wsum bs mod 65535 = 0"
proof -
  have "ip_checksum bs = 0 \<longleftrightarrow> unat (ip_checksum bs) = 0" by (simp add: unat_eq_0)
  also have "\<dots> \<longleftrightarrow> oc (wsum bs) = 65535" using oc_le [of "wsum bs"] by (auto simp: unat_ip_checksum [OF assms])
  also have "\<dots> \<longleftrightarrow> 0 < wsum bs \<and> wsum bs mod 65535 = 0"
    using mod_less_divisor [of 65535 "wsum bs"] by (auto simp: oc_def)
  finally show ?thesis .
qed

lemma checksum_stored:
  assumes "even i" and "i + 2 \<le> length bs" and "length bs \<le> 65535" and "rd16 bs i = 0"
  shows "ip_checksum (store16 i (ip_checksum bs) bs) = 0"
proof -
  let ?n = "wsum bs"
  have w: "wsum (store16 i (ip_checksum bs) bs) = ?n + (65535 - oc ?n)"
    using wsum_store16 [OF assms(1,2), of "ip_checksum bs"] unat_ip_checksum [OF assms(3)] assms(4) by simp
  have "0 < ?n + (65535 - oc ?n) \<and> (?n + (65535 - oc ?n)) mod 65535 = 0"
  proof (cases "?n mod 65535 = 0")
    case True
    then show ?thesis by (auto simp: oc_def mod_simps)
  next
    case False
    then have e: "oc ?n = ?n mod 65535" by (auto simp: oc_def)
    have lt: "?n mod 65535 < 65535" by simp
    define q r where "q = ?n div 65535" and "r = ?n mod 65535"
    have "?n = 65535 * q + r" "r < 65535" by (simp_all add: q_def r_def)
    then have "?n + (65535 - r) = (q + 1) * 65535" by simp
    then show ?thesis unfolding e r_def [symmetric] by simp
  qed
  then show ?thesis using checksum_zero_iff [of "store16 i (ip_checksum bs) bs"] assms(2,3) by (simp add: w)
qed

lemma word_mod_eq:
  fixes v w :: u16
  assumes "w \<noteq> v" and "{w, v} \<noteq> {0, 0xFFFF}"
  shows "unat w mod 65535 \<noteq> unat v mod 65535"
proof
  assume e: "unat w mod 65535 = unat v mod 65535"
  have b: "unat w < 65536" "unat v < 65536" using unsigned_less [of w] unsigned_less [of v] by simp_all
  have m: "n mod 65535 = (if n = 65535 then 0 else n)" if "n < 65536" for n :: nat using that by auto
  have "unat w = unat v \<or> unat w = 65535 \<and> unat v = 0 \<or> unat w = 0 \<and> unat v = 65535"
    using e m [OF b(1)] m [OF b(2)] by presburger
  moreover have "unat x = 65535 \<longleftrightarrow> x = 0xFFFF" for x :: u16
    using word_unat_eq_iff [of x "0xFFFF"] by simp
  ultimately have "w = v \<or> w = 0xFFFF \<and> v = 0 \<or> w = 0 \<and> v = 0xFFFF"
    using word_unat_eq_iff [of w v] unat_eq_0 [of v] unat_eq_0 [of w] by blast
  then show False using assms by blast
qed

text \<open>
  C20. The checksum verifies and detects: storing it in a zero field makes the checksum of the whole
  packet 0, and changing any one aligned 16-bit word of that packet makes it non-zero, unless the change is
  between \<open>0x0000\<close> and \<open>0xFFFF\<close>, which are the same in the sum. Both hold for every length up to 65535 bytes, odd ones included.
\<close>

theorem checksum_verifies:
  assumes "even i" and "i + 2 \<le> length bs" and "length bs \<le> 65535" and "rd16 bs i = 0"
  defines "p \<equiv> store16 i (ip_checksum bs) bs"
  shows "ip_checksum p = 0 \<and>
    (\<forall>j w. even j \<longrightarrow> j + 2 \<le> length bs \<longrightarrow> w \<noteq> rd16 p j \<longrightarrow> {w, rd16 p j} \<noteq> {0, 0xFFFF} \<longrightarrow>
       ip_checksum (store16 j w p) \<noteq> 0)"
proof (intro conjI allI impI notI)
  show p0: "ip_checksum p = 0" unfolding p_def by (rule checksum_stored [OF assms(1-4)])
  have lp: "length p = length bs" unfolding p_def using assms(2) by simp
  fix j w
  assume j: "even j" "j + 2 \<le> length bs" and n: "w \<noteq> rd16 p j" "{w, rd16 p j} \<noteq> {0, 0xFFFF}"
    and z: "ip_checksum (store16 j w p) = 0"
  have d: "unat w mod 65535 \<noteq> unat (rd16 p j) mod 65535" by (rule word_mod_eq [OF n])
  have "wsum p mod 65535 = 0" using p0 checksum_zero_iff [of p] lp assms(3) by simp
  moreover have "wsum (store16 j w p) mod 65535 = 0"
    using z checksum_zero_iff [of "store16 j w p"] lp assms(3) j by simp
  moreover have "wsum (store16 j w p) + unat (rd16 p j) = wsum p + unat w"
    using wsum_store16 [of j p w] j lp by simp
  ultimately have "unat (rd16 p j) mod 65535 = unat w mod 65535"
    by (metis add.left_neutral mod_add_left_eq)
  then show False using d by simp
qed

lemma checksum_verifies_witness:
  fixes bs :: "u8 list"
  defines "bs \<equiv> [0x45, 0, 0, 0, 7]"
  shows "ip_checksum (store16 2 (ip_checksum bs) bs) = 0 \<and> ip_checksum (store16 0 8 (store16 2 (ip_checksum bs) bs)) \<noteq> 0"
proof -
  have c: "ip_checksum (store16 2 (ip_checksum bs) bs) = 0 \<and>
    (\<forall>j w. even j \<longrightarrow> j + 2 \<le> length bs \<longrightarrow> w \<noteq> rd16 (store16 2 (ip_checksum bs) bs) j \<longrightarrow>
      {w, rd16 (store16 2 (ip_checksum bs) bs) j} \<noteq> {0, 0xFFFF} \<longrightarrow>
       ip_checksum (store16 j w (store16 2 (ip_checksum bs) bs)) \<noteq> 0)"
    by (rule checksum_verifies) (simp_all add: bs_def rd16_def)
  have "rd16 (store16 2 (ip_checksum bs) bs) 0 = 0x45" by (simp add: bs_def store16_def rd16_def)
  moreover have "{8, 0x45 :: u16} \<noteq> {0, 0xFFFF}" by (simp add: doubleton_eq_iff)
  ultimately show ?thesis using c [THEN conjunct2, rule_format, of 0 8] c by (simp add: bs_def)
qed

section \<open>Routing\<close>

text \<open>What the search keeps: the result so far is the gateway of a best match among the routes seen.\<close>

definition best_of :: "u32 \<Rightarrow> route_entry list \<Rightarrow> route_entry \<Rightarrow> bool" where
  "best_of dest t r \<longleftrightarrow> r \<in> set t \<and> route_match dest r \<and>
     (\<forall>q \<in> set t. route_match dest q \<longrightarrow> rt_netmask q \<le> rt_netmask r \<and>
        (rt_netmask q = rt_netmask r \<longrightarrow> rt_metric r \<le> rt_metric q))"

lemma route_search:
  "(case fold (route_pick dest) t (0, 0, 0xFFFFFFFF) of (gw, m, k) \<Rightarrow>
     (gw = 0 \<and> m = 0 \<and> k = 0xFFFFFFFF \<and> (\<forall>q \<in> set t. route_match dest q \<longrightarrow> rt_netmask q = 0 \<and> rt_metric q = 0xFFFFFFFF)) \<or>
     (\<exists>r. best_of dest t r \<and> gw = rt_gateway r \<and> m = rt_netmask r \<and> k = rt_metric r))"
proof (induction t rule: rev_induct)
  case (snoc x t)
  obtain gw m k where f: "fold (route_pick dest) t (0, 0, 0xFFFFFFFF) = (gw, m, k)" using prod_cases3 by blast
  have top: "k' \<le> 0xFFFFFFFF" for k' :: u32 using unat_lt_u32 [of k'] by (simp add: word_le_nat_alt)
  show ?case
  proof (cases "route_match dest x \<and> rt_netmask x \<ge> m \<and> (rt_netmask x > m \<or> rt_metric x < k)")
    case True
    have "best_of dest (t @ [x]) x"
      using snoc.IH True unfolding f best_of_def by (auto simp: top)
    moreover have "route_pick dest x (gw, m, k) = (rt_gateway x, rt_netmask x, rt_metric x)"
      using True by (auto simp: route_pick_def)
    ultimately show ?thesis using f by auto
  next
    case False
    then have e: "route_pick dest x (gw, m, k) = (gw, m, k)" by (auto simp: route_pick_def)
    from snoc.IH [unfolded f] consider
      "gw = 0" "m = 0" "k = 0xFFFFFFFF" "\<forall>q \<in> set t. route_match dest q \<longrightarrow> rt_netmask q = 0 \<and> rt_metric q = 0xFFFFFFFF"
      | r where "best_of dest t r" "gw = rt_gateway r" "m = rt_netmask r" "k = rt_metric r" by auto
    then show ?thesis
    proof cases
      case 1
      have "rt_netmask x = 0 \<and> rt_metric x = 0xFFFFFFFF" if "route_match dest x"
        using False that 1 top [of "rt_metric x"] by (auto simp: word_gt_0 not_less)
      then show ?thesis using 1 f e by simp
    next
      case 2
      then have "best_of dest (t @ [x]) r" using False unfolding best_of_def by (auto simp: not_less not_le)
      then show ?thesis using 2 f e by auto
    qed
  qed
qed simp

text \<open>
  C21. \<open>route_lookup\<close> is best match: the result is the gateway of a usable route that matches the
  destination, with the largest netmask among the matching routes (the longest prefix, for masks of
  leading ones) and the smallest metric among those; it is 0 when nothing matches but routes with
  netmask 0 and metric 0xFFFFFFFF, which the search never takes.
\<close>

theorem route_lookup_best:
  assumes "\<exists>q \<in> set t. route_match dest q \<and> (rt_netmask q \<noteq> 0 \<or> rt_metric q \<noteq> 0xFFFFFFFF)"
  shows "\<exists>r \<in> set t. route_match dest r \<and> route_lookup dest t = rt_gateway r \<and>
    (\<forall>q \<in> set t. route_match dest q \<longrightarrow> rt_netmask q \<le> rt_netmask r \<and>
       (rt_netmask q = rt_netmask r \<longrightarrow> rt_metric r \<le> rt_metric q))"
proof -
  obtain r where "best_of dest t r" "route_lookup dest t = rt_gateway r"
    using route_search [where dest = dest and t = t] assms unfolding route_lookup_def by (auto split: prod.splits)
  then show ?thesis unfolding best_of_def by blast
qed

lemma route_lookup_best_witness:
  fixes t :: "route_entry list"
  defines "t \<equiv> [no_route\<lparr>rt_flags := 3, rt_in_use := True, rt_gateway := 0x0A000202\<rparr>,
    no_route\<lparr>rt_dest := 0x0A000200, rt_netmask := 0xFFFFFF00, rt_metric := 5, rt_flags := 3, rt_in_use := True, rt_gateway := 0x0A000203\<rparr>]"
  shows "\<exists>r \<in> set t. route_match 0x0A00020F r \<and> route_lookup 0x0A00020F t = rt_gateway r \<and> rt_netmask r = 0xFFFFFF00"
proof -
  have "\<exists>q \<in> set t. route_match 0x0A00020F q \<and> (rt_netmask q \<noteq> 0 \<or> rt_metric q \<noteq> 0xFFFFFFFF)"
    by (simp add: t_def no_route_def route_match_def)
  from route_lookup_best [OF this] show ?thesis by (auto simp: t_def no_route_def route_match_def)
qed

lemma route_lookup_none:
  "\<forall>q \<in> set t. \<not> route_match dest q \<Longrightarrow> route_lookup dest t = 0"
  using route_search [where dest = dest and t = t] unfolding route_lookup_def best_of_def by (auto split: prod.splits)

section \<open>Loopback\<close>

definition lo_content :: "loopback \<Rightarrow> u8 list" where
  "lo_content l = ring_content (lo_buffer l) (unat (lo_tail l)) (unat (lo_count l))"

definition lo_ok :: "loopback \<Rightarrow> bool" where
  "lo_ok l \<longleftrightarrow> length (lo_buffer l) = 4096 \<and> unat (lo_tail l) < 4096 \<and> unat (lo_count l) \<le> 4096 \<and>
     unat (lo_head l) = (unat (lo_tail l) + unat (lo_count l)) mod 4096"

lemma unat_lo_next: "unat ((x + 1) mod LOOPBACK_BUFFER_SIZE) = (unat x + 1) mod 4096" if "unat x < 4096"
proof -
  have "unat (x + 1) = unat x + 1" using that by (simp add: unat_word_ariths)
  then show ?thesis by (simp add: unat_mod)
qed

lemma lo_push_ok:
  assumes "lo_ok l" and "length (lo_content l) < 4096"
  shows "lo_ok (lo_push b l)" and "lo_content (lo_push b l) = lo_content l @ [b]"
proof -
  have c: "unat (lo_count l) < 4096" using assms(2) by (simp add: lo_content_def)
  then have n: "unat (lo_count l + 1) = unat (lo_count l) + 1" by (simp add: unat_word_ariths)
  have h: "unat (lo_head l) = (unat (lo_tail l) + unat (lo_count l)) mod 4096" "unat (lo_head l) < 4096"
    using assms(1) by (simp_all add: lo_ok_def)
  show "lo_ok (lo_push b l)"
    using assms(1) c n h by (simp add: lo_ok_def lo_push_def unat_lo_next mod_simps)
  show "lo_content (lo_push b l) = lo_content l @ [b]"
    using ring_push [of "unat (lo_count l)" "lo_buffer l" "unat (lo_tail l)" b] assms(1) c n h
    by (simp add: lo_content_def lo_push_def lo_ok_def)
qed

lemma lo_pop_ok:
  assumes "lo_ok l" and "lo_content l \<noteq> []"
  shows "lo_ok (snd (lo_pop l))" and "lo_content l = fst (lo_pop l) # lo_content (snd (lo_pop l))"
proof -
  have c: "0 < unat (lo_count l)" using assms(2) by (cases "unat (lo_count l)") (simp_all add: lo_content_def)
  then have n: "unat (lo_count l - 1) = unat (lo_count l) - 1"
    by (metis One_nat_def Suc_leI unat_1 unat_sub word_le_nat_alt)
  have t: "unat (lo_tail l) < 4096" using assms(1) by (simp add: lo_ok_def)
  have "((unat (lo_tail l) + 1) mod 4096 + (unat (lo_count l) - 1)) mod 4096 = (unat (lo_tail l) + unat (lo_count l)) mod 4096"
  proof -
    obtain m where "unat (lo_count l) = Suc m" using c gr0_conv_Suc by blast
    then show ?thesis by (simp add: mod_simps)
  qed
  then show "lo_ok (snd (lo_pop l))"
    using assms(1) n t by (auto simp: lo_ok_def lo_pop_def unat_lo_next)
  have lb: "length (lo_buffer l) = 4096" using assms(1) by (simp add: lo_ok_def)
  have e: "lo_content (snd (lo_pop l)) =
      ring_content (lo_buffer l) ((unat (lo_tail l) + 1) mod length (lo_buffer l)) (unat (lo_count l) - 1)"
    using t n lb by (simp add: lo_content_def lo_pop_def unat_lo_next)
  have "lo_content l = lo_buffer l ! unat (lo_tail l) # lo_content (snd (lo_pop l))"
    unfolding e unfolding lo_content_def by (rule ring_pop) (simp_all only: lb t c)
  then show "lo_content l = fst (lo_pop l) # lo_content (snd (lo_pop l))"
    unfolding lo_pop_def fst_conv .
qed

interpretation loop_fifo: bounded_fifo lo_push lo_pop lo_content 4096 lo_ok
  by unfold_locales (rule lo_push_ok lo_pop_ok, assumption+)+

text \<open>What was sent is received in order; packet boundaries are not kept: one receive may return two packets.\<close>

lemma loopback_send_content:
  assumes "lo_ok l" and "length data = unat len" and "length (lo_content l) + unat len \<le> 4096"
  shows "fst (loopback_send data len l) = uint len" and "lo_ok (snd (loopback_send data len l))"
    and "lo_content (snd (loopback_send data len l)) = lo_content l @ data"
proof -
  have c: "unat (lo_count l) + unat len \<le> 4096" using assms(3) by (simp add: lo_content_def)
  then have "unat (4096 - lo_count l) = 4096 - unat (lo_count l)" by (intro unat_sub [THEN trans]) (simp_all add: word_le_nat_alt)
  then have g: "\<not> len > LOOPBACK_BUFFER_SIZE - lo_count l" using c by (simp add: word_less_nat_alt)
  show "fst (loopback_send data len l) = uint len" using g by (simp add: loopback_send_def)
  show "lo_ok (snd (loopback_send data len l))" "lo_content (snd (loopback_send data len l)) = lo_content l @ data"
    using g assms loop_fifo.push_all [of l data] by (simp_all add: loopback_send_def)
qed

lemma loopback_receive_content:
  fixes max_len :: u16
  assumes "lo_ok l"
  defines "n \<equiv> min (unat max_len) (length (lo_content l))"
  shows "fst (loopback_receive max_len l) = (int n, take n (lo_content l))"
    and "lo_content (snd (loopback_receive max_len l)) = drop n (lo_content l)"
proof -
  define k where "k = (if lo_count l > max_len then max_len else lo_count l)"
  have lc: "length (lo_content l) = unat (lo_count l)" by (simp add: lo_content_def)
  have k: "unat k = n" by (auto simp: k_def n_def lc word_less_nat_alt)
  have n: "n \<le> length (lo_content l)" by (simp add: n_def)
  note p = loop_fifo.pop_all [OF assms(1) n]
  have "fst (loopback_receive max_len l) = (int n, take n (lo_content l)) \<and>
      lo_content (snd (loopback_receive max_len l)) = drop n (lo_content l)"
  proof (cases "lo_count l = 0")
    case True
    then have "lo_content l = []" by (simp add: lo_content_def)
    then show ?thesis using True by (simp add: loopback_receive_def n_def)
  next
    case False
    have u: "uint k = int n" unfolding k [symmetric] by (rule uint_nat)
    have "loopback_receive max_len l = (case pop_n lo_pop n l of (bs, l') \<Rightarrow> ((int n, bs), l'))"
      using False unfolding loopback_receive_def Let_def k_def [symmetric] k u by simp
    then show ?thesis using p by (simp add: case_prod_beta)
  qed
  then show "fst (loopback_receive max_len l) = (int n, take n (lo_content l))"
    "lo_content (snd (loopback_receive max_len l)) = drop n (lo_content l)" by blast+
qed

end
