(* ===== verification/Net_Flow.thy ===== *)
theory Net_Flow
  imports Net_Props
begin

text \<open>
  What happens to a frame: the nesting of polls is bounded by the frames that wait, a packet that one
  host sends and the card of another delivers reaches the protocol handler with exactly its data, the
  echo service answers, and two hosts complete the TCP handshake.
\<close>

section \<open>Nested polls\<close>

text \<open>A poll takes frames and never adds any; two polls agree while at most \<open>m\<close> frames wait.\<close>

definition calm :: "(net \<Rightarrow> net option) \<Rightarrow> bool" where
  "calm poll \<longleftrightarrow> (\<forall>s s'. poll s = Some s' \<longrightarrow> length (rx s') \<le> length (rx s))"

definition agree :: "nat \<Rightarrow> (net \<Rightarrow> net option) \<Rightarrow> (net \<Rightarrow> net option) \<Rightarrow> bool" where
  "agree m p q \<longleftrightarrow> (\<forall>s. length (rx s) \<le> m \<longrightarrow> p s = q s)"

lemma calmD: "calm poll \<Longrightarrow> poll s = Some s' \<Longrightarrow> length (rx s') \<le> length (rx s)"
  by (simp add: calm_def)

lemma agreeD: "agree m p q \<Longrightarrow> length (rx s) \<le> m \<Longrightarrow> p s = q s"
  by (simp add: agree_def)

lemma rx_keep [simp]:
  "rx (eth_send d t b s) = rx s" "rx (arp_request ip s) = rx s" "rx (upd_conn k f s) = rx s"
  "rx (arp_add_entry ip mac s) = rx s" "rx (net_set_ip a b' c s) = rx s"
  by (simp_all add: eth_send_def arp_request_def upd_conn_def arp_add_entry_def net_set_ip_def)

lemma rx_arp_receive [simp]: "rx (arp_receive p len s) = rx s"
  by (simp add: arp_receive_def Let_def)

named_theorems calm_intros \<open>an operation that only adds frames through the poll it is given\<close>

lemma arp_wait_calm: "calm poll \<Longrightarrow> arp_wait n poll ip s = Some s' \<Longrightarrow> length (rx s') \<le> length (rx s)"
proof (induction n arbitrary: s)
  case (Suc n)
  obtain s1 where s1: "poll s = Some s1" using Suc.prems(2) by (auto split: option.splits)
  have "length (rx s1) \<le> length (rx s)" using calmD [OF Suc.prems(1) s1] .
  moreover have "length (rx s') \<le> length (rx s1)" using Suc s1 by (auto split: if_splits)
  ultimately show ?case by simp
qed simp

lemma arp_wait_agree:
  "agree m p q \<Longrightarrow> calm p \<Longrightarrow> length (rx s) \<le> m \<Longrightarrow> arp_wait n p ip s = arp_wait n q ip s"
proof (induction n arbitrary: s)
  case (Suc n)
  have e: "p s = q s" using agreeD [OF Suc.prems(1,3)] .
  show ?case
  proof (cases "p s")
    case (Some s1)
    then have "length (rx s1) \<le> m" using calmD [OF Suc.prems(2)] Suc.prems(3) le_trans by blast
    then show ?thesis using Some e Suc by simp
  qed (simp flip: e)
qed simp

lemma ip_send_calm [calm_intros]:
  "calm poll \<Longrightarrow> ip_send poll d p b s = Some s' \<Longrightarrow> length (rx s') \<le> length (rx s)"
  unfolding ip_send_def Let_def
  by (auto split: if_splits option.splits dest!: arp_wait_calm)

lemma ip_send_agree:
  assumes "agree m p q" and "calm p" and "length (rx s) \<le> m"
  shows "ip_send p d pr b s = ip_send q d pr b s"
proof -
  have aw: "arp_wait n p ip (arp_request ip' (s\<lparr>ip_id := i\<rparr>)) = arp_wait n q ip (arp_request ip' (s\<lparr>ip_id := i\<rparr>))" for n ip ip' i
    using assms by (intro arp_wait_agree) simp_all
  show ?thesis unfolding ip_send_def Let_def aw by (rule refl)
qed

lemma udp_send_calm [calm_intros]:
  "calm poll \<Longrightarrow> udp_send poll d a b x s = Some (r, s') \<Longrightarrow> length (rx s') \<le> length (rx s)"
  unfolding udp_send_def Let_def by (auto dest: ip_send_calm)

lemma dhcp_request_calm [calm_intros]:
  "calm poll \<Longrightarrow> dhcp_request poll a b s = Some (r, s') \<Longrightarrow> length (rx s') \<le> length (rx s)"
  unfolding dhcp_request_def Let_def by (auto split: option.splits dest: udp_send_calm)

lemma dhcp_receive_calm [calm_intros]:
  "calm poll \<Longrightarrow> dhcp_receive poll p len s = Some s' \<Longrightarrow> length (rx s') \<le> length (rx s)"
  unfolding dhcp_receive_def Let_def by (fastforce split: if_splits dest: dhcp_request_calm)

lemma dns_receive_calm [calm_intros]: "dns_receive d len s = Some s' \<Longrightarrow> rx s' = rx s"
  unfolding dns_receive_def Let_def by (auto split: if_splits option.splits)

lemma udp_receive_calm [calm_intros]:
  "calm poll \<Longrightarrow> udp_receive poll p len s = Some s' \<Longrightarrow> length (rx s') \<le> length (rx s)"
  unfolding udp_receive_def Let_def by (auto split: if_splits dest: dhcp_receive_calm dns_receive_calm)

lemma icmp_receive_calm [calm_intros]:
  "calm poll \<Longrightarrow> icmp_receive poll src p len s = Some s' \<Longrightarrow> length (rx s') \<le> length (rx s)"
  unfolding icmp_receive_def icmp_send_echo_reply_def by (auto split: if_splits dest: ip_send_calm)

lemma tcp_send_packet_calm [calm_intros]:
  "calm poll \<Longrightarrow> tcp_send_packet poll k f b s = Some s' \<Longrightarrow> length (rx s') \<le> length (rx s)"
  unfolding tcp_send_packet_def Let_def by (auto split: if_splits dest: ip_send_calm)

lemma tcp_receive_calm [calm_intros]:
  "calm poll \<Longrightarrow> tcp_receive poll src p len s = Some s' \<Longrightarrow> length (rx s') \<le> length (rx s)"
  unfolding tcp_receive_def Let_def
  by (auto split: if_splits option.splits tcp_state.splits dest!: tcp_send_packet_calm)

lemma ip_receive_calm [calm_intros]:
  "calm poll \<Longrightarrow> ip_receive poll p len s = Some s' \<Longrightarrow> length (rx s') \<le> length (rx s)"
  unfolding ip_receive_def Let_def
  by (auto split: if_splits dest: icmp_receive_calm udp_receive_calm tcp_receive_calm)

lemma eth_receive_calm [calm_intros]:
  "calm poll \<Longrightarrow> eth_receive poll f len s = Some s' \<Longrightarrow> length (rx s') \<le> length (rx s)"
  unfolding eth_receive_def Let_def by (auto split: if_splits dest: ip_receive_calm)

lemma net_take_shorter: "net_take s = Some (len, s1) \<Longrightarrow> length (rx s1) < length (rx s)"
  by (auto simp: net_take_def Let_def split: list.splits)

lemma poll_loop_calm: "calm poll \<Longrightarrow> calm (poll_loop poll n)"
proof -
  assume c: "calm poll"
  have "poll_loop poll n s = Some s' \<Longrightarrow> length (rx s') \<le> length (rx s)" for s s'
  proof (induction n arbitrary: s)
    case 0
    then show ?case by (auto split: option.splits if_splits dest!: net_take_shorter)
  next
    case (Suc n)
    show ?case
    proof (cases "net_take s")
      case None
      then show ?thesis using Suc.prems by simp
    next
      case (Some r)
      obtain len s1 where r: "r = (len, s1)" by fastforce
      have l: "length (rx s1) < length (rx s)" using Some net_take_shorter unfolding r by blast
      show ?thesis
      proof (cases "len = 0")
        case True
        then show ?thesis using Suc.prems Some r l by simp
      next
        case False
        then obtain s2 where s2: "eth_receive poll (rx_buffer s1) len s1 = Some s2" "poll_loop poll n s2 = Some s'"
          using Suc.prems Some r by (simp split: option.splits)
        then show ?thesis using eth_receive_calm [OF c s2(1)] Suc.IH [OF s2(2)] l by simp
      qed
    qed
  qed
  then show ?thesis by (simp add: calm_def)
qed

lemma net_poll_n_calm: "calm (net_poll_n n)"
proof (induction n)
  case 0
  then show ?case by (simp add: calm_def)
next
  case (Suc n)
  have e: "net_poll_n (Suc n) = poll_loop (net_poll_n n) 16" by (rule ext) (rule net_poll_n.simps)
  show ?case unfolding e by (rule poll_loop_calm [OF Suc])
qed

text \<open>Handlers see only what the poll does on the state they were given.\<close>

lemma handlers_agree:
  assumes a: "agree m p q" and c: "calm p" and l: "length (rx s) \<le> m"
  shows "eth_receive p f len s = eth_receive q f len s"
proof -
  have l': "length (rx (upd_conn k g s)) \<le> m" for k g using l by simp
  note send = ip_send_agree [OF a c]
  have tcp: "tcp_send_packet p k fl b t = tcp_send_packet q k fl b t" if "length (rx t) \<le> m" for k fl b t
    unfolding tcp_send_packet_def Let_def using send [OF that] by simp
  have "dhcp_request p x y t = dhcp_request q x y t" if "length (rx t) \<le> m" for x y t
    unfolding dhcp_request_def udp_send_def Let_def using that by (simp add: send)
  then have "dhcp_receive p d n s = dhcp_receive q d n s" for d n
    unfolding dhcp_receive_def Let_def using l by simp
  moreover have "icmp_receive p src d n s = icmp_receive q src d n s" for src d n
    unfolding icmp_receive_def icmp_send_echo_reply_def using send [OF l] by simp
  moreover have "tcp_receive p src d n s = tcp_receive q src d n s" for src d n
    unfolding tcp_receive_def Let_def tcp [OF l] tcp [OF l'] by (rule refl)
  ultimately show ?thesis
    unfolding eth_receive_def ip_receive_def udp_receive_def Let_def by simp
qed

lemma poll_loop_agree:
  assumes "agree m p q" and "calm p"
  shows "length (rx s) \<le> Suc m \<Longrightarrow> poll_loop p n s = poll_loop q n s"
proof (induction n arbitrary: s)
  case 0
  then show ?case by (simp split: option.split)
next
  case (Suc n)
  show ?case
  proof (cases "net_take s")
    case (Some r)
    obtain len s1 where r: "r = (len, s1)" by fastforce
    have l: "length (rx s1) \<le> m" using Some net_take_shorter Suc.prems unfolding r by fastforce
    have e: "eth_receive p (rx_buffer s1) len s1 = eth_receive q (rx_buffer s1) len s1"
      by (rule handlers_agree [OF assms l])
    have "poll_loop p n s2 = poll_loop q n s2" if "eth_receive p (rx_buffer s1) len s1 = Some s2" for s2
      using eth_receive_calm [OF assms(2) that] l by (intro Suc.IH) simp
    then show ?thesis using Some r e by (simp split: option.split)
  qed simp
qed

lemma net_poll_n_Suc: "length (rx s) \<le> n \<Longrightarrow> net_poll_n (Suc n) s = net_poll_n n s"
proof (induction n arbitrary: s)
  case 0
  then show ?case by (simp add: net_take_def)
next
  case (Suc n)
  have "agree n (net_poll_n (Suc n)) (net_poll_n n)" using Suc.IH by (simp only: agree_def) blast
  then show ?case using poll_loop_agree [OF _ net_poll_n_calm Suc.prems] by (simp only: net_poll_n.simps(2))
qed

lemma net_poll_n_more: "length (rx s) \<le> n \<Longrightarrow> net_poll_n (n + k) s = net_poll_n n s"
proof (induction k)
  case (Suc k)
  then show ?case using net_poll_n_Suc [of s "n + k"] by (simp only: add_Suc_right)
qed simp

lemma net_poll_n_net_poll: "length (rx s) \<le> n \<Longrightarrow> net_poll_n n s = net_poll s"
  unfolding net_poll_def using net_poll_n_more [of s "length (rx s)" "n - length (rx s)"] by simp

lemma net_poll_unfold: "net_poll s = poll_loop net_poll 16 s"
proof -
  have a: "agree (length (rx s)) (net_poll_n (length (rx s))) net_poll"
    using net_poll_n_net_poll by (simp add: agree_def)
  have "net_poll s = net_poll_n (Suc (length (rx s))) s" by (rule net_poll_n_net_poll [symmetric]) simp
  also have "\<dots> = poll_loop net_poll 16 s"
    unfolding net_poll_n.simps(2) by (rule poll_loop_agree [OF a net_poll_n_calm]) simp
  finally show ?thesis .
qed

text \<open>
  C22. One nested poll for each waiting frame is enough: with any larger allowance the poll does the
  same, and the poll is the loop over the frames whose handlers poll again by the same function. So
  the mutual recursion of \<open>net_poll\<close>, the handlers, \<open>ip_send\<close> and the wait for ARP always ends.
\<close>

theorem net_poll_enough:
  assumes "length (rx s) \<le> n"
  shows "net_poll_n n s = net_poll s \<and> net_poll s = poll_loop net_poll 16 s"
  using net_poll_n_net_poll [OF assms] net_poll_unfold by (rule conjI)

lemma net_poll_idle [simp]: "rx s = [] \<Longrightarrow> net_poll s = Some s"
  by (subst net_poll_unfold) (simp add: net_take_def)

lemma net_poll_calm: "net_poll s = Some s' \<Longrightarrow> length (rx s') \<le> length (rx s)"
  unfolding net_poll_def by (rule calmD [OF net_poll_n_calm])

lemma calm_net_poll: "calm net_poll"
  unfolding calm_def using net_poll_calm by blast

section \<open>One frame\<close>

definition ip_frame :: "u8 list \<Rightarrow> u8 list \<Rightarrow> u16 \<Rightarrow> u8 \<Rightarrow> u32 \<Rightarrow> u32 \<Rightarrow> u8 list \<Rightarrow> u8 list" where
  "ip_frame dmac smac ident protocol src dest data =
     (let h = ip_header ident protocol src dest (of_nat (length data))
      in dmac @ smac @ le16 (htons 0x0800) @ store16 10 (ip_checksum h) h @ data)"

lemma length_ip_header [simp]: "length (ip_header i p a b n) = 20"
  by (simp add: ip_header_def)

lemma length_ip_frame [simp]:
  "length d = 6 \<Longrightarrow> length m = 6 \<Longrightarrow> length (ip_frame d m i p a b data) = 34 + length data"
  by (simp add: ip_frame_def Let_def)

text \<open>With the neighbour's address in the ARP cache a packet that fits becomes one frame on the wire.\<close>

lemma ip_send_cached:
  assumes "nif_ip (nif s) \<noteq> 0" and "arp_lookup (ip_next_hop dest s) s = Some mac" and "length data \<le> 1480"
  shows "ip_send poll dest protocol data s =
    Some (s\<lparr>ip_id := ip_id s + 1, tx := tx s @ [ip_frame mac (nif_mac (nif s)) (ip_id s) protocol (nif_ip (nif s)) dest data]\<rparr>)"
proof -
  have e: "ip_next_hop dest (s\<lparr>ip_id := i\<rparr>) = ip_next_hop dest s" "arp_lookup ip (s\<lparr>ip_id := i\<rparr>) = arp_lookup ip s" for i ip
    by (simp_all add: ip_next_hop_def arp_lookup_def)
  show ?thesis
    unfolding ip_send_def Let_def e using assms by (simp add: eth_send_def ip_frame_def Let_def)
qed

lemma net_poll_one:
  assumes "rx s = [f]" and "0 < length f" and "length f \<le> 2048"
  defines "b \<equiv> f @ drop (length f) (rx_buffer s)"
  shows "net_poll s = eth_receive net_poll b (of_nat (length f)) (s\<lparr>rx := [], rx_buffer := b\<rparr>)"
proof -
  have n: "(of_nat (length f) :: u16) \<noteq> 0"
  proof -
    have "unat (of_nat (length f) :: u16) = length f" using assms(3) by (simp add: unat_of_nat take_bit_nat_eq_self)
    then show ?thesis using assms(2) by auto
  qed
  have idle: "poll_loop net_poll 15 t = Some t" if "rx t = []" for t
    using that by (simp add: net_take_def)
  have k: "poll_loop net_poll 15 s2 = Some s2"
    if "eth_receive net_poll b (of_nat (length f)) (s\<lparr>rx := [], rx_buffer := b\<rparr>) = Some s2" for s2
    using eth_receive_calm [OF calm_net_poll that] by (intro idle) simp
  have t: "net_take s = Some (of_nat (length f), s\<lparr>rx := [], rx_buffer := b\<rparr>)"
    using assms by (simp add: net_take_def Let_def)
  have six: "(16 :: nat) = Suc 15" by simp
  show ?thesis
    by (subst net_poll_unfold, unfold six, subst poll_loop.simps) (use t n k in \<open>simp add: b_def split: option.split\<close>)
qed

text \<open>A frame in memory, and what the receiver reads in it.\<close>

lemma ip_frame_parts:
  fixes i :: u16 and pr :: u8 and src dest :: u32 and rest :: "u8 list"
  assumes "length d = 6" and "length m = 6" and "length data \<le> 1480"
  defines "p \<equiv> drop 14 (ip_frame d m i pr src dest data @ rest)"
  shows "rd16 (ip_frame d m i pr src dest data @ rest) 12 = htons 0x0800"
    and "p ! 0 = 0x45" and "htons (rd16 p 2) = 20 + of_nat (length data)" and "p ! 9 = pr"
    and "htonl (rd32 p 12) = src" and "htonl (rd32 p 16) = dest" and "drop 20 p = data @ rest"
proof -
  define h where "h = ip_header i pr src dest (of_nat (length data))"
  define c where "c = ip_checksum h"
  have h: "store16 10 c h = [0x45, 0] @ le16 (htons (20 + of_nat (length data))) @ le16 (htons i) @ [0, 0] @ [64, pr] @ le16 c
      @ le32 (htonl src) @ le32 (htonl dest)"
    unfolding h_def ip_header_def store16_def by (simp add: le16_def)
  have p: "p = store16 10 c h @ data @ rest"
    using assms(1,2) by (simp add: p_def ip_frame_def Let_def h_def c_def)
  show "rd16 (ip_frame d m i pr src dest data @ rest) 12 = htons 0x0800"
    unfolding ip_frame_def Let_def append_assoc
    using rd16_at [of 12 "d @ m" "htons 0x0800"] assms(1,2) by simp
  show "p ! 0 = 0x45" unfolding p h by simp
  show "htons (rd16 p 2) = 20 + of_nat (length data)"
    unfolding p h append_assoc using rd16_at [of 2 "[0x45, 0]"] by simp
  show "p ! 9 = pr" unfolding p h by (simp add: le16_def)
  have "rd32 (([0x45, 0] @ le16 (htons (20 + of_nat (length data))) @ le16 (htons i) @ [0, 0] @ [64, pr] @ le16 c)
      @ le32 (htonl src) @ le32 (htonl dest) @ data @ rest) 12 = htonl src" by (rule rd32_at) simp
  then show "htonl (rd32 p 12) = src" unfolding p h by simp
  have "rd32 (([0x45, 0] @ le16 (htons (20 + of_nat (length data))) @ le16 (htons i) @ [0, 0] @ [64, pr] @ le16 c
      @ le32 (htonl src)) @ le32 (htonl dest) @ data @ rest) 16 = htonl dest" by (rule rd32_at) simp
  then show "htonl (rd32 p 16) = dest" unfolding p h by simp
  show "drop 20 p = data @ rest" unfolding p h by (simp add: le16_def le32_def)
qed

text \<open>The state in which the handlers run: the frame is taken and copied over the receive buffer.\<close>

definition taken :: "u8 list \<Rightarrow> net \<Rightarrow> net" where
  "taken f s = s\<lparr>rx := [], rx_buffer := f @ drop (length f) (rx_buffer s)\<rparr>"

lemma taken_fields [simp]:
  "nif (taken f s) = nif s" "tx (taken f s) = tx s" "conns (taken f s) = conns s" "ip_id (taken f s) = ip_id s"
  "rx (taken f s) = []" "ping_reply (taken f s) = ping_reply s" "arp_cache (taken f s) = arp_cache s"
  "dhcp_st (taken f s) = dhcp_st s"
  by (simp_all add: taken_def)

text \<open>A packet that is alone on the card and addressed to the host reaches its protocol with exactly its data.\<close>

lemma deliver:
  fixes i :: u16 and pr :: u8 and src dest :: u32
  assumes "rx s = [ip_frame d m i pr src dest data]" and "dest = nif_ip (nif s)"
    and "length d = 6" and "length m = 6" and "length data \<le> 1480"
  defines "s1 \<equiv> taken (ip_frame d m i pr src dest data) s"
    and "rest \<equiv> drop (34 + length data) (rx_buffer s)" and "n \<equiv> of_nat (length data)"
  shows "net_poll s =
    (if pr = 1 then icmp_receive net_poll src (data @ rest) n s1
     else if pr = 17 then udp_receive net_poll (data @ rest) n s1
     else if pr = 6 then tcp_receive net_poll src (data @ rest) n s1
     else Some s1)"
proof -
  let ?f = "ip_frame d m i pr src dest data"
  let ?b = "?f @ rest"
  note parts = ip_frame_parts [OF assms(3-5), where rest = rest and i = i and pr = pr and src = src and dest = dest]
  define p where "p = drop 14 ?b"
  have lf: "length ?f = 34 + length data" using assms(3,4) by simp
  have u: "unat (of_nat (34 + length data) :: u16) = 34 + length data"
    using assms(5) by (simp add: unat_of_nat take_bit_nat_eq_self del: of_nat_add)
  have n20: "(of_nat (34 + length data) - 14 :: u16) = 20 + n" by (simp add: n_def)
  have un: "unat (20 + n) = 20 + length data"
    using assms(5) u unfolding n_def by (simp add: unat_word_ariths unat_of_nat take_bit_nat_eq_self take_bit_eq_mod)
  have g: "\<not> (of_nat (34 + length data) :: u16) < 14" "\<not> 20 + n < 20"
    using u un by (simp_all only: word_less_nat_alt) simp_all
  have hl: "unat (ucast ((0x45 :: u8) AND 0x0F) * 4 :: u16) = 20" "drop_bit 4 (0x45 :: u8) = 4"
    "(ucast ((0x45 :: u8) AND 0x0F) * 4 :: u16) = 20"
    by code_simp+
  have "net_poll s = eth_receive net_poll ?b (of_nat (34 + length data)) s1"
    using net_poll_one [OF assms(1)] lf assms(5) by (simp add: s1_def taken_def rest_def)
  also have "\<dots> = ip_receive net_poll p (20 + n) s1"
    unfolding p_def eth_receive_def Let_def parts(1) using g by (simp add: n20 n_def)
  also have "\<dots> = (if pr = 1 then icmp_receive net_poll src (data @ rest) n s1
     else if pr = 17 then udp_receive net_poll (data @ rest) n s1
     else if pr = 6 then tcp_receive net_poll src (data @ rest) n s1 else Some s1)"
    unfolding ip_receive_def Let_def parts(2-7) [folded p_def] hl using g assms(2) by (simp add: s1_def n_def parts(7) [folded p_def])
  finally show ?thesis .
qed

section \<open>Two hosts on one link\<close>

text \<open>\<open>a\<close> can send to \<open>b\<close> at once: it has an address and its ARP cache knows the next hop.\<close>

definition reaches :: "net \<Rightarrow> net \<Rightarrow> bool" where
  "reaches a b \<longleftrightarrow> nif_ip (nif a) \<noteq> 0 \<and> length (nif_mac (nif a)) = 6 \<and>
     (case arp_lookup (ip_next_hop (nif_ip (nif b)) a) a of None \<Rightarrow> False | Some mac \<Rightarrow> length mac = 6)"

lemma reaches_cong:
  "nif a' = nif a \<Longrightarrow> arp_cache a' = arp_cache a \<Longrightarrow> nif b' = nif b \<Longrightarrow> reaches a' b' = reaches a b"
  by (simp add: reaches_def ip_next_hop_def arp_lookup_def)

text \<open>The frame carries \<open>data\<close> from \<open>a\<close> to \<open>b\<close>; the link addresses do not matter to the receiver.\<close>

definition carries :: "u8 \<Rightarrow> net \<Rightarrow> net \<Rightarrow> u8 list \<Rightarrow> u8 list \<Rightarrow> bool" where
  "carries pr a b data f \<longleftrightarrow> (\<exists>d m i. length d = 6 \<and> length m = 6 \<and>
     f = ip_frame d m i pr (nif_ip (nif a)) (nif_ip (nif b)) data)"

lemma carries_cong: "nif a' = nif a \<Longrightarrow> nif b' = nif b \<Longrightarrow> carries pr a' b' data f = carries pr a b data f"
  by (simp add: carries_def)

lemma send_reaches:
  assumes "reaches a b" and "length data \<le> 1480"
  shows "\<exists>f. carries pr a b data f \<and>
    ip_send poll (nif_ip (nif b)) pr data a = Some (a\<lparr>ip_id := ip_id a + 1, tx := tx a @ [f]\<rparr>)"
proof -
  obtain mac where "arp_lookup (ip_next_hop (nif_ip (nif b)) a) a = Some mac" "length mac = 6"
    using assms(1) by (auto simp: reaches_def split: option.splits)
  then show ?thesis
    using assms ip_send_cached [of a "nif_ip (nif b)" mac data poll pr] unfolding carries_def reaches_def by blast
qed

lemma deliver_carries:
  assumes "carries pr a b data f" and "rx b = [f]" and "length data \<le> 1480"
  defines "n \<equiv> of_nat (length data)"
  shows "\<exists>rest. net_poll b =
    (if pr = 1 then icmp_receive net_poll (nif_ip (nif a)) (data @ rest) n (taken f b)
     else if pr = 17 then udp_receive net_poll (data @ rest) n (taken f b)
     else if pr = 6 then tcp_receive net_poll (nif_ip (nif a)) (data @ rest) n (taken f b)
     else Some (taken f b))"
proof -
  obtain d m i where f: "length d = 6" "length m = 6" "f = ip_frame d m i pr (nif_ip (nif a)) (nif_ip (nif b)) data"
    using assms(1) by (auto simp: carries_def)
  show ?thesis
    unfolding n_def using deliver [OF assms(2) [unfolded f(3)] refl f(1,2) assms(3)] unfolding f(3) by blast
qed

section \<open>The echo service\<close>

lemma icmp_packet_parts:
  fixes ty :: u8 and ident seqn :: u16 and data rest rest' :: "u8 list"
  assumes "length data \<le> 56"
  defines "p \<equiv> icmp_packet ty ident seqn (data @ rest) (of_nat (length data))"
  shows "length p = 8 + length data" and "(p @ rest') ! 0 = ty" and "htons (rd16 (p @ rest') 4) = ident"
    and "htons (rd16 (p @ rest') 6) = seqn" and "drop 8 (p @ rest') = data @ rest'" and "ip_checksum p = 0"
    and "p = icmp_packet ty ident seqn data (of_nat (length data))"
proof -
  define q where "q = [ty, 0, 0, 0] @ le16 (htons ident) @ le16 (htons seqn) @ data"
  have u: "unat (of_nat (length data) :: u16) = length data" using assms(1) by (simp add: unat_of_nat take_bit_nat_eq_self)
  have g: "\<not> (of_nat (length data) :: u16) > 56" using assms(1) by (simp add: word_less_nat_alt u)
  have p: "p = store16 2 (icmp_checksum q) q"
    unfolding p_def icmp_packet_def Let_def q_def using g u by simp
  show "p = icmp_packet ty ident seqn data (of_nat (length data))"
    unfolding p icmp_packet_def Let_def q_def using g u by simp
  have q0: "rd16 q 2 = 0" by (simp add: q_def rd16_def)
  have e: "icmp_checksum q = ip_checksum q" by (simp add: icmp_checksum_def ip_checksum_def)
  show "ip_checksum p = 0"
    unfolding p e by (rule checksum_stored) (use assms(1) q0 in \<open>simp_all add: q_def\<close>)
  have p': "p = [ty, 0] @ le16 (icmp_checksum q) @ le16 (htons ident) @ le16 (htons seqn) @ data"
    unfolding p store16_def by (simp add: q_def)
  show "length p = 8 + length data" "(p @ rest') ! 0 = ty" "drop 8 (p @ rest') = data @ rest'"
    unfolding p' by (simp_all add: le16_def)
  have "rd16 (([ty, 0] @ le16 (icmp_checksum q)) @ le16 (htons ident) @ le16 (htons seqn) @ data @ rest') 4 = htons ident"
    by (rule rd16_at) simp
  then show "htons (rd16 (p @ rest') 4) = ident" unfolding p' by simp
  have "rd16 (([ty, 0] @ le16 (icmp_checksum q) @ le16 (htons ident)) @ le16 (htons seqn) @ data @ rest') 6 = htons seqn"
    by (rule rd16_at) simp
  then show "htons (rd16 (p @ rest') 6) = seqn" unfolding p' by simp
qed

lemma echo_request_sent:
  assumes "reaches a b" and "length data \<le> 56"
  shows "\<exists>f. carries 1 a b (icmp_packet 8 ident seqn data (of_nat (length data))) f \<and>
    icmp_send_echo_request poll (nif_ip (nif b)) ident seqn data (of_nat (length data)) a =
      Some (a\<lparr>ip_id := ip_id a + 1, tx := tx a @ [f]\<rparr>)"
  unfolding icmp_send_echo_request_def
  using send_reaches [OF assms(1)] icmp_packet_parts(1,7) [OF assms(2), where rest = "[]"] assms(2) by simp

text \<open>A request that arrives is answered with one frame, whatever follows it in the receive buffer.\<close>

lemma echo_answered:
  assumes "carries 1 a b (icmp_packet 8 ident seqn data (of_nat (length data))) f" and "rx b = [f]"
    and "reaches b a" and "length data \<le> 56"
  shows "\<exists>g. carries 1 b a (icmp_packet 0 ident seqn data (of_nat (length data))) g \<and>
    net_poll b = Some ((taken f b)\<lparr>ip_id := ip_id b + 1, tx := tx b @ [g]\<rparr>)"
proof -
  define p where "p = icmp_packet 8 ident seqn data (of_nat (length data))"
  note parts = icmp_packet_parts [OF assms(4), where rest = "[]" and ty = 8 and ident = ident and seqn = seqn, unfolded append_Nil2, folded p_def]
  have u: "unat (of_nat (length p) :: u16) = 8 + length data"
    using assms(4) by (simp add: parts(1) unat_of_nat take_bit_nat_eq_self del: of_nat_add)
  then have l: "\<not> (of_nat (length p) :: u16) < 8" "(of_nat (length p) - 8 :: u16) = of_nat (length data)"
    by (simp_all add: word_less_nat_alt parts(1))
  obtain rest where poll: "net_poll b = icmp_receive net_poll (nif_ip (nif a)) (p @ rest) (of_nat (length p)) (taken f b)"
    using deliver_carries [OF assms(1,2)] parts(1) assms(4) unfolding p_def by auto
  have r: "reaches (taken f b) a" using assms(3) reaches_cong [of "taken f b" b a a] by simp
  note reply = icmp_packet_parts(1,7) [OF assms(4), where ty = 0 and ident = ident and seqn = seqn and rest = rest]
  have "net_poll b = ip_send net_poll (nif_ip (nif a)) 1 (icmp_packet 0 ident seqn data (of_nat (length data))) (taken f b)"
    unfolding poll icmp_receive_def icmp_send_echo_reply_def parts(2-5) using l by (simp add: reply(2) del: of_nat_add)
  then show ?thesis
    using send_reaches [OF r, where data = "icmp_packet 0 ident seqn data (of_nat (length data))" and poll = net_poll and pr = 1] reply assms(4)
      carries_cong [where a' = "taken f b" and a = b and b' = a and b = a] by simp
qed

lemma echo_reply_noted:
  assumes "carries 1 b a (icmp_packet 0 ident seqn data (of_nat (length data))) g" and "rx a = [g]" and "length data \<le> 56"
  shows "net_poll a = Some ((taken g a)\<lparr>ping_reply := Some (8 + of_nat (length data), 0, 64)\<rparr>)"
proof -
  define p where "p = icmp_packet 0 ident seqn data (of_nat (length data))"
  note parts = icmp_packet_parts [OF assms(3), where rest = "[]" and ty = 0 and ident = ident and seqn = seqn, unfolded append_Nil2, folded p_def]
  have u: "unat (of_nat (length p) :: u16) = 8 + length data"
    using assms(3) by (simp add: parts(1) unat_of_nat take_bit_nat_eq_self del: of_nat_add)
  then have l: "\<not> (of_nat (length p) :: u16) < 8" by (simp add: word_less_nat_alt)
  obtain rest where poll: "net_poll a = icmp_receive net_poll (nif_ip (nif b)) (p @ rest) (of_nat (length p)) (taken g a)"
    using deliver_carries [OF assms(1,2)] parts(1) assms(3) unfolding p_def by auto
  show ?thesis unfolding poll icmp_receive_def parts(2) using l by (simp add: parts(1))
qed

text \<open>
  C23. A ping works end to end: when two hosts can reach each other, the request that one sends
  (with up to 56 bytes of data) is answered by the other with exactly one frame, an echo reply of the
  same identifier, sequence number and data whose checksum verifies, and when that frame arrives the
  sender notes a reply of the right length and sends nothing more.
\<close>

theorem ping_roundtrip:
  assumes "reaches a b" and "reaches b a" and "tx a = []" and "tx b = []" and "length data \<le> 56"
  defines "n \<equiv> of_nat (length data)"
  shows "\<exists>a1 b1 a2 reply.
    icmp_send_echo_request net_poll (nif_ip (nif b)) ident seqn data n a = Some a1 \<and>
    net_poll (b\<lparr>rx := tx a1\<rparr>) = Some b1 \<and> tx b1 = [reply] \<and>
    carries 1 b a (icmp_packet 0 ident seqn data n) reply \<and> ip_checksum (icmp_packet 0 ident seqn data n) = 0 \<and>
    net_poll (a1\<lparr>rx := tx b1\<rparr>) = Some a2 \<and> ping_reply a2 = Some (8 + n, 0, 64) \<and> tx a2 = tx a1"
proof -
  obtain f where f: "carries 1 a b (icmp_packet 8 ident seqn data n) f"
    "icmp_send_echo_request net_poll (nif_ip (nif b)) ident seqn data n a = Some (a\<lparr>ip_id := ip_id a + 1, tx := [f]\<rparr>)"
    using echo_request_sent [OF assms(1,5), of ident seqn net_poll] unfolding n_def assms(3) by auto
  define b0 where "b0 = b\<lparr>rx := [f]\<rparr>"
  have c: "carries 1 a b0 (icmp_packet 8 ident seqn data n) f" "reaches b0 a"
    using f(1) assms(2) carries_cong [where a' = a and a = a and b' = b0 and b = b]
      reaches_cong [where a' = b0 and a = b and b' = a and b = a] by (simp_all add: b0_def)
  obtain g where g: "carries 1 b0 a (icmp_packet 0 ident seqn data n) g"
    "net_poll b0 = Some ((taken f b0)\<lparr>ip_id := ip_id b0 + 1, tx := [g]\<rparr>)"
    using echo_answered [OF c(1) [unfolded n_def] _ c(2) assms(5)] unfolding n_def by (auto simp: b0_def assms(4))
  define a0 where "a0 = a\<lparr>ip_id := ip_id a + 1, tx := [f], rx := [g]\<rparr>"
  have cg: "carries 1 b a0 (icmp_packet 0 ident seqn data n) g" "carries 1 b a (icmp_packet 0 ident seqn data n) g"
    using g(1) carries_cong [where a' = b and a = b0 and b' = a0 and b = a]
      carries_cong [where a' = b and a = b0 and b' = a and b = a] by (simp_all add: a0_def b0_def)
  have n: "net_poll a0 = Some ((taken g a0)\<lparr>ping_reply := Some (8 + n, 0, 64)\<rparr>)"
    using echo_reply_noted [OF cg(1) [unfolded n_def] _ assms(5)] by (simp add: a0_def n_def)
  have z: "ip_checksum (icmp_packet 0 ident seqn data n) = 0"
    using icmp_packet_parts(6) [OF assms(5), where rest = "[]"] by (simp add: n_def)
  show ?thesis
    using f(2) g(2) cg(2) n z by (simp add: a0_def b0_def)
qed

text \<open>A host with one entry in its ARP cache.\<close>

definition host :: "u32 \<Rightarrow> u8 list \<Rightarrow> u32 \<Rightarrow> u8 list \<Rightarrow> net" where
  "host ip mac peer peer_mac =
     \<lparr>nif = \<lparr>nif_mac = mac, nif_ip = ip, nif_netmask = 0xFFFFFF00, nif_gateway = 0x0A000201\<rparr>,
      arp_cache = \<lparr>ae_ip = peer, ae_mac = peer_mac, ae_valid = True\<rparr> # replicate 31 \<lparr>ae_ip = 0, ae_mac = replicate 6 0, ae_valid = False\<rparr>,
      ip_id = 0, rx = [], rx_buffer = replicate 2048 0, tx = [], conns = replicate MAX_TCP_CONNECTIONS zero_conn,
      dhcp_st = DHCP_STATE_INIT,
      dhcp_ls = \<lparr>le_ip = 0, le_netmask = 0, le_gateway = 0, le_dns = 0, le_server = 0, le_lease_time = 0\<rparr>,
      dhcp_xid = 0x12345678, dns_server = 0x08080808, dns_cache = [], dns_id = 1, dns_result_ip = 0,
      dns_result_ready = False, ping_reply = None\<rparr>"

lemma host_fields [simp]:
  "nif_ip (nif (host ip mac p pm)) = ip" "nif_mac (nif (host ip mac p pm)) = mac" "tx (host ip mac p pm) = []"
  "rx (host ip mac p pm) = []" "conns (host ip mac p pm) = replicate MAX_TCP_CONNECTIONS zero_conn" "ip_id (host ip mac p pm) = 0"
  by (simp_all add: host_def)

lemma host_reaches:
  assumes "ip \<noteq> 0" and "length mac = 6" and "length pm = 6" and "p AND 0xFFFFFF00 = ip AND 0xFFFFFF00" and "nif_ip (nif b) = p"
  shows "reaches (host ip mac p pm) b"
  using assms unfolding reaches_def ip_next_hop_def arp_lookup_def by (simp add: host_def)

definition mac_a :: "u8 list" where "mac_a = [0x52, 0x54, 0, 0x12, 0x34, 0x56]"
definition mac_b :: "u8 list" where "mac_b = [0x52, 0x54, 0, 0x12, 0x34, 0x57]"
definition host_a :: net where "host_a = host 0x0A00020F mac_a 0x0A000210 mac_b"
definition host_b :: net where "host_b = host 0x0A000210 mac_b 0x0A00020F mac_a"

lemma hosts_reach: "reaches host_a host_b" "reaches host_b host_a"
  by (simp_all add: host_a_def host_b_def host_reaches mac_a_def mac_b_def)

lemma ping_roundtrip_witness:
  "\<exists>a1 b1 a2 reply.
    icmp_send_echo_request net_poll (nif_ip (nif host_b)) 7 1 [1, 2, 3] (of_nat (length [1 :: u8, 2, 3])) host_a = Some a1 \<and>
    net_poll (host_b\<lparr>rx := tx a1\<rparr>) = Some b1 \<and> tx b1 = [reply] \<and>
    carries 1 host_b host_a (icmp_packet 0 7 1 [1, 2, 3] (of_nat (length [1 :: u8, 2, 3]))) reply \<and>
    ip_checksum (icmp_packet 0 7 1 [1, 2, 3] (of_nat (length [1 :: u8, 2, 3]))) = 0 \<and>
    net_poll (a1\<lparr>rx := tx b1\<rparr>) = Some a2 \<and> ping_reply a2 = Some (8 + of_nat (length [1 :: u8, 2, 3]), 0, 64) \<and> tx a2 = tx a1"
  by (rule ping_roundtrip [OF hosts_reach]) (simp_all add: host_a_def host_b_def)

lemma net_poll_enough_witness: "net_poll_n 5 host_a = net_poll host_a \<and> net_poll host_a = poll_loop net_poll 16 host_a"
  by (rule net_poll_enough) (simp add: host_a_def)

section \<open>The TCP handshake\<close>

text \<open>The segment that \<open>tcp_send_packet\<close> builds for a connection.\<close>

definition tcp_segment :: "u32 \<Rightarrow> tcp_conn \<Rightarrow> u8 \<Rightarrow> u8 list \<Rightarrow> u8 list" where
  "tcp_segment ip c flags data =
     (let p = tcp_header c flags @ data in store16 16 (tcp_checksum ip (tc_remote_ip c) p (of_nat (length p))) p)"

lemma tcp_segment_parts:
  fixes ip :: u32 and c :: tcp_conn and flags :: u8 and data rest :: "u8 list"
  defines "p \<equiv> tcp_segment ip c flags data"
  shows "length p = 20 + length data"
    and "htons (rd16 (p @ rest) 0) = tc_local_port c" and "htons (rd16 (p @ rest) 2) = tc_remote_port c"
    and "htonl (rd32 (p @ rest) 4) = tc_seq c" and "htonl (rd32 (p @ rest) 8) = tc_ack c"
    and "(p @ rest) ! 12 = 0x50" and "(p @ rest) ! 13 = flags"
proof -
  define q where "q = tcp_header c flags @ data"
  define k where "k = tcp_checksum ip (tc_remote_ip c) q (of_nat (length q))"
  define l r sq ak where "l = le16 (htons (tc_local_port c))" and "r = le16 (htons (tc_remote_port c))"
    and "sq = le32 (htonl (tc_seq c))" and "ak = le32 (htonl (tc_ack c))"
  have len: "length l = 2" "length r = 2" "length sq = 4" "length ak = 4" by (simp_all add: l_def r_def sq_def ak_def)
  have q: "q = (l @ r @ sq @ ak @ [0x50, flags] @ le16 (htons 8192)) @ [0, 0] @ [0, 0] @ data"
    by (simp add: q_def tcp_header_def l_def r_def sq_def ak_def)
  have p: "p = l @ r @ sq @ ak @ [0x50, flags] @ le16 (htons 8192) @ le16 k @ [0, 0] @ data"
    unfolding p_def tcp_segment_def Let_def q_def [symmetric] k_def [symmetric] unfolding store16_def q
    by (simp add: len)
  show "length p = 20 + length data" unfolding p by (simp add: len)
  show "(p @ rest) ! 12 = 0x50" "(p @ rest) ! 13 = flags" unfolding p by (simp_all add: len nth_append)
  have "rd16 ([] @ l @ r @ sq @ ak @ [0x50, flags] @ le16 (htons 8192) @ le16 k @ [0, 0] @ data @ rest) 0 = htons (tc_local_port c)"
    unfolding l_def by (rule rd16_at) simp
  then show "htons (rd16 (p @ rest) 0) = tc_local_port c" unfolding p by simp
  have "rd16 (l @ r @ sq @ ak @ [0x50, flags] @ le16 (htons 8192) @ le16 k @ [0, 0] @ data @ rest) 2 = htons (tc_remote_port c)"
    unfolding r_def by (rule rd16_at) (simp add: len)
  then show "htons (rd16 (p @ rest) 2) = tc_remote_port c" unfolding p by simp
  have "rd32 ((l @ r) @ sq @ ak @ [0x50, flags] @ le16 (htons 8192) @ le16 k @ [0, 0] @ data @ rest) 4 = htonl (tc_seq c)"
    unfolding sq_def by (rule rd32_at) (simp add: len)
  then show "htonl (rd32 (p @ rest) 4) = tc_seq c" unfolding p by simp
  have "rd32 ((l @ r @ sq) @ ak @ [0x50, flags] @ le16 (htons 8192) @ le16 k @ [0, 0] @ data @ rest) 8 = htonl (tc_ack c)"
    unfolding ak_def by (rule rd32_at) (simp add: len)
  then show "htonl (rd32 (p @ rest) 8) = tc_ack c" unfolding p by simp
qed

lemma tcp_packet_sent:
  assumes "reaches a b" and "tc_remote_ip (conns a ! k) = nif_ip (nif b)" and "length data \<le> 1460"
  shows "\<exists>f. carries 6 a b (tcp_segment (nif_ip (nif a)) (conns a ! k) flags data) f \<and>
    tcp_send_packet poll k flags data a = Some (a\<lparr>ip_id := ip_id a + 1, tx := tx a @ [f]\<rparr>)"
proof -
  let ?p = "tcp_segment (nif_ip (nif a)) (conns a ! k) flags data"
  have "tcp_send_packet poll k flags data a = ip_send poll (nif_ip (nif b)) 6 ?p a"
    unfolding tcp_send_packet_def tcp_segment_def Let_def using assms(2,3) by simp
  moreover have "length ?p \<le> 1480" using assms(3) by (simp add: tcp_segment_parts(1))
  ultimately show ?thesis using send_reaches [OF assms(1), where pr = 6 and poll = poll and data = ?p] by simp
qed

text \<open>A segment that arrives reaches the state machine with its own header and length.\<close>

lemma tcp_delivered:
  assumes "carries 6 a b (tcp_segment (nif_ip (nif a)) c flags []) f" and "rx b = [f]"
  shows "\<exists>rest. net_poll b =
    tcp_receive net_poll (nif_ip (nif a)) (tcp_segment (nif_ip (nif a)) c flags [] @ rest) 20 (taken f b)"
  using deliver_carries [OF assms] by (simp add: tcp_segment_parts(1))

lemma tcp_target_found:
  assumes "tcp_find_conn ip rp lp s = Some k"
  shows "tcp_target ip rp lp s = Some k"
  using assms by (simp add: tcp_target_def)

text \<open>The state machine on a segment without data, for a connection that is found.\<close>

lemma tcp_receive_at:
  fixes c :: tcp_conn and flags :: u8 and rest :: "u8 list"
  assumes "tcp_target src (tc_local_port c) (tc_remote_port c) s = Some k"
  defines "r \<equiv> \<lambda>ip poll. tcp_receive poll src (tcp_segment ip c flags [] @ rest) 20 s"
  shows "tc_state (conns s ! k) = TCP_LISTEN \<Longrightarrow> flags AND TCP_SYN \<noteq> 0 \<Longrightarrow> r ip poll =
      map_option (upd_conn k (\<lambda>c. c\<lparr>tc_seq := tc_seq c + 1\<rparr>)) (tcp_send_packet poll k (TCP_SYN OR TCP_ACK) []
        (upd_conn k (\<lambda>d. d\<lparr>tc_remote_ip := src, tc_remote_port := tc_local_port c, tc_ack := tc_seq c + 1,
           tc_seq := 2000, tc_state := TCP_SYN_RECEIVED\<rparr>) s))"
    and "tc_state (conns s ! k) = TCP_SYN_SENT \<Longrightarrow> flags AND TCP_SYN \<noteq> 0 \<and> flags AND TCP_ACK \<noteq> 0 \<Longrightarrow> r ip poll =
      tcp_send_packet poll k TCP_ACK [] (upd_conn k (\<lambda>d. d\<lparr>tc_ack := tc_seq c + 1, tc_state := TCP_ESTABLISHED\<rparr>) s)"
    and "tc_state (conns s ! k) = TCP_SYN_RECEIVED \<Longrightarrow> flags AND TCP_ACK \<noteq> 0 \<Longrightarrow> r ip poll =
      Some (upd_conn k (\<lambda>d. d\<lparr>tc_state := TCP_ESTABLISHED\<rparr>) s)"
  unfolding r_def tcp_receive_def Let_def tcp_segment_parts(2-4,7) assms(1) by simp_all

lemma tcp_target_cong: "conns s = conns t \<Longrightarrow> tcp_target a p q s = tcp_target a p q t"
  unfolding tcp_target_def tcp_find_conn_def by (erule ssubst) (rule refl)

lemma upd_conn_fields [simp]:
  "nif (upd_conn k g s) = nif s" "arp_cache (upd_conn k g s) = arp_cache s" "tx (upd_conn k g s) = tx s"
  "ip_id (upd_conn k g s) = ip_id s" "conns (upd_conn k g s) = (conns s)[k := g (conns s ! k)]"
  by (simp_all add: upd_conn_def)

text \<open>A connection that changed and then answers: the reply is built from the changed connection.\<close>

lemma tcp_answers:
  assumes "reaches s b" and "k < length (conns s)" and "tc_remote_ip (g (conns s ! k)) = nif_ip (nif b)"
  shows "\<exists>f. carries 6 s b (tcp_segment (nif_ip (nif s)) (g (conns s ! k)) flags []) f \<and>
    tcp_send_packet poll k flags [] (upd_conn k g s) =
      Some (s\<lparr>ip_id := ip_id s + 1, tx := tx s @ [f], conns := (conns s)[k := g (conns s ! k)]\<rparr>)"
proof -
  have r: "reaches (upd_conn k g s) b" using assms(1) reaches_cong [where a' = "upd_conn k g s" and a = s and b = b] by simp
  obtain f where "carries 6 (upd_conn k g s) b (tcp_segment (nif_ip (nif s)) (g (conns s ! k)) flags []) f"
    "tcp_send_packet poll k flags [] (upd_conn k g s) =
       Some ((upd_conn k g s)\<lparr>ip_id := ip_id s + 1, tx := tx s @ [f]\<rparr>)"
    using tcp_packet_sent [OF r, of k "[]" flags poll] assms(2,3) by auto
  then show ?thesis
    using carries_cong [where a' = "upd_conn k g s" and a = s and b = b] by (auto simp: upd_conn_def)
qed

lemma reaches_taken: "reaches s b \<Longrightarrow> reaches (taken f s) b"
  using reaches_cong [where a' = "taken f s" and a = s and b = b] by simp

lemma carries_taken: "carries pr (taken f s) b data g = carries pr s b data g"
  using carries_cong [where a' = "taken f s" and a = s and b = b] by simp

lemma syn_answered:
  assumes "carries 6 a b (tcp_segment (nif_ip (nif a)) c TCP_SYN []) f" and "rx b = [f]" and "reaches b a"
    and "tcp_target (nif_ip (nif a)) (tc_local_port c) (tc_remote_port c) b = Some k" and "k < length (conns b)"
    and "tc_state (conns b ! k) = TCP_LISTEN"
  defines "d \<equiv> (conns b ! k)\<lparr>tc_remote_ip := nif_ip (nif a), tc_remote_port := tc_local_port c, tc_ack := tc_seq c + 1,
    tc_seq := 2000, tc_state := TCP_SYN_RECEIVED\<rparr>"
  shows "\<exists>g. carries 6 b a (tcp_segment (nif_ip (nif b)) d (TCP_SYN OR TCP_ACK) []) g \<and>
    net_poll b = Some ((taken f b)\<lparr>ip_id := ip_id b + 1, tx := tx b @ [g], conns := (conns b)[k := d\<lparr>tc_seq := 2001\<rparr>]\<rparr>)"
proof -
  define s where "s = taken f b"
  obtain rest where p: "net_poll b =
      tcp_receive net_poll (nif_ip (nif a)) (tcp_segment (nif_ip (nif a)) c TCP_SYN [] @ rest) 20 s"
    using tcp_delivered [OF assms(1,2)] unfolding s_def by blast
  have s: "tcp_target (nif_ip (nif a)) (tc_local_port c) (tc_remote_port c) s = Some k" "conns s = conns b" "nif s = nif b"
    "tx s = tx b" "ip_id s = ip_id b" "reaches s a"
    using assms(3,4) tcp_target_cong [of s b] by (simp_all add: s_def reaches_taken)
  define g :: "tcp_conn \<Rightarrow> tcp_conn" where "g = (\<lambda>d. d\<lparr>tc_remote_ip := nif_ip (nif a), tc_remote_port := tc_local_port c, tc_ack := tc_seq c + 1,
    tc_seq := 2000, tc_state := TCP_SYN_RECEIVED\<rparr>)"
  have gd: "g (conns s ! k) = d" by (simp add: g_def d_def s)
  obtain r where r: "carries 6 s a (tcp_segment (nif_ip (nif s)) d (TCP_SYN OR TCP_ACK) []) r"
    "tcp_send_packet net_poll k (TCP_SYN OR TCP_ACK) [] (upd_conn k g s) =
       Some (s\<lparr>ip_id := ip_id b + 1, tx := tx b @ [r], conns := (conns b)[k := d]\<rparr>)"
    using tcp_answers [OF s(6), of k g] assms(5) gd s by (auto simp: d_def)
  have "net_poll b = map_option (upd_conn k (\<lambda>c. c\<lparr>tc_seq := tc_seq c + 1\<rparr>)) (tcp_send_packet net_poll k (TCP_SYN OR TCP_ACK) [] (upd_conn k g s))"
    unfolding p g_def by (rule tcp_receive_at(1) [OF s(1)]) (use assms(6) s in simp_all)
  moreover have "tc_seq d + 1 = 2001" by (simp add: d_def)
  ultimately show ?thesis
    using r assms(5) unfolding s_def carries_taken by (auto simp: upd_conn_def d_def)
qed

lemma syn_ack_confirmed:
  assumes "carries 6 b a (tcp_segment (nif_ip (nif b)) d (TCP_SYN OR TCP_ACK) []) g" and "rx a = [g]" and "reaches a b"
    and "tcp_target (nif_ip (nif b)) (tc_local_port d) (tc_remote_port d) a = Some k" and "k < length (conns a)"
    and "tc_state (conns a ! k) = TCP_SYN_SENT" and "tc_remote_ip (conns a ! k) = nif_ip (nif b)"
  defines "c \<equiv> (conns a ! k)\<lparr>tc_ack := tc_seq d + 1, tc_state := TCP_ESTABLISHED\<rparr>"
  shows "\<exists>h. carries 6 a b (tcp_segment (nif_ip (nif a)) c TCP_ACK []) h \<and>
    net_poll a = Some ((taken g a)\<lparr>ip_id := ip_id a + 1, tx := tx a @ [h], conns := (conns a)[k := c]\<rparr>)"
proof -
  define s where "s = taken g a"
  obtain rest where p: "net_poll a =
      tcp_receive net_poll (nif_ip (nif b)) (tcp_segment (nif_ip (nif b)) d (TCP_SYN OR TCP_ACK) [] @ rest) 20 s"
    using tcp_delivered [OF assms(1,2)] unfolding s_def by blast
  have s: "tcp_target (nif_ip (nif b)) (tc_local_port d) (tc_remote_port d) s = Some k" "conns s = conns a" "nif s = nif a"
    "tx s = tx a" "ip_id s = ip_id a" "reaches s b"
    using assms(3,4) tcp_target_cong [of s a] by (simp_all add: s_def reaches_taken)
  have "net_poll a = tcp_send_packet net_poll k TCP_ACK [] (upd_conn k (\<lambda>x. x\<lparr>tc_ack := tc_seq d + 1, tc_state := TCP_ESTABLISHED\<rparr>) s)"
    unfolding p by (rule tcp_receive_at(2) [OF s(1)]) (use assms(6) s in simp_all)
  then show ?thesis
    using tcp_answers [OF s(6), of k "\<lambda>x. x\<lparr>tc_ack := tc_seq d + 1, tc_state := TCP_ESTABLISHED\<rparr>" TCP_ACK net_poll] assms(5,7) s
    by (auto simp: c_def s_def carries_taken)
qed

lemma ack_accepted:
  assumes "carries 6 a b (tcp_segment (nif_ip (nif a)) c TCP_ACK []) h" and "rx b = [h]"
    and "tcp_target (nif_ip (nif a)) (tc_local_port c) (tc_remote_port c) b = Some k"
    and "tc_state (conns b ! k) = TCP_SYN_RECEIVED"
  shows "net_poll b = Some (upd_conn k (\<lambda>d. d\<lparr>tc_state := TCP_ESTABLISHED\<rparr>) (taken h b))"
proof -
  have s: "tcp_target (nif_ip (nif a)) (tc_local_port c) (tc_remote_port c) (taken h b) = Some k"
    using assms(3) tcp_target_cong [of "taken h b" b] by simp
  obtain rest where "net_poll b =
      tcp_receive net_poll (nif_ip (nif a)) (tcp_segment (nif_ip (nif a)) c TCP_ACK [] @ rest) 20 (taken h b)"
    using tcp_delivered [OF assms(1,2)] by blast
  then show ?thesis using tcp_receive_at(3) [OF s] assms(4) by simp
qed

lemma tcp_find_conn_miss:
  assumes "tcp_find_conn ip rp lp s = None" and "conns t = (conns s)[k := c]" and "tc_remote_ip c \<noteq> ip"
  shows "tcp_find_conn ip rp lp t = None"
  using assms set_update_subset_insert [of "conns s" k c] by (auto simp: tcp_find_conn_def)

lemma tcp_find_conn_hit:
  assumes "tcp_find_conn ip rp lp s = None" and "conns t = (conns s)[k := c]" and "k < length (conns s)"
    and "tc_in_use c" and "tc_remote_ip c = ip" and "tc_remote_port c = rp" and "tc_local_port c = lp"
  shows "tcp_find_conn ip rp lp t = Some k"
  unfolding tcp_find_conn_def assms(2) by (rule find_idx_hit) (use assms in \<open>auto simp: tcp_find_conn_def\<close>)

text \<open>The connections that \<open>tcp_connect\<close> and \<open>tcp_listen\<close> set up.\<close>

definition client_conn :: "u32 \<Rightarrow> u32 \<Rightarrow> u16 \<Rightarrow> tcp_conn" where
  "client_conn ip peer port = zero_conn\<lparr>tc_in_use := True, tc_local_ip := ip, tc_remote_ip := peer,
     tc_local_port := 49152 + port mod 16384, tc_remote_port := port, tc_seq := 1000, tc_state := TCP_SYN_SENT\<rparr>"

definition server_conn :: "u32 \<Rightarrow> u16 \<Rightarrow> tcp_conn" where
  "server_conn ip port = zero_conn\<lparr>tc_in_use := True, tc_local_ip := ip, tc_local_port := port, tc_state := TCP_LISTEN\<rparr>"

lemma connect_sends:
  fixes port :: u16
  assumes "reaches a b" and "find_idx (\<lambda>c. \<not> tc_in_use c) (conns a) = Some k"
  defines "c \<equiv> client_conn (nif_ip (nif a)) (nif_ip (nif b)) port"
  shows "\<exists>f. carries 6 a b (tcp_segment (nif_ip (nif a)) c TCP_SYN []) f \<and>
    tcp_connect net_poll (nif_ip (nif b)) port a =
      Some (Some k, a\<lparr>ip_id := ip_id a + 1, tx := tx a @ [f], conns := (conns a)[k := c\<lparr>tc_seq := 1001\<rparr>]\<rparr>)"
proof -
  have k: "k < length (conns a)" using find_idx_SomeD [OF assms(2)] by simp
  define g :: "tcp_conn \<Rightarrow> tcp_conn" where "g = (\<lambda>_. c)"
  obtain f where f: "carries 6 a b (tcp_segment (nif_ip (nif a)) c TCP_SYN []) f"
    "tcp_send_packet net_poll k TCP_SYN [] (upd_conn k g a) =
      Some (a\<lparr>ip_id := ip_id a + 1, tx := tx a @ [f], conns := (conns a)[k := c]\<rparr>)"
    using tcp_answers [OF assms(1) k, of g TCP_SYN net_poll] by (auto simp: g_def c_def client_conn_def)
  have "tcp_connect net_poll (nif_ip (nif b)) port a =
      (case tcp_send_packet net_poll k TCP_SYN [] (upd_conn k g a) of None \<Rightarrow> None
       | Some s3 \<Rightarrow> Some (Some k, upd_conn k (\<lambda>c. c\<lparr>tc_seq := tc_seq c + 1\<rparr>) s3))"
    unfolding tcp_connect_def tcp_alloc_conn_def assms(2) Let_def using k
    by (simp add: upd_conn_def g_def c_def client_conn_def zero_conn_def)
  then show ?thesis using f k by (auto simp: upd_conn_def c_def client_conn_def)
qed

definition accepted_conn :: "u32 \<Rightarrow> u16 \<Rightarrow> u32 \<Rightarrow> tcp_conn \<Rightarrow> tcp_conn" where
  "accepted_conn ip port peer c = (server_conn ip port)\<lparr>tc_remote_ip := peer, tc_remote_port := tc_local_port c,
     tc_ack := tc_seq c + 1, tc_seq := 2000, tc_state := TCP_SYN_RECEIVED\<rparr>"

text \<open>The first segment meets a listener.\<close>

lemma listener_answers:
  assumes "carries 6 a b (tcp_segment (nif_ip (nif a)) c TCP_SYN []) f" and "reaches b a" and "tx b = []" and "nif_ip (nif a) \<noteq> 0"
    and "tcp_target (nif_ip (nif a)) (tc_local_port c) (tc_remote_port c) b = None"
    and "find_idx (\<lambda>c. \<not> tc_in_use c) (conns b) = Some k"
  defines "d \<equiv> accepted_conn (nif_ip (nif b)) (tc_remote_port c) (nif_ip (nif a)) c"
  shows "fst (tcp_listen (tc_remote_port c) b) = Some k \<and>
    (\<exists>b1 g. net_poll ((snd (tcp_listen (tc_remote_port c) b))\<lparr>rx := [f]\<rparr>) = Some b1 \<and> nif b1 = nif b \<and> tx b1 = [g] \<and>
       conns b1 = (conns b)[k := d\<lparr>tc_seq := 2001\<rparr>] \<and>
       carries 6 b a (tcp_segment (nif_ip (nif b)) d (TCP_SYN OR TCP_ACK) []) g)"
proof -
  let ?ia = "nif_ip (nif a)" and ?l = "server_conn (nif_ip (nif b)) (tc_remote_port c)"
  have k: "k < length (conns b)" using find_idx_SomeD [OF assms(6)] by simp
  have listen: "tcp_listen (tc_remote_port c) b = (Some k, b\<lparr>conns := (conns b)[k := ?l]\<rparr>)"
    unfolding tcp_listen_def tcp_alloc_conn_def assms(6) using k by (simp add: upd_conn_def server_conn_def zero_conn_def)
  define b0 where "b0 = b\<lparr>conns := (conns b)[k := ?l], rx := [f]\<rparr>"
  have fb: "tcp_find_conn ?ia (tc_local_port c) (tc_remote_port c) b = None"
    "\<forall>x \<in> set (conns b). \<not> (tc_in_use x \<and> tc_state x = TCP_LISTEN \<and> tc_local_port x = tc_remote_port c)"
    using assms(5) unfolding tcp_target_def by (auto split: option.splits)
  have "tcp_find_conn ?ia (tc_local_port c) (tc_remote_port c) b0 = None"
    by (rule tcp_find_conn_miss [OF fb(1), where k = k and c = ?l])
      (use assms(4) [symmetric] in \<open>simp_all add: b0_def server_conn_def zero_conn_def\<close>)
  moreover have "find_idx (\<lambda>x. tc_in_use x \<and> tc_state x = TCP_LISTEN \<and> tc_local_port x = tc_remote_port c) (conns b0) = Some k"
    unfolding b0_def by (simp, rule find_idx_hit [OF fb(2) k]) (simp add: server_conn_def)
  ultimately have t: "tcp_target ?ia (tc_local_port c) (tc_remote_port c) b0 = Some k" by (simp add: tcp_target_def)
  have r: "carries 6 a b0 (tcp_segment ?ia c TCP_SYN []) f" "reaches b0 a"
    using assms(1,2) carries_cong [where a' = a and a = a and b' = b0 and b = b]
      reaches_cong [where a' = b0 and a = b and b' = a and b = a] by (simp_all add: b0_def)
  have d: "(conns b0 ! k)\<lparr>tc_remote_ip := ?ia, tc_remote_port := tc_local_port c, tc_ack := tc_seq c + 1,
    tc_seq := 2000, tc_state := TCP_SYN_RECEIVED\<rparr> = d"
    using k by (simp add: b0_def d_def accepted_conn_def)
  obtain g where g: "carries 6 b0 a (tcp_segment (nif_ip (nif b)) d (TCP_SYN OR TCP_ACK) []) g"
    "net_poll b0 = Some ((taken f b0)\<lparr>ip_id := ip_id b + 1, tx := [g], conns := (conns b)[k := d\<lparr>tc_seq := 2001\<rparr>]\<rparr>)"
    using syn_answered [OF r(1) _ r(2) t, unfolded d] k assms(3) by (auto simp: b0_def server_conn_def)
  have "carries 6 b a (tcp_segment (nif_ip (nif b)) d (TCP_SYN OR TCP_ACK) []) g"
    using g(1) carries_cong [where a' = b0 and a = b and b' = a and b = a] by (simp add: b0_def)
  then show ?thesis unfolding listen using g(2) by (simp add: b0_def)
qed

text \<open>The second segment meets the connection that sent the first.\<close>

lemma client_confirms:
  fixes port :: u16
  assumes "carries 6 b a (tcp_segment (nif_ip (nif b)) d (TCP_SYN OR TCP_ACK) []) g" and "reaches a b" and "k < length cs"
    and "conns a = cs[k := c]" and "\<forall>x \<in> set cs. \<not> (tc_in_use x \<and> tc_remote_ip x = tc_remote_ip c \<and>
      tc_remote_port x = tc_remote_port c \<and> tc_local_port x = tc_local_port c)"
    and "tc_in_use c" and "tc_state c = TCP_SYN_SENT" and "tc_remote_ip c = nif_ip (nif b)"
    and "tc_local_port d = tc_remote_port c" and "tc_remote_port d = tc_local_port c"
  defines "e \<equiv> c\<lparr>tc_ack := tc_seq d + 1, tc_state := TCP_ESTABLISHED\<rparr>"
  shows "\<exists>a2 h. net_poll (a\<lparr>rx := [g]\<rparr>) = Some a2 \<and> tx a2 = tx a @ [h] \<and> conns a2 = cs[k := e] \<and>
    carries 6 a b (tcp_segment (nif_ip (nif a)) e TCP_ACK []) h"
proof -
  define a1 where "a1 = a\<lparr>rx := [g]\<rparr>"
  have "tcp_find_conn (nif_ip (nif b)) (tc_remote_port c) (tc_local_port c) a1 = Some k"
    unfolding tcp_find_conn_def using assms by (auto simp: a1_def intro!: find_idx_hit)
  then have t: "tcp_target (nif_ip (nif b)) (tc_local_port d) (tc_remote_port d) a1 = Some k"
    by (simp add: tcp_target_found assms(9,10))
  have r: "carries 6 b a1 (tcp_segment (nif_ip (nif b)) d (TCP_SYN OR TCP_ACK) []) g" "reaches a1 b"
    using assms(1,2) carries_cong [where a' = b and a = b and b' = a1 and b = a]
      reaches_cong [where a' = a1 and a = a and b' = b and b = b] by (simp_all add: a1_def)
  have e: "(conns a1 ! k)\<lparr>tc_ack := tc_seq d + 1, tc_state := TCP_ESTABLISHED\<rparr> = e"
    using assms(3,4) by (simp add: a1_def e_def)
  obtain h where h: "carries 6 a1 b (tcp_segment (nif_ip (nif a)) e TCP_ACK []) h"
    "net_poll a1 = Some ((taken g a1)\<lparr>ip_id := ip_id a + 1, tx := tx a @ [h], conns := cs[k := e]\<rparr>)"
    using syn_ack_confirmed [OF r(1) _ r(2) t, unfolded e] assms(3,4,7,8) by (auto simp: a1_def)
  then show ?thesis
    using carries_cong [where a' = a1 and a = a and b' = b and b = b] by (simp add: a1_def)
qed

text \<open>
  C24. The handshake completes: when two hosts can reach each other, one listens on a port and the
  other connects to it (each has a free connection and none that clashes), the three segments that
  they exchange leave both ends established, with each other's address and port and with sequence
  and acknowledgement numbers that match.
\<close>

theorem tcp_handshake:
  assumes "reaches a b" and "reaches b a" and "tx a = []" and "tx b = []"
    and "find_idx (\<lambda>c. \<not> tc_in_use c) (conns a) = Some ka" and "find_idx (\<lambda>c. \<not> tc_in_use c) (conns b) = Some kb"
    and "tcp_find_conn (nif_ip (nif b)) port (49152 + port mod 16384) a = None"
    and "tcp_target (nif_ip (nif a)) (49152 + port mod 16384) port b = None"
  shows "\<exists>a1 b1 a2 b2.
    fst (tcp_listen port b) = Some kb \<and> tcp_connect net_poll (nif_ip (nif b)) port a = Some (Some ka, a1) \<and>
    net_poll ((snd (tcp_listen port b))\<lparr>rx := tx a1\<rparr>) = Some b1 \<and>
    net_poll (a1\<lparr>rx := tx b1\<rparr>) = Some a2 \<and>
    net_poll (b1\<lparr>rx := drop 1 (tx a2)\<rparr>) = Some b2 \<and>
    (let x = conns a2 ! ka; y = conns b2 ! kb in
       tc_state x = TCP_ESTABLISHED \<and> tc_state y = TCP_ESTABLISHED \<and>
       tc_remote_ip x = nif_ip (nif b) \<and> tc_remote_ip y = nif_ip (nif a) \<and>
       tc_remote_port x = tc_local_port y \<and> tc_remote_port y = tc_local_port x \<and>
       tc_seq x = tc_ack y \<and> tc_seq y = tc_ack x)"
proof -
  let ?ia = "nif_ip (nif a)" and ?ib = "nif_ip (nif b)" and ?lp = "49152 + port mod 16384"
  have k: "ka < length (conns a)" "kb < length (conns b)" using find_idx_SomeD [OF assms(5)] find_idx_SomeD [OF assms(6)] by simp_all
  have ia: "?ia \<noteq> 0" using assms(1) by (simp add: reaches_def)
  define c where "c = client_conn ?ia ?ib port"
  have cf: "tc_local_port c = ?lp" "tc_remote_port c = port" "tc_seq c = 1000" "tc_remote_ip c = ?ib"
    "tc_in_use c" "tc_state c = TCP_SYN_SENT" by (simp_all add: c_def client_conn_def)
  obtain f a1 where f: "carries 6 a b (tcp_segment ?ia c TCP_SYN []) f" "tcp_connect net_poll ?ib port a = Some (Some ka, a1)"
    "tx a1 = [f]" "conns a1 = (conns a)[ka := c\<lparr>tc_seq := 1001\<rparr>]" "nif a1 = nif a" "arp_cache a1 = arp_cache a"
    using connect_sends [OF assms(1,5), of port] unfolding c_def assms(3) by auto
  define d where "d = accepted_conn ?ib port ?ia c"
  have df: "tc_local_port d = port" "tc_remote_port d = ?lp" "tc_seq d = 2000" "tc_ack d = 1001" "tc_remote_ip d = ?ia"
    "tc_in_use d" "tc_state d = TCP_SYN_RECEIVED" by (simp_all add: d_def accepted_conn_def server_conn_def cf)
  obtain g b1 where g: "fst (tcp_listen port b) = Some kb" "net_poll ((snd (tcp_listen port b))\<lparr>rx := [f]\<rparr>) = Some b1"
    "nif b1 = nif b" "tx b1 = [g]" "conns b1 = (conns b)[kb := d\<lparr>tc_seq := 2001\<rparr>]"
    "carries 6 b a (tcp_segment ?ib d (TCP_SYN OR TCP_ACK) []) g"
    using listener_answers [OF f(1) assms(2,4) ia _ assms(6)] assms(8) unfolding cf d_def by blast
  define e where "e = c\<lparr>tc_seq := 1001, tc_ack := 2001, tc_state := TCP_ESTABLISHED\<rparr>"
  have ra: "carries 6 b a1 (tcp_segment ?ib d (TCP_SYN OR TCP_ACK) []) g" "reaches a1 b"
    using g(6) assms(1) f(5,6) carries_cong [where a' = b and a = b and b' = a1 and b = a]
      reaches_cong [where a' = a1 and a = a and b' = b and b = b] by simp_all
  obtain h a2 where h: "net_poll (a1\<lparr>rx := [g]\<rparr>) = Some a2" "tx a2 = [f, h]" "conns a2 = (conns a)[ka := e]"
    "carries 6 a1 b (tcp_segment ?ia e TCP_ACK []) h"
    using client_confirms [OF ra k(1) f(4)] assms(7) unfolding tcp_find_conn_def by (auto simp: cf df e_def f(3,5))
  define b2 where "b2 = b1\<lparr>rx := [h]\<rparr>"
  have fb: "tcp_find_conn ?ia ?lp port b = None" using assms(8) unfolding tcp_target_def by (auto split: option.splits)
  have "tcp_find_conn ?ia ?lp port b2 = Some kb"
    by (rule tcp_find_conn_hit [OF fb _ k(2), where c = "d\<lparr>tc_seq := 2001\<rparr>"]) (simp_all add: b2_def g(5) df)
  then have t: "tcp_target ?ia (tc_local_port e) (tc_remote_port e) b2 = Some kb" by (simp add: tcp_target_found e_def cf)
  have r: "carries 6 a b2 (tcp_segment ?ia e TCP_ACK []) h"
    using h(4) f(5) g(3) carries_cong [where a' = a1 and a = a and b' = b and b = b]
      carries_cong [where a' = a and a = a and b' = b2 and b = b] by (simp add: b2_def)
  have "net_poll b2 = Some (upd_conn kb (\<lambda>d. d\<lparr>tc_state := TCP_ESTABLISHED\<rparr>) (taken h b2))"
    by (rule ack_accepted [OF r _ t]) (use k df in \<open>simp_all add: b2_def g(5)\<close>)
  then show ?thesis
    unfolding f(2) using f(3) g h k cf df by (simp add: b2_def e_def)
qed

lemma tcp_handshake_witness:
  "\<exists>a1 b1 a2 b2.
    fst (tcp_listen 80 host_b) = Some 0 \<and> tcp_connect net_poll (nif_ip (nif host_b)) 80 host_a = Some (Some 0, a1) \<and>
    net_poll ((snd (tcp_listen 80 host_b))\<lparr>rx := tx a1\<rparr>) = Some b1 \<and>
    net_poll (a1\<lparr>rx := tx b1\<rparr>) = Some a2 \<and>
    net_poll (b1\<lparr>rx := drop 1 (tx a2)\<rparr>) = Some b2 \<and>
    (let x = conns a2 ! 0; y = conns b2 ! 0 in
       tc_state x = TCP_ESTABLISHED \<and> tc_state y = TCP_ESTABLISHED \<and>
       tc_remote_ip x = nif_ip (nif host_b) \<and> tc_remote_ip y = nif_ip (nif host_a) \<and>
       tc_remote_port x = tc_local_port y \<and> tc_remote_port y = tc_local_port x \<and>
       tc_seq x = tc_ack y \<and> tc_seq y = tc_ack x)"
  by (rule tcp_handshake [OF hosts_reach])
    (simp_all add: host_a_def host_b_def tcp_target_def tcp_find_conn_def zero_conn_def)

section \<open>Where the protocols fall short\<close>

text \<open>The pseudo header whose words, with the segment, a TCP peer sums.\<close>

definition pseudo_header :: "u32 \<Rightarrow> u32 \<Rightarrow> u16 \<Rightarrow> u8 list" where
  "pseudo_header src dest len = le32 (htonl src) @ le32 (htonl dest) @ [0, 6] @ le16 (htons len)"

text \<open>
  The addresses enter the TCP checksum in host order and everything else in network order. A peer that
  verifies the checksum accepts the segment exactly when the two readings of the addresses have the
  same sum modulo 65535.
\<close>

definition host_words :: "u32 \<Rightarrow> nat" where "host_words ip = unat (drop_bit 16 ip AND 0xFFFF) + unat (ip AND 0xFFFF)"

lemma and_FFFF_less: "unat (x AND 0xFFFF :: u32) < 65536"
proof -
  have "(0xFFFF :: u32) = mask 16" by (simp add: mask_eq_exp_minus_1)
  then have "unat (x AND 0xFFFF) = take_bit 16 (unat x)" by (simp only: take_bit_eq_mask [symmetric] unsigned_take_bit_eq)
  then show ?thesis using take_bit_nat_less_exp [of 16 "unat x"] by simp
qed

lemma unat_sum6:
  "unat a < 65536 \<Longrightarrow> unat b < 65536 \<Longrightarrow> unat c < 65536 \<Longrightarrow> unat d < 65536 \<Longrightarrow> unat e < 65536 \<Longrightarrow> unat f < 65536 \<Longrightarrow>
     unat (a + b + c + d + e + f :: u32) = unat a + unat b + unat c + unat d + unat e + unat f"
  by (simp add: unat_word_ariths)

lemma oc_complement:
  "(n + x + (65535 - oc (h + x))) mod 65535 = 0 \<longleftrightarrow> n mod 65535 = h mod 65535"
proof -
  define a where "a = n + x + (65535 - oc (h + x))"
  have a: "a + oc (h + x) = n + x + 65535" unfolding a_def using oc_le [of "h + x"] by simp
  have oc: "oc (h + x) mod 65535 = (h + x) mod 65535" by (auto simp: oc_def)
  have cancel: "(p + x) mod 65535 = (q + x) mod 65535 \<longleftrightarrow> p mod 65535 = q mod (65535 :: nat)" for p q x
    unfolding nat_mod_eq_iff by (simp add: add.assoc add.left_commute add.commute)
  have "a mod 65535 = 0 \<longleftrightarrow> (a + oc (h + x)) mod 65535 = (0 + oc (h + x)) mod 65535" unfolding cancel by simp
  also have "\<dots> \<longleftrightarrow> (n + x) mod 65535 = (h + x) mod 65535" unfolding a by (simp add: oc)
  finally show ?thesis unfolding a_def cancel .
qed

lemma tcp_checksum_accepted_iff:
  fixes flags :: u8 and src :: u32
  assumes "tc_remote_ip c = dest" and "length data \<le> 1460"
  defines "p \<equiv> tcp_segment src c flags data"
  shows "ip_checksum (pseudo_header src dest (of_nat (length p)) @ p) = 0 \<longleftrightarrow>
    (wsum (le32 (htonl src)) + wsum (le32 (htonl dest))) mod 65535 = (host_words src + host_words dest) mod 65535"
proof -
  define q where "q = tcp_header c flags @ data"
  define l :: u16 where "l = of_nat (length q)"
  define X where "X = unat (htons 6) + unat (htons l) + wsum q"
  define N where "N = wsum (le32 (htonl src)) + wsum (le32 (htonl dest))"
  define H where "H = host_words src + host_words dest"
  define k where "k = tcp_checksum src dest q l"
  have lq: "length q = 20 + length data" by (simp add: q_def tcp_header_def)
  have p: "p = store16 16 k q" by (simp add: p_def tcp_segment_def Let_def q_def k_def l_def assms(1))
  have lp: "length p = length q" unfolding p using lq by simp
  have "rd16 (tcp_header c flags @ data) 16 = 0" by (simp add: tcp_header_def le16_def le32_def rd16_def)
  then have wp: "wsum p = wsum q + unat k" unfolding p using wsum_store16 [of 16 q k] lq by (simp add: q_def)
  have "(length q + 1) div 2 \<le> 1000" using assms(2) lq by simp
  then have wq: "wsum q \<le> 65535 * 1000" using wsum_bound [of q] by (meson le_trans mult_le_mono2)
  let ?s = "(drop_bit 16 src AND 0xFFFF) + (src AND 0xFFFF) + (drop_bit 16 dest AND 0xFFFF) + (dest AND 0xFFFF)
        + ucast (htons 6) + ucast (htons l) :: u32"
  have s: "unat ?s = H + (unat (htons 6) + unat (htons l))"
    unfolding H_def host_words_def
    by (subst unat_sum6) (simp_all only: and_FFFF_less unat_up unat_lt_u16 add.assoc)
  have "H < 262144" unfolding H_def host_words_def
    using and_FFFF_less [of "drop_bit 16 src"] and_FFFF_less [of src] and_FFFF_less [of "drop_bit 16 dest"] and_FFFF_less [of dest] by linarith
  then have "unat ?s + wsum q < 2 ^ 32" using s wq unat_lt_u16 [of "htons 6"] unat_lt_u16 [of "htons l"] by simp
  then have "unat (sum_words ?s q) = H + X" using sum_words_wsum [of ?s q] unfolding X_def by (simp only: s)
  then have uk: "unat k = 65535 - oc (H + X)"
    unfolding k_def tcp_checksum_def using oc_le [of "H + X"] by (simp add: unat_not16 unat_down unat_fold_carry)
  have six: "htons 6 = 0x0600" by (simp add: htons_def)
  have "wsum (pseudo_header src dest (of_nat (length p)) @ p) = N + X + unat k"
    using wsum_append [of "le32 (htonl src)"] wsum_append [of "le32 (htonl dest)"] wsum_append [of "le16 (htons l)" p]
    by (simp add: pseudo_header_def N_def X_def wp wsum_le16 six l_def lp)
  moreover have X0: "0 < X" unfolding X_def six by simp
  moreover have "length (pseudo_header src dest (of_nat (length p)) @ p) \<le> 65535"
    using lp lq assms(2) by (simp add: pseudo_header_def)
  ultimately have "ip_checksum (pseudo_header src dest (of_nat (length p)) @ p) = 0 \<longleftrightarrow> (N + X + (65535 - oc (H + X))) mod 65535 = 0"
    using checksum_zero_iff by (simp add: uk)
  then show ?thesis unfolding oc_complement unfolding N_def H_def .
qed

text \<open>The two readings differ, so the segments between the hosts of the witnesses are dropped.\<close>

lemma tcp_checksum_rejected:
  "ip_checksum (pseudo_header 0x0A00020F 0x0A000210 20 @ tcp_segment 0x0A00020F (client_conn 0x0A00020F 0x0A000210 port) TCP_SYN []) \<noteq> 0"
proof -
  have h: "host_words 0x0A00020F = 3087" "host_words 0x0A000210 = 3088" by (simp_all add: host_words_def)
  have "wsum (le32 (htonl 0x0A00020F)) = 3852" "wsum (le32 (htonl 0x0A000210)) = 4108"
    by (simp_all add: htonl_def le32_def)
  then show ?thesis
    using tcp_checksum_accepted_iff [of "client_conn 0x0A00020F 0x0A000210 port" "0x0A000210" "[]" "0x0A00020F" TCP_SYN]
    by (simp add: client_conn_def tcp_segment_parts(1) h)
qed

text \<open>The length of the data is taken from the header alone: the bytes behind a short packet count as its data.\<close>

lemma ip_receive_trusts_length: "\<not> len < 20 \<Longrightarrow> ip_receive poll packet len s = ip_receive poll packet 20 s"
  by (simp add: ip_receive_def)

text \<open>The frame after the sixteenth is taken from the card and lost.\<close>

lemma poll_loses_frame: "net_take s = Some (len, s1) \<Longrightarrow> poll_loop poll 0 s = Some s1"
  by simp

text \<open>Without an address nothing is sent, so the DHCP client never asks for one.\<close>

lemma dhcp_discover_silent:
  "nif_ip (nif s) = 0 \<Longrightarrow> \<exists>s'. dhcp_discover poll s = Some (0, s') \<and> tx s' = tx s \<and> dhcp_st s' = DHCP_STATE_SELECTING"
  by (simp add: dhcp_discover_def udp_send_def ip_send_def Let_def)

text \<open>A write of more than 1480 bytes to an established connection leaves the segment buffer.\<close>

lemma tcp_send_overflow:
  "tc_state (conns s ! k) = TCP_ESTABLISHED \<Longrightarrow> 1480 < length data \<Longrightarrow> tcp_send poll (Some k) data s = None"
  by (simp add: tcp_send_def tcp_send_packet_def)

lemma tcp_recv_nothing: "tc_recv_buf (conns s ! k) = None \<Longrightarrow> tcp_recv (Some k) n s = ((0, []), s)"
  by (simp add: tcp_recv_def)

end
