(* ===== verification/Ata.thy ===== *)
theory Ata
  imports Interfaces
begin

text \<open>
  The ATA disks, \<open>kernel/drivers/ata/ata.c\<close>: transfers of sectors in programmed I/O. The device behind
  the ports is a parameter: per drive, the bytes of each sector by its 28-bit address, and whether it
  gets ready for a command and for the data of each sector. The identification of the drives is not
  modelled; its outcome is the table of drives.

  Main result: a disk is a \<open>sector_device\<close> in which two addresses are the same place exactly if their
  lower 28 bits agree.
\<close>

record ata_drive =
  ad_present :: bool
  ad_is_ata :: bool
  ad_ready :: bool
  ad_sector :: "u32 \<Rightarrow> u8 list"
  ad_reads :: "u32 \<Rightarrow> bool"
  ad_writes :: "u32 \<Rightarrow> bool"

type_synonym disks = "ata_drive list"

definition ata_get_drive :: "int \<Rightarrow> disks \<Rightarrow> ata_drive option" where
  "ata_get_drive index ds =
     (if index < 0 \<or> index \<ge> 4 then None
      else if \<not> ad_present (ds ! nat index) then None else Some (ds ! nat index))"

text \<open>What the address registers hold: bits 24 to 27 go to the drive register, the rest is dropped.\<close>

definition lba28 :: "u32 \<Rightarrow> u32" where
  "lba28 lba = push_bit 24 (drop_bit 24 lba AND 0x0F) OR push_bit 16 (drop_bit 16 lba AND 0xFF)
     OR push_bit 8 (drop_bit 8 lba AND 0xFF) OR (lba AND 0xFF)"

text \<open>The data phase: sector after sector, until the device does not get ready.\<close>

fun ata_data_in :: "ata_drive \<Rightarrow> u32 \<Rightarrow> nat \<Rightarrow> bool \<times> u8 list" where
  "ata_data_in d a 0 = (True, [])"
| "ata_data_in d a (Suc n) =
     (if \<not> ad_reads d a then (False, [])
      else let (ok, bs) = ata_data_in d (a + 1) n in (ok, ad_sector d a @ bs))"

fun ata_data_out :: "u32 \<Rightarrow> nat \<Rightarrow> u8 list \<Rightarrow> ata_drive \<Rightarrow> bool \<times> ata_drive" where
  "ata_data_out a 0 bs d = (True, d)"
| "ata_data_out a (Suc n) bs d =
     (if \<not> ad_writes d a then (False, d)
      else ata_data_out (a + 1) n (drop 512 bs) (d\<lparr>ad_sector := (ad_sector d)(a := take 512 bs)\<rparr>))"

definition ata_read_sectors :: "int \<Rightarrow> u32 \<Rightarrow> u8 \<Rightarrow> disks \<Rightarrow> int \<times> u8 list" where
  "ata_read_sectors drive_idx lba cnt ds =
     (case ata_get_drive drive_idx ds of
        None \<Rightarrow> (-1, [])
      | Some d \<Rightarrow>
          if \<not> ad_is_ata d then (-2, [])
          else if \<not> ad_ready d then (-3, [])
          else let (ok, bs) = ata_data_in d (lba28 lba) (unat cnt) in (if ok then uint cnt else -4, bs))"

definition ata_write_sectors :: "int \<Rightarrow> u32 \<Rightarrow> u8 \<Rightarrow> u8 list \<Rightarrow> disks \<Rightarrow> int \<times> disks" where
  "ata_write_sectors drive_idx lba cnt buffer ds =
     (case ata_get_drive drive_idx ds of
        None \<Rightarrow> (-1, ds)
      | Some d \<Rightarrow>
          if \<not> ad_is_ata d then (-2, ds)
          else if \<not> ad_ready d then (-3, ds)
          else let (ok, d') = ata_data_out (lba28 lba) (unat cnt) buffer d
               in (if ok then uint cnt else -4, ds[nat drive_idx := d']))"

section \<open>One sector at a time\<close>

text \<open>The calls of the file systems: \<open>< 0\<close> is an error.\<close>

definition read_sector :: "int \<Rightarrow> u32 \<Rightarrow> disks \<Rightarrow> u8 list option" where
  "read_sector drive lba ds = (let (r, bs) = ata_read_sectors drive lba 1 ds in if r < 0 then None else Some bs)"

definition write_sector :: "int \<Rightarrow> u32 \<Rightarrow> u8 list \<Rightarrow> disks \<Rightarrow> bool \<times> disks" where
  "write_sector drive lba bs ds = (let (r, ds') = ata_write_sectors drive lba 1 bs ds in (\<not> r < 0, ds'))"

definition disks_ok :: "disks \<Rightarrow> bool" where
  "disks_ok ds \<longleftrightarrow> length ds = 4 \<and> (\<forall>d \<in> set ds. \<forall>a. length (ad_sector d a) = 512)"

lemma lba28_mask: "lba28 lba = lba AND mask 28"
proof -
  have e: "(0x0F :: u32) = mask 4" "(0xFF :: u32) = mask 8" by (simp_all add: mask_eq_exp_minus_1)
  show ?thesis
  proof (rule bit_word_eqI)
    fix n assume "n < LENGTH(32)"
    then have "n < 32" by simp
    consider "n < 8" | "8 \<le> n" "n < 16" | "16 \<le> n" "n < 24" | "24 \<le> n" "n < 28" | "28 \<le> n" by linarith
    then show "bit (lba28 lba) n = bit (lba AND mask 28) n"
      unfolding lba28_def e using \<open>n < 32\<close> by cases (auto simp: bit_simps)
  qed
qed

lemma unat_lba28: "unat (lba28 a) = unat a mod 2 ^ 28"
  unfolding lba28_mask take_bit_eq_mask [symmetric] unsigned_take_bit_eq by (simp only: take_bit_eq_mod)

lemma read_sector_alt:
  "read_sector drive lba ds =
     (case ata_get_drive drive ds of
        None \<Rightarrow> None
      | Some d \<Rightarrow> if ad_is_ata d \<and> ad_ready d \<and> ad_reads d (lba28 lba) then Some (ad_sector d (lba28 lba)) else None)"
  by (simp add: read_sector_def ata_read_sectors_def split: option.split)

lemma write_sector_alt:
  "length bs = 512 \<Longrightarrow> write_sector drive lba bs ds =
     (case ata_get_drive drive ds of
        None \<Rightarrow> (False, ds)
      | Some d \<Rightarrow>
          if ad_is_ata d \<and> ad_ready d \<and> ad_writes d (lba28 lba)
          then (True, ds[nat drive := d\<lparr>ad_sector := (ad_sector d)(lba28 lba := bs)\<rparr>])
          else (False, ds))"
  by (auto simp: write_sector_def ata_write_sectors_def ata_get_drive_def split: option.split)

lemma get_drive_update:
  "disks_ok ds \<Longrightarrow> ata_get_drive drive ds = Some d \<Longrightarrow> ad_present d' = ad_present d \<Longrightarrow>
     ata_get_drive drive (ds[nat drive := d']) = Some d'"
  by (auto simp: ata_get_drive_def disks_ok_def split: if_splits)

lemma disks_ok_update:
  assumes "disks_ok ds" and "ata_get_drive drive ds = Some d" and "length bs = 512"
  shows "disks_ok (ds[nat drive := d\<lparr>ad_sector := (ad_sector d)(a := bs)\<rparr>])"
proof -
  have "d \<in> set ds" using assms(1,2) by (auto simp: ata_get_drive_def disks_ok_def split: if_splits)
  then show ?thesis using assms by (auto simp: disks_ok_def dest!: set_update_subset_insert [THEN subsetD])
qed

interpretation disk: sector_device "read_sector drive" "write_sector drive" lba28 disks_ok
proof
  fix a b :: u32 and bs bs' :: "u8 list" and ds :: disks
  show "length bs = 512" if "disks_ok ds" "read_sector drive a ds = Some bs"
    using that by (auto simp: read_sector_alt disks_ok_def ata_get_drive_def split: option.splits if_splits)
  show "disks_ok (snd (write_sector drive a bs ds))" if "disks_ok ds" "length bs = 512"
    using that by (auto simp: write_sector_alt disks_ok_update split: option.split)
  show "read_sector drive b (snd (write_sector drive a bs ds)) = Some bs"
    if "disks_ok ds" "length bs = 512" "fst (write_sector drive a bs ds)" "read_sector drive b ds \<noteq> None" "lba28 a = lba28 b"
    using that by (auto simp: write_sector_alt read_sector_alt get_drive_update split: option.splits if_splits)
  show "read_sector drive b (snd (write_sector drive a bs ds)) = read_sector drive b ds"
    if "disks_ok ds" "length bs = 512" "lba28 a \<noteq> lba28 b"
    using that by (auto simp: write_sector_alt read_sector_alt get_drive_update split: option.splits if_splits)
  show "fst (write_sector drive b bs' (snd (write_sector drive a bs ds))) = fst (write_sector drive b bs' ds)"
    if "disks_ok ds" "length bs = 512" "length bs' = 512"
    using that by (auto simp: write_sector_alt get_drive_update split: option.splits if_splits)
  show "(read_sector drive b (snd (write_sector drive a bs ds)) = None) = (read_sector drive b ds = None)"
    if "disks_ok ds" "length bs = 512"
    using that by (auto simp: write_sector_alt read_sector_alt get_drive_update split: option.splits if_splits)
qed

end
