(* ===== verification/Fat.thy ===== *)
theory Fat
  imports Ata
begin

text \<open>
  The FAT32 file system: \<open>kernel/fs/fat32.c\<close> (mounting, cluster chains, directories, reading) and
  \<open>fat32_write.c\<close> (allocation, directory entries, writing).

  A mounted volume is the record \<open>fat32_fs\<close>; a directory entry is its 32 bytes, the fields at the offsets
  of the packed structure. Names are C strings without the terminating 0. Whether \<open>kmalloc\<close> has memory
  for a buffer is an argument; the error codes of a disk transfer are all -1 here. Loops that follow chains on the disk are \<open>partial_function\<close>s into \<open>option\<close>:
  the result \<open>None\<close> is a call that does not return, because a chain is circular or because a volume with
  0 sectors per cluster makes the kernel divide by 0.
\<close>

section \<open>Mounting\<close>

record fat32_fs =
  drive :: int
  partition_lba :: u32
  bytes_per_sector :: u16
  sectors_per_cluster :: u8
  fat_start_lba :: u32
  fat_size :: u32
  data_start_lba :: u32
  root_cluster :: u32
  total_clusters :: u32
  volume_label :: "u8 list"

abbreviation FAT32_CLUSTER_END :: u32 where "FAT32_CLUSTER_END \<equiv> 0x0FFFFFF8"
abbreviation FAT32_ATTR_VOLUME_ID :: u8 where "FAT32_ATTR_VOLUME_ID \<equiv> 0x08"
abbreviation FAT32_ATTR_DIRECTORY :: u8 where "FAT32_ATTR_DIRECTORY \<equiv> 0x10"
abbreviation FAT32_ATTR_ARCHIVE :: u8 where "FAT32_ATTR_ARCHIVE \<equiv> 0x20"
abbreviation FAT32_ATTR_LFN :: u8 where "FAT32_ATTR_LFN \<equiv> 0x0F"

text \<open>The fields of the boot sector \<open>b\<close> at their offsets; \<open>None\<close> is the division by 0.\<close>

definition fat32_mount :: "int \<Rightarrow> u32 \<Rightarrow> bool \<Rightarrow> disks \<Rightarrow> fat32_fs option option" where
  "fat32_mount drv part km ds =
     (case read_sector drv part ds of
        None \<Rightarrow> Some None
      | Some b \<Rightarrow>
          if b ! 66 \<noteq> 0x29 then Some None
          else if rd16 b 22 \<noteq> 0 then Some None
          else if rd16 b 11 \<noteq> 512 then Some None
          else if \<not> km then Some None
          else
            let data_start = ucast (rd16 b 14) + ucast (b ! 16) * rd32 b 36;
                data_sectors = rd32 b 32 - data_start
            in if b ! 13 = 0 then None
               else Some (Some \<lparr>drive = drv, partition_lba = part, bytes_per_sector = rd16 b 11,
                 sectors_per_cluster = b ! 13, fat_start_lba = ucast (rd16 b 14), fat_size = rd32 b 36,
                 data_start_lba = data_start, root_cluster = rd32 b 44,
                 total_clusters = data_sectors div ucast (b ! 13),
                 volume_label = rev (dropWhile (\<lambda>c. c = 0x20) (rev (take 11 (drop 71 b))))\<rparr>))"

definition fat32_read_sector_internal :: "fat32_fs \<Rightarrow> u32 \<Rightarrow> disks \<Rightarrow> u8 list option" where
  "fat32_read_sector_internal fs sector = read_sector (drive fs) (partition_lba fs + sector)"

definition fat32_write_sector_internal :: "fat32_fs \<Rightarrow> u32 \<Rightarrow> u8 list \<Rightarrow> disks \<Rightarrow> bool \<times> disks" where
  "fat32_write_sector_internal fs sector = write_sector (drive fs) (partition_lba fs + sector)"

section \<open>Clusters and the allocation table\<close>

definition cluster_size :: "fat32_fs \<Rightarrow> nat" where "cluster_size fs = unat (sectors_per_cluster fs) * 512"

definition cluster_to_lba :: "fat32_fs \<Rightarrow> u32 \<Rightarrow> u32" where
  "cluster_to_lba fs cluster = data_start_lba fs + (cluster - 2) * ucast (sectors_per_cluster fs)"

text \<open>\<open>None\<close> is the result -1; otherwise the bytes of the buffer, as many as the code returns.\<close>

definition fat32_read_cluster :: "fat32_fs \<Rightarrow> u32 \<Rightarrow> disks \<Rightarrow> u8 list option" where
  "fat32_read_cluster fs cluster ds =
     (if cluster < 2 then None
      else read_run (read_sector (drive fs)) (partition_lba fs + cluster_to_lba fs cluster) (unat (sectors_per_cluster fs)) ds)"

definition fat32_write_cluster :: "fat32_fs \<Rightarrow> u32 \<Rightarrow> u8 list \<Rightarrow> disks \<Rightarrow> int \<times> disks" where
  "fat32_write_cluster fs cluster buffer ds =
     (if cluster < 2 then (-1, ds)
      else let (ok, ds') = write_run (write_sector (drive fs)) (partition_lba fs + cluster_to_lba fs cluster)
                 (unat (sectors_per_cluster fs)) buffer ds
           in (if ok then int (cluster_size fs) else -1, ds'))"

text \<open>The sector and the offset of the table entry of a cluster.\<close>

definition entry_sector :: "fat32_fs \<Rightarrow> u32 \<Rightarrow> u32" where
  "entry_sector fs cluster = fat_start_lba fs + cluster * 4 div 512"

definition entry_offset :: "u32 \<Rightarrow> nat" where "entry_offset cluster = unat (cluster * 4 mod 512)"

definition fat32_next_cluster :: "fat32_fs \<Rightarrow> u32 \<Rightarrow> disks \<Rightarrow> u32" where
  "fat32_next_cluster fs cluster ds =
     (case fat32_read_sector_internal fs (entry_sector fs cluster) ds of
        None \<Rightarrow> 0
      | Some buf \<Rightarrow>
          let nxt = rd32 buf (entry_offset cluster) AND 0x0FFFFFFF
          in if nxt \<ge> FAT32_CLUSTER_END then 0 else nxt)"

text \<open>The loop of the allocation over the clusters that are left; the result of the write is ignored.\<close>

fun alloc_scan :: "fat32_fs \<Rightarrow> u32 list \<Rightarrow> disks \<Rightarrow> u32 \<times> disks" where
  "alloc_scan fs [] ds = (0, ds)"
| "alloc_scan fs (cluster # cs) ds =
     (case fat32_read_sector_internal fs (entry_sector fs cluster) ds of
        None \<Rightarrow> alloc_scan fs cs ds
      | Some buf \<Rightarrow>
          if rd32 buf (entry_offset cluster) AND 0x0FFFFFFF = 0
          then (cluster, snd (fat32_write_sector_internal fs (entry_sector fs cluster)
                  (store32 (entry_offset cluster) 0x0FFFFFFF buf) ds))
          else alloc_scan fs cs ds)"

definition fat32_alloc_cluster :: "fat32_fs \<Rightarrow> disks \<Rightarrow> u32 \<times> disks" where
  "fat32_alloc_cluster fs ds = alloc_scan fs (map of_nat [2 ..< unat (total_clusters fs + 2)]) ds"

definition fat32_set_cluster :: "fat32_fs \<Rightarrow> u32 \<Rightarrow> u32 \<Rightarrow> disks \<Rightarrow> int \<times> disks" where
  "fat32_set_cluster fs cluster v ds =
     (case fat32_read_sector_internal fs (entry_sector fs cluster) ds of
        None \<Rightarrow> (-1, ds)
      | Some buf \<Rightarrow>
          let old_value = rd32 buf (entry_offset cluster);
              (ok, ds') = fat32_write_sector_internal fs (entry_sector fs cluster)
                (store32 (entry_offset cluster) ((old_value AND 0xF0000000) OR (v AND 0x0FFFFFFF)) buf) ds
          in (if ok then 1 else -1, ds'))"

partial_function (option) free_loop :: "fat32_fs \<Rightarrow> u32 \<Rightarrow> disks \<Rightarrow> disks option" where
  "free_loop fs cluster ds =
     (if cluster \<ge> 2 \<and> cluster < FAT32_CLUSTER_END
      then free_loop fs (fat32_next_cluster fs cluster ds) (snd (fat32_set_cluster fs cluster 0 ds))
      else Some ds)"

definition fat32_free_cluster_chain :: "fat32_fs \<Rightarrow> u32 \<Rightarrow> disks \<Rightarrow> (int \<times> disks) option" where
  "fat32_free_cluster_chain fs start_cluster ds = map_option (Pair 0) (free_loop fs start_cluster ds)"

section \<open>Names\<close>

definition upc :: "u8 \<Rightarrow> u8" where "upc c = (if c \<ge> 97 \<and> c \<le> 122 then c - 32 else c)"

definition cstr :: "u8 list \<Rightarrow> u8 list" where "cstr = takeWhile (\<lambda>c. c \<noteq> 0)"

definition format_83_name :: "u8 list \<Rightarrow> u8 list" where
  "format_83_name e = takeWhile (\<lambda>c. c \<noteq> 32) (take 8 e)
     @ (if e ! 8 \<noteq> 32 then 46 # takeWhile (\<lambda>c. c \<noteq> 32) (take 3 (drop 8 e)) else [])"

fun same_chars :: "u8 list \<Rightarrow> u8 list \<Rightarrow> bool" where
  "same_chars (p # ps) (e # es) = (upc p = upc e \<and> same_chars ps es)"
| "same_chars ps es = (ps = [] \<and> es = [])"

definition name_match :: "u8 list \<Rightarrow> u8 list \<Rightarrow> bool" where
  "name_match pattern e = same_chars (cstr pattern) (cstr (format_83_name e))"

definition fat32_name_to_83 :: "u8 list \<Rightarrow> u8 list" where
  "fat32_name_to_83 name =
     (let base = take 8 (takeWhile (\<lambda>c. c \<noteq> 46) (cstr name));
          ext = take 3 (tl (dropWhile (\<lambda>c. c \<noteq> 46) (cstr name)))
      in map upc base @ replicate (8 - length base) 32 @ map upc ext @ replicate (3 - length ext) 32)"

section \<open>Directory entries\<close>

definition de_attr :: "u8 list \<Rightarrow> u8" where "de_attr e = e ! 11"

definition de_cluster :: "u8 list \<Rightarrow> u32" where
  "de_cluster e = push_bit 16 (ucast (rd16 e 20)) OR ucast (rd16 e 26)"

definition de_size :: "u8 list \<Rightarrow> u32" where "de_size e = rd32 e 28"

text \<open>The entries of a cluster, and storing one of them back.\<close>

definition dir_entries :: "fat32_fs \<Rightarrow> u8 list \<Rightarrow> u8 list list" where
  "dir_entries fs buf = map (\<lambda>i. take 32 (drop (32 * i) buf)) [0 ..< cluster_size fs div 32]"

definition put_entry :: "nat \<Rightarrow> u8 list \<Rightarrow> u8 list \<Rightarrow> u8 list" where
  "put_entry i e buf = take (32 * i) buf @ e @ drop (32 * i + 32) buf"

text \<open>A loop over the entries stops at the end marker 0 or at the first entry that it looks for.\<close>

datatype scan = Stop | Hit nat | Miss

definition dir_scan :: "(u8 list \<Rightarrow> bool) \<Rightarrow> u8 list list \<Rightarrow> scan" where
  "dir_scan wanted es =
     (case find_idx (\<lambda>e. e ! 0 = 0 \<or> wanted e) es of
        None \<Rightarrow> Miss
      | Some i \<Rightarrow> if es ! i ! 0 = 0 then Stop else Hit i)"

definition listed :: "u8 list \<Rightarrow> bool" where
  "listed e \<longleftrightarrow> e ! 0 \<noteq> 0xE5 \<and> de_attr e \<noteq> FAT32_ATTR_LFN \<and> de_attr e AND FAT32_ATTR_VOLUME_ID = 0"

section \<open>Listing and finding\<close>

text \<open>The calls of the callback for one cluster; whether the end marker was met.\<close>

fun list_scan :: "u8 list list \<Rightarrow> bool \<times> (u8 list \<times> u32 \<times> u8) list" where
  "list_scan [] = (False, [])"
| "list_scan (e # es) =
     (if e ! 0 = 0 then (True, [])
      else let (stop, out) = list_scan es; name = format_83_name e
           in if listed e \<and> \<not> (name \<noteq> [] \<and> hd name = 46)
              then (stop, (cstr name, de_size e, de_attr e) # out) else (stop, out))"

partial_function (option) list_loop ::
    "fat32_fs \<Rightarrow> u32 \<Rightarrow> (u8 list \<times> u32 \<times> u8) list \<Rightarrow> disks \<Rightarrow> (int \<times> (u8 list \<times> u32 \<times> u8) list) option" where
  "list_loop fs cluster acc ds =
     (if cluster \<noteq> 0 \<and> cluster < FAT32_CLUSTER_END then
        (case fat32_read_cluster fs cluster ds of
           None \<Rightarrow> Some (-1, acc)
         | Some buf \<Rightarrow>
             let (stop, out) = list_scan (dir_entries fs buf)
             in if stop then Some (int (length (acc @ out)), acc @ out)
                else list_loop fs (fat32_next_cluster fs cluster ds) (acc @ out) ds)
      else Some (int (length acc), acc))"

definition fat32_list_dir :: "fat32_fs \<Rightarrow> u32 \<Rightarrow> bool \<Rightarrow> disks \<Rightarrow> (int \<times> (u8 list \<times> u32 \<times> u8) list) option" where
  "fat32_list_dir fs cluster km ds = (if \<not> km then Some (-1, []) else list_loop fs cluster [] ds)"

definition find_wanted :: "u8 list \<Rightarrow> u8 list \<Rightarrow> bool" where
  "find_wanted name e \<longleftrightarrow> listed e \<and> name_match name e"

text \<open>\<open>None\<close> is -1, \<open>Some e\<close> is 0 with the entry.\<close>

partial_function (option) find_loop :: "fat32_fs \<Rightarrow> u32 \<Rightarrow> u8 list \<Rightarrow> disks \<Rightarrow> u8 list option option" where
  "find_loop fs cluster name ds =
     (if cluster \<noteq> 0 \<and> cluster < FAT32_CLUSTER_END then
        (case fat32_read_cluster fs cluster ds of
           None \<Rightarrow> Some None
         | Some buf \<Rightarrow>
             (case dir_scan (find_wanted name) (dir_entries fs buf) of
                Stop \<Rightarrow> Some None
              | Hit i \<Rightarrow> Some (Some (dir_entries fs buf ! i))
              | Miss \<Rightarrow> find_loop fs (fat32_next_cluster fs cluster ds) name ds))
      else Some None)"

definition fat32_find_entry :: "fat32_fs \<Rightarrow> u32 \<Rightarrow> u8 list \<Rightarrow> bool \<Rightarrow> disks \<Rightarrow> u8 list option option" where
  "fat32_find_entry fs dir_cluster name km ds = (if \<not> km then Some None else find_loop fs dir_cluster name ds)"


section \<open>Reading\<close>

fun skip_clusters :: "fat32_fs \<Rightarrow> nat \<Rightarrow> u32 \<Rightarrow> disks \<Rightarrow> u32" where
  "skip_clusters fs 0 cluster ds = cluster"
| "skip_clusters fs (Suc n) cluster ds =
     (if cluster = 0 then 0 else skip_clusters fs n (fat32_next_cluster fs cluster ds) ds)"

text \<open>\<open>copy_start\<close> is where the data begin in the first cluster, \<open>left\<close> the number of bytes still to read.\<close>

partial_function (option) read_loop ::
    "fat32_fs \<Rightarrow> u32 \<Rightarrow> nat \<Rightarrow> nat \<Rightarrow> u8 list \<Rightarrow> disks \<Rightarrow> (int \<times> u8 list) option" where
  "read_loop fs cluster copy_start left acc ds =
     (if 0 < left \<and> cluster \<noteq> 0 \<and> cluster < FAT32_CLUSTER_END then
        (case fat32_read_cluster fs cluster ds of
           None \<Rightarrow> Some (-1, acc)
         | Some buf \<Rightarrow>
             let copy_size = min (cluster_size fs - copy_start) left
             in read_loop fs (fat32_next_cluster fs cluster ds) 0 (left - copy_size)
                  (acc @ take copy_size (drop copy_start buf)) ds)
      else Some (sint (of_nat (length acc) :: u32), acc))"

definition fat32_read_file :: "fat32_fs \<Rightarrow> u32 \<Rightarrow> u32 \<Rightarrow> u32 \<Rightarrow> u32 \<Rightarrow> bool \<Rightarrow> disks \<Rightarrow> (int \<times> u8 list) option" where
  "fat32_read_file fs start_cluster file_size offset sz km ds =
     (if offset \<ge> file_size then Some (0, [])
      else
        let n = (if offset + sz > file_size then file_size - offset else sz) in
        if \<not> km then Some (-1, [])
        else if cluster_size fs = 0 then None
        else read_loop fs (skip_clusters fs (unat offset div cluster_size fs) start_cluster ds)
               (unat offset mod cluster_size fs) (unat n) [] ds)"

section \<open>Writing\<close>

text \<open>The cluster after \<open>cluster\<close>, allocated and linked if the chain ends there; 0 if that fails.\<close>

definition extend_chain :: "fat32_fs \<Rightarrow> u32 \<Rightarrow> disks \<Rightarrow> u32 \<times> disks" where
  "extend_chain fs cluster ds =
     (let nxt = fat32_next_cluster fs cluster ds in
      if nxt = 0 \<or> nxt \<ge> FAT32_CLUSTER_END then
        (let (nxt, ds1) = fat32_alloc_cluster fs ds in
         if nxt = 0 then (0, ds1) else (nxt, snd (fat32_set_cluster fs cluster nxt ds1)))
      else (nxt, ds))"

fun seek_extend :: "fat32_fs \<Rightarrow> nat \<Rightarrow> u32 \<Rightarrow> disks \<Rightarrow> u32 \<times> disks" where
  "seek_extend fs 0 cluster ds = (cluster, ds)"
| "seek_extend fs (Suc n) cluster ds =
     (let (nxt, ds1) = extend_chain fs cluster ds in
      if nxt = 0 then (0, ds1) else seek_extend fs n nxt ds1)"

text \<open>The number of bytes written and whether all were: the early returns leave the size of the file alone.\<close>

partial_function (option) write_loop ::
    "fat32_fs \<Rightarrow> u32 \<Rightarrow> nat \<Rightarrow> u8 list \<Rightarrow> nat \<Rightarrow> disks \<Rightarrow> (bool \<times> nat \<times> disks) option" where
  "write_loop fs cluster write_start src written ds =
     (if src = [] then Some (True, written, ds)
      else
        let old = (case fat32_read_cluster fs cluster ds of None \<Rightarrow> replicate (cluster_size fs) 0 | Some b \<Rightarrow> b);
            write_size = min (cluster_size fs - write_start) (length src);
            buf = take write_start old @ take write_size src @ drop (write_start + write_size) old;
            (r, ds1) = fat32_write_cluster fs cluster buf ds
        in if r < 0 then Some (False, written, ds1)
           else if drop write_size src = [] then Some (True, written + write_size, ds1)
           else let (nxt, ds2) = extend_chain fs cluster ds1
                in if nxt = 0 then Some (False, written + write_size, ds2)
                   else write_loop fs nxt 0 (drop write_size src) (written + write_size) ds2)"

text \<open>The result, the first cluster and the size of the file, and the disks.\<close>

definition fat32_write_file ::
    "fat32_fs \<Rightarrow> u32 \<Rightarrow> u32 \<Rightarrow> u32 \<Rightarrow> u8 list \<Rightarrow> bool \<Rightarrow> disks \<Rightarrow> (int \<times> u32 \<times> u32 \<times> disks) option" where
  "fat32_write_file fs start_cluster file_size offset src km ds =
     (if src = [] then Some (0, start_cluster, file_size, ds)
      else if \<not> km then Some (-1, start_cluster, file_size, ds)
      else
        let (start, ds1) = (if start_cluster = 0 then fat32_alloc_cluster fs ds else (start_cluster, ds)) in
        if start = 0 then Some (-1, 0, file_size, ds1)
        else if cluster_size fs = 0 then None
        else
          let (cluster, ds2) = seek_extend fs (unat offset div cluster_size fs) start ds1 in
          if cluster = 0 then Some (0, start, file_size, ds2)
          else
            (case write_loop fs cluster (unat offset mod cluster_size fs) src 0 ds2 of
               None \<Rightarrow> None
             | Some (finished, written, ds3) \<Rightarrow>
                 Some (sint (of_nat written :: u32), start,
                   if finished \<and> offset + of_nat written > file_size then offset + of_nat written else file_size, ds3)))"

section \<open>Directory entries\<close>

definition new_entry :: "u8 list \<Rightarrow> u8 \<Rightarrow> u32 \<Rightarrow> u8 list" where
  "new_entry name83 attr cluster =
     name83 @ [attr] @ replicate 8 0 @ le16 (ucast (drop_bit 16 cluster)) @ replicate 4 0 @ le16 (ucast cluster) @ le32 0"

text \<open>
  \<open>km\<close> and \<open>km_zero\<close> are the two allocations. The results are the return value, the cluster of the new
  entry and the disks.
\<close>

partial_function (option) create_loop ::
    "fat32_fs \<Rightarrow> u32 \<Rightarrow> u8 list \<Rightarrow> u8 \<Rightarrow> bool \<Rightarrow> disks \<Rightarrow> (int \<times> u32 \<times> disks) option" where
  "create_loop fs cluster name83 attr km_zero ds =
     (if cluster \<noteq> 0 \<and> cluster < FAT32_CLUSTER_END then
        (case fat32_read_cluster fs cluster ds of
           None \<Rightarrow> Some (-1, 0, ds)
         | Some buf \<Rightarrow>
             (case find_idx (\<lambda>e. e ! 0 = 0 \<or> e ! 0 = 0xE5) (dir_entries fs buf) of
                Some i \<Rightarrow>
                  let (new_cluster, ds1) =
                        (if attr AND FAT32_ATTR_DIRECTORY \<noteq> 0 then fat32_alloc_cluster fs ds else (0, ds))
                  in if attr AND FAT32_ATTR_DIRECTORY \<noteq> 0 \<and> new_cluster = 0 then Some (-2, 0, ds1)
                     else
                       let ds2 = (if attr AND FAT32_ATTR_DIRECTORY \<noteq> 0 \<and> km_zero
                                  then snd (fat32_write_cluster fs new_cluster (replicate (cluster_size fs) 0) ds1) else ds1)
                       in Some (0, new_cluster,
                            snd (fat32_write_cluster fs cluster (put_entry i (new_entry name83 attr new_cluster) buf) ds2))
              | None \<Rightarrow>
                  let nxt = fat32_next_cluster fs cluster ds in
                  if nxt = 0 then
                    (let (nxt, ds1) = fat32_alloc_cluster fs ds in
                     if nxt = 0 then Some (-2, 0, ds1)
                     else create_loop fs nxt name83 attr km_zero
                            (snd (fat32_write_cluster fs nxt (replicate (cluster_size fs) 0)
                              (snd (fat32_set_cluster fs cluster nxt ds1)))))
                  else create_loop fs nxt name83 attr km_zero ds))
      else Some (-1, 0, ds))"

definition fat32_create_entry ::
    "fat32_fs \<Rightarrow> u32 \<Rightarrow> u8 list \<Rightarrow> u8 \<Rightarrow> bool \<Rightarrow> bool \<Rightarrow> disks \<Rightarrow> (int \<times> u32 \<times> disks) option" where
  "fat32_create_entry fs dir_cluster name attr km km_zero ds =
     (if \<not> km then Some (-1, 0, ds) else create_loop fs dir_cluster (fat32_name_to_83 name) attr km_zero ds)"

definition update_wanted :: "u8 list \<Rightarrow> u8 list \<Rightarrow> bool" where
  "update_wanted name83 e \<longleftrightarrow> e ! 0 \<noteq> 0xE5 \<and> de_attr e \<noteq> FAT32_ATTR_LFN \<and> take 8 e = take 8 name83
     \<and> take 3 (drop 8 e) = drop 8 name83"

definition set_size :: "u32 \<Rightarrow> u32 \<Rightarrow> u8 list \<Rightarrow> u8 list" where
  "set_size new_size new_cluster e =
     (let e1 = store32 28 new_size e in
      if new_cluster \<noteq> 0 then store16 26 (ucast new_cluster) (store16 20 (ucast (drop_bit 16 new_cluster)) e1) else e1)"

partial_function (option) update_loop ::
    "fat32_fs \<Rightarrow> u32 \<Rightarrow> u8 list \<Rightarrow> u32 \<Rightarrow> u32 \<Rightarrow> disks \<Rightarrow> (int \<times> disks) option" where
  "update_loop fs cluster name83 new_size new_cluster ds =
     (if cluster \<noteq> 0 \<and> cluster < FAT32_CLUSTER_END then
        (case fat32_read_cluster fs cluster ds of
           None \<Rightarrow> Some (-1, ds)
         | Some buf \<Rightarrow>
             (case dir_scan (update_wanted name83) (dir_entries fs buf) of
                Stop \<Rightarrow> Some (-1, ds)
              | Hit i \<Rightarrow> Some (0, snd (fat32_write_cluster fs cluster
                                (put_entry i (set_size new_size new_cluster (dir_entries fs buf ! i)) buf) ds))
              | Miss \<Rightarrow> update_loop fs (fat32_next_cluster fs cluster ds) name83 new_size new_cluster ds))
      else Some (-1, ds))"

definition fat32_update_entry_size ::
    "fat32_fs \<Rightarrow> u32 \<Rightarrow> u8 list \<Rightarrow> u32 \<Rightarrow> u32 \<Rightarrow> bool \<Rightarrow> disks \<Rightarrow> (int \<times> disks) option" where
  "fat32_update_entry_size fs dir_cluster name new_size new_cluster km ds =
     (if \<not> km then Some (-1, ds) else update_loop fs dir_cluster (fat32_name_to_83 name) new_size new_cluster ds)"

end
