(* ===== verification/Fat_Props.thy ===== *)
theory Fat_Props
  imports Fat
begin

text \<open>
  The FAT32 volume. On a volume with a sound layout whose sectors can be read and written, the allocation
  table is a function from clusters to entries and the data area a function from clusters to contents, and
  the operations on sectors are updates of these two functions. On that rest the properties of chains,
  files and directories.
\<close>

section \<open>The layout of a volume\<close>

abbreviation clusters :: "fat32_fs \<Rightarrow> nat" where "clusters fs \<equiv> unat (total_clusters fs)"
abbreviation spc :: "fat32_fs \<Rightarrow> nat" where "spc fs \<equiv> unat (sectors_per_cluster fs)"

definition geometry :: "fat32_fs \<Rightarrow> bool" where
  "geometry fs \<longleftrightarrow> 0 < spc fs \<and> unat (fat_start_lba fs) + unat (fat_size fs) \<le> unat (data_start_lba fs) \<and>
     (clusters fs + 2) * 4 \<le> unat (fat_size fs) * 512 \<and> clusters fs + 2 \<le> 0x0FFFFFF7 \<and>
     unat (partition_lba fs) + unat (data_start_lba fs) + clusters fs * spc fs \<le> 2 ^ 28"

definition in_volume :: "fat32_fs \<Rightarrow> u32 \<Rightarrow> bool" where
  "in_volume fs a \<longleftrightarrow> unat (partition_lba fs) \<le> unat a \<and>
     unat a < unat (partition_lba fs) + unat (data_start_lba fs) + clusters fs * spc fs"

text \<open>All sectors of the volume answer.\<close>

definition volume :: "fat32_fs \<Rightarrow> disks \<Rightarrow> bool" where
  "volume fs ds \<longleftrightarrow> geometry fs \<and> disks_ok ds \<and>
     (\<forall>a. in_volume fs a \<longrightarrow> read_sector (drive fs) a ds \<noteq> None \<and>
        (\<forall>bs. length bs = 512 \<longrightarrow> fst (write_sector (drive fs) a bs ds)))"

definition valid :: "fat32_fs \<Rightarrow> u32 \<Rightarrow> bool" where
  "valid fs c \<longleftrightarrow> 2 \<le> unat c \<and> unat c < clusters fs + 2"

definition fat_get :: "fat32_fs \<Rightarrow> disks \<Rightarrow> u32 \<Rightarrow> u32" where
  "fat_get fs ds c =
     rd32 (the (read_sector (drive fs) (partition_lba fs + entry_sector fs c) ds)) (entry_offset c) AND 0x0FFFFFFF"

definition cluster_data :: "fat32_fs \<Rightarrow> disks \<Rightarrow> u32 \<Rightarrow> u8 list" where
  "cluster_data fs ds c = the (fat32_read_cluster fs c ds)"

lemma geometryD:
  assumes "geometry fs"
  shows "0 < spc fs" "unat (fat_start_lba fs) + unat (fat_size fs) \<le> unat (data_start_lba fs)"
    "(clusters fs + 2) * 4 \<le> unat (fat_size fs) * 512" "clusters fs + 2 \<le> 0x0FFFFFF7"
    "unat (partition_lba fs) + unat (data_start_lba fs) + clusters fs * spc fs \<le> 2 ^ 28"
  using assms by (simp_all add: geometry_def)

lemma in_volume_place:
  assumes "geometry fs" and "in_volume fs a" and "in_volume fs b"
  shows "lba28 a = lba28 b \<longleftrightarrow> a = b"
proof -
  have "unat a < 2 ^ 28" "unat b < 2 ^ 28" using assms by (auto simp: geometry_def in_volume_def)
  then have "unat (lba28 a) = unat a" "unat (lba28 b) = unat b" by (simp_all add: unat_lba28)
  then show ?thesis by (metis word_unat_eq_iff)
qed

lemma entry_place:
  assumes "geometry fs" and "valid fs c"
  shows "unat (partition_lba fs + entry_sector fs c) = unat (partition_lba fs) + unat (fat_start_lba fs) + unat c div 128"
    and "entry_offset c = unat c mod 128 * 4" and "unat c div 128 < unat (fat_size fs)"
proof -
  note g = geometryD [OF assms(1)]
  have c: "unat c < clusters fs + 2" using assms(2) by (simp add: valid_def)
  then have "unat c * 4 < 2 ^ 32" using g(4) by simp
  then have u: "unat (c * 4) = unat c * 4" by (simp add: unat_word_ariths)
  have d: "unat (c * 4 div 512) = unat c div 128" by (simp add: unat_div u)
  show o: "entry_offset c = unat c mod 128 * 4"
    unfolding entry_offset_def using mod_mult_mult2 [of "unat c" 4 128] by (simp add: unat_mod u)
  show s: "unat c div 128 < unat (fat_size fs)" using c g(3) by (simp add: div_less_iff_less_mult)
  show "unat (partition_lba fs + entry_sector fs c) = unat (partition_lba fs) + unat (fat_start_lba fs) + unat c div 128"
    unfolding entry_sector_def using g(2,5) s by (simp add: unat_word_ariths(1) d)
qed

lemma data_place:
  assumes "geometry fs" and "valid fs c" and "k < spc fs"
  shows "unat (partition_lba fs + cluster_to_lba fs c + of_nat k) =
      unat (partition_lba fs) + unat (data_start_lba fs) + (unat c - 2) * spc fs + k"
    and "(unat c - 2) * spc fs + k < clusters fs * spc fs"
proof -
  note g = geometryD [OF assms(1)]
  have c: "2 \<le> unat c" "unat c - 2 < clusters fs" using assms(2) by (auto simp: valid_def)
  have "(unat c - 2) * spc fs + k < (unat c - 2 + 1) * spc fs" using assms(3) by simp
  also have "\<dots> \<le> clusters fs * spc fs" using c(2) by (intro mult_le_mono1) simp
  finally show b: "(unat c - 2) * spc fs + k < clusters fs * spc fs" .
  have "unat (c - 2) = unat c - 2" using c(1) by (simp add: unat_sub word_le_nat_alt)
  moreover have "unat (ucast (sectors_per_cluster fs) :: u32) = spc fs" by (rule unat_up)
  moreover have "k < 256" using assms(3) unat_lt_u8 [of "sectors_per_cluster fs"] by simp
  ultimately show "unat (partition_lba fs + cluster_to_lba fs c + of_nat k) =
      unat (partition_lba fs) + unat (data_start_lba fs) + (unat c - 2) * spc fs + k"
    unfolding cluster_to_lba_def using b g(5) by (simp add: unat_word_ariths unat_of_nat)
qed


lemma entry_in_volume: "geometry fs \<Longrightarrow> valid fs c \<Longrightarrow> in_volume fs (partition_lba fs + entry_sector fs c)"
  using entry_place [of fs c] geometryD(2) [of fs] by (simp add: in_volume_def)

lemma data_in_volume: "geometry fs \<Longrightarrow> valid fs c \<Longrightarrow> k < spc fs \<Longrightarrow> in_volume fs (partition_lba fs + cluster_to_lba fs c + of_nat k)"
  using data_place [of fs c k] by (simp add: in_volume_def)

text \<open>Table and data do not overlap, different clusters have different sectors and different entries.\<close>

lemma entry_not_data:
  assumes "geometry fs" and "valid fs c" and "valid fs c'" and "k < spc fs"
  shows "lba28 (partition_lba fs + entry_sector fs c) \<noteq> lba28 (partition_lba fs + cluster_to_lba fs c' + of_nat k)"
proof -
  have "unat (partition_lba fs + entry_sector fs c) \<noteq> unat (partition_lba fs + cluster_to_lba fs c' + of_nat k)"
    using entry_place(1,3) [OF assms(1,2)] data_place(1) [OF assms(1,3,4)] geometryD(2) [OF assms(1)] by simp
  then show ?thesis
    using in_volume_place [OF assms(1) entry_in_volume data_in_volume] assms by metis
qed

lemma row_inj:
  assumes "i < (s :: nat)" and "k < s" and "m * s + i = n * s + k"
  shows "m = n \<and> i = k"
proof -
  have "(m * s + i) div s = m" "(n * s + k) div s = n" using assms(1,2) by simp_all
  then show ?thesis using assms(3) by simp
qed

lemma data_distinct:
  assumes "geometry fs" and "valid fs c" and "valid fs c'" and "i < spc fs" and "k < spc fs" and "c \<noteq> c' \<or> i \<noteq> k"
  shows "lba28 (partition_lba fs + cluster_to_lba fs c + of_nat i) \<noteq> lba28 (partition_lba fs + cluster_to_lba fs c' + of_nat k)"
proof -
  have "(unat c - 2) * spc fs + i \<noteq> (unat c' - 2) * spc fs + k"
  proof
    assume "(unat c - 2) * spc fs + i = (unat c' - 2) * spc fs + k"
    then have "unat c - 2 = unat c' - 2" "i = k" using row_inj assms(4,5) by blast+
    moreover have "2 \<le> unat c" "2 \<le> unat c'" using assms(2,3) by (simp_all add: valid_def)
    ultimately have "unat c = unat c'" "i = k" by simp_all
    then show False using assms(6) by (auto simp: word_unat_eq_iff)
  qed
  then have "unat (partition_lba fs + cluster_to_lba fs c + of_nat i) \<noteq> unat (partition_lba fs + cluster_to_lba fs c' + of_nat k)"
    unfolding data_place(1) [OF assms(1,2,4)] data_place(1) [OF assms(1,3,5)] by linarith
  then show ?thesis
    using in_volume_place [OF assms(1) data_in_volume data_in_volume] assms(1-5) by metis
qed

lemma entry_distinct:
  assumes "geometry fs" and "valid fs c" and "valid fs c'" and "c \<noteq> c'"
  shows "lba28 (partition_lba fs + entry_sector fs c) \<noteq> lba28 (partition_lba fs + entry_sector fs c') \<or>
     entry_offset c + 4 \<le> entry_offset c' \<or> entry_offset c' + 4 \<le> entry_offset c"
proof (cases "unat c mod 128 = unat c' mod 128")
  case True
  have "unat c \<noteq> unat c'" using assms(4) by (simp add: word_unat_eq_iff)
  then have "unat c div 128 \<noteq> unat c' div 128" using True by (metis mod_mult_div_eq)
  then have "unat (partition_lba fs + entry_sector fs c) \<noteq> unat (partition_lba fs + entry_sector fs c')"
    unfolding entry_place(1) [OF assms(1,2)] entry_place(1) [OF assms(1,3)] by linarith
  then show ?thesis
    using in_volume_place [OF assms(1) entry_in_volume entry_in_volume] assms(1-3) by metis
next
  case False
  then show ?thesis using entry_place(2) [OF assms(1,2)] entry_place(2) [OF assms(1,3)] by auto
qed

section \<open>Writing to the volume\<close>

lemma volumeD:
  assumes "volume fs ds"
  shows "geometry fs" "disks_ok ds" "in_volume fs a \<Longrightarrow> read_sector (drive fs) a ds \<noteq> None"
    "in_volume fs a \<Longrightarrow> length bs = 512 \<Longrightarrow> fst (write_sector (drive fs) a bs ds)"
  using assms by (auto simp: volume_def)

lemma write_sector_volume:
  assumes "volume fs ds" and "length bs = 512"
  shows "volume fs (snd (write_sector (drive fs) a bs ds))"
  using assms disk.wr_ok disk.rd_again disk.wr_again unfolding volume_def by metis

lemma read_entry:
  assumes "volume fs ds" and "valid fs c"
  obtains buf where "fat32_read_sector_internal fs (entry_sector fs c) ds = Some buf" "length buf = 512"
    "rd32 buf (entry_offset c) AND 0x0FFFFFFF = fat_get fs ds c" "entry_offset c + 4 \<le> 512"
proof -
  note g = volumeD(1) [OF assms(1)]
  obtain buf where b: "read_sector (drive fs) (partition_lba fs + entry_sector fs c) ds = Some buf"
    using volumeD(3) [OF assms(1) entry_in_volume [OF g assms(2)]] by auto
  have "unat c mod 128 < 128" by simp
  then have "entry_offset c + 4 \<le> 512" using entry_place(2) [OF g assms(2)] by linarith
  then show thesis
    using that b disk.rd_length [OF volumeD(2) [OF assms(1)] b] by (simp add: fat32_read_sector_internal_def fat_get_def)
qed


lemma valid_not_small: "valid fs c \<Longrightarrow> \<not> c < 2"
  by (simp add: valid_def word_less_nat_alt)

lemma read_run_in_volume:
  assumes "volume fs ds" and "\<And>k. k < n \<Longrightarrow> in_volume fs (a + of_nat k)"
  shows "read_run (read_sector (drive fs)) a n ds \<noteq> None"
  using assms(2)
proof (induction n arbitrary: a)
  case (Suc n)
  have "read_sector (drive fs) a ds \<noteq> None" using volumeD(3) [OF assms(1)] Suc.prems [of 0] by simp
  moreover have "read_run (read_sector (drive fs)) (a + 1) n ds \<noteq> None"
    using Suc.prems [of "Suc _"] by (intro Suc.IH) (simp add: algebra_simps)
  ultimately show ?case by auto
qed simp

lemma read_content:
  assumes "volume fs ds" and "valid fs c"
  shows "fat32_read_cluster fs c ds = Some (cluster_data fs ds c)" and "length (cluster_data fs ds c) = cluster_size fs"
proof -
  have r: "fat32_read_cluster fs c ds \<noteq> None"
    using read_run_in_volume [OF assms(1) data_in_volume [OF volumeD(1) [OF assms(1)] assms(2)]] valid_not_small [OF assms(2)]
    by (simp add: fat32_read_cluster_def)
  then show "fat32_read_cluster fs c ds = Some (cluster_data fs ds c)" by (simp add: cluster_data_def)
  then show "length (cluster_data fs ds c) = cluster_size fs"
    using disk.read_run_length [OF volumeD(2) [OF assms(1)]] valid_not_small [OF assms(2)]
    by (auto simp: fat32_read_cluster_def cluster_size_def)
qed

text \<open>Storing one entry of the table.\<close>

lemma store_entry:
  fixes x :: u32
  assumes v: "volume fs ds" and c: "valid fs c" and b: "fat32_read_sector_internal fs (entry_sector fs c) ds = Some buf"
  defines "w \<equiv> fat32_write_sector_internal fs (entry_sector fs c) (store32 (entry_offset c) x buf) ds"
  shows "fst w" and "volume fs (snd w)" and "valid fs c' \<Longrightarrow> cluster_data fs (snd w) c' = cluster_data fs ds c'"
    and "valid fs c' \<Longrightarrow> fat_get fs (snd w) c' = (if c' = c then x AND 0x0FFFFFFF else fat_get fs ds c')"
proof -
  note g = volumeD(1) [OF v] and d = volumeD(2) [OF v]
  obtain buf' where "fat32_read_sector_internal fs (entry_sector fs c) ds = Some buf'" "length buf' = 512" "entry_offset c + 4 \<le> 512"
    using read_entry [OF v c] by metis
  then have l: "length buf = 512" "entry_offset c + 4 \<le> 512" using b by simp_all
  let ?bs = "store32 (entry_offset c) x buf"
  have len: "length ?bs = 512" using l by simp
  have w: "w = write_sector (drive fs) (partition_lba fs + entry_sector fs c) ?bs ds"
    by (simp add: w_def fat32_write_sector_internal_def)
  show fw: "fst w" unfolding w by (rule volumeD(4) [OF v entry_in_volume [OF g c] len])
  show "volume fs (snd w)" unfolding w by (rule write_sector_volume [OF v len])
  show "cluster_data fs (snd w) c' = cluster_data fs ds c'" if c': "valid fs c'"
    using disk.write_run_one [OF d len entry_not_data [OF g c c']] valid_not_small [OF c']
    by (simp add: cluster_data_def fat32_read_cluster_def w)
  show "fat_get fs (snd w) c' = (if c' = c then x AND 0x0FFFFFFF else fat_get fs ds c')" if c': "valid fs c'"
  proof (cases "lba28 (partition_lba fs + entry_sector fs c) = lba28 (partition_lba fs + entry_sector fs c')")
    case True
    then have same: "partition_lba fs + entry_sector fs c' = partition_lba fs + entry_sector fs c"
      using in_volume_place [OF g entry_in_volume entry_in_volume] g c c' by metis
    obtain buf' where l': "entry_offset c' + 4 \<le> 512" using read_entry [OF v c'] by metis
    have r: "read_sector (drive fs) (partition_lba fs + entry_sector fs c) (snd w) = Some ?bs"
      unfolding w by (intro disk.rd_wr_same d len fw [unfolded w] volumeD(3) [OF v entry_in_volume [OF g c]] refl)
    have old: "read_sector (drive fs) (partition_lba fs + entry_sector fs c) ds = Some buf"
      using b by (simp add: fat32_read_sector_internal_def)
    show ?thesis
    proof (cases "c' = c")
      case True
      then show ?thesis using rd32_store32 [of "entry_offset c" buf x] l by (simp add: fat_get_def r)
    next
      case False
      then have "entry_offset c + 4 \<le> entry_offset c' \<or> entry_offset c' + 4 \<le> entry_offset c"
        using entry_distinct [OF g c c'] True by auto
      then show ?thesis
        using rd32_store32_other [of "entry_offset c" buf "entry_offset c'" x] l l' False by (auto simp: fat_get_def same r old)
    qed
  next
    case False
    then show ?thesis using disk.rd_wr_other [OF d len False] by (auto simp: fat_get_def w)
  qed
qed

lemma next_cluster:
  assumes "volume fs ds" and "valid fs c"
  shows "fat32_next_cluster fs c ds = (if fat_get fs ds c \<ge> FAT32_CLUSTER_END then 0 else fat_get fs ds c)"
proof -
  obtain buf where "fat32_read_sector_internal fs (entry_sector fs c) ds = Some buf"
    "rd32 buf (entry_offset c) AND 0x0FFFFFFF = fat_get fs ds c"
    using read_entry [OF assms] by metis
  then show ?thesis by (simp add: fat32_next_cluster_def Let_def)
qed


text \<open>The top four bits of an entry are kept.\<close>

lemma set_entry_bits: "((old AND 0xF0000000) OR (v AND 0x0FFFFFFF)) AND 0x0FFFFFFF = v AND (0x0FFFFFFF :: u32)"
  by (simp add: word_ao_dist and.assoc)

lemma set_cluster:
  fixes x :: u32
  assumes "volume fs ds" and "valid fs c"
  defines "w \<equiv> fat32_set_cluster fs c x ds"
  shows "fst w = 1" and "volume fs (snd w)" and "valid fs c' \<Longrightarrow> cluster_data fs (snd w) c' = cluster_data fs ds c'"
    and "valid fs c' \<Longrightarrow> fat_get fs (snd w) c' = (if c' = c then x AND 0x0FFFFFFF else fat_get fs ds c')"
proof -
  obtain buf where b: "fat32_read_sector_internal fs (entry_sector fs c) ds = Some buf"
    using read_entry [OF assms(1,2)] by metis
  note s = store_entry [OF assms(1,2) b, where x = "(rd32 buf (entry_offset c) AND 0xF0000000) OR (x AND 0x0FFFFFFF)"]
  have w: "snd w = snd (fat32_write_sector_internal fs (entry_sector fs c)
      (store32 (entry_offset c) ((rd32 buf (entry_offset c) AND 0xF0000000) OR (x AND 0x0FFFFFFF)) buf) ds)" "fst w = 1"
    using s(1) by (simp_all add: w_def fat32_set_cluster_def b Let_def case_prod_beta)
  show "fst w = 1" "volume fs (snd w)" by (simp_all add: w s(2))
  show "valid fs c' \<Longrightarrow> cluster_data fs (snd w) c' = cluster_data fs ds c'" unfolding w(1) by (rule s(3))
  show "valid fs c' \<Longrightarrow> fat_get fs (snd w) c' = (if c' = c then x AND 0x0FFFFFFF else fat_get fs ds c')"
    unfolding w(1) using s(4) by (simp add: set_entry_bits)
qed

lemma write_run_volume:
  assumes "volume fs ds" and "length bs = 512 * n"
  shows "volume fs (snd (write_run (write_sector (drive fs)) a n bs ds))"
  using assms
proof (induction n arbitrary: a bs ds)
  case (Suc n)
  then have "volume fs (snd (write_sector (drive fs) a (take 512 bs) ds))" by (intro write_sector_volume) auto
  then show ?case using Suc by (auto split: prod.split)
qed simp

lemma write_run_succeeds:
  assumes "volume fs ds" and "length bs = 512 * n" and "\<And>k. k < n \<Longrightarrow> in_volume fs (a + of_nat k)"
  shows "fst (write_run (write_sector (drive fs)) a n bs ds)"
  using assms
proof (induction n arbitrary: a bs ds)
  case (Suc n)
  let ?w = "write_sector (drive fs) a (take 512 bs) ds"
  have len: "length (take 512 bs) = 512" using Suc.prems(2) by simp
  have "fst ?w" using volumeD(4) [OF Suc.prems(1) _ len] Suc.prems(3) [of 0] by simp
  moreover have "fst (write_run (write_sector (drive fs)) (a + 1) n (drop 512 bs) (snd ?w))"
    using Suc.prems(2) Suc.prems(3) [of "Suc _"]
    by (intro Suc.IH write_sector_volume [OF Suc.prems(1) len]) (simp_all add: algebra_simps)
  ultimately show ?case by (auto split: prod.split)
qed simp

lemma write_cluster:
  assumes v: "volume fs ds" and c: "valid fs c" and len: "length buf = cluster_size fs"
  defines "w \<equiv> fat32_write_cluster fs c buf ds"
  shows "fst w = int (cluster_size fs)" and "volume fs (snd w)"
    and "valid fs c' \<Longrightarrow> cluster_data fs (snd w) c' = (if c' = c then buf else cluster_data fs ds c')"
    and "valid fs c' \<Longrightarrow> fat_get fs (snd w) c' = fat_get fs ds c'"
proof -
  note g = volumeD(1) [OF v] and d = volumeD(2) [OF v] and ns = valid_not_small [OF c]
  let ?a = "partition_lba fs + cluster_to_lba fs c"
  have l: "length buf = 512 * spc fs" using len by (simp add: cluster_size_def)
  define r where "r = write_run (write_sector (drive fs)) ?a (spc fs) buf ds"
  have r: "fst r" unfolding r_def by (rule write_run_succeeds [OF v l data_in_volume [OF g c]])
  then have w: "fst w = int (cluster_size fs)" "snd w = snd r"
    using ns by (simp_all add: w_def fat32_write_cluster_def r_def case_prod_beta)
  show "fst w = int (cluster_size fs)" by (rule w(1))
  show "volume fs (snd w)" unfolding w r_def by (rule write_run_volume [OF v l])
  show "fat_get fs (snd w) c' = fat_get fs ds c'" if c': "valid fs c'"
    using disk.write_run_other [OF d l, of ?a "partition_lba fs + entry_sector fs c'" "drive fs"] entry_not_data [OF g c' c]
    by (metis fat_get_def r_def w(2))
  show "cluster_data fs (snd w) c' = (if c' = c then buf else cluster_data fs ds c')" if c': "valid fs c'"
  proof (cases "c' = c")
    case True
    have "read_run (read_sector (drive fs)) ?a (spc fs) (snd r) = Some buf"
      unfolding r_def
      by (intro disk.write_read_run d l r [unfolded r_def] read_run_in_volume [OF v data_in_volume [OF g c]] data_distinct g c) auto
    then show ?thesis using True ns by (simp add: cluster_data_def fat32_read_cluster_def w)
  next
    case False
    have "read_run (read_sector (drive fs)) (partition_lba fs + cluster_to_lba fs c') (spc fs) (snd r) =
        read_run (read_sector (drive fs)) (partition_lba fs + cluster_to_lba fs c') (spc fs) ds"
      unfolding r_def using False by (intro disk.write_run_run d l data_distinct g c c') auto
    then show ?thesis using False valid_not_small [OF c'] by (simp add: cluster_data_def fat32_read_cluster_def w)
  qed
qed

text \<open>The lowest free cluster.\<close>

definition lowest_free_cluster :: "fat32_fs \<Rightarrow> disks \<Rightarrow> u32 \<Rightarrow> bool" where
  "lowest_free_cluster fs ds c \<longleftrightarrow> valid fs c \<and> fat_get fs ds c = 0 \<and> (\<forall>b. valid fs b \<longrightarrow> b < c \<longrightarrow> fat_get fs ds b \<noteq> 0)"

lemma valid_range: "geometry fs \<Longrightarrow> set (map of_nat [2 ..< unat (total_clusters fs + 2)]) = {c. valid fs c}"
proof -
  assume g: "geometry fs"
  have u: "unat (total_clusters fs + 2) = clusters fs + 2"
    using geometryD(4) [OF g] by (simp add: unat_word_ariths)
  have n: "unat (of_nat k :: u32) = k" if "k < clusters fs + 2" for k
    using that geometryD(4) [OF g] by (simp add: unat_of_nat)
  show ?thesis
  proof (intro equalityI subsetI)
    fix c assume "c \<in> set (map of_nat [2 ..< unat (total_clusters fs + 2)] :: u32 list)"
    then obtain k where "k \<in> set [2 ..< clusters fs + 2]" "c = of_nat k" unfolding u set_map by blast
    then have "2 \<le> k" "k < clusters fs + 2" "c = of_nat k" by (simp_all only: set_upt atLeastLessThan_iff)
    then have "unat c = k" "2 \<le> k" "k < clusters fs + 2" using n by (simp_all only:)
    then show "c \<in> {c. valid fs c}" by (simp add: valid_def)
  next
    fix c assume "c \<in> {c. valid fs c}"
    then have "c = of_nat (unat c)" "unat c \<in> {2 ..< clusters fs + 2}" by (auto simp: valid_def)
    then show "c \<in> set (map of_nat [2 ..< unat (total_clusters fs + 2)] :: u32 list)" unfolding u by (metis image_eqI set_map set_upt)
  qed
qed


lemma alloc_scan:
  assumes "volume fs ds" and "\<forall>c \<in> set cs. valid fs c"
  shows "case find_idx (\<lambda>c. fat_get fs ds c = 0) cs of
      None \<Rightarrow> alloc_scan fs cs ds = (0, ds)
    | Some i \<Rightarrow> \<exists>buf. fat32_read_sector_internal fs (entry_sector fs (cs ! i)) ds = Some buf \<and>
        alloc_scan fs cs ds = (cs ! i, snd (fat32_write_sector_internal fs (entry_sector fs (cs ! i))
          (store32 (entry_offset (cs ! i)) 0x0FFFFFFF buf) ds))"
  using assms(2)
proof (induction cs)
  case (Cons c cs)
  obtain buf where b: "fat32_read_sector_internal fs (entry_sector fs c) ds = Some buf"
    "rd32 buf (entry_offset c) AND 0x0FFFFFFF = fat_get fs ds c"
    using read_entry [OF assms(1), of c] Cons.prems by auto
  show ?case using b Cons by (auto simp del: find_idx_None split: option.splits)
qed simp

lemma alloc_cluster:
  assumes v: "volume fs ds"
  obtains "fat32_alloc_cluster fs ds = (0, ds)" "\<And>c. valid fs c \<Longrightarrow> fat_get fs ds c \<noteq> 0"
  | c ds' where "fat32_alloc_cluster fs ds = (c, ds')" "lowest_free_cluster fs ds c" "volume fs ds'"
    "\<And>b. valid fs b \<Longrightarrow> fat_get fs ds' b = (if b = c then 0x0FFFFFFF else fat_get fs ds b)"
    "\<And>b. valid fs b \<Longrightarrow> cluster_data fs ds' b = cluster_data fs ds b"
proof -
  define cs where "cs = (map of_nat [2 ..< unat (total_clusters fs + 2)] :: u32 list)"
  have rg: "set cs = {c. valid fs c}" unfolding cs_def by (rule valid_range [OF volumeD(1) [OF v]])
  have alloc: "fat32_alloc_cluster fs ds = alloc_scan fs cs ds" by (simp add: fat32_alloc_cluster_def cs_def)
  have "\<forall>c \<in> set cs. valid fs c" using rg by blast
  note s = alloc_scan [OF v this]
  show thesis
  proof (cases "find_idx (\<lambda>c. fat_get fs ds c = 0) cs")
    case None
    then have "fat32_alloc_cluster fs ds = (0, ds)" using s by (simp add: alloc del: find_idx_None)
    moreover have "fat_get fs ds c \<noteq> 0" if "valid fs c" for c
      using None [unfolded find_idx_None] that rg by blast
    ultimately show thesis by (rule that(1))
  next
    case (Some i)
    then obtain buf where b: "fat32_read_sector_internal fs (entry_sector fs (cs ! i)) ds = Some buf"
      "fat32_alloc_cluster fs ds = (cs ! i, snd (fat32_write_sector_internal fs (entry_sector fs (cs ! i))
          (store32 (entry_offset (cs ! i)) 0x0FFFFFFF buf) ds))"
      using s unfolding alloc by auto
    have i: "i < length cs" "fat_get fs ds (cs ! i) = 0" "\<And>j. j < i \<Longrightarrow> fat_get fs ds (cs ! j) \<noteq> 0"
      using Some unfolding find_idx_Some by simp_all
    have c: "valid fs (cs ! i)" using rg i(1) nth_mem [OF i(1)] by blast
    have ul: "unat (total_clusters fs + 2) < 4294967296" by (rule unat_lt_u32)
    have nth: "unat (cs ! j) = j + 2" if "j < length cs" for j
    proof -
      have "cs ! j = of_nat (2 + j)" using that by (simp add: cs_def)
      moreover have "2 + j < 4294967296" using that ul by (simp add: cs_def)
      ultimately show ?thesis using unat_of_nat [of "2 + j", where 'a = 32] by (simp only: mod_less len_of_numeral_defs) simp
    qed
    have "fat_get fs ds b \<noteq> 0" if b: "valid fs b" "b < cs ! i" for b
    proof -
      have "b \<in> set cs" using rg b(1) by blast
      then obtain j where j: "j < length cs" "b = cs ! j" by (metis in_set_conv_nth)
      then have "j < i" using nth [OF j(1)] nth [OF i(1)] b(2) by (simp add: word_less_nat_alt)
      then show ?thesis using i(3) j(2) by simp
    qed
    then have "lowest_free_cluster fs ds (cs ! i)" using c i(2) by (simp add: lowest_free_cluster_def)
    then show thesis
      using store_entry [OF v c b(1), where x = "0x0FFFFFFF"] by (intro that(2) [OF b(2)]) simp_all
  qed
qed


section \<open>Chains\<close>

abbreviation no_free_cluster :: "fat32_fs \<Rightarrow> disks \<Rightarrow> bool" where
  "no_free_cluster fs ds \<equiv> \<forall>c. valid fs c \<longrightarrow> fat_get fs ds c \<noteq> 0"

text \<open>The clusters from \<open>c\<close> to the end of its chain; the empty chain starts at 0.\<close>

fun chain :: "fat32_fs \<Rightarrow> disks \<Rightarrow> u32 \<Rightarrow> u32 list \<Rightarrow> bool" where
  "chain fs ds c [] = (c = 0)"
| "chain fs ds c (d # cs) = (c = d \<and> valid fs c \<and> fat_get fs ds c \<noteq> 0 \<and>
     chain fs ds (if fat_get fs ds c \<ge> FAT32_CLUSTER_END then 0 else fat_get fs ds c) cs)"

lemma valid_nonzero: "valid fs c \<Longrightarrow> c \<noteq> 0"
  by (auto simp: valid_def)

lemma valid_below_end: "geometry fs \<Longrightarrow> valid fs c \<Longrightarrow> c < FAT32_CLUSTER_END"
  using geometryD(4) [of fs] by (simp add: valid_def word_less_nat_alt)

lemma chain_valid: "chain fs ds c cs \<Longrightarrow> b \<in> set cs \<Longrightarrow> valid fs b \<and> fat_get fs ds b \<noteq> 0"
  by (induction cs arbitrary: c) auto

lemma chain_hd: "chain fs ds c cs \<Longrightarrow> c \<noteq> 0 \<Longrightarrow> \<exists>cs'. cs = c # cs'"
  by (cases cs) auto

lemma chain_unique: "chain fs ds c cs \<Longrightarrow> chain fs ds c cs' \<Longrightarrow> cs = cs'"
proof (induction cs arbitrary: c cs')
  case Nil
  then show ?case using valid_nonzero by (cases cs') auto
next
  case (Cons d cs)
  then show ?case using valid_nonzero by (cases cs') auto
qed

lemma chain_drop: "chain fs ds c cs \<Longrightarrow> \<exists>b. chain fs ds b (drop n cs)"
proof (induction cs arbitrary: c n)
  case (Cons d cs)
  show ?case
  proof (cases n)
    case 0
    then show ?thesis using Cons.prems by (auto simp del: chain.simps)
  next
    case (Suc m)
    then show ?thesis using Cons.IH Cons.prems by auto
  qed
qed auto

lemma chain_distinct: "chain fs ds c cs \<Longrightarrow> distinct cs"
proof (induction cs arbitrary: c)
  case (Cons d cs)
  have "d \<notin> set cs"
  proof
    assume "d \<in> set cs"
    then obtain n where n: "n < length cs" "cs ! n = d" by (metis in_set_conv_nth)
    obtain b where b: "chain fs ds b (drop (Suc n) (d # cs))" using chain_drop [OF Cons.prems] by blast
    have e: "drop (Suc n) (d # cs) = d # drop (Suc n) cs" using n by (simp add: Cons_nth_drop_Suc [symmetric])
    have "b = d" using b unfolding e by simp
    then have "chain fs ds d (d # drop (Suc n) cs)" using b unfolding e by (simp only:)
    moreover have "chain fs ds d (d # cs)" using Cons.prems by auto
    ultimately have "d # drop (Suc n) cs = d # cs" by (rule chain_unique)
    then have "length (drop (Suc n) cs) = length cs" by simp
    then show False using n(1) by simp
  qed
  then show ?case using Cons by auto
qed simp

lemma fat_chain_cong:
  "(\<And>b. b \<in> set cs \<Longrightarrow> fat_get fs ds' b = fat_get fs ds b) \<Longrightarrow> chain fs ds' c cs = chain fs ds c cs"
  by (induction cs arbitrary: c) auto

lemma chain_next:
  assumes "volume fs ds" and "chain fs ds c (d # cs)"
  shows "chain fs ds (fat32_next_cluster fs c ds) cs" and "valid fs c" and "c = d" and "fat_get fs ds c \<noteq> 0"
  using assms next_cluster [OF assms(1)] by auto

lemma chain_loop_guard:
  assumes "volume fs ds" and "chain fs ds c cs"
  shows "c \<noteq> 0 \<and> c < FAT32_CLUSTER_END \<longleftrightarrow> cs \<noteq> []"
proof (cases cs)
  case (Cons d cs')
  then have "valid fs c" using assms(2) by auto
  then show ?thesis using Cons valid_nonzero valid_below_end [OF volumeD(1) [OF assms(1)]] by auto
qed (use assms(2) in simp)

text \<open>One step along a chain that is extended at its end.\<close>

lemma extend_chain_cases:
  assumes v: "volume fs ds" and ch: "chain fs ds c (c # cs)"
  obtains "cs = []" "extend_chain fs c ds = (0, ds)" "no_free_cluster fs ds"
  | n cs' where "cs = n # cs'" "extend_chain fs c ds = (n, ds)" "valid fs n"
  | n ds' where "cs = []" "extend_chain fs c ds = (n, ds')" "valid fs n" "fat_get fs ds n = 0" "volume fs ds'"
    "chain fs ds' c [c, n]"
    "\<And>b. valid fs b \<Longrightarrow> b \<noteq> c \<Longrightarrow> b \<noteq> n \<Longrightarrow> fat_get fs ds' b = fat_get fs ds b"
    "\<And>b. valid fs b \<Longrightarrow> cluster_data fs ds' b = cluster_data fs ds b"
proof (cases cs)
  case (Cons n cs')
  note c = chain_next [OF v ch]
  have n: "fat32_next_cluster fs c ds = n" "valid fs n" using c(1) Cons by auto
  then have "extend_chain fs c ds = (n, ds)"
    using valid_nonzero [OF n(2)] valid_below_end [OF volumeD(1) [OF v] n(2)] by (auto simp: extend_chain_def Let_def)
  then show thesis using that(2) Cons n(2) by blast
next
  case Nil
  note c = chain_next [OF v ch]
  have z: "fat32_next_cluster fs c ds = 0" using c(1) Nil by simp
  show thesis
  proof (rule alloc_cluster [OF v])
    assume "fat32_alloc_cluster fs ds = (0, ds)" "\<And>c. valid fs c \<Longrightarrow> fat_get fs ds c \<noteq> 0"
    then show thesis using that(1) Nil z by (simp add: extend_chain_def)
  next
    fix n ds1
    assume a: "fat32_alloc_cluster fs ds = (n, ds1)" "lowest_free_cluster fs ds n" "volume fs ds1"
      "\<And>b. valid fs b \<Longrightarrow> fat_get fs ds1 b = (if b = n then 0x0FFFFFFF else fat_get fs ds b)"
      "\<And>b. valid fs b \<Longrightarrow> cluster_data fs ds1 b = cluster_data fs ds b"
    have n: "valid fs n" "fat_get fs ds n = 0" using a(2) by (simp_all add: lowest_free_cluster_def)
    note s = set_cluster [OF a(3) c(2), where x = n]
    have nc: "n \<noteq> c" using n(2) c(4) by auto
    have low: "n AND 0x0FFFFFFF = n"
    proof -
      have m: "(0x0FFFFFFF :: u32) = mask 28" by (simp add: mask_eq_exp_minus_1)
      have "unat n < 2 ^ 28" using n(1) geometryD(4) [OF volumeD(1) [OF v]] by (simp add: valid_def)
      then have "take_bit 28 n = n" by (simp add: word_unat_eq_iff unsigned_take_bit_eq take_bit_nat_eq_self)
      then show ?thesis by (simp only: m take_bit_eq_mask)
    qed
    have e: "extend_chain fs c ds = (n, snd (fat32_set_cluster fs c n ds1))"
      using z a(1) valid_nonzero [OF n(1)] by (simp add: extend_chain_def)
    show thesis
    proof (rule that(3) [OF Nil e n s(2)])
      show "chain fs (snd (fat32_set_cluster fs c n ds1)) c [c, n]"
        using s(4) [OF c(2)] s(4) [OF n(1)] a(4) [OF n(1)] nc c(2) n(1) low valid_nonzero [OF n(1)]
          valid_below_end [OF volumeD(1) [OF v] n(1)]
        by auto
    qed (use s(3,4) a(4,5) in auto)
  qed
qed


section \<open>Reading a file\<close>

definition chain_data :: "fat32_fs \<Rightarrow> disks \<Rightarrow> u32 list \<Rightarrow> u8 list" where
  "chain_data fs ds cs = concat (map (cluster_data fs ds) cs)"

lemma chain_data_simps [simp]:
  "chain_data fs ds [] = []" "chain_data fs ds (c # cs) = cluster_data fs ds c @ chain_data fs ds cs"
  "chain_data fs ds (cs @ cs') = chain_data fs ds cs @ chain_data fs ds cs'"
  by (simp_all add: chain_data_def)

lemma length_chain_data: "volume fs ds \<Longrightarrow> \<forall>c \<in> set cs. valid fs c \<Longrightarrow> length (chain_data fs ds cs) = length cs * cluster_size fs"
  by (induction cs) (simp_all add: read_content)

lemma cluster_size_pos: "volume fs ds \<Longrightarrow> 0 < cluster_size fs"
  using geometryD(1) [OF volumeD(1)] by (simp add: cluster_size_def)

lemma skip_clusters_chain:
  "volume fs ds \<Longrightarrow> chain fs ds c cs \<Longrightarrow> chain fs ds (skip_clusters fs n c ds) (drop n cs)"
proof (induction n arbitrary: c cs)
  case (Suc n)
  show ?case
  proof (cases cs)
    case Nil
    then show ?thesis using Suc.prems(2) by simp
  next
    case (Cons d cs')
    note c = chain_next [OF Suc.prems(1) Suc.prems(2) [unfolded Cons]]
    then show ?thesis using Suc.IH [OF Suc.prems(1) c(1)] valid_nonzero [OF c(2)] Cons by simp
  qed
qed simp

lemma read_loop_chain:
  assumes "volume fs ds"
  shows "chain fs ds c cs \<Longrightarrow> start < cluster_size fs \<Longrightarrow>
    read_loop fs c start left acc ds =
      (let r = acc @ take left (drop start (chain_data fs ds cs)) in Some (sint (of_nat (length r) :: u32), r))"
proof (induction cs arbitrary: c start left acc)
  case Nil
  then show ?case by (subst read_loop.simps) simp
next
  case (Cons d cs)
  note c = chain_next [OF assms Cons.prems(1)]
  have guard: "c \<noteq> 0 \<and> c < FAT32_CLUSTER_END" using chain_loop_guard [OF assms Cons.prems(1)] by simp
  note rc = read_content [OF assms c(2)]
  show ?case
  proof (cases "left = 0")
    case True
    then show ?thesis by (subst read_loop.simps) simp
  next
    case False
    let ?n = "min (cluster_size fs - start) left"
    have "read_loop fs c start left acc ds =
        read_loop fs (fat32_next_cluster fs c ds) 0 (left - ?n) (acc @ take ?n (drop start (cluster_data fs ds c))) ds"
      using guard False rc(1) by (subst read_loop.simps) (simp add: Let_def)
    also have "\<dots> = (let r = (acc @ take ?n (drop start (cluster_data fs ds c))) @ take (left - ?n) (drop 0 (chain_data fs ds cs))
        in Some (sint (of_nat (length r) :: u32), r))"
      by (rule Cons.IH [OF c(1) cluster_size_pos [OF assms]])
    also have "(acc @ take ?n (drop start (cluster_data fs ds c))) @ take (left - ?n) (drop 0 (chain_data fs ds cs)) =
        acc @ take left (drop start (chain_data fs ds (d # cs)))"
      using rc(2) c(3) Cons.prems(2) by (auto simp: min_def)
    finally show ?thesis .
  qed
qed

lemma drop_chain_data:
  assumes "volume fs ds" and "\<forall>c \<in> set cs. valid fs c"
  shows "drop (n mod cluster_size fs) (chain_data fs ds (drop (n div cluster_size fs) cs)) = drop n (chain_data fs ds cs)"
proof -
  let ?k = "n div cluster_size fs"
  have "drop (?k * cluster_size fs) (chain_data fs ds cs) = chain_data fs ds (drop ?k cs)"
  proof (cases "?k \<le> length cs")
    case True
    have "\<forall>c \<in> set (take ?k cs). valid fs c" using assms(2) set_take_subset [of ?k cs] by blast
    then have "length (chain_data fs ds (take ?k cs)) = ?k * cluster_size fs"
      using length_chain_data [OF assms(1)] True by simp
    moreover have "chain_data fs ds cs = chain_data fs ds (take ?k cs) @ chain_data fs ds (drop ?k cs)"
      using chain_data_simps(3) [of fs ds "take ?k cs" "drop ?k cs"] by (simp only: append_take_drop_id)
    ultimately show ?thesis by (metis append_eq_conv_conj)
  next
    case False
    then have "length (chain_data fs ds cs) \<le> ?k * cluster_size fs"
      using length_chain_data [OF assms] by simp
    then show ?thesis using False by simp
  qed
  then show ?thesis by (metis add.commute drop_drop mod_mult_div_eq mult.commute)
qed

lemma read_file_chain:
  fixes sz :: u32
  assumes v: "volume fs ds" and ch: "chain fs ds start cs" and "offset < file_size"
  defines "n \<equiv> (if offset + sz > file_size then file_size - offset else sz)"
  shows "fat32_read_file fs start file_size offset sz True ds =
    (let r = take (unat n) (drop (unat offset) (chain_data fs ds cs)) in Some (sint (of_nat (length r) :: u32), r))"
proof -
  have csz: "cluster_size fs \<noteq> 0" using cluster_size_pos [OF v] by simp
  have val: "\<forall>c \<in> set cs. valid fs c" using chain_valid [OF ch] by blast
  show ?thesis
    using read_loop_chain [OF v skip_clusters_chain [OF v ch], of "unat offset mod cluster_size fs" "unat offset div cluster_size fs" "unat n" "[]"]
      drop_chain_data [OF v val, of "unat offset"] assms(3) csz
    by (simp add: fat32_read_file_def n_def not_le)
qed


section \<open>Writing a file\<close>

lemma extend_chain_step:
  assumes v: "volume fs ds" and ch: "chain fs ds c (c # cs)"
  obtains "cs = []" "extend_chain fs c ds = (0, ds)" "no_free_cluster fs ds"
  | m cs2 ds2 added where "extend_chain fs c ds = (m, ds2)" "m \<noteq> 0" "volume fs ds2" "chain fs ds2 c (c # m # cs2)"
    "m # cs2 = cs @ added" "\<And>b. b \<in> set added \<Longrightarrow> valid fs b \<and> fat_get fs ds b = 0"
    "\<And>b. valid fs b \<Longrightarrow> b \<notin> set (c # added) \<Longrightarrow> fat_get fs ds2 b = fat_get fs ds b"
    "\<And>b. valid fs b \<Longrightarrow> cluster_data fs ds2 b = cluster_data fs ds b"
proof (rule extend_chain_cases [OF v ch])
  assume "cs = []" "extend_chain fs c ds = (0, ds)" "no_free_cluster fs ds"
  then show thesis by (rule that(1))
next
  fix n cs' assume "cs = n # cs'" "extend_chain fs c ds = (n, ds)" "valid fs n"
  then show thesis using v ch valid_nonzero by (intro that(2) [of n ds cs' "[]"]) auto
next
  fix n ds'
  assume a: "cs = []" "extend_chain fs c ds = (n, ds')" "valid fs n" "fat_get fs ds n = 0" "volume fs ds'"
    "chain fs ds' c [c, n]"
    "\<And>b. valid fs b \<Longrightarrow> b \<noteq> c \<Longrightarrow> b \<noteq> n \<Longrightarrow> fat_get fs ds' b = fat_get fs ds b"
    "\<And>b. valid fs b \<Longrightarrow> cluster_data fs ds' b = cluster_data fs ds b"
  show thesis
    by (rule that(2) [OF a(2) valid_nonzero [OF a(3)] a(5,6), where added = "[n]"]) (use a in \<open>auto simp del: chain.simps\<close>)
qed

text \<open>
  \<open>grown fs ds c cs ds' new\<close>: the chain \<open>cs\<close> from \<open>c\<close> has got the free clusters \<open>new\<close> at its end, and the
  table is otherwise unchanged.
\<close>

definition grown :: "fat32_fs \<Rightarrow> disks \<Rightarrow> u32 \<Rightarrow> u32 list \<Rightarrow> disks \<Rightarrow> u32 list \<Rightarrow> bool" where
  "grown fs ds c cs ds' new \<longleftrightarrow> volume fs ds' \<and> chain fs ds' c (cs @ new) \<and>
     (\<forall>b \<in> set new. valid fs b \<and> fat_get fs ds b = 0) \<and>
     (\<forall>b. valid fs b \<longrightarrow> b \<notin> set (cs @ new) \<longrightarrow> fat_get fs ds' b = fat_get fs ds b)"

lemma grown_refl: "volume fs ds \<Longrightarrow> chain fs ds c cs \<Longrightarrow> grown fs ds c cs ds []"
  by (simp add: grown_def)

lemma grown_step:
  assumes ch: "chain fs ds c (c # cs)" and ch2: "chain fs ds2 c (c # m # cs2)" and m: "m # cs2 = cs @ added"
    and fresh: "\<And>b. b \<in> set added \<Longrightarrow> valid fs b \<and> fat_get fs ds b = 0"
    and frame: "\<And>b. valid fs b \<Longrightarrow> b \<notin> set (c # added) \<Longrightarrow> fat_get fs ds2 b = fat_get fs ds b"
    and g: "grown fs ds2 m (m # cs2) ds' new"
  shows "grown fs ds c (c # cs) ds' (added @ new)" and "c \<notin> set (m # cs2 @ new)"
proof -
  have G: "volume fs ds'" "chain fs ds' m (m # cs2 @ new)" "\<And>b. b \<in> set new \<Longrightarrow> valid fs b \<and> fat_get fs ds2 b = 0"
    "\<And>b. valid fs b \<Longrightarrow> b \<notin> set (m # cs2 @ new) \<Longrightarrow> fat_get fs ds' b = fat_get fs ds2 b"
    using g by (auto simp: grown_def)
  have c: "valid fs c" "fat_get fs ds2 c \<noteq> 0" using ch2 by simp_all
  have "c \<notin> set (m # cs2)" using chain_distinct [OF ch2] by simp
  moreover have "c \<notin> set new" using G(3) c(2) by auto
  ultimately show out: "c \<notin> set (m # cs2 @ new)" by simp
  have keep: "fat_get fs ds' c = fat_get fs ds2 c" by (rule G(4) [OF c(1) out])
  have "chain fs ds' c (c # m # cs2 @ new)" using ch2 G(2) by (auto simp: keep)
  then have chain': "chain fs ds' c (c # cs @ added @ new)" using m by (metis append_Cons append_assoc)
  have memb: "set (m # cs2 @ new) = set (cs @ added @ new)" using arg_cong [OF m, of set] by auto
  have "fat_get fs ds b = 0" if b: "b \<in> set new" for b
  proof -
    have nz: "b \<noteq> c" using G(3) [OF b] c(2) by auto
    have "b \<notin> set added"
    proof
      assume "b \<in> set added"
      then have "b \<in> set (m # cs2)" using m by simp
      then have "fat_get fs ds2 b \<noteq> 0" using chain_valid [OF ch2, of b] by simp
      then show False using G(3) [OF b] by simp
    qed
    then show ?thesis using frame [of b] G(3) [OF b] nz by simp
  qed
  then have fresh': "\<forall>b \<in> set (added @ new). valid fs b \<and> fat_get fs ds b = 0" using fresh G(3) by auto
  have "fat_get fs ds' b = fat_get fs ds b" if b: "valid fs b" "b \<notin> set (c # cs @ added @ new)" for b
  proof -
    have nb: "b \<notin> set (m # cs2 @ new)" "b \<notin> set (c # added)" using b(2) memb by auto
    show ?thesis using G(4) [OF b(1) nb(1)] frame [OF b(1) nb(2)] by simp
  qed
  then show "grown fs ds c (c # cs) ds' (added @ new)"
    using G(1) chain' fresh' unfolding grown_def by auto
qed


lemma seek_extend_chain:
  assumes "volume fs ds" and "chain fs ds c (c # cs)"
  shows "\<exists>r ds' new. seek_extend fs n c ds = (r, ds') \<and> grown fs ds c (c # cs) ds' new \<and>
     (\<forall>b. valid fs b \<longrightarrow> cluster_data fs ds' b = cluster_data fs ds b) \<and>
     (if r = 0 then no_free_cluster fs ds' else n < length (c # cs @ new) \<and> chain fs ds' r (drop n (c # cs @ new)))"
  using assms
proof (induction n arbitrary: c cs ds)
  case 0
  have "c \<noteq> 0" using 0(2) valid_nonzero by auto
  then show ?case using grown_refl [OF 0] 0(2) by (intro exI [of _ c] exI [of _ ds] exI [of _ "[]"]) simp
next
  case (Suc n)
  show ?case
  proof (rule extend_chain_step [OF Suc.prems])
    assume e: "cs = []" "extend_chain fs c ds = (0, ds)" "no_free_cluster fs ds"
    show ?thesis
      using e grown_refl [OF Suc.prems] by (intro exI [of _ 0] exI [of _ ds] exI [of _ "[]"]) simp
  next
    fix m cs2 ds2 added
    assume e: "extend_chain fs c ds = (m, ds2)" "m \<noteq> 0" "volume fs ds2" "chain fs ds2 c (c # m # cs2)"
      "m # cs2 = cs @ added" "\<And>b. b \<in> set added \<Longrightarrow> valid fs b \<and> fat_get fs ds b = 0"
      "\<And>b. valid fs b \<Longrightarrow> b \<notin> set (c # added) \<Longrightarrow> fat_get fs ds2 b = fat_get fs ds b"
      "\<And>b. valid fs b \<Longrightarrow> cluster_data fs ds2 b = cluster_data fs ds b"
    have "chain fs ds2 m (m # cs2)" using e(4) by auto
    from Suc.IH [OF e(3) this] obtain r ds' new where r: "seek_extend fs n m ds2 = (r, ds')"
      "grown fs ds2 m (m # cs2) ds' new" "\<forall>b. valid fs b \<longrightarrow> cluster_data fs ds' b = cluster_data fs ds2 b"
      "if r = 0 then no_free_cluster fs ds' else n < length (m # cs2 @ new) \<and> chain fs ds' r (drop n (m # cs2 @ new))"
      by blast
    have l: "c # cs @ added @ new = c # m # cs2 @ new" using e(5) by simp
    show ?thesis
      using r e(1,2,8) grown_step(1) [OF Suc.prems(2) e(4-7) r(2)]
      by (intro exI [of _ r] exI [of _ ds'] exI [of _ "added @ new"]) (auto simp add: l simp del: chain.simps)
  qed
qed

lemma overlay_append:
  "start + length d \<le> length a \<Longrightarrow> overlay start d (a @ b) = overlay start d a @ b"
  by (simp add: overlay_def)

lemma overlay_append2:
  assumes "start + n = length a" and "n \<le> length d"
  shows "overlay start d (a @ b) = overlay start (take n d) a @ overlay 0 (drop n d) b"
proof -
  have "length (take n d) = n" using assms(2) by simp
  moreover have "start + length d - length a = length d - n" using assms by simp
  ultimately show ?thesis using assms by (simp add: overlay_def)
qed

lemma take_drop_take: "take (n + k) d = take n d @ take k (drop n d)"
  by (simp add: take_add)

lemma write_loop_chain:
  assumes "volume fs ds" and "chain fs ds c (c # cs)" and "start < cluster_size fs"
  shows "\<exists>ds' w new. write_loop fs c start src written ds = Some (w = length src, written + w, ds') \<and>
     w \<le> length src \<and> grown fs ds c (c # cs) ds' new \<and>
     start + w \<le> length (chain_data fs ds (c # cs @ new)) \<and>
     chain_data fs ds' (c # cs @ new) = overlay start (take w src) (chain_data fs ds (c # cs @ new)) \<and>
     (\<forall>b. valid fs b \<longrightarrow> b \<notin> set (c # cs @ new) \<longrightarrow> cluster_data fs ds' b = cluster_data fs ds b) \<and>
     (w < length src \<longrightarrow> no_free_cluster fs ds')"
  using assms
proof (induction "length src" arbitrary: src c cs start written ds rule: less_induct)
  case less
  note v = less.prems(1) and ch = less.prems(2) and st = less.prems(3)
  have c: "valid fs c" using ch by simp
  note rc = read_content [OF v c]
  show ?case
  proof (cases "src = []")
    case True
    have "write_loop fs c start src written ds = Some (True, written, ds)" using True by (subst write_loop.simps) simp
    then show ?thesis
      using True grown_refl [OF v ch] st rc(2)
      by (intro exI [of _ ds] exI [of _ 0] exI [of _ "[]"]) (simp add: overlay_def)
  next
    case False
    define n where "n = min (cluster_size fs - start) (length src)"
    have n: "0 < n" "start + n \<le> cluster_size fs" "n \<le> length src" using st False by (auto simp: n_def)
    define buf where "buf = overlay start (take n src) (cluster_data fs ds c)"
    have len: "length buf = cluster_size fs" using n rc(2) by (simp add: buf_def length_overlay)
    have buf: "take start (cluster_data fs ds c) @ take n src @ drop (start + n) (cluster_data fs ds c) = buf"
      using n(3) by (simp add: buf_def overlay_def)
    define ds1 where "ds1 = snd (fat32_write_cluster fs c buf ds)"
    note w = write_cluster [OF v c len, folded ds1_def]
    have wr: "fat32_write_cluster fs c buf ds = (int (cluster_size fs), ds1)"
      using w(1) by (simp add: ds1_def prod_eq_iff)
    have ch1: "chain fs ds1 c (c # cs)" using ch fat_chain_cong [of "c # cs" fs ds1 ds c] w(4) chain_valid [OF ch] by blast
    have body: "write_loop fs c start src written ds =
        (if drop n src = [] then Some (True, written + n, ds1)
         else let (nxt, ds2) = extend_chain fs c ds1
              in if nxt = 0 then Some (False, written + n, ds2)
                 else write_loop fs nxt 0 (drop n src) (written + n) ds2)"
      using False rc(1) wr buf by (subst write_loop.simps) (simp add: Let_def n_def [symmetric])
    have here: "grown fs ds c (c # cs) ds1 []"
      using w ch1 by (simp add: grown_def del: chain.simps)
    have data1: "chain_data fs ds1 (c # cs) = overlay start (take n src) (chain_data fs ds (c # cs))"
    proof -
      have "c \<notin> set cs" using chain_distinct [OF ch] by simp
      then have "map (cluster_data fs ds1) cs = map (cluster_data fs ds) cs"
        using w(3) chain_valid [OF ch] by auto
      then have "chain_data fs ds1 cs = chain_data fs ds cs" by (simp only: chain_data_def)
      then show ?thesis using w(3) [OF c] n rc(2) by (simp add: buf_def overlay_append)
    qed
    show ?thesis
    proof (cases "drop n src = []")
      case True
      then have "n = length src" using n(3) by simp
      then show ?thesis
        using body True here data1 w(3) n rc(2)
        by (intro exI [of _ ds1] exI [of _ n] exI [of _ "[]"]) auto
    next
      case rest: False
      then have full: "start + n = cluster_size fs" "n < length src" using n by (auto simp: n_def min_def split: if_splits)
      show ?thesis
      proof (rule extend_chain_step [OF w(2) ch1])
        assume e: "cs = []" "extend_chain fs c ds1 = (0, ds1)" "no_free_cluster fs ds1"
        then show ?thesis
          using body rest here data1 w(3) n rc(2) full(2)
          by (intro exI [of _ ds1] exI [of _ n] exI [of _ "[]"]) auto
      next
        fix m cs2 ds2 added
        assume e: "extend_chain fs c ds1 = (m, ds2)" "m \<noteq> 0" "volume fs ds2" "chain fs ds2 c (c # m # cs2)"
          "m # cs2 = cs @ added" "\<And>b. b \<in> set added \<Longrightarrow> valid fs b \<and> fat_get fs ds1 b = 0"
          "\<And>b. valid fs b \<Longrightarrow> b \<notin> set (c # added) \<Longrightarrow> fat_get fs ds2 b = fat_get fs ds1 b"
          "\<And>b. valid fs b \<Longrightarrow> cluster_data fs ds2 b = cluster_data fs ds1 b"
        have chm: "chain fs ds2 m (m # cs2)" using e(4) by auto
        have lt: "length (drop n src) < length src" using n(1) full(2) by simp
        from less.hyps [OF lt e(3) chm cluster_size_pos [OF v]] obtain ds' w' new where r:
          "write_loop fs m 0 (drop n src) (written + n) ds2 = Some (w' = length (drop n src), written + n + w', ds')"
          "w' \<le> length (drop n src)" "grown fs ds2 m (m # cs2) ds' new" "0 + w' \<le> length (chain_data fs ds2 (m # cs2 @ new))"
          "chain_data fs ds' (m # cs2 @ new) = overlay 0 (take w' (drop n src)) (chain_data fs ds2 (m # cs2 @ new))"
          "\<And>b. valid fs b \<Longrightarrow> b \<notin> set (m # cs2 @ new) \<Longrightarrow> cluster_data fs ds' b = cluster_data fs ds2 b"
          "w' < length (drop n src) \<longrightarrow> no_free_cluster fs ds'"
          by blast
        note gs = grown_step [OF ch1 e(4-7) r(3)]
        have fresh: "\<forall>b. valid fs b \<longrightarrow> fat_get fs ds1 b = fat_get fs ds b" using w(4) by simp
        have l: "c # cs @ added @ new = c # m # cs2 @ new" using e(5) by simp
        have G: "grown fs ds c (c # cs) ds' (added @ new)"
          using gs(1) fresh by (auto simp: grown_def)
        have val: "\<forall>b \<in> set (m # cs2 @ new). valid fs b"
          using G chain_valid [of fs ds' c "c # m # cs2 @ new"] unfolding grown_def by (metis append_Cons append_assoc l list.set_intros(2))
        have same: "chain_data fs ds2 (m # cs2 @ new) = chain_data fs ds (m # cs2 @ new)"
        proof -
          have "cluster_data fs ds2 b = cluster_data fs ds b" if "b \<in> set (m # cs2 @ new)" for b
            using that val e(8) [of b] w(3) [of b] gs(2) by auto
          then show ?thesis unfolding chain_data_def by (metis map_cong)
        qed
        have dc: "cluster_data fs ds' c = buf" using r(6) [OF c gs(2)] e(8) [OF c] w(3) [OF c] by simp
        have total: "take (n + w') src = take n src @ take w' (drop n src)" by (rule take_drop_take)
        have "chain_data fs ds' (c # m # cs2 @ new) = overlay start (take (n + w') src) (chain_data fs ds (c # m # cs2 @ new))"
          using overlay_append2 [of start n "cluster_data fs ds c" "take (n + w') src" "chain_data fs ds (m # cs2 @ new)"]
            full rc(2) r(2,5) same dc n(3) total
          by (simp add: buf_def min_def)
        moreover have "start + (n + w') \<le> length (chain_data fs ds (c # m # cs2 @ new))"
          using r(4) arg_cong [OF same, of length] rc(2) full(1) by simp
        moreover have "cluster_data fs ds' b = cluster_data fs ds b" if "valid fs b" "b \<notin> set (c # m # cs2 @ new)" for b
          using r(6) [of b] e(8) [of b] w(3) [of b] that by simp
        moreover have "write_loop fs c start src written ds = Some (n + w' = length src, written + (n + w'), ds')"
          using body rest e(1,2) r(1,2) full(2) by auto
        ultimately show ?thesis
          using r(2,7) G full(2) unfolding l [symmetric]
          by (intro exI [of _ ds'] exI [of _ "n + w'"] exI [of _ "added @ new"]) auto
      qed
    qed
  qed
qed


lemma overlay_nothing [simp]: "overlay off [] d = d"
  by (simp add: overlay_def)

lemma overlay_take_drop:
  assumes "start + length d \<le> length b"
  shows "take n a = a \<Longrightarrow> length a = n \<Longrightarrow> overlay (n + start) d (a @ b) = a @ overlay start d b"
  by (simp add: overlay_def add.commute)

lemma sint_of_nat:
  assumes "n < 2 ^ 31"
  shows "sint (of_nat n :: u32) = int n"
proof -
  have u: "unat (of_nat n :: u32) = n" using assms by (simp add: unat_of_nat)
  then have "(of_nat n :: u32) < 0x80000000" using assms by (simp add: word_less_nat_alt)
  then have "sint (of_nat n :: u32) = uint (of_nat n :: u32)" by (rule sint_small)
  then show ?thesis using u by (metis uint_nat)
qed

text \<open>Chains that share no cluster with one that has grown are unchanged, and so is what they hold.\<close>

lemma other_chain:
  assumes "\<And>b. valid fs b \<Longrightarrow> b \<notin> set (cs @ new) \<Longrightarrow> fat_get fs ds' b = fat_get fs ds b \<and> cluster_data fs ds' b = cluster_data fs ds b"
    and "\<forall>b \<in> set new. fat_get fs ds b = 0" and "chain fs ds a cs2" and "set cs2 \<inter> set cs = {}"
  shows "chain fs ds' a cs2 \<and> chain_data fs ds' cs2 = chain_data fs ds cs2"
proof -
  have same: "fat_get fs ds' b = fat_get fs ds b \<and> cluster_data fs ds' b = cluster_data fs ds b" if "b \<in> set cs2" for b
    using assms(1) [of b] assms(2,4) chain_valid [OF assms(3) that] that by auto
  then have "chain_data fs ds' cs2 = chain_data fs ds cs2" unfolding chain_data_def by (metis map_cong)
  then show ?thesis using assms(3) fat_chain_cong [of cs2 fs ds' ds a] same by simp
qed

lemma grown_chain: "grown fs ds c cs ds' new \<Longrightarrow> chain fs ds' c (cs @ new)"
  by (simp add: grown_def)

lemma drop_overlay:
  assumes "k * n \<le> off" and "length xs = m * n" and "k \<le> (m :: nat)" and "off - k * n + length d \<le> length xs - k * n"
  shows "take (k * n) xs @ overlay (off - k * n) d (drop (k * n) xs) = overlay off d xs"
  using assms take_add [of "k * n" "off - k * n" xs] by (simp add: overlay_def min_def add.commute)

text \<open>Two steps of growth in a row.\<close>

lemma grown_trans:
  assumes "grown fs ds c cs ds1 new1" and "grown fs ds1 c (cs @ new1) ds2 new2"
  shows "grown fs ds c cs ds2 (new1 @ new2)"
proof -
  have "fat_get fs ds b = 0" if b: "b \<in> set new2" for b
  proof -
    have n: "valid fs b" "fat_get fs ds1 b = 0" using assms(2) b by (auto simp: grown_def)
    have "b \<notin> set (cs @ new1)" using chain_valid [OF grown_chain [OF assms(1)], of b] n(2) by auto
    then show ?thesis using assms(1) n by (simp add: grown_def)
  qed
  then show ?thesis using assms unfolding grown_def by auto
qed

text \<open>Growing a part of a chain grows the whole.\<close>

lemma grown_suffix:
  assumes "chain fs ds c (pre @ cs)" and "grown fs ds r cs ds' new" and "cs \<noteq> []"
  shows "grown fs ds c (pre @ cs) ds' new" and "b \<in> set pre \<Longrightarrow> b \<notin> set (cs @ new)"
proof -
  have disj: "b \<notin> set (cs @ new)" if b: "b \<in> set pre" for b
  proof -
    have "b \<notin> set cs" using chain_distinct [OF assms(1)] b by auto
    moreover have "fat_get fs ds b \<noteq> 0" using chain_valid [OF assms(1), of b] b by simp
    then have "b \<notin> set new" using assms(2) by (auto simp: grown_def)
    ultimately show ?thesis by simp
  qed
  show "b \<in> set pre \<Longrightarrow> b \<notin> set (cs @ new)" by (rule disj)
  have same: "fat_get fs ds' b = fat_get fs ds b" if "b \<in> set pre" for b
    using assms(2) disj [OF that] chain_valid [OF assms(1), of b] that by (simp add: grown_def)
  have "chain fs ds' c (pre @ cs @ new)"
    using assms(1) same
  proof (induction pre arbitrary: c)
    case Nil
    obtain d cs' where d: "cs = d # cs'" using assms(3) by (cases cs) auto
    have "c = d" using Nil(1) d by auto
    moreover have "r = d" using grown_chain [OF assms(2)] d by auto
    ultimately show ?case using grown_chain [OF assms(2)] by simp
  qed auto
  then show "grown fs ds c (pre @ cs) ds' new" using assms(2) unfolding grown_def by auto
qed


lemma write_file_chain:
  assumes v: "volume fs ds" and ch: "chain fs ds start cs" and ne: "start \<noteq> 0" and src: "src \<noteq> []"
  shows "\<exists>ds' w new. fat32_write_file fs start fsz off src True ds =
        Some (sint (of_nat w :: u32), start, if w = length src \<and> off + of_nat w > fsz then off + of_nat w else fsz, ds') \<and>
     w \<le> length src \<and> grown fs ds start cs ds' new \<and> (0 < w \<longrightarrow> unat off + w \<le> length (chain_data fs ds (cs @ new))) \<and>
     chain_data fs ds' (cs @ new) = overlay (unat off) (take w src) (chain_data fs ds (cs @ new)) \<and>
     (\<forall>b. valid fs b \<longrightarrow> b \<notin> set (cs @ new) \<longrightarrow> cluster_data fs ds' b = cluster_data fs ds b) \<and>
     (w < length src \<longrightarrow> no_free_cluster fs ds')"
proof -
  obtain cs' where cs: "cs = start # cs'" using chain_hd [OF ch ne] by blast
  let ?n = "unat off div cluster_size fs" and ?o = "unat off mod cluster_size fs"
  have csz: "0 < cluster_size fs" by (rule cluster_size_pos [OF v])
  have "\<exists>r ds2 new1. seek_extend fs ?n start ds = (r, ds2) \<and> grown fs ds start cs ds2 new1 \<and>
      (\<forall>b. valid fs b \<longrightarrow> cluster_data fs ds2 b = cluster_data fs ds b) \<and>
      (if r = 0 then no_free_cluster fs ds2 else ?n < length (cs @ new1) \<and> chain fs ds2 r (drop ?n (cs @ new1)))"
    using seek_extend_chain [OF v ch [unfolded cs], of ?n] unfolding cs append_Cons .
  then obtain r ds2 new1 where s:
    "seek_extend fs ?n start ds = (r, ds2)" "grown fs ds start cs ds2 new1"
    "\<forall>b. valid fs b \<longrightarrow> cluster_data fs ds2 b = cluster_data fs ds b"
    "if r = 0 then no_free_cluster fs ds2 else ?n < length (cs @ new1) \<and> chain fs ds2 r (drop ?n (cs @ new1))"
    by blast
  note ch2 = grown_chain [OF s(2)]
  have v2: "volume fs ds2" using s(2) by (simp add: grown_def)
  have val: "\<forall>b \<in> set (cs @ new1). valid fs b" using chain_valid [OF ch2] by blast
  have same: "chain_data fs ds2 bs = chain_data fs ds bs" if "\<forall>b \<in> set bs. valid fs b" for bs
    using that s(3) unfolding chain_data_def by (metis map_cong)
  show ?thesis
  proof (cases "r = 0")
    case True
    then have "fat32_write_file fs start fsz off src True ds = Some (0, start, fsz, ds2)"
      using ne src csz s(1) by (simp add: fat32_write_file_def)
    then show ?thesis
      using True s same [OF val] src by (intro exI [of _ ds2] exI [of _ 0] exI [of _ new1]) simp
  next
    case False
    define pre suf where "pre = take ?n (cs @ new1)" and "suf = drop ?n (cs @ new1)"
    have all: "cs @ new1 = pre @ suf" unfolding pre_def suf_def by (simp only: append_take_drop_id)
    have n: "?n < length (cs @ new1)" "chain fs ds2 r suf" using s(4) False by (auto simp: suf_def)
    have suf: "suf \<noteq> []" "length pre = ?n"
      using n(1) unfolding suf_def pre_def drop_eq_Nil length_take by simp_all
    obtain t where t: "suf = r # t" using chain_hd [OF n(2) False] by blast
    have os: "?o < cluster_size fs" using csz by simp
    from write_loop_chain [OF v2 n(2) [unfolded t] os, of src 0] obtain ds3 w new2 where w:
      "write_loop fs r ?o src 0 ds2 = Some (w = length src, w, ds3)" "w \<le> length src" "grown fs ds2 r suf ds3 new2"
      "?o + w \<le> length (chain_data fs ds2 (suf @ new2))"
      "chain_data fs ds3 (suf @ new2) = overlay ?o (take w src) (chain_data fs ds2 (suf @ new2))"
      "\<forall>b. valid fs b \<longrightarrow> b \<notin> set (suf @ new2) \<longrightarrow> cluster_data fs ds3 b = cluster_data fs ds2 b"
      "w < length src \<longrightarrow> no_free_cluster fs ds3"
      unfolding t by auto
    note sfx = grown_suffix [OF ch2 [unfolded all] w(3) suf(1)]
    have G: "grown fs ds start cs ds3 (new1 @ new2)"
      by (rule grown_trans [OF s(2)]) (use sfx(1) in \<open>simp add: all\<close>)
    have val': "\<forall>b \<in> set (pre @ suf @ new2). valid fs b"
      using chain_valid [OF grown_chain [OF sfx(1)]] by auto
    have predata: "chain_data fs ds3 pre = chain_data fs ds2 pre"
    proof -
      have "cluster_data fs ds3 b = cluster_data fs ds2 b" if "b \<in> set pre" for b
        using w(6) sfx(2) [OF that] val' that by simp
      then show ?thesis unfolding chain_data_def by (metis map_cong)
    qed
    have lpre: "length (chain_data fs ds2 pre) = ?n * cluster_size fs"
      using length_chain_data [OF v2, of pre] val' suf(2) by simp
    have split: "unat off = ?n * cluster_size fs + ?o" by simp
    have comb: "overlay (p + x) d (a @ b) = a @ overlay x d b" if "length a = p" for p x d and a b :: "u8 list"
      using that by (simp add: overlay_def add.commute)
    have data: "chain_data fs ds3 (pre @ suf @ new2) = overlay (unat off) (take w src) (chain_data fs ds2 (pre @ suf @ new2))"
      unfolding chain_data_simps(3) [of fs ds3 pre] chain_data_simps(3) [of fs ds2 pre] predata w(5)
      by (subst split) (rule comb [OF lpre, symmetric])
    have final: "cs @ new1 @ new2 = pre @ suf @ new2" using all by simp
    have "fat32_write_file fs start fsz off src True ds =
        Some (sint (of_nat w :: u32), start, if w = length src \<and> off + of_nat w > fsz then off + of_nat w else fsz, ds3)"
      using ne src csz s(1) False w(1) by (simp add: fat32_write_file_def)
    moreover have "unat off + w \<le> length (chain_data fs ds (cs @ new1 @ new2))"
    proof -
      have "length (chain_data fs ds (pre @ suf @ new2)) = ?n * cluster_size fs + length (chain_data fs ds2 (suf @ new2))"
        using arg_cong [OF same [OF val'], of length] lpre by simp
      then show ?thesis using w(4) split unfolding final by linarith
    qed
    moreover have "cluster_data fs ds3 b = cluster_data fs ds b" if "valid fs b" "b \<notin> set (cs @ new1 @ new2)" for b
      using w(6) s(3) that unfolding final by simp
    ultimately show ?thesis
      using w(2,7) G data same [OF val'] unfolding final [symmetric]
      by (intro exI [of _ ds3] exI [of _ w] exI [of _ "new1 @ new2"]) simp
  qed
qed


lemma write_file_start:
  assumes "fat32_alloc_cluster fs ds = (n, ds1)" and "n \<noteq> 0" and "src \<noteq> []"
  shows "fat32_write_file fs 0 fsz off src True ds = fat32_write_file fs n fsz off src True ds1"
  using assms by (simp add: fat32_write_file_def)

lemma take_drop_overlay: "start \<le> length a \<Longrightarrow> take (length d) (drop start (overlay start d a)) = d"
  by (simp add: overlay_def)

end
