(* ===== verification/Fat_Files.thy ===== *)
theory Fat_Files
  imports Fat_Props
begin

text \<open>
  Files on a FAT32 volume: a write and the read of what was written, the freeing of a file, and the
  small volume that the concrete instances use.
\<close>

section \<open>Freeing a chain\<close>

lemma free_loop_chain:
  "volume fs ds \<Longrightarrow> chain fs ds c cs \<Longrightarrow>
     \<exists>ds'. free_loop fs c ds = Some ds' \<and> volume fs ds' \<and>
       (\<forall>b. valid fs b \<longrightarrow> fat_get fs ds' b = (if b \<in> set cs then 0 else fat_get fs ds b) \<and>
          cluster_data fs ds' b = cluster_data fs ds b)"
proof (induction cs arbitrary: c ds)
  case Nil
  then show ?case by (subst free_loop.simps) simp
next
  case (Cons d cs)
  note c = chain_next [OF Cons.prems]
  let ?ds1 = "snd (fat32_set_cluster fs c 0 ds)"
  note s = set_cluster [OF Cons.prems(1) c(2), where x = 0]
  have "c \<notin> set cs" using chain_distinct [OF Cons.prems(2)] c(3) by simp
  then have "chain fs ?ds1 (fat32_next_cluster fs c ds) cs"
    using c(1) fat_chain_cong [of cs fs ?ds1 ds] s(4) chain_valid [OF c(1)] by metis
  from Cons.IH [OF s(2) this] obtain ds' where f: "free_loop fs (fat32_next_cluster fs c ds) ?ds1 = Some ds'" "volume fs ds'"
    "\<forall>b. valid fs b \<longrightarrow> fat_get fs ds' b = (if b \<in> set cs then 0 else fat_get fs ?ds1 b) \<and>
       cluster_data fs ds' b = cluster_data fs ?ds1 b" by blast
  have "c \<ge> 2 \<and> c < FAT32_CLUSTER_END"
    using valid_not_small [OF c(2)] valid_below_end [OF volumeD(1) [OF Cons.prems(1)] c(2)] by simp
  then have "free_loop fs c ds = Some ds'" using f(1) by (subst free_loop.simps) simp
  then show ?case using f(2,3) s(3,4) c(3) by auto
qed

text \<open>A table whose entries stay within the volume; chains may be circular.\<close>

definition in_range :: "fat32_fs \<Rightarrow> u32 \<Rightarrow> bool" where
  "in_range fs c \<longleftrightarrow> c < 2 \<or> valid fs c \<or> c \<ge> FAT32_CLUSTER_END"

definition closed_table :: "fat32_fs \<Rightarrow> disks \<Rightarrow> bool" where
  "closed_table fs ds \<longleftrightarrow> (\<forall>c. valid fs c \<longrightarrow> in_range fs (fat_get fs ds c))"

lemma free_loop_returns:
  "volume fs ds \<Longrightarrow> closed_table fs ds \<Longrightarrow> in_range fs c \<Longrightarrow>
     \<exists>ds'. free_loop fs c ds = Some ds' \<and> volume fs ds' \<and> (valid fs c \<longrightarrow> fat_get fs ds' c = 0) \<and>
       (\<forall>b. valid fs b \<longrightarrow> (fat_get fs ds' b = fat_get fs ds b \<or> fat_get fs ds' b = 0) \<and> cluster_data fs ds' b = cluster_data fs ds b)"
proof (induction "card {b. valid fs b \<and> fat_get fs ds b \<noteq> 0}" arbitrary: c ds rule: less_induct)
  case less
  show ?case
  proof (cases "valid fs c")
    case False
    then have "\<not> (c \<ge> 2 \<and> c < FAT32_CLUSTER_END)" using less.prems(3) by (auto simp: in_range_def)
    then have "free_loop fs c ds = Some ds" by (subst free_loop.simps) auto
    then show ?thesis using less.prems(1) False by simp
  next
    case True
    let ?ds1 = "snd (fat32_set_cluster fs c 0 ds)" and ?n = "fat32_next_cluster fs c ds"
    note s = set_cluster [OF less.prems(1) True, where x = 0]
    note n = next_cluster [OF less.prems(1) True]
    have "c \<ge> 2 \<and> c < FAT32_CLUSTER_END"
      using valid_not_small [OF True] valid_below_end [OF volumeD(1) [OF less.prems(1)] True] by simp
    then have step: "free_loop fs c ds = free_loop fs ?n ?ds1" by (subst free_loop.simps) simp
    show ?thesis
    proof (cases "fat_get fs ds c = 0")
      case z: True
      then have "?n = 0" using n by simp
      then have "free_loop fs ?n ?ds1 = Some ?ds1" by (subst free_loop.simps) simp
      then show ?thesis using step s True by auto
    next
      case nz: False
      have "{b. valid fs b \<and> fat_get fs ?ds1 b \<noteq> 0} = {b. valid fs b \<and> fat_get fs ds b \<noteq> 0} - {c}"
        using s(4) by (auto split: if_splits)
      then have lt: "card {b. valid fs b \<and> fat_get fs ?ds1 b \<noteq> 0} < card {b. valid fs b \<and> fat_get fs ds b \<noteq> 0}"
        using True nz by (simp only:) (rule card_Diff1_less, simp_all)
      have cl: "closed_table fs ?ds1"
        using less.prems(2) s(4) by (auto simp: closed_table_def in_range_def)
      have rg: "in_range fs ?n" using less.prems(2) True n by (auto simp: closed_table_def in_range_def)
      from less.hyps [OF lt s(2) cl rg] obtain ds' where f: "free_loop fs ?n ?ds1 = Some ds'" "volume fs ds'"
        "\<forall>b. valid fs b \<longrightarrow> (fat_get fs ds' b = fat_get fs ?ds1 b \<or> fat_get fs ds' b = 0) \<and> cluster_data fs ds' b = cluster_data fs ?ds1 b"
        by blast
      have one: "fat_get fs ?ds1 c = 0" using s(4) True by simp
      have "fat_get fs ds' c = 0" using f(3) True one by metis
      moreover have "fat_get fs ?ds1 b = fat_get fs ds b \<or> fat_get fs ?ds1 b = 0" if "valid fs b" for b
        using s(4) that by (cases "b = c") simp_all
      moreover have "fat_get fs ds' b = fat_get fs ds b \<or> fat_get fs ds' b = 0" if "valid fs b" for b
        using f(3) calculation(2) that by metis
      ultimately show ?thesis using step f s(3) by auto
    qed
  qed
qed

section \<open>A small volume\<close>

text \<open>Drive 0, one sector per cluster, four clusters; the disk holds zeros only, so every cluster is free.\<close>

definition demo_fs :: fat32_fs where
  "demo_fs = \<lparr>drive = 0, partition_lba = 0, bytes_per_sector = 512, sectors_per_cluster = 1, fat_start_lba = 1,
     fat_size = 1, data_start_lba = 2, root_cluster = 2, total_clusters = 4, volume_label = []\<rparr>"

definition demo_disks :: disks where
  "demo_disks = replicate 4 \<lparr>ad_present = True, ad_is_ata = True, ad_ready = True,
     ad_sector = \<lambda>_. replicate 512 0, ad_reads = \<lambda>_. True, ad_writes = \<lambda>_. True\<rparr>"

lemma demo_drive: "ata_get_drive 0 demo_disks = Some (demo_disks ! 0)"
  by (simp add: ata_get_drive_def demo_disks_def)

lemma demo_volume: "volume demo_fs demo_disks"
proof -
  have "geometry demo_fs" by (simp add: geometry_def demo_fs_def)
  moreover have "disks_ok demo_disks" by (simp add: disks_ok_def demo_disks_def)
  moreover have "drive demo_fs = 0" by (simp add: demo_fs_def)
  moreover have "read_sector 0 a demo_disks \<noteq> None" for a
    unfolding read_sector_alt demo_drive by (simp add: demo_disks_def)
  moreover have "fst (write_sector 0 a bs demo_disks)" if "length bs = 512" for a bs
    unfolding write_sector_alt [OF that] demo_drive by (simp add: demo_disks_def)
  ultimately show ?thesis by (simp add: volume_def)
qed

lemma demo_valid: "valid demo_fs c \<longleftrightarrow> c \<in> {2, 3, 4, 5}"
proof -
  have "2 \<le> n \<and> n < 6 \<longleftrightarrow> n \<in> {2, 3, 4, 5}" for n :: nat by auto
  then show ?thesis by (simp add: valid_def demo_fs_def word_unat_eq_iff)
qed

lemma rd32_zero: "k + 4 \<le> n \<Longrightarrow> rd32 (replicate n 0) k = 0"
  by (simp add: rd32_def)

lemma demo_free: "valid demo_fs c \<Longrightarrow> fat_get demo_fs demo_disks c = 0"
proof -
  assume c: "valid demo_fs c"
  have "drive demo_fs = 0" by (simp add: demo_fs_def)
  then have "read_sector (drive demo_fs) a demo_disks = Some (replicate 512 0)" for a
    unfolding read_sector_alt by (simp add: demo_drive) (simp add: demo_disks_def)
  moreover have "entry_offset c + 4 \<le> 512" using read_entry [OF demo_volume c] by metis
  ultimately show ?thesis by (simp add: fat_get_def rd32_zero)
qed

text \<open>The volume with some entries of its table set.\<close>

fun with_entries :: "fat32_fs \<Rightarrow> (u32 \<times> u32) list \<Rightarrow> disks \<Rightarrow> disks" where
  "with_entries fs [] ds = ds"
| "with_entries fs ((c, x) # es) ds = snd (fat32_set_cluster fs c x (with_entries fs es ds))"

lemma with_entries:
  "volume fs ds \<Longrightarrow> \<forall>(c, x) \<in> set es. valid fs c \<Longrightarrow>
     volume fs (with_entries fs es ds) \<and> (\<forall>b. valid fs b \<longrightarrow>
       fat_get fs (with_entries fs es ds) b =
         (case map_of es b of None \<Rightarrow> fat_get fs ds b | Some x \<Rightarrow> x AND 0x0FFFFFFF) \<and>
       cluster_data fs (with_entries fs es ds) b = cluster_data fs ds b)"
proof (induction fs es ds rule: with_entries.induct)
  case (2 fs c x es ds)
  then have v: "volume fs (with_entries fs es ds)" "valid fs c" by simp_all
  show ?case using 2 set_cluster [OF v, where x = x] by simp
qed simp

text \<open>A file in the clusters 3 and 5, and a circle of the clusters 3 and 4.\<close>

definition demo_file :: disks where "demo_file = with_entries demo_fs [(3, 5), (5, 0x0FFFFFFF)] demo_disks"
definition demo_circle :: disks where "demo_circle = with_entries demo_fs [(3, 4), (4, 3)] demo_disks"

lemma demo_file:
  shows "volume demo_fs demo_file" "chain demo_fs demo_file 3 [3, 5]"
    "valid demo_fs b \<Longrightarrow> fat_get demo_fs demo_file b = (if b = 3 then 5 else if b = 5 then 0x0FFFFFFF else 0)"
proof -
  have w: "volume demo_fs demo_file \<and> (\<forall>b. valid demo_fs b \<longrightarrow>
      fat_get demo_fs demo_file b = (if b = 3 then 5 else if b = 5 then 0x0FFFFFFF else 0))"
    using with_entries [OF demo_volume, of "[(3, 5), (5, 0x0FFFFFFF)]"] by (simp add: demo_file_def demo_valid demo_free)
  then show "volume demo_fs demo_file" "valid demo_fs b \<Longrightarrow> fat_get demo_fs demo_file b = (if b = 3 then 5 else if b = 5 then 0x0FFFFFFF else 0)"
    by simp_all
  show "chain demo_fs demo_file 3 [3, 5]" using w by (simp add: demo_valid word_le_nat_alt)
qed

lemma demo_circle:
  shows "volume demo_fs demo_circle" "closed_table demo_fs demo_circle"
    "fat_get demo_fs demo_circle 3 = 4" "fat_get demo_fs demo_circle 4 = 3"
proof -
  have w: "volume demo_fs demo_circle \<and> (\<forall>b. valid demo_fs b \<longrightarrow>
      fat_get demo_fs demo_circle b = (if b = 3 then 4 else if b = 4 then 3 else 0))"
    using with_entries [OF demo_volume, of "[(3, 4), (4, 3)]"] by (simp add: demo_circle_def demo_valid demo_free)
  then show "volume demo_fs demo_circle" "closed_table demo_fs demo_circle"
    "fat_get demo_fs demo_circle 3 = 4" "fat_get demo_fs demo_circle 4 = 3"
    by (auto simp: closed_table_def in_range_def demo_valid)
qed

section \<open>Writing and reading back\<close>

lemma write_file_from:
  fixes off :: u32
  assumes v: "volume fs d" and c: "chain fs d st bs" and ne: "st \<noteq> 0" and ne3: "src \<noteq> []"
    and len4: "length src < 2 ^ 31" and end5: "unat off + length src < 2 ^ 32"
  shows "\<exists>ds' w new. fat32_write_file fs st fsz off src True d =
        Some (int w, st, if w = length src then max fsz (off + of_nat w) else fsz, ds') \<and>
     w \<le> length src \<and> grown fs d st bs ds' new \<and>
     chain_data fs ds' (bs @ new) = overlay (unat off) (take w src) (chain_data fs d (bs @ new)) \<and>
     (\<forall>b. valid fs b \<longrightarrow> b \<notin> set (bs @ new) \<longrightarrow> cluster_data fs ds' b = cluster_data fs d b) \<and>
     (w < length src \<longrightarrow> no_free_cluster fs ds') \<and>
     (w = length src \<longrightarrow> fat32_read_file fs st (max fsz (off + of_nat w)) off (of_nat w) True ds' = Some (int w, src))"
proof -
  from write_file_chain [OF v c ne ne3] obtain ds' w new where w:
    "fat32_write_file fs st fsz off src True d =
      Some (sint (of_nat w :: u32), st, if w = length src \<and> off + of_nat w > fsz then off + of_nat w else fsz, ds')"
    "w \<le> length src" "grown fs d st bs ds' new" "0 < w \<longrightarrow> unat off + w \<le> length (chain_data fs d (bs @ new))"
    "chain_data fs ds' (bs @ new) = overlay (unat off) (take w src) (chain_data fs d (bs @ new))"
    "\<forall>b. valid fs b \<longrightarrow> b \<notin> set (bs @ new) \<longrightarrow> cluster_data fs ds' b = cluster_data fs d b"
    "w < length src \<longrightarrow> no_free_cluster fs ds'"
    by blast
  have i: "sint (of_nat w :: u32) = int w" using w(2) len4 by (intro sint_of_nat) simp
  have uw: "unat (of_nat w :: u32) = w" using w(2) len4 by (simp add: unat_of_nat)
  have "fat32_read_file fs st (max fsz (off + of_nat w)) off (of_nat w) True ds' = Some (int w, src)" if all: "w = length src"
  proof -
    have pos: "0 < w" using all ne3 by simp
    have e: "unat (off + of_nat w) = unat off + w" using uw all end5 by (simp add: unat_word_ariths)
    have "off < off + of_nat w" using e pos by (simp add: word_less_nat_alt)
    then have lt: "off < max fsz (off + of_nat w)" by (simp add: less_max_iff_disj)
    have nn: "\<not> off + of_nat w > max fsz (off + of_nat w)" by simp
    have "volume fs ds'" "chain fs ds' st (bs @ new)" using w(3) by (simp_all add: grown_def)
    from read_file_chain [OF this lt, of "of_nat w"]
    have "fat32_read_file fs st (max fsz (off + of_nat w)) off (of_nat w) True ds' =
        (let r = take w (drop (unat off) (chain_data fs ds' (bs @ new))) in Some (sint (of_nat (length r) :: u32), r))"
      unfolding if_not_P [OF nn] uw .
    also have "take w (drop (unat off) (chain_data fs ds' (bs @ new))) = src"
      using w(4) pos all take_drop_overlay [of "unat off" "chain_data fs d (bs @ new)" src] unfolding w(5) by simp
    finally show ?thesis using i all by simp
  qed
  then show ?thesis
    using w i by (intro exI [of _ ds'] exI [of _ w] exI [of _ new]) (auto simp: max_def)
qed

lemma write_file_spec:
  assumes "volume fs ds" and "chain fs ds start cs" and "src \<noteq> []" and "length src < 2 ^ 31" and "unat off + length src < 2 ^ 32"
  shows "case fat32_write_file fs start fsz off src True ds of
      None \<Rightarrow> False
    | Some (r, start', fsz', ds') \<Rightarrow> \<exists>new w.
        (r = int w \<or> r = -1 \<and> w = 0 \<and> start' = 0) \<and> w \<le> length src \<and> (w < length src \<longrightarrow> no_free_cluster fs ds') \<and>
        volume fs ds' \<and> chain fs ds' start' (cs @ new) \<and> (\<forall>b \<in> set new. valid fs b \<and> fat_get fs ds b = 0) \<and>
        chain_data fs ds' (cs @ new) = overlay (unat off) (take w src) (chain_data fs ds (cs @ new)) \<and>
        (\<forall>a cs2. chain fs ds a cs2 \<longrightarrow> set cs2 \<inter> set cs = {} \<longrightarrow>
           chain fs ds' a cs2 \<and> chain_data fs ds' cs2 = chain_data fs ds cs2) \<and>
        (w = length src \<longrightarrow> fsz' = max fsz (off + of_nat w) \<and>
           fat32_read_file fs start' fsz' off (of_nat w) True ds' = Some (int w, src))"
proof -
  note main = write_file_from [OF _ _ _ assms(3-5)]
  show ?thesis
  proof (cases "start = 0")
    case False
    from main [OF assms(1,2) False] obtain ds' w new where w:
      "fat32_write_file fs start fsz off src True ds = Some (int w, start, if w = length src then max fsz (off + of_nat w) else fsz, ds')"
      "w \<le> length src" "grown fs ds start cs ds' new"
      "chain_data fs ds' (cs @ new) = overlay (unat off) (take w src) (chain_data fs ds (cs @ new))"
      "\<forall>b. valid fs b \<longrightarrow> b \<notin> set (cs @ new) \<longrightarrow> cluster_data fs ds' b = cluster_data fs ds b"
      "w < length src \<longrightarrow> no_free_cluster fs ds'"
      "w = length src \<longrightarrow> fat32_read_file fs start (max fsz (off + of_nat w)) off (of_nat w) True ds' = Some (int w, src)"
      by blast
    have others: "\<forall>a cs2. chain fs ds a cs2 \<longrightarrow> set cs2 \<inter> set cs = {} \<longrightarrow>
        chain fs ds' a cs2 \<and> chain_data fs ds' cs2 = chain_data fs ds cs2"
      using other_chain [of fs cs new ds' ds] w(3,5) by (simp add: grown_def)
    show ?thesis
      unfolding w(1) option.case prod.case using w(2-7) others
      by (intro exI [of _ new] exI [of _ w]) (auto simp: grown_def)
  next
    case True
    then have cs: "cs = []" using assms(2) valid_nonzero by (cases cs) auto
    show ?thesis
    proof (rule alloc_cluster [OF assms(1)])
      assume a: "fat32_alloc_cluster fs ds = (0, ds)" "\<And>c. valid fs c \<Longrightarrow> fat_get fs ds c \<noteq> 0"
      then have "fat32_write_file fs start fsz off src True ds = Some (-1, 0, fsz, ds)"
        using True assms(3) by (simp add: fat32_write_file_def)
      then show ?thesis using a(2) cs assms(1,3) by (auto intro!: exI [of _ "[]"])
    next
      fix n ds1
      assume a: "fat32_alloc_cluster fs ds = (n, ds1)" "lowest_free_cluster fs ds n" "volume fs ds1"
        "\<And>b. valid fs b \<Longrightarrow> fat_get fs ds1 b = (if b = n then 0x0FFFFFFF else fat_get fs ds b)"
        "\<And>b. valid fs b \<Longrightarrow> cluster_data fs ds1 b = cluster_data fs ds b"
      have n: "valid fs n" "fat_get fs ds n = 0" "n \<noteq> 0" using a(2) valid_nonzero by (auto simp: lowest_free_cluster_def)
      have ch1: "chain fs ds1 n [n]" using n a(4) [OF n(1)] by simp
      from main [OF a(3) ch1 n(3)] obtain ds' w new where w:
        "fat32_write_file fs n fsz off src True ds1 = Some (int w, n, if w = length src then max fsz (off + of_nat w) else fsz, ds')"
        "w \<le> length src" "grown fs ds1 n [n] ds' new"
        "chain_data fs ds' ([n] @ new) = overlay (unat off) (take w src) (chain_data fs ds1 ([n] @ new))"
        "\<forall>b. valid fs b \<longrightarrow> b \<notin> set ([n] @ new) \<longrightarrow> cluster_data fs ds' b = cluster_data fs ds1 b"
        "w < length src \<longrightarrow> no_free_cluster fs ds'"
        "w = length src \<longrightarrow> fat32_read_file fs n (max fsz (off + of_nat w)) off (of_nat w) True ds' = Some (int w, src)"
        by blast
      have fresh: "\<forall>b \<in> set (n # new). valid fs b \<and> fat_get fs ds b = 0"
        using w(3) n a(4) by (auto simp: grown_def split: if_splits)
      have eq: "chain_data fs ds1 ([n] @ new) = chain_data fs ds ([n] @ new)"
        using fresh a(5) unfolding chain_data_def by (metis append_Cons append_Nil map_cong)
      have frame: "fat_get fs ds' b = fat_get fs ds b \<and> cluster_data fs ds' b = cluster_data fs ds b"
        if "valid fs b" "b \<notin> set (cs @ n # new)" for b
        using w(3,5) a(4,5) that by (auto simp: grown_def cs)
      have others: "\<forall>a cs2. chain fs ds a cs2 \<longrightarrow> set cs2 \<inter> set cs = {} \<longrightarrow>
          chain fs ds' a cs2 \<and> chain_data fs ds' cs2 = chain_data fs ds cs2"
        using other_chain [of fs cs "n # new" ds' ds] frame fresh by blast
      have f: "fat32_write_file fs start fsz off src True ds = Some (int w, n, if w = length src then max fsz (off + of_nat w) else fsz, ds')"
        using write_file_start [OF a(1) n(3) assms(3)] w(1) True by simp
      show ?thesis
        unfolding f option.case prod.case using w(2,4,6,7) others fresh eq grown_chain [OF w(3)] cs w(3) [unfolded grown_def, THEN conjunct1]
        by (intro exI [of _ "n # new"] exI [of _ w]) (simp del: chain.simps chain_data_simps)
    qed
  qed
qed

text \<open>
  C26. Files on a FAT32 volume hold what was written. Writing to a file whose chain of clusters is sound
  always returns; it writes a prefix of the data over the bytes at the offset and leaves all other bytes
  of the file's clusters as they were. The chain grows at its end, by clusters that were free; no cluster
  of another file changes. Unless no free cluster is left, all data are written, the size of the file is
  at least the end of the write, and reading at the offset returns the data.
\<close>

theorem fat_write_read:
  assumes "volume fs ds" and "chain fs ds start cs" and "src \<noteq> []" and "length src < 2 ^ 31" and "unat off + length src < 2 ^ 32"
  shows "case fat32_write_file fs start fsz off src True ds of
      None \<Rightarrow> False
    | Some (r, start', fsz', ds') \<Rightarrow> \<exists>new w.
        (r = int w \<or> r = -1 \<and> w = 0 \<and> start' = 0) \<and> w \<le> length src \<and> (w < length src \<longrightarrow> no_free_cluster fs ds') \<and>
        volume fs ds' \<and> chain fs ds' start' (cs @ new) \<and> (\<forall>b \<in> set new. valid fs b \<and> fat_get fs ds b = 0) \<and>
        chain_data fs ds' (cs @ new) = overlay (unat off) (take w src) (chain_data fs ds (cs @ new)) \<and>
        (\<forall>a cs2. chain fs ds a cs2 \<longrightarrow> set cs2 \<inter> set cs = {} \<longrightarrow>
           chain fs ds' a cs2 \<and> chain_data fs ds' cs2 = chain_data fs ds cs2) \<and>
        (w = length src \<longrightarrow> fsz' = max fsz (off + of_nat w) \<and>
           fat32_read_file fs start' fsz' off (of_nat w) True ds' = Some (int w, src))"
  by (rule write_file_spec [OF assms])

theorem fat_write_read_witness:
  "case fat32_write_file demo_fs 3 10 8 [7, 7, 7] True demo_file of
      None \<Rightarrow> False
    | Some (r, start', fsz', ds') \<Rightarrow> \<exists>w. (r = int w \<or> r = -1 \<and> w = 0 \<and> start' = 0) \<and>
        (w = 3 \<longrightarrow> fsz' = 11 \<and> fat32_read_file demo_fs start' fsz' 8 3 True ds' = Some (3, [7, 7, 7]))"
  using fat_write_read [OF demo_file(1) demo_file(2), of "[7, 7, 7]" 8 10]
  by (auto split: option.splits)

text \<open>
  C27. Freeing a file always ends. On every table whose entries stay within the volume, chains that run
  in a circle included, freeing the chain of a cluster returns 0: the cluster is free, every other entry
  is as before or free, and no data have changed. If the chain is sound, exactly its clusters are free.
\<close>

theorem fat_free_chain:
  assumes "volume fs ds" and "closed_table fs ds" and "valid fs c"
  shows "\<exists>ds'. fat32_free_cluster_chain fs c ds = Some (0, ds') \<and> volume fs ds' \<and> fat_get fs ds' c = 0 \<and>
     (\<forall>b. valid fs b \<longrightarrow> fat_get fs ds' b \<in> {0, fat_get fs ds b} \<and> cluster_data fs ds' b = cluster_data fs ds b) \<and>
     (\<forall>cs. chain fs ds c cs \<longrightarrow> (\<forall>b. valid fs b \<longrightarrow> fat_get fs ds' b = (if b \<in> set cs then 0 else fat_get fs ds b)))"
proof -
  have "in_range fs c" using assms(3) by (simp add: in_range_def)
  from free_loop_returns [OF assms(1,2) this] obtain ds' where f: "free_loop fs c ds = Some ds'" "volume fs ds'" "fat_get fs ds' c = 0"
    "\<forall>b. valid fs b \<longrightarrow> (fat_get fs ds' b = fat_get fs ds b \<or> fat_get fs ds' b = 0) \<and> cluster_data fs ds' b = cluster_data fs ds b"
    using assms(3) by blast
  moreover have "\<forall>b. valid fs b \<longrightarrow> fat_get fs ds' b = (if b \<in> set cs then 0 else fat_get fs ds b)" if "chain fs ds c cs" for cs
    using free_loop_chain [OF assms(1) that] f(1) by auto
  ultimately show ?thesis by (intro exI [of _ ds']) (auto simp: fat32_free_cluster_chain_def)
qed

theorem fat_free_chain_witness:
  "\<exists>ds'. fat32_free_cluster_chain demo_fs 3 demo_circle = Some (0, ds') \<and> fat_get demo_fs ds' 3 = 0"
  using fat_free_chain [OF demo_circle(1,2), of 3] by (auto simp: demo_valid)

end
