(* ===== verification/Fat_Dir.thy ===== *)
theory Fat_Dir
  imports Fat_Files
begin

text \<open>
  Directories of a FAT32 volume. A directory is the sequence of the entries of its clusters; what the
  code sees of it are the live entries, those before the end marker. Listing and finding are functions of
  this sequence, creating, resizing and removing an entry are updates of it.
\<close>

section \<open>Names\<close>

lemma upc_idem [simp]: "upc (upc c) = upc c"
proof -
  have "\<not> (97 \<le> c - 32 \<and> c - 32 \<le> 122)" if "97 \<le> c" "c \<le> 122"
  proof -
    have "unat (c - 32) = unat c - 32" using that by (simp add: unat_sub word_le_nat_alt)
    then show ?thesis using that by (simp add: word_le_nat_alt)
  qed
  then show ?thesis by (auto simp: upc_def)
qed

lemma upc_upc [simp]: "upc \<circ> upc = upc"
  by (rule ext) simp

lemma upc_fixed: "c < 97 \<Longrightarrow> upc c = c"
  by (auto simp: upc_def)

lemma upc_small: "upc c = k \<Longrightarrow> k < 65 \<Longrightarrow> c = k"
proof -
  assume k: "upc c = k" "k < 65"
  have False if c: "97 \<le> c" "c \<le> 122"
  proof -
    have "unat (c - 32) = unat c - 32" using c by (simp add: unat_sub word_le_nat_alt)
    then show False using c k by (simp add: upc_def word_le_nat_alt word_less_nat_alt)
  qed
  then show "c = k" using k by (auto simp: upc_def split: if_splits)
qed

lemma upc_ne: "c \<noteq> k \<Longrightarrow> k < 65 \<Longrightarrow> upc c \<noteq> k"
  using upc_small by blast

lemma same_chars_eq: "same_chars p e \<longleftrightarrow> map upc p = map upc e"
  by (induction p e rule: same_chars.induct) auto

text \<open>A name that has an 8.3 form: a base of 1 to 8 characters and, after a dot, an extension of at most 3.\<close>

definition plain_char :: "u8 \<Rightarrow> bool" where "plain_char c \<longleftrightarrow> c \<notin> {0, 32, 46}"

definition short_name :: "u8 list \<Rightarrow> u8 list \<Rightarrow> u8 list" where
  "short_name base ext = base @ (if ext = [] then [] else 46 # ext)"

definition short_parts :: "u8 list \<Rightarrow> u8 list \<Rightarrow> bool" where
  "short_parts base ext \<longleftrightarrow> base \<noteq> [] \<and> length base \<le> 8 \<and> length ext \<le> 3 \<and> hd base \<noteq> 0xE5 \<and>
     (\<forall>c \<in> set base \<union> set ext. plain_char c)"

lemma cstr_plain: "\<forall>c \<in> set s. c \<noteq> 0 \<Longrightarrow> cstr s = s"
  by (simp add: cstr_def takeWhile_eq_all_conv)

lemma cstr_short: "short_parts base ext \<Longrightarrow> cstr (short_name base ext) = short_name base ext"
  by (rule cstr_plain) (auto simp: short_parts_def short_name_def plain_char_def)

lemma name_to_83_short:
  assumes "short_parts base ext"
  shows "fat32_name_to_83 (short_name base ext) =
    map upc base @ replicate (8 - length base) 32 @ map upc ext @ replicate (3 - length ext) 32"
proof -
  have nd: "\<forall>c \<in> set base. c \<noteq> 46" using assms by (auto simp: short_parts_def plain_char_def)
  have t: "takeWhile (\<lambda>c. c \<noteq> 46) (short_name base ext) = base"
    using nd by (auto simp: short_name_def takeWhile_append takeWhile_eq_all_conv)
  have d: "tl (dropWhile (\<lambda>c. c \<noteq> 46) (short_name base ext)) = ext"
    using nd by (auto simp: short_name_def dropWhile_append dropWhile_eq_Nil_conv)
  have l: "length base \<le> 8" "length ext \<le> 3" using assms by (auto simp: short_parts_def)
  show ?thesis unfolding fat32_name_to_83_def cstr_short [OF assms] t d using l by simp
qed

lemma length_name83 [simp]: "length (fat32_name_to_83 name) = 11"
  by (simp add: fat32_name_to_83_def Let_def)

lemma length_new_entry [simp]: "length name83 = 11 \<Longrightarrow> length (new_entry name83 attr c) = 32"
  by (simp add: new_entry_def le16_def le32_def)

lemma takeWhile_pad: "\<forall>c \<in> set a. P c \<Longrightarrow> \<not> P x \<Longrightarrow> takeWhile P (a @ replicate n x) = a"
  by (cases n) (simp_all add: takeWhile_append takeWhile_eq_all_conv)

lemma format_new_entry:
  assumes "short_parts base ext"
  shows "format_83_name (new_entry (fat32_name_to_83 (short_name base ext)) attr c) = map upc (short_name base ext)"
proof -
  let ?e = "new_entry (fat32_name_to_83 (short_name base ext)) attr c"
  have l: "length base \<le> 8" "length ext \<le> 3" using assms by (auto simp: short_parts_def)
  have nb: "\<forall>c \<in> set (map upc base). c \<noteq> 32" "\<forall>c \<in> set (map upc ext). c \<noteq> 32"
    using assms upc_ne [of _ 32] by (auto simp: short_parts_def plain_char_def)
  have e: "?e = (map upc base @ replicate (8 - length base) 32) @ (map upc ext @ replicate (3 - length ext) 32) @
      drop 11 ?e"
    unfolding name_to_83_short [OF assms] new_entry_def using l by simp
  have t: "take 8 ?e = map upc base @ replicate (8 - length base) 32"
    by (subst e) (use l in simp)
  have d: "drop 8 ?e = (map upc ext @ replicate (3 - length ext) 32) @ drop 11 ?e"
    by (subst e) (use l in simp)
  have x: "take 3 (drop 8 ?e) = map upc ext @ replicate (3 - length ext) 32"
    unfolding d using l by simp
  have "?e ! 8 = (map upc ext @ replicate (3 - length ext) 32) ! 0"
    using l by (subst e) (simp add: nth_append)
  then have n8: "?e ! 8 \<noteq> 32 \<longleftrightarrow> ext \<noteq> []"
    using nb(2) by (cases ext) auto
  show ?thesis
    unfolding format_83_name_def t x n8 takeWhile_pad [OF nb(1), of 32, simplified] takeWhile_pad [OF nb(2), of 32, simplified]
    by (auto simp: short_name_def upc_fixed)
qed

lemma name_match_new_entry:
  assumes "short_parts base ext"
  shows "name_match n (new_entry (fat32_name_to_83 (short_name base ext)) attr c) \<longleftrightarrow>
    map upc (cstr n) = map upc (short_name base ext)"
proof -
  have "\<forall>c \<in> set (map upc (short_name base ext)). c \<noteq> 0"
    using assms upc_ne [of _ 0] by (auto simp: short_parts_def short_name_def plain_char_def upc_fixed)
  then show ?thesis
    unfolding name_match_def same_chars_eq format_new_entry [OF assms] by (simp add: cstr_plain)
qed

lemma new_entry_fields:
  assumes "length name83 = 11"
  shows "new_entry name83 attr c ! 0 = name83 ! 0" "de_attr (new_entry name83 attr c) = attr"
    "de_size (new_entry name83 attr c) = 0" "de_cluster (new_entry name83 attr c) = c"
proof -
  let ?e = "new_entry name83 attr c"
  show "?e ! 0 = name83 ! 0" "de_attr ?e = attr" using assms by (simp_all add: new_entry_def de_attr_def nth_append)
  show "de_size ?e = 0" using assms by (simp add: new_entry_def de_size_def rd32_def le16_def le32_def nth_append)
  have h: "rd16 ?e 20 = ucast (drop_bit 16 c)" "rd16 ?e 26 = ucast c"
    using assms by (simp_all add: new_entry_def rd16_def le16_def nth_append rd16_bits)
  show "de_cluster ?e = c" unfolding de_cluster_def h
    by (rule bit_word_eqI) (auto simp: bit_simps)
qed


section \<open>Entries of a cluster\<close>

lemma cluster_size_32: "cluster_size fs = 32 * (cluster_size fs div 32)"
  by (simp add: cluster_size_def)

lemma length_dir_entries [simp]: "length (dir_entries fs buf) = cluster_size fs div 32"
  by (simp add: dir_entries_def)

lemma nth_dir_entries [simp]: "i < cluster_size fs div 32 \<Longrightarrow> dir_entries fs buf ! i = take 32 (drop (32 * i) buf)"
  by (simp add: dir_entries_def)

lemma entry_fits: "i < cluster_size fs div 32 \<Longrightarrow> 32 * i + 32 \<le> cluster_size fs"
  by (subst cluster_size_32) simp

lemma length_put_entry: "length buf = cluster_size fs \<Longrightarrow> i < cluster_size fs div 32 \<Longrightarrow> length e = 32 \<Longrightarrow>
    length (put_entry i e buf) = cluster_size fs"
  using entry_fits [of i fs] by (simp add: put_entry_def)

lemma put_entry_overlay: "length e = 32 \<Longrightarrow> put_entry i e buf = overlay (32 * i) e buf"
  by (simp add: put_entry_def overlay_def)

lemma dir_entries_put:
  assumes "length buf = cluster_size fs" and "i < cluster_size fs div 32" and "length e = 32"
  shows "dir_entries fs (put_entry i e buf) = (dir_entries fs buf)[i := e]"
proof (rule nth_equalityI)
  fix j assume "j < length (dir_entries fs (put_entry i e buf))"
  then have j: "j < cluster_size fs div 32" by simp
  note fi = entry_fits [OF assms(2)] and fj = entry_fits [OF j]
  have "take 32 (drop (32 * j) (put_entry i e buf)) = (if j = i then e else take 32 (drop (32 * j) buf))"
  proof (rule nth_equalityI)
    show "length (take 32 (drop (32 * j) (put_entry i e buf))) = length (if j = i then e else take 32 (drop (32 * j) buf))"
      using assms fj by (simp add: length_put_entry)
    fix k assume "k < length (take 32 (drop (32 * j) (put_entry i e buf)))"
    then have k: "k < 32" by simp
    have "put_entry i e buf ! (32 * j + k) = (if j = i then e ! k else buf ! (32 * j + k))"
      unfolding put_entry_overlay [OF assms(3)] using assms fi fj k
      by (subst nth_overlay) auto
    then show "take 32 (drop (32 * j) (put_entry i e buf)) ! k = (if j = i then e else take 32 (drop (32 * j) buf)) ! k"
      using assms fj k by (simp add: length_put_entry)
  qed
  then show "dir_entries fs (put_entry i e buf) ! j = (dir_entries fs buf)[i := e] ! j"
    using j by (simp add: nth_list_update)
qed simp

abbreviation blank :: "u8 list" where "blank \<equiv> replicate 32 0"

lemma dir_entries_zero: "dir_entries fs (replicate (cluster_size fs) 0) = replicate (cluster_size fs div 32) blank"
proof (rule nth_equalityI)
  fix i assume "i < length (dir_entries fs (replicate (cluster_size fs) 0))"
  then show "dir_entries fs (replicate (cluster_size fs) 0) ! i = replicate (cluster_size fs div 32) blank ! i"
    using entry_fits [of i fs] by simp
qed simp

section \<open>Listing and finding\<close>

text \<open>The entries of a directory, and the live ones.\<close>

definition dir_all :: "fat32_fs \<Rightarrow> disks \<Rightarrow> u32 list \<Rightarrow> u8 list list" where
  "dir_all fs ds cs = concat (map (\<lambda>c. dir_entries fs (cluster_data fs ds c)) cs)"

definition live :: "u8 list list \<Rightarrow> u8 list list" where "live = takeWhile (\<lambda>e. e ! 0 \<noteq> 0)"

definition entry_info :: "u8 list \<Rightarrow> u8 list \<times> u32 \<times> u8" where
  "entry_info e = (cstr (format_83_name e), de_size e, de_attr e)"

definition visible :: "u8 list \<Rightarrow> bool" where
  "visible e \<longleftrightarrow> listed e \<and> \<not> (format_83_name e \<noteq> [] \<and> hd (format_83_name e) = 46)"

lemma dir_all_simps [simp]: "dir_all fs ds [] = []"
  "dir_all fs ds (c # cs) = dir_entries fs (cluster_data fs ds c) @ dir_all fs ds cs"
  "dir_all fs ds (cs @ cs') = dir_all fs ds cs @ dir_all fs ds cs'"
  by (simp_all add: dir_all_def)

lemma dir_all_cong: "(\<And>b. b \<in> set cs \<Longrightarrow> cluster_data fs ds' b = cluster_data fs ds b) \<Longrightarrow> dir_all fs ds' cs = dir_all fs ds cs"
  by (induction cs) simp_all

lemma length_dir_all: "length (dir_all fs ds cs) = length cs * (cluster_size fs div 32)"
  by (induction cs) simp_all

lemma dir_scan_Nil [simp]: "dir_scan w [] = Miss"
  by (simp add: dir_scan_def)

lemma dir_scan_Cons [simp]:
  "dir_scan w (e # es) = (if e ! 0 = 0 then Stop else if w e then Hit 0
     else case dir_scan w es of Stop \<Rightarrow> Stop | Hit i \<Rightarrow> Hit (Suc i) | Miss \<Rightarrow> Miss)"
  by (auto simp: dir_scan_def simp del: find_idx_None split: option.split)

lemma dir_scan_find:
  "case dir_scan w es of
     Stop \<Rightarrow> find w (live (es @ rest)) = None
   | Hit i \<Rightarrow> i < length es \<and> find w (live (es @ rest)) = Some (es ! i)
   | Miss \<Rightarrow> find w (live (es @ rest)) = find w (live rest)"
  by (induction es) (auto simp: live_def split: scan.splits)

lemma list_scan_live:
  "list_scan es = (\<exists>e \<in> set es. e ! 0 = 0, map entry_info (filter visible (live es)))"
  by (induction es) (auto simp: live_def visible_def entry_info_def Let_def split: prod.split)

lemma live_append: "live (es @ rest) = (if \<exists>e \<in> set es. e ! 0 = 0 then live es else es @ live rest)"
  by (auto simp: live_def takeWhile_append)

lemma live_all: "\<not> (\<exists>e \<in> set es. e ! 0 = 0) \<Longrightarrow> live es = es"
  by (simp add: live_def takeWhile_eq_all_conv)

lemma find_loop_chain:
  assumes v: "volume fs ds"
  shows "chain fs ds c cs \<Longrightarrow> find_loop fs c name ds = Some (find (find_wanted name) (live (dir_all fs ds cs)))"
proof (induction cs arbitrary: c)
  case Nil
  then show ?case by (subst find_loop.simps) (simp add: live_def)
next
  case (Cons d cs)
  note c = chain_next [OF v Cons.prems]
  have g: "c \<noteq> 0 \<and> c < FAT32_CLUSTER_END" using chain_loop_guard [OF v Cons.prems] by simp
  show ?case
    using dir_scan_find [of "find_wanted name" "dir_entries fs (cluster_data fs ds c)" "dir_all fs ds cs"] Cons.IH [OF c(1)]
      read_content(1) [OF v c(2)] g c(3)
    by (subst find_loop.simps) (auto split: scan.splits)
qed

lemma list_loop_chain:
  assumes v: "volume fs ds"
  shows "chain fs ds c cs \<Longrightarrow> list_loop fs c acc ds =
    (let out = acc @ map entry_info (filter visible (live (dir_all fs ds cs))) in Some (int (length out), out))"
proof (induction cs arbitrary: c acc)
  case Nil
  then show ?case by (subst list_loop.simps) (simp add: live_def)
next
  case (Cons d cs)
  note c = chain_next [OF v Cons.prems]
  have g: "c \<noteq> 0 \<and> c < FAT32_CLUSTER_END" using chain_loop_guard [OF v Cons.prems] by simp
  show ?case
    using Cons.IH [OF c(1)] read_content(1) [OF v c(2)] g c(3)
    by (subst list_loop.simps) (auto simp: list_scan_live live_append live_all Let_def)
qed


section \<open>Creating an entry\<close>

definition unused :: "u8 list \<Rightarrow> bool" where "unused e \<longleftrightarrow> e ! 0 = 0 \<or> e ! 0 = 0xE5"

lemma unused_fun: "(\<lambda>e. e ! 0 = 0 \<or> e ! 0 = 0xE5) = unused"
  by (simp add: fun_eq_iff unused_def)

text \<open>
  The outcome of creating an entry in the slot \<open>i\<close> of the cluster \<open>c\<close>: \<open>n\<close> is the cluster of a new
  directory or 0.
\<close>

definition made :: "fat32_fs \<Rightarrow> disks \<Rightarrow> u32 \<Rightarrow> nat \<Rightarrow> u8 list \<Rightarrow> u8 \<Rightarrow> bool \<Rightarrow> u32 \<Rightarrow> disks \<Rightarrow> bool" where
  "made fs ds c i name83 attr kz n ds' \<longleftrightarrow> volume fs ds' \<and> (n \<noteq> 0 \<longleftrightarrow> attr AND FAT32_ATTR_DIRECTORY \<noteq> 0) \<and>
     (n \<noteq> 0 \<longrightarrow> valid fs n \<and> fat_get fs ds n = 0 \<and> chain fs ds' n [n] \<and>
        (kz \<longrightarrow> cluster_data fs ds' n = replicate (cluster_size fs) 0)) \<and>
     (\<forall>b. valid fs b \<longrightarrow> b \<noteq> n \<longrightarrow> fat_get fs ds' b = fat_get fs ds b) \<and>
     (\<forall>b. valid fs b \<longrightarrow> b \<noteq> n \<longrightarrow> b \<noteq> c \<longrightarrow> cluster_data fs ds' b = cluster_data fs ds b) \<and>
     cluster_data fs ds' c = put_entry i (new_entry name83 attr n) (cluster_data fs ds c)"

lemma put_cluster:
  assumes "volume fs ds" and "valid fs c" and "i < cluster_size fs div 32" and "length e = 32"
    and "cluster_data fs ds c = buf"
  defines "d \<equiv> snd (fat32_write_cluster fs c (put_entry i e buf) ds)"
  shows "volume fs d" "valid fs b \<Longrightarrow> fat_get fs d b = fat_get fs ds b"
    "valid fs b \<Longrightarrow> cluster_data fs d b = (if b = c then put_entry i e buf else cluster_data fs ds b)"
proof -
  have "length (put_entry i e buf) = cluster_size fs"
    using length_put_entry read_content(2) [OF assms(1,2)] assms(3-5) by simp
  note w = write_cluster [OF assms(1,2) this]
  show "volume fs d" "valid fs b \<Longrightarrow> fat_get fs d b = fat_get fs ds b"
    "valid fs b \<Longrightarrow> cluster_data fs d b = (if b = c then put_entry i e buf else cluster_data fs ds b)"
    unfolding d_def using w(2,3,4) by simp_all
qed

lemma create_here:
  assumes v: "volume fs ds" and c: "valid fs c" "fat_get fs ds c \<noteq> 0" and n83: "length name83 = 11"
    and i: "find_idx unused (dir_entries fs (cluster_data fs ds c)) = Some i"
  obtains "create_loop fs c name83 attr kz ds = Some (-2, 0, ds)" "no_free_cluster fs ds"
  | n ds' where "create_loop fs c name83 attr kz ds = Some (0, n, ds')" "made fs ds c i name83 attr kz n ds'"
proof -
  have il: "i < cluster_size fs div 32" using find_idx_SomeD [OF i] by simp
  have g: "c \<noteq> 0 \<and> c < FAT32_CLUSTER_END"
    using valid_nonzero [OF c(1)] valid_below_end [OF volumeD(1) [OF v] c(1)] by simp
  note step = create_loop.simps [of fs c name83 attr kz ds, unfolded unused_fun]
  show thesis
  proof (cases "attr AND FAT32_ATTR_DIRECTORY = 0")
    case True
    note w = put_cluster [OF v c(1) il length_new_entry [OF n83, of attr 0] refl]
    have "create_loop fs c name83 attr kz ds =
        Some (0, 0, snd (fat32_write_cluster fs c (put_entry i (new_entry name83 attr 0) (cluster_data fs ds c)) ds))"
      unfolding step using g read_content(1) [OF v c(1)] i True by simp
    then show thesis using True w c(1) by (intro that(2)) (auto simp: made_def)
  next
    case False
    show thesis
    proof (rule alloc_cluster [OF v])
      assume a: "fat32_alloc_cluster fs ds = (0, ds)" "\<And>c. valid fs c \<Longrightarrow> fat_get fs ds c \<noteq> 0"
      have "create_loop fs c name83 attr kz ds = Some (-2, 0, ds)"
        unfolding step using g read_content(1) [OF v c(1)] i False a(1) by simp
      then show thesis using a(2) by (intro that(1)) blast+
    next
      fix n ds1
      assume a: "fat32_alloc_cluster fs ds = (n, ds1)" "lowest_free_cluster fs ds n" "volume fs ds1"
        "\<And>b. valid fs b \<Longrightarrow> fat_get fs ds1 b = (if b = n then 0x0FFFFFFF else fat_get fs ds b)"
        "\<And>b. valid fs b \<Longrightarrow> cluster_data fs ds1 b = cluster_data fs ds b"
      have n: "valid fs n" "fat_get fs ds n = 0" using a(2) by (simp_all add: lowest_free_cluster_def)
      have nc: "c \<noteq> n" using n(2) c(2) by auto
      define ds2 where "ds2 = (if kz then snd (fat32_write_cluster fs n (replicate (cluster_size fs) 0) ds1) else ds1)"
      have z: "volume fs ds2" "\<And>b. valid fs b \<Longrightarrow> fat_get fs ds2 b = fat_get fs ds1 b"
        "\<And>b. valid fs b \<Longrightarrow> b \<noteq> n \<Longrightarrow> cluster_data fs ds2 b = cluster_data fs ds1 b"
        "kz \<Longrightarrow> cluster_data fs ds2 n = replicate (cluster_size fs) 0"
        using write_cluster [OF a(3) n(1), of "replicate (cluster_size fs) 0"] a(3) n(1) by (simp_all add: ds2_def)
      have dc: "cluster_data fs ds2 c = cluster_data fs ds c" using z(3) [OF c(1) nc] a(5) [OF c(1)] by simp
      let ?ds' = "snd (fat32_write_cluster fs c (put_entry i (new_entry name83 attr n) (cluster_data fs ds c)) ds2)"
      note w = put_cluster [OF z(1) c(1) il length_new_entry [OF n83, of attr n] dc]
      have "create_loop fs c name83 attr kz ds = Some (0, n, ?ds')"
        unfolding step using g read_content(1) [OF v c(1)] i False a(1) valid_nonzero [OF n(1)] by (simp add: ds2_def)
      moreover have "chain fs ?ds' n [n]" using w(2) [OF n(1)] z(2) [OF n(1)] a(4) [OF n(1)] n(1) by simp
      ultimately show thesis
        using w z a(4,5) n nc c(1) False valid_nonzero [OF n(1)] by (intro that(2)) (auto simp: made_def simp del: chain.simps)
    qed
  qed
qed

lemma create_skip:
  assumes v: "volume fs ds"
  shows "chain fs ds c (cs @ b # cs') \<Longrightarrow> (\<And>a. a \<in> set cs \<Longrightarrow> find_idx unused (dir_entries fs (cluster_data fs ds a)) = None) \<Longrightarrow>
     create_loop fs c name83 attr kz ds = create_loop fs b name83 attr kz ds"
proof (induction cs arbitrary: c)
  case (Cons d cs)
  have ch: "chain fs ds c (d # (cs @ b # cs'))" using Cons.prems(1) by (simp only: append_Cons)
  note c = chain_next [OF v ch]
  have g: "c \<noteq> 0 \<and> c < FAT32_CLUSTER_END" using chain_loop_guard [OF v ch] by simp
  have nz: "fat32_next_cluster fs c ds \<noteq> 0" using chain_loop_guard [OF v c(1)] by simp
  have "create_loop fs c name83 attr kz ds = create_loop fs (fat32_next_cluster fs c ds) name83 attr kz ds"
    using g read_content(1) [OF v c(2)] Cons.prems(2) [of d] c(3) nz
    by (subst create_loop.simps) (simp add: unused_fun del: find_idx_None)
  then show ?case using Cons.IH [OF c(1)] Cons.prems(2) by simp
qed simp


lemma find_idx_append:
  "find_idx P (xs @ ys) = (case find_idx P xs of Some i \<Rightarrow> Some i | None \<Rightarrow> map_option (\<lambda>i. length xs + i) (find_idx P ys))"
proof (induction xs)
  case Nil
  then show ?case by (cases "find_idx P ys") (simp_all del: find_idx_None)
next
  case (Cons x xs)
  then show ?case
    by (cases "find_idx P ys") (auto simp del: find_idx_None split: option.splits)
qed

text \<open>The directory after the entry \<open>e\<close> was put into a slot of one of its clusters.\<close>

lemma dir_all_put:
  assumes "volume fs ds" and "chain fs ds c0 (cs @ c # cs')" and "i < cluster_size fs div 32" and "length e = 32"
    and "cluster_data fs ds' c = put_entry i e (cluster_data fs ds c)"
    and "\<And>b. b \<in> set (cs @ cs') \<Longrightarrow> cluster_data fs ds' b = cluster_data fs ds b"
  shows "dir_all fs ds' (cs @ c # cs') = (dir_all fs ds (cs @ c # cs')) [length (dir_all fs ds cs) + i := e]"
proof -
  have "valid fs c" using chain_valid [OF assms(2)] by simp
  then have "dir_entries fs (cluster_data fs ds' c) = (dir_entries fs (cluster_data fs ds c)) [i := e]"
    unfolding assms(5) by (intro dir_entries_put read_content(2) assms)
  moreover have "dir_all fs ds' cs = dir_all fs ds cs" "dir_all fs ds' cs' = dir_all fs ds cs'"
    by (rule dir_all_cong, use assms(6) in simp)+
  ultimately show ?thesis using assms(3) by (simp add: list_update_append)
qed

definition blanks :: "fat32_fs \<Rightarrow> u32 list \<Rightarrow> u8 list list" where
  "blanks fs new = replicate (length new * (cluster_size fs div 32)) blank"

text \<open>
  \<open>created fs ds dir cs name83 attr kz n ds' new i\<close>: the directory \<open>cs\<close>, longer by the clusters
  \<open>new\<close>, has the new entry in its first unused slot \<open>i\<close>; \<open>n\<close> is the cluster of a new directory or 0.
\<close>

definition created :: "fat32_fs \<Rightarrow> disks \<Rightarrow> u32 \<Rightarrow> u32 list \<Rightarrow> u8 list \<Rightarrow> u8 \<Rightarrow> bool \<Rightarrow> u32 \<Rightarrow> disks \<Rightarrow> u32 list \<Rightarrow> nat \<Rightarrow> bool" where
  "created fs ds dir cs name83 attr kz n ds' new i \<longleftrightarrow>
     volume fs ds' \<and> chain fs ds' dir (cs @ new) \<and> (\<forall>b \<in> set new. valid fs b \<and> fat_get fs ds b = 0) \<and>
     (n \<noteq> 0 \<longleftrightarrow> attr AND FAT32_ATTR_DIRECTORY \<noteq> 0) \<and>
     (n \<noteq> 0 \<longrightarrow> valid fs n \<and> fat_get fs ds n = 0 \<and> chain fs ds' n [n] \<and>
        (kz \<longrightarrow> cluster_data fs ds' n = replicate (cluster_size fs) 0)) \<and>
     (\<forall>b. valid fs b \<longrightarrow> b \<notin> set (cs @ new) \<longrightarrow> b \<noteq> n \<longrightarrow>
        fat_get fs ds' b = fat_get fs ds b \<and> cluster_data fs ds' b = cluster_data fs ds b) \<and>
     find_idx unused (dir_all fs ds cs @ blanks fs new) = Some i \<and>
     dir_all fs ds' (cs @ new) = (dir_all fs ds cs @ blanks fs new) [i := new_entry name83 attr n]"

lemma find_first_cluster:
  assumes "\<exists>x \<in> set xs. P x"
  obtains us x vs where "xs = us @ x # vs" "P x" "\<forall>u \<in> set us. \<not> P u"
  using split_list_first_prop [of xs P] assms by blast

lemma dir_all_none:
  "(\<And>a. a \<in> set cs \<Longrightarrow> find_idx P (dir_entries fs (cluster_data fs ds a)) = None) \<Longrightarrow> find_idx P (dir_all fs ds cs) = None"
  by (induction cs) (simp_all add: find_idx_append del: find_idx_None)

lemma create_in_chain:
  assumes v: "volume fs ds" and ch: "chain fs ds dir cs" and n83: "length name83 = 11"
    and slot: "\<exists>a \<in> set cs. find_idx unused (dir_entries fs (cluster_data fs ds a)) \<noteq> None"
  obtains "create_loop fs dir name83 attr kz ds = Some (-2, 0, ds)" "no_free_cluster fs ds"
  | n ds' i where "create_loop fs dir name83 attr kz ds = Some (0, n, ds')" "created fs ds dir cs name83 attr kz n ds' [] i"
proof -
  obtain us c vs where cs: "cs = us @ c # vs" "find_idx unused (dir_entries fs (cluster_data fs ds c)) \<noteq> None"
    "\<And>u. u \<in> set us \<Longrightarrow> find_idx unused (dir_entries fs (cluster_data fs ds u)) = None"
    using find_first_cluster [OF slot] by metis
  then obtain i where i: "find_idx unused (dir_entries fs (cluster_data fs ds c)) = Some i" by blast
  have il: "i < cluster_size fs div 32" using find_idx_SomeD [OF i] by simp
  have c: "valid fs c" "fat_get fs ds c \<noteq> 0" using chain_valid [OF ch, of c] cs(1) by simp_all
  have sk: "create_loop fs dir name83 attr kz ds = create_loop fs c name83 attr kz ds"
    by (rule create_skip [OF v ch [unfolded cs(1)] cs(3)])
  show thesis
  proof (rule create_here [OF v c n83 i, of attr kz])
    assume "create_loop fs c name83 attr kz ds = Some (-2, 0, ds)" "no_free_cluster fs ds"
    then show thesis using sk by (intro that(1)) simp_all
  next
    fix n ds' assume m: "create_loop fs c name83 attr kz ds = Some (0, n, ds')" "made fs ds c i name83 attr kz n ds'"
    have nn: "b \<noteq> n" if "b \<in> set cs" for b
      using chain_valid [OF ch that] valid_nonzero m(2) by (auto simp: made_def)
    have dist: "c \<notin> set (us @ vs)" using chain_distinct [OF ch] cs(1) by auto
    have "chain fs ds' dir cs"
      using ch fat_chain_cong [of cs fs ds' ds dir] m(2) nn chain_valid [OF ch] unfolding made_def by metis
    moreover have "find_idx unused (dir_all fs ds cs) = Some (length (dir_all fs ds us) + i)"
      unfolding cs(1) using i dir_all_none [of us unused fs ds, OF cs(3)] by (simp add: find_idx_append del: find_idx_None)
    moreover have "dir_all fs ds' cs = (dir_all fs ds cs) [length (dir_all fs ds us) + i := new_entry name83 attr n]"
      unfolding cs(1)
    proof (rule dir_all_put [OF v ch [unfolded cs(1)] il length_new_entry [OF n83]])
      show "cluster_data fs ds' c = put_entry i (new_entry name83 attr n) (cluster_data fs ds c)"
        using m(2) by (simp add: made_def)
      show "cluster_data fs ds' b = cluster_data fs ds b" if "b \<in> set (us @ vs)" for b
        using that m(2) nn [of b] chain_valid [OF ch, of b] cs(1) dist unfolding made_def by auto
    qed
    ultimately have "created fs ds dir cs name83 attr kz n ds' [] (length (dir_all fs ds us) + i)"
      using m(2) cs(1) unfolding created_def made_def by (auto simp: blanks_def)
    then show thesis using sk m(1) by (intro that(2)) simp_all
  qed
qed


lemma find_idx_blanks: "0 < n \<Longrightarrow> find_idx unused (replicate n blank) = Some 0"
  by (simp add: unused_def)

lemma link_grown:
  assumes "volume fs ds" and "chain fs ds c [c]" and "extend_chain fs c ds = (n, ds2)" and "n \<noteq> 0"
  shows "grown fs ds c [c] ds2 [n]"
  using assms(3,4)
  by (cases rule: extend_chain_cases [OF assms(1,2)]) (auto simp: grown_def simp del: chain.simps)

lemma created_grown:
  assumes "created fs ds3 dir (cs @ new) name83 attr kz m ds' [] i" and "grown fs ds dir cs ds3 new" and "volume fs ds"
    and "\<And>b. valid fs b \<Longrightarrow> b \<notin> set new \<Longrightarrow> cluster_data fs ds3 b = cluster_data fs ds b"
    and "dir_all fs ds3 (cs @ new) = dir_all fs ds cs @ blanks fs new"
  shows "created fs ds dir cs name83 attr kz m ds' new i"
proof -
  have "m \<notin> set (cs @ new) \<and> valid fs m" if "m \<noteq> 0"
    using that assms(1) chain_valid [OF grown_chain [OF assms(2)]] by (auto simp: created_def)
  then have "m \<noteq> 0 \<longrightarrow> fat_get fs ds m = 0" using assms(1,2) by (auto simp: created_def grown_def)
  then show ?thesis using assms unfolding created_def grown_def by (auto simp: blanks_def)
qed

text \<open>A full directory gets one more cluster, and the new entry is its first.\<close>

lemma create_at_end:
  assumes v: "volume fs ds" and ch: "chain fs ds dir cs" and ne: "cs \<noteq> []" and n83: "length name83 = 11"
    and full: "\<And>a. a \<in> set cs \<Longrightarrow> find_idx unused (dir_entries fs (cluster_data fs ds a)) = None"
  obtains ds' new where "create_loop fs dir name83 attr kz ds = Some (-2, 0, ds')" "no_free_cluster fs ds'" "grown fs ds dir cs ds' new"
    "\<And>b. valid fs b \<Longrightarrow> b \<notin> set new \<Longrightarrow> cluster_data fs ds' b = cluster_data fs ds b"
    "dir_all fs ds' (cs @ new) = dir_all fs ds cs @ blanks fs new"
  | n ds' new i where "create_loop fs dir name83 attr kz ds = Some (0, n, ds')" "created fs ds dir cs name83 attr kz n ds' new i"
proof -
  obtain us c where cs: "cs = us @ [c]" using ne by (cases cs rule: rev_cases) auto
  have sk: "create_loop fs dir name83 attr kz ds = create_loop fs c name83 attr kz ds"
    by (rule create_skip [OF v ch [unfolded cs]]) (rule full, simp add: cs)
  have "chain fs ds dir (us @ [c])" using ch cs by simp
  then have last: "chain fs ds c [c]"
    using chain_drop [of fs ds dir "us @ [c]" "length us"] by auto
  note c = chain_next [OF v last]
  have cnz: "fat_get fs ds c \<noteq> 0" using last by simp
  have g: "c \<noteq> 0 \<and> c < FAT32_CLUSTER_END" using chain_loop_guard [OF v last] by simp
  have z: "fat32_next_cluster fs c ds = 0" using c(1) by simp
  have blank0: "replicate (cluster_size fs div 32) blank = blanks fs [m]" for m by (simp add: blanks_def)
  note step = create_loop.simps [of fs c name83 attr kz ds, unfolded unused_fun]
  have fc: "find_idx unused (dir_entries fs (cluster_data fs ds c)) = None" by (rule full) (simp add: cs)
  have none: "find_idx unused (dir_all fs ds cs) = None" by (rule dir_all_none [OF full])
  show thesis
  proof (rule alloc_cluster [OF v])
    assume a: "fat32_alloc_cluster fs ds = (0, ds)" "\<And>c. valid fs c \<Longrightarrow> fat_get fs ds c \<noteq> 0"
    have "create_loop fs c name83 attr kz ds = Some (-2, 0, ds)"
      unfolding step using g read_content(1) [OF v c(2)] fc z a(1) by (simp del: find_idx_None)
    then show thesis using a(2) sk grown_refl [OF v ch] by (intro that(1) [of ds "[]"]) (auto simp: blanks_def)
  next
    fix n ds1
    assume a: "fat32_alloc_cluster fs ds = (n, ds1)" "lowest_free_cluster fs ds n" "volume fs ds1"
      "\<And>b. valid fs b \<Longrightarrow> fat_get fs ds1 b = (if b = n then 0x0FFFFFFF else fat_get fs ds b)"
      "\<And>b. valid fs b \<Longrightarrow> cluster_data fs ds1 b = cluster_data fs ds b"
    have n: "valid fs n" "fat_get fs ds n = 0" "n \<noteq> 0" using a(2) valid_nonzero by (auto simp: lowest_free_cluster_def)
    have out: "n \<notin> set cs" using chain_valid [OF ch] n(2) by auto
    define ds2 where "ds2 = snd (fat32_set_cluster fs c n ds1)"
    define ds3 where "ds3 = snd (fat32_write_cluster fs n (replicate (cluster_size fs) 0) ds2)"
    have e: "extend_chain fs c ds = (n, ds2)" using z a(1) n(3) by (simp add: extend_chain_def ds2_def)
    have s: "volume fs ds2" "\<And>b. valid fs b \<Longrightarrow> cluster_data fs ds2 b = cluster_data fs ds b"
      using set_cluster [OF a(3) c(2), where x = n] a(5) by (simp_all add: ds2_def)
    have w: "volume fs ds3" "\<And>b. valid fs b \<Longrightarrow> fat_get fs ds3 b = fat_get fs ds2 b"
      "\<And>b. valid fs b \<Longrightarrow> cluster_data fs ds3 b = (if b = n then replicate (cluster_size fs) 0 else cluster_data fs ds b)"
      using write_cluster [OF s(1) n(1), of "replicate (cluster_size fs) 0"] s(2) by (simp_all add: ds3_def)
    have gr2: "grown fs ds dir cs ds2 [n]"
      using grown_suffix(1) [OF ch [unfolded cs] link_grown [OF v last e n(3)]] cs by simp
    then have gr: "grown fs ds dir cs ds3 [n]"
      using w(1,2) fat_chain_cong [of "cs @ [n]" fs ds3 ds2 dir] chain_valid [of fs ds2 dir "cs @ [n]"] unfolding grown_def by metis
    have rec: "create_loop fs c name83 attr kz ds = create_loop fs n name83 attr kz ds3"
      unfolding step using g read_content(1) [OF v c(2)] fc z a(1) n(3) by (simp add: ds3_def ds2_def del: find_idx_None)
    have pos: "0 < cluster_size fs div 32" using geometryD(1) [OF volumeD(1) [OF v]] by (simp add: cluster_size_def)
    have slot: "find_idx unused (dir_entries fs (cluster_data fs ds3 n)) = Some 0"
      using w(3) [OF n(1)] find_idx_blanks [OF pos] by (simp only: dir_entries_zero if_True refl)
    have ch3: "chain fs ds3 dir (cs @ [n])" using gr by (simp add: grown_def)
    have k: "dir_all fs ds3 cs = dir_all fs ds cs"
      by (rule dir_all_cong) (use w(3) chain_valid [OF ch] out in metis)
    have d3: "dir_all fs ds3 (cs @ [n]) = dir_all fs ds cs @ blanks fs [n]"
      using k w(3) [OF n(1)] by (simp add: dir_entries_zero blanks_def)
    have dat: "cluster_data fs ds3 b = cluster_data fs ds b" if "valid fs b" "b \<notin> set [n]" for b
      using w(3) that by simp
    have sk3: "create_loop fs dir name83 attr kz ds3 = create_loop fs n name83 attr kz ds3"
      using full dat out chain_valid [OF ch] by (intro create_skip [OF w(1) ch3]) (metis empty_iff set_ConsD list.set(1))
    show thesis
    proof (rule create_in_chain [OF w(1) ch3 n83, of attr kz])
      show "\<exists>a \<in> set (cs @ [n]). find_idx unused (dir_entries fs (cluster_data fs ds3 a)) \<noteq> None"
        using slot by (intro bexI [of _ n]) (simp_all del: find_idx_None)
    next
      assume "create_loop fs dir name83 attr kz ds3 = Some (-2, 0, ds3)" "no_free_cluster fs ds3"
      then show thesis using sk rec sk3 gr dat d3 by (intro that(1) [of ds3 "[n]"]) simp_all
    next
      fix m ds' i assume m: "create_loop fs dir name83 attr kz ds3 = Some (0, m, ds')" "created fs ds3 dir (cs @ [n]) name83 attr kz m ds' [] i"
      then show thesis using sk rec sk3 created_grown [OF m(2) gr v dat d3] by (intro that(2)) simp_all
    qed
  qed
qed


section \<open>The live entries after an update\<close>

text \<open>Behind the end marker there are only end markers.\<close>

definition tidy :: "u8 list list \<Rightarrow> bool" where
  "tidy es \<longleftrightarrow> (\<forall>e \<in> set (dropWhile (\<lambda>e. e ! 0 \<noteq> 0) es). e ! 0 = 0)"

lemma live_blanks [simp]: "live (blanks fs new) = []"
proof -
  have "live (replicate n blank) = []" for n by (cases n) (simp_all add: live_def)
  then show ?thesis by (simp add: blanks_def)
qed

lemma live_with_blanks [simp]: "live (es @ blanks fs new) = live es"
  by (simp add: live_append live_all)

lemma tidy_Cons: "tidy (x # xs) \<longleftrightarrow> (if x ! 0 = 0 then \<forall>e \<in> set xs. e ! 0 = 0 else tidy xs)"
  by (simp add: tidy_def)

lemma tidy_zeros: "\<forall>e \<in> set xs. e ! 0 = 0 \<Longrightarrow> tidy xs" "\<forall>e \<in> set xs. e ! 0 = 0 \<Longrightarrow> live xs = []"
  by (cases xs; simp add: tidy_def live_def)+

lemma tidy_blanks: "tidy es \<Longrightarrow> tidy (es @ blanks fs new)"
  unfolding blanks_def by (induction es) (auto simp: tidy_Cons tidy_zeros)

lemma live_put_new:
  "find_idx unused xs = Some i \<Longrightarrow> find w (live xs) = None \<Longrightarrow> w e \<Longrightarrow> e ! 0 \<noteq> 0 \<Longrightarrow> find w (live (xs[i := e])) = Some e"
proof (induction xs arbitrary: i)
  case (Cons x xs)
  then show ?case by (cases i) (auto simp: live_def unused_def split: if_splits)
qed simp

lemma live_Cons: "live (x # xs) = (if x ! 0 = 0 then [] else x # live xs)"
  by (simp add: live_def)

lemma live_put_other:
  assumes "\<And>x. w x \<Longrightarrow> x ! 0 \<noteq> 0xE5" and "\<not> w e" and "e ! 0 \<noteq> 0"
  shows "find_idx unused xs = Some i \<Longrightarrow> tidy xs \<Longrightarrow> find w (live (xs[i := e])) = find w (live xs)"
proof (induction xs arbitrary: i)
  case (Cons x xs)
  show ?case
  proof (cases "unused x")
    case True
    then have "i = 0" using Cons.prems(1) by simp
    moreover have "x ! 0 = 0 \<or> x ! 0 = 0xE5 \<and> \<not> w x" using True assms(1) [of x] by (auto simp: unused_def)
    ultimately show ?thesis using assms(2,3) Cons.prems(2) tidy_zeros(2) [of xs] by (auto simp: live_Cons tidy_Cons)
  next
    case False
    then obtain k where k: "i = Suc k" "find_idx unused xs = Some k" using Cons.prems(1) by auto
    have "x ! 0 \<noteq> 0" using False by (simp add: unused_def)
    then show ?thesis using Cons.IH [OF k(2)] Cons.prems(2) k(1) by (simp add: live_Cons tidy_Cons)
  qed
qed simp

lemma tidy_put: "find_idx unused xs = Some i \<Longrightarrow> tidy xs \<Longrightarrow> e ! 0 \<noteq> 0 \<Longrightarrow> tidy (xs[i := e])"
proof (induction xs arbitrary: i)
  case (Cons x xs)
  then show ?case
    by (cases i) (auto simp: unused_def tidy_Cons tidy_zeros(1) split: if_splits)
qed simp

lemma create_outcome:
  assumes "volume fs ds" and "chain fs ds dir cs" and "cs \<noteq> []" and "length n83 = 11"
  shows "(\<exists>ds' new. create_loop fs dir n83 attr kz ds = Some (-2, 0, ds') \<and> no_free_cluster fs ds' \<and> volume fs ds' \<and>
        chain fs ds' dir (cs @ new) \<and> dir_all fs ds' (cs @ new) = dir_all fs ds cs @ blanks fs new) \<or>
     (\<exists>n ds' new i. create_loop fs dir n83 attr kz ds = Some (0, n, ds') \<and> created fs ds dir cs n83 attr kz n ds' new i)"
proof (cases "\<exists>a \<in> set cs. find_idx unused (dir_entries fs (cluster_data fs ds a)) \<noteq> None")
  case True
  show ?thesis
  proof (rule create_in_chain [OF assms(1,2,4) True, of attr kz])
    assume "create_loop fs dir n83 attr kz ds = Some (-2, 0, ds)" "no_free_cluster fs ds"
    then show ?thesis using assms(1,2) by (intro disjI1 exI [of _ ds] exI [of _ "[]"]) (simp add: blanks_def)
  qed blast
next
  case False
  then have "\<And>a. a \<in> set cs \<Longrightarrow> find_idx unused (dir_entries fs (cluster_data fs ds a)) = None" by blast
  then show ?thesis
    by (cases rule: create_at_end [OF assms, of attr kz]) (auto simp: grown_def)
qed

lemma short_entry:
  assumes "short_parts base ext" and "attr = FAT32_ATTR_DIRECTORY \<or> attr = FAT32_ATTR_ARCHIVE"
  defines "e \<equiv> \<lambda>n. new_entry (fat32_name_to_83 (short_name base ext)) attr n"
  shows "e n ! 0 \<noteq> 0" "e n ! 0 \<noteq> 0xE5"
    "find_wanted other (e n) \<longleftrightarrow> map upc (cstr other) = map upc (short_name base ext)"
proof -
  let ?n83 = "fat32_name_to_83 (short_name base ext)"
  have at: "attr \<noteq> FAT32_ATTR_LFN" "attr AND FAT32_ATTR_VOLUME_ID = 0" using assms(2) by auto
  have b0: "base \<noteq> []" "hd base \<noteq> 0" "hd base \<noteq> 0xE5"
    using assms(1) by (auto simp: short_parts_def plain_char_def)
  then have "?n83 ! 0 = upc (hd base)"
    unfolding name_to_83_short [OF assms(1)] by (cases base) simp_all
  moreover have "upc (hd base) \<noteq> 0xE5" using b0(3) by (auto simp: upc_def word_le_nat_alt word_unat_eq_iff unat_sub)
  ultimately show e0: "e n ! 0 \<noteq> 0" "e n ! 0 \<noteq> 0xE5" 
    using upc_ne [OF b0(2)] by (simp_all add: e_def new_entry_fields)
  show "find_wanted other (e n) \<longleftrightarrow> map upc (cstr other) = map upc (short_name base ext)"
    unfolding find_wanted_def listed_def using e0 at name_match_new_entry [OF assms(1)]
    by (simp add: e_def new_entry_fields)
qed

section \<open>Properties\<close>

text \<open>
  C28. Listing and finding are functions of the live entries. On a directory whose chain is sound, both
  always return: listing reports name, size and attributes of every visible live entry, in order, and
  finding returns the first live entry that is listed and has the name, or nothing.
\<close>

theorem fat_directory:
  assumes "volume fs ds" and "chain fs ds dir cs"
  shows "fat32_list_dir fs dir True ds =
      (let out = map entry_info (filter visible (live (dir_all fs ds cs))) in Some (int (length out), out)) \<and>
    fat32_find_entry fs dir name True ds = Some (find (find_wanted name) (live (dir_all fs ds cs)))"
  using list_loop_chain [OF assms, of "[]"] find_loop_chain [OF assms, of name]
  by (simp add: fat32_list_dir_def fat32_find_entry_def)

theorem fat_directory_witness:
  "fat32_find_entry demo_fs 3 [0x61, 0x62] True demo_file = Some (find (find_wanted [0x61, 0x62]) (live (dir_all demo_fs demo_file [3, 5])))"
  using fat_directory [OF demo_file(1) demo_file(2)] by simp

text \<open>
  C29. What is created is found. Creating a file or directory whose name has an 8.3 form and is not yet
  in the directory always returns. If it succeeds, finding the name gives an entry with that name, the
  attributes, size 0 and the cluster of the new directory, which lists as empty; all other names are found
  as before. Otherwise the disk is full, and every name is found as before.
\<close>

theorem fat_create_find:
  assumes "volume fs ds" and "chain fs ds dir cs" and "dir \<noteq> 0" and "tidy (dir_all fs ds cs)"
    and "short_parts base ext" and "attr = FAT32_ATTR_DIRECTORY \<or> attr = FAT32_ATTR_ARCHIVE"
    and "fat32_find_entry fs dir (short_name base ext) True ds = Some None"
  shows "case fat32_create_entry fs dir (short_name base ext) attr True kz ds of
      None \<Rightarrow> False
    | Some (r, n, ds') \<Rightarrow>
        volume fs ds' \<and> (\<exists>new. chain fs ds' dir (cs @ new) \<and> tidy (dir_all fs ds' (cs @ new))) \<and>
        (\<forall>other. map upc (cstr other) \<noteq> map upc (short_name base ext) \<longrightarrow>
           fat32_find_entry fs dir other True ds' = fat32_find_entry fs dir other True ds) \<and>
        (if r = 0
         then (\<exists>e. fat32_find_entry fs dir (short_name base ext) True ds' = Some (Some e) \<and>
             format_83_name e = map upc (short_name base ext) \<and> de_attr e = attr \<and> de_size e = 0 \<and> de_cluster e = n) \<and>
           (attr = FAT32_ATTR_DIRECTORY \<longrightarrow> kz \<longrightarrow> fat32_list_dir fs n True ds' = Some (0, []))
         else r = -2 \<and> no_free_cluster fs ds' \<and>
           fat32_find_entry fs dir (short_name base ext) True ds' = Some None)"
proof -
  let ?nm = "short_name base ext" and ?n83 = "fat32_name_to_83 (short_name base ext)"
  have ne: "cs \<noteq> []" using assms(2,3) by auto
  have wn: "find_wanted other e \<Longrightarrow> e ! 0 \<noteq> 0xE5" for other e by (simp add: find_wanted_def listed_def)
  note e0 = short_entry(1,2) [OF assms(5,6)] and wanted = short_entry(3) [OF assms(5,6)]
  have fd: "fat32_find_entry fs dir other True d = Some (find (find_wanted other) (live (dir_all fs d bs)))"
    if "volume fs d" "chain fs d dir bs" for other d bs
    using find_loop_chain [OF that] by (simp add: fat32_find_entry_def)
  have none: "find (find_wanted ?nm) (live (dir_all fs ds cs)) = None"
    using assms(7) fd [OF assms(1,2)] by simp
  note outcome = create_outcome [OF assms(1,2) ne length_name83 [of ?nm], of attr kz]
  then show ?thesis
  proof (elim disjE exE conjE)
    fix ds' new
    assume c: "create_loop fs dir ?n83 attr kz ds = Some (-2, 0, ds')" "no_free_cluster fs ds'" "volume fs ds'"
      "chain fs ds' dir (cs @ new)" "dir_all fs ds' (cs @ new) = dir_all fs ds cs @ blanks fs new"
    have "fat32_find_entry fs dir other True ds' = fat32_find_entry fs dir other True ds" for other
      unfolding fd [OF c(3,4)] fd [OF assms(1,2)] c(5) by simp
    then show ?thesis
      unfolding fat32_create_entry_def using c tidy_blanks [OF assms(4)] assms(7) by auto
  next
    fix n ds' new i
    assume c: "create_loop fs dir ?n83 attr kz ds = Some (0, n, ds')" "created fs ds dir cs ?n83 attr kz n ds' new i"
    let ?xs = "dir_all fs ds cs @ blanks fs new" and ?e = "new_entry ?n83 attr n"
    have k: "volume fs ds'" "chain fs ds' dir (cs @ new)" "find_idx unused ?xs = Some i"
      "dir_all fs ds' (cs @ new) = ?xs [i := ?e]"
      using c(2) by (simp_all add: created_def)
    have td: "tidy ?xs" by (rule tidy_blanks [OF assms(4)])
    have "fat32_find_entry fs dir ?nm True ds' = Some (Some ?e)"
      unfolding fd [OF k(1,2)] k(4) using live_put_new [OF k(3)] none wanted e0 cstr_short [OF assms(5)] by simp
    moreover have "fat32_find_entry fs dir other True ds' = fat32_find_entry fs dir other True ds"
      if "map upc (cstr other) \<noteq> map upc ?nm" for other
      unfolding fd [OF k(1,2)] fd [OF assms(1,2)] k(4)
      using live_put_other [of "find_wanted other" ?e, OF wn _ _ k(3) td] wanted that e0 by simp
    moreover have "tidy (dir_all fs ds' (cs @ new))" unfolding k(4) using tidy_put [OF k(3) td] e0 by simp
    moreover have "fat32_list_dir fs n True ds' = Some (0, [])" if "attr = FAT32_ATTR_DIRECTORY" "kz"
    proof -
      have n: "chain fs ds' n [n]" "cluster_data fs ds' n = replicate (cluster_size fs) 0"
        using c(2) that by (auto simp: created_def)
      have "live (dir_all fs ds' [n]) = []" using n(2) live_blanks [of fs "[n]"] by (simp add: dir_entries_zero blanks_def)
      then show ?thesis using list_loop_chain [OF k(1) n(1), of "[]"] by (simp add: fat32_list_dir_def)
    qed
    ultimately show ?thesis
      unfolding fat32_create_entry_def using c(1) k(1,2) format_new_entry [OF assms(5)] new_entry_fields [of ?n83 attr n] by auto
  qed
qed


text \<open>A volume whose root directory, cluster 2, is empty.\<close>

definition demo_dir :: disks where "demo_dir = with_entries demo_fs [(2, 0x0FFFFFFF)] demo_disks"

lemma demo_data: "valid demo_fs c \<Longrightarrow> cluster_data demo_fs demo_disks c = replicate 512 0"
proof -
  assume "valid demo_fs c"
  have d: "drive demo_fs = 0" "unat (sectors_per_cluster demo_fs) = 1" by (simp_all add: demo_fs_def)
  have "read_sector 0 a demo_disks = Some (replicate 512 0)" for a
    unfolding read_sector_alt demo_drive by (simp add: demo_disks_def)
  then show ?thesis
    using valid_not_small [OF \<open>valid demo_fs c\<close>] by (simp add: cluster_data_def fat32_read_cluster_def d)
qed

lemma demo_dir: "volume demo_fs demo_dir" "chain demo_fs demo_dir 2 [2]" "dir_all demo_fs demo_dir [2] = blanks demo_fs [2]"
proof -
  have w: "volume demo_fs demo_dir \<and> (\<forall>b. valid demo_fs b \<longrightarrow>
      fat_get demo_fs demo_dir b = (if b = 2 then 0x0FFFFFFF else 0) \<and>
      cluster_data demo_fs demo_dir b = cluster_data demo_fs demo_disks b)"
    using with_entries [OF demo_volume, of "[(2, 0x0FFFFFFF)]"] by (simp add: demo_dir_def demo_valid demo_free)
  then show "volume demo_fs demo_dir" "chain demo_fs demo_dir 2 [2]" by (simp_all add: demo_valid)
  have c: "cluster_size demo_fs = 512" by (simp add: cluster_size_def demo_fs_def)
  have "cluster_data demo_fs demo_dir 2 = replicate (cluster_size demo_fs) 0"
    using w demo_data by (simp only: c demo_valid) simp
  then show "dir_all demo_fs demo_dir [2] = blanks demo_fs [2]" by (simp add: dir_entries_zero blanks_def)
qed

theorem fat_create_find_witness:
  "case fat32_create_entry demo_fs 2 (short_name [0x61, 0x62] [0x63]) FAT32_ATTR_ARCHIVE True True demo_dir of
      None \<Rightarrow> False
    | Some (r, n, ds') \<Rightarrow> r = 0 \<longrightarrow>
        (\<exists>e. fat32_find_entry demo_fs 2 (short_name [0x61, 0x62] [0x63]) True ds' = Some (Some e) \<and>
           format_83_name e = [0x41, 0x42, 0x2E, 0x43])"
proof -
  let ?n = "short_name [0x61, 0x62] [0x63]"
  have "tidy (dir_all demo_fs demo_dir [2])" using tidy_blanks [OF tidy_zeros(1), of "[]"] unfolding demo_dir(3) by simp
  moreover have "short_parts [0x61, 0x62] [0x63]" by (simp add: short_parts_def plain_char_def)
  moreover have "fat32_find_entry demo_fs 2 ?n True demo_dir = Some None"
    using find_loop_chain [OF demo_dir(1,2), of ?n] by (simp add: fat32_find_entry_def demo_dir(3) del: dir_all_simps)
  ultimately have f: "case fat32_create_entry demo_fs 2 ?n FAT32_ATTR_ARCHIVE True True demo_dir of
      None \<Rightarrow> False
    | Some (r, n, ds') \<Rightarrow> r = 0 \<longrightarrow>
        (\<exists>e. fat32_find_entry demo_fs 2 ?n True ds' = Some (Some e) \<and> format_83_name e = map upc ?n)"
    using fat_create_find [OF demo_dir(1,2), of "[0x61, 0x62]" "[0x63]" FAT32_ATTR_ARCHIVE True]
    by (cases "fat32_create_entry demo_fs 2 ?n FAT32_ATTR_ARCHIVE True True demo_dir")
      (auto simp del: chain.simps dir_all_simps)
  have "map upc ?n = [0x41, 0x42, 0x2E, 0x43]" by (simp add: short_name_def upc_def)
  from f [unfolded this] show ?thesis .
qed

section \<open>What the directories do not do\<close>

text \<open>
  A name longer than its 8.3 form is cut when the entry is created, but compared in full when it is
  looked for: it is never found, whatever was created.
\<close>

lemma length_format: "length e = 32 \<Longrightarrow> length (format_83_name e) \<le> 12"
  using length_takeWhile_le [of "\<lambda>c. c \<noteq> 32" "take 8 e"] length_takeWhile_le [of "\<lambda>c. c \<noteq> 32" "take 3 (drop 8 e)"]
  by (simp add: format_83_name_def)

theorem fat_long_names_not_found:
  assumes "volume fs ds" and "chain fs ds dir cs" and "12 < length (cstr name)"
  shows "fat32_find_entry fs dir name True ds = Some None"
proof -
  have "\<not> find_wanted name e" if e: "e \<in> set (live (dir_all fs ds cs))" for e
  proof
    assume "find_wanted name e"
    then have "length (cstr name) = length (cstr (format_83_name e))"
      unfolding find_wanted_def name_match_def same_chars_eq using map_eq_imp_length_eq by blast
    moreover have "length e = 32"
    proof -
      have "e \<in> set (dir_all fs ds cs)" using e set_takeWhileD unfolding live_def by fastforce
      then obtain c where c: "c \<in> set cs" "e \<in> set (dir_entries fs (cluster_data fs ds c))" by (auto simp: dir_all_def)
      then show ?thesis
        using read_content(2) [OF assms(1), of c] chain_valid [OF assms(2) c(1)] entry_fits [of _ fs]
        by (fastforce simp: dir_entries_def)
    qed
    ultimately show False
      using length_format [of e] length_takeWhile_le [of "\<lambda>c. c \<noteq> 0" "format_83_name e"] assms(3) by (simp add: cstr_def)
  qed
  then have "find (find_wanted name) (live (dir_all fs ds cs)) = None" by (simp add: find_None_iff)
  then show ?thesis using find_loop_chain [OF assms(1,2)] by (simp add: fat32_find_entry_def)
qed

text \<open>On a directory whose chain is a circle, looking for a name that is not there does not return.\<close>

theorem fat_circle_hangs:
  assumes "volume fs ds" and "\<forall>c \<in> S. valid fs c \<and> fat_get fs ds c \<in> S" and "dir \<in> S"
    and "\<forall>c \<in> S. dir_scan (find_wanted name) (dir_entries fs (cluster_data fs ds c)) = Miss"
  shows "fat32_find_entry fs dir name True ds = None"
proof -
  have "\<not> (fs' = fs \<and> nm = name \<and> d = ds \<and> c \<in> S)" if found: "find_loop fs' c nm d = Some r" for fs' c nm d r
  proof (rule find_loop.raw_induct [OF _ found])
    fix f fs' c nm d r
    assume IH: "\<And>fs' c nm d r. f fs' c nm d = Some r \<Longrightarrow> \<not> (fs' = fs \<and> nm = name \<and> d = ds \<and> c \<in> S)"
      and body: "(if c \<noteq> 0 \<and> c < FAT32_CLUSTER_END then
        (case fat32_read_cluster fs' c d of
           None \<Rightarrow> Some None
         | Some buf \<Rightarrow>
             (case dir_scan (find_wanted nm) (dir_entries fs' buf) of
                Stop \<Rightarrow> Some None
              | Hit i \<Rightarrow> Some (Some (dir_entries fs' buf ! i))
              | Miss \<Rightarrow> f fs' (fat32_next_cluster fs' c d) nm d))
      else Some None) = Some r"
    show "\<not> (fs' = fs \<and> nm = name \<and> d = ds \<and> c \<in> S)"
    proof
      assume eq: "fs' = fs \<and> nm = name \<and> d = ds \<and> c \<in> S"
      then have c: "valid fs c" "fat_get fs ds c \<in> S" "valid fs (fat_get fs ds c)" using assms(2) by auto
      have "fat32_next_cluster fs c ds = fat_get fs ds c"
        using next_cluster [OF assms(1) c(1)] valid_below_end [OF volumeD(1) [OF assms(1)] c(3)] by (metis linorder_not_le)
      then have "f fs (fat_get fs ds c) name ds = Some r"
        using body eq assms(4) read_content(1) [OF assms(1) c(1)] valid_nonzero [OF c(1)]
          valid_below_end [OF volumeD(1) [OF assms(1)] c(1)] by auto
      then show False using IH c(2) by blast
    qed
  qed
  then show ?thesis using assms(3) by (cases "find_loop fs dir name ds") (auto simp: fat32_find_entry_def)
qed

end
