(* ===== verification/Fat_Vfs.thy ===== *)
theory Fat_Vfs
  imports Fat_Dir
begin

text \<open>
  FAT32 behind the VFS, \<open>kernel/fs/fat32_vfs.c\<close>: nodes for the files and directories of a volume, the
  operations that the VFS calls on them, the cache of the last listed directory, and the mounting of all
  disks at boot.

  A node is its place in the list of nodes, a mounted volume its place in the list of volumes; an address
  without a node is the case of the null checks. Whether \<open>kmalloc\<close> has memory is an argument of each call.
  The result \<open>None\<close> is a call that does not return.

  Main results: what is written to a node is found through the directory afterwards, with its new size,
  and unlinking a file frees exactly its clusters.
\<close>

record fat_node =
  fa_name :: "u8 list"
  fa_flags :: u32
  fa_length :: u32
  fa_inode :: u32
  fa_parent :: "nat option"
  fa_vol :: nat
  fa_cluster :: u32
  fa_size :: u32
  fa_attr :: u8

record fat_state =
  disks_of :: disks
  volumes :: "fat32_fs list"
  mounted_drives :: "nat option list"
  fat_nodes :: "fat_node list"
  dir_cache :: "(u8 list \<times> u32 \<times> u8) list"
  dir_cache_cluster :: u32
  dir_cache_fs :: "nat option"

abbreviation FAT32_DIR_CACHE_SIZE :: nat where "FAT32_DIR_CACHE_SIZE \<equiv> 64"

definition vol_of :: "fat_state \<Rightarrow> fat_node \<Rightarrow> fat32_fs" where "vol_of s n = volumes s ! fa_vol n"

definition is_fat_dir :: "fat_node \<Rightarrow> bool" where "is_fat_dir n \<longleftrightarrow> fa_attr n AND FAT32_ATTR_DIRECTORY \<noteq> 0"

definition dir_cache_add :: "(u8 list \<times> u32 \<times> u8) list \<Rightarrow> u8 list \<times> u32 \<times> u8 \<Rightarrow> (u8 list \<times> u32 \<times> u8) list" where
  "dir_cache_add c e =
     (if length c < FAT32_DIR_CACHE_SIZE then c @ [(case e of (name, sz, attr) \<Rightarrow> (take 12 name, sz, attr))] else c)"

definition fat32_create_vfs_node ::
    "bool \<Rightarrow> bool \<Rightarrow> nat \<Rightarrow> u8 list \<Rightarrow> u32 \<Rightarrow> u32 \<Rightarrow> u8 \<Rightarrow> nat option \<Rightarrow> fat_state \<Rightarrow> nat option \<times> fat_state" where
  "fat32_create_vfs_node km1 km2 vol name cluster sz attr parent s =
     (if \<not> km1 \<or> \<not> km2 then (None, s)
      else (Some (length (fat_nodes s)), s\<lparr>fat_nodes := fat_nodes s @
        [\<lparr>fa_name = take 63 name,
          fa_flags = (if attr AND FAT32_ATTR_DIRECTORY \<noteq> 0 then 2 else 1),
          fa_length = sz, fa_inode = cluster, fa_parent = parent, fa_vol = vol,
          fa_cluster = cluster, fa_size = sz, fa_attr = attr\<rparr>]\<rparr>))"

definition fat32_vfs_read :: "bool \<Rightarrow> nat \<Rightarrow> u32 \<Rightarrow> u32 \<Rightarrow> fat_state \<Rightarrow> (int \<times> u8 list) option" where
  "fat32_vfs_read km node offset sz s =
     (if node \<ge> length (fat_nodes s) then Some (-1, [])
      else
        let n = fat_nodes s ! node in
        if is_fat_dir n then Some (-1, [])
        else fat32_read_file (vol_of s n) (fa_cluster n) (fa_size n) offset sz km (disks_of s))"

text \<open>\<open>km\<close> is the buffer of the write, \<open>km2\<close> that of the update of the directory entry.\<close>

definition fat32_vfs_write ::
    "bool \<Rightarrow> bool \<Rightarrow> nat \<Rightarrow> u32 \<Rightarrow> u8 list \<Rightarrow> fat_state \<Rightarrow> (int \<times> fat_state) option" where
  "fat32_vfs_write km km2 node offset src s =
     (if node \<ge> length (fat_nodes s) then Some (-1, s)
      else
        let n = fat_nodes s ! node in
        if is_fat_dir n then Some (-1, s)
        else
          (case fat32_write_file (vol_of s n) (fa_cluster n) (fa_size n) offset src km (disks_of s) of
             None \<Rightarrow> None
           | Some (result, cluster, file_size, ds) \<Rightarrow>
               if result \<le> 0 then Some (result, s\<lparr>disks_of := ds\<rparr>)
               else
                 let s1 = s\<lparr>disks_of := ds, fat_nodes := (fat_nodes s)[node := n\<lparr>fa_cluster := cluster,
                       fa_size := file_size, fa_length := file_size, fa_inode := cluster\<rparr>]\<rparr>
                 in (case fa_parent n of
                       None \<Rightarrow> Some (result, s1\<lparr>dir_cache_fs := None\<rparr>)
                     | Some p \<Rightarrow>
                         (case fat32_update_entry_size (vol_of s n) (fa_cluster (fat_nodes s1 ! p)) (fa_name n)
                             file_size cluster km2 ds of
                            None \<Rightarrow> None
                          | Some (_, ds2) \<Rightarrow> Some (result, s1\<lparr>disks_of := ds2, dir_cache_fs := None\<rparr>)))))"

text \<open>A result \<open>Some (Some (name, inode))\<close> is a pointer to the static entry.\<close>

definition fat32_vfs_readdir :: "bool \<Rightarrow> nat \<Rightarrow> u32 \<Rightarrow> fat_state \<Rightarrow> ((u8 list \<times> u32) option \<times> fat_state) option" where
  "fat32_vfs_readdir km node index s =
     (if node \<ge> length (fat_nodes s) then Some (None, s)
      else
        let n = fat_nodes s ! node in
        if \<not> is_fat_dir n then Some (None, s)
        else
          let filled =
            (if dir_cache_fs s \<noteq> Some (fa_vol n) \<or> dir_cache_cluster s \<noteq> fa_cluster n
             then (case fat32_list_dir (vol_of s n) (fa_cluster n) km (disks_of s) of
                     None \<Rightarrow> None
                   | Some (_, out) \<Rightarrow> Some (s\<lparr>dir_cache := foldl dir_cache_add [] out,
                       dir_cache_fs := Some (fa_vol n), dir_cache_cluster := fa_cluster n\<rparr>))
             else Some s)
          in (case filled of
                None \<Rightarrow> None
              | Some s1 \<Rightarrow>
                  if unat index \<ge> length (dir_cache s1) then Some (None, s1)
                  else Some (Some (fst (dir_cache s1 ! unat index), index), s1)))"

definition fat32_vfs_finddir ::
    "bool \<Rightarrow> bool \<Rightarrow> bool \<Rightarrow> nat \<Rightarrow> u8 list \<Rightarrow> fat_state \<Rightarrow> (nat option \<times> fat_state) option" where
  "fat32_vfs_finddir km km1 km2 node name s =
     (if node \<ge> length (fat_nodes s) then Some (None, s)
      else
        let n = fat_nodes s ! node in
        if \<not> is_fat_dir n then Some (None, s)
        else
          (case fat32_find_entry (vol_of s n) (fa_cluster n) name km (disks_of s) of
             None \<Rightarrow> None
           | Some None \<Rightarrow> Some (None, s)
           | Some (Some e) \<Rightarrow>
               Some (fat32_create_vfs_node km1 km2 (fa_vol n) (cstr (format_83_name e)) (de_cluster e) (de_size e)
                       (de_attr e) (Some node) s)))"

definition fat32_vfs_create ::
    "bool \<Rightarrow> bool \<Rightarrow> bool \<Rightarrow> nat \<Rightarrow> u8 list \<Rightarrow> u32 \<Rightarrow> fat_state \<Rightarrow> (int \<times> fat_state) option" where
  "fat32_vfs_create km km2 kz node name ty s =
     (if node \<ge> length (fat_nodes s) then Some (-1, s)
      else
        let n = fat_nodes s ! node in
        if \<not> is_fat_dir n then Some (-1, s)
        else
          (case fat32_find_entry (vol_of s n) (fa_cluster n) name km (disks_of s) of
             None \<Rightarrow> None
           | Some (Some _) \<Rightarrow> Some (-2, s)
           | Some None \<Rightarrow>
               (case fat32_create_entry (vol_of s n) (fa_cluster n) name
                   (if ty = 2 then FAT32_ATTR_DIRECTORY else FAT32_ATTR_ARCHIVE) km2 kz (disks_of s) of
                  None \<Rightarrow> None
                | Some (result, _, ds) \<Rightarrow> Some (result, s\<lparr>disks_of := ds, dir_cache_fs := None\<rparr>))))"

text \<open>The search for the entry to remove: the end marker ends only the search of its cluster.\<close>

definition raw_match :: "u8 list \<Rightarrow> u8 list \<Rightarrow> bool" where
  "raw_match name83 e \<longleftrightarrow> e ! 0 \<noteq> 0xE5 \<and> take 8 e = take 8 name83 \<and> take 3 (drop 8 e) = drop 8 name83"

partial_function (option) unlink_loop :: "fat32_fs \<Rightarrow> u32 \<Rightarrow> u8 list \<Rightarrow> disks \<Rightarrow> (int \<times> disks) option" where
  "unlink_loop fs cluster name83 ds =
     (if cluster \<noteq> 0 \<and> cluster < FAT32_CLUSTER_END then
        (case fat32_read_cluster fs cluster ds of
           None \<Rightarrow> Some (-1, ds)
         | Some buf \<Rightarrow>
             (case dir_scan (raw_match name83) (dir_entries fs buf) of
                Hit i \<Rightarrow> Some (0, snd (fat32_write_cluster fs cluster
                                (put_entry i ((dir_entries fs buf ! i)[0 := 0xE5]) buf) ds))
              | _ \<Rightarrow> unlink_loop fs (fat32_next_cluster fs cluster ds) name83 ds))
      else Some (-1, ds))"

definition fat32_vfs_unlink :: "bool \<Rightarrow> bool \<Rightarrow> nat \<Rightarrow> u8 list \<Rightarrow> fat_state \<Rightarrow> (int \<times> fat_state) option" where
  "fat32_vfs_unlink km km2 node name s =
     (if node \<ge> length (fat_nodes s) then Some (-1, s)
      else
        let n = fat_nodes s ! node; fs = vol_of s n in
        if \<not> is_fat_dir n then Some (-1, s)
        else
          (case fat32_find_entry fs (fa_cluster n) name km (disks_of s) of
             None \<Rightarrow> None
           | Some None \<Rightarrow> Some (-1, s)
           | Some (Some e) \<Rightarrow>
               if de_attr e AND FAT32_ATTR_DIRECTORY \<noteq> 0 then Some (-2, s)
               else
                 (case (if de_cluster e \<ge> 2 then map_option snd (fat32_free_cluster_chain fs (de_cluster e) (disks_of s))
                        else Some (disks_of s)) of
                    None \<Rightarrow> None
                  | Some ds1 \<Rightarrow>
                      if \<not> km2 then Some (-1, s\<lparr>disks_of := ds1\<rparr>)
                      else
                        (case unlink_loop fs (fa_cluster n) (fat32_name_to_83 name) ds1 of
                           None \<Rightarrow> None
                         | Some (r, ds2) \<Rightarrow>
                             Some (r, if r = 0 then s\<lparr>disks_of := ds2, dir_cache_fs := None\<rparr> else s\<lparr>disks_of := ds2\<rparr>)))))"

definition fat32_get_vfs_root :: "bool \<Rightarrow> bool \<Rightarrow> nat \<Rightarrow> fat_state \<Rightarrow> nat option \<times> fat_state" where
  "fat32_get_vfs_root km1 km2 vol s =
     (if vol \<ge> length (volumes s) then (None, s)
      else fat32_create_vfs_node km1 km2 vol (map (\<lambda>c. of_char c) ''fat32'') (root_cluster (volumes s ! vol)) 0
             FAT32_ATTR_DIRECTORY None s)"

definition fat32_get_mounted :: "int \<Rightarrow> fat_state \<Rightarrow> nat option" where
  "fat32_get_mounted drv s = (if drv < 0 \<or> drv \<ge> 4 then None else mounted_drives s ! nat drv)"

text \<open>
  The mounting at boot. The result holds the calls of \<open>vfs_mount\<close>: the letter of the disk, whose path is
  \<open>/disks/hd\<close> and the letter, and the root node.
\<close>

definition automount_one :: "(nat \<Rightarrow> bool) \<Rightarrow> nat \<Rightarrow> (char \<times> nat) list \<times> fat_state \<Rightarrow> ((char \<times> nat) list \<times> fat_state) option" where
  "automount_one km i ms = (case ms of (mounts, s) \<Rightarrow>
     (case ata_get_drive (int i) (disks_of s) of
        None \<Rightarrow> Some (mounts, s)
      | Some d \<Rightarrow>
          if \<not> ad_is_ata d then Some (mounts, s)
          else
            (case fat32_mount (int i) 0 (km i) (disks_of s) of
               None \<Rightarrow> None
             | Some None \<Rightarrow> Some (mounts, s)
             | Some (Some fs) \<Rightarrow>
                 let vol = length (volumes s);
                     s1 = s\<lparr>volumes := volumes s @ [fs], mounted_drives := (mounted_drives s)[i := Some vol]\<rparr>;
                     (root, s2) = fat32_get_vfs_root (km (i + 4)) (km (i + 8)) vol s1
                 in (case root of
                       None \<Rightarrow> Some (mounts, s2)
                     | Some r \<Rightarrow> Some (mounts @ [(char_of (97 + i), r)], s2)))))"

definition fat32_automount_all :: "(nat \<Rightarrow> bool) \<Rightarrow> fat_state \<Rightarrow> ((char \<times> nat) list \<times> fat_state) option" where
  "fat32_automount_all km s =
     Option.bind (automount_one km 0 ([], s)) (\<lambda>r. Option.bind (automount_one km 1 r)
       (\<lambda>r. Option.bind (automount_one km 2 r) (automount_one km 3)))"


section \<open>Changing an entry of a directory\<close>

lemma dir_scan_append: "dir_scan w (xs @ ys) =
    (case dir_scan w xs of Stop \<Rightarrow> Stop | Hit i \<Rightarrow> Hit i
     | Miss \<Rightarrow> (case dir_scan w ys of Stop \<Rightarrow> Stop | Hit i \<Rightarrow> Hit (length xs + i) | Miss \<Rightarrow> Miss))"
  by (induction xs) (auto split: scan.splits)

lemma dir_scan_Hit: "dir_scan w es = Hit i \<Longrightarrow> i < length es \<and> es ! i ! 0 \<noteq> 0 \<and> w (es ! i)"
  by (induction es arbitrary: i) (auto split: scan.splits if_splits)

lemma dir_hit_cluster:
  "dir_scan w (dir_all fs ds cs) = Hit k \<Longrightarrow>
     \<exists>us c vs i. cs = us @ c # vs \<and> (\<forall>u \<in> set us. dir_scan w (dir_entries fs (cluster_data fs ds u)) = Miss) \<and>
       dir_scan w (dir_entries fs (cluster_data fs ds c)) = Hit i \<and> k = length (dir_all fs ds us) + i"
proof (induction cs arbitrary: k)
  case (Cons c cs)
  show ?case
  proof (cases "dir_scan w (dir_entries fs (cluster_data fs ds c))")
    case (Hit i)
    then show ?thesis using Cons.prems
      by (intro exI [of _ "[]"] exI [of _ c] exI [of _ cs] exI [of _ i]) (simp add: dir_scan_append)
  next
    case Miss
    then obtain j where j: "dir_scan w (dir_all fs ds cs) = Hit j" "k = cluster_size fs div 32 + j"
      using Cons.prems by (auto simp: dir_scan_append split: scan.splits)
    from Cons.IH [OF j(1)] obtain us b vs i where u: "cs = us @ b # vs"
      "\<forall>u \<in> set us. dir_scan w (dir_entries fs (cluster_data fs ds u)) = Miss"
      "dir_scan w (dir_entries fs (cluster_data fs ds b)) = Hit i" "j = length (dir_all fs ds us) + i" by blast
    then show ?thesis using Miss j(2)
      by (intro exI [of _ "c # us"] exI [of _ b] exI [of _ vs] exI [of _ i]) simp
  qed (use Cons.prems in \<open>simp add: dir_scan_append\<close>)
qed simp

text \<open>\<open>changed fs ds cs k e d\<close>: entry \<open>k\<close> of the directory \<open>cs\<close> is now \<open>e\<close>, and nothing else has changed.\<close>

definition changed :: "fat32_fs \<Rightarrow> disks \<Rightarrow> u32 list \<Rightarrow> nat \<Rightarrow> u8 list \<Rightarrow> disks \<Rightarrow> bool" where
  "changed fs ds cs k e d \<longleftrightarrow> volume fs d \<and> (\<forall>b. valid fs b \<longrightarrow> fat_get fs d b = fat_get fs ds b) \<and>
     (\<forall>b. valid fs b \<longrightarrow> b \<notin> set cs \<longrightarrow> cluster_data fs d b = cluster_data fs ds b) \<and>
     dir_all fs d cs = (dir_all fs ds cs) [k := e]"

lemma change_entry:
  assumes "volume fs ds" and "chain fs ds dir (us @ c # vs)" and "i < cluster_size fs div 32" and "length e = 32"
  shows "changed fs ds (us @ c # vs) (length (dir_all fs ds us) + i) e
    (snd (fat32_write_cluster fs c (put_entry i e (cluster_data fs ds c)) ds))"
proof -
  have v: "\<And>b. b \<in> set (us @ c # vs) \<Longrightarrow> valid fs b" using chain_valid [OF assms(2)] by blast
  have d: "c \<notin> set (us @ vs)" using chain_distinct [OF assms(2)] by simp
  note p = put_cluster [OF assms(1) v assms(3,4) refl, of c, simplified]
  show ?thesis
    unfolding changed_def
    using p v d by (intro conjI dir_all_put [OF assms(1-4)]) auto
qed

lemma changed_chain: "changed fs ds cs k e d \<Longrightarrow> chain fs ds a bs \<Longrightarrow> chain fs d a bs"
  using fat_chain_cong [of bs fs d ds a] chain_valid unfolding changed_def by metis

lemma changed_data: "changed fs ds cs k e d \<Longrightarrow> chain fs ds a bs \<Longrightarrow> set bs \<inter> set cs = {} \<Longrightarrow> chain_data fs d bs = chain_data fs ds bs"
proof -
  assume a: "changed fs ds cs k e d" "chain fs ds a bs" "set bs \<inter> set cs = {}"
  have "cluster_data fs d b = cluster_data fs ds b" if "b \<in> set bs" for b
    using a(1,3) chain_valid [OF a(2) that] that unfolding changed_def by blast
  then show ?thesis unfolding chain_data_def by (metis map_cong)
qed

lemma length_entry:
  assumes "volume fs ds" and "chain fs ds dir cs" and "e \<in> set (dir_all fs ds cs)"
  shows "length e = 32"
proof -
  obtain c where c: "c \<in> set cs" "e \<in> set (dir_entries fs (cluster_data fs ds c))" using assms(3) by (auto simp: dir_all_def)
  then show ?thesis
    using read_content(2) [OF assms(1), of c] chain_valid [OF assms(2) c(1)] entry_fits [of _ fs]
    by (fastforce simp: dir_entries_def)
qed

lemma length_set_size: "length e = 32 \<Longrightarrow> length (set_size sz cl e) = 32"
  by (simp add: set_size_def Let_def)

lemma update_loop_hit:
  assumes v: "volume fs ds" and ch: "chain fs ds dir cs"
    and k: "dir_scan (update_wanted n83) (dir_all fs ds cs) = Hit k"
  obtains d where "update_loop fs dir n83 sz cl ds = Some (0, d)" "changed fs ds cs k (set_size sz cl (dir_all fs ds cs ! k)) d"
proof -
  from dir_hit_cluster [OF k] obtain us c vs i where u: "cs = us @ c # vs"
    "\<forall>u \<in> set us. dir_scan (update_wanted n83) (dir_entries fs (cluster_data fs ds u)) = Miss"
    "dir_scan (update_wanted n83) (dir_entries fs (cluster_data fs ds c)) = Hit i" "k = length (dir_all fs ds us) + i" by blast
  have skip: "chain fs ds a (us @ c # vs) \<Longrightarrow> update_loop fs a n83 sz cl ds = update_loop fs c n83 sz cl ds" for a
    using u(2)
  proof (induction us arbitrary: a)
    case (Cons b us)
    have ch: "chain fs ds a (b # (us @ c # vs))" using Cons.prems(1) by (simp only: append_Cons)
    note n = chain_next [OF v ch]
    have g: "a \<noteq> 0 \<and> a < FAT32_CLUSTER_END" using chain_loop_guard [OF v ch] by simp
    have "update_loop fs a n83 sz cl ds = update_loop fs (fat32_next_cluster fs a ds) n83 sz cl ds"
      using g read_content(1) [OF v n(2)] Cons.prems(2) n(3) by (subst update_loop.simps) simp
    then show ?case using Cons.IH [OF n(1)] Cons.prems(2) by simp
  qed simp
  have c: "valid fs c" using chain_valid [OF ch, of c] u(1) by simp
  have i: "i < cluster_size fs div 32" using dir_scan_Hit [OF u(3)] by simp
  have ek: "dir_all fs ds cs ! k = dir_entries fs (cluster_data fs ds c) ! i"
    using i unfolding u(1,4) by (simp add: nth_append del: nth_dir_entries)
  let ?e = "set_size sz cl (dir_all fs ds cs ! k)"
  have "k < length (dir_all fs ds cs)" using dir_scan_Hit [OF k] by simp
  then have le: "length ?e = 32" using length_entry [OF v ch nth_mem] by (intro length_set_size) simp
  have "update_loop fs dir n83 sz cl ds = Some (0, snd (fat32_write_cluster fs c (put_entry i ?e (cluster_data fs ds c)) ds))"
    unfolding skip [OF ch [unfolded u(1)]] ek
    using read_content(1) [OF v c] u(3) valid_nonzero [OF c] valid_below_end [OF volumeD(1) [OF v] c]
    by (subst update_loop.simps) simp
  then show thesis using change_entry [OF v ch [unfolded u(1)] i le] unfolding u(1) [symmetric] u(4) [symmetric] by (rule that)
qed


lemma set_size_fields:
  assumes "length e = 32"
  shows "take 20 (set_size sz cl e) = take 20 e" "de_size (set_size sz cl e) = sz"
    "cl \<noteq> 0 \<Longrightarrow> de_cluster (set_size sz cl e) = cl"
proof -
  show "take 20 (set_size sz cl e) = take 20 e" using assms by (simp add: set_size_def store32_def store16_def Let_def)
  have s: "de_size (store32 28 sz e) = sz" using rd32_store32 [of 28 e sz] assms by (simp add: de_size_def)
  have keep: "rd32 (store16 i x b) 28 = rd32 b 28" if "i + 2 \<le> 28" "length b = 32" for i x b
  proof -
    have "store16 i x b ! (28 + j) = b ! (28 + j)" if "j < 4" for j
      using \<open>i + 2 \<le> 28\<close> \<open>length b = 32\<close> that by (auto simp: store16_def nth_append)
    from this [of 0] this [of 1] this [of 2] this [of 3] show ?thesis by (simp add: rd32_def)
  qed
  show "de_size (set_size sz cl e) = sz"
    using s keep [of 26] keep [of 20] assms by (simp add: set_size_def de_size_def Let_def)
  show "de_cluster (set_size sz cl e) = cl" if "cl \<noteq> 0"
  proof -
    let ?a = "store16 20 (ucast (drop_bit 16 cl)) (store32 28 sz e)"
    have l: "length ?a = 32" using assms by simp
    have "rd16 (store16 26 (ucast cl) ?a) 20 = rd16 ?a 20"
    proof -
      have "store16 26 (ucast cl) ?a ! j = ?a ! j" if "j < 26" for j using l that by (simp add: store16_def nth_append)
      from this [of 20] this [of 21] show ?thesis by (simp add: rd16_def)
    qed
    moreover have "rd16 ?a 20 = ucast (drop_bit 16 cl)" using assms by (intro rd16_store16) simp
    moreover have "rd16 (store16 26 (ucast cl) ?a) 26 = ucast cl" using l by (intro rd16_store16) simp
    ultimately show ?thesis
      using that unfolding de_cluster_def set_size_def Let_def by (simp only: if_P not_False_eq_True) (rule bit_word_eqI, auto simp: bit_simps)
  qed
qed

lemma same_head:
  assumes "take 20 e = take 20 e'" and "length e = 32" and "length e' = 32"
  shows "e ! 0 = e' ! 0" "de_attr e = de_attr e'" "format_83_name e = format_83_name e'" "find_wanted name e = find_wanted name e'"
    "update_wanted n83 e = update_wanted n83 e'"
proof -
  have n: "e ! j = e' ! j" if "j < 20" for j using assms(1) that by (metis nth_take)
  have t: "take m e = take m e'" if "m \<le> 20" for m using assms(1) that by (metis min.absorb1 take_take)
  have "take 3 (drop 8 e) = take 3 (drop 8 e')" using t [of 11] by (simp add: take_drop)
  note ext = this
  then show f: "format_83_name e = format_83_name e'" unfolding format_83_name_def using t [of 8] n [of 8] by simp
  show h: "e ! 0 = e' ! 0" "de_attr e = de_attr e'" using n by (simp_all add: de_attr_def)
  then show "update_wanted n83 e = update_wanted n83 e'" using t [of 8] ext by (simp add: update_wanted_def)
  from h show "find_wanted name e = find_wanted name e'" using f by (simp add: find_wanted_def listed_def name_match_def)
qed

lemma dir_scan_live: "dir_scan w es = Hit k \<Longrightarrow> w e \<Longrightarrow> e ! 0 \<noteq> 0 \<Longrightarrow> find w (live (es [k := e])) = Some e"
proof (induction es arbitrary: k)
  case (Cons x es)
  then show ?case by (cases k) (auto simp: live_Cons split: scan.splits if_splits)
qed simp

lemma find_loop_hit:
  assumes "volume fs ds" and "chain fs ds dir cs" and "dir_scan (find_wanted name) (dir_all fs ds cs) = Hit k"
  shows "fat32_find_entry fs dir name True ds = Some (Some (dir_all fs ds cs ! k))"
  using find_loop_chain [OF assms(1,2), of name] dir_scan_find [of "find_wanted name" "dir_all fs ds cs" "[]"] assms(3)
  by (simp add: fat32_find_entry_def)

lemma concat_same:
  assumes "volume fs ds" and "volume fs d" and "\<forall>c \<in> set cs. valid fs c" and "chain_data fs d cs = chain_data fs ds cs"
  shows "dir_all fs d cs = dir_all fs ds cs"
proof -
  have "map (cluster_data fs d) cs = map (cluster_data fs ds) cs"
  proof (rule concat_injective)
    show "concat (map (cluster_data fs d) cs) = concat (map (cluster_data fs ds) cs)" using assms(4) by (simp add: chain_data_def)
    show "\<forall>(x, y) \<in> set (zip (map (cluster_data fs d) cs) (map (cluster_data fs ds) cs)). length x = length y"
      using read_content(2) [OF assms(1)] read_content(2) [OF assms(2)] assms(3)
      by (auto simp: set_zip)
  qed simp
  then show ?thesis by (intro dir_all_cong) auto
qed


section \<open>Writing through a node\<close>

text \<open>
  \<open>open_file s node p cs fcs k\<close>: the node of a file with the clusters \<open>fcs\<close>, found in the directory of
  the node \<open>p\<close> with the clusters \<open>cs\<close>, where the entry \<open>k\<close> is the first with its name, for the search
  by name and for the search by the stored 11 bytes.
\<close>

definition open_file :: "fat_state \<Rightarrow> nat \<Rightarrow> nat \<Rightarrow> u32 list \<Rightarrow> u32 list \<Rightarrow> nat \<Rightarrow> bool" where
  "open_file s node p cs fcs k \<longleftrightarrow>
     (let n = fat_nodes s ! node; d = fat_nodes s ! p; fs = vol_of s n; ds = disks_of s in
      node < length (fat_nodes s) \<and> p < length (fat_nodes s) \<and> volume fs ds \<and> fa_parent n = Some p \<and>
      fa_vol d = fa_vol n \<and> \<not> is_fat_dir n \<and> is_fat_dir d \<and> chain fs ds (fa_cluster d) cs \<and>
      chain fs ds (fa_cluster n) fcs \<and> set fcs \<inter> set cs = {} \<and>
      dir_scan (find_wanted (fa_name n)) (dir_all fs ds cs) = Hit k \<and>
      dir_scan (update_wanted (fat32_name_to_83 (fa_name n))) (dir_all fs ds cs) = Hit k \<and>
      de_attr (dir_all fs ds cs ! k) = fa_attr n)"

text \<open>The entry on the disk says what the node says.\<close>

definition recorded :: "fat_state \<Rightarrow> nat \<Rightarrow> u32 list \<Rightarrow> nat \<Rightarrow> bool" where
  "recorded s node cs k \<longleftrightarrow>
     (let n = fat_nodes s ! node; e = dir_all (vol_of s n) (disks_of s) cs ! k in
      de_size e = fa_size n \<and> de_cluster e = fa_cluster n \<and> fa_length n = fa_size n \<and> fa_inode n = fa_cluster n)"

lemma open_fileD:
  assumes "open_file s node p cs fcs k" and "n = fat_nodes s ! node" and "fs = vol_of s n"
  shows "node < length (fat_nodes s)" "p < length (fat_nodes s)" "volume fs (disks_of s)" "fa_parent n = Some p"
    "fa_vol (fat_nodes s ! p) = fa_vol n" "\<not> is_fat_dir n" "is_fat_dir (fat_nodes s ! p)"
    "chain fs (disks_of s) (fa_cluster (fat_nodes s ! p)) cs" "chain fs (disks_of s) (fa_cluster n) fcs" "set fcs \<inter> set cs = {}"
    "dir_scan (find_wanted (fa_name n)) (dir_all fs (disks_of s) cs) = Hit k"
    "dir_scan (update_wanted (fat32_name_to_83 (fa_name n))) (dir_all fs (disks_of s) cs) = Hit k"
    "de_attr (dir_all fs (disks_of s) cs ! k) = fa_attr n" "node \<noteq> p"
  using assms by (auto simp: open_file_def Let_def)

lemma dir_scan_update:
  "dir_scan w es = Hit k \<Longrightarrow> w e \<Longrightarrow> e ! 0 \<noteq> 0 \<Longrightarrow> dir_scan w (es [k := e]) = Hit k"
proof (induction es arbitrary: k)
  case (Cons x es)
  then show ?case by (cases k) (auto split: scan.splits if_splits)
qed simp

text \<open>A write that stores all its data leaves an open file whose entry is up to date.\<close>

lemma vfs_write_all:
  fixes off :: u32
  assumes f: "open_file s node p cs fcs k" and src: "src \<noteq> []" "length src < 2 ^ 31" "unat off + length src < 2 ^ 32"
  shows "\<exists>r s'. fat32_vfs_write True True node off src s = Some (r, s') \<and>
     (r = int (length src) \<longrightarrow> (\<exists>new. open_file s' node p cs (fcs @ new) k \<and> recorded s' node cs k \<and>
        fa_size (fat_nodes s' ! node) = max (fa_size (fat_nodes s ! node)) (off + of_nat (length src)) \<and>
        fa_attr (fat_nodes s' ! node) = fa_attr (fat_nodes s ! node) \<and>
        fa_name (fat_nodes s' ! node) = fa_name (fat_nodes s ! node) \<and>
        fat32_vfs_read True node off (of_nat (length src)) s' = Some (r, src)))"
proof -
  define n fs where "n = fat_nodes s ! node" and "fs = vol_of s n"
  note o = open_fileD [OF f n_def fs_def]
  let ?ds = "disks_of s" and ?dir = "fa_cluster (fat_nodes s ! p)"
  obtain r cl sz ds1 where w: "fat32_write_file fs (fa_cluster n) (fa_size n) off src True ?ds = Some (r, cl, sz, ds1)"
    using write_file_spec [OF o(3,9) src, of "fa_size n"] by (auto split: option.splits)
  obtain new m where spec: "r = int m \<or> r = -1 \<and> m = 0" "m \<le> length src" "volume fs ds1" "chain fs ds1 cl (fcs @ new)"
    "\<forall>b \<in> set new. valid fs b \<and> fat_get fs ?ds b = 0"
    "chain_data fs ds1 (fcs @ new) = overlay (unat off) (take m src) (chain_data fs ?ds (fcs @ new))"
    "\<And>a cs2. chain fs ?ds a cs2 \<Longrightarrow> set cs2 \<inter> set fcs = {} \<Longrightarrow> chain fs ds1 a cs2 \<and> chain_data fs ds1 cs2 = chain_data fs ?ds cs2"
    "m = length src \<Longrightarrow> sz = max (fa_size n) (off + of_nat m) \<and> fat32_read_file fs cl sz off (of_nat m) True ds1 = Some (int m, src)"
    using write_file_spec [OF o(3,9) src, of "fa_size n"] unfolding w option.case prod.case by blast
  show ?thesis
  proof (cases "r \<le> 0")
    case True
    have "fat32_vfs_write True True node off src s = Some (r, s\<lparr>disks_of := ds1\<rparr>)"
      using True o(1,6) w by (simp add: fat32_vfs_write_def n_def fs_def)
    moreover have "r \<noteq> int (length src)" using True src(1) by (cases src) auto
    ultimately show ?thesis by simp
  next
    case False
    then have m: "r = int m" "0 < m" using spec(1) by auto
    have "fcs @ new \<noteq> []"
    proof
      assume "fcs @ new = []"
      then show False using spec(6) m(2) src(1) by (simp add: overlay_def)
    qed
    then obtain b where "b \<in> set (fcs @ new)" "cl = b" using spec(4) by (cases "fcs @ new") auto
    then have cl: "cl \<noteq> 0" using chain_valid [OF spec(4)] valid_nonzero by blast
    have dch: "chain fs ds1 ?dir cs" "chain_data fs ds1 cs = chain_data fs ?ds cs" using spec(7) [OF o(8)] o(10) by auto
    have dall: "dir_all fs ds1 cs = dir_all fs ?ds cs"
      using concat_same [OF o(3) spec(3)] chain_valid [OF o(8)] dch(2) by blast
    let ?n83 = "fat32_name_to_83 (fa_name n)" and ?e = "dir_all fs ?ds cs ! k"
    obtain d where d: "update_loop fs ?dir ?n83 sz cl ds1 = Some (0, d)" "changed fs ds1 cs k (set_size sz cl ?e) d"
      using update_loop_hit [OF spec(3) dch(1), of ?n83 k sz cl] o(12) unfolding dall by blast
    let ?n' = "n\<lparr>fa_cluster := cl, fa_size := sz, fa_length := sz, fa_inode := cl\<rparr>"
    let ?s' = "s\<lparr>disks_of := d, fat_nodes := (fat_nodes s)[node := ?n'], dir_cache_fs := None\<rparr>"
    have vw: "fat32_vfs_write True True node off src s = Some (r, ?s')"
      using False o(1,4,6,14) w d(1) by (simp add: fat32_vfs_write_def fat32_update_entry_size_def n_def fs_def Let_def)
    have kl: "k < length (dir_all fs ?ds cs)" "?e ! 0 \<noteq> 0" "find_wanted (fa_name n) ?e" "update_wanted ?n83 ?e"
      using dir_scan_Hit [OF o(11)] dir_scan_Hit [OF o(12)] by simp_all
    have le: "length ?e = 32" using length_entry [OF o(3,8) nth_mem [OF kl(1)]] .
    note e' = same_head [OF set_size_fields(1) [OF le, of sz cl] length_set_size [OF le] le]
    have vd: "volume fs d" "dir_all fs d cs = (dir_all fs ?ds cs) [k := set_size sz cl ?e]"
      using d(2) dall by (simp_all add: changed_def)
    have fch: "chain fs d cl (fcs @ new)" by (rule changed_chain [OF d(2) spec(4)])
    have disj: "set (fcs @ new) \<inter> set cs = {}" using o(10) spec(5) chain_valid [OF o(8)] by auto
    have full: "\<exists>new. open_file ?s' node p cs (fcs @ new) k \<and> recorded ?s' node cs k \<and>
        fa_size (fat_nodes ?s' ! node) = max (fa_size (fat_nodes s ! node)) (off + of_nat (length src)) \<and>
        fa_attr (fat_nodes ?s' ! node) = fa_attr (fat_nodes s ! node) \<and>
        fa_name (fat_nodes ?s' ! node) = fa_name (fat_nodes s ! node) \<and>
        fat32_vfs_read True node off (of_nat (length src)) ?s' = Some (r, src)" if all: "r = int (length src)"
    proof (intro exI conjI)
      have ml: "m = length src" using m(1) all by simp
      have fsv: "vol_of ?s' ?n' = fs" by (simp add: vol_of_def fs_def)
      have nn: "fat_nodes ?s' ! node = ?n'" "fat_nodes ?s' ! p = fat_nodes s ! p" using o(1,14) by simp_all
      have scan: "dir_scan (find_wanted (fa_name n)) (dir_all fs d cs) = Hit k" "dir_scan (update_wanted ?n83) (dir_all fs d cs) = Hit k"
        unfolding vd(2) by (rule dir_scan_update; use o(11,12) e' kl in simp)+
      show "open_file ?s' node p cs (fcs @ new) k"
        unfolding open_file_def Let_def nn fsv
        using o(1,2,4-7) vd fch disj changed_chain [OF d(2) dch(1)] scan e'(2) o(13) kl(1)
        by (simp add: is_fat_dir_def)
      show "recorded ?s' node cs k"
        unfolding recorded_def Let_def nn fsv using vd(2) kl(1) set_size_fields(2,3) [OF le] cl by simp
      show "fa_size (fat_nodes ?s' ! node) = max (fa_size (fat_nodes s ! node)) (off + of_nat (length src))"
        unfolding nn using spec(8) [OF ml] ml by (simp add: n_def)
      show "fa_attr (fat_nodes ?s' ! node) = fa_attr (fat_nodes s ! node)"
        "fa_name (fat_nodes ?s' ! node) = fa_name (fat_nodes s ! node)" unfolding nn by (simp_all add: n_def)
      have rd: "fat32_read_file fs cl sz off (of_nat m) True ds1 = Some (int m, src)" by (rule spec(8) [OF ml, THEN conjunct2])
      then have lt: "off < sz" using src(1) by (auto simp: fat32_read_file_def not_le split: if_splits)
      have "fat32_read_file fs cl sz off (of_nat m) True d = fat32_read_file fs cl sz off (of_nat m) True ds1"
        unfolding read_file_chain [OF vd(1) fch lt] read_file_chain [OF spec(3,4) lt] changed_data [OF d(2) spec(4) disj] ..
      then show "fat32_vfs_read True node off (of_nat (length src)) ?s' = Some (r, src)"
        unfolding fat32_vfs_read_def Let_def nn fsv using o(1,6) rd ml m(1) by (simp add: is_fat_dir_def)
    qed
    show ?thesis using vw full by blast
  qed
qed


lemma finddir_open:
  assumes f: "open_file s node p cs fcs k"
  defines "n \<equiv> fat_nodes s ! node"
  defines "e \<equiv> dir_all (vol_of s n) (disks_of s) cs ! k"
  shows "fat32_vfs_finddir True True True p (fa_name n) s =
    Some (Some (length (fat_nodes s)), s\<lparr>fat_nodes := fat_nodes s @
      [\<lparr>fa_name = take 63 (cstr (format_83_name e)), fa_flags = 1, fa_length = de_size e, fa_inode = de_cluster e, fa_parent = Some p,
        fa_vol = fa_vol n, fa_cluster = de_cluster e, fa_size = de_size e, fa_attr = fa_attr n\<rparr>]\<rparr>)"
proof -
  note o = open_fileD [OF f refl refl, folded n_def]
  have v: "vol_of s (fat_nodes s ! p) = vol_of s n" using o(5) by (simp add: vol_of_def)
  show ?thesis
    using find_loop_hit [OF o(3,8,11)] o(2,5,6,7,13)
    by (simp add: fat32_vfs_finddir_def fat32_create_vfs_node_def v e_def is_fat_dir_def Let_def)
qed

text \<open>
  C30. What is written to an open file is on the disk for everyone who opens it. If a write through a
  node of a FAT32 file stores all its data, then looking the name up in the directory gives a node with
  the first cluster and the new size, and reading from that node at the offset returns the data. The
  write always returns.
\<close>

theorem fat_vfs_write_found:
  assumes "open_file s node p cs fcs k" and "src \<noteq> []" and "length src < 2 ^ 31" and "unat off + length src < 2 ^ 32"
  shows "\<exists>r s'. fat32_vfs_write True True node off src s = Some (r, s') \<and> (r = int (length src) \<longrightarrow>
      (\<exists>m s''. fat32_vfs_finddir True True True p (fa_name (fat_nodes s ! node)) s' = Some (Some m, s'') \<and> m \<noteq> node \<and>
         fa_length (fat_nodes s'' ! m) = max (fa_size (fat_nodes s ! node)) (off + of_nat (length src)) \<and>
         fat32_vfs_read True m off (of_nat (length src)) s'' = Some (r, src)))"
proof -
  obtain r s' where w: "fat32_vfs_write True True node off src s = Some (r, s')" and all: "r = int (length src) \<Longrightarrow>
      (\<exists>new. open_file s' node p cs (fcs @ new) k) \<and> recorded s' node cs k \<and>
        fa_size (fat_nodes s' ! node) = max (fa_size (fat_nodes s ! node)) (off + of_nat (length src)) \<and>
        fa_name (fat_nodes s' ! node) = fa_name (fat_nodes s ! node) \<and>
        fat32_vfs_read True node off (of_nat (length src)) s' = Some (r, src)"
    using vfs_write_all [OF assms] by blast
  show ?thesis
  proof (cases "r = int (length src)")
    case False
    then show ?thesis using w by simp
  next
    case True
    let ?n = "fat_nodes s' ! node"
    from all [OF True] obtain new where a: "open_file s' node p cs (fcs @ new) k" "recorded s' node cs k"
      "fa_size ?n = max (fa_size (fat_nodes s ! node)) (off + of_nat (length src))" "fa_name ?n = fa_name (fat_nodes s ! node)"
      "fat32_vfs_read True node off (of_nat (length src)) s' = Some (r, src)" by blast
    note o = open_fileD [OF a(1) refl refl]
    show ?thesis
      using w True finddir_open [OF a(1)] a(2-5) o(1,6)
      by (auto simp: recorded_def Let_def fat32_vfs_read_def vol_of_def is_fat_dir_def nth_append)
  qed
qed


section \<open>Unlinking\<close>

lemma unlink_loop_hit:
  assumes v: "volume fs ds" and ch: "chain fs ds dir cs"
    and k: "dir_scan (raw_match n83) (dir_all fs ds cs) = Hit k"
  obtains d where "unlink_loop fs dir n83 ds = Some (0, d)" "changed fs ds cs k ((dir_all fs ds cs ! k)[0 := 0xE5]) d"
proof -
  from dir_hit_cluster [OF k] obtain us c vs i where u: "cs = us @ c # vs"
    "\<forall>u \<in> set us. dir_scan (raw_match n83) (dir_entries fs (cluster_data fs ds u)) = Miss"
    "dir_scan (raw_match n83) (dir_entries fs (cluster_data fs ds c)) = Hit i" "k = length (dir_all fs ds us) + i" by blast
  have skip: "chain fs ds a (us @ c # vs) \<Longrightarrow> unlink_loop fs a n83 ds = unlink_loop fs c n83 ds" for a
    using u(2)
  proof (induction us arbitrary: a)
    case (Cons b us)
    have ch: "chain fs ds a (b # (us @ c # vs))" using Cons.prems(1) by (simp only: append_Cons)
    note n = chain_next [OF v ch]
    have g: "a \<noteq> 0 \<and> a < FAT32_CLUSTER_END" using chain_loop_guard [OF v ch] by simp
    have "unlink_loop fs a n83 ds = unlink_loop fs (fat32_next_cluster fs a ds) n83 ds"
      using g read_content(1) [OF v n(2)] Cons.prems(2) n(3) by (subst unlink_loop.simps) simp
    then show ?case using Cons.IH [OF n(1)] Cons.prems(2) by simp
  qed simp
  have c: "valid fs c" using chain_valid [OF ch, of c] u(1) by simp
  have i: "i < cluster_size fs div 32" using dir_scan_Hit [OF u(3)] by simp
  have ek: "dir_all fs ds cs ! k = dir_entries fs (cluster_data fs ds c) ! i"
    using i unfolding u(1,4) by (simp add: nth_append del: nth_dir_entries)
  let ?e = "(dir_all fs ds cs ! k)[0 := 0xE5]"
  have "k < length (dir_all fs ds cs)" using dir_scan_Hit [OF k] by simp
  then have le: "length ?e = 32" using length_entry [OF v ch nth_mem] by simp
  have "unlink_loop fs dir n83 ds = Some (0, snd (fat32_write_cluster fs c (put_entry i ?e (cluster_data fs ds c)) ds))"
    unfolding skip [OF ch [unfolded u(1)]] ek
    using read_content(1) [OF v c] u(3) valid_nonzero [OF c] valid_below_end [OF volumeD(1) [OF v] c]
    by (subst unlink_loop.simps) simp
  then show thesis using change_entry [OF v ch [unfolded u(1)] i le] unfolding u(1) [symmetric] u(4) [symmetric] by (rule that)
qed

text \<open>
  The entry found by name is \<open>k\<close>; the entry that is removed is \<open>j\<close>, the first with the same 11 bytes.
\<close>

lemma vfs_unlink_effect:
  assumes "node < length (fat_nodes s)" and "is_fat_dir (fat_nodes s ! node)"
  defines "fs \<equiv> vol_of s (fat_nodes s ! node)" and "ds \<equiv> disks_of s"
  assumes v: "volume fs ds" and ch: "chain fs ds (fa_cluster (fat_nodes s ! node)) cs"
    and k: "dir_scan (find_wanted name) (dir_all fs ds cs) = Hit k"
    and j: "dir_scan (raw_match (fat32_name_to_83 name)) (dir_all fs ds cs) = Hit j"
    and plain: "de_attr (dir_all fs ds cs ! k) AND FAT32_ATTR_DIRECTORY = 0"
    and fch: "chain fs ds (de_cluster (dir_all fs ds cs ! k)) fcs" and disj: "set fcs \<inter> set cs = {}"
  obtains d where "fat32_vfs_unlink True True node name s = Some (0, s\<lparr>disks_of := d, dir_cache_fs := None\<rparr>)"
    "volume fs d" "\<And>b. valid fs b \<Longrightarrow> fat_get fs d b = (if b \<in> set fcs then 0 else fat_get fs ds b)"
    "dir_all fs d cs = (dir_all fs ds cs) [j := (dir_all fs ds cs ! j)[0 := 0xE5]]"
    "\<And>b. valid fs b \<Longrightarrow> b \<notin> set cs \<Longrightarrow> cluster_data fs d b = cluster_data fs ds b"
proof -
  let ?e = "dir_all fs ds cs ! k" and ?dir = "fa_cluster (fat_nodes s ! node)"
  have fe: "fat32_find_entry fs ?dir name True ds = Some (Some ?e)" by (rule find_loop_hit [OF v ch k])
  obtain ds1 where ds1: "free_loop fs (de_cluster ?e) ds = Some ds1" "volume fs ds1"
    "\<And>b. valid fs b \<Longrightarrow> fat_get fs ds1 b = (if b \<in> set fcs then 0 else fat_get fs ds b) \<and> cluster_data fs ds1 b = cluster_data fs ds b"
    using free_loop_chain [OF v fch] by blast
  have freed: "(if de_cluster ?e \<ge> 2 then map_option snd (fat32_free_cluster_chain fs (de_cluster ?e) ds) else Some ds) = Some ds1"
  proof (cases "de_cluster ?e \<ge> 2")
    case True
    then show ?thesis using ds1(1) by (simp add: fat32_free_cluster_chain_def)
  next
    case False
    then have "free_loop fs (de_cluster ?e) ds = Some ds" by (subst free_loop.simps) simp
    then show ?thesis using False ds1(1) by simp
  qed
  have same: "dir_all fs ds1 cs = dir_all fs ds cs"
    by (rule dir_all_cong) (use ds1(3) chain_valid [OF ch] in blast)
  have "fat_get fs ds1 b = fat_get fs ds b" if "b \<in> set cs" for b
    using ds1(3) [of b] chain_valid [OF ch that] disj that by auto
  then have ch1: "chain fs ds1 ?dir cs" using fat_chain_cong [of cs fs ds1 ds ?dir] ch by simp
  obtain d where d: "unlink_loop fs ?dir (fat32_name_to_83 name) ds1 = Some (0, d)"
    "changed fs ds1 cs j ((dir_all fs ds cs ! j)[0 := 0xE5]) d"
    using unlink_loop_hit [OF ds1(2) ch1, of "fat32_name_to_83 name" j] j unfolding same by blast
  have "fat32_vfs_unlink True True node name s = Some (0, s\<lparr>disks_of := d, dir_cache_fs := None\<rparr>)"
    using assms(1,2) plain fe freed d(1) unfolding fat32_vfs_unlink_def Let_def fs_def [symmetric] ds_def [symmetric] by simp
  then show thesis
  proof (rule that)
    show "volume fs d" "dir_all fs d cs = (dir_all fs ds cs) [j := (dir_all fs ds cs ! j)[0 := 0xE5]]"
      using d(2) by (simp_all add: changed_def same)
    show "fat_get fs d b = (if b \<in> set fcs then 0 else fat_get fs ds b)" if "valid fs b" for b
      using d(2) ds1(3) [OF that] that by (simp add: changed_def)
    show "cluster_data fs d b = cluster_data fs ds b" if "valid fs b" "b \<notin> set cs" for b
      using d(2) ds1(3) [OF that(1)] that by (simp add: changed_def)
  qed
qed


text \<open>
  Unlinking a file removes its entry and frees exactly its clusters. If the first entry with the
  stored bytes of the name is the file that the name finds, unlinking returns 0; afterwards that entry is
  marked unused and every other entry of the directory is as before, the clusters of the file are free,
  and the table and the data of all other clusters outside the directory are as before.
\<close>

theorem fat_vfs_unlink:
  fixes s node
  defines "fs \<equiv> vol_of s (fat_nodes s ! node)" and "ds \<equiv> disks_of s"
  assumes "node < length (fat_nodes s)" and "is_fat_dir (fat_nodes s ! node)" and "volume fs ds"
    and "chain fs ds (fa_cluster (fat_nodes s ! node)) cs" and "chain fs ds (de_cluster (dir_all fs ds cs ! k)) fcs"
    and "set fcs \<inter> set cs = {}" and "dir_scan (find_wanted name) (dir_all fs ds cs) = Hit k"
    and "dir_scan (raw_match (fat32_name_to_83 name)) (dir_all fs ds cs) = Hit k"
    and "de_attr (dir_all fs ds cs ! k) AND FAT32_ATTR_DIRECTORY = 0"
  shows "\<exists>d. fat32_vfs_unlink True True node name s = Some (0, s\<lparr>disks_of := d, dir_cache_fs := None\<rparr>) \<and>
     volume fs d \<and> (\<forall>b. valid fs b \<longrightarrow> fat_get fs d b = (if b \<in> set fcs then 0 else fat_get fs ds b) \<and>
       (b \<notin> set cs \<longrightarrow> cluster_data fs d b = cluster_data fs ds b)) \<and>
     dir_all fs d cs = (dir_all fs ds cs) [k := (dir_all fs ds cs ! k)[0 := 0xE5]]"
  using vfs_unlink_effect [OF assms(3,4) assms(5,6,9,10,11,7,8) [unfolded fs_def ds_def]]
  unfolding fs_def ds_def by metis

text \<open>
  If another entry with the same 11 bytes comes first, as the label of the volume may, that entry is
  removed instead: the file is still found, but its clusters are free.
\<close>

theorem fat_vfs_unlink_wrong_entry:
  fixes s node
  defines "fs \<equiv> vol_of s (fat_nodes s ! node)" and "ds \<equiv> disks_of s"
  assumes "node < length (fat_nodes s)" and "is_fat_dir (fat_nodes s ! node)" and "volume fs ds"
    and "chain fs ds (fa_cluster (fat_nodes s ! node)) cs" and "chain fs ds (de_cluster (dir_all fs ds cs ! k)) fcs"
    and "set fcs \<inter> set cs = {}" and "dir_scan (find_wanted name) (dir_all fs ds cs) = Hit k"
    and "dir_scan (raw_match (fat32_name_to_83 name)) (dir_all fs ds cs) = Hit j" and "j < k"
    and "de_attr (dir_all fs ds cs ! k) AND FAT32_ATTR_DIRECTORY = 0"
  shows "\<exists>s'. fat32_vfs_unlink True True node name s = Some (0, s') \<and>
     fat32_find_entry fs (fa_cluster (fat_nodes s ! node)) name True (disks_of s') = Some (Some (dir_all fs ds cs ! k)) \<and>
     (\<forall>b \<in> set fcs. fat_get fs (disks_of s') b = 0)"
proof -
  let ?dir = "fa_cluster (fat_nodes s ! node)" and ?es = "dir_all fs ds cs"
  note eff = vfs_unlink_effect [OF assms(3,4) assms(5,6,9,10,12,7,8) [unfolded fs_def ds_def], folded fs_def ds_def]
  obtain d where d: "fat32_vfs_unlink True True node name s = Some (0, s\<lparr>disks_of := d, dir_cache_fs := None\<rparr>)"
    "volume fs d" "\<And>b. valid fs b \<Longrightarrow> fat_get fs d b = (if b \<in> set fcs then 0 else fat_get fs ds b)"
    "dir_all fs d cs = ?es [j := (?es ! j)[0 := 0xE5]]" using eff by metis
  have ch: "chain fs d ?dir cs"
    using fat_chain_cong [of cs fs d ds ?dir] d(3) chain_valid [OF assms(6)] assms(6,8) by (metis disjoint_iff)
  have len: "length (?es ! j) = 32"
    using length_entry [OF assms(5,6) nth_mem] dir_scan_Hit [OF assms(10)] by blast
  have nw: "\<not> find_wanted name ((?es ! j)[0 := 0xE5])" "(?es ! j)[0 := 0xE5] ! 0 \<noteq> 0"
    using len by (simp_all add: find_wanted_def listed_def)
  have skip: "dir_scan w es = Hit k \<Longrightarrow> j < k \<Longrightarrow> \<not> w e \<Longrightarrow> e ! 0 \<noteq> 0 \<Longrightarrow> dir_scan w (es [j := e]) = Hit k" for w es e j k
  proof (induction es arbitrary: j k)
    case (Cons x es)
    then show ?case by (cases j; cases k) (auto split: scan.splits if_splits)
  qed simp
  have "dir_scan (find_wanted name) (dir_all fs d cs) = Hit k"
    unfolding d(4) using skip [OF assms(9,11) nw] .
  from find_loop_hit [OF d(2) ch this] have "fat32_find_entry fs ?dir name True d = Some (Some (?es ! k))"
    unfolding d(4) using assms(11) by simp
  then show ?thesis using d(1,3) chain_valid [OF assms(7)] by auto
qed


section \<open>A small volume with a file\<close>

text \<open>The root directory, cluster 2, holds the file \<open>AB.C\<close> of 10 bytes, whose clusters are 3 and 5.\<close>

abbreviation demo_name :: "u8 list" where "demo_name \<equiv> short_name [0x41, 0x42] [0x43]"

definition demo_entry :: "u8 list" where
  "demo_entry = set_size 10 3 (new_entry (fat32_name_to_83 demo_name) FAT32_ATTR_ARCHIVE 0)"

definition demo_tree0 :: disks where
  "demo_tree0 = with_entries demo_fs [(2, 0x0FFFFFFF), (3, 5), (5, 0x0FFFFFFF)] demo_disks"

definition demo_tree :: disks where
  "demo_tree = snd (fat32_write_cluster demo_fs 2 (put_entry 0 demo_entry (cluster_data demo_fs demo_tree0 2)) demo_tree0)"

definition demo_state :: fat_state where
  "demo_state = \<lparr>disks_of = demo_tree, volumes = [demo_fs], mounted_drives = [Some 0, None, None, None],
     fat_nodes = [\<lparr>fa_name = [], fa_flags = 2, fa_length = 0, fa_inode = 2, fa_parent = None, fa_vol = 0,
         fa_cluster = 2, fa_size = 0, fa_attr = FAT32_ATTR_DIRECTORY\<rparr>,
       \<lparr>fa_name = demo_name, fa_flags = 1, fa_length = 10, fa_inode = 3, fa_parent = Some 0, fa_vol = 0,
         fa_cluster = 3, fa_size = 10, fa_attr = FAT32_ATTR_ARCHIVE\<rparr>],
     dir_cache = [], dir_cache_cluster = 0, dir_cache_fs = None\<rparr>"

lemma demo_entry:
  shows "length demo_entry = 32" "demo_entry ! 0 \<noteq> 0" "find_wanted demo_name demo_entry"
    "update_wanted (fat32_name_to_83 demo_name) demo_entry" "raw_match (fat32_name_to_83 demo_name) demo_entry"
    "de_attr demo_entry = FAT32_ATTR_ARCHIVE" "de_cluster demo_entry = 3"
proof -
  let ?e = "new_entry (fat32_name_to_83 demo_name) FAT32_ATTR_ARCHIVE 0"
  have sp: "short_parts [0x41, 0x42] [0x43]" by (simp add: short_parts_def plain_char_def)
  have l: "length ?e = 32" by simp
  note h = same_head [OF set_size_fields(1) [OF l, of 10 3] length_set_size [OF l] l, folded demo_entry_def]
  note se = short_entry [OF sp, where attr = FAT32_ATTR_ARCHIVE and n = 0]
  show "length demo_entry = 32" unfolding demo_entry_def by (rule length_set_size [OF l])
  show "demo_entry ! 0 \<noteq> 0" "find_wanted demo_name demo_entry" using h se cstr_short [OF sp] by simp_all
  show at: "de_attr demo_entry = FAT32_ATTR_ARCHIVE" unfolding h(2) by (simp add: new_entry_fields)
  have "update_wanted (fat32_name_to_83 demo_name) ?e"
    unfolding update_wanted_def using se(2) by (simp add: new_entry_fields) (simp add: new_entry_def)
  then show u: "update_wanted (fat32_name_to_83 demo_name) demo_entry" unfolding h(5) .
  then show "raw_match (fat32_name_to_83 demo_name) demo_entry" by (simp add: update_wanted_def raw_match_def)
  show "de_cluster demo_entry = 3" unfolding demo_entry_def by (rule set_size_fields(3) [OF l]) simp
qed

lemma demo_tree:
  shows "volume demo_fs demo_tree" "chain demo_fs demo_tree 2 [2]" "chain demo_fs demo_tree 3 [3, 5]"
    "dir_all demo_fs demo_tree [2] = (blanks demo_fs [2]) [0 := demo_entry]"
proof -
  have w: "volume demo_fs demo_tree0 \<and> (\<forall>b. valid demo_fs b \<longrightarrow>
      fat_get demo_fs demo_tree0 b = (if b = 2 then 0x0FFFFFFF else if b = 3 then 5 else if b = 5 then 0x0FFFFFFF else 0) \<and>
      cluster_data demo_fs demo_tree0 b = cluster_data demo_fs demo_disks b)"
    using with_entries [OF demo_volume, of "[(2, 0x0FFFFFFF), (3, 5), (5, 0x0FFFFFFF)]"]
    by (simp add: demo_tree0_def demo_valid demo_free)
  then have ch: "chain demo_fs demo_tree0 2 [2]" "chain demo_fs demo_tree0 3 [3, 5]" by (simp_all add: demo_valid word_le_nat_alt)
  have c: "cluster_size demo_fs = 512" by (simp add: cluster_size_def demo_fs_def)
  have "cluster_data demo_fs demo_tree0 2 = replicate (cluster_size demo_fs) 0"
    using w demo_data by (simp only: c demo_valid) simp
  then have d0: "dir_all demo_fs demo_tree0 [2] = blanks demo_fs [2]" by (simp add: dir_entries_zero blanks_def)
  have c0: "changed demo_fs demo_tree0 [2] 0 demo_entry demo_tree"
    using change_entry [of demo_fs demo_tree0 2 "[]" 2 "[]" 0 demo_entry] w ch(1) demo_entry(1)
    by (simp add: demo_tree_def c del: chain.simps)
  then show "volume demo_fs demo_tree" "dir_all demo_fs demo_tree [2] = (blanks demo_fs [2]) [0 := demo_entry]"
    using d0 by (simp_all add: changed_def del: dir_all_simps)
  show "chain demo_fs demo_tree 2 [2]" "chain demo_fs demo_tree 3 [3, 5]"
    by (rule changed_chain [OF c0 ch(1)], rule changed_chain [OF c0 ch(2)])
qed

lemma demo_hit: "w demo_entry \<Longrightarrow> dir_scan w (dir_all demo_fs demo_tree [2]) = Hit 0"
  "dir_all demo_fs demo_tree [2] ! 0 = demo_entry"
proof -
  have b: "blanks demo_fs [2] = blank # replicate 15 blank"
    using replicate_Suc [of 15 blank] by (simp add: blanks_def cluster_size_def demo_fs_def)
  show "w demo_entry \<Longrightarrow> dir_scan w (dir_all demo_fs demo_tree [2]) = Hit 0"
    "dir_all demo_fs demo_tree [2] ! 0 = demo_entry"
    unfolding demo_tree(4) b using demo_entry(2) by simp_all
qed

lemma demo_open: "open_file demo_state 1 0 [2] [3, 5] 0"
proof -
  have v: "vol_of demo_state (fat_nodes demo_state ! Suc 0) = demo_fs" by (simp add: vol_of_def demo_state_def)
  show ?thesis
    unfolding open_file_def Let_def One_nat_def v
    using demo_tree(1-3) demo_hit demo_entry
    by (simp add: demo_state_def is_fat_dir_def del: chain.simps dir_all_simps)
qed

theorem fat_vfs_write_found_witness:
  "\<exists>r s'. fat32_vfs_write True True 1 8 [7, 7, 7] demo_state = Some (r, s') \<and>
    (r = 3 \<longrightarrow> (\<exists>m s''. fat32_vfs_finddir True True True 0 demo_name s' = Some (Some m, s'') \<and>
       fa_length (fat_nodes s'' ! m) = 11 \<and> fat32_vfs_read True m 8 3 s'' = Some (3, [7, 7, 7])))"
proof -
  have n: "fa_name (fat_nodes demo_state ! 1) = demo_name" "fa_size (fat_nodes demo_state ! 1) = 10" by (simp_all add: demo_state_def)
  show ?thesis
    using fat_vfs_write_found [OF demo_open, of "[7, 7, 7]" 8] unfolding n by auto
qed

theorem fat_vfs_unlink_witness:
  "\<exists>d. fat32_vfs_unlink True True 0 demo_name demo_state = Some (0, demo_state\<lparr>disks_of := d, dir_cache_fs := None\<rparr>) \<and>
     fat_get demo_fs d 3 = 0 \<and> fat_get demo_fs d 5 = 0"
proof -
  have n: "vol_of demo_state (fat_nodes demo_state ! 0) = demo_fs" "disks_of demo_state = demo_tree"
    "fa_cluster (fat_nodes demo_state ! 0) = 2" "is_fat_dir (fat_nodes demo_state ! 0)" "0 < length (fat_nodes demo_state)"
    by (simp_all add: demo_state_def vol_of_def is_fat_dir_def)
  have vv: "valid demo_fs 3" "valid demo_fs 5" by (simp_all add: demo_valid)
  have ch: "chain demo_fs demo_tree (de_cluster (dir_all demo_fs demo_tree [2] ! 0)) [3, 5]"
    unfolding demo_hit(2) demo_entry(7) by (rule demo_tree(3))
  have at: "de_attr (dir_all demo_fs demo_tree [2] ! 0) AND FAT32_ATTR_DIRECTORY = 0"
    unfolding demo_hit(2) demo_entry(6) by simp
  have dj: "set [3, 5 :: u32] \<inter> set [2] = {}" by simp
  obtain d where d: "fat32_vfs_unlink True True 0 demo_name demo_state = Some (0, demo_state\<lparr>disks_of := d, dir_cache_fs := None\<rparr>)"
    "\<forall>b. valid demo_fs b \<longrightarrow> fat_get demo_fs d b = (if b \<in> set [3, 5] then 0 else fat_get demo_fs demo_tree b)"
    using fat_vfs_unlink [OF n(5,4), unfolded n, OF demo_tree(1,2) ch dj demo_hit(1) [of "find_wanted demo_name", OF demo_entry(3)]
      demo_hit(1) [of "raw_match (fat32_name_to_83 demo_name)", OF demo_entry(5)] at]
    by blast
  then show ?thesis using vv by auto
qed

end
