(* ===== verification/Kbd.thy ===== *)
theory Kbd
  imports Interfaces
begin

text \<open>
  The PS/2 keyboard, \<open>kernel/drivers/keyboard/keyboard.c\<close>: the decoder of scan codes and the ring of key
  events between the interrupt handler and the readers. What the interrupt handler reads from the ports
  is an argument, the list of pairs of status and data.

  Main result: whatever text of keyboard characters is typed, the events in the ring spell it.
\<close>

record key_event =
  ke_scancode :: u8
  ke_pressed :: bool
  ke_extended :: bool
  ke_modifiers :: u8
  ke_ascii :: u8

record kbd =
  event_buffer :: "key_event list"
  event_head :: u32
  event_tail :: u32
  extended_key :: bool
  e1_state :: nat
  shift_pressed :: bool
  ctrl_pressed :: bool
  alt_pressed :: bool
  caps_lock :: bool
  right_ctrl :: bool
  right_alt :: bool

abbreviation EVENT_BUFFER_SIZE :: nat where "EVENT_BUFFER_SIZE \<equiv> 64"
abbreviation KEY_MOD_SHIFT :: u8 where "KEY_MOD_SHIFT \<equiv> 1"
abbreviation KEY_MOD_CTRL :: u8 where "KEY_MOD_CTRL \<equiv> 2"
abbreviation KEY_MOD_ALT :: u8 where "KEY_MOD_ALT \<equiv> 4"
abbreviation KEY_MOD_CAPS :: u8 where "KEY_MOD_CAPS \<equiv> 8"

definition scancode_to_ascii :: "u8 list" where
  "scancode_to_ascii =
     [0, 27, 49, 50, 51, 52, 53, 54, 55, 56, 57, 48, 45, 61, 8, 9, 113, 119, 101, 114, 116, 121, 117, 105,
      111, 112, 91, 93, 10, 0, 97, 115, 100, 102, 103, 104, 106, 107, 108, 59, 39, 96, 0, 92, 122, 120, 99, 118,
      98, 110, 109, 44, 46, 47, 0, 42, 0, 32, 0, 0, 0, 0, 0, 0, 0, 0, 0, 0, 0, 0, 0, 0,
      0, 0, 45, 0, 0, 0, 43, 0, 0, 0, 0, 0, 0, 0, 0, 0, 0, 0]
      @ replicate 38 0"

definition scancode_to_ascii_shift :: "u8 list" where
  "scancode_to_ascii_shift =
     [0, 27, 33, 64, 35, 36, 37, 94, 38, 42, 40, 41, 95, 43, 8, 9, 81, 87, 69, 82, 84, 89, 85, 73,
      79, 80, 123, 125, 10, 0, 65, 83, 68, 70, 71, 72, 74, 75, 76, 58, 34, 126, 0, 124, 90, 88, 67, 86,
      66, 78, 77, 60, 62, 63, 0, 42, 0, 32, 0, 0, 0, 0, 0, 0, 0, 0, 0, 0, 0, 0, 0, 0,
      0, 0, 45, 0, 0, 0, 43, 0, 0, 0, 0, 0, 0, 0, 0, 0, 0, 0]
      @ replicate 38 0"

definition zero_event :: key_event where
  "zero_event = \<lparr>ke_scancode = 0, ke_pressed = False, ke_extended = False, ke_modifiers = 0, ke_ascii = 0\<rparr>"

definition kbd_start :: kbd where
  "kbd_start = \<lparr>event_buffer = replicate EVENT_BUFFER_SIZE zero_event, event_head = 0, event_tail = 0,
     extended_key = False, e1_state = 0, shift_pressed = False, ctrl_pressed = False, alt_pressed = False,
     caps_lock = False, right_ctrl = False, right_alt = False\<rparr>"

definition buffer_add_event :: "key_event \<Rightarrow> kbd \<Rightarrow> kbd" where
  "buffer_add_event event k =
     (let nxt = (event_head k + 1) mod 64 in
      if nxt \<noteq> event_tail k
      then k\<lparr>event_buffer := (event_buffer k)[unat (event_head k) := event], event_head := nxt\<rparr>
      else k)"

definition get_modifiers :: "kbd \<Rightarrow> u8" where
  "get_modifiers k =
     (if shift_pressed k then KEY_MOD_SHIFT else 0) OR (if ctrl_pressed k \<or> right_ctrl k then KEY_MOD_CTRL else 0)
     OR (if alt_pressed k \<or> right_alt k then KEY_MOD_ALT else 0) OR (if caps_lock k then KEY_MOD_CAPS else 0)"

definition scancode_to_char :: "u8 \<Rightarrow> bool \<Rightarrow> kbd \<Rightarrow> u8" where
  "scancode_to_char scancode extended k =
     (if extended then 0
      else if scancode \<ge> 128 then 0
      else
        let c = scancode_to_ascii ! unat scancode;
            use_shift = (if caps_lock k \<and> 97 \<le> c \<and> c \<le> 122 then \<not> shift_pressed k else shift_pressed k)
        in if use_shift then scancode_to_ascii_shift ! unat scancode else scancode_to_ascii ! unat scancode)"

text \<open>What a make or break code does to the modifier keys.\<close>

definition track_modifiers :: "u8 \<Rightarrow> bool \<Rightarrow> bool \<Rightarrow> kbd \<Rightarrow> kbd" where
  "track_modifiers code released is_extended k =
     (if is_extended then
        (if code = 0x1D then k\<lparr>right_ctrl := \<not> released\<rparr>
         else if code = 0x38 then k\<lparr>right_alt := \<not> released\<rparr> else k)
      else if code = 0x2A \<or> code = 0x36 then k\<lparr>shift_pressed := \<not> released\<rparr>
      else if code = 0x1D then k\<lparr>ctrl_pressed := \<not> released\<rparr>
      else if code = 0x38 then k\<lparr>alt_pressed := \<not> released\<rparr>
      else if code = 0x3A then (if \<not> released then k\<lparr>caps_lock := \<not> caps_lock k\<rparr> else k)
      else k)"

definition process_scancode :: "u8 \<Rightarrow> kbd \<Rightarrow> kbd" where
  "process_scancode scancode k =
     (if e1_state k > 0 then k\<lparr>e1_state := e1_state k - 1\<rparr>
      else if scancode = 0xE0 then k\<lparr>extended_key := True\<rparr>
      else if scancode = 0xE1 then k\<lparr>e1_state := 5\<rparr>
      else if scancode \<in> {0xFA, 0xFE, 0x00, 0xFF} then k
      else
        let is_extended = extended_key k;
            released = (scancode AND 0x80 \<noteq> 0);
            code = scancode AND 0x7F;
            k1 = track_modifiers code released is_extended (k\<lparr>extended_key := False\<rparr>)
        in buffer_add_event \<lparr>ke_scancode = code, ke_pressed = \<not> released, ke_extended = is_extended,
             ke_modifiers = get_modifiers k1, ke_ascii = (if released then 0 else scancode_to_char code is_extended k1)\<rparr> k1)"

text \<open>The loop of the interrupt handler over the ports: status first, then the data.\<close>

fun keyboard_reads :: "nat \<Rightarrow> (u8 \<times> u8) list \<Rightarrow> kbd \<Rightarrow> kbd" where
  "keyboard_reads 0 port k = k"
| "keyboard_reads (Suc n) [] k = k"
| "keyboard_reads (Suc n) ((status, data) # port) k =
     (if status AND 0x01 = 0 then k else if status AND 0x20 \<noteq> 0 then k
      else keyboard_reads n port (process_scancode data k))"

definition keyboard_handler :: "(u8 \<times> u8) list \<Rightarrow> kbd \<Rightarrow> kbd" where
  "keyboard_handler port k = keyboard_reads 16 port k"

definition keyboard_init :: "kbd \<Rightarrow> kbd" where "keyboard_init k = k\<lparr>event_head := 0, event_tail := 0\<rparr>"

definition keyboard_has_event :: "kbd \<Rightarrow> bool" where "keyboard_has_event k \<longleftrightarrow> event_head k \<noteq> event_tail k"

definition keyboard_get_event :: "kbd \<Rightarrow> key_event option \<times> kbd" where
  "keyboard_get_event k =
     (if event_head k = event_tail k then (None, k)
      else (Some (event_buffer k ! unat (event_tail k)), k\<lparr>event_tail := (event_tail k + 1) mod 64\<rparr>))"

definition keyboard_is_shift_pressed :: "kbd \<Rightarrow> bool" where "keyboard_is_shift_pressed k = shift_pressed k"
definition keyboard_is_ctrl_pressed :: "kbd \<Rightarrow> bool" where "keyboard_is_ctrl_pressed k = (ctrl_pressed k \<or> right_ctrl k)"
definition keyboard_is_alt_pressed :: "kbd \<Rightarrow> bool" where "keyboard_is_alt_pressed k = (alt_pressed k \<or> right_alt k)"
definition keyboard_is_caps_lock :: "kbd \<Rightarrow> bool" where "keyboard_is_caps_lock k = caps_lock k"


section \<open>The ring of events\<close>

definition kbd_ok :: "kbd \<Rightarrow> bool" where
  "kbd_ok k \<longleftrightarrow> length (event_buffer k) = 64 \<and> unat (event_head k) < 64 \<and> unat (event_tail k) < 64"

definition kbd_pending :: "kbd \<Rightarrow> nat" where
  "kbd_pending k = (unat (event_head k) + 64 - unat (event_tail k)) mod 64"

definition kbd_events :: "kbd \<Rightarrow> key_event list" where
  "kbd_events k = ring_content (event_buffer k) (unat (event_tail k)) (kbd_pending k)"

text \<open>What a reader gets while \<open>keyboard_get_event\<close> returns true.\<close>

definition take_event :: "kbd \<Rightarrow> key_event \<times> kbd" where
  "take_event k = (case keyboard_get_event k of (e, k') \<Rightarrow> (case e of None \<Rightarrow> zero_event | Some x \<Rightarrow> x, k'))"

lemma unat_ring_inc: "unat a < 64 \<Longrightarrow> unat ((a + 1) mod 64 :: u32) = (unat a + 1) mod 64"
  by (simp add: unat_mod unat_word_ariths)

lemma ring_distance: "t < (N :: nat) \<Longrightarrow> ((t + p) mod N + N - t) mod N = p mod N"
proof -
  assume "t < N"
  have "((t + p) mod N + (N - t)) mod N = (t + p + (N - t)) mod N" by (rule mod_add_left_eq)
  also have "t + p + (N - t) = p + N" using \<open>t < N\<close> by simp
  finally show ?thesis using \<open>t < N\<close> by simp
qed

lemma pending_head: "kbd_ok k \<Longrightarrow> (unat (event_tail k) + kbd_pending k) mod 64 = unat (event_head k)"
  by (simp add: kbd_ok_def kbd_pending_def mod_simps)

lemma kbd_pending_0: "kbd_ok k \<Longrightarrow> kbd_pending k = 0 \<longleftrightarrow> event_head k = event_tail k"
proof -
  assume k: "kbd_ok k"
  have "kbd_pending k = 0 \<Longrightarrow> unat (event_head k) = unat (event_tail k)"
    using pending_head [OF k] k by (simp add: kbd_ok_def)
  then show ?thesis by (auto simp: word_unat_eq_iff kbd_pending_def)
qed

lemma kbd_not_full:
  assumes "kbd_ok k" and "kbd_pending k < 63"
  shows "(event_head k + 1) mod 64 \<noteq> event_tail k"
proof
  assume "(event_head k + 1) mod 64 = event_tail k"
  then have "(unat (event_head k) + 1) mod 64 = unat (event_tail k)" using unat_ring_inc assms(1) by (metis kbd_ok_def)
  then have "(unat (event_tail k) + (kbd_pending k + 1)) mod 64 = unat (event_tail k) mod 64"
    using pending_head [OF assms(1)] assms(1) by (metis add.assoc kbd_ok_def mod_add_left_eq mod_less)
  moreover have "(unat (event_tail k) + 0) mod 64 \<noteq> (unat (event_tail k) + (kbd_pending k + 1)) mod 64"
    using assms(2) by (intro ring_slots_distinct) simp_all
  ultimately show False by simp
qed

lemma add_event:
  assumes "kbd_ok k" and "kbd_pending k < 63"
  shows "kbd_ok (buffer_add_event e k)" "kbd_events (buffer_add_event e k) = kbd_events k @ [e]"
    "kbd_pending (buffer_add_event e k) = Suc (kbd_pending k)"
proof -
  let ?h = "unat (event_head k)" and ?t = "unat (event_tail k)"
  have b: "buffer_add_event e k = k\<lparr>event_buffer := (event_buffer k)[?h := e], event_head := (event_head k + 1) mod 64\<rparr>"
    using kbd_not_full [OF assms] by (simp add: buffer_add_event_def Let_def)
  have h: "unat ((event_head k + 1) mod 64) = (?h + 1) mod 64" using unat_ring_inc assms(1) by (simp add: kbd_ok_def)
  show "kbd_ok (buffer_add_event e k)" unfolding b using assms(1) h by (simp add: kbd_ok_def)
  show p: "kbd_pending (buffer_add_event e k) = Suc (kbd_pending k)"
  proof -
    have "((?h + 1) mod 64 + 64 - ?t) mod 64 = (?h + 64 - ?t + 1) mod 64"
    proof -
      have "((?h + 1) mod 64 + (64 - ?t)) mod 64 = (?h + 1 + (64 - ?t)) mod 64" by (simp add: mod_simps)
      then show ?thesis using assms(1) by (simp add: kbd_ok_def)
    qed
    also have "\<dots> = (kbd_pending k + 1) mod 64" unfolding kbd_pending_def by (simp add: mod_simps)
    finally show ?thesis unfolding b using assms(2) h by (simp add: kbd_pending_def)
  qed
  have "ring_content ((event_buffer k)[?h := e]) ?t (Suc (kbd_pending k)) = kbd_events k @ [e]"
    using ring_push [of "kbd_pending k" "event_buffer k" ?t e] pending_head [OF assms(1)] assms by (simp add: kbd_ok_def kbd_events_def)
  then show "kbd_events (buffer_add_event e k) = kbd_events k @ [e]"
    unfolding kbd_events_def p unfolding b by (simp add: kbd_events_def)
qed

interpretation kbd_fifo: bounded_fifo buffer_add_event take_event kbd_events 63 kbd_ok
proof
  fix k :: kbd and e
  have len: "length (kbd_events k) = kbd_pending k" by (simp add: kbd_events_def)
  show "kbd_ok (buffer_add_event e k)" "kbd_events (buffer_add_event e k) = kbd_events k @ [e]"
    if "kbd_ok k" "length (kbd_events k) < 63"
    using add_event that len by simp_all
  assume k: "kbd_ok k" "kbd_events k \<noteq> []"
  then have n: "0 < kbd_pending k" using len by (cases "kbd_pending k") auto
  have get: "take_event k = (event_buffer k ! unat (event_tail k), k\<lparr>event_tail := (event_tail k + 1) mod 64\<rparr>)"
    using kbd_pending_0 [OF k(1)] n by (auto simp: take_event_def keyboard_get_event_def)
  have t: "unat ((event_tail k + 1) mod 64) = (unat (event_tail k) + 1) mod 64" using unat_ring_inc k(1) by (simp add: kbd_ok_def)
  show "kbd_ok (snd (take_event k))" unfolding get using k(1) t by (simp add: kbd_ok_def)
  have "kbd_pending (snd (take_event k)) = kbd_pending k - 1"
  proof -
    have "((unat (event_tail k) + 1) mod 64 + (kbd_pending k - 1)) mod 64 = unat (event_head k)"
    proof -
      have "((unat (event_tail k) + 1) mod 64 + (kbd_pending k - 1)) mod 64 = (unat (event_tail k) + 1 + (kbd_pending k - 1)) mod 64"
        by (simp add: mod_simps)
      then show ?thesis using n pending_head [OF k(1)] by simp
    qed
    then have "(unat (event_head k) + 64 - (unat (event_tail k) + 1) mod 64) mod 64 = (kbd_pending k - 1) mod 64"
      using ring_distance [of "(unat (event_tail k) + 1) mod 64" 64 "kbd_pending k - 1"] by simp
    moreover have "kbd_pending k < 64" by (simp add: kbd_pending_def)
    ultimately show ?thesis unfolding get using t by (simp add: kbd_pending_def)
  qed
  then show "kbd_events k = fst (take_event k) # kbd_events (snd (take_event k))"
    using ring_pop [of "unat (event_tail k)" "event_buffer k" "kbd_pending k"] k(1) n t
    unfolding kbd_events_def by (simp add: get kbd_ok_def)
qed


section \<open>Typing\<close>

text \<open>No modifier is down and the decoder is between two keys.\<close>

definition kbd_neutral :: "kbd \<Rightarrow> bool" where
  "kbd_neutral k \<longleftrightarrow> kbd_ok k \<and> e1_state k = 0 \<and> \<not> extended_key k \<and> \<not> shift_pressed k \<and> \<not> caps_lock k"

text \<open>
  The US keyboard in scan code set 1, as the hardware has it: each row of keys with the code of its first key, the
  characters on the keys, and those with shift. It is stated apart from the tables of the driver.
\<close>

definition us_rows :: "(nat \<times> string \<times> string) list" where
  "us_rows =
     [(0x02, ''1234567890-='', ''!@#$%^&*()_+''),
      (0x10, ''qwertyuiop[]'', ''QWERTYUIOP{}''),
      (0x1E, ''asdfghjkl;'' @ [CHR 0x27, CHR 0x60], ''ASDFGHJKL:'' @ [CHR 0x22, CHR 0x7E]),
      (0x2B, CHR 0x5C # ''zxcvbnm,./'', ''|ZXCVBNM<>?''),
      (0x39, '' '', '' ''), (0x1C, [CHR 10], [CHR 10]), (0x0F, [CHR 9], [CHR 9]), (0x0E, [CHR 8], [CHR 8]), (0x01, [CHR 27], [CHR 27])]"

definition us_keys :: "(nat \<times> u8 \<times> u8) list" where
  "us_keys = concat (map (\<lambda>(n, ps, ss). zip [n ..< n + length ps] (zip (map of_char ps) (map of_char ss))) us_rows)"

text \<open>The key of a character and whether it needs shift; the scan codes of typing it.\<close>

definition key_of :: "u8 \<Rightarrow> (bool \<times> nat) option" where
  "key_of c =
     (case find (\<lambda>(i, p, q). p = c) us_keys of
        Some (i, _) \<Rightarrow> Some (False, i)
      | None \<Rightarrow> (case find (\<lambda>(i, p, q). q = c) us_keys of Some (i, _) \<Rightarrow> Some (True, i) | None \<Rightarrow> None))"

definition strokes :: "u8 \<Rightarrow> u8 list" where
  "strokes c =
     (case key_of c of
        None \<Rightarrow> []
      | Some (shift, i) \<Rightarrow>
          (if shift then [0x2A] else []) @ [of_nat i, of_nat i OR 0x80] @ (if shift then [0xAA] else []))"

definition types :: "key_event list \<Rightarrow> u8 list" where
  "types es = map ke_ascii (filter (\<lambda>e. ke_pressed e \<and> ke_ascii e \<noteq> 0) es)"

text \<open>The keys that have characters are plain keys.\<close>

definition plain_key :: "nat \<Rightarrow> bool" where
  "plain_key i \<longleftrightarrow> (let w = of_nat i :: u8 in
     w \<notin> {0, 0xE0, 0xE1, 0xFA, 0xFE, 0xFF} \<and> w AND 0x80 = 0 \<and> w AND 0x7F = w \<and> unat w = i \<and>
     w OR 0x80 \<notin> {0, 0xE0, 0xE1, 0xFA, 0xFE, 0xFF} \<and> (w OR 0x80) AND 0x80 \<noteq> 0 \<and> (w OR 0x80) AND 0x7F = w \<and>
     w \<notin> {0x2A, 0x36, 0x1D, 0x38, 0x3A})"

lemma plain_code:
  assumes "i < 90" and "i \<notin> {0, 29, 42, 54, 56, 58}"
  shows "plain_key i"
proof -
  let ?w = "of_nat i :: u8"
  have u: "unat ?w = i" using assms(1) by (simp add: unat_of_nat)
  have m: "(0x7F :: u8) = mask 7" by (simp add: mask_eq_exp_minus_1)
  have t: "unat (w AND 0x7F) = unat w mod 128" for w :: u8
    unfolding m by (simp add: take_bit_eq_mask [symmetric] take_bit_eq_mod unat_mod)
  have b: "w AND 0x80 = 0 \<longleftrightarrow> even (unat w div 128)" for w :: u8
  proof -
    have "bit w 7 \<longleftrightarrow> bit (unat w) 7" by (simp add: bit_unsigned_iff)
    also have "\<dots> \<longleftrightarrow> odd (unat w div 2 ^ 7)" by (rule bit_iff_odd)
    finally show ?thesis using and_pow2_bit [of w 7] by simp
  qed
  have z: "?w AND 0x80 = 0" using assms(1) u by (simp add: b)
  have s: "?w OR 0x80 = ?w + 0x80" using z by (rule disjunctive_add_eq_or [symmetric])
  have us: "unat (?w OR 0x80) = i + 128" unfolding s using assms(1) u by (simp add: unat_word_ariths)
  have "unat (?w OR 0x80) = i + 128 \<and> ?w AND 0x7F = ?w \<and> (?w OR 0x80) AND 0x7F = ?w \<and> (?w OR 0x80) AND 0x80 \<noteq> 0"
    using assms(1) u us by (simp add: word_unat_eq_iff t b)
  then show ?thesis using assms z u unfolding plain_key_def Let_def by (auto simp: word_unat_eq_iff)
qed

lemma length_tables [simp]: "length scancode_to_ascii = 128" "length scancode_to_ascii_shift = 128"
  by (simp_all add: scancode_to_ascii_def scancode_to_ascii_shift_def)

text \<open>The tables of the driver are those of the keyboard.\<close>

lemma us_keys_tables:
  "list_all (\<lambda>(i, p, q). i < 90 \<and> i \<notin> {0, 29, 42, 54, 56, 58} \<and> scancode_to_ascii ! i = p \<and> scancode_to_ascii_shift ! i = q) us_keys"
  by code_simp

lemma key_of_plain:
  assumes "key_of c = Some (shift, i)"
  shows "plain_key i" "(if shift then scancode_to_ascii_shift else scancode_to_ascii) ! i = c"
proof -
  obtain p q where k: "(i, p, q) \<in> set us_keys" "(if shift then q else p) = c"
    using assms by (auto simp: key_of_def find_Some_iff split: option.splits) (metis nth_mem)+
  note t = us_keys_tables [unfolded list_all_iff, rule_format, OF k(1), simplified]
  show "plain_key i" by (intro plain_code) (use t in simp_all)
  show "(if shift then scancode_to_ascii_shift else scancode_to_ascii) ! i = c"
    using t k(2) by (cases shift) simp_all
qed

lemma plain_keyD:
  assumes "plain_key i"
  shows "(of_nat i :: u8) \<notin> {0, 0xE0, 0xE1, 0xFA, 0xFE, 0xFF}" "(of_nat i :: u8) AND 0x80 = 0"
    "(of_nat i :: u8) AND 0x7F = of_nat i" "unat (of_nat i :: u8) = i"
    "(of_nat i OR 0x80 :: u8) \<notin> {0, 0xE0, 0xE1, 0xFA, 0xFE, 0xFF}" "(of_nat i OR 0x80 :: u8) AND 0x80 \<noteq> 0"
    "(of_nat i OR 0x80 :: u8) AND 0x7F = of_nat i" "(of_nat i :: u8) \<notin> {0x2A, 0x36, 0x1D, 0x38, 0x3A}"
  using assms unfolding plain_key_def Let_def by blast+

lemma not_extended: "\<not> extended_key k \<Longrightarrow> k\<lparr>extended_key := False\<rparr> = k"
  by simp

lemma make_code:
  assumes "kbd_neutral (k\<lparr>shift_pressed := False\<rparr>)" and "plain_key i"
  shows "\<exists>e. process_scancode (of_nat i) k = buffer_add_event e k \<and> ke_pressed e \<and>
    ke_ascii e = (if shift_pressed k then scancode_to_ascii_shift else scancode_to_ascii) ! i"
proof -
  note p = plain_keyD [OF assms(2)]
  have "(of_nat i :: u8) < 128"
  proof -
    have "(of_nat i :: u8) = of_nat i AND 0x7F" using p(3) by simp
    then show ?thesis using word_and_le1 [of "of_nat i :: u8" "0x7F"] by (simp add: word_le_nat_alt word_less_nat_alt)
  qed
  then show ?thesis
    using assms(1) p by (auto simp: kbd_neutral_def process_scancode_def track_modifiers_def scancode_to_char_def Let_def not_extended)
qed

lemma break_code:
  assumes "kbd_neutral (k\<lparr>shift_pressed := False\<rparr>)" and "plain_key i"
  shows "\<exists>e. process_scancode (of_nat i OR 0x80) k = buffer_add_event e k \<and> \<not> ke_pressed e"
proof -
  note p = plain_keyD [OF assms(2)]
  show ?thesis
    using assms(1) p by (auto simp: kbd_neutral_def process_scancode_def track_modifiers_def Let_def not_extended)
qed

lemma shift_code:
  assumes "kbd_neutral (k\<lparr>shift_pressed := False\<rparr>)"
  shows "\<exists>e. process_scancode 0x2A k = buffer_add_event e (k\<lparr>shift_pressed := True\<rparr>) \<and> ke_ascii e = 0"
    "\<exists>e. process_scancode 0xAA k = buffer_add_event e (k\<lparr>shift_pressed := False\<rparr>) \<and> \<not> ke_pressed e"
proof -
  have x: "k\<lparr>extended_key := False, shift_pressed := b\<rparr> = k\<lparr>shift_pressed := b\<rparr>" for b
    using assms by (simp add: kbd_neutral_def)
  have t: "scancode_to_ascii_shift ! 42 = 0" "scancode_to_ascii ! 42 = 0" by code_simp+
  show "\<exists>e. process_scancode 0x2A k = buffer_add_event e (k\<lparr>shift_pressed := True\<rparr>) \<and> ke_ascii e = 0"
    "\<exists>e. process_scancode 0xAA k = buffer_add_event e (k\<lparr>shift_pressed := False\<rparr>) \<and> \<not> ke_pressed e"
    using assms t by (auto simp: x kbd_neutral_def process_scancode_def track_modifiers_def scancode_to_char_def Let_def)
qed

lemma add_event_neutral:
  assumes "kbd_neutral (k\<lparr>shift_pressed := False\<rparr>)" and "kbd_pending k < 63"
  shows "kbd_neutral ((buffer_add_event e k)\<lparr>shift_pressed := False\<rparr>)"
    "kbd_events (buffer_add_event e k) = kbd_events k @ [e]"
    "kbd_pending (buffer_add_event e k) = Suc (kbd_pending k)"
    "shift_pressed (buffer_add_event e k) = shift_pressed k"
proof -
  have f: "kbd_ok (k\<lparr>shift_pressed := b\<rparr>) = kbd_ok k" for b k by (simp add: kbd_ok_def)
  then have ok: "kbd_ok k" using assms(1) by (simp add: kbd_neutral_def)
  note a = add_event [OF ok assms(2), of e]
  show "kbd_events (buffer_add_event e k) = kbd_events k @ [e]"
    "kbd_pending (buffer_add_event e k) = Suc (kbd_pending k)" by (rule a(2), rule a(3))
  show "kbd_neutral ((buffer_add_event e k)\<lparr>shift_pressed := False\<rparr>)" "shift_pressed (buffer_add_event e k) = shift_pressed k"
    using assms(1) a(1) f by (auto simp: kbd_neutral_def buffer_add_event_def Let_def)
qed


lemma types_append [simp]: "types (xs @ ys) = types xs @ types ys"
  by (simp add: types_def)

lemma types_one: "types [e] = (if ke_pressed e \<and> ke_ascii e \<noteq> 0 then [ke_ascii e] else [])"
  by (simp add: types_def)

lemma neutral_noshift: "kbd_neutral k \<Longrightarrow> kbd_neutral (k\<lparr>shift_pressed := b, shift_pressed := False\<rparr>)"
  by (simp add: kbd_neutral_def kbd_ok_def)

lemma neutral_same: "\<not> shift_pressed k \<Longrightarrow> k\<lparr>shift_pressed := False\<rparr> = k"
  by simp

lemma pending_shift [simp]: "kbd_pending (k\<lparr>shift_pressed := b\<rparr>) = kbd_pending k" "kbd_events (k\<lparr>shift_pressed := b\<rparr>) = kbd_events k"
  by (simp_all add: kbd_pending_def kbd_events_def)

lemma press_release:
  assumes "kbd_neutral (k\<lparr>shift_pressed := False\<rparr>)" and "plain_key i" and "kbd_pending k + 2 \<le> 63"
    and "(if shift_pressed k then scancode_to_ascii_shift else scancode_to_ascii) ! i = c" and "c \<noteq> 0"
  obtains k' where "fold process_scancode [of_nat i, of_nat i OR 0x80] k = k'" "kbd_neutral (k'\<lparr>shift_pressed := False\<rparr>)"
    "shift_pressed k' = shift_pressed k" "types (kbd_events k') = types (kbd_events k) @ [c]" "kbd_pending k' = kbd_pending k + 2"
proof -
  obtain e where e: "process_scancode (of_nat i) k = buffer_add_event e k" "ke_pressed e" "ke_ascii e = c"
    using make_code [OF assms(1,2)] assms(4) by auto
  let ?k = "buffer_add_event e k"
  have "kbd_pending k < 63" using assms(3) by simp
  note a = add_event_neutral [OF assms(1) this, of e]
  obtain e' where e': "process_scancode (of_nat i OR 0x80) ?k = buffer_add_event e' ?k" "\<not> ke_pressed e'"
    using break_code [OF a(1) assms(2)] by blast
  have "kbd_pending ?k < 63" using assms(3) a(3) by simp
  note b = add_event_neutral [OF a(1) this, of e']
  show thesis
    using e e' a b assms(5) by (intro that [OF refl]) (simp_all add: types_def)
qed

lemma type_char:
  assumes k: "kbd_neutral k" and key: "key_of c = Some (shift, i)" and c: "c \<noteq> 0" and room: "kbd_pending k + 4 \<le> 63"
  obtains k' where "fold process_scancode (strokes c) k = k'" "kbd_neutral k'" "types (kbd_events k') = types (kbd_events k) @ [c]"
    "kbd_pending k' \<le> kbd_pending k + 4"
proof (cases shift)
  case False
  have n: "kbd_neutral (k\<lparr>shift_pressed := False\<rparr>)" "\<not> shift_pressed k" using k neutral_noshift [of k] by (simp_all add: kbd_neutral_def)
  have r: "kbd_pending k + 2 \<le> 63" using room by simp
  have ch: "(if shift_pressed k then scancode_to_ascii_shift else scancode_to_ascii) ! i = c" using key_of_plain(2) [OF key] False n(2) by simp
  from press_release [OF n(1) key_of_plain(1) [OF key] r ch c] obtain k' where k':
    "fold process_scancode [of_nat i, of_nat i OR 0x80] k = k'" "kbd_neutral (k'\<lparr>shift_pressed := False\<rparr>)"
    "shift_pressed k' = shift_pressed k" "types (kbd_events k') = types (kbd_events k) @ [c]" "kbd_pending k' = kbd_pending k + 2" by metis
  have "fold process_scancode (strokes c) k = k'" using k'(1) key False by (simp add: strokes_def)
  moreover have "kbd_neutral k'" using k'(2,3) n(2) neutral_same [of k'] by simp
  moreover have "kbd_pending k' \<le> kbd_pending k + 4" using k'(5) by linarith
  ultimately show thesis using k'(4) by (intro that)
next
  case True
  have n: "kbd_neutral (k\<lparr>shift_pressed := False\<rparr>)" "\<not> shift_pressed k" using k neutral_noshift [of k] by (simp_all add: kbd_neutral_def)
  obtain e where e: "process_scancode 0x2A k = buffer_add_event e (k\<lparr>shift_pressed := True\<rparr>)" "ke_ascii e = 0"
    using shift_code(1) [OF n(1)] by blast
  let ?k1 = "buffer_add_event e (k\<lparr>shift_pressed := True\<rparr>)"
  have "kbd_pending (k\<lparr>shift_pressed := True\<rparr>) < 63" using room by simp
  note a = add_event_neutral [OF neutral_noshift [OF k, of True] this, of e]
  have ch: "(if shift_pressed ?k1 then scancode_to_ascii_shift else scancode_to_ascii) ! i = c" using key_of_plain(2) [OF key] True a(4) by simp
  have r: "kbd_pending ?k1 + 2 \<le> 63" using room a(3) by simp
  from press_release [OF a(1) key_of_plain(1) [OF key] r ch c] obtain k2 where k2:
    "fold process_scancode [of_nat i, of_nat i OR 0x80] ?k1 = k2" "kbd_neutral (k2\<lparr>shift_pressed := False\<rparr>)"
    "shift_pressed k2 = shift_pressed ?k1" "types (kbd_events k2) = types (kbd_events ?k1) @ [c]" "kbd_pending k2 = kbd_pending ?k1 + 2" by metis
  obtain f where f: "process_scancode 0xAA k2 = buffer_add_event f (k2\<lparr>shift_pressed := False\<rparr>)" "\<not> ke_pressed f"
    using shift_code(2) [OF k2(2)] by blast
  let ?k3 = "buffer_add_event f (k2\<lparr>shift_pressed := False\<rparr>)"
  have "kbd_pending (k2\<lparr>shift_pressed := False\<rparr>) < 63" using room a(3) k2(5) by simp
  note b = add_event_neutral [OF _ this, of f, simplified, OF k2(2)]
  have "fold process_scancode (strokes c) k = ?k3" using e(1) k2(1) f(1) key True by (simp add: strokes_def)
  moreover have "kbd_neutral ?k3" using b(1,4) neutral_same [of ?k3] by simp
  moreover have "types (kbd_events ?k3) = types (kbd_events k) @ [c]"
    using b(2) k2(4) a(2) e(2) f(2) by (simp add: types_one)
  moreover have "kbd_pending ?k3 \<le> kbd_pending k + 4" using b(3) k2(5) a(3) by simp
  ultimately show thesis by (rule that)
qed

text \<open>
  C31. Typed text arrives. From a neutral state, whatever text of characters of the US keyboard is typed, with shift pressed
  and released around the characters that need it, the events in the ring spell exactly this text behind what was there, in
  order, and the state is neutral again; as long as the ring has room, four events for each character (15 characters when
  it is empty: it holds 63 events and drops what comes when it is full).
\<close>

theorem typed_text:
  assumes "kbd_neutral k" and "\<forall>c \<in> set cs. c \<noteq> 0 \<and> key_of c \<noteq> None" and "kbd_pending k + 4 * length cs \<le> 63"
  shows "kbd_neutral (fold process_scancode (concat (map strokes cs)) k) \<and>
    types (kbd_events (fold process_scancode (concat (map strokes cs)) k)) = types (kbd_events k) @ cs"
  using assms
proof (induction cs arbitrary: k)
  case (Cons c cs)
  obtain shift i where key: "key_of c = Some (shift, i)" "c \<noteq> 0" using Cons.prems(2) by auto
  have "kbd_pending k + 4 \<le> 63" using Cons.prems(3) by simp
  from type_char [OF Cons.prems(1) key this] obtain k' where k': "fold process_scancode (strokes c) k = k'" "kbd_neutral k'"
    "types (kbd_events k') = types (kbd_events k) @ [c]" "kbd_pending k' \<le> kbd_pending k + 4" by metis
  have "kbd_pending k' + 4 * length cs \<le> 63" using k'(4) Cons.prems(3) by simp
  with Cons.IH [OF k'(2)] Cons.prems(2) show ?case using k'(1,3) by simp
qed simp

theorem typed_text_witness:
  "types (kbd_events (fold process_scancode (concat (map strokes [0x48, 0x69, 0x21])) kbd_start)) = [0x48, 0x69, 0x21]"
proof -
  have k: "kbd_neutral kbd_start" "kbd_pending kbd_start = 0" "kbd_events kbd_start = []"
    by (simp_all add: kbd_neutral_def kbd_ok_def kbd_start_def kbd_pending_def kbd_events_def)
  have "\<forall>c \<in> set [0x48, 0x69, 0x21]. c \<noteq> 0 \<and> key_of c \<noteq> None" by code_simp
  from typed_text [OF k(1) this] show ?thesis using k(2,3) by (simp add: types_def)
qed

end
