(* ===== verification/Loops.thy ===== *)
theory Loops
  imports Zos_Prelude "HOL-Library.Monad_Syntax"
begin

text \<open>
  Code that writes into memory through computed indices, as functions into \<open>option\<close>: an access outside a
  buffer is \<open>None\<close>. The shape \<open>for (x in list) body(x)\<close> of its loops, the rule by which a property is carried
  through it, C's signed 32-bit integers as wrapped integers, and the array accesses.
\<close>

section \<open>Signed integers\<close>

text \<open>The value of a 32-bit signed integer: results out of range wrap.\<close>

definition s32 :: "int \<Rightarrow> int" where "s32 z = (z + 0x80000000) mod 0x100000000 - 0x80000000"

text \<open>An \<open>int\<close> converted to \<open>uint32_t\<close>, as an index.\<close>

definition idx32 :: "int \<Rightarrow> nat" where "idx32 z = nat (z mod 0x100000000)"

lemma s32_id: "- 0x80000000 \<le> z \<Longrightarrow> z < 0x80000000 \<Longrightarrow> s32 z = z"
  by (simp add: s32_def)

lemma s32_range: "- 0x80000000 \<le> s32 z" "s32 z < 0x80000000"
proof -
  have "0 \<le> (z + 0x80000000) mod 0x100000000" "(z + 0x80000000) mod 0x100000000 < 0x100000000"
    by (rule pos_mod_sign, simp) (rule pos_mod_bound, simp)
  then show "- 0x80000000 \<le> s32 z" "s32 z < 0x80000000" by (simp_all add: s32_def)
qed

lemma idx32_id: "0 \<le> z \<Longrightarrow> z < 0x100000000 \<Longrightarrow> idx32 z = nat z"
  by (simp add: idx32_def)

lemma sint_unat: "unat (w :: u32) < 0x80000000 \<Longrightarrow> sint w = int (unat w)"
  using sint_small [of w] by (simp add: word_less_nat_alt)

section \<open>Steps that may fail\<close>

definition okay :: "('a \<Rightarrow> bool) \<Rightarrow> 'a option \<Rightarrow> bool" where
  "okay P r = (case r of None \<Rightarrow> False | Some x \<Rightarrow> P x)"

lemma okay_simps [simp]: "okay P (Some x) = P x" "\<not> okay P None"
  by (simp_all add: okay_def)

lemma okay_iff: "okay P r \<longleftrightarrow> (\<exists>x. r = Some x \<and> P x)"
  by (cases r) simp_all

lemma okay_mono: "okay P r \<Longrightarrow> (\<And>x. P x \<Longrightarrow> Q x) \<Longrightarrow> okay Q r"
  by (cases r) simp_all

lemma okay_bind: "okay P m \<Longrightarrow> (\<And>x. P x \<Longrightarrow> okay Q (f x)) \<Longrightarrow> okay Q (m \<bind> f)"
  by (cases m) simp_all

lemma okay_bind_iff: "okay Q (m \<bind> f) = okay (\<lambda>x. okay Q (f x)) m"
  by (cases m) simp_all

fun each :: "('a \<Rightarrow> 's \<Rightarrow> 's option) \<Rightarrow> 'a list \<Rightarrow> 's \<Rightarrow> 's option" where
  "each body [] s = Some s"
| "each body (x # xs) s = body x s \<bind> each body xs"

lemma each_append [simp]: "each body (xs @ ys) s = each body xs s \<bind> each body ys"
proof (induction xs arbitrary: s)
  case (Cons x xs)
  then show ?case by (cases "body x s") simp_all
qed simp

lemma each_one: "each body [x] s = body x s"
  by (cases "body x s") simp_all

lemma each_keeps:
  "(\<And>x s. x \<in> set xs \<Longrightarrow> P s \<Longrightarrow> okay P (body x s)) \<Longrightarrow> P s \<Longrightarrow> okay P (each body xs s)"
proof (induction xs arbitrary: s)
  case (Cons x xs)
  show ?case unfolding each.simps
    by (rule okay_bind [of P]) (use Cons in auto)
qed simp

lemma each_steps:
  assumes "P 0 s" and "\<And>i s. i < length xs \<Longrightarrow> P i s \<Longrightarrow> okay (P (Suc i)) (body (xs ! i) s)"
  shows "okay (P (length xs)) (each body xs s)"
  using assms(2)
proof (induction xs rule: rev_induct)
  case (snoc x xs)
  have "okay (P (length xs)) (each body xs s)"
    using snoc.IH snoc.prems by (metis (no_types, lifting) butlast_snoc length_append_singleton less_SucI nth_butlast)
  then show ?case
    unfolding each_append length_append_singleton
  proof (rule okay_bind)
    fix t assume "P (length xs) t"
    then have "okay (P (Suc (length xs))) (body ((xs @ [x]) ! length xs) t)" by (intro snoc.prems) simp_all
    then show "okay (P (Suc (length xs))) (each body [x] t)" by (simp add: each_one del: each.simps)
  qed
qed (use assms(1) in simp)

lemma each_cong: "(\<And>x s. x \<in> set xs \<Longrightarrow> f x s = g x s) \<Longrightarrow> each f xs s = each g xs s"
proof (induction xs arbitrary: s)
  case (Cons x xs)
  then have "f x s = g x s" "each f xs = each g xs" by auto
  then show ?case by simp
qed simp

section \<open>Arrays\<close>

definition put_at :: "nat \<Rightarrow> 'a \<Rightarrow> 'a list \<Rightarrow> 'a list option" where
  "put_at i v xs = (if i < length xs then Some (xs[i := v]) else None)"

definition get_at :: "nat \<Rightarrow> 'a list \<Rightarrow> 'a option" where
  "get_at i xs = (if i < length xs then Some (xs ! i) else None)"

text \<open>\<open>memcpy\<close> or \<open>memmove\<close> of \<open>n\<close> elements from \<open>src\<close> to \<open>dst\<close> within one array, and from one array into another.\<close>

definition move_in :: "nat \<Rightarrow> nat \<Rightarrow> nat \<Rightarrow> 'a list \<Rightarrow> 'a list option" where
  "move_in dst src n xs =
     (if dst + n \<le> length xs \<and> src + n \<le> length xs
      then Some (take dst xs @ take n (drop src xs) @ drop (dst + n) xs) else None)"

definition copy_to :: "nat \<Rightarrow> 'a list \<Rightarrow> nat \<Rightarrow> nat \<Rightarrow> 'a list \<Rightarrow> 'a list option" where
  "copy_to dst ys src n xs =
     (if dst + n \<le> length xs \<and> src + n \<le> length ys
      then Some (take dst xs @ take n (drop src ys) @ drop (dst + n) xs) else None)"

lemma length_move: "move_in dst src n xs = Some ys \<Longrightarrow> length ys = length xs"
  by (auto simp: move_in_def split: if_splits)

lemma length_copy: "copy_to dst ys src n xs = Some zs \<Longrightarrow> length zs = length xs"
  by (auto simp: copy_to_def split: if_splits)

lemma nth_splice:
  "d + n \<le> length xs \<Longrightarrow> s + n \<le> length ys \<Longrightarrow> i < length xs \<Longrightarrow>
     (take d xs @ take n (drop s ys) @ drop (d + n) xs) ! i = (if d \<le> i \<and> i < d + n then ys ! (s + (i - d)) else xs ! i)"
proof -
  assume a: "d + n \<le> length xs" "s + n \<le> length ys" "i < length xs"
  then have "length (take d xs) = d" "length (take n (drop s ys)) = n" by simp_all
  moreover have "\<not> i < d \<Longrightarrow> (i - d < n) = (i < d + n)" by arith
  ultimately show ?thesis using a by (cases "i < d") (simp_all add: nth_append)
qed

lemma unat_and_not_7: "unat ((x :: u32) AND NOT 7) = unat x div 8 * 8"
  using unat_and_not_mask [of x 3] by (simp add: mask_eq_exp_minus_1 minus_mod_eq_div_mult)

end
