(* ===== verification/Fb.thy ===== *)
theory Fb
  imports Loops Fb_Font
begin

text \<open>
  The framebuffer driver (\<open>kernel/drivers/framebuffer/framebuffer.c\<close>): drawing into the back buffer, copying
  it to the video memory, and the text console. The globals of the file are one record. The back buffer,
  the video memory and the arrays of character cells are lists; an access outside them is \<open>None\<close>. The
  two-dimensional arrays are flat as in memory, so a column beyond the row length is in the next row.
  Coordinates are C integers with wrap-around (\<open>s32\<close>), indices are computed in 32 bits (\<open>idx32\<close>).
\<close>

section \<open>State\<close>

abbreviation FB_FONT_WIDTH :: int where "FB_FONT_WIDTH \<equiv> 8"
abbreviation FB_FONT_HEIGHT :: int where "FB_FONT_HEIGHT \<equiv> 16"
abbreviation FB_SCROLLBACK_LINES :: nat where "FB_SCROLLBACK_LINES \<equiv> 1000"
abbreviation FB_MAX_COLS :: nat where "FB_MAX_COLS \<equiv> 128"
abbreviation FB_MAX_ROWS :: nat where "FB_MAX_ROWS \<equiv> 48"
abbreviation FB_VIRT_BASE :: u32 where "FB_VIRT_BASE \<equiv> 0xE0100000"

text \<open>\<open>FB_RGB\<close> and the colours of the terminal.\<close>

definition FB_RGB :: "u32 \<Rightarrow> u32 \<Rightarrow> u32 \<Rightarrow> u32" where
  "FB_RGB r g b = 0xFF000000 OR push_bit 16 r OR push_bit 8 g OR b"

abbreviation FB_TERM_BG :: u32 where "FB_TERM_BG \<equiv> FB_RGB 30 30 46"
abbreviation FB_TERM_FG :: u32 where "FB_TERM_FG \<equiv> FB_RGB 205 214 244"
abbreviation FB_TERM_CURSOR :: u32 where "FB_TERM_CURSOR \<equiv> FB_RGB 245 224 220"
abbreviation FB_TERM_GREEN :: u32 where "FB_TERM_GREEN \<equiv> FB_RGB 166 227 161"
abbreviation FB_TERM_RED :: u32 where "FB_TERM_RED \<equiv> FB_RGB 243 139 168"
abbreviation FB_TERM_YELLOW :: u32 where "FB_TERM_YELLOW \<equiv> FB_RGB 249 226 175"

record fb_cell =
  ch :: u8
  cfg :: u32
  cbg :: u32

text \<open>
  \<open>direct\<close> says that \<open>back_buffer\<close> is the video memory itself (no memory for a buffer of its own); then
  \<open>vram\<close> is not used. A hook is what it does to the video memory.
\<close>

record fb =
  phys_addr :: u32
  width :: u32
  height :: u32
  pitch :: u32
  bpp :: u8
  fb_size :: u32
  direct :: bool
  vram :: "u32 list"
  back_buffer :: "u32 list"
  text_cols :: u32
  text_rows :: u32
  cursor_x :: u32
  cursor_y :: u32
  fg_color :: u32
  bg_color :: u32
  cursor_visible :: bool
  fb_available :: bool
  fb_swap_deferred :: int
  fb_dirty :: bool
  vram_pre_hook :: "(u32 list \<Rightarrow> u32 list) option"
  vram_post_hook :: "(u32 list \<Rightarrow> u32 list) option"
  fb_scrollback :: "fb_cell list option"
  fb_sb_write :: u32
  fb_sb_count :: u32
  fb_sb_offset :: u32
  fb_screen :: "fb_cell list"
  dirty_x0 :: int
  dirty_y0 :: int
  dirty_x1 :: int
  dirty_y1 :: int
  dirty_full :: bool
  hl_r0 :: u32
  hl_c0 :: u32
  hl_r1 :: u32
  hl_c1 :: u32
  hl_active :: bool

definition fb_set_vram_hooks :: "(u32 list \<Rightarrow> u32 list) option \<Rightarrow> (u32 list \<Rightarrow> u32 list) option \<Rightarrow> fb \<Rightarrow> fb" where
  "fb_set_vram_hooks pre post f = f\<lparr>vram_pre_hook := pre, vram_post_hook := post\<rparr>"

abbreviation run_hook :: "(u32 list \<Rightarrow> u32 list) option \<Rightarrow> u32 list \<Rightarrow> u32 list" where
  "run_hook h v \<equiv> (case h of None \<Rightarrow> v | Some g \<Rightarrow> g v)"

section \<open>The dirty rectangle and the video memory\<close>

definition fb_dirty_reset :: "fb \<Rightarrow> fb" where
  "fb_dirty_reset f = f\<lparr>dirty_x0 := 0x7FFFFFFF, dirty_y0 := 0x7FFFFFFF, dirty_x1 := 0, dirty_y1 := 0, dirty_full := False\<rparr>"

definition fb_dirty_mark :: "int \<Rightarrow> int \<Rightarrow> int \<Rightarrow> int \<Rightarrow> fb \<Rightarrow> fb" where
  "fb_dirty_mark x y w h f =
     f\<lparr>dirty_x0 := (if x < dirty_x0 f then x else dirty_x0 f),
       dirty_y0 := (if y < dirty_y0 f then y else dirty_y0 f),
       dirty_x1 := (if s32 (x + w) > dirty_x1 f then s32 (x + w) else dirty_x1 f),
       dirty_y1 := (if s32 (y + h) > dirty_y1 f then s32 (y + h) else dirty_y1 f)\<rparr>"

definition fb_dirty_mark_full :: "fb \<Rightarrow> fb" where "fb_dirty_mark_full f = f\<lparr>dirty_full := True\<rparr>"

text \<open>The distance of two rows in pixels: \<open>pitch >> 2\<close>.\<close>

definition stride :: "fb \<Rightarrow> int" where "stride f = uint (drop_bit 2 (pitch f))"

definition fb_swap_buffers :: "fb \<Rightarrow> fb option" where
  "fb_swap_buffers f =
     (if \<not> fb_available f \<or> direct f then Some f
      else do {
        v \<leftarrow> copy_to 0 (back_buffer f) 0 (unat (drop_bit 2 (fb_size f))) (run_hook (vram_pre_hook f) (vram f));
        Some (f\<lparr>vram := run_hook (vram_post_hook f) v\<rparr>)
      })"

definition flush_row :: "fb \<Rightarrow> int \<Rightarrow> int \<Rightarrow> int \<Rightarrow> u32 list \<Rightarrow> u32 list option" where
  "flush_row f x0 x1 y v =
     (let k = idx32 (y * stride f + x0) in copy_to k (back_buffer f) k (idx32 (x1 - x0)) v)"

definition fb_flush :: "fb \<Rightarrow> fb option" where
  "fb_flush f =
     (if \<not> fb_available f \<or> \<not> fb_dirty f then Some f
      else let f = f\<lparr>fb_dirty := False\<rparr> in
        if direct f then Some f
        else if dirty_full f then map_option fb_dirty_reset (fb_swap_buffers f)
        else if dirty_x1 f \<le> dirty_x0 f \<or> dirty_y1 f \<le> dirty_y0 f then Some (fb_dirty_reset f)
        else
          let x1 = (if dirty_x1 f > sint (width f) then sint (width f) else dirty_x1 f);
              y1 = (if dirty_y1 f > sint (height f) then sint (height f) else dirty_y1 f);
              x0 = (if dirty_x0 f < 0 then 0 else dirty_x0 f);
              y0 = (if dirty_y0 f < 0 then 0 else dirty_y0 f)
          in do {
            v \<leftarrow> each (flush_row f x0 x1) [y0 .. y1 - 1] (run_hook (vram_pre_hook f) (vram f));
            Some (fb_dirty_reset (f\<lparr>vram := run_hook (vram_post_hook f) v\<rparr>))
          })"

definition fb_clear :: "u32 \<Rightarrow> fb \<Rightarrow> fb option" where
  "fb_clear color f =
     (if \<not> fb_available f then Some f
      else let n = unat (drop_bit 2 (fb_size f)) in
        if n \<le> length (back_buffer f)
        then Some (fb_dirty_mark_full (f\<lparr>back_buffer := replicate n color @ drop n (back_buffer f)\<rparr>))
        else None)"

section \<open>Drawing\<close>

definition poke :: "nat \<Rightarrow> u32 \<Rightarrow> fb \<Rightarrow> fb option" where
  "poke i color f = map_option (\<lambda>b. f\<lparr>back_buffer := b\<rparr>) (put_at i color (back_buffer f))"

text \<open>\<open>n\<close> pixels from a pointer that advances by \<open>step\<close>.\<close>

definition run_of :: "nat \<Rightarrow> nat \<Rightarrow> nat \<Rightarrow> u32 \<Rightarrow> fb \<Rightarrow> fb option" where
  "run_of base step n color = each (\<lambda>i. poke (base + i * step) color) [0 ..< n]"

definition fb_draw_hline :: "int \<Rightarrow> int \<Rightarrow> int \<Rightarrow> u32 \<Rightarrow> fb \<Rightarrow> fb option" where
  "fb_draw_hline x y w color f =
     (if \<not> fb_available f \<or> y < 0 \<or> sint (height f) \<le> y then Some f
      else let w = (if x < 0 then s32 (w + x) else w);
               x = (if x < 0 then 0 else x);
               w = (if s32 (x + w) > sint (width f) then s32 (sint (width f) - x) else w)
           in if w \<le> 0 then Some f
              else map_option (fb_dirty_mark x y w 1) (run_of (idx32 (y * stride f + x)) 1 (nat w) color f))"

definition fb_draw_vline :: "int \<Rightarrow> int \<Rightarrow> int \<Rightarrow> u32 \<Rightarrow> fb \<Rightarrow> fb option" where
  "fb_draw_vline x y h color f =
     (if \<not> fb_available f \<or> x < 0 \<or> sint (width f) \<le> x then Some f
      else let h = (if y < 0 then s32 (h + y) else h);
               y = (if y < 0 then 0 else y);
               h = (if s32 (y + h) > sint (height f) then s32 (sint (height f) - y) else h)
           in if h \<le> 0 then Some f
              else run_of (idx32 (y * stride f + x)) (nat (stride f)) (nat h) color f)"

definition fb_draw_rect :: "int \<Rightarrow> int \<Rightarrow> int \<Rightarrow> int \<Rightarrow> u32 \<Rightarrow> fb \<Rightarrow> fb option" where
  "fb_draw_rect x y w h color f =
     (if \<not> fb_available f then Some f
      else do {
        f \<leftarrow> fb_draw_hline x y w color f;
        f \<leftarrow> fb_draw_hline x (s32 (y + h - 1)) w color f;
        f \<leftarrow> fb_draw_vline x y h color f;
        fb_draw_vline (s32 (x + w - 1)) y h color f
      })"

definition fb_fill_rect :: "int \<Rightarrow> int \<Rightarrow> int \<Rightarrow> int \<Rightarrow> u32 \<Rightarrow> fb \<Rightarrow> fb option" where
  "fb_fill_rect x y w h color f =
     (if \<not> fb_available f then Some f
      else map_option (fb_dirty_mark x y w h) (each (\<lambda>i. fb_draw_hline x (s32 (y + i)) w color) [0 .. h - 1] f))"

text \<open>The loop of Bresenham's line; a loop that does not end is \<open>None\<close>.\<close>

partial_function (option) line_loop ::
  "int \<Rightarrow> int \<Rightarrow> int \<Rightarrow> int \<Rightarrow> int \<Rightarrow> int \<Rightarrow> u32 \<Rightarrow> int \<Rightarrow> int \<Rightarrow> int \<Rightarrow> fb \<Rightarrow> fb option" where
  "line_loop x1 y1 dx dy sx sy color x0 y0 err f =
     do {
       f \<leftarrow> (if 0 \<le> x0 \<and> x0 < sint (width f) \<and> 0 \<le> y0 \<and> y0 < sint (height f)
             then poke (idx32 (y0 * stride f + x0)) color f else Some f);
       if x0 = x1 \<and> y0 = y1 then Some f
       else
         let e2 = s32 (2 * err);
             err' = (if e2 > s32 (- dy) then s32 (err - dy) else err);
             x0' = (if e2 > s32 (- dy) then s32 (x0 + sx) else x0);
             err'' = (if e2 < dx then s32 (err' + dx) else err');
             y0' = (if e2 < dx then s32 (y0 + sy) else y0)
         in line_loop x1 y1 dx dy sx sy color x0' y0' err'' f
     }"

definition fb_draw_line :: "int \<Rightarrow> int \<Rightarrow> int \<Rightarrow> int \<Rightarrow> u32 \<Rightarrow> fb \<Rightarrow> fb option" where
  "fb_draw_line x0 y0 x1 y1 color f =
     (if \<not> fb_available f then Some f
      else let dx = s32 (x1 - x0); dy = s32 (y1 - y0);
               sx = (if dx > 0 then 1 else -1);
               sy = (if dy > 0 then 1 else -1);
               dx = (if dx < 0 then s32 (- dx) else dx);
               dy = (if dy < 0 then s32 (- dy) else dy)
           in line_loop x1 y1 dx dy sx sy color x0 y0 (s32 (dx - dy)) f)"

text \<open>The pixel of a glyph row in column \<open>k\<close>: bit 7 is the leftmost.\<close>

definition glyph_color :: "u8 \<Rightarrow> nat \<Rightarrow> u32 \<Rightarrow> u32 \<Rightarrow> u32" where
  "glyph_color row k fg bg = (if row AND push_bit (7 - k) 1 \<noteq> 0 then fg else bg)"

definition draw_glyph_row :: "int \<Rightarrow> int \<Rightarrow> u8 list \<Rightarrow> u32 \<Rightarrow> u32 \<Rightarrow> nat \<Rightarrow> fb \<Rightarrow> fb option" where
  "draw_glyph_row x y glyph fg bg dy f =
     (let py = s32 (y + int dy) in
      if py < 0 \<or> sint (height f) \<le> py then Some f
      else let row = glyph ! dy in
        if 0 \<le> x \<and> s32 (x + 7) < sint (width f)
        then each (\<lambda>k. poke (idx32 (py * stride f + x) + k) (glyph_color row k fg bg)) [0 ..< 8] f
        else each (\<lambda>k f. let px = s32 (x + int k) in
                     if 0 \<le> px \<and> px < sint (width f)
                     then poke (idx32 (py * stride f + px)) (glyph_color row k fg bg) f else Some f) [0 ..< 8] f)"

definition fb_draw_char :: "int \<Rightarrow> int \<Rightarrow> u8 \<Rightarrow> u32 \<Rightarrow> u32 \<Rightarrow> fb \<Rightarrow> fb option" where
  "fb_draw_char x y c fg bg f =
     (if \<not> fb_available f then Some f
      else let idx = (if 128 \<le> c then 0 else unat c); glyph = fb_font_data ! idx
           in map_option (fb_dirty_mark x y FB_FONT_WIDTH FB_FONT_HEIGHT)
                (each (draw_glyph_row x y glyph fg bg) [0 ..< 16] f))"

fun draw_string_loop :: "int \<Rightarrow> int \<Rightarrow> int \<Rightarrow> u8 list \<Rightarrow> u32 \<Rightarrow> u32 \<Rightarrow> fb \<Rightarrow> fb option" where
  "draw_string_loop x cx y [] fg bg f = Some f"
| "draw_string_loop x cx y (c # cs) fg bg f =
     (if c = 0 then Some f
      else if c = 10 then draw_string_loop x x (s32 (y + FB_FONT_HEIGHT)) cs fg bg f
      else fb_draw_char cx y c fg bg f \<bind> draw_string_loop x (s32 (cx + FB_FONT_WIDTH)) y cs fg bg)"

definition fb_draw_string :: "int \<Rightarrow> int \<Rightarrow> u8 list \<Rightarrow> u32 \<Rightarrow> u32 \<Rightarrow> fb \<Rightarrow> fb option" where
  "fb_draw_string x y str fg bg f = (if \<not> fb_available f then Some f else draw_string_loop x x y str fg bg f)"

section \<open>The text console\<close>

text \<open>Rows and columns of cells in the flat arrays.\<close>

definition cell_idx :: "u32 \<Rightarrow> u32 \<Rightarrow> nat" where "cell_idx r c = unat r * FB_MAX_COLS + unat c"

definition set_cell :: "u32 \<Rightarrow> u32 \<Rightarrow> u8 \<Rightarrow> fb \<Rightarrow> fb option" where
  "set_cell r c x f =
     map_option (\<lambda>s. f\<lparr>fb_screen := s\<rparr>)
       (put_at (cell_idx r c) \<lparr>ch = x, cfg = fg_color f, cbg = bg_color f\<rparr> (fb_screen f))"

text \<open>\<open>for (uint32_t i = a; i < b; i++)\<close>\<close>

definition u32_range :: "u32 \<Rightarrow> u32 \<Rightarrow> u32 list" where "u32_range a b = map of_nat [unat a ..< unat b]"

definition save_line :: "fb \<Rightarrow> fb option" where
  "save_line f =
     (case fb_scrollback f of
        None \<Rightarrow> Some f
      | Some sb \<Rightarrow> do {
          sb' \<leftarrow> copy_to (unat (fb_sb_write f) * FB_MAX_COLS) (fb_screen f) 0 (unat (text_cols f)) sb;
          Some (f\<lparr>fb_scrollback := Some sb', fb_sb_write := (fb_sb_write f + 1) mod 1000,
                  fb_sb_count := (if fb_sb_count f < 1000 then fb_sb_count f + 1 else fb_sb_count f)\<rparr>)
        })"

definition fb_console_scroll :: "fb \<Rightarrow> fb option" where
  "fb_console_scroll f =
     (if \<not> fb_available f then Some f
      else do {
        f \<leftarrow> save_line f;
        s \<leftarrow> each (\<lambda>r. move_in (unat r * FB_MAX_COLS) ((unat r + 1) * FB_MAX_COLS) (unat (text_cols f)))
                (u32_range 0 (text_rows f - 1)) (fb_screen f);
        f \<leftarrow> each (\<lambda>c. set_cell (text_rows f - 1) c 32) (u32_range 0 (text_cols f)) (f\<lparr>fb_screen := s\<rparr>);
        let row_bytes = pitch f * 16;
        let total_text_bytes = pitch f * (text_rows f * 16);
        let last_row_y = (text_rows f - 1) * 16;
        b \<leftarrow> move_in 0 (unat row_bytes div 4) (unat (total_text_bytes - row_bytes) div 4) (back_buffer f);
        f \<leftarrow> fb_fill_rect 0 (sint last_row_y) (sint (width f)) FB_FONT_HEIGHT (bg_color f) (f\<lparr>back_buffer := b\<rparr>);
        Some (fb_dirty_mark_full f)
      })"

definition fb_console_draw_cursor :: "u32 \<Rightarrow> fb \<Rightarrow> fb option" where
  "fb_console_draw_cursor color f =
     (if \<not> fb_available f \<or> \<not> cursor_visible f then Some f
      else let x = sint (cursor_x f * 8); y = sint (cursor_y f * 16 + 16 - 2)
           in fb_draw_hline x y FB_FONT_WIDTH color f \<bind> fb_draw_hline x (s32 (y + 1)) FB_FONT_WIDTH color)"

definition fb_console_init :: "fb \<Rightarrow> fb option" where
  "fb_console_init f =
     (if \<not> fb_available f then Some f
      else fb_clear FB_TERM_BG (f\<lparr>cursor_x := 0, cursor_y := 0, fg_color := FB_TERM_FG, bg_color := FB_TERM_BG,
             cursor_visible := True\<rparr>) \<bind> fb_swap_buffers)"

definition fb_console_clear :: "fb \<Rightarrow> fb option" where
  "fb_console_clear f =
     (if \<not> fb_available f then Some f
      else do {
        f \<leftarrow> each (\<lambda>r. each (\<lambda>c. set_cell r c 32) (u32_range 0 (text_cols f))) (u32_range 0 (text_rows f))
               (f\<lparr>cursor_x := 0, cursor_y := 0, fb_sb_offset := 0\<rparr>);
        f \<leftarrow> fb_clear (bg_color f) f;
        fb_swap_buffers f
      })"

text \<open>A cell at its place on the screen; \<open>char\<close> is signed, so only \<open>33\<close> to \<open>127\<close> are drawn.\<close>

definition draw_cell :: "fb_cell \<Rightarrow> u32 \<Rightarrow> u32 \<Rightarrow> fb \<Rightarrow> fb option" where
  "draw_cell cell r c f =
     (if sint (ch cell) > 32 then fb_draw_char (sint (c * 8)) (sint (r * 16)) (ch cell) (cfg cell) (cbg cell) f
      else Some f)"

definition fb_console_redraw :: "fb \<Rightarrow> fb option" where
  "fb_console_redraw f =
     (if \<not> fb_available f then Some f
      else do {
        f \<leftarrow> fb_clear (bg_color f) f;
        f \<leftarrow> each (\<lambda>r. each (\<lambda>c f. get_at (cell_idx r c) (fb_screen f) \<bind> (\<lambda>cell. draw_cell cell r c f))
               (u32_range 0 (text_cols f))) (u32_range 0 (text_rows f)) f;
        f \<leftarrow> fb_console_draw_cursor FB_TERM_CURSOR f;
        fb_swap_buffers f
      })"

text \<open>A view of older lines ends when something is written.\<close>

definition leave_scroll :: "fb \<Rightarrow> fb option" where
  "leave_scroll f = (if 0 < fb_sb_offset f then fb_console_redraw (f\<lparr>fb_sb_offset := 0\<rparr>) else Some f)"

definition put_cell_here :: "u8 \<Rightarrow> fb \<Rightarrow> fb option" where
  "put_cell_here c f = do {
     f \<leftarrow> set_cell (cursor_y f) (cursor_x f) c f;
     fb_draw_char (sint (cursor_x f * 8)) (sint (cursor_y f * 16)) c (fg_color f) (bg_color f) f
   }"

definition newline :: "fb \<Rightarrow> fb" where "newline f = f\<lparr>cursor_x := 0, cursor_y := cursor_y f + 1\<rparr>"

text \<open>\<open>while (cursor_y >= text_rows) \<dots>\<close>\<close>

partial_function (option) scroll_loop :: "fb \<Rightarrow> fb option" where
  "scroll_loop f =
     (if cursor_y f < text_rows f then Some f
      else fb_console_scroll f \<bind> (\<lambda>f. scroll_loop (f\<lparr>cursor_y := cursor_y f - 1\<rparr>)))"

text \<open>What \<open>fb_console_putchar\<close> and the loop of \<open>fb_console_puts\<close> do for one character.\<close>

definition put_one :: "u8 \<Rightarrow> fb \<Rightarrow> fb option" where
  "put_one c f = do {
     f \<leftarrow> (if c = 10 then Some (newline f)
           else if c = 13 then Some (f\<lparr>cursor_x := 0\<rparr>)
           else if c = 9 then
             (let x = (cursor_x f + 8) AND NOT 7; f = f\<lparr>cursor_x := x\<rparr> in
              Some (if text_cols f \<le> x then newline f else f))
           else if c = 8 then
             (if 0 < cursor_x f then put_cell_here 32 (f\<lparr>cursor_x := cursor_x f - 1\<rparr>) else Some f)
           else map_option (\<lambda>f. f\<lparr>cursor_x := cursor_x f + 1\<rparr>) (put_cell_here c f));
     scroll_loop (if text_cols f \<le> cursor_x f then newline f else f)
   }"

definition fb_console_putchar :: "u8 \<Rightarrow> fb \<Rightarrow> fb option" where
  "fb_console_putchar c f =
     (if \<not> fb_available f then Some f
      else do {
        f \<leftarrow> leave_scroll f;
        f \<leftarrow> fb_console_draw_cursor (bg_color f) f;
        f \<leftarrow> put_one c f;
        f \<leftarrow> fb_console_draw_cursor FB_TERM_CURSOR f;
        Some (f\<lparr>fb_dirty := True\<rparr>)
      })"

fun puts_loop :: "u8 list \<Rightarrow> fb \<Rightarrow> fb option" where
  "puts_loop [] f = Some f"
| "puts_loop (c # cs) f = (if c = 0 then Some f else put_one c f \<bind> puts_loop cs)"

definition fb_console_puts :: "u8 list \<Rightarrow> fb \<Rightarrow> fb option" where
  "fb_console_puts str f =
     (if \<not> fb_available f then Some f
      else do {
        f \<leftarrow> leave_scroll f;
        f \<leftarrow> fb_console_draw_cursor (bg_color f) f;
        f \<leftarrow> puts_loop str f;
        f \<leftarrow> fb_console_draw_cursor FB_TERM_CURSOR f;
        fb_swap_buffers f
      })"

definition fb_console_set_color :: "u32 \<Rightarrow> u32 \<Rightarrow> fb \<Rightarrow> fb" where
  "fb_console_set_color fg bg f = f\<lparr>fg_color := fg, bg_color := bg\<rparr>"

function dec_digits :: "u32 \<Rightarrow> u8 list" where
  "dec_digits num = (if num > 0 then ucast (48 + num mod 10) # dec_digits (num div 10) else [])"
  by pat_completeness auto
termination
proof (relation "measure unat")
  fix num :: u32
  assume "num > 0"
  then show "(num div 10, num) \<in> measure unat" by (simp add: word_gt_0 unat_div unat_gt_0)
qed simp

definition fb_console_put_dec :: "u32 \<Rightarrow> fb \<Rightarrow> fb option" where
  "fb_console_put_dec num f =
     (if num = 0 then fb_console_putchar 48 f else each fb_console_putchar (rev (dec_digits num)) f)"

definition fb_hex_digit :: "u32 \<Rightarrow> nat \<Rightarrow> u8" where
  "fb_hex_digit num i = (let nibble = ucast (drop_bit i num) AND 0xF :: u8 in if nibble < 10 then 48 + nibble else 65 + nibble - 10)"

definition fb_console_put_hex :: "u32 \<Rightarrow> fb \<Rightarrow> fb option" where
  "fb_console_put_hex num f =
     fb_console_puts [48, 120] f \<bind> each (\<lambda>i. fb_console_putchar (fb_hex_digit num i)) [28, 24, 20, 16, 12, 8, 4, 0]"

definition fb_console_puts_ok :: "fb \<Rightarrow> fb option" where
  "fb_console_puts_ok f =
     map_option (\<lambda>g. g\<lparr>fg_color := fg_color f\<rparr>) (fb_console_puts [79, 75] (f\<lparr>fg_color := FB_TERM_GREEN\<rparr>))"

definition fb_console_puts_fail :: "fb \<Rightarrow> fb option" where
  "fb_console_puts_fail f =
     map_option (\<lambda>g. g\<lparr>fg_color := fg_color f\<rparr>) (fb_console_puts [70, 65, 73, 76, 69, 68] (f\<lparr>fg_color := FB_TERM_RED\<rparr>))"

definition fb_console_begin_batch :: "fb \<Rightarrow> fb" where
  "fb_console_begin_batch f = f\<lparr>fb_swap_deferred := fb_swap_deferred f + 1\<rparr>"

definition fb_console_end_batch :: "fb \<Rightarrow> fb option" where
  "fb_console_end_batch f =
     (let f = (if fb_swap_deferred f > 0 then f\<lparr>fb_swap_deferred := fb_swap_deferred f - 1\<rparr> else f)
      in if fb_swap_deferred f = 0 \<and> fb_available f then fb_swap_buffers f else Some f)"

definition fb_console_set_cursor_pos :: "u32 \<Rightarrow> u32 \<Rightarrow> fb \<Rightarrow> fb option" where
  "fb_console_set_cursor_pos x y f =
     (if \<not> fb_available f then Some f
      else let x = (if text_cols f \<le> x then text_cols f - 1 else x);
               y = (if text_rows f \<le> y then text_rows f - 1 else y)
           in do {
             f \<leftarrow> fb_console_draw_cursor (bg_color f) f;
             f \<leftarrow> fb_console_draw_cursor FB_TERM_CURSOR (f\<lparr>cursor_x := x, cursor_y := y\<rparr>);
             Some (f\<lparr>fb_dirty := True\<rparr>)
           })"

section \<open>Highlighting\<close>

definition hl_draw_cell :: "u32 \<Rightarrow> bool \<Rightarrow> u32 \<Rightarrow> fb \<Rightarrow> fb option" where
  "hl_draw_cell row inverted col f = do {
     cell \<leftarrow> get_at (cell_idx row col) (fb_screen f);
     let c = (if sint (ch cell) > 32 then ch cell else 32);
     if inverted then fb_draw_char (sint (col * 8)) (sint (row * 16)) c FB_TERM_BG FB_TERM_FG f
     else fb_draw_char (sint (col * 8)) (sint (row * 16)) c (cfg cell) (cbg cell) f
   }"

text \<open>\<open>for (c = a; c <= b; c++)\<close>, and the cells from one place to another in reading order.\<close>

definition u32_upto :: "u32 \<Rightarrow> u32 \<Rightarrow> u32 list" where "u32_upto a b = map of_nat [unat a ..< Suc (unat b)]"

definition hl_range :: "bool \<Rightarrow> u32 \<Rightarrow> u32 \<Rightarrow> u32 \<Rightarrow> u32 \<Rightarrow> fb \<Rightarrow> fb option" where
  "hl_range iv r0 c0 r1 c1 f =
     (if r0 = r1 then
        map_option (fb_dirty_mark (sint (c0 * 8)) (sint (r0 * 16)) (sint ((c1 - c0 + 1) * 8)) FB_FONT_HEIGHT)
          (each (hl_draw_cell r0 iv) (u32_upto c0 c1) f)
      else do {
        f \<leftarrow> each (hl_draw_cell r0 iv) (u32_range c0 (text_cols f)) f;
        f \<leftarrow> each (\<lambda>r. each (hl_draw_cell r iv) (u32_range 0 (text_cols f))) (u32_range (r0 + 1) r1) f;
        f \<leftarrow> each (hl_draw_cell r1 iv) (u32_upto 0 c1) f;
        Some (fb_dirty_mark 0 (sint (r0 * 16)) (sint (text_cols f * 8)) (sint ((r1 - r0 + 1) * 16)) f)
      })"

definition fb_console_clear_highlight :: "fb \<Rightarrow> fb option" where
  "fb_console_clear_highlight f =
     (if \<not> fb_available f \<or> \<not> hl_active f then Some f
      else map_option (\<lambda>f. f\<lparr>fb_dirty := True, hl_active := False\<rparr>) (hl_range False (hl_r0 f) (hl_c0 f) (hl_r1 f) (hl_c1 f) f))"

definition fb_console_highlight :: "u32 \<Rightarrow> u32 \<Rightarrow> u32 \<Rightarrow> u32 \<Rightarrow> fb \<Rightarrow> fb option" where
  "fb_console_highlight r0 c0 r1 c1 f =
     (if \<not> fb_available f then Some f
      else let swapped = (r1 < r0 \<or> (r0 = r1 \<and> c1 < c0));
               (r0, c0, r1, c1) = (if swapped then (r1, c1, r0, c0) else (r0, c0, r1, c1));
               r1 = (if text_rows f \<le> r1 then text_rows f - 1 else r1);
               c0 = (if text_cols f \<le> c0 then text_cols f - 1 else c0);
               c1 = (if text_cols f \<le> c1 then text_cols f - 1 else c1)
           in do {
             f \<leftarrow> (if hl_active f then fb_console_clear_highlight f else Some f);
             f \<leftarrow> hl_range True r0 c0 r1 c1 (f\<lparr>hl_r0 := r0, hl_c0 := c0, hl_r1 := r1, hl_c1 := c1, hl_active := True\<rparr>);
             Some (f\<lparr>fb_dirty := True\<rparr>)
           })"

definition fb_console_get_char :: "u32 \<Rightarrow> u32 \<Rightarrow> fb \<Rightarrow> u8 option" where
  "fb_console_get_char row col f =
     (if \<not> fb_available f \<or> text_rows f \<le> row \<or> text_cols f \<le> col then Some 32
      else map_option (\<lambda>cell. if 32 \<le> sint (ch cell) \<and> sint (ch cell) < 127 then ch cell else 32)
             (get_at (cell_idx row col) (fb_screen f)))"

section \<open>Looking back\<close>

text \<open>C's remainder of integers, whose sign is that of the dividend.\<close>

definition c_rem :: "int \<Rightarrow> int \<Rightarrow> int" where "c_rem a b = sgn a * (\<bar>a\<bar> mod \<bar>b\<bar>)"

definition draw_view_row :: "u32 \<Rightarrow> fb \<Rightarrow> fb option" where
  "draw_view_row r f =
     (let logical = s32 (sint (fb_sb_count f) - sint (fb_sb_offset f) + sint r) in
      if logical < 0 then Some f
      else if logical < sint (fb_sb_count f) then
        let i = c_rem (s32 (sint (fb_sb_write f) - sint (fb_sb_count f) + logical + 1000)) 1000 in
        each (\<lambda>c f. do {
            sb \<leftarrow> fb_scrollback f;
            cell \<leftarrow> (if i < 0 then None else get_at (nat i * FB_MAX_COLS + unat c) sb);
            draw_cell cell r c f
          }) (u32_range 0 (text_cols f)) f
      else let row = s32 (logical - sint (fb_sb_count f)) in
        if 0 \<le> row \<and> row < sint (text_rows f) then
          each (\<lambda>c f. get_at (nat row * FB_MAX_COLS + unat c) (fb_screen f) \<bind> (\<lambda>cell. draw_cell cell r c f))
            (u32_range 0 (text_cols f)) f
        else Some f)"

definition scroll_mark :: "u8 list" where "scroll_mark = [91, 83, 67, 82, 79, 76, 76, 93]"

definition fb_console_render_scrollback :: "fb \<Rightarrow> fb option" where
  "fb_console_render_scrollback f =
     (if \<not> fb_available f then Some f
      else do {
        f \<leftarrow> fb_clear (bg_color f) f;
        f \<leftarrow> each draw_view_row (u32_range 0 (text_rows f)) f;
        f \<leftarrow> (if 0 < fb_sb_offset f
              then let x = s32 (s32 (sint (text_cols f) - 8) * FB_FONT_WIDTH) in
                each (\<lambda>k. fb_draw_char (s32 (x + int k * FB_FONT_WIDTH)) 0 (scroll_mark ! k) FB_TERM_YELLOW FB_TERM_BG) [0 ..< 8] f
              else Some f);
        fb_swap_buffers f
      })"

definition fb_console_scroll_up :: "u32 \<Rightarrow> fb \<Rightarrow> fb option" where
  "fb_console_scroll_up lines f =
     (if \<not> fb_available f \<or> fb_sb_count f = 0 then Some f
      else let off = fb_sb_offset f + lines in
        fb_console_render_scrollback (f\<lparr>fb_sb_offset := (if fb_sb_count f < off then fb_sb_count f else off)\<rparr>))"

definition fb_console_scroll_down :: "u32 \<Rightarrow> fb \<Rightarrow> fb option" where
  "fb_console_scroll_down lines f =
     (if \<not> fb_available f \<or> fb_sb_offset f = 0 then Some f
      else if fb_sb_offset f \<le> lines then fb_console_redraw (f\<lparr>fb_sb_offset := 0\<rparr>)
      else fb_console_render_scrollback (f\<lparr>fb_sb_offset := fb_sb_offset f - lines\<rparr>))"

definition fb_console_is_scrolled :: "fb \<Rightarrow> bool" where "fb_console_is_scrolled f \<longleftrightarrow> 0 < fb_sb_offset f"

definition fb_console_scroll_reset :: "fb \<Rightarrow> fb option" where "fb_console_scroll_reset f = leave_scroll f"

section \<open>Start\<close>

text \<open>
  \<open>fb_init\<close>: the pages it maps are a result, what \<open>kmalloc\<close> gives (the buffers, or \<open>NULL\<close>) and the contents
  of the video memory are arguments.
\<close>

definition fb_pages :: "u32 \<Rightarrow> u32 \<Rightarrow> (u32 \<times> u32) list" where
  "fb_pages phys sz =
     map (\<lambda>i. (FB_VIRT_BASE + i * PAGE_SIZE, phys + i * PAGE_SIZE)) (u32_range 0 ((sz + PAGE_SIZE - 1) div PAGE_SIZE))"

definition fb_init :: "u32 \<Rightarrow> u32 \<Rightarrow> u32 \<Rightarrow> u32 \<Rightarrow> u8 \<Rightarrow> u32 list option \<Rightarrow> bool \<Rightarrow> u32 list \<Rightarrow> fb \<Rightarrow>
    (int \<times> (u32 \<times> u32) list \<times> fb) option" where
  "fb_init phys w h p bits buffer sb_ok v f =
     (if bits \<noteq> 32 then Some (-1, [], f)
      else let sz = p * h;
               f = f\<lparr>phys_addr := phys, width := w, height := h, pitch := p, bpp := bits, fb_size := sz,
                     vram := v, direct := (buffer = None),
                     back_buffer := (case buffer of None \<Rightarrow> v | Some b \<Rightarrow> b),
                     text_cols := w div 8, text_rows := h div 16, cursor_x := 0, cursor_y := 0,
                     fg_color := FB_TERM_FG, bg_color := FB_TERM_BG, cursor_visible := True, fb_available := True,
                     fb_scrollback := (if sb_ok then Some (replicate (FB_SCROLLBACK_LINES * FB_MAX_COLS) \<lparr>ch = 0, cfg = 0, cbg = 0\<rparr>) else None)\<rparr>
           in do {
             f \<leftarrow> fb_clear (bg_color f) (fb_dirty_reset f);
             f \<leftarrow> fb_swap_buffers f;
             Some (0, fb_pages phys sz, f)
           })"

text \<open>\<open>fb_init_bga\<close>: the identification register and the first base address of the display controller are arguments.\<close>

definition fb_init_bga :: "u32 \<Rightarrow> u32 \<Rightarrow> u16 \<Rightarrow> u32 option \<Rightarrow> u32 list option \<Rightarrow> bool \<Rightarrow> u32 list \<Rightarrow> fb \<Rightarrow>
    (int \<times> (u32 \<times> u32) list \<times> fb) option" where
  "fb_init_bga w h bga_id bar buffer sb_ok v f =
     (if bga_id < 0xB0C0 \<or> 0xB0C5 < bga_id then Some (-1, [], f)
      else case bar of
        None \<Rightarrow> Some (-1, [], f)
      | Some b \<Rightarrow>
          let phys = b AND 0xFFFFFFF0 in
          if phys = 0 then Some (-1, [], f)
          else fb_init phys w h (w * 4) 32 buffer sb_ok v f)"

end
