(* ===== verification/Fb_Draw.thy ===== *)
theory Fb_Draw
  imports Fb
begin

text \<open>
  Drawing into the back buffer of the framebuffer: what each primitive changes. \<open>painted R c f g\<close> says that \<open>g\<close>
  is \<open>f\<close> with the on-screen pixels of \<open>R\<close> set to \<open>c\<close>; only the buffer and the dirty rectangle differ.
\<close>

section \<open>Geometry\<close>

definition geometry :: "fb \<Rightarrow> bool" where
  "geometry f \<longleftrightarrow> fb_available f \<and> 64 \<le> unat (width f) \<and> unat (width f) \<le> 1024 \<and>
     16 \<le> unat (height f) \<and> unat (height f) \<le> 768 \<and> 4 * unat (width f) \<le> unat (pitch f) \<and>
     unat (pitch f) * unat (height f) < 2 ^ 32 \<and> unat (fb_size f) = unat (pitch f) * unat (height f) \<and>
     length (back_buffer f) = unat (fb_size f) div 4 \<and> length (vram f) = unat (fb_size f) div 4 \<and>
     text_cols f = width f div 8 \<and> text_rows f = height f div 16 \<and>
     (\<forall>v. length (run_hook (vram_pre_hook f) v) = length v) \<and> (\<forall>v. length (run_hook (vram_post_hook f) v) = length v)"

text \<open>Everything but the buffer and the dirty rectangle.\<close>

definition skel :: "fb \<Rightarrow> fb" where
  "skel f = f\<lparr>back_buffer := [], dirty_x0 := 0, dirty_y0 := 0, dirty_x1 := 0, dirty_y1 := 0, dirty_full := False\<rparr>"

lemma skel_upd [simp]:
  "skel (f\<lparr>back_buffer := b\<rparr>) = skel f" "skel (fb_dirty_mark x y w h f) = skel f"
  "skel (fb_dirty_mark_full f) = skel f" "skel (fb_dirty_reset f) = skel f"
  by (simp_all add: skel_def fb_dirty_mark_def fb_dirty_mark_full_def fb_dirty_reset_def)

lemma skel_sel:
  "fb_available (skel f) = fb_available f" "width (skel f) = width f" "height (skel f) = height f"
  "pitch (skel f) = pitch f" "fb_size (skel f) = fb_size f" "vram (skel f) = vram f"
  "direct (skel f) = direct f" "text_cols (skel f) = text_cols f" "text_rows (skel f) = text_rows f"
  "cursor_x (skel f) = cursor_x f" "cursor_y (skel f) = cursor_y f" "fg_color (skel f) = fg_color f"
  "bg_color (skel f) = bg_color f" "cursor_visible (skel f) = cursor_visible f" "vram_pre_hook (skel f) = vram_pre_hook f"
  "vram_post_hook (skel f) = vram_post_hook f" "fb_scrollback (skel f) = fb_scrollback f" "fb_sb_write (skel f) = fb_sb_write f"
  "fb_sb_count (skel f) = fb_sb_count f" "fb_sb_offset (skel f) = fb_sb_offset f" "fb_screen (skel f) = fb_screen f"
  "fb_dirty (skel f) = fb_dirty f" "hl_active (skel f) = hl_active f" "hl_r0 (skel f) = hl_r0 f"
  "hl_c0 (skel f) = hl_c0 f" "hl_r1 (skel f) = hl_r1 f" "hl_c1 (skel f) = hl_c1 f"
  "stride (skel f) = stride f"
  by (simp_all add: skel_def stride_def)

lemma skel_fields:
  assumes "skel g = skel f"
  shows "fb_available g = fb_available f" "width g = width f" "height g = height f"
    "pitch g = pitch f" "fb_size g = fb_size f" "vram g = vram f"
    "direct g = direct f" "text_cols g = text_cols f" "text_rows g = text_rows f"
    "cursor_x g = cursor_x f" "cursor_y g = cursor_y f" "fg_color g = fg_color f"
    "bg_color g = bg_color f" "cursor_visible g = cursor_visible f" "vram_pre_hook g = vram_pre_hook f"
    "vram_post_hook g = vram_post_hook f" "fb_scrollback g = fb_scrollback f" "fb_sb_write g = fb_sb_write f"
    "fb_sb_count g = fb_sb_count f" "fb_sb_offset g = fb_sb_offset f" "fb_screen g = fb_screen f"
    "fb_dirty g = fb_dirty f" "hl_active g = hl_active f" "hl_r0 g = hl_r0 f"
    "hl_c0 g = hl_c0 f" "hl_r1 g = hl_r1 f" "hl_c1 g = hl_c1 f"
    "stride g = stride f"
  using skel_sel [of g] unfolding assms skel_sel by simp_all

lemma geometry_skel:
  assumes "skel g = skel f" and "length (back_buffer g) = length (back_buffer f)"
  shows "geometry g = geometry f"
  unfolding geometry_def skel_fields [OF assms(1)] assms(2) ..

lemma geometry_facts:
  assumes "geometry f"
  shows "fb_available f" "8 \<le> sint (width f)" "sint (width f) \<le> 1024" "16 \<le> sint (height f)" "sint (height f) \<le> 768"
    "sint (width f) \<le> stride f" "stride f * sint (height f) \<le> int (length (back_buffer f))"
    "stride f * sint (height f) < 0x40000000" "0 \<le> stride f"
    "sint (width f) = int (unat (width f))" "sint (height f) = int (unat (height f))"
    "stride f = int (unat (pitch f) div 4)"
proof -
  note g = assms [unfolded geometry_def]
  show w: "sint (width f) = int (unat (width f))" "sint (height f) = int (unat (height f))"
    by (rule sint_unat, use g in linarith)+
  show s: "stride f = int (unat (pitch f) div 4)"
  proof -
    have four: "(4 :: nat) = 2 ^ 2" by simp
    show ?thesis unfolding stride_def uint_nat unat_drop_bit_eq unfolding drop_bit_eq_div four ..
  qed
  have "unat (pitch f) div 4 * 4 * unat (height f) \<le> unat (pitch f) * unat (height f)"
    by (intro mult_le_mono1) simp
  then have "unat (pitch f) div 4 * unat (height f) * 4 \<le> unat (pitch f) * unat (height f)" by (simp only: ac_simps)
  then have m: "unat (pitch f) div 4 * unat (height f) \<le> unat (pitch f) * unat (height f) div 4"
    by (subst less_eq_div_iff_mult_less_eq) simp_all
  then show "stride f * sint (height f) \<le> int (length (back_buffer f))"
    unfolding w s of_nat_mult [symmetric] of_nat_le_iff using g by simp
  have "unat (pitch f) * unat (height f) div 4 < 0x40000000" using g by auto
  with m have "unat (pitch f) div 4 * unat (height f) < 0x40000000" by linarith
  then have "int (unat (pitch f) div 4 * unat (height f)) < int 0x40000000" by (simp only: of_nat_less_iff)
  then show "stride f * sint (height f) < 0x40000000" unfolding w s of_nat_mult of_nat_numeral .
  show "fb_available f" "8 \<le> sint (width f)" "sint (width f) \<le> 1024" "16 \<le> sint (height f)" "sint (height f) \<le> 768"
    "sint (width f) \<le> stride f" "0 \<le> stride f"
    unfolding w s using g by linarith+
qed

section \<open>Places\<close>

definition on_screen :: "fb \<Rightarrow> int \<Rightarrow> int \<Rightarrow> bool" where
  "on_screen f x y \<longleftrightarrow> 0 \<le> x \<and> x < sint (width f) \<and> 0 \<le> y \<and> y < sint (height f)"

definition place :: "fb \<Rightarrow> int \<Rightarrow> int \<Rightarrow> nat" where "place f x y = nat (y * stride f + x)"

lemma row_bound:
  assumes "(y::int) < h" and "x < s" and "0 \<le> s"
  shows "y * s + x < s * h"
proof -
  have "s * (y + 1) \<le> s * h" using assms by (intro mult_left_mono) auto
  moreover have "s * (y + 1) = y * s + s" by (simp add: algebra_simps)
  ultimately show ?thesis using assms(2) by linarith
qed

lemma place_bound:
  assumes "geometry f" "on_screen f x y"
  shows "place f x y < length (back_buffer f)" "idx32 (y * stride f + x) = place f x y" "0 \<le> y * stride f + x"
proof -
  note g = geometry_facts [OF assms(1)]
  have r: "y * stride f + x < stride f * sint (height f)"
    using assms(2) g by (intro row_bound) (auto simp: on_screen_def)
  show nn: "0 \<le> y * stride f + x" using assms(2) g by (simp add: on_screen_def)
  show "place f x y < length (back_buffer f)" using r nn g(7) by (simp add: place_def)
  show "idx32 (y * stride f + x) = place f x y"
    unfolding place_def by (rule idx32_id [OF nn]) (use r g in linarith)
qed

lemma place_inj:
  assumes "geometry f" "on_screen f x y" "on_screen f x' y'" "place f x y = place f x' y'"
  shows "x = x' \<and> y = y'"
proof -
  note g = geometry_facts [OF assms(1)]
  have e: "y * stride f + x = y' * stride f + x'"
    using assms(4) place_bound(3) [OF assms(1,2)] place_bound(3) [OF assms(1,3)] by (simp add: place_def)
  have b: "0 \<le> x" "x < stride f" "0 \<le> x'" "x' < stride f" using assms(2,3) g by (auto simp: on_screen_def)
  have "(x + y * stride f) mod stride f = (x' + y' * stride f) mod stride f" using e by (simp add: add.commute)
  then have "x mod stride f = x' mod stride f" by (simp only: mod_mult_self1)
  then have x: "x = x'" using b by simp
  then have "y * stride f = y' * stride f" using e by linarith
  with x b show ?thesis by auto
qed

section \<open>What is painted\<close>

definition painted :: "(int \<Rightarrow> int \<Rightarrow> bool) \<Rightarrow> (int \<Rightarrow> int \<Rightarrow> u32) \<Rightarrow> fb \<Rightarrow> fb \<Rightarrow> bool" where
  "painted R c f g \<longleftrightarrow> skel g = skel f \<and> length (back_buffer g) = length (back_buffer f) \<and>
     (\<forall>x y. on_screen f x y \<longrightarrow> back_buffer g ! place f x y = (if R x y then c x y else back_buffer f ! place f x y)) \<and>
     (\<forall>i < length (back_buffer f). back_buffer g ! i \<noteq> back_buffer f ! i \<longrightarrow> (\<exists>x y. on_screen f x y \<and> R x y \<and> i = place f x y))"

lemma painted_skel: "painted R c f g \<Longrightarrow> skel g = skel f" "painted R c f g \<Longrightarrow> length (back_buffer g) = length (back_buffer f)"
  by (simp_all add: painted_def)

lemma painted_geometry: "painted R c f g \<Longrightarrow> geometry g = geometry f"
  by (rule geometry_skel) (simp_all add: painted_def)

lemma painted_refl: "(\<And>x y. on_screen f x y \<Longrightarrow> \<not> R x y) \<Longrightarrow> painted R c f f"
  by (simp add: painted_def)

lemma painted_none: "painted (\<lambda>_ _. False) c f f"
  by (simp add: painted_refl)

lemma on_screen_skel:
  assumes "skel g = skel f"
  shows "on_screen g = on_screen f" "place g = place f"
  by (intro ext; simp add: on_screen_def place_def skel_fields [OF assms])+

lemma painted_trans:
  assumes "painted R c f g" and "painted Q d g h"
  shows "painted (\<lambda>x y. R x y \<or> Q x y) (\<lambda>x y. if Q x y then d x y else c x y) f h"
proof -
  note a = assms(1) [unfolded painted_def] and b = assms(2) [unfolded painted_def]
  have s: "on_screen g = on_screen f" "place g = place f" using on_screen_skel [of g f] a by auto
  have "\<exists>x y. on_screen f x y \<and> (R x y \<or> Q x y) \<and> i = place f x y"
    if "i < length (back_buffer f)" "back_buffer h ! i \<noteq> back_buffer f ! i" for i
  proof (cases "back_buffer h ! i = back_buffer g ! i")
    case True
    then have "\<exists>x y. on_screen f x y \<and> R x y \<and> i = place f x y" using a that by simp
    then show ?thesis by blast
  next
    case False
    then have "\<exists>x y. on_screen f x y \<and> Q x y \<and> i = place f x y" using b a that(1) s by simp
    then show ?thesis by blast
  qed
  moreover have "back_buffer h ! place f x y = (if R x y \<or> Q x y then if Q x y then d x y else c x y else back_buffer f ! place f x y)"
    if "on_screen f x y" for x y
    using a b that s by auto
  ultimately show ?thesis using a b by (simp add: painted_def)
qed

lemma painted_cong:
  assumes "painted R c f g" and "\<And>x y. on_screen f x y \<Longrightarrow> R x y = Q x y \<and> (Q x y \<longrightarrow> c x y = d x y)"
  shows "painted Q d f g"
  unfolding painted_def
proof (intro conjI allI impI)
  fix i assume "i < length (back_buffer f)" "back_buffer g ! i \<noteq> back_buffer f ! i"
  then obtain x y where "on_screen f x y" "R x y" "i = place f x y" using assms(1) by (auto simp: painted_def)
  then show "\<exists>x y. on_screen f x y \<and> Q x y \<and> i = place f x y" using assms(2) by blast
qed (use assms in \<open>auto simp: painted_def\<close>)

lemma painted_mark: "painted R c f g \<Longrightarrow> painted R c f (fb_dirty_mark x y w h g)"
  by (simp add: painted_def) (simp add: fb_dirty_mark_def)

lemma poke_painted:
  assumes "geometry f" "on_screen f x y"
  shows "\<exists>g. poke (place f x y) v f = Some g \<and> painted (\<lambda>px py. px = x \<and> py = y) (\<lambda>_ _. v) f g"
proof -
  let ?g = "f\<lparr>back_buffer := (back_buffer f)[place f x y := v]\<rparr>"
  have "back_buffer ?g ! place f px py = (if px = x \<and> py = y then v else back_buffer f ! place f px py)"
    if "on_screen f px py" for px py
  proof (cases "place f px py = place f x y")
    case True
    with place_inj [OF assms(1) that assms(2)] have "px = x \<and> py = y" by blast
    then show ?thesis using place_bound(1) [OF assms(1) that] True by simp
  next
    case False
    then show ?thesis by auto
  qed
  moreover have "i = place f x y" if "back_buffer ?g ! i \<noteq> back_buffer f ! i" for i
    using that by (cases "i = place f x y") simp_all
  ultimately have "painted (\<lambda>px py. px = x \<and> py = y) (\<lambda>_ _. v) f ?g"
    using assms(2) unfolding painted_def by auto
  then show ?thesis
    using place_bound(1) [OF assms] by (simp add: poke_def put_at_def)
qed

text \<open>A loop whose \<open>k\<close>-th round paints \<open>R k\<close>.\<close>

lemma each_painted:
  assumes "geometry f"
    and "\<And>k g. k < length xs \<Longrightarrow> skel g = skel f \<Longrightarrow> geometry g \<Longrightarrow>
           okay (painted (\<lambda>x y. R k x y) (\<lambda>x y. c k x y) g) (body (xs ! k) g)"
    and "\<And>k l x y. k < length xs \<Longrightarrow> l < length xs \<Longrightarrow> R k x y \<Longrightarrow> R l x y \<Longrightarrow> c k x y = d x y"
  shows "okay (painted (\<lambda>x y. \<exists>k < length xs. R k x y) d f) (each body xs f)"
proof (rule each_steps [where P = "\<lambda>n. painted (\<lambda>x y. \<exists>k < n. R k x y) d f"])
  show "painted (\<lambda>x y. \<exists>k < 0. R k x y) d f f" by (simp add: painted_refl)
next
  fix k g
  assume k: "k < length xs" and p: "painted (\<lambda>x y. \<exists>j < k. R j x y) d f g"
  have "okay (painted (R k) (c k) g) (body (xs ! k) g)"
    using assms(2) [OF k painted_skel(1) [OF p]] painted_geometry [OF p] assms(1) by simp
  then show "okay (painted (\<lambda>x y. \<exists>j < Suc k. R j x y) d f) (body (xs ! k) g)"
  proof (rule okay_mono)
    fix h assume h: "painted (R k) (c k) g h"
    show "painted (\<lambda>x y. \<exists>j < Suc k. R j x y) d f h"
      by (rule painted_cong [OF painted_trans [OF p h]]) (use assms(3) k in \<open>auto simp: less_Suc_eq\<close>)
  qed
qed

section \<open>The dirty rectangle\<close>

definition in_dirty :: "fb \<Rightarrow> int \<Rightarrow> int \<Rightarrow> bool" where
  "in_dirty f x y \<longleftrightarrow> dirty_x0 f \<le> x \<and> x < dirty_x1 f \<and> dirty_y0 f \<le> y \<and> y < dirty_y1 f"

text \<open>A rectangle that \<open>fb_flush\<close> can copy: it does not begin beyond the right or lower edge.\<close>

definition sane :: "fb \<Rightarrow> bool" where
  "sane f \<longleftrightarrow> 0 \<le> dirty_x0 f \<and> 0 \<le> dirty_y0 f \<and>
     (dirty_x0 f < sint (width f) \<or> dirty_x1 f = 0) \<and> (dirty_y0 f < sint (height f) \<or> dirty_y1 f = 0)"

definition recorded :: "(int \<Rightarrow> int \<Rightarrow> bool) \<Rightarrow> fb \<Rightarrow> fb \<Rightarrow> bool" where
  "recorded R f g \<longleftrightarrow> (dirty_full f \<longrightarrow> dirty_full g) \<and> (sane f \<longrightarrow> sane g) \<and>
     (\<forall>x y. on_screen f x y \<longrightarrow> in_dirty f x y \<or> R x y \<longrightarrow> in_dirty g x y)"

definition drawn :: "(int \<Rightarrow> int \<Rightarrow> bool) \<Rightarrow> (int \<Rightarrow> int \<Rightarrow> u32) \<Rightarrow> fb \<Rightarrow> fb \<Rightarrow> bool" where
  "drawn R c f g \<longleftrightarrow> painted R c f g \<and> recorded R f g"

lemma drawn_refl: "(\<And>x y. on_screen f x y \<Longrightarrow> \<not> R x y) \<Longrightarrow> drawn R c f f"
  by (auto simp: drawn_def recorded_def painted_refl)

lemma drawn_trans:
  assumes "drawn R c f g" and "drawn Q d g h"
  shows "drawn (\<lambda>x y. R x y \<or> Q x y) (\<lambda>x y. if Q x y then d x y else c x y) f h"
proof -
  have p: "painted R c f g" "painted Q d g h" using assms by (simp_all add: drawn_def)
  have s: "on_screen g = on_screen f" by (rule on_screen_skel [OF painted_skel(1) [OF p(1)]])
  have "recorded (\<lambda>x y. R x y \<or> Q x y) f h"
    using assms by (auto simp: drawn_def recorded_def s)
  then show ?thesis using painted_trans [OF p] by (simp add: drawn_def)
qed

lemma drawn_cong:
  assumes "drawn R c f g" and "\<And>x y. on_screen f x y \<Longrightarrow> R x y = Q x y \<and> (Q x y \<longrightarrow> c x y = d x y)"
  shows "drawn Q d f g"
  using painted_cong [of R c f g Q d] assms by (auto simp: drawn_def recorded_def)

lemma recorded_mark:
  assumes "painted R c f g" and "recorded (\<lambda>_ _. False) f g"
    and "\<And>px py. on_screen f px py \<Longrightarrow> R px py \<Longrightarrow> x \<le> px \<and> px < x + w \<and> y \<le> py \<and> py < y + h"
    and "0 \<le> x" "x < sint (width f)" "0 \<le> y" "y < sint (height f)" "x + w < 0x80000000" "y + h < 0x80000000" "0 \<le> w" "0 \<le> h"
  shows "drawn R c f (fb_dirty_mark x y w h g)"
proof -
  note s = skel_fields(2,3) [OF painted_skel(1) [OF assms(1)]]
  have e: "s32 (x + w) = x + w" "s32 (y + h) = y + h" using assms by (auto intro!: s32_id)
  have f: "dirty_full f \<longrightarrow> dirty_full (fb_dirty_mark x y w h g)"
    using assms(2) by (simp add: recorded_def fb_dirty_mark_def)
  have "sane g \<longrightarrow> sane (fb_dirty_mark x y w h g)"
    using assms(4-11) by (auto simp: sane_def fb_dirty_mark_def e s)
  with assms(2) have n: "sane f \<longrightarrow> sane (fb_dirty_mark x y w h g)" by (simp add: recorded_def)
  have "in_dirty (fb_dirty_mark x y w h g) px py" if "on_screen f px py" "in_dirty f px py \<or> R px py" for px py
  proof (cases "R px py")
    case True
    then show ?thesis using assms(3) [OF that(1)] by (auto simp: in_dirty_def fb_dirty_mark_def e)
  next
    case False
    then have "in_dirty g px py" using that assms(2) by (simp add: recorded_def)
    then show ?thesis by (auto simp: in_dirty_def fb_dirty_mark_def e)
  qed
  with f n have "recorded R f (fb_dirty_mark x y w h g)" by (simp add: recorded_def)
  then show ?thesis using painted_mark [OF assms(1)] by (simp add: drawn_def)
qed

text \<open>Painting pixels does not touch the rectangle.\<close>

lemma poke_dirty:
  "poke i v f = Some g \<Longrightarrow> recorded (\<lambda>_ _. False) f g"
  by (auto simp: poke_def put_at_def recorded_def sane_def in_dirty_def split: if_splits)

section \<open>The primitives\<close>

lemma okay_poke:
  assumes "geometry f" "on_screen f x y"
  shows "okay (painted (\<lambda>px py. px = x \<and> py = y) (\<lambda>_ _. v) f) (poke (place f x y) v f)"
  using poke_painted [OF assms, of v] by (auto simp: okay_iff)

definition hspan :: "int \<Rightarrow> int \<Rightarrow> int \<Rightarrow> int \<Rightarrow> int \<Rightarrow> bool" where
  "hspan x y w px py \<longleftrightarrow> x \<le> px \<and> px < x + w \<and> py = y"

definition vspan :: "int \<Rightarrow> int \<Rightarrow> int \<Rightarrow> int \<Rightarrow> int \<Rightarrow> bool" where
  "vspan x y h px py \<longleftrightarrow> px = x \<and> y \<le> py \<and> py < y + h"

definition box :: "int \<Rightarrow> int \<Rightarrow> int \<Rightarrow> int \<Rightarrow> int \<Rightarrow> int \<Rightarrow> bool" where
  "box x y w h px py \<longleftrightarrow> x \<le> px \<and> px < x + w \<and> y \<le> py \<and> py < y + h"

lemma ex_offset: "(\<exists>k < n. (px :: int) = x + int k) = (x \<le> px \<and> px < x + int n)"
proof
  assume "x \<le> px \<and> px < x + int n"
  then have "nat (px - x) < n \<and> px = x + int (nat (px - x))" by auto
  then show "\<exists>k < n. px = x + int k" by blast
qed auto

lemma run_h:
  assumes g: "geometry f" and b: "0 \<le> x" "x + int n \<le> sint (width f)" "0 \<le> y" "y < sint (height f)" "0 < n"
  shows "okay (painted (hspan x y (int n)) (\<lambda>_ _. c) f) (run_of (idx32 (y * stride f + x)) 1 n c f)"
proof -
  have o: "on_screen f (x + int k) y" if "k < n" for k using that b by (simp add: on_screen_def)
  have base: "idx32 (y * stride f + x) = place f x y" using place_bound(2) [OF g o [of 0]] b by simp
  have at: "place f x y + k * 1 = place f (x + int k) y" if "k < n" for k
  proof -
    have "y * stride f + (x + int k) = (y * stride f + x) + int k" by simp
    then show ?thesis using place_bound(3) [OF g o [of 0]] b unfolding place_def by (simp only: nat_add_distrib nat_int) simp
  qed
  have "okay (painted (\<lambda>px py. \<exists>k < length [0 ..< n]. px = x + int k \<and> py = y) (\<lambda>_ _. c) f)
          (run_of (idx32 (y * stride f + x)) 1 n c f)"
    unfolding run_of_def base
  proof (rule each_painted [OF g])
    fix k h assume k: "k < length [0 ..< n]" and s: "skel h = skel f" "geometry h"
    have "on_screen h (x + int k) y" "place h = place f" using on_screen_skel [OF s(1)] o k by auto
    then show "okay (painted (\<lambda>px py. px = x + int k \<and> py = y) (\<lambda>_ _. c) h) (poke (place f x y + [0 ..< n] ! k * 1) c h)"
      using okay_poke [OF s(2), of "x + int k" y c] k at [of k] by simp
  qed simp
  then show ?thesis
  proof (rule okay_mono)
    fix h assume p: "painted (\<lambda>px py. \<exists>k < length [0 ..< n]. px = x + int k \<and> py = y) (\<lambda>_ _. c) f h"
    have "(\<exists>k < n. px = x + int k) = (x \<le> px \<and> px < x + int n)" for px
      by (rule ex_offset)
    then show "painted (hspan x y (int n)) (\<lambda>_ _. c) f h"
      by (intro painted_cong [OF p]) (auto simp: hspan_def)
  qed
qed

lemma run_v:
  assumes g: "geometry f" and b: "0 \<le> x" "x < sint (width f)" "0 \<le> y" "y + int n \<le> sint (height f)" "0 < n"
  shows "okay (painted (vspan x y (int n)) (\<lambda>_ _. c) f) (run_of (idx32 (y * stride f + x)) (nat (stride f)) n c f)"
proof -
  have o: "on_screen f x (y + int k)" if "k < n" for k using that b by (simp add: on_screen_def)
  have base: "idx32 (y * stride f + x) = place f x y" using place_bound(2) [OF g o [of 0]] b by simp
  have at: "place f x y + k * nat (stride f) = place f x (y + int k)" if "k < n" for k
  proof -
    have "(y + int k) * stride f + x = (y * stride f + x) + int (k * nat (stride f))"
      using geometry_facts(9) [OF g] by (simp add: algebra_simps)
    moreover have "nat ((y * stride f + x) + int (k * nat (stride f))) = nat (y * stride f + x) + nat (int (k * nat (stride f)))"
      by (rule nat_add_distrib) (use place_bound(3) [OF g o [of 0]] b in simp_all)
    ultimately show ?thesis unfolding place_def by (simp only: nat_int)
  qed
  have "okay (painted (\<lambda>px py. \<exists>k < length [0 ..< n]. px = x \<and> py = y + int k) (\<lambda>_ _. c) f)
          (run_of (idx32 (y * stride f + x)) (nat (stride f)) n c f)"
    unfolding run_of_def base
  proof (rule each_painted [OF g])
    fix k h assume k: "k < length [0 ..< n]" and s: "skel h = skel f" "geometry h"
    have "on_screen h x (y + int k)" "place h = place f" using on_screen_skel [OF s(1)] o k by auto
    then show "okay (painted (\<lambda>px py. px = x \<and> py = y + int k) (\<lambda>_ _. c) h) (poke (place f x y + [0 ..< n] ! k * nat (stride f)) c h)"
      using okay_poke [OF s(2), of x "y + int k" c] k at [of k] by simp
  qed simp
  then show ?thesis
  proof (rule okay_mono)
    fix h assume p: "painted (\<lambda>px py. \<exists>k < length [0 ..< n]. px = x \<and> py = y + int k) (\<lambda>_ _. c) f h"
    show "painted (vspan x y (int n)) (\<lambda>_ _. c) f h"
      by (intro painted_cong [OF p]) (auto simp: vspan_def ex_offset)
  qed
qed

lemma run_of_dirty: "run_of b s n c f = Some g \<Longrightarrow> recorded (\<lambda>_ _. False) f g"
proof -
  assume r: "run_of b s n c f = Some g"
  have "each (\<lambda>i. poke (b + i * s) c) xs f = Some g \<Longrightarrow> dirty_x0 g = dirty_x0 f \<and> dirty_y0 g = dirty_y0 f \<and>
      dirty_x1 g = dirty_x1 f \<and> dirty_y1 g = dirty_y1 f \<and> dirty_full g = dirty_full f \<and> width g = width f \<and> height g = height f" for xs
  proof (induction xs arbitrary: f)
    case (Cons x xs)
    then obtain h where h: "poke (b + x * s) c f = Some h" "each (\<lambda>i. poke (b + i * s) c) xs h = Some g"
      by (auto simp: bind_eq_Some_conv)
    show ?case using Cons.IH [OF h(2)] h(1) by (auto simp: poke_def put_at_def split: if_splits)
  qed simp
  with r show ?thesis by (auto simp: run_of_def recorded_def sane_def in_dirty_def)
qed

definition moderate :: "int \<Rightarrow> bool" where "moderate z \<longleftrightarrow> - 0x10000000 \<le> z \<and> z \<le> 0x10000000"

lemma moderate_sums:
  assumes "moderate a" "moderate b"
  shows "s32 (a + b) = a + b" "s32 (a - b) = a - b" "s32 (a + b - 1) = a + b - 1" "s32 (a + 1) = a + 1"
  using assms unfolding moderate_def by (auto intro!: s32_id)

lemma hline_drawn:
  assumes g: "geometry f" and m: "moderate x" "moderate w"
  shows "okay (drawn (hspan x y w) (\<lambda>_ _. c) f) (fb_draw_hline x y w c f)"
proof -
  note gf = geometry_facts [OF g]
  define x' where "x' = (if x < 0 then 0 else x)"
  define w' where "w' = (if x < 0 then w + x else w)"
  define w'' where "w'' = (if x' + w' > sint (width f) then sint (width f) - x' else w')"
  have e: "s32 (w + x) = w + x" "s32 (x' + w') = x' + w'" "s32 (sint (width f) - x') = sint (width f) - x'"
    using m gf(2,3) by (auto simp: moderate_def x'_def w'_def intro!: s32_id)
  have hl: "fb_draw_hline x y w c f = (if y < 0 \<or> sint (height f) \<le> y \<or> w'' \<le> 0 then Some f
      else map_option (fb_dirty_mark x' y w'' 1) (run_of (idx32 (y * stride f + x')) 1 (nat w'') c f))"
    unfolding fb_draw_hline_def Let_def e(1) unfolding x'_def [symmetric] w'_def [symmetric]
    unfolding e(2,3) unfolding w''_def [symmetric] using gf(1) by simp
  have cl: "hspan x y w px py = hspan x' y w'' px py" if "on_screen f px py" for px py
    using that by (auto simp: hspan_def on_screen_def x'_def w'_def w''_def)
  show ?thesis
  proof (cases "y < 0 \<or> sint (height f) \<le> y \<or> w'' \<le> 0")
    case True
    then have "drawn (hspan x y w) (\<lambda>_ _. c) f f"
      by (intro drawn_refl) (use cl in \<open>auto simp: on_screen_def hspan_def\<close>)
    moreover have "fb_draw_hline x y w c f = Some f"
      using True by (simp add: hl)
    ultimately show ?thesis by simp
  next
    case False
    then have w: "0 < w''" "0 \<le> y" "y < sint (height f)" by auto
    have b: "0 \<le> x'" "x' + int (nat w'') \<le> sint (width f)" "x' < sint (width f)" "int (nat w'') = w''"
      using w by (auto simp: x'_def w''_def split: if_splits)
    obtain h where h: "run_of (idx32 (y * stride f + x')) 1 (nat w'') c f = Some h" "painted (hspan x' y w'') (\<lambda>_ _. c) f h"
      using run_h [OF g b(1,2) w(2,3), of c] w b(4) by (auto simp: okay_iff)
    have "drawn (hspan x' y w'') (\<lambda>_ _. c) f (fb_dirty_mark x' y w'' 1 h)"
      by (rule recorded_mark [OF h(2) run_of_dirty [OF h(1)]])
        (use w b gf in \<open>auto simp: hspan_def on_screen_def\<close>)
    then have "drawn (hspan x y w) (\<lambda>_ _. c) f (fb_dirty_mark x' y w'' 1 h)"
      by (rule drawn_cong) (simp add: cl)
    then show ?thesis using False by (simp add: hl h del: One_nat_def)
  qed
qed

lemma vline_painted:
  assumes g: "geometry f" and m: "moderate y" "moderate n"
  shows "okay (painted (vspan x y n) (\<lambda>_ _. c) f) (fb_draw_vline x y n c f)"
proof -
  note gf = geometry_facts [OF g]
  define y' where "y' = (if y < 0 then 0 else y)"
  define n' where "n' = (if y < 0 then n + y else n)"
  define n'' where "n'' = (if y' + n' > sint (height f) then sint (height f) - y' else n')"
  have e: "s32 (n + y) = n + y" "s32 (y' + n') = y' + n'" "s32 (sint (height f) - y') = sint (height f) - y'"
    using m gf(4,5) by (auto simp: moderate_def y'_def n'_def intro!: s32_id)
  have vl: "fb_draw_vline x y n c f = (if x < 0 \<or> sint (width f) \<le> x \<or> n'' \<le> 0 then Some f
      else run_of (idx32 (y' * stride f + x)) (nat (stride f)) (nat n'') c f)"
    unfolding fb_draw_vline_def Let_def e(1) unfolding y'_def [symmetric] n'_def [symmetric]
    unfolding e(2,3) unfolding n''_def [symmetric] using gf(1) by simp
  have cl: "vspan x y n px py = vspan x y' n'' px py" if "on_screen f px py" for px py
    using that by (auto simp: vspan_def on_screen_def y'_def n'_def n''_def)
  show ?thesis
  proof (cases "x < 0 \<or> sint (width f) \<le> x \<or> n'' \<le> 0")
    case True
    then have "painted (vspan x y n) (\<lambda>_ _. c) f f"
      by (intro painted_refl) (use cl in \<open>auto simp: on_screen_def vspan_def\<close>)
    moreover have "fb_draw_vline x y n c f = Some f"
      using True by (simp add: vl)
    ultimately show ?thesis by simp
  next
    case False
    then have w: "0 < n''" "0 \<le> x" "x < sint (width f)" by auto
    have b: "0 \<le> y'" "y' + int (nat n'') \<le> sint (height f)" "int (nat n'') = n''"
      using w by (auto simp: y'_def n''_def split: if_splits)
    have "okay (painted (vspan x y' n'') (\<lambda>_ _. c) f) (fb_draw_vline x y n c f)"
      using run_v [OF g w(2,3) b(1,2), of c] w b(3) False by (simp add: vl)
    then show ?thesis by (rule okay_mono) (rule painted_cong, assumption, simp add: cl)
  qed
qed

lemma drawn_painted: "drawn R c f g \<Longrightarrow> painted R c f g"
  by (simp add: drawn_def)

lemmas hline_painted = okay_mono [OF hline_drawn drawn_painted]

lemma drawn_geometry: "drawn R c f g \<Longrightarrow> geometry g = geometry f"
  by (rule painted_geometry [OF drawn_painted])

lemma drawn_skel: "drawn R c f g \<Longrightarrow> skel g = skel f"
  by (rule painted_skel(1) [OF drawn_painted])

text \<open>A loop of drawing operations.\<close>

lemma each_drawn:
  assumes "geometry f"
    and "\<And>k g. k < length xs \<Longrightarrow> skel g = skel f \<Longrightarrow> geometry g \<Longrightarrow>
           okay (drawn (\<lambda>x y. R k x y) (\<lambda>x y. c k x y) g) (body (xs ! k) g)"
    and "\<And>k l x y. k < length xs \<Longrightarrow> l < length xs \<Longrightarrow> R k x y \<Longrightarrow> R l x y \<Longrightarrow> c k x y = d x y"
  shows "okay (drawn (\<lambda>x y. \<exists>k < length xs. R k x y) d f) (each body xs f)"
proof (rule each_steps [where P = "\<lambda>n. drawn (\<lambda>x y. \<exists>k < n. R k x y) d f"])
  show "drawn (\<lambda>x y. \<exists>k < 0. R k x y) d f f" by (simp add: drawn_refl)
next
  fix k g
  assume k: "k < length xs" and p: "drawn (\<lambda>x y. \<exists>j < k. R j x y) d f g"
  have "okay (drawn (R k) (c k) g) (body (xs ! k) g)"
    using assms(2) [OF k drawn_skel [OF p]] drawn_geometry [OF p] assms(1) by simp
  then show "okay (drawn (\<lambda>x y. \<exists>j < Suc k. R j x y) d f) (body (xs ! k) g)"
  proof (rule okay_mono)
    fix h assume h: "drawn (R k) (c k) g h"
    show "drawn (\<lambda>x y. \<exists>j < Suc k. R j x y) d f h"
      by (rule drawn_cong [OF drawn_trans [OF p h]]) (use assms(3) k in \<open>auto simp: less_Suc_eq\<close>)
  qed
qed

lemma fill_loop:
  assumes g: "geometry f" and m: "moderate x" "moderate y" "moderate w" "moderate h"
  shows "okay (drawn (box x y w h) (\<lambda>_ _. c) f) (each (\<lambda>i. fb_draw_hline x (s32 (y + i)) w c) [0 .. h - 1] f)"
proof -
  let ?R = "\<lambda>k. hspan x (y + int k) w"
  have "okay (drawn (\<lambda>px py. \<exists>k < length [0 .. h - 1]. ?R k px py) (\<lambda>_ _. c) f)
          (each (\<lambda>i. fb_draw_hline x (s32 (y + i)) w c) [0 .. h - 1] f)"
  proof (rule each_drawn [OF g])
    fix k h' assume k: "k < length [0 .. h - 1]" and s: "skel h' = skel f" "geometry h'"
    then have "s32 (y + [0 .. h - 1] ! k) = y + int k"
      using m by (subst s32_id) (auto simp: moderate_def)
    then show "okay (drawn (\<lambda>px py. ?R k px py) (\<lambda>_ _. c) h') (fb_draw_hline x (s32 (y + [0 .. h - 1] ! k)) w c h')"
      using hline_drawn [OF s(2) m(1,3)] by simp
  qed simp
  then show ?thesis
  proof (rule okay_mono)
    fix t assume t: "drawn (\<lambda>px py. \<exists>k < length [0 .. h - 1]. ?R k px py) (\<lambda>_ _. c) f t"
    have "(\<exists>k < nat h. py = y + int k) = (y \<le> py \<and> py < y + h)" for py
      by (cases "0 \<le> h") (auto simp: ex_offset)
    then show "drawn (box x y w h) (\<lambda>_ _. c) f t"
      by (intro drawn_cong [OF t]) (auto simp: hspan_def box_def)
  qed
qed

lemma fill_rect_painted:
  assumes "geometry f" and "moderate x" "moderate y" "moderate w" "moderate h"
  shows "okay (painted (box x y w h) (\<lambda>_ _. c) f) (fb_fill_rect x y w h c f)"
  using fill_loop [OF assms, of c] geometry_facts(1) [OF assms(1)]
  by (auto simp: fb_fill_rect_def okay_iff dest!: drawn_painted intro: painted_mark)

lemma recorded_none: "recorded R f g \<Longrightarrow> recorded (\<lambda>_ _. False) f g"
  by (simp add: recorded_def)

lemma fill_rect_drawn:
  assumes g: "geometry f" and m: "moderate x" "moderate y" "moderate w" "moderate h" and o: "on_screen f x y" "0 \<le> w" "0 \<le> h"
  shows "okay (drawn (box x y w h) (\<lambda>_ _. c) f) (fb_fill_rect x y w h c f)"
proof -
  obtain t where t: "each (\<lambda>i. fb_draw_hline x (s32 (y + i)) w c) [0 .. h - 1] f = Some t" "drawn (box x y w h) (\<lambda>_ _. c) f t"
    using fill_loop [OF g m, of c] by (auto simp: okay_iff)
  have d: "painted (box x y w h) (\<lambda>_ _. c) f t" "recorded (\<lambda>_ _. False) f t"
    using t(2) recorded_none by (auto simp: drawn_def)
  have "drawn (box x y w h) (\<lambda>_ _. c) f (fb_dirty_mark x y w h t)"
    by (rule recorded_mark [OF d]) (use o m in \<open>auto simp: box_def on_screen_def moderate_def\<close>)
  then show ?thesis using geometry_facts(1) [OF g] t(1) by (simp add: fb_fill_rect_def)
qed

lemma each_poke_dirty:
  assumes "\<And>x f g. body x f = Some g \<Longrightarrow> recorded (\<lambda>_ _. False) f g \<and> skel g = skel f"
  shows "each body xs f = Some g \<Longrightarrow> recorded (\<lambda>_ _. False) f g \<and> skel g = skel f"
proof (induction xs arbitrary: f)
  case Nil
  then show ?case by (simp add: recorded_def)
next
  case (Cons x xs)
  then obtain h where h: "body x f = Some h" "each body xs h = Some g" by (auto simp: bind_eq_Some_conv)
  have s: "on_screen h = on_screen f" using on_screen_skel(1) assms [OF h(1)] by blast
  show ?case using Cons.IH [OF h(2)] assms [OF h(1)] by (auto simp: recorded_def s)
qed

lemma poke_skel: "poke i v f = Some g \<Longrightarrow> skel g = skel f"
  by (auto simp: poke_def)

definition glyph_at :: "u8 \<Rightarrow> int \<Rightarrow> int \<Rightarrow> u32 \<Rightarrow> u32 \<Rightarrow> int \<Rightarrow> int \<Rightarrow> u32" where
  "glyph_at c x y fg bg px py =
     glyph_color (fb_font_data ! (if 128 \<le> c then 0 else unat c) ! nat (py - y)) (nat (px - x)) fg bg"

lemma glyph_row_painted:
  assumes g: "geometry f" and m: "moderate x" "moderate y" "dy < 16"
  shows "okay (painted (hspan x (y + int dy) 8) (\<lambda>px py. glyph_color (glyph ! dy) (nat (px - x)) fg bg) f)
     (draw_glyph_row x y glyph fg bg dy f)"
proof -
  note gf = geometry_facts [OF g]
  have e: "s32 (y + int dy) = y + int dy" "s32 (x + 7) = x + 7" "\<And>k. k < 8 \<Longrightarrow> s32 (x + int k) = x + int k"
    using m by (auto simp: moderate_def intro!: s32_id)
  have fin: "painted (hspan x (y + int dy) 8) (\<lambda>px py. glyph_color (glyph ! dy) (nat (px - x)) fg bg) f h"
    if "painted (\<lambda>px py. \<exists>k < length [0 ..< 8]. px = x + int k \<and> py = y + int dy) (\<lambda>px py. glyph_color (glyph ! dy) (nat (px - x)) fg bg) f h" for h
    by (rule painted_cong [OF that]) (use ex_offset [of 8 _ x] in \<open>auto simp: hspan_def\<close>)
  show ?thesis
  proof (cases "y + int dy < 0 \<or> sint (height f) \<le> y + int dy")
    case True
    then show ?thesis by (auto simp: draw_glyph_row_def Let_def e hspan_def on_screen_def intro!: painted_refl)
  next
    case False
    show ?thesis
    proof (cases "0 \<le> x \<and> x + 7 < sint (width f)")
      case True
      have o: "on_screen f (x + int k) (y + int dy)" if "k < 8" for k using that True False by (auto simp: on_screen_def)
      have base: "idx32 ((y + int dy) * stride f + x) = place f x (y + int dy)" using place_bound(2) [OF g o [of 0]] by simp
      have at: "place f x (y + int dy) + k = place f (x + int k) (y + int dy)" if "k < 8" for k
      proof -
        have "(y + int dy) * stride f + (x + int k) = ((y + int dy) * stride f + x) + int k" by simp
        then show ?thesis using place_bound(3) [OF g o [of 0]] unfolding place_def by (simp only: nat_add_distrib nat_int) simp
      qed
      have "okay (painted (\<lambda>px py. \<exists>k < length [0 ..< 8]. px = x + int k \<and> py = y + int dy) (\<lambda>px py. glyph_color (glyph ! dy) (nat (px - x)) fg bg) f)
         (each (\<lambda>k. poke (idx32 ((y + int dy) * stride f + x) + k) (glyph_color (glyph ! dy) k fg bg)) [0 ..< 8] f)"
        unfolding base
      proof (rule each_painted [OF g, where c = "\<lambda>k _ _. glyph_color (glyph ! dy) k fg bg"])
        fix k h assume k: "k < length [0 ..< 8]" and s: "skel h = skel f" "geometry h"
        then have o8: "on_screen h (x + int k) (y + int dy)" "place h = place f" using on_screen_skel [OF s(1)] o by auto
        have "[0 ..< 8] ! k = k" "k < 8" using k by simp_all
        then show "okay (painted (\<lambda>px py. px = x + int k \<and> py = y + int dy) (\<lambda>_ _. glyph_color (glyph ! dy) k fg bg) h)
          (poke (place f x (y + int dy) + [0 ..< 8] ! k) (glyph_color (glyph ! dy) ([0 ..< 8] ! k) fg bg) h)"
          using okay_poke [OF s(2) o8(1), of "glyph_color (glyph ! dy) k fg bg"] at [of k] o8(2) by simp
      qed auto
      then show ?thesis using True False fin by (auto simp: draw_glyph_row_def Let_def e simp del: upt_rec_numeral intro: okay_mono)
    next
      case out: False
      have "okay (painted (\<lambda>px py. \<exists>k < length [0 ..< 8]. px = x + int k \<and> py = y + int dy) (\<lambda>px py. glyph_color (glyph ! dy) (nat (px - x)) fg bg) f)
         (each (\<lambda>k f. let px = s32 (x + int k) in
                     if 0 \<le> px \<and> px < sint (width f)
                     then poke (idx32 ((y + int dy) * stride f + px)) (glyph_color (glyph ! dy) k fg bg) f else Some f) [0 ..< 8] f)"
      proof (rule each_painted [OF g, where c = "\<lambda>k _ _. glyph_color (glyph ! dy) k fg bg"])
        fix k h assume k: "k < length [0 ..< 8]" and s: "skel h = skel f" "geometry h"
        have st: "stride h = stride f" "width h = width f" "height h = height f" using skel_fields [OF s(1)] by auto
        have n: "[0 ..< 8] ! k = k" "k < 8" using k by simp_all
        show "okay (painted (\<lambda>px py. px = x + int k \<and> py = y + int dy) (\<lambda>_ _. glyph_color (glyph ! dy) k fg bg) h)
          (let px = s32 (x + int ([0 ..< 8] ! k)) in
             if 0 \<le> px \<and> px < sint (width h)
             then poke (idx32 ((y + int dy) * stride h + px)) (glyph_color (glyph ! dy) ([0 ..< 8] ! k) fg bg) h else Some h)"
        proof (cases "0 \<le> x + int k \<and> x + int k < sint (width f)")
          case True
          then have o8: "on_screen h (x + int k) (y + int dy)" using False by (auto simp: on_screen_def st)
          show ?thesis
            using okay_poke [OF s(2) o8, of "glyph_color (glyph ! dy) k fg bg"] True n place_bound(2) [OF s(2) o8]
            by (simp add: e st)
        next
          case nin: False
          then show ?thesis using n by (auto simp: e st on_screen_def intro!: painted_refl)
        qed
      qed auto
      then show ?thesis using out False fin by (auto simp: draw_glyph_row_def Let_def e simp del: upt_rec_numeral intro: okay_mono)
    qed
  qed
qed

end
