(* ===== verification/Fb_Line.thy ===== *)
theory Fb_Line
  imports Fb_Draw
begin

text \<open>
  Characters and lines in the back buffer: the glyph that \<open>fb_draw_char\<close> paints, and the loop of
  \<open>fb_draw_line\<close>, which ends and paints the line rounded to pixels.
\<close>

section \<open>Characters and texts\<close>

lemma recorded_refl: "recorded (\<lambda>_ _. False) f f"
  by (simp add: recorded_def)

lemma glyph_row_dirty: "draw_glyph_row x y glyph fg bg dy f = Some g \<Longrightarrow> recorded (\<lambda>_ _. False) f g \<and> skel g = skel f"
proof -
  assume d: "draw_glyph_row x y glyph fg bg dy f = Some g"
  let ?py = "s32 (y + int dy)"
  let ?inner = "\<lambda>k. poke (idx32 (?py * stride f + x) + k) (glyph_color (glyph ! dy) k fg bg)"
  let ?clip = "\<lambda>k f. let px = s32 (x + int k) in
     if 0 \<le> px \<and> px < sint (width f) then poke (idx32 (?py * stride f + px)) (glyph_color (glyph ! dy) k fg bg) f else Some f"
  have "g = f \<or> each ?inner [0 ..< 8] f = Some g \<or> each ?clip [0 ..< 8] f = Some g"
  proof (cases "?py < 0 \<or> sint (height f) \<le> ?py")
    case True
    then show ?thesis using d by (simp only: draw_glyph_row_def Let_def if_True option.inject simp_thms)
  next
    case False
    then show ?thesis
      using d by (cases "0 \<le> x \<and> s32 (x + 7) < sint (width f)") (simp_all only: draw_glyph_row_def Let_def if_False if_True simp_thms)
  qed
  then consider "g = f" | "each ?inner [0 ..< 8] f = Some g" | "each ?clip [0 ..< 8] f = Some g"
    by blast
  then show ?thesis
  proof cases
    case 2
    show ?thesis by (rule each_poke_dirty [OF _ 2]) (auto dest: poke_dirty poke_skel)
  next
    case 3
    show ?thesis by (rule each_poke_dirty [OF _ 3]) (auto simp: Let_def recorded_refl intro: poke_skel poke_dirty split: if_splits)
  qed (simp add: recorded_refl)
qed

lemma glyph_loop:
  assumes g: "geometry f" and m: "moderate x" "moderate y"
  shows "okay (painted (box x y 8 16) (\<lambda>px py. glyph_color (glyph ! nat (py - y)) (nat (px - x)) fg bg) f)
     (each (draw_glyph_row x y glyph fg bg) [0 ..< 16] f)"
proof -
  let ?c = "\<lambda>px py. glyph_color (glyph ! nat (py - y)) (nat (px - x)) fg bg"
  have "okay (painted (\<lambda>px py. \<exists>k < length [0 ..< 16]. hspan x (y + int k) 8 px py) ?c f)
     (each (draw_glyph_row x y glyph fg bg) [0 ..< 16] f)"
  proof (rule each_painted [OF g, where c = "\<lambda>k px py. glyph_color (glyph ! k) (nat (px - x)) fg bg"])
    fix k h assume k: "k < length [0 ..< 16]" and s: "skel h = skel f" "geometry h"
    have "[0 ..< 16] ! k = k" "k < 16" using k by simp_all
    then show "okay (painted (hspan x (y + int k) 8) (\<lambda>px py. glyph_color (glyph ! k) (nat (px - x)) fg bg) h)
        (draw_glyph_row x y glyph fg bg ([0 ..< 16] ! k) h)"
      using glyph_row_painted [OF s(2) m] by simp
  qed (auto simp: hspan_def)
  then show ?thesis
  proof (rule okay_mono)
    fix h assume h: "painted (\<lambda>px py. \<exists>k < length [0 ..< 16]. hspan x (y + int k) 8 px py) ?c f h"
    show "painted (box x y 8 16) ?c f h"
      by (rule painted_cong [OF h]) (use ex_offset [of 16 _ y] in \<open>auto simp: hspan_def box_def\<close>)
  qed
qed

lemma char_painted:
  assumes "geometry f" and "moderate x" "moderate y"
  shows "okay (painted (box x y 8 16) (glyph_at c x y fg bg) f) (fb_draw_char x y c fg bg f)"
  using glyph_loop [OF assms, of "fb_font_data ! (if 128 \<le> c then 0 else unat c)" fg bg] geometry_facts(1) [OF assms(1)]
  by (auto simp: fb_draw_char_def okay_iff Let_def glyph_at_def [abs_def] simp del: upt_rec_numeral intro: painted_mark)

lemma char_drawn:
  assumes g: "geometry f" and m: "moderate x" "moderate y" and o: "on_screen f x y"
  shows "okay (drawn (box x y 8 16) (glyph_at c x y fg bg) f) (fb_draw_char x y c fg bg f)"
proof -
  let ?g = "fb_font_data ! (if 128 \<le> c then 0 else unat c)"
  obtain t where t: "each (draw_glyph_row x y ?g fg bg) [0 ..< 16] f = Some t" "painted (box x y 8 16) (glyph_at c x y fg bg) f t"
    using glyph_loop [OF g m, of ?g fg bg] by (auto simp: okay_iff glyph_at_def [abs_def] simp del: upt_rec_numeral)
  have "recorded (\<lambda>_ _. False) f t"
    using each_poke_dirty [of "draw_glyph_row x y ?g fg bg", OF _ t(1)] glyph_row_dirty by blast
  then have "drawn (box x y 8 16) (glyph_at c x y fg bg) f (fb_dirty_mark x y 8 16 t)"
    by (rule recorded_mark [OF t(2)]) (use o m in \<open>auto simp: box_def on_screen_def moderate_def\<close>)
  then show ?thesis using geometry_facts(1) [OF g] t(1) by (simp add: fb_draw_char_def Let_def del: upt_rec_numeral)
qed

section \<open>Lines\<close>

text \<open>\<open>j\<close> is \<open>i * B / A\<close> rounded, for a line of \<open>A\<close> steps along its longer side and \<open>B\<close> along the other.\<close>

definition rounded :: "int \<Rightarrow> int \<Rightarrow> int \<Rightarrow> int \<Rightarrow> bool" where
  "rounded A B i j \<longleftrightarrow> 0 \<le> i \<and> i \<le> A \<and> 2 * i * B \<le> (2 * j + 1) * A \<and> 2 * j * A < 2 * i * B + max 1 A \<and> 0 \<le> j \<and> j \<le> B"

lemma rounded_unique:
  assumes "rounded A B i j" "rounded A B i k" "B \<le> A" shows "j = k"
proof (cases "A = 0")
  case True
  then show ?thesis using assms by (auto simp: rounded_def)
next
  case False
  then have A: "0 < A" using assms by (auto simp: rounded_def)
  have "2 * j * A < (2 * k + 2) * A" "2 * k * A < (2 * j + 2) * A"
    using assms A by (auto simp: rounded_def algebra_simps)
  then have "j < k + 1" "k < j + 1" using A by auto
  then show ?thesis by simp
qed

lemma rounded_last: "rounded A B A j \<Longrightarrow> B \<le> A \<Longrightarrow> j = B"
  by (rule rounded_unique [of A B A]) (auto simp: rounded_def algebra_simps)

lemma rounded_next:
  assumes r: "rounded A B i j" and BA: "B \<le> A" and i: "i < A"
  shows "(2 * i + 1) * B < 2 * (j + 1) * A"
    and "rounded A B (i + 1) (if (2 * j + 1) * A < 2 * (i + 1) * B then j + 1 else j)"
    and "\<bar>2 * ((j + 1) * A - (i + 1) * B)\<bar> \<le> 3 * A"
proof -
  have A: "0 < A" using r i by (auto simp: rounded_def)
  have b: "2 * (i * B) \<le> 2 * (j * A) + A" "2 * (j * A) < 2 * (i * B) + A" "0 \<le> B"
    using r A by (auto simp: rounded_def algebra_simps)
  have "2 * (i * B) + B \<noteq> 2 * (j * A) + 2 * A"
  proof
    assume e: "2 * (i * B) + B = 2 * (j * A) + 2 * A"
    then have "B = A" using b BA by linarith
    with e have "A * (2 * i - 2 * j - 1) = 0" by (simp add: algebra_simps)
    then have "2 * i - 2 * j - 1 = 0" using A by simp
    then show False by presburger
  qed
  then show "(2 * i + 1) * B < 2 * (j + 1) * A" using b BA by (simp add: algebra_simps)
  show "\<bar>2 * ((j + 1) * A - (i + 1) * B)\<bar> \<le> 3 * A" using b BA by (simp add: algebra_simps)
  have "j + 1 \<le> B" if c: "(2 * j + 1) * A < 2 * (i + 1) * B"
  proof -
    have "2 * (i + 1) * B \<le> 2 * A * B" using i b(3) by (intro mult_right_mono) auto
    with c have "(2 * j + 1) * A < (2 * B) * A" by (simp add: algebra_simps)
    then have "2 * j + 1 < 2 * B" using A by (simp only: mult_less_cancel_right)
    then show ?thesis by simp
  qed
  then show "rounded A B (i + 1) (if (2 * j + 1) * A < 2 * (i + 1) * B then j + 1 else j)"
    using r i b BA by (auto simp: rounded_def algebra_simps)
qed

text \<open>The points of the line, counted from its start along both sides, and those from one point on.\<close>

definition on_path :: "int \<Rightarrow> int \<Rightarrow> int \<Rightarrow> int \<Rightarrow> bool" where
  "on_path dx dy i j \<longleftrightarrow> (if dy \<le> dx then rounded dx dy i j else rounded dy dx j i)"

definition rest_of :: "int \<Rightarrow> int \<Rightarrow> int \<Rightarrow> int \<Rightarrow> int \<Rightarrow> int \<Rightarrow> bool" where
  "rest_of dx dy a b i j \<longleftrightarrow> on_path dx dy i j \<and> (if dy \<le> dx then a \<le> i else b \<le> j)"

lemma path_step:
  assumes p: "on_path dx dy i j" and n: "\<not> (i = dx \<and> j = dy)"
    and e: "err = (j + 1) * dx - (i + 1) * dy"
  defines "i' \<equiv> (if 2 * err > - dy then i + 1 else i)" and "j' \<equiv> (if 2 * err < dx then j + 1 else j)"
  shows "on_path dx dy i' j'"
    and "rest_of dx dy i j a b \<longleftrightarrow> a = i \<and> b = j \<or> rest_of dx dy i' j' a b"
    and "if dy \<le> dx then i' = i + 1 \<and> i < dx else j' = j + 1 \<and> j < dy"
    and "\<bar>2 * err\<bar> \<le> 3 * max dx dy"
proof -
  have c: "2 * err > - dy \<longleftrightarrow> (2 * i + 1) * dy < 2 * (j + 1) * dx" "2 * err < dx \<longleftrightarrow> (2 * j + 1) * dx < 2 * (i + 1) * dy"
    unfolding e by (auto simp: algebra_simps)
  have "on_path dx dy i' j' \<and> (if dy \<le> dx then i' = i + 1 \<and> i < dx else j' = j + 1 \<and> j < dy) \<and> \<bar>2 * err\<bar> \<le> 3 * max dx dy"
  proof (cases "dy \<le> dx")
    case True
    then have r: "rounded dx dy i j" using p by (simp add: on_path_def)
    have "i \<noteq> dx" using rounded_last [of dx dy j] r True n by auto
    then have "i < dx" using r by (simp add: rounded_def)
    from rounded_next [OF r True this] this show ?thesis
      unfolding i'_def j'_def c using True by (simp add: on_path_def e max_def)
  next
    case False
    then have r: "rounded dy dx j i" using p by (simp add: on_path_def)
    have "j \<noteq> dy" using rounded_last [of dy dx i] r False n by auto
    then have "j < dy" using r by (simp add: rounded_def)
    from rounded_next [OF r _ this] this show ?thesis
      unfolding i'_def j'_def c using False by (simp add: on_path_def e max_def abs_minus_commute)
  qed
  then show q: "on_path dx dy i' j'" and s: "if dy \<le> dx then i' = i + 1 \<and> i < dx else j' = j + 1 \<and> j < dy"
    and "\<bar>2 * err\<bar> \<le> 3 * max dx dy" by blast+
  show "rest_of dx dy i j a b \<longleftrightarrow> a = i \<and> b = j \<or> rest_of dx dy i' j' a b"
  proof (cases "dy \<le> dx")
    case True
    then have "on_path dx dy i b \<Longrightarrow> b = j" using rounded_unique [of dx dy i b j] p by (simp add: on_path_def)
    then show ?thesis using True s p by (cases "a = i") (auto simp: rest_of_def)
  next
    case False
    then have "on_path dx dy a j \<Longrightarrow> a = i" using rounded_unique [of dy dx j a i] p by (simp add: on_path_def)
    then show ?thesis using False s p by (cases "b = j") (auto simp: rest_of_def)
  qed
qed

lemma path_end:
  assumes "on_path dx dy dx dy"
  shows "rest_of dx dy dx dy a b \<longleftrightarrow> a = dx \<and> b = dy"
proof
  assume r: "rest_of dx dy dx dy a b"
  show "a = dx \<and> b = dy"
  proof (cases "dy \<le> dx")
    case True
    then have "rounded dx dy a b" "dx \<le> a" using r by (simp_all add: rest_of_def on_path_def)
    then have "a = dx" by (simp add: rounded_def)
    then show ?thesis using rounded_last [of dx dy b] \<open>rounded dx dy a b\<close> True by simp
  next
    case False
    then have "rounded dy dx b a" "dy \<le> b" using r by (simp_all add: rest_of_def on_path_def)
    then have "b = dy" by (simp add: rounded_def)
    then show ?thesis using rounded_last [of dy dx a] \<open>rounded dy dx b a\<close> False by simp
  qed
qed (use assms in \<open>auto simp: rest_of_def\<close>)

lemma line_loop_paints:
  assumes g: "geometry f" and p: "on_path dx dy i j" and e: "err = (j + 1) * dx - (i + 1) * dy"
    and m: "moderate a" "moderate b" "moderate (a + sx * dx)" "moderate (b + sy * dy)"
    and s: "sx = 1 \<or> sx = -1" "sy = 1 \<or> sy = -1" and d: "0 \<le> dx" "0 \<le> dy"
  shows "okay (painted (\<lambda>x y. \<exists>i' j'. rest_of dx dy i j i' j' \<and> x = a + sx * i' \<and> y = b + sy * j') (\<lambda>_ _. c) f)
     (line_loop (a + sx * dx) (b + sy * dy) dx dy sx sy c (a + sx * i) (b + sy * j) err f)"
  using g p e
proof (induction "nat (if dy \<le> dx then dx - i else dy - j)" arbitrary: i j err f rule: less_induct)
  case (less i j err f)
  note g = \<open>geometry f\<close> and p = \<open>on_path dx dy i j\<close> and e = \<open>err = (j + 1) * dx - (i + 1) * dy\<close>
  let ?x = "a + sx * i" and ?y = "b + sy * j"
  let ?pix = "if 0 \<le> ?x \<and> ?x < sint (width f) \<and> 0 \<le> ?y \<and> ?y < sint (height f)
     then poke (idx32 (?y * stride f + ?x)) c f else Some f"
  have pix: "okay (painted (\<lambda>x y. x = ?x \<and> y = ?y) (\<lambda>_ _. c) f) ?pix"
  proof (cases "on_screen f ?x ?y")
    case True
    then show ?thesis using okay_poke [OF g True, of c] place_bound(2) [OF g True] by (simp add: on_screen_def)
  next
    case False
    then show ?thesis by (auto simp: on_screen_def intro!: painted_refl)
  qed
  have ij: "0 \<le> i" "i \<le> dx" "0 \<le> j" "j \<le> dy" using p by (auto simp: on_path_def rounded_def split: if_splits)
  have at_end: "?x = a + sx * dx \<and> ?y = b + sy * dy \<longleftrightarrow> i = dx \<and> j = dy" using s by auto
  have dd: "dx \<le> 0x20000000" "dy \<le> 0x20000000" using m s by (auto simp: moderate_def)
  have xy: "moderate ?x" "moderate ?y" using m s ij by (auto simp: moderate_def)
  show ?case
  proof (cases "i = dx \<and> j = dy")
    case True
    have "(\<lambda>x y. \<exists>i' j'. rest_of dx dy i j i' j' \<and> x = a + sx * i' \<and> y = b + sy * j') = (\<lambda>x y. x = ?x \<and> y = ?y)"
      using path_end p True by (intro ext) auto
    then show ?thesis
      using pix at_end True by (subst line_loop.simps) (auto simp: okay_bind_iff elim: okay_mono)
  next
    case False
    define i' where "i' = (if 2 * err > - dy then i + 1 else i)"
    define j' where "j' = (if 2 * err < dx then j + 1 else j)"
    define err' where "err' = (j' + 1) * dx - (i' + 1) * dy"
    note st = path_step [OF p False e, folded i'_def j'_def]
    have b: "\<bar>2 * err\<bar> \<le> 0x60000000" using st(4) dd by (auto simp: max_def split: if_splits)
    define q where "q = (if 2 * err > - dy then err - dy else err)"
    have w: "s32 (2 * err) = 2 * err" "s32 (- dy) = - dy" "s32 (?x + sx) = ?x + sx" "s32 (?y + sy) = ?y + sy"
      "s32 (err - dy) = err - dy" "s32 (q + dx) = q + dx"
      using b xy dd d s by (auto simp: moderate_def q_def intro!: s32_id)
    have c: "(if 2 * err > - dy then s32 (err - dy) else err) = q" "(if 2 * err < dx then s32 (q + dx) else q) = err'"
      "(if 2 * err > - dy then s32 (?x + sx) else ?x) = a + sx * i'" "(if 2 * err < dx then s32 (?y + sy) else ?y) = b + sy * j'"
      by (simp_all add: w) (auto simp: q_def err'_def i'_def j'_def e algebra_simps)
    have body: "line_loop (a + sx * dx) (b + sy * dy) dx dy sx sy c ?x ?y err f =
        ?pix \<bind> line_loop (a + sx * dx) (b + sy * dy) dx dy sx sy c (a + sx * i') (b + sy * j') err'"
      by (subst line_loop.simps) (simp only: at_end False if_False Let_def w(1,2) c)
    show ?thesis
      unfolding body
    proof (rule okay_bind [OF pix])
      fix h assume h: "painted (\<lambda>x y. x = ?x \<and> y = ?y) (\<lambda>_ _. c) f h"
      have "nat (if dy \<le> dx then dx - i' else dy - j') < nat (if dy \<le> dx then dx - i else dy - j)"
        using st(3) by (auto split: if_splits)
      from less.hyps [OF this _ st(1) err'_def] painted_geometry [OF h] g
      have "okay (painted (\<lambda>x y. \<exists>k l. rest_of dx dy i' j' k l \<and> x = a + sx * k \<and> y = b + sy * l) (\<lambda>_ _. c) h)
          (line_loop (a + sx * dx) (b + sy * dy) dx dy sx sy c (a + sx * i') (b + sy * j') err' h)" by simp
      then show "okay (painted (\<lambda>x y. \<exists>k l. rest_of dx dy i j k l \<and> x = a + sx * k \<and> y = b + sy * l) (\<lambda>_ _. c) f)
          (line_loop (a + sx * dx) (b + sy * dy) dx dy sx sy c (a + sx * i') (b + sy * j') err' h)"
        by (rule okay_mono) (rule painted_cong [OF painted_trans [OF h]], assumption, use st(2) in auto)
    qed
  qed
qed

text \<open>The pixels of the line between two points.\<close>

definition line_points :: "int \<Rightarrow> int \<Rightarrow> int \<Rightarrow> int \<Rightarrow> int \<Rightarrow> int \<Rightarrow> bool" where
  "line_points x0 y0 x1 y1 px py \<longleftrightarrow>
     (\<exists>i j. on_path \<bar>x1 - x0\<bar> \<bar>y1 - y0\<bar> i j \<and> px = x0 + (if x0 < x1 then i else - i) \<and> py = y0 + (if y0 < y1 then j else - j))"

lemma line_painted:
  assumes g: "geometry f" and m: "moderate x0" "moderate y0" "moderate x1" "moderate y1"
  shows "okay (painted (line_points x0 y0 x1 y1) (\<lambda>_ _. c) f) (fb_draw_line x0 y0 x1 y1 c f)"
proof -
  let ?dx = "\<bar>x1 - x0\<bar>" and ?dy = "\<bar>y1 - y0\<bar>"
  let ?sx = "if x0 < x1 then 1 else -1 :: int" and ?sy = "if y0 < y1 then 1 else -1 :: int"
  have w: "s32 (x1 - x0) = x1 - x0" "s32 (y1 - y0) = y1 - y0" "s32 (- (x1 - x0)) = - (x1 - x0)" "s32 (- (y1 - y0)) = - (y1 - y0)"
    "s32 (?dx - ?dy) = ?dx - ?dy"
    using m by (auto simp: moderate_def intro!: s32_id)
  have ends: "x1 = x0 + ?sx * ?dx" "y1 = y0 + ?sy * ?dy" by auto
  have a: "(if x1 - x0 < 0 then - (x1 - x0) else x1 - x0) = ?dx" "(if y1 - y0 < 0 then - (y1 - y0) else y1 - y0) = ?dy"
    "(if x1 - x0 > 0 then 1 else -1) = ?sx" "(if y1 - y0 > 0 then 1 else -1) = ?sy" by auto
  have call: "fb_draw_line x0 y0 x1 y1 c f = line_loop x1 y1 ?dx ?dy ?sx ?sy c x0 y0 (?dx - ?dy) f"
    using geometry_facts(1) [OF g] by (simp only: fb_draw_line_def Let_def w a simp_thms if_False)
  have "okay (painted (\<lambda>x y. \<exists>i' j'. rest_of ?dx ?dy 0 0 i' j' \<and> x = x0 + ?sx * i' \<and> y = y0 + ?sy * j') (\<lambda>_ _. c) f)
     (line_loop (x0 + ?sx * ?dx) (y0 + ?sy * ?dy) ?dx ?dy ?sx ?sy c (x0 + ?sx * 0) (y0 + ?sy * 0) (?dx - ?dy) f)"
    by (rule line_loop_paints [OF g])
      (use m in \<open>auto simp: on_path_def rounded_def moderate_def max_def\<close>)
  then have "okay (painted (\<lambda>x y. \<exists>i' j'. rest_of ?dx ?dy 0 0 i' j' \<and> x = x0 + ?sx * i' \<and> y = y0 + ?sy * j') (\<lambda>_ _. c) f)
     (fb_draw_line x0 y0 x1 y1 c f)"
    unfolding call ends [symmetric] by simp
  moreover have "(\<lambda>x y. \<exists>i' j'. rest_of ?dx ?dy 0 0 i' j' \<and> x = x0 + ?sx * i' \<and> y = y0 + ?sy * j') = line_points x0 y0 x1 y1"
    by (intro ext) (auto simp: line_points_def rest_of_def on_path_def rounded_def)
  ultimately show ?thesis by simp
qed

lemma line_ends: "line_points x0 y0 x1 y1 x0 y0" "line_points x0 y0 x1 y1 x1 y1"
proof -
  show "line_points x0 y0 x1 y1 x0 y0"
    unfolding line_points_def by (intro exI [of _ 0]) (auto simp: on_path_def rounded_def max_def)
  show "line_points x0 y0 x1 y1 x1 y1"
    unfolding line_points_def
    by (intro exI [of _ "\<bar>x1 - x0\<bar>"] exI [of _ "\<bar>y1 - y0\<bar>"]) (auto simp: on_path_def rounded_def algebra_simps max_def)
qed

end
