(* ===== verification/Fb_Text.thy ===== *)
theory Fb_Text
  imports Fb_Line
begin

text \<open>
  The text console of the framebuffer as a terminal: lines of cells, a history of the last thousand lines
  that left the screen, and a cursor. The console implements the terminal, stays within its arrays, and the
  video memory differs from the back buffer only where the dirty rectangle says.
\<close>

section \<open>What the video memory shows\<close>

definition shown :: "fb \<Rightarrow> bool" where
  "shown f \<longleftrightarrow> sane f \<and> (\<not> direct f \<and> vram_pre_hook f = None \<and> vram_post_hook f = None \<longrightarrow>
     (\<forall>i < length (back_buffer f). vram f ! i \<noteq> back_buffer f ! i \<longrightarrow>
        dirty_full f \<or> (\<exists>x y. on_screen f x y \<and> in_dirty f x y \<and> i = place f x y)))"

lemma drawn_shown:
  assumes d: "drawn R c f g" and "shown f"
  shows "shown g"
proof -
  have p: "painted R c f g" and r: "recorded R f g" using d by (simp_all add: drawn_def)
  note s = skel_fields [OF painted_skel(1) [OF p]] and o = on_screen_skel [OF painted_skel(1) [OF p]]
  have l: "length (back_buffer g) = length (back_buffer f)" by (rule painted_skel(2) [OF p])
  have "dirty_full g \<or> (\<exists>x y. on_screen f x y \<and> in_dirty g x y \<and> i = place f x y)"
    if n: "\<not> direct f \<and> vram_pre_hook f = None \<and> vram_post_hook f = None" and i: "i < length (back_buffer f)" "vram f ! i \<noteq> back_buffer g ! i" for i
  proof (cases "back_buffer g ! i = back_buffer f ! i")
    case True
    with \<open>shown f\<close> n i have "dirty_full f \<or> (\<exists>x y. on_screen f x y \<and> in_dirty f x y \<and> i = place f x y)"
      by (simp add: shown_def)
    then show ?thesis using r by (auto simp: recorded_def)
  next
    case False
    with p i obtain x y where "on_screen f x y" "R x y" "i = place f x y" by (auto simp: painted_def)
    then show ?thesis using r by (auto simp: recorded_def)
  qed
  moreover have "sane g" using r \<open>shown f\<close> by (simp add: recorded_def shown_def)
  ultimately show ?thesis by (simp add: shown_def s o l)
qed

lemma mark_full_shown: "shown f \<Longrightarrow> shown (fb_dirty_mark_full (f\<lparr>back_buffer := b\<rparr>))"
  by (simp add: shown_def fb_dirty_mark_full_def sane_def)

section \<open>The state of the console\<close>

abbreviation cols :: "fb \<Rightarrow> nat" where "cols f \<equiv> unat (text_cols f)"
abbreviation rows :: "fb \<Rightarrow> nat" where "rows f \<equiv> unat (text_rows f)"

definition scrollback_ok :: "fb \<Rightarrow> bool" where
  "scrollback_ok f \<longleftrightarrow> fb_sb_offset f \<le> fb_sb_count f \<and>
     (case fb_scrollback f of None \<Rightarrow> fb_sb_count f = 0
      | Some sb \<Rightarrow> length sb = FB_SCROLLBACK_LINES * FB_MAX_COLS \<and> unat (fb_sb_write f) < 1000 \<and> unat (fb_sb_count f) \<le> 1000 \<and>
          (unat (fb_sb_count f) < 1000 \<longrightarrow> fb_sb_write f = fb_sb_count f))"

definition highlight_ok :: "fb \<Rightarrow> bool" where
  "highlight_ok f \<longleftrightarrow> (hl_active f \<longrightarrow> hl_r0 f < text_rows f \<and> hl_r1 f < text_rows f \<and> hl_c0 f < text_cols f \<and> hl_c1 f < text_cols f)"

definition text_ok :: "fb \<Rightarrow> bool" where
  "text_ok f \<longleftrightarrow> geometry f \<and> length (fb_screen f) = FB_MAX_ROWS * FB_MAX_COLS \<and> scrollback_ok f \<and> highlight_ok f"

definition fb_ok :: "fb \<Rightarrow> bool" where
  "fb_ok f \<longleftrightarrow> text_ok f \<and> cursor_x f < text_cols f \<and> cursor_y f < text_rows f"

lemma text_sizes:
  assumes "geometry f"
  shows "cols f = unat (width f) div 8" "rows f = unat (height f) div 16" "1 \<le> cols f" "cols f \<le> 128" "1 \<le> rows f" "rows f \<le> 48" "8 \<le> cols f"
proof -
  note g = assms [unfolded geometry_def]
  show c: "cols f = unat (width f) div 8" "rows f = unat (height f) div 16"
    using g by (simp_all add: unat_div)
  show "1 \<le> cols f" "cols f \<le> 128" "1 \<le> rows f" "rows f \<le> 48" "8 \<le> cols f"
    unfolding c using g by auto
qed

lemma painted_text:
  assumes p: "painted R c f g"
  shows "text_ok g = text_ok f" "fb_ok g = fb_ok f"
  unfolding text_ok_def fb_ok_def scrollback_ok_def highlight_ok_def skel_fields [OF painted_skel(1) [OF p]] painted_geometry [OF p]
  by (rule refl)+

section \<open>The terminal\<close>

record terminal =
  t_rows :: "fb_cell list list"
  t_hist :: "fb_cell list list"
  t_keep :: bool
  t_x :: nat
  t_y :: nat
  t_fg :: u32
  t_bg :: u32

definition row_at :: "fb_cell list \<Rightarrow> nat \<Rightarrow> nat \<Rightarrow> fb_cell list" where
  "row_at cells n r = map (\<lambda>c. cells ! (r * FB_MAX_COLS + c)) [0 ..< n]"

definition live_rows :: "fb \<Rightarrow> fb_cell list list" where
  "live_rows f = map (row_at (fb_screen f) (cols f)) [0 ..< rows f]"

definition history :: "fb \<Rightarrow> fb_cell list list" where
  "history f = (case fb_scrollback f of None \<Rightarrow> []
     | Some sb \<Rightarrow> map (\<lambda>k. row_at sb (cols f) ((unat (fb_sb_write f) + 1000 - unat (fb_sb_count f) + k) mod 1000)) [0 ..< unat (fb_sb_count f)])"

definition terminal_of :: "fb \<Rightarrow> terminal" where
  "terminal_of f = \<lparr>t_rows = live_rows f, t_hist = history f, t_keep = (fb_scrollback f \<noteq> None),
     t_x = unat (cursor_x f), t_y = unat (cursor_y f), t_fg = fg_color f, t_bg = bg_color f\<rparr>"

definition blank :: "terminal \<Rightarrow> fb_cell" where "blank t = \<lparr>ch = 32, cfg = t_fg t, cbg = t_bg t\<rparr>"

definition t_cols :: "terminal \<Rightarrow> nat" where "t_cols t = length (hd (t_rows t))"

text \<open>One line further down: at the bottom the top line moves into the history.\<close>

definition t_scroll :: "terminal \<Rightarrow> terminal" where
  "t_scroll t = t\<lparr>t_rows := tl (t_rows t) @ [replicate (t_cols t) (blank t)],
     t_hist := (if t_keep t then let h = t_hist t @ [hd (t_rows t)] in drop (length h - 1000) h else t_hist t)\<rparr>"

definition t_down :: "terminal \<Rightarrow> terminal" where
  "t_down t = (let t = t\<lparr>t_x := 0\<rparr> in
     if Suc (t_y t) < length (t_rows t) then t\<lparr>t_y := Suc (t_y t)\<rparr> else t_scroll t)"

definition t_write :: "u8 \<Rightarrow> terminal \<Rightarrow> terminal" where
  "t_write c t = t\<lparr>t_rows := (t_rows t)[t_y t := (t_rows t ! t_y t)[t_x t := \<lparr>ch = c, cfg = t_fg t, cbg = t_bg t\<rparr>]]\<rparr>"

text \<open>Move to a column, or to the next line if it is past the edge.\<close>

definition t_goto :: "nat \<Rightarrow> terminal \<Rightarrow> terminal" where
  "t_goto x t = (if x < t_cols t then t\<lparr>t_x := x\<rparr> else t_down t)"

definition t_put :: "u8 \<Rightarrow> terminal \<Rightarrow> terminal" where
  "t_put c t =
     (if c = 10 then t_down t
      else if c = 13 then t\<lparr>t_x := 0\<rparr>
      else if c = 9 then t_goto ((t_x t div 8 + 1) * 8) t
      else if c = 8 then (if 0 < t_x t then t_write 32 (t\<lparr>t_x := t_x t - 1\<rparr>) else t)
      else t_goto (t_x t + 1) (t_write c t))"

lemma terminal_skel:
  assumes "skel g = skel f" shows "terminal_of g = terminal_of f"
  unfolding terminal_of_def live_rows_def history_def skel_fields [OF assms] ..

lemma length_live [simp]: "length (live_rows f) = rows f"
  by (simp add: live_rows_def)

lemma length_row [simp]: "length (row_at cells n r) = n"
  by (simp add: row_at_def)

lemma t_cols_of: "geometry f \<Longrightarrow> t_cols (terminal_of f) = cols f"
  using text_sizes(5) [of f] by (simp add: t_cols_def terminal_of_def live_rows_def hd_map)

section \<open>Ranges\<close>

lemma unat_of_nat32: "k < 4294967296 \<Longrightarrow> unat (of_nat k :: u32) = k"
  by (simp add: unsigned_of_nat take_bit_nat_eq_self)

lemma length_range [simp]: "length (u32_range a b) = unat b - unat a"
  by (simp add: u32_range_def)

lemma nth_range: "k < unat b - unat a \<Longrightarrow> u32_range a b ! k = of_nat (unat a + k)"
  by (simp add: u32_range_def)

lemma unat_range: "r \<in> set (u32_range a b) \<Longrightarrow> unat a \<le> unat r \<and> unat r < unat b"
proof -
  assume "r \<in> set (u32_range a b)"
  then obtain k where k: "r = of_nat k" "unat a \<le> k" "k < unat b" by (auto simp: u32_range_def)
  then have "unat r = k" using unat_lt_u32 [of b] by (simp add: unat_of_nat32)
  with k show ?thesis by simp
qed

lemma unat_nth_range: "k < unat b - unat a \<Longrightarrow> unat (u32_range a b ! k) = unat a + k"
  using unat_lt_u32 [of b] by (simp add: nth_range unat_of_nat32 del: of_nat_add)

section \<open>Scrolling\<close>

lemma cell_split: "c < 128 \<Longrightarrow> d < 128 \<Longrightarrow> r * 128 + c = s * 128 + d \<longleftrightarrow> r = s \<and> c = (d :: nat)"
proof -
  assume "c < 128" "d < 128"
  then have "(r * 128 + c) div 128 = r" "(r * 128 + c) mod 128 = c" "(s * 128 + d) div 128 = s" "(s * 128 + d) mod 128 = d" by simp_all
  then show ?thesis by metis
qed

lemma in_row: "c < n \<Longrightarrow> n \<le> 128 \<Longrightarrow> (k * 128 \<le> r * 128 + c \<and> r * 128 + c < k * 128 + n) = (r = (k :: nat))"
  by (cases r k rule: linorder_cases) auto

lemma shift_rows:
  assumes l: "length cells = FB_MAX_ROWS * FB_MAX_COLS" and c: "n \<le> 128" and r: "unat m < 48"
  shows "okay (\<lambda>xs. length xs = length cells \<and>
      (\<forall>r c. r < 48 \<longrightarrow> c < n \<longrightarrow> xs ! (r * FB_MAX_COLS + c) = (if r < unat m then cells ! ((r + 1) * FB_MAX_COLS + c) else cells ! (r * FB_MAX_COLS + c))))
    (each (\<lambda>r. move_in (unat r * FB_MAX_COLS) ((unat r + 1) * FB_MAX_COLS) n) (u32_range 0 m) cells)"
proof -
  let ?P = "\<lambda>k xs. length xs = length cells \<and>
      (\<forall>r c. r < 48 \<longrightarrow> c < n \<longrightarrow> xs ! (r * FB_MAX_COLS + c) = (if r < k then cells ! ((r + 1) * FB_MAX_COLS + c) else cells ! (r * FB_MAX_COLS + c)))"
  have "okay (?P (length (u32_range 0 m)))
    (each (\<lambda>r. move_in (unat r * FB_MAX_COLS) ((unat r + 1) * FB_MAX_COLS) n) (u32_range 0 m) cells)"
  proof (rule each_steps [where P = ?P])
    fix k xs
    assume k: "k < length (u32_range 0 m)" and P: "?P k xs"
    then have u: "unat (u32_range 0 m ! k) = k" "k < unat m" using unat_nth_range [of k m 0] by simp_all
    have b: "k * 128 + n \<le> length xs" "(k + 1) * 128 + n \<le> length xs" using P u r c l by auto
    let ?ys = "take (k * 128) xs @ take n (drop ((k + 1) * 128) xs) @ drop (k * 128 + n) xs"
    have "?ys ! (r * 128 + c) = (if r < Suc k then cells ! ((r + 1) * 128 + c) else cells ! (r * 128 + c))"
      if rc: "r < 48" "c < n" for r c
    proof -
      have i: "r * 128 + c < length xs" using rc P l \<open>n \<le> 128\<close> by simp
      have e: "(k * 128 \<le> r * 128 + c \<and> r * 128 + c < k * 128 + n) = (r = k)" using in_row [OF rc(2) c] .
      have "k + 1 < 48" "\<not> k + 1 < k" using u r by simp_all
      then have nx: "xs ! ((k + 1) * 128 + c) = cells ! ((k + 1) * 128 + c)" using P rc(2) by metis
      show ?thesis
        using nth_splice [OF b i] e P rc u r nx by (cases "r = k") auto
    qed
    moreover have "length ?ys = length xs" using b by simp
    ultimately show "okay (?P (Suc k)) (move_in (unat (u32_range 0 m ! k) * FB_MAX_COLS) ((unat (u32_range 0 m ! k) + 1) * FB_MAX_COLS) n xs)"
      using b P by (simp add: move_in_def u)
  qed simp
  then show ?thesis by simp
qed

lemma row_at_cong: "(\<And>c. c < n \<Longrightarrow> xs ! (r * 128 + c) = ys ! (q * 128 + c)) \<Longrightarrow> row_at xs n r = row_at ys n q"
  by (simp add: row_at_def)

lemma blank_row:
  assumes l: "length (fb_screen f) = FB_MAX_ROWS * FB_MAX_COLS" and c: "unat n \<le> 128" and r: "unat r < 48"
  shows "okay (\<lambda>g. \<exists>s. g = f\<lparr>fb_screen := s\<rparr> \<and> length s = FB_MAX_ROWS * FB_MAX_COLS \<and>
      (\<forall>q c. q < 48 \<longrightarrow> c < 128 \<longrightarrow> s ! (q * FB_MAX_COLS + c) =
         (if q = unat r \<and> c < unat n then \<lparr>ch = x, cfg = fg_color f, cbg = bg_color f\<rparr> else fb_screen f ! (q * FB_MAX_COLS + c))))
    (each (\<lambda>c. set_cell r c x) (u32_range 0 n) f)"
proof -
  let ?v = "\<lparr>ch = x, cfg = fg_color f, cbg = bg_color f\<rparr>"
  let ?P = "\<lambda>k g. \<exists>s. g = f\<lparr>fb_screen := s\<rparr> \<and> length s = FB_MAX_ROWS * FB_MAX_COLS \<and>
      (\<forall>q c. q < 48 \<longrightarrow> c < 128 \<longrightarrow> s ! (q * FB_MAX_COLS + c) = (if q = unat r \<and> c < k then ?v else fb_screen f ! (q * FB_MAX_COLS + c)))"
  have "okay (?P (length (u32_range 0 n))) (each (\<lambda>c. set_cell r c x) (u32_range 0 n) f)"
  proof (rule each_steps [where P = ?P])
    show "?P 0 f" by (rule exI [of _ "fb_screen f"]) (use l in simp)
  next
    fix k g assume k: "k < length (u32_range 0 n)" and "?P k g"
    then obtain s where g: "g = f\<lparr>fb_screen := s\<rparr>" and s: "length s = FB_MAX_ROWS * FB_MAX_COLS"
      "\<And>q c. q < 48 \<Longrightarrow> c < 128 \<Longrightarrow> s ! (q * FB_MAX_COLS + c) = (if q = unat r \<and> c < k then ?v else fb_screen f ! (q * FB_MAX_COLS + c))"
      by blast
    have u: "unat (u32_range 0 n ! k) = k" "k < 128" using k c unat_nth_range [of k n 0] by simp_all
    let ?i = "unat r * 128 + k" and ?t = "s[unat r * 128 + k := ?v]"
    have "?i < length s" using r u s(1) by simp
    then have e: "set_cell r (u32_range 0 n ! k) x g = Some (f\<lparr>fb_screen := ?t\<rparr>)"
      by (simp add: set_cell_def put_at_def cell_idx_def u g)
    have "?t ! (q * 128 + c) = (if q = unat r \<and> c < Suc k then ?v else fb_screen f ! (q * 128 + c))" if "q < 48" "c < 128" for q c
      using cell_split [of c k q "unat r"] that s u \<open>?i < length s\<close> by (cases "q = unat r \<and> c = k") (auto simp: less_Suc_eq)
    then show "okay (?P (Suc k)) (set_cell r (u32_range 0 n ! k) x g)"
      unfolding e by (simp add: s(1)) (rule exI [of _ ?t], simp add: s(1))
  qed
  then show ?thesis by simp
qed

lemma drop_1_map: "drop 1 xs = map (\<lambda>k. xs ! Suc k) [0 ..< length xs - 1]"
  by (rule nth_equalityI) simp_all

text \<open>The line at the top goes into the ring of old lines.\<close>

lemma save_line_saves:
  assumes ok: "text_ok f"
  shows "\<exists>sb w n. save_line f = Some (f\<lparr>fb_scrollback := sb, fb_sb_write := w, fb_sb_count := n\<rparr>)
    \<and> scrollback_ok (f\<lparr>fb_scrollback := sb, fb_sb_write := w, fb_sb_count := n\<rparr>)
    \<and> history (f\<lparr>fb_scrollback := sb, fb_sb_write := w, fb_sb_count := n\<rparr>) = t_hist (t_scroll (terminal_of f))
    \<and> (sb = None \<longleftrightarrow> fb_scrollback f = None)"
proof (cases "fb_scrollback f")
  case None
  then show ?thesis
    using ok by (intro exI [of _ None] exI [of _ "fb_sb_write f"] exI [of _ "fb_sb_count f"])
      (auto simp: save_line_def scrollback_ok_def text_ok_def history_def t_scroll_def terminal_of_def)
next
  case (Some sb)
  have g: "geometry f" using ok by (simp add: text_ok_def)
  note sz = text_sizes [OF g]
  have b: "length sb = FB_SCROLLBACK_LINES * FB_MAX_COLS" "unat (fb_sb_write f) < 1000" "unat (fb_sb_count f) \<le> 1000"
    "unat (fb_sb_count f) < 1000 \<longrightarrow> fb_sb_write f = fb_sb_count f" "fb_sb_offset f \<le> fb_sb_count f"
    "length (fb_screen f) = FB_MAX_ROWS * FB_MAX_COLS"
    using ok Some by (auto simp: text_ok_def scrollback_ok_def)
  let ?w = "unat (fb_sb_write f)" and ?n = "unat (fb_sb_count f)" and ?C = "cols f"
  define nsb where "nsb = take (?w * 128) sb @ take ?C (drop 0 (fb_screen f)) @ drop (?w * 128 + ?C) sb"
  have r: "?w * 128 + ?C \<le> length sb" "0 + ?C \<le> length (fb_screen f)" using b sz by auto
  have cp: "copy_to (?w * FB_MAX_COLS) (fb_screen f) 0 ?C sb = Some nsb" using r by (simp add: copy_to_def nsb_def)
  have ls: "length nsb = FB_SCROLLBACK_LINES * FB_MAX_COLS" using r b by (simp add: nsb_def)
  have row: "row_at nsb ?C q = (if q = ?w then row_at (fb_screen f) ?C 0 else row_at sb ?C q)" if "q < 1000" for q
  proof -
    have "nsb ! (q * 128 + c) = (if q = ?w then fb_screen f ! (0 * 128 + c) else sb ! (q * 128 + c))" if "c < ?C" for c
    proof -
      have "q * 128 + c < length sb" using \<open>q < 1000\<close> that sz b by simp
      from nth_splice [OF r this] show ?thesis unfolding nsb_def using in_row [of c ?C ?w q] that sz by auto
    qed
    then show ?thesis by (cases "q = ?w") (simp_all add: row_at_def)
  qed
  let ?w' = "(fb_sb_write f + 1) mod 1000" and ?n' = "if fb_sb_count f < 1000 then fb_sb_count f + 1 else fb_sb_count f"
  have uw: "unat ?w' = (?w + 1) mod 1000" using b(2) by (simp add: unat_mod unat_word_ariths)
  have un: "unat ?n' = (if ?n < 1000 then ?n + 1 else ?n)" using b(3) by (simp add: word_less_nat_alt unat_word_ariths)
  let ?g = "f\<lparr>fb_scrollback := Some nsb, fb_sb_write := ?w', fb_sb_count := ?n'\<rparr>"
  have hf: "history f = map (\<lambda>k. row_at sb ?C ((?w + 1000 - ?n + k) mod 1000)) [0 ..< ?n]" using Some by (simp add: history_def)
  have hg: "history ?g = map (\<lambda>k. row_at nsb ?C ((unat ?w' + 1000 - unat ?n' + k) mod 1000)) [0 ..< unat ?n']"
    by (simp add: history_def)
  have top: "hd (live_rows f) = row_at (fb_screen f) ?C 0" using sz by (simp add: live_rows_def hd_map)
  have hist: "history ?g = (let h = history f @ [hd (live_rows f)] in drop (length h - 1000) h)"
  proof (cases "?n < 1000")
    case True
    then have e: "fb_sb_write f = fb_sb_count f" using b by simp
    have i: "(unat ?w' + 1000 - unat ?n' + k) mod 1000 = k" if "k \<le> ?n" for k
      using that True by (cases "?n = 999") (simp_all add: uw [unfolded e] un e)
    have j: "(?w + 1000 - ?n + k) mod 1000 = k" if "k < ?n" for k using that True by (simp add: e)
    have "history f = map (row_at sb ?C) [0 ..< ?n]" unfolding hf by (rule map_cong [OF refl]) (simp only: j set_upt atLeastLessThan_iff)
    moreover have "history ?g = map (row_at nsb ?C) [0 ..< Suc ?n]"
    proof -
      have un': "unat ?n' = Suc ?n" by (simp only: un True if_True Suc_eq_plus1)
      show ?thesis
        unfolding hg un' by (rule map_cong [OF refl]) (simp only: i [unfolded un'] set_upt atLeastLessThan_iff less_Suc_eq_le)
    qed
    moreover have "map (row_at nsb ?C) [0 ..< ?n] = map (row_at sb ?C) [0 ..< ?n]"
    proof (rule map_cong [OF refl])
      fix q assume "q \<in> set [0 ..< ?n]"
      then have "q < 1000" "q \<noteq> ?w" using True e by auto
      then show "row_at nsb ?C q = row_at sb ?C q" using row [of q] by (simp only: if_False)
    qed
    moreover have "row_at nsb ?C ?n = row_at (fb_screen f) ?C 0" using row [OF True] e by (simp only: if_True refl)
    ultimately show ?thesis using True by (simp add: top)
  next
    case False
    then have n: "?n = 1000" using b by simp
    have "row_at nsb ?C ((unat ?w' + k) mod 1000) = (history f @ [hd (live_rows f)]) ! Suc k" if "k < 1000" for k
    proof (cases "k = 999")
      case True
      then have "(unat ?w' + k) mod 1000 = (?w + 1000) mod 1000" by (simp add: uw mod_simps)
      then have "(unat ?w' + k) mod 1000 = ?w" using b(2) by simp
      then show ?thesis using True b(2) by (simp add: row top hf n nth_append)
    next
      case nk: False
      have "(unat ?w' + k) mod 1000 = (?w + Suc k) mod 1000" by (simp add: uw mod_simps)
      moreover have "(?w + Suc k) mod 1000 \<noteq> ?w"
      proof (cases "?w + Suc k < 1000")
        case False
        then have "(?w + Suc k) mod 1000 = ?w + Suc k - 1000" using b(2) that by (subst le_mod_geq) simp_all
        then show ?thesis using nk that False by linarith
      qed simp
      ultimately show ?thesis using nk that by (simp add: row hf n nth_append)
    qed
    then have "history ?g = map (\<lambda>k. (history f @ [hd (live_rows f)]) ! Suc k) [0 ..< 1000]"
      by (simp add: hg un n)
    also have "\<dots> = drop 1 (history f @ [hd (live_rows f)])"
      unfolding drop_1_map by (simp add: hf n)
    finally show ?thesis by (simp add: Let_def hf n)
  qed
  have "scrollback_ok ?g"
  proof -
    have "?w' = ?n'" if "unat ?n' < 1000"
    proof (rule word_unat_eq_iff [THEN iffD2])
      have "?n + 1 < 1000" using that un b(3) by (auto split: if_splits)
      then have "?w = ?n" using b(4) by simp
      then show "unat ?w' = unat ?n'" using \<open>?n + 1 < 1000\<close> by (simp only: uw un) simp
    qed
    moreover have "fb_sb_offset f \<le> ?n'" using b(5) by (simp only: word_le_nat_alt un) auto
    moreover have "unat ?n' \<le> 1000" "unat ?w' < 1000" using b(3) by (simp_all only: un uw) auto
    ultimately show ?thesis by (simp add: scrollback_ok_def ls)
  qed
  then show ?thesis
    using Some cp hist
    by (intro exI [of _ "Some nsb"] exI [of _ ?w'] exI [of _ ?n']) (simp add: save_line_def t_scroll_def terminal_of_def)
qed

section \<open>Steps of the console\<close>

abbreviation fixed :: "fb \<Rightarrow> u32 \<times> u32 \<times> bool \<times> (u32 list \<Rightarrow> u32 list) option \<times> (u32 list \<Rightarrow> u32 list) option" where
  "fixed f \<equiv> (text_cols f, text_rows f, direct f, vram_pre_hook f, vram_post_hook f)"

text \<open>A step that acts on the terminal as \<open>T\<close> and keeps what must hold between steps.\<close>

definition step :: "(terminal \<Rightarrow> terminal) \<Rightarrow> fb \<Rightarrow> fb \<Rightarrow> bool" where
  "step T f g \<longleftrightarrow> text_ok g \<and> (shown f \<longrightarrow> shown g) \<and> fixed g = fixed f \<and> terminal_of g = T (terminal_of f)"

lemma step_trans: "step T f g \<Longrightarrow> step U g h \<Longrightarrow> step (\<lambda>t. U (T t)) f h"
  by (auto simp: step_def)

lemma step_refl: "text_ok f \<Longrightarrow> step (\<lambda>t. t) f f"
  by (simp add: step_def)

lemma drawn_step:
  assumes "text_ok f" "drawn R c f g"
  shows "step (\<lambda>t. t) f g"
proof -
  note p = drawn_painted [OF assms(2)]
  have "fixed g = fixed f" using skel_fields [OF painted_skel(1) [OF p]] by simp
  then show ?thesis
    using assms(1) painted_text(1) [OF p] terminal_skel [OF painted_skel(1) [OF p]] drawn_shown [OF assms(2)]
    by (simp add: step_def)
qed

lemma okay_drawn_step: "okay (drawn R c f) r \<Longrightarrow> text_ok f \<Longrightarrow> okay (step (\<lambda>t. t) f) r"
  by (erule okay_mono) (rule drawn_step)

lemma moderate_nat: "n \<le> 100000 \<Longrightarrow> moderate (int n)"
  by (simp add: moderate_def)

lemma unat_scale: "unat (w :: u32) < 1000 \<Longrightarrow> unat (w * 8) = unat w * 8" "unat (w :: u32) < 1000 \<Longrightarrow> unat (w * 16) = unat w * 16"
  by (simp_all add: unat_word_ariths)

lemma quarters: "(a :: nat) \<le> b \<Longrightarrow> a div 4 + (b - a) div 4 \<le> b div 4"
  using div_add1_eq [of a "b - a" 4] by simp

lemma scroll_move:
  assumes g: "geometry f"
  shows "\<exists>b. move_in 0 (unat (pitch f * 16) div 4) (unat (pitch f * (text_rows f * 16) - pitch f * 16) div 4) (back_buffer f) = Some b
     \<and> length b = length (back_buffer f)"
proof -
  note gd = g [unfolded geometry_def]
  let ?P = "unat (pitch f)" and ?R = "rows f"
  note sz = text_sizes [OF g]
  have "?R * 16 \<le> unat (height f)" by (simp add: sz)
  then have pr: "?P * (?R * 16) \<le> ?P * unat (height f)" by (rule mult_le_mono2)
  then have lt: "?P * (?R * 16) < 2 ^ 32" using gd by linarith
  have p16: "?P * 16 \<le> ?P * (?R * 16)" using sz(5) by (intro mult_le_mono2) simp
  have u16: "unat (text_rows f * 16) = ?R * 16" using sz(6) by (simp add: unat_word_ariths)
  have "?P * 16 < 2 ^ 32" using p16 lt by linarith
  then have a: "unat (pitch f * 16) = ?P * 16" by (simp add: unat_word_ariths)
  have t: "unat (pitch f * (text_rows f * 16)) = ?P * (?R * 16)" using lt by (subst unat_word_ariths) (simp add: u16)
  have "unat (pitch f * (text_rows f * 16) - pitch f * 16) = ?P * (?R * 16) - ?P * 16"
    using p16 by (subst unat_sub) (simp_all only: word_le_nat_alt a t)
  moreover have "?P * 16 div 4 + (?P * (?R * 16) - ?P * 16) div 4 \<le> length (back_buffer f)"
  proof -
    have "?P * 16 div 4 + (?P * (?R * 16) - ?P * 16) div 4 \<le> (?P * (?R * 16)) div 4" by (rule quarters [OF p16])
    also have "\<dots> \<le> ?P * unat (height f) div 4" by (rule div_le_mono [OF pr])
    also have "\<dots> = length (back_buffer f)" using gd by simp
    finally show ?thesis .
  qed
  ultimately show ?thesis by (simp add: move_in_def a)
qed

lemma scroll_step:
  assumes ok: "text_ok f"
  shows "okay (step t_scroll f) (fb_console_scroll f)"
proof -
  have g: "geometry f" and ls: "length (fb_screen f) = FB_MAX_ROWS * FB_MAX_COLS" using ok by (simp_all add: text_ok_def)
  note sz = text_sizes [OF g]
  obtain sb w n where sl: "save_line f = Some (f\<lparr>fb_scrollback := sb, fb_sb_write := w, fb_sb_count := n\<rparr>)"
      "scrollback_ok (f\<lparr>fb_scrollback := sb, fb_sb_write := w, fb_sb_count := n\<rparr>)"
      "history (f\<lparr>fb_scrollback := sb, fb_sb_write := w, fb_sb_count := n\<rparr>) = t_hist (t_scroll (terminal_of f))"
      "sb = None \<longleftrightarrow> fb_scrollback f = None"
    using save_line_saves [OF ok] by (elim exE conjE) (rule that)
  define f1 where "f1 = f\<lparr>fb_scrollback := sb, fb_sb_write := w, fb_sb_count := n\<rparr>"
  have last: "unat (text_rows f - 1) = rows f - 1" using sz(5) unat_sub [of 1 "text_rows f"] by (simp add: word_le_nat_alt)
  have lt48: "rows f - 1 < 48" using sz(5,6) by simp
  obtain s where s: "each (\<lambda>r. move_in (unat r * FB_MAX_COLS) ((unat r + 1) * FB_MAX_COLS) (cols f)) (u32_range 0 (text_rows f - 1)) (fb_screen f) = Some s"
      "length s = FB_MAX_ROWS * FB_MAX_COLS"
      "\<And>r c. r < 48 \<Longrightarrow> c < cols f \<Longrightarrow> s ! (r * FB_MAX_COLS + c) =
         (if r < rows f - 1 then fb_screen f ! ((r + 1) * FB_MAX_COLS + c) else fb_screen f ! (r * FB_MAX_COLS + c))"
    using shift_rows [OF ls sz(4), of "text_rows f - 1", unfolded last ls, OF lt48] unfolding okay_iff by blast
  define f2 where "f2 = f1\<lparr>fb_screen := s\<rparr>"
  have f2: "text_rows f2 = text_rows f" "text_cols f2 = text_cols f" "fg_color f2 = fg_color f" "bg_color f2 = bg_color f" "fb_screen f2 = s"
    by (simp_all add: f2_def f1_def)
  have l2: "length (fb_screen f2) = FB_MAX_ROWS * FB_MAX_COLS" by (simp only: f2 s)
  obtain s3 where s3: "each (\<lambda>c. set_cell (text_rows f - 1) c 32) (u32_range 0 (text_cols f)) f2 = Some (f2\<lparr>fb_screen := s3\<rparr>)"
      "length s3 = FB_MAX_ROWS * FB_MAX_COLS"
      "\<And>q c. q < 48 \<Longrightarrow> c < 128 \<Longrightarrow> s3 ! (q * FB_MAX_COLS + c) =
         (if q = rows f - 1 \<and> c < cols f then \<lparr>ch = 32, cfg = fg_color f, cbg = bg_color f\<rparr> else s ! (q * FB_MAX_COLS + c))"
    using blank_row [OF l2 sz(4), of "text_rows f - 1" 32, unfolded last f2, OF lt48] unfolding okay_iff by blast
  define f3 where "f3 = f2\<lparr>fb_screen := s3\<rparr>"
  have "geometry f3" using g by (simp add: geometry_def f3_def f2_def f1_def)
  from scroll_move [OF this] obtain b where b: "move_in 0 (unat (pitch f3 * 16) div 4)
      (unat (pitch f3 * (text_rows f3 * 16) - pitch f3 * 16) div 4) (back_buffer f3) = Some b" "length b = length (back_buffer f3)"
    by blast
  define f4 where "f4 = f3\<lparr>back_buffer := b\<rparr>"
  have g4: "geometry f4" using geometry_skel [of f4 f3] b(2) \<open>geometry f3\<close> by (simp add: f4_def)
  have f4: "width f4 = width f" "height f4 = height f" "text_rows f3 = text_rows f" "bg_color f3 = bg_color f" "width f3 = width f"
    by (simp_all add: f4_def f3_def f2_def f1_def)
  let ?y = "sint ((text_rows f3 - 1) * 16)"
  have "unat ((text_rows f - 1) * 16) = (rows f - 1) * 16" using unat_scale(2) [of "text_rows f - 1"] sz(6) unfolding last by linarith
  then have y: "?y = int ((rows f - 1) * 16)" using sint_unat [of "(text_rows f - 1) * 16"] sz(6) by (simp add: f4)
  note gf = geometry_facts [OF g4]
  have "(rows f - 1) * 16 < unat (height f)" using sz by (simp add: sz(2))
  then have os: "on_screen f4 0 ?y"
    using gf(2,11) unfolding on_screen_def y unfolding f4 by (intro conjI; linarith)
  have "moderate ?y" unfolding y by (rule moderate_nat) (use sz(6) in simp)
  then have md: "moderate 0" "moderate ?y" "moderate (sint (width f))" "moderate 16"
    using gf(2,3) by (auto simp: moderate_def f4)
  obtain f5 where f5: "fb_fill_rect 0 ?y (sint (width f)) 16 (bg_color f) f4 = Some f5"
      "drawn (box 0 ?y (sint (width f)) 16) (\<lambda>_ _. bg_color f) f4 f5"
    using fill_rect_drawn [OF g4 md os, of "bg_color f"] gf(2) by (auto simp: okay_iff f4)
  have run: "fb_console_scroll f = Some (fb_dirty_mark_full f5)"
    using geometry_facts(1) [OF g] sl(1) s(1) s3(1) b(1) f5(1)
    unfolding fb_console_scroll_def f1_def [symmetric] f4_def f3_def [symmetric]
    by (simp add: f1_def [symmetric] f2_def [symmetric] f3_def [symmetric] f4) (simp add: f1_def f2_def Let_def f4)
  note k5 = skel_fields [OF painted_skel(1) [OF drawn_painted [OF f5(2)]]]
  let ?g = "fb_dirty_mark_full f5"
  have sg: "skel ?g = skel f5" by simp
  have kg: "fixed ?g = fixed f" "cursor_x ?g = cursor_x f" "cursor_y ?g = cursor_y f" "fg_color ?g = fg_color f" "bg_color ?g = bg_color f"
    "fb_screen ?g = s3" "fb_scrollback ?g = sb" "fb_sb_write ?g = w" "fb_sb_count ?g = n" "fb_sb_offset ?g = fb_sb_offset f"
    unfolding skel_fields [OF sg] k5 by (simp_all add: f4_def f3_def f2_def f1_def)
  have hl: "highlight_ok ?g = highlight_ok f"
    unfolding highlight_ok_def skel_fields [OF sg] k5 by (simp add: f4_def f3_def f2_def f1_def)
  have "geometry ?g"
    using drawn_geometry [OF f5(2)] g4 geometry_skel [OF sg] by (simp add: fb_dirty_mark_full_def)
  moreover have "scrollback_ok ?g"
    using sl(2) unfolding scrollback_ok_def kg by (cases sb) auto
  ultimately have tok: "text_ok ?g" using hl ok by (simp add: text_ok_def kg s3(2))
  have "sane f \<Longrightarrow> sane f4" by (simp add: sane_def f4 f4_def f3_def f2_def f1_def)
  then have sh: "shown f \<longrightarrow> shown ?g"
    using f5(2) by (auto simp: shown_def drawn_def recorded_def fb_dirty_mark_full_def sane_def)
  have "history ?g = history (f\<lparr>fb_scrollback := sb, fb_sb_write := w, fb_sb_count := n\<rparr>)"
    using kg by (cases sb) (simp_all add: history_def)
  then have hist: "history ?g = t_hist (t_scroll (terminal_of f))" using sl(3) by simp
  have rw: "row_at s3 (cols f) r = (if r = rows f - 1 then replicate (cols f) (blank (terminal_of f)) else row_at (fb_screen f) (cols f) (r + 1))"
    if "r < rows f" for r
  proof (rule nth_equalityI)
    fix c assume "c < length (row_at s3 (cols f) r)"
    then have c: "c < cols f" "c < 128" "r < 48" using sz(4,6) that by auto
    show "row_at s3 (cols f) r ! c = (if r = rows f - 1 then replicate (cols f) (blank (terminal_of f)) else row_at (fb_screen f) (cols f) (r + 1)) ! c"
      using s3(3) [OF c(3,2)] s(3) [OF c(3,1)] c(1) that by (auto simp: row_at_def blank_def terminal_of_def)
  qed simp
  have "live_rows ?g ! r = (tl (live_rows f) @ [replicate (cols f) (blank (terminal_of f))]) ! r" if r: "r < rows f" for r
  proof (cases "r = rows f - 1")
    case True
    then show ?thesis using r rw kg by (simp add: live_rows_def nth_append)
  next
    case False
    then have "r < rows f - 1" using r by linarith
    then show ?thesis using r rw kg by (simp add: live_rows_def nth_append nth_tl)
  qed
  then have live: "live_rows ?g = tl (live_rows f) @ [replicate (cols f) (blank (terminal_of f))]"
    using kg sz(5) by (intro nth_equalityI) simp_all
  have "terminal_of ?g = t_scroll (terminal_of f)"
    using live hist kg sl(4) t_cols_of [OF g] by (simp add: terminal_of_def t_scroll_def)
  then show ?thesis using run tok sh kg by (simp add: step_def)
qed

text \<open>A character cell is drawn at its place on the screen.\<close>

lemma cell_place:
  assumes g: "geometry f" and c: "c < text_cols f" "r < text_rows f"
  shows "sint (c * 8) = int (unat c * 8)" "sint (r * 16) = int (unat r * 16)" "on_screen f (sint (c * 8)) (sint (r * 16))"
    "moderate (sint (c * 8))" "moderate (sint (r * 16))"
    "on_screen f (sint (c * 8)) (int (unat r * 16 + 14))"
proof -
  note sz = text_sizes [OF g] and gf = geometry_facts [OF g]
  have b: "unat c < cols f" "unat r < rows f" "unat c < 128" "unat r < 48" using c sz(4,6) by (simp_all add: word_less_nat_alt)
  have "unat (c * 8) = unat c * 8" "unat (r * 16) = unat r * 16" using b by (simp_all add: unat_scale)
  then show e: "sint (c * 8) = int (unat c * 8)" "sint (r * 16) = int (unat r * 16)"
    using b sint_unat [of "c * 8"] sint_unat [of "r * 16"] by simp_all
  have "unat c * 8 < unat (width f)" "unat r * 16 + 14 < unat (height f)" using b(1,2) unfolding sz(1,2) by linarith+
  then show "on_screen f (sint (c * 8)) (sint (r * 16))" "on_screen f (sint (c * 8)) (int (unat r * 16 + 14))"
    unfolding on_screen_def e gf(10,11) by (intro conjI; linarith)+
  show "moderate (sint (c * 8))" "moderate (sint (r * 16))" unfolding e by (rule moderate_nat; use b in simp)+
qed

end
