(* ===== verification/Fb_Console.thy ===== *)
theory Fb_Console
  imports Fb_Text
begin

text \<open>
  The operations of the framebuffer console: each stays within the arrays and acts on the terminal as it
  should; writing and flushing brings the video memory up to date.
\<close>

text \<open>Fields that the predicates do not look at.\<close>

lemma geometry_upd [simp]:
  "geometry (f\<lparr>cursor_x := v0\<rparr>) = geometry f"
  "geometry (f\<lparr>cursor_y := v1\<rparr>) = geometry f"
  "geometry (f\<lparr>fb_screen := v2\<rparr>) = geometry f"
  "geometry (f\<lparr>fb_dirty := v3\<rparr>) = geometry f"
  "geometry (f\<lparr>fg_color := v4\<rparr>) = geometry f"
  "geometry (f\<lparr>bg_color := v5\<rparr>) = geometry f"
  "geometry (f\<lparr>fb_swap_deferred := v6\<rparr>) = geometry f"
  "geometry (f\<lparr>fb_sb_offset := v7\<rparr>) = geometry f"
  "geometry (f\<lparr>hl_active := v8\<rparr>) = geometry f"
  "geometry (f\<lparr>hl_r0 := v9\<rparr>) = geometry f"
  "geometry (f\<lparr>hl_c0 := v10\<rparr>) = geometry f"
  "geometry (f\<lparr>hl_r1 := v11\<rparr>) = geometry f"
  "geometry (f\<lparr>hl_c1 := v12\<rparr>) = geometry f"
  "geometry (f\<lparr>cursor_visible := v13\<rparr>) = geometry f"
  by (simp_all add: geometry_def)

lemma scrollback_ok_upd [simp]:
  "scrollback_ok (f\<lparr>cursor_x := v0\<rparr>) = scrollback_ok f"
  "scrollback_ok (f\<lparr>cursor_y := v1\<rparr>) = scrollback_ok f"
  "scrollback_ok (f\<lparr>fb_screen := v2\<rparr>) = scrollback_ok f"
  "scrollback_ok (f\<lparr>fb_dirty := v3\<rparr>) = scrollback_ok f"
  "scrollback_ok (f\<lparr>fg_color := v4\<rparr>) = scrollback_ok f"
  "scrollback_ok (f\<lparr>bg_color := v5\<rparr>) = scrollback_ok f"
  "scrollback_ok (f\<lparr>fb_swap_deferred := v6\<rparr>) = scrollback_ok f"
  "scrollback_ok (f\<lparr>hl_active := v7\<rparr>) = scrollback_ok f"
  "scrollback_ok (f\<lparr>hl_r0 := v8\<rparr>) = scrollback_ok f"
  "scrollback_ok (f\<lparr>hl_c0 := v9\<rparr>) = scrollback_ok f"
  "scrollback_ok (f\<lparr>hl_r1 := v10\<rparr>) = scrollback_ok f"
  "scrollback_ok (f\<lparr>hl_c1 := v11\<rparr>) = scrollback_ok f"
  "scrollback_ok (f\<lparr>cursor_visible := v12\<rparr>) = scrollback_ok f"
  by (simp_all add: scrollback_ok_def split: option.split)

lemma highlight_ok_upd [simp]:
  "highlight_ok (f\<lparr>cursor_x := v0\<rparr>) = highlight_ok f"
  "highlight_ok (f\<lparr>cursor_y := v1\<rparr>) = highlight_ok f"
  "highlight_ok (f\<lparr>fb_screen := v2\<rparr>) = highlight_ok f"
  "highlight_ok (f\<lparr>fb_dirty := v3\<rparr>) = highlight_ok f"
  "highlight_ok (f\<lparr>fg_color := v4\<rparr>) = highlight_ok f"
  "highlight_ok (f\<lparr>bg_color := v5\<rparr>) = highlight_ok f"
  "highlight_ok (f\<lparr>fb_swap_deferred := v6\<rparr>) = highlight_ok f"
  "highlight_ok (f\<lparr>fb_sb_offset := v7\<rparr>) = highlight_ok f"
  "highlight_ok (f\<lparr>cursor_visible := v8\<rparr>) = highlight_ok f"
  by (simp_all add: highlight_ok_def)

lemma shown_upd [simp]:
  "shown (f\<lparr>cursor_x := v0\<rparr>) = shown f"
  "shown (f\<lparr>cursor_y := v1\<rparr>) = shown f"
  "shown (f\<lparr>fb_screen := v2\<rparr>) = shown f"
  "shown (f\<lparr>fb_dirty := v3\<rparr>) = shown f"
  "shown (f\<lparr>fg_color := v4\<rparr>) = shown f"
  "shown (f\<lparr>bg_color := v5\<rparr>) = shown f"
  "shown (f\<lparr>fb_swap_deferred := v6\<rparr>) = shown f"
  "shown (f\<lparr>fb_sb_offset := v7\<rparr>) = shown f"
  "shown (f\<lparr>hl_active := v8\<rparr>) = shown f"
  "shown (f\<lparr>hl_r0 := v9\<rparr>) = shown f"
  "shown (f\<lparr>hl_c0 := v10\<rparr>) = shown f"
  "shown (f\<lparr>hl_r1 := v11\<rparr>) = shown f"
  "shown (f\<lparr>hl_c1 := v12\<rparr>) = shown f"
  "shown (f\<lparr>cursor_visible := v13\<rparr>) = shown f"
  by (simp_all add: shown_def sane_def on_screen_def in_dirty_def place_def stride_def)

lemma history_upd [simp]:
  "history (f\<lparr>cursor_x := v0\<rparr>) = history f"
  "history (f\<lparr>cursor_y := v1\<rparr>) = history f"
  "history (f\<lparr>fb_screen := v2\<rparr>) = history f"
  "history (f\<lparr>fb_dirty := v3\<rparr>) = history f"
  "history (f\<lparr>fg_color := v4\<rparr>) = history f"
  "history (f\<lparr>bg_color := v5\<rparr>) = history f"
  "history (f\<lparr>fb_swap_deferred := v6\<rparr>) = history f"
  "history (f\<lparr>fb_sb_offset := v7\<rparr>) = history f"
  "history (f\<lparr>hl_active := v8\<rparr>) = history f"
  "history (f\<lparr>hl_r0 := v9\<rparr>) = history f"
  "history (f\<lparr>hl_c0 := v10\<rparr>) = history f"
  "history (f\<lparr>hl_r1 := v11\<rparr>) = history f"
  "history (f\<lparr>hl_c1 := v12\<rparr>) = history f"
  "history (f\<lparr>cursor_visible := v13\<rparr>) = history f"
  by (simp_all add: history_def split: option.split)

lemma live_upd [simp]:
  "live_rows (f\<lparr>cursor_x := v0\<rparr>) = live_rows f"
  "live_rows (f\<lparr>cursor_y := v1\<rparr>) = live_rows f"
  "live_rows (f\<lparr>fb_dirty := v2\<rparr>) = live_rows f"
  "live_rows (f\<lparr>fg_color := v3\<rparr>) = live_rows f"
  "live_rows (f\<lparr>bg_color := v4\<rparr>) = live_rows f"
  "live_rows (f\<lparr>fb_swap_deferred := v5\<rparr>) = live_rows f"
  "live_rows (f\<lparr>fb_sb_offset := v6\<rparr>) = live_rows f"
  "live_rows (f\<lparr>hl_active := v7\<rparr>) = live_rows f"
  "live_rows (f\<lparr>hl_r0 := v8\<rparr>) = live_rows f"
  "live_rows (f\<lparr>hl_c0 := v9\<rparr>) = live_rows f"
  "live_rows (f\<lparr>hl_r1 := v10\<rparr>) = live_rows f"
  "live_rows (f\<lparr>hl_c1 := v11\<rparr>) = live_rows f"
  "live_rows (f\<lparr>cursor_visible := v12\<rparr>) = live_rows f"
  by (simp_all add: live_rows_def)

section \<open>One character\<close>

lemma okay_step_bind:
  assumes "okay (step T f) m" and "\<And>g. step T f g \<Longrightarrow> okay (step U g) (k g)"
  shows "okay (step (\<lambda>t. U (T t)) f) (m \<bind> k)"
  by (rule okay_bind [OF assms(1)]) (blast intro: okay_mono [OF assms(2)] step_trans)

lemma step_ok: "step T f g \<Longrightarrow> text_ok g"
  by (simp add: step_def)

lemma step_fixed: "step T f g \<Longrightarrow> text_cols g = text_cols f \<and> text_rows g = text_rows f"
  by (simp add: step_def)

lemma step_avail: "text_ok f \<Longrightarrow> fb_available f"
  by (simp add: text_ok_def geometry_def)

lemma step_cursor:
  assumes "text_ok f"
  shows "step (\<lambda>t. t\<lparr>t_x := unat x, t_y := unat y\<rparr>) f (f\<lparr>cursor_x := x, cursor_y := y\<rparr>)"
proof -
  let ?g = "f\<lparr>cursor_x := x, cursor_y := y\<rparr>"
  have "shown f \<longrightarrow> shown ?g"
    by simp
  moreover have "text_ok ?g" using assms by (simp add: text_ok_def)
  ultimately show ?thesis by (simp add: step_def terminal_of_def)
qed

lemma step_column:
  assumes "text_ok f"
  shows "step (\<lambda>t. t\<lparr>t_x := unat x\<rparr>) f (f\<lparr>cursor_x := x\<rparr>)"
  using step_cursor [OF assms, where x = x and y = "cursor_y f"] by (simp add: step_def terminal_of_def)

lemma live_update:
  assumes g: "geometry f" and r: "r < rows f" "c < cols f" and l: "length (fb_screen f) = FB_MAX_ROWS * FB_MAX_COLS"
  shows "live_rows (f\<lparr>fb_screen := (fb_screen f)[r * FB_MAX_COLS + c := v]\<rparr>) = (live_rows f)[r := (live_rows f ! r)[c := v]]"
proof (rule nth_equalityI)
  note sz = text_sizes [OF g]
  fix i assume "i < length (live_rows (f\<lparr>fb_screen := (fb_screen f)[r * FB_MAX_COLS + c := v]\<rparr>))"
  then have i: "i < rows f" by simp
  have bnd: "r * 128 + c < length (fb_screen f)" using r sz l by simp
  have "row_at ((fb_screen f)[r * FB_MAX_COLS + c := v]) (cols f) i = (if i = r then (row_at (fb_screen f) (cols f) r)[c := v] else row_at (fb_screen f) (cols f) i)"
  proof (rule nth_equalityI)
    fix j assume "j < length (row_at ((fb_screen f)[r * FB_MAX_COLS + c := v]) (cols f) i)"
    then have j: "j < cols f" by simp
    have "(i * 128 + j = r * 128 + c) = (i = r \<and> j = c)" using cell_split [of j c i r] j r sz by simp
    then show "row_at ((fb_screen f)[r * FB_MAX_COLS + c := v]) (cols f) i ! j =
        (if i = r then (row_at (fb_screen f) (cols f) r)[c := v] else row_at (fb_screen f) (cols f) i) ! j"
      using j bnd by (auto simp: row_at_def nth_list_update)
  qed simp
  then show "live_rows (f\<lparr>fb_screen := (fb_screen f)[r * FB_MAX_COLS + c := v]\<rparr>) ! i = (live_rows f)[r := (live_rows f ! r)[c := v]] ! i"
    using i r by (simp add: live_rows_def nth_list_update)
qed simp

lemma set_cell_step:
  assumes ok: "text_ok f" and c: "cursor_x f < text_cols f" "cursor_y f < text_rows f"
  shows "okay (\<lambda>g. step (t_write x) f g \<and> cursor_x g = cursor_x f \<and> cursor_y g = cursor_y f \<and> fg_color g = fg_color f \<and> bg_color g = bg_color f)
     (set_cell (cursor_y f) (cursor_x f) x f)"
proof -
  have g: "geometry f" and l: "length (fb_screen f) = FB_MAX_ROWS * FB_MAX_COLS" using ok by (simp_all add: text_ok_def)
  note sz = text_sizes [OF g]
  have r: "unat (cursor_y f) < rows f" "unat (cursor_x f) < cols f" using c by (simp_all add: word_less_nat_alt)
  let ?v = "\<lparr>ch = x, cfg = fg_color f, cbg = bg_color f\<rparr>" and ?i = "unat (cursor_y f) * FB_MAX_COLS + unat (cursor_x f)"
  let ?g = "f\<lparr>fb_screen := (fb_screen f)[?i := ?v]\<rparr>"
  have "?i < length (fb_screen f)" using r sz(4,6) l by simp
  then have e: "set_cell (cursor_y f) (cursor_x f) x f = Some ?g" by (simp add: set_cell_def put_at_def cell_idx_def)
  have "shown f \<longrightarrow> shown ?g" by simp
  moreover have "text_ok ?g" using ok by (simp add: text_ok_def)
  moreover have "terminal_of ?g = t_write x (terminal_of f)"
    using live_update [OF g r l, of ?v] by (simp add: terminal_of_def t_write_def)
  ultimately show ?thesis by (simp add: e step_def)
qed

lemma char_here:
  assumes ok: "text_ok f" and c: "c < text_cols f" "r < text_rows f"
  shows "okay (\<lambda>g. step (\<lambda>t. t) f g \<and> skel g = skel f) (fb_draw_char (sint (c * 8)) (sint (r * 16)) x fg bg f)"
proof -
  have g: "geometry f" using ok by (simp add: text_ok_def)
  note p = cell_place [OF g c]
  show ?thesis by (rule okay_mono [OF char_drawn [OF g p(4,5,3)]]) (blast intro: drawn_step [OF ok] drawn_skel)
qed

lemma put_cell_step:
  assumes ok: "text_ok f" and c: "cursor_x f < text_cols f" "cursor_y f < text_rows f"
  shows "okay (\<lambda>g. step (t_write x) f g \<and> cursor_x g = cursor_x f \<and> cursor_y g = cursor_y f) (put_cell_here x f)"
  unfolding put_cell_here_def
proof (rule okay_bind [OF set_cell_step [OF ok c]])
  fix g assume s: "step (t_write x) f g \<and> cursor_x g = cursor_x f \<and> cursor_y g = cursor_y f \<and> fg_color g = fg_color f \<and> bg_color g = bg_color f"
  then have "text_ok g" "cursor_x g < text_cols g" "cursor_y g < text_rows g" using step_ok step_fixed c by auto
  from char_here [OF this]
  show "okay (\<lambda>h. step (t_write x) f h \<and> cursor_x h = cursor_x f \<and> cursor_y h = cursor_y f)
      (fb_draw_char (sint (cursor_x g * 8)) (sint (cursor_y g * 16)) x (fg_color g) (bg_color g) g)"
  proof (rule okay_mono)
    fix h assume h: "step (\<lambda>t. t) g h \<and> skel h = skel g"
    then have "step (t_write x) f h" using step_trans [of "t_write x" f g "\<lambda>t. t" h] s by simp
    moreover have "cursor_x h = cursor_x g" "cursor_y h = cursor_y g" using skel_fields [of h g] h by simp_all
    ultimately show "step (t_write x) f h \<and> cursor_x h = cursor_x f \<and> cursor_y h = cursor_y f" using s by simp
  qed
qed

definition t_settle :: "terminal \<Rightarrow> terminal" where
  "t_settle t = (if t_y t < length (t_rows t) then t else t_scroll (t\<lparr>t_y := t_y t - 1\<rparr>))"

lemma t_down_settle: "t_down t = t_settle (t\<lparr>t_x := 0, t_y := Suc (t_y t)\<rparr>)"
  by (simp add: t_down_def t_settle_def Let_def)

lemma t_scroll_y: "t_scroll (t\<lparr>t_y := y\<rparr>) = (t_scroll t)\<lparr>t_y := y\<rparr>" "t_x (t_scroll t) = t_x t" "t_y (t_scroll t) = t_y t"
  by (simp_all add: t_scroll_def t_cols_def blank_def)

lemma terminal_cursor: "t_x (terminal_of f) = unat (cursor_x f)" "t_y (terminal_of f) = unat (cursor_y f)"
  "length (t_rows (terminal_of f)) = rows f"
  by (simp_all add: terminal_of_def)

lemma settle_step:
  assumes ok: "text_ok f" and c: "cursor_x f < text_cols f" "unat (cursor_y f) \<le> rows f"
  shows "okay (\<lambda>g. step t_settle f g \<and> fb_ok g) (scroll_loop f)"
proof (cases "cursor_y f < text_rows f")
  case True
  then show ?thesis
    using ok c step_refl [OF ok] by (subst scroll_loop.simps) (simp add: fb_ok_def step_def t_settle_def terminal_cursor word_less_nat_alt)
next
  case False
  have g: "geometry f" using ok by (simp add: text_ok_def)
  have y: "unat (cursor_y f) = rows f" "0 < rows f" using False c(2) text_sizes(5) [OF g] by (simp_all add: word_less_nat_alt)
  show ?thesis
    unfolding scroll_loop.simps [of f] using False
  proof (simp only: if_False, intro okay_bind [OF scroll_step [OF ok]])
    fix h assume h: "step t_scroll f h"
    have ch: "unat (cursor_y h) = rows f" "unat (cursor_x h) = unat (cursor_x f)" "text_rows h = text_rows f" "text_cols h = text_cols f"
      using h y t_scroll_y(2,3) [of "terminal_of f"] by (simp_all add: step_def terminal_cursor flip: terminal_cursor(1,2))
    have u: "unat (cursor_y h - 1) = rows f - 1" using ch y unat_sub [of 1 "cursor_y h"] by (simp add: word_le_nat_alt)
    let ?h = "h\<lparr>cursor_y := cursor_y h - 1\<rparr>"
    have lt: "cursor_y ?h < text_rows ?h" using u y ch by (simp add: word_less_nat_alt)
    have "step (\<lambda>t. t\<lparr>t_x := unat (cursor_x h), t_y := rows f - 1\<rparr>) h ?h"
      using step_cursor [OF step_ok [OF h], where x = "cursor_x h" and y = "cursor_y h - 1"] u by simp
    from step_trans [OF h this] have "step t_settle f ?h"
      using y ch by (simp add: step_def t_settle_def terminal_cursor t_scroll_y)
    moreover have "fb_ok ?h" using step_ok [OF calculation] lt c(1) ch by (simp add: fb_ok_def word_less_nat_alt)
    moreover have "scroll_loop ?h = Some ?h" using lt by (subst scroll_loop.simps) simp
    ultimately show "okay (\<lambda>g. step t_settle f g \<and> fb_ok g) (scroll_loop ?h)" by simp
  qed
qed

lemma newline_step: "text_ok f \<Longrightarrow> unat (cursor_y f) < rows f \<Longrightarrow>
    step (\<lambda>t. t\<lparr>t_x := 0, t_y := Suc (t_y t)\<rparr>) f (newline f) \<and> cursor_x (newline f) = 0 \<and> unat (cursor_y (newline f)) = Suc (unat (cursor_y f))"
proof -
  assume ok: "text_ok f" and y: "unat (cursor_y f) < rows f"
  have g: "geometry f" using ok by (simp add: text_ok_def)
  have u: "unat (cursor_y f + 1) = Suc (unat (cursor_y f))" using y text_sizes(6) [OF g] by (simp add: unat_word_ariths)
  show ?thesis
    using step_cursor [OF ok, where x = 0 and y = "cursor_y f + 1"] u
    by (simp add: newline_def step_def terminal_cursor)
qed

text \<open>Down a line, and to the next column or the next line.\<close>

lemma down_step:
  assumes "step T f g" and "unat (cursor_y g) < rows g"
  shows "okay (\<lambda>h. step (\<lambda>t. t_down (T t)) f h \<and> fb_ok h) (scroll_loop (newline g))"
proof -
  have ok: "text_ok g" by (rule step_ok [OF assms(1)])
  then have gm: "geometry g" by (simp add: text_ok_def)
  note n = newline_step [OF ok assms(2)]
  have st: "step (\<lambda>t. t\<lparr>t_x := 0, t_y := Suc (t_y t)\<rparr>) g (newline g)" using n by blast
  have "cursor_x (newline g) < text_cols (newline g)" "unat (cursor_y (newline g)) \<le> rows (newline g)"
    using n assms(2) text_sizes(3) [OF gm] step_fixed [OF st] by (auto simp: word_less_nat_alt)
  from settle_step [OF step_ok [OF st] this] show ?thesis
  proof (rule okay_mono)
    fix h assume h: "step t_settle (newline g) h \<and> fb_ok h"
    then have "step (\<lambda>t. t_down (T t)) f h"
      using step_trans [OF assms(1) step_trans [OF st, of t_settle h]] by (simp add: t_down_settle)
    with h show "step (\<lambda>t. t_down (T t)) f h \<and> fb_ok h" by simp
  qed
qed

lemma stay_step:
  assumes "step T f g" and "cursor_x g < text_cols g" "cursor_y g < text_rows g"
  shows "okay (\<lambda>h. step T f h \<and> fb_ok h) (scroll_loop (if text_cols g \<le> cursor_x g then newline g else g))"
proof -
  have "scroll_loop g = Some g" using assms(3) by (subst scroll_loop.simps) simp
  moreover have "\<not> text_cols g \<le> cursor_x g" using assms(2) by simp
  ultimately show ?thesis using assms step_ok [OF assms(1)] by (simp add: fb_ok_def)
qed

lemma goto_step:
  assumes s: "step T f g" and y: "cursor_y g < text_rows g" and x: "unat x = n" and tx: "n < 1000"
  shows "okay (\<lambda>h. step (\<lambda>t. t_goto n (T t)) f h \<and> fb_ok h)
    (scroll_loop (if text_cols g \<le> x then newline (g\<lparr>cursor_x := x\<rparr>) else g\<lparr>cursor_x := x\<rparr>))"
proof -
  let ?g = "g\<lparr>cursor_x := x\<rparr>"
  have ok: "text_ok g" by (rule step_ok [OF s])
  then have gm: "geometry g" by (simp add: text_ok_def)
  have c: "t_cols (T (terminal_of f)) = cols g" using s t_cols_of [OF gm] by (simp add: step_def)
  show ?thesis
  proof (cases "text_cols g \<le> x")
    case True
    have n: "newline ?g = newline g" by (simp add: newline_def)
    have "okay (\<lambda>h. step (\<lambda>t. t_down (T t)) f h \<and> fb_ok h) (scroll_loop (newline g))"
      using down_step [OF s] y by (simp add: word_less_nat_alt)
    then show ?thesis unfolding if_P [OF True] n
    proof (rule okay_mono)
      fix h assume h: "step (\<lambda>t. t_down (T t)) f h \<and> fb_ok h"
      then show "step (\<lambda>t. t_goto n (T t)) f h \<and> fb_ok h"
        using c True x by (simp add: step_def t_goto_def word_le_nat_alt)
    qed
  next
    case False
    from step_trans [OF s step_column [OF ok, of x]] have st: "step (\<lambda>t. t_goto n (T t)) f ?g"
      using c False x by (simp add: step_def t_goto_def word_le_nat_alt)
    moreover have "scroll_loop ?g = Some ?g" using y by (subst scroll_loop.simps) simp
    ultimately show ?thesis using False y step_ok [OF st] by (simp add: fb_ok_def)
  qed
qed

lemma put_one_step:
  assumes ok: "fb_ok f"
  shows "okay (\<lambda>g. step (t_put c) f g \<and> fb_ok g) (put_one c f)"
proof -
  have tk: "text_ok f" and xy: "cursor_x f < text_cols f" "cursor_y f < text_rows f" using ok by (simp_all add: fb_ok_def)
  then have g: "geometry f" by (simp add: text_ok_def)
  note sz = text_sizes [OF g]
  have ux: "unat (cursor_x f) < cols f" "unat (cursor_y f) < rows f" using xy by (simp_all add: word_less_nat_alt)
  note id = step_refl [OF tk]
  consider "c = 10" | "c = 13" | "c = 9" | "c = 8" | "c \<noteq> 10" "c \<noteq> 13" "c \<noteq> 9" "c \<noteq> 8" by blast
  then show ?thesis
  proof cases
    case 1
    have "\<not> text_cols (newline f) \<le> cursor_x (newline f)" using sz(3) by (simp add: newline_def word_le_nat_alt)
    then have "put_one c f = scroll_loop (newline f)" using 1 by (simp add: put_one_def)
    then show ?thesis using down_step [OF id ux(2)] 1 by (simp add: t_put_def [abs_def])
  next
    case 2
    have "step (t_put c) f (f\<lparr>cursor_x := 0\<rparr>)" using step_column [OF tk, of 0] 2 by (simp add: step_def t_put_def)
    from stay_step [OF this] sz(3) xy(2) show ?thesis
      using 2 by (simp add: put_one_def word_less_nat_alt)
  next
    case 3
    let ?x = "(cursor_x f + 8) AND NOT 7"
    have "unat (cursor_x f + 8) = unat (cursor_x f) + 8" using ux(1) sz(4) by (simp add: unat_word_ariths)
    moreover have "(unat (cursor_x f) + 8) div 8 = unat (cursor_x f) div 8 + 1" by simp
    ultimately have x: "unat ?x = (unat (cursor_x f) div 8 + 1) * 8" by (simp only: unat_and_not_7)
    have "unat ?x < 1000" unfolding x using ux(1) sz(4) div_times_less_eq_dividend [of "unat (cursor_x f)" 8] by simp
    from goto_step [OF id xy(2) x [symmetric, THEN sym] this [unfolded x]]
    have "okay (\<lambda>h. step (t_goto ((unat (cursor_x f) div 8 + 1) * 8)) f h \<and> fb_ok h)
       (scroll_loop (if text_cols f \<le> ?x then newline (f\<lparr>cursor_x := ?x\<rparr>) else f\<lparr>cursor_x := ?x\<rparr>))" .
    moreover have "put_one c f = scroll_loop (if text_cols f \<le> ?x then newline (f\<lparr>cursor_x := ?x\<rparr>) else f\<lparr>cursor_x := ?x\<rparr>)"
      using 3 sz(3) by (simp add: put_one_def Let_def newline_def word_le_nat_alt)
    ultimately show ?thesis using 3 by (simp add: step_def t_put_def terminal_cursor)
  next
    case 4
    show ?thesis
    proof (cases "0 < cursor_x f")
      case False
      then have "t_put c (terminal_of f) = terminal_of f" using 4 by (simp add: t_put_def terminal_cursor word_gt_0)
      then have "step (t_put c) f f" using id by (simp add: step_def)
      from stay_step [OF this xy] show ?thesis using False 4 by (simp add: put_one_def)
    next
      case True
      then have "0 < unat (cursor_x f)" by (simp add: word_less_nat_alt)
      then have u: "unat (cursor_x f - 1) = unat (cursor_x f) - 1" using unat_sub [of 1 "cursor_x f"] by (simp add: word_le_nat_alt)
      let ?f = "f\<lparr>cursor_x := cursor_x f - 1\<rparr>"
      have s1: "step (\<lambda>t. t\<lparr>t_x := unat (cursor_x f) - 1\<rparr>) f ?f"
        using step_column [OF tk, of "cursor_x f - 1"] u by simp
      have lt: "cursor_x ?f < text_cols ?f" "cursor_y ?f < text_rows ?f" using u ux xy by (simp_all add: word_less_nat_alt)
      obtain h where h: "put_cell_here 32 ?f = Some h" "step (t_write 32) ?f h" "cursor_x h = cursor_x ?f" "cursor_y h = cursor_y ?f"
        using put_cell_step [OF step_ok [OF s1] lt, of 32] by (auto simp: okay_iff)
      have "t_put c (terminal_of f) = t_write 32 ((terminal_of f)\<lparr>t_x := unat (cursor_x f) - 1\<rparr>)"
        using 4 \<open>0 < unat (cursor_x f)\<close> by (simp add: t_put_def terminal_cursor)
      then have "step (t_put c) f h" using step_trans [OF s1 h(2)] by (simp add: step_def)
      moreover have "cursor_x h < text_cols h" "cursor_y h < text_rows h" using h(3,4) lt step_fixed [OF h(2)] by simp_all
      ultimately show ?thesis using stay_step [of "t_put c" f h] True 4 h(1) by (simp add: put_one_def)
    qed
  next
    case 5
    obtain h where h: "put_cell_here c f = Some h" "step (t_write c) f h" "cursor_x h = cursor_x f" "cursor_y h = cursor_y f"
      using put_cell_step [OF tk xy, of c] by (auto simp: okay_iff)
    have x: "unat (cursor_x h + 1) = unat (cursor_x f) + 1" using ux(1) sz(4) h(3) by (simp add: unat_word_ariths)
    have "cursor_y h < text_rows h" using h(4) xy step_fixed [OF h(2)] by simp
    from goto_step [OF h(2) this x] ux sz
    have "okay (\<lambda>k. step (\<lambda>t. t_goto (unat (cursor_x f) + 1) (t_write c t)) f k \<and> fb_ok k)
       (scroll_loop (if text_cols h \<le> cursor_x h + 1 then newline (h\<lparr>cursor_x := cursor_x h + 1\<rparr>) else h\<lparr>cursor_x := cursor_x h + 1\<rparr>))" by simp
    moreover have "put_one c f = scroll_loop (if text_cols h \<le> cursor_x h + 1 then newline (h\<lparr>cursor_x := cursor_x h + 1\<rparr>) else h\<lparr>cursor_x := cursor_x h + 1\<rparr>)"
      using 5 h(1) by (simp add: put_one_def)
    ultimately show ?thesis using 5 by (simp add: step_def t_put_def terminal_cursor)
  qed
qed

end
