(* ===== verification/Fb_Ops.thy ===== *)
theory Fb_Ops
  imports Fb_Console
begin

text \<open>
  The whole operations of the framebuffer console and the properties of the driver.
\<close>

section \<open>Drawing and copying\<close>

lemma step_id_ok:
  assumes s: "step (\<lambda>t. t) f g" and ok: "fb_ok f"
  shows "fb_ok g"
proof -
  have "terminal_of g = terminal_of f" using s by (simp add: step_def)
  then have "t_x (terminal_of g) = t_x (terminal_of f)" "t_y (terminal_of g) = t_y (terminal_of f)" by simp_all
  then have "cursor_x g = cursor_x f" "cursor_y g = cursor_y f" by (simp_all add: terminal_cursor word_unat_eq_iff)
  then show ?thesis using ok step_ok [OF s] step_fixed [OF s] by (simp add: fb_ok_def)
qed

text \<open>An operation that changes only what is seen.\<close>

definition view :: "fb \<Rightarrow> fb option \<Rightarrow> bool" where
  "view f m = okay (\<lambda>g. step (\<lambda>t. t) f g \<and> fb_ok g) m"

lemma viewI: "fb_ok f \<Longrightarrow> okay (step (\<lambda>t. t) f) m \<Longrightarrow> view f m"
  unfolding view_def by (erule okay_mono) (blast intro: step_id_ok)

lemma view_bind:
  assumes "view f m" and "\<And>g. step (\<lambda>t. t) f g \<Longrightarrow> fb_ok g \<Longrightarrow> view g (k g)"
  shows "view f (m \<bind> k)"
  unfolding view_def
proof (rule okay_bind [OF assms(1) [unfolded view_def]])
  fix g assume g: "step (\<lambda>t. t) f g \<and> fb_ok g"
  then have "okay (\<lambda>h. step (\<lambda>t. t) g h \<and> fb_ok h) (k g)" using assms(2) by (simp add: view_def)
  then show "okay (\<lambda>h. step (\<lambda>t. t) f h \<and> fb_ok h) (k g)"
    by (rule okay_mono) (use g step_trans [of "\<lambda>t. t" f g "\<lambda>t. t"] in blast)
qed

lemma view_each:
  assumes ok: "fb_ok f" and "\<And>x g. x \<in> set xs \<Longrightarrow> step (\<lambda>t. t) f g \<Longrightarrow> fb_ok g \<Longrightarrow> view g (body x g)"
  shows "view f (each body xs f)"
  unfolding view_def
proof (rule each_keeps)
  fix x g assume x: "x \<in> set xs" and g: "step (\<lambda>t. t) f g \<and> fb_ok g"
  then have "okay (\<lambda>h. step (\<lambda>t. t) g h \<and> fb_ok h) (body x g)" using assms(2) by (simp add: view_def)
  then show "okay (\<lambda>h. step (\<lambda>t. t) f h \<and> fb_ok h) (body x g)"
    by (rule okay_mono) (use g step_trans [of "\<lambda>t. t" f g "\<lambda>t. t"] in blast)
qed (use ok step_refl in \<open>simp add: fb_ok_def\<close>)

lemma view_same: "fb_ok f \<Longrightarrow> view f (Some f)"
  by (rule viewI) (simp_all add: step_refl fb_ok_def)

lemma fb_okD: "fb_ok f \<Longrightarrow> text_ok f" "fb_ok f \<Longrightarrow> geometry f" "fb_ok f \<Longrightarrow> fb_available f"
  "fb_ok f \<Longrightarrow> length (fb_screen f) = FB_MAX_ROWS * FB_MAX_COLS"
  by (simp_all add: fb_ok_def text_ok_def geometry_def)

lemma skel_text:
  assumes "skel g = skel f" and "length (back_buffer g) = length (back_buffer f)"
  shows "text_ok g = text_ok f"
  unfolding text_ok_def scrollback_ok_def highlight_ok_def skel_fields [OF assms(1)] geometry_skel [OF assms] ..

lemma draw_cursor_view:
  assumes ok: "fb_ok f"
  shows "view f (fb_console_draw_cursor c f)"
proof -
  note sz = text_sizes [OF fb_okD(2) [OF ok]]
  have u: "unat (cursor_x f) < 128" "unat (cursor_y f) < 48"
    using ok sz(4,6) by (auto simp: fb_ok_def word_less_nat_alt)
  have ux: "unat (cursor_x f * 8) = unat (cursor_x f) * 8" using u by (simp add: unat_scale)
  have uy: "unat (cursor_y f * 16 + 16 - 2) = unat (cursor_y f) * 16 + 14" using u by (simp add: unat_word_ariths)
  let ?x = "sint (cursor_x f * 8)" and ?y = "sint (cursor_y f * 16 + 16 - 2)"
  have "?x = int (unat (cursor_x f) * 8)" using sint_unat [of "cursor_x f * 8", unfolded ux] u by simp
  then have m: "moderate ?x" "moderate 8" using u moderate_nat [of "unat (cursor_x f) * 8"] by (auto simp: moderate_def)
  have h: "view g (fb_draw_hline ?x y FB_FONT_WIDTH c g)" if "fb_ok g" for g y
    by (rule viewI [OF that], rule okay_drawn_step [OF hline_drawn [OF fb_okD(2) [OF that] m] fb_okD(1) [OF that]])
  show ?thesis
    using fb_okD(3) [OF ok] view_same [OF ok] view_bind [OF h [OF ok] h]
    by (simp add: fb_console_draw_cursor_def Let_def)
qed

lemma clear_view:
  assumes ok: "fb_ok f"
  shows "view f (fb_clear c f)"
proof -
  have g: "geometry f" by (rule fb_okD(2) [OF ok])
  let ?n = "unat (drop_bit 2 (fb_size f))"
  have n: "?n = length (back_buffer f)"
  proof -
    have four: "(4 :: nat) = 2 ^ 2" by simp
    show ?thesis using g unfolding geometry_def unat_drop_bit_eq unfolding drop_bit_eq_div four by simp
  qed
  let ?g = "fb_dirty_mark_full (f\<lparr>back_buffer := replicate ?n c @ drop ?n (back_buffer f)\<rparr>)"
  have sk: "skel ?g = skel f" "length (back_buffer ?g) = length (back_buffer f)"
    by simp (simp add: fb_dirty_mark_full_def n)
  have fx: "fixed ?g = fixed f" using skel_fields [OF sk(1)] by simp
  have "step (\<lambda>t. t) f ?g"
    using skel_text [OF sk] fb_okD(1) [OF ok] mark_full_shown fx terminal_skel [OF sk(1)] by (simp add: step_def del: prod.inject)
  then show ?thesis using n fb_okD(3) [OF ok] by (intro viewI [OF ok]) (simp add: fb_clear_def Let_def)
qed

lemma swap_copies:
  assumes ok: "fb_ok f"
  shows "okay (\<lambda>g. step (\<lambda>t. t) f g \<and> fb_ok g \<and> g = f\<lparr>vram := vram g\<rparr> \<and>
     (\<not> direct f \<and> vram_pre_hook f = None \<and> vram_post_hook f = None \<longrightarrow> vram g = back_buffer f)) (fb_swap_buffers f)"
proof (cases "direct f")
  case True
  then show ?thesis using ok step_refl [OF fb_okD(1) [OF ok]] by (simp add: fb_swap_buffers_def)
next
  case False
  have g: "geometry f" by (rule fb_okD(2) [OF ok])
  note gd = g [unfolded geometry_def]
  let ?n = "unat (drop_bit 2 (fb_size f))"
  have four: "(4 :: nat) = 2 ^ 2" by simp
  have n: "?n = length (back_buffer f)" "?n = length (vram f)"
    using gd unfolding unat_drop_bit_eq unfolding drop_bit_eq_div four by simp_all
  let ?pre = "run_hook (vram_pre_hook f) (vram f)"
  let ?v = "run_hook (vram_post_hook f) (back_buffer f)"
  have l0: "length ?pre = length (vram f)" "length ?v = length (back_buffer f)" using gd by simp_all
  have cp: "copy_to 0 (back_buffer f) 0 ?n ?pre = Some (back_buffer f)"
    using n l0 by (simp add: copy_to_def)
  let ?g = "f\<lparr>vram := ?v\<rparr>"
  have lv: "length ?v = unat (fb_size f) div 4" using l0(2) gd by simp
  have "geometry ?g" using g lv unfolding geometry_def by simp
  moreover have "scrollback_ok ?g" "highlight_ok ?g" using fb_okD(1) [OF ok] by (auto simp: text_ok_def scrollback_ok_def highlight_ok_def split: option.splits)
  ultimately have t: "text_ok ?g" using fb_okD(4) [OF ok] by (simp add: text_ok_def)
  moreover have "shown f \<longrightarrow> shown ?g" by (simp add: shown_def sane_def)
  moreover have "terminal_of ?g = terminal_of f" by (simp add: terminal_of_def live_rows_def history_def split: option.split)
  ultimately have "step (\<lambda>t. t) f ?g" by (simp add: step_def)
  then show ?thesis
    using False cp fb_okD(3) [OF ok] step_id_ok [OF _ ok] by (simp add: fb_swap_buffers_def)
qed

lemma swap_view: "fb_ok f \<Longrightarrow> view f (fb_swap_buffers f)"
  unfolding view_def by (rule okay_mono [OF swap_copies]) auto

lemma draw_cell_view:
  assumes ok: "fb_ok f" and c: "c < text_cols f" "r < text_rows f"
  shows "view f (draw_cell cell r c f)"
proof -
  have "okay (step (\<lambda>t. t) f) (fb_draw_char (sint (c * 8)) (sint (r * 16)) (ch cell) (cfg cell) (cbg cell) f)"
    by (rule okay_mono [OF char_here [OF fb_okD(1) [OF ok] c]]) blast
  then show ?thesis using view_same [OF ok] viewI [OF ok] by (simp add: draw_cell_def)
qed

lemma cell_in_screen:
  assumes ok: "fb_ok f" and c: "c < text_cols f" "r < text_rows f"
  shows "cell_idx r c < length (fb_screen f)"
  using c text_sizes(4,6) [OF fb_okD(2) [OF ok]] fb_okD(4) [OF ok] by (simp add: cell_idx_def word_less_nat_alt)

lemma in_cols: "c \<in> set (u32_range a (text_cols f)) \<Longrightarrow> c < text_cols f" "r \<in> set (u32_range a (text_rows f)) \<Longrightarrow> r < text_rows f"
  using unat_range by (fastforce simp: word_less_nat_alt)+

text \<open>Every cell of the screen, each by an operation that only changes the view.\<close>

lemma view_cells:
  assumes ok: "fb_ok f" and b: "\<And>r c g. fb_ok g \<Longrightarrow> step (\<lambda>t. t) f g \<Longrightarrow> c < text_cols g \<Longrightarrow> r < text_rows g \<Longrightarrow> view g (body r c g)"
  shows "view f (each (\<lambda>r. each (body r) (u32_range 0 (text_cols f))) (u32_range 0 (text_rows f)) f)"
proof (rule view_each [OF ok])
  fix r g assume r: "r \<in> set (u32_range 0 (text_rows f))" and g: "step (\<lambda>t. t) f g" "fb_ok g"
  show "view g (each (body r) (u32_range 0 (text_cols f)) g)"
  proof (rule view_each [OF g(2)])
    fix c h assume c: "c \<in> set (u32_range 0 (text_cols f))" and h: "step (\<lambda>t. t) g h" "fb_ok h"
    have s: "step (\<lambda>t. t) f h" by (rule step_trans [OF g(1) h(1)])
    then show "view h (body r c h)"
      using b [OF h(2) s] in_cols(1) [OF c] in_cols(2) [OF r] step_fixed [OF s] by simp
  qed
qed

lemma redraw_view:
  assumes ok: "fb_ok f"
  shows "view f (fb_console_redraw f)"
proof -
  have "view g (each (\<lambda>r. each (\<lambda>c f. get_at (cell_idx r c) (fb_screen f) \<bind> (\<lambda>cell. draw_cell cell r c f))
               (u32_range 0 (text_cols g))) (u32_range 0 (text_rows g)) g)" if "fb_ok g" for g
    by (rule view_cells [OF that]) (simp add: get_at_def cell_in_screen draw_cell_view)
  then have "view f (fb_clear (bg_color f) f \<bind> (\<lambda>f. each (\<lambda>r. each (\<lambda>c f. get_at (cell_idx r c) (fb_screen f) \<bind> (\<lambda>cell. draw_cell cell r c f))
               (u32_range 0 (text_cols f))) (u32_range 0 (text_rows f)) f \<bind> (\<lambda>f. fb_console_draw_cursor FB_TERM_CURSOR f \<bind> fb_swap_buffers)))"
    by (intro view_bind clear_view [OF ok] draw_cursor_view swap_view)
  then show ?thesis using fb_okD(3) [OF ok] by (simp add: fb_console_redraw_def)
qed

lemma offset_step:
  assumes ok: "fb_ok f" and v: "v \<le> fb_sb_count f"
  shows "step (\<lambda>t. t) f (f\<lparr>fb_sb_offset := v\<rparr>)" "fb_ok (f\<lparr>fb_sb_offset := v\<rparr>)"
proof -
  have "scrollback_ok (f\<lparr>fb_sb_offset := v\<rparr>)"
    using fb_okD(1) [OF ok] v by (auto simp: text_ok_def scrollback_ok_def split: option.splits)
  then show s: "step (\<lambda>t. t) f (f\<lparr>fb_sb_offset := v\<rparr>)"
    using fb_okD(1) [OF ok] by (simp add: step_def text_ok_def terminal_of_def)
  show "fb_ok (f\<lparr>fb_sb_offset := v\<rparr>)" by (rule step_id_ok [OF s ok])
qed

lemma view_after: "step (\<lambda>t. t) f g \<Longrightarrow> view g m \<Longrightarrow> view f m"
  unfolding view_def by (erule okay_mono) (use step_trans [of "\<lambda>t. t" f g "\<lambda>t. t"] in blast)

lemma leave_view:
  assumes ok: "fb_ok f"
  shows "view f (leave_scroll f)"
proof (cases "0 < fb_sb_offset f")
  case True
  note o = offset_step [OF ok, of 0]
  have "view f (fb_console_redraw (f\<lparr>fb_sb_offset := 0\<rparr>))" using view_after [OF o(1) redraw_view [OF o(2)]] by simp
  then show ?thesis using True by (simp add: leave_scroll_def)
qed (simp add: leave_scroll_def view_same [OF ok])

section \<open>Writing\<close>

text \<open>An operation that acts on the terminal as \<open>T\<close>.\<close>

definition acts :: "(terminal \<Rightarrow> terminal) \<Rightarrow> fb \<Rightarrow> fb option \<Rightarrow> bool" where
  "acts T f m = okay (\<lambda>g. step T f g \<and> fb_ok g) m"

lemma view_acts: "view f m = acts (\<lambda>t. t) f m"
  by (simp add: view_def acts_def)

lemma acts_bind:
  assumes "acts T f m" and "\<And>g. step T f g \<Longrightarrow> fb_ok g \<Longrightarrow> acts U g (k g)"
  shows "acts (\<lambda>t. U (T t)) f (m \<bind> k)"
  unfolding acts_def
proof (rule okay_bind [OF assms(1) [unfolded acts_def]])
  fix g assume g: "step T f g \<and> fb_ok g"
  then have "okay (\<lambda>h. step U g h \<and> fb_ok h) (k g)" using assms(2) by (simp add: acts_def)
  then show "okay (\<lambda>h. step (\<lambda>t. U (T t)) f h \<and> fb_ok h) (k g)"
    by (rule okay_mono) (use g step_trans [of T f g U] in blast)
qed

lemma acts_same: "fb_ok f \<Longrightarrow> acts (\<lambda>t. t) f (Some f)"
  using view_same by (simp add: view_acts)

lemma put_one_acts: "fb_ok f \<Longrightarrow> acts (t_put c) f (put_one c f)"
  using put_one_step by (simp add: acts_def)

text \<open>Around the characters the cursor is removed and drawn again.\<close>

lemma acts_between:
  assumes ok: "fb_ok f" and m: "\<And>g. fb_ok g \<Longrightarrow> acts T g (body g)" and l: "\<And>g. fb_ok g \<Longrightarrow> view g (fin g)"
  shows "acts T f (leave_scroll f \<bind> (\<lambda>f. fb_console_draw_cursor (bg_color f) f \<bind> (\<lambda>f. body f \<bind>
           (\<lambda>f. fb_console_draw_cursor FB_TERM_CURSOR f \<bind> fin))))"
proof -
  have a: "acts (\<lambda>t. t) g (leave_scroll g)" "acts (\<lambda>t. t) g (fb_console_draw_cursor c g)" "acts (\<lambda>t. t) g (fin g)" if "fb_ok g" for g c
    using leave_view [OF that] draw_cursor_view [OF that] l [OF that] by (simp_all add: view_acts)
  show ?thesis
    by (rule acts_bind [where U = T and T = "\<lambda>t. t", OF a(1) [OF ok]],
        rule acts_bind [where U = T and T = "\<lambda>t. t", OF a(2)], assumption,
        rule acts_bind [where U = "\<lambda>t. t" and T = T, OF m], assumption,
        rule acts_bind [where U = "\<lambda>t. t" and T = "\<lambda>t. t", OF a(2)], assumption,
        rule a(3), assumption)
qed

lemma dirty_view: "fb_ok f \<Longrightarrow> view f (Some (f\<lparr>fb_dirty := b\<rparr>))"
  by (intro viewI) (simp_all add: step_def fb_ok_def text_ok_def terminal_of_def)

lemma putchar_acts: "fb_ok f \<Longrightarrow> acts (t_put c) f (fb_console_putchar c f)"
  using acts_between [OF _ put_one_acts dirty_view] fb_okD(3) [of f] by (simp add: fb_console_putchar_def)

definition t_puts :: "u8 list \<Rightarrow> terminal \<Rightarrow> terminal" where
  "t_puts str = fold t_put (takeWhile (\<lambda>c. c \<noteq> 0) str)"

lemma puts_loop_acts: "fb_ok f \<Longrightarrow> acts (t_puts str) f (puts_loop str f)"
proof (induction str arbitrary: f)
  case Nil
  then show ?case using acts_same by (simp add: t_puts_def id_def)
next
  case (Cons c cs)
  show ?case
  proof (cases "c = 0")
    case True
    then show ?thesis using acts_same [OF Cons.prems] by (simp add: t_puts_def id_def)
  next
    case False
    have "acts (\<lambda>t. t_puts cs (t_put c t)) f (put_one c f \<bind> puts_loop cs)"
      by (rule acts_bind [OF put_one_acts [OF Cons.prems] Cons.IH])
    moreover have "(\<lambda>t. t_puts cs (t_put c t)) = t_puts (c # cs)" using False by (simp add: t_puts_def fun_eq_iff)
    ultimately show ?thesis using False by simp
  qed
qed

lemma puts_acts: "fb_ok f \<Longrightarrow> acts (t_puts str) f (fb_console_puts str f)"
  using acts_between [OF _ puts_loop_acts swap_view] fb_okD(3) [of f] by (simp add: fb_console_puts_def)

section \<open>Flushing\<close>

lemma flush_rows:
  assumes g: "geometry f" and c: "0 \<le> x0" "x0 \<le> x1" "x1 \<le> sint (width f)" "0 \<le> y0" "y1 \<le> sint (height f)"
    and l: "length v = length (back_buffer f)"
  shows "okay (\<lambda>w. length w = length (back_buffer f) \<and>
      (\<forall>i < length (back_buffer f). v ! i = back_buffer f ! i \<longrightarrow> w ! i = back_buffer f ! i) \<and>
      (\<forall>x y. x0 \<le> x \<longrightarrow> x < x1 \<longrightarrow> y0 \<le> y \<longrightarrow> y < y1 \<longrightarrow> w ! place f x y = back_buffer f ! place f x y))
    (each (flush_row f x0 x1) [y0 .. y1 - 1] v)"
proof -
  let ?b = "back_buffer f"
  let ?P = "\<lambda>k w. length w = length ?b \<and> (\<forall>i < length ?b. v ! i = ?b ! i \<longrightarrow> w ! i = ?b ! i) \<and>
      (\<forall>x y. x0 \<le> x \<longrightarrow> x < x1 \<longrightarrow> y0 \<le> y \<longrightarrow> y < y0 + int k \<longrightarrow> w ! place f x y = ?b ! place f x y)"
  note gf = geometry_facts [OF g]
  have "okay (?P (length [y0 .. y1 - 1])) (each (flush_row f x0 x1) [y0 .. y1 - 1] v)"
  proof (rule each_steps [where P = ?P])
    fix k w assume k: "k < length [y0 .. y1 - 1]" and P: "?P k w"
    let ?y = "y0 + int k"
    have y: "[y0 .. y1 - 1] ! k = ?y" "?y < y1" using k by auto
    have yy: "0 \<le> ?y" "?y < sint (height f)" using y c by auto
    have rb: "?y * stride f + z \<le> stride f * sint (height f)" if "z \<le> sint (width f)" for z
    proof (cases "0 < stride f")
      case True
      then show ?thesis using row_bound [OF yy(2), of "z - 1" "stride f"] that gf(6) by simp
    next
      case False
      then show ?thesis using gf(2,6) by linarith
    qed
    have nn: "0 \<le> ?y * stride f" using yy gf(9) by simp
    let ?k = "nat (?y * stride f + x0)"
    have i: "idx32 (?y * stride f + x0) = ?k" "idx32 (x1 - x0) = nat (x1 - x0)"
      using nn c rb [of x0] gf(3,8) by (auto intro!: idx32_id)
    have ib: "?k + nat (x1 - x0) \<le> length w" "?k + nat (x1 - x0) \<le> length ?b"
      using rb [OF c(3)] gf(7) nn c(1,2) P by (simp_all flip: nat_add_distrib)
    let ?w = "take ?k w @ take (nat (x1 - x0)) (drop ?k ?b) @ drop (?k + nat (x1 - x0)) w"
    have nw: "?w ! j = (if ?k \<le> j \<and> j < ?k + nat (x1 - x0) then ?b ! j else w ! j)" if "j < length w" for j
      using nth_splice [OF ib that] by (cases "?k \<le> j") auto
    have "?w ! j = ?b ! j" if "j < length ?b" "v ! j = ?b ! j" for j
      using nw [of j] P that by auto
    moreover have "?w ! place f x z = ?b ! place f x z" if xz: "x0 \<le> x" "x < x1" "y0 \<le> z" "z < y0 + int (Suc k)" for x z
    proof -
      have o: "on_screen f x z" using xz c yy by (auto simp: on_screen_def)
      have pl: "place f x z < length w" using place_bound(1) [OF g o] P by simp
      show ?thesis
      proof (cases "z = ?y")
        case True
        have "?k \<le> place f x z \<and> place f x z < ?k + nat (x1 - x0)"
          using True xz nn c unfolding place_def by (auto simp flip: nat_add_distrib)
        then show ?thesis using nw [OF pl] by simp
      next
        case False
        then have "w ! place f x z = ?b ! place f x z" using P xz by auto
        then show ?thesis using nw [OF pl] by simp
      qed
    qed
    moreover have "length ?w = length ?b" using ib P by simp
    ultimately show "okay (?P (Suc k)) (flush_row f x0 x1 ([y0 .. y1 - 1] ! k) w)"
      using ib by (simp add: flush_row_def Let_def y(1) i copy_to_def)
  qed (use l in simp)
  then show ?thesis
  proof (rule okay_mono)
    fix w assume w: "?P (length [y0 .. y1 - 1]) w"
    have "y < y0 + int (length [y0 .. y1 - 1])" if "y0 \<le> y" "y < y1" for y using that by simp
    with w show "length w = length ?b \<and> (\<forall>i < length ?b. v ! i = ?b ! i \<longrightarrow> w ! i = ?b ! i) \<and>
      (\<forall>x y. x0 \<le> x \<longrightarrow> x < x1 \<longrightarrow> y0 \<le> y \<longrightarrow> y < y1 \<longrightarrow> w ! place f x y = ?b ! place f x y)" by blast
  qed
qed

end
