(* ===== verification/Fb_Props.thy ===== *)
theory Fb_Props
  imports Fb_Ops
begin

text \<open>
  The properties of the framebuffer driver.
\<close>

section \<open>The video memory after a flush\<close>

lemma flush_view:
  assumes ok: "fb_ok f" and sh: "shown f"
  shows "okay (\<lambda>g. step (\<lambda>t. t) f g \<and> fb_ok g \<and> shown g \<and>
     (fb_dirty f \<and> \<not> direct f \<and> vram_pre_hook f = None \<and> vram_post_hook f = None \<longrightarrow> vram g = back_buffer g \<and> back_buffer g = back_buffer f))
     (fb_flush f)"
proof (cases "fb_dirty f \<and> \<not> direct f")
  case False
  have "step (\<lambda>t. t) f (f\<lparr>fb_dirty := False\<rparr>)" "fb_ok (f\<lparr>fb_dirty := False\<rparr>)"
    using dirty_view [OF ok, of False] by (simp_all add: view_def)
  then show ?thesis
    using False ok sh fb_okD(3) [OF ok] step_refl [OF fb_okD(1) [OF ok]] by (auto simp: fb_flush_def Let_def)
next
  case True
  let ?f = "f\<lparr>fb_dirty := False\<rparr>"
  have ok': "fb_ok ?f" and st: "step (\<lambda>t. t) f ?f" using dirty_view [OF ok, of False] by (simp_all add: view_def)
  have g: "geometry ?f" by (rule fb_okD(2) [OF ok'])
  have sh': "shown ?f" using sh by simp
  have reset: "step (\<lambda>t. t) f (fb_dirty_reset h) \<and> fb_ok (fb_dirty_reset h) \<and> shown (fb_dirty_reset h)"
    if h: "step (\<lambda>t. t) ?f h" "fb_ok h" and eq: "\<not> direct h \<and> vram_pre_hook h = None \<and> vram_post_hook h = None \<Longrightarrow> vram h = back_buffer h" for h
  proof -
    let ?r = "fb_dirty_reset h"
    have sk: "skel ?r = skel h" "length (back_buffer ?r) = length (back_buffer h)"
      by simp (simp add: fb_dirty_reset_def)
    have s: "shown ?r" using eq by (auto simp: shown_def sane_def fb_dirty_reset_def)
    have "step (\<lambda>t. t) h ?r"
      using skel_text [OF sk] fb_okD(1) [OF h(2)] s terminal_skel [OF sk(1)] by (simp add: step_def fb_dirty_reset_def)
    from step_trans [OF st step_trans [OF h(1) this]] step_id_ok [OF this h(2)] s show ?thesis by simp
  qed
  show ?thesis
  proof (cases "dirty_full f")
    case full: True
    have "okay (\<lambda>h. step (\<lambda>t. t) ?f h \<and> fb_ok h \<and> h = ?f\<lparr>vram := vram h\<rparr> \<and>
        (\<not> direct ?f \<and> vram_pre_hook ?f = None \<and> vram_post_hook ?f = None \<longrightarrow> vram h = back_buffer ?f)) (fb_swap_buffers ?f)"
      by (rule swap_copies [OF ok'])
    then obtain h where h: "fb_swap_buffers ?f = Some h" "step (\<lambda>t. t) ?f h" "fb_ok h" "h = ?f\<lparr>vram := vram h\<rparr>"
        "\<not> direct ?f \<and> vram_pre_hook ?f = None \<and> vram_post_hook ?f = None \<longrightarrow> vram h = back_buffer ?f"
      by (auto simp only: okay_iff)
    have k: "back_buffer h = back_buffer f" "direct h = direct f" "vram_pre_hook h = vram_pre_hook f" "vram_post_hook h = vram_post_hook f"
      using arg_cong [OF h(4), of back_buffer] arg_cong [OF h(4), of direct] arg_cong [OF h(4), of vram_pre_hook]
        arg_cong [OF h(4), of vram_post_hook] by simp_all
    have e: "fb_flush f = Some (fb_dirty_reset h)"
      using True full h(1) fb_okD(3) [OF ok] by (simp add: fb_flush_def Let_def)
    have "vram h = back_buffer h" if "\<not> direct h \<and> vram_pre_hook h = None \<and> vram_post_hook h = None"
      using h(5) that k by simp
    from reset [OF h(2,3) this] show ?thesis
      using e h(5) k by (simp add: fb_dirty_reset_def)
  next
    case nfull: False
    show ?thesis
    proof (cases "dirty_x1 f \<le> dirty_x0 f \<or> dirty_y1 f \<le> dirty_y0 f")
      case empty: True
      have "vram ?f = back_buffer ?f" if "\<not> direct ?f \<and> vram_pre_hook ?f = None \<and> vram_post_hook ?f = None"
      proof (rule nth_equalityI)
        show "length (vram ?f) = length (back_buffer ?f)" using g by (simp add: geometry_def)
        fix i assume "i < length (vram ?f)"
        then show "vram ?f ! i = back_buffer ?f ! i"
          using sh' that nfull empty g by (auto simp: shown_def in_dirty_def geometry_def)
      qed
      from reset [OF step_refl [OF fb_okD(1) [OF ok']] ok' this] show ?thesis
        using True nfull empty fb_okD(3) [OF ok] \<open>\<not> direct ?f \<and> _ \<Longrightarrow> _\<close> by (auto simp: fb_flush_def Let_def fb_dirty_reset_def)
    next
      case ne: False
      note gf = geometry_facts [OF g, simplified]
      let ?x1 = "if dirty_x1 f > sint (width f) then sint (width f) else dirty_x1 f"
      let ?y1 = "if dirty_y1 f > sint (height f) then sint (height f) else dirty_y1 f"
      let ?x0 = "if dirty_x0 f < 0 then 0 else dirty_x0 f"
      let ?y0 = "if dirty_y0 f < 0 then 0 else dirty_y0 f"
      let ?pre = "run_hook (vram_pre_hook f) (vram f)"
      have sn: "0 \<le> dirty_x0 f" "0 \<le> dirty_y0 f" "dirty_x0 f < sint (width f)" "dirty_y0 f < sint (height f)"
        using sh ne by (auto simp: shown_def sane_def)
      have l: "length ?pre = length (back_buffer ?f)" using g by (simp add: geometry_def)
      have c: "0 \<le> ?x0" "?x0 \<le> ?x1" "?x1 \<le> sint (width ?f)" "0 \<le> ?y0" "?y1 \<le> sint (height ?f)"
        using sn ne by simp_all
      obtain v where v0: "each (flush_row ?f ?x0 ?x1) [?y0 .. ?y1 - 1] ?pre = Some v" "length v = length (back_buffer ?f)"
          "\<And>i. i < length (back_buffer ?f) \<Longrightarrow> ?pre ! i = back_buffer ?f ! i \<Longrightarrow> v ! i = back_buffer ?f ! i"
          "\<And>x y. ?x0 \<le> x \<Longrightarrow> x < ?x1 \<Longrightarrow> ?y0 \<le> y \<Longrightarrow> y < ?y1 \<Longrightarrow> v ! place ?f x y = back_buffer ?f ! place ?f x y"
        using flush_rows [OF g c l] unfolding okay_iff by blast
      have bf: "back_buffer ?f = back_buffer f" by simp
      note v = v0 [unfolded bf]
      let ?h = "?f\<lparr>vram := run_hook (vram_post_hook f) v\<rparr>"
      have lh: "length (run_hook (vram_post_hook f) v) = length v" using g by (simp add: geometry_def)
      have eq: "vram ?h = back_buffer ?h" if n: "\<not> direct ?h \<and> vram_pre_hook ?h = None \<and> vram_post_hook ?h = None"
      proof (rule nth_equalityI)
        show "length (vram ?h) = length (back_buffer ?h)" using lh v(2) by simp
        fix i assume "i < length (vram ?h)"
        then have i: "i < length (back_buffer f)" using lh v(2) by simp
        show "vram ?h ! i = back_buffer ?h ! i"
        proof (cases "vram f ! i = back_buffer f ! i")
          case True
          then show ?thesis using v(3) [OF i] n by simp
        next
          case False
          then obtain x y where xy: "on_screen ?f x y" "in_dirty ?f x y" "i = place ?f x y"
            using sh' n i nfull by (auto simp: shown_def)
          then have "v ! place ?f x y = back_buffer f ! place ?f x y"
            by (intro v(4)) (use sn in \<open>auto simp: on_screen_def in_dirty_def\<close>)
          then show ?thesis using xy(3) n by simp
        qed
      qed
      have "geometry ?h" using g lh v(2) unfolding geometry_def by simp
      moreover have "scrollback_ok ?h" "highlight_ok ?h"
        using fb_okD(1) [OF ok'] by (auto simp: text_ok_def scrollback_ok_def highlight_ok_def split: option.splits)
      ultimately have "text_ok ?h" using fb_okD(4) [OF ok'] by (simp add: text_ok_def)
      moreover have "shown ?f \<longrightarrow> shown ?h"
        using eq by (auto simp: shown_def sane_def)
      moreover have "terminal_of ?h = terminal_of ?f" by (simp add: terminal_of_def live_rows_def history_def split: option.split)
      ultimately have s: "step (\<lambda>t. t) ?f ?h" by (simp add: step_def)
      have "fb_flush f = Some (fb_dirty_reset ?h)"
        using True nfull ne v(1) fb_okD(3) [OF ok] by (simp add: fb_flush_def Let_def cong: if_cong option.case_cong split del: if_split)
      with reset [OF s step_id_ok [OF s ok'] eq] show ?thesis
        using eq by (simp add: fb_dirty_reset_def)
    qed
  qed
qed

section \<open>Clearing, looking back and highlighting\<close>

definition t_clear :: "terminal \<Rightarrow> terminal" where
  "t_clear t = t\<lparr>t_rows := replicate (length (t_rows t)) (replicate (t_cols t) (blank t)), t_x := 0, t_y := 0\<rparr>"

lemma clear_rows:
  assumes l: "length (fb_screen f) = FB_MAX_ROWS * FB_MAX_COLS" and c: "unat n \<le> 128" and r: "unat m \<le> 48"
  shows "okay (\<lambda>g. \<exists>s. g = f\<lparr>fb_screen := s\<rparr> \<and> length s = FB_MAX_ROWS * FB_MAX_COLS \<and>
      (\<forall>q < unat m. \<forall>c < unat n. s ! (q * FB_MAX_COLS + c) = \<lparr>ch = x, cfg = fg_color f, cbg = bg_color f\<rparr>))
    (each (\<lambda>r. each (\<lambda>c. set_cell r c x) (u32_range 0 n)) (u32_range 0 m) f)"
proof -
  let ?v = "\<lparr>ch = x, cfg = fg_color f, cbg = bg_color f\<rparr>"
  let ?P = "\<lambda>k g. \<exists>s. g = f\<lparr>fb_screen := s\<rparr> \<and> length s = FB_MAX_ROWS * FB_MAX_COLS \<and> (\<forall>q < k. \<forall>c < unat n. s ! (q * FB_MAX_COLS + c) = ?v)"
  have "okay (?P (length (u32_range 0 m))) (each (\<lambda>r. each (\<lambda>c. set_cell r c x) (u32_range 0 n)) (u32_range 0 m) f)"
  proof (rule each_steps [where P = ?P])
    show "?P 0 f" by (rule exI [of _ "fb_screen f"]) (use l in simp)
  next
    fix k g assume k: "k < length (u32_range 0 m)" and "?P k g"
    then obtain s where g: "g = f\<lparr>fb_screen := s\<rparr>" and s: "length s = FB_MAX_ROWS * FB_MAX_COLS"
      "\<And>q c. q < k \<Longrightarrow> c < unat n \<Longrightarrow> s ! (q * FB_MAX_COLS + c) = ?v"
      by blast
    have u: "unat (u32_range 0 m ! k) = k" "k < 48" using k r unat_nth_range [of k m 0] by simp_all
    have "length (fb_screen g) = FB_MAX_ROWS * FB_MAX_COLS" using g s(1) by simp
    from blank_row [OF this c, of "u32_range 0 m ! k" x] u
    have "okay (\<lambda>h. \<exists>s. h = g\<lparr>fb_screen := s\<rparr> \<and> length s = FB_MAX_ROWS * FB_MAX_COLS \<and>
      (\<forall>q c. q < 48 \<longrightarrow> c < 128 \<longrightarrow> s ! (q * FB_MAX_COLS + c) =
         (if q = k \<and> c < unat n then \<lparr>ch = x, cfg = fg_color g, cbg = bg_color g\<rparr> else fb_screen g ! (q * FB_MAX_COLS + c))))
      (each (\<lambda>c. set_cell (u32_range 0 m ! k) c x) (u32_range 0 n) g)" by simp
    then show "okay (?P (Suc k)) (each (\<lambda>c. set_cell (u32_range 0 m ! k) c x) (u32_range 0 n) g)"
    proof (rule okay_mono, elim exE conjE)
      fix h t assume h: "h = g\<lparr>fb_screen := t\<rparr>" "length t = FB_MAX_ROWS * FB_MAX_COLS"
        "\<forall>q c. q < 48 \<longrightarrow> c < 128 \<longrightarrow> t ! (q * FB_MAX_COLS + c) =
         (if q = k \<and> c < unat n then \<lparr>ch = x, cfg = fg_color g, cbg = bg_color g\<rparr> else fb_screen g ! (q * FB_MAX_COLS + c))"
      have "t ! (q * FB_MAX_COLS + d) = ?v" if "q < Suc k" "d < unat n" for q d
        using h(3) [rule_format, of q d] that s(2) [of q d] u(2) c g by (auto simp: less_Suc_eq)
      then show "?P (Suc k) h" using h(1,2) g by (intro exI [of _ t]) simp
    qed
  qed
  then show ?thesis by simp
qed

lemma clear_acts:
  assumes ok: "fb_ok f"
  shows "acts t_clear f (fb_console_clear f)"
proof -
  note sz = text_sizes [OF fb_okD(2) [OF ok]]
  define f1 where "f1 = f\<lparr>cursor_x := 0, cursor_y := 0, fb_sb_offset := 0\<rparr>"
  have l1: "length (fb_screen f1) = FB_MAX_ROWS * FB_MAX_COLS" using fb_okD(4) [OF ok] by (simp add: f1_def)
  obtain s where s: "each (\<lambda>r. each (\<lambda>c. set_cell r c 32) (u32_range 0 (text_cols f))) (u32_range 0 (text_rows f)) f1 = Some (f1\<lparr>fb_screen := s\<rparr>)"
    "length s = FB_MAX_ROWS * FB_MAX_COLS"
    "\<And>q c. q < rows f \<Longrightarrow> c < cols f \<Longrightarrow> s ! (q * FB_MAX_COLS + c) = \<lparr>ch = 32, cfg = fg_color f1, cbg = bg_color f1\<rparr>"
    using clear_rows [OF l1 sz(4,6), of 32] unfolding okay_iff by blast
  let ?f2 = "f1\<lparr>fb_screen := s\<rparr>"
  have row: "row_at s (cols f) q = replicate (cols f) (blank (terminal_of f))" if "q < rows f" for q
    by (rule nth_equalityI) (use that s(3) in \<open>simp_all add: row_at_def blank_def terminal_of_def f1_def\<close>)
  have "live_rows ?f2 = replicate (rows f) (replicate (cols f) (blank (terminal_of f)))"
    by (rule nth_equalityI) (simp_all add: live_rows_def row f1_def)
  then have t: "terminal_of ?f2 = t_clear (terminal_of f)"
    using t_cols_of [OF fb_okD(2) [OF ok]] by (simp add: t_clear_def terminal_of_def f1_def)
  have "scrollback_ok f1" using fb_okD(1) [OF ok] by (auto simp: f1_def text_ok_def scrollback_ok_def split: option.splits)
  moreover have "geometry f1" "highlight_ok f1" using fb_okD(1) [OF ok] by (simp_all add: f1_def text_ok_def)
  ultimately have "text_ok ?f2" using s(2) by (simp add: text_ok_def)
  then have st: "step t_clear f ?f2" using t by (simp add: step_def f1_def)
  have ok2: "fb_ok ?f2" using step_ok [OF st] sz(3,5) by (simp add: fb_ok_def f1_def word_less_nat_alt)
  have "acts t_clear f (Some ?f2)" using st ok2 by (simp add: acts_def)
  moreover have "acts (\<lambda>t. t) g (fb_clear (bg_color g) g \<bind> fb_swap_buffers)" if "fb_ok g" for g
    using view_bind [OF clear_view [OF that] swap_view] by (simp add: view_acts)
  ultimately have "acts (\<lambda>t. t_clear t) f (Some ?f2 \<bind> (\<lambda>f. fb_clear (bg_color f) f \<bind> fb_swap_buffers))"
    by (rule acts_bind [where U = "\<lambda>t. t" and T = t_clear]) assumption
  then show ?thesis using s(1) fb_okD(3) [OF ok] by (simp add: fb_console_clear_def f1_def eta_contract_eq)
qed

lemma mark_step:
  assumes ok: "fb_ok f" and o: "0 \<le> x" "x < sint (width f)" "0 \<le> y" "y < sint (height f)"
  shows "view f (Some (fb_dirty_mark x y w h f))"
proof -
  let ?g = "fb_dirty_mark x y w h f"
  have sk: "skel ?g = skel f" "length (back_buffer ?g) = length (back_buffer f)" by simp (simp add: fb_dirty_mark_def)
  have "in_dirty f px py \<Longrightarrow> in_dirty ?g px py" for px py by (auto simp: in_dirty_def fb_dirty_mark_def)
  moreover have "sane f \<Longrightarrow> sane ?g" using o by (auto simp: sane_def fb_dirty_mark_def)
  moreover have "dirty_full ?g = dirty_full f" "back_buffer ?g = back_buffer f" by (simp_all add: fb_dirty_mark_def)
  ultimately have "shown f \<longrightarrow> shown ?g"
    unfolding shown_def skel_fields [OF sk(1)] on_screen_skel [OF sk(1)] by (metis (no_types, lifting))
  then have "step (\<lambda>t. t) f ?g"
    using skel_text [OF sk] fb_okD(1) [OF ok] terminal_skel [OF sk(1)] skel_fields [OF sk(1)] by (simp add: step_def)
  then show ?thesis by (intro viewI [OF ok]) simp
qed

lemma sint_count: "fb_ok f \<Longrightarrow> sint (fb_sb_count f) = int (unat (fb_sb_count f)) \<and> unat (fb_sb_count f) \<le> 1000 \<and>
    sint (fb_sb_offset f) = int (unat (fb_sb_offset f)) \<and> unat (fb_sb_offset f) \<le> unat (fb_sb_count f)"
proof -
  assume "fb_ok f"
  then have "unat (fb_sb_count f) \<le> 1000" "unat (fb_sb_offset f) \<le> unat (fb_sb_count f)"
    by (auto simp: fb_ok_def text_ok_def scrollback_ok_def word_le_nat_alt split: option.splits)
  then show ?thesis using sint_unat [of "fb_sb_count f"] sint_unat [of "fb_sb_offset f"] by linarith
qed

lemma view_row_view:
  assumes ok: "fb_ok f" and r: "r < text_rows f"
  shows "view f (draw_view_row r f)"
proof -
  note sz = text_sizes [OF fb_okD(2) [OF ok]] and n = sint_count [OF ok]
  have ur: "unat r < rows f" "unat r < 48" using r sz(6) by (simp_all add: word_less_nat_alt)
  have sr: "sint r = int (unat r)" by (rule sint_unat) (use ur in simp)
  have st: "sint (text_rows f) = int (rows f)" by (rule sint_unat) (use sz(6) in simp)
  define l where "l = sint (fb_sb_count f) - sint (fb_sb_offset f) + sint r"
  have lb: "0 \<le> l" "l < 2000" using n sr ur(2) unfolding l_def by linarith+
  have sl: "s32 l = l" by (rule s32_id) (use lb in auto)
  show ?thesis
  proof (cases "l < sint (fb_sb_count f)")
    case True
    have cnt: "0 < unat (fb_sb_count f)" using True lb(1) n by linarith
    then obtain sb where sb: "fb_scrollback f = Some sb" "length sb = FB_SCROLLBACK_LINES * FB_MAX_COLS" "unat (fb_sb_write f) < 1000"
      using ok by (auto simp: fb_ok_def text_ok_def scrollback_ok_def split: option.splits)
    have sw: "sint (fb_sb_write f) = int (unat (fb_sb_write f))" by (rule sint_unat) (use sb(3) in simp)
    define d where "d = sint (fb_sb_write f) - sint (fb_sb_count f) + l + 1000"
    have db: "0 \<le> d" "d < 2000" using n sw sb(3) lb True unfolding d_def by linarith+
    have i: "c_rem (s32 d) 1000 = d mod 1000" "0 \<le> d mod 1000" "d mod 1000 < 1000"
      using db by (auto simp: s32_id c_rem_def sgn_if)
    have nl: "\<not> d mod 1000 < 0" using i(2) by linarith
    have "view f (each (\<lambda>c f. do {
            sb \<leftarrow> fb_scrollback f;
            cell \<leftarrow> (if d mod 1000 < 0 then None else get_at (nat (d mod 1000) * FB_MAX_COLS + unat c) sb);
            draw_cell cell r c f
          }) (u32_range 0 (text_cols f)) f)"
    proof (rule view_each [OF ok])
      fix c g assume c: "c \<in> set (u32_range 0 (text_cols f))" and g: "step (\<lambda>t. t) f g" "fb_ok g"
      have lt: "c < text_cols g" "r < text_rows g" using in_cols(1) [OF c] r step_fixed [OF g(1)] by simp_all
      have "terminal_of g = terminal_of f" using g(1) by (simp add: step_def)
      then have "t_keep (terminal_of g)" using sb(1) by (simp add: terminal_of_def)
      then obtain sb' where sb': "fb_scrollback g = Some sb'" "length sb' = FB_SCROLLBACK_LINES * FB_MAX_COLS"
        using g(2) by (auto simp: terminal_of_def fb_ok_def text_ok_def scrollback_ok_def)
      have "unat c < 128" using in_cols(1) [OF c] sz(4) by (simp add: word_less_nat_alt)
      then have "nat (d mod 1000) * 128 + unat c < length sb'" using i(2,3) sb'(2) by simp
      then show "view g (do {
            sb \<leftarrow> fb_scrollback g;
            cell \<leftarrow> (if d mod 1000 < 0 then None else get_at (nat (d mod 1000) * FB_MAX_COLS + unat c) sb);
            draw_cell cell r c g
          })" unfolding if_not_P [OF nl] using sb'(1) draw_cell_view [OF g(2) lt] by (simp add: get_at_def)
    qed
    then show ?thesis using True lb sl i(1) by (simp add: draw_view_row_def Let_def flip: l_def d_def)
  next
    case False
    define q where "q = l - sint (fb_sb_count f)"
    have q0: "0 \<le> q" using False unfolding q_def by linarith
    have q1: "q < sint (text_rows f)" using n ur unfolding q_def l_def st sr by linarith
    have "s32 q = q" by (rule s32_id) (use q0 q1 st sz(6) in linarith)+
    note q = q0 q1 this
    have "view f (each (\<lambda>c f. get_at (nat q * FB_MAX_COLS + unat c) (fb_screen f) \<bind> (\<lambda>cell. draw_cell cell r c f)) (u32_range 0 (text_cols f)) f)"
    proof (rule view_each [OF ok])
      fix c g assume c: "c \<in> set (u32_range 0 (text_cols f))" and g: "step (\<lambda>t. t) f g" "fb_ok g"
      have lt: "c < text_cols g" "r < text_rows g" using in_cols(1) [OF c] r step_fixed [OF g(1)] by simp_all
      have "unat c < 128" using in_cols(1) [OF c] sz(4) by (simp add: word_less_nat_alt)
      moreover have "nat q < 48" using q st sz(6) by linarith
      ultimately have "nat q * 128 + unat c < length (fb_screen g)" using fb_okD(4) [OF g(2)] by simp
      then show "view g (get_at (nat q * FB_MAX_COLS + unat c) (fb_screen g) \<bind> (\<lambda>cell. draw_cell cell r c g))"
        using draw_cell_view [OF g(2) lt] by (simp add: get_at_def)
    qed
    then show ?thesis using False lb sl q by (simp add: draw_view_row_def Let_def flip: l_def q_def)
  qed
qed

lemma render_view:
  assumes ok: "fb_ok f"
  shows "view f (fb_console_render_scrollback f)"
proof -
  have rws: "view g (each draw_view_row (u32_range 0 (text_rows g)) g)" if "fb_ok g" for g
  proof (rule view_each [OF that])
    fix r h assume r: "r \<in> set (u32_range 0 (text_rows g))" and h: "step (\<lambda>t. t) g h" "fb_ok h"
    show "view h (draw_view_row r h)" using view_row_view [OF h(2)] in_cols(2) [OF r] step_fixed [OF h(1)] by simp
  qed
  have mark: "view g (if 0 < fb_sb_offset g
              then let x = s32 (s32 (sint (text_cols g) - 8) * FB_FONT_WIDTH) in
                each (\<lambda>k. fb_draw_char (s32 (x + int k * FB_FONT_WIDTH)) 0 (scroll_mark ! k) FB_TERM_YELLOW FB_TERM_BG) [0 ..< 8] g
              else Some g)" if gok: "fb_ok g" for g
  proof (cases "0 < fb_sb_offset g")
    case True
    note sz = text_sizes [OF fb_okD(2) [OF gok]] and gf = geometry_facts [OF fb_okD(2) [OF gok]]
    have sc: "sint (text_cols g) = int (cols g)" by (rule sint_unat) (use sz(4) in simp)
    let ?x = "int ((cols g - 8) * 8)"
    have x: "s32 (s32 (sint (text_cols g) - 8) * FB_FONT_WIDTH) = ?x"
    proof -
      have d: "sint (text_cols g) - 8 = int (cols g - 8)" unfolding sc using sz(7) by linarith
      have "s32 (int (cols g - 8)) = int (cols g - 8)" by (rule s32_id) (use sz(4) in linarith)+
      moreover have "int (cols g - 8) * 8 = ?x" by linarith
      moreover have "s32 ?x = ?x" by (rule s32_id) (use sz(4) in linarith)+
      ultimately show ?thesis by (simp only: d)
    qed
    have "view g (each (\<lambda>k. fb_draw_char (s32 (?x + int k * FB_FONT_WIDTH)) 0 (scroll_mark ! k) FB_TERM_YELLOW FB_TERM_BG) [0 ..< 8] g)"
    proof (rule view_each [OF gok])
      fix k h assume k: "k \<in> set [0 ..< 8]" and h: "step (\<lambda>t. t) g h" "fb_ok h"
      have k8: "k < 8" using k by simp
      let ?p = "(cols g - 8 + k) * 8"
      have "?x + int k * FB_FONT_WIDTH = int ?p" by simp
      moreover have "?p \<le> 1016" using sz(4,7) k8 by simp
      ultimately have p: "s32 (?x + int k * FB_FONT_WIDTH) = int ?p" by (simp only:) (rule s32_id; simp)
      have gh: "geometry h" by (rule fb_okD(2) [OF h(2)])
      have "cols h = cols g" using step_fixed [OF h(1)] by simp
      moreover have "cols h * 8 \<le> unat (width h)" unfolding text_sizes(1) [OF gh] by simp
      ultimately have "?p < unat (width h)" using sz(7) k8 by simp
      then have "on_screen h (int ?p) 0" using geometry_facts(4,10) [OF gh] unfolding on_screen_def by (intro conjI; linarith)
      moreover have "moderate (int ?p)" by (rule moderate_nat) (use \<open>?p \<le> 1016\<close> in linarith)
      ultimately have "okay (step (\<lambda>t. t) h) (fb_draw_char (int ?p) 0 (scroll_mark ! k) FB_TERM_YELLOW FB_TERM_BG h)"
        by (intro okay_drawn_step [OF char_drawn [OF gh] fb_okD(1) [OF h(2)]]) (simp_all add: moderate_def)
      then show "view h (fb_draw_char (s32 (?x + int k * FB_FONT_WIDTH)) 0 (scroll_mark ! k) FB_TERM_YELLOW FB_TERM_BG h)"
        unfolding p by (rule viewI [OF h(2)])
    qed
    then show ?thesis unfolding Let_def x if_P [OF True] .
  next
    case False
    then show ?thesis using view_same [OF gok] by simp
  qed
  have "view f (fb_clear (bg_color f) f \<bind> (\<lambda>f. each draw_view_row (u32_range 0 (text_rows f)) f \<bind> (\<lambda>f.
       (if 0 < fb_sb_offset f
              then let x = s32 (s32 (sint (text_cols f) - 8) * FB_FONT_WIDTH) in
                each (\<lambda>k. fb_draw_char (s32 (x + int k * FB_FONT_WIDTH)) 0 (scroll_mark ! k) FB_TERM_YELLOW FB_TERM_BG) [0 ..< 8] f
              else Some f) \<bind> fb_swap_buffers)))"
    by (intro view_bind clear_view [OF ok] rws mark swap_view)
  then show ?thesis using fb_okD(3) [OF ok] by (simp add: fb_console_render_scrollback_def)
qed

end
