(* ===== verification/Fb_Main.thy ===== *)
theory Fb_Main
  imports Fb_Props
begin

text \<open>
  The properties of the framebuffer driver: every sequence of console operations after \<open>fb_init\<close> stays in
  bounds, the console is the terminal, a flush shows what was written, the drawing primitives paint the part of their
  figure that is on the screen, and lines end.
\<close>

section \<open>The remaining operations\<close>

text \<open>Between operations; \<open>R\<close> is the number of rows.\<close>

definition console_ok :: "u32 \<Rightarrow> fb \<Rightarrow> bool" where "console_ok R f \<longleftrightarrow> fb_ok f \<and> shown f \<and> text_rows f = R"

lemma acts_console: "console_ok R f \<Longrightarrow> acts T f m \<Longrightarrow> okay (console_ok R) m"
  unfolding acts_def console_ok_def by (erule okay_mono) (simp add: step_def)

lemma view_console: "console_ok R f \<Longrightarrow> view f m \<Longrightarrow> okay (console_ok R) m"
  unfolding view_acts by (rule acts_console)

lemma console_okD: "console_ok R f \<Longrightarrow> fb_ok f"
  by (simp add: console_ok_def)

lemma scroll_up_view:
  assumes ok: "fb_ok f"
  shows "view f (fb_console_scroll_up n f)"
proof (cases "fb_sb_count f = 0")
  case True
  then show ?thesis using view_same [OF ok] by (simp add: fb_console_scroll_up_def)
next
  case False
  let ?v = "if fb_sb_count f < fb_sb_offset f + n then fb_sb_count f else fb_sb_offset f + n"
  have "?v \<le> fb_sb_count f" by auto
  from offset_step [OF ok this] have "view f (fb_console_render_scrollback (f\<lparr>fb_sb_offset := ?v\<rparr>))"
    using view_after [OF _ render_view] by blast
  then show ?thesis using False fb_okD(3) [OF ok] by (simp add: fb_console_scroll_up_def Let_def)
qed

lemma scroll_down_view:
  assumes ok: "fb_ok f"
  shows "view f (fb_console_scroll_down n f)"
proof -
  have c: "fb_sb_offset f \<le> fb_sb_count f" using fb_okD(1) [OF ok] by (simp add: text_ok_def scrollback_ok_def)
  have a: "view f (fb_console_redraw (f\<lparr>fb_sb_offset := 0\<rparr>))"
    using view_after [OF offset_step(1) [OF ok] redraw_view [OF offset_step(2) [OF ok]]] by simp
  have b: "view f (fb_console_render_scrollback (f\<lparr>fb_sb_offset := fb_sb_offset f - n\<rparr>))" if "\<not> fb_sb_offset f \<le> n"
  proof -
    have "fb_sb_offset f - n \<le> fb_sb_count f" using that c by (simp add: word_le_nat_alt unat_sub)
    from offset_step [OF ok this] show ?thesis using view_after [OF _ render_view] by blast
  qed
  show ?thesis using a b view_same [OF ok] fb_okD(3) [OF ok] by (simp add: fb_console_scroll_down_def)
qed

lemma hl_cell_view:
  assumes ok: "fb_ok f" and c: "c < text_cols f" "r < text_rows f"
  shows "view f (hl_draw_cell r iv c f)"
proof -
  have "view f (fb_draw_char (sint (c * 8)) (sint (r * 16)) x fg bg f)" for x fg bg
    by (rule viewI [OF ok], rule okay_mono [OF char_here [OF fb_okD(1) [OF ok] c]]) blast
  then show ?thesis using cell_in_screen [OF ok c] by (simp add: hl_draw_cell_def get_at_def Let_def)
qed

lemma unat_upto: "c \<in> set (u32_upto a b) \<Longrightarrow> unat a \<le> unat c \<and> unat c \<le> unat b"
  using unat_lt_u32 [of b] by (auto simp: u32_upto_def unat_of_nat32)

lemma hl_row_view:
  assumes ok: "fb_ok f" and xs: "\<And>c. c \<in> set xs \<Longrightarrow> c < text_cols f" and r: "r < text_rows f"
  shows "view f (each (hl_draw_cell r iv) xs f)"
proof (rule view_each [OF ok])
  fix c g assume c: "c \<in> set xs" and g: "step (\<lambda>t. t) f g" "fb_ok g"
  show "view g (hl_draw_cell r iv c g)" using hl_cell_view [OF g(2)] xs [OF c] r step_fixed [OF g(1)] by simp
qed

lemma hl_range_view:
  assumes ok: "fb_ok f" and r: "r0 < text_rows f" "r1 < text_rows f" and c: "c0 < text_cols f" "c1 < text_cols f"
  shows "view f (hl_range iv r0 c0 r1 c1 f)"
proof -
  note sz = text_sizes [OF fb_okD(2) [OF ok]]
  have up: "x < text_cols f" if "x \<in> set (u32_upto a c1)" for x a
    using unat_upto [OF that] c(2) by (simp add: word_less_nat_alt)
  have cp: "0 \<le> sint (c0 * 8)" "sint (c0 * 8) < sint (width g)" "0 \<le> sint (r0 * 16)" "sint (r0 * 16) < sint (height g)"
    "0 \<le> (0 :: int)" "0 < sint (width g)"
    if "fb_ok g" "text_cols g = text_cols f" "text_rows g = text_rows f" for g
    using cell_place(3) [OF fb_okD(2) [OF that(1)], of c0 r0] c r that geometry_facts(2) [OF fb_okD(2) [OF that(1)]]
    by (auto simp: on_screen_def)
  show ?thesis
  proof (cases "r0 = r1")
    case True
    have "view f (each (hl_draw_cell r0 iv) (u32_upto c0 c1) f \<bind>
        (\<lambda>f. Some (fb_dirty_mark (sint (c0 * 8)) (sint (r0 * 16)) (sint ((c1 - c0 + 1) * 8)) FB_FONT_HEIGHT f)))"
    proof (rule view_bind)
      show "view f (each (hl_draw_cell r0 iv) (u32_upto c0 c1) f)" by (rule hl_row_view [OF ok up r(1)])
      fix g assume g: "step (\<lambda>t. t) f g" "fb_ok g"
      show "view g (Some (fb_dirty_mark (sint (c0 * 8)) (sint (r0 * 16)) (sint ((c1 - c0 + 1) * 8)) FB_FONT_HEIGHT g))"
        using cp(1-4) [OF g(2)] step_fixed [OF g(1)] by (intro mark_step [OF g(2)]) simp_all
    qed
    then show ?thesis using True by (simp add: hl_range_def map_conv_bind_option comp_def)
  next
    case False
    have mid: "view g (each (\<lambda>r. each (hl_draw_cell r iv) (u32_range 0 (text_cols g))) (u32_range (r0 + 1) r1) g)"
      if g: "step (\<lambda>t. t) f g" "fb_ok g" for g
    proof (rule view_each [OF g(2)])
      fix q h assume q: "q \<in> set (u32_range (r0 + 1) r1)" and h: "step (\<lambda>t. t) g h" "fb_ok h"
      have "q < text_rows h" using unat_range [OF q] r(2) step_fixed [OF g(1)] step_fixed [OF h(1)] by (simp add: word_less_nat_alt)
      moreover have "x < text_cols h" if "x \<in> set (u32_range 0 (text_cols g))" for x
        using in_cols(1) [OF that] step_fixed [OF h(1)] by simp
      ultimately show "view h (each (hl_draw_cell q iv) (u32_range 0 (text_cols g)) h)" by (intro hl_row_view [OF h(2)])
    qed
    have "view f (each (hl_draw_cell r0 iv) (u32_range c0 (text_cols f)) f \<bind> (\<lambda>f.
        each (\<lambda>r. each (hl_draw_cell r iv) (u32_range 0 (text_cols f))) (u32_range (r0 + 1) r1) f \<bind> (\<lambda>f.
        each (hl_draw_cell r1 iv) (u32_upto 0 c1) f \<bind> (\<lambda>f.
        Some (fb_dirty_mark 0 (sint (r0 * 16)) (sint (text_cols f * 8)) (sint ((r1 - r0 + 1) * 16)) f)))))"
    proof (rule view_bind)
      show "view f (each (hl_draw_cell r0 iv) (u32_range c0 (text_cols f)) f)"
        by (rule hl_row_view [OF ok in_cols(1) r(1)])
      fix g assume g: "step (\<lambda>t. t) f g" "fb_ok g"
      show "view g (each (\<lambda>r. each (hl_draw_cell r iv) (u32_range 0 (text_cols g))) (u32_range (r0 + 1) r1) g \<bind> (\<lambda>f.
        each (hl_draw_cell r1 iv) (u32_upto 0 c1) f \<bind> (\<lambda>f.
        Some (fb_dirty_mark 0 (sint (r0 * 16)) (sint (text_cols f * 8)) (sint ((r1 - r0 + 1) * 16)) f))))"
      proof (rule view_bind [OF mid [OF g]])
        fix h assume h: "step (\<lambda>t. t) g h" "fb_ok h"
        have fh: "text_cols h = text_cols f" "text_rows h = text_rows f" using step_fixed [OF g(1)] step_fixed [OF h(1)] by simp_all
        show "view h (each (hl_draw_cell r1 iv) (u32_upto 0 c1) h \<bind> (\<lambda>f.
          Some (fb_dirty_mark 0 (sint (r0 * 16)) (sint (text_cols f * 8)) (sint ((r1 - r0 + 1) * 16)) f)))"
        proof (rule view_bind)
          show "view h (each (hl_draw_cell r1 iv) (u32_upto 0 c1) h)"
            by (rule hl_row_view [OF h(2)]) (use up r fh in simp_all)
          fix k assume k: "step (\<lambda>t. t) h k" "fb_ok k"
          show "view k (Some (fb_dirty_mark 0 (sint (r0 * 16)) (sint (text_cols k * 8)) (sint ((r1 - r0 + 1) * 16)) k))"
            using cp(3-6) [OF k(2)] fh step_fixed [OF k(1)] by (intro mark_step [OF k(2)]) simp_all
        qed
      qed
    qed
    then show ?thesis using False by (simp add: hl_range_def)
  qed
qed

lemma hl_fields_view:
  assumes ok: "fb_ok f" and b: "a \<longrightarrow> r0 < text_rows f \<and> r1 < text_rows f \<and> c0 < text_cols f \<and> c1 < text_cols f"
  shows "view f (Some (f\<lparr>hl_r0 := r0, hl_c0 := c0, hl_r1 := r1, hl_c1 := c1, hl_active := a\<rparr>))"
proof -
  let ?g = "f\<lparr>hl_r0 := r0, hl_c0 := c0, hl_r1 := r1, hl_c1 := c1, hl_active := a\<rparr>"
  have "highlight_ok ?g" using b by (simp add: highlight_ok_def)
  then have "step (\<lambda>t. t) f ?g" using fb_okD(1) [OF ok] by (simp add: step_def text_ok_def terminal_of_def)
  then show ?thesis by (intro viewI [OF ok]) simp
qed

lemma clear_highlight_view:
  assumes ok: "fb_ok f"
  shows "view f (fb_console_clear_highlight f)"
proof (cases "hl_active f")
  case True
  then have h: "hl_r0 f < text_rows f" "hl_r1 f < text_rows f" "hl_c0 f < text_cols f" "hl_c1 f < text_cols f"
    using fb_okD(1) [OF ok] by (auto simp: text_ok_def highlight_ok_def)
  have "view f (hl_range False (hl_r0 f) (hl_c0 f) (hl_r1 f) (hl_c1 f) f \<bind> (\<lambda>f. Some (f\<lparr>fb_dirty := True, hl_active := False\<rparr>)))"
  proof (rule view_bind [OF hl_range_view [OF ok h]])
    fix g assume g: "fb_ok g"
    have "view g (Some (g\<lparr>fb_dirty := True\<rparr>) \<bind> (\<lambda>g. Some (g\<lparr>hl_r0 := hl_r0 g, hl_c0 := hl_c0 g, hl_r1 := hl_r1 g, hl_c1 := hl_c1 g, hl_active := False\<rparr>)))"
      by (rule view_bind [OF dirty_view [OF g]]) (rule hl_fields_view, assumption, simp)
    then show "view g (Some (g\<lparr>fb_dirty := True, hl_active := False\<rparr>))" by simp
  qed
  then show ?thesis using True fb_okD(3) [OF ok] by (simp add: fb_console_clear_highlight_def map_conv_bind_option comp_def)
next
  case False
  then show ?thesis using view_same [OF ok] by (simp add: fb_console_clear_highlight_def)
qed

lemma highlight_view:
  assumes ok: "fb_ok f" and r: "r0 < text_rows f \<or> r1 < text_rows f"
  shows "view f (fb_console_highlight r0 c0 r1 c1 f)"
proof -
  note sz = text_sizes [OF fb_okD(2) [OF ok]]
  define a where "a = (if r1 < r0 \<or> (r0 = r1 \<and> c1 < c0) then r1 else r0)"
  define b where "b = (if r1 < r0 \<or> (r0 = r1 \<and> c1 < c0) then r0 else r1)"
  define p where "p = (if r1 < r0 \<or> (r0 = r1 \<and> c1 < c0) then c1 else c0)"
  define q where "q = (if r1 < r0 \<or> (r0 = r1 \<and> c1 < c0) then c0 else c1)"
  define b' where "b' = (if text_rows f \<le> b then text_rows f - 1 else b)"
  define p' where "p' = (if text_cols f \<le> p then text_cols f - 1 else p)"
  define q' where "q' = (if text_cols f \<le> q then text_cols f - 1 else q)"
  have u: "unat (text_rows f - 1) < rows f" "unat (text_cols f - 1) < cols f"
    using sz(3,5) unat_sub [of 1 "text_rows f"] unat_sub [of 1 "text_cols f"] by (simp_all add: word_le_nat_alt)
  have lt: "a < text_rows f" "b' < text_rows f" "p' < text_cols f" "q' < text_cols f"
    using r u by (auto simp: a_def b'_def p'_def q'_def word_less_nat_alt word_le_nat_alt split: if_splits)
  have e: "fb_console_highlight r0 c0 r1 c1 f =
     (if hl_active f then fb_console_clear_highlight f else Some f) \<bind> (\<lambda>f.
       hl_range True a p' b' q' (f\<lparr>hl_r0 := a, hl_c0 := p', hl_r1 := b', hl_c1 := q', hl_active := True\<rparr>) \<bind> (\<lambda>f. Some (f\<lparr>fb_dirty := True\<rparr>)))"
    using fb_okD(3) [OF ok]
    by (simp add: fb_console_highlight_def Let_def a_def b'_def b_def p'_def p_def q'_def q_def)
  show ?thesis
    unfolding e
  proof (rule view_bind)
    show "view f (if hl_active f then fb_console_clear_highlight f else Some f)"
      using clear_highlight_view [OF ok] view_same [OF ok] by simp
    fix g assume g: "step (\<lambda>t. t) f g" "fb_ok g"
    let ?g = "g\<lparr>hl_r0 := a, hl_c0 := p', hl_r1 := b', hl_c1 := q', hl_active := True\<rparr>"
    have ltg: "a < text_rows g" "b' < text_rows g" "p' < text_cols g" "q' < text_cols g" using lt step_fixed [OF g(1)] by simp_all
    have v: "step (\<lambda>t. t) g ?g" "fb_ok ?g" using hl_fields_view [OF g(2), of True a b' p' q'] ltg by (simp_all add: view_def)
    have "view ?g (hl_range True a p' b' q' ?g \<bind> (\<lambda>f. Some (f\<lparr>fb_dirty := True\<rparr>)))"
      by (rule view_bind [OF hl_range_view [OF v(2)]]) (use ltg dirty_view in simp_all)
    then show "view g (hl_range True a p' b' q' ?g \<bind> (\<lambda>f. Some (f\<lparr>fb_dirty := True\<rparr>)))" by (rule view_after [OF v(1)])
  qed
qed

lemma set_cursor_okay:
  assumes ok: "console_ok R f"
  shows "okay (console_ok R) (fb_console_set_cursor_pos x y f)"
proof -
  have fok: "fb_ok f" by (rule console_okD [OF ok])
  note sz = text_sizes [OF fb_okD(2) [OF fok]]
  define x' where "x' = (if text_cols f \<le> x then text_cols f - 1 else x)"
  define y' where "y' = (if text_rows f \<le> y then text_rows f - 1 else y)"
  have u: "unat (text_rows f - 1) < rows f" "unat (text_cols f - 1) < cols f"
    using sz(3,5) unat_sub [of 1 "text_rows f"] unat_sub [of 1 "text_cols f"] by (simp_all add: word_le_nat_alt)
  have lt: "x' < text_cols f" "y' < text_rows f" using u by (auto simp: x'_def y'_def word_less_nat_alt word_le_nat_alt)
  have "okay (console_ok R) (fb_console_draw_cursor (bg_color f) f \<bind> (\<lambda>f.
      fb_console_draw_cursor FB_TERM_CURSOR (f\<lparr>cursor_x := x', cursor_y := y'\<rparr>) \<bind> (\<lambda>f. Some (f\<lparr>fb_dirty := True\<rparr>))))"
  proof (rule okay_bind [OF draw_cursor_view [OF fok, unfolded view_def]])
    fix g assume g: "step (\<lambda>t. t) f g \<and> fb_ok g"
    let ?g = "g\<lparr>cursor_x := x', cursor_y := y'\<rparr>"
    have st: "step (\<lambda>t. t\<lparr>t_x := unat x', t_y := unat y'\<rparr>) g ?g" by (rule step_cursor) (use g fb_okD in blast)
    have cg: "console_ok R ?g"
      using st g ok lt step_ok [OF st] by (simp add: console_ok_def fb_ok_def step_def)
    have "okay (console_ok R) (fb_console_draw_cursor FB_TERM_CURSOR ?g)"
      by (rule view_console [OF cg draw_cursor_view [OF console_okD [OF cg]]])
    then show "okay (console_ok R) (fb_console_draw_cursor FB_TERM_CURSOR ?g \<bind> (\<lambda>f. Some (f\<lparr>fb_dirty := True\<rparr>)))"
      by (rule okay_bind) (auto simp: console_ok_def fb_ok_def text_ok_def)
  qed
  then show ?thesis using fb_okD(3) [OF fok] by (simp add: fb_console_set_cursor_pos_def Let_def x'_def y'_def)
qed

lemma color_ok: "console_ok R f \<Longrightarrow> console_ok R (f\<lparr>fg_color := c\<rparr>)" "console_ok R f \<Longrightarrow> console_ok R (f\<lparr>bg_color := c\<rparr>)"
  by (auto simp: console_ok_def fb_ok_def text_ok_def)

lemma puts_okay: "console_ok R f \<Longrightarrow> okay (console_ok R) (fb_console_puts str f)"
  by (rule acts_console [OF _ puts_acts]) (simp_all add: console_okD)

lemma putchar_okay: "console_ok R f \<Longrightarrow> okay (console_ok R) (fb_console_putchar c f)"
  by (rule acts_console [OF _ putchar_acts]) (simp_all add: console_okD)

lemma swap_okay: "console_ok R f \<Longrightarrow> okay (console_ok R) (fb_swap_buffers f)"
  by (rule view_console [OF _ swap_view]) (simp_all add: console_okD)

lemma each_putchar_okay: "console_ok R f \<Longrightarrow> okay (console_ok R) (each (\<lambda>i. fb_console_putchar (d i)) xs f)"
  by (rule each_keeps) (simp_all add: putchar_okay)

lemma init_console_okay:
  assumes ok: "console_ok R f"
  shows "okay (console_ok R) (fb_console_init f)"
proof -
  have fok: "fb_ok f" by (rule console_okD [OF ok])
  note sz = text_sizes [OF fb_okD(2) [OF fok]]
  let ?g = "f\<lparr>cursor_x := 0, cursor_y := 0, fg_color := FB_TERM_FG, bg_color := FB_TERM_BG, cursor_visible := True\<rparr>"
  have g: "console_ok R ?g" using ok sz(3,5) by (auto simp: console_ok_def fb_ok_def text_ok_def word_less_nat_alt)
  have "okay (console_ok R) (fb_clear FB_TERM_BG ?g \<bind> fb_swap_buffers)"
    by (rule okay_bind [OF view_console [OF g clear_view [OF console_okD [OF g]]] swap_okay])
  then show ?thesis using fb_okD(3) [OF fok] by (simp add: fb_console_init_def)
qed

section \<open>All sequences of operations\<close>

datatype fb_op =
  Putchar u8 | Puts "u8 list" | Put_dec u32 | Put_hex u32 | Puts_ok | Puts_fail | Set_color u32 u32 | Clear | Console_init
  | Scroll_up u32 | Scroll_down u32 | Scroll_reset | Set_cursor_pos u32 u32 | Highlight u32 u32 u32 u32 | Clear_highlight
  | Begin_batch | End_batch | Flush

fun run_op :: "fb_op \<Rightarrow> fb \<Rightarrow> fb option" where
  "run_op (Putchar c) f = fb_console_putchar c f"
| "run_op (Puts str) f = fb_console_puts str f"
| "run_op (Put_dec n) f = fb_console_put_dec n f"
| "run_op (Put_hex n) f = fb_console_put_hex n f"
| "run_op Puts_ok f = fb_console_puts_ok f"
| "run_op Puts_fail f = fb_console_puts_fail f"
| "run_op (Set_color fg bg) f = Some (fb_console_set_color fg bg f)"
| "run_op Clear f = fb_console_clear f"
| "run_op Console_init f = fb_console_init f"
| "run_op (Scroll_up n) f = fb_console_scroll_up n f"
| "run_op (Scroll_down n) f = fb_console_scroll_down n f"
| "run_op Scroll_reset f = fb_console_scroll_reset f"
| "run_op (Set_cursor_pos x y) f = fb_console_set_cursor_pos x y f"
| "run_op (Highlight r0 c0 r1 c1) f = fb_console_highlight r0 c0 r1 c1 f"
| "run_op Clear_highlight f = fb_console_clear_highlight f"
| "run_op Begin_batch f = Some (fb_console_begin_batch f)"
| "run_op End_batch f = fb_console_end_batch f"
| "run_op Flush f = fb_flush f"

text \<open>A highlight must begin on the screen: the code does not check its first row.\<close>

definition sensible :: "u32 \<Rightarrow> fb_op \<Rightarrow> bool" where
  "sensible h oper = (case oper of Highlight r0 c0 r1 c1 \<Rightarrow> r0 < h div 16 \<or> r1 < h div 16 | _ \<Rightarrow> True)"

lemma run_op_okay:
  assumes ok: "console_ok R f" and s: "sensible h oper" and h: "R = h div 16"
  shows "okay (console_ok R) (run_op oper f)"
proof -
  have fok: "fb_ok f" by (rule console_okD [OF ok])
  show ?thesis
  proof (cases oper)
    case (Put_dec n)
    then show ?thesis using putchar_okay [OF ok] each_putchar_okay [OF ok, where d = "\<lambda>i. i"] by (simp add: fb_console_put_dec_def)
  next
    case (Put_hex n)
    then show ?thesis using okay_bind [OF puts_okay [OF ok] each_putchar_okay [where d = "fb_hex_digit n"]] by (simp add: fb_console_put_hex_def)
  next
    case Puts_ok
    have "okay (\<lambda>g. console_ok R (g\<lparr>fg_color := fg_color f\<rparr>)) (fb_console_puts [79, 75] (f\<lparr>fg_color := FB_TERM_GREEN\<rparr>))"
      by (rule okay_mono [OF puts_okay [OF color_ok(1) [OF ok]]]) (rule color_ok)
    then show ?thesis using Puts_ok by (auto simp: fb_console_puts_ok_def okay_iff)
  next
    case Puts_fail
    have "okay (\<lambda>g. console_ok R (g\<lparr>fg_color := fg_color f\<rparr>)) (fb_console_puts [70, 65, 73, 76, 69, 68] (f\<lparr>fg_color := FB_TERM_RED\<rparr>))"
      by (rule okay_mono [OF puts_okay [OF color_ok(1) [OF ok]]]) (rule color_ok)
    then show ?thesis using Puts_fail by (auto simp: fb_console_puts_fail_def okay_iff)
  next
    case (Highlight r0 c0 r1 c1)
    then have "r0 < text_rows f \<or> r1 < text_rows f" using s h ok by (auto simp: sensible_def console_ok_def)
    from view_console [OF ok highlight_view [OF fok this]] show ?thesis using Highlight by simp
  next
    case End_batch
    define k where "k = (if fb_swap_deferred f > 0 then f\<lparr>fb_swap_deferred := fb_swap_deferred f - 1\<rparr> else f)"
    have k: "console_ok R k" using ok by (auto simp: k_def console_ok_def fb_ok_def text_ok_def)
    have "fb_console_end_batch f = (if fb_swap_deferred k = 0 \<and> fb_available k then fb_swap_buffers k else Some k)"
      by (simp only: fb_console_end_batch_def Let_def k_def)
    then show ?thesis using End_batch k swap_okay [OF k] by simp
  next
    case Flush
    have "okay (console_ok R) (fb_flush f)"
      by (rule okay_mono [OF flush_view [OF fok]]) (use ok in \<open>auto simp: console_ok_def step_def\<close>)
    then show ?thesis using Flush by simp
  qed (use puts_okay [OF ok] putchar_okay [OF ok] acts_console [OF ok clear_acts [OF fok]] init_console_okay [OF ok]
      view_console [OF ok scroll_up_view [OF fok]] view_console [OF ok scroll_down_view [OF fok]] view_console [OF ok leave_view [OF fok]]
      set_cursor_okay [OF ok] view_console [OF ok clear_highlight_view [OF fok]] color_ok ok
    in \<open>auto simp: fb_console_set_color_def fb_console_scroll_reset_def fb_console_begin_batch_def console_ok_def fb_ok_def text_ok_def\<close>)
qed

text \<open>The statics before \<open>fb_init\<close>: zero, with hooks that keep the size of the video memory.\<close>

definition fb_unused :: "fb \<Rightarrow> bool" where
  "fb_unused f \<longleftrightarrow> fb_sb_write f = 0 \<and> fb_sb_count f = 0 \<and> fb_sb_offset f = 0 \<and> \<not> hl_active f \<and>
     length (fb_screen f) = FB_MAX_ROWS * FB_MAX_COLS \<and>
     (\<forall>v. length (run_hook (vram_pre_hook f) v) = length v) \<and> (\<forall>v. length (run_hook (vram_post_hook f) v) = length v)"

definition fits :: "u32 \<Rightarrow> u32 \<Rightarrow> u32 \<Rightarrow> nat \<Rightarrow> bool" where
  "fits w h p n \<longleftrightarrow> 64 \<le> unat w \<and> unat w \<le> 1024 \<and> 16 \<le> unat h \<and> unat h \<le> 768 \<and> 4 * unat w \<le> unat p \<and>
     unat p * unat h < 2 ^ 32 \<and> n = unat p * unat h div 4"

lemma fb_init_okay:
  assumes f: "fb_unused f" and w: "fits w h p (length v)" and b: "buffer = None \<or> buffer = Some b \<and> length b = length v"
  shows "okay (\<lambda>(r, pages, g). r = 0 \<and> pages = fb_pages phys (p * h) \<and> console_ok (h div 16) g) (fb_init phys w h p 32 buffer sb_ok v f)"
proof -
  define f1 where "f1 = fb_dirty_reset (f\<lparr>phys_addr := phys, width := w, height := h, pitch := p, bpp := 32, fb_size := p * h,
                     vram := v, direct := (buffer = None),
                     back_buffer := (case buffer of None \<Rightarrow> v | Some b \<Rightarrow> b),
                     text_cols := w div 8, text_rows := h div 16, cursor_x := 0, cursor_y := 0,
                     fg_color := FB_TERM_FG, bg_color := FB_TERM_BG, cursor_visible := True, fb_available := True,
                     fb_scrollback := (if sb_ok then Some (replicate (FB_SCROLLBACK_LINES * FB_MAX_COLS) \<lparr>ch = 0, cfg = 0, cbg = 0\<rparr>) else None)\<rparr>)"
  have sz: "unat (p * h) = unat p * unat h" using w by (simp add: fits_def unat_word_ariths)
  have lb: "length (case buffer of None \<Rightarrow> v | Some b \<Rightarrow> b) = length v" using b by auto
  have hk: "vram_pre_hook f1 = vram_pre_hook f" "vram_post_hook f1 = vram_post_hook f" by (simp_all add: f1_def fb_dirty_reset_def)
  have g: "geometry f1"
    using f w sz lb unfolding geometry_def hk by (simp add: f1_def fb_dirty_reset_def fits_def fb_unused_def)
  have sbk: "scrollback_ok f1" "highlight_ok f1"
    using f by (simp_all add: f1_def fb_dirty_reset_def scrollback_ok_def highlight_ok_def fb_unused_def)
  have "length (fb_screen f1) = FB_MAX_ROWS * FB_MAX_COLS" using f by (simp add: f1_def fb_dirty_reset_def fb_unused_def)
  then have t: "text_ok f1" using g sbk by (simp add: text_ok_def)
  note ts = text_sizes [OF g]
  have ok: "fb_ok f1"
    using t ts(3,5) by (simp add: fb_ok_def word_less_nat_alt) (simp add: f1_def fb_dirty_reset_def)
  have "\<exists>g. fb_clear c f1 = Some g \<and> fb_ok g \<and> sane g \<and> dirty_full g \<and> text_rows g = h div 16" for c
  proof -
    obtain k where k: "fb_clear c f1 = Some k" "fb_ok k" using clear_view [OF ok, of c] by (auto simp: view_def okay_iff)
    then have "sane k \<and> dirty_full k \<and> text_rows k = h div 16"
      using geometry_facts(1) [OF g] by (auto simp: fb_clear_def Let_def fb_dirty_mark_full_def sane_def f1_def fb_dirty_reset_def split: if_splits)
    with k show ?thesis by blast
  qed
  then obtain g where g1: "fb_clear FB_TERM_BG f1 = Some g" "fb_ok g" "sane g" "dirty_full g" "text_rows g = h div 16" by blast
  then have "console_ok (h div 16) g" by (simp add: console_ok_def shown_def)
  have "view g (fb_swap_buffers g)" by (rule swap_view [OF g1(2)])
  then obtain k where k: "fb_swap_buffers g = Some k" "step (\<lambda>t. t) g k" "fb_ok k" by (auto simp: view_def okay_iff)
  have "console_ok (h div 16) k"
    using k(2,3) \<open>console_ok (h div 16) g\<close> g1(5) by (auto simp: console_ok_def step_def)
  moreover have "bg_color f1 = FB_TERM_BG" by (simp add: f1_def fb_dirty_reset_def)
  then have "fb_init phys w h p 32 buffer sb_ok v f = Some (0, fb_pages phys (p * h), k)"
    using g1(1) k(1) unfolding fb_init_def Let_def f1_def [symmetric] by (simp add: f1_def [symmetric])
  ultimately show ?thesis by simp
qed

section \<open>Properties\<close>

text \<open>
  C32. From \<open>fb_init\<close> with a mode of 64 to 1024 by 16 to 768 pixels, no sequence of console operations whose
  highlights begin on the screen (one that begins below it reads out of bounds, \<open>fb_highlight_below\<close>) reads or writes outside the buffers, and all loops end.
\<close>

theorem fb_console_in_bounds:
  assumes "fb_unused f" and "fits w h p (length v)" and "buffer = None \<or> buffer = Some b \<and> length b = length v"
    and "\<forall>x \<in> set ops. sensible h x"
  shows "\<exists>g. fb_init phys w h p 32 buffer sb_ok v f = Some (0, fb_pages phys (p * h), g) \<and> okay (console_ok (h div 16)) (each run_op ops g)"
proof -
  obtain g where g: "fb_init phys w h p 32 buffer sb_ok v f = Some (0, fb_pages phys (p * h), g)" "console_ok (h div 16) g"
    using fb_init_okay [OF assms(1-3), of phys sb_ok] by (auto simp: okay_iff)
  have "okay (console_ok (h div 16)) (each run_op ops g)"
    by (rule each_keeps) (use assms(4) g(2) run_op_okay in auto)
  with g(1) show ?thesis by blast
qed

definition demo_statics :: fb where
  "demo_statics = \<lparr>phys_addr = 0, width = 0, height = 0, pitch = 0, bpp = 0, fb_size = 0, direct = False, vram = [], back_buffer = [],
     text_cols = 0, text_rows = 0, cursor_x = 0, cursor_y = 0, fg_color = 0, bg_color = 0, cursor_visible = False, fb_available = False,
     fb_swap_deferred = 0, fb_dirty = False, vram_pre_hook = None, vram_post_hook = None, fb_scrollback = None, fb_sb_write = 0,
     fb_sb_count = 0, fb_sb_offset = 0, fb_screen = replicate (FB_MAX_ROWS * FB_MAX_COLS) \<lparr>ch = 0, cfg = 0, cbg = 0\<rparr>,
     dirty_x0 = 0, dirty_y0 = 0, dirty_x1 = 0, dirty_y1 = 0, dirty_full = False, hl_r0 = 0, hl_c0 = 0, hl_r1 = 0, hl_c1 = 0, hl_active = False\<rparr>"

lemma demo_unused: "fb_unused demo_statics"
  by (simp add: fb_unused_def demo_statics_def)

lemma demo_fits: "fits 1024 768 4096 (length (replicate 786432 (0 :: u32)))"
  by (simp add: fits_def)

theorem fb_console_in_bounds_witness:
  "\<exists>g. fb_init 0xFD000000 1024 768 4096 32 (Some (replicate 786432 0)) True (replicate 786432 0) demo_statics = Some (0, fb_pages 0xFD000000 0x300000, g)
     \<and> okay (console_ok 48) (each run_op [Puts [72, 105, 10], Scroll_up 5, Highlight 0 0 100 0, Flush] g)"
proof -
  have "\<forall>x \<in> set [Puts [72, 105, 10], Scroll_up 5, Highlight 0 0 100 0, Flush]. sensible 768 x" by (simp add: sensible_def)
  from fb_console_in_bounds [OF demo_unused demo_fits _ this,
      where buffer = "Some (replicate 786432 0)" and b = "replicate 786432 0" and phys = "0xFD000000" and sb_ok = True]
  show ?thesis by simp
qed

text \<open>
  C33. The console is a terminal: a text goes to the cells at the cursor, new lines and tabs move it, at the bottom the lines move up
  and the top one joins the last thousand lines of the history; clearing blanks the screen.
\<close>

theorem fb_console_refines:
  assumes "fb_ok f"
  shows "(\<exists>g. fb_console_puts str f = Some g \<and> fb_ok g \<and> terminal_of g = t_puts str (terminal_of f)) \<and>
    (\<exists>g. fb_console_putchar c f = Some g \<and> fb_ok g \<and> terminal_of g = t_put c (terminal_of f)) \<and>
    (\<exists>g. fb_console_clear f = Some g \<and> fb_ok g \<and> terminal_of g = t_clear (terminal_of f))"
  using puts_acts [OF assms, of str] putchar_acts [OF assms, of c] clear_acts [OF assms]
  by (auto simp: acts_def okay_iff step_def)

definition demo_fb :: fb where
  "demo_fb = demo_statics\<lparr>width := 64, height := 32, pitch := 256, bpp := 32, fb_size := 8192, back_buffer := replicate 2048 0, vram := replicate 2048 0,
     text_cols := 8, text_rows := 2, cursor_visible := True, fb_available := True\<rparr>"

lemma demo_fb_ok: "fb_ok demo_fb" "shown demo_fb"
  by (simp_all add: fb_ok_def text_ok_def geometry_def scrollback_ok_def highlight_ok_def shown_def sane_def demo_fb_def demo_statics_def)

theorem fb_console_refines_witness:
  "\<exists>g. fb_console_puts [65, 10, 66] demo_fb = Some g \<and> fb_ok g \<and> terminal_of g = t_puts [65, 10, 66] (terminal_of demo_fb)"
  by (rule conjunct1 [OF fb_console_refines [OF demo_fb_ok(1)]])

text \<open>
  C34. After a character has been written and \<open>fb_flush\<close> has run, the video memory equals the back buffer: the dirty rectangle
  covers every pixel that \<open>fb_console_putchar\<close> changes.
\<close>

theorem fb_putchar_flush:
  assumes "fb_ok f" and "shown f" and "\<not> direct f" and "vram_pre_hook f = None" and "vram_post_hook f = None"
  shows "\<exists>g k. fb_console_putchar c f = Some g \<and> fb_flush g = Some k \<and> vram k = back_buffer k \<and> back_buffer k = back_buffer g \<and>
     terminal_of k = t_put c (terminal_of f)"
proof -
  obtain g where g: "fb_console_putchar c f = Some g" "step (t_put c) f g" "fb_ok g"
    using putchar_acts [OF assms(1), of c] by (auto simp: acts_def okay_iff)
  have d: "fb_dirty g" using g(1) fb_okD(3) [OF assms(1)] by (auto simp: fb_console_putchar_def bind_eq_Some_conv)
  have s: "shown g" using g(2) assms(2) by (simp add: step_def)
  have "\<not> direct g \<and> vram_pre_hook g = None \<and> vram_post_hook g = None" using g(2) assms(3-5) by (simp add: step_def)
  with flush_view [OF g(3) s] d obtain k where "fb_flush g = Some k" "step (\<lambda>t. t) g k" "vram k = back_buffer k" "back_buffer k = back_buffer g"
    by (auto simp: okay_iff)
  then show ?thesis using g by (auto simp: step_def)
qed

theorem fb_putchar_flush_witness:
  "\<exists>g k. fb_console_putchar 65 demo_fb = Some g \<and> fb_flush g = Some k \<and> vram k = back_buffer k \<and> back_buffer k = back_buffer g \<and>
     terminal_of k = t_put 65 (terminal_of demo_fb)"
  by (rule fb_putchar_flush [OF demo_fb_ok]) (simp_all add: demo_fb_def demo_statics_def)

text \<open>
  \<open>fb_draw_line\<close> ends for all points within 2 ^ 28 of the origin and paints exactly the on-screen pixels of the line rounded
  along its longer side, both ends included.
\<close>

theorem fb_draw_line_ends:
  assumes "geometry f" and "moderate x0" "moderate y0" "moderate x1" "moderate y1"
  shows "(\<exists>g. fb_draw_line x0 y0 x1 y1 c f = Some g \<and> painted (line_points x0 y0 x1 y1) (\<lambda>_ _. c) f g) \<and>
    line_points x0 y0 x1 y1 x0 y0 \<and> line_points x0 y0 x1 y1 x1 y1"
  using line_painted [OF assms, of c] line_ends by (auto simp: okay_iff)

theorem fb_draw_line_ends_witness:
  "\<exists>g. fb_draw_line (-5) 3 70 20 0xFFFFFF demo_fb = Some g \<and> painted (line_points (-5) 3 70 20) (\<lambda>_ _. 0xFFFFFF) demo_fb g"
  by (rule conjunct1 [OF fb_draw_line_ends]) (simp_all add: fb_okD(2) [OF demo_fb_ok(1)] moderate_def)

text \<open>
  C35. The primitives paint exactly the part of their figure that is on the screen and nothing else: spans, filled boxes and the glyph
  of a character.
\<close>

theorem fb_primitives_paint:
  assumes "geometry f" and "moderate x" "moderate y" "moderate w" "moderate h"
  shows "(\<exists>g. fb_fill_rect x y w h c f = Some g \<and> painted (box x y w h) (\<lambda>_ _. c) f g) \<and>
    (\<exists>g. fb_draw_hline x y w c f = Some g \<and> painted (hspan x y w) (\<lambda>_ _. c) f g) \<and>
    (\<exists>g. fb_draw_vline x y h c f = Some g \<and> painted (vspan x y h) (\<lambda>_ _. c) f g) \<and>
    (\<exists>g. fb_draw_char x y d fg bg f = Some g \<and> painted (box x y 8 16) (glyph_at d x y fg bg) f g)"
  using hline_painted [OF assms(1,2,4), of y c] vline_painted [OF assms(1,3,5), of x c] fill_rect_painted [OF assms, of c]
    char_painted [OF assms(1-3), of d fg bg] by (auto simp: okay_iff)

theorem fb_primitives_paint_witness:
  "\<exists>g. fb_fill_rect (-10) 20 100 100 7 demo_fb = Some g \<and> painted (box (-10) 20 100 100) (\<lambda>_ _. 7) demo_fb g"
  by (rule conjunct1 [OF fb_primitives_paint [of _ _ _ _ 100]]) (simp_all add: fb_okD(2) [OF demo_fb_ok(1)] moderate_def)

section \<open>What falls short\<close>

text \<open>A highlight whose first row is below the screen is drawn from memory behind the array of cells.\<close>

lemma fb_highlight_below: "fb_console_highlight 50 0 60 0 demo_fb = None"
proof -
  have "u32_range 0 8 = map of_nat [0, 1, 2, 3, 4, 5, 6, 7]" by (simp add: u32_range_def upt_rec)
  then show ?thesis
    by (simp add: fb_console_highlight_def hl_range_def hl_draw_cell_def get_at_def cell_idx_def demo_fb_def demo_statics_def)
qed

text \<open>
  A character drawn beyond the right edge (here at column 100 of 64) changes no pixel but leaves a dirty rectangle that begins beyond the edge; the next flush
  copies a negative number of pixels, taken as unsigned.
\<close>

lemma fb_flush_beyond_edge:
  "fb_flush (fb_dirty_mark 100 0 8 16 (fb_dirty_reset (demo_fb\<lparr>fb_dirty := True\<rparr>))) = None"
  by (simp add: fb_flush_def Let_def fb_dirty_mark_def fb_dirty_reset_def demo_fb_def demo_statics_def s32_def flush_row_def copy_to_def idx32_def
      upto_rec1 stride_def)

end
