(* ===== verification/Vga.thy ===== *)
theory Vga
  imports Fb_Main
begin

text \<open>
  The text console (\<open>kernel/drivers/vga/vga.c\<close>): an 80 by 25 character screen with a history of 200 lines, output
  capture, and the framebuffer console behind it when there is one (the field \<open>con\<close>). The screen memory and
  the static arrays are lists, an access outside them is \<open>None\<close>; \<open>hw_cursor\<close> is what the two registers of the
  controller hold.
\<close>

section \<open>State\<close>

abbreviation VGA_WIDTH :: nat where "VGA_WIDTH \<equiv> 80"
abbreviation VGA_HEIGHT :: nat where "VGA_HEIGHT \<equiv> 25"
abbreviation VGA_SCROLLBACK :: nat where "VGA_SCROLLBACK \<equiv> 200"

definition vga_entry_color :: "u8 \<Rightarrow> u8 \<Rightarrow> u8" where "vga_entry_color fg bg = fg OR push_bit 4 bg"

definition vga_entry :: "u8 \<Rightarrow> u8 \<Rightarrow> u16" where "vga_entry c color = ucast c OR push_bit 8 (ucast color)"

record vga =
  con :: fb
  terminal_row :: u32
  terminal_column :: u32
  terminal_color :: u8
  terminal_buffer :: "u16 list"
  hw_cursor :: u16
  scrollback_buffer :: "u16 list"
  scrollback_pos :: u32
  scrollback_lines :: u32
  scroll_offset :: u32
  saved_screen :: "u16 list"
  screen_saved :: bool
  capture_buffer :: "u8 list option"
  capture_max :: u32
  capture_pos :: u32
  capturing :: bool

text \<open>\<open>for (x = 0; x < n; x++) a[i + x] = v;\<close>\<close>

definition fill_at :: "nat \<Rightarrow> nat \<Rightarrow> 'a \<Rightarrow> 'a list \<Rightarrow> 'a list option" where
  "fill_at i n v xs = (if i + n \<le> length xs then Some (take i xs @ replicate n v @ drop (i + n) xs) else None)"

abbreviation on_con :: "(fb \<Rightarrow> fb option) \<Rightarrow> vga \<Rightarrow> vga option" where
  "on_con g v \<equiv> map_option (\<lambda>c. v\<lparr>con := c\<rparr>) (g (con v))"

definition vga_set_cursor :: "u32 \<Rightarrow> u32 \<Rightarrow> vga \<Rightarrow> vga" where
  "vga_set_cursor x y v = v\<lparr>hw_cursor := ucast (y * 80 + x)\<rparr>"

definition vga_init :: "u16 list \<Rightarrow> vga \<Rightarrow> vga" where
  "vga_init mem v = v\<lparr>terminal_row := 0, terminal_column := 0, terminal_color := vga_entry_color 7 0, terminal_buffer := mem\<rparr>"

definition vga_clear :: "vga \<Rightarrow> vga option" where
  "vga_clear v =
     (if fb_available (con v) then on_con fb_console_clear v
      else do {
        b \<leftarrow> fill_at 0 (VGA_HEIGHT * VGA_WIDTH) (vga_entry 32 (terminal_color v)) (terminal_buffer v);
        Some ((vga_set_cursor 0 0 (v\<lparr>terminal_buffer := b, terminal_row := 0, terminal_column := 0\<rparr>))
          \<lparr>scrollback_pos := 0, scrollback_lines := 0, scroll_offset := 0, screen_saved := False\<rparr>)
      })"

definition vga_setcolor :: "u8 \<Rightarrow> vga \<Rightarrow> vga" where "vga_setcolor color v = v\<lparr>terminal_color := color\<rparr>"

section \<open>Writing\<close>

definition scrollback_save_line :: "nat \<Rightarrow> vga \<Rightarrow> vga option" where
  "scrollback_save_line line v = do {
     sb \<leftarrow> copy_to (unat (scrollback_pos v) * VGA_WIDTH) (terminal_buffer v) (line * VGA_WIDTH) VGA_WIDTH (scrollback_buffer v);
     Some (v\<lparr>scrollback_buffer := sb, scrollback_pos := (scrollback_pos v + 1) mod 200,
             scrollback_lines := (if scrollback_lines v < 200 then scrollback_lines v + 1 else scrollback_lines v)\<rparr>)
   }"

definition terminal_scroll :: "vga \<Rightarrow> vga option" where
  "terminal_scroll v = do {
     v \<leftarrow> scrollback_save_line 0 v;
     b \<leftarrow> each (\<lambda>y. move_in (y * VGA_WIDTH) ((y + 1) * VGA_WIDTH) VGA_WIDTH) [0 ..< VGA_HEIGHT - 1] (terminal_buffer v);
     b \<leftarrow> fill_at ((VGA_HEIGHT - 1) * VGA_WIDTH) VGA_WIDTH (vga_entry 32 (terminal_color v)) b;
     Some (v\<lparr>terminal_buffer := b, terminal_row := 24, scroll_offset := 0\<rparr>)
   }"

definition vga_putchar_at :: "u8 \<Rightarrow> u8 \<Rightarrow> u32 \<Rightarrow> u32 \<Rightarrow> vga \<Rightarrow> vga option" where
  "vga_putchar_at c color x y v =
     map_option (\<lambda>b. v\<lparr>terminal_buffer := b\<rparr>) (put_at (unat (y * 80 + x)) (vga_entry c color) (terminal_buffer v))"

definition vga_newline :: "vga \<Rightarrow> vga" where
  "vga_newline v = v\<lparr>terminal_column := 0, terminal_row := terminal_row v + 1\<rparr>"

definition vga_put :: "u8 \<Rightarrow> vga \<Rightarrow> vga option" where
  "vga_put c v = do {
     v \<leftarrow> (if c = 10 then Some (vga_newline v)
           else if c = 13 then Some (v\<lparr>terminal_column := 0\<rparr>)
           else if c = 9 then Some (v\<lparr>terminal_column := (terminal_column v + 8) AND NOT 7\<rparr>)
           else if c = 8 then
             (if 0 < terminal_column v
              then let v = v\<lparr>terminal_column := terminal_column v - 1\<rparr>
                   in vga_putchar_at 32 (terminal_color v) (terminal_column v) (terminal_row v) v
              else Some v)
           else map_option (\<lambda>v. v\<lparr>terminal_column := terminal_column v + 1\<rparr>)
                  (vga_putchar_at c (terminal_color v) (terminal_column v) (terminal_row v) v));
     v \<leftarrow> Some (if 80 \<le> terminal_column v then vga_newline v else v);
     v \<leftarrow> (if 25 \<le> terminal_row v then terminal_scroll v else Some v);
     Some (vga_set_cursor (terminal_column v) (terminal_row v) v)
   }"

definition vga_putchar :: "u8 \<Rightarrow> vga \<Rightarrow> vga option" where
  "vga_putchar c v =
     (case capture_buffer v of
        Some buf \<Rightarrow>
          if capturing v \<and> capture_pos v < capture_max v
          then map_option (\<lambda>b. v\<lparr>capture_buffer := Some b, capture_pos := capture_pos v + 1\<rparr>) (put_at (unat (capture_pos v)) c buf)
          else if fb_available (con v) then on_con (fb_console_putchar c) v else vga_put c v
      | None \<Rightarrow> if fb_available (con v) then on_con (fb_console_putchar c) v else vga_put c v)"

fun vga_chars :: "u8 list \<Rightarrow> vga \<Rightarrow> vga option" where
  "vga_chars [] v = Some v"
| "vga_chars (c # cs) v = (if c = 0 then Some v else vga_putchar c v \<bind> vga_chars cs)"

definition vga_puts :: "u8 list \<Rightarrow> vga \<Rightarrow> vga option" where
  "vga_puts str v = (if fb_available (con v) then on_con (fb_console_puts str) v else vga_chars str v)"

text \<open>Between \<open>fb_console_begin_batch\<close> and \<open>fb_console_end_batch\<close>.\<close>

definition vga_batch :: "(vga \<Rightarrow> vga option) \<Rightarrow> vga \<Rightarrow> vga option" where
  "vga_batch body v =
     body (if fb_available (con v) then v\<lparr>con := fb_console_begin_batch (con v)\<rparr> else v) \<bind>
       (\<lambda>v. if fb_available (con v) then on_con fb_console_end_batch v else Some v)"

definition vga_put_dec :: "u32 \<Rightarrow> vga \<Rightarrow> vga option" where
  "vga_put_dec num = vga_batch (if num = 0 then vga_putchar 48 else each vga_putchar (rev (dec_digits num)))"

definition vga_put_hex :: "u32 \<Rightarrow> vga \<Rightarrow> vga option" where
  "vga_put_hex num = vga_batch (\<lambda>v. vga_puts [48, 120] v \<bind> each (\<lambda>i. vga_putchar (fb_hex_digit num i)) [28, 24, 20, 16, 12, 8, 4, 0])"

definition vga_puts_ok :: "vga \<Rightarrow> vga option" where
  "vga_puts_ok v =
     (if fb_available (con v) then on_con fb_console_puts_ok v
      else map_option (vga_setcolor (terminal_color v)) (vga_puts [79, 75] (vga_setcolor (vga_entry_color 10 0) v)))"

definition vga_puts_fail :: "vga \<Rightarrow> vga option" where
  "vga_puts_fail v =
     (if fb_available (con v) then on_con fb_console_puts_fail v
      else map_option (vga_setcolor (terminal_color v)) (vga_puts [70, 65, 73, 76, 69, 68] (vga_setcolor (vga_entry_color 12 0) v)))"

section \<open>Looking back\<close>

definition save_screen :: "vga \<Rightarrow> vga option" where
  "save_screen v =
     (if screen_saved v then Some v
      else do {
        s \<leftarrow> copy_to 0 (terminal_buffer v) 0 (VGA_WIDTH * VGA_HEIGHT) (saved_screen v);
        Some (v\<lparr>saved_screen := s, screen_saved := True\<rparr>)
      })"

definition restore_screen :: "vga \<Rightarrow> vga option" where
  "restore_screen v = do {
     v \<leftarrow> (if screen_saved v
           then map_option (\<lambda>b. v\<lparr>terminal_buffer := b, screen_saved := False\<rparr>)
                  (copy_to 0 (saved_screen v) 0 (VGA_WIDTH * VGA_HEIGHT) (terminal_buffer v))
           else Some v);
     Some (vga_set_cursor (terminal_column v) (terminal_row v) v)
   }"

definition thumb_row :: "vga \<Rightarrow> u32" where
  "thumb_row v =
     24 - (if scrollback_lines v \<le> 25 then 0
           else let p = scroll_offset v * 24 div scrollback_lines v in if 25 \<le> p then 24 else p)"

definition draw_scroll_indicator :: "vga \<Rightarrow> vga option" where
  "draw_scroll_indicator v =
     (if scrollback_lines v = 0 then Some v
      else map_option (\<lambda>b. v\<lparr>terminal_buffer := b\<rparr>)
        (each (\<lambda>y. put_at (y * VGA_WIDTH + (VGA_WIDTH - 1))
                 (if y = unat (thumb_row v) then vga_entry 0xDB (vga_entry_color 15 8) else vga_entry 0xB1 (vga_entry_color 8 0)))
           [0 ..< VGA_HEIGHT] (terminal_buffer v)))"

definition display_scrollback :: "vga \<Rightarrow> vga option" where
  "display_scrollback v =
     (if scrollback_lines v = 0 then Some v
      else let sb_lines = (if scroll_offset v < 25 then unat (scroll_offset v) else VGA_HEIGHT);
               live_lines = VGA_HEIGHT - sb_lines;
               start = unat ((scrollback_pos v + 200 - scroll_offset v) mod 200)
           in do {
             b \<leftarrow> each (\<lambda>y. copy_to (y * VGA_WIDTH) (scrollback_buffer v) (((start + y) mod VGA_SCROLLBACK) * VGA_WIDTH) VGA_WIDTH)
                    [0 ..< sb_lines] (terminal_buffer v);
             b \<leftarrow> (if 0 < live_lines \<and> screen_saved v
                   then copy_to (sb_lines * VGA_WIDTH) (saved_screen v) 0 (live_lines * VGA_WIDTH) b
                   else if 0 < live_lines then fill_at (sb_lines * VGA_WIDTH) (live_lines * VGA_WIDTH) (vga_entry 32 (terminal_color v)) b
                   else Some b);
             v \<leftarrow> draw_scroll_indicator (v\<lparr>terminal_buffer := b\<rparr>);
             Some (vga_set_cursor 0 25 v)
           })"

definition vga_scroll_up :: "u32 \<Rightarrow> vga \<Rightarrow> vga option" where
  "vga_scroll_up lines v =
     (if fb_available (con v) then Some v
      else do {
        v \<leftarrow> save_screen v;
        let new = scroll_offset v + lines;
        let new = (if scrollback_lines v < new then scrollback_lines v else new);
        if new = scroll_offset v then Some v
        else if new = 0 then restore_screen (v\<lparr>scroll_offset := new\<rparr>)
        else display_scrollback (v\<lparr>scroll_offset := new\<rparr>)
      })"

definition vga_scroll_down :: "u32 \<Rightarrow> vga \<Rightarrow> vga option" where
  "vga_scroll_down lines v =
     (if fb_available (con v) \<or> scroll_offset v = 0 then Some v
      else if scroll_offset v \<le> lines then restore_screen (v\<lparr>scroll_offset := 0\<rparr>)
      else display_scrollback (v\<lparr>scroll_offset := scroll_offset v - lines\<rparr>))"

definition vga_is_scrolled :: "vga \<Rightarrow> bool" where
  "vga_is_scrolled v \<longleftrightarrow> \<not> fb_available (con v) \<and> 0 < scroll_offset v"

definition vga_scroll_reset :: "vga \<Rightarrow> vga option" where
  "vga_scroll_reset v =
     (if fb_available (con v) \<or> \<not> 0 < scroll_offset v then Some v else restore_screen (v\<lparr>scroll_offset := 0\<rparr>))"

section \<open>Capture\<close>

definition vga_set_capture :: "u8 list option \<Rightarrow> u32 \<Rightarrow> vga \<Rightarrow> vga" where
  "vga_set_capture buf m v = v\<lparr>capture_buffer := buf, capture_max := m, capture_pos := 0, capturing := True\<rparr>"

definition vga_stop_capture :: "vga \<Rightarrow> vga" where "vga_stop_capture v = v\<lparr>capturing := False\<rparr>"

end
