(* ===== verification/Vga_Props.thy ===== *)
theory Vga_Props
  imports Vga
begin

text \<open>
  Properties of the text console: all operations stay within the screen, the history and the capture buffer,
  and looking back at old lines and returning restores the screen.
\<close>

section \<open>Invariant\<close>

definition screen_ok :: "vga \<Rightarrow> bool" where
  "screen_ok v \<longleftrightarrow> length (terminal_buffer v) = VGA_WIDTH * VGA_HEIGHT \<and> length (saved_screen v) = VGA_WIDTH * VGA_HEIGHT \<and>
     length (scrollback_buffer v) = VGA_SCROLLBACK * VGA_WIDTH \<and> unat (scrollback_pos v) < VGA_SCROLLBACK \<and>
     unat (scrollback_lines v) \<le> VGA_SCROLLBACK \<and> scroll_offset v \<le> scrollback_lines v"

definition capture_ok :: "vga \<Rightarrow> bool" where
  "capture_ok v \<longleftrightarrow> (case capture_buffer v of None \<Rightarrow> True | Some b \<Rightarrow> unat (capture_max v) \<le> length b)"

text \<open>\<open>R\<close> is the number of rows of the framebuffer console, when there is one.\<close>

definition vga_ok :: "u32 \<Rightarrow> vga \<Rightarrow> bool" where
  "vga_ok R v \<longleftrightarrow> screen_ok v \<and> capture_ok v \<and> terminal_row v < 25 \<and> terminal_column v < 80 \<and>
     (0 < scroll_offset v \<longrightarrow> screen_saved v) \<and> (fb_available (con v) \<longrightarrow> console_ok R (con v))"

lemma screen_ok_upd [simp]:
  "screen_ok (v\<lparr>con := f\<rparr>) = screen_ok v" "screen_ok (v\<lparr>terminal_row := r\<rparr>) = screen_ok v" "screen_ok (v\<lparr>terminal_column := r\<rparr>) = screen_ok v"
  "screen_ok (v\<lparr>terminal_color := c\<rparr>) = screen_ok v" "screen_ok (v\<lparr>hw_cursor := h\<rparr>) = screen_ok v" "screen_ok (v\<lparr>screen_saved := b\<rparr>) = screen_ok v"
  "screen_ok (v\<lparr>capture_buffer := cb\<rparr>) = screen_ok v" "screen_ok (v\<lparr>capture_pos := r\<rparr>) = screen_ok v" "screen_ok (v\<lparr>capture_max := r\<rparr>) = screen_ok v"
  "screen_ok (v\<lparr>capturing := b\<rparr>) = screen_ok v"
  by (simp_all add: screen_ok_def)

lemma capture_ok_upd [simp]:
  "capture_ok (v\<lparr>con := f\<rparr>) = capture_ok v" "capture_ok (v\<lparr>terminal_row := r\<rparr>) = capture_ok v" "capture_ok (v\<lparr>terminal_column := r\<rparr>) = capture_ok v"
  "capture_ok (v\<lparr>terminal_color := c\<rparr>) = capture_ok v" "capture_ok (v\<lparr>hw_cursor := h\<rparr>) = capture_ok v" "capture_ok (v\<lparr>screen_saved := b\<rparr>) = capture_ok v"
  "capture_ok (v\<lparr>capture_pos := r\<rparr>) = capture_ok v" "capture_ok (v\<lparr>capturing := b\<rparr>) = capture_ok v"
  "capture_ok (v\<lparr>terminal_buffer := m\<rparr>) = capture_ok v" "capture_ok (v\<lparr>scrollback_buffer := m\<rparr>) = capture_ok v" "capture_ok (v\<lparr>saved_screen := m\<rparr>) = capture_ok v"
  "capture_ok (v\<lparr>scrollback_pos := r\<rparr>) = capture_ok v" "capture_ok (v\<lparr>scrollback_lines := r\<rparr>) = capture_ok v" "capture_ok (v\<lparr>scroll_offset := r\<rparr>) = capture_ok v"
  by (simp_all add: capture_ok_def split: option.split)

section \<open>Writing\<close>

text \<open>What is behind the text screen is not touched in text mode.\<close>

definition behind :: "vga \<Rightarrow> fb \<times> u8 list option \<times> u32" where "behind v = (con v, capture_buffer v, capture_max v)"

lemma behind_capture: "behind w = behind v \<Longrightarrow> capture_ok w = capture_ok v"
  by (cases "capture_buffer v") (simp_all add: behind_def capture_ok_def)

lemma fill_okay: "i + n \<le> length xs \<Longrightarrow> okay (\<lambda>ys. length ys = length xs) (fill_at i n x xs)"
  by (simp add: fill_at_def)

lemma copy_okay: "d + n \<le> length xs \<Longrightarrow> s + n \<le> length ys \<Longrightarrow> okay (\<lambda>zs. length zs = length xs) (copy_to d ys s n xs)"
  by (simp add: copy_to_def)

lemma terminal_scroll_okay:
  assumes "screen_ok v"
  shows "okay (\<lambda>w. screen_ok w \<and> behind w = behind v \<and> terminal_row w = 24 \<and> terminal_column w = terminal_column v \<and> scroll_offset w = 0 \<and>
      screen_saved w = screen_saved v \<and> saved_screen w = saved_screen v) (terminal_scroll v)"
proof -
  note s = assms [unfolded screen_ok_def]
  obtain sb where sb: "copy_to (unat (scrollback_pos v) * VGA_WIDTH) (terminal_buffer v) (0 * VGA_WIDTH) VGA_WIDTH (scrollback_buffer v) = Some sb"
    "length sb = length (scrollback_buffer v)"
    using copy_okay [of "unat (scrollback_pos v) * VGA_WIDTH" VGA_WIDTH "scrollback_buffer v" "0 * VGA_WIDTH" "terminal_buffer v"] s
    by (auto simp: okay_iff)
  have "okay (\<lambda>b. length b = 2000) (each (\<lambda>y. move_in (y * VGA_WIDTH) ((y + 1) * VGA_WIDTH) VGA_WIDTH) [0 ..< VGA_HEIGHT - 1] (terminal_buffer v))"
  proof (rule each_keeps)
    fix y :: nat and b :: "u16 list"
    assume "y \<in> set [0 ..< VGA_HEIGHT - 1]" "length b = 2000"
    then show "okay (\<lambda>b. length b = 2000) (move_in (y * VGA_WIDTH) ((y + 1) * VGA_WIDTH) VGA_WIDTH b)" by (simp add: move_in_def)
  qed (use s in simp)
  then obtain b where b: "each (\<lambda>y. move_in (y * VGA_WIDTH) ((y + 1) * VGA_WIDTH) VGA_WIDTH) [0 ..< VGA_HEIGHT - 1] (terminal_buffer v) = Some b" "length b = 2000"
    by (auto simp only: okay_iff)
  obtain b' where b': "fill_at ((VGA_HEIGHT - 1) * VGA_WIDTH) VGA_WIDTH (vga_entry 32 (terminal_color v)) b = Some b'" "length b' = 2000"
    using b(2) by (simp add: fill_at_def)
  have p: "unat ((scrollback_pos v + 1) mod 200) < 200" by (simp add: unat_mod)
  have l: "unat (if scrollback_lines v < 200 then scrollback_lines v + 1 else scrollback_lines v) \<le> 200"
    using s by (simp add: word_less_nat_alt unat_word_ariths)
  show ?thesis
    using sb b b' p l s unfolding terminal_scroll_def scrollback_save_line_def
    by (simp add: screen_ok_def behind_def del: upt_rec_numeral mult_0)
qed

lemma putchar_at_okay:
  assumes "screen_ok v" and "x < 80" and "y < 25"
  shows "okay (\<lambda>w. screen_ok w \<and> w = v\<lparr>terminal_buffer := terminal_buffer w\<rparr>) (vga_putchar_at c color x y v)"
proof -
  have "unat x < 80" "unat y < 25" using assms(2,3) by (simp_all add: word_less_nat_alt)
  then have "unat (y * 80 + x) = unat y * 80 + unat x" by (simp add: unat_word_ariths)
  then have "unat (y * 80 + x) < length (terminal_buffer v)"
    using assms(1) \<open>unat x < 80\<close> \<open>unat y < 25\<close> by (simp add: screen_ok_def)
  then show ?thesis using assms(1) by (simp add: vga_putchar_at_def put_at_def screen_ok_def)
qed

lemma vga_put_okay:
  assumes ok: "screen_ok v" "terminal_row v < 25" "terminal_column v < 80"
  shows "okay (\<lambda>w. screen_ok w \<and> behind w = behind v \<and> terminal_row w < 25 \<and> terminal_column w < 80 \<and>
      screen_saved w = screen_saved v \<and> saved_screen w = saved_screen v \<and> (scroll_offset w = scroll_offset v \<or> scroll_offset w = 0)) (vga_put c v)"
proof -
  let ?first = "if c = 10 then Some (vga_newline v)
           else if c = 13 then Some (v\<lparr>terminal_column := 0\<rparr>)
           else if c = 9 then Some (v\<lparr>terminal_column := (terminal_column v + 8) AND NOT 7\<rparr>)
           else if c = 8 then
             (if 0 < terminal_column v
              then let v = v\<lparr>terminal_column := terminal_column v - 1\<rparr>
                   in vga_putchar_at 32 (terminal_color v) (terminal_column v) (terminal_row v) v
              else Some v)
           else map_option (\<lambda>v. v\<lparr>terminal_column := terminal_column v + 1\<rparr>)
                  (vga_putchar_at c (terminal_color v) (terminal_column v) (terminal_row v) v)"
  let ?P = "\<lambda>w. screen_ok w \<and> behind w = behind v \<and> screen_saved w = screen_saved v \<and> saved_screen w = saved_screen v \<and> scroll_offset w = scroll_offset v \<and>
      (terminal_row w < 25 \<or> terminal_row w = 25 \<and> terminal_column w = 0)"
  have nl: "?P (vga_newline w)" if "screen_ok w" "behind w = behind v" "screen_saved w = screen_saved v" "saved_screen w = saved_screen v" "scroll_offset w = scroll_offset v" "terminal_row w < 25" for w
  proof -
    have "unat (terminal_row w) < 25" using that(6) by (simp add: word_less_nat_alt)
    then have "unat (terminal_row w + 1) = unat (terminal_row w) + 1" by (simp add: unat_word_ariths)
    with \<open>unat (terminal_row w) < 25\<close> have "terminal_row w + 1 < 25 \<or> terminal_row w + 1 = 25"
      by (auto simp: word_less_nat_alt word_unat_eq_iff)
    with that show ?thesis by (auto simp: vga_newline_def behind_def)
  qed
  have left: "terminal_column v - 1 < 80" if "0 < terminal_column v"
    using that ok(3) unat_sub [of 1 "terminal_column v"] by (simp add: word_less_nat_alt word_le_nat_alt)
  have "okay ?P ?first"
  proof -
    have bs: "okay ?P (let v = v\<lparr>terminal_column := terminal_column v - 1\<rparr> in vga_putchar_at 32 (terminal_color v) (terminal_column v) (terminal_row v) v)"
      if "0 < terminal_column v"
      unfolding Let_def
      by (rule okay_mono [OF putchar_at_okay]) (use ok left [OF that] in \<open>auto simp: behind_def intro: arg_cong dest: arg_cong [of _ _ con] arg_cong [of _ _ capture_buffer]
        arg_cong [of _ _ capture_max] arg_cong [of _ _ terminal_row] arg_cong [of _ _ screen_saved] arg_cong [of _ _ saved_screen] arg_cong [of _ _ scroll_offset]\<close>)
    have ch: "okay ?P (map_option (\<lambda>v. v\<lparr>terminal_column := terminal_column v + 1\<rparr>) (vga_putchar_at c (terminal_color v) (terminal_column v) (terminal_row v) v))"
      using putchar_at_okay [OF ok(1,3,2), of c "terminal_color v"] ok(2) by (auto simp: okay_iff behind_def vga_putchar_at_def)
    show ?thesis using nl [of v] ok bs ch by (simp add: behind_def)
  qed
  then show ?thesis
    unfolding vga_put_def
  proof (rule okay_bind)
    fix w assume w: "?P w"
    define u where "u = (if 80 \<le> terminal_column w then vga_newline w else w)"
    have u: "screen_ok u" "behind u = behind v" "screen_saved u = screen_saved v" "saved_screen u = saved_screen v" "scroll_offset u = scroll_offset v" "terminal_column u < 80"
      and ur: "terminal_row u < 25 \<or> terminal_row u = 25"
      using w nl [of w] by (auto simp: u_def vga_newline_def behind_def)
    have "okay (\<lambda>w. screen_ok w \<and> behind w = behind v \<and> terminal_row w < 25 \<and> terminal_column w < 80 \<and>
      screen_saved w = screen_saved v \<and> saved_screen w = saved_screen v \<and> (scroll_offset w = scroll_offset v \<or> scroll_offset w = 0)) (if 25 \<le> terminal_row u then terminal_scroll u else Some u)"
      using okay_mono [OF terminal_scroll_okay [OF u(1)]] u ur by auto
    then show "okay (\<lambda>w. screen_ok w \<and> behind w = behind v \<and> terminal_row w < 25 \<and> terminal_column w < 80 \<and>
      screen_saved w = screen_saved v \<and> saved_screen w = saved_screen v \<and> (scroll_offset w = scroll_offset v \<or> scroll_offset w = 0))
      (Some (if 80 \<le> terminal_column w then vga_newline w else w) \<bind> (\<lambda>v. (if 25 \<le> terminal_row v then terminal_scroll v else Some v) \<bind>
        (\<lambda>v. Some (vga_set_cursor (terminal_column v) (terminal_row v) v))))"
      unfolding u_def [symmetric] bind.bind_lunit
      by (rule okay_bind) (auto simp: vga_set_cursor_def behind_def)
  qed
qed

section \<open>Looking back\<close>

lemma fill_nth: "fill_at i n x xs = Some ys \<Longrightarrow> k < length xs \<Longrightarrow> ys ! k = (if i \<le> k \<and> k < i + n then x else xs ! k)"
  by (auto simp: fill_at_def nth_append split: if_splits)

lemma copy_nth:
  "copy_to d ys s n xs = Some zs \<Longrightarrow> i < length xs \<Longrightarrow> zs ! i = (if d \<le> i \<and> i < d + n then ys ! (s + (i - d)) else xs ! i)"
  using nth_splice [of d n xs s ys i] by (auto simp: copy_to_def split: if_splits)

text \<open>Rows copied one after the other, and the indicator in the last column.\<close>

lemma rows_copied:
  assumes "n \<le> 25" and "length xs = 2000" and "\<And>y. y < n \<Longrightarrow> f y * 80 + 80 \<le> length ys"
  shows "okay (\<lambda>zs. length zs = 2000 \<and> (\<forall>y < 25. \<forall>x < 80. zs ! (y * 80 + x) = (if y < n then ys ! (f y * 80 + x) else xs ! (y * 80 + x))))
    (each (\<lambda>y. copy_to (y * 80) ys (f y * 80) 80) [0 ..< n] xs)"
  using assms
proof (induction n)
  case (Suc n)
  have "okay (\<lambda>zs. length zs = 2000 \<and> (\<forall>y < 25. \<forall>x < 80. zs ! (y * 80 + x) = (if y < n then ys ! (f y * 80 + x) else xs ! (y * 80 + x))))
    (each (\<lambda>y. copy_to (y * 80) ys (f y * 80) 80) [0 ..< n] xs)" by (rule Suc.IH) (use Suc.prems in simp_all)
  then obtain zs where zs: "each (\<lambda>y. copy_to (y * 80) ys (f y * 80) 80) [0 ..< n] xs = Some zs" "length zs = 2000"
      "\<And>y x. y < 25 \<Longrightarrow> x < 80 \<Longrightarrow> zs ! (y * 80 + x) = (if y < n then ys ! (f y * 80 + x) else xs ! (y * 80 + x))"
    by (auto simp: okay_iff)
  have f: "f n * 80 + 80 \<le> length ys" using Suc.prems(3) [of n] by simp
  then obtain us where us: "copy_to (n * 80) ys (f n * 80) 80 zs = Some us" "length us = 2000"
    using copy_okay [of "n * 80" 80 zs "f n * 80" ys] Suc.prems(1) zs(2) by (auto simp: okay_iff)
  have "us ! (y * 80 + x) = (if y < Suc n then ys ! (f y * 80 + x) else xs ! (y * 80 + x))" if "y < 25" "x < 80" for y x
  proof -
    have "us ! (y * 80 + x) = (if n * 80 \<le> y * 80 + x \<and> y * 80 + x < n * 80 + 80 then ys ! (f n * 80 + (y * 80 + x - n * 80)) else zs ! (y * 80 + x))"
      by (rule copy_nth [OF us(1)]) (use that zs(2) in simp)
    moreover have "(n * 80 \<le> y * 80 + x \<and> y * 80 + x < n * 80 + 80) = (y = n)" using that by linarith
    ultimately show ?thesis using zs(3) [OF that] by auto
  qed
  with us zs(1) show ?case by (simp add: each_one)
qed simp

lemma last_column:
  assumes "n \<le> 25" and "length xs = 2000"
  shows "okay (\<lambda>zs. length zs = 2000 \<and> (\<forall>y < 25. \<forall>x < 79. zs ! (y * 80 + x) = xs ! (y * 80 + x)))
    (each (\<lambda>y. put_at (y * 80 + 79) (g y)) [0 ..< n] xs)"
  using assms(1)
proof (induction n)
  case (Suc n)
  have "n * 80 + 79 \<noteq> y * 80 + x" if "x < 79" for x y :: nat using that by presburger
  then show ?case
    using Suc by (auto simp: okay_iff each_one put_at_def nth_list_update)
qed (use assms(2) in simp)

text \<open>What the screen shows when \<open>n\<close> lines back, the last column apart.\<close>

definition shows_back :: "nat \<Rightarrow> u16 list \<Rightarrow> vga \<Rightarrow> bool" where
  "shows_back n b v \<longleftrightarrow> (\<forall>y < 25. \<forall>x < 79. terminal_buffer v ! (y * 80 + x) =
     (if y < n then scrollback_buffer v ! ((unat (scrollback_pos v) + 200 - n + y) mod 200 * 80 + x) else b ! ((y - n) * 80 + x)))"

definition unlooked :: "vga \<Rightarrow> vga" where
  "unlooked v = v\<lparr>terminal_buffer := [], saved_screen := [], screen_saved := False, scroll_offset := 0, hw_cursor := 0\<rparr>"

lemma unlooked_upd [simp]:
  "unlooked (v\<lparr>terminal_buffer := b\<rparr>) = unlooked v" "unlooked (v\<lparr>saved_screen := b\<rparr>) = unlooked v" "unlooked (v\<lparr>screen_saved := s\<rparr>) = unlooked v"
  "unlooked (v\<lparr>scroll_offset := n\<rparr>) = unlooked v" "unlooked (v\<lparr>hw_cursor := h\<rparr>) = unlooked v"
  by (simp_all add: unlooked_def)

definition looking :: "u16 list \<Rightarrow> vga \<Rightarrow> vga \<Rightarrow> bool" where
  "looking b v w \<longleftrightarrow> unlooked w = unlooked v \<and> screen_ok w \<and> \<not> fb_available (con w) \<and>
     (screen_saved w \<longrightarrow> saved_screen w = b) \<and>
     (if scroll_offset w = 0 then terminal_buffer w = b else screen_saved w \<and> shows_back (unat (scroll_offset w)) b w)"

lemma save_looking:
  assumes "looking b v w"
  shows "okay (\<lambda>u. looking b v u \<and> screen_saved u \<and> scroll_offset u = scroll_offset w) (save_screen w)"
proof (cases "screen_saved w")
  case False
  then have "scroll_offset w = 0" "terminal_buffer w = b" using assms by (auto simp: looking_def split: if_splits)
  then show ?thesis using assms False by (simp add: save_screen_def copy_to_def looking_def screen_ok_def)
qed (use assms in \<open>simp add: save_screen_def\<close>)

text \<open>With the saved screen \<open>b\<close>, whatever the screen shows.\<close>

definition kept :: "u16 list \<Rightarrow> vga \<Rightarrow> vga \<Rightarrow> bool" where
  "kept b v w \<longleftrightarrow> unlooked w = unlooked v \<and> screen_ok w \<and> \<not> fb_available (con w) \<and> screen_saved w \<and> saved_screen w = b"

lemma looking_kept: "looking b v w \<Longrightarrow> screen_saved w \<Longrightarrow> kept b v w"
  by (simp add: looking_def kept_def)

lemma restore_looking:
  assumes "kept b v w"
  shows "okay (looking b v) (restore_screen (w\<lparr>scroll_offset := 0\<rparr>))"
  using assms by (auto simp: restore_screen_def copy_to_def looking_def kept_def screen_ok_def vga_set_cursor_def)

lemma display_looking:
  assumes l: "kept b v w" and n: "0 < n" "n \<le> scrollback_lines w"
  shows "okay (looking b v) (display_scrollback (w\<lparr>scroll_offset := n\<rparr>))"
proof -
  have s: "screen_saved w" using l by (simp add: kept_def)
  let ?w = "w\<lparr>scroll_offset := n\<rparr>" and ?off = "unat n"
  have ok: "screen_ok w" and b: "saved_screen w = b" using l by (auto simp: kept_def)
  note o = ok [unfolded screen_ok_def]
  have n200: "?off \<le> 200" "0 < ?off" using n o by (auto simp: word_le_nat_alt word_less_nat_alt)
  define sb where "sb = (if n < 25 then ?off else VGA_HEIGHT)"
  have sb: "sb \<le> 25" "sb \<le> ?off" "\<And>y. y < 25 \<Longrightarrow> (y < sb) = (y < ?off)" "\<And>y. y < 25 \<Longrightarrow> \<not> y < ?off \<Longrightarrow> sb = ?off"
    by (auto simp: sb_def word_less_nat_alt)
  define start where "start = unat ((scrollback_pos w + 200 - n) mod 200)"
  have "unat (scrollback_pos w + 200) = unat (scrollback_pos w) + 200" using o by (simp add: unat_word_ariths)
  moreover from this have "unat (scrollback_pos w + 200 - n) = unat (scrollback_pos w) + 200 - ?off"
    using n200 by (simp add: unat_sub word_le_nat_alt)
  ultimately have start: "start = (unat (scrollback_pos w) + 200 - ?off) mod 200" by (simp add: start_def unat_mod)
  let ?f = "\<lambda>y. (start + y) mod VGA_SCROLLBACK"
  have line: "?f y = (unat (scrollback_pos w) + 200 - ?off + y) mod 200" for y by (simp add: start mod_add_left_eq)
  have "?f y * 80 + 80 \<le> length (scrollback_buffer w)" for y
  proof -
    have "?f y < 200" by simp
    then show ?thesis using o by simp
  qed
  then obtain b1 where b1: "each (\<lambda>y. copy_to (y * VGA_WIDTH) (scrollback_buffer w) (?f y * VGA_WIDTH) VGA_WIDTH) [0 ..< sb] (terminal_buffer w) = Some b1"
    "length b1 = 2000" "\<And>y x. y < 25 \<Longrightarrow> x < 80 \<Longrightarrow> y < sb \<Longrightarrow> b1 ! (y * 80 + x) = scrollback_buffer w ! (?f y * 80 + x)"
    using rows_copied [OF sb(1), of "terminal_buffer w" ?f "scrollback_buffer w"] o by (auto simp: okay_iff)
  obtain b2 where b2: "(if 0 < VGA_HEIGHT - sb \<and> screen_saved w
                   then copy_to (sb * VGA_WIDTH) (saved_screen w) 0 ((VGA_HEIGHT - sb) * VGA_WIDTH) b1
                   else if 0 < VGA_HEIGHT - sb then fill_at (sb * VGA_WIDTH) ((VGA_HEIGHT - sb) * VGA_WIDTH) (vga_entry 32 (terminal_color w)) b1
                   else Some b1) = Some b2" "length b2 = 2000"
    "\<And>y x. y < 25 \<Longrightarrow> x < 80 \<Longrightarrow> b2 ! (y * 80 + x) = (if y < sb then b1 ! (y * 80 + x) else b ! ((y - sb) * 80 + x))"
  proof (cases "sb < 25")
    case True
    obtain c where c: "copy_to (sb * VGA_WIDTH) (saved_screen w) 0 ((VGA_HEIGHT - sb) * VGA_WIDTH) b1 = Some c" "length c = 2000"
      using copy_okay [of "sb * VGA_WIDTH" "(VGA_HEIGHT - sb) * VGA_WIDTH" b1 0 "saved_screen w"] b1(2) o sb(1)
      by (auto simp: okay_iff diff_mult_distrib)
    have "c ! (y * 80 + x) = (if y < sb then b1 ! (y * 80 + x) else b ! ((y - sb) * 80 + x))" if "y < 25" "x < 80" for y x
    proof -
      have "c ! (y * 80 + x) = (if sb * 80 \<le> y * 80 + x \<and> y * 80 + x < sb * 80 + (25 - sb) * 80
          then saved_screen w ! (0 + (y * 80 + x - sb * 80)) else b1 ! (y * 80 + x))"
        by (rule copy_nth [OF c(1)]) (use that b1(2) in simp)
      moreover have "(sb * 80 \<le> y * 80 + x \<and> y * 80 + x < sb * 80 + (25 - sb) * 80) = (\<not> y < sb)" using that sb(1) by (auto simp: diff_mult_distrib)
      ultimately show ?thesis using b by (auto simp: diff_mult_distrib)
    qed
    with that c True s show ?thesis by simp
  next
    case False
    with that [of b1] b1(2) sb(1) show ?thesis by simp
  qed
  define w2 where "w2 = w\<lparr>scroll_offset := n, terminal_buffer := b2\<rparr>"
  have "okay (\<lambda>c. length c = 2000 \<and> (\<forall>y < 25. \<forall>x < 79. c ! (y * 80 + x) = b2 ! (y * 80 + x)))
      (each (\<lambda>y. put_at (y * VGA_WIDTH + (VGA_WIDTH - 1))
                 (if y = unat (thumb_row w2) then vga_entry 0xDB (vga_entry_color 15 8) else vga_entry 0xB1 (vga_entry_color 8 0)))
           [0 ..< VGA_HEIGHT] b2)"
    using last_column [of 25 b2] b2(2) by (simp del: upt_rec_numeral)
  then obtain c where c: "each (\<lambda>y. put_at (y * VGA_WIDTH + (VGA_WIDTH - 1))
                 (if y = unat (thumb_row w2) then vga_entry 0xDB (vga_entry_color 15 8) else vga_entry 0xB1 (vga_entry_color 8 0)))
           [0 ..< VGA_HEIGHT] b2 = Some c" "length c = 2000" "\<And>y x. y < 25 \<Longrightarrow> x < 79 \<Longrightarrow> c ! (y * 80 + x) = b2 ! (y * 80 + x)"
    by (auto simp: okay_iff)
  have n0: "scrollback_lines w \<noteq> 0" using n by (auto simp: word_le_nat_alt word_less_nat_alt)
  then have ind: "draw_scroll_indicator w2 = Some (w2\<lparr>terminal_buffer := c\<rparr>)"
    using c(1) by (simp add: draw_scroll_indicator_def w2_def del: upt_rec_numeral)
  have "display_scrollback ?w = Some (vga_set_cursor 0 25 (w2\<lparr>terminal_buffer := c\<rparr>))"
    using b1(1) b2(1) ind n0 unfolding display_scrollback_def Let_def
    by (simp add: w2_def sb_def start_def del: upt_rec_numeral cong: if_cong split del: if_split)
  moreover have "shows_back ?off b (w2\<lparr>terminal_buffer := c\<rparr>)"
  proof -
    have "c ! (y * 80 + x) = (if y < ?off then scrollback_buffer w ! ((unat (scrollback_pos w) + 200 - ?off + y) mod 200 * 80 + x) else b ! ((y - ?off) * 80 + x))"
      if "y < 25" "x < 79" for y x
      using c(3) [OF that] b2(3) [of y x] b1(3) [of y x] sb(3) [OF that(1)] sb(4) [OF that(1)] line [of y] that by (cases "y < ?off") simp_all
    then show ?thesis by (simp add: shows_back_def w2_def)
  qed
  ultimately show ?thesis
    using l s c(2) o n b n200 by (auto simp: looking_def kept_def vga_set_cursor_def w2_def screen_ok_def shows_back_def unat_eq_0)
qed

lemma scroll_up_looking:
  assumes "looking b v w"
  shows "okay (looking b v) (vga_scroll_up n w)"
proof -
  have "\<not> fb_available (con w)" using assms by (simp add: looking_def)
  moreover have "okay (looking b v) (save_screen w \<bind> (\<lambda>u. let new = scroll_offset u + n; new = (if scrollback_lines u < new then scrollback_lines u else new) in
        if new = scroll_offset u then Some u else if new = 0 then restore_screen (u\<lparr>scroll_offset := new\<rparr>) else display_scrollback (u\<lparr>scroll_offset := new\<rparr>)))"
  proof (rule okay_bind [OF save_looking [OF assms]])
    fix u assume u: "looking b v u \<and> screen_saved u \<and> scroll_offset u = scroll_offset w"
    define new where "new = (if scrollback_lines u < scroll_offset u + n then scrollback_lines u else scroll_offset u + n)"
    have "new \<le> scrollback_lines u" by (auto simp: new_def)
    then have "0 < new \<Longrightarrow> okay (looking b v) (display_scrollback (u\<lparr>scroll_offset := new\<rparr>))" using u by (blast intro: display_looking looking_kept)
    moreover have "okay (looking b v) (restore_screen (u\<lparr>scroll_offset := 0\<rparr>))" using u by (blast intro: restore_looking looking_kept)
    ultimately show "okay (looking b v) (let new = scroll_offset u + n; new = (if scrollback_lines u < new then scrollback_lines u else new) in
        if new = scroll_offset u then Some u else if new = 0 then restore_screen (u\<lparr>scroll_offset := new\<rparr>) else display_scrollback (u\<lparr>scroll_offset := new\<rparr>))"
      using u unfolding Let_def new_def [symmetric] by (simp add: word_gt_0)
  qed
  ultimately show ?thesis by (simp add: vga_scroll_up_def)
qed

lemma scroll_down_looking:
  assumes "looking b v w"
  shows "okay (looking b v) (vga_scroll_down n w)"
proof (cases "scroll_offset w = 0")
  case False
  then have s: "screen_saved w" and o: "scroll_offset w \<le> scrollback_lines w"
    using assms by (auto simp: looking_def screen_ok_def)
  have "0 < scroll_offset w - n" "scroll_offset w - n \<le> scrollback_lines w" if "\<not> scroll_offset w \<le> n"
    using that o unat_sub [of n "scroll_offset w"] by (simp_all add: word_less_nat_alt word_le_nat_alt)
  then show ?thesis
    using False restore_looking [OF looking_kept [OF assms s]] display_looking [OF looking_kept [OF assms s]] by (auto simp: vga_scroll_down_def assms)
qed (use assms in \<open>simp add: vga_scroll_down_def\<close>)

datatype look = Up u32 | Down u32

fun look_step :: "look \<Rightarrow> vga \<Rightarrow> vga option" where
  "look_step (Up n) v = vga_scroll_up n v"
| "look_step (Down n) v = vga_scroll_down n v"

lemma looks_looking: "looking b v w \<Longrightarrow> okay (looking b v) (each look_step xs w)"
proof (rule each_keeps)
  fix x u assume "looking b v u"
  then show "okay (looking b v) (look_step x u)" by (cases x) (simp_all add: scroll_up_looking scroll_down_looking)
qed

lemma looking_start:
  "screen_ok v \<Longrightarrow> \<not> fb_available (con v) \<Longrightarrow> scroll_offset v = 0 \<Longrightarrow> \<not> screen_saved v \<Longrightarrow> looking (terminal_buffer v) v v"
  by (simp add: looking_def)

section \<open>All sequences of operations\<close>

datatype vga_op =
  Vclear | Vcolor u8 | Vputchar u8 | Vputs "u8 list" | Vdec u32 | Vhex u32 | Vok | Vfail | Vup u32 | Vdown u32 | Vreset
  | Vat u8 u8 u32 u32 | Vcursor u32 u32 | Vcapture "u8 list option" u32 | Vstop

fun run_vga :: "vga_op \<Rightarrow> vga \<Rightarrow> vga option" where
  "run_vga Vclear v = vga_clear v"
| "run_vga (Vcolor c) v = Some (vga_setcolor c v)"
| "run_vga (Vputchar c) v = vga_putchar c v"
| "run_vga (Vputs s) v = vga_puts s v"
| "run_vga (Vdec n) v = vga_put_dec n v"
| "run_vga (Vhex n) v = vga_put_hex n v"
| "run_vga Vok v = vga_puts_ok v"
| "run_vga Vfail v = vga_puts_fail v"
| "run_vga (Vup n) v = vga_scroll_up n v"
| "run_vga (Vdown n) v = vga_scroll_down n v"
| "run_vga Vreset v = vga_scroll_reset v"
| "run_vga (Vat c col x y) v = vga_putchar_at c col x y v"
| "run_vga (Vcursor x y) v = Some (vga_set_cursor x y v)"
| "run_vga (Vcapture b m) v = Some (vga_set_capture b m v)"
| "run_vga Vstop v = Some (vga_stop_capture v)"

text \<open>Two operations trust their caller: a position must be on the screen, a capture buffer as long as it is said to be.\<close>

definition trusted :: "vga_op \<Rightarrow> bool" where
  "trusted x = (case x of Vat c col x y \<Rightarrow> x < 80 \<and> y < 25 | Vcapture (Some b) m \<Rightarrow> unat m \<le> length b | _ \<Rightarrow> True)"

lemma vga_ok_upd [simp]:
  "vga_ok R (v\<lparr>terminal_color := c\<rparr>) = vga_ok R v" "vga_ok R (v\<lparr>hw_cursor := h\<rparr>) = vga_ok R v"
  "vga_ok R (v\<lparr>capturing := b\<rparr>) = vga_ok R v" "vga_ok R (v\<lparr>capture_pos := p\<rparr>) = vga_ok R v"
  by (simp_all add: vga_ok_def)

lemma on_con_okay:
  assumes "vga_ok R v" and "console_ok R (con v) \<Longrightarrow> okay (console_ok R) (g (con v))" and "fb_available (con v)"
  shows "okay (vga_ok R) (on_con g v)"
  using assms by (auto simp: vga_ok_def okay_iff)

lemma plain_putchar_okay:
  assumes "vga_ok R v"
  shows "okay (vga_ok R) (if fb_available (con v) then on_con (fb_console_putchar c) v else vga_put c v)"
proof (cases "fb_available (con v)")
  case True
  then show ?thesis using on_con_okay [where g = "fb_console_putchar c", OF assms putchar_okay] by simp
next
  case False
  have "screen_ok v" "terminal_row v < 25" "terminal_column v < 80" using assms by (simp_all add: vga_ok_def)
  then have "okay (vga_ok R) (vga_put c v)"
  proof (rule okay_mono [OF vga_put_okay])
    fix w
    assume w: "screen_ok w \<and> behind w = behind v \<and> terminal_row w < 25 \<and> terminal_column w < 80 \<and> screen_saved w = screen_saved v \<and> saved_screen w = saved_screen v \<and>
        (scroll_offset w = scroll_offset v \<or> scroll_offset w = 0)"
    then have "capture_ok w" "con w = con v" using behind_capture [of w v] assms by (simp_all add: behind_def vga_ok_def)
    with w False assms show "vga_ok R w" by (auto simp: vga_ok_def)
  qed
  with False show ?thesis by simp
qed

lemma vga_putchar_okay:
  assumes "vga_ok R v"
  shows "okay (vga_ok R) (vga_putchar c v)"
proof (cases "capture_buffer v")
  case (Some buf)
  then have "unat (capture_max v) \<le> length buf" using assms by (simp add: vga_ok_def capture_ok_def)
  then have "capture_pos v < capture_max v \<Longrightarrow>
      okay (vga_ok R) (map_option (\<lambda>b. v\<lparr>capture_buffer := Some b, capture_pos := capture_pos v + 1\<rparr>) (put_at (unat (capture_pos v)) c buf))"
    using assms by (simp add: put_at_def vga_ok_def capture_ok_def word_less_nat_alt)
  then show ?thesis using plain_putchar_okay [OF assms, of c] Some by (cases "capturing v \<and> capture_pos v < capture_max v") (simp_all only: vga_putchar_def option.case if_True if_False simp_thms)
qed (use plain_putchar_okay [OF assms] in \<open>simp add: vga_putchar_def\<close>)

lemma vga_chars_okay: "vga_ok R v \<Longrightarrow> okay (vga_ok R) (vga_chars cs v)"
proof (induction cs v rule: vga_chars.induct)
  case (2 c cs v)
  then show ?case using okay_bind_iff [of "vga_ok R" "vga_putchar c v" "vga_chars cs"] vga_putchar_okay [OF 2(2), of c] by (auto simp: okay_iff)
qed simp

lemma vga_puts_okay: "vga_ok R v \<Longrightarrow> okay (vga_ok R) (vga_puts str v)"
  using on_con_okay [where g = "fb_console_puts str", OF _ puts_okay] vga_chars_okay by (simp add: vga_puts_def)

lemma end_batch_okay:
  assumes "console_ok R f"
  shows "okay (console_ok R) (fb_console_end_batch f)"
proof -
  define k where "k = (if fb_swap_deferred f > 0 then f\<lparr>fb_swap_deferred := fb_swap_deferred f - 1\<rparr> else f)"
  have k: "console_ok R k" using assms by (auto simp: k_def console_ok_def fb_ok_def text_ok_def)
  have "fb_console_end_batch f = (if fb_swap_deferred k = 0 \<and> fb_available k then fb_swap_buffers k else Some k)"
    by (simp only: fb_console_end_batch_def Let_def k_def)
  then show ?thesis using k swap_okay [OF k] by simp
qed

lemma vga_batch_okay:
  assumes "vga_ok R v" and "\<And>u. vga_ok R u \<Longrightarrow> okay (vga_ok R) (body u)"
  shows "okay (vga_ok R) (vga_batch body v)"
  unfolding vga_batch_def
proof (rule okay_bind [OF assms(2)])
  show "vga_ok R (if fb_available (con v) then v\<lparr>con := fb_console_begin_batch (con v)\<rparr> else v)"
    using assms(1) by (auto simp: vga_ok_def fb_console_begin_batch_def console_ok_def fb_ok_def text_ok_def)
  show "okay (vga_ok R) (if fb_available (con u) then on_con fb_console_end_batch u else Some u)" if "vga_ok R u" for u
    using on_con_okay [where g = fb_console_end_batch, OF that end_batch_okay] that by simp
qed

lemma each_putchar_vga: "vga_ok R v \<Longrightarrow> okay (vga_ok R) (each (\<lambda>i. vga_putchar (d i)) xs v)"
  by (rule each_keeps) (rule vga_putchar_okay)

lemma vga_numbers_okay:
  assumes "vga_ok R v"
  shows "okay (vga_ok R) (vga_put_dec n v)" and "okay (vga_ok R) (vga_put_hex n v)"
  unfolding vga_put_dec_def vga_put_hex_def
proof (rule_tac [!] vga_batch_okay [OF assms])
  fix u assume u: "vga_ok R u"
  show "okay (vga_ok R) ((if n = 0 then vga_putchar 48 else each vga_putchar (rev (dec_digits n))) u)"
    using vga_putchar_okay [OF u] each_putchar_vga [OF u, of "\<lambda>i. i"] by simp
  show "okay (vga_ok R) (vga_puts [48, 120] u \<bind> each (\<lambda>i. vga_putchar (fb_hex_digit n i)) [28, 24, 20, 16, 12, 8, 4, 0])"
    by (rule okay_bind [OF vga_puts_okay [OF u] each_putchar_vga])
qed

lemma vga_coloured_okay:
  assumes "vga_ok R v"
  shows "okay (vga_ok R) (map_option (vga_setcolor c) (vga_puts str (vga_setcolor d v)))"
  using vga_puts_okay [of R "vga_setcolor d v" str] assms by (auto simp: okay_iff vga_setcolor_def)

lemma puts_ok_okay:
  assumes "console_ok R f"
  shows "okay (console_ok R) (fb_console_puts_ok f)" and "okay (console_ok R) (fb_console_puts_fail f)"
proof -
  have "okay (\<lambda>g. console_ok R (g\<lparr>fg_color := fg_color f\<rparr>)) (fb_console_puts str (f\<lparr>fg_color := c\<rparr>))" for str c
    by (rule okay_mono [OF puts_okay [OF color_ok(1) [OF assms]]]) (rule color_ok)
  from this [of "[79, 75]" FB_TERM_GREEN] this [of "[70, 65, 73, 76, 69, 68]" FB_TERM_RED]
  show "okay (console_ok R) (fb_console_puts_ok f)" "okay (console_ok R) (fb_console_puts_fail f)"
    by (auto simp: fb_console_puts_ok_def fb_console_puts_fail_def okay_iff)
qed

text \<open>The screen part of the invariant under looking back, from any state (\<open>restore_screen\<close> may bring back an older screen).\<close>

lemma unlooked_ok:
  assumes "vga_ok R v" and "unlooked w = unlooked v" and "screen_ok w" and "0 < scroll_offset w \<Longrightarrow> screen_saved w"
  shows "vga_ok R w"
proof -
  have c: "con w = con v" using arg_cong [OF assms(2), of con] by (simp add: unlooked_def)
  have "capture_buffer w = capture_buffer v" using arg_cong [OF assms(2), of capture_buffer] by (simp add: unlooked_def)
  moreover have "capture_max w = capture_max v" using arg_cong [OF assms(2), of capture_max] by (simp add: unlooked_def)
  ultimately have "behind w = behind v" using c by (simp add: behind_def)
  then have "capture_ok w = capture_ok v" by (rule behind_capture)
  moreover have "terminal_row w = terminal_row v" using arg_cong [OF assms(2), of terminal_row] by (simp add: unlooked_def)
  moreover have "terminal_column w = terminal_column v" using arg_cong [OF assms(2), of terminal_column] by (simp add: unlooked_def)
  ultimately show ?thesis using assms(1,3,4) c by (simp add: vga_ok_def)
qed

lemma kept_ok: "vga_ok R v \<Longrightarrow> okay (looking b v) m \<Longrightarrow> okay (vga_ok R) m"
  by (erule okay_mono) (auto simp: looking_def word_gt_0 intro: unlooked_ok)

lemma restore_okay:
  assumes ok: "vga_ok R v"
  shows "okay (vga_ok R) (restore_screen (v\<lparr>scroll_offset := 0\<rparr>))"
proof -
  have s: "screen_ok v" using ok by (simp add: vga_ok_def)
  then have "okay (\<lambda>w. unlooked w = unlooked v \<and> screen_ok w \<and> scroll_offset w = 0) (restore_screen (v\<lparr>scroll_offset := 0\<rparr>))"
    by (simp add: restore_screen_def copy_to_def screen_ok_def vga_set_cursor_def)
  then show ?thesis by (rule okay_mono) (use unlooked_ok [OF ok] in auto)
qed

lemma save_okay:
  assumes ok: "vga_ok R v" and "\<not> fb_available (con v)"
  shows "okay (\<lambda>w. kept (saved_screen w) v w \<and> scroll_offset w = scroll_offset v \<and> scrollback_lines w = scrollback_lines v) (save_screen v)"
proof -
  have s: "screen_ok v" using ok by (simp add: vga_ok_def)
  then show ?thesis using assms(2) by (simp add: save_screen_def kept_def copy_to_def screen_ok_def)
qed

lemma back_okay:
  assumes ok: "vga_ok R v"
  shows "okay (vga_ok R) (vga_scroll_up n v)" and "okay (vga_ok R) (vga_scroll_down n v)" and "okay (vga_ok R) (vga_scroll_reset v)"
proof -
  show "okay (vga_ok R) (vga_scroll_up n v)"
  proof (cases "fb_available (con v)")
    case False
    have "okay (vga_ok R) (save_screen v \<bind> (\<lambda>u. let new = scroll_offset u + n; new = (if scrollback_lines u < new then scrollback_lines u else new) in
        if new = scroll_offset u then Some u else if new = 0 then restore_screen (u\<lparr>scroll_offset := new\<rparr>) else display_scrollback (u\<lparr>scroll_offset := new\<rparr>)))"
    proof (rule okay_bind [OF save_okay [OF ok False]])
      fix u assume u: "kept (saved_screen u) v u \<and> scroll_offset u = scroll_offset v \<and> scrollback_lines u = scrollback_lines v"
      then have "vga_ok R u" by (auto simp: kept_def intro: unlooked_ok [OF ok])
      define new where "new = (if scrollback_lines u < scroll_offset u + n then scrollback_lines u else scroll_offset u + n)"
      have "new \<le> scrollback_lines u" by (auto simp: new_def)
      then have "0 < new \<Longrightarrow> okay (vga_ok R) (display_scrollback (u\<lparr>scroll_offset := new\<rparr>))"
        using u by (blast intro: kept_ok [OF ok] display_looking)
      moreover have "okay (vga_ok R) (restore_screen (u\<lparr>scroll_offset := 0\<rparr>))" by (rule restore_okay [OF \<open>vga_ok R u\<close>])
      ultimately show "okay (vga_ok R) (let new = scroll_offset u + n; new = (if scrollback_lines u < new then scrollback_lines u else new) in
          if new = scroll_offset u then Some u else if new = 0 then restore_screen (u\<lparr>scroll_offset := new\<rparr>) else display_scrollback (u\<lparr>scroll_offset := new\<rparr>))"
        using \<open>vga_ok R u\<close> unfolding Let_def new_def [symmetric] by (simp add: word_gt_0)
    qed
    with False show ?thesis by (simp add: vga_scroll_up_def)
  qed (use ok in \<open>simp add: vga_scroll_up_def\<close>)
  show "okay (vga_ok R) (vga_scroll_down n v)"
  proof (cases "fb_available (con v) \<or> scroll_offset v = 0")
    case False
    then have k: "kept (saved_screen v) v v" and o: "scroll_offset v \<le> scrollback_lines v"
      using ok by (auto simp: vga_ok_def kept_def screen_ok_def word_gt_0)
    have "0 < scroll_offset v - n" "scroll_offset v - n \<le> scrollback_lines v" if "\<not> scroll_offset v \<le> n"
      using that o unat_sub [of n "scroll_offset v"] by (simp_all add: word_less_nat_alt word_le_nat_alt)
    then show ?thesis
      using False restore_okay [OF ok] kept_ok [OF ok display_looking [OF k]] by (auto simp: vga_scroll_down_def)
  qed (use ok in \<open>simp add: vga_scroll_down_def\<close>)
  show "okay (vga_ok R) (vga_scroll_reset v)" using ok restore_okay [OF ok] by (simp add: vga_scroll_reset_def)
qed

lemma vga_clear_okay:
  assumes ok: "vga_ok R v"
  shows "okay (vga_ok R) (vga_clear v)"
proof (cases "fb_available (con v)")
  case True
  with on_con_okay [where g = fb_console_clear, OF ok acts_console [OF _ clear_acts [OF console_okD]]] show ?thesis by (simp add: vga_clear_def)
next
  case False
  with ok show ?thesis by (simp add: vga_clear_def fill_at_def vga_set_cursor_def vga_ok_def screen_ok_def)
qed

lemma run_vga_okay:
  assumes ok: "vga_ok R v" and t: "trusted x"
  shows "okay (vga_ok R) (run_vga x v)"
proof (cases x)
  case Vok
  then show ?thesis
    using vga_coloured_okay [OF ok] on_con_okay [where g = fb_console_puts_ok, OF ok puts_ok_okay(1)] by (simp add: vga_puts_ok_def)
next
  case Vfail
  then show ?thesis
    using vga_coloured_okay [OF ok] on_con_okay [where g = fb_console_puts_fail, OF ok puts_ok_okay(2)] by (simp add: vga_puts_fail_def)
next
  case (Vat c col i j)
  then have "okay (\<lambda>w. screen_ok w \<and> w = v\<lparr>terminal_buffer := terminal_buffer w\<rparr>) (vga_putchar_at c col i j v)"
    using t ok by (intro putchar_at_okay) (simp_all add: trusted_def vga_ok_def)
  then have "okay (vga_ok R) (vga_putchar_at c col i j v)" using ok by (auto simp: okay_iff vga_putchar_at_def vga_ok_def)
  with Vat show ?thesis by simp
next
  case (Vcapture b m)
  with t ok show ?thesis
    by (cases b) (simp_all add: trusted_def vga_set_capture_def vga_ok_def capture_ok_def)
qed (use ok vga_clear_okay [OF ok] vga_putchar_okay [OF ok] vga_puts_okay [OF ok] vga_numbers_okay [OF ok] back_okay [OF ok]
    in \<open>simp_all add: vga_setcolor_def vga_set_cursor_def vga_stop_capture_def\<close>)

section \<open>Properties\<close>

definition vga_unused :: "vga \<Rightarrow> bool" where
  "vga_unused v \<longleftrightarrow> length (saved_screen v) = VGA_WIDTH * VGA_HEIGHT \<and> length (scrollback_buffer v) = VGA_SCROLLBACK * VGA_WIDTH \<and>
     scrollback_pos v = 0 \<and> scrollback_lines v = 0 \<and> scroll_offset v = 0 \<and> \<not> screen_saved v \<and> capture_buffer v = None"

text \<open>
  C36. From \<open>vga_init\<close>, with or without a framebuffer console, no sequence of operations reads or writes outside the screen, the history,
  the saved screen and the capture buffer, if positions given to \<open>vga_putchar_at\<close> are on the screen and capture buffers have the stated size.
\<close>

theorem vga_in_bounds:
  assumes "vga_unused v" and "length mem = VGA_WIDTH * VGA_HEIGHT" and "fb_available (con v) \<longrightarrow> console_ok R (con v)" and "\<forall>x \<in> set ops. trusted x"
  shows "okay (vga_ok R) (each run_vga ops (vga_init mem v))"
proof (rule each_keeps)
  show "vga_ok R (vga_init mem v)"
    using assms(1-3) by (simp add: vga_ok_def vga_unused_def vga_init_def screen_ok_def capture_ok_def)
qed (use assms(4) run_vga_okay in blast)

definition demo_vga :: vga where
  "demo_vga = \<lparr>con = demo_statics, terminal_row = 0, terminal_column = 0, terminal_color = 0, terminal_buffer = [], hw_cursor = 0,
     scrollback_buffer = replicate 16000 0, scrollback_pos = 0, scrollback_lines = 0, scroll_offset = 0,
     saved_screen = replicate 2000 0, screen_saved = False, capture_buffer = None, capture_max = 0, capture_pos = 0, capturing = False\<rparr>"

lemma demo_vga_unused: "vga_unused demo_vga" "\<not> fb_available (con demo_vga)"
  by (simp_all add: vga_unused_def demo_vga_def demo_statics_def)

theorem vga_in_bounds_witness:
  "okay (vga_ok 0) (each run_vga [Vputs [72, 105, 10], Vat 65 7 79 24, Vcapture (Some (replicate 4 0)) 4, Vhex 0xCAFE, Vup 3] (vga_init (replicate 2000 0) demo_vga))"
  by (rule vga_in_bounds) (use demo_vga_unused in \<open>simp_all add: trusted_def\<close>)

text \<open>
  C37. In text mode and with no older screen still saved (one is after a look at an empty history, and then the first look back
  returns to that one: \<open>vga_save_without_history\<close>, \<open>vga_stale_screen\<close>), looking back and forth any number of times shows, at the offset reached, the lines of the history and
  of the screen that belong there (the last column is the indicator), and \<open>vga_scroll_reset\<close> brings the screen back as it was.
\<close>

theorem vga_look_back:
  assumes "screen_ok v" and "\<not> fb_available (con v)" and "scroll_offset v = 0" and "\<not> screen_saved v"
  shows "\<exists>w u. each look_step xs v = Some w \<and> (0 < scroll_offset w \<longrightarrow> shows_back (unat (scroll_offset w)) (terminal_buffer v) w) \<and>
    vga_scroll_reset w = Some u \<and> terminal_buffer u = terminal_buffer v \<and> scroll_offset u = 0 \<and> unlooked u = unlooked v"
proof -
  obtain w where w: "each look_step xs v = Some w" "looking (terminal_buffer v) v w"
    using looks_looking [OF looking_start [OF assms], of xs] by (auto simp: okay_iff)
  have "okay (\<lambda>u. terminal_buffer u = terminal_buffer v \<and> scroll_offset u = 0 \<and> unlooked u = unlooked v) (vga_scroll_reset w)"
  proof (cases "scroll_offset w = 0")
    case False
    then have "screen_saved w" using w(2) by (simp add: looking_def)
    obtain u where u: "restore_screen (w\<lparr>scroll_offset := 0\<rparr>) = Some u" "looking (terminal_buffer v) v u"
      using restore_looking [OF looking_kept [OF w(2) \<open>screen_saved w\<close>]] by (auto simp: okay_iff)
    then have "scroll_offset u = 0" by (auto simp: restore_screen_def vga_set_cursor_def bind_eq_Some_conv split: if_splits)
    with u False w(2) show ?thesis by (simp add: vga_scroll_reset_def looking_def word_gt_0)
  qed (use w(2) in \<open>simp add: vga_scroll_reset_def looking_def\<close>)
  then show ?thesis using w by (auto simp: okay_iff looking_def word_gt_0)
qed

text \<open>A screen with one line scrolled off.\<close>

definition demo_scrolled :: vga where "demo_scrolled = (vga_init (replicate 2000 7) demo_vga)\<lparr>scrollback_pos := 1, scrollback_lines := 1\<rparr>"

theorem vga_look_back_witness:
  "\<exists>w u. each look_step [Up 1, Up 5, Down 9, Up 1] demo_scrolled = Some w \<and>
    (0 < scroll_offset w \<longrightarrow> shows_back (unat (scroll_offset w)) (terminal_buffer demo_scrolled) w) \<and>
    vga_scroll_reset w = Some u \<and> terminal_buffer u = terminal_buffer demo_scrolled \<and> scroll_offset u = 0 \<and> unlooked u = unlooked demo_scrolled"
  by (rule vga_look_back) (simp_all add: demo_scrolled_def vga_init_def demo_vga_def demo_statics_def screen_ok_def)

section \<open>What falls short\<close>

text \<open>
  Looking back when there is no history yet changes nothing but marks the present screen as saved; it stays marked while the
  screen goes on, and the next look back returns to that old screen.
\<close>

lemma vga_save_without_history:
  assumes "screen_ok v" and "\<not> fb_available (con v)" and "scrollback_lines v = 0"
  shows "okay (\<lambda>w. screen_saved w \<and> scroll_offset w = 0 \<and> terminal_buffer w = terminal_buffer v) (vga_scroll_up n v)"
  using assms by (auto simp: vga_scroll_up_def save_screen_def copy_to_def screen_ok_def Let_def word_gt_0)

lemma vga_stale_screen:
  assumes "screen_ok v" and "\<not> fb_available (con v)" and "scroll_offset v = 0" and "screen_saved v" and "0 < scrollback_lines v"
  shows "\<exists>w u. vga_scroll_up 1 v = Some w \<and> vga_scroll_down 1 w = Some u \<and> terminal_buffer u = saved_screen v"
proof -
  have k: "kept (saved_screen v) v v" using assms by (simp add: kept_def)
  have o: "1 \<le> scrollback_lines v" using assms(5) by (simp add: word_le_nat_alt word_less_nat_alt)
  then obtain w where w: "display_scrollback (v\<lparr>scroll_offset := 1\<rparr>) = Some w" "looking (saved_screen v) v w"
    using display_looking [OF k, of 1] by (auto simp: okay_iff)
  have "scroll_offset w = 1"
    using w(1) assms(5) by (auto simp: display_scrollback_def draw_scroll_indicator_def vga_set_cursor_def Let_def bind_eq_Some_conv split: if_splits)
  then have "screen_saved w" "\<not> fb_available (con w)" using w(2) by (simp_all add: looking_def)
  then obtain u where u: "restore_screen (w\<lparr>scroll_offset := 0\<rparr>) = Some u" "looking (saved_screen v) v u"
    using restore_looking [OF looking_kept [OF w(2)]] by (auto simp: okay_iff)
  then have "scroll_offset u = 0" by (auto simp: restore_screen_def vga_set_cursor_def bind_eq_Some_conv split: if_splits)
  then have "terminal_buffer u = saved_screen v" using u(2) by (simp add: looking_def)
  moreover have "vga_scroll_up 1 v = Some w" using w(1) assms o by (simp add: vga_scroll_up_def save_screen_def Let_def)
  moreover have "vga_scroll_down 1 w = Some u"
    using u(1) \<open>scroll_offset w = 1\<close> \<open>\<not> fb_available (con w)\<close> by (simp add: vga_scroll_down_def)
  ultimately show ?thesis by blast
qed

text \<open>With a framebuffer console, text written by \<open>vga_puts\<close> is not captured.\<close>

lemma vga_puts_not_captured:
  "fb_available (con v) \<Longrightarrow> vga_puts str (vga_set_capture b m v) = Some w \<Longrightarrow> capture_pos w = 0 \<and> capture_buffer w = b"
  by (auto simp: vga_puts_def vga_set_capture_def)

end
