(* ===== verification/Sock.thy ===== *)
theory Sock
  imports Net_Flow Loops
begin

text \<open>
  The socket table (\<open>services/net/socket.c\<close>) over TCP and UDP. A connection is an index into the TCP table.
  What a caller's pointer holds is an argument: an address as port and IP address in network order, \<open>None\<close>
  for memory that cannot be read; a buffer as the function that reads its first bytes.
\<close>

section \<open>Sockets\<close>

abbreviation SOCK_STREAM :: int where "SOCK_STREAM \<equiv> 1"
abbreviation SOCK_DGRAM :: int where "SOCK_DGRAM \<equiv> 2"
abbreviation AF_INET :: int where "AF_INET \<equiv> 2"
abbreviation MAX_SOCKETS :: nat where "MAX_SOCKETS \<equiv> 32"

record socket =
  so_type :: int
  so_protocol :: int
  so_local_ip :: u32
  so_local_port :: u16
  so_remote_ip :: u32
  so_remote_port :: u16
  so_conn :: "nat option"
  so_domain :: u8
  so_bound :: bool
  so_connected :: bool
  so_listening :: bool
  so_in_use :: bool

definition zero_socket :: socket where
  "zero_socket = \<lparr>so_type = 0, so_protocol = 0, so_local_ip = 0, so_local_port = 0, so_remote_ip = 0, so_remote_port = 0,
     so_conn = None, so_domain = 0, so_bound = False, so_connected = False, so_listening = False, so_in_use = False\<rparr>"

record snet =
  sockets :: "socket list"
  sn :: net

type_synonym sockaddr = "(u16 \<times> u32) option"

definition socket_init :: "snet \<Rightarrow> snet" where
  "socket_init s = s\<lparr>sockets := replicate MAX_SOCKETS zero_socket, sn := tcp_init (sn s)\<rparr>"

definition get_socket :: "int \<Rightarrow> snet \<Rightarrow> nat option" where
  "get_socket fd s =
     (if fd < 0 \<or> int MAX_SOCKETS \<le> fd then None else if \<not> so_in_use (sockets s ! nat fd) then None else Some (nat fd))"

abbreviation sock_at :: "snet \<Rightarrow> nat \<Rightarrow> socket" where "sock_at s i \<equiv> sockets s ! i"

definition upd_sock :: "nat \<Rightarrow> (socket \<Rightarrow> socket) \<Rightarrow> snet \<Rightarrow> snet" where
  "upd_sock i f s = s\<lparr>sockets := (sockets s)[i := f (sock_at s i)]\<rparr>"

text \<open>A call of the layer below with a result.\<close>

abbreviation on_net :: "(net \<Rightarrow> ('a \<times> net) option) \<Rightarrow> snet \<Rightarrow> ('a \<times> snet) option" where
  "on_net f s \<equiv> map_option (\<lambda>(r, n). (r, s\<lparr>sn := n\<rparr>)) (f (sn s))"

definition socket_create :: "int \<Rightarrow> int \<Rightarrow> snet \<Rightarrow> int \<times> snet" where
  "socket_create domain ty s =
     (if domain \<noteq> AF_INET then (-1, s)
      else if ty \<noteq> SOCK_STREAM \<and> ty \<noteq> SOCK_DGRAM then (-1, s)
      else case find_idx (\<lambda>k. \<not> so_in_use k) (sockets s) of
             None \<Rightarrow> (-1, s)
           | Some i \<Rightarrow> (int i, upd_sock i (\<lambda>_. zero_socket\<lparr>so_in_use := True, so_type := ty, so_domain := of_int domain,
                          so_protocol := (if ty = SOCK_STREAM then 6 else 17)\<rparr>) s))"

definition socket_bind :: "int \<Rightarrow> sockaddr \<Rightarrow> snet \<Rightarrow> (int \<times> snet) option" where
  "socket_bind fd addr s =
     (case get_socket fd s of
        None \<Rightarrow> Some (-1, s)
      | Some i \<Rightarrow> do {
          (port, ip) \<leftarrow> addr;
          Some (0, upd_sock i (\<lambda>k. k\<lparr>so_local_ip := htonl ip, so_local_port := htons port, so_bound := True\<rparr>) s)
        })"

definition socket_listen :: "int \<Rightarrow> snet \<Rightarrow> int \<times> snet" where
  "socket_listen fd s =
     (case get_socket fd s of
        None \<Rightarrow> (-1, s)
      | Some i \<Rightarrow>
          if so_type (sock_at s i) \<noteq> SOCK_STREAM then (-1, s)
          else let (c, n) = tcp_listen (so_local_port (sock_at s i)) (sn s);
                   s1 = upd_sock i (\<lambda>k. k\<lparr>so_conn := c\<rparr>) (s\<lparr>sn := n\<rparr>)
               in if c = None then (-1, s1) else (0, upd_sock i (\<lambda>k. k\<lparr>so_listening := True\<rparr>) s1))"

definition socket_accept :: "int \<Rightarrow> snet \<Rightarrow> int \<times> snet" where
  "socket_accept fd s =
     (case get_socket fd s of
        None \<Rightarrow> (-1, s)
      | Some i \<Rightarrow>
          if \<not> so_listening (sock_at s i) then (-1, s)
          else case so_conn (sock_at s i) \<bind> tcp_accept of
                 None \<Rightarrow> (-1, s)
               | Some c \<Rightarrow>
                   let (newfd, s1) = socket_create AF_INET SOCK_STREAM s
                   in if newfd < 0 then (-1, s1)
                      else (newfd, upd_sock (nat newfd) (\<lambda>k. k\<lparr>so_conn := Some c, so_connected := True,
                              so_remote_ip := tc_remote_ip (conns (sn s1) ! c), so_remote_port := tc_remote_port (conns (sn s1) ! c)\<rparr>) s1))"

definition socket_connect :: "int \<Rightarrow> sockaddr \<Rightarrow> snet \<Rightarrow> (int \<times> snet) option" where
  "socket_connect fd addr s =
     (case get_socket fd s of
        None \<Rightarrow> Some (-1, s)
      | Some i \<Rightarrow> do {
          (port, ip) \<leftarrow> addr;
          let s1 = upd_sock i (\<lambda>k. k\<lparr>so_remote_ip := htonl ip, so_remote_port := htons port\<rparr>) s;
          if so_type (sock_at s1 i) = SOCK_STREAM
          then do {
            (c, s2) \<leftarrow> on_net (tcp_connect net_poll (htonl ip) (htons port)) s1;
            let s3 = upd_sock i (\<lambda>k. k\<lparr>so_conn := c\<rparr>) s2;
            Some (if c = None then (-1, s3) else (0, upd_sock i (\<lambda>k. k\<lparr>so_connected := True\<rparr>) s3))
          }
          else Some (0, upd_sock i (\<lambda>k. k\<lparr>so_connected := True\<rparr>) s1)
        })"

text \<open>The lengths become 16 bits wide on the way down; \<open>udp_send\<close> reads at most 1492 bytes.\<close>

definition len16 :: "u32 \<Rightarrow> nat" where "len16 len = unat (ucast len :: u16)"

definition dgram :: "(nat \<Rightarrow> u8 list option) \<Rightarrow> u32 \<Rightarrow> u8 list option" where
  "dgram buf len = map_option (\<lambda>bs. bs @ replicate (len16 len - length bs) 0) (buf (min 1492 (len16 len)))"

definition socket_send :: "int \<Rightarrow> (nat \<Rightarrow> u8 list option) \<Rightarrow> u32 \<Rightarrow> snet \<Rightarrow> (int \<times> snet) option" where
  "socket_send fd buf len s =
     (case get_socket fd s of
        None \<Rightarrow> Some (-1, s)
      | Some i \<Rightarrow>
          let k = sock_at s i in
          if \<not> so_connected k then Some (-1, s)
          else if so_type k = SOCK_STREAM then
            (case so_conn k of
               None \<Rightarrow> Some (-1, s)
             | Some c \<Rightarrow>
                 if tc_state (conns (sn s) ! c) \<noteq> TCP_ESTABLISHED then Some (-1, s)
                 else do { bs \<leftarrow> buf (len16 len); on_net (tcp_send net_poll (Some c) bs) s })
          else if so_type k = SOCK_DGRAM then
            do { bs \<leftarrow> dgram buf len; on_net (udp_send net_poll (so_remote_ip k) (so_local_port k) (so_remote_port k) bs) s }
          else Some (-1, s))"

text \<open>The result and the bytes stored in the caller's buffer.\<close>

definition socket_recv :: "int \<Rightarrow> u32 \<Rightarrow> snet \<Rightarrow> (int \<times> u8 list) \<times> snet" where
  "socket_recv fd len s =
     (case get_socket fd s of
        None \<Rightarrow> ((-1, []), s)
      | Some i \<Rightarrow>
          if so_type (sock_at s i) = SOCK_STREAM
          then let (r, n) = tcp_recv (so_conn (sock_at s i)) (ucast len) (sn s) in (r, s\<lparr>sn := n\<rparr>)
          else ((-1, []), s))"

definition socket_sendto :: "int \<Rightarrow> (nat \<Rightarrow> u8 list option) \<Rightarrow> u32 \<Rightarrow> sockaddr \<Rightarrow> snet \<Rightarrow> (int \<times> snet) option" where
  "socket_sendto fd buf len addr s =
     (case get_socket fd s of
        None \<Rightarrow> Some (-1, s)
      | Some i \<Rightarrow>
          if so_type (sock_at s i) \<noteq> SOCK_DGRAM then Some (-1, s)
          else do {
            (port, ip) \<leftarrow> addr;
            bs \<leftarrow> dgram buf len;
            on_net (udp_send net_poll (htonl ip) (so_local_port (sock_at s i)) (htons port) bs) s
          })"

text \<open>Not implemented: every call fails.\<close>

definition socket_recvfrom :: "int \<Rightarrow> snet \<Rightarrow> int" where
  "socket_recvfrom fd s = -1"

definition socket_close :: "int \<Rightarrow> snet \<Rightarrow> (int \<times> snet) option" where
  "socket_close fd s =
     (case get_socket fd s of
        None \<Rightarrow> Some (-1, s)
      | Some i \<Rightarrow> do {
          s1 \<leftarrow> (if so_type (sock_at s i) = SOCK_STREAM \<and> so_conn (sock_at s i) \<noteq> None
                 then map_option (\<lambda>n. s\<lparr>sn := n\<rparr>) (tcp_close net_poll (so_conn (sock_at s i)) (sn s)) else Some s);
          Some (0, upd_sock i (\<lambda>k. k\<lparr>so_in_use := False\<rparr>) s1)
        })"

definition socket_shutdown :: "int \<Rightarrow> int \<Rightarrow> snet \<Rightarrow> (int \<times> snet) option" where
  "socket_shutdown fd how s =
     (case get_socket fd s of
        None \<Rightarrow> Some (-1, s)
      | Some i \<Rightarrow>
          if so_type (sock_at s i) = SOCK_STREAM \<and> so_conn (sock_at s i) \<noteq> None \<and> (how = 1 \<or> how = 2)
          then map_option (\<lambda>n. (0, s\<lparr>sn := n\<rparr>)) (tcp_close net_poll (so_conn (sock_at s i)) (sn s))
          else Some (0, s))"

text \<open>Family, port and address stored at the caller's pointer.\<close>

definition socket_getpeername :: "int \<Rightarrow> snet \<Rightarrow> (u16 \<times> u16 \<times> u32) option" where
  "socket_getpeername fd s =
     (case get_socket fd s of
        None \<Rightarrow> None
      | Some i \<Rightarrow> if \<not> so_connected (sock_at s i) then None
                  else Some (2, htons (so_remote_port (sock_at s i)), htonl (so_remote_ip (sock_at s i))))"

definition socket_getsockname :: "int \<Rightarrow> snet \<Rightarrow> (u16 \<times> u16 \<times> u32) option" where
  "socket_getsockname fd s =
     map_option (\<lambda>i. (2, htons (so_local_port (sock_at s i)), htonl (so_local_ip (sock_at s i)))) (get_socket fd s)"

text \<open>No option does anything.\<close>

definition socket_setsockopt :: "int \<Rightarrow> snet \<Rightarrow> int" where
  "socket_setsockopt fd s = (if get_socket fd s = None then -1 else 0)"

definition socket_getsockopt :: "int \<Rightarrow> snet \<Rightarrow> int" where
  "socket_getsockopt fd s = (if get_socket fd s = None then -1 else 0)"

text \<open>\<open>nfds\<close> sockets are counted, once as readable and once as writable; the sets are not changed.\<close>

definition socket_select :: "int \<Rightarrow> u32 option \<Rightarrow> u32 option \<Rightarrow> snet \<Rightarrow> int" where
  "socket_select nfds readfds writefds s =
     (\<Sum>i \<leftarrow> [0 ..< min (nat nfds) MAX_SOCKETS].
        case get_socket (int i) s of
          None \<Rightarrow> 0
        | Some k \<Rightarrow>
            (if (case readfds of None \<Rightarrow> False | Some m \<Rightarrow> m AND push_bit i 1 \<noteq> 0) \<and> so_listening (sock_at s k) then 1 else 0) +
            (if (case writefds of None \<Rightarrow> False | Some m \<Rightarrow> m AND push_bit i 1 \<noteq> 0) \<and>
                (so_connected (sock_at s k) \<or> so_type (sock_at s k) = SOCK_DGRAM) then 1 else 0))"

definition socket_get_info :: "int \<Rightarrow> snet \<Rightarrow> (int \<times> u32 \<times> u16 \<times> u32 \<times> u16 \<times> nat) option" where
  "socket_get_info index s =
     map_option (\<lambda>i. let k = sock_at s i in
       (so_type k, so_local_ip k, so_local_port k, so_remote_ip k, so_remote_port k,
        if so_listening k then 1 else if so_connected k then 2 else 0)) (get_socket index s)"

end
