(* ===== verification/Http.thy ===== *)
theory Http
  imports Sock
begin

text \<open>
  The HTTP client (\<open>services/net/http.c\<close>) over the sockets. Texts are byte lists without their final zero; \<open>int\<close> and
  \<open>uint32_t\<close> fields that are computed from digits are words. The request is built in an array of 512 (\<open>http_get\<close>)
  or 1024 bytes, a longer one is written past it: \<open>None\<close>.
\<close>

section \<open>Strings\<close>

definition bytes :: "string \<Rightarrow> u8 list" where "bytes s = map of_char s"

definition text_at :: "u8 list \<Rightarrow> u8 list" where "text_at bs = takeWhile (\<lambda>b. b \<noteq> 0) bs"

definition digit :: "u8 \<Rightarrow> bool" where "digit b \<longleftrightarrow> 48 \<le> b \<and> b \<le> 57"

text \<open>\<open>strstr\<close>: where the pattern first begins.\<close>

fun find_sub :: "u8 list \<Rightarrow> u8 list \<Rightarrow> nat option" where
  "find_sub pat [] = (if pat = [] then Some 0 else None)"
| "find_sub pat (b # bs) = (if take (length pat) (b # bs) = pat then Some 0 else map_option Suc (find_sub pat bs))"

text \<open>\<open>while (*p >= '0' && *p <= '9') n = n * 10 + (*p++ - '0');\<close>\<close>

definition read_number :: "u8 list \<Rightarrow> u32" where
  "read_number bs = fold (\<lambda>b n. n * 10 + ucast (b - 48)) (takeWhile digit bs) 0"

section \<open>Responses\<close>

record http_response =
  status_code :: u32
  status_text :: "u8 list"
  content_type :: "u8 list"
  content_length :: u32
  body :: "u8 list"

definition zero_response :: http_response where
  "zero_response = \<lparr>status_code = 0, status_text = [], content_type = [], content_length = 0, body = []\<rparr>"

definition header_value :: "u8 list \<Rightarrow> u8 list \<Rightarrow> u8 list \<Rightarrow> u8 list option" where
  "header_value n1 n2 headers =
     map_option (\<lambda>i. dropWhile (\<lambda>b. b = 32) (drop (i + length n1) headers))
       (case find_sub n1 headers of None \<Rightarrow> find_sub n2 headers | Some i \<Rightarrow> Some i)"

definition line_part :: "nat \<Rightarrow> u8 list \<Rightarrow> u8 list" where
  "line_part n bs = take n (takeWhile (\<lambda>b. b \<noteq> 13 \<and> b \<noteq> 10) bs)"

text \<open>\<open>data\<close> are the bytes received; a zero byte follows them.\<close>

definition http_parse_response :: "u8 list \<Rightarrow> http_response \<Rightarrow> int \<times> http_response" where
  "http_parse_response data r =
     (if length data < 12 then (-1, r)
      else if take 7 (text_at data) \<noteq> bytes ''HTTP/1.'' then (-1, r)
      else
        let p = text_at (drop 9 data);
            q = dropWhile digit p;
            q = (case q of b # bs \<Rightarrow> if b = 32 then bs else q | [] \<Rightarrow> q);
            r = r\<lparr>status_code := read_number p, status_text := line_part 31 q\<rparr>
        in case find_sub [13, 10] (text_at data) of
             None \<Rightarrow> (-1, r)
           | Some h \<Rightarrow>
               let headers = drop (h + 2) (text_at data);
                   r = r\<lparr>content_length := (case header_value (bytes ''Content-Length:'') (bytes ''content-length:'') headers of
                                             None \<Rightarrow> 0 | Some v \<Rightarrow> read_number v)\<rparr>;
                   r = r\<lparr>content_type := (case header_value (bytes ''Content-Type:'') (bytes ''content-type:'') headers of
                                           None \<Rightarrow> [] | Some v \<Rightarrow> take 63 (takeWhile (\<lambda>b. b \<noteq> 13 \<and> b \<noteq> 10 \<and> b \<noteq> 59) v))\<rparr>
               in (0, case find_sub [13, 10, 13, 10] (text_at data) of
                        None \<Rightarrow> r
                      | Some i \<Rightarrow> r\<lparr>body := take 4095 (drop (i + 4) data)\<rparr>))"

section \<open>Requests\<close>

abbreviation crlf :: "u8 list" where "crlf \<equiv> [13, 10]"

definition get_request :: "u8 list \<Rightarrow> u8 list \<Rightarrow> u8 list" where
  "get_request server path =
     bytes ''GET '' @ path @ bytes '' HTTP/1.1'' @ crlf @ bytes ''Host: '' @ server @ crlf @ bytes ''Connection: close'' @ crlf @ crlf"

text \<open>The digits of a length, as in \<open>len_str\<close>.\<close>

function http_dec :: "nat \<Rightarrow> u8 list" where
  "http_dec n = (if n < 10 then [48 + of_nat n] else http_dec (n div 10) @ [48 + of_nat (n mod 10)])"
  by pat_completeness auto
termination by (relation "measure id") auto

declare http_dec.simps [simp del]

definition post_head :: "u8 list \<Rightarrow> u8 list \<Rightarrow> nat \<Rightarrow> u8 list" where
  "post_head server path body_len =
     bytes ''POST '' @ path @ bytes '' HTTP/1.1'' @ crlf @ bytes ''Host: '' @ server @ crlf @
     bytes ''Content-Type: application/x-www-form-urlencoded'' @ crlf @ bytes ''Content-Length: '' @ http_dec body_len @ crlf @
     bytes ''Connection: close'' @ crlf @ crlf"

definition post_request :: "u8 list \<Rightarrow> u8 list \<Rightarrow> u8 list option \<Rightarrow> u8 list" where
  "post_request server path b =
     (let h = post_head server path (case b of None \<Rightarrow> 0 | Some bs \<Rightarrow> length bs)
      in h @ (case b of None \<Rightarrow> [] | Some bs \<Rightarrow> take (1023 - length h) bs))"

text \<open>The receiving loop: at most 4095 bytes, until the connection gives none.\<close>

function recv_loop :: "int \<Rightarrow> nat \<Rightarrow> u8 list \<Rightarrow> snet \<Rightarrow> u8 list \<times> snet" where
  "recv_loop sock sofar got s =
     (if sofar < 4095
      then let ((r, bs), s1) = socket_recv sock (of_nat (4095 - sofar)) s
           in if r \<le> 0 then (got, s1) else recv_loop sock (sofar + nat r) (got @ bs) s1
      else (got, s))"
  by pat_completeness auto
termination by (relation "measure (\<lambda>(k, sofar, got, s). 4095 - sofar)") auto

declare recv_loop.simps [simp del]

definition http_finish :: "int \<Rightarrow> http_response \<Rightarrow> snet \<Rightarrow> ((int \<times> http_response) \<times> snet) option" where
  "http_finish sock r s =
     (let (got, s1) = recv_loop sock 0 [] s
      in map_option (\<lambda>(_, s2). (if got = [] then (-1, r) else (0, snd (http_parse_response got r)), s2)) (socket_close sock s1))"

definition http_get :: "string \<Rightarrow> string \<Rightarrow> snet \<Rightarrow> ((int \<times> http_response) \<times> snet) option" where
  "http_get server path s = do {
     ((r, ip), s) \<leftarrow> on_net (dns_resolve net_poll server) s;
     (case ip of
        None \<Rightarrow> Some ((-1, zero_response), s)
      | Some a \<Rightarrow>
          (let (sock, s) = socket_create AF_INET SOCK_STREAM s in
           if sock < 0 then Some ((-1, zero_response), s)
           else do {
             (r, s) \<leftarrow> socket_connect sock (Some (htons 80, a)) s;
             if r < 0 then map_option (\<lambda>(_, s). ((-1, zero_response), s)) (socket_close sock s)
             else let req = get_request (bytes server) (bytes path) in
               if 512 \<le> length req then None
               else do {
                 (r, s) \<leftarrow> socket_send sock (\<lambda>n. Some (take n req)) (of_nat (length req)) s;
                 if r < 0 then map_option (\<lambda>(_, s). ((-1, zero_response), s)) (socket_close sock s)
                 else http_finish sock zero_response s
               }
           }))
   }"

definition http_post :: "string \<Rightarrow> string \<Rightarrow> u8 list option \<Rightarrow> snet \<Rightarrow> ((int \<times> http_response) \<times> snet) option" where
  "http_post server path b s = do {
     ((r, ip), s) \<leftarrow> on_net (dns_resolve net_poll server) s;
     (case ip of
        None \<Rightarrow> Some ((-1, zero_response), s)
      | Some a \<Rightarrow>
          (let (sock, s) = socket_create AF_INET SOCK_STREAM s in
           if sock < 0 then Some ((-1, zero_response), s)
           else do {
             (r, s) \<leftarrow> socket_connect sock (Some (htons 80, a)) s;
             if r < 0 then map_option (\<lambda>(_, s). ((-1, zero_response), s)) (socket_close sock s)
             else let req = post_request (bytes server) (bytes path) b in
               if 1024 \<le> length req then None
               else do {
                 (_, s) \<leftarrow> socket_send sock (\<lambda>n. Some (take n req)) (of_nat (length req)) s;
                 http_finish sock zero_response s
               }
           }))
   }"

end
