(* ===== verification/Syscall.thy ===== *)
theory Syscall
  imports Fs_Props Ipc Mmap Kbd Vga_Props Http
begin

text \<open>
  The system call layer (\<open>kernel/syscall\<close>) over the components it calls. \<open>kern\<close> is their joint state; memory is
  that of \<open>Mmap\<close>, user pointers are virtual addresses, and an access to a page that is not mapped, a wait
  that nothing can end and an access out of the bounds of an array are \<open>None\<close>. So is a store through a pointer into the
  kernel's half of the address space, from \<open>0xC0000000\<close> on: the socket calls make such stores without a check, and they
  overwrite the very tables that the other components of the state are, so no statement here covers what comes after. Frames
  mapped in the half of the program are taken not to hold data of the kernel. Interrupts are off during a system call (the gate of
  vector 0x80 is an interrupt gate and no handler enables them).

  What the allocators answer, the clock and the ELF loader's result are the fields of \<open>env\<close>.
\<close>

section \<open>State\<close>

record kern =
  k_procs :: procs
  k_ipc :: ipc
  k_fs :: fs
  k_mm :: mm
  k_kbd :: kbd
  k_vga :: vga
  k_serial :: "u8 list"
  k_net :: snet
  shell_stack_base :: u32
  shell_stack_top :: u32

record env =
  e_now :: u32
  e_ticks :: u32
  e_grow :: bool
  e_node :: fs_mem
  e_loaded :: u32

abbreviation VFS_O_APPEND :: u32 where "VFS_O_APPEND \<equiv> 0x0008"
abbreviation VFS_O_CREAT :: u32 where "VFS_O_CREAT \<equiv> 0x0100"
abbreviation VFS_O_TRUNC :: u32 where "VFS_O_TRUNC \<equiv> 0x0200"
abbreviation KERNEL_BASE :: u32 where "KERNEL_BASE \<equiv> 0xC0000000"

type_synonym sysres = "(int \<times> kern) option"

text \<open>One component of the state.\<close>

abbreviation with_procs :: "(procs \<Rightarrow> int \<times> procs) \<Rightarrow> kern \<Rightarrow> int \<times> kern" where
  "with_procs f k \<equiv> (let (r, t) = f (k_procs k) in (r, k\<lparr>k_procs := t\<rparr>))"

definition syscall_set_shell_stack :: "u32 \<Rightarrow> u32 \<Rightarrow> kern \<Rightarrow> kern" where
  "syscall_set_shell_stack b t k = k\<lparr>shell_stack_base := b, shell_stack_top := t\<rparr>"

section \<open>The serial line\<close>

text \<open>The bytes sent.\<close>

definition serial_putc :: "u8 \<Rightarrow> u8 list" where "serial_putc c = (if c = 10 then [13, 10] else [c])"

definition serial_puts :: "u8 list \<Rightarrow> u8 list" where "serial_puts s = concat (map serial_putc (takeWhile (\<lambda>c. c \<noteq> 0) s))"

section \<open>User memory\<close>

definition user_bytes :: "u32 \<Rightarrow> nat \<Rightarrow> kern \<Rightarrow> u8 list option" where
  "user_bytes a n k =
     (let m = k_mm k in
      if list_all (\<lambda>i. mapped m (a + of_nat i)) [0 ..< n] then Some (map (\<lambda>i. mem m (phys_of m (a + of_nat i))) [0 ..< n]) else None)"

text \<open>A store, byte by byte: every byte is mapped, and none is the kernel's.\<close>

definition put_user :: "u32 \<Rightarrow> u8 list \<Rightarrow> kern \<Rightarrow> kern option" where
  "put_user a bs k =
     (let m = k_mm k in
      if list_all (\<lambda>i. a + of_nat i < KERNEL_BASE \<and> mapped m (a + of_nat i)) [0 ..< length bs]
      then Some (k\<lparr>k_mm := m\<lparr>mem := fold (\<lambda>i f. f(phys_of m (a + of_nat i) := bs ! i)) [0 ..< length bs] (mem m)\<rparr>\<rparr>) else None)"

definition user_pages :: "u32 \<Rightarrow> u32 \<Rightarrow> u32 list" where
  "user_pages first_page last_page =
     (if last_page < first_page then [] else map (\<lambda>i. first_page + of_nat i * 0x1000) [0 ..< unat (last_page - first_page) div 4096 + 1])"

definition validate_user_ptr :: "u32 \<Rightarrow> u32 \<Rightarrow> kern \<Rightarrow> bool" where
  "validate_user_ptr ptr sz k \<longleftrightarrow>
     ptr \<noteq> 0 \<and> ptr < KERNEL_BASE \<and> \<not> ptr + sz < ptr \<and> ptr + sz < KERNEL_BASE \<and>
     list_all (mapped (k_mm k)) (user_pages (ptr AND 0xFFFFF000) ((ptr + sz - 1) AND 0xFFFFF000))"

text \<open>
  The loop of \<open>validate_user_string\<close>: \<open>Some None\<close> when it refuses, \<open>Some (Some s)\<close> when it finds the end of
  the text \<open>s\<close>, \<open>None\<close> when reading a byte faults. Only the first byte of a page is checked before it is read.
\<close>

fun user_text :: "nat \<Rightarrow> u32 \<Rightarrow> kern \<Rightarrow> u8 list option option" where
  "user_text 0 a k = Some None"
| "user_text (Suc n) a k =
     (if KERNEL_BASE \<le> a then Some None
      else if a AND 0xFFF = 0 \<and> \<not> mapped (k_mm k) a then Some None
      else if \<not> mapped (k_mm k) a then None
      else let b = mem (k_mm k) (phys_of (k_mm k) a) in
        if b = 0 then Some (Some []) else map_option (map_option (Cons b)) (user_text n (a + 1) k))"

definition validate_user_string :: "u32 \<Rightarrow> nat \<Rightarrow> kern \<Rightarrow> u8 list option option" where
  "validate_user_string ptr n k = (if ptr = 0 \<or> KERNEL_BASE \<le> ptr then Some None else user_text n ptr k)"

definition text_of :: "u8 list \<Rightarrow> string" where "text_of s = map (\<lambda>b. char_of (unat b)) s"

section \<open>Descriptors\<close>

definition alloc_fd :: "kern \<Rightarrow> (nat \<times> nat) option \<times> kern" where
  "alloc_fd k =
     (case process_current (k_procs k) of
        None \<Rightarrow> (None, k)
      | Some i \<Rightarrow>
          (case find_idx (\<lambda>f. \<not> fd_in_use (fd_table (proc_at (k_procs k) i) ! f)) [3 ..< MAX_FDS_PER_PROC] of
             None \<Rightarrow> (None, k)
           | Some j \<Rightarrow> (Some (i, 3 + j), k\<lparr>k_procs := upd_fd i (3 + j) (\<lambda>f. f\<lparr>fd_in_use := True, fd_offset := 0\<rparr>) (k_procs k)\<rparr>)))"

definition clear_fd :: "fd_entry \<Rightarrow> fd_entry" where
  "clear_fd f = f\<lparr>fd_node := 0, fd_offset := 0, fd_flags := 0, fd_in_use := False\<rparr>"

definition free_fd :: "nat \<Rightarrow> procs \<Rightarrow> procs" where
  "free_fd fd t =
     (case process_current t of
        None \<Rightarrow> t
      | Some i \<Rightarrow> if 3 \<le> fd \<and> fd < MAX_FDS_PER_PROC then upd_fd i fd clear_fd t else t)"

definition descriptor :: "u32 \<Rightarrow> kern \<Rightarrow> (nat \<times> nat) option" where
  "descriptor fd k = fd_lookup (uint fd) (k_procs k)"

definition fd_at :: "nat \<times> nat \<Rightarrow> kern \<Rightarrow> fd_entry" where
  "fd_at d k = fd_table (proc_at (k_procs k) (fst d)) ! snd d"

definition vnode_of :: "u32 \<Rightarrow> nat option" where "vnode_of a = (if a = 0 then None else Some (unat a))"

definition advance :: "nat \<times> nat \<Rightarrow> int \<Rightarrow> kern \<Rightarrow> kern" where
  "advance d r k = (if 0 < r then k\<lparr>k_procs := upd_fd (fst d) (snd d) (\<lambda>f. f\<lparr>fd_offset := fd_offset f + of_int r\<rparr>) (k_procs k)\<rparr> else k)"

section \<open>Files\<close>

text \<open>Reading the keyboard: with no event left and nothing read yet, \<open>hlt\<close> waits for an interrupt that cannot come.\<close>

partial_function (option) stdin_loop :: "nat \<Rightarrow> u8 list \<Rightarrow> kbd \<Rightarrow> (u8 list \<times> kbd) option" where
  "stdin_loop n got q =
     (if length got < n then
        (case keyboard_get_event q of
           (None, q1) \<Rightarrow> if got = [] then None else Some (got, q1)
         | (Some e, q1) \<Rightarrow>
             if ke_pressed e \<and> ke_ascii e \<noteq> 0
             then if ke_ascii e = 10 then Some (got @ [10], q1) else stdin_loop n (got @ [ke_ascii e]) q1
             else stdin_loop n got q1)
      else Some (got, q))"

definition sys_read :: "env \<Rightarrow> u32 \<Rightarrow> u32 \<Rightarrow> u32 \<Rightarrow> kern \<Rightarrow> sysres" where
  "sys_read e fd buf count k =
     (if count = 0 then Some (0, k)
      else if \<not> validate_user_ptr buf count k then Some (-14, k)
      else if fd = 0 then do {
        (bs, q) \<leftarrow> stdin_loop (unat count) [] (k_kbd k);
        k \<leftarrow> put_user buf bs (k\<lparr>k_kbd := q\<rparr>);
        Some (int (length bs), k)
      }
      else case descriptor fd k of
             None \<Rightarrow> Some (-9, k)
           | Some d \<Rightarrow>
               if fd_node (fd_at d k) = 0 then Some (-9, k)
               else do {
                 ((r, bs), s) \<leftarrow> vfs_read (e_now e) (vnode_of (fd_node (fd_at d k))) (fd_offset (fd_at d k)) count (k_fs k);
                 k \<leftarrow> put_user buf bs (k\<lparr>k_fs := s\<rparr>);
                 Some (r, advance d r k)
               })"

definition sys_write :: "env \<Rightarrow> u32 \<Rightarrow> u32 \<Rightarrow> u32 \<Rightarrow> kern \<Rightarrow> sysres" where
  "sys_write e fd buf count k =
     (if count = 0 then Some (0, k)
      else if \<not> validate_user_ptr buf count k then Some (-14, k)
      else if fd = 1 \<or> fd = 2 then do {
        bs \<leftarrow> user_bytes buf (unat count) k;
        v \<leftarrow> each vga_putchar bs (k_vga k);
        Some (sint count, k\<lparr>k_vga := v, k_serial := k_serial k @ concat (map serial_putc bs)\<rparr>)
      }
      else case descriptor fd k of
             None \<Rightarrow> Some (-9, k)
           | Some d \<Rightarrow>
               if fd_node (fd_at d k) = 0 then Some (-9, k)
               else do {
                 bs \<leftarrow> user_bytes buf (unat count) k;
                 (r, s) \<leftarrow> (if fd_flags (fd_at d k) AND VFS_O_APPEND \<noteq> 0
                           then vfs_append (e_grow e) (e_now e) (vnode_of (fd_node (fd_at d k))) count bs (k_fs k)
                           else vfs_write (e_grow e) (e_now e) (vnode_of (fd_node (fd_at d k))) (fd_offset (fd_at d k)) count bs (k_fs k));
                 Some (r, advance d r (k\<lparr>k_fs := s\<rparr>))
               })"

text \<open>The part of \<open>sys_open\<close> that creates a missing file.\<close>

definition open_create :: "env \<Rightarrow> string \<Rightarrow> fs \<Rightarrow> (nat option \<times> fs) option" where
  "open_create e path s =
     (let path = take 255 path in
      case last_slash path of
        None \<Rightarrow> Some (None, s)
      | Some i \<Rightarrow>
          let filename = drop (i + 1) path;
              parent = (if i = 0 then vfs_root s else vfs_lookup (take i path) s)
          in if \<not> vfs_is_directory parent s then Some (None, s)
             else do {
               (r, s) \<leftarrow> vfs_create (e_node e) (e_now e) parent filename VFS_FILE s;
               Some (if r = 0 then vfs_finddir parent filename s else None, s)
             })"

definition sys_open :: "env \<Rightarrow> u32 \<Rightarrow> u32 \<Rightarrow> kern \<Rightarrow> sysres" where
  "sys_open e path flags k = do {
     p \<leftarrow> validate_user_string path 256 k;
     (case p of
        None \<Rightarrow> Some (-14, k)
      | Some t \<Rightarrow> do {
          let pathname = text_of t;
          (node, s) \<leftarrow> (case vfs_lookup pathname (k_fs k) of
             None \<Rightarrow> if flags AND VFS_O_CREAT \<noteq> 0 then open_create e pathname (k_fs k) else Some (None, k_fs k)
           | Some a \<Rightarrow> Some (Some a, k_fs k));
          let k = k\<lparr>k_fs := s\<rparr>;
          (case node of
             None \<Rightarrow> Some (-2, k)
           | Some a \<Rightarrow>
               if vfs_is_directory node s then Some (-21, k)
               else case alloc_fd k of
                      (None, k) \<Rightarrow> Some (-24, k)
                    | (Some (i, fd), k) \<Rightarrow>
                        let s = (if flags AND VFS_O_TRUNC \<noteq> 0 then snd (vfs_truncate node (k_fs k)) else k_fs k);
                            off = (if flags AND VFS_O_APPEND \<noteq> 0 then n_length (node_at s a) else 0)
                        in Some (int fd, k\<lparr>k_fs := s,
                             k_procs := upd_fd i fd (\<lambda>f. f\<lparr>fd_node := of_nat a, fd_flags := flags, fd_offset := off\<rparr>) (k_procs k)\<rparr>))
        })
   }"

definition sys_close :: "u32 \<Rightarrow> kern \<Rightarrow> int \<times> kern" where
  "sys_close fd k =
     (if fd < 3 then (0, k)
      else case descriptor fd k of None \<Rightarrow> (-9, k) | Some d \<Rightarrow> (0, k\<lparr>k_procs := free_fd (unat fd) (k_procs k)\<rparr>))"

definition sys_lseek :: "u32 \<Rightarrow> u32 \<Rightarrow> u32 \<Rightarrow> kern \<Rightarrow> int \<times> kern" where
  "sys_lseek fd offset whence k =
     (if fd < 3 then (-29, k)
      else case descriptor fd k of
             None \<Rightarrow> (-9, k)
           | Some d \<Rightarrow>
               if fd_node (fd_at d k) = 0 then (-9, k)
               else
                 let base = (if whence = 0 then Some 0
                             else if whence = 1 then Some (fd_offset (fd_at d k))
                             else if whence = 2 then Some (n_length (node_at (k_fs k) (unat (fd_node (fd_at d k)))))
                             else None)
                 in case base of
                      None \<Rightarrow> (-22, k)
                    | Some b \<Rightarrow>
                        if sint (b + offset) < 0 then (-22, k)
                        else (sint (b + offset),
                              k\<lparr>k_procs := upd_fd (fst d) (snd d) (\<lambda>f. f\<lparr>fd_offset := b + offset\<rparr>) (k_procs k)\<rparr>))"

text \<open>The user and group ids and the permissions of RAM file system nodes are 0.\<close>

definition stat_words :: "vnode \<Rightarrow> u32 list" where
  "stat_words n = [n_inode n, n_flags n, n_length n, 0, 0, 0, n_mtime n, n_ctime n]"

definition sys_stat :: "u32 \<Rightarrow> u32 \<Rightarrow> kern \<Rightarrow> sysres" where
  "sys_stat path stat_buf k = do {
     p \<leftarrow> validate_user_string path 256 k;
     (case p of
        None \<Rightarrow> Some (-14, k)
      | Some t \<Rightarrow>
          if \<not> validate_user_ptr stat_buf 32 k then Some (-14, k)
          else case vfs_lookup (text_of t) (k_fs k) of
                 None \<Rightarrow> Some (-2, k)
               | Some a \<Rightarrow> map_option (Pair 0) (put_user stat_buf (concat (map le32 (stat_words (node_at (k_fs k) a)))) k))
   }"

end
