(* ===== verification/Syscall_Table.thy ===== *)
theory Syscall_Table
  imports Syscall
begin

text \<open>
  The system calls on processes, signals, communication, memory and sockets, and the dispatcher
  (\<open>syscall_proc.c\<close>, \<open>syscall_net.c\<close>, \<open>syscall.c\<close>).
\<close>

section \<open>Processes and signals\<close>

definition sys_getpid :: "kern \<Rightarrow> int" where
  "sys_getpid k = (case process_current (k_procs k) of None \<Rightarrow> 1 | Some i \<Rightarrow> sint (pid (proc_at (k_procs k) i)))"

definition sys_getppid :: "kern \<Rightarrow> int" where
  "sys_getppid k = (case process_current (k_procs k) of None \<Rightarrow> 0 | Some i \<Rightarrow> sint (ppid (proc_at (k_procs k) i)))"

definition sys_fork :: "env \<Rightarrow> kern \<Rightarrow> int \<times> kern" where "sys_fork e k = with_procs (process_fork (e_ticks e)) k"

definition sys_kill :: "u32 \<Rightarrow> u32 \<Rightarrow> kern \<Rightarrow> int \<times> kern" where "sys_kill p sig k = with_procs (process_signal p (sint sig)) k"

definition sys_setpgid :: "u32 \<Rightarrow> u32 \<Rightarrow> kern \<Rightarrow> int \<times> kern" where "sys_setpgid p pg k = with_procs (process_setpgid p pg) k"

definition sys_getpgid :: "u32 \<Rightarrow> kern \<Rightarrow> int" where "sys_getpgid p k = process_getpgid p (k_procs k)"

text \<open>A result stored through a pointer that was accepted; nothing is stored through another one.\<close>

definition put_opt :: "bool \<Rightarrow> u32 \<Rightarrow> u8 list option \<Rightarrow> kern \<Rightarrow> kern option" where
  "put_opt ok ptr bs k = (case bs of None \<Rightarrow> Some k | Some b \<Rightarrow> if ok then put_user ptr b k else Some k)"

definition accepted :: "u32 \<Rightarrow> u32 \<Rightarrow> kern \<Rightarrow> bool" where "accepted ptr sz k \<longleftrightarrow> ptr \<noteq> 0 \<and> validate_user_ptr ptr sz k"

definition sys_waitpid :: "u32 \<Rightarrow> u32 \<Rightarrow> kern \<Rightarrow> sysres" where
  "sys_waitpid p status k =
     (let ((r, st), t) = process_waitpid (sint p) (k_procs k)
      in map_option (Pair r) (put_opt (accepted status 4 k) status (map_option (\<lambda>x. le32 (of_int x)) st) (k\<lparr>k_procs := t\<rparr>)))"

definition sys_sigaction :: "u32 \<Rightarrow> u32 \<Rightarrow> u32 \<Rightarrow> kern \<Rightarrow> sysres" where
  "sys_sigaction sig handler oldact k =
     (let ((r, old), t) = signal_set_handler (sint sig) handler (k_procs k)
      in map_option (Pair r) (put_opt (accepted oldact 12 k) oldact (map_option (\<lambda>h. le32 h @ le32 0 @ le32 0) old) (k\<lparr>k_procs := t\<rparr>)))"

definition sys_sigprocmask :: "u32 \<Rightarrow> u32 \<Rightarrow> u32 \<Rightarrow> kern \<Rightarrow> sysres" where
  "sys_sigprocmask how set_ptr oldset k = do {
     s \<leftarrow> (if accepted set_ptr 4 k then map_option (\<lambda>b. Some (rd32 b 0)) (user_bytes set_ptr 4 k) else Some None);
     let ((r, old), t) = (if how = 0 then signal_block else if how = 1 then signal_unblock else signal_setmask) s (k_procs k);
     map_option (Pair r) (put_opt (accepted oldset 4 k) oldset (map_option le32 old) (k\<lparr>k_procs := t\<rparr>))
   }"

text \<open>\<open>exec\<close> does not return when the program is loaded.\<close>

definition sys_exec :: "env \<Rightarrow> u32 \<Rightarrow> kern \<Rightarrow> (int option \<times> kern) option" where
  "sys_exec e path k = do {
     p \<leftarrow> validate_user_string path 256 k;
     (case p of
        None \<Rightarrow> Some (Some (-14), k)
      | Some t \<Rightarrow>
          let (r, ps) = process_exec (text_of t) (e_loaded e) (k_procs k)
          in if r \<noteq> 0 then Some (Some r, k\<lparr>k_procs := ps\<rparr>)
             else Some (None, k\<lparr>k_procs := ps, k_serial := k_serial k @ serial_puts (bytes ''[EXEC] Executing '') @ serial_puts t @ serial_puts [10]\<rparr>))
   }"

definition decimal :: "u32 \<Rightarrow> u8 list" where "decimal n = (if n = 0 then [48] else rev (dec_digits n))"

text \<open>
  The process ends: its descriptors from 3 on are cleared, its slot is freed, the shell becomes current. The
  release of the stack and the image is outside this state.
\<close>

definition exit_fds :: "procs \<Rightarrow> procs" where
  "exit_fds t =
     fold (\<lambda>fd t. case process_current t of None \<Rightarrow> t | Some i \<Rightarrow> if fd_in_use (fd_table (proc_at t i) ! fd) then free_fd fd t else t)
       [3 ..< MAX_FDS_PER_PROC] t"

definition exit_process :: "procs \<Rightarrow> procs" where
  "exit_process t =
     process_set_current 1
       (case process_current t of
          None \<Rightarrow> t
        | Some i \<Rightarrow> if pid (proc_at t i) \<le> 1 then t
                    else snd (process_kill (pid (proc_at t i)) (upd_proc i (\<lambda>p. p\<lparr>kernel_stack := 0, elf_proc := 0\<rparr>) t)))"

definition sys_exit :: "u32 \<Rightarrow> kern \<Rightarrow> kern option" where
  "sys_exit status k = do {
     v \<leftarrow> vga_puts (10 # bytes ''[Program exited with status '') (k_vga k);
     v \<leftarrow> vga_puts (decimal status) v;
     v \<leftarrow> vga_puts (bytes ''] press enter...'' @ [10]) v;
     Some (k\<lparr>k_vga := v, k_procs := exit_process (exit_fds (k_procs k)),
       k_serial := k_serial k @ serial_puts (bytes ''[SYSCALL] Process exit with status '') @ serial_puts (decimal status) @ serial_puts [10]\<rparr>)
   }"

section \<open>Communication\<close>

definition sys_pipe :: "u32 \<Rightarrow> kern \<Rightarrow> sysres" where
  "sys_pipe pipefd k =
     (if \<not> validate_user_ptr pipefd 8 k then Some (-14, k)
      else let ((r, fds), t, s) = pipe_create (k_procs k, k_ipc k); k = k\<lparr>k_procs := t, k_ipc := s\<rparr>
           in case fds of
                None \<Rightarrow> Some (r, k)
              | Some (rfd, wfd) \<Rightarrow> map_option (Pair r) (put_user pipefd (le32 (of_int rfd) @ le32 (of_int wfd)) k))"

definition sys_shmget :: "u32 \<Rightarrow> u32 \<Rightarrow> kern \<Rightarrow> int \<times> kern" where
  "sys_shmget key sz k =
     (let m = k_mm k; (r, p, s) = shm_create key sz (fst (pv m), k_ipc k)
      in (r, k\<lparr>k_mm := m\<lparr>pv := (p, snd (pv m))\<rparr>, k_ipc := s\<rparr>))"

definition sys_shmat :: "u32 \<Rightarrow> u32 \<Rightarrow> kern \<Rightarrow> int \<times> kern" where
  "sys_shmat shmid vaddr k =
     (let m = k_mm k; (r, x, s) = shm_attach (sint shmid) vaddr (pv m, k_ipc k)
      in (sint r, k\<lparr>k_mm := m\<lparr>pv := x\<rparr>, k_ipc := s\<rparr>))"

definition sys_shmdt :: "u32 \<Rightarrow> kern \<Rightarrow> int \<times> kern" where
  "sys_shmdt addr k =
     (let m = k_mm k; (r, v, s) = shm_detach addr (snd (pv m), k_ipc k)
      in (r, k\<lparr>k_mm := m\<lparr>pv := (fst (pv m), v)\<rparr>, k_ipc := s\<rparr>))"

definition sys_msgget :: "u32 \<Rightarrow> kern \<Rightarrow> int \<times> kern" where
  "sys_msgget key k = (let (r, s) = msgq_create key (k_ipc k) in (r, k\<lparr>k_ipc := s\<rparr>))"

text \<open>A \<open>long\<close> has 32 bits.\<close>

definition sys_msgsnd :: "u32 \<Rightarrow> u32 \<Rightarrow> u32 \<Rightarrow> u32 \<Rightarrow> kern \<Rightarrow> sysres" where
  "sys_msgsnd msqid msgp msgsz ty k =
     (if \<not> validate_user_ptr msgp msgsz k then Some (-14, k)
      else do {
        bs \<leftarrow> user_bytes msgp (unat msgsz) k;
        let (r, s) = msgq_send (sint msqid) bs (sint ty) (k_ipc k);
        Some (r, k\<lparr>k_ipc := s\<rparr>)
      })"

definition sys_msgrcv :: "u32 \<Rightarrow> u32 \<Rightarrow> u32 \<Rightarrow> u32 \<Rightarrow> kern \<Rightarrow> sysres" where
  "sys_msgrcv msqid msgp msgsz ty k =
     (if \<not> validate_user_ptr msgp msgsz k then Some (-14, k)
      else let ((r, bs), s) = msgq_receive (sint msqid) msgsz (sint ty) (k_ipc k)
           in map_option (Pair r) (put_user msgp bs (k\<lparr>k_ipc := s\<rparr>)))"

section \<open>Memory\<close>

definition current_id :: "kern \<Rightarrow> u32 option" where
  "current_id k = map_option (\<lambda>i. pid (proc_at (k_procs k) i)) (process_current (k_procs k))"

definition sys_mmap_handler :: "u32 \<Rightarrow> u32 \<Rightarrow> u32 \<Rightarrow> u32 \<Rightarrow> kern \<Rightarrow> sysres" where
  "sys_mmap_handler addr len prot flags k =
     map_option (\<lambda>(r, m). (sint r, k\<lparr>k_mm := m\<rparr>)) (sys_mmap (current_id k) addr len prot flags (k_mm k))"

definition sys_munmap_handler :: "u32 \<Rightarrow> u32 \<Rightarrow> kern \<Rightarrow> int \<times> kern" where
  "sys_munmap_handler addr len k = (let (r, m) = sys_munmap (current_id k) addr len (k_mm k) in (r, k\<lparr>k_mm := m\<rparr>))"

definition sys_mprotect_handler :: "u32 \<Rightarrow> u32 \<Rightarrow> u32 \<Rightarrow> kern \<Rightarrow> int \<times> kern" where
  "sys_mprotect_handler addr len prot k = (let (r, m) = sys_mprotect (current_id k) addr len prot (k_mm k) in (r, k\<lparr>k_mm := m\<rparr>))"

definition sys_brk_handler :: "u32 \<Rightarrow> int" where "sys_brk_handler addr = sint addr"

section \<open>Sockets\<close>

text \<open>The pointers go to the socket layer as they are: what is read and written through them is not checked.\<close>

definition user_sockaddr :: "u32 \<Rightarrow> kern \<Rightarrow> sockaddr" where
  "user_sockaddr a k = do { p \<leftarrow> user_bytes (a + 2) 2 k; ip \<leftarrow> user_bytes (a + 4) 4 k; Some (rd16 p 0, rd32 ip 0) }"

abbreviation set_net :: "kern \<Rightarrow> snet \<Rightarrow> kern" where "set_net k n \<equiv> k\<lparr>k_net := n\<rparr>"

definition sys_socket :: "u32 \<Rightarrow> u32 \<Rightarrow> kern \<Rightarrow> int \<times> kern" where
  "sys_socket domain ty k = (let (r, n) = socket_create (sint domain) (sint ty) (k_net k) in (r, set_net k n))"

definition sys_bind :: "u32 \<Rightarrow> u32 \<Rightarrow> kern \<Rightarrow> sysres" where
  "sys_bind fd addr k = map_option (\<lambda>(r, n). (r, set_net k n)) (socket_bind (sint fd) (user_sockaddr addr k) (k_net k))"

definition sys_listen :: "u32 \<Rightarrow> kern \<Rightarrow> int \<times> kern" where
  "sys_listen fd k = (let (r, n) = socket_listen (sint fd) (k_net k) in (r, set_net k n))"

definition sys_accept :: "u32 \<Rightarrow> kern \<Rightarrow> int \<times> kern" where
  "sys_accept fd k = (let (r, n) = socket_accept (sint fd) (k_net k) in (r, set_net k n))"

definition sys_connect :: "u32 \<Rightarrow> u32 \<Rightarrow> kern \<Rightarrow> sysres" where
  "sys_connect fd addr k = map_option (\<lambda>(r, n). (r, set_net k n)) (socket_connect (sint fd) (user_sockaddr addr k) (k_net k))"

definition sys_send :: "u32 \<Rightarrow> u32 \<Rightarrow> u32 \<Rightarrow> kern \<Rightarrow> sysres" where
  "sys_send fd buf len k = map_option (\<lambda>(r, n). (r, set_net k n)) (socket_send (sint fd) (\<lambda>n. user_bytes buf n k) len (k_net k))"

definition sys_recv :: "u32 \<Rightarrow> u32 \<Rightarrow> u32 \<Rightarrow> kern \<Rightarrow> sysres" where
  "sys_recv fd buf len k =
     (let ((r, bs), n) = socket_recv (sint fd) len (k_net k) in map_option (Pair r) (put_user buf bs (set_net k n)))"

definition sys_closesock :: "u32 \<Rightarrow> kern \<Rightarrow> sysres" where
  "sys_closesock fd k = map_option (\<lambda>(r, n). (r, set_net k n)) (socket_close (sint fd) (k_net k))"

definition sys_shutdown :: "u32 \<Rightarrow> u32 \<Rightarrow> kern \<Rightarrow> sysres" where
  "sys_shutdown fd how k = map_option (\<lambda>(r, n). (r, set_net k n)) (socket_shutdown (sint fd) (sint how) (k_net k))"

definition put_sockaddr :: "u32 \<Rightarrow> u32 \<Rightarrow> (u16 \<times> u16 \<times> u32) option \<Rightarrow> kern \<Rightarrow> sysres" where
  "put_sockaddr addr addrlen r k =
     (case r of
        None \<Rightarrow> Some (-1, k)
      | Some (family, port, ip) \<Rightarrow> do {
          k \<leftarrow> put_user addr (le16 family @ le16 port @ le32 ip) k;
          k \<leftarrow> (if addrlen = 0 then Some k else put_user addrlen (le32 16) k);
          Some (0, k)
        })"

definition sys_getsockname :: "u32 \<Rightarrow> u32 \<Rightarrow> u32 \<Rightarrow> kern \<Rightarrow> sysres" where
  "sys_getsockname fd addr addrlen k = put_sockaddr addr addrlen (socket_getsockname (sint fd) (k_net k)) k"

definition sys_getpeername :: "u32 \<Rightarrow> u32 \<Rightarrow> u32 \<Rightarrow> kern \<Rightarrow> sysres" where
  "sys_getpeername fd addr addrlen k = put_sockaddr addr addrlen (socket_getpeername (sint fd) (k_net k)) k"

definition sys_setsockopt :: "u32 \<Rightarrow> kern \<Rightarrow> int" where "sys_setsockopt fd k = socket_setsockopt (sint fd) (k_net k)"

definition sys_getsockopt :: "u32 \<Rightarrow> u32 \<Rightarrow> u32 \<Rightarrow> kern \<Rightarrow> sysres" where
  "sys_getsockopt fd optval optlen k =
     (if socket_getsockopt (sint fd) (k_net k) \<noteq> 0 then Some (-1, k)
      else if optval = 0 \<or> optlen = 0 then Some (0, k)
      else do {
        n \<leftarrow> user_bytes optlen 4 k;
        if 4 \<le> rd32 n 0 then do { k \<leftarrow> put_user optval (le32 0) k; k \<leftarrow> put_user optlen (le32 4) k; Some (0, k) } else Some (0, k)
      })"

text \<open>The sets are read when there is a socket to look at.\<close>

definition user_set :: "u32 \<Rightarrow> kern \<Rightarrow> u32 option option" where
  "user_set ptr k = (if ptr = 0 then Some None else map_option (\<lambda>b. Some (rd32 b 0)) (user_bytes ptr 4 k))"

definition sys_select :: "u32 \<Rightarrow> u32 \<Rightarrow> u32 \<Rightarrow> kern \<Rightarrow> int option" where
  "sys_select nfds readfds writefds k =
     (if list_all (\<lambda>i. get_socket (int i) (k_net k) = None) [0 ..< min (nat (sint nfds)) MAX_SOCKETS] then Some 0
      else do {
        r \<leftarrow> user_set readfds k;
        w \<leftarrow> user_set writefds k;
        Some (socket_select (sint nfds) r w (k_net k))
      })"

section \<open>The dispatcher\<close>

text \<open>A call returns a value to the program, or control goes to the shell or to a new program.\<close>

datatype outcome = Returns int kern | Leaves kern

definition total_call :: "(kern \<Rightarrow> int \<times> kern) \<Rightarrow> kern \<Rightarrow> outcome option" where
  "total_call f k = (let (r, k') = f k in Some (Returns r k'))"

definition query_call :: "(kern \<Rightarrow> int) \<Rightarrow> kern \<Rightarrow> outcome option" where
  "query_call f k = Some (Returns (f k) k)"

definition partial_call :: "(kern \<Rightarrow> sysres) \<Rightarrow> kern \<Rightarrow> outcome option" where
  "partial_call f k = map_option (\<lambda>(r, k'). Returns r k') (f k)"

type_synonym sysfun = "env \<Rightarrow> u32 \<Rightarrow> u32 \<Rightarrow> u32 \<Rightarrow> u32 \<Rightarrow> u32 \<Rightarrow> kern \<Rightarrow> outcome option"

definition call_exec :: sysfun where
  "call_exec e a b c d f k =
     map_option (\<lambda>(r, k'). case r of None \<Rightarrow> Leaves k' | Some x \<Rightarrow> Returns x k') (sys_exec e a k)"

definition call_select :: sysfun where
  "call_select e a b c d f k = map_option (\<lambda>r. Returns r k) (sys_select a b c k)"

definition syscall_table :: "sysfun option list" where
  "syscall_table =
     [Some (\<lambda>e a b c d f k. map_option Leaves (sys_exit a k)),
      Some (\<lambda>e a b c d f. partial_call (sys_read e a b c)), Some (\<lambda>e a b c d f. partial_call (sys_write e a b c)),
      Some (\<lambda>e a b c d f. partial_call (sys_open e a b)), Some (\<lambda>e a b c d f. total_call (sys_close a)),
      Some (\<lambda>e a b c d f. query_call sys_getpid), Some (\<lambda>e a b c d f. total_call (sys_lseek a b c)),
      Some (\<lambda>e a b c d f. partial_call (sys_stat a b)), Some (\<lambda>e a b c d f. total_call (sys_fork e)), Some call_exec,
      Some (\<lambda>e a b c d f. partial_call (sys_waitpid a b)), Some (\<lambda>e a b c d f. total_call (sys_kill a b)),
      Some (\<lambda>e a b c d f. query_call sys_getppid), Some (\<lambda>e a b c d f. total_call (sys_setpgid a b)),
      Some (\<lambda>e a b c d f. query_call (sys_getpgid a)), Some (\<lambda>e a b c d f. partial_call (sys_sigaction a b c)),
      Some (\<lambda>e a b c d f. partial_call (sys_sigprocmask a b c)), Some (\<lambda>e a b c d f. partial_call (sys_pipe a)),
      Some (\<lambda>e a b c d f. total_call (sys_shmget a b)), Some (\<lambda>e a b c d f. total_call (sys_shmat a b)),
      Some (\<lambda>e a b c d f. total_call (sys_shmdt a)), Some (\<lambda>e a b c d f. total_call (sys_msgget a)),
      Some (\<lambda>e a b c d f. partial_call (sys_msgsnd a b c d)), Some (\<lambda>e a b c d f. partial_call (sys_msgrcv a b c d)),
      Some (\<lambda>e a b c d f. partial_call (sys_mmap_handler a b c d)), Some (\<lambda>e a b c d f. total_call (sys_munmap_handler a b)),
      Some (\<lambda>e a b c d f. total_call (sys_mprotect_handler a b c)), Some (\<lambda>e a b c d f. query_call (\<lambda>k. sys_brk_handler a))] @
     replicate 22 None @
     [Some (\<lambda>e a b c d f. total_call (sys_socket a b)), Some (\<lambda>e a b c d f. partial_call (sys_bind a b)),
      Some (\<lambda>e a b c d f. total_call (sys_listen a)), Some (\<lambda>e a b c d f. total_call (sys_accept a)),
      Some (\<lambda>e a b c d f. partial_call (sys_connect a b)), Some (\<lambda>e a b c d f. partial_call (sys_send a b c)),
      Some (\<lambda>e a b c d f. partial_call (sys_recv a b c)), Some (\<lambda>e a b c d f. partial_call (sys_closesock a)), None, None,
      Some (\<lambda>e a b c d f. partial_call (sys_shutdown a b)), Some (\<lambda>e a b c d f. partial_call (sys_getsockname a b c)),
      Some (\<lambda>e a b c d f. partial_call (sys_getpeername a b c)), Some (\<lambda>e a b c d f. query_call (sys_setsockopt a)),
      Some (\<lambda>e a b c d f. partial_call (sys_getsockopt a d f)), Some call_select]"

text \<open>
  The handler of vector 0x80: \<open>num\<close> is EAX, the arguments are EBX, ECX, EDX, ESI and EDI; the value that is
  returned goes to EAX.
\<close>

definition syscall_handler :: "env \<Rightarrow> u32 \<Rightarrow> u32 \<Rightarrow> u32 \<Rightarrow> u32 \<Rightarrow> u32 \<Rightarrow> u32 \<Rightarrow> kern \<Rightarrow> outcome option" where
  "syscall_handler e num a b c d f k =
     (if 66 \<le> num then Some (Returns (-1) k)
      else case syscall_table ! unat num of None \<Rightarrow> Some (Returns (-1) k) | Some h \<Rightarrow> h e a b c d f k)"

end
