(* ===== verification/Syscall_Props.thy ===== *)
theory Syscall_Props
  imports Syscall_Table Process_Props
begin

text \<open>
  Properties of the system calls: descriptors stay well typed, checked pointers never fault, files written
  through descriptors read back, a typed line is what a program reads.
\<close>

section \<open>Checked pointers\<close>

lemma unat_page: "unat (a AND 0xFFFFF000 :: u32) = unat a div 4096 * 4096"
proof -
  have "a AND 0xFFFFF000 = a AND NOT (mask 12)" by (simp add: page_base_alt mask_numerals)
  then show ?thesis by (simp add: unat_and_not_mask minus_mod_eq_div_mult)
qed

lemma page_idx: "pd_idx (a AND 0xFFFFF000) = pd_idx a" "pt_idx (a AND 0xFFFFF000) = pt_idx a"
  by (simp_all add: word_unat_eq_iff unat_pd_idx unat_pt_idx unat_page pd_div)

lemma mapped_page: "vmm_is_mapped v (a AND 0xFFFFF000) = vmm_is_mapped v a"
  by (simp add: vmm_is_mapped_def page_idx)

text \<open>An accepted range: every byte of it is below the kernel, and mapped.\<close>

lemma validate_mapped:
  assumes v: "validate_user_ptr ptr sz k" and i: "i < unat sz"
  shows "unat (ptr + of_nat i) = unat ptr + i" and "ptr + of_nat i < KERNEL_BASE" and "mapped (k_mm k) (ptr + of_nat i)"
proof -
  have p: "ptr < KERNEL_BASE" "\<not> ptr + sz < ptr" "ptr + sz < KERNEL_BASE"
    and pages: "list_all (mapped (k_mm k)) (user_pages (ptr AND 0xFFFFF000) ((ptr + sz - 1) AND 0xFFFFF000))"
    using v by (simp_all add: validate_user_ptr_def)
  have s: "unat (ptr + sz) = unat ptr + unat sz"
    using p(2) unat_plus_simple [of ptr sz] by (simp add: not_less)
  then have b: "unat ptr + unat sz < 0xC0000000" using p(3) by (simp add: word_less_nat_alt)
  have ib: "unat (of_nat i :: u32) = i" using i b by (simp add: unat_of_nat)
  show u: "unat (ptr + of_nat i) = unat ptr + i" using i b ib by (simp add: unat_word_ariths)
  then show "ptr + of_nat i < KERNEL_BASE" using i b by (simp add: word_less_nat_alt)
  have e: "unat (ptr + sz - 1) = unat ptr + unat sz - 1" using s i by (simp add: unat_sub word_le_nat_alt)
  let ?f = "ptr AND 0xFFFFF000" and ?l = "(ptr + sz - 1) AND 0xFFFFF000"
  have fl: "unat ?f = unat ptr div 4096 * 4096" "unat ?l = (unat ptr + unat sz - 1) div 4096 * 4096" by (simp_all add: unat_page e)
  have le: "unat ?f \<le> unat ?l" unfolding fl using i by (intro mult_le_mono1 div_le_mono) simp
  define j where "j = (unat ptr + i) div 4096 - unat ptr div 4096"
  have ij: "unat ptr div 4096 \<le> (unat ptr + i) div 4096" "(unat ptr + i) div 4096 \<le> (unat ptr + unat sz - 1) div 4096"
    using i by (intro div_le_mono; simp)+
  have d: "unat (?l - ?f) div 4096 = (unat ptr + unat sz - 1) div 4096 - unat ptr div 4096"
    using le by (simp add: unat_sub word_le_nat_alt fl diff_mult_distrib [symmetric])
  have jl: "j < unat (?l - ?f) div 4096 + 1" using ij unfolding d j_def by linarith
  have jj: "unat (?f + of_nat j * 0x1000) = (unat ptr + i) div 4096 * 4096"
  proof -
    have "(unat ptr + i) div 4096 < 0x100000" using u unat_lt_u32 [of "ptr + of_nat i"] by (simp add: div_less_iff_less_mult)
    moreover have "unat ptr div 4096 * 4096 + j * 4096 = (unat ptr + i) div 4096 * 4096"
      using ij(1) by (simp add: j_def add_mult_distrib [symmetric])
    ultimately show ?thesis by (simp add: unat_word_ariths unat_of_nat fl mod_mult_left_eq mod_add_eq)
  qed
  have "?f + of_nat j * 0x1000 \<in> set (user_pages ?f ?l)"
  proof -
    have "\<not> ?l < ?f" using le by (simp only: word_less_nat_alt not_less)
    then show ?thesis using jl by (simp only: user_pages_def if_False set_map set_upt) (rule imageI, simp)
  qed
  then have "mapped (k_mm k) (?f + of_nat j * 0x1000)" using pages by (simp add: list_all_iff)
  moreover have "?f + of_nat j * 0x1000 = (ptr + of_nat i) AND 0xFFFFF000"
    using jj u by (simp add: word_unat_eq_iff unat_page)
  ultimately show "mapped (k_mm k) (ptr + of_nat i)" by (simp add: mapped_page)
qed

lemma user_bytes_accepted:
  assumes "validate_user_ptr ptr sz k" and "n \<le> unat sz"
  shows "user_bytes ptr n k = Some (map (\<lambda>i. mem (k_mm k) (phys_of (k_mm k) (ptr + of_nat i))) [0 ..< n])"
  using validate_mapped(3) [OF assms(1)] assms(2) by (simp add: user_bytes_def Let_def list_all_iff)

lemma put_user_accepted:
  assumes "validate_user_ptr ptr sz k" and "length bs \<le> unat sz"
  shows "put_user ptr bs k = Some (k\<lparr>k_mm := (k_mm k)\<lparr>mem :=
    fold (\<lambda>i f. f(phys_of (k_mm k) (ptr + of_nat i) := bs ! i)) [0 ..< length bs] (mem (k_mm k))\<rparr>\<rparr>)"
  using validate_mapped(2,3) [OF assms(1)] assms(2) by (simp add: put_user_def Let_def list_all_iff)

text \<open>Reading back what was stored, when the range has different physical addresses.\<close>

definition apart :: "u32 \<Rightarrow> nat \<Rightarrow> kern \<Rightarrow> bool" where
  "apart a n k \<longleftrightarrow> inj_on (\<lambda>i. phys_of (k_mm k) (a + of_nat i)) {..< n}"

lemma fold_user_store:
  assumes "inj_on g {..< length bs}" and "n \<le> length bs"
  shows "fold (\<lambda>i f. f(g i := bs ! i)) [0 ..< n] h x = (if \<exists>i < n. x = g i then bs ! (THE i. i < length bs \<and> x = g i) else h x)"
  using assms(2)
proof (induction n)
  case (Suc n)
  have u: "(THE i. i < length bs \<and> g j = g i) = j" if "j < length bs" for j
    by (rule the_equality) (use that assms(1) in \<open>auto simp: inj_on_def\<close>)
  show ?case
  proof (cases "x = g n")
    case True
    then show ?thesis using u [of n] Suc.prems by auto
  next
    case False
    then have "(\<exists>i < Suc n. x = g i) = (\<exists>i < n. x = g i)" by (auto simp: less_Suc_eq)
    then show ?thesis using Suc False by simp
  qed
qed simp

lemma put_get_user:
  assumes "put_user a bs k = Some k'" and "apart a (length bs) k"
  shows "user_bytes a (length bs) k' = Some bs"
proof -
  let ?g = "\<lambda>i. phys_of (k_mm k) (a + of_nat i)"
  have m: "list_all (\<lambda>i. mapped (k_mm k) (a + of_nat i)) [0 ..< length bs]"
    and k': "k' = k\<lparr>k_mm := (k_mm k)\<lparr>mem := fold (\<lambda>i f. f(?g i := bs ! i)) [0 ..< length bs] (mem (k_mm k))\<rparr>\<rparr>"
    using assms(1) by (auto simp: put_user_def Let_def list_all_iff split: if_splits)
  have inj: "inj_on ?g {..< length bs}" using assms(2) by (simp add: apart_def)
  have "fold (\<lambda>i f. f(?g i := bs ! i)) [0 ..< length bs] h (?g j) = bs ! j" if "j < length bs" for j h
  proof -
    have "(THE i. i < length bs \<and> ?g j = ?g i) = j" by (rule the_equality) (use that inj in \<open>auto simp: inj_on_def\<close>)
    then show ?thesis using fold_user_store [OF inj order_refl, of h "?g j"] that by auto
  qed
  then show ?thesis using m by (auto simp: user_bytes_def Let_def k' list_all_iff intro: nth_equalityI)
qed

section \<open>Live nodes\<close>

text \<open>Pointers between nodes lead to nodes; the addresses of nodes are pointers other than null.\<close>

definition live :: "fs \<Rightarrow> nat \<Rightarrow> bool" where "live s a \<longleftrightarrow> nodes s a \<noteq> None"

definition tree_live :: "fs \<Rightarrow> bool" where
  "tree_live s \<longleftrightarrow> (\<forall>r. vfs_root s = Some r \<longrightarrow> live s r) \<and> (\<forall>a. live s a \<longrightarrow> 0 < a \<and> a < 2 ^ 32) \<and>
     (\<forall>a c. c \<in> set (kids (node_at s a)) \<or> n_parent (node_at s a) = Some c \<or> n_ptr (node_at s a) = Some c \<longrightarrow> live s c)"

lemma tree_liveD:
  assumes "tree_live s"
  shows "vfs_root s = Some r \<Longrightarrow> live s r" and "live s a \<Longrightarrow> 0 < a \<and> a < 2 ^ 32"
    and "c \<in> set (kids (node_at s a)) \<Longrightarrow> live s c" and "n_parent (node_at s a) = Some c \<Longrightarrow> live s c"
    and "n_ptr (node_at s a) = Some c \<Longrightarrow> live s c"
  using assms unfolding tree_live_def by blast+

lemma cross_live: "tree_live s \<Longrightarrow> live s a \<Longrightarrow> live s (cross_mount a s)"
  using tree_liveD(5) [of s a] by (auto simp: cross_mount_def split: option.split)

lemma finddir_live:
  assumes t: "tree_live s" and f: "vfs_finddir d name s = Some c"
  shows "live s c"
proof -
  obtain a i where a: "child_idx name a s = Some i" "c = cross_mount (kids (node_at s a) ! i) s"
    using f by (auto simp: vfs_finddir_def ramfs_finddir_def split: option.splits if_splits)
  then have "i < length (kids (node_at s a))" using find_idx_SomeD unfolding child_idx_def by fast
  then have "live s (kids (node_at s a) ! i)" using tree_liveD(3) [OF t nth_mem] by blast
  with cross_live [OF t] a(2) show ?thesis by blast
qed

lemma lookup_step_live:
  assumes "tree_live s" and "lookup_step s c n = Some b" and "live s c"
  shows "live s b"
  using assms(2,3) finddir_live [OF assms(1)] cross_live [OF assms(1)] tree_liveD(4) [OF assms(1), of c]
  by (fastforce simp: lookup_step_def split: if_splits option.splits)

lemma lookup_loop_live: "tree_live s \<Longrightarrow> live s c \<Longrightarrow> lookup_loop s p c = Some b \<Longrightarrow> live s b"
proof (induction s p c rule: lookup_loop.induct)
  case (1 s p c)
  show ?case
  proof (cases "p = []")
    case True
    then show ?thesis using 1(3,4) by (simp add: lookup_loop.simps)
  next
    case False
    then obtain n where n: "lookup_step s c (component p) = Some n" "lookup_loop s (after_component p) n = Some b"
      using 1(4) by (auto simp: lookup_loop.simps [of s p] split: option.splits)
    then show ?thesis using 1(1) [OF False n(1) 1(2) lookup_step_live [OF 1(2) n(1) 1(3)]] by simp
  qed
qed

lemma lookup_live: "tree_live s \<Longrightarrow> vfs_lookup path s = Some a \<Longrightarrow> live s a"
  unfolding vfs_lookup_def
proof (cases "vfs_root s")
  case (Some r)
  assume t: "tree_live s" and l: "(case vfs_root s of None \<Rightarrow> None | Some root \<Rightarrow> if path = ''/'' then Some root
      else lookup_loop s (if path \<noteq> [] \<and> hd path = CHR ''/'' then tl path else path) root) = Some a"
  have "live s r" by (rule tree_liveD(1) [OF t Some])
  with l Some lookup_loop_live [OF t this] show ?thesis by (simp split: if_split_asm)
qed simp

text \<open>No node disappears or changes between file and directory.\<close>

definition grows :: "fs \<Rightarrow> fs \<Rightarrow> bool" where
  "grows s s' \<longleftrightarrow> (\<forall>a. live s a \<longrightarrow> live s' a \<and> is_dir (node_at s' a) = is_dir (node_at s a))"

lemma grows_refl [simp]: "grows s s" by (simp add: grows_def)

lemma grows_trans: "grows s s' \<Longrightarrow> grows s' s'' \<Longrightarrow> grows s s''" by (simp add: grows_def)

text \<open>A change of one live node whose pointers lead to live nodes afterwards.\<close>

lemma upd_node_live:
  assumes "tree_live s" and "live s a"
    and "\<And>c. c \<in> set (kids (f (node_at s a))) \<or> n_parent (f (node_at s a)) = Some c \<or> n_ptr (f (node_at s a)) = Some c \<Longrightarrow> live s c"
    and "is_dir (f (node_at s a)) = is_dir (node_at s a)"
  shows "tree_live (upd_node a f s) \<and> grows s (upd_node a f s)"
proof -
  have l: "live (upd_node a f s) b = live s b" for b using assms(2) by (simp add: upd_node_def live_def)
  have root: "vfs_root (upd_node a f s) = vfs_root s" by (simp add: upd_node_def)
  have "tree_live (upd_node a f s)"
    unfolding tree_live_def l root
  proof (intro conjI allI impI)
    fix b c assume "c \<in> set (kids (node_at (upd_node a f s) b)) \<or> n_parent (node_at (upd_node a f s) b) = Some c \<or> n_ptr (node_at (upd_node a f s) b) = Some c"
    moreover have "node_at (upd_node a f s) b = (if b = a then f (node_at s a) else node_at s b)" by simp
    ultimately show "live s c" using assms(3) [of c] tree_liveD(3-5) [OF assms(1)] by (metis (full_types))
  qed (use tree_liveD(1,2) [OF assms(1)] in blast)+
  then show ?thesis unfolding grows_def l using assms(4) by simp
qed

lemma live_kept:
  assumes "tree_live s" and "live s a" and "kids (f (node_at s a)) = kids (node_at s a)" and "n_parent (f (node_at s a)) = n_parent (node_at s a)"
    and "n_ptr (f (node_at s a)) = n_ptr (node_at s a)" and "n_flags (f (node_at s a)) = n_flags (node_at s a)"
  shows "tree_live (upd_node a f s) \<and> grows s (upd_node a f s)"
proof (rule upd_node_live [OF assms(1,2)])
  show "live s c" if "c \<in> set (kids (f (node_at s a))) \<or> n_parent (f (node_at s a)) = Some c \<or> n_ptr (f (node_at s a)) = Some c" for c
    using that tree_liveD(3-5) [OF assms(1)] unfolding assms(3-5) by blast
  show "is_dir (f (node_at s a)) = is_dir (node_at s a)" by (simp add: is_dir_def assms(6))
qed

lemma grow_kept:
  "ramfs_grow ok e n = Some n1 \<Longrightarrow> kids n1 = kids n \<and> n_parent n1 = n_parent n \<and> n_ptr n1 = n_ptr n \<and> n_flags n1 = n_flags n"
  by (auto simp: ramfs_grow_def Let_def kids_def split: if_splits)

lemma write_live:
  assumes "tree_live s" and "live s a" and "ramfs_write ok now a off sz b s = Some (r, s')"
  shows "tree_live s' \<and> grows s s'"
proof (cases "s' = s")
  case False
  then obtain n1 n2 where g: "ramfs_grow ok (off + sz) (node_at s a) = Some n1" and s': "s' = upd_node a (\<lambda>_. n2) s"
    and n2: "kids n2 = kids n1" "n_parent n2 = n_parent n1" "n_ptr n2 = n_ptr n1" "n_flags n2 = n_flags n1"
    using assms(3) by (auto simp: ramfs_write_def Let_def kids_def split: if_splits option.splits)
  show ?thesis unfolding s' by (rule live_kept [OF assms(1,2)]) (use grow_kept [OF g] n2 in simp_all)
qed (use assms(1) in simp)

lemma read_live:
  assumes "tree_live s" and "live s a" and "ramfs_read now a off sz s = Some (r, s')"
  shows "tree_live s' \<and> grows s s'"
  using assms(3) live_kept [OF assms(1,2), of "\<lambda>n. n\<lparr>n_atime := now\<rparr>"] assms(1)
  by (auto simp: ramfs_read_def Let_def kids_def split: if_splits option.splits)

lemma create_live:
  assumes t: "tree_live s" and c: "vfs_create m now dir name ty s = Some (r, s')"
    and fresh: "\<And>x. fm_node m = Some x \<Longrightarrow> \<not> live s x \<and> 0 < x \<and> x < 2 ^ 32"
  shows "tree_live s' \<and> grows s s'"
proof (cases "s' = s")
  case False
  obtain a where a: "dir_ops dir s = Some a" "ramfs_create m now a name ty s = Some (r, s')"
    using c False by (auto simp: vfs_create_def split: option.splits)
  then obtain b s1 where al: "ramfs_alloc_node (fm_node m) (fm_array m) now name ty s = (Some b, s1)"
    and d: "is_dir (node_at s a)" and ch: "ramfs_add_child (fm_grow m) a b s1 = Some (r, s')"
    using False by (auto simp: ramfs_create_def ramfs_alloc_node_def split: if_splits option.splits prod.splits)
  from al have fm: "fm_node m = Some b"
    and s1: "s1 = s\<lparr>next_inode := next_inode s + 1, nodes := (nodes s)(b := nodes s1 b)\<rparr>"
    and nb: "nodes s1 b \<noteq> None" "kids (node_at s1 b) = []" "n_parent (node_at s1 b) = None" "n_ptr (node_at s1 b) = None"
    by (auto simp: ramfs_alloc_node_def node_at_def zero_node_def kids_def split: option.splits if_splits)
  note fb = fresh [OF fm]
  have l1: "live s1 x \<longleftrightarrow> x = b \<or> live s x" for x using nb(1) by (subst s1) (auto simp: live_def)
  have n1: "node_at s1 x = (if x = b then node_at s1 b else node_at s x)" for x by (subst s1) (simp add: node_at_def)
  have r1: "vfs_root s1 = vfs_root s" by (subst s1) simp
  have t1: "tree_live s1"
    unfolding tree_live_def l1 r1
  proof (intro conjI allI impI)
    fix x y assume "y \<in> set (kids (node_at s1 x)) \<or> n_parent (node_at s1 x) = Some y \<or> n_ptr (node_at s1 x) = Some y"
    then show "y = b \<or> live s y" using nb(2-4) tree_liveD(3-5) [OF t, where a = x and c = y] n1 [of x] by (cases "x = b") auto
  qed (use fb tree_liveD(1,2) [OF t] in blast)+
  have g1: "grows s s1"
    unfolding grows_def
  proof (intro allI impI)
    fix x assume x: "live s x"
    then have "x \<noteq> b" using fb by blast
    then have "node_at s1 x = node_at s x" using n1 [of x] by simp
    with x show "live s1 x \<and> is_dir (node_at s1 x) = is_dir (node_at s x)" by (simp add: l1)
  qed
  have "live s a" using dir_live [OF d] by (simp add: live_def)
  then have la: "live s1 a" "a \<noteq> b" using fb by (auto simp: l1)
  have da: "is_dir (node_at s1 a)" using d la(2) n1 [of a] by simp
  show ?thesis
  proof (cases "s' = s1")
    case True
    with t1 g1 show ?thesis by simp
  next
    case False
    then obtain f where s': "s' = upd_node b (\<lambda>c. c\<lparr>n_parent := Some a\<rparr>) (upd_node a f s1)"
      and f: "kids (f (node_at s1 a)) = kids (node_at s1 a) @ [b]" "n_parent (f (node_at s1 a)) = n_parent (node_at s1 a)"
        "n_ptr (f (node_at s1 a)) = n_ptr (node_at s1 a)" "n_flags (f (node_at s1 a)) = n_flags (node_at s1 a)"
      using ch by (auto simp: ramfs_add_child_def Let_def split: if_splits)
    have u: "tree_live (upd_node a f s1) \<and> grows s1 (upd_node a f s1)"
    proof (rule upd_node_live [OF t1 la(1)])
      show "live s1 c" if "c \<in> set (kids (f (node_at s1 a))) \<or> n_parent (f (node_at s1 a)) = Some c \<or> n_ptr (f (node_at s1 a)) = Some c" for c
        using that tree_liveD(3-5) [OF t1, where a = a and c = c] l1 [of b] unfolding f(1-3) by auto
    qed (simp add: is_dir_def f(4))
    have lu: "live (upd_node a f s1) x = live s1 x" for x using la(1) by (simp add: live_def upd_node_def)
    have "tree_live s' \<and> grows (upd_node a f s1) s'"
      unfolding s'
    proof (rule upd_node_live)
      let ?n = "node_at (upd_node a f s1) b"
      have n: "?n = node_at s1 b" using la(2) by simp
      show "live (upd_node a f s1) c" if "c \<in> set (kids (?n\<lparr>n_parent := Some a\<rparr>)) \<or> n_parent (?n\<lparr>n_parent := Some a\<rparr>) = Some c \<or> n_ptr (?n\<lparr>n_parent := Some a\<rparr>) = Some c" for c
      proof -
        have "kids (?n\<lparr>n_parent := Some a\<rparr>) = []" using nb(2) unfolding n by (simp add: kids_def)
        then show ?thesis using that nb(3,4) la(1) not_sym [OF la(2)] unfolding lu by auto
      qed
    qed (use u lu l1 in \<open>simp_all add: is_dir_def\<close>)
    with u g1 show ?thesis using grows_trans by blast
  qed
qed (use t in simp)

end
