(* ===== verification/Syscall_Types.thy ===== *)
theory Syscall_Types
  imports Syscall_Props Ipc_Props
begin

text \<open>
  The typing of descriptors over the system calls: a descriptor that names a node is open and its node is a live
  file; the three standard descriptors of every process stay open and name no node.
\<close>

section \<open>Process tables\<close>

definition fd_typed :: "fs \<Rightarrow> fd_entry \<Rightarrow> bool" where
  "fd_typed s f \<longleftrightarrow> (fd_node f \<noteq> 0 \<longrightarrow> fd_in_use f \<and> live s (unat (fd_node f)) \<and> \<not> is_dir (node_at s (unat (fd_node f))))"

definition fds_typed :: "fs \<Rightarrow> fd_entry list \<Rightarrow> bool" where
  "fds_typed s ft \<longleftrightarrow> length ft = MAX_FDS_PER_PROC \<and> (\<forall>f \<in> set ft. fd_typed s f)"

definition std_open :: "fd_entry list \<Rightarrow> bool" where
  "std_open ft \<longleftrightarrow> (\<forall>i < 3. fd_in_use (ft ! i) \<and> fd_node (ft ! i) = 0)"

definition proc_typed :: "fs \<Rightarrow> process \<Rightarrow> bool" where
  "proc_typed s p \<longleftrightarrow> fds_typed s (fd_table p) \<and> (pstate p \<noteq> PROC_UNUSED \<longrightarrow> std_open (fd_table p))"

definition procs_typed :: "fs \<Rightarrow> procs \<Rightarrow> bool" where
  "procs_typed s t \<longleftrightarrow> (\<forall>p \<in> set (process_table t). proc_typed s p)"

lemma fds_typed_grows: "grows s s' \<Longrightarrow> fds_typed s ft \<Longrightarrow> fds_typed s' ft"
  by (auto simp: fds_typed_def fd_typed_def grows_def)

lemma procs_typed_grows: "grows s s' \<Longrightarrow> procs_typed s t \<Longrightarrow> procs_typed s' t"
  using fds_typed_grows by (auto simp: procs_typed_def proc_typed_def)

lemma upd_proc_typed:
  assumes "procs_typed s t" and "i < length (process_table t) \<Longrightarrow> proc_typed s (proc_at t i) \<Longrightarrow> proc_typed s (f (proc_at t i))"
  shows "procs_typed s (upd_proc i f t)"
proof (cases "i < length (process_table t)")
  case True
  then have "proc_typed s (f (proc_at t i))" using assms by (simp add: procs_typed_def)
  then show ?thesis
    using assms(1) set_update_subset_insert [of "process_table t" i "f (proc_at t i)"] by (auto simp: procs_typed_def upd_proc_def)
qed (use assms(1) in \<open>simp add: upd_proc_def procs_typed_def list_update_beyond\<close>)

text \<open>Changes that leave the descriptors alone and do not bring a slot to life.\<close>

lemma upd_proc_other:
  assumes "procs_typed s t" and "fd_table (f (proc_at t i)) = fd_table (proc_at t i)"
    and "pstate (f (proc_at t i)) = PROC_UNUSED \<or> pstate (proc_at t i) \<noteq> PROC_UNUSED"
  shows "procs_typed s (upd_proc i f t)"
  by (rule upd_proc_typed [OF assms(1)]) (use assms(2,3) in \<open>auto simp: proc_typed_def\<close>)

lemma get_used: "process_get p t = Some i \<Longrightarrow> i < length (process_table t) \<and> pstate (proc_at t i) \<noteq> PROC_UNUSED"
  using find_idx_SomeD unfolding process_get_def by fastforce

lemma current_used: "process_current t = Some i \<Longrightarrow> i < length (process_table t) \<and> pstate (proc_at t i) \<noteq> PROC_UNUSED"
  unfolding process_current_def by (rule get_used)

lemma current_typed:
  "procs_typed s t \<Longrightarrow> process_current t = Some i \<Longrightarrow> fds_typed s (fd_table (proc_at t i)) \<and> std_open (fd_table (proc_at t i))"
  using current_used [of t i] by (auto simp: procs_typed_def proc_typed_def)

lemma upd_fd_typed:
  assumes t: "procs_typed s t" and k: "3 \<le> k" and f: "fd_typed s (fd_table (proc_at t i) ! k) \<Longrightarrow> fd_typed s (f (fd_table (proc_at t i) ! k))"
  shows "procs_typed s (upd_fd i k f t)"
  unfolding upd_fd_def
proof (rule upd_proc_typed [OF t])
  let ?p = "proc_at t i"
  assume p: "proc_typed s ?p"
  have "fd_typed s g" if "g \<in> set ((fd_table ?p)[k := f (fd_table ?p ! k)])" for g
  proof (cases "k < length (fd_table ?p)")
    case True
    then have "fd_typed s (fd_table ?p ! k)" using p by (simp add: proc_typed_def fds_typed_def)
    then show ?thesis
      using that f p set_update_subset_insert [of "fd_table ?p" k "f (fd_table ?p ! k)"] by (auto simp: proc_typed_def fds_typed_def)
  qed (use that p in \<open>simp add: proc_typed_def fds_typed_def list_update_beyond\<close>)
  then show "proc_typed s (?p\<lparr>fd_table := (fd_table ?p)[k := f (fd_table ?p ! k)]\<rparr>)"
    using p k by (auto simp: proc_typed_def fds_typed_def std_open_def)
qed

section \<open>Operations on processes\<close>

lemma init_fd_list: "fds_typed s (fd_table (init_process_fd_table p)) \<and> std_open (fd_table (init_process_fd_table p))"
  by (auto simp: init_process_fd_table_def fds_typed_def fd_typed_def std_open_def)

lemma create_typed:
  assumes "procs_typed s t"
  shows "procs_typed s (snd (process_create name parent ticks t))"
proof (cases "find_idx (\<lambda>q. pstate q = PROC_UNUSED) (process_table t)")
  case (Some slot)
  have "procs_typed s (t\<lparr>next_pid := n\<rparr>)" for n using assms by (simp add: procs_typed_def)
  then have "procs_typed s (upd_proc slot (\<lambda>p. init_process_signals (init_process_fd_table (g p))) (t\<lparr>next_pid := n\<rparr>))" for n g
    by (rule upd_proc_typed) (use init_fd_list in \<open>simp add: proc_typed_def init_process_signals_def\<close>)
  with Some show ?thesis by (simp add: process_create_def Let_def)
qed (use assms in \<open>simp add: process_create_def del: find_idx_None\<close>)

lemma create_used:
  assumes "pstate (proc_at t j) \<noteq> PROC_UNUSED" and "j < length (process_table t)"
  shows "pstate (proc_at (snd (process_create name parent ticks t)) j) \<noteq> PROC_UNUSED \<and>
    length (process_table (snd (process_create name parent ticks t))) = length (process_table t)"
proof -
  have "pstate ((process_table t)[i := q] ! j) \<noteq> PROC_UNUSED" if "pstate q \<noteq> PROC_UNUSED" for i q
    using that assms by (cases "i = j") simp_all
  moreover have "pstate (init_process_signals (init_process_fd_table p)) = pstate p" for p
    by (simp add: init_process_signals_def init_process_fd_table_def)
  ultimately show ?thesis
    using assms by (simp add: process_create_def Let_def upd_proc_def split: option.split)
qed

lemma fork_typed:
  assumes t: "procs_typed s t"
  shows "procs_typed s (snd (process_fork ticks t))"
proof (cases "process_current t")
  case (Some i)
  obtain c t1 where c: "process_create (pname (proc_at t i)) (pid (proc_at t i)) ticks t = (c, t1)" by (cases "process_create (pname (proc_at t i)) (pid (proc_at t i)) ticks t")
  then have t1: "procs_typed s t1" using create_typed [OF t, of "pname (proc_at t i)" "pid (proc_at t i)" ticks] by simp
  have u: "i < length (process_table t)" "pstate (proc_at t i) \<noteq> PROC_UNUSED" using current_used [OF Some] by simp_all
  then have "i < length (process_table t1)" "pstate (proc_at t1 i) \<noteq> PROC_UNUSED"
    using create_used [OF u(2,1), of "pname (proc_at t i)" "pid (proc_at t i)" ticks] c by simp_all
  then have "fds_typed s (fd_table (proc_at t1 i)) \<and> std_open (fd_table (proc_at t1 i))"
    using t1 by (auto simp: procs_typed_def proc_typed_def)
  then have "procs_typed s (upd_proc child (\<lambda>c. c\<lparr>pgid := pg, fd_table := fd_table (proc_at t1 i), blocked_signals := b, signal_handlers := h\<rparr>) t1)" for child pg b h
    by (intro upd_proc_typed [OF t1]) (auto simp: proc_typed_def)
  then show ?thesis using Some c t1 by (simp add: process_fork_def split: option.split)
qed (use t in \<open>simp add: process_fork_def\<close>)

lemma kill_typed:
  assumes "procs_typed s t"
  shows "procs_typed s (snd (process_kill p t))"
proof -
  have "procs_typed s (upd_proc i (\<lambda>q. q\<lparr>pstate := PROC_UNUSED\<rparr>) (upd_proc i (\<lambda>q. q\<lparr>pstate := PROC_ZOMBIE\<rparr>) t))"
    if "process_get p t = Some i" for i
    using get_used [OF that] by (intro upd_proc_other assms) simp_all
  then show ?thesis using assms by (simp add: process_kill_def split: option.split)
qed

lemma signal_typed: "procs_typed s t \<Longrightarrow> procs_typed s (snd (process_signal p sig t))"
  by (auto simp: process_signal_def Let_def split: option.split dest: get_used intro!: upd_proc_other)

lemma waitpid_typed: "procs_typed s t \<Longrightarrow> procs_typed s (snd (process_waitpid p t))"
  by (auto simp: process_waitpid_def split: option.split intro!: upd_proc_other)

lemma setpgid_typed: "procs_typed s t \<Longrightarrow> procs_typed s (snd (process_setpgid p pg t))"
  by (auto simp: process_setpgid_def pid_or_current_def split: option.split intro!: upd_proc_typed [of s] simp: proc_typed_def)

lemma handler_typed: "procs_typed s t \<Longrightarrow> procs_typed s (snd (signal_set_handler sig h t))"
  by (auto simp: signal_set_handler_def split: option.split intro!: upd_proc_typed [of s] simp: proc_typed_def)

lemma mask_typed: "procs_typed s t \<Longrightarrow> procs_typed s (snd (signal_mask_op f m t))"
  by (auto simp: signal_mask_op_def split: option.split intro!: upd_proc_typed [of s] simp: proc_typed_def)

lemma exec_typed:
  assumes t: "procs_typed s t"
  shows "procs_typed s (snd (process_exec path loaded t))"
proof -
  let ?f = "\<lambda>p. p\<lparr>pname := take (PROC_NAME_LEN - 1) (base_name path path), pending_signals := 0, signal_handlers := replicate NSIG SIG_DFL,
                 fd_table := map (\<lambda>k. let f = fd_table p ! k in
                    if 3 \<le> k \<and> fd_in_use f \<and> fd_flags f AND 0x80000000 \<noteq> 0
                    then f\<lparr>fd_in_use := False, fd_node := 0\<rparr> else f) [0 ..< MAX_FDS_PER_PROC]\<rparr>"
  have "procs_typed s (upd_proc i ?f t)" for i
    by (rule upd_proc_typed [OF t])
      (auto simp: proc_typed_def fds_typed_def fd_typed_def std_open_def Let_def split: if_splits simp del: upt_rec_numeral)
  then show ?thesis using t by (simp add: process_exec_def split: option.split)
qed

lemma pipe_typed:
  assumes t: "procs_typed s t"
  shows "procs_typed s (fst (snd (pipe_create (t, c))))"
proof -
  have "procs_typed s (upd_fd i (nat wfd) (\<lambda>f. f\<lparr>fd_in_use := True, fd_pipe_id := p, fd_flags := 1, fd_node := 0\<rparr>)
          (upd_fd i (nat rfd) (\<lambda>f. f\<lparr>fd_in_use := True, fd_pipe_id := p, fd_flags := 0, fd_node := 0\<rparr>) t))"
    if "two_fds (fd_table (proc_at t i)) [3 ..< MAX_FDS_PER_PROC] (-1) (-1) = (rfd, wfd)" "\<not> (rfd < 0 \<or> wfd < 0)" for i rfd wfd p
  proof -
    define zs where "zs = filter (\<lambda>j. \<not> fd_in_use (fd_table (proc_at t i) ! j)) [3 ..< MAX_FDS_PER_PROC]"
    have "set zs \<subseteq> {3 ..}" unfolding zs_def by (auto simp del: upt_rec_numeral)
    then have "3 \<le> rfd \<and> 3 \<le> wfd"
      using that unfolding two_fds_eq zs_def [symmetric] by (cases zs; cases "tl zs") auto
    then have "3 \<le> nat rfd" "3 \<le> nat wfd" by linarith+
    then show ?thesis by - (rule upd_fd_typed [OF upd_fd_typed [OF t]], simp_all add: fd_typed_def)
  qed
  note two = this
  show ?thesis
  proof (cases "find_idx (\<lambda>p. \<not> pipe_in_use p) (pipes c)")
    case (Some p)
    show ?thesis
    proof (cases "process_current t")
      case (Some i)
      obtain rfd wfd where f: "two_fds (fd_table (proc_at t i)) [3 ..< MAX_FDS_PER_PROC] (-1) (-1) = (rfd, wfd)" by fastforce
      show ?thesis
        using two [OF f, of "int p"] t Some \<open>find_idx _ _ = Some p\<close> by (simp add: pipe_create_def Let_def f del: upt_rec_numeral)
    qed (use t Some in \<open>simp add: pipe_create_def\<close>)
  qed (use t in \<open>simp add: pipe_create_def del: find_idx_None\<close>)
qed

lemma free_fd_typed: "procs_typed s t \<Longrightarrow> procs_typed s (free_fd fd t)"
  by (auto simp: free_fd_def clear_fd_def fd_typed_def split: option.split intro!: upd_fd_typed)

lemma exit_fds_typed: "procs_typed s t \<Longrightarrow> procs_typed s (exit_fds t)"
proof -
  have "procs_typed s t \<Longrightarrow> procs_typed s (fold (\<lambda>fd t. case process_current t of None \<Rightarrow> t | Some i \<Rightarrow>
      if fd_in_use (fd_table (proc_at t i) ! fd) then free_fd fd t else t) xs t)" for xs
    by (induction xs arbitrary: t) (auto simp: free_fd_typed split: option.split)
  then show "procs_typed s t \<Longrightarrow> procs_typed s (exit_fds t)" unfolding exit_fds_def .
qed

lemma exit_typed:
  assumes "procs_typed s t"
  shows "procs_typed s (exit_process t)"
proof -
  have "procs_typed s (upd_proc i (\<lambda>p. p\<lparr>kernel_stack := 0, elf_proc := 0\<rparr>) t)" for i
    by (rule upd_proc_typed [OF assms]) (simp add: proc_typed_def)
  note k = kill_typed [OF this]
  have c: "procs_typed s (process_set_current n u)" if "procs_typed s u" for n u using that by (simp add: process_set_current_def procs_typed_def)
  show ?thesis unfolding exit_process_def by (rule c) (use assms k in \<open>simp split: option.split\<close>)
qed

section \<open>System calls\<close>

definition kern_typed :: "kern \<Rightarrow> bool" where
  "kern_typed k \<longleftrightarrow> tree_live (k_fs k) \<and> procs_typed (k_fs k) (k_procs k)"

text \<open>The heap gives out no node that is in use.\<close>

definition env_fresh :: "env \<Rightarrow> kern \<Rightarrow> bool" where
  "env_fresh e k \<longleftrightarrow> (\<forall>x. fm_node (e_node e) = Some x \<longrightarrow> \<not> live (k_fs k) x \<and> 0 < x \<and> x < 2 ^ 32)"

lemma kern_typed_same: "kern_typed k \<Longrightarrow> k_fs k' = k_fs k \<Longrightarrow> k_procs k' = k_procs k \<Longrightarrow> kern_typed k'"
  by (simp add: kern_typed_def)

lemma kern_typed_procs: "kern_typed k \<Longrightarrow> procs_typed (k_fs k) t \<Longrightarrow> kern_typed (k\<lparr>k_procs := t\<rparr>)"
  by (simp add: kern_typed_def)

lemma kern_typed_fs: "kern_typed k \<Longrightarrow> tree_live s \<and> grows (k_fs k) s \<Longrightarrow> kern_typed (k\<lparr>k_fs := s\<rparr>)"
  using procs_typed_grows by (auto simp: kern_typed_def)

lemma put_user_same: "put_user a bs k = Some k' \<Longrightarrow> k' = k\<lparr>k_mm := k_mm k'\<rparr>"
  by (auto simp: put_user_def Let_def split: if_splits)

lemma put_user_typed: "put_user a bs k = Some k' \<Longrightarrow> kern_typed k' = kern_typed k"
  by (drule put_user_same) (metis kern_typed_def kern.simps(1,3) kern.select_convs kern.surjective kern.update_convs(4))

lemma open_file_typed:
  assumes k: "kern_typed k" and d: "descriptor fd k = Some d" and n: "fd_node (fd_at d k) \<noteq> 0"
  shows "live (k_fs k) (unat (fd_node (fd_at d k)))" and "\<not> is_dir (node_at (k_fs k) (unat (fd_node (fd_at d k))))" and "3 \<le> snd d"
proof -
  have p: "process_current (k_procs k) = Some (fst d)" and u: "snd d = unat fd" "uint fd < 32"
    using d by (auto simp: descriptor_def fd_lookup_def split: option.splits if_splits)
  have lt: "snd d < MAX_FDS_PER_PROC" using u unfolding uint_nat by linarith
  have t: "fds_typed (k_fs k) (fd_table (proc_at (k_procs k) (fst d)))" "std_open (fd_table (proc_at (k_procs k) (fst d)))"
    using current_typed [OF _ p] k unfolding kern_typed_def by blast+
  then have "fd_typed (k_fs k) (fd_at d k)" using lt by (simp add: fds_typed_def fd_at_def)
  then show "live (k_fs k) (unat (fd_node (fd_at d k)))" "\<not> is_dir (node_at (k_fs k) (unat (fd_node (fd_at d k))))"
    using n by (simp_all add: fd_typed_def)
  show "3 \<le> snd d" using t(2) n unfolding std_open_def fd_at_def by (meson not_less)
qed

lemma advance_typed: "kern_typed k \<Longrightarrow> 3 \<le> snd d \<Longrightarrow> kern_typed (advance d r k)"
  by (auto simp: advance_def fd_typed_def intro!: kern_typed_procs upd_fd_typed) (simp_all add: kern_typed_def)

lemma read_typed:
  assumes k: "kern_typed k" and r: "sys_read e fd buf count k = Some (r, k')"
  shows "kern_typed k'"
proof (cases "k' = k \<or> fd = 0")
  case True
  then show ?thesis
    using k r put_user_typed kern_typed_same [OF k, of "k\<lparr>k_kbd := _\<rparr>"]
    by (auto simp: sys_read_def bind_eq_Some_conv split: if_splits option.splits)
next
  case False
  then obtain d bs s k1 where d: "descriptor fd k = Some d" "fd_node (fd_at d k) \<noteq> 0"
    and v: "vfs_read (e_now e) (vnode_of (fd_node (fd_at d k))) (fd_offset (fd_at d k)) count (k_fs k) = Some ((r, bs), s)"
    and p: "put_user buf bs (k\<lparr>k_fs := s\<rparr>) = Some k1" and k': "k' = advance d r k1"
    using r by (auto simp: sys_read_def bind_eq_Some_conv split: if_splits option.splits)
  note o = open_file_typed [OF k d]
  have t: "tree_live (k_fs k)" using k by (simp add: kern_typed_def)
  have "tree_live s \<and> grows (k_fs k) s"
    using v read_live [OF t o(1)] t by (auto simp: vfs_read_def vnode_of_def d(2) split: fs_ops.splits)
  then have "kern_typed k1" using put_user_typed [OF p] kern_typed_fs [OF k] by simp
  then show ?thesis unfolding k' by (rule advance_typed) (rule o(3))
qed

lemma write_typed:
  assumes k: "kern_typed k" and r: "sys_write e fd buf count k = Some (r, k')"
  shows "kern_typed k'"
proof (cases "k' = k \<or> fd = 1 \<or> fd = 2")
  case True
  then show ?thesis
    using k r by (auto simp: sys_write_def bind_eq_Some_conv kern_typed_def split: if_splits option.splits)
next
  case False
  then obtain d bs s where d: "descriptor fd k = Some d" "fd_node (fd_at d k) \<noteq> 0" and k': "k' = advance d r (k\<lparr>k_fs := s\<rparr>)"
    and v: "vfs_append (e_grow e) (e_now e) (vnode_of (fd_node (fd_at d k))) count bs (k_fs k) = Some (r, s) \<or>
      vfs_write (e_grow e) (e_now e) (vnode_of (fd_node (fd_at d k))) (fd_offset (fd_at d k)) count bs (k_fs k) = Some (r, s)"
    using r by (auto simp: sys_write_def bind_eq_Some_conv split: if_splits option.splits)
  note o = open_file_typed [OF k d]
  have t: "tree_live (k_fs k)" using k by (simp add: kern_typed_def)
  have "tree_live s \<and> grows (k_fs k) s"
    using v write_live [OF t o(1)] t by (auto simp: vfs_append_def vfs_write_def vnode_of_def d(2) split: fs_ops.splits if_splits)
  then show ?thesis unfolding k' using kern_typed_fs [OF k] advance_typed o(3) by blast
qed

lemma open_create_typed:
  assumes t: "tree_live s" and c: "open_create e path s = Some (node, s')"
    and fresh: "\<And>x. fm_node (e_node e) = Some x \<Longrightarrow> \<not> live s x \<and> 0 < x \<and> x < 2 ^ 32"
  shows "tree_live s' \<and> grows s s' \<and> (\<forall>a. node = Some a \<longrightarrow> live s' a)"
proof (cases "last_slash (take 255 path)")
  case (Some i)
  let ?parent = "if i = 0 then vfs_root s else vfs_lookup (take i (take 255 path)) s"
  show ?thesis
  proof (cases "vfs_is_directory ?parent s")
    case True
    then obtain r where r: "vfs_create (e_node e) (e_now e) ?parent (drop (i + 1) (take 255 path)) VFS_FILE s = Some (r, s')"
      and n: "node = (if r = 0 then vfs_finddir ?parent (drop (i + 1) (take 255 path)) s' else None)"
      using c Some by (auto simp: open_create_def Let_def bind_eq_Some_conv simp del: take_take split: if_split_asm)
    have l: "tree_live s' \<and> grows s s'" by (rule create_live [OF t r fresh])
    then show ?thesis using n finddir_live by (auto split: if_split_asm)
  qed (use c Some t in \<open>simp add: open_create_def Let_def del: take_take\<close>)
qed (use c t in \<open>simp add: open_create_def\<close>)

lemma alloc_fd_typed:
  assumes k: "kern_typed k" and a: "alloc_fd k = (Some (i, fd), k1)" and s: "tree_live s \<and> grows (k_fs k) s"
    and n: "live s a" "\<not> is_dir (node_at s a)"
  shows "kern_typed (k1\<lparr>k_fs := s, k_procs := upd_fd i fd (\<lambda>f. f\<lparr>fd_node := of_nat a, fd_flags := fl, fd_offset := off\<rparr>) (k_procs k1)\<rparr>)"
proof -
  let ?t = "k_procs k" and ?g = "\<lambda>f. f\<lparr>fd_in_use := True, fd_offset := 0\<rparr>" and ?h = "\<lambda>f. f\<lparr>fd_node := of_nat a, fd_flags := fl, fd_offset := off\<rparr>"
  obtain j where p: "process_current ?t = Some i" and fd: "fd = 3 + j" and k1: "k1 = k\<lparr>k_procs := upd_fd i fd ?g ?t\<rparr>"
    and j: "find_idx (\<lambda>f. \<not> fd_in_use (fd_table (proc_at ?t i) ! f)) [3 ..< MAX_FDS_PER_PROC] = Some j"
    using a by (auto simp: alloc_fd_def simp del: upt_rec_numeral split: option.splits)
  have lt: "fd < MAX_FDS_PER_PROC" using find_idx_SomeD [OF j] fd by (simp del: upt_rec_numeral)
  have i: "i < length (process_table ?t)" using current_used [OF p] by simp
  have st: "procs_typed s ?t" using procs_typed_grows k s by (auto simp: kern_typed_def)
  have len: "length (fd_table (proc_at ?t i)) = MAX_FDS_PER_PROC" using current_typed [OF st p] by (simp add: fds_typed_def)
  have "upd_fd i fd ?h (upd_fd i fd ?g ?t) = upd_fd i fd (\<lambda>f. ?h (?g f)) ?t"
    using i lt len by (simp add: upd_fd_def upd_proc_def)
  moreover have "procs_typed s (upd_fd i fd (\<lambda>f. ?h (?g f)) ?t)"
  proof (rule upd_fd_typed [OF st])
    have "a < 2 ^ 32" using tree_liveD(2) n(1) s by blast
    then have "unat (of_nat a :: u32) = a" by (simp add: unat_of_nat)
    then show "fd_typed s (?h (?g (fd_table (proc_at ?t i) ! fd)))" using n by (simp add: fd_typed_def)
  qed (simp add: fd)
  ultimately show ?thesis using s by (simp add: kern_typed_def k1)
qed

lemma open_typed:
  assumes k: "kern_typed k" and e: "env_fresh e k" and r: "sys_open e path flags k = Some (r, k')"
  shows "kern_typed k'"
proof -
  have t: "tree_live (k_fs k)" using k by (simp add: kern_typed_def)
  obtain q where q: "validate_user_string path 256 k = Some q" using r by (auto simp: sys_open_def bind_eq_Some_conv)
  show ?thesis
  proof (cases q)
    case (Some u)
    let ?find = "case vfs_lookup (text_of u) (k_fs k) of
             None \<Rightarrow> if flags AND VFS_O_CREAT \<noteq> 0 then open_create e (text_of u) (k_fs k) else Some (None, k_fs k)
           | Some a \<Rightarrow> Some (Some a, k_fs k)"
    obtain node s where ns: "?find = Some (node, s)" using r q Some by (auto simp: sys_open_def Let_def bind_eq_Some_conv)
    have l: "tree_live s" "grows (k_fs k) s" and nl: "node = Some a \<Longrightarrow> live s a" for a
      using ns open_create_typed [OF t] e lookup_live [OF t] t unfolding env_fresh_def
      by (auto split: option.splits if_splits)
    let ?k = "k\<lparr>k_fs := s\<rparr>"
    have kt: "kern_typed ?k" using kern_typed_fs [OF k] l by blast
    note un = r [unfolded sys_open_def, simplified q Some ns Let_def bind.bind_lunit option.case prod.case]
    show ?thesis
    proof (cases node)
      case None
      then show ?thesis using un kt by simp
    next
      case (Some a)
      show ?thesis
      proof (cases "is_dir (node_at s a)")
        case True
        then show ?thesis using un Some kt by (simp add: vfs_is_directory_def)
      next
        case False
        obtain d k1 where al: "alloc_fd ?k = (d, k1)" by fastforce
        show ?thesis
        proof (cases d)
          case None
          then have "k1 = ?k" using al by (auto simp: alloc_fd_def split: option.splits)
          then show ?thesis using un Some False al None kt by (simp add: vfs_is_directory_def)
        next
          case (Some x)
          then obtain i fd where x: "d = Some (i, fd)" by (cases x) simp
          have fs1: "k_fs k1 = s" using al by (auto simp: alloc_fd_def split: option.splits)
          have live_a: "live s a" using nl \<open>node = Some a\<close> by blast
          define s1 where "s1 = (if flags AND VFS_O_TRUNC \<noteq> 0 then snd (vfs_truncate (Some a) s) else s)"
          have "tree_live (upd_node a (\<lambda>n. n\<lparr>n_length := 0\<rparr>) s) \<and> grows s (upd_node a (\<lambda>n. n\<lparr>n_length := 0\<rparr>) s)"
            by (rule live_kept [OF l(1) live_a]) (simp_all add: kids_def)
          then have s1: "tree_live s1 \<and> grows s s1" using l(1) by (simp add: s1_def vfs_truncate_def)
          then have "live s1 a" "\<not> is_dir (node_at s1 a)" using live_a False by (auto simp: grows_def)
          from alloc_fd_typed [OF kt al [unfolded x] _ this] s1
          show ?thesis using un \<open>node = Some a\<close> False al x fs1 unfolding s1_def by (auto simp: vfs_is_directory_def)
        qed
      qed
    qed
  qed (use r q k in \<open>simp add: sys_open_def\<close>)
qed

text \<open>The calls that change only the process table, and those that change neither it nor the files.\<close>

lemma put_user_core: "put_user a bs k = Some k' \<Longrightarrow> k_fs k' = k_fs k \<and> k_procs k' = k_procs k"
  by (auto simp: put_user_def Let_def split: if_splits)

lemma put_opt_core: "put_opt ok a bs k = Some k' \<Longrightarrow> k_fs k' = k_fs k \<and> k_procs k' = k_procs k"
  unfolding put_opt_def by (cases bs; cases ok) (auto dest: put_user_core)

lemma put_sockaddr_core: "put_sockaddr a l v k = Some (r, k') \<Longrightarrow> k_fs k' = k_fs k \<and> k_procs k' = k_procs k"
  by (cases v) (auto simp: put_sockaddr_def bind_eq_Some_conv dest!: put_user_core split: if_split_asm)

lemma proc_calls_typed:
  assumes k: "kern_typed k"
  shows "kern_typed (snd (sys_fork e k))" "kern_typed (snd (sys_kill p sig k))" "kern_typed (snd (sys_setpgid p pg k))"
    "kern_typed (snd (sys_close fd k))" "kern_typed (snd (sys_lseek fd off whence k))"
    "sys_waitpid p st k = Some (r, k') \<Longrightarrow> kern_typed k'" "sys_sigaction a h old k = Some (r, k') \<Longrightarrow> kern_typed k'"
    "sys_sigprocmask how m old k = Some (r, k') \<Longrightarrow> kern_typed k'" "sys_pipe q k = Some (r, k') \<Longrightarrow> kern_typed k'"
    "sys_exec e path k = Some (x, k') \<Longrightarrow> kern_typed k'" "sys_exit status k = Some k' \<Longrightarrow> kern_typed k'"
proof -
  have t: "procs_typed (k_fs k) (k_procs k)" and l: "tree_live (k_fs k)" using k by (simp_all add: kern_typed_def)
  show "kern_typed (snd (sys_fork e k))" using fork_typed [OF t] l by (simp add: sys_fork_def kern_typed_def case_prod_unfold Let_def)
  show "kern_typed (snd (sys_kill p sig k))" using signal_typed [OF t] l by (simp add: sys_kill_def kern_typed_def case_prod_unfold Let_def)
  show "kern_typed (snd (sys_setpgid p pg k))" using setpgid_typed [OF t] l by (simp add: sys_setpgid_def kern_typed_def case_prod_unfold Let_def)
  show "kern_typed (snd (sys_close fd k))" using free_fd_typed [OF t] l k by (simp add: sys_close_def kern_typed_def split: option.split)
  have "procs_typed (k_fs k) (upd_fd i j (\<lambda>f. f\<lparr>fd_offset := o'\<rparr>) (k_procs k))" if "descriptor fd k = Some (i, j)" "fd_node (fd_at (i, j) k) \<noteq> 0" for i j o'
    by (rule upd_fd_typed [OF t]) (use open_file_typed(3) [OF k that] in \<open>simp_all add: fd_typed_def\<close>)
  then have "kern_typed (k\<lparr>k_procs := upd_fd i j (\<lambda>f. f\<lparr>fd_offset := o'\<rparr>) (k_procs k)\<rparr>)"
    if "descriptor fd k = Some (i, j)" "fd_node (fd_at (i, j) k) \<noteq> 0" for i j o'
    using that l by (simp add: kern_typed_def)
  then show "kern_typed (snd (sys_lseek fd off whence k))" using k by (auto simp: sys_lseek_def Let_def split: option.split)
  show "kern_typed k'" if "sys_waitpid p st k = Some (r, k')"
    using that waitpid_typed [OF t, of "sint p"] l put_opt_core
    by (fastforce simp: sys_waitpid_def kern_typed_def case_prod_unfold Let_def)
  show "kern_typed k'" if "sys_sigaction a h old k = Some (r, k')"
    using that handler_typed [OF t, of "sint a" h] l put_opt_core
    by (fastforce simp: sys_sigaction_def kern_typed_def case_prod_unfold Let_def)
  have "procs_typed (k_fs k) (snd ((if how = 0 then signal_block else if how = 1 then signal_unblock else signal_setmask) w (k_procs k)))" for w
    using mask_typed [OF t] by (simp add: signal_block_def signal_unblock_def signal_setmask_def)
  then show "kern_typed k'" if "sys_sigprocmask how m old k = Some (r, k')"
    using that l put_opt_core
    by (fastforce simp: sys_sigprocmask_def kern_typed_def case_prod_unfold Let_def bind_eq_Some_conv simp del: if_split)
  show "kern_typed k'" if "sys_pipe q k = Some (r, k')"
    using that pipe_typed [OF t, of "k_ipc k"] l k put_user_core
    by (fastforce simp: sys_pipe_def kern_typed_def case_prod_unfold Let_def split: if_splits option.splits)
  show "kern_typed k'" if "sys_exec e path k = Some (x, k')"
    using that exec_typed [OF t] l k by (auto simp: sys_exec_def kern_typed_def case_prod_unfold Let_def bind_eq_Some_conv split: if_splits option.splits)
  show "kern_typed k'" if "sys_exit status k = Some k'"
    using that exit_typed [OF exit_fds_typed [OF t]] l by (auto simp: sys_exit_def kern_typed_def bind_eq_Some_conv)
qed

definition core :: "kern \<Rightarrow> fs \<times> procs" where "core k = (k_fs k, k_procs k)"

lemma core_typed: "kern_typed k \<Longrightarrow> core k' = core k \<Longrightarrow> kern_typed k'"
  by (simp add: core_def kern_typed_def)

lemma core_upd [simp]:
  "core (k\<lparr>k_ipc := x1\<rparr>) = core k" "core (k\<lparr>k_mm := x2\<rparr>) = core k" "core (k\<lparr>k_kbd := x3\<rparr>) = core k"
  "core (k\<lparr>k_vga := x4\<rparr>) = core k" "core (k\<lparr>k_serial := x5\<rparr>) = core k" "core (k\<lparr>k_net := x6\<rparr>) = core k"
  by (simp_all add: core_def)

lemma put_core: "put_user a bs k = Some k' \<Longrightarrow> core k' = core k" "put_sockaddr a l v k = Some (r, k') \<Longrightarrow> core k' = core k"
  using put_user_core put_sockaddr_core by (auto simp: core_def)

lemma other_calls:
  "core (snd (sys_shmget a b k)) = core k" "core (snd (sys_shmat a b k)) = core k" "core (snd (sys_shmdt a k)) = core k"
  "core (snd (sys_msgget a k)) = core k" "core (snd (sys_munmap_handler a b k)) = core k" "core (snd (sys_mprotect_handler a b c k)) = core k"
  "core (snd (sys_socket a b k)) = core k" "core (snd (sys_listen a k)) = core k" "core (snd (sys_accept a k)) = core k"
  by (simp_all add: sys_shmget_def sys_shmat_def sys_shmdt_def sys_msgget_def sys_munmap_handler_def sys_mprotect_handler_def sys_socket_def
      sys_listen_def sys_accept_def Let_def case_prod_unfold)

lemma other_partial_calls:
  "sys_stat a b k = Some (r, k') \<Longrightarrow> core k' = core k" "sys_msgsnd a b c d k = Some (r, k') \<Longrightarrow> core k' = core k"
  "sys_msgrcv a b c d k = Some (r, k') \<Longrightarrow> core k' = core k" "sys_mmap_handler a b c d k = Some (r, k') \<Longrightarrow> core k' = core k"
  "sys_bind a b k = Some (r, k') \<Longrightarrow> core k' = core k" "sys_connect a b k = Some (r, k') \<Longrightarrow> core k' = core k"
  "sys_send a b c k = Some (r, k') \<Longrightarrow> core k' = core k" "sys_closesock a k = Some (r, k') \<Longrightarrow> core k' = core k"
  "sys_shutdown a b k = Some (r, k') \<Longrightarrow> core k' = core k" "sys_getsockname a b c k = Some (r, k') \<Longrightarrow> core k' = core k"
  "sys_getpeername a b c k = Some (r, k') \<Longrightarrow> core k' = core k"
  by (auto simp: sys_stat_def sys_msgsnd_def sys_msgrcv_def sys_mmap_handler_def sys_bind_def sys_connect_def sys_send_def
      sys_closesock_def sys_shutdown_def sys_getsockname_def sys_getpeername_def bind_eq_Some_conv Let_def case_prod_unfold
      split: if_splits option.splits dest!: put_core)

lemma recv_calls:
  "sys_recv a b c k = Some (r, k') \<Longrightarrow> core k' = core k" "sys_getsockopt a b c k = Some (r, k') \<Longrightarrow> core k' = core k"
  by (auto simp: sys_recv_def sys_getsockopt_def bind_eq_Some_conv Let_def case_prod_unfold split: if_splits dest!: put_core)

end
