(* ===== verification/Syscall_Main.thy ===== *)
theory Syscall_Main
  imports Syscall_Types Mmap_Props
begin

text \<open>
  The claims on the system calls: descriptors stay typed over every call, a file read back through a descriptor, a line read
  from the keyboard. A concrete state for their witnesses, and what the checks of the layer miss.
\<close>

section \<open>A concrete state\<close>

text \<open>
  The first 4 MB of the address space are mapped, at the frames from \<open>0x400000\<close>. The page at \<open>0x1000\<close> holds the
  path \<open>/a\<close>, that at \<open>0x2000\<close> two bytes. The shell runs.
\<close>

definition demo_vmm :: vmm where
  "demo_vmm = \<lparr>cr3 = 0x1000, ptmem = (\<lambda>f i. if f = 0x1000 then (if i = 0 then 0x2007 else if i = 1023 then 0x1007 else 0)
     else if f = 0x2000 then of_nat i * 0x1000 + 0x400007 else 0)\<rparr>"

definition demo_mm :: mm where
  "demo_mm = \<lparr>pv = (two_free, demo_vmm), mem = (\<lambda>_. 0)(0x401000 := 47, 0x401001 := 97, 0x402000 := 104, 0x402001 := 105),
     vmas = replicate 64 (replicate 32 no_vma), next_mmap = USER_MMAP_START\<rparr>"

definition demo_ramfs :: fs where
  "demo_ramfs = \<lparr>nodes = (\<lambda>_. None)(1 \<mapsto> zero_node\<lparr>n_name := ''/'', n_flags := VFS_DIRECTORY, n_inode := 1, n_ops := Ramfs_ops,
       rn_children := Some [7], rn_child_capacity := 8\<rparr>,
     7 \<mapsto> zero_node\<lparr>n_name := ''a'', n_flags := VFS_FILE, n_inode := 2, n_length := 4, n_parent := Some 1, n_ops := Ramfs_ops,
       rn_data := Some [1, 2, 3, 4]\<rparr>), next_inode = 3, vfs_root = Some 1, mount_table = [], mount_count = 0\<rparr>"

definition demo_kern :: kern where
  "demo_kern = \<lparr>k_procs = process_init, k_ipc = ipc_init, k_fs = demo_ramfs, k_mm = demo_mm, k_kbd = kbd_start, k_vga = demo_vga,
     k_serial = [], k_net = \<lparr>sockets = replicate MAX_SOCKETS zero_socket, sn = host_a\<rparr>, shell_stack_base = 0, shell_stack_top = 0\<rparr>"

definition demo_env :: env where
  "demo_env = \<lparr>e_now = 0, e_ticks = 0, e_grow = True, e_node = \<lparr>fm_node = Some 8, fm_array = True, fm_grow = True\<rparr>, e_loaded = 0\<rparr>"

lemma demo_node_at: "node_at demo_ramfs a = (if a = 1 then zero_node\<lparr>n_name := ''/'', n_flags := VFS_DIRECTORY, n_inode := 1, n_ops := Ramfs_ops,
       rn_children := Some [7], rn_child_capacity := 8\<rparr> else if a = 7 then
     zero_node\<lparr>n_name := ''a'', n_flags := VFS_FILE, n_inode := 2, n_length := 4, n_parent := Some 1, n_ops := Ramfs_ops, rn_data := Some [1, 2, 3, 4]\<rparr>
     else zero_node)"
  by (simp add: node_at_def demo_ramfs_def)

lemma demo_live: "live demo_ramfs a \<longleftrightarrow> a = 1 \<or> a = 7"
  by (simp add: live_def demo_ramfs_def)

lemma demo_tree_live: "tree_live demo_ramfs"
  unfolding tree_live_def demo_live demo_node_at
  by (simp add: demo_ramfs_def zero_node_def kids_def)

lemma init_proc_typed: "std_open (fd_table p) \<or> pstate p = PROC_UNUSED \<Longrightarrow> length (fd_table p) = MAX_FDS_PER_PROC \<Longrightarrow>
    \<forall>f \<in> set (fd_table p). fd_node f = 0 \<Longrightarrow> proc_typed s p"
  by (auto simp: proc_typed_def fds_typed_def fd_typed_def)

lemma demo_procs_typed: "procs_typed s process_init"
proof -
  have z: "proc_typed s zero_process" by (rule init_proc_typed) (simp_all add: zero_process_def zero_fd_def)
  have i: "proc_typed s (init_process_signals (init_process_fd_table p))" for p
    by (rule init_proc_typed) (auto simp: init_process_signals_def init_process_fd_table_def std_open_def)
  show ?thesis unfolding procs_typed_def process_init_def
    by (auto dest!: set_update_subset_insert [THEN subsetD] simp: z i)
qed

lemma demo_kern_typed: "kern_typed demo_kern" "env_fresh demo_env demo_kern"
  by (simp_all add: kern_typed_def demo_kern_def demo_tree_live demo_procs_typed env_fresh_def demo_env_def demo_live)

lemma demo_self: "self_map demo_vmm"
  by (simp add: self_map_def demo_vmm_def tbl_def pde_def)

lemma demo_current: "process_current process_init = Some 1"
proof -
  have "replicate MAX_PROCESSES zero_process = zero_process # zero_process # replicate 62 zero_process" by (simp add: numeral_eq_Suc)
  then show ?thesis
    by (simp add: process_current_def process_get_def process_init_def zero_process_def init_process_signals_def init_process_fd_table_def)
qed

lemma demo_mapped:
  "list_all (mapped demo_mm) [0x1000, 0x1001, 0x1002, 0x2000, 0x2001, 0x3000, 0x3001]"
  "map (phys_of demo_mm) [0x1000, 0x1001, 0x1002, 0x2000, 0x2001, 0x3000, 0x3001] = [0x401000, 0x401001, 0x401002, 0x402000, 0x402001, 0x403000, 0x403001]"
  unfolding demo_mm_def demo_vmm_def by code_simp+

lemma demo_pointers:
  "validate_user_ptr 0x2000 2 demo_kern" "validate_user_ptr 0x3000 2 demo_kern" "apart 0x3000 2 demo_kern"
  "user_bytes 0x2000 2 demo_kern = Some [104, 105]"
proof -
  show "validate_user_ptr 0x2000 2 demo_kern" "validate_user_ptr 0x3000 2 demo_kern"
    using demo_mapped(1) by (simp_all add: validate_user_ptr_def demo_kern_def user_pages_def)
  show "apart 0x3000 2 demo_kern" using demo_mapped(2) by (simp add: apart_def demo_kern_def numeral_eq_Suc lessThan_Suc)
  show "user_bytes 0x2000 2 demo_kern = Some [104, 105]"
    using demo_mapped by (simp add: user_bytes_def demo_kern_def upt_rec) (simp add: demo_mm_def)
qed

lemma demo_path: "validate_user_string 0x1000 256 demo_kern = Some (Some [47, 97])"
proof -
  have m: "mem demo_mm 0x401000 = 47" "mem demo_mm 0x401001 = 97" "mem demo_mm 0x401002 = 0" by (simp_all add: demo_mm_def)
  have "user_text (Suc (Suc (Suc n))) 0x1000 demo_kern = Some (Some [47, 97])" for n
    using demo_mapped by (simp add: demo_kern_def Let_def m)
  from this [of 253] show ?thesis by (simp add: validate_user_string_def del: user_text.simps)
qed

lemma demo_lookup: "vfs_lookup (text_of [47, 97]) demo_ramfs = Some 7"
  unfolding text_of_def demo_ramfs_def by code_simp

lemma demo_file_at: "n_ops (node_at demo_ramfs 7) = Ramfs_ops" "file_ok (node_at demo_ramfs 7)"
  by (simp_all add: demo_node_at file_ok_def is_dir_def zero_node_def capacity_def)

lemma demo_slot_free: "\<exists>j \<in> {3 ..< MAX_FDS_PER_PROC}. \<not> fd_in_use (fd_table (proc_at process_init 1) ! j)"
  by (rule bexI [of _ 3]) (simp_all add: process_init_def init_process_signals_def init_process_fd_table_def)

section \<open>The table\<close>

fun after :: "outcome \<Rightarrow> kern" where
  "after (Returns r k) = k"
| "after (Leaves k) = k"

definition keeps_typed :: "sysfun option \<Rightarrow> bool" where
  "keeps_typed h \<longleftrightarrow> (case h of None \<Rightarrow> True | Some g \<Rightarrow>
     (\<forall>e a b c d f k out. kern_typed k \<longrightarrow> env_fresh e k \<longrightarrow> g e a b c d f k = Some out \<longrightarrow> kern_typed (after out)))"

lemma keeps_None: "keeps_typed None"
  by (simp add: keeps_typed_def)

lemma keeps_total:
  "(\<And>e a b c d f k. kern_typed k \<Longrightarrow> kern_typed (snd (g e a b c d f k))) \<Longrightarrow> keeps_typed (Some (\<lambda>e a b c d f. total_call (g e a b c d f)))"
  by (fastforce simp: keeps_typed_def total_call_def case_prod_unfold Let_def)

lemma keeps_partial:
  "(\<And>e a b c d f k r k'. kern_typed k \<Longrightarrow> env_fresh e k \<Longrightarrow> g e a b c d f k = Some (r, k') \<Longrightarrow> kern_typed k') \<Longrightarrow>
    keeps_typed (Some (\<lambda>e a b c d f. partial_call (g e a b c d f)))"
  by (fastforce simp: keeps_typed_def partial_call_def)

lemma keeps_query: "keeps_typed (Some (\<lambda>e a b c d f. query_call (g e a b c d f)))"
  by (simp add: keeps_typed_def query_call_def)

lemma keeps_exit: "keeps_typed (Some (\<lambda>e a b c d f k. map_option Leaves (sys_exit a k)))"
  using proc_calls_typed(11) by (fastforce simp: keeps_typed_def)

lemma keeps_exec: "keeps_typed (Some call_exec)"
  using proc_calls_typed(10) by (fastforce simp: keeps_typed_def call_exec_def split: option.splits)

lemma keeps_select: "keeps_typed (Some call_select)"
  by (auto simp: keeps_typed_def call_select_def)

lemma process_keeps:
  "keeps_typed (Some (\<lambda>e a b c d f. total_call (sys_close a)))"
  "keeps_typed (Some (\<lambda>e a b c d f. total_call (sys_lseek a b c)))"
  "keeps_typed (Some (\<lambda>e a b c d f. total_call (sys_fork e)))"
  "keeps_typed (Some (\<lambda>e a b c d f. total_call (sys_kill a b)))"
  "keeps_typed (Some (\<lambda>e a b c d f. total_call (sys_setpgid a b)))"
  by (rule keeps_total, erule proc_calls_typed)+

lemma process_partial_keeps:
  "keeps_typed (Some (\<lambda>e a b c d f. partial_call (sys_waitpid a b)))"
  "keeps_typed (Some (\<lambda>e a b c d f. partial_call (sys_sigaction a b c)))"
  "keeps_typed (Some (\<lambda>e a b c d f. partial_call (sys_sigprocmask a b c)))"
  "keeps_typed (Some (\<lambda>e a b c d f. partial_call (sys_pipe a)))"
  by (rule keeps_partial, erule (1) proc_calls_typed)+

lemma file_keeps:
  "keeps_typed (Some (\<lambda>e a b c d f. partial_call (sys_read e a b c)))"
  "keeps_typed (Some (\<lambda>e a b c d f. partial_call (sys_write e a b c)))"
  "keeps_typed (Some (\<lambda>e a b c d f. partial_call (sys_open e a b)))"
  by (rule keeps_partial, erule (1) read_typed write_typed | rule keeps_partial, erule (2) open_typed)+

lemma other_keeps:
  "keeps_typed (Some (\<lambda>e a b c d f. total_call (sys_shmget a b)))"
  "keeps_typed (Some (\<lambda>e a b c d f. total_call (sys_shmat a b)))"
  "keeps_typed (Some (\<lambda>e a b c d f. total_call (sys_shmdt a)))"
  "keeps_typed (Some (\<lambda>e a b c d f. total_call (sys_msgget a)))"
  "keeps_typed (Some (\<lambda>e a b c d f. total_call (sys_munmap_handler a b)))"
  "keeps_typed (Some (\<lambda>e a b c d f. total_call (sys_mprotect_handler a b c)))"
  "keeps_typed (Some (\<lambda>e a b c d f. total_call (sys_socket a b)))"
  "keeps_typed (Some (\<lambda>e a b c d f. total_call (sys_listen a)))"
  "keeps_typed (Some (\<lambda>e a b c d f. total_call (sys_accept a)))"
  by (rule keeps_total, erule core_typed, rule other_calls)+

lemma other_partial_keeps:
  "keeps_typed (Some (\<lambda>e a b c d f. partial_call (sys_stat a b)))"
  "keeps_typed (Some (\<lambda>e a b c d f. partial_call (sys_msgsnd a b c d)))"
  "keeps_typed (Some (\<lambda>e a b c d f. partial_call (sys_msgrcv a b c d)))"
  "keeps_typed (Some (\<lambda>e a b c d f. partial_call (sys_mmap_handler a b c d)))"
  "keeps_typed (Some (\<lambda>e a b c d f. partial_call (sys_bind a b)))"
  "keeps_typed (Some (\<lambda>e a b c d f. partial_call (sys_connect a b)))"
  "keeps_typed (Some (\<lambda>e a b c d f. partial_call (sys_send a b c)))"
  "keeps_typed (Some (\<lambda>e a b c d f. partial_call (sys_recv a b c)))"
  "keeps_typed (Some (\<lambda>e a b c d f. partial_call (sys_closesock a)))"
  "keeps_typed (Some (\<lambda>e a b c d f. partial_call (sys_shutdown a b)))"
  "keeps_typed (Some (\<lambda>e a b c d f. partial_call (sys_getsockname a b c)))"
  "keeps_typed (Some (\<lambda>e a b c d f. partial_call (sys_getpeername a b c)))"
  "keeps_typed (Some (\<lambda>e a b c d f. partial_call (sys_getsockopt a d f)))"
  by (rule keeps_partial, erule core_typed, erule other_partial_calls recv_calls)+

lemma table_keeps: "list_all keeps_typed syscall_table"
  unfolding syscall_table_def list_all_append list.pred_inject
  by (intro conjI TrueI keeps_None keeps_query keeps_exit keeps_exec keeps_select process_keeps process_partial_keeps file_keeps other_keeps
      other_partial_keeps) (simp_all add: list_all_iff keeps_None)

text \<open>The kernel's half of the address space, the page tables apart, is mapped as it was.\<close>

definition kernel_kept :: "kern \<Rightarrow> kern \<Rightarrow> bool" where
  "kernel_kept k k' \<longleftrightarrow>
     (\<forall>a. KERNEL_BASE \<le> a \<longrightarrow> unat (pd_idx a) < 1023 \<longrightarrow> phys_of (k_mm k') a = phys_of (k_mm k) a)"

text \<open>
  C38. Descriptors stay well typed over every system call, whatever its number and arguments, that ends, stores nothing in the
  kernel's half of the address space and leaves that half mapped as it was: a descriptor that names a node is
  open and names a live file, and the three standard descriptors of every process stay open. The calls it leaves out are those
  that destroy the kernel: unchecked pointers of the socket calls (\<open>sockname_writes_kernel\<close>) and mappings over the kernel.
\<close>

theorem syscall_fds_typed:
  assumes "kern_typed k" and "env_fresh e k" and "syscall_handler e num a b c d f k = Some out"
    and "kernel_kept k (after out)"
  shows "kern_typed (after out)"
proof (cases "66 \<le> num")
  case False
  then have "unat num < length syscall_table" by (simp add: syscall_table_def word_le_nat_alt)
  then have "keeps_typed (syscall_table ! unat num)" using table_keeps by (simp add: list_all_length)
  then show ?thesis using assms False by (auto simp: syscall_handler_def keeps_typed_def split: option.splits)
qed (use assms in \<open>auto simp: syscall_handler_def\<close>)

section \<open>Descriptors step by step\<close>

lemma find_idx_update: "(i < length xs \<Longrightarrow> P y = P (xs ! i)) \<Longrightarrow> find_idx P (xs[i := y]) = find_idx P xs"
proof (induction xs arbitrary: i)
  case (Cons x xs)
  then show ?case by (cases i) auto
qed simp

lemma current_upd_fd [simp]: "process_current (upd_fd i j f t) = process_current t"
proof -
  have "find_idx (\<lambda>q. pstate q \<noteq> PROC_UNUSED \<and> pid q = p) ((process_table t)[i := (proc_at t i)\<lparr>fd_table := ft\<rparr>]) =
      find_idx (\<lambda>q. pstate q \<noteq> PROC_UNUSED \<and> pid q = p) (process_table t)" for p ft
    by (rule find_idx_update) simp
  then show ?thesis by (simp add: process_current_def process_get_def upd_fd_def upd_proc_def)
qed

text \<open>A descriptor of the current process: its slot and number, and the process table is long enough.\<close>

definition own_fd :: "nat \<times> nat \<Rightarrow> kern \<Rightarrow> bool" where
  "own_fd d k \<longleftrightarrow> process_current (k_procs k) = Some (fst d) \<and> snd d < MAX_FDS_PER_PROC \<and>
     length (fd_table (proc_at (k_procs k) (fst d))) = MAX_FDS_PER_PROC"

lemma own_fd_upd: "own_fd d k \<Longrightarrow> own_fd d (k\<lparr>k_procs := upd_fd (fst d) j f (k_procs k)\<rparr>)"
  using current_used [of "k_procs k" "fst d"] by (simp add: own_fd_def upd_fd_at)

lemma fd_at_upd: "own_fd d k \<Longrightarrow> fd_at d (k\<lparr>k_procs := upd_fd (fst d) (snd d) f (k_procs k)\<rparr>) = f (fd_at d k)"
  using current_used [of "k_procs k" "fst d"] by (simp add: own_fd_def fd_at_def upd_fd_at)

lemma fd_at_other [simp]:
  "fd_at d (k\<lparr>k_fs := s\<rparr>) = fd_at d k" "own_fd d (k\<lparr>k_fs := s\<rparr>) = own_fd d k" "fd_at d (k\<lparr>k_mm := m\<rparr>) = fd_at d k" "own_fd d (k\<lparr>k_mm := m\<rparr>) = own_fd d k"
  by (simp_all add: fd_at_def own_fd_def)

lemma descriptor_own: "own_fd d k \<Longrightarrow> fd_in_use (fd_at d k) \<Longrightarrow> descriptor (of_nat (snd d)) k = Some d"
proof -
  assume o: "own_fd d k" and u: "fd_in_use (fd_at d k)"
  have l: "snd d < 32" "process_current (k_procs k) = Some (fst d)" using o by (simp_all add: own_fd_def)
  then have "unat (of_nat (snd d) :: u32) = snd d" by (simp add: unat_of_nat)
  then have "uint (of_nat (snd d) :: u32) = int (snd d)" unfolding uint_nat by simp
  then show ?thesis using l u by (simp add: descriptor_def fd_lookup_def fd_at_def)
qed

lemma validate_same:
  "validate_user_ptr a n (k\<lparr>k_procs := t\<rparr>) = validate_user_ptr a n k" "validate_user_ptr a n (k\<lparr>k_fs := s\<rparr>) = validate_user_ptr a n k"
  "apart a m (k\<lparr>k_procs := t\<rparr>) = apart a m k" "apart a m (k\<lparr>k_fs := s\<rparr>) = apart a m k"
  "user_bytes a m (k\<lparr>k_procs := t\<rparr>) = user_bytes a m k" "user_bytes a m (k\<lparr>k_fs := s\<rparr>) = user_bytes a m k"
  by (simp_all add: validate_user_ptr_def apart_def user_bytes_def)

lemma advance_upd: "advance d r k = (if 0 < r then k\<lparr>k_procs := upd_fd (fst d) (snd d) (\<lambda>f. f\<lparr>fd_offset := fd_offset f + of_int r\<rparr>) (k_procs k)\<rparr> else k)"
  by (simp add: advance_def)

lemma advance_same [simp]: "k_fs (advance d r k) = k_fs k" "k_mm (advance d r k) = k_mm k"
  by (simp_all add: advance_def)

lemma advance_own: "own_fd d k \<Longrightarrow> own_fd d (advance d r k)"
  by (simp add: advance_def own_fd_upd)

lemma advance_at: "own_fd d k \<Longrightarrow> fd_at d (advance d r k) = (fd_at d k)\<lparr>fd_offset := fd_offset (fd_at d k) + (if 0 < r then of_int r else 0)\<rparr>"
  by (simp add: advance_def fd_at_upd)

text \<open>One write and one read through a descriptor of a file.\<close>

definition on_file :: "nat \<times> nat \<Rightarrow> nat \<Rightarrow> kern \<Rightarrow> bool" where
  "on_file d a k \<longleftrightarrow> own_fd d k \<and> 3 \<le> snd d \<and> fd_in_use (fd_at d k) \<and> fd_node (fd_at d k) = of_nat a \<and> 0 < a \<and> a < 2 ^ 32 \<and>
     n_ops (node_at (k_fs k) a) = Ramfs_ops \<and> file_ok (node_at (k_fs k) a)"

lemma on_fileD:
  assumes "on_file d a k"
  shows "own_fd d k" "descriptor (of_nat (snd d)) k = Some d" "fd_node (fd_at d k) \<noteq> 0" "vnode_of (fd_node (fd_at d k)) = Some a"
    and "n_ops (node_at (k_fs k) a) = Ramfs_ops" "file_ok (node_at (k_fs k) a)"
    and "of_nat (snd d) \<noteq> (0 :: u32)" "of_nat (snd d) \<noteq> (1 :: u32)" "of_nat (snd d) \<noteq> (2 :: u32)" "\<not> (of_nat (snd d) :: u32) < 3"
proof -
  note a = assms [unfolded on_file_def]
  then show own: "own_fd d k" "n_ops (node_at (k_fs k) a) = Ramfs_ops" "file_ok (node_at (k_fs k) a)" by simp_all
  show "descriptor (of_nat (snd d)) k = Some d" using a descriptor_own by blast
  have u: "unat (of_nat a :: u32) = a" using a by (simp add: unat_of_nat)
  then have "(of_nat a :: u32) \<noteq> 0" using a by auto
  then show "fd_node (fd_at d k) \<noteq> 0" "vnode_of (fd_node (fd_at d k)) = Some a" using a u by (simp_all add: vnode_of_def)
  have "snd d < 32" using own(1) by (simp add: own_fd_def)
  then have v: "unat (of_nat (snd d) :: u32) = snd d" by (simp add: unat_of_nat)
  then show "\<not> (of_nat (snd d) :: u32) < 3" using a by (simp add: word_less_nat_alt)
  then show "of_nat (snd d) \<noteq> (0 :: u32)" "of_nat (snd d) \<noteq> (1 :: u32)" "of_nat (snd d) \<noteq> (2 :: u32)" by auto
qed

lemma sys_write_file:
  assumes f: "on_file d a k" and v: "validate_user_ptr buf count k" and c: "count \<noteq> 0" and e: "e_grow e"
    and ap: "fd_flags (fd_at d k) AND VFS_O_APPEND = 0" and off: "fd_offset (fd_at d k) = off" "unat off + unat count \<le> 65536"
    and bs: "user_bytes buf (unat count) k = Some bs"
  obtains k' where "sys_write e (of_nat (snd d)) buf count k = Some (uint count, k')" and "on_file d a k'"
    and "content (node_at (k_fs k') a) = write_at (unat off) bs (content (node_at (k_fs k) a))"
    and "fd_at d k' = (fd_at d k)\<lparr>fd_offset := off + count\<rparr>" and "k_mm k' = k_mm k"
    and "\<And>z o'. unat o' + unat z < 2 ^ 32 \<Longrightarrow> \<exists>s''. ramfs_read (e_now e) a o' z (k_fs k') =
      Some ((int (length (take (unat z) (drop (unat o') (content (node_at (k_fs k') a))))), take (unat z) (drop (unat o') (content (node_at (k_fs k') a)))), s'')"
proof -
  note o = on_fileD [OF f]
  have lb: "length bs = unat count" using bs by (auto simp: user_bytes_def Let_def split: if_splits)
  have u: "unat off + length bs \<le> 65536" using off(2) lb by simp
  note rw = ramfs_write_read [OF o(6) lb [symmetric], of off "e_now e"]
  obtain s' where s': "ramfs_write True (e_now e) a off count bs (k_fs k) = Some (sint count, s')" "file_ok (node_at s' a)"
      "content (node_at s' a) = write_at (unat off) bs (content (node_at (k_fs k) a))"
    and rd: "\<forall>o' z'. unat o' + unat z' < 2 ^ 32 \<longrightarrow> (\<exists>s''. ramfs_read (e_now e) a o' z' s' = Some ((int (length (take (unat z') (drop (unat o') (content (node_at s' a))))),
           take (unat z') (drop (unat o') (content (node_at s' a)))), s''))"
    using mp [OF conjunct1 [OF rw] u] by (elim exE conjE) (rule that, assumption+)
  have "unat count < 0x80000000" using off(2) by linarith
  then have sc: "sint count = uint count" using sint_unat [of count] by simp
  have pos: "0 < uint count" using c word_gt_0 [of count] by (simp add: word_less_def)
  have ops: "n_ops (node_at s' a) = Ramfs_ops"
    using s'(1) o(5) by (auto simp: ramfs_write_def ramfs_grow_def Let_def split: if_splits option.splits)
  define k' where "k' = advance d (uint count) (k\<lparr>k_fs := s'\<rparr>)"
  have own: "own_fd d (k\<lparr>k_fs := s'\<rparr>)" using o(1) by simp
  have at: "fd_at d k' = (fd_at d k)\<lparr>fd_offset := off + count\<rparr>" using advance_at [OF own] pos off(1) by (simp add: k'_def)
  show thesis
  proof (rule that)
    show "sys_write e (of_nat (snd d)) buf count k = Some (uint count, k')"
      using v c o s'(1) bs e ap off(1) sc by (simp add: sys_write_def vfs_write_def k'_def)
    show "on_file d a k'" using f at advance_own [OF own] ops s'(2) by (simp add: on_file_def k'_def)
    show "content (node_at (k_fs k') a) = write_at (unat off) bs (content (node_at (k_fs k) a))" using s'(3) by (simp add: k'_def)
    show "k_mm k' = k_mm k" by (simp add: k'_def)
    show "\<exists>s''. ramfs_read (e_now e) a o' z (k_fs k') = Some ((int (length (take (unat z) (drop (unat o') (content (node_at (k_fs k') a))))),
        take (unat z) (drop (unat o') (content (node_at (k_fs k') a)))), s'')" if "unat o' + unat z < 2 ^ 32" for z o'
      using rd that by (simp add: k'_def)
  qed (rule at)
qed

lemma ramfs_read_content: "ramfs_read now a o' z s = Some (r, s') \<Longrightarrow> content (node_at s' b) = content (node_at s b)"
  by (auto simp: ramfs_read_def Let_def content_def split: if_splits option.splits)

lemma sys_read_file:
  assumes f: "on_file d a k" and v: "validate_user_ptr buf count k" and c: "count \<noteq> 0" and ap: "apart buf (length bs) k"
    and r: "ramfs_read (e_now e) a (fd_offset (fd_at d k)) count (k_fs k) = Some ((int (length bs), bs), s)" and l: "length bs \<le> unat count"
  shows "\<exists>k'. sys_read e (of_nat (snd d)) buf count k = Some (int (length bs), k') \<and> user_bytes buf (length bs) k' = Some bs \<and> k_fs k' = s"
proof -
  note o = on_fileD [OF f]
  obtain k1 where k1: "put_user buf bs (k\<lparr>k_fs := s\<rparr>) = Some k1"
    using put_user_accepted [of buf count "k\<lparr>k_fs := s\<rparr>" bs] v l by (simp add: validate_same)
  have "user_bytes buf (length bs) k1 = Some bs" using put_get_user [OF k1] ap by (simp add: validate_same)
  moreover have "k_fs k1 = s" using put_user_core [OF k1] by simp
  moreover have "sys_read e (of_nat (snd d)) buf count k = Some (int (length bs), advance d (int (length bs)) k1)"
    using v c o r k1 by (simp add: sys_read_def vfs_read_def)
  moreover have "user_bytes buf (length bs) (advance d x k1) = user_bytes buf (length bs) k1" for x by (simp add: user_bytes_def)
  ultimately show ?thesis by simp
qed

text \<open>Opening a file that exists.\<close>

lemma sys_open_file:
  assumes k: "kern_typed k" and p: "process_current (k_procs k) = Some i" and free: "\<exists>j \<in> {3 ..< MAX_FDS_PER_PROC}. \<not> fd_in_use (fd_table (proc_at (k_procs k) i) ! j)"
    and t: "validate_user_string path 256 k = Some (Some t)" and a: "vfs_lookup (text_of t) (k_fs k) = Some a"
    and f: "n_ops (node_at (k_fs k) a) = Ramfs_ops" "file_ok (node_at (k_fs k) a)" and fl: "flags AND VFS_O_TRUNC = 0" "flags AND VFS_O_APPEND = 0"
  obtains d k0 where "sys_open e path flags k = Some (int (snd d), k0)" and "on_file d a k0" and "k_fs k0 = k_fs k" and "k_mm k0 = k_mm k"
    and "fd_flags (fd_at d k0) = flags" and "fd_offset (fd_at d k0) = 0"
proof -
  obtain j where j: "find_idx (\<lambda>f. \<not> fd_in_use (fd_table (proc_at (k_procs k) i) ! f)) [3 ..< MAX_FDS_PER_PROC] = Some j"
  proof (cases "find_idx (\<lambda>f. \<not> fd_in_use (fd_table (proc_at (k_procs k) i) ! f)) [3 ..< MAX_FDS_PER_PROC]")
    case None
    then show ?thesis using free by (simp del: upt_rec_numeral)
  qed (rule that)
  have lt: "3 + j < MAX_FDS_PER_PROC" using find_idx_SomeD [OF j] by (simp del: upt_rec_numeral)
  let ?d = "(i, 3 + j)" and ?g = "\<lambda>f. f\<lparr>fd_in_use := True, fd_offset := 0\<rparr>" and ?h = "\<lambda>f. f\<lparr>fd_node := of_nat a, fd_flags := flags, fd_offset := 0\<rparr>"
  have "length (fd_table (proc_at (k_procs k) i)) = MAX_FDS_PER_PROC"
    using current_typed [OF _ p] k by (auto simp: kern_typed_def fds_typed_def)
  then have own: "own_fd ?d k" using p lt by (simp add: own_fd_def)
  define k1 where "k1 = k\<lparr>k_procs := upd_fd i (3 + j) ?g (k_procs k)\<rparr>"
  have al: "alloc_fd k = (Some ?d, k1)" using p j by (simp add: alloc_fd_def k1_def del: upt_rec_numeral)
  have own1: "own_fd ?d k1" using own_fd_upd [OF own] by (simp add: k1_def)
  define k0 where "k0 = k1\<lparr>k_procs := upd_fd i (3 + j) ?h (k_procs k1)\<rparr>"
  have at1: "fd_at ?d k1 = ?g (fd_at ?d k)" using fd_at_upd [OF own, of ?g] by (simp add: k1_def)
  have at0: "fd_at ?d k0 = ?h (fd_at ?d k1)" using fd_at_upd [OF own1, of ?h] by (simp add: k0_def)
  have fs: "k_fs k1 = k_fs k" "k_fs k0 = k_fs k" "k_mm k0 = k_mm k" by (simp_all add: k0_def k1_def)
  have live_a: "0 < a \<and> a < 2 ^ 32"
    using tree_liveD(2) lookup_live [OF _ a] k by (auto simp: kern_typed_def)
  have nd: "\<not> is_dir (node_at (k_fs k) a)" using f(2) by (simp add: file_ok_def)
  show thesis
  proof (rule that)
    show "sys_open e path flags k = Some (int (snd ?d), k0)"
      using t a nd al fl fs(1) by (simp add: sys_open_def Let_def vfs_is_directory_def k0_def)
    show "on_file ?d a k0"
      using own_fd_upd [OF own1, of "3 + j" ?h] at0 at1 f fs(2) live_a by (simp add: on_file_def k0_def [symmetric])
  qed (use at0 fs in simp_all)
qed

lemma take_drop_write_at: "take (length bs) (drop off (write_at off bs xs)) = bs"
  by (simp add: write_at_def overlay_def pad_def)

text \<open>
  C39. Open, write, seek, read: through a new descriptor of an existing file a program writes the bytes of one buffer, goes
  back and reads the same bytes into another; the file is its old content with these bytes written at its beginning.
\<close>

theorem syscall_file_roundtrip:
  assumes "kern_typed k" and "process_current (k_procs k) = Some i"
    and "\<exists>j \<in> {3 ..< MAX_FDS_PER_PROC}. \<not> fd_in_use (fd_table (proc_at (k_procs k) i) ! j)"
    and "validate_user_string path 256 k = Some (Some t)" and "vfs_lookup (text_of t) (k_fs k) = Some a"
    and "n_ops (node_at (k_fs k) a) = Ramfs_ops" and "file_ok (node_at (k_fs k) a)"
    and "flags AND VFS_O_TRUNC = 0" and "flags AND VFS_O_APPEND = 0" and "e_grow e"
    and "validate_user_ptr buf count k" and "validate_user_ptr dst count k" and "apart dst (unat count) k"
    and "count \<noteq> 0" and "unat count \<le> 65536" and "user_bytes buf (unat count) k = Some bs"
  shows "\<exists>fd k0 k1 k2 k3. sys_open e path flags k = Some (uint fd, k0) \<and> sys_write e fd buf count k0 = Some (uint count, k1) \<and>
    sys_lseek fd 0 0 k1 = (0, k2) \<and> sys_read e fd dst count k2 = Some (uint count, k3) \<and> user_bytes dst (unat count) k3 = Some bs \<and>
    content (node_at (k_fs k3) a) = write_at 0 bs (content (node_at (k_fs k) a))"
proof -
  obtain d k0 where k0: "sys_open e path flags k = Some (int (snd d), k0)" "on_file d a k0" "k_fs k0 = k_fs k" "k_mm k0 = k_mm k"
      "fd_flags (fd_at d k0) = flags" "fd_offset (fd_at d k0) = 0"
    by (rule sys_open_file [OF assms(1-9)])
  have same: "validate_user_ptr x n k' = validate_user_ptr x n k" "apart x m k' = apart x m k" "user_bytes x m k' = user_bytes x m k"
    if "k_mm k' = k_mm k" for k' x n m
    using that by (simp_all add: validate_user_ptr_def apart_def user_bytes_def)
  have lb: "length bs = unat count" using assms(16) by (auto simp: user_bytes_def Let_def split: if_splits)
  have v0: "validate_user_ptr buf count k0" and b0: "user_bytes buf (unat count) k0 = Some bs" and ap0: "fd_flags (fd_at d k0) AND VFS_O_APPEND = 0"
    and u0: "unat (0 :: u32) + unat count \<le> 65536"
    using assms(9,11,15,16) k0(5) by (simp_all add: same [OF k0(4)])
  obtain k1 where k1: "sys_write e (of_nat (snd d)) buf count k0 = Some (uint count, k1)" "on_file d a k1"
      "content (node_at (k_fs k1) a) = write_at (unat (0 :: u32)) bs (content (node_at (k_fs k0) a))" "fd_at d k1 = (fd_at d k0)\<lparr>fd_offset := 0 + count\<rparr>"
      "k_mm k1 = k_mm k0"
    and rd: "\<And>z o'. unat o' + unat z < 2 ^ 32 \<Longrightarrow> \<exists>s''. ramfs_read (e_now e) a o' z (k_fs k1) =
      Some ((int (length (take (unat z) (drop (unat o') (content (node_at (k_fs k1) a))))), take (unat z) (drop (unat o') (content (node_at (k_fs k1) a)))), s'')"
    by (rule sys_write_file [OF k0(2) v0 assms(14,10) ap0 k0(6) u0 b0], rule that)
  define k2 where "k2 = k1\<lparr>k_procs := upd_fd (fst d) (snd d) (\<lambda>f. f\<lparr>fd_offset := 0\<rparr>) (k_procs k1)\<rparr>"
  note o = on_fileD [OF k1(2)]
  have k2: "sys_lseek (of_nat (snd d)) 0 0 k1 = (0, k2)" using o by (simp add: sys_lseek_def k2_def)
  have at2: "fd_at d k2 = (fd_at d k1)\<lparr>fd_offset := 0\<rparr>" using fd_at_upd [OF o(1)] by (simp add: k2_def)
  have f2: "on_file d a k2" using k1(2) at2 own_fd_upd [OF o(1)] by (simp add: on_file_def k2_def [symmetric]) (simp add: k2_def)
  have mm2: "k_mm k2 = k_mm k" using k1(5) k0(4) by (simp add: k2_def)
  have "take (unat count) (drop (unat (0 :: u32)) (content (node_at (k_fs k1) a))) = bs"
    using take_drop_write_at [of bs 0] k1(3) lb by simp
  then obtain s where s: "ramfs_read (e_now e) a (fd_offset (fd_at d k2)) count (k_fs k2) = Some ((int (length bs), bs), s)"
    using rd [of 0 count] assms(15) at2 by (auto simp: k2_def)
  have v2: "validate_user_ptr dst count k2" and ap2: "apart dst (length bs) k2" using assms(12,13) lb by (simp_all add: same [OF mm2])
  obtain k3 where k3: "sys_read e (of_nat (snd d)) dst count k2 = Some (int (length bs), k3)" "user_bytes dst (length bs) k3 = Some bs" "k_fs k3 = s"
    using sys_read_file [OF f2 v2 assms(14) ap2 s eq_imp_le [OF lb]] by (elim exE conjE) (rule that)
  have c3: "content (node_at (k_fs k3) a) = write_at 0 bs (content (node_at (k_fs k) a))"
    using ramfs_read_content [OF s, of a] k1(3) k0(3) k3(3) by (simp add: k2_def)
  have "snd d < 32" using o(1) by (simp add: own_fd_def)
  then have "unat (of_nat (snd d) :: u32) = snd d" by (simp add: unat_of_nat)
  then have w: "int (snd d) = uint (of_nat (snd d) :: u32)" unfolding uint_nat by simp
  have z: "int (length bs) = uint count" unfolding uint_nat lb ..
  show ?thesis
    by (intro exI conjI) (rule k0(1) [unfolded w] k1(1) k2 k3(1) [unfolded z] k3(2) [unfolded lb] c3)+
qed

lemmas demo_file_facts = demo_kern_typed(1) demo_current demo_slot_free demo_path demo_lookup demo_file_at

theorem syscall_file_roundtrip_witness:
  "\<exists>fd k0 k1 k2 k3. sys_open demo_env 0x1000 0 demo_kern = Some (uint fd, k0) \<and> sys_write demo_env fd 0x2000 2 k0 = Some (2, k1) \<and>
    sys_lseek fd 0 0 k1 = (0, k2) \<and> sys_read demo_env fd 0x3000 2 k2 = Some (2, k3) \<and> user_bytes 0x3000 2 k3 = Some [104, 105] \<and>
    content (node_at (k_fs k3) 7) = [104, 105, 3, 4]"
proof -
  have k: "k_procs demo_kern = process_init" "k_fs demo_kern = demo_ramfs" by (simp_all add: demo_kern_def)
  have c: "write_at 0 [104, 105] (content (node_at demo_ramfs 7)) = [104, 105, 3, 4]"
    unfolding demo_ramfs_def by code_simp
  show ?thesis
    using syscall_file_roundtrip [where k = demo_kern and i = 1 and path = "0x1000" and t = "[47, 97]" and a = 7 and flags = 0 and e = demo_env
        and buf = "0x2000" and dst = "0x3000" and count = 2 and bs = "[104, 105]", unfolded k c, OF demo_file_facts _ _ _ demo_pointers(1,2)]
      demo_pointers(3,4) by (simp add: demo_env_def)
qed

section \<open>Reading a line\<close>

lemma get_event:
  assumes "kbd_ok q" and "kbd_events q = x # xs"
  obtains q1 where "keyboard_get_event q = (Some x, q1)" and "kbd_ok q1" and "kbd_events q1 = xs"
proof -
  have ne: "kbd_events q \<noteq> []" using assms(2) by simp
  moreover have "length (kbd_events q) = kbd_pending q" by (simp add: kbd_events_def)
  ultimately have "kbd_pending q \<noteq> 0" by (metis length_0_conv)
  then have "event_head q \<noteq> event_tail q" using kbd_pending_0 [OF assms(1)] by simp
  then obtain y q1 where g: "keyboard_get_event q = (Some y, q1)" by (simp add: keyboard_get_event_def)
  then have t: "take_event q = (y, q1)" by (simp add: take_event_def)
  have "x = y" "xs = kbd_events q1" using kbd_fifo.pop_content [OF assms(1) ne] assms(2) t by simp_all
  moreover have "kbd_ok q1" using kbd_fifo.pop_ok [OF assms(1) ne] t by simp
  ultimately show thesis using g that by simp
qed

lemma stdin_line:
  assumes "kbd_ok q" and "types (kbd_events q) = cs @ 10 # rest" and "10 \<notin> set cs" and "length got \<le> n"
  shows "\<exists>q1. stdin_loop n got q = Some (got @ take (n - length got) (cs @ [10]), q1) \<and>
    types (kbd_events q1) = drop (n - length got) (cs @ [10]) @ rest"
  using assms
proof (induction "kbd_events q" arbitrary: q cs got)
  case Nil
  then show ?case by (simp add: types_def)
next
  case (Cons x xs)
  obtain q1 where q1: "keyboard_get_event q = (Some x, q1)" "kbd_ok q1" "kbd_events q1 = xs"
    using get_event [OF Cons.prems(1) Cons.hyps(2) [symmetric]] by metis
  consider (full) "length got = n" | (skip) "length got < n" "\<not> (ke_pressed x \<and> ke_ascii x \<noteq> 0)" | (char) "length got < n" "ke_pressed x \<and> ke_ascii x \<noteq> 0"
    using Cons.prems(4) by linarith
  then show ?case
  proof cases
    case full
    then show ?thesis using Cons.prems(2) by (simp add: stdin_loop.simps)
  next
    case skip
    have "types (kbd_events q1) = cs @ 10 # rest" using Cons.prems(2) skip(2) by (simp add: Cons.hyps(2) [symmetric] q1(3) types_def)
    from Cons.hyps(1) [OF q1(3) [symmetric] q1(2) this Cons.prems(3,4)] show ?thesis
      using skip q1(1) by (subst stdin_loop.simps) auto
  next
    case char
    then have ty: "ke_ascii x # types xs = cs @ 10 # rest" using Cons.prems(2) by (simp add: Cons.hyps(2) [symmetric] types_def)
    show ?thesis
    proof (cases cs)
      case Nil
      then have "ke_ascii x = 10" "types xs = rest" using ty by simp_all
      then show ?thesis using char q1 Nil by (subst stdin_loop.simps) simp
    next
      case (Cons c cs')
      then have c: "ke_ascii x = c" "types (kbd_events q1) = cs' @ 10 # rest" "10 \<notin> set cs'" "c \<noteq> 10"
        using ty Cons.prems(3) q1(3) by auto
      have l: "length (got @ [c]) \<le> n" and d: "n - length got = Suc (n - length (got @ [c]))" using char(1) by simp_all
      from Cons.hyps(1) [OF q1(3) [symmetric] q1(2) c(2,3) l] show ?thesis
        using char q1(1) c Cons by (subst stdin_loop.simps) (simp add: d del: length_append)
    qed
  qed
qed

text \<open>
  C40. Reading the standard input ends as soon as a line or \<open>count\<close> bytes were typed: it returns the bytes up to and with
  the first newline, cut at \<open>count\<close>, stores them at the buffer and leaves the rest of what was typed in the ring.
\<close>

theorem sys_read_line:
  assumes "kbd_ok (k_kbd k)" and "types (kbd_events (k_kbd k)) = cs @ 10 # rest" and "10 \<notin> set cs"
    and "count \<noteq> 0" and "validate_user_ptr buf count k" and "apart buf (unat count) k"
  shows "\<exists>k' bs. bs = take (unat count) (cs @ [10]) \<and> sys_read e 0 buf count k = Some (int (length bs), k') \<and>
    user_bytes buf (length bs) k' = Some bs \<and> types (kbd_events (k_kbd k')) = drop (unat count) (cs @ [10]) @ rest"
proof -
  let ?bs = "take (unat count) (cs @ [10])"
  obtain q1 where q1: "stdin_loop (unat count) [] (k_kbd k) = Some (?bs, q1)" "types (kbd_events q1) = drop (unat count) (cs @ [10]) @ rest"
    using stdin_line [OF assms(1-3), of "[]" "unat count"] by auto
  have l: "length ?bs \<le> unat count" by simp
  let ?k = "k\<lparr>k_kbd := q1\<rparr>"
  have v: "validate_user_ptr buf count ?k" using assms(5) by (simp add: validate_user_ptr_def)
  obtain k' where k': "put_user buf ?bs ?k = Some k'" using put_user_accepted [OF v l] by simp
  have "inj_on (\<lambda>i. phys_of (k_mm k) (buf + of_nat i)) {..< length ?bs}"
    by (rule inj_on_subset [OF assms(6) [unfolded apart_def]]) auto
  then have "user_bytes buf (length ?bs) k' = Some ?bs" using put_get_user [OF k'] by (simp add: apart_def)
  moreover have "k_kbd k' = q1" using k' by (auto simp: put_user_def Let_def split: if_splits)
  moreover have "sys_read e 0 buf count k = Some (int (length ?bs), k')" using assms(4,5) q1(1) k' by (simp add: sys_read_def)
  ultimately show ?thesis using q1(2) by blast
qed

definition demo_typed :: kern where
  "demo_typed = demo_kern\<lparr>k_kbd := fold buffer_add_event (map (\<lambda>c. \<lparr>ke_scancode = 0, ke_pressed = True, ke_extended = False,
     ke_modifiers = 0, ke_ascii = c\<rparr>) [108, 115, 10, 120]) kbd_start\<rparr>"

theorem sys_read_line_witness:
  "(\<exists>k'. sys_read demo_env 0 0x3000 2 demo_typed = Some (2, k') \<and> user_bytes 0x3000 2 k' = Some [108, 115] \<and>
     types (kbd_events (k_kbd k')) = [10, 120])"
proof -
  have t: "kbd_ok (k_kbd demo_typed)" "types (kbd_events (k_kbd demo_typed)) = [108, 115] @ 10 # [120]"
    using kbd_fifo.push_all [of kbd_start "map (\<lambda>c. \<lparr>ke_scancode = 0, ke_pressed = True, ke_extended = False, ke_modifiers = 0, ke_ascii = c\<rparr>)
        [108, 115, 10, 120]"]
    by (simp_all add: demo_typed_def types_def) (simp_all add: kbd_ok_def kbd_start_def kbd_events_def kbd_pending_def)
  have p: "validate_user_ptr 0x3000 2 demo_typed" "apart 0x3000 (unat (2 :: u32)) demo_typed"
    using demo_pointers(2,3) by (simp_all add: demo_typed_def validate_user_ptr_def apart_def)
  have n: "(10 :: u8) \<notin> set [108, 115]" "(2 :: u32) \<noteq> 0" by simp_all
  have u: "unat (2 :: u32) = 2" by simp
  obtain k' bs where k': "bs = take 2 ([108, 115] @ [10])" "sys_read demo_env 0 0x3000 2 demo_typed = Some (int (length bs), k')"
      "user_bytes 0x3000 (length bs) k' = Some bs" "types (kbd_events (k_kbd k')) = drop 2 ([108, 115] @ [10]) @ [120]"
    using sys_read_line [OF t n p, of demo_env, unfolded u] by (elim exE conjE) (rule that)
  have bs: "bs = [108, 115]" using k'(1) by simp
  show ?thesis by (rule exI [of _ k']) (use k'(2-4) in \<open>simp add: bs numeral_2_eq_2\<close>)
qed

theorem syscall_fds_typed_witness:
  "\<exists>fd k'. syscall_handler demo_env 3 0x1000 0 0 0 0 demo_kern = Some (Returns fd k') \<and> 3 \<le> fd \<and> kern_typed k'"
proof -
  have k: "k_procs demo_kern = process_init" "k_fs demo_kern = demo_ramfs" by (simp_all add: demo_kern_def)
  obtain d k0 where o: "sys_open demo_env 0x1000 0 demo_kern = Some (int (snd d), k0)" "on_file d 7 k0" "k_mm k0 = k_mm demo_kern"
    by (rule sys_open_file [of demo_kern 1 "0x1000" "[47, 97]" 7 0 demo_env, unfolded k, OF demo_file_facts]) simp_all
  then have h: "syscall_handler demo_env 3 0x1000 0 0 0 0 demo_kern = Some (Returns (int (snd d)) k0)"
    by (simp add: syscall_handler_def syscall_table_def partial_call_def)
  have "kernel_kept demo_kern (after (Returns (int (snd d)) k0))" using o(3) by (simp add: kernel_kept_def)
  from syscall_fds_typed [OF demo_kern_typed h this] h o(2) show ?thesis by (auto simp: on_file_def)
qed

section \<open>What the checks miss\<close>

text \<open>A text that begins inside a page that is not mapped is read before anything is checked.\<close>

lemma user_string_faults:
  "ptr \<noteq> 0 \<Longrightarrow> ptr < KERNEL_BASE \<Longrightarrow> ptr AND 0xFFF \<noteq> 0 \<Longrightarrow> \<not> mapped (k_mm k) ptr \<Longrightarrow> validate_user_string ptr (Suc n) k = None"
  by (simp add: validate_user_string_def)

text \<open>
  The name of a socket is stored without a check: at an address of the program the call succeeds without asking, and at one
  of the kernel, which \<open>read\<close> refuses, it reaches the store into the kernel although every byte is mapped.
\<close>

lemma sockname_writes_kernel:
  assumes "get_socket (sint fd) (k_net k) \<noteq> None" and "\<forall>i < 8. mapped (k_mm k) (addr + of_nat i)"
  shows "\<forall>i < 8. addr + of_nat i < KERNEL_BASE \<Longrightarrow> \<exists>k'. sys_getsockname fd addr 0 k = Some (0, k')"
    and "KERNEL_BASE \<le> addr \<Longrightarrow> sys_getsockname fd addr 0 k = None \<and> (0 < n \<longrightarrow> sys_read e g addr n k = Some (-14, k))"
proof -
  show "\<exists>k'. sys_getsockname fd addr 0 k = Some (0, k')" if "\<forall>i < 8. addr + of_nat i < KERNEL_BASE"
    using assms that
    by (auto simp: sys_getsockname_def put_sockaddr_def socket_getsockname_def put_user_def Let_def list_all_iff length_le)
  assume a: "KERNEL_BASE \<le> addr"
  then have v: "\<not> validate_user_ptr addr n k" by (simp add: validate_user_ptr_def not_less)
  have "put_user addr bs k = None" if "bs \<noteq> []" for bs
    using a that by (auto simp: put_user_def Let_def list_all_iff intro!: bexI [of _ 0])
  moreover have "le16 x @ y \<noteq> []" for x y using length_le(1) [of x] by (metis append_is_Nil_conv list.size(3) numeral_neq_zero)
  ultimately show "sys_getsockname fd addr 0 k = None \<and> (0 < n \<longrightarrow> sys_read e g addr n k = Some (-14, k))"
    using assms(1) v by (auto simp: sys_getsockname_def put_sockaddr_def socket_getsockname_def sys_read_def length_le)
qed

text \<open>A descriptor without a node, as \<open>pipe\<close> makes them, cannot be read or written.\<close>

lemma pipe_descriptor_unusable:
  assumes "own_fd d k" and "3 \<le> snd d" and "fd_node (fd_at d k) = 0" and "count \<noteq> 0" and "validate_user_ptr buf count k"
  shows "sys_read e (of_nat (snd d)) buf count k = Some (-9, k)" and "sys_write e (of_nat (snd d)) buf count k = Some (-9, k)"
proof -
  have "snd d < 32" using assms(1) by (simp add: own_fd_def)
  then have u: "unat (of_nat (snd d) :: u32) = snd d" by (simp add: unat_of_nat)
  then have n: "(of_nat (snd d) :: u32) \<noteq> 0" "(of_nat (snd d) :: u32) \<noteq> 1" "(of_nat (snd d) :: u32) \<noteq> 2" using assms(2) by auto
  have "uint (of_nat (snd d) :: u32) = int (snd d)" using u unfolding uint_nat by simp
  then have o: "descriptor (of_nat (snd d)) k = (if fd_in_use (fd_at d k) then Some d else None)"
    using assms(1) by (simp add: descriptor_def fd_lookup_def fd_at_def own_fd_def)
  show "sys_read e (of_nat (snd d)) buf count k = Some (-9, k)" "sys_write e (of_nat (snd d)) buf count k = Some (-9, k)"
    using n o assms(3-5) by (simp_all add: sys_read_def sys_write_def)
qed

text \<open>With an empty ring a read of the standard input never returns.\<close>

lemma stdin_waits_forever:
  assumes "event_head (k_kbd k) = event_tail (k_kbd k)" and "count \<noteq> 0" and "validate_user_ptr buf count k"
  shows "sys_read e 0 buf count k = None"
proof -
  have "0 < unat count" using assms(2) by (simp add: unat_gt_0)
  then have "stdin_loop (unat count) [] (k_kbd k) = None" using assms(1) by (subst stdin_loop.simps) (simp add: keyboard_get_event_def)
  then show ?thesis using assms(2,3) by (simp add: sys_read_def)
qed

end
