(* ===== verification/Spec2Isabelle.thy ===== *)
theory Spec2Isabelle
  imports Heap_Props Process_Props Ipc_Props Sync_Props Mmap_Props Security_Props Fs_Props Net_Flow Fat_Vfs Kbd Fb_Main Vga_Props Syscall_Main
begin

text \<open>
  Verification of ZurichOS, a 32-bit x86 kernel in C.

  \<^bold>\<open>The program.\<close> The kernel allocates page frames from a bitmap (\<open>kernel/mm/pmm.c\<close>), edits two-level page
  tables through a recursive mapping (\<open>vmm.c\<close>), runs a first-fit heap on top of both (\<open>heap.c\<close>) and maps
  memory into programs (\<open>mmap.c\<close>). A fixed
  table of processes with fork, wait, exit and signals (\<open>kernel/process\<close>, \<open>kernel/signal\<close>) is separate
  from the table of tasks that the round-robin scheduler switches (\<open>kernel/sched\<close>); locks and wait queues
  (\<open>kernel/sync\<close>) block and wake tasks. Pipes, shared memory and message queues (\<open>kernel/ipc\<close>) use the
  process table, the frames and the page tables. Capabilities, system call filters, users and groups
  (\<open>kernel/security\<close>) are tables of their own. The virtual file system resolves paths over a RAM file
  system, on which the device file system puts its names, and over FAT32 volumes on ATA disks (\<open>kernel/fs\<close>,
  \<open>kernel/drivers/ata\<close>). The network stack
  (\<open>services/net\<close>) goes from Ethernet frames over ARP, IP and ICMP to UDP, TCP, DHCP and DNS, with sockets and an HTTP
  client on top. The keyboard turns scan codes into events; text goes to the VGA screen or, when there is a
  framebuffer, to its console (\<open>kernel/drivers\<close>). Programs reach all of this through the system calls
  (\<open>kernel/syscall\<close>), which check the pointers they are given and keep the descriptors of each process.

  \<^bold>\<open>The theories.\<close>
  \<^item> \<open>Zos_Prelude\<close>: machine integers, alignment, the first-match scan of a table (\<open>find_idx\<close>), page ranges,
    closing a gap in an array. \<open>Interfaces\<close>: the locales \<open>frame_source\<close>, \<open>bounded_fifo\<close> and \<open>sector_device\<close>
    (reading and writing runs of sectors), and ring buffers. \<open>Loops\<close>: loops over a counter that may fail.
  \<^item> \<open>Pmm\<close>: the bitmap; provides \<open>frame_source\<close>. \<open>Vmm\<close>: page tables as the MMU sees them. \<open>Heap\<close> (the code),
    \<open>Heap_Proofs\<close> (the layout invariant), \<open>Heap_Props\<close> (its properties). \<open>Mmap\<close> (areas, \<open>mmap\<close>, page faults) and \<open>Mmap_Props\<close>.
  \<^item> \<open>Process\<close> (process table and signals) and \<open>Process_Props\<close>; \<open>Ipc\<close> and \<open>Ipc_Props\<close> (the pipe provides
    \<open>bounded_fifo\<close>); \<open>Sched\<close> and \<open>Sched_Props\<close>; \<open>Sync\<close> and \<open>Sync_Props\<close>.
  \<^item> \<open>Security\<close> and \<open>Security_Props\<close>; \<open>Fs\<close> (VFS and ramfs), \<open>Devfs\<close> and \<open>Fs_Props\<close>.
  \<^item> \<open>Ata\<close> (sector transfers; provides \<open>sector_device\<close>), \<open>Fat\<close> (the three FAT32 files), \<open>Fat_Props\<close> (the table as chains),
    \<open>Fat_Files\<close> (contents), \<open>Fat_Dir\<close> (directories) and \<open>Fat_Vfs\<close> (the nodes).
  \<^item> \<open>Kbd\<close> (the keyboard; provides \<open>bounded_fifo\<close>). \<open>Fb_Font\<close> and \<open>Fb\<close> are the framebuffer driver, \<open>Fb_Draw\<close> and \<open>Fb_Line\<close>
    its primitives, \<open>Fb_Text\<close>, \<open>Fb_Console\<close> and \<open>Fb_Ops\<close> the console, \<open>Fb_Props\<close> and \<open>Fb_Main\<close> its properties.
    \<open>Vga\<close> and \<open>Vga_Props\<close>: the text screen over it.
  \<^item> \<open>Net_Base\<close> (bytes, checksum, Ethernet, ARP, \<open>ip_send\<close>, routes, loopback), \<open>Net_Proto\<close> (ICMP, UDP, DHCP, DNS,
    TCP), \<open>Net_Stack\<close> (the receive path and the poll), \<open>Net_Props\<close> and \<open>Net_Flow\<close>. \<open>Sock\<close> and \<open>Http\<close> are the clients of TCP and UDP.
  \<^item> \<open>Syscall\<close> (the joint state \<open>kern\<close>, user memory, descriptors, files) and \<open>Syscall_Table\<close> (all other calls, the table
    and the dispatcher). \<open>Syscall_Props\<close> (pointers that were accepted, nodes that stay), \<open>Syscall_Types\<close> (every call keeps
    the descriptors typed) and \<open>Syscall_Main\<close> (the claims).

  \<^bold>\<open>How the code is modelled.\<close> A C structure is a record with the fields of the source, a table is a list of
  fixed length, a pointer into a table is an index, \<open>NULL\<close> is \<open>None\<close>. \<open>uint8_t\<close> to \<open>uint64_t\<close> are words of
  their width, so sums wrap where they wrap in C; \<open>int\<close> results are integers. A function with side effects
  takes the state and returns it; the globals of a file are one record (\<open>pmm\<close>, \<open>heap\<close>, \<open>procs\<close>, \<open>sched\<close>, \<open>ipc\<close>,
  \<open>fs\<close>, \<open>net\<close>, \<open>fat_state\<close>, \<open>kbd\<close>, \<open>fb\<close>, \<open>vga\<close>, \<open>snet\<close>), and the system calls act on one record of these. Error codes are returned as the code returns them; a read or write outside a buffer is the
  result \<open>None\<close>. What the kernel gets from hardware or from code outside the sources is an argument: the
  result of \<open>kmalloc\<close> where only success matters, the time, \<open>rdtsc\<close>, the programs that handle signals (each a list of system calls on the
  process table, chosen from the state it sees), the frames on the wire, the sectors
  of a disk, the scan codes, the mode of the screen, the address of a program that the ELF loader loaded.
  Messages on the serial port are left out, but for those of the system calls. A user address is translated by the
  page tables of the model; an access to a page that is not mapped is \<open>None\<close>. So is a store of a system call into the
  kernel's half of the address space: it would overwrite the tables that the model keeps as records. The heap's headers and guard
  words are accessed through the page tables too: \<open>kmalloc\<close> is \<open>None\<close> when it would fault.

  \<^bold>\<open>Concurrency.\<close> \<open>Sync\<close> has every lock operation as a function, and the mutex and the read-write lock also
  as step relations: one step is one critical section under the spin lock (interrupts are off there), or
  one call that blocks; \<open>mutex_reach\<close> and \<open>rw_reach\<close> are all interleavings of any number of
  threads for the mutex, and of the at most \<open>MAX_TASKS\<close> tasks for the read-write lock, whose try locks and failing
  allocations of wait queue entries are steps as well.

  \<^bold>\<open>What is proved.\<close>
  \<^item> Memory: allocation takes the lowest free frame and the counters are exact; mapping and unmapping change one
    page; what \<open>kmalloc\<close> hands out overlaps nothing that a caller holds, on every heap reachable from boot; \<open>kmalloc\<close> and
    \<open>kfree\<close> are correct on well-formed heaps, and \<open>kmalloc\<close> faults only when no frame is left for a page table;
    \<open>mmap\<close> gives fresh zeroed frames to its pages and \<open>munmap\<close> takes them back.
  \<^item> Processes: the table stays well formed over all sequences of operations, fork copies, exit and wait hand
    over the exit code, \<open>SIGKILL\<close> always terminates, the two delivery routines agree.
  \<^item> Communication: a pipe is a bounded byte queue, a message queue a bounded list with selection by type.
  \<^item> Scheduling and locks: one running task and an exact ready queue in every state reached without blocking the last task that can
    run (\<open>task_lost\<close> shows what happens then), round robin;
    wait queues are first in, first out; mutual exclusion of mutex and read-write lock.
  \<^item> Security: a process never exceeds what it was permitted or regains what it dropped; filters are ordered
    rule lists; a user authenticates by the hash of the password.
  \<^item> Files: files that were not truncated are byte strings, directories name maps, path lookup is a walk along entries and mounts.
  \<^item> Network: the checksum verifies and detects any changed word but 0x0000 for 0xFFFF, routing is best match, polling ends, a ping between two hosts is
    answered and the TCP handshake completes.
  \<^item> Disks: on a sound volume writing and reading are inverse and touch no other file, freeing ends on every table, directory
    operations act on the list of live entries, a created name is found, what is written through a node is found again.
  \<^item> Devices: typed text, by the layout of a US keyboard, arrives in the event ring while it has room; no sequence of console or
    screen operations leaves its buffers (highlights that begin below the screen excepted), the console is a terminal with a history, the screen shows the buffer after a flush.
  \<^item> System calls: whatever its number and arguments, a call that does not overwrite or remap the kernel leaves every
    descriptor well typed; open, write, seek and read give
    back the bytes of a program; reading the standard input returns the typed line.
  \<^item> Behaviour that looks unintended is stated as theorems too (a lost task, lost wake-ups, a deadlock of the
    read-write lock, a frame freed that was never owned, and lemmas in the sections on what falls short).

  \<^bold>\<open>Bounds.\<close> Loops over tables are recursion over lists and always end. The walks over
  linked blocks and waiters (\<open>heap_find\<close>, \<open>heap_last\<close>, \<open>wake_all_loop\<close>), over cluster chains (\<open>find_loop\<close>, \<open>list_loop\<close>,
  \<open>create_loop\<close>, \<open>free_loop\<close> and others), the line of the framebuffer (\<open>line_loop\<close>) and the wait for keys (\<open>stdin_loop\<close>)
  are \<open>partial_function\<close>s into \<open>option\<close>;
  \<open>kmalloc_correct\<close>, \<open>waitqueue_fifo\<close>, \<open>fat_free_chain\<close>, \<open>fat_directory\<close>, \<open>fb_draw_line_ends\<close> and \<open>sys_read_line\<close> prove that they
  return. \<open>net_poll_n n\<close> allows \<open>n\<close> nested polls; \<open>net_poll_enough\<close> proves that one per waiting frame is enough.
  The claims on the framebuffer need a mode of at most 1024 by 768 pixels, the size of the array of cells.

  \<^bold>\<open>Not modelled.\<close> The other device drivers, interrupt controllers, ACPI, boot and context switch code (hardware), the
  shell and the user programs (interaction and output), the panic path, the ELF loader (its result is an argument), procfs (text
  about other components) and driver isolation (calls of driver entry points).
\<close>

end
